(* ===== verification/Prelude.thy ===== *)
theory Prelude
  imports Complex_Main "HOL-Library.Sublist" "HOL-Library.Code_Target_Nat"
begin

text \<open>
  Shared vocabulary of the development.

  \<^item> Python strings are lists of Unicode code points (\<open>ustring\<close>); \<open>lit\<close> turns an ASCII literal
    into one. \<open>slice a b xs\<close> is Python's \<open>xs[a:b]\<close> for nonnegative bounds.
  \<^item> The Unicode character database of the standard library (\<open>str.isspace\<close>, \<open>str.isalnum\<close>,
    \<open>unicodedata.category\<close>, \<open>str.casefold\<close>, \<dots>) is a table that is not part of the repository:
    it is the record \<open>unidb\<close>, an argument of every definition that reads it. \<open>ascii_db\<close> holds its
    ASCII and Hangul rows and is used to evaluate definitions on concrete input.
  \<^item> Python floats are \<open>pyfloat\<close> where the code tests for infinities and NaN, and exact rationals
    where it has already excluded them. Rounding is not modelled.
  \<^item> Exceptions are values of \<open>py_error\<close>, results that may raise are sums.
\<close>

named_theorems wf_intros \<open>introduction rules of component invariants\<close>
named_theorems span_simps \<open>rewrite rules for source spans and slices\<close>

text \<open>
  Evaluation by \<open>code_simp\<close>: a \<open>case\<close> on a pair becomes a \<open>Let\<close> with projections, so that the pair is
  computed before the branch is.
\<close>

lemma case_prod_let [code_unfold]: "case_prod f p = (let q = p in f (fst q) (snd q))"
  by (simp add: Let_def split_beta)

subsection \<open>Strings and slices\<close>

type_synonym ustring = "nat list"

fun char_val :: "char \<Rightarrow> nat" where
  "char_val (Char b0 b1 b2 b3 b4 b5 b6 b7) =
     (if b0 then 1 else 0) + (if b1 then 2 else 0) + (if b2 then 4 else 0) + (if b3 then 8 else 0)
     + (if b4 then 16 else 0) + (if b5 then 32 else 0) + (if b6 then 64 else 0)
     + (if b7 then 128 else 0)"

definition lit :: "string \<Rightarrow> ustring" where
  "lit s = map char_val s"

definition slice :: "nat \<Rightarrow> nat \<Rightarrow> 'a list \<Rightarrow> 'a list" where
  "slice a b xs = take (b - a) (drop a xs)"

lemma length_slice [span_simps]: "length (slice a b xs) = min (b - a) (length xs - a)"
  by (simp add: slice_def min.commute)

lemma slice_full [span_simps]: "slice 0 (length xs) xs = xs"
  by (simp add: slice_def)

lemma slice_zero [span_simps]: "slice 0 b xs = take b xs"
  by (simp add: slice_def)

lemma slice_append_slice:
  "a \<le> b \<Longrightarrow> b \<le> c \<Longrightarrow> slice a b xs @ slice b c xs = slice a c xs"
proof -
  assume ab: "a \<le> b" and bc: "b \<le> c"
  have "take (c - a) (drop a xs) = take (b - a) (drop a xs) @ take (c - b) (drop (b - a) (drop a xs))"
    using take_add [of "b - a" "c - b" "drop a xs"] ab bc by simp
  then show ?thesis using ab by (simp add: slice_def)
qed

lemma take_append_slice: "a \<le> b \<Longrightarrow> take a xs @ slice a b xs = take b xs"
  using slice_append_slice [of 0 a b xs] by (simp add: slice_zero)

lemma nth_slice: "i < b - a \<Longrightarrow> a + i < length xs \<Longrightarrow> slice a b xs ! i = xs ! (a + i)"
  by (simp add: slice_def)

lemma slice_cong_take: "take n xs = take n ys \<Longrightarrow> b \<le> n \<Longrightarrow> slice a b xs = slice a b ys"
proof -
  assume eq: "take n xs = take n ys" and b: "b \<le> n"
  have tk: "take b xs = take b ys"
    using arg_cong [OF eq, of "take b"] b by (simp add: min_absorb1)
  have "slice a b zs = drop a (take b zs)" for zs :: "'a list"
    by (simp add: slice_def drop_take)
  then show ?thesis using tk by simp
qed

text \<open>Length of the UTF-8 encoding of a string without surrogates.\<close>

definition utf8_width :: "nat \<Rightarrow> nat" where
  "utf8_width c = (if c < 128 then 1 else if c < 2048 then 2 else if c < 65536 then 3 else 4)"

definition utf8_len :: "ustring \<Rightarrow> nat" where
  "utf8_len s = sum_list (map utf8_width s)"

definition is_surrogate :: "nat \<Rightarrow> bool" where
  "is_surrogate c \<longleftrightarrow> 55296 \<le> c \<and> c \<le> 57343"

lemma utf8_len_append [simp]: "utf8_len (a @ b) = utf8_len a + utf8_len b"
  by (simp add: utf8_len_def)

lemma utf8_len_Nil [simp]: "utf8_len [] = 0"
  by (simp add: utf8_len_def)

lemma length_le_utf8_len: "length s \<le> utf8_len s"
  by (induction s) (auto simp: utf8_len_def utf8_width_def)

subsection \<open>The Unicode database and string methods over it\<close>

record unidb =
  u_isspace :: "nat \<Rightarrow> bool"
  u_isalnum :: "nat \<Rightarrow> bool"
  u_isalpha :: "nat \<Rightarrow> bool"
  u_isdecimal :: "nat \<Rightarrow> bool"
  u_combining :: "nat \<Rightarrow> bool"
  u_mark :: "nat \<Rightarrow> bool"
  u_casefold :: "nat \<Rightarrow> ustring"
  u_lower :: "nat \<Rightarrow> ustring"
  u_word :: "nat \<Rightarrow> bool"

definition ascii_lower :: "nat \<Rightarrow> nat" where
  "ascii_lower c = (if 65 \<le> c \<and> c \<le> 90 then c + 32 else c)"

definition ascii_db :: unidb where
  "ascii_db = \<lparr>
     u_isspace = (\<lambda>c. c = 32 \<or> (9 \<le> c \<and> c \<le> 13) \<or> (28 \<le> c \<and> c \<le> 31)),
     u_isalnum = (\<lambda>c. (48 \<le> c \<and> c \<le> 57) \<or> (65 \<le> c \<and> c \<le> 90) \<or> (97 \<le> c \<and> c \<le> 122)
                      \<or> (44032 \<le> c \<and> c \<le> 55203)),
     u_isalpha = (\<lambda>c. (65 \<le> c \<and> c \<le> 90) \<or> (97 \<le> c \<and> c \<le> 122) \<or> (44032 \<le> c \<and> c \<le> 55203)),
     u_isdecimal = (\<lambda>c. 48 \<le> c \<and> c \<le> 57),
     u_combining = (\<lambda>c. 768 \<le> c \<and> c \<le> 846),
     u_mark = (\<lambda>c. 768 \<le> c \<and> c \<le> 846),
     u_casefold = (\<lambda>c. [ascii_lower c]),
     u_lower = (\<lambda>c. [ascii_lower c]),
     u_word = (\<lambda>c. (48 \<le> c \<and> c \<le> 57) \<or> (65 \<le> c \<and> c \<le> 90) \<or> c = 95 \<or> (97 \<le> c \<and> c \<le> 122)
                   \<or> (768 \<le> c \<and> c \<le> 846) \<or> (44032 \<le> c \<and> c \<le> 55203)) \<rparr>"

text \<open>
  \<open>u_word\<close> is the class \<open>\w\<close> of the regular expressions of Pydantic: letters, marks, decimal digits,
  connector punctuation and join controls. \<open>str.casefold\<close>, \<open>str.lower\<close>, \<open>str.lstrip\<close>, \<open>str.rstrip\<close>,
  \<open>str.strip\<close>, \<open>str.split()\<close> follow. \<open>py_lower\<close> is per code point; the one context-sensitive case of
  \<open>str.lower\<close>, the final sigma, meets no string the code compares with.
\<close>

definition py_casefold :: "unidb \<Rightarrow> ustring \<Rightarrow> ustring" where
  "py_casefold uc s = concat (map (u_casefold uc) s)"

definition py_lower :: "unidb \<Rightarrow> ustring \<Rightarrow> ustring" where
  "py_lower uc s = concat (map (u_lower uc) s)"

definition rstrip_set :: "(nat \<Rightarrow> bool) \<Rightarrow> ustring \<Rightarrow> ustring" where
  "rstrip_set p s = rev (dropWhile p (rev s))"

definition py_strip :: "unidb \<Rightarrow> ustring \<Rightarrow> ustring" where
  "py_strip uc s = rstrip_set (u_isspace uc) (dropWhile (u_isspace uc) s)"

definition py_rstrip :: "unidb \<Rightarrow> ustring \<Rightarrow> ustring" where
  "py_rstrip uc s = rstrip_set (u_isspace uc) s"

lemma length_strip: "length (py_strip uc s) \<le> length s"
  unfolding py_strip_def rstrip_set_def
  by (metis length_dropWhile_le length_rev order_trans)

definition py_blank :: "unidb \<Rightarrow> ustring \<Rightarrow> bool" where
  "py_blank uc s \<longleftrightarrow> list_all (u_isspace uc) s"

function py_split :: "unidb \<Rightarrow> ustring \<Rightarrow> ustring list" where
  "py_split uc s =
     (case dropWhile (u_isspace uc) s of
        [] \<Rightarrow> []
      | c # r \<Rightarrow> (c # takeWhile (\<lambda>d. \<not> u_isspace uc d) r)
                 # py_split uc (dropWhile (\<lambda>d. \<not> u_isspace uc d) r))"
  by pat_completeness auto
termination
proof (relation "measure (\<lambda>(uc, s). length s)", simp, clarsimp)
  fix uc :: unidb and s c r
  assume d: "dropWhile (u_isspace uc) s = c # r"
  have "length (dropWhile (\<lambda>d. \<not> u_isspace uc d) r) \<le> length r" by (rule length_dropWhile_le)
  also have "length r < length (dropWhile (u_isspace uc) s)" by (simp add: d)
  also have "\<dots> \<le> length s" by (rule length_dropWhile_le)
  finally show "length (dropWhile (\<lambda>d. \<not> u_isspace uc d) r) < length s" .
qed

declare py_split.simps [simp del]

definition py_join :: "ustring \<Rightarrow> ustring list \<Rightarrow> ustring" where
  "py_join sep xs = (case xs of [] \<Rightarrow> [] | y # ys \<Rightarrow> y @ concat (map (\<lambda>z. sep @ z) ys))"

lemma py_strip_blank: "py_strip uc s = [] \<longleftrightarrow> py_blank uc s"
proof -
  have "py_strip uc s = [] \<longleftrightarrow> (\<forall>x \<in> set (dropWhile (u_isspace uc) s). u_isspace uc x)"
    by (simp add: py_strip_def rstrip_set_def dropWhile_eq_Nil_conv)
  also have "\<dots> \<longleftrightarrow> dropWhile (u_isspace uc) s = []"
    by (metis dropWhile_eq_Nil_conv hd_dropWhile list.set_sel(1) set_dropWhileD empty_iff list.set(1))
  finally show ?thesis by (simp add: py_blank_def dropWhile_eq_Nil_conv list_all_iff)
qed

subsection \<open>Floats, dynamic values, errors\<close>

datatype pyfloat = Fin rat | PInf | NInf | NaN

fun pf_finite :: "pyfloat \<Rightarrow> bool" where
  "pf_finite (Fin _) = True"
| "pf_finite _ = False"

fun pf_val :: "pyfloat \<Rightarrow> rat" where
  "pf_val (Fin q) = q"
| "pf_val _ = 0"

text \<open>A value handed to code that inspects its Python type: a number, a boolean or another object.\<close>

datatype pyval = PNum pyfloat | PBool bool | POther

datatype py_error =
    ValueError string
  | TypeError string
  | KeyError
  | TimeoutError string
  | RuntimeError string
  | TranslationError string bool
  | ProviderError string

type_synonym 'a res = "py_error + 'a"

definition res_bind :: "'a res \<Rightarrow> ('a \<Rightarrow> 'b res) \<Rightarrow> 'b res" where
  "res_bind m f = (case m of Inl e \<Rightarrow> Inl e | Inr x \<Rightarrow> f x)"

fun res_map :: "('a \<Rightarrow> 'b res) \<Rightarrow> 'a list \<Rightarrow> 'b list res" where
  "res_map f [] = Inr []"
| "res_map f (x # xs) = res_bind (f x) (\<lambda>y. res_bind (res_map f xs) (\<lambda>ys. Inr (y # ys)))"

lemma res_bind_Inr [simp]: "res_bind (Inr x) f = f x"
  by (simp add: res_bind_def)

lemma res_bind_Inl [simp]: "res_bind (Inl e) f = Inl e"
  by (simp add: res_bind_def)

lemma res_bind_eq_Inr: "res_bind m f = Inr y \<longleftrightarrow> (\<exists>x. m = Inr x \<and> f x = Inr y)"
  by (cases m) auto

lemma res_map_Inr_length: "res_map f xs = Inr ys \<Longrightarrow> length ys = length xs"
  by (induction xs arbitrary: ys) (auto simp: res_bind_eq_Inr)

subsection \<open>Association lists in insertion order, as Python dictionaries iterate\<close>

fun al_put :: "'k \<Rightarrow> 'v \<Rightarrow> ('k \<times> 'v) list \<Rightarrow> ('k \<times> 'v) list" where
  "al_put k v [] = [(k, v)]"
| "al_put k v ((k', v') # r) = (if k = k' then (k, v) # r else (k', v') # al_put k v r)"

definition al_del :: "'k \<Rightarrow> ('k \<times> 'v) list \<Rightarrow> ('k \<times> 'v) list" where
  "al_del k m = filter (\<lambda>p. fst p \<noteq> k) m"

lemma map_of_al_put [simp]: "map_of (al_put k v m) = (map_of m)(k \<mapsto> v)"
  by (induction m) (auto simp: fun_eq_iff)

lemma map_of_al_del [simp]: "map_of (al_del k m) = (map_of m)(k := None)"
  by (induction m) (auto simp: al_del_def fun_eq_iff)

lemma keys_al_put [simp]: "set (map fst (al_put k v m)) = insert k (set (map fst m))"
  by (induction k v m rule: al_put.induct) (simp_all add: insert_commute)

lemma keys_al_del [simp]: "set (map fst (al_del k m)) = set (map fst m) - {k}"
  by (auto simp: al_del_def)

lemma distinct_al_put: "distinct (map fst m) \<Longrightarrow> distinct (map fst (al_put k v m))"
proof (induction k v m rule: al_put.induct)
  case (2 k v k' v' r)
  then show ?case using keys_al_put [of k v r] by (auto simp del: keys_al_put)
qed simp

lemma distinct_al_del: "distinct (map fst m) \<Longrightarrow> distinct (map fst (al_del k m))"
  by (auto simp: al_del_def intro: distinct_map_filter)

lemma length_al_put_le: "length (al_put k v m) \<le> (if map_of m k = None then length m + 1 else length m)"
  by (induction m) auto

lemma length_al_put_old: "k \<in> set (map fst m) \<Longrightarrow> length (al_put k v m) = length m"
  by (induction k v m rule: al_put.induct) auto

lemma length_al_put_new: "length (al_put k v m) \<le> Suc (length m)"
  by (induction k v m rule: al_put.induct) auto

lemma map_of_in_fst: "map_of m k = Some v \<Longrightarrow> k \<in> set (map fst m)"
  by (force dest: map_of_SomeD)

lemma map_of_decompose:
  assumes "map_of m k = Some w"
  obtains a b where "m = a @ (k, w) # b" "\<And>v. al_put k v m = a @ (k, v) # b"
proof -
  have "\<exists>a b. m = a @ (k, w) # b \<and> (\<forall>v. al_put k v m = a @ (k, v) # b)"
    using assms
  proof (induction m)
    case (Cons p m)
    show ?case
    proof (cases "fst p = k")
      case True
      then have "p = (k, w)" using Cons.prems by (cases p) auto
      then show ?thesis by (intro exI [of _ "[]"] exI [of _ m]) simp
    next
      case False
      then obtain a b where "m = a @ (k, w) # b" "\<forall>v. al_put k v m = a @ (k, v) # b"
        using Cons.IH Cons.prems by (cases p) auto
      then show ?thesis using False by (cases p) (intro exI [of _ "p # a"] exI [of _ b], simp)
    qed
  qed simp
  then show thesis using that by blast
qed

end
