(* ===== verification/SourceText.thy ===== *)
theory SourceText
  imports Prelude
begin

text \<open>
  Model of \<^verbatim>\<open>src/app/utils/text.py\<close>: lexical units with exact source offsets.

  \<open>tokenize\<close> returns spans of the source; the lemmas show that the spans are ordered, disjoint,
  nonempty exact slices, that everything between two spans is white space, and that
  \<open>common_prefix_length\<close> is the longest shared prefix. The locale \<open>span_tokenizer\<close> is the
  interface the streaming components rely on.
\<close>

subsection \<open>Tokens\<close>

record token =
  tk_text :: ustring
  tk_start :: nat
  tk_end :: nat

definition cjk :: "nat \<Rightarrow> bool" where
  "cjk v \<longleftrightarrow> (0x3400 \<le> v \<and> v \<le> 0x9FFF) \<or> (0x20000 \<le> v \<and> v \<le> 0x323AF)
     \<or> (0x3040 \<le> v \<and> v \<le> 0x30FF) \<or> (0x31F0 \<le> v \<and> v \<le> 0x31FF)"

definition extends_cluster :: "unidb \<Rightarrow> nat \<Rightarrow> bool" where
  "extends_cluster uc c \<longleftrightarrow> u_combining uc c \<or> u_mark uc c
     \<or> (0xFE00 \<le> c \<and> c \<le> 0xFE0F) \<or> (0x1F3FB \<le> c \<and> c \<le> 0x1F3FF)
     \<or> (0xE0100 \<le> c \<and> c \<le> 0xE01EF)"

text \<open>The \<open>while\<close> loop of \<open>_cluster_end\<close>; 0x200D is the zero width joiner.\<close>

function cluster_loop :: "unidb \<Rightarrow> ustring \<Rightarrow> nat \<Rightarrow> nat" where
  "cluster_loop uc t e =
     (if e < length t then
        if extends_cluster uc (t ! e) then cluster_loop uc t (e + 1)
        else if t ! e = 0x200D \<and> e + 1 < length t then cluster_loop uc t (e + 2)
        else e
      else e)"
  by pat_completeness auto
termination
  by (relation "measure (\<lambda>(uc, t, e). length t - e)") auto

declare cluster_loop.simps [simp del]

definition cluster_end :: "unidb \<Rightarrow> ustring \<Rightarrow> nat \<Rightarrow> nat" where
  "cluster_end uc t start = cluster_loop uc t (start + 1)"

lemma cluster_loop_ge: "e \<le> cluster_loop uc t e"
proof (induction uc t e rule: cluster_loop.induct)
  case (1 uc t e)
  then show ?case by (subst cluster_loop.simps) (auto intro: order_trans [rotated])
qed

lemma cluster_loop_le: "e \<le> length t \<Longrightarrow> cluster_loop uc t e \<le> length t"
proof (induction uc t e rule: cluster_loop.induct)
  case (1 uc t e)
  then show ?case by (subst cluster_loop.simps) auto
qed

lemma cluster_end_gt: "p < cluster_end uc t p"
  using cluster_loop_ge [of "p + 1" uc t] by (simp add: cluster_end_def)

lemma cluster_end_le: "p < length t \<Longrightarrow> cluster_end uc t p \<le> length t"
  by (simp add: cluster_end_def cluster_loop_le)

definition word_char :: "unidb \<Rightarrow> nat \<Rightarrow> bool" where
  "word_char uc c \<longleftrightarrow> (u_isalnum uc c \<or> c = 95) \<and> \<not> cjk c"

text \<open>
  The inner \<open>while\<close> of \<open>tokenize\<close>: extend a word over word characters, an apostrophe before a
  letter (39 and 0x2019) and, inside a number, a full stop or comma before a digit (46, 44).
\<close>

function word_loop :: "unidb \<Rightarrow> ustring \<Rightarrow> nat \<Rightarrow> bool \<Rightarrow> nat" where
  "word_loop uc t p number =
     (if p < length t then
        if word_char uc (t ! p)
          then word_loop uc t (cluster_end uc t p) (number \<and> u_isdecimal uc (t ! p))
        else if (t ! p = 39 \<or> t ! p = 0x2019) \<and> p + 1 < length t
                \<and> u_isalpha uc (t ! (p + 1)) \<and> \<not> cjk (t ! (p + 1))
          then word_loop uc t (cluster_end uc t (p + 1)) False
        else if number \<and> (t ! p = 46 \<or> t ! p = 44) \<and> p + 1 < length t
                \<and> u_isdecimal uc (t ! (p + 1))
          then word_loop uc t (cluster_end uc t (p + 1)) number
        else p
      else p)"
  by pat_completeness auto
termination
proof (relation "measure (\<lambda>(uc, t, p, number). length t - p)", goal_cases)
  case (2 uc t p number)
  then show ?case using cluster_end_gt [of p uc t] by simp
next
  case (3 uc t p number)
  then have "p < cluster_end uc t (p + 1)" using cluster_end_gt [of "p + 1" uc t] by linarith
  with 3 show ?case by simp linarith
next
  case (4 uc t p number)
  then have "p < cluster_end uc t (p + 1)" using cluster_end_gt [of "p + 1" uc t] by linarith
  with 4 show ?case by simp linarith
qed simp

declare word_loop.simps [simp del]

lemma word_loop_ge: "p \<le> word_loop uc t p number"
proof (induction uc t p number rule: word_loop.induct)
  case (1 uc t p number)
  then show ?case
    using cluster_end_gt [of p uc t] cluster_end_gt [of "p + 1" uc t]
    by (subst word_loop.simps) (auto split: if_splits)
qed

lemma word_loop_le: "p \<le> length t \<Longrightarrow> word_loop uc t p number \<le> length t"
proof (induction uc t p number rule: word_loop.induct)
  case (1 uc t p number)
  then show ?case
    using cluster_end_le [of p t uc] cluster_end_le [of "p + 1" t uc]
    by (subst word_loop.simps) auto
qed

definition token_end_from :: "unidb \<Rightarrow> ustring \<Rightarrow> nat \<Rightarrow> nat" where
  "token_end_from uc t start =
     (let e = cluster_end uc t start
      in if word_char uc (t ! start) then word_loop uc t e (u_isdecimal uc (t ! start)) else e)"

lemma token_end_from_gt: "p < token_end_from uc t p"
  using cluster_end_gt [of p uc t] word_loop_ge [of "cluster_end uc t p" uc t]
  by (auto simp: token_end_from_def Let_def intro: less_le_trans)

lemma token_end_from_le: "p < length t \<Longrightarrow> token_end_from uc t p \<le> length t"
  by (auto simp: token_end_from_def Let_def intro: word_loop_le cluster_end_le)

function tokenize_from :: "unidb \<Rightarrow> ustring \<Rightarrow> nat \<Rightarrow> token list" where
  "tokenize_from uc t p =
     (if p < length t then
        if u_isspace uc (t ! p) then tokenize_from uc t (p + 1)
        else \<lparr>tk_text = slice p (token_end_from uc t p) t, tk_start = p,
              tk_end = token_end_from uc t p\<rparr> # tokenize_from uc t (token_end_from uc t p)
      else [])"
  by pat_completeness auto
termination
proof (relation "measure (\<lambda>(uc, t, p). length t - p)", goal_cases)
  case (3 uc t p)
  then show ?case using token_end_from_gt [of p uc t] by simp
qed simp_all

declare tokenize_from.simps [simp del]

definition tokenize :: "unidb \<Rightarrow> ustring \<Rightarrow> token list" where
  "tokenize uc t = tokenize_from uc t 0"

subsection \<open>Tokens are an exact partition of the source\<close>

text \<open>\<open>token_chain uc t p ks\<close>: from offset \<open>p\<close> on, \<open>ks\<close> and white space make up \<open>t\<close>.\<close>

fun token_chain :: "unidb \<Rightarrow> ustring \<Rightarrow> nat \<Rightarrow> token list \<Rightarrow> bool" where
  "token_chain uc t p [] \<longleftrightarrow> (\<forall>i \<in> {p..<length t}. u_isspace uc (t ! i))"
| "token_chain uc t p (k # ks) \<longleftrightarrow>
     p \<le> tk_start k \<and> tk_start k < tk_end k \<and> tk_end k \<le> length t
     \<and> tk_text k = slice (tk_start k) (tk_end k) t
     \<and> (\<forall>i \<in> {p..<tk_start k}. u_isspace uc (t ! i)) \<and> \<not> u_isspace uc (t ! tk_start k)
     \<and> token_chain uc t (tk_end k) ks"

lemma ball_range_Suc: "\<forall>i \<in> {Suc p..<n}. P i \<Longrightarrow> P p \<Longrightarrow> \<forall>i \<in> {p..<n}. P i"
  by (metis Suc_leI atLeastLessThan_iff nless_le)

lemma token_chain_skip:
  assumes "token_chain uc t (Suc p) ks" and "u_isspace uc (t ! p)"
  shows "token_chain uc t p ks"
proof (cases ks)
  case Nil
  with assms have "\<forall>i \<in> {Suc p..<length t}. u_isspace uc (t ! i)" by simp
  then show ?thesis
    unfolding Nil token_chain.simps using assms(2) by (rule ball_range_Suc)
next
  case (Cons k r)
  with assms have "\<forall>i \<in> {Suc p..<tk_start k}. u_isspace uc (t ! i)" by simp
  then have "\<forall>i \<in> {p..<tk_start k}. u_isspace uc (t ! i)"
    using assms(2) by (rule ball_range_Suc)
  with assms(1) show ?thesis unfolding Cons token_chain.simps by linarith
qed

lemma token_chain_from: "token_chain uc t p (tokenize_from uc t p)"
proof (induction uc t p rule: tokenize_from.induct)
  case (1 uc t p)
  show ?case
  proof (cases "p < length t")
    case True
    then show ?thesis
      using 1 token_end_from_gt [of p uc t] token_end_from_le [of p t uc]
      by (subst tokenize_from.simps) (auto intro: token_chain_skip)
  next
    case False
    then show ?thesis by (subst tokenize_from.simps) simp
  qed
qed

lemma tokenize_chain: "token_chain uc t 0 (tokenize uc t)"
  by (simp add: tokenize_def token_chain_from)

lemma token_chain_member:
  "token_chain uc t p ks \<Longrightarrow> k \<in> set ks \<Longrightarrow>
     p \<le> tk_start k \<and> tk_start k < tk_end k \<and> tk_end k \<le> length t
     \<and> tk_text k = slice (tk_start k) (tk_end k) t \<and> \<not> u_isspace uc (t ! tk_start k)"
proof (induction ks arbitrary: p)
  case (Cons a ks)
  then show ?case by (cases "k = a") (auto dest!: Cons.IH intro: order_trans)
qed simp

lemma token_chain_ordered:
  "token_chain uc t p ks \<Longrightarrow> i < j \<Longrightarrow> j < length ks \<Longrightarrow> tk_end (ks ! i) \<le> tk_start (ks ! j)"
proof (induction ks arbitrary: p i j)
  case (Cons a ks)
  then obtain j' where j: "j = Suc j'" by (cases j) auto
  show ?case
  proof (cases i)
    case 0
    have "ks ! j' \<in> set ks" using Cons.prems j by auto
    then show ?thesis using Cons.prems j 0 token_chain_member [of uc t "tk_end a" ks "ks ! j'"] by simp
  next
    case (Suc i')
    have "token_chain uc t (tk_end a) ks" using Cons.prems by simp
    then show ?thesis using Cons.IH [of "tk_end a" i' j'] Cons.prems Suc j by simp
  qed
qed simp

lemma token_chain_covers:
  "token_chain uc t p ks \<Longrightarrow> p \<le> i \<Longrightarrow> i < length t \<Longrightarrow> \<not> u_isspace uc (t ! i) \<Longrightarrow>
     \<exists>k \<in> set ks. tk_start k \<le> i \<and> i < tk_end k"
proof (induction ks arbitrary: p)
  case (Cons k ks)
  show ?case
  proof (cases "i < tk_end k")
    case True
    then have "tk_start k \<le> i" using Cons.prems by (auto simp: not_le [symmetric])
    then show ?thesis using True by auto
  next
    case False
    then show ?thesis using Cons.IH [of "tk_end k"] Cons.prems by auto
  qed
qed auto

text \<open>Putting the white space back between the tokens gives the source again.\<close>

fun rebuild :: "ustring \<Rightarrow> nat \<Rightarrow> token list \<Rightarrow> ustring" where
  "rebuild t p [] = drop p t"
| "rebuild t p (k # ks) = slice p (tk_start k) t @ tk_text k @ rebuild t (tk_end k) ks"

lemma rebuild_chain: "token_chain uc t p ks \<Longrightarrow> p \<le> length t \<Longrightarrow> rebuild t p ks = drop p t"
proof (induction ks arbitrary: p)
  case (Cons k ks)
  have "slice p (tk_start k) t @ slice (tk_start k) (tk_end k) t = slice p (tk_end k) t"
    using Cons.prems by (intro slice_append_slice) auto
  moreover have "slice p (tk_end k) t @ drop (tk_end k) t = drop p t"
    using Cons.prems append_take_drop_id [of "tk_end k - p" "drop p t"] by (simp add: slice_def)
  moreover have "rebuild t p (k # ks) = slice p (tk_start k) t @ tk_text k @ drop (tk_end k) t"
    using Cons by simp
  ultimately show ?case using Cons.prems by (metis append_assoc token_chain.simps(2))
qed simp

subsection \<open>Common prefixes\<close>

definition common_prefix_length :: "'a list list \<Rightarrow> nat" where
  "common_prefix_length seqs =
     (case seqs of
        [] \<Rightarrow> 0
      | s # rest \<Rightarrow>
          (let shortest = foldl min (length s) (map length rest)
           in case find (\<lambda>i. \<exists>q \<in> set rest. q ! i \<noteq> s ! i) [0..<shortest] of
                None \<Rightarrow> shortest
              | Some i \<Rightarrow> i))"

lemma foldl_min_le: "foldl min (a::nat) xs \<le> a \<and> (\<forall>x \<in> set xs. foldl min a xs \<le> x)"
proof (induction xs arbitrary: a)
  case (Cons x xs)
  have "foldl min (min a x) xs \<le> min a x" and "\<forall>y \<in> set xs. foldl min (min a x) xs \<le> y"
    using Cons [of "min a x"] by auto
  then show ?case by auto
qed simp

lemma foldl_min_in: "foldl min (a::nat) xs \<in> insert a (set xs)"
proof (induction xs arbitrary: a)
  case (Cons x xs)
  then show ?case using Cons.IH [of "min a x"] by (auto simp: min_def split: if_splits)
qed simp

lemma find_upt_Some:
  "find P [0..<n] = Some i \<Longrightarrow> i < n \<and> P i \<and> (\<forall>j < i. \<not> P j)"
  by (auto simp: find_Some_iff)

lemma find_upt_None: "find P [0..<n] = None \<Longrightarrow> j < n \<Longrightarrow> \<not> P j"
  by (auto simp: find_None_iff)

lemma common_prefix_length_le:
  assumes "s \<in> set seqs" shows "common_prefix_length seqs \<le> length s"
proof (cases seqs)
  case (Cons a rest)
  let ?m = "foldl min (length a) (map length rest)"
  have "?m \<le> length s" using assms Cons foldl_min_le [of "length a" "map length rest"] by auto
  moreover have "common_prefix_length seqs \<le> ?m"
    using Cons by (auto simp: common_prefix_length_def Let_def split: option.split
        dest!: find_upt_Some)
  ultimately show ?thesis by simp
qed (use assms in simp)

lemma common_prefix_length_agree:
  assumes "s \<in> set seqs" "q \<in> set seqs"
  shows "take (common_prefix_length seqs) s = take (common_prefix_length seqs) q"
proof (cases seqs)
  case (Cons a rest)
  let ?n = "common_prefix_length seqs"
  let ?m = "foldl min (length a) (map length rest)"
  have agree: "\<forall>q \<in> set rest. q ! i = a ! i" if "i < ?n" for i
  proof (cases "find (\<lambda>i. \<exists>q \<in> set rest. q ! i \<noteq> a ! i) [0..<?m]")
    case None
    then have "?n = ?m" using Cons by (simp add: common_prefix_length_def Let_def)
    then show ?thesis using find_upt_None [OF None, of i] that by auto
  next
    case (Some j)
    then have "?n = j" using Cons by (simp add: common_prefix_length_def Let_def)
    then show ?thesis using find_upt_Some [OF Some] that by auto
  qed
  have "take ?n x = take ?n a" if "x \<in> set seqs" for x
    using that agree common_prefix_length_le [OF that] common_prefix_length_le [of a seqs] Cons
    by (intro nth_equalityI) auto
  then show ?thesis using assms by metis
qed (use assms in simp)

lemma common_prefix_length_maximal:
  assumes "seqs \<noteq> []" and "\<forall>s \<in> set seqs. common_prefix_length seqs < length s"
  shows "\<exists>s \<in> set seqs. s ! common_prefix_length seqs \<noteq> hd seqs ! common_prefix_length seqs"
proof (cases seqs)
  case (Cons a rest)
  let ?m = "foldl min (length a) (map length rest)"
  show ?thesis
  proof (cases "find (\<lambda>i. \<exists>q \<in> set rest. q ! i \<noteq> a ! i) [0..<?m]")
    case None
    then have n: "common_prefix_length seqs = ?m"
      using Cons by (simp add: common_prefix_length_def Let_def)
    have "?m \<in> insert (length a) (set (map length rest))" by (rule foldl_min_in)
    then have "\<exists>s \<in> set seqs. length s = ?m" using Cons by auto
    then show ?thesis using assms n by force
  next
    case (Some j)
    then have "common_prefix_length seqs = j" using Cons by (simp add: common_prefix_length_def Let_def)
    then show ?thesis using find_upt_Some [OF Some] Cons by auto
  qed
qed (use assms in simp)

subsection \<open>Character end of a token count\<close>

definition char_end :: "token list \<Rightarrow> nat \<Rightarrow> nat" where
  "char_end ks n = (if n = 0 then 0 else tk_end (ks ! (n - 1)))"

definition token_char_end :: "token list \<Rightarrow> int \<Rightarrow> nat res" where
  "token_char_end ks count =
     (if \<not> (0 \<le> count \<and> count \<le> int (length ks))
      then Inl (ValueError ''token count is outside the source'')
      else Inr (char_end ks (nat count)))"

text \<open>The source boundaries a prefix may end on.\<close>

definition is_boundary :: "token list \<Rightarrow> nat \<Rightarrow> bool" where
  "is_boundary ks e \<longleftrightarrow> e = 0 \<or> e \<in> set (map tk_end ks)"

lemma is_boundary_char_end: "n \<le> length ks \<Longrightarrow> is_boundary ks (char_end ks n)"
  by (auto simp: is_boundary_def char_end_def)

subsection \<open>Interface of the tokenizer\<close>

locale span_tokenizer =
  fixes toks :: "ustring \<Rightarrow> token list"
  assumes span: "k \<in> set (toks t) \<Longrightarrow>
      tk_start k < tk_end k \<and> tk_end k \<le> length t \<and> tk_text k = slice (tk_start k) (tk_end k) t"
    and ordered: "i < j \<Longrightarrow> j < length (toks t) \<Longrightarrow> tk_end (toks t ! i) \<le> tk_start (toks t ! j)"
begin

lemma end_mono_less: "i < j \<Longrightarrow> j < length (toks t) \<Longrightarrow> tk_end (toks t ! i) < tk_end (toks t ! j)"
  using ordered [of i j t] span [of "toks t ! j" t] by (force intro: le_less_trans)

lemma end_mono_iff:
  "i < length (toks t) \<Longrightarrow> j < length (toks t) \<Longrightarrow>
     tk_end (toks t ! i) \<le> tk_end (toks t ! j) \<longleftrightarrow> i \<le> j"
  by (metis end_mono_less leD leI nat_less_le order_refl)

lemma char_end_le: "n \<le> length (toks t) \<Longrightarrow> char_end (toks t) n \<le> length t"
  using span [of "toks t ! (n - 1)" t] by (auto simp: char_end_def)

lemma char_end_mono:
  assumes "m \<le> n" "n \<le> length (toks t)" shows "char_end (toks t) m \<le> char_end (toks t) n"
proof (cases "m = 0")
  case False
  then show ?thesis using assms end_mono_iff [of "m - 1" t "n - 1"] by (simp add: char_end_def)
qed (simp add: char_end_def)

lemma count_ends_char_end:
  assumes "n \<le> length (toks t)"
  shows "length (filter (\<lambda>k. tk_end k \<le> char_end (toks t) n) (toks t)) = n"
proof -
  have "{i. i < length (toks t) \<and> tk_end (toks t ! i) \<le> char_end (toks t) n} = {..<n}"
  proof (cases n)
    case 0
    then show ?thesis using span by (force simp: char_end_def dest: nth_mem)
  next
    case (Suc m)
    then show ?thesis using assms end_mono_iff [of _ t m] by (auto simp: char_end_def)
  qed
  then show ?thesis by (simp add: length_filter_conv_card)
qed

lemma boundary_char_end:
  assumes "is_boundary (toks t) e"
  obtains n where "n \<le> length (toks t)" "e = char_end (toks t) n"
proof (cases "e = 0")
  case True
  then show ?thesis using that [of 0] by (simp add: char_end_def)
next
  case False
  then obtain i where "i < length (toks t)" "e = tk_end (toks t ! i)"
    using assms by (auto simp: is_boundary_def in_set_conv_nth)
  then show ?thesis using that [of "Suc i"] by (simp add: char_end_def)
qed

end

interpretation py_tokens: span_tokenizer "tokenize uc" for uc
proof (unfold_locales, goal_cases)
  case (1 k t)
  then show ?case using token_chain_member [OF tokenize_chain] by blast
next
  case (2 i j t)
  then show ?case using token_chain_ordered [OF tokenize_chain] by blast
qed

end
