(* ===== verification/Stability.thy ===== *)
theory Stability
  imports SourceText
begin

text \<open>
  Model of \<^verbatim>\<open>src/app/streaming/stability.py\<close>: the \<open>StabilityTracker\<close> of one utterance.

  The tracker keeps the last \<open>window_size\<close> hypotheses and promotes a token prefix to stable when
  all of them agree on it and its evidence score reaches the threshold; a committed prefix is
  protected from later partial hypotheses. A method returns the tracker as it stands when the
  method returns or raises, with the result or the exception. Clock readings are arguments.
\<close>

subsection \<open>State\<close>

record stability =
  st_text :: ustring
  st_sequence :: int
  st_count :: nat
  st_char_end :: nat
  st_score :: rat
  st_confidence :: "rat option"
  st_age_ms :: rat
  st_conflict :: bool
  st_reconcile :: bool
  st_final :: bool

record weights =
  w_agreement :: rat
  w_confidence :: rat
  w_age :: rat
  w_pause :: rat

record tracker =
  tr_window :: nat
  tr_threshold :: rat
  tr_horizon :: rat
  tr_pause_threshold :: rat
  tr_max_chars :: nat
  tr_hold_last :: bool
  tr_weights :: weights
  tr_history :: "ustring list list"
  tr_tokens :: "token list"
  tr_seen :: "rat list"
  tr_text :: ustring
  tr_sequence :: int
  tr_final :: bool
  tr_confidences :: "rat option list"
  tr_pause :: "rat option"
  tr_committed :: ustring
  tr_last_time :: "rat option"
  tr_result :: "stability option"

text \<open>\<open>reset\<close> keeps the limits and clears what was observed.\<close>

definition tracker_reset :: "tracker \<Rightarrow> tracker" where
  "tracker_reset tr = tr\<lparr>tr_history := [], tr_tokens := [], tr_seen := [], tr_text := [],
     tr_sequence := -1, tr_final := False, tr_confidences := [], tr_pause := None,
     tr_committed := [], tr_last_time := None, tr_result := None\<rparr>"

definition new_tracker ::
    "int \<Rightarrow> rat \<Rightarrow> rat \<Rightarrow> rat \<Rightarrow> int \<Rightarrow> weights \<Rightarrow> bool \<Rightarrow> tracker res" where
  "new_tracker window threshold horizon pause_threshold max_chars w hold =
     (if \<not> (2 \<le> window \<and> window \<le> 32) \<or> \<not> (0 \<le> threshold \<and> threshold \<le> 1)
        then Inl (ValueError ''Invalid stability history or threshold'')
      else if horizon \<le> 0 \<or> pause_threshold \<le> 0 \<or> max_chars < 1
        then Inl (ValueError ''Stability limits must be positive'')
      else if w_agreement w < 0 \<or> w_confidence w < 0 \<or> w_age w < 0 \<or> w_pause w < 0
              \<or> (w_agreement w = 0 \<and> w_confidence w = 0 \<and> w_age w = 0 \<and> w_pause w = 0)
        then Inl (ValueError ''Stability weights must be nonnegative and have a positive sum'')
      else Inr (tracker_reset \<lparr>tr_window = nat window, tr_threshold = threshold,
             tr_horizon = horizon, tr_pause_threshold = pause_threshold,
             tr_max_chars = nat max_chars, tr_hold_last = hold, tr_weights = w,
             tr_history = [], tr_tokens = [], tr_seen = [], tr_text = [], tr_sequence = -1,
             tr_final = False, tr_confidences = [], tr_pause = None, tr_committed = [],
             tr_last_time = None, tr_result = None\<rparr>))"

definition tracker_now :: "tracker \<Rightarrow> pyfloat \<Rightarrow> tracker \<times> rat res" where
  "tracker_now tr clk =
     (if \<not> pf_finite clk then (tr, Inl (ValueError ''Monotonic clock must be finite''))
      else (let v = (case tr_last_time tr of None \<Rightarrow> pf_val clk | Some l \<Rightarrow> max (pf_val clk) l)
            in (tr\<lparr>tr_last_time := Some v\<rparr>, Inr v)))"

fun probability :: "pyval \<Rightarrow> rat option" where
  "probability (PNum (Fin q)) = (if 0 \<le> q \<and> q \<le> 1 then Some q else None)"
| "probability _ = None"

text \<open>The \<open>confidences\<close> argument of \<open>observe\<close>: absent, one number, or one value per token.\<close>

datatype conf_arg = NoConf | OneConf pyval | ConfSeq "pyval list"

fun spread_confidences :: "conf_arg \<Rightarrow> nat \<Rightarrow> rat option list" where
  "spread_confidences NoConf n = replicate n None"
| "spread_confidences (OneConf v) n = replicate n (probability v)"
| "spread_confidences (ConfSeq vs) n =
     (if length vs = n then map probability vs else replicate n None)"

fun pause_value :: "pyval \<Rightarrow> rat option" where
  "pause_value (PNum (Fin q)) = (if 0 \<le> q then Some q else None)"
| "pause_value _ = None"

subsection \<open>Evaluation of the observed hypotheses\<close>

definition prefix_conflict :: "tracker \<Rightarrow> bool" where
  "prefix_conflict tr \<longleftrightarrow>
     \<not> prefix (tr_committed tr) (tr_text tr)
     \<or> (length (tr_committed tr) \<noteq> 0
        \<and> length (tr_committed tr) \<notin> set (map tk_end (tr_tokens tr)))"

definition agreement_count :: "tracker \<Rightarrow> nat" where
  "agreement_count tr =
     (if length (tr_history tr) = tr_window tr then common_prefix_length (tr_history tr) else 0)"

definition available_count :: "unidb \<Rightarrow> tracker \<Rightarrow> nat" where
  "available_count uc tr =
     (let n = length (tr_tokens tr);
          available = (if tr_final tr then n else agreement_count tr)
      in if tr_hold_last tr \<and> \<not> tr_final tr \<and> tr_tokens tr \<noteq> [] \<and> available = n
            \<and> tk_end (last (tr_tokens tr)) = length (tr_text tr)
            \<and> (\<exists>c \<in> set (tk_text (last (tr_tokens tr))). u_isalnum uc c)
         then available - 1 else available)"

definition token_score :: "tracker \<Rightarrow> rat \<Rightarrow> nat \<Rightarrow> rat" where
  "token_score tr now i =
     (let w = tr_weights tr;
          age = max 0 ((now - tr_seen tr ! i) * 1000);
          weighted = w_agreement w + w_age w * min 1 (age / tr_horizon tr);
          weight = w_agreement w + w_age w;
          (weighted, weight) =
            (case tr_confidences tr ! i of
               None \<Rightarrow> (weighted, weight)
             | Some c \<Rightarrow> (weighted + w_confidence w * c, weight + w_confidence w));
          (weighted, weight) =
            (case tr_pause tr of
               None \<Rightarrow> (weighted, weight)
             | Some p \<Rightarrow> (weighted + w_pause w * min 1 (p / tr_pause_threshold tr),
                           weight + w_pause w))
      in if tr_final tr then 1 else if weight \<noteq> 0 then weighted / weight else 0)"

definition min_score :: "rat list \<Rightarrow> nat \<Rightarrow> rat" where
  "min_score scores count =
     (let xs = (if take count scores \<noteq> [] then take count scores
                else if scores \<noteq> [] then scores else [0])
      in foldl min (hd xs) (tl xs))"

text \<open>
  \<open>stable == index and score + 1e-12 >= threshold\<close> counts the longest prefix of scores that
  reach the threshold.
\<close>

definition stable_prefix :: "tracker \<Rightarrow> rat list \<Rightarrow> nat" where
  "stable_prefix tr scores =
     length (takeWhile (\<lambda>s. tr_threshold tr \<le> s + 1 / 1000000000000) scores)"

definition committed_count :: "tracker \<Rightarrow> nat" where
  "committed_count tr =
     length (filter (\<lambda>k. tk_end k \<le> length (tr_committed tr)) (tr_tokens tr))"

definition stable_count :: "tracker \<Rightarrow> rat list \<Rightarrow> nat" where
  "stable_count tr scores =
     (let settled = (if prefix_conflict tr \<and> \<not> tr_final tr then 0 else stable_prefix tr scores)
      in if \<not> prefix_conflict tr then max settled (committed_count tr) else settled)"

definition known_confidences :: "tracker \<Rightarrow> nat \<Rightarrow> rat list" where
  "known_confidences tr available =
     map the (filter (\<lambda>v. v \<noteq> None) (take available (tr_confidences tr)))"

definition evaluate_tracker :: "unidb \<Rightarrow> tracker \<Rightarrow> rat \<Rightarrow> tracker \<times> stability res" where
  "evaluate_tracker uc tr now =
     (let conflict = prefix_conflict tr;
          available = available_count uc tr;
          scores = map (token_score tr now) [0..<available];
          count = stable_count tr scores;
          known = known_confidences tr available
      in case token_char_end (tr_tokens tr) (int count) of
           Inl e \<Rightarrow> (tr, Inl e)
         | Inr ce \<Rightarrow>
             (let r = \<lparr>st_text = tr_text tr, st_sequence = tr_sequence tr, st_count = count,
                   st_char_end = ce, st_score = min_score scores count,
                   st_confidence = (if known \<noteq> []
                      then Some (sum_list known / of_nat (length known)) else None),
                   st_age_ms = (if tr_seen tr \<noteq> []
                      then max 0 ((now - hd (tr_seen tr)) * 1000) else 0),
                   st_conflict = conflict, st_reconcile = conflict \<and> tr_final tr,
                   st_final = tr_final tr\<rparr>
              in (tr\<lparr>tr_result := Some r\<rparr>, Inr r)))"

subsection \<open>Public operations\<close>

text \<open>\<open>push_bounded\<close> is \<open>append\<close> on a \<open>deque(maxlen=n)\<close>.\<close>

definition push_bounded :: "nat \<Rightarrow> 'a \<Rightarrow> 'a list \<Rightarrow> 'a list" where
  "push_bounded n x xs = drop (length xs + 1 - n) (xs @ [x])"

definition record_hypothesis ::
    "unidb \<Rightarrow> tracker \<Rightarrow> rat \<Rightarrow> ustring \<Rightarrow> int \<Rightarrow> bool \<Rightarrow> conf_arg \<Rightarrow> pyval \<Rightarrow> tracker" where
  "record_hypothesis uc tr now txt sequence final conf pause =
     (let tokens = tokenize uc txt;
          values = map tk_text tokens;
          retained = common_prefix_length [map tk_text (tr_tokens tr), values]
      in tr\<lparr>tr_seen := take retained (tr_seen tr) @ replicate (length tokens - retained) now,
            tr_history := push_bounded (tr_window tr) values (tr_history tr),
            tr_tokens := tokens, tr_text := txt, tr_sequence := sequence, tr_final := final,
            tr_confidences := spread_confidences conf (length tokens),
            tr_pause := pause_value pause\<rparr>)"

definition observe ::
    "unidb \<Rightarrow> tracker \<Rightarrow> pyfloat \<Rightarrow> ustring \<Rightarrow> int \<Rightarrow> bool \<Rightarrow> conf_arg \<Rightarrow> pyval
       \<Rightarrow> tracker \<times> stability res" where
  "observe uc tr clk txt sequence final conf pause =
     (if length txt > tr_max_chars tr
        then (tr, Inl (ValueError ''Source exceeds tracker character limit''))
      else if sequence \<le> tr_sequence tr
        then (tr, Inl (ValueError ''ASR sequence must strictly increase''))
      else case tracker_now tr clk of
          (tr1, Inl e) \<Rightarrow> (tr1, Inl e)
        | (tr1, Inr now) \<Rightarrow>
            evaluate_tracker uc (record_hypothesis uc tr1 now txt sequence final conf pause) now)"

definition refresh :: "unidb \<Rightarrow> tracker \<Rightarrow> pyfloat \<Rightarrow> tracker \<times> stability option res" where
  "refresh uc tr clk =
     (if tr_sequence tr < 0 then (tr, Inr None)
      else case tracker_now tr clk of
          (tr1, Inl e) \<Rightarrow> (tr1, Inl e)
        | (tr1, Inr now) \<Rightarrow>
            (case evaluate_tracker uc tr1 now of
               (tr2, Inl e) \<Rightarrow> (tr2, Inl e)
             | (tr2, Inr r) \<Rightarrow> (tr2, Inr (Some r))))"

definition commit_prefix ::
    "unidb \<Rightarrow> tracker \<Rightarrow> pyfloat \<Rightarrow> int \<Rightarrow> bool \<Rightarrow> tracker \<times> stability res" where
  "commit_prefix uc tr clk ce allow =
     (case tr_result tr of
        None \<Rightarrow> (tr, Inl (ValueError ''No observed source to commit''))
      | Some r \<Rightarrow>
          if ce \<notin> set (0 # map (int \<circ> tk_end) (tr_tokens tr))
            then (tr, Inl (ValueError ''Commit must end on a source token boundary''))
          else if \<not> (0 \<le> ce \<and> ce \<le> int (st_char_end r))
            then (tr, Inl (ValueError ''Cannot commit beyond the stable source''))
          else if (st_conflict r \<or> ce < int (length (tr_committed tr))) \<and> \<not> (allow \<and> tr_final tr)
            then (tr, Inl (ValueError
                   ''Committed source replacement requires explicit final reconciliation''))
          else (let tr1 = tr\<lparr>tr_committed := take (nat ce) (tr_text tr)\<rparr>
                in case tracker_now tr1 clk of
                     (tr2, Inl e) \<Rightarrow> (tr2, Inl e)
                   | (tr2, Inr now) \<Rightarrow> evaluate_tracker uc tr2 now))"

subsection \<open>Invariant\<close>

definition tracker_limits :: "tracker \<Rightarrow> bool" where
  "tracker_limits tr \<longleftrightarrow> 2 \<le> tr_window tr \<and> 0 \<le> tr_threshold tr \<and> tr_threshold tr \<le> 1
     \<and> 0 < tr_horizon tr \<and> 0 < tr_pause_threshold tr
     \<and> 0 \<le> w_agreement (tr_weights tr) \<and> 0 \<le> w_confidence (tr_weights tr)
     \<and> 0 \<le> w_age (tr_weights tr) \<and> 0 \<le> w_pause (tr_weights tr)"

definition evidence_ok :: "tracker \<Rightarrow> bool" where
  "evidence_ok tr \<longleftrightarrow> length (tr_seen tr) = length (tr_tokens tr)
     \<and> length (tr_confidences tr) = length (tr_tokens tr)
     \<and> (\<forall>c. Some c \<in> set (tr_confidences tr) \<longrightarrow> 0 \<le> c \<and> c \<le> 1)
     \<and> (\<forall>p. tr_pause tr = Some p \<longrightarrow> 0 \<le> p)"

definition history_ok :: "tracker \<Rightarrow> bool" where
  "history_ok tr \<longleftrightarrow> length (tr_history tr) \<le> tr_window tr
     \<and> (if tr_history tr = [] then tr_tokens tr = []
        else last (tr_history tr) = map tk_text (tr_tokens tr))"

definition result_ok :: "tracker \<Rightarrow> stability \<Rightarrow> bool" where
  "result_ok tr r \<longleftrightarrow> st_text r = tr_text tr \<and> st_final r = tr_final tr
     \<and> st_conflict r = prefix_conflict tr \<and> st_reconcile r = (prefix_conflict tr \<and> tr_final tr)
     \<and> st_count r \<le> length (tr_tokens tr) \<and> st_char_end r = char_end (tr_tokens tr) (st_count r)
     \<and> (\<not> prefix_conflict tr \<longrightarrow> length (tr_committed tr) \<le> st_char_end r)
     \<and> 0 \<le> st_score r \<and> st_score r \<le> 1"

definition tracker_core :: "unidb \<Rightarrow> tracker \<Rightarrow> bool" where
  "tracker_core uc tr \<longleftrightarrow> tracker_limits tr \<and> tr_tokens tr = tokenize uc (tr_text tr)
     \<and> evidence_ok tr \<and> history_ok tr"

definition tracker_wf :: "unidb \<Rightarrow> tracker \<Rightarrow> bool" where
  "tracker_wf uc tr \<longleftrightarrow> tracker_core uc tr \<and> (\<forall>r. tr_result tr = Some r \<longrightarrow> result_ok tr r)"

lemmas tracker_core_defs =
  tracker_core_def tracker_limits_def evidence_ok_def history_ok_def

text \<open>Frame rules: the clock, the stored result and the committed text are not evidence.\<close>

lemma tracker_core_frame [simp]:
  "tracker_core uc (tr\<lparr>tr_result := x\<rparr>) = tracker_core uc tr"
  "tracker_core uc (tr\<lparr>tr_last_time := v\<rparr>) = tracker_core uc tr"
  "tracker_core uc (tr\<lparr>tr_committed := c\<rparr>) = tracker_core uc tr"
  unfolding tracker_core_defs by simp_all

lemma result_ok_frame [simp]:
  "result_ok (tr\<lparr>tr_result := x\<rparr>) r = result_ok tr r"
  "result_ok (tr\<lparr>tr_last_time := v\<rparr>) r = result_ok tr r"
  by (simp_all add: result_ok_def prefix_conflict_def)

lemma tracker_wf_time [simp]: "tracker_wf uc (tr\<lparr>tr_last_time := v\<rparr>) = tracker_wf uc tr"
  by (simp add: tracker_wf_def)

lemma tracker_wf_result:
  "tracker_core uc tr \<Longrightarrow> result_ok tr r \<Longrightarrow> tracker_wf uc (tr\<lparr>tr_result := Some r\<rparr>)"
  by (simp add: tracker_wf_def)

lemma tokenize_Nil [simp]: "tokenize uc [] = []"
  by (simp add: tokenize_def tokenize_from.simps)

lemma tracker_reset_wf: "tracker_limits tr \<Longrightarrow> tracker_wf uc (tracker_reset tr)"
  by (simp add: tracker_wf_def tracker_core_defs tracker_reset_def)

lemma new_tracker_wf: "new_tracker n th h pt mc w hold = Inr tr \<Longrightarrow> tracker_wf uc tr"
  unfolding new_tracker_def
  by (auto simp: tracker_limits_def split: if_splits intro!: tracker_reset_wf)

subsection \<open>Bounds of the evaluation\<close>

lemma agreement_count_le:
  assumes "tracker_core uc tr" shows "agreement_count tr \<le> length (tr_tokens tr)"
proof (cases "length (tr_history tr) = tr_window tr")
  case True
  then have ne: "tr_history tr \<noteq> []" using assms by (auto simp: tracker_core_defs)
  then have "last (tr_history tr) \<in> set (tr_history tr)" by simp
  from common_prefix_length_le [OF this] show ?thesis
    using assms ne True by (simp add: tracker_core_defs agreement_count_def)
qed (simp add: agreement_count_def)

lemma available_count_le:
  "tracker_core uc tr \<Longrightarrow> available_count uc tr \<le> length (tr_tokens tr)"
  using agreement_count_le [of uc tr] by (auto simp: available_count_def Let_def)

lemma stable_prefix_le: "stable_prefix tr scores \<le> length scores"
  by (simp add: stable_prefix_def length_takeWhile_le)

lemma stable_count_le:
  "length scores \<le> length (tr_tokens tr) \<Longrightarrow> stable_count tr scores \<le> length (tr_tokens tr)"
  using stable_prefix_le [of tr scores]
  by (auto simp: stable_count_def committed_count_def Let_def)

text \<open>Without a conflict the committed text ends exactly after its own tokens.\<close>

lemma committed_boundary:
  assumes "tr_tokens tr = tokenize uc (tr_text tr)" and "\<not> prefix_conflict tr"
  shows "length (tr_committed tr) = char_end (tr_tokens tr) (committed_count tr)"
proof -
  have "is_boundary (tokenize uc (tr_text tr)) (length (tr_committed tr))"
    using assms by (auto simp: prefix_conflict_def is_boundary_def)
  then obtain n where "n \<le> length (tokenize uc (tr_text tr))"
      "length (tr_committed tr) = char_end (tokenize uc (tr_text tr)) n"
    by (rule py_tokens.boundary_char_end)
  then show ?thesis using assms py_tokens.count_ends_char_end [of n uc "tr_text tr"]
    by (simp add: committed_count_def)
qed

lemma committed_within_stable:
  assumes "tr_tokens tr = tokenize uc (tr_text tr)" and "\<not> prefix_conflict tr"
    and "length scores \<le> length (tr_tokens tr)"
  shows "length (tr_committed tr) \<le> char_end (tr_tokens tr) (stable_count tr scores)"
proof -
  have "committed_count tr \<le> stable_count tr scores"
    using assms(2) by (simp add: stable_count_def Let_def)
  then have "char_end (tr_tokens tr) (committed_count tr) \<le> char_end (tr_tokens tr) (stable_count tr scores)"
    using assms(1) stable_count_le [OF assms(3)] by (metis py_tokens.char_end_mono)
  then show ?thesis using committed_boundary [OF assms(1,2)] by simp
qed

text \<open>Scores are weighted means of evidence in the unit interval.\<close>

lemma weighted_part: "0 \<le> (w::rat) \<Longrightarrow> 0 \<le> x \<Longrightarrow> 0 \<le> w * min 1 x \<and> w * min 1 x \<le> w"
  by (cases "x \<le> 1") (auto simp: mult_left_le)

lemma ratio_bounds:
  fixes a b :: rat
  assumes "0 \<le> a" "a \<le> b"
  shows "0 \<le> (if b \<noteq> 0 then a / b else 0) \<and> (if b \<noteq> 0 then a / b else 0) \<le> 1"
  using assms by (auto simp: divide_le_eq_1 zero_le_divide_iff)

lemma token_score_bounds:
  assumes "tracker_core uc tr" and "i < length (tr_tokens tr)"
  shows "0 \<le> token_score tr now i \<and> token_score tr now i \<le> 1"
proof -
  let ?w = "tr_weights tr"
  let ?ag = "w_age ?w * min 1 (max 0 ((now - tr_seen tr ! i) * 1000) / tr_horizon tr)"
  have lim: "0 \<le> w_agreement ?w" "0 \<le> w_confidence ?w" "0 \<le> w_age ?w" "0 \<le> w_pause ?w"
      "0 < tr_horizon tr" "0 < tr_pause_threshold tr"
    using assms by (auto simp: tracker_core_defs)
  have ag: "0 \<le> ?ag \<and> ?ag \<le> w_age ?w" using lim by (intro weighted_part) auto
  obtain cw cm where cw: "(cw, cm) = (case tr_confidences tr ! i of None \<Rightarrow> (0, 0)
      | Some c \<Rightarrow> (w_confidence ?w * c, w_confidence ?w))" by (metis surj_pair)
  have c: "0 \<le> cw \<and> cw \<le> cm"
  proof (cases "tr_confidences tr ! i")
    case (Some c)
    then have "Some c \<in> set (tr_confidences tr)"
      using assms by (metis evidence_ok_def nth_mem tracker_core_def)
    then have "0 \<le> c \<and> c \<le> 1" using assms by (auto simp: tracker_core_defs)
    then show ?thesis using cw Some lim by (auto simp: mult_left_le)
  qed (use cw in auto)
  obtain pw pm where pw: "(pw, pm) = (case tr_pause tr of None \<Rightarrow> (0, 0)
      | Some p \<Rightarrow> (w_pause ?w * min 1 (p / tr_pause_threshold tr), w_pause ?w))" by (metis surj_pair)
  have p: "0 \<le> pw \<and> pw \<le> pm"
  proof (cases "tr_pause tr")
    case (Some q)
    then have "0 \<le> q" using assms by (auto simp: tracker_core_defs)
    then show ?thesis using pw Some lim weighted_part [of "w_pause ?w" "q / tr_pause_threshold tr"] by auto
  qed (use pw in auto)
  have "token_score tr now i = (if tr_final tr then 1 else
      if w_agreement ?w + w_age ?w + cm + pm \<noteq> 0
      then (w_agreement ?w + ?ag + cw + pw) / (w_agreement ?w + w_age ?w + cm + pm) else 0)"
    using cw pw by (auto simp: token_score_def Let_def split: option.splits)
  then show ?thesis
    using ratio_bounds [of "w_agreement ?w + ?ag + cw + pw" "w_agreement ?w + w_age ?w + cm + pm"]
      ag c p lim by auto
qed

lemma foldl_min_rat: "foldl min (a::rat) xs \<in> insert a (set xs)"
proof (induction xs arbitrary: a)
  case (Cons x xs)
  then show ?case using Cons.IH [of "min a x"] by (auto simp: min_def split: if_splits)
qed simp

lemma min_score_bounds:
  assumes "\<forall>s \<in> set scores. 0 \<le> s \<and> s \<le> 1"
  shows "0 \<le> min_score scores n \<and> min_score scores n \<le> 1"
proof -
  have "0 \<le> foldl min (hd xs) (tl xs) \<and> foldl min (hd xs) (tl xs) \<le> 1"
    if "xs \<noteq> []" "\<forall>s \<in> set xs. 0 \<le> s \<and> s \<le> 1" for xs :: "rat list"
    using that foldl_min_rat [of "hd xs" "tl xs"] by (cases xs) auto
  note this [of "take n scores"] this [of scores]
  then show ?thesis using assms by (auto simp: min_score_def Let_def dest: in_set_takeD)
qed

subsection \<open>Evaluation and the operations keep the invariant\<close>

lemma prefix_conflict_result [simp]: "prefix_conflict (tr\<lparr>tr_result := r\<rparr>) = prefix_conflict tr"
  by (simp add: prefix_conflict_def)

lemma evaluate_tracker_ok:
  assumes "tracker_core uc tr"
  obtains r where "evaluate_tracker uc tr now = (tr\<lparr>tr_result := Some r\<rparr>, Inr r)"
    and "result_ok tr r"
    and "st_count r = stable_count tr (map (token_score tr now) [0..<available_count uc tr])"
proof -
  let ?scores = "map (token_score tr now) [0..<available_count uc tr]"
  have len: "length ?scores \<le> length (tr_tokens tr)" using available_count_le [OF assms] by simp
  have cnt: "stable_count tr ?scores \<le> length (tr_tokens tr)" by (rule stable_count_le [OF len])
  have tok: "tr_tokens tr = tokenize uc (tr_text tr)" using assms by (simp add: tracker_core_def)
  have sc: "0 \<le> min_score ?scores n \<and> min_score ?scores n \<le> 1" for n
    using token_score_bounds [OF assms] available_count_le [OF assms] by (intro min_score_bounds) auto
  have ce: "token_char_end (tr_tokens tr) (int (stable_count tr ?scores))
      = Inr (char_end (tr_tokens tr) (stable_count tr ?scores))"
    using cnt by (simp add: token_char_end_def)
  let ?r = "the (tr_result (fst (evaluate_tracker uc tr now)))"
  have "evaluate_tracker uc tr now = (tr\<lparr>tr_result := Some ?r\<rparr>, Inr ?r)"
    by (simp add: evaluate_tracker_def Let_def ce)
  moreover have "result_ok tr ?r"
    using cnt sc committed_within_stable [OF tok _ len]
    by (simp add: evaluate_tracker_def Let_def ce result_ok_def)
  moreover have "st_count ?r = stable_count tr ?scores"
    by (simp add: evaluate_tracker_def Let_def ce)
  ultimately show ?thesis by (rule that)
qed

lemma evaluate_tracker_wf:
  assumes "tracker_core uc tr" shows "tracker_wf uc (fst (evaluate_tracker uc tr now))"
proof -
  from assms obtain r where "evaluate_tracker uc tr now = (tr\<lparr>tr_result := Some r\<rparr>, Inr r)" "result_ok tr r"
    by (rule evaluate_tracker_ok)
  then show ?thesis using tracker_wf_result [OF assms] by simp
qed

lemma tracker_now_ok:
  assumes "pf_finite clk"
  obtains v where "tracker_now tr clk = (tr\<lparr>tr_last_time := Some v\<rparr>, Inr v)"
      "\<forall>l. tr_last_time tr = Some l \<longrightarrow> l \<le> v"
proof (rule that)
  let ?v = "case tr_last_time tr of None \<Rightarrow> pf_val clk | Some l \<Rightarrow> max (pf_val clk) l"
  show "tracker_now tr clk = (tr\<lparr>tr_last_time := Some ?v\<rparr>, Inr ?v)"
    using assms by (simp add: tracker_now_def Let_def)
  show "\<forall>l. tr_last_time tr = Some l \<longrightarrow> l \<le> ?v" by simp
qed

lemma tracker_now_bad:
  "\<not> pf_finite clk \<Longrightarrow> tracker_now tr clk = (tr, Inl (ValueError ''Monotonic clock must be finite''))"
  by (simp add: tracker_now_def)

lemma push_bounded_length: "0 < n \<Longrightarrow> length xs \<le> n \<Longrightarrow> length (push_bounded n x xs) \<le> n"
  by (simp add: push_bounded_def)

lemma push_bounded_last: "0 < n \<Longrightarrow> length xs \<le> n \<Longrightarrow> push_bounded n x xs \<noteq> [] \<and> last (push_bounded n x xs) = x"
  by (simp add: push_bounded_def)

lemma spread_confidences_ok:
  "length (spread_confidences c n) = n \<and> (\<forall>q. Some q \<in> set (spread_confidences c n) \<longrightarrow> 0 \<le> q \<and> q \<le> 1)"
proof -
  have p: "probability v = Some q \<Longrightarrow> 0 \<le> q \<and> q \<le> 1" for v q
    by (cases v rule: probability.cases) (auto split: if_splits)
  show ?thesis by (cases c) (auto dest: p [OF sym] p)
qed

lemma pause_value_nonneg: "pause_value v = Some p \<Longrightarrow> 0 \<le> p"
  by (cases v rule: pause_value.cases) (auto split: if_splits)

lemma record_hypothesis_core:
  assumes core: "tracker_core uc tr"
  shows "tracker_core uc (record_hypothesis uc tr now txt s f c p)"
proof -
  let ?ret = "common_prefix_length [map tk_text (tr_tokens tr), map tk_text (tokenize uc txt)]"
  have ret: "?ret \<le> length (map tk_text (tr_tokens tr))" "?ret \<le> length (map tk_text (tokenize uc txt))"
    by (rule common_prefix_length_le, simp)+
  have w: "0 < tr_window tr" "length (tr_history tr) \<le> tr_window tr"
    using core by (auto simp: tracker_core_defs)
  let ?tr = "record_hypothesis uc tr now txt s f c p"
  have "tracker_limits ?tr" "tr_tokens ?tr = tokenize uc (tr_text ?tr)"
    using core by (auto simp: tracker_core_def tracker_limits_def record_hypothesis_def Let_def)
  moreover have "evidence_ok ?tr"
    using ret core spread_confidences_ok [of c "length (tokenize uc txt)"] pause_value_nonneg [of p]
    by (simp add: tracker_core_def evidence_ok_def record_hypothesis_def Let_def)
  moreover have "history_ok ?tr"
    using push_bounded_length [OF w] push_bounded_last [OF w]
    by (simp add: history_ok_def record_hypothesis_def Let_def)
  ultimately show ?thesis by (simp add: tracker_core_def)
qed

text \<open>What an accepted hypothesis does: it is recorded, evaluated, and never raises.\<close>

lemma observe_accepted:
  assumes wf: "tracker_wf uc tr" and len: "length txt \<le> tr_max_chars tr"
    and seq: "tr_sequence tr < s" and clk: "pf_finite clk"
  obtains r v where
    "observe uc tr clk txt s f c p =
       ((record_hypothesis uc (tr\<lparr>tr_last_time := Some v\<rparr>) v txt s f c p)\<lparr>tr_result := Some r\<rparr>, Inr r)"
    "result_ok (record_hypothesis uc (tr\<lparr>tr_last_time := Some v\<rparr>) v txt s f c p) r"
    "st_count r = stable_count (record_hypothesis uc (tr\<lparr>tr_last_time := Some v\<rparr>) v txt s f c p)
       (map (token_score (record_hypothesis uc (tr\<lparr>tr_last_time := Some v\<rparr>) v txt s f c p) v)
         [0..<available_count uc (record_hypothesis uc (tr\<lparr>tr_last_time := Some v\<rparr>) v txt s f c p)])"
proof -
  from clk obtain v where v: "tracker_now tr clk = (tr\<lparr>tr_last_time := Some v\<rparr>, Inr v)"
    by (rule tracker_now_ok)
  let ?tr = "record_hypothesis uc (tr\<lparr>tr_last_time := Some v\<rparr>) v txt s f c p"
  have "tracker_core uc ?tr" using wf by (intro record_hypothesis_core) (simp add: tracker_wf_def)
  then obtain r where "evaluate_tracker uc ?tr v = (?tr\<lparr>tr_result := Some r\<rparr>, Inr r)"
      "result_ok ?tr r"
      "st_count r = stable_count ?tr (map (token_score ?tr v) [0..<available_count uc ?tr])"
    by (rule evaluate_tracker_ok)
  then show ?thesis using that [of r v] len seq by (simp add: observe_def v)
qed

lemma observe_rejected:
  "tr_max_chars tr < length txt \<or> s \<le> tr_sequence tr \<or> \<not> pf_finite clk \<Longrightarrow>
     fst (observe uc tr clk txt s f c p) = tr \<and> isl (snd (observe uc tr clk txt s f c p))"
  by (auto simp: observe_def tracker_now_bad)

lemma observe_wf: "tracker_wf uc tr \<Longrightarrow> tracker_wf uc (fst (observe uc tr clk txt s f c p))"
proof (cases "length txt \<le> tr_max_chars tr \<and> tr_sequence tr < s \<and> pf_finite clk")
  case True
  assume wf: "tracker_wf uc tr"
  with True obtain r v where
    "observe uc tr clk txt s f c p =
       ((record_hypothesis uc (tr\<lparr>tr_last_time := Some v\<rparr>) v txt s f c p)\<lparr>tr_result := Some r\<rparr>, Inr r)"
    "result_ok (record_hypothesis uc (tr\<lparr>tr_last_time := Some v\<rparr>) v txt s f c p) r"
    by (blast elim: observe_accepted)
  then show ?thesis using wf by (simp add: tracker_wf_result record_hypothesis_core tracker_wf_def)
next
  case False
  assume "tracker_wf uc tr"
  with False observe_rejected show ?thesis by (metis linorder_not_less)
qed

lemma refresh_wf: "tracker_wf uc tr \<Longrightarrow> tracker_wf uc (fst (refresh uc tr clk))"
proof (cases "tr_sequence tr < 0 \<or> \<not> pf_finite clk")
  case False
  assume wf: "tracker_wf uc tr"
  from False have "pf_finite clk" by simp
  then obtain v where v: "tracker_now tr clk = (tr\<lparr>tr_last_time := Some v\<rparr>, Inr v)"
    by (rule tracker_now_ok)
  have "tracker_wf uc (fst (evaluate_tracker uc (tr\<lparr>tr_last_time := Some v\<rparr>) v))"
    using wf by (intro evaluate_tracker_wf) (simp add: tracker_wf_def)
  then show ?thesis using False by (auto simp: refresh_def v split: prod.splits sum.splits)
qed (auto simp: refresh_def tracker_now_bad)

text \<open>Committing the prefix that was just reported stable succeeds.\<close>

lemma commit_prefix_accepted:
  assumes wf: "tracker_wf uc tr" and r: "tr_result tr = Some r" and clk: "pf_finite clk"
    and allowed: "st_conflict r \<Longrightarrow> allow \<and> tr_final tr"
  obtains v q where
    "commit_prefix uc tr clk (int (st_char_end r)) allow =
       (tr\<lparr>tr_committed := take (st_char_end r) (tr_text tr), tr_last_time := Some v,
            tr_result := Some q\<rparr>, Inr q)"
    "result_ok (tr\<lparr>tr_committed := take (st_char_end r) (tr_text tr)\<rparr>) q"
proof -
  have ok: "result_ok tr r" using wf r by (simp add: tracker_wf_def)
  let ?tr = "tr\<lparr>tr_committed := take (st_char_end r) (tr_text tr)\<rparr>"
  from clk obtain v where v: "tracker_now ?tr clk = (?tr\<lparr>tr_last_time := Some v\<rparr>, Inr v)"
    by (rule tracker_now_ok)
  have "tracker_core uc (?tr\<lparr>tr_last_time := Some v\<rparr>)" using wf by (simp add: tracker_wf_def)
  then obtain q where q: "evaluate_tracker uc (?tr\<lparr>tr_last_time := Some v\<rparr>) v
        = (?tr\<lparr>tr_last_time := Some v, tr_result := Some q\<rparr>, Inr q)"
      "result_ok (?tr\<lparr>tr_last_time := Some v\<rparr>) q"
    by (rule evaluate_tracker_ok)
  have "is_boundary (tr_tokens tr) (st_char_end r)"
    using ok is_boundary_char_end by (simp add: result_ok_def)
  then have b: "int (st_char_end r) \<in> set (0 # map (int \<circ> tk_end) (tr_tokens tr))"
    by (auto simp: is_boundary_def)
  have g: "\<not> ((st_conflict r \<or> int (st_char_end r) < int (length (tr_committed tr))) \<and> \<not> (allow \<and> tr_final tr))"
    using allowed ok by (auto simp: result_ok_def)
  have "commit_prefix uc tr clk (int (st_char_end r)) allow =
      (?tr\<lparr>tr_last_time := Some v, tr_result := Some q\<rparr>, Inr q)"
    using b g unfolding commit_prefix_def r
    by (simp del: set_map list.set add: v q(1))
  then show ?thesis using q(2) by (intro that) simp_all
qed

lemma commit_prefix_wf:
  assumes wf: "tracker_wf uc tr" and clk: "pf_finite clk"
  shows "tracker_wf uc (fst (commit_prefix uc tr clk ce allow))"
proof -
  have step: "tracker_wf uc (fst (case tracker_now (tr\<lparr>tr_committed := c\<rparr>) clk of
      (tr2, Inl e) \<Rightarrow> (tr2, Inl e) | (tr2, Inr now) \<Rightarrow> evaluate_tracker uc tr2 now))" for c
  proof -
    from clk obtain v where v: "tracker_now (tr\<lparr>tr_committed := c\<rparr>) clk
        = (tr\<lparr>tr_committed := c, tr_last_time := Some v\<rparr>, Inr v)"
      by (rule tracker_now_ok)
    have "tracker_wf uc (fst (evaluate_tracker uc (tr\<lparr>tr_committed := c, tr_last_time := Some v\<rparr>) v))"
      using wf by (intro evaluate_tracker_wf) (simp add: tracker_wf_def)
    then show ?thesis by (simp add: v)
  qed
  show ?thesis
    using wf by (cases "tr_result tr") (simp_all add: commit_prefix_def Let_def step)
qed

text \<open>
  An interim prefix grows past the committed part only when the window is full and every
  hypothesis in it starts with that prefix.
\<close>

lemma stable_count_interim:
  assumes core: "tracker_core uc tr" and nf: "\<not> tr_final tr" and nc: "\<not> prefix_conflict tr"
    and more: "committed_count tr < stable_count tr (map f [0..<available_count uc tr])"
    and h: "h \<in> set (tr_history tr)"
  shows "length (tr_history tr) = tr_window tr
    \<and> take (stable_count tr (map f [0..<available_count uc tr])) h
      = take (stable_count tr (map f [0..<available_count uc tr])) (map tk_text (tr_tokens tr))"
proof -
  let ?n = "stable_count tr (map f [0..<available_count uc tr])"
  have "?n = stable_prefix tr (map f [0..<available_count uc tr])"
    using nc more by (auto simp: stable_count_def Let_def)
  then have n: "?n \<le> available_count uc tr" using stable_prefix_le by (metis diff_zero length_map length_upt)
  also have "\<dots> \<le> agreement_count tr" using nf by (auto simp: available_count_def Let_def)
  finally have na: "?n \<le> agreement_count tr" .
  then have w: "length (tr_history tr) = tr_window tr"
    using more by (auto simp: agreement_count_def split: if_splits)
  have ne: "tr_history tr \<noteq> []" using h by auto
  have "take (agreement_count tr) h = take (agreement_count tr) (last (tr_history tr))"
    using common_prefix_length_agree [OF h last_in_set [OF ne]] w by (simp add: agreement_count_def)
  then have "take ?n h = take ?n (last (tr_history tr))"
    using na by (metis min_def take_take)
  then show ?thesis using w ne core by (simp add: tracker_core_defs)
qed

lemma stable_prefix_all: "\<forall>s \<in> set scores. tr_threshold tr \<le> s \<Longrightarrow> stable_prefix tr scores = length scores"
  by (subst stable_prefix_def, subst takeWhile_eq_all_conv [THEN iffD2]) (auto intro: order_trans)

lemma stable_count_final:
  assumes core: "tracker_core uc tr" and final: "tr_final tr"
  shows "stable_count tr (map (token_score tr now) [0..<available_count uc tr]) = length (tr_tokens tr)"
proof -
  have "available_count uc tr = length (tr_tokens tr)" using final by (simp add: available_count_def Let_def)
  moreover have "stable_prefix tr (map (token_score tr now) [0..<length (tr_tokens tr)]) = length (tr_tokens tr)"
    using final core by (subst stable_prefix_all) (auto simp: token_score_def Let_def tracker_core_defs split: option.split)
  ultimately show ?thesis using final
    using length_filter_le [of "\<lambda>k. tk_end k \<le> length (tr_committed tr)" "tr_tokens tr"]
    by (simp add: stable_count_def committed_count_def Let_def)
qed

end
