(* ===== verification/Revision.thy ===== *)
theory Revision
  imports SourceText
begin

text \<open>
  Model of \<^verbatim>\<open>src/app/streaming/revision.py\<close>: which source segments survive when the recognizer
  replaces the text of an utterance. The plan keeps whole unchanged segments and rolls back the
  first one the edit touches and all later ones.
\<close>

record rev_segment =
  rs_start :: nat
  rs_end :: nat

record rev_plan =
  rp_index :: nat
  rp_boundary :: nat
  rp_replacement :: ustring
  rp_changed :: bool

fun spans_ordered :: "nat \<Rightarrow> nat \<Rightarrow> rev_segment list \<Rightarrow> bool" where
  "spans_ordered previous n [] \<longleftrightarrow> True"
| "spans_ordered previous n (s # ss) \<longleftrightarrow>
     rs_start s \<le> rs_end s \<and> rs_end s \<le> n \<and> previous \<le> rs_start s
     \<and> spans_ordered (rs_end s) n ss"

fun first_difference :: "ustring \<Rightarrow> ustring \<Rightarrow> nat" where
  "first_difference (a # as) (b # bs) = (if a \<noteq> b then 0 else Suc (first_difference as bs))"
| "first_difference _ _ = 0"

text \<open>An appended character that extends the last token moves the edit to that token's start.\<close>

definition lexical_difference :: "unidb \<Rightarrow> ustring \<Rightarrow> ustring \<Rightarrow> nat" where
  "lexical_difference uc old new =
     (let d = first_difference old new
      in if d = length old \<and> length new > length old
         then (case find (\<lambda>k. tk_start k < d \<and> d < tk_end k) (tokenize uc new) of
                 Some k \<Rightarrow> tk_start k
               | None \<Rightarrow> d)
         else d)"

fun first_touched :: "nat \<Rightarrow> nat \<Rightarrow> rev_segment list \<Rightarrow> (nat \<times> nat) option" where
  "first_touched d position [] = None"
| "first_touched d position (s # ss) =
     (if d < rs_end s then Some (position, rs_start s) else first_touched d (Suc position) ss)"

definition plan_revision :: "unidb \<Rightarrow> ustring \<Rightarrow> ustring \<Rightarrow> rev_segment list \<Rightarrow> rev_plan res" where
  "plan_revision uc old new segs =
     (if \<not> spans_ordered 0 (length old) segs
        then Inl (ValueError ''Revision source spans must be ordered and disjoint'')
      else
        (let difference = lexical_difference uc old new;
             unchanged = (length segs, if segs \<noteq> [] then rs_end (last segs) else 0);
             (index, boundary) =
               (if old \<noteq> new
                then (case first_touched difference 0 segs of
                        Some p \<Rightarrow> p
                      | None \<Rightarrow> unchanged)
                else unchanged)
         in Inr \<lparr>rp_index = index, rp_boundary = boundary,
                 rp_replacement = drop boundary new, rp_changed = (old \<noteq> new)\<rparr>))"

subsection \<open>Lemmas\<close>

lemma first_difference_take: "take (first_difference a b) a = take (first_difference a b) b"
  by (induction a b rule: first_difference.induct) auto

lemma first_difference_le: "first_difference a b \<le> length a \<and> first_difference a b \<le> length b"
  by (induction a b rule: first_difference.induct) auto

lemma first_difference_nth:
  "first_difference a b < length a \<Longrightarrow> first_difference a b < length b \<Longrightarrow>
     a ! first_difference a b \<noteq> b ! first_difference a b"
  by (induction a b rule: first_difference.induct) (auto split: if_splits)

lemma first_difference_same: "first_difference a a = length a"
  by (induction a) auto

lemma lexical_difference_le: "lexical_difference uc old new \<le> first_difference old new"
  by (auto simp: lexical_difference_def Let_def find_Some_iff split: option.split)

lemma lexical_difference_take:
  "n \<le> lexical_difference uc old new \<Longrightarrow> take n old = take n new"
  using first_difference_take [of old new] lexical_difference_le [of uc old new]
  by (metis le_trans min.absorb_iff1 take_take)

text \<open>Segments of one utterance follow each other without gaps from offset \<open>p\<close>.\<close>

fun contiguous :: "nat \<Rightarrow> rev_segment list \<Rightarrow> bool" where
  "contiguous p [] \<longleftrightarrow> True"
| "contiguous p (s # ss) \<longleftrightarrow> rs_start s = p \<and> rs_start s \<le> rs_end s \<and> contiguous (rs_end s) ss"

lemma contiguous_ordered:
  "contiguous p ss \<Longrightarrow> \<forall>s \<in> set ss. rs_end s \<le> n \<Longrightarrow> q \<le> p \<Longrightarrow> spans_ordered q n ss"
  by (induction ss arbitrary: p q) auto

lemma contiguous_append:
  "contiguous p (xs @ ys) \<longleftrightarrow>
     contiguous p xs \<and> contiguous (if xs = [] then p else rs_end (last xs)) ys"
  by (induction xs arbitrary: p) auto

lemma first_touched_Some:
  "first_touched d k ss = Some (i, b) \<Longrightarrow>
     k \<le> i \<and> i - k < length ss \<and> b = rs_start (ss ! (i - k)) \<and> d < rs_end (ss ! (i - k))
     \<and> (\<forall>j < i - k. rs_end (ss ! j) \<le> d)"
proof (induction ss arbitrary: k)
  case (Cons s ss)
  show ?case
  proof (cases "d < rs_end s")
    case False
    then have "first_touched d (Suc k) ss = Some (i, b)" using Cons.prems by simp
    note ih = Cons.IH [OF this]
    then have "i - k = Suc (i - Suc k)" by linarith
    then show ?thesis using ih False by (auto simp: nth_Cons' less_Suc_eq_0_disj)
  qed (use Cons.prems in auto)
qed simp

lemma first_touched_None: "first_touched d k ss = None \<Longrightarrow> s \<in> set ss \<Longrightarrow> rs_end s \<le> d"
  by (induction ss arbitrary: k) (auto split: if_splits)

lemma contiguous_nth:
  "contiguous p ss \<Longrightarrow> i < length ss \<Longrightarrow>
     rs_start (ss ! i) = (if i = 0 then p else rs_end (ss ! (i - 1)))
     \<and> rs_start (ss ! i) \<le> rs_end (ss ! i) \<and> p \<le> rs_start (ss ! i)"
proof (induction ss arbitrary: p i)
  case (Cons s ss)
  show ?case
  proof (cases i)
    case (Suc j)
    have "contiguous (rs_end s) ss" "j < length ss" using Cons.prems Suc by auto
    from Cons.IH [OF this] Cons.prems Suc show ?thesis by (cases j) auto
  qed (use Cons.prems in auto)
qed simp

text \<open>
  The whole contract of a plan over the contiguous segments of an utterance: no error, the kept
  segments end at or before the edit, the boundary is where they end, and the first rolled back
  segment is really touched.
\<close>

lemma plan_revision_contract:
  assumes "contiguous 0 segs" and "\<forall>s \<in> set segs. rs_end s \<le> length old"
  obtains p where "plan_revision uc old new segs = Inr p"
    and "rp_index p \<le> length segs"
    and "rp_boundary p = (if rp_index p = 0 then 0 else rs_end (segs ! (rp_index p - 1)))"
    and "take (rp_boundary p) old = take (rp_boundary p) new"
    and "rp_boundary p \<le> length old" and "rp_boundary p \<le> length new"
    and "\<And>i. i < rp_index p \<Longrightarrow> rs_end (segs ! i) \<le> rp_boundary p"
    and "rp_index p < length segs \<Longrightarrow> old \<noteq> new \<and> lexical_difference uc old new < rs_end (segs ! rp_index p)"
    and "rp_replacement p = drop (rp_boundary p) new" and "rp_changed p = (old \<noteq> new)"
proof -
  let ?d = "lexical_difference uc old new"
  have ord: "spans_ordered 0 (length old) segs" using assms by (intro contiguous_ordered) auto
  have dle: "?d \<le> length old" "?d \<le> length new"
    using lexical_difference_le [of uc old new] first_difference_le [of old new] by auto
  obtain i b where ib: "(i, b) = (if old \<noteq> new then case first_touched ?d 0 segs of Some p \<Rightarrow> p
       | None \<Rightarrow> (length segs, if segs \<noteq> [] then rs_end (last segs) else 0)
     else (length segs, if segs \<noteq> [] then rs_end (last segs) else 0))" by (metis surj_pair)
  let ?p = "\<lparr>rp_index = i, rp_boundary = b, rp_replacement = drop b new, rp_changed = (old \<noteq> new)\<rparr>"
  have plan: "plan_revision uc old new segs = Inr ?p"
    by (simp only: plan_revision_def Let_def ord not_True_eq_False if_False ib [symmetric] prod.case)
  have mono: "rs_end (segs ! j) \<le> rs_end (segs ! k)" if "j \<le> k" "k < length segs" for j k
    using that
  proof (induction k)
    case (Suc k)
    then show ?case using contiguous_nth [OF assms(1), of "Suc k"] by (cases "j = Suc k") auto
  qed simp
  have bnd: "b = (if i = 0 then 0 else rs_end (segs ! (i - 1))) \<and> i \<le> length segs
      \<and> (b \<le> ?d \<or> old = new) \<and> b \<le> length old
      \<and> (i < length segs \<longrightarrow> old \<noteq> new \<and> ?d < rs_end (segs ! i))"
  proof (cases "old \<noteq> new \<and> (\<exists>q. first_touched ?d 0 segs = Some q)")
    case True
    then have "first_touched ?d 0 segs = Some (i, b)" using ib by auto
    from first_touched_Some [OF this] have f: "i < length segs" "b = rs_start (segs ! i)"
      "?d < rs_end (segs ! i)" "\<forall>j<i. rs_end (segs ! j) \<le> ?d" by auto
    then have "b = (if i = 0 then 0 else rs_end (segs ! (i - 1)))"
      using contiguous_nth [OF assms(1) f(1)] by simp
    then show ?thesis using f True dle by (cases i) auto
  next
    case False
    then have eq: "i = length segs" "b = (if segs \<noteq> [] then rs_end (last segs) else 0)"
      using ib by (auto split: option.splits if_splits)
    have "b \<le> length old" using assms(2) eq by auto
    moreover have "b \<le> ?d \<or> old = new"
      using False eq first_touched_None [of ?d 0 segs "last segs"]
      by (cases "first_touched ?d 0 segs") auto
    ultimately show ?thesis using eq by (auto simp: last_conv_nth)
  qed
  have tk: "take b old = take b new" and bn: "b \<le> length new"
    using bnd lexical_difference_take [of b uc old new] dle by auto
  have "rs_end (segs ! j) \<le> b" if "j < i" for j
    using that bnd mono [of j "i - 1"] by auto
  with plan tk bn bnd show ?thesis by (intro that [of ?p]) auto
qed

end
