(* ===== verification/Completeness.thy ===== *)
theory Completeness
  imports SourceText
begin

text \<open>
  Model of the meaning-unit heuristics of \<^verbatim>\<open>src/app/streaming/segmentation.py\<close>: \<open>_numeric\<close>,
  \<open>_question_answer\<close>, \<open>_english\<close>, \<open>_korean\<close> and \<open>_complete\<close>. The verdict is a triple (complete,
  reason, strong boundary). Regular expressions are written as the list functions they denote;
  Korean endings are lists of code points. The recursion depth of \<open>_english\<close> counts down from 8.
\<close>

subsection \<open>Word tables\<close>

definition abbreviations :: "string list" where
  "abbreviations =
    [''mr'', ''mrs'', ''ms'', ''dr'', ''prof'', ''sr'', ''jr'', ''st'', ''vs'', ''etc'',
     ''e'', ''g'', ''i'']"

definition dangling_words :: "string list" where
  "dangling_words =
    [''a'', ''an'', ''the'', ''and'', ''or'', ''but'', ''because'', ''if'', ''although'',
     ''unless'', ''whether'', ''while'', ''when'', ''than'', ''that'', ''which'', ''whose'',
     ''to'', ''of'', ''for'', ''with'', ''without'', ''from'', ''into'', ''onto'', ''by'',
     ''at'', ''on'', ''in'', ''as'', ''per'', ''about'', ''approximately'', ''around'',
     ''between'', ''over'', ''under'', ''through'', ''is'', ''are'', ''was'', ''were'',
     ''am'', ''be'', ''been'', ''being'', ''have'', ''has'', ''had'', ''will'', ''would'',
     ''shall'', ''should'', ''can'', ''could'', ''may'', ''might'', ''must'', ''not'',
     ''n't'', ''very'', ''more'', ''less'', ''most'', ''least'', ''too'', ''quite'', ''just'',
     ''my'', ''your'', ''his'', ''her'', ''its'', ''our'', ''their'', ''this'', ''these'',
     ''those'', ''please'', ''then'']"

definition aux_words :: "string list" where
  "aux_words =
    [''am'', ''is'', ''are'', ''was'', ''were'', ''be'', ''have'', ''has'', ''had'', ''do'',
     ''does'', ''did'', ''will'', ''would'', ''shall'', ''should'', ''can'', ''could'',
     ''may'', ''might'', ''must'', ''i'm'', ''it's'', ''that's'', ''you're'', ''we're'',
     ''they're'', ''he's'', ''she's'', ''isn't'', ''aren't'', ''wasn't'', ''weren't'',
     ''don't'', ''doesn't'', ''didn't'', ''can't'', ''won't'']"

definition wh_words :: "string list" where
  "wh_words =
    [''who'', ''what'', ''where'', ''when'', ''why'', ''how'', ''which'']"

definition verb_words :: "string list" where
  "verb_words =
    [''arrive'', ''arrives'', ''arrived'', ''work'', ''works'', ''worked'', ''fail'',
     ''fails'', ''failed'', ''go'', ''goes'', ''went'', ''come'', ''comes'', ''came'',
     ''leave'', ''leaves'', ''left'', ''stop'', ''stops'', ''eat'', ''eats'', ''ate'',
     ''drink'', ''drinks'', ''drank'', ''sleep'', ''sleeps'', ''slept'', ''want'', ''wants'',
     ''wanted'', ''need'', ''needs'', ''needed'', ''like'', ''likes'', ''liked'', ''love'',
     ''loves'', ''loved'', ''know'', ''knows'', ''knew'', ''think'', ''thinks'', ''thought'',
     ''say'', ''says'', ''said'', ''mean'', ''means'', ''meant'', ''believe'', ''believes'',
     ''believed'', ''send'', ''sends'', ''sent'', ''buy'', ''buys'', ''bought'', ''sell'',
     ''sells'', ''sold'', ''cost'', ''costs'', ''weigh'', ''weighs'', ''weighed'', ''take'',
     ''takes'', ''took'', ''weighing'', ''wait'', ''waits'', ''waited'', ''see'', ''sees'',
     ''saw'', ''hear'', ''hears'', ''heard'', ''agree'', ''agrees'', ''agreed'', ''happen'',
     ''happens'', ''happened'', ''matter'', ''matters'', ''open'', ''opens'', ''opened'',
     ''close'', ''closes'', ''closed'', ''start'', ''starts'', ''started'', ''finish'',
     ''finishes'', ''finished'', ''move'', ''moves'', ''moved'', ''run'', ''runs'', ''ran'',
     ''keep'', ''keeps'', ''kept'', ''make'', ''makes'', ''made'', ''get'', ''gets'', ''got'',
     ''live'', ''lives'', ''lived'', ''look'', ''looks'', ''looked'', ''seem'', ''seems'',
     ''seemed'', ''win'', ''wins'', ''won'', ''crash'', ''crashes'', ''crashed'', ''respond'',
     ''responds'', ''responded'']"

definition needs_object_words :: "string list" where
  "needs_object_words =
    [''want'', ''wants'', ''wanted'', ''need'', ''needs'', ''needed'', ''send'', ''sends'',
     ''sent'', ''buy'', ''buys'', ''bought'', ''sell'', ''sells'', ''sold'', ''take'',
     ''takes'', ''took'', ''make'', ''makes'', ''made'', ''get'', ''gets'', ''got'', ''keep'',
     ''keeps'', ''kept'', ''say'', ''says'', ''said'', ''mean'', ''means'', ''meant'',
     ''think'', ''thinks'', ''thought'', ''believe'', ''believes'', ''believed'', ''seem'',
     ''seems'', ''seemed'', ''look'', ''looks'', ''looked'', ''cost'', ''costs'', ''weigh'',
     ''weighs'', ''weighed'']"

definition command_words :: "string list" where
  "command_words =
    [''stop'', ''go'', ''come'', ''wait'', ''help'', ''listen'', ''look'', ''run'', ''leave'',
     ''continue'', ''proceed'', ''sit'', ''stand'', ''stay'', ''relax'', ''open'', ''close'',
     ''send'', ''bring'', ''take'', ''give'', ''turn'', ''put'', ''hold'', ''read'',
     ''write'', ''try'', ''check'', ''call'', ''remember'', ''forget'', ''keep'', ''start'',
     ''finish'', ''move'', ''speak'', ''repeat'']"

definition transitive_commands :: "string list" where
  "transitive_commands =
    [''open'', ''close'', ''send'', ''bring'', ''take'', ''give'', ''turn'', ''put'',
     ''hold'', ''read'', ''write'', ''check'', ''call'', ''remember'', ''forget'', ''keep'',
     ''repeat'']"

definition number_words :: "string list" where
  "number_words =
    [''zero'', ''one'', ''two'', ''three'', ''four'', ''five'', ''six'', ''seven'', ''eight'',
     ''nine'', ''ten'', ''eleven'', ''twelve'', ''thirteen'', ''fourteen'', ''fifteen'',
     ''sixteen'', ''seventeen'', ''eighteen'', ''nineteen'', ''twenty'', ''thirty'',
     ''forty'', ''fifty'', ''sixty'', ''seventy'', ''eighty'', ''ninety'', ''hundred'',
     ''thousand'', ''million'', ''billion'', ''half'', ''quarter'', ''dozen'']"

definition unit_words :: "string list" where
  "unit_words =
    [''kg'', ''g'', ''kilograms'', ''kilogram'', ''grams'', ''gram'', ''pounds'', ''pound'',
     ''lbs'', ''lb'', ''tons'', ''ton'', ''tonnes'', ''tonne'', ''meters'', ''meter'',
     ''metres'', ''metre'', ''cm'', ''mm'', ''km'', ''miles'', ''mile'', ''feet'', ''foot'',
     ''inches'', ''inch'', ''minutes'', ''minute'', ''seconds'', ''second'', ''hours'',
     ''hour'', ''days'', ''day'', ''weeks'', ''week'', ''months'', ''month'', ''years'',
     ''year'', ''dollars'', ''dollar'', ''euros'', ''euro'', ''won'', ''yen'', ''percent'',
     ''percentage'', ''degrees'', ''degree'', ''celsius'', ''fahrenheit'', ''liters'',
     ''liter'', ''litres'', ''litre'', ''ml'', ''people'', ''persons'', ''items'', ''books'',
     ''tickets'', ''apples'', ''boxes'', ''packages'']"

definition subordinate_words :: "string list" where
  "subordinate_words =
    [''if'', ''because'', ''although'', ''unless'', ''whether'', ''while'', ''since'',
     ''whenever'', ''whereas'']"

definition reporting_words :: "string list" where
  "reporting_words =
    [''think'', ''thinks'', ''thought'', ''believe'', ''believes'', ''believed'', ''say'',
     ''says'', ''said'']"

definition subject_words :: "string list" where
  "subject_words =
    [''i'', ''you'', ''he'', ''she'', ''it'', ''we'', ''they'', ''this'', ''that'', ''these'',
     ''those'']"

definition determiner_words :: "string list" where
  "determiner_words =
    [''a'', ''an'', ''the'', ''my'', ''your'', ''his'', ''her'', ''its'', ''our'', ''their'']"

definition object_list_verbs :: "string list" where
  "object_list_verbs =
    [''buy'', ''buys'', ''bought'', ''sell'', ''sells'', ''sold'', ''send'', ''sends'',
     ''sent'', ''like'', ''likes'', ''liked'', ''love'', ''loves'', ''loved'', ''want'',
     ''wants'', ''wanted'', ''need'', ''needs'', ''needed'', ''see'', ''sees'', ''saw'',
     ''hear'', ''hears'', ''heard'']"

definition korean_dependent_endings :: "ustring list" where
  "korean_dependent_endings =
    [[51648, 47564], [45716, 45936], [51008, 45936], [12596, 45936],
     [51004, 47732], [45796, 47732], [46972, 47732], [47732, 49436],
     [51004, 47728], [44144, 45208], [50612, 49436], [50500, 49436],
     [45768, 44620], [48064, 47196], [47140, 44256], [46020, 47197],
     [54616, 44592], [54616, 45716], [46104, 45716], [50500, 45768, 46972],
     [44536, 47532, 44256], [44536, 47000, 49436], [46412, 47928, 50640], [50948, 54644],
     [45824, 54644], [44288, 54644], [48372, 45796], [50557],
     [45824, 47029]]"

definition korean_amount_endings :: "ustring list" where
  "korean_amount_endings =
    [[49828, 47932], [49436, 47480], [47560, 55124], [50676],
     [54620], [46160], [49464], [45348],
     [45796, 49455], [50668, 49455], [51068, 44273], [50668, 45919],
     [50500, 54857], [49901], [48177], [52380],
     [47564]]"

definition korean_expressions :: "ustring list" where
  "korean_expressions =
    [[50504, 45397, 54616, 49464, 50836], [44048, 49324, 54633, 45768, 45796], [44256, 47577, 49845, 45768, 45796], [50504, 45397],
     [51396, 49569, 54633, 45768, 45796], [47688, 52656], [47688, 52628, 49464, 50836], [44592, 45796, 47140],
     [46020, 50752, 51452, 49464, 50836], [44032, 49464, 50836]]"

definition korean_answers :: "ustring list" where
  "korean_answers =
    [[45348], [50696], [50500, 45768, 50836], [50500, 45768, 50724]]"

definition korean_final_endings :: "ustring list" where
  "korean_final_endings =
    [[49845, 45768, 45796], [49845, 45768, 44620], [51077, 45768, 45796], [51077, 45768, 44620],
     [54633, 45768, 45796], [54633, 45768, 44620], [46121, 45768, 45796], [46121, 45768, 44620],
     [49464, 50836], [49901, 49884, 50724], [45348, 50836], [44400, 50836],
     [50612, 50836], [50500, 50836], [50668, 50836], [54644, 50836],
     [50696, 50836], [51060, 50640, 50836], [51648, 50836], [51424],
     [44620, 50836], [45208, 50836], [44032, 50836], [54620, 45796],
     [46108, 45796], [51080, 45796], [50630, 45796], [54664, 45796],
     [50688, 45796], [51060, 45796], [51339, 45796], [49899, 45796],
     [49910, 45796], [44057, 45796], [44036, 45796], [50728, 45796],
     [51092, 45796], [50772, 45796], [44052, 45796], [50632, 45796],
     [50520, 45796], [45716, 45796]]"

definition in_words :: "ustring \<Rightarrow> string list \<Rightarrow> bool" where
  "in_words w ws \<longleftrightarrow> w \<in> set (map lit ws)"

text \<open>Sentence ends \<open>.!?\<close> with their full-width forms, and closing quotes and brackets.\<close>

definition end_chars :: "nat list" where
  "end_chars = [46, 33, 63, 0x3002, 0xFF01, 0xFF1F]"

definition closing_chars :: "nat list" where
  "closing_chars = [34, 0x201D, 0x2019, 0xBB, 41, 93, 125, 0xFF09, 0x3011]"

subsection \<open>Pattern helpers\<close>

definition ends_with :: "ustring \<Rightarrow> ustring \<Rightarrow> bool" where
  "ends_with s suffix_text \<longleftrightarrow> suffix suffix_text s"

definition ends_char :: "ustring \<Rightarrow> nat list \<Rightarrow> bool" where
  "ends_char s cs \<longleftrightarrow> s \<noteq> [] \<and> last s \<in> set cs"

definition starts_with :: "ustring \<Rightarrow> ustring \<Rightarrow> bool" where
  "starts_with s p \<longleftrightarrow> prefix p s"

definition regex_word :: "unidb \<Rightarrow> nat \<Rightarrow> bool" where
  "regex_word uc c \<longleftrightarrow> u_isalnum uc c \<or> c = 95"

text \<open>\<open>\d+(?:[.,]\d+)*\<close> as an automaton; the flag says that the last character was a digit.\<close>

fun digit_groups :: "unidb \<Rightarrow> bool \<Rightarrow> ustring \<Rightarrow> bool" where
  "digit_groups uc after_digit [] \<longleftrightarrow> after_digit"
| "digit_groups uc after_digit (c # cs) \<longleftrightarrow>
     (if u_isdecimal uc c then digit_groups uc True cs
      else after_digit \<and> (c = 46 \<or> c = 44) \<and> digit_groups uc False cs)"

definition numeric :: "unidb \<Rightarrow> ustring \<Rightarrow> bool" where
  "numeric uc w \<longleftrightarrow> in_words w number_words \<or> digit_groups uc False w"

text \<open>The piece after the last \<open>[.!?]\s*\<close> separator (with the full-width ends).\<close>

definition last_sentence :: "unidb \<Rightarrow> ustring \<Rightarrow> ustring" where
  "last_sentence uc s =
     (if \<exists>c \<in> set s. c \<in> set end_chars
      then dropWhile (u_isspace uc) (rev (takeWhile (\<lambda>c. c \<notin> set end_chars) (rev s)))
      else s)"

text \<open>\<open>re.split(r"[,;]", text, maxsplit=1)\<close>: the second piece, if there is a separator.\<close>

definition after_separator :: "ustring \<Rightarrow> ustring option" where
  "after_separator s =
     (case dropWhile (\<lambda>c. c \<noteq> 44 \<and> c \<noteq> 59) s of [] \<Rightarrow> None | _ # r \<Rightarrow> Some r)"

text \<open>\<open>\b(?:count|number|answer|result|score|age)\s+(?:is|was|equals)\b\<close> at the head of a suffix.\<close>

definition word_boundary_after :: "unidb \<Rightarrow> ustring \<Rightarrow> bool" where
  "word_boundary_after uc r \<longleftrightarrow> (case r of [] \<Rightarrow> True | c # _ \<Rightarrow> \<not> regex_word uc c)"

definition count_predicate_at :: "unidb \<Rightarrow> ustring \<Rightarrow> bool" where
  "count_predicate_at uc s \<longleftrightarrow>
     (\<exists>noun \<in> set (map lit [''count'', ''number'', ''answer'', ''result'', ''score'', ''age'']).
        starts_with s noun
        \<and> (let r = drop (length noun) s;
               rest = dropWhile (u_isspace uc) r
           in length rest < length r
              \<and> (\<exists>verb \<in> set (map lit [''is'', ''was'', ''equals'']).
                    starts_with rest verb \<and> word_boundary_after uc (drop (length verb) rest))))"

fun count_predicate_search :: "unidb \<Rightarrow> bool \<Rightarrow> ustring \<Rightarrow> bool" where
  "count_predicate_search uc previous_word [] \<longleftrightarrow> False"
| "count_predicate_search uc previous_word (c # cs) \<longleftrightarrow>
     (\<not> previous_word \<and> count_predicate_at uc (c # cs))
     \<or> count_predicate_search uc (regex_word uc c) cs"

text \<open>\<open>^(?:i am|i'm|he is|she is) \w+$\<close>; \<open>$\<close> also matches before a final newline.\<close>

definition identity_sentence :: "unidb \<Rightarrow> ustring \<Rightarrow> bool" where
  "identity_sentence uc s \<longleftrightarrow>
     (\<exists>p \<in> set (map lit [''i am '', ''i'm '', ''he is '', ''she is '']).
        starts_with s p
        \<and> (let r = drop (length p) s;
               r = (if r \<noteq> [] \<and> last r = 10 then butlast r else r)
           in r \<noteq> [] \<and> list_all (regex_word uc) r))"

subsection \<open>English\<close>

type_synonym verdict = "bool \<times> string \<times> bool"

definition question_answer :: "unidb \<Rightarrow> ustring list \<Rightarrow> ustring \<Rightarrow> bool" where
  "question_answer uc ws context =
     (let previous = py_strip uc context
      in if \<not> ends_char previous [63, 0xFF1F] then False
         else
           (let question = py_strip uc (py_lower uc (last_sentence uc (butlast previous)));
                joined = py_join (lit '' '') ws
            in if in_words joined [''yes'', ''no'', ''yes please'', ''no thanks'', ''certainly'', ''of course'']
               then (case py_split uc question of [] \<Rightarrow> False | w # _ \<Rightarrow> in_words w aux_words)
               else if starts_with question (lit ''how many'')
               then ws \<noteq> [] \<and> list_all (\<lambda>w. numeric uc w \<or> in_words w unit_words) ws
               else if \<exists>p \<in> set (map lit [''how long'', ''how much'', ''how far'', ''how heavy'']).
                         starts_with question p
               then 2 \<le> length ws \<and> list_ex (numeric uc) ws \<and> in_words (last ws) unit_words
               else False))"

definition word_tokens :: "unidb \<Rightarrow> ustring \<Rightarrow> token list" where
  "word_tokens uc t = filter (\<lambda>k. list_ex (u_isalnum uc) (tk_text k)) (tokenize uc t)"

definition first_index :: "('a \<Rightarrow> bool) \<Rightarrow> 'a list \<Rightarrow> nat option" where
  "first_index p xs =
     (let n = length (takeWhile (\<lambda>x. \<not> p x) xs) in if n < length xs then Some n else None)"

definition first_index_after :: "nat \<Rightarrow> ('a \<Rightarrow> bool) \<Rightarrow> 'a list \<Rightarrow> nat option" where
  "first_index_after k p xs = map_option (\<lambda>n. n + (k + 1)) (first_index p (drop (k + 1) xs))"

definition is_question_mark :: "unidb \<Rightarrow> ustring \<Rightarrow> bool" where
  "is_question_mark uc t \<longleftrightarrow>
     ends_char (rstrip_set (\<lambda>c. c \<in> set [34, 0x201D, 0x2019, 0xBB, 41, 93, 125]) (py_rstrip uc t))
       [63, 0xFF1F]"

text \<open>The branch of \<open>_english\<close> for a source that ends in a question mark, when it decides.\<close>

definition question_verdict :: "ustring list \<Rightarrow> verdict option" where
  "question_verdict ws =
     (let w0 = hd ws; n = length ws
      in if n = 1 \<and> in_words w0 [''ready'', ''really'', ''why'', ''where'', ''who'', ''what'']
         then Some (True, ''complete_question'', True)
         else if in_words w0 wh_words
         then (if list_ex (\<lambda>w. in_words w verb_words) (tl ws)
                  \<or> (3 \<le> n \<and> in_words (ws ! 1) [''is'', ''are'', ''was'', ''were''])
               then Some (True, ''complete_question'', True)
               else Some (False, ''incomplete_question'', False))
         else if in_words w0 aux_words \<and> 3 \<le> n
         then (if n = 3 \<and> in_words (ws ! 1) determiner_words
               then Some (False, ''incomplete_question'', False)
               else Some (True, ''complete_question'', True))
         else None)"

text \<open>The imperative reading: \<open>please\<close>, \<open>do not\<close> and \<open>don't\<close> are skipped first.\<close>

definition command_tail :: "ustring list \<Rightarrow> ustring list" where
  "command_tail ws =
     (let command = (if hd ws = lit ''please'' then tl ws else ws)
      in if take 2 command = map lit [''do'', ''not''] then drop 2 command
         else if command \<noteq> [] \<and> hd command = lit ''don't'' then tl command
         else command)"

definition command_verdict :: "ustring list \<Rightarrow> verdict option" where
  "command_verdict ws =
     (let command = command_tail ws
      in if command \<noteq> [] \<and> in_words (hd command) command_words
         then (if length command = 1 \<and> in_words (hd command) transitive_commands
               then Some (False, ''missing_command_object'', False)
               else Some (True, ''complete_command'', True))
         else None)"

definition predicate_index :: "ustring list \<Rightarrow> nat option" where
  "predicate_index ws =
     first_index (\<lambda>w. in_words w aux_words \<or> in_words w verb_words
                      \<or> (4 < length w \<and> ends_with w (lit ''ed''))) ws"

text \<open>
  One level of \<open>_english\<close>; \<open>standalone\<close> is the recursive call on an embedded clause, which is made
  without context and one level deeper.
\<close>

definition english_clause ::
    "unidb \<Rightarrow> (ustring \<Rightarrow> bool) \<Rightarrow> ustring \<Rightarrow> ustring \<Rightarrow> bool \<Rightarrow> verdict" where
  "english_clause uc standalone t context punctuated =
     (let wts = word_tokens uc t;
          ws = map (\<lambda>k. py_casefold uc (tk_text k)) wts;
          joined = py_join (lit '' '') ws
      in if ws = [] then (False, ''empty_source'', False)
      else if question_answer uc ws context then (True, ''question_answer'', True)
      else if in_words joined [''thank you'', ''thanks'', ''hello'', ''goodbye'', ''good morning'',
              ''good evening'', ''good night'', ''sorry'', ''excuse me'']
        then (True, ''complete_expression'', True)
      else if in_words (last ws) [''i'', ''he'', ''she'', ''we'', ''they'']
        then (False, ''dangling_clause_subject'', False)
      else if in_words (last ws) dangling_words then (False, ''dangling_english_tail'', False)
      else case (if punctuated \<and> is_question_mark uc t then question_verdict ws else None) of
        Some v \<Rightarrow> v
      | None \<Rightarrow>
      if in_words (last ws) needs_object_words then (False, ''dangling_english_tail'', False)
      else if numeric uc (last ws) \<and> \<not> count_predicate_search uc False joined
              \<and> \<not> identity_sentence uc joined
        then (False, ''dangling_amount'', False)
      else if in_words (hd ws) subordinate_words
              \<or> (in_words (hd ws) [''when'', ''after'', ''before'', ''once'', ''as'']
                 \<and> (length ws < 2 \<or> \<not> in_words (ws ! 1) aux_words))
        then (case after_separator t of
                None \<Rightarrow> (False, ''dependent_clause'', False)
              | Some piece \<Rightarrow>
                  if standalone piece
                  then (True, ''complete_conditional'', punctuated)
                  else (False, ''dependent_clause'', False))
      else if hd ws = lit ''that'' \<and> (length ws < 2 \<or> \<not> in_words (ws ! 1) aux_words)
        then (False, ''dependent_clause'', False)
      else case command_verdict ws of
        Some v \<Rightarrow> v
      | None \<Rightarrow>
      if in_words (hd ws) [''let's'', ''lets''] \<and> 1 < length ws then (True, ''complete_command'', True)
      else case predicate_index ws of
        None \<Rightarrow> (False, ''no_independent_predicate'', False)
      | Some predicate \<Rightarrow>
      if (predicate = 0 \<and> 39 \<notin> set (hd ws))
         \<or> (predicate = 1 \<and> in_words (hd ws) [''a'', ''an'', ''the'', ''this'', ''that'', ''these'', ''those''])
        then (False, ''no_independent_predicate'', False)
      else if in_words (last ws) aux_words then (False, ''dangling_english_tail'', False)
      else
        (let complement_ok =
           (case first_index (\<lambda>w. in_words w reporting_words) ws of
              None \<Rightarrow> True
            | Some reporting \<Rightarrow>
                if reporting + 1 < length ws then
                  (let tail = drop (reporting + 1) ws;
                       topic = in_words (hd tail) [''about'', ''of'', ''in''];
                       direct = in_words (py_join (lit '' '') tail)
                         [''so'', ''yes'', ''no'', ''hello'', ''goodbye'', ''thank you'', ''thanks''];
                       offset = (if hd tail = lit ''that'' then reporting + 1 else reporting)
                   in topic \<or> direct
                      \<or> standalone (drop (tk_end (wts ! offset)) t))
                else True)
         in if \<not> complement_ok then (False, ''incomplete_complement'', False)
         else
           (let coordinated_ok =
              (case first_index_after predicate
                      (\<lambda>w. in_words w [''and'', ''but'', ''or'', ''so'']) ws of
                 None \<Rightarrow> True
               | Some conjunction \<Rightarrow>
                   if conjunction + 1 < length ws then
                     (let tail = drop (conjunction + 1) ws;
                          object_list = in_words (ws ! predicate) object_list_verbs
                            \<and> in_words (ws ! conjunction) [''and'', ''or''];
                          new_subject = in_words (hd tail) subject_words
                            \<or> (in_words (hd tail) determiner_words \<and> \<not> object_list)
                      in \<not> new_subject
                         \<or> standalone (drop (tk_end (wts ! conjunction)) t))
                   else True)
            in if \<not> coordinated_ok then (False, ''incomplete_coordinated_clause'', False)
               else (True, ''complete_clause'', punctuated))))"

primrec english :: "unidb \<Rightarrow> nat \<Rightarrow> ustring \<Rightarrow> ustring \<Rightarrow> bool \<Rightarrow> verdict" where
  "english uc 0 t context punctuated = (False, ''complex_clause'', False)"
| "english uc (Suc depth) t context punctuated =
     english_clause uc (\<lambda>piece. fst (english uc depth piece [] punctuated)) t context punctuated"

text \<open>An evaluation order that does not look under the recursive call before it is applied.\<close>

definition english_holds :: "unidb \<Rightarrow> nat \<Rightarrow> bool \<Rightarrow> ustring \<Rightarrow> bool" where
  "english_holds uc depth punctuated piece = fst (english uc depth piece [] punctuated)"

lemma english_unfold [code]:
  "english uc n t context punctuated =
     (if n = 0 then (False, ''complex_clause'', False)
      else english_clause uc (english_holds uc (n - 1) punctuated) t context punctuated)"
  by (cases n) (simp_all add: english_holds_def [abs_def])

subsection \<open>Korean and the language switch\<close>

definition korean_trailing :: "unidb \<Rightarrow> nat \<Rightarrow> bool" where
  "korean_trailing uc c \<longleftrightarrow>
     u_isspace uc c \<or> c \<in> set (end_chars @ [34, 0x201D, 0x2019, 0xBB, 93, 41, 125])"

definition korean :: "unidb \<Rightarrow> ustring \<Rightarrow> ustring \<Rightarrow> verdict" where
  "korean uc t context =
     (let body = rstrip_set (korean_trailing uc) t;
          words = py_split uc body;
          lst = (if words \<noteq> [] then last words else [])
      in if \<exists>e \<in> set korean_dependent_endings. ends_with lst e
           then (False, ''dependent_korean_clause'', False)
         else if (lst \<noteq> [] \<and> u_isdecimal uc (last lst)) \<or> (\<exists>e \<in> set korean_amount_endings. ends_with lst e)
           then (False, ''dangling_amount'', False)
         else if body \<in> set korean_expressions then (True, ''complete_expression'', True)
         else if body \<in> set korean_answers \<and> ends_char (py_strip uc context) [63, 0xFF1F]
           then (True, ''question_answer'', True)
         else if \<exists>e \<in> set korean_final_endings. ends_with lst e
           then (True, ''complete_korean_ending'', True)
         else (False, ''no_complete_korean_ending'', False))"

definition complete_source :: "unidb \<Rightarrow> ustring \<Rightarrow> ustring \<Rightarrow> ustring option \<Rightarrow> verdict" where
  "complete_source uc t context language =
     (let stripped = py_strip uc t
      in if stripped = [] \<or> ends_char stripped [44, 58, 59, 45, 0x2014, 47, 0x2026]
           then (False, ''open_boundary'', False)
         else if ends_with stripped (lit ''...'') then (False, ''ellipsis'', False)
         else if \<exists>p \<in> set [(40, 41), (91, 93), (123, 125), (0xFF08, 0xFF09)].
                   count_list stripped (fst p) \<noteq> count_list stripped (snd p)
           then (False, ''unclosed_source'', False)
         else
           (let punctuated = ends_char (rstrip_set (\<lambda>c. c \<in> set closing_chars) stripped) end_chars
            in if (case language of None \<Rightarrow> False
                   | Some l \<Rightarrow> l \<noteq> [] \<and> starts_with (py_lower uc l) (lit ''ko''))
                  \<or> (\<exists>c \<in> set stripped. 0xAC00 \<le> c \<and> c \<le> 0xD7A3)
                 then korean uc stripped context
               else if (\<exists>c \<in> set stripped. (0x3400 \<le> c \<and> c \<le> 0x9FFF) \<or> (0x3040 \<le> c \<and> c \<le> 0x30FF))
                       \<and> \<not> (\<exists>c \<in> set stripped. (65 \<le> c \<and> c \<le> 90) \<or> (97 \<le> c \<and> c \<le> 122))
                 then (if punctuated then (True, ''cjk_sentence_boundary'', True)
                       else (False, ''unclosed_cjk_sentence'', False))
               else english uc 8 stripped context punctuated))"

end
