(* ===== verification/Segmentation.thy ===== *)
theory Segmentation
  imports Completeness Revision
begin

text \<open>
  Model of \<open>segment_prefix\<close> and \<open>SemanticSegmenter\<close> of \<^verbatim>\<open>src/app/streaming/segmentation.py\<close>: the
  longest complete prefix of the stable source within the token budget. The lemmas show that a
  candidate is an exact slice that starts where the previous one ended, ends on a token boundary
  inside the stable source, passed the completeness gate, and exceeds the budget only as a first
  strong sentence when that was allowed.
\<close>

record candidate =
  sc_start :: nat
  sc_end :: nat
  sc_text :: ustring
  sc_complete :: bool
  sc_reason :: string
  sc_count :: nat
  sc_strong :: bool

definition single_char_in :: "ustring \<Rightarrow> nat list \<Rightarrow> bool" where
  "single_char_in w cs \<longleftrightarrow> (\<exists>c \<in> set cs. w = [c])"

definition sentence_end :: "unidb \<Rightarrow> token list \<Rightarrow> nat \<Rightarrow> bool" where
  "sentence_end uc av i \<longleftrightarrow>
     single_char_in (tk_text (av ! i)) end_chars
     \<and> \<not> (tk_text (av ! i) = [46] \<and> i \<noteq> 0
            \<and> in_words (py_casefold uc (tk_text (av ! (i - 1)))) abbreviations)"

text \<open>The index of the last closing mark that follows a sentence end.\<close>

function closing_run :: "token list \<Rightarrow> nat \<Rightarrow> nat" where
  "closing_run av i =
     (if i + 1 < length av \<and> single_char_in (tk_text (av ! (i + 1))) (end_chars @ closing_chars)
      then closing_run av (i + 1) else i)"
  by pat_completeness auto
termination
  by (relation "measure (\<lambda>(av, i). length av - i)") auto

declare closing_run.simps [simp del]

lemma closing_run_bounds: "i < length av \<Longrightarrow> i \<le> closing_run av i \<and> closing_run av i < length av"
proof (induction av i rule: closing_run.induct)
  case (1 av i)
  then show ?case by (subst (1 2) closing_run.simps) auto
qed

definition make_candidate :: "ustring \<Rightarrow> nat \<Rightarrow> nat \<Rightarrow> string \<Rightarrow> nat \<Rightarrow> bool \<Rightarrow> candidate" where
  "make_candidate t start e reason count strong =
     \<lparr>sc_start = start, sc_end = e, sc_text = slice start e t, sc_complete = True,
      sc_reason = reason, sc_count = count, sc_strong = strong\<rparr>"

text \<open>
  The sentence loop. \<open>Inl\<close> is a \<open>return\<close> from inside the loop, \<open>Inr\<close> the loop variables
  (cursor, selected, consumed, context) when it runs to the end.
\<close>

function sentence_loop ::
    "unidb \<Rightarrow> ustring \<Rightarrow> ustring option \<Rightarrow> nat \<Rightarrow> nat \<Rightarrow> bool \<Rightarrow> token list \<Rightarrow> nat
      \<Rightarrow> nat \<Rightarrow> candidate option \<Rightarrow> nat \<Rightarrow> ustring
      \<Rightarrow> candidate option + (nat \<times> candidate option \<times> nat \<times> ustring)" where
  "sentence_loop uc t lang start limit oversize av i cursor selected consumed ctx =
     (if i < length av then
        if sentence_end uc av i then
          (let ei = closing_run av i;
               e = tk_end (av ! ei);
               (complete, reason, strong) = complete_source uc (slice cursor e t) ctx lang;
               count = ei + 1
           in if \<not> complete then Inl selected
              else if count > limit then
                (if selected = None \<and> oversize \<and> strong
                 then Inl (Some (make_candidate t start e reason count strong))
                 else Inl selected)
              else sentence_loop uc t lang start limit oversize av (closing_run av i + 1) e
                     (Some (make_candidate t start e reason count strong)) count (slice cursor e t))
        else sentence_loop uc t lang start limit oversize av (i + 1) cursor selected consumed ctx
      else Inr (cursor, selected, consumed, ctx))"
  by pat_completeness auto
termination
proof (relation "measure (\<lambda>(uc, t, lang, start, limit, oversize, av, i, r). length av - i)", goal_cases)
  case (2 uc t lang start limit oversize av i cursor selected consumed ctx)
  then have "i < length av" "i \<le> closing_run av i" using closing_run_bounds [of i av] by blast+
  then show ?case by simp
qed auto

declare sentence_loop.simps [simp del]

definition available_tokens :: "unidb \<Rightarrow> ustring \<Rightarrow> nat \<Rightarrow> nat \<Rightarrow> token list" where
  "available_tokens uc t start stable_end =
     filter (\<lambda>k. start \<le> tk_start k \<and> tk_end k \<le> stable_end) (tokenize uc t)"

definition source_boundary :: "unidb \<Rightarrow> ustring \<Rightarrow> nat \<Rightarrow> bool" where
  "source_boundary uc t e \<longleftrightarrow> is_boundary (tokenize uc t) e \<or> e = length t"

definition segment_prefix ::
    "unidb \<Rightarrow> ustring \<Rightarrow> nat \<Rightarrow> nat \<Rightarrow> ustring \<Rightarrow> ustring option \<Rightarrow> nat \<Rightarrow> bool
       \<Rightarrow> candidate option res" where
  "segment_prefix uc t stable_end start ctx lang limit oversize =
     (if \<not> (start \<le> stable_end \<and> stable_end \<le> length t) \<or> limit < 1
        then Inl (ValueError ''Invalid source segment limits'')
      else if \<not> source_boundary uc t stable_end \<or> \<not> source_boundary uc t start
        then Inl (ValueError ''Segments must use exact source token boundaries'')
      else
        (let av = available_tokens uc t start stable_end
         in if av = [] then Inr None
            else (case sentence_loop uc t lang start limit oversize av 0 start None 0 ctx of
                    Inl selected \<Rightarrow> Inr selected
                  | Inr (cursor, selected, consumed, ctx3) \<Rightarrow>
                      if consumed < length av \<and> length av \<le> limit then
                        (let e = tk_end (last av);
                             (complete, reason, strong) = complete_source uc (slice cursor e t) ctx3 lang
                         in if complete
                            then Inr (Some (make_candidate t start e reason (length av) strong))
                            else Inr selected)
                      else Inr selected)))"

text \<open>\<open>SemanticSegmenter.supports\<close>: the primary language subtag is \<open>en\<close> or \<open>ko\<close>.\<close>

definition supports_language :: "unidb \<Rightarrow> ustring option \<Rightarrow> bool" where
  "supports_language uc lang \<longleftrightarrow>
     (case lang of None \<Rightarrow> False
      | Some l \<Rightarrow>
          in_words (takeWhile (\<lambda>c. c \<noteq> 45) (map (\<lambda>c. if c = 95 then 45 else c) (py_lower uc l)))
            [''en'', ''ko''])"

definition select_segment ::
    "unidb \<Rightarrow> ustring \<Rightarrow> nat \<Rightarrow> nat \<Rightarrow> ustring \<Rightarrow> ustring option \<Rightarrow> nat \<Rightarrow> bool
       \<Rightarrow> candidate option res" where
  "select_segment uc t stable_end start ctx lang limit oversize =
     (if \<not> supports_language uc lang then Inl (ValueError ''UNKNOWN_SOURCE_LANGUAGE'')
      else segment_prefix uc t stable_end start ctx lang limit oversize)"

subsection \<open>What a candidate guarantees\<close>

text \<open>
  \<open>candidate_ok\<close>: the span, the text, the token count, and the clause that passed the gate.
\<close>

definition candidate_ok ::
    "unidb \<Rightarrow> ustring \<Rightarrow> ustring option \<Rightarrow> nat \<Rightarrow> nat \<Rightarrow> bool \<Rightarrow> token list \<Rightarrow> candidate \<Rightarrow> bool" where
  "candidate_ok uc t lang start limit oversize av c \<longleftrightarrow>
     sc_start c = start \<and> sc_text c = slice start (sc_end c) t \<and> sc_complete c
     \<and> 0 < sc_count c \<and> sc_count c \<le> length av \<and> sc_end c = tk_end (av ! (sc_count c - 1))
     \<and> (sc_count c \<le> limit \<or> oversize \<and> sc_strong c)
     \<and> (\<exists>cursor ctx. start \<le> cursor
          \<and> complete_source uc (slice cursor (sc_end c) t) ctx lang = (True, sc_reason c, sc_strong c))"

definition tokens_after :: "nat \<Rightarrow> token list \<Rightarrow> bool" where
  "tokens_after start av \<longleftrightarrow> (\<forall>i < length av. start < tk_end (av ! i))"

lemma make_candidate_ok:
  assumes "complete_source uc (slice cursor e t) ctx lang = (True, reason, strong)"
    and "start \<le> cursor" and "i < length av" and "e = tk_end (av ! i)"
    and "i + 1 \<le> limit \<or> oversize \<and> strong"
  shows "candidate_ok uc t lang start limit oversize av (make_candidate t start e reason (i + 1) strong)"
  using assms by (auto simp: candidate_ok_def make_candidate_def)

lemma sentence_loop_ok:
  assumes "start \<le> cursor" and "tokens_after start av"
    and "\<forall>c. selected = Some c \<longrightarrow> candidate_ok uc t lang start limit oversize av c"
  shows "case sentence_loop uc t lang start limit oversize av i cursor selected consumed ctx of
           Inl s \<Rightarrow> (\<forall>c. s = Some c \<longrightarrow> candidate_ok uc t lang start limit oversize av c)
         | Inr (cur, s, n, ctx2) \<Rightarrow> start \<le> cur
             \<and> (\<forall>c. s = Some c \<longrightarrow> candidate_ok uc t lang start limit oversize av c)"
  using assms
proof (induction uc t lang start limit oversize av i cursor selected consumed ctx
    rule: sentence_loop.induct)
  case (1 uc t lang start limit oversize av i cursor selected consumed ctx)
  show ?case
  proof (cases "i < length av \<and> sentence_end uc av i")
    case False
    then show ?thesis using 1
      by (subst sentence_loop.simps) (auto split: sum.splits prod.splits)
  next
    case True
    let ?ei = "closing_run av i" and ?e = "tk_end (av ! closing_run av i)"
    obtain complete reason strong where v:
      "complete_source uc (slice cursor ?e t) ctx lang = (complete, reason, strong)"
      by (metis prod_cases3)
    have ei: "?ei < length av" using True closing_run_bounds by blast
    then have e: "start \<le> ?e" using 1 by (auto simp: tokens_after_def less_imp_le)
    note unfold = sentence_loop.simps [of uc t lang start limit oversize av i]
    consider "\<not> complete" | "complete" "?ei + 1 > limit" | "complete" "\<not> ?ei + 1 > limit" by blast
    then show ?thesis
    proof cases
      case 1
      then show ?thesis using True v "1.prems" by (simp add: unfold Let_def)
    next
      case 2
      then show ?thesis
        using True v "1.prems" ei make_candidate_ok [of uc cursor ?e t ctx lang reason strong start ?ei av limit oversize]
        by (auto simp: unfold Let_def)
    next
      case 3
      then have "candidate_ok uc t lang start limit oversize av
          (make_candidate t start ?e reason (?ei + 1) strong)"
        using v ei "1.prems" by (intro make_candidate_ok) auto
      with 3 show ?thesis
        using True v e "1.IH"(1) [OF _ _ refl refl v [symmetric] refl refl refl] "1.prems"(2)
        by (simp add: unfold Let_def)
    qed
  qed
qed

lemma available_after:
  "tokens_after start (available_tokens uc t start stable_end)"
proof -
  have "start < tk_end k" if "k \<in> set (available_tokens uc t start stable_end)" for k
    using that py_tokens.span [of k uc t] by (auto simp: available_tokens_def)
  then show ?thesis by (simp add: tokens_after_def)
qed

lemma segment_prefix_ok:
  assumes "segment_prefix uc t stable_end start ctx lang limit oversize = Inr (Some c)"
  shows "candidate_ok uc t lang start limit oversize (available_tokens uc t start stable_end) c"
proof -
  let ?av = "available_tokens uc t start stable_end"
  let ?loop = "sentence_loop uc t lang start limit oversize ?av 0 start None 0 ctx"
  have ok: "case ?loop of
           Inl s \<Rightarrow> (\<forall>c. s = Some c \<longrightarrow> candidate_ok uc t lang start limit oversize ?av c)
         | Inr (cur, s, n, ctx2) \<Rightarrow> start \<le> cur
             \<and> (\<forall>c. s = Some c \<longrightarrow> candidate_ok uc t lang start limit oversize ?av c)"
    by (rule sentence_loop_ok) (simp_all add: available_after)
  have ne: "?av \<noteq> []" using assms by (auto simp: segment_prefix_def Let_def split: if_splits)
  show ?thesis
  proof (cases ?loop)
    case (Inl s)
    then show ?thesis using ok assms by (auto simp: segment_prefix_def Let_def split: if_splits)
  next
    case (Inr q)
    obtain cur s n ctx2 where q: "q = (cur, s, n, ctx2)" by (cases q) auto
    let ?e = "tk_end (last ?av)"
    obtain complete reason strong where v:
      "complete_source uc (slice cur ?e t) ctx2 lang = (complete, reason, strong)" by (metis prod_cases3)
    have "candidate_ok uc t lang start limit oversize ?av
        (make_candidate t start ?e reason (length ?av - 1 + 1) strong)"
      if "complete" "length ?av \<le> limit"
      using that v ne ok Inr q by (intro make_candidate_ok [where cursor = cur]) (auto simp: last_conv_nth)
    then show ?thesis
      using ok assms Inr q v ne by (auto simp: segment_prefix_def Let_def split: if_splits)
  qed
qed

text \<open>The span facts a client of the segmenter uses.\<close>

lemma segment_prefix_span:
  assumes "segment_prefix uc t stable_end start ctx lang limit oversize = Inr (Some c)"
  shows "sc_start c = start" and "start < sc_end c" and "sc_end c \<le> stable_end"
    and "stable_end \<le> length t" and "sc_text c = slice start (sc_end c) t"
    and "is_boundary (tokenize uc t) (sc_end c)"
proof -
  let ?av = "available_tokens uc t start stable_end"
  have ok: "candidate_ok uc t lang start limit oversize ?av c" by (rule segment_prefix_ok [OF assms])
  then have "?av ! (sc_count c - 1) \<in> set ?av" by (auto simp: candidate_ok_def)
  then have k: "?av ! (sc_count c - 1) \<in> set (tokenize uc t)" "start \<le> tk_start (?av ! (sc_count c - 1))"
      "tk_end (?av ! (sc_count c - 1)) \<le> stable_end"
    by (auto simp: available_tokens_def)
  show "sc_start c = start" "sc_text c = slice start (sc_end c) t" using ok by (auto simp: candidate_ok_def)
  show "start < sc_end c" using ok k py_tokens.span [OF k(1)] by (simp add: candidate_ok_def)
  show "sc_end c \<le> stable_end" using ok k by (simp add: candidate_ok_def)
  show "stable_end \<le> length t" using assms by (auto simp: segment_prefix_def split: if_splits)
  show "is_boundary (tokenize uc t) (sc_end c)" using ok k(1) by (auto simp: candidate_ok_def is_boundary_def)
qed

lemma segment_prefix_total:
  "start \<le> stable_end \<Longrightarrow> stable_end \<le> length t \<Longrightarrow> 1 \<le> limit \<Longrightarrow> source_boundary uc t stable_end \<Longrightarrow>
     source_boundary uc t start \<Longrightarrow>
     \<exists>s. segment_prefix uc t stable_end start ctx lang limit oversize = Inr s"
  by (auto simp: segment_prefix_def Let_def split: sum.splits prod.splits)

end
