(* ===== verification/Policy.thy ===== *)
theory Policy
  imports Segmentation
begin

text \<open>
  Model of \<^verbatim>\<open>src/app/streaming/policy.py\<close>: the READ/WRITE decision of \<open>ReadWritePolicy\<close>, which
  never overrules source completeness.
\<close>

datatype policy_action = READ | WRITE

record decision =
  pd_action :: policy_action
  pd_reason :: string
  pd_segment :: "candidate option"

record policy =
  pol_threshold :: rat
  pol_min_stable :: int
  pol_min_segment :: int
  pol_target_segment :: int
  pol_max_latency :: int
  pol_pause_threshold :: int

definition new_policy :: "rat \<Rightarrow> int \<Rightarrow> int \<Rightarrow> int \<Rightarrow> int \<Rightarrow> int \<Rightarrow> policy res" where
  "new_policy threshold min_stable min_segment target latency pause =
     (if \<not> (0 \<le> threshold \<and> threshold \<le> 1) then Inl (ValueError ''Invalid stability threshold'')
      else if min (min (min (min min_stable min_segment) target) latency) pause < 1
        then Inl (ValueError ''Policy limits must be positive'')
      else Inr \<lparr>pol_threshold = threshold, pol_min_stable = min_stable,
             pol_min_segment = min_segment, pol_target_segment = target,
             pol_max_latency = latency, pol_pause_threshold = pause\<rparr>)"

definition read_because :: "string \<Rightarrow> decision" where
  "read_because r = \<lparr>pd_action = READ, pd_reason = r, pd_segment = None\<rparr>"

definition write_because :: "string \<Rightarrow> candidate \<Rightarrow> decision" where
  "write_because r c = \<lparr>pd_action = WRITE, pd_reason = r, pd_segment = Some c\<rparr>"

definition decide ::
    "policy \<Rightarrow> candidate option \<Rightarrow> rat \<Rightarrow> nat \<Rightarrow> rat \<Rightarrow> rat option \<Rightarrow> bool \<Rightarrow> bool \<Rightarrow> decision" where
  "decide pol cand score stable_tokens age_ms pause_ms final conflict =
     (if conflict then read_because ''committed_prefix_conflict''
      else case cand of
        None \<Rightarrow> read_because ''incomplete_source''
      | Some c \<Rightarrow>
          if \<not> sc_complete c then read_because ''incomplete_source''
          else if \<not> (pol_threshold pol \<le> score \<and> score \<le> 1) \<or> stable_tokens < sc_count c
            then read_because ''unstable_source''
          else if sc_strong c then write_because ''complete_boundary'' c
          else if int stable_tokens < pol_min_stable pol then read_because ''short_stable_prefix''
          else
            (let preferred = pol_target_segment pol \<le> int (sc_count c);
                 due = final \<or> of_int (pol_max_latency pol) \<le> age_ms
                   \<or> (case pause_ms of None \<Rightarrow> False
                       | Some p \<Rightarrow> of_int (pol_pause_threshold pol) \<le> p)
             in if preferred \<or> (pol_min_segment pol \<le> int (sc_count c) \<and> due)
                then write_because ''complete_source'' c
                else read_because ''collecting_complete_context''))"

lemmas decision_defs = read_because_def write_because_def

text \<open>A WRITE hands out exactly the candidate it was asked about, and only a settled one.\<close>

lemma decide_write:
  assumes "pd_action (decide pol cand score n age pause final conflict) = WRITE"
  obtains c where "cand = Some c" and "pd_segment (decide pol cand score n age pause final conflict) = Some c"
    and "sc_complete c" and "\<not> conflict" and "pol_threshold pol \<le> score" and "score \<le> 1" and "sc_count c \<le> n"
  using assms by (auto simp: decide_def decision_defs Let_def split: option.splits if_splits)

text \<open>
  Waiting longer can only turn a READ into a WRITE: time and pauses decide when to release a
  complete source, never what is complete.
\<close>

lemma decide_age_mono:
  assumes "pd_action (decide pol cand score n age pause final conflict) = WRITE" and "age \<le> age'"
  shows "decide pol cand score n age' pause final conflict = decide pol cand score n age pause final conflict"
  using assms by (auto simp: decide_def decision_defs Let_def split: option.splits if_splits)

lemma decide_liveness:
  assumes "cand = Some c" "sc_complete c" "\<not> conflict" "pol_threshold pol \<le> score" "score \<le> 1"
    and "sc_count c \<le> n" "pol_min_stable pol \<le> int n" "pol_min_segment pol \<le> int (sc_count c)"
    and "of_int (pol_max_latency pol) \<le> age"
  shows "pd_action (decide pol cand score n age pause final conflict) = WRITE"
  using assms by (auto simp: decide_def decision_defs Let_def split: option.splits)

end
