(* ===== verification/DraftCommit.thy ===== *)
theory DraftCommit
  imports Prelude
begin

text \<open>
  Model of \<^verbatim>\<open>src/app/streaming/commit.py\<close>: \<open>DraftCommitter\<close> stabilises the translation of one
  whole segment. A draft is ready after enough identical proposals or after a delay; only a ready
  draft can be committed, and a committed draft is frozen until \<open>reset\<close>.
\<close>

record draft =
  dr_start :: int
  dr_end :: int
  dr_source :: ustring
  dr_target :: ustring
  dr_revision :: int
  dr_observations :: int
  dr_changed_at :: rat
  dr_final :: bool
  dr_committed :: bool

record committer =
  dc_stability_count :: int
  dc_delay_ms :: rat
  dc_state :: "draft option"
  dc_last_time :: "rat option"

definition new_committer :: "int \<Rightarrow> rat \<Rightarrow> committer res" where
  "new_committer count delay_ms =
     (if count < 1 \<or> delay_ms < 0 then Inl (ValueError ''Invalid draft commit limits'')
      else Inr \<lparr>dc_stability_count = count, dc_delay_ms = delay_ms, dc_state = None,
                dc_last_time = None\<rparr>)"

definition committer_now :: "committer \<Rightarrow> pyfloat \<Rightarrow> committer \<times> rat res" where
  "committer_now dc clk =
     (if \<not> pf_finite clk then (dc, Inl (ValueError ''Local draft time must be finite''))
      else (let v = (case dc_last_time dc of None \<Rightarrow> pf_val clk | Some l \<Rightarrow> max (pf_val clk) l)
            in (dc\<lparr>dc_last_time := Some v\<rparr>, Inr v)))"

definition same_draft :: "draft \<Rightarrow> int \<Rightarrow> int \<Rightarrow> ustring \<Rightarrow> int \<Rightarrow> bool" where
  "same_draft d s e src rv \<longleftrightarrow>
     dr_start d = s \<and> dr_end d = e \<and> dr_source d = src \<and> dr_revision d = rv"

definition propose ::
    "unidb \<Rightarrow> committer \<Rightarrow> pyfloat \<Rightarrow> int \<Rightarrow> int \<Rightarrow> ustring \<Rightarrow> ustring \<Rightarrow> int \<Rightarrow> bool
       \<Rightarrow> committer \<times> draft res" where
  "propose uc dc clk s e src target rv final =
     (if \<not> (0 \<le> s \<and> s < e) \<or> e - s \<noteq> int (length src)
        then (dc, Inl (ValueError ''Draft must carry its exact whole source span''))
      else if py_strip uc src = [] \<or> py_strip uc target = [] \<or> rv < 0
        then (dc, Inl (ValueError ''Draft source, target and revision must be valid''))
      else case committer_now dc clk of
          (dc1, Inl err) \<Rightarrow> (dc1, Inl err)
        | (dc1, Inr now) \<Rightarrow>
            (case dc_state dc1 of
               Some old \<Rightarrow>
                 if dr_committed old
                   then (dc1, Inl (ValueError ''Reset a committed draft before proposing another segment''))
                 else
                   (let unchanged = same_draft old s e src rv \<and> dr_target old = target;
                        d = \<lparr>dr_start = s, dr_end = e, dr_source = src, dr_target = target,
                             dr_revision = rv,
                             dr_observations = (if unchanged then dr_observations old + 1 else 1),
                             dr_changed_at = (if unchanged then dr_changed_at old else now),
                             dr_final = final, dr_committed = False\<rparr>
                    in (dc1\<lparr>dc_state := Some d\<rparr>, Inr d))
             | None \<Rightarrow>
                 (let d = \<lparr>dr_start = s, dr_end = e, dr_source = src, dr_target = target,
                           dr_revision = rv, dr_observations = 1, dr_changed_at = now,
                           dr_final = final, dr_committed = False\<rparr>
                  in (dc1\<lparr>dc_state := Some d\<rparr>, Inr d))))"

definition draft_settled :: "committer \<Rightarrow> rat \<Rightarrow> bool" where
  "draft_settled dc current \<longleftrightarrow>
     (case dc_state dc of
        None \<Rightarrow> False
      | Some d \<Rightarrow> \<not> dr_committed d
          \<and> (dc_stability_count dc \<le> dr_observations d
             \<or> dc_delay_ms dc \<le> (current - dr_changed_at d) * 1000 + 1 / 1000000000))"

definition ready :: "committer \<Rightarrow> pyfloat \<Rightarrow> committer \<times> bool res" where
  "ready dc clk =
     (case committer_now dc clk of
        (dc1, Inl e) \<Rightarrow> (dc1, Inl e)
      | (dc1, Inr current) \<Rightarrow> (dc1, Inr (draft_settled dc1 current)))"

definition mark_committed :: "committer \<Rightarrow> pyfloat \<Rightarrow> committer \<times> draft res" where
  "mark_committed dc clk =
     (case ready dc clk of
        (dc1, Inl e) \<Rightarrow> (dc1, Inl e)
      | (dc1, Inr False) \<Rightarrow> (dc1, Inl (ValueError ''Draft has not stabilized''))
      | (dc1, Inr True) \<Rightarrow>
          (case dc_state dc1 of
             None \<Rightarrow> (dc1, Inl (TypeError ''replace() should be called on dataclass instances''))
           | Some d \<Rightarrow> (dc1\<lparr>dc_state := Some (d\<lparr>dr_committed := True\<rparr>)\<rparr>,
                         Inr (d\<lparr>dr_committed := True\<rparr>))))"

definition committer_reset :: "committer \<Rightarrow> committer" where
  "committer_reset dc = dc\<lparr>dc_state := None\<rparr>"

subsection \<open>Lemmas\<close>

lemma committer_now_finite:
  assumes "pf_finite clk"
  obtains v where "committer_now dc clk = (dc\<lparr>dc_last_time := Some v\<rparr>, Inr v)"
    and "v = (case dc_last_time dc of None \<Rightarrow> pf_val clk | Some l \<Rightarrow> max (pf_val clk) l)"
  using assms by (auto simp: committer_now_def Let_def)

lemma draft_settled_time [simp]: "draft_settled (dc\<lparr>dc_last_time := v\<rparr>) q = draft_settled dc q"
  by (simp add: draft_settled_def split: option.split)

lemma draft_settled_mono:
  "draft_settled dc q \<Longrightarrow> q \<le> q' \<Longrightarrow> draft_settled dc q'"
  by (auto simp: draft_settled_def split: option.splits)

text \<open>The time at which a draft is seen; the local clock never runs backwards.\<close>

definition seen_at :: "committer \<Rightarrow> pyfloat \<Rightarrow> rat" where
  "seen_at dc clk = (case dc_last_time dc of None \<Rightarrow> pf_val clk | Some l \<Rightarrow> max (pf_val clk) l)"

lemma ready_eq: "pf_finite clk \<Longrightarrow>
   ready dc clk = (dc\<lparr>dc_last_time := Some (seen_at dc clk)\<rparr>, Inr (draft_settled dc (seen_at dc clk)))"
  by (simp add: ready_def committer_now_def seen_at_def Let_def)

lemma mark_committed_iff:
  "pf_finite clk \<Longrightarrow> isl (snd (mark_committed dc clk)) \<longleftrightarrow> \<not> draft_settled dc (seen_at dc clk)"
  by (auto simp: mark_committed_def ready_eq draft_settled_def split: option.splits)

lemma mark_committed_state:
  assumes "snd (mark_committed dc clk) = Inr d"
  obtains old where "dc_state dc = Some old" "\<not> dr_committed old" "d = old\<lparr>dr_committed := True\<rparr>"
    "dc_state (fst (mark_committed dc clk)) = Some d"
proof -
  have "pf_finite clk" using assms
    by (auto simp: mark_committed_def ready_def committer_now_def split: if_splits)
  then show ?thesis using assms that
    by (auto simp: mark_committed_def ready_eq draft_settled_def split: option.splits bool.splits)
qed

text \<open>A committed draft accepts no further proposal and no second commit.\<close>

lemma committed_frozen:
  assumes "dc_state dc = Some d" "dr_committed d"
  shows "isl (snd (propose uc dc clk s e src target rv final))"
    and "dc_state (fst (propose uc dc clk s e src target rv final)) = Some d"
    and "isl (snd (mark_committed dc clk))"
  using assms
  by (auto simp: propose_def committer_now_def mark_committed_def ready_def draft_settled_def Let_def
      split: option.splits)

text \<open>Repeated identical proposals count up and keep the time of the first one.\<close>

lemma propose_repeat:
  assumes "dc_state dc = Some d" and "\<not> dr_committed d" and "same_draft d s e src rv" and "dr_target d = target"
    and "0 \<le> s" "s < e" "e - s = int (length src)" "py_strip uc src \<noteq> []" "py_strip uc target \<noteq> []" "0 \<le> rv"
    and "pf_finite clk"
  shows "snd (propose uc dc clk s e src target rv final)
    = Inr (d\<lparr>dr_observations := dr_observations d + 1, dr_final := final\<rparr>)"
  using assms by (auto simp: propose_def committer_now_def same_draft_def Let_def)

lemma propose_fresh:
  assumes "dc_state dc = None" and "0 \<le> s" "s < e" "e - s = int (length src)"
    and "py_strip uc src \<noteq> []" "py_strip uc target \<noteq> []" "0 \<le> rv" "pf_finite clk"
  obtains d where "propose uc dc clk s e src target rv final =
      (dc\<lparr>dc_last_time := Some (seen_at dc clk), dc_state := Some d\<rparr>, Inr d)"
    and "dr_observations d = 1" "\<not> dr_committed d" "dr_changed_at d = seen_at dc clk" "dr_target d = target"
      "dr_source d = src"
  using assms by (auto simp: propose_def committer_now_def seen_at_def Let_def)

end
