(* ===== verification/StreamingProps.thy ===== *)
theory StreamingProps
  imports Stability Revision Policy DraftCommit
begin

text \<open>
  Properties of the streaming core (\<^verbatim>\<open>src/app/utils\<close> and \<^verbatim>\<open>src/app/streaming\<close>), each stated over the
  model's definitions and followed by an instance at a concrete input where it has hypotheses.
\<close>

subsection \<open>Tokenisation\<close>

text \<open>
  C14: The tokenizer partitions its source. Every token is a nonempty exact slice that starts on a
  non-blank character, tokens are ordered and disjoint, every non-blank character lies in one, and
  concatenating the tokens with the gaps between them gives back the source.
\<close>

theorem tokenize_partition:
  "(\<forall>k \<in> set (tokenize uc t). tk_start k < tk_end k \<and> tk_end k \<le> length t
      \<and> tk_text k = slice (tk_start k) (tk_end k) t \<and> \<not> u_isspace uc (t ! tk_start k))
   \<and> (\<forall>i j. i < j \<and> j < length (tokenize uc t) \<longrightarrow>
        tk_end (tokenize uc t ! i) \<le> tk_start (tokenize uc t ! j))
   \<and> (\<forall>i < length t. \<not> u_isspace uc (t ! i) \<longrightarrow>
        (\<exists>k \<in> set (tokenize uc t). tk_start k \<le> i \<and> i < tk_end k))
   \<and> rebuild t 0 (tokenize uc t) = t"
proof (intro conjI)
  note chain = tokenize_chain [of uc t]
  show "\<forall>k \<in> set (tokenize uc t). tk_start k < tk_end k \<and> tk_end k \<le> length t
      \<and> tk_text k = slice (tk_start k) (tk_end k) t \<and> \<not> u_isspace uc (t ! tk_start k)"
    using token_chain_member [OF chain] by blast
  show "\<forall>i j. i < j \<and> j < length (tokenize uc t) \<longrightarrow>
      tk_end (tokenize uc t ! i) \<le> tk_start (tokenize uc t ! j)"
    using token_chain_ordered [OF chain] by blast
  show "\<forall>i < length t. \<not> u_isspace uc (t ! i) \<longrightarrow>
      (\<exists>k \<in> set (tokenize uc t). tk_start k \<le> i \<and> i < tk_end k)"
    using token_chain_covers [OF chain] by simp
  show "rebuild t 0 (tokenize uc t) = t"
    using rebuild_chain [OF chain] by simp
qed

lemma tokenize_partition_witness:
  "map (\<lambda>k. (tk_start k, tk_end k)) (tokenize ascii_db (lit ''It is 3.5 kg.''))
     = [(0, 2), (3, 5), (6, 9), (10, 12), (12, 13)]
   \<and> (\<exists>k \<in> set (tokenize ascii_db (lit ''It is 3.5 kg.'')). tk_start k \<le> 6 \<and> 6 < tk_end k)"
proof -
  have c: "6 < length (lit ''It is 3.5 kg.'')" "\<not> u_isspace ascii_db (lit ''It is 3.5 kg.'' ! 6)"
    "map (\<lambda>k. (tk_start k, tk_end k)) (tokenize ascii_db (lit ''It is 3.5 kg.''))
     = [(0, 2), (3, 5), (6, 9), (10, 12), (12, 13)]"
    by code_simp+
  show ?thesis using tokenize_partition [of ascii_db "lit ''It is 3.5 kg.''"] c by blast
qed

text \<open>
  \<open>common_prefix_length\<close> is the longest common prefix: all sequences agree on it, and no longer
  prefix is shared by all of them.
\<close>

theorem common_prefix_longest:
  assumes "seqs \<noteq> []"
  shows "(\<forall>s \<in> set seqs. n \<le> length s \<and> take n s = take n (hd seqs)) \<longleftrightarrow> n \<le> common_prefix_length seqs"
proof
  assume all: "\<forall>s \<in> set seqs. n \<le> length s \<and> take n s = take n (hd seqs)"
  show "n \<le> common_prefix_length seqs"
  proof (rule ccontr)
    assume "\<not> n \<le> common_prefix_length seqs"
    then have less: "common_prefix_length seqs < n" by simp
    then obtain s where s: "s \<in> set seqs"
      "s ! common_prefix_length seqs \<noteq> hd seqs ! common_prefix_length seqs"
      using common_prefix_length_maximal [OF assms] all by (meson less_le_trans)
    have "take n s ! common_prefix_length seqs = take n (hd seqs) ! common_prefix_length seqs"
      using all s(1) by simp
    then show False using s(2) less by simp
  qed
next
  assume le: "n \<le> common_prefix_length seqs"
  have "take n s = take n (hd seqs)" if "s \<in> set seqs" for s
  proof -
    have "take (common_prefix_length seqs) s = take (common_prefix_length seqs) (hd seqs)"
      using common_prefix_length_agree that assms by (metis list.set_sel(1))
    then have "take n (take (common_prefix_length seqs) s) = take n (take (common_prefix_length seqs) (hd seqs))"
      by simp
    then show ?thesis using le by (simp add: min_absorb1)
  qed
  then show "\<forall>s \<in> set seqs. n \<le> length s \<and> take n s = take n (hd seqs)"
    using le common_prefix_length_le by (meson le_trans)
qed

lemma common_prefix_longest_witness:
  "common_prefix_length [lit ''abcd'', lit ''abx'', lit ''ab''] = 2
   \<and> \<not> (\<forall>s \<in> set [lit ''abcd'', lit ''abx'', lit ''ab'']. 3 \<le> length s \<and> take 3 s = take 3 (lit ''abcd''))"
proof -
  have n: "common_prefix_length [lit ''abcd'', lit ''abx'', lit ''ab''] = 2" by code_simp
  show ?thesis
    using common_prefix_longest [of "[lit ''abcd'', lit ''abx'', lit ''ab'']" 3] by (simp add: n)
qed

subsection \<open>Stability of streaming hypotheses\<close>

definition sample_tracker :: tracker where
  "sample_tracker = (case new_tracker 2 (1 / 2) 1200 700 4000
       \<lparr>w_agreement = 6 / 10, w_confidence = 2 / 10, w_age = 2 / 10, w_pause = 0\<rparr> False of
     Inr tr \<Rightarrow> tr | Inl _ \<Rightarrow> undefined)"

definition sample_observe :: "tracker \<Rightarrow> rat \<Rightarrow> string \<Rightarrow> int \<Rightarrow> bool \<Rightarrow> tracker \<times> stability res" where
  "sample_observe tr now s sequence final =
     observe ascii_db tr (Fin now) (lit s) sequence final NoConf POther"

lemma sample_tracker_new:
  "new_tracker 2 (1 / 2) 1200 700 4000
     \<lparr>w_agreement = 6 / 10, w_confidence = 2 / 10, w_age = 2 / 10, w_pause = 0\<rparr> False
   = Inr sample_tracker"
  by (simp add: sample_tracker_def new_tracker_def)

lemma sample_tracker_wf: "tracker_wf ascii_db sample_tracker"
  using sample_tracker_new by (rule new_tracker_wf)

lemma sample_observe_wf: "tracker_wf ascii_db tr \<Longrightarrow> tracker_wf ascii_db (fst (sample_observe tr now s n f))"
  unfolding sample_observe_def by (rule observe_wf)

lemmas sample_wf = sample_tracker_wf sample_observe_wf

text \<open>
  C12: What a well-formed tracker makes of an interim hypothesis, on every branch. A text beyond the
  character limit, a sequence number that is not larger, or a clock that is not finite raises the
  code's error for it and changes nothing. Any other hypothesis is accepted, and the stable prefix it
  reports is agreed: a prefix that goes beyond the committed tokens is the common beginning of all
  hypotheses of a full window. A hypothesis that contradicts the committed prefix is flagged and
  nothing of it is stable.
\<close>

theorem observe_interim_agreement:
  assumes wf: "tracker_wf uc tr"
  shows "if tr_max_chars tr < length txt then
      observe uc tr clk txt s False conf pause = (tr, Inl (ValueError ''Source exceeds tracker character limit''))
    else if s \<le> tr_sequence tr then
      observe uc tr clk txt s False conf pause = (tr, Inl (ValueError ''ASR sequence must strictly increase''))
    else if \<not> pf_finite clk then
      observe uc tr clk txt s False conf pause = (tr, Inl (ValueError ''Monotonic clock must be finite''))
    else \<exists>tr' r. observe uc tr clk txt s False conf pause = (tr', Inr r)
      \<and> tr_text tr' = txt \<and> tr_sequence tr' = s \<and> tr_committed tr' = tr_committed tr
      \<and> st_char_end r = char_end (tokenize uc txt) (st_count r)
      \<and> (st_conflict r \<longrightarrow> st_count r = 0)
      \<and> (\<not> st_conflict r \<longrightarrow> prefix (tr_committed tr) txt \<and> length (tr_committed tr) \<le> st_char_end r)
      \<and> (\<not> st_conflict r \<and> committed_count tr' < st_count r \<longrightarrow>
           length (tr_history tr') = tr_window tr'
           \<and> (\<forall>h \<in> set (tr_history tr'). take (st_count r) h = take (st_count r) (map tk_text (tokenize uc txt))))"
proof (cases "length txt \<le> tr_max_chars tr \<and> tr_sequence tr < s \<and> pf_finite clk")
  case False
  then show ?thesis by (auto simp: observe_def tracker_now_def)
next
  case True
  note assms = wf conjunct1 [OF True] conjunct1 [OF conjunct2 [OF True]] conjunct2 [OF conjunct2 [OF True]]
  obtain r v where r: "observe uc tr clk txt s False conf pause =
       ((record_hypothesis uc (tr\<lparr>tr_last_time := Some v\<rparr>) v txt s False conf pause)\<lparr>tr_result := Some r\<rparr>, Inr r)"
    "result_ok (record_hypothesis uc (tr\<lparr>tr_last_time := Some v\<rparr>) v txt s False conf pause) r"
    "st_count r = stable_count (record_hypothesis uc (tr\<lparr>tr_last_time := Some v\<rparr>) v txt s False conf pause)
       (map (token_score (record_hypothesis uc (tr\<lparr>tr_last_time := Some v\<rparr>) v txt s False conf pause) v)
         [0..<available_count uc (record_hypothesis uc (tr\<lparr>tr_last_time := Some v\<rparr>) v txt s False conf pause)])"
    using assms by (rule observe_accepted)
  define q where "q = record_hypothesis uc (tr\<lparr>tr_last_time := Some v\<rparr>) v txt s False conf pause"
  have core: "tracker_core uc q"
    unfolding q_def using assms(1) by (intro record_hypothesis_core) (simp add: tracker_wf_def)
  have q: "tr_text q = txt" "tr_sequence q = s" "tr_committed q = tr_committed tr" "\<not> tr_final q"
      "tr_tokens q = tokenize uc txt"
    by (simp_all add: q_def record_hypothesis_def Let_def)
  note r' = r [folded q_def]
  have agree: "length (tr_history q) = tr_window q
      \<and> (\<forall>h \<in> set (tr_history q). take (st_count r) h = take (st_count r) (map tk_text (tokenize uc txt)))"
    if "\<not> st_conflict r" "committed_count q < st_count r"
  proof -
    have nc: "\<not> prefix_conflict q" using that r'(2) by (simp add: result_ok_def)
    have "tr_history q \<noteq> []" by (auto simp: q_def record_hypothesis_def push_bounded_def Let_def
          intro: assms) (use assms(1) in \<open>simp add: tracker_wf_def tracker_core_defs\<close>)
    then show ?thesis
      using stable_count_interim [OF core q(4) nc that(2) [unfolded r'(3)]] q(5)
      by (metis r'(3) last_in_set)
  qed
  have "st_conflict r \<longrightarrow> st_count r = 0"
    using r'(2,3) q(4) by (simp add: result_ok_def stable_count_def Let_def)
  moreover have "\<not> st_conflict r \<longrightarrow> prefix (tr_committed tr) txt \<and> length (tr_committed tr) \<le> st_char_end r"
    using r'(2) q by (auto simp: result_ok_def prefix_conflict_def)
  ultimately have "\<exists>tr' r. observe uc tr clk txt s False conf pause = (tr', Inr r)
      \<and> tr_text tr' = txt \<and> tr_sequence tr' = s \<and> tr_committed tr' = tr_committed tr
      \<and> st_char_end r = char_end (tokenize uc txt) (st_count r)
      \<and> (st_conflict r \<longrightarrow> st_count r = 0)
      \<and> (\<not> st_conflict r \<longrightarrow> prefix (tr_committed tr) txt \<and> length (tr_committed tr) \<le> st_char_end r)
      \<and> (\<not> st_conflict r \<and> committed_count tr' < st_count r \<longrightarrow>
           length (tr_history tr') = tr_window tr'
           \<and> (\<forall>h \<in> set (tr_history tr'). take (st_count r) h = take (st_count r) (map tk_text (tokenize uc txt))))"
    using r'(1,2) q agree
    by (intro exI [of _ "q\<lparr>tr_result := Some r\<rparr>"] exI [of _ r])
       (simp add: result_ok_def committed_count_def)
  then show ?thesis using True by simp
qed

lemma observe_interim_agreement_witness:
  "\<exists>tr' r. sample_observe (fst (sample_observe sample_tracker 0 ''I like tea'' 0 False)) 1 ''I like tea now'' 1 False
       = (tr', Inr r)
     \<and> st_count r = 3
     \<and> (\<forall>h \<in> set (tr_history tr'). take 3 h = map lit [''I'', ''like'', ''tea''])"
proof -
  let ?tr = "fst (sample_observe sample_tracker 0 ''I like tea'' 0 False)"
  have c: "length (lit ''I like tea now'') \<le> tr_max_chars ?tr \<and> tr_sequence ?tr < 1
     \<and> take 3 (map tk_text (tokenize ascii_db (lit ''I like tea now''))) = map lit [''I'', ''like'', ''tea'']
     \<and> (case sample_observe ?tr 1 ''I like tea now'' 1 False of (tr', Inr r) \<Rightarrow>
          st_count r = 3 \<and> \<not> st_conflict r \<and> committed_count tr' < 3)"
    by code_simp
  have "tracker_wf ascii_db ?tr" by (intro sample_wf)
  from observe_interim_agreement [OF this, of "lit ''I like tea now''" "Fin 1" 1 NoConf POther] c
  show ?thesis by (auto simp: sample_observe_def not_less [symmetric])
qed

text \<open>
  Committing the prefix that was just reported stable never raises, unless it would replace
  committed text without a final confirmation; it keeps the tracker well-formed, the committed text
  is exactly that prefix, and without a conflict the previously committed text is a prefix of it.
\<close>

theorem commit_append_only:
  assumes "tracker_wf uc tr" and "tr_result tr = Some r" and "pf_finite clk"
    and "st_conflict r \<longrightarrow> allow \<and> tr_final tr"
  shows "\<exists>tr' q. commit_prefix uc tr clk (int (st_char_end r)) allow = (tr', Inr q)
    \<and> tracker_wf uc tr' \<and> tr_committed tr' = take (st_char_end r) (tr_text tr)
    \<and> (\<not> st_conflict r \<longrightarrow> prefix (tr_committed tr) (tr_committed tr'))"
proof -
  obtain v q where c: "commit_prefix uc tr clk (int (st_char_end r)) allow =
       (tr\<lparr>tr_committed := take (st_char_end r) (tr_text tr), tr_last_time := Some v,
            tr_result := Some q\<rparr>, Inr q)"
    using commit_prefix_accepted [OF assms(1-3)] assms(4) by metis
  have "tracker_wf uc (fst (commit_prefix uc tr clk (int (st_char_end r)) allow))"
    using assms(1,3) by (rule commit_prefix_wf)
  moreover have "prefix (tr_committed tr) (take (st_char_end r) (tr_text tr))" if "\<not> st_conflict r"
  proof -
    have "prefix (tr_committed tr) (tr_text tr)" "length (tr_committed tr) \<le> st_char_end r"
      using assms(1,2) that by (auto simp: tracker_wf_def result_ok_def prefix_conflict_def)
    then show ?thesis by (auto simp: prefix_def)
  qed
  ultimately show ?thesis using c by auto
qed

lemma commit_append_only_witness:
  "\<exists>tr' q. commit_prefix ascii_db (fst (sample_observe sample_tracker 0 ''Thank you.'' 0 True)) (Fin 1) 10 True
       = (tr', Inr q)
     \<and> tr_committed tr' = lit ''Thank you.''"
proof -
  let ?tr = "fst (sample_observe sample_tracker 0 ''Thank you.'' 0 True)"
  have c: "(case tr_result ?tr of Some r \<Rightarrow> \<not> st_conflict r \<and> st_char_end r = 10 | None \<Rightarrow> False)
      \<and> tr_text ?tr = lit ''Thank you.'' \<and> take 10 (lit ''Thank you.'') = lit ''Thank you.''"
    by code_simp
  then obtain r where r: "tr_result ?tr = Some r" "\<not> st_conflict r" "st_char_end r = 10"
    by (auto split: option.splits)
  have "tracker_wf ascii_db ?tr" by (intro sample_wf)
  from commit_append_only [OF this r(1), of "Fin 1" True] r c show ?thesis by auto
qed

text \<open>
  After a final hypothesis the whole source is stable: every token counts, the score is one, and
  a contradicted committed prefix is reported for reconciliation instead of blocking the result.
\<close>

theorem observe_final_stable:
  assumes "tracker_wf uc tr" and "length txt \<le> tr_max_chars tr" and "tr_sequence tr < s" and "pf_finite clk"
  shows "\<exists>tr' r. observe uc tr clk txt s True conf pause = (tr', Inr r)
    \<and> st_count r = length (tokenize uc txt)
    \<and> st_char_end r = char_end (tokenize uc txt) (length (tokenize uc txt))
    \<and> st_reconcile r = st_conflict r \<and> tracker_wf uc tr'"
proof -
  obtain r v where r: "observe uc tr clk txt s True conf pause =
       ((record_hypothesis uc (tr\<lparr>tr_last_time := Some v\<rparr>) v txt s True conf pause)\<lparr>tr_result := Some r\<rparr>, Inr r)"
    "result_ok (record_hypothesis uc (tr\<lparr>tr_last_time := Some v\<rparr>) v txt s True conf pause) r"
    "st_count r = stable_count (record_hypothesis uc (tr\<lparr>tr_last_time := Some v\<rparr>) v txt s True conf pause)
       (map (token_score (record_hypothesis uc (tr\<lparr>tr_last_time := Some v\<rparr>) v txt s True conf pause) v)
         [0..<available_count uc (record_hypothesis uc (tr\<lparr>tr_last_time := Some v\<rparr>) v txt s True conf pause)])"
    using assms by (rule observe_accepted)
  define q where "q = record_hypothesis uc (tr\<lparr>tr_last_time := Some v\<rparr>) v txt s True conf pause"
  have core: "tracker_core uc q"
    unfolding q_def using assms(1) by (intro record_hypothesis_core) (simp add: tracker_wf_def)
  have q: "tr_final q" "tr_tokens q = tokenize uc txt"
    by (simp_all add: q_def record_hypothesis_def Let_def)
  have "tracker_wf uc (fst (observe uc tr clk txt s True conf pause))" using assms(1) by (rule observe_wf)
  then show ?thesis
    using r [folded q_def] stable_count_final [OF core q(1)] q by (auto simp: result_ok_def)
qed

lemma observe_final_stable_witness:
  "\<exists>tr' r. sample_observe (fst (sample_observe sample_tracker 0 ''I like'' 0 False)) 1 ''I like it.'' 1 True
       = (tr', Inr r) \<and> st_count r = 4"
proof -
  let ?tr = "fst (sample_observe sample_tracker 0 ''I like'' 0 False)"
  have c: "length (lit ''I like it.'') \<le> tr_max_chars ?tr \<and> tr_sequence ?tr < 1
      \<and> length (tokenize ascii_db (lit ''I like it.'')) = 4"
    by code_simp
  have "tracker_wf ascii_db ?tr" by (intro sample_wf)
  from observe_final_stable [OF this, of "lit ''I like it.''" 1 "Fin 1" NoConf POther] c
  show ?thesis by (auto simp: sample_observe_def)
qed

text \<open>
  C13: The tracker invariant holds of a new tracker and after every operation, whatever its
  arguments and whether it returns or raises (a commit needs a finite clock): the tokens are those of the text, the evidence lists
  match them, the window is bounded, and the stored result is a token prefix with a score in [0,1].
\<close>

theorem tracker_operations_wf:
  "(\<forall>n th h pt mc w hold tr. new_tracker n th h pt mc w hold = Inr tr \<longrightarrow> tracker_wf uc tr)
   \<and> (\<forall>tr clk txt s f c p. tracker_wf uc tr \<longrightarrow> tracker_wf uc (fst (observe uc tr clk txt s f c p)))
   \<and> (\<forall>tr clk. tracker_wf uc tr \<longrightarrow> tracker_wf uc (fst (refresh uc tr clk)))
   \<and> (\<forall>tr clk ce allow. tracker_wf uc tr \<and> pf_finite clk \<longrightarrow>
        tracker_wf uc (fst (commit_prefix uc tr clk ce allow)))
   \<and> (\<forall>tr. tracker_wf uc tr \<longrightarrow> tracker_wf uc (tracker_reset tr))"
  using new_tracker_wf observe_wf refresh_wf commit_prefix_wf tracker_reset_wf
  by (fastforce simp: tracker_wf_def tracker_core_def)

lemma tracker_operations_wf_witness:
  "tracker_wf ascii_db (fst (refresh ascii_db (fst (observe ascii_db sample_tracker (Fin 0) (lit ''Go now'') 0 False NoConf POther)) (Fin 2)))"
proof -
  note ops = tracker_operations_wf [of ascii_db]
  have "tracker_wf ascii_db sample_tracker"
    using conjunct1 [OF ops] sample_tracker_new by metis
  then show ?thesis
    using conjunct1 [OF conjunct2 [OF ops]] conjunct1 [OF conjunct2 [OF conjunct2 [OF ops]]] by metis
qed

subsection \<open>Revision, segmentation, policy\<close>

text \<open>
  C10: For segments that tile a prefix of the old text, the revision plan always exists. Its boundary
  is the end of the last kept segment, the old and the new text agree up to it, and so every kept
  segment still carries the same source; a segment is dropped only if it or an earlier one reaches
  past the first lexical difference.
\<close>

theorem plan_revision_safe:
  assumes "contiguous 0 segs" and "\<forall>s \<in> set segs. rs_end s \<le> length old"
  shows "\<exists>p. plan_revision uc old new segs = Inr p \<and> rp_index p \<le> length segs
    \<and> rp_boundary p = (if rp_index p = 0 then 0 else rs_end (segs ! (rp_index p - 1)))
    \<and> rp_replacement p = drop (rp_boundary p) new
    \<and> (\<forall>i < rp_index p. slice (rs_start (segs ! i)) (rs_end (segs ! i)) new
         = slice (rs_start (segs ! i)) (rs_end (segs ! i)) old)
    \<and> (rp_index p < length segs \<longrightarrow> lexical_difference uc old new < rs_end (segs ! rp_index p))
    \<and> (old = new \<longrightarrow> rp_index p = length segs)"
proof -
  obtain p where p: "plan_revision uc old new segs = Inr p" "rp_index p \<le> length segs"
    "rp_boundary p = (if rp_index p = 0 then 0 else rs_end (segs ! (rp_index p - 1)))"
    "take (rp_boundary p) old = take (rp_boundary p) new"
    "\<And>i. i < rp_index p \<Longrightarrow> rs_end (segs ! i) \<le> rp_boundary p"
    "rp_index p < length segs \<Longrightarrow> old \<noteq> new \<and> lexical_difference uc old new < rs_end (segs ! rp_index p)"
    "rp_replacement p = drop (rp_boundary p) new"
    using plan_revision_contract [OF assms, of uc new] by metis
  have "slice (rs_start (segs ! i)) (rs_end (segs ! i)) new = slice (rs_start (segs ! i)) (rs_end (segs ! i)) old"
    if "i < rp_index p" for i
    using slice_cong_take [OF p(4) p(5) [OF that]] by simp
  then show ?thesis using p by (intro exI [of _ p]) (auto simp: le_less)
qed

definition sample_segments :: "rev_segment list" where
  "sample_segments = [\<lparr>rs_start = 0, rs_end = 10\<rparr>, \<lparr>rs_start = 10, rs_end = 18\<rparr>]"

lemma plan_revision_safe_witness:
  "\<exists>p. plan_revision ascii_db (lit ''Thank you. Go now. We'') (lit ''Thank you. Go home.'') sample_segments = Inr p
     \<and> rp_index p = 1 \<and> rp_boundary p = 10 \<and> rp_replacement p = lit '' Go home.''"
proof -
  have h: "contiguous 0 sample_segments"
      "\<forall>s \<in> set sample_segments. rs_end s \<le> length (lit ''Thank you. Go now. We'')"
    by code_simp+
  have i: "(case plan_revision ascii_db (lit ''Thank you. Go now. We'') (lit ''Thank you. Go home.'') sample_segments of
      Inr p \<Rightarrow> rp_index p = 1 | Inl _ \<Rightarrow> False)"
    "drop 10 (lit ''Thank you. Go home.'') = lit '' Go home.''" "rs_end (sample_segments ! 0) = 10"
    by code_simp+
  show ?thesis
    using plan_revision_safe [OF h, of ascii_db "lit ''Thank you. Go home.''"] i by auto
qed

text \<open>
  \<open>gated t lang a c b d\<close>: the source from \<open>a\<close> to \<open>b\<close> is a sequence of clauses that each passed the
  completeness gate, the first with context \<open>c\<close>, every later one with its predecessor as context;
  \<open>d\<close> is the context for the next clause.
\<close>

inductive gated ::
    "unidb \<Rightarrow> ustring \<Rightarrow> ustring option \<Rightarrow> nat \<Rightarrow> ustring \<Rightarrow> nat \<Rightarrow> ustring \<Rightarrow> bool"
  for uc :: unidb and t :: ustring and lang :: "ustring option" and a :: nat and c :: ustring where
  gated_start: "gated uc t lang a c a c"
| gated_clause: "gated uc t lang a c b d \<Longrightarrow>
     complete_source uc (slice b e t) d lang = (True, reason, strong) \<Longrightarrow>
     gated uc t lang a c e (slice b e t)"

lemma complete_source_blank: "py_blank uc s \<Longrightarrow> complete_source uc s ctx lang = (False, ''open_boundary'', False)"
  by (simp add: complete_source_def Let_def flip: py_strip_blank)

definition passed :: "unidb \<Rightarrow> ustring \<Rightarrow> ustring option \<Rightarrow> nat \<Rightarrow> ustring \<Rightarrow> candidate option \<Rightarrow> bool" where
  "passed uc t lang a c s \<longleftrightarrow> (\<forall>cand. s = Some cand \<longrightarrow> (\<exists>d. gated uc t lang a c (sc_end cand) d))"

lemma passed_simps [simp]:
  "passed uc t lang a c None"
  "passed uc t lang a c (Some cand) \<longleftrightarrow> (\<exists>d. gated uc t lang a c (sc_end cand) d)"
  by (auto simp: passed_def)

lemma sentence_loop_gated:
  assumes "gated uc t lang a c cursor ctx" and "passed uc t lang a c selected"
  shows "case sentence_loop uc t lang start limit oversize av i cursor selected consumed ctx of
           Inl s \<Rightarrow> passed uc t lang a c s
         | Inr (cur, s, n, ctx2) \<Rightarrow> gated uc t lang a c cur ctx2 \<and> passed uc t lang a c s"
  using assms
proof (induction uc t lang start limit oversize av i cursor selected consumed ctx
    rule: sentence_loop.induct)
  case (1 uc t lang start limit oversize av i cursor selected consumed ctx)
  let ?e = "tk_end (av ! closing_run av i)"
  obtain complete reason strong where v:
    "complete_source uc (slice cursor ?e t) ctx lang = (complete, reason, strong)"
    by (metis prod_cases3)
  have next_gate: "complete \<Longrightarrow> gated uc t lang a c ?e (slice cursor ?e t)"
    using v gated_clause [OF "1.prems"(1)] by simp
  show ?case
  proof (cases "i < length av \<and> sentence_end uc av i")
    case False
    then show ?thesis using 1
      by (subst sentence_loop.simps) (auto split: sum.splits prod.splits)
  next
    case True
    note unfold = sentence_loop.simps [of uc t lang start limit oversize av i]
    show ?thesis
    proof (cases "complete \<and> \<not> closing_run av i + 1 > limit")
      case True
      then show ?thesis
        using "1.IH"(1) [OF _ _ refl refl v [symmetric] refl refl refl] \<open>i < length av \<and> sentence_end uc av i\<close> v next_gate
        by (auto simp: unfold Let_def make_candidate_def simp del: sentence_loop.simps)
    next
      case False
      then show ?thesis
        using \<open>i < length av \<and> sentence_end uc av i\<close> v next_gate "1.prems"
        by (auto simp: unfold Let_def make_candidate_def)
    qed
  qed
qed

lemma segment_prefix_gated:
  assumes "segment_prefix uc t stable_end start ctx lang limit oversize = Inr (Some cand)"
  shows "\<exists>d. gated uc t lang start ctx (sc_end cand) d"
proof -
  let ?av = "available_tokens uc t start stable_end"
  note loop = sentence_loop_gated [of uc t lang start ctx start ctx None start limit oversize ?av 0 0,
      OF gated_start passed_simps(1)]
  show ?thesis
  proof (cases "sentence_loop uc t lang start limit oversize ?av 0 start None 0 ctx")
    case (Inl s)
    then show ?thesis using loop assms by (auto simp: segment_prefix_def Let_def split: if_splits)
  next
    case (Inr q)
    obtain cur s n c2 where q: "q = (cur, s, n, c2)" by (metis prod_cases4)
    obtain complete reason strong where v:
      "complete_source uc (slice cur (tk_end (last ?av)) t) c2 lang = (complete, reason, strong)"
      by (metis prod_cases3)
    have "complete \<Longrightarrow> gated uc t lang start ctx (tk_end (last ?av)) (slice cur (tk_end (last ?av)) t)"
      using loop Inr q v by (auto intro: gated_clause)
    then show ?thesis using loop Inr q v assms
      by (auto simp: segment_prefix_def Let_def make_candidate_def split: if_splits)
  qed
qed

text \<open>
  C11: A selected candidate starts exactly where selection left off, ends on a token boundary inside
  the stable source, carries its exact slice, respects the token budget unless oversized complete
  sentences are allowed, and every clause of it passed the completeness gate in order: an incomplete
  clause is never skipped to reach a later, easier one.
\<close>

theorem select_segment_sound:
  assumes "select_segment uc t stable_end start ctx lang limit oversize = Inr (Some c)"
  shows "supports_language uc lang \<and> sc_start c = start \<and> start < sc_end c \<and> sc_end c \<le> stable_end
    \<and> stable_end \<le> length t \<and> sc_text c = slice start (sc_end c) t
    \<and> is_boundary (tokenize uc t) (sc_end c) \<and> sc_complete c
    \<and> (sc_count c \<le> limit \<or> oversize \<and> sc_strong c)
    \<and> (\<exists>d. gated uc t lang start ctx (sc_end c) d)"
proof -
  have sel: "supports_language uc lang" "segment_prefix uc t stable_end start ctx lang limit oversize = Inr (Some c)"
    using assms by (auto simp: select_segment_def split: if_splits)
  have "candidate_ok uc t lang start limit oversize (available_tokens uc t start stable_end) c"
    by (rule segment_prefix_ok [OF sel(2)])
  then show ?thesis
    using sel segment_prefix_span [OF sel(2)] segment_prefix_gated [OF sel(2)] by (auto simp: candidate_ok_def)
qed

lemma select_segment_sound_witness:
  "\<exists>c. select_segment ascii_db (lit ''I like tea. We want the'') 23 0 [] (Some (lit ''en'')) 24 False = Inr (Some c)
     \<and> sc_end c = 11 \<and> sc_text c = lit ''I like tea.''
     \<and> (\<exists>d. gated ascii_db (lit ''I like tea. We want the'') (Some (lit ''en'')) 0 [] 11 d)"
proof -
  have c: "(case select_segment ascii_db (lit ''I like tea. We want the'') 23 0 [] (Some (lit ''en'')) 24 False of
      Inr (Some c) \<Rightarrow> sc_end c = 11 \<and> sc_text c = lit ''I like tea.'' | _ \<Rightarrow> False)"
    by code_simp
  then obtain c where "select_segment ascii_db (lit ''I like tea. We want the'') 23 0 [] (Some (lit ''en'')) 24 False = Inr (Some c)"
    "sc_end c = 11" "sc_text c = lit ''I like tea.''"
    by (auto split: sum.splits option.splits)
  with select_segment_sound [OF this(1)] show ?thesis by auto
qed

text \<open>
  Selection with a supported language and a positive budget never raises when both ends are
  token boundaries in range, so the \<open>ValueError\<close> branches of \<open>segment_prefix\<close> guard only misuse.
\<close>

theorem select_segment_total:
  "(\<exists>s. select_segment uc t stable_end start ctx lang limit oversize = Inr s)
     \<longleftrightarrow> supports_language uc lang \<and> start \<le> stable_end \<and> stable_end \<le> length t \<and> 1 \<le> limit
         \<and> source_boundary uc t stable_end \<and> source_boundary uc t start"
  by (auto simp: select_segment_def segment_prefix_def Let_def split: sum.splits prod.splits if_splits)

definition release_due :: "policy \<Rightarrow> candidate \<Rightarrow> rat \<Rightarrow> rat option \<Rightarrow> bool \<Rightarrow> bool" where
  "release_due pol c age pause final \<longleftrightarrow> pol_target_segment pol \<le> int (sc_count c)
     \<or> pol_min_segment pol \<le> int (sc_count c)
       \<and> (final \<or> of_int (pol_max_latency pol) \<le> age
          \<or> (\<exists>p. pause = Some p \<and> of_int (pol_pause_threshold pol) \<le> p))"

text \<open>
  The policy writes exactly when the source is free of a committed-prefix conflict, complete,
  settled (score between the threshold and one, every candidate token stable), and either strongly
  bounded or long enough and preferred or due; it then hands out the candidate itself. Waiting longer
  never takes a WRITE back.
\<close>

theorem decide_write_iff:
  "(pd_action (decide pol cand score n age pause final conflict) = WRITE \<longleftrightarrow>
      (\<exists>c. cand = Some c \<and> \<not> conflict \<and> sc_complete c \<and> pol_threshold pol \<le> score \<and> score \<le> 1
         \<and> sc_count c \<le> n
         \<and> (sc_strong c \<or> pol_min_stable pol \<le> int n \<and> release_due pol c age pause final)))
   \<and> pd_segment (decide pol cand score n age pause final conflict)
       = (if pd_action (decide pol cand score n age pause final conflict) = WRITE then cand else None)
   \<and> (pd_action (decide pol cand score n age pause final conflict) = WRITE \<and> age \<le> age' \<longrightarrow>
        pd_action (decide pol cand score n age' pause final conflict) = WRITE)"
  by (auto simp: decide_def decision_defs release_due_def Let_def split: option.splits)

definition sample_policy :: policy where
  "sample_policy = \<lparr>pol_threshold = 3 / 4, pol_min_stable = 3, pol_min_segment = 2, pol_target_segment = 10,
     pol_max_latency = 1500, pol_pause_threshold = 700\<rparr>"

definition sample_candidate :: candidate where
  "sample_candidate = \<lparr>sc_start = 0, sc_end = 10, sc_text = lit ''I like tea'', sc_complete = True,
     sc_reason = ''complete_clause'', sc_count = 3, sc_strong = False\<rparr>"

lemma decide_write_iff_witness:
  "pd_action (decide sample_policy (Some sample_candidate) 1 3 1000 None False False) = READ
   \<and> pd_action (decide sample_policy (Some sample_candidate) 1 3 1600 None False False) = WRITE
   \<and> pd_action (decide sample_policy (Some sample_candidate) 1 3 9000 None False False) = WRITE"
proof -
  note d = decide_write_iff [of sample_policy "Some sample_candidate" 1 3]
  have "\<not> release_due sample_policy sample_candidate 1000 None False"
    "release_due sample_policy sample_candidate 1600 None False"
    by (simp_all add: release_due_def sample_policy_def sample_candidate_def)
  then have "pd_action (decide sample_policy (Some sample_candidate) 1 3 1000 None False False) \<noteq> WRITE"
    "pd_action (decide sample_policy (Some sample_candidate) 1 3 1600 None False False) = WRITE"
    using d [of 1000 None False False] d [of 1600 None False False 9000]
    by (simp_all add: sample_policy_def sample_candidate_def)
  with d [of 1600 None False False 9000] show ?thesis by (cases "pd_action (decide sample_policy (Some sample_candidate) 1 3 1000 None False False)") auto
qed

text \<open>
  A draft translation is committed exactly when it is settled (enough identical proposals, or
  unchanged for the delay), settledness only grows with time, and once committed neither a proposal
  nor a second commit is accepted or changes it.
\<close>

theorem draft_commit_once:
  assumes "pf_finite clk"
  shows "(snd (mark_committed dc clk) = Inr d \<longrightarrow>
      draft_settled dc (seen_at dc clk) \<and> dr_committed d \<and> dc_state (fst (mark_committed dc clk)) = Some d
      \<and> (\<forall>uc clk2 s e src target rv f.
           isl (snd (propose uc (fst (mark_committed dc clk)) clk2 s e src target rv f))
           \<and> dc_state (fst (propose uc (fst (mark_committed dc clk)) clk2 s e src target rv f)) = Some d)
      \<and> (\<forall>clk2. isl (snd (mark_committed (fst (mark_committed dc clk)) clk2))))
    \<and> (draft_settled dc (seen_at dc clk) \<longrightarrow> \<not> isl (snd (mark_committed dc clk)))
    \<and> (\<forall>q q'. draft_settled dc q \<and> q \<le> q' \<longrightarrow> draft_settled dc q')"
proof (intro conjI impI)
  assume ok: "snd (mark_committed dc clk) = Inr d"
  obtain old where old: "d = old\<lparr>dr_committed := True\<rparr>" "dc_state (fst (mark_committed dc clk)) = Some d"
    by (rule mark_committed_state [OF ok])
  then have st: "dc_state (fst (mark_committed dc clk)) = Some d" "dr_committed d" by simp_all
  show "draft_settled dc (seen_at dc clk)"
    using mark_committed_iff [OF assms, of dc] ok by (metis sum.disc(2))
  show "dr_committed d" by (rule st(2))
  show "dc_state (fst (mark_committed dc clk)) = Some d" by (rule st(1))
  show "\<forall>uc clk2 s e src target rv f.
           isl (snd (propose uc (fst (mark_committed dc clk)) clk2 s e src target rv f))
           \<and> dc_state (fst (propose uc (fst (mark_committed dc clk)) clk2 s e src target rv f)) = Some d"
    using committed_frozen(1,2) [OF st] by blast
  show "\<forall>clk2. isl (snd (mark_committed (fst (mark_committed dc clk)) clk2))"
    using committed_frozen(3) [OF st] by blast
next
  show "draft_settled dc (seen_at dc clk) \<Longrightarrow> \<not> isl (snd (mark_committed dc clk))"
    using mark_committed_iff [OF assms] by blast
  show "\<forall>q q'. draft_settled dc q \<and> q \<le> q' \<longrightarrow> draft_settled dc q'"
    using draft_settled_mono by blast
qed

definition sample_committer :: committer where
  "sample_committer = \<lparr>dc_stability_count = 2, dc_delay_ms = 700,
     dc_state = Some \<lparr>dr_start = 0, dr_end = 2, dr_source = lit ''Go'', dr_target = lit ''Ga'', dr_revision = 1,
       dr_observations = 1, dr_changed_at = 0, dr_final = False, dr_committed = False\<rparr>,
     dc_last_time = Some 0\<rparr>"

lemma draft_commit_once_witness:
  "isl (snd (mark_committed sample_committer (Fin (1 / 2))))
   \<and> \<not> isl (snd (mark_committed sample_committer (Fin 1)))
   \<and> isl (snd (mark_committed (fst (mark_committed sample_committer (Fin 1))) (Fin 2)))"
proof -
  have s: "\<not> isl (snd (mark_committed sample_committer (Fin (1 / 2)))) \<Longrightarrow> False"
  proof -
    assume "\<not> isl (snd (mark_committed sample_committer (Fin (1 / 2))))"
    then obtain d where "snd (mark_committed sample_committer (Fin (1 / 2))) = Inr d"
      by (cases "snd (mark_committed sample_committer (Fin (1 / 2)))") auto
    then show False
      using draft_commit_once [of "Fin (1 / 2)" sample_committer d]
      by (simp add: draft_settled_def seen_at_def sample_committer_def)
  qed
  have set: "draft_settled sample_committer (seen_at sample_committer (Fin 1))"
    by (simp add: draft_settled_def seen_at_def sample_committer_def)
  then have "\<not> isl (snd (mark_committed sample_committer (Fin 1)))"
    using draft_commit_once [of "Fin 1" sample_committer] by simp
  moreover from this obtain d where "snd (mark_committed sample_committer (Fin 1)) = Inr d"
    by (cases "snd (mark_committed sample_committer (Fin 1))") auto
  ultimately show ?thesis
    using s draft_commit_once [of "Fin 1" sample_committer d] by auto
qed

end
