(* ===== verification/ContextGlossary.thy ===== *)
theory ContextGlossary
  imports Prelude "HOL-Library.List_Lexorder" "HOL-Library.Product_Lexorder"
begin

text \<open>
  Model of \<^verbatim>\<open>src/app/context/manager.py\<close> and \<^verbatim>\<open>src/app/context/glossary.py\<close>: the rolling context
  of a session, a suffix of the completed segments under a byte budget, and the selection of
  glossary entries that occur in a source. Both are greedy choices under a budget; the locale
  \<open>byte_budget\<close> states what such a choice guarantees and is interpreted on both.
\<close>

subsection \<open>Rolling context\<close>

record context_entry =
  ce_segment :: ustring
  ce_source :: ustring
  ce_translation :: ustring
  ce_speaker :: "ustring option"

record context_manager =
  cm_max_segments :: int
  cm_max_tokens :: int
  cm_entries :: "context_entry list"

definition speaker_text :: "ustring option \<Rightarrow> ustring" where
  "speaker_text s = (case s of None \<Rightarrow> [] | Some x \<Rightarrow> x)"

text \<open>
  The texts and keys that reach \<open>entry_cost\<close> and \<open>glossary_cost\<close> have passed the Pydantic models, which refuse
  a string with a lone surrogate, or the backend's check of its reply; so \<open>encode\<close> does not fail on them.
\<close>

definition entry_cost :: "context_entry \<Rightarrow> int" where
  "entry_cost e = int (utf8_len (ce_source e @ ce_translation e @ speaker_text (ce_speaker e))) + 32"

text \<open>The loop of \<open>replace\<close> over the reversed entries: kept entries grow at the front.\<close>

fun context_loop :: "int \<Rightarrow> int \<Rightarrow> context_entry list \<Rightarrow> context_entry list \<Rightarrow> context_entry list" where
  "context_loop max_segments budget [] kept = kept"
| "context_loop max_segments budget (e # es) kept =
     (if int (length kept) \<ge> max_segments \<or> entry_cost e > budget then kept
      else context_loop max_segments (budget - entry_cost e) es (e # kept))"

definition context_replace :: "context_manager \<Rightarrow> context_entry list \<Rightarrow> context_manager" where
  "context_replace cm es =
     cm\<lparr>cm_entries := context_loop (cm_max_segments cm) (cm_max_tokens cm) (rev es) []\<rparr>"

definition labelled_source :: "context_entry \<Rightarrow> ustring" where
  "labelled_source e =
     (case ce_speaker e of
        None \<Rightarrow> ce_source e
      | Some s \<Rightarrow> if s = [] then ce_source e else lit ''['' @ s @ lit ''] '' @ ce_source e)"

definition context_snapshot :: "context_manager \<Rightarrow> ustring list \<times> ustring list" where
  "context_snapshot cm = (map labelled_source (cm_entries cm), map ce_translation (cm_entries cm))"

lemma entry_cost_pos: "32 \<le> entry_cost e"
  by (simp add: entry_cost_def)

lemma context_loop_spec:
  "\<exists>n. n \<le> length es \<and> context_loop m b es kept = rev (take n es) @ kept
     \<and> (0 \<le> b \<longrightarrow> sum_list (map entry_cost (take n es)) \<le> b)
     \<and> (n = 0 \<or> int (length kept + n) \<le> m)
     \<and> (n < length es \<longrightarrow> int (length kept + n) \<ge> m
            \<or> entry_cost (es ! n) > b - sum_list (map entry_cost (take n es)))"
proof (induction m b es kept rule: context_loop.induct)
  case (2 m b e es kept)
  show ?case
  proof (cases "int (length kept) \<ge> m \<or> entry_cost e > b")
    case True
    then show ?thesis by (intro exI [of _ 0]) auto
  next
    case False
    from "2.IH" [OF False] obtain n where n: "n \<le> length es"
      "context_loop m (b - entry_cost e) es (e # kept) = rev (take n es) @ e # kept"
      "0 \<le> b - entry_cost e \<longrightarrow> sum_list (map entry_cost (take n es)) \<le> b - entry_cost e"
      "n = 0 \<or> int (length (e # kept) + n) \<le> m"
      "n < length es \<longrightarrow> int (length (e # kept) + n) \<ge> m
            \<or> entry_cost (es ! n) > b - entry_cost e - sum_list (map entry_cost (take n es))"
      by blast
    show ?thesis using n False by (intro exI [of _ "Suc n"]) auto
  qed
qed simp

subsection \<open>Glossary\<close>

definition latin_word :: "unidb \<Rightarrow> nat \<Rightarrow> bool" where
  "latin_word uc c \<longleftrightarrow> c < 128 \<and> (u_isalnum uc c \<or> c = 95)"

text \<open>All offsets at which \<open>str.find\<close> would report \<open>key\<close>, in increasing order.\<close>

definition occurrences :: "ustring \<Rightarrow> ustring \<Rightarrow> nat list" where
  "occurrences s key =
     filter (\<lambda>i. take (length key) (drop i s) = key) [0..<length s + 1 - length key]"

definition glossary_match :: "unidb \<Rightarrow> ustring \<Rightarrow> ustring \<Rightarrow> bool" where
  "glossary_match uc folded_source key =
     (let folded_key = py_casefold uc key
      in list_ex (\<lambda>start.
           let e = start + length folded_key
           in (\<not> latin_word uc (hd key) \<or> start = 0 \<or> \<not> latin_word uc (folded_source ! (start - 1)))
              \<and> (\<not> latin_word uc (last key) \<or> e = length folded_source
                 \<or> \<not> latin_word uc (folded_source ! e)))
         (occurrences folded_source folded_key))"

definition glossary_cost :: "ustring \<times> ustring \<Rightarrow> int" where
  "glossary_cost p = int (utf8_len (fst p @ snd p))"

fun glossary_loop ::
    "(ustring \<times> ustring \<Rightarrow> bool) \<Rightarrow> int \<Rightarrow> (ustring \<times> ustring) list \<Rightarrow> (ustring \<times> ustring) list" where
  "glossary_loop matches budget [] = []"
| "glossary_loop matches budget (p # ps) =
     (if glossary_cost p \<le> budget \<and> matches p
      then p # glossary_loop matches (budget - glossary_cost p) ps
      else glossary_loop matches budget ps)"

definition glossary_order :: "(ustring \<times> ustring) list \<Rightarrow> (ustring \<times> ustring) list" where
  "glossary_order entries = sort_key (\<lambda>p. (- int (length (fst p)), fst p)) entries"

definition matching_entries ::
    "unidb \<Rightarrow> ustring \<Rightarrow> (ustring \<times> ustring) list \<Rightarrow> int \<Rightarrow> (ustring \<times> ustring) list" where
  "matching_entries uc source entries budget =
     glossary_loop (\<lambda>p. glossary_match uc (py_casefold uc source) (fst p)) budget (glossary_order entries)"

lemma glossary_cost_nonneg: "0 \<le> glossary_cost p"
  by (simp add: glossary_cost_def)

lemma glossary_loop_subseq: "subseq (glossary_loop m b ps) ps"
  by (induction m b ps rule: glossary_loop.induct) auto

lemma glossary_loop_budget:
  "0 \<le> b \<Longrightarrow> sum_list (map glossary_cost (glossary_loop m b ps)) \<le> b"
  by (induction m b ps rule: glossary_loop.induct) auto

lemma glossary_loop_matches: "p \<in> set (glossary_loop m b ps) \<Longrightarrow> m p \<and> p \<in> set ps"
  by (induction m b ps rule: glossary_loop.induct) (auto split: if_splits)

lemma glossary_loop_reject:
  "p \<in> set ps \<Longrightarrow> p \<notin> set (glossary_loop m b ps) \<Longrightarrow> m p \<Longrightarrow>
     b < glossary_cost p + sum_list (map glossary_cost (glossary_loop m b ps))"
proof (induction m b ps rule: glossary_loop.induct)
  case (2 m b q ps)
  have nn: "0 \<le> sum_list (map glossary_cost xs)" for xs
    by (rule sum_list_nonneg) (auto simp: glossary_cost_nonneg)
  show ?case
  proof (cases "glossary_cost q \<le> b \<and> m q")
    case False
    show ?thesis
    proof (cases "p = q")
      case True
      then show ?thesis using False 2 nn [of "glossary_loop m b ps"] by auto
    qed (use False 2 in auto)
  qed (use 2 in auto)
qed simp

subsection \<open>Interface of a budgeted choice\<close>

locale byte_budget =
  fixes cost :: "'a \<Rightarrow> int" and pick :: "int \<Rightarrow> 'a list \<Rightarrow> 'a list"
  assumes cost_nonneg: "0 \<le> cost x"
    and within: "0 \<le> b \<Longrightarrow> sum_list (map cost (pick b xs)) \<le> b"
    and chosen: "set (pick b xs) \<subseteq> set xs"
begin

lemma chosen_fits: assumes "0 \<le> b" "x \<in> set (pick b xs)" shows "cost x \<le> b"
proof -
  have "cost x \<le> sum_list (map cost (pick b xs))"
    using assms(2) cost_nonneg by (auto intro!: member_le_sum_list)
  then show ?thesis using within [OF assms(1), of xs] by linarith
qed

end

interpretation glossary_budget: byte_budget glossary_cost
  "\<lambda>b ps. glossary_loop (\<lambda>p. glossary_match uc s (fst p)) b ps" for uc s
  by unfold_locales
     (use glossary_cost_nonneg glossary_loop_budget glossary_loop_matches in \<open>auto\<close>)

interpretation context_budget: byte_budget entry_cost "\<lambda>b es. context_loop m b (rev es) []" for m
proof (unfold_locales, goal_cases)
  case (1 x)
  then show ?case using entry_cost_pos [of x] by simp
next
  case (2 b xs)
  obtain n where "context_loop m b (rev xs) [] = rev (take n (rev xs)) @ []"
    "0 \<le> b \<longrightarrow> sum_list (map entry_cost (take n (rev xs))) \<le> b"
    using context_loop_spec [of "rev xs" m b "[]"] by blast
  then show ?case using 2 by (simp add: rev_map [symmetric] sum_list_rev)
next
  case (3 b xs)
  obtain n where "context_loop m b (rev xs) [] = rev (take n (rev xs)) @ []"
    using context_loop_spec [of "rev xs" m b "[]"] by blast
  then show ?case using set_take_subset [of n "rev xs"] by simp
qed

end
