(* ===== verification/Metrics.thy ===== *)
theory Metrics
  imports Prelude
begin

text \<open>
  Model of \<^verbatim>\<open>src/app/metrics/collector.py\<close>: counters, gauges and cumulative histograms. The text
  exposition of \<open>render\<close> is float formatting and is not modelled.
\<close>

record histogram =
  hi_count :: nat
  hi_total :: rat
  hi_buckets :: "nat list"

record metrics =
  mt_counters :: "(string \<times> rat) list"
  mt_gauges :: "(string \<times> rat) list"
  mt_histograms :: "(string \<times> histogram) list"

definition bucket_limits :: "rat list" where
  "bucket_limits = [1, 5, 10, 50, 100, 300, 700, 1500, 5000, 30000, 120000]"

definition empty_metrics :: metrics where
  "empty_metrics = \<lparr>mt_counters = [], mt_gauges = [], mt_histograms = []\<rparr>"

definition counter_value :: "metrics \<Rightarrow> string \<Rightarrow> rat" where
  "counter_value m name = (case map_of (mt_counters m) name of None \<Rightarrow> 0 | Some v \<Rightarrow> v)"

definition metrics_add :: "metrics \<Rightarrow> string \<Rightarrow> rat \<Rightarrow> metrics" where
  "metrics_add m name v = m\<lparr>mt_counters := al_put name (counter_value m name + v) (mt_counters m)\<rparr>"

definition metrics_increment :: "metrics \<Rightarrow> string \<Rightarrow> metrics" where
  "metrics_increment m name = metrics_add m name 1"

definition metrics_gauge :: "metrics \<Rightarrow> string \<Rightarrow> rat \<Rightarrow> metrics" where
  "metrics_gauge m name v = m\<lparr>mt_gauges := al_put name v (mt_gauges m)\<rparr>"

definition empty_histogram :: histogram where
  "empty_histogram = \<lparr>hi_count = 0, hi_total = 0, hi_buckets = replicate (length bucket_limits) 0\<rparr>"

definition histogram_of :: "metrics \<Rightarrow> string \<Rightarrow> histogram" where
  "histogram_of m name = (case map_of (mt_histograms m) name of None \<Rightarrow> empty_histogram | Some h \<Rightarrow> h)"

definition histogram_add :: "histogram \<Rightarrow> rat \<Rightarrow> histogram" where
  "histogram_add h v = \<lparr>hi_count = hi_count h + 1, hi_total = hi_total h + v,
     hi_buckets = map2 (\<lambda>limit n. n + (if v \<le> limit then 1 else 0)) bucket_limits (hi_buckets h)\<rparr>"

definition metrics_observe :: "metrics \<Rightarrow> string \<Rightarrow> pyfloat \<Rightarrow> metrics" where
  "metrics_observe m name value =
     (if \<not> pf_finite value \<or> pf_val value < 0 then m
      else m\<lparr>mt_histograms := al_put name (histogram_add (histogram_of m name) (pf_val value)) (mt_histograms m)\<rparr>)"

lemma counter_add [simp]:
  "counter_value (metrics_add m a v) b = (if a = b then counter_value m b + v else counter_value m b)"
  by (simp add: counter_value_def metrics_add_def)

lemma counter_frame [simp]:
  "counter_value (metrics_gauge m a v) b = counter_value m b"
  "counter_value (metrics_observe m a f) b = counter_value m b"
  by (simp_all add: counter_value_def metrics_gauge_def metrics_observe_def)

text \<open>
  The abstraction of a histogram is the list of the observed values: the count, the total, and for
  each bucket the number of values at or below its limit.
\<close>

definition histogram_abs :: "histogram \<Rightarrow> rat list \<Rightarrow> bool" where
  "histogram_abs h vs \<longleftrightarrow> hi_count h = length vs \<and> hi_total h = sum_list vs
     \<and> hi_buckets h = map (\<lambda>limit. length (filter (\<lambda>v. v \<le> limit) vs)) bucket_limits"

lemma histogram_abs_empty: "histogram_abs empty_histogram []"
  by (simp add: histogram_abs_def empty_histogram_def bucket_limits_def)

lemma histogram_abs_add: "histogram_abs h vs \<Longrightarrow> histogram_abs (histogram_add h v) (v # vs)"
  by (simp add: histogram_abs_def histogram_add_def bucket_limits_def)

text \<open>Calls of the collector under any names, and what a name gets of them.\<close>

datatype metric_op = Increment string rat | SetGauge string rat | Observe string pyfloat

fun metric_step :: "metrics \<Rightarrow> metric_op \<Rightarrow> metrics" where
  "metric_step m (Increment name v) = metrics_add m name v"
| "metric_step m (SetGauge name v) = metrics_gauge m name v"
| "metric_step m (Observe name f) = metrics_observe m name f"

fun observed_by :: "string \<Rightarrow> metric_op \<Rightarrow> rat list" where
  "observed_by name (Observe n f) = (if n = name \<and> pf_finite f \<and> 0 \<le> pf_val f then [pf_val f] else [])"
| "observed_by name _ = []"

fun added_by :: "string \<Rightarrow> metric_op \<Rightarrow> rat list" where
  "added_by name (Increment n v) = (if n = name then [v] else [])"
| "added_by name _ = []"

definition observed_under :: "string \<Rightarrow> metric_op list \<Rightarrow> rat list" where
  "observed_under name ops = concat (map (observed_by name) ops)"

definition added_under :: "string \<Rightarrow> metric_op list \<Rightarrow> rat list" where
  "added_under name ops = concat (map (added_by name) ops)"

lemma histogram_after_observe:
  "histogram_of (metrics_observe m name f) name' =
     (if name = name' \<and> pf_finite f \<and> 0 \<le> pf_val f then histogram_add (histogram_of m name) (pf_val f)
      else histogram_of m name')"
  by (auto simp: metrics_observe_def histogram_of_def)

lemma histogram_frame [simp]:
  "histogram_of (metrics_add m n v) name = histogram_of m name"
  "histogram_of (metrics_gauge m n v) name = histogram_of m name"
  by (simp_all add: histogram_of_def metrics_add_def metrics_gauge_def)

lemma histogram_run:
  "histogram_abs (histogram_of m name) vs \<Longrightarrow>
     histogram_abs (histogram_of (foldl metric_step m ops) name) (rev (observed_under name ops) @ vs)"
proof (induction ops arbitrary: m vs)
  case (Cons p ops)
  have "histogram_abs (histogram_of (metric_step m p) name) (rev (observed_by name p) @ vs)"
    using Cons.prems by (cases p) (auto simp: histogram_after_observe histogram_abs_add)
  from Cons.IH [OF this] show ?case by (simp add: observed_under_def)
qed (simp add: observed_under_def)

lemma counter_run:
  "counter_value (foldl metric_step m ops) name = counter_value m name + sum_list (added_under name ops)"
proof (induction ops arbitrary: m)
  case (Cons p ops)
  then show ?case by (cases p) (simp_all add: added_under_def)
qed (simp add: added_under_def)

end
