(* ===== verification/ContextProps.thy ===== *)
theory ContextProps
  imports ContextGlossary Metrics
begin

text \<open>
  Properties of the context and glossary selection (\<^verbatim>\<open>src/app/context\<close>) and of the metrics
  (\<^verbatim>\<open>src/app/metrics/collector.py\<close>).
\<close>

text \<open>
  The rolling context is the longest recent history that fits: it is a suffix of the completed
  entries within both the segment and the byte budget, and taking one more entry would exceed one of
  the two.
\<close>

theorem context_longest_suffix:
  assumes "0 \<le> cm_max_tokens cm" and "0 \<le> cm_max_segments cm"
  shows "\<exists>k \<le> length es. cm_entries (context_replace cm es) = drop k es
    \<and> sum_list (map entry_cost (drop k es)) \<le> cm_max_tokens cm
    \<and> int (length es - k) \<le> cm_max_segments cm
    \<and> (k = 0 \<or> int (length es - k) = cm_max_segments cm
         \<or> sum_list (map entry_cost (drop (k - 1) es)) > cm_max_tokens cm)"
proof -
  let ?m = "cm_max_segments cm" and ?b = "cm_max_tokens cm"
  obtain n where n: "n \<le> length (rev es)" "context_loop ?m ?b (rev es) [] = rev (take n (rev es)) @ []"
    "0 \<le> ?b \<longrightarrow> sum_list (map entry_cost (take n (rev es))) \<le> ?b"
    "n = 0 \<or> int (length ([] :: context_entry list) + n) \<le> ?m"
    "n < length (rev es) \<longrightarrow> int (length ([] :: context_entry list) + n) \<ge> ?m
       \<or> entry_cost (rev es ! n) > ?b - sum_list (map entry_cost (take n (rev es)))"
    using context_loop_spec [of "rev es" ?m ?b "[]"] by blast
  define k where "k = length es - n"
  have suffix: "rev (take n (rev es)) = drop k es" by (simp add: k_def rev_take)
  then have tk: "take n (rev es) = rev (drop k es)" by (metis rev_rev_ident)
  have sum: "sum_list (map entry_cost (take n (rev es))) = sum_list (map entry_cost (drop k es))"
    unfolding tk by (simp add: rev_map [symmetric] sum_list_rev)
  have len: "length es - k = n" using n(1) by (simp add: k_def)
  have last: "int n = ?m \<or> sum_list (map entry_cost (drop (k - 1) es)) > ?b" if "k \<noteq> 0"
  proof -
    have lt: "n < length es" using that by (simp add: k_def)
    have nth: "rev es ! n = es ! (k - 1)" using lt by (simp add: rev_nth k_def)
    have "drop (k - 1) es = es ! (k - 1) # drop k es"
      using that lt Cons_nth_drop_Suc [of "k - 1" es] by (simp add: k_def Suc_diff_Suc)
    then show ?thesis using n(4,5) lt sum nth assms by auto
  qed
  show ?thesis
    using n(2-4) suffix sum len last assms
    by (intro exI [of _ k]) (auto simp: context_replace_def k_def)
qed

definition sample_entry :: "string \<Rightarrow> context_entry" where
  "sample_entry t = \<lparr>ce_segment = lit ''s'', ce_source = lit t, ce_translation = [], ce_speaker = None\<rparr>"

definition sample_entries :: "context_entry list" where
  "sample_entries = [sample_entry ''a'', sample_entry ''b'', sample_entry ''c'']"

definition sample_window :: context_manager where
  "sample_window = \<lparr>cm_max_segments = 4, cm_max_tokens = 70, cm_entries = []\<rparr>"

lemma context_longest_suffix_witness:
  "map ce_source (cm_entries (context_replace sample_window sample_entries)) = [lit ''b'', lit ''c'']
   \<and> (\<exists>k \<le> length sample_entries. cm_entries (context_replace sample_window sample_entries) = drop k sample_entries)"
proof
  show "map ce_source (cm_entries (context_replace sample_window sample_entries)) = [lit ''b'', lit ''c'']" by code_simp
  have "0 \<le> cm_max_tokens sample_window" "0 \<le> cm_max_segments sample_window" by (simp_all add: sample_window_def)
  from context_longest_suffix [OF this, of sample_entries]
  show "\<exists>k \<le> length sample_entries. cm_entries (context_replace sample_window sample_entries) = drop k sample_entries"
    by blast
qed

text \<open>
  The glossary entries sent with a source occur in it, stay within the byte budget and keep the
  order of longer terms first; and an occurring entry is left out only when it would not have fitted
  beside those that were chosen.
\<close>

theorem glossary_selection:
  assumes "0 \<le> budget"
  shows "subseq (matching_entries uc source entries budget) (glossary_order entries)
    \<and> sum_list (map glossary_cost (matching_entries uc source entries budget)) \<le> budget
    \<and> (\<forall>p \<in> set (matching_entries uc source entries budget).
         p \<in> set entries \<and> glossary_match uc (py_casefold uc source) (fst p))
    \<and> (\<forall>p \<in> set entries. glossary_match uc (py_casefold uc source) (fst p)
         \<longrightarrow> p \<notin> set (matching_entries uc source entries budget)
         \<longrightarrow> budget < glossary_cost p + sum_list (map glossary_cost (matching_entries uc source entries budget)))"
proof -
  let ?m = "\<lambda>p. glossary_match uc (py_casefold uc source) (fst p)"
  have mem: "set (glossary_order entries) = set entries" by (simp add: glossary_order_def)
  show ?thesis
    unfolding matching_entries_def
    using glossary_loop_subseq [of ?m budget] glossary_budget.within [OF assms, of uc "py_casefold uc source"]
      glossary_loop_matches [of _ ?m budget "glossary_order entries"]
      glossary_loop_reject [of _ "glossary_order entries" ?m budget] mem by blast
qed

lemma glossary_selection_witness:
  "matching_entries ascii_db (lit ''Tea time'') [(lit ''tea'', lit ''na''), (lit ''im'', lit ''x'')] 9 = [(lit ''tea'', lit ''na'')]
   \<and> sum_list (map glossary_cost (matching_entries ascii_db (lit ''Tea time'')
        [(lit ''tea'', lit ''na''), (lit ''im'', lit ''x'')] 9)) \<le> 9"
proof
  show "matching_entries ascii_db (lit ''Tea time'') [(lit ''tea'', lit ''na''), (lit ''im'', lit ''x'')] 9
      = [(lit ''tea'', lit ''na'')]" by code_simp
  show "sum_list (map glossary_cost (matching_entries ascii_db (lit ''Tea time'')
        [(lit ''tea'', lit ''na''), (lit ''im'', lit ''x'')] 9)) \<le> 9"
    by (rule conjunct1 [OF conjunct2 [OF glossary_selection]]) simp
qed

text \<open>
  C32: The collector refines, for every name on its own, the list of values observed under it: after
  any sequence of counter increments, gauge settings and observations under any names, the count, the
  total and every cumulative bucket of a name's histogram are those of the finite nonnegative values
  observed under exactly that name, and its counter is the sum of the amounts added under it.
\<close>

theorem histogram_refines_values:
  "let m = foldl metric_step empty_metrics ops; h = histogram_of m name; vs = observed_under name ops
   in hi_count h = length vs \<and> hi_total h = sum_list vs
     \<and> hi_buckets h = map (\<lambda>limit. length (filter (\<lambda>v. v \<le> limit) vs)) bucket_limits
     \<and> counter_value m name = sum_list (added_under name ops)"
proof -
  have "histogram_abs (histogram_of empty_metrics name) []"
    by (simp add: histogram_abs_empty histogram_of_def empty_metrics_def)
  from histogram_run [OF this, of ops] counter_run [of empty_metrics ops name]
  show ?thesis
    by (simp add: histogram_abs_def Let_def sum_list_rev rev_filter [symmetric] counter_value_def empty_metrics_def)
qed

end
