(* ===== verification/WireModels.thy ===== *)
theory WireModels
  imports Prelude
begin

text \<open>
  Model of \<^verbatim>\<open>src/app/core/models.py\<close> and \<^verbatim>\<open>src/app/core/config.py\<close>: the validated wire schema and
  the deployment limits. A message is a record of the fields the schema admits; the validators
  return the normalised record or the validation error. \<open>allow_inf_nan=False\<close> is the type
  \<open>rat\<close> of the numbers.
\<close>

subsection \<open>Identifiers and tokens\<close>

definition valid_identifier :: "unidb \<Rightarrow> ustring \<Rightarrow> bool" where
  "valid_identifier uc s \<longleftrightarrow> 1 \<le> length s \<and> length s \<le> 128
     \<and> list_all (\<lambda>c. u_word uc c \<or> c = 46 \<or> c = 58 \<or> c = 45) s"

definition ascii_letter :: "nat \<Rightarrow> bool" where
  "ascii_letter c \<longleftrightarrow> (65 \<le> c \<and> c \<le> 90) \<or> (97 \<le> c \<and> c \<le> 122)"

definition valid_language :: "ustring \<Rightarrow> bool" where
  "valid_language s \<longleftrightarrow> 2 \<le> length s \<and> length s \<le> 32
     \<and> ascii_letter (hd s)
     \<and> list_all (\<lambda>c. ascii_letter c \<or> (48 \<le> c \<and> c \<le> 57) \<or> c = 95 \<or> c = 45) (tl s)"

definition opt_all :: "('a \<Rightarrow> bool) \<Rightarrow> 'a option \<Rightarrow> bool" where
  "opt_all p v \<longleftrightarrow> (case v of None \<Rightarrow> True | Some x \<Rightarrow> p x)"

record asr_token =
  at_text :: ustring
  at_start :: "rat option"
  at_end :: "rat option"
  at_confidence :: "rat option"

definition valid_asr_token :: "asr_token \<Rightarrow> bool" where
  "valid_asr_token k \<longleftrightarrow> 1 \<le> length (at_text k) \<and> length (at_text k) \<le> 1000
     \<and> opt_all (\<lambda>v. 0 \<le> v) (at_start k) \<and> opt_all (\<lambda>v. 0 \<le> v) (at_end k)
     \<and> opt_all (\<lambda>v. 0 \<le> v \<and> v \<le> 1) (at_confidence k)
     \<and> (case (at_start k, at_end k) of (Some s, Some e) \<Rightarrow> s \<le> e | _ \<Rightarrow> True)"

subsection \<open>ASR events\<close>

datatype event_type = AsrPartial | AsrFinal

record asr_event =
  ev_type :: event_type
  ev_session_id :: "ustring option"
  ev_sequence :: int
  ev_text :: ustring
  ev_language :: "ustring option"
  ev_target_language :: "ustring option"
  ev_is_final :: bool
  ev_timestamp :: "rat option"
  ev_tokens :: "asr_token list"
  ev_pause_ms :: "rat option"
  ev_speaker_id :: "ustring option"
  ev_utterance_id :: "ustring option"

definition valid_asr_event :: "unidb \<Rightarrow> asr_event \<Rightarrow> bool" where
  "valid_asr_event uc ev \<longleftrightarrow> opt_all (valid_identifier uc) (ev_session_id ev)
     \<and> 0 \<le> ev_sequence ev \<and> length (ev_text ev) \<le> 32000
     \<and> opt_all valid_language (ev_language ev) \<and> opt_all valid_language (ev_target_language ev)
     \<and> opt_all (\<lambda>v. 0 \<le> v) (ev_timestamp ev)
     \<and> length (ev_tokens ev) \<le> 4096 \<and> list_all valid_asr_token (ev_tokens ev)
     \<and> opt_all (\<lambda>v. 0 \<le> v \<and> v \<le> 60000) (ev_pause_ms ev)
     \<and> opt_all (valid_identifier uc) (ev_speaker_id ev)
     \<and> opt_all (valid_identifier uc) (ev_utterance_id ev)"

definition normalize_final :: "asr_event \<Rightarrow> asr_event" where
  "normalize_final ev = ev\<lparr>ev_is_final := ev_is_final ev \<or> ev_type ev = AsrFinal\<rparr>"

definition validate_asr_event :: "unidb \<Rightarrow> asr_event \<Rightarrow> asr_event res" where
  "validate_asr_event uc ev =
     (if valid_asr_event uc ev then Inr (normalize_final ev) else Inl (ValueError ''ValidationError''))"

subsection \<open>Session configuration and glossary\<close>

record session_config =
  co_source_language :: ustring
  co_target_language :: ustring
  co_model :: "ustring option"
  co_temperature :: "rat option"
  co_max_context_segments :: "int option"
  co_max_latency_ms :: "int option"
  co_stability_threshold :: "rat option"

definition default_config :: session_config where
  "default_config = \<lparr>co_source_language = lit ''en'', co_target_language = lit ''ko'',
     co_model = None, co_temperature = None, co_max_context_segments = None,
     co_max_latency_ms = None, co_stability_threshold = None\<rparr>"

definition valid_config :: "session_config \<Rightarrow> bool" where
  "valid_config co \<longleftrightarrow> valid_language (co_source_language co) \<and> valid_language (co_target_language co)
     \<and> opt_all (\<lambda>m. 1 \<le> length m \<and> length m \<le> 200) (co_model co)
     \<and> opt_all (\<lambda>t. 0 \<le> t \<and> t \<le> 1 / 5) (co_temperature co)
     \<and> opt_all (\<lambda>n. 0 \<le> n \<and> n \<le> 10) (co_max_context_segments co)
     \<and> opt_all (\<lambda>n. 100 \<le> n \<and> n \<le> 20000) (co_max_latency_ms co)
     \<and> opt_all (\<lambda>t. 0 \<le> t \<and> t \<le> 1) (co_stability_threshold co)"

type_synonym glossary = "(ustring \<times> ustring) list"

definition validate_glossary :: "unidb \<Rightarrow> glossary \<Rightarrow> glossary res" where
  "validate_glossary uc g =
     (if length g > 1000 then Inl (ValueError ''Dictionary should have at most 1000 items'')
      else if list_ex (\<lambda>(k, v). py_strip uc k = [] \<or> length k > 128 \<or> py_strip uc v = [] \<or> length v > 256) g
        then Inl (ValueError ''Glossary entries must have nonempty keys <=128 and values <=256 characters'')
      else if sum_list (map (\<lambda>(k, v). length k + length v) g) > 64000
        then Inl (ValueError ''Glossary too large'')
      else Inr g)"

subsection \<open>Deployment limits\<close>

record settings =
  se_translation_model :: ustring
  se_translation_timeout :: rat
  se_translation_workers :: int
  se_translation_temperature :: rat
  se_stability_history :: int
  se_stability_threshold :: rat
  se_agreement_weight :: rat
  se_confidence_weight :: rat
  se_age_weight :: rat
  se_pause_weight :: rat
  se_hold_partial_tail :: bool
  se_min_stable_tokens :: int
  se_min_segment_tokens :: int
  se_target_segment_tokens :: int
  se_max_segment_tokens :: int
  se_allow_oversize_complete :: bool
  se_max_segment_latency_ms :: int
  se_max_buffer_age_ms :: int
  se_pause_threshold_ms :: int
  se_translation_debounce_ms :: int
  se_stability_count :: int
  se_commit_delay_ms :: int
  se_context_segments :: int
  se_max_context_tokens :: int
  se_max_sessions :: int
  se_session_inactivity :: rat
  se_max_pending_jobs :: int
  se_max_pending_per_session :: int
  se_max_utterances :: int
  se_max_segments :: int
  se_max_source_chars :: int
  se_max_session_chars :: int
  se_max_translation_chars :: int
  se_max_state_bytes :: int
  se_max_snapshot_bytes :: int
  se_max_event_bytes :: int
  se_max_events_per_second :: int
  se_outgoing_queue_size :: int

definition between :: "'a::ord \<Rightarrow> 'a \<Rightarrow> 'a \<Rightarrow> bool" where
  "between lo hi v \<longleftrightarrow> lo \<le> v \<and> v \<le> hi"

text \<open>The field bounds, in the order the class declares them.\<close>

definition settings_in_range :: "settings \<Rightarrow> bool" where
  "settings_in_range s \<longleftrightarrow>
     between (1 / 20) 120 (se_translation_timeout s) \<and> between 1 32 (se_translation_workers s)
     \<and> between 0 (1 / 5) (se_translation_temperature s) \<and> between 2 8 (se_stability_history s)
     \<and> between 0 1 (se_stability_threshold s) \<and> between 0 1 (se_agreement_weight s)
     \<and> between 0 1 (se_confidence_weight s) \<and> between 0 1 (se_age_weight s)
     \<and> between 0 1 (se_pause_weight s) \<and> between 1 32 (se_min_stable_tokens s)
     \<and> between 1 64 (se_min_segment_tokens s) \<and> between 1 128 (se_target_segment_tokens s)
     \<and> between 1 256 (se_max_segment_tokens s) \<and> between 100 20000 (se_max_segment_latency_ms s)
     \<and> between 1000 120000 (se_max_buffer_age_ms s) \<and> between 100 5000 (se_pause_threshold_ms s)
     \<and> between 0 2000 (se_translation_debounce_ms s) \<and> between 1 8 (se_stability_count s)
     \<and> between 0 10000 (se_commit_delay_ms s) \<and> between 0 10 (se_context_segments s)
     \<and> between 0 8000 (se_max_context_tokens s) \<and> between 1 512 (se_max_sessions s)
     \<and> between 1 86400 (se_session_inactivity s) \<and> between 1 4096 (se_max_pending_jobs s)
     \<and> between 1 256 (se_max_pending_per_session s) \<and> between 2 1024 (se_max_utterances s)
     \<and> between 4 2048 (se_max_segments s) \<and> between 128 32000 (se_max_source_chars s)
     \<and> between 1024 256000 (se_max_session_chars s) \<and> between 1024 512000 (se_max_translation_chars s)
     \<and> between 1024 131072 (se_max_state_bytes s) \<and> between 524288 1048576 (se_max_snapshot_bytes s)
     \<and> between 1024 262144 (se_max_event_bytes s) \<and> between 1 1000 (se_max_events_per_second s)
     \<and> between 2 1024 (se_outgoing_queue_size s)"

definition ordered_limits :: "settings \<Rightarrow> settings res" where
  "ordered_limits s =
     (if \<not> (se_min_segment_tokens s \<le> se_target_segment_tokens s
            \<and> se_target_segment_tokens s \<le> se_max_segment_tokens s)
        then Inl (ValueError ''Segment token limits must be ordered'')
      else if se_max_segment_latency_ms s > se_max_buffer_age_ms s
        then Inl (ValueError ''Decision latency must not exceed the buffer lifetime'')
      else if se_agreement_weight s + se_age_weight s \<le> 0
        then Inl (ValueError ''Always-available stability evidence must have positive weight'')
      else Inr s)"

definition validate_settings :: "settings \<Rightarrow> settings res" where
  "validate_settings s =
     (if settings_in_range s then ordered_limits s else Inl (ValueError ''ValidationError''))"

definition settings_ok :: "settings \<Rightarrow> bool" where
  "settings_ok s \<longleftrightarrow> validate_settings s = Inr s"

text \<open>The defaults the class declares.\<close>

definition default_settings :: settings where
  "default_settings = \<lparr>se_translation_model = lit ''google/gemma-4-26b-a4b'',
     se_translation_timeout = 30, se_translation_workers = 4, se_translation_temperature = 1 / 10,
     se_stability_history = 4, se_stability_threshold = 3 / 4, se_agreement_weight = 7 / 20,
     se_confidence_weight = 3 / 10, se_age_weight = 1 / 5, se_pause_weight = 3 / 20,
     se_hold_partial_tail = True, se_min_stable_tokens = 3, se_min_segment_tokens = 5,
     se_target_segment_tokens = 10, se_max_segment_tokens = 24, se_allow_oversize_complete = True,
     se_max_segment_latency_ms = 1500, se_max_buffer_age_ms = 20000, se_pause_threshold_ms = 500,
     se_translation_debounce_ms = 150, se_stability_count = 2, se_commit_delay_ms = 700,
     se_context_segments = 3, se_max_context_tokens = 1500, se_max_sessions = 32,
     se_session_inactivity = 1800, se_max_pending_jobs = 128, se_max_pending_per_session = 16,
     se_max_utterances = 64, se_max_segments = 256, se_max_source_chars = 8000,
     se_max_session_chars = 64000, se_max_translation_chars = 128000, se_max_state_bytes = 65536,
     se_max_snapshot_bytes = 524288, se_max_event_bytes = 65536, se_max_events_per_second = 100,
     se_outgoing_queue_size = 64\<rparr>"

lemma settings_ok_unfold:
  "settings_ok s \<longleftrightarrow> settings_in_range s
     \<and> se_min_segment_tokens s \<le> se_target_segment_tokens s
     \<and> se_target_segment_tokens s \<le> se_max_segment_tokens s
     \<and> se_max_segment_latency_ms s \<le> se_max_buffer_age_ms s
     \<and> 0 < se_agreement_weight s + se_age_weight s"
  by (auto simp: settings_ok_def validate_settings_def ordered_limits_def)

lemma default_settings_ok: "settings_ok default_settings"
  by (simp add: settings_ok_unfold settings_in_range_def between_def default_settings_def)

end
