(* ===== verification/Job.thy ===== *)
theory Job
  imports Prelude
begin

text \<open>
  Model of \<^verbatim>\<open>src/app/translation/worker.py\<close> and \<^verbatim>\<open>src/app/translation/backend.py\<close>: the immutable
  description of one translation and the checks around a backend call. The backend itself is an
  argument (a function from the job to its outcome).
\<close>

datatype generation = GenInt int | GenText ustring

record job =
  jb_session :: ustring
  jb_generation :: generation
  jb_sequence :: int
  jb_revision :: int
  jb_segment :: ustring
  jb_source :: ustring
  jb_source_language :: ustring
  jb_target_language :: ustring
  jb_source_context :: "ustring list"
  jb_translation_context :: "ustring list"
  jb_glossary :: "(ustring \<times> ustring) list"
  jb_final :: bool
  jb_created_at :: pyfloat
  jb_model :: "ustring option"
  jb_temperature :: "rat option"

definition bad_text :: "unidb \<Rightarrow> ustring \<Rightarrow> nat \<Rightarrow> bool" where
  "bad_text uc s limit \<longleftrightarrow> py_strip uc s = [] \<or> length s > limit"

definition bad_generation :: "unidb \<Rightarrow> generation \<Rightarrow> bool" where
  "bad_generation uc g \<longleftrightarrow>
     (case g of GenInt n \<Rightarrow> n < 0 | GenText s \<Rightarrow> py_strip uc s = [] \<or> length s > 256)"

definition bad_context :: "unidb \<Rightarrow> ustring list \<Rightarrow> bool" where
  "bad_context uc xs \<longleftrightarrow> length xs > 32 \<or> list_ex (\<lambda>s. bad_text uc s 32000) xs"

definition bad_glossary :: "unidb \<Rightarrow> (ustring \<times> ustring) list \<Rightarrow> bool" where
  "bad_glossary uc g \<longleftrightarrow> length g > 1000
     \<or> list_ex (\<lambda>(k, v). bad_text uc k 512 \<or> bad_text uc v 512) g"

definition total_chars :: "job \<Rightarrow> nat" where
  "total_chars j = length (jb_source j) + sum_list (map length (jb_source_context j))
     + sum_list (map length (jb_translation_context j))
     + sum_list (map (\<lambda>(k, v). length k + length v) (jb_glossary j))"

text \<open>\<open>__post_init__\<close>: every job that exists passed these checks.\<close>

definition validate_job :: "unidb \<Rightarrow> job \<Rightarrow> job res" where
  "validate_job uc j =
     (if bad_text uc (jb_session j) 128 \<or> bad_text uc (jb_segment j) 256
         \<or> bad_text uc (jb_source j) 32000 \<or> bad_text uc (jb_source_language j) 32
         \<or> bad_text uc (jb_target_language j) 32
        then Inl (ValueError ''Invalid translation job text or identifier'')
      else if bad_generation uc (jb_generation j) then Inl (ValueError ''Invalid generation identifier'')
      else if jb_sequence j < 0 \<or> jb_revision j < 1
        then Inl (ValueError ''Sequence must be nonnegative and source revision positive'')
      else if \<not> pf_finite (jb_created_at j)
        then Inl (ValueError ''created_at must be a finite monotonic timestamp'')
      else if bad_context uc (jb_source_context j) \<or> bad_context uc (jb_translation_context j)
        then Inl (ValueError ''Invalid translation context'')
      else if bad_glossary uc (jb_glossary j) then Inl (ValueError ''Invalid translation glossary'')
      else if total_chars j > 160000
        then Inl (ValueError ''Translation job exceeds its bounded source/context budget'')
      else Inr j)"

record translation_result =
  re_text :: ustring
  re_latency_ms :: pyfloat

text \<open>What awaiting the backend can end in.\<close>

datatype backend_outcome =
    Returned translation_result
  | ReturnedOther
  | RaisedTranslation string bool
  | RaisedCancelled
  | RaisedOther

definition translate_job :: "unidb \<Rightarrow> (job \<Rightarrow> backend_outcome) \<Rightarrow> job \<Rightarrow> backend_outcome" where
  "translate_job uc backend j =
     (case backend j of
        Returned r \<Rightarrow>
          if py_strip uc (re_text r) = [] \<or> \<not> pf_finite (re_latency_ms r) \<or> pf_val (re_latency_ms r) < 0
          then RaisedTranslation ''invalid_backend_result'' False
          else Returned r
      | ReturnedOther \<Rightarrow> RaisedTranslation ''invalid_backend_result'' False
      | q \<Rightarrow> q)"

lemma validate_job_same: "validate_job uc j = Inr j' \<Longrightarrow> j' = j"
  by (auto simp: validate_job_def split: if_splits)

lemma translate_job_result:
  "translate_job uc backend j = Returned r \<Longrightarrow>
     py_strip uc (re_text r) \<noteq> [] \<and> pf_finite (re_latency_ms r) \<and> 0 \<le> pf_val (re_latency_ms r)"
  by (auto simp: translate_job_def split: backend_outcome.splits if_splits)

end
