(* ===== verification/Scheduler.thy ===== *)
theory Scheduler
  imports Job Metrics
begin

text \<open>
  Model of \<^verbatim>\<open>src/app/translation/scheduler.py\<close>: bounded round-robin admission with one physical
  backend job per session. Every operation runs under the scheduler's condition lock and is one
  step; a worker's life is the steps take, begin, finish, release. A callback is identified by the
  session that owns it. Metrics are always attached, as the application does.
\<close>

subsection \<open>State\<close>

record sched_entry =
  en_job :: job
  en_callback :: ustring

datatype task_state = NoTask | TaskRunning | TaskCancelling

record active_job =
  ac_id :: nat
  ac_entry :: sched_entry
  ac_task :: task_state
  ac_stale :: bool

record scheduler =
  sh_workers :: int
  sh_max_pending :: int
  sh_max_per_session :: int
  sh_pending :: "(ustring \<times> sched_entry list) list"
  sh_ready :: "ustring list"
  sh_ready_set :: "ustring set"
  sh_active :: "(ustring \<times> active_job) list"
  sh_next_active :: nat
  sh_started :: bool
  sh_closing :: bool
  sh_metrics :: metrics

definition new_scheduler :: "int \<Rightarrow> int \<Rightarrow> int \<Rightarrow> metrics \<Rightarrow> scheduler res" where
  "new_scheduler workers max_pending max_per_session m =
     (if workers < 1 \<or> max_pending < 1 \<or> max_per_session < 1
        then Inl (ValueError ''Scheduler capacities must be positive integers'')
      else if workers > 64 then Inl (ValueError ''At most 64 workers are supported'')
      else Inr \<lparr>sh_workers = workers, sh_max_pending = max_pending,
             sh_max_per_session = max_per_session, sh_pending = [], sh_ready = [],
             sh_ready_set = {}, sh_active = [], sh_next_active = 0, sh_started = False,
             sh_closing = False, sh_metrics = m\<rparr>)"

definition record_metric :: "string \<Rightarrow> rat \<Rightarrow> scheduler \<Rightarrow> scheduler" where
  "record_metric name v sh = sh\<lparr>sh_metrics := metrics_add (sh_metrics sh) name v\<rparr>"

definition record_observation :: "string \<Rightarrow> pyfloat \<Rightarrow> scheduler \<Rightarrow> scheduler" where
  "record_observation name v sh = sh\<lparr>sh_metrics := metrics_observe (sh_metrics sh) name v\<rparr>"

definition same_segment :: "job \<Rightarrow> job \<Rightarrow> bool" where
  "same_segment a b \<longleftrightarrow> jb_session a = jb_session b \<and> jb_generation a = jb_generation b
     \<and> jb_segment a = jb_segment b"

definition queue_of :: "scheduler \<Rightarrow> ustring \<Rightarrow> sched_entry list" where
  "queue_of sh sid = (case map_of (sh_pending sh) sid of None \<Rightarrow> [] | Some q \<Rightarrow> q)"

definition pending_total :: "(ustring \<times> sched_entry list) list \<Rightarrow> nat" where
  "pending_total m = sum_list (map (\<lambda>p. length (snd p)) m)"

definition pending_count :: "scheduler \<Rightarrow> nat" where
  "pending_count sh = pending_total (sh_pending sh)"

definition active_count :: "scheduler \<Rightarrow> nat" where
  "active_count sh = length (sh_active sh)"

definition closed_error :: py_error where
  "closed_error = TranslationError ''scheduler_closed'' False"

definition sched_start :: "scheduler \<Rightarrow> scheduler \<times> unit res" where
  "sched_start sh = (if sh_closing sh then (sh, Inl closed_error) else (sh\<lparr>sh_started := True\<rparr>, Inr ()))"

subsection \<open>Readiness and cancellation\<close>

definition mark_ready :: "ustring \<Rightarrow> scheduler \<Rightarrow> scheduler" where
  "mark_ready sid sh =
     (if queue_of sh sid \<noteq> [] \<and> map_of (sh_active sh) sid = None
         \<and> sid \<notin> sh_ready_set sh \<and> \<not> sh_closing sh
      then sh\<lparr>sh_ready := sh_ready sh @ [sid], sh_ready_set := insert sid (sh_ready_set sh)\<rparr>
      else sh)"

definition forget_ready :: "ustring \<Rightarrow> scheduler \<Rightarrow> scheduler" where
  "forget_ready sid sh =
     sh\<lparr>sh_ready := filter (\<lambda>s. s \<noteq> sid) (sh_ready sh), sh_ready_set := sh_ready_set sh - {sid}\<rparr>"

definition cancelled_active :: "active_job \<Rightarrow> active_job" where
  "cancelled_active a =
     a\<lparr>ac_stale := True, ac_task := (if ac_task a = TaskRunning then TaskCancelling else ac_task a)\<rparr>"

definition cancel_active :: "ustring \<Rightarrow> active_job \<Rightarrow> scheduler \<Rightarrow> scheduler" where
  "cancel_active sid a sh =
     (if ac_stale a then sh
      else record_metric ''translation_cancelled'' 1
             (sh\<lparr>sh_active := al_put sid (cancelled_active a) (sh_active sh)\<rparr>))"

subsection \<open>Submission\<close>

definition replaceable :: "job \<Rightarrow> sched_entry \<Rightarrow> bool" where
  "replaceable j e \<longleftrightarrow> \<not> jb_final (en_job e) \<and> same_segment (en_job e) j
     \<and> jb_revision (en_job e) \<le> jb_revision j"

text \<open>The new entry takes the place of the first replaced one; the others are dropped.\<close>

fun coalesce :: "(sched_entry \<Rightarrow> bool) \<Rightarrow> sched_entry \<Rightarrow> sched_entry list \<Rightarrow> sched_entry list" where
  "coalesce p new [] = []"
| "coalesce p new (e # es) =
     (if p e then new # filter (\<lambda>x. \<not> p x) es else e # coalesce p new es)"

definition peer_entries :: "scheduler \<Rightarrow> ustring \<Rightarrow> sched_entry list" where
  "peer_entries sh sid =
     queue_of sh sid @ (case map_of (sh_active sh) sid of
        None \<Rightarrow> []
      | Some a \<Rightarrow> if ac_stale a then [] else [ac_entry a])"

definition submit_job :: "scheduler \<Rightarrow> job \<Rightarrow> ustring \<Rightarrow> scheduler \<times> unit res" where
  "submit_job sh j callback =
     (case sched_start sh of
        (sh0, Inl e) \<Rightarrow> (sh0, Inl e)
      | (sh0, Inr _) \<Rightarrow>
          (let sid = jb_session j;
               queue = queue_of sh0 sid;
               replaced = length (filter (replaceable j) queue);
               entry = \<lparr>en_job = j, en_callback = callback\<rparr>
           in if list_ex (\<lambda>e. same_segment (en_job e) j \<and> jb_revision (en_job e) > jb_revision j)
                   (peer_entries sh0 sid)
                then (sh0, Inl (TranslationError ''stale_revision'' False))
              else if int (pending_count sh0) - int replaced + 1 > sh_max_pending sh0
                      \<or> int (length queue) - int replaced + 1 > sh_max_per_session sh0
                then (record_metric ''translation_queue_rejected'' 1 sh0,
                      Inl (TranslationError ''queue_full'' True))
              else
                (let queue' = (if replaced > 0 then coalesce (replaceable j) entry queue
                               else queue @ [entry]);
                     sh1 = (if replaced > 0
                            then record_metric ''translation_partial_coalesced'' (of_nat replaced) sh0
                            else sh0);
                     sh2 = sh1\<lparr>sh_pending := al_put sid queue' (sh_pending sh1)\<rparr>;
                     sh3 = (case map_of (sh_active sh2) sid of
                              None \<Rightarrow> sh2
                            | Some a \<Rightarrow>
                                if replaceable j (ac_entry a) then cancel_active sid a sh2 else sh2);
                     sh4 = mark_ready sid sh3
                 in (record_metric ''translation_submitted'' 1 sh4, Inr ()))))"

subsection \<open>Explicit cancellation\<close>

definition cancel_session :: "scheduler \<Rightarrow> ustring \<Rightarrow> scheduler" where
  "cancel_session sh sid =
     (let sh1 = forget_ready sid (sh\<lparr>sh_pending := al_del sid (sh_pending sh)\<rparr>)
      in case map_of (sh_active sh1) sid of
           None \<Rightarrow> sh1
         | Some a \<Rightarrow> cancel_active sid a sh1)"

definition invalidate :: "scheduler \<Rightarrow> ustring \<Rightarrow> ustring set \<Rightarrow> scheduler \<times> unit res" where
  "invalidate sh sid ids =
     (if [] \<in> ids then (sh, Inl (ValueError ''Invalid segment identifier''))
      else
        (let sh1 =
           (case map_of (sh_pending sh) sid of
              None \<Rightarrow> sh
            | Some q \<Rightarrow>
                (let remaining = filter (\<lambda>e. jb_segment (en_job e) \<notin> ids) q
                 in if remaining \<noteq> []
                    then sh\<lparr>sh_pending := al_put sid remaining (sh_pending sh)\<rparr>
                    else forget_ready sid (sh\<lparr>sh_pending := al_del sid (sh_pending sh)\<rparr>)))
         in (case map_of (sh_active sh1) sid of
               None \<Rightarrow> sh1
             | Some a \<Rightarrow> if jb_segment (en_job (ac_entry a)) \<in> ids then cancel_active sid a sh1 else sh1,
             Inr ())))"

subsection \<open>Workers\<close>

datatype take_result = Taken active_job | Blocked | Exit

text \<open>The inner loop of \<open>_take\<close>; \<open>Blocked\<close> is \<open>condition.wait()\<close>.\<close>

function take_ready :: "scheduler \<Rightarrow> scheduler \<times> take_result" where
  "take_ready sh =
     (case sh_ready sh of
        [] \<Rightarrow> (sh, Blocked)
      | sid # rest \<Rightarrow>
          (let sh1 = sh\<lparr>sh_ready := rest, sh_ready_set := sh_ready_set sh - {sid}\<rparr>
           in case queue_of sh1 sid of
                [] \<Rightarrow> take_ready sh1
              | e # q \<Rightarrow>
                  if map_of (sh_active sh1) sid \<noteq> None then take_ready sh1
                  else
                    (let a = \<lparr>ac_id = sh_next_active sh1, ac_entry = e, ac_task = NoTask, ac_stale = False\<rparr>
                     in (sh1\<lparr>sh_pending := (if q = [] then al_del sid (sh_pending sh1)
                                             else al_put sid q (sh_pending sh1)),
                             sh_active := al_put sid a (sh_active sh1),
                             sh_next_active := Suc (sh_next_active sh1)\<rparr>, Taken a))))"
  by pat_completeness auto
termination
  by (relation "measure (\<lambda>sh. length (sh_ready sh))") auto

declare take_ready.simps [simp del]

definition take_job :: "scheduler \<Rightarrow> scheduler \<times> take_result" where
  "take_job sh = (if sh_closing sh then (sh, Exit) else take_ready sh)"

text \<open>\<open>_execute\<close> up to the backend call: \<open>False\<close> means the active entry was already stale.\<close>

definition begin_execute :: "scheduler \<Rightarrow> ustring \<Rightarrow> rat \<Rightarrow> scheduler \<times> bool" where
  "begin_execute sh sid now =
     (case map_of (sh_active sh) sid of
        None \<Rightarrow> (sh, False)
      | Some a \<Rightarrow>
          if ac_stale a then (sh, False)
          else (record_observation ''translation_queue_wait_ms''
                  (Fin (max 0 (now - pf_val (jb_created_at (en_job (ac_entry a)))) * 1000))
                  (sh\<lparr>sh_active := al_put sid (a\<lparr>ac_task := TaskRunning\<rparr>) (sh_active sh)\<rparr>), True))"

fun outcome_result :: "backend_outcome \<Rightarrow> translation_result option" where
  "outcome_result (Returned r) = Some r"
| "outcome_result _ = None"

fun outcome_error :: "backend_outcome \<Rightarrow> (string \<times> bool) option" where
  "outcome_error (Returned r) = None"
| "outcome_error ReturnedOther = None"
| "outcome_error (RaisedTranslation c r) = Some (c, r)"
| "outcome_error RaisedCancelled = Some (''backend_cancelled'', True)"
| "outcome_error RaisedOther = Some (''backend_error'', True)"

text \<open>What is handed to the callback: the job, the result and the error, or nothing.\<close>

type_synonym delivery = "(ustring \<times> job \<times> translation_result option \<times> (string \<times> bool) option) option"

definition finish_execute :: "scheduler \<Rightarrow> ustring \<Rightarrow> backend_outcome \<Rightarrow> scheduler \<times> delivery" where
  "finish_execute sh sid outcome =
     (case map_of (sh_active sh) sid of
        None \<Rightarrow> (sh, None)
      | Some a \<Rightarrow>
          if ac_stale a \<or> sh_closing sh
          then (record_metric ''translation_stale_discarded'' 1 sh, None)
          else
            (let sh1 = (case outcome_result outcome of
                          None \<Rightarrow> sh
                        | Some r \<Rightarrow> record_observation ''translation_latency_ms'' (re_latency_ms r) sh);
                 sh2 = record_metric (if outcome_error outcome \<noteq> None then ''translation_failed''
                                      else ''translation_completed'') 1 sh1
             in (sh2, Some (en_callback (ac_entry a), en_job (ac_entry a),
                            outcome_result outcome, outcome_error outcome))))"

definition callback_failed :: "scheduler \<Rightarrow> scheduler" where
  "callback_failed sh = record_metric ''translation_callback_failed'' 1 sh"

text \<open>The \<open>finally\<close> of \<open>_worker\<close>.\<close>

definition release_worker :: "scheduler \<Rightarrow> ustring \<Rightarrow> nat \<Rightarrow> scheduler" where
  "release_worker sh sid aid =
     mark_ready sid
       (case map_of (sh_active sh) sid of
          Some a \<Rightarrow> if ac_id a = aid then sh\<lparr>sh_active := al_del sid (sh_active sh)\<rparr> else sh
        | None \<Rightarrow> sh)"

definition close_scheduler :: "scheduler \<Rightarrow> scheduler" where
  "close_scheduler sh =
     foldl (\<lambda>s p. cancel_active (fst p) (snd p) s)
       (sh\<lparr>sh_closing := True, sh_pending := [], sh_ready := [], sh_ready_set := {}\<rparr>)
       (sh_active sh)"

end
