(* ===== verification/SessionState.thy ===== *)
theory SessionState
  imports Stability Policy DraftCommit ContextGlossary WireModels Scheduler
begin

text \<open>
  State and primitive operations of \<^verbatim>\<open>src/app/session/state.py\<close>: \<open>TranslationSession\<close>.

  A session owns its utterances and segments and holds references to the shared scheduler and
  metrics (\<open>ss_sched\<close>, whose field \<open>sh_metrics\<close> is the shared \<open>Metrics\<close> object). Handlers run under
  the session lock, so each is one step; all clock readings of one handler are its argument
  \<open>now\<close>. A handler returns the session as it stands when the handler returns or raises, with the
  result or the exception. Timer tasks are records in \<open>ss_tasks\<close>; \<open>ss_timers\<close> is the dictionary
  from keys to task numbers.
\<close>

subsection \<open>Data\<close>

record utterance =
  ut_tracker :: tracker
  ut_speaker :: "ustring option"
  ut_text :: ustring
  ut_stable_end :: nat
  ut_selected_end :: nat
  ut_revision :: int
  ut_sequence :: int
  ut_final :: bool
  ut_pause :: "rat option"
  ut_created_at :: rat
  ut_changed_at :: rat
  ut_buffer_since :: rat
  ut_incomplete :: bool

datatype seg_status = SegReady | SegRunning | SegComplete | SegFailed

record segment =
  sg_id :: ustring
  sg_utterance :: ustring
  sg_start :: nat
  sg_end :: nat
  sg_source :: ustring
  sg_source_revision :: int
  sg_speaker :: "ustring option"
  sg_sequence :: int
  sg_final_source :: bool
  sg_committer :: committer
  sg_created_at :: rat
  sg_translation :: ustring
  sg_committed :: bool
  sg_status :: seg_status

datatype timer_kind = EvaluateTimer ustring | CommitTimer ustring

record timer =
  ti_id :: nat
  ti_key :: ustring
  ti_kind :: timer_kind
  ti_generation :: int
  ti_due :: rat

record segment_view =
  sv_id :: ustring
  sv_utterance :: ustring
  sv_source :: ustring
  sv_translation :: ustring
  sv_committed :: bool
  sv_source_revision :: int
  sv_speaker :: "ustring option"
  sv_status :: seg_status

record snapshot =
  sn_session_id :: ustring
  sn_generation :: int
  sn_revision :: int
  sn_last_sequence :: int
  sn_source_language :: ustring
  sn_target_language :: ustring
  sn_committed_source :: ustring
  sn_unstable_source :: ustring
  sn_committed :: ustring
  sn_draft :: ustring
  sn_full_text :: ustring
  sn_final :: bool
  sn_segments :: "segment_view list"

datatype out_event =
    SnapshotEvent string snapshot
  | ErrorEvent string string bool int
  | PongEvent int

record session =
  ss_id :: ustring
  ss_config :: session_config
  ss_settings :: settings
  ss_sched :: scheduler
  ss_token_hash :: ustring
  ss_closed :: bool
  ss_last_sequence :: int
  ss_generation :: int
  ss_revision :: int
  ss_last_activity :: rat
  ss_created_at :: rat
  ss_first_translation :: "rat option"
  ss_first_asr :: "rat option"
  ss_utterances :: "(ustring \<times> utterance) list"
  ss_segments :: "segment list"
  ss_glossary :: glossary
  ss_auto_id :: "ustring option"
  ss_next_utterance :: nat
  ss_next_segment :: nat
  ss_active :: "ustring option"
  ss_timers :: "(ustring \<times> nat) list"
  ss_tasks :: "timer list"
  ss_next_task :: nat
  ss_queue :: "(rat \<times> out_event) option list option"
  ss_events :: "rat list"
  ss_threshold :: rat
  ss_policy :: policy
  ss_context :: context_manager

type_synonym 'a step = "session \<times> 'a res"

definition andthen :: "'a step \<Rightarrow> (session \<Rightarrow> 'a \<Rightarrow> 'b step) \<Rightarrow> 'b step" where
  "andthen m f = (case m of (s, Inl e) \<Rightarrow> (s, Inl e) | (s, Inr a) \<Rightarrow> f s a)"

lemma andthen_unfold [code_unfold]:
  "andthen m f = (let q = m in case snd q of Inl e \<Rightarrow> (fst q, Inl e) | Inr a \<Rightarrow> f (fst q) a)"
  by (simp add: andthen_def Let_def split: prod.split sum.split)

definition done_step :: "session \<Rightarrow> unit step" where
  "done_step s = (s, Inr ())"

lemma andthen_simps [simp]:
  "andthen (s, Inl e) f = (s, Inl e)"
  "andthen (s, Inr a) f = f s a"
  by (simp_all add: andthen_def)

subsection \<open>Identifiers\<close>

function decimal :: "nat \<Rightarrow> ustring" where
  "decimal n = (if n < 10 then [48 + n] else decimal (n div 10) @ [48 + n mod 10])"
  by pat_completeness auto
termination
  by (relation "measure (\<lambda>n. n)") auto

declare decimal.simps [simp del]

definition segment_name :: "nat \<Rightarrow> ustring" where
  "segment_name n = lit ''s'' @ decimal n"

definition auto_name :: "nat \<Rightarrow> ustring" where
  "auto_name n = lit ''auto:'' @ decimal n"

definition commit_key :: "ustring \<Rightarrow> ustring" where
  "commit_key seg = lit ''commit:'' @ seg"

subsection \<open>Metrics, output and snapshots\<close>

definition metric_inc :: "string \<Rightarrow> session \<Rightarrow> session" where
  "metric_inc name s =
     s\<lparr>ss_sched := (ss_sched s)\<lparr>sh_metrics := metrics_increment (sh_metrics (ss_sched s)) name\<rparr>\<rparr>"

definition metric_obs :: "string \<Rightarrow> rat \<Rightarrow> session \<Rightarrow> session" where
  "metric_obs name v s =
     s\<lparr>ss_sched := (ss_sched s)\<lparr>sh_metrics := metrics_observe (sh_metrics (ss_sched s)) name (Fin v)\<rparr>\<rparr>"

definition touch :: "rat \<Rightarrow> session \<Rightarrow> session" where
  "touch now s = s\<lparr>ss_last_activity := now\<rparr>"

definition state_bytes :: "session \<Rightarrow> nat" where
  "state_bytes s = sum_list (map (\<lambda>p. utf8_len (ut_text (snd p))) (ss_utterances s))
     + sum_list (map (\<lambda>g. utf8_len (sg_translation g)) (ss_segments s))"

definition admit_event :: "rat \<Rightarrow> session \<Rightarrow> session \<times> bool" where
  "admit_event now s =
     (let es = dropWhile (\<lambda>t. t < now - 1) (ss_events s);
          s1 = s\<lparr>ss_events := es\<rparr>
      in if int (length es) \<ge> se_max_events_per_second (ss_settings s)
         then (metric_inc ''rate_limited_events'' s1, False)
         else (s1\<lparr>ss_events := es @ [now]\<rparr>, True))"

text \<open>A full queue is drained and ends with the disconnect marker \<open>None\<close>.\<close>

definition emit :: "rat \<Rightarrow> out_event \<Rightarrow> session \<Rightarrow> session" where
  "emit now e s =
     (case ss_queue s of
        None \<Rightarrow> s
      | Some q \<Rightarrow>
          if int (length q) < se_outgoing_queue_size (ss_settings s)
          then s\<lparr>ss_queue := Some (q @ [Some (now, e)])\<rparr>
          else (metric_inc ''slow_client_disconnects'' s)\<lparr>ss_queue := Some [None]\<rparr>)"

definition emit_error :: "rat \<Rightarrow> string \<Rightarrow> string \<Rightarrow> session \<Rightarrow> session" where
  "emit_error now code message s = emit now (ErrorEvent code message True (ss_last_sequence s)) s"

definition view_segment :: "segment \<Rightarrow> segment_view" where
  "view_segment g = \<lparr>sv_id = sg_id g, sv_utterance = sg_utterance g, sv_source = sg_source g,
     sv_translation = sg_translation g, sv_committed = sg_committed g,
     sv_source_revision = sg_source_revision g, sv_speaker = sg_speaker g, sv_status = sg_status g\<rparr>"

definition visible_segments :: "session \<Rightarrow> segment list" where
  "visible_segments s = filter (\<lambda>g. sg_translation g \<noteq> []) (ss_segments s)"

definition snapshot_of :: "unidb \<Rightarrow> session \<Rightarrow> snapshot" where
  "snapshot_of uc s =
     (let visible = visible_segments s;
          split = length (takeWhile sg_committed visible);
          us = map snd (ss_utterances s);
          space = lit '' ''
      in \<lparr>sn_session_id = ss_id s, sn_generation = ss_generation s, sn_revision = ss_revision s,
          sn_last_sequence = ss_last_sequence s,
          sn_source_language = co_source_language (ss_config s),
          sn_target_language = co_target_language (ss_config s),
          sn_committed_source = py_strip uc (py_join space
             (map (\<lambda>u. py_strip uc (take (ut_stable_end u) (ut_text u))) us)),
          sn_unstable_source = py_strip uc (py_join space
             (map (\<lambda>u. py_strip uc (drop (ut_stable_end u) (ut_text u))) us)),
          sn_committed = py_join space (map sg_translation (take split visible)),
          sn_draft = py_join space (map sg_translation (drop split visible)),
          sn_full_text = py_join space (map sg_translation visible),
          sn_final = us \<noteq> [] \<and> list_all (\<lambda>u. ut_final u
               \<and> py_strip uc (drop (ut_selected_end u) (ut_text u)) = []) us
             \<and> ss_segments s \<noteq> [] \<and> list_all sg_committed (ss_segments s),
          sn_segments = map view_segment (ss_segments s)\<rparr>)"

definition emit_snapshot :: "unidb \<Rightarrow> rat \<Rightarrow> string \<Rightarrow> session \<Rightarrow> session" where
  "emit_snapshot uc now kind s = emit now (SnapshotEvent kind (snapshot_of uc s)) s"

subsection \<open>Timers\<close>

definition add_task :: "ustring \<Rightarrow> timer_kind \<Rightarrow> rat \<Rightarrow> session \<Rightarrow> session" where
  "add_task key kind due s =
     s\<lparr>ss_tasks := ss_tasks s @ [\<lparr>ti_id = ss_next_task s, ti_key = key, ti_kind = kind,
                                    ti_generation = ss_generation s, ti_due = due\<rparr>],
        ss_timers := al_put key (ss_next_task s) (ss_timers s),
        ss_next_task := Suc (ss_next_task s)\<rparr>"

text \<open>\<open>current\<close> is the task that runs the handler, if a timer started it.\<close>

definition arm :: "nat option \<Rightarrow> rat \<Rightarrow> ustring \<Rightarrow> rat \<Rightarrow> session \<Rightarrow> session" where
  "arm current now uid delay s =
     (if ss_closed s \<or> ss_queue s = None then s
      else
        (let old = map_of (ss_timers s) uid;
             s1 = s\<lparr>ss_timers := al_del uid (ss_timers s),
                    ss_tasks := (if old = None \<or> old = current then ss_tasks s
                                 else filter (\<lambda>t. Some (ti_id t) \<noteq> old) (ss_tasks s))\<rparr>
         in add_task uid (EvaluateTimer uid) (now + delay) s1))"

definition arm_commit :: "rat \<Rightarrow> ustring \<Rightarrow> session \<Rightarrow> session" where
  "arm_commit now seg s =
     add_task (commit_key seg) (CommitTimer seg)
       (now + of_int (se_commit_delay_ms (ss_settings s)) / 1000) s"

definition cancel_timers :: "session \<Rightarrow> session" where
  "cancel_timers s =
     s\<lparr>ss_tasks := filter (\<lambda>t. ti_id t \<notin> set (map snd (ss_timers s))) (ss_tasks s),
        ss_timers := []\<rparr>"

text \<open>The \<open>finally\<close> of a timer task.\<close>

definition finish_task :: "timer \<Rightarrow> session \<Rightarrow> session" where
  "finish_task t s =
     s\<lparr>ss_tasks := filter (\<lambda>x. ti_id x \<noteq> ti_id t) (ss_tasks s),
        ss_timers := (if map_of (ss_timers s) (ti_key t) = Some (ti_id t)
                      then al_del (ti_key t) (ss_timers s) else ss_timers s)\<rparr>"

subsection \<open>Segments and utterances\<close>

definition find_segment :: "ustring \<Rightarrow> session \<Rightarrow> segment option" where
  "find_segment gid s = find (\<lambda>g. sg_id g = gid) (ss_segments s)"

definition map_segment :: "ustring \<Rightarrow> (segment \<Rightarrow> segment) \<Rightarrow> session \<Rightarrow> session" where
  "map_segment gid f s = s\<lparr>ss_segments := map (\<lambda>g. if sg_id g = gid then f g else g) (ss_segments s)\<rparr>"

definition put_utterance :: "ustring \<Rightarrow> utterance \<Rightarrow> session \<Rightarrow> session" where
  "put_utterance uid u s = s\<lparr>ss_utterances := al_put uid u (ss_utterances s)\<rparr>"

text \<open>\<open>segment.committer.ready()\<close>, which may move the committer's local clock.\<close>

definition segment_ready :: "rat \<Rightarrow> ustring \<Rightarrow> session \<Rightarrow> session \<times> bool res" where
  "segment_ready now gid s =
     (case find_segment gid s of
        None \<Rightarrow> (s, Inr False)
      | Some g \<Rightarrow>
          (case ready (sg_committer g) (Fin now) of
             (dc, r) \<Rightarrow> (map_segment gid (\<lambda>g. g\<lparr>sg_committer := dc\<rparr>) s, r)))"

definition commit_segment :: "unidb \<Rightarrow> rat \<Rightarrow> ustring \<Rightarrow> session \<Rightarrow> unit step" where
  "commit_segment uc now gid s =
     (case find_segment gid s of
        None \<Rightarrow> done_step s
      | Some g \<Rightarrow>
          if sg_committed g then done_step s
          else
            (case mark_committed (sg_committer g) (Fin now) of
               (dc, Inl e) \<Rightarrow> (map_segment gid (\<lambda>g. g\<lparr>sg_committer := dc\<rparr>) s, Inl e)
             | (dc, Inr _) \<Rightarrow>
                 (let s1 = map_segment gid (\<lambda>g. g\<lparr>sg_committer := dc, sg_committed := True\<rparr>) s;
                      s2 = s1\<lparr>ss_revision := ss_revision s1 + 1\<rparr>;
                      s3 = metric_obs ''finalization_ms'' ((now - sg_created_at g) * 1000) s2
                  in done_step (emit_snapshot uc now ''translation_final'' s3))))"

text \<open>\<open>if segment.committer.ready(): self._commit(segment) else: self._arm_commit(segment)\<close>\<close>

definition settle_segment :: "unidb \<Rightarrow> rat \<Rightarrow> ustring \<Rightarrow> session \<Rightarrow> unit step" where
  "settle_segment uc now gid s =
     andthen (segment_ready now gid s) (\<lambda>s1 r.
       if r then commit_segment uc now gid s1 else done_step (arm_commit now gid s1))"

definition waiting_count :: "session \<Rightarrow> nat" where
  "waiting_count s = length (filter (\<lambda>g. sg_status g = SegReady \<or> sg_status g = SegRunning) (ss_segments s))"

definition segments_of :: "ustring \<Rightarrow> session \<Rightarrow> segment list" where
  "segments_of uid s = filter (\<lambda>g. sg_utterance g = uid) (ss_segments s)"

definition segment_span :: "segment \<Rightarrow> rev_segment" where
  "segment_span g = \<lparr>rs_start = sg_start g, rs_end = sg_end g\<rparr>"

definition segment_index :: "ustring \<Rightarrow> session \<Rightarrow> nat" where
  "segment_index gid s = length (takeWhile (\<lambda>g. sg_id g \<noteq> gid) (ss_segments s))"

subsection \<open>Construction and configuration\<close>

definition set_config :: "unidb \<Rightarrow> session_config \<Rightarrow> session \<Rightarrow> unit step" where
  "set_config uc co s =
     (let st = ss_settings s
      in if \<not> supports_language uc (Some (co_source_language co))
           then (s, Inl (ValueError ''UNSUPPORTED_SOURCE_LANGUAGE''))
         else if co_model co \<noteq> None \<and> co_model co \<noteq> Some (se_translation_model st)
           then (s, Inl (ValueError ''MODEL_NOT_ALLOWED''))
         else
           (let threshold = (case co_stability_threshold co of None \<Rightarrow> se_stability_threshold st | Some t \<Rightarrow> t);
                latency = (case co_max_latency_ms co of None \<Rightarrow> se_max_segment_latency_ms st
                           | Some n \<Rightarrow> if n = 0 then se_max_segment_latency_ms st else n);
                s1 = s\<lparr>ss_config := co, ss_threshold := threshold\<rparr>
            in case new_policy threshold (se_min_stable_tokens st) (se_min_segment_tokens st)
                      (se_target_segment_tokens st) latency (se_pause_threshold_ms st) of
                 Inl e \<Rightarrow> (s1, Inl e)
               | Inr pol \<Rightarrow>
                   done_step (s1\<lparr>ss_policy := pol,
                     ss_context := \<lparr>cm_max_segments =
                         (case co_max_context_segments co of None \<Rightarrow> se_context_segments st
                          | Some n \<Rightarrow> min n (se_context_segments st)),
                       cm_max_tokens = se_max_context_tokens st, cm_entries = []\<rparr>\<rparr>)))"

definition blank_policy :: policy where
  "blank_policy = \<lparr>pol_threshold = 0, pol_min_stable = 1, pol_min_segment = 1,
     pol_target_segment = 1, pol_max_latency = 1, pol_pause_threshold = 1\<rparr>"

definition new_session ::
    "unidb \<Rightarrow> ustring \<Rightarrow> session_config \<Rightarrow> settings \<Rightarrow> scheduler \<Rightarrow> rat \<Rightarrow> unit step" where
  "new_session uc sid co st sh now =
     set_config uc co \<lparr>ss_id = sid, ss_config = co, ss_settings = st, ss_sched = sh,
       ss_token_hash = [], ss_closed = False, ss_last_sequence = -1, ss_generation = 0,
       ss_revision = 0, ss_last_activity = now, ss_created_at = now, ss_first_translation = None,
       ss_first_asr = None, ss_utterances = [], ss_segments = [], ss_glossary = [],
       ss_auto_id = None, ss_next_utterance = 0, ss_next_segment = 0, ss_active = None,
       ss_timers = [], ss_tasks = [], ss_next_task = 0, ss_queue = None, ss_events = [],
       ss_threshold = 0, ss_policy = blank_policy,
       ss_context = \<lparr>cm_max_segments = 0, cm_max_tokens = 0, cm_entries = []\<rparr>\<rparr>"

end
