(* ===== verification/SessionHandlers.thy ===== *)
theory SessionHandlers
  imports SessionState
begin

text \<open>
  The handlers of \<open>TranslationSession\<close> (\<^verbatim>\<open>src/app/session/state.py\<close>): \<open>_rollback\<close>, \<open>ingest\<close>,
  \<open>_select_utterance\<close>, \<open>_evaluate\<close>, \<open>_dispatch_next\<close>, \<open>_result\<close>, and the connection and
  administration calls. Each follows the code's order of checks, updates and outputs.
\<close>

subsection \<open>Dispatch\<close>

definition context_entries :: "segment list \<Rightarrow> context_entry list" where
  "context_entries earlier =
     map (\<lambda>g. \<lparr>ce_segment = sg_id g, ce_source = sg_source g, ce_translation = sg_translation g,
               ce_speaker = sg_speaker g\<rparr>)
       (filter (\<lambda>g. sg_translation g \<noteq> [] \<and> sg_status g = SegComplete) earlier)"

definition job_of :: "unidb \<Rightarrow> rat \<Rightarrow> session \<Rightarrow> segment \<Rightarrow> job" where
  "job_of uc now s g =
     (let (sources, translations) = context_snapshot (ss_context s)
      in \<lparr>jb_session = ss_id s, jb_generation = GenInt (ss_generation s),
          jb_sequence = sg_sequence g, jb_revision = sg_source_revision g, jb_segment = sg_id g,
          jb_source = sg_source g, jb_source_language = co_source_language (ss_config s),
          jb_target_language = co_target_language (ss_config s), jb_source_context = sources,
          jb_translation_context = translations,
          jb_glossary = matching_entries uc (sg_source g) (ss_glossary s) 2000,
          jb_final = sg_final_source g, jb_created_at = Fin now,
          jb_model = Some (se_translation_model (ss_settings s)),
          jb_temperature = Some (case co_temperature (ss_config s) of
             None \<Rightarrow> se_translation_temperature (ss_settings s) | Some t \<Rightarrow> t)\<rparr>)"

definition dispatch_next :: "unidb \<Rightarrow> nat option \<Rightarrow> rat \<Rightarrow> session \<Rightarrow> unit step" where
  "dispatch_next uc current now s =
     (if ss_closed s \<or> ss_queue s = None \<or> ss_active s \<noteq> None then done_step s
      else case find (\<lambda>g. sg_status g = SegReady) (ss_segments s) of
        None \<Rightarrow> done_step s
      | Some g \<Rightarrow>
          (let earlier = take (segment_index (sg_id g) s) (ss_segments s);
               s1 = s\<lparr>ss_context := context_replace (ss_context s) (context_entries earlier)\<rparr>
           in case validate_job uc (job_of uc now s1 g) of
                Inl e \<Rightarrow> (s1, Inl e)
              | Inr j \<Rightarrow>
                  (case submit_job (ss_sched s1) j (ss_id s1) of
                     (sh, Inl e) \<Rightarrow>
                       (let s2 = s1\<lparr>ss_sched := sh\<rparr>
                        in if e = TranslationError ''queue_full'' True
                           then done_step (arm current now (sg_utterance g) (1 / 5)
                                  (emit_error now ''QUEUE_OVERFLOW''
                                    ''Translation queue is full; source retained for retry'' s2))
                           else (s2, Inl e))
                   | (sh, Inr _) \<Rightarrow>
                       (let s2 = s1\<lparr>ss_sched := sh\<rparr>;
                            s3 = map_segment (sg_id g) (\<lambda>x. x\<lparr>sg_status := SegRunning\<rparr>) s2;
                            s4 = s3\<lparr>ss_active := Some (sg_id g)\<rparr>
                        in done_step (metric_obs ''segmentation_to_queue_ms''
                             ((now - sg_created_at g) * 1000) s4)))))"

subsection \<open>Rollback\<close>

definition rollback_utterance :: "nat option \<Rightarrow> rat \<Rightarrow> segment \<Rightarrow> session \<Rightarrow> session" where
  "rollback_utterance current now g s =
     (case map_of (ss_utterances s) (sg_utterance g) of
        None \<Rightarrow> s
      | Some u \<Rightarrow>
          arm current now (sg_utterance g) 0
            (put_utterance (sg_utterance g)
              (u\<lparr>ut_selected_end := min (ut_selected_end u) (sg_start g), ut_incomplete := False\<rparr>) s))"

definition rollback :: "unidb \<Rightarrow> nat option \<Rightarrow> rat \<Rightarrow> nat \<Rightarrow> session \<Rightarrow> unit step" where
  "rollback uc current now index s =
     (let affected = drop index (ss_segments s);
          ids = set (map sg_id affected);
          s1 = s\<lparr>ss_segments := take index (ss_segments s)\<rparr>;
          s2 = foldl (\<lambda>t g. rollback_utterance current now g t) s1 affected;
          s3 = (if (case ss_active s2 of None \<Rightarrow> False | Some a \<Rightarrow> a \<in> ids) then s2\<lparr>ss_active := None\<rparr> else s2)
      in case invalidate (ss_sched s3) (ss_id s3) ids of
           (sh, Inl e) \<Rightarrow> (s3\<lparr>ss_sched := sh\<rparr>, Inl e)
         | (sh, Inr _) \<Rightarrow>
             (let s4 = metric_inc ''source_revisions'' (s3\<lparr>ss_sched := sh\<rparr>);
                  s5 = s4\<lparr>ss_revision := ss_revision s4 + 1\<rparr>
              in done_step (emit_snapshot uc now ''translation_update'' s5)))"

subsection \<open>Ingest\<close>

text \<open>
  The checks of \<open>ingest\<close>, in order. The automatic utterance counter moves before the later checks
  can reject the event. The result is the utterance id.
\<close>

definition resolve_utterance :: "session \<Rightarrow> asr_event \<Rightarrow> ustring step" where
  "resolve_utterance s ev =
     (case ev_utterance_id ev of
        Some uid \<Rightarrow> (s, Inr uid)
      | None \<Rightarrow>
          (let fresh = s\<lparr>ss_next_utterance := Suc (ss_next_utterance s)\<rparr>;
               name = auto_name (Suc (ss_next_utterance s))
           in case ss_auto_id s of
                None \<Rightarrow> (fresh, Inr name)
              | Some a \<Rightarrow>
                  (case map_of (ss_utterances s) a of
                     None \<Rightarrow> (s, Inl KeyError)
                   | Some u \<Rightarrow> if ut_final u then (fresh, Inr name) else (s, Inr a))))"

definition session_limit_hit :: "session \<Rightarrow> asr_event \<Rightarrow> utterance option \<Rightarrow> bool" where
  "session_limit_hit s ev uo =
     (let st = ss_settings s;
          own = (case uo of None \<Rightarrow> 0 | Some u \<Rightarrow> length (ut_text u));
          own_bytes = (case uo of None \<Rightarrow> 0 | Some u \<Rightarrow> utf8_len (ut_text u));
          retained = int (sum_list (map (\<lambda>p. length (ut_text (snd p))) (ss_utterances s))) - int own;
          retained_bytes = int (state_bytes s) - int own_bytes
      in retained + int (length (ev_text ev)) > se_max_session_chars st
         \<or> retained_bytes + int (utf8_len (ev_text ev)) > se_max_state_bytes st
         \<or> (uo = None \<and> int (length (ss_utterances s)) \<ge> se_max_utterances st))"

definition check_event :: "session \<Rightarrow> asr_event \<Rightarrow> ustring step" where
  "check_event s ev =
     (let co = ss_config s
      in if ev_session_id ev \<noteq> None \<and> ev_session_id ev \<noteq> Some (ss_id s)
           then (s, Inl (ValueError ''SESSION_MISMATCH''))
         else if ev_sequence ev \<le> ss_last_sequence s then (s, Inl (ValueError ''STALE_SEQUENCE''))
         else if (ev_language ev \<noteq> None \<and> ev_language ev \<noteq> Some (co_source_language co))
                 \<or> (ev_target_language ev \<noteq> None \<and> ev_target_language ev \<noteq> Some (co_target_language co))
           then (s, Inl (ValueError ''LANGUAGE_MISMATCH''))
         else if int (length (ev_text ev)) > se_max_source_chars (ss_settings s)
           then (s, Inl (ValueError ''SOURCE_LIMIT''))
         else andthen (resolve_utterance s ev) (\<lambda>s1 uid.
           (let uo = map_of (ss_utterances s1) uid
            in if (case uo of None \<Rightarrow> False | Some u \<Rightarrow> ut_speaker u \<noteq> ev_speaker_id ev)
                 then (s1, Inl (ValueError ''SPEAKER_MISMATCH''))
               else if (case uo of None \<Rightarrow> False | Some u \<Rightarrow> ut_final u) \<and> \<not> ev_is_final ev
                 then (s1, Inl (ValueError ''FINAL_REQUIRES_FINAL''))
               else if session_limit_hit s1 ev uo then (s1, Inl (ValueError ''SESSION_LIMIT''))
               else (s1, Inr uid))))"

definition settings_weights :: "settings \<Rightarrow> weights" where
  "settings_weights st = \<lparr>w_agreement = se_agreement_weight st, w_confidence = se_confidence_weight st,
     w_age = se_age_weight st, w_pause = se_pause_weight st\<rparr>"

definition ensure_utterance :: "rat \<Rightarrow> session \<Rightarrow> ustring \<Rightarrow> asr_event \<Rightarrow> unit step" where
  "ensure_utterance now s uid ev =
     (case map_of (ss_utterances s) uid of
        Some _ \<Rightarrow> done_step s
      | None \<Rightarrow>
          (let st = ss_settings s
           in case new_tracker (se_stability_history st) (ss_threshold s) 1200
                     (of_int (se_pause_threshold_ms st)) (se_max_source_chars st)
                     (settings_weights st) (se_hold_partial_tail st) of
                Inl e \<Rightarrow> (s, Inl e)
              | Inr tr \<Rightarrow>
                  done_step (put_utterance uid
                    \<lparr>ut_tracker = tr, ut_speaker = ev_speaker_id ev, ut_text = [], ut_stable_end = 0,
                     ut_selected_end = 0, ut_revision = 0, ut_sequence = 0, ut_final = False,
                     ut_pause = None, ut_created_at = now, ut_changed_at = now,
                     ut_buffer_since = now, ut_incomplete = False\<rparr> s)))"

definition event_confidences :: "unidb \<Rightarrow> asr_event \<Rightarrow> conf_arg" where
  "event_confidences uc ev =
     (let tokens = tokenize uc (ev_text ev)
      in if ev_tokens ev \<noteq> [] \<and> length (ev_tokens ev) = length tokens
            \<and> list_all2 (\<lambda>a b. py_strip uc (at_text a) = tk_text b) (ev_tokens ev) tokens
         then ConfSeq (map (\<lambda>k. case at_confidence k of None \<Rightarrow> POther | Some c \<Rightarrow> PNum (Fin c)) (ev_tokens ev))
         else NoConf)"

text \<open>Bookkeeping before the tracker sees the hypothesis.\<close>

definition note_event :: "rat \<Rightarrow> ustring \<Rightarrow> asr_event \<Rightarrow> session \<Rightarrow> session" where
  "note_event now uid ev s =
     (let s1 = (if ev_utterance_id ev = None then s\<lparr>ss_auto_id := Some uid\<rparr> else s);
          s2 = metric_inc ''asr_events'' (touch now (s1\<lparr>ss_last_sequence := ev_sequence ev\<rparr>))
      in if ss_first_asr s2 = None then s2\<lparr>ss_first_asr := Some now\<rparr> else s2)"

definition update_utterance :: "rat \<Rightarrow> asr_event \<Rightarrow> nat \<Rightarrow> utterance \<Rightarrow> utterance" where
  "update_utterance now ev stable_end u =
     (let u1 = (if ev_text ev \<noteq> ut_text u
                then u\<lparr>ut_revision := ut_revision u + 1, ut_changed_at := now, ut_incomplete := False\<rparr>
                else u)
      in u1\<lparr>ut_text := ev_text ev, ut_final := ev_is_final ev, ut_sequence := ev_sequence ev,
             ut_pause := ev_pause_ms ev, ut_stable_end := stable_end\<rparr>)"

text \<open>The loop over the old segments that settles them when a final arrives.\<close>

definition settle_old :: "unidb \<Rightarrow> rat \<Rightarrow> bool \<Rightarrow> ustring \<Rightarrow> session \<Rightarrow> unit step" where
  "settle_old uc now final gid s =
     (case find_segment gid s of
        None \<Rightarrow> done_step s
      | Some g \<Rightarrow>
          andthen
            (if final \<and> sg_translation g \<noteq> [] \<and> \<not> sg_committed g
             then andthen (segment_ready now gid s) (\<lambda>s1 r.
                    if r then commit_segment uc now gid s1 else done_step s1)
             else done_step s)
            (\<lambda>s2 _.
               if final \<and> (case find_segment gid s2 of None \<Rightarrow> False | Some x \<Rightarrow> sg_status x = SegFailed)
               then done_step (metric_inc ''retried_jobs''
                      (map_segment gid (\<lambda>x. x\<lparr>sg_status := SegReady\<rparr>) s2))
               else done_step s2))"

fun for_each :: "('a \<Rightarrow> session \<Rightarrow> unit step) \<Rightarrow> 'a list \<Rightarrow> session \<Rightarrow> unit step" where
  "for_each f [] s = done_step s"
| "for_each f (x # xs) s = andthen (f x s) (\<lambda>s1 _. for_each f xs s1)"

text \<open>
  Everything after the tracker accepted the hypothesis without a pending conflict: \<open>adopt_text\<close> is
  the part after the rollback, \<open>old\<close> are the segments before it.
\<close>

definition adopt_text ::
    "unidb \<Rightarrow> nat option \<Rightarrow> rat \<Rightarrow> ustring \<Rightarrow> asr_event \<Rightarrow> stability \<Rightarrow> segment list \<Rightarrow> session \<Rightarrow> unit step" where
  "adopt_text uc current now uid ev st old s =
     (case map_of (ss_utterances s) uid of
        None \<Rightarrow> (s, Inl KeyError)
      | Some u \<Rightarrow>
          (let u1 = update_utterance now ev (st_char_end st) u
           in case commit_prefix uc (ut_tracker u1) (Fin now) (int (st_char_end st)) (ev_is_final ev) of
                (tr, r) \<Rightarrow>
                  (let s1 = put_utterance uid (u1\<lparr>ut_tracker := tr\<rparr>) s
                   in case r of
                        Inl e \<Rightarrow> (s1, Inl e)
                      | Inr _ \<Rightarrow>
                          (let s2 = s1\<lparr>ss_revision := ss_revision s1 + 1\<rparr>;
                               s3 = emit_snapshot uc now ''session_state'' s2;
                               s4 = arm current now uid
                                      (if ev_is_final ev then 0
                                       else of_int (se_translation_debounce_ms (ss_settings s3)) / 1000) s3
                           in for_each (settle_old uc now (ev_is_final ev)) (map sg_id old) s4))))"

definition apply_hypothesis ::
    "unidb \<Rightarrow> nat option \<Rightarrow> rat \<Rightarrow> ustring \<Rightarrow> asr_event \<Rightarrow> stability \<Rightarrow> session \<Rightarrow> unit step" where
  "apply_hypothesis uc current now uid ev st s =
     (case map_of (ss_utterances s) uid of
        None \<Rightarrow> (s, Inl KeyError)
      | Some u \<Rightarrow>
          (let old = segments_of uid s
           in case plan_revision uc (ut_text u) (ev_text ev) (map segment_span old) of
                Inl e \<Rightarrow> (s, Inl e)
              | Inr plan \<Rightarrow>
                  andthen
                    (if rp_index plan < length old
                     then rollback uc current now (segment_index (sg_id (old ! rp_index plan)) s) s
                     else done_step s)
                    (\<lambda>s1 _. adopt_text uc current now uid ev st old s1)))"

text \<open>From the tracker's observation on; \<open>s\<close> already holds the utterance and the event's bookkeeping.\<close>

definition observe_event ::
    "unidb \<Rightarrow> nat option \<Rightarrow> rat \<Rightarrow> rat \<Rightarrow> ustring \<Rightarrow> asr_event \<Rightarrow> session \<Rightarrow> unit step" where
  "observe_event uc current started now uid ev s =
     (case map_of (ss_utterances s) uid of
        None \<Rightarrow> (s, Inl KeyError)
      | Some u \<Rightarrow>
          (case observe uc (ut_tracker u) (Fin now) (ev_text ev) (ev_sequence ev) (ev_is_final ev)
                  (event_confidences uc ev)
                  (case ev_pause_ms ev of None \<Rightarrow> POther | Some p \<Rightarrow> PNum (Fin p)) of
             (tr, r) \<Rightarrow>
               (let s1 = put_utterance uid (u\<lparr>ut_tracker := tr\<rparr>) s
                in case r of
                     Inl e \<Rightarrow> (s1, Inl e)
                   | Inr st \<Rightarrow>
                       if st_conflict st \<and> \<not> ev_is_final ev
                       then done_step (emit_error now ''SOURCE_RECONCILIATION_PENDING''
                              ''A committed prefix changed; waiting for final ASR confirmation'' s1)
                       else andthen (apply_hypothesis uc current now uid ev st s1) (\<lambda>s2 _.
                              done_step (metric_obs ''asr_processing_ms'' ((now - started) * 1000) s2)))))"

definition ingest :: "unidb \<Rightarrow> nat option \<Rightarrow> rat \<Rightarrow> rat \<Rightarrow> asr_event \<Rightarrow> session \<Rightarrow> unit step" where
  "ingest uc current started now ev s =
     andthen (check_event s ev) (\<lambda>s1 uid.
     andthen (ensure_utterance now s1 uid ev) (\<lambda>s2 _.
       observe_event uc current started now uid ev (note_event now uid ev s2)))"

end
