(* ===== verification/SessionSelect.thy ===== *)
theory SessionSelect
  imports SessionHandlers
begin

text \<open>
  Semantic selection of \<open>TranslationSession\<close> (\<^verbatim>\<open>src/app/session/state.py\<close>): \<open>_select_utterance\<close>,
  \<open>_evaluate\<close>, and the bodies of the two timer tasks. The selection loop terminates because every
  round that goes on moves the selected end of the utterance forward.
\<close>

subsection \<open>One round of the selection loop\<close>

text \<open>\<open>"\n".join(s.source for s in self.segments[-count:]) if count else ""\<close>\<close>

definition selection_context :: "session \<Rightarrow> ustring" where
  "selection_context s =
     (let count = nat (se_context_segments (ss_settings s))
      in if count \<noteq> 0
         then py_join [10] (map sg_source (drop (length (ss_segments s) - count) (ss_segments s)))
         else [])"

text \<open>The branch without a WRITE: report an unfinished source or look again later.\<close>

definition hold_source ::
    "nat option \<Rightarrow> rat \<Rightarrow> ustring \<Rightarrow> rat \<Rightarrow> utterance \<Rightarrow> session \<Rightarrow> session \<times> bool" where
  "hold_source current now uid age_ms u s =
     (let st = ss_settings s
      in if ut_final u \<or> of_int (se_max_buffer_age_ms st) \<le> age_ms
         then
           (if ut_incomplete u then (s, True)
            else (put_utterance uid (u\<lparr>ut_incomplete := True\<rparr>)
                    (metric_inc ''incomplete_source''
                      (emit_error now ''INCOMPLETE_SOURCE''
                        ''Unfinished source retained; no forced fragment translation'' s)), True))
         else (arm current now uid (min (1 / 2) (of_int (se_max_segment_latency_ms st) / 1000)) s,
               ut_incomplete u))"

text \<open>The branch with a WRITE: a new segment is cut and the selected end moves to its end.\<close>

definition cut_segment :: "rat \<Rightarrow> ustring \<Rightarrow> utterance \<Rightarrow> candidate \<Rightarrow> session \<Rightarrow> unit step" where
  "cut_segment now uid u c s =
     (let st = ss_settings s;
          s1 = s\<lparr>ss_next_segment := Suc (ss_next_segment s)\<rparr>
      in case new_committer (se_stability_count st) (of_int (se_commit_delay_ms st)) of
           Inl e \<Rightarrow> (s1, Inl e)
         | Inr dc \<Rightarrow>
             (let g = \<lparr>sg_id = segment_name (ss_next_segment s1), sg_utterance = uid,
                       sg_start = sc_start c, sg_end = sc_end c,
                       sg_source = slice (sc_start c) (sc_end c) (ut_text u),
                       sg_source_revision = ut_revision u, sg_speaker = ut_speaker u,
                       sg_sequence = ut_sequence u, sg_final_source = ut_final u,
                       sg_committer = dc, sg_created_at = now, sg_translation = [],
                       sg_committed = False, sg_status = SegReady\<rparr>;
                  s2 = s1\<lparr>ss_segments := ss_segments s1 @ [g]\<rparr>;
                  s3 = put_utterance uid (u\<lparr>ut_selected_end := sc_end c, ut_buffer_since := now\<rparr>) s2
              in done_step (metric_obs ''arrival_to_segmentation_ms'' ((now - ut_changed_at u) * 1000) s3)))"

text \<open>\<open>Some b\<close>: the loop returns \<open>b\<close>; \<open>None\<close>: another round.\<close>

definition select_round ::
    "unidb \<Rightarrow> nat option \<Rightarrow> rat \<Rightarrow> ustring \<Rightarrow> stability \<Rightarrow> session \<Rightarrow> bool option step" where
  "select_round uc current now uid st s =
     (case map_of (ss_utterances s) uid of
        None \<Rightarrow> (s, Inl KeyError)
      | Some u \<Rightarrow>
          if py_strip uc (drop (ut_selected_end u) (ut_text u)) = [] then (s, Inr (Some True))
          else if se_max_segments (ss_settings s) \<le> int (length (ss_segments s))
            then (emit_error now ''SESSION_LIMIT'' ''Segment limit reached; start a new session'' s,
                  Inr (Some False))
          else if se_max_pending_per_session (ss_settings s) \<le> int (waiting_count s)
            then (arm current now uid (1 / 5) (metric_inc ''backpressure_events'' s), Inr (Some False))
          else
            (case select_segment uc (ut_text u) (ut_stable_end u) (ut_selected_end u) (selection_context s)
                    (Some (co_source_language (ss_config s)))
                    (nat (se_max_segment_tokens (ss_settings s)))
                    (se_allow_oversize_complete (ss_settings s)) of
               Inl e \<Rightarrow> (s, Inl e)
             | Inr cand \<Rightarrow>
                 (let age_ms = (now - ut_buffer_since u) * 1000;
                      d = decide (ss_policy s) cand (st_score st) (st_count st) age_ms (ut_pause u)
                            (ut_final u) (st_conflict st)
                  in case (if pd_action d = WRITE then pd_segment d else None) of
                       None \<Rightarrow> (case hold_source current now uid age_ms u s of (s1, b) \<Rightarrow> (s1, Inr (Some b)))
                     | Some c \<Rightarrow> andthen (cut_segment now uid u c s) (\<lambda>s1 _. (s1, Inr None)))))"

text \<open>What a round that goes on has done.\<close>

lemma cut_segment_utterances:
  "cut_segment now uid u c s = (s1, Inr ()) \<Longrightarrow>
     ss_utterances s1 = al_put uid (u\<lparr>ut_selected_end := sc_end c, ut_buffer_since := now\<rparr>) (ss_utterances s)"
  by (auto simp: cut_segment_def done_step_def metric_obs_def put_utterance_def Let_def split: sum.splits)

lemma select_round_goes_on:
  assumes "select_round uc current now uid st s = (s1, Inr None)"
  obtains u c where "map_of (ss_utterances s) uid = Some u"
    and "select_segment uc (ut_text u) (ut_stable_end u) (ut_selected_end u) (selection_context s)
           (Some (co_source_language (ss_config s))) (nat (se_max_segment_tokens (ss_settings s)))
           (se_allow_oversize_complete (ss_settings s)) = Inr (Some c)"
    and "\<not> st_conflict st" and "sc_count c \<le> st_count st"
    and "cut_segment now uid u c s = (s1, Inr ())"
proof -
  obtain u where u: "map_of (ss_utterances s) uid = Some u"
    using assms by (auto simp: select_round_def split: option.splits)
  from assms u obtain cand where cand:
    "select_segment uc (ut_text u) (ut_stable_end u) (ut_selected_end u) (selection_context s)
       (Some (co_source_language (ss_config s))) (nat (se_max_segment_tokens (ss_settings s)))
       (se_allow_oversize_complete (ss_settings s)) = Inr cand"
    by (auto simp: select_round_def split: sum.splits if_splits)
  define d where "d = decide (ss_policy s) cand (st_score st) (st_count st)
     ((now - ut_buffer_since u) * 1000) (ut_pause u) (ut_final u) (st_conflict st)"
  have "pd_action d = WRITE" and cut: "\<exists>c. pd_segment d = Some c \<and> cut_segment now uid u c s = (s1, Inr ())"
    using assms u cand
    by (auto simp: select_round_def Let_def andthen_def d_def split: if_splits option.splits sum.splits prod.splits)
  from this(1) obtain c where "cand = Some c" "pd_segment d = Some c" "\<not> st_conflict st" "sc_count c \<le> st_count st"
    unfolding d_def by (rule decide_write)
  then show ?thesis using that u cand cut by simp
qed

definition unselected :: "session \<Rightarrow> ustring \<Rightarrow> nat" where
  "unselected s uid = (case map_of (ss_utterances s) uid of None \<Rightarrow> 0
     | Some u \<Rightarrow> length (ut_text u) - ut_selected_end u)"

lemma select_round_progress:
  assumes "select_round uc current now uid st s = (s1, Inr None)"
  shows "unselected s1 uid < unselected s uid"
proof -
  obtain u c where u: "map_of (ss_utterances s) uid = Some u"
    and sel: "select_segment uc (ut_text u) (ut_stable_end u) (ut_selected_end u) (selection_context s)
           (Some (co_source_language (ss_config s))) (nat (se_max_segment_tokens (ss_settings s)))
           (se_allow_oversize_complete (ss_settings s)) = Inr (Some c)"
    and cut: "cut_segment now uid u c s = (s1, Inr ())"
    using assms by (rule select_round_goes_on)
  have "ut_selected_end u < sc_end c" "sc_end c \<le> length (ut_text u)"
    using sel segment_prefix_span by (fastforce simp: select_segment_def split: if_splits)+
  then show ?thesis using u cut_segment_utterances [OF cut] by (simp add: unselected_def)
qed

subsection \<open>The loop and its callers\<close>

function select_loop ::
    "unidb \<Rightarrow> nat option \<Rightarrow> rat \<Rightarrow> ustring \<Rightarrow> stability \<Rightarrow> session \<Rightarrow> bool step" where
  "select_loop uc current now uid st s =
     (case select_round uc current now uid st s of
        (s1, Inl e) \<Rightarrow> (s1, Inl e)
      | (s1, Inr (Some b)) \<Rightarrow> (s1, Inr b)
      | (s1, Inr None) \<Rightarrow> select_loop uc current now uid st s1)"
  by pat_completeness auto
termination
  by (relation "measure (\<lambda>(uc, current, now, uid, st, s). unselected s uid)")
     (auto dest: select_round_progress [OF sym])

declare select_loop.simps [simp del]

definition select_utterance :: "unidb \<Rightarrow> nat option \<Rightarrow> rat \<Rightarrow> ustring \<Rightarrow> session \<Rightarrow> bool step" where
  "select_utterance uc current now uid s =
     (case map_of (ss_utterances s) uid of
        None \<Rightarrow> (s, Inl KeyError)
      | Some u \<Rightarrow>
          (case refresh uc (ut_tracker u) (Fin now) of
             (tr, Inl e) \<Rightarrow> (put_utterance uid (u\<lparr>ut_tracker := tr\<rparr>) s, Inl e)
           | (tr, Inr None) \<Rightarrow> (put_utterance uid (u\<lparr>ut_tracker := tr\<rparr>) s, Inr False)
           | (tr, Inr (Some st)) \<Rightarrow>
               if st_conflict st
               then select_loop uc current now uid st (put_utterance uid (u\<lparr>ut_tracker := tr\<rparr>) s)
               else
                 (case commit_prefix uc tr (Fin now) (int (st_char_end st)) (ut_final u) of
                    (tr2, r) \<Rightarrow>
                      (let s1 = put_utterance uid (u\<lparr>ut_tracker := tr2, ut_stable_end := st_char_end st\<rparr>) s
                       in case r of Inl e \<Rightarrow> (s1, Inl e)
                          | Inr _ \<Rightarrow> select_loop uc current now uid st s1))))"

text \<open>The loop of \<open>_evaluate\<close> over the utterances in arrival order, with its \<open>continue\<close> and \<open>break\<close>.\<close>

fun visit_utterances :: "unidb \<Rightarrow> nat option \<Rightarrow> rat \<Rightarrow> ustring list \<Rightarrow> session \<Rightarrow> unit step" where
  "visit_utterances uc current now [] s = done_step s"
| "visit_utterances uc current now (uid # rest) s =
     (case map_of (ss_utterances s) uid of
        None \<Rightarrow> visit_utterances uc current now rest s
      | Some u \<Rightarrow>
          if py_strip uc (drop (ut_selected_end u) (ut_text u)) = [] \<or> ut_incomplete u
          then visit_utterances uc current now rest s
          else andthen (select_utterance uc current now uid s) (\<lambda>s1 go.
                 if go then visit_utterances uc current now rest s1 else done_step s1))"

definition evaluate ::
    "unidb \<Rightarrow> nat option \<Rightarrow> rat \<Rightarrow> rat \<Rightarrow> ustring \<Rightarrow> int \<Rightarrow> session \<Rightarrow> unit step" where
  "evaluate uc current started now uid generation s =
     (if ss_closed s \<or> generation \<noteq> ss_generation s \<or> map_of (ss_utterances s) uid = None then done_step s
      else andthen (visit_utterances uc current now (map fst (ss_utterances s)) s) (\<lambda>s1 _.
             dispatch_next uc current now
               (metric_obs ''segment_decision_ms'' ((now - started) * 1000) s1)))"

definition fire_commit :: "unidb \<Rightarrow> rat \<Rightarrow> ustring \<Rightarrow> int \<Rightarrow> session \<Rightarrow> unit step" where
  "fire_commit uc now gid generation s =
     (if ss_closed s \<or> generation \<noteq> ss_generation s then done_step s
      else andthen (segment_ready now gid s) (\<lambda>s1 r.
             if r then commit_segment uc now gid s1 else done_step s1))"

text \<open>
  A timer task that wakes up. A failing evaluation is reported to the client; a failing commit ends
  only its own task. The task removes itself at the end.
\<close>

definition fire_timer :: "unidb \<Rightarrow> rat \<Rightarrow> rat \<Rightarrow> timer \<Rightarrow> session \<Rightarrow> session" where
  "fire_timer uc started now t s =
     finish_task t
       (case ti_kind t of
          EvaluateTimer uid \<Rightarrow>
            (case evaluate uc (Some (ti_id t)) started now uid (ti_generation t) s of
               (s1, Inl e) \<Rightarrow> emit_error now ''PIPELINE_ERROR''
                  ''Streaming policy failed; reset or retry the session''
                  (metric_inc ''pipeline_errors'' s1)
             | (s1, Inr _) \<Rightarrow> s1)
        | CommitTimer gid \<Rightarrow> fst (fire_commit uc now gid (ti_generation t) s))"

end
