(* ===== verification/SessionServe.thy ===== *)
theory SessionServe
  imports SessionSelect
begin

text \<open>
  The remaining handlers of \<open>TranslationSession\<close> (\<^verbatim>\<open>src/app/session/state.py\<close>): the scheduler's
  callback \<open>_result\<close>, the connection (\<open>attach\<close>, \<open>detach\<close>), configuration, glossary, \<open>reset\<close> and
  \<open>close\<close>.
\<close>

subsection \<open>Results of the scheduler\<close>

definition backend_errors :: "(string \<times> string) list" where
  "backend_errors =
     [(''timeout'', ''TRANSLATION_TIMEOUT''), (''transport_error'', ''BACKEND_UNAVAILABLE''),
      (''upstream_http_error'', ''BACKEND_UNAVAILABLE''), (''rate_limited'', ''BACKEND_RATE_LIMITED''),
      (''invalid_response'', ''BACKEND_INVALID_RESPONSE''),
      (''incomplete_response'', ''BACKEND_INCOMPLETE_RESPONSE''),
      (''response_too_large'', ''BACKEND_RESPONSE_LIMIT''), (''output_too_large'', ''BACKEND_RESPONSE_LIMIT''),
      (''input_too_large'', ''SOURCE_LIMIT'')]"

definition error_code :: "(string \<times> bool) option \<Rightarrow> string" where
  "error_code error =
     (case error of None \<Rightarrow> ''TRANSLATION_ERROR''
      | Some (code, _) \<Rightarrow>
          (case map_of backend_errors code of None \<Rightarrow> ''TRANSLATION_ERROR'' | Some c \<Rightarrow> c))"

text \<open>The test at the head of \<open>_result\<close>: the result belongs to the running attempt.\<close>

definition result_current :: "session \<Rightarrow> job \<Rightarrow> bool" where
  "result_current s j \<longleftrightarrow> \<not> ss_closed s \<and> jb_generation j = GenInt (ss_generation s)
     \<and> (case find_segment (jb_segment j) s of None \<Rightarrow> False
        | Some g \<Rightarrow> sg_source_revision g = jb_revision j \<and> sg_status g = SegRunning
            \<and> ss_active s = Some (sg_id g))"

definition translation_limit_hit :: "session \<Rightarrow> ustring \<Rightarrow> bool" where
  "translation_limit_hit s txt \<longleftrightarrow>
     se_max_translation_chars (ss_settings s)
       < int (sum_list (map (\<lambda>g. length (sg_translation g)) (ss_segments s)) + length txt)
     \<or> se_max_state_bytes (ss_settings s) < int (state_bytes s + utf8_len txt)"

definition first_result :: "rat \<Rightarrow> session \<Rightarrow> session" where
  "first_result now s =
     (if ss_first_translation s \<noteq> None then s
      else metric_obs ''first_translation_ms''
             ((now - (case ss_first_asr s of None \<Rightarrow> ss_created_at s
                      | Some t \<Rightarrow> if t = 0 then ss_created_at s else t)) * 1000)
             (s\<lparr>ss_first_translation := Some now\<rparr>))"

text \<open>The success branch: store the translation, propose the draft, publish, then settle.\<close>

definition store_translation :: "unidb \<Rightarrow> rat \<Rightarrow> ustring \<Rightarrow> ustring \<Rightarrow> session \<Rightarrow> unit step" where
  "store_translation uc now gid txt s =
     (case find_segment gid s of
        None \<Rightarrow> done_step s
      | Some g \<Rightarrow>
          (case propose uc (sg_committer g) (Fin now) (int (sg_start g)) (int (sg_end g)) (sg_source g) txt
                  (sg_source_revision g) (sg_final_source g) of
             (dc, r) \<Rightarrow>
               (let s1 = map_segment gid (\<lambda>x. x\<lparr>sg_translation := txt, sg_status := SegComplete,
                                               sg_committer := dc\<rparr>) s
                in case r of
                     Inl e \<Rightarrow> (s1, Inl e)
                   | Inr _ \<Rightarrow>
                       (let s2 = s1\<lparr>ss_revision := ss_revision s1 + 1\<rparr>;
                            s3 = emit_snapshot uc now ''translation_update'' s2;
                            s4 = first_result now s3;
                            s5 = metric_obs ''translation_end_to_end_ms'' ((now - sg_created_at g) * 1000) s4
                        in settle_segment uc now gid s5))))"

text \<open>Retained source is evaluated again after every result.\<close>

definition rearm_retained :: "unidb \<Rightarrow> rat \<Rightarrow> session \<Rightarrow> session" where
  "rearm_retained uc now s =
     foldl (\<lambda>t p. if py_strip uc (drop (ut_selected_end (snd p)) (ut_text (snd p))) \<noteq> []
                     \<and> \<not> ut_incomplete (snd p)
                  then arm None now (fst p) 0 t else t) s (ss_utterances s)"

definition result_handler ::
    "unidb \<Rightarrow> rat \<Rightarrow> job \<Rightarrow> translation_result option \<Rightarrow> (string \<times> bool) option \<Rightarrow> session \<Rightarrow> unit step" where
  "result_handler uc now j result error s =
     (if \<not> result_current s j then done_step (metric_inc ''discarded_stale_results'' s)
      else
        (let gid = jb_segment j;
             s1 = s\<lparr>ss_active := None\<rparr>;
             fail = map_segment gid (\<lambda>g. g\<lparr>sg_status := SegFailed\<rparr>)
         in andthen
              (case (if error \<noteq> None then None else result) of
                 None \<Rightarrow> done_step (emit_error now (error_code error)
                   ''Translation failed; source is retained and the session remains usable'' (fail s1))
               | Some r \<Rightarrow>
                   if translation_limit_hit s1 (re_text r)
                   then done_step (emit_error now ''SESSION_LIMIT''
                     ''Translation history limit reached; start a new session'' (fail s1))
                   else store_translation uc now gid (re_text r) s1)
              (\<lambda>s2 _. dispatch_next uc None now (rearm_retained uc now s2))))"

subsection \<open>Connection\<close>

definition settle_draft :: "unidb \<Rightarrow> rat \<Rightarrow> ustring \<Rightarrow> session \<Rightarrow> unit step" where
  "settle_draft uc now gid s =
     (case find_segment gid s of
        None \<Rightarrow> done_step s
      | Some g \<Rightarrow> if sg_translation g \<noteq> [] \<and> \<not> sg_committed g then settle_segment uc now gid s
                  else done_step s)"

definition attach :: "unidb \<Rightarrow> rat \<Rightarrow> session \<Rightarrow> unit step" where
  "attach uc now s =
     (if ss_queue s \<noteq> None \<or> ss_closed s then (s, Inl (ValueError ''SESSION_ALREADY_CONNECTED''))
      else
        (let s1 = emit_snapshot uc now ''session_state'' (touch now (s\<lparr>ss_queue := Some []\<rparr>));
             s2 = foldl (\<lambda>t p. arm None now (fst p) 0 t) s1 (ss_utterances s1)
         in andthen (for_each (settle_draft uc now) (map sg_id (ss_segments s2)) s2)
              (\<lambda>s3 _. dispatch_next uc None now s3)))"

definition detach :: "session \<Rightarrow> session" where
  "detach s =
     (let s1 = cancel_timers (s\<lparr>ss_queue := None, ss_generation := ss_generation s + 1\<rparr>)
      in s1\<lparr>ss_sched := cancel_session (ss_sched s1) (ss_id s1),
             ss_segments := map (\<lambda>g. if sg_status g = SegRunning then g\<lparr>sg_status := SegReady\<rparr> else g)
                              (ss_segments s1),
             ss_active := None\<rparr>)"

subsection \<open>Administration\<close>

definition configure :: "unidb \<Rightarrow> rat \<Rightarrow> session_config \<Rightarrow> session \<Rightarrow> unit step" where
  "configure uc now co s =
     (if ss_utterances s \<noteq> [] then (s, Inl (ValueError ''CONFIG_REQUIRES_RESET''))
      else andthen (set_config uc co s) (\<lambda>s1 _.
             done_step (emit_snapshot uc now ''session_state'' (touch now s1))))"

definition merge_glossary :: "glossary \<Rightarrow> glossary \<Rightarrow> glossary" where
  "merge_glossary old new = foldl (\<lambda>m p. al_put (fst p) (snd p) m) old new"

definition set_glossary :: "unidb \<Rightarrow> rat \<Rightarrow> glossary \<Rightarrow> session \<Rightarrow> unit step" where
  "set_glossary uc now entries s =
     (case validate_glossary uc (merge_glossary (ss_glossary s) entries) of
        Inl _ \<Rightarrow> (s, Inl (ValueError ''GLOSSARY_LIMIT''))
      | Inr merged \<Rightarrow> done_step (touch now (s\<lparr>ss_glossary := merged\<rparr>)))"

definition reset :: "unidb \<Rightarrow> rat \<Rightarrow> session \<Rightarrow> session" where
  "reset uc now s =
     (let s1 = cancel_timers (s\<lparr>ss_generation := ss_generation s + 1, ss_revision := ss_revision s + 1\<rparr>);
          s2 = s1\<lparr>ss_utterances := [], ss_segments := [], ss_context := context_replace (ss_context s1) [],
                  ss_auto_id := None, ss_active := None, ss_first_translation := None, ss_first_asr := None\<rparr>;
          s3 = s2\<lparr>ss_sched := cancel_session (ss_sched s2) (ss_id s2)\<rparr>
      in emit_snapshot uc now ''session_state'' (touch now s3))"

definition close_session :: "session \<Rightarrow> session" where
  "close_session s =
     (let s1 = cancel_timers (s\<lparr>ss_closed := True, ss_generation := ss_generation s + 1\<rparr>);
          s2 = s1\<lparr>ss_sched := cancel_session (ss_sched s1) (ss_id s1)\<rparr>
      in case ss_queue s2 of None \<Rightarrow> s2 | Some _ \<Rightarrow> s2\<lparr>ss_queue := Some [None]\<rparr>)"

end
