(* ===== verification/SchedulerInv.thy ===== *)
theory SchedulerInv
  imports Scheduler
begin

text \<open>
  The invariant of the scheduler, its preservation by every step, and the reachable states.
  The locale \<open>job_queue\<close>, in \<open>SchedulerProps\<close>, is the interface the session relies on.
\<close>

subsection \<open>Counting pending entries\<close>

lemma pending_total_put:
  "distinct (map fst m) \<Longrightarrow>
     pending_total (al_put k v m) + length (case map_of m k of None \<Rightarrow> [] | Some q \<Rightarrow> q)
       = pending_total m + length v"
  by (induction k v m rule: al_put.induct) (auto simp: pending_total_def)

lemma al_del_absent: "k \<notin> set (map fst m) \<Longrightarrow> al_del k m = m"
  by (induction m) (auto simp: al_del_def)

lemma pending_total_del:
  "distinct (map fst m) \<Longrightarrow>
     pending_total (al_del k m) + length (case map_of m k of None \<Rightarrow> [] | Some q \<Rightarrow> q) = pending_total m"
proof (induction m)
  case (Cons p m)
  show ?case
  proof (cases "fst p = k")
    case True
    then have "k \<notin> set (map fst m)" using Cons.prems by auto
    then have "al_del k (p # m) = m" using True al_del_absent [of k m] by (simp add: al_del_def)
    then show ?thesis using True by (cases p) (simp add: pending_total_def)
  next
    case False
    then show ?thesis using Cons by (cases p) (auto simp: al_del_def pending_total_def)
  qed
qed (simp add: pending_total_def al_del_def)

lemma length_coalesce_le: "length (coalesce p n es) \<le> length es"
  by (induction es) (auto intro: le_trans [OF length_filter_le])

lemma length_coalesce:
  "filter p es \<noteq> [] \<Longrightarrow> length (coalesce p n es) = length es - length (filter p es) + 1"
proof (induction es)
  case (Cons e es)
  show ?case
  proof (cases "p e")
    case True
    then show ?thesis using sum_length_filter_compl [of p es] by simp
  next
    case False
    then show ?thesis using Cons length_filter_le [of p es] by (simp add: Suc_diff_le)
  qed
qed simp

lemma set_coalesce: "filter p es \<noteq> [] \<Longrightarrow> set (coalesce p n es) = insert n {e \<in> set es. \<not> p e}"
  by (induction es) (auto split: if_splits)

lemma coalesce_keeps_others: "subseq (filter (\<lambda>e. \<not> p e) es) (coalesce p n es)"
  by (induction es) auto

subsection \<open>Invariant\<close>

text \<open>
  The shape of the maps: \<open>P\<close> pending queues, \<open>A\<close> active jobs. Every session with pending work is
  either ready or active (no lost wake-up), a ready session has work and no active job.
\<close>

definition queue_shape ::
    "(ustring \<rightharpoonup> sched_entry list) \<Rightarrow> (ustring \<rightharpoonup> active_job) \<Rightarrow> ustring list \<Rightarrow> ustring set
       \<Rightarrow> bool \<Rightarrow> int \<Rightarrow> nat \<Rightarrow> bool" where
  "queue_shape P A ready ready_set closing limit next_id \<longleftrightarrow>
     distinct ready \<and> ready_set = set ready \<and> (closing \<longrightarrow> P = Map.empty)
     \<and> (\<forall>sid q. P sid = Some q \<longrightarrow>
          q \<noteq> [] \<and> int (length q) \<le> limit \<and> (\<forall>e \<in> set q. jb_session (en_job e) = sid))
     \<and> (\<forall>sid \<in> set ready. P sid \<noteq> None \<and> A sid = None)
     \<and> (\<forall>sid. P sid \<noteq> None \<longrightarrow> sid \<in> set ready \<or> A sid \<noteq> None)
     \<and> (\<forall>sid a. A sid = Some a \<longrightarrow> ac_id a < next_id \<and> jb_session (en_job (ac_entry a)) = sid)"

definition sched_shape :: "scheduler \<Rightarrow> bool" where
  "sched_shape sh \<longleftrightarrow> queue_shape (map_of (sh_pending sh)) (map_of (sh_active sh)) (sh_ready sh)
     (sh_ready_set sh) (sh_closing sh) (sh_max_per_session sh) (sh_next_active sh)"

definition sched_maps :: "scheduler \<Rightarrow> bool" where
  "sched_maps sh \<longleftrightarrow> distinct (map fst (sh_pending sh)) \<and> distinct (map fst (sh_active sh))"

definition sched_capacity :: "scheduler \<Rightarrow> bool" where
  "sched_capacity sh \<longleftrightarrow> 1 \<le> sh_workers sh \<and> 1 \<le> sh_max_per_session sh
     \<and> int (pending_count sh) \<le> sh_max_pending sh"

definition sched_inv :: "scheduler \<Rightarrow> bool" where
  "sched_inv sh \<longleftrightarrow> sched_maps sh \<and> sched_capacity sh \<and> sched_shape sh"

lemma sched_invI [wf_intros]:
  "sched_maps sh \<Longrightarrow> sched_capacity sh \<Longrightarrow> sched_shape sh \<Longrightarrow> sched_inv sh"
  by (simp add: sched_inv_def)

lemma new_scheduler_inv: "new_scheduler w p s m = Inr sh \<Longrightarrow> sched_inv sh"
  by (auto simp: new_scheduler_def sched_inv_def sched_maps_def sched_capacity_def sched_shape_def
      queue_shape_def pending_count_def pending_total_def split: if_splits)

text \<open>Fields the invariant does not read.\<close>

lemma record_metric_frame [simp]:
  "sh_pending (record_metric n v sh) = sh_pending sh"
  "sh_ready (record_metric n v sh) = sh_ready sh"
  "sh_ready_set (record_metric n v sh) = sh_ready_set sh"
  "sh_active (record_metric n v sh) = sh_active sh"
  "sh_closing (record_metric n v sh) = sh_closing sh"
  "sh_workers (record_metric n v sh) = sh_workers sh"
  "sh_max_pending (record_metric n v sh) = sh_max_pending sh"
  "sh_max_per_session (record_metric n v sh) = sh_max_per_session sh"
  "sh_next_active (record_metric n v sh) = sh_next_active sh"
  by (simp_all add: record_metric_def)

lemma record_observation_frame [simp]:
  "sh_pending (record_observation n f sh) = sh_pending sh"
  "sh_ready (record_observation n f sh) = sh_ready sh"
  "sh_ready_set (record_observation n f sh) = sh_ready_set sh"
  "sh_active (record_observation n f sh) = sh_active sh"
  "sh_closing (record_observation n f sh) = sh_closing sh"
  "sh_workers (record_observation n f sh) = sh_workers sh"
  "sh_max_pending (record_observation n f sh) = sh_max_pending sh"
  "sh_max_per_session (record_observation n f sh) = sh_max_per_session sh"
  "sh_next_active (record_observation n f sh) = sh_next_active sh"
  by (simp_all add: record_observation_def)

lemma sched_inv_cong:
  assumes "sh_pending a = sh_pending b" "sh_active a = sh_active b" "sh_ready a = sh_ready b"
    "sh_ready_set a = sh_ready_set b" "sh_closing a = sh_closing b" "sh_workers a = sh_workers b"
    "sh_max_pending a = sh_max_pending b" "sh_max_per_session a = sh_max_per_session b"
    "sh_next_active a = sh_next_active b"
  shows "sched_inv a = sched_inv b"
  using assms by (simp add: sched_inv_def sched_maps_def sched_capacity_def sched_shape_def pending_count_def)

lemma sched_inv_metrics [simp]:
  "sched_inv (record_metric n v sh) = sched_inv sh"
  "sched_inv (record_observation n f sh) = sched_inv sh"
  "sched_inv (sh\<lparr>sh_started := b\<rparr>) = sched_inv sh"
  by (rule sched_inv_cong; simp)+

lemma queue_shape_active:
  "queue_shape P A r rs c l n \<Longrightarrow> A sid = Some a \<Longrightarrow> ac_id a' < n \<Longrightarrow> ac_entry a' = ac_entry a \<Longrightarrow>
     queue_shape P (A(sid \<mapsto> a')) r rs c l n"
  by (auto simp: queue_shape_def)

lemma queue_shape_drop:
  "queue_shape P A r rs c l n \<Longrightarrow>
     queue_shape (P(sid := None)) A (filter (\<lambda>s. s \<noteq> sid) r) (rs - {sid}) c l n"
  by (auto simp: queue_shape_def)

lemma queue_shape_shrink:
  "queue_shape P A r rs c l n \<Longrightarrow> P sid = Some q \<Longrightarrow> set q' \<subseteq> set q \<Longrightarrow> q' \<noteq> [] \<Longrightarrow> length q' \<le> length q \<Longrightarrow>
     queue_shape (P(sid \<mapsto> q')) A r rs c l n"
  by (force simp: queue_shape_def)

lemma queue_shape_enqueue:
  assumes "queue_shape P A r rs False l n" and "q' \<noteq> []" and "int (length q') \<le> l"
    and "\<forall>e \<in> set q'. jb_session (en_job e) = sid"
  shows "queue_shape (P(sid \<mapsto> q')) A
      (if A sid = None \<and> sid \<notin> rs then r @ [sid] else r)
      (if A sid = None \<and> sid \<notin> rs then insert sid rs else rs) False l n"
  using assms by (auto simp: queue_shape_def)

lemma queue_shape_release:
  assumes "queue_shape P A r rs c l n"
  shows "queue_shape P (A(sid := None))
      (if P sid \<noteq> None \<and> sid \<notin> rs \<and> \<not> c then r @ [sid] else r)
      (if P sid \<noteq> None \<and> sid \<notin> rs \<and> \<not> c then insert sid rs else rs) c l n"
  using assms by (auto simp: queue_shape_def)

lemma queue_shape_take:
  assumes "queue_shape P A (sid # r) rs c l n" and "P sid = Some (e # q)"
    and "ac_id a = n" and "ac_entry a = e"
  shows "queue_shape (P(sid := (if q = [] then None else Some q))) (A(sid \<mapsto> a)) r (rs - {sid}) c l (Suc n)"
proof -
  have d: "distinct (sid # r)" "rs = set (sid # r)" "\<not> c"
    and P: "\<And>x xs. P x = Some xs \<Longrightarrow> xs \<noteq> [] \<and> int (length xs) \<le> l \<and> (\<forall>e \<in> set xs. jb_session (en_job e) = x)"
    and R: "\<And>x. x \<in> set (sid # r) \<Longrightarrow> P x \<noteq> None \<and> A x = None"
    and W: "\<And>x. P x \<noteq> None \<Longrightarrow> x \<in> set (sid # r) \<or> A x \<noteq> None"
    and I: "\<And>x y. A x = Some y \<Longrightarrow> ac_id y < n \<and> jb_session (en_job (ac_entry y)) = x"
    using assms(1,2) unfolding queue_shape_def by auto
  from P [OF assms(2)] have q: "int (length q) \<le> l" "\<forall>x \<in> set q. jb_session (en_job x) = sid"
    "jb_session (en_job e) = sid" by auto
  show ?thesis
    unfolding queue_shape_def
  proof (intro conjI allI ballI impI)
    show "distinct r" "rs - {sid} = set r" using d by auto
  next
    assume c
    with d show "P(sid := if q = [] then None else Some q) = Map.empty" by simp
  next
    fix x xs assume "(P(sid := if q = [] then None else Some q)) x = Some xs"
    then show "xs \<noteq> []" "int (length xs) \<le> l" "\<And>e. e \<in> set xs \<Longrightarrow> jb_session (en_job e) = x"
      using P [of x xs] q by (auto split: if_splits)
  next
    fix x assume "x \<in> set r"
    then show "(P(sid := if q = [] then None else Some q)) x \<noteq> None" "(A(sid \<mapsto> a)) x = None"
      using R [of x] d by auto
  next
    fix x assume "(P(sid := if q = [] then None else Some q)) x \<noteq> None"
    then show "x \<in> set r \<or> (A(sid \<mapsto> a)) x \<noteq> None" using W [of x] by (auto split: if_splits)
  next
    fix x y assume "(A(sid \<mapsto> a)) x = Some y"
    then show "ac_id y < Suc n" "jb_session (en_job (ac_entry y)) = x"
      using I [of x y] assms(3,4) q by (auto split: if_splits)
  qed
qed

lemma queue_shape_id: "queue_shape P A r rs c l n \<Longrightarrow> A sid = Some a \<Longrightarrow> ac_id a < n"
  by (simp add: queue_shape_def)

subsection \<open>Every operation keeps it\<close>

lemma sched_inv_cancel_active:
  assumes "sched_inv sh" and "map_of (sh_active sh) sid = Some a"
  shows "sched_inv (cancel_active sid a sh)"
proof (cases "ac_stale a")
  case False
  let ?sh = "sh\<lparr>sh_active := al_put sid (cancelled_active a) (sh_active sh)\<rparr>"
  have shape: "queue_shape (map_of (sh_pending sh)) (map_of (sh_active sh)) (sh_ready sh) (sh_ready_set sh)
      (sh_closing sh) (sh_max_per_session sh) (sh_next_active sh)"
    using assms by (simp add: sched_inv_def sched_shape_def)
  have "sched_shape ?sh"
    using queue_shape_active [OF shape assms(2), of "cancelled_active a"] queue_shape_id [OF shape assms(2)]
    by (simp add: sched_shape_def cancelled_active_def)
  moreover have "sched_maps ?sh" "sched_capacity ?sh"
    using assms(1) by (simp_all add: sched_inv_def sched_maps_def sched_capacity_def pending_count_def distinct_al_put)
  ultimately have "sched_inv ?sh" by (rule sched_invI [rotated 2])
  then show ?thesis using False by (simp add: cancel_active_def)
qed (use assms in \<open>simp add: cancel_active_def\<close>)

lemma pending_total_del_le:
  "distinct (map fst m) \<Longrightarrow> pending_total (al_del k m) \<le> pending_total m"
  using pending_total_del [of m k] by linarith

lemma sched_inv_drop:
  assumes "sched_inv sh"
  shows "sched_inv (forget_ready sid (sh\<lparr>sh_pending := al_del sid (sh_pending sh)\<rparr>))" (is "sched_inv ?sh")
proof (rule sched_invI)
  show "sched_maps ?sh" using assms by (simp add: sched_inv_def sched_maps_def forget_ready_def distinct_al_del)
  show "sched_capacity ?sh"
    using assms pending_total_del_le [of "sh_pending sh" sid]
    by (simp add: sched_inv_def sched_maps_def sched_capacity_def pending_count_def forget_ready_def)
  show "sched_shape ?sh"
    using assms queue_shape_drop by (auto simp: sched_inv_def sched_shape_def forget_ready_def)
qed

lemma sched_inv_cancel_session: assumes "sched_inv sh" shows "sched_inv (cancel_session sh sid)"
  using sched_inv_drop [OF assms, of sid] sched_inv_cancel_active
  by (auto simp: cancel_session_def Let_def split: option.split)

lemma sched_inv_invalidate: assumes "sched_inv sh" shows "sched_inv (fst (invalidate sh sid ids))"
proof -
  have shrink: "sched_inv (sh\<lparr>sh_pending := al_put sid r (sh_pending sh)\<rparr>)" (is "sched_inv ?sh")
    if q: "map_of (sh_pending sh) sid = Some q" and r: "r = filter f q" "r \<noteq> []" for q r f
  proof (rule sched_invI)
    show "sched_maps ?sh" using assms by (simp add: sched_inv_def sched_maps_def distinct_al_put)
    have "pending_total (al_put sid r (sh_pending sh)) + length q = pending_total (sh_pending sh) + length r"
      using pending_total_put [of "sh_pending sh" sid r] assms q by (simp add: sched_inv_def sched_maps_def)
    moreover have "length r \<le> length q" using r by simp
    ultimately show "sched_capacity ?sh"
      using assms by (simp add: sched_inv_def sched_capacity_def pending_count_def)
    show "sched_shape ?sh" using assms q r
      queue_shape_shrink [of "map_of (sh_pending sh)" "map_of (sh_active sh)" _ _ _ _ _ sid q r]
      by (simp add: sched_inv_def sched_shape_def)
  qed
  show ?thesis
    using assms shrink sched_inv_drop [OF assms, of sid] sched_inv_cancel_active
    by (auto simp: invalidate_def Let_def split: option.split)
qed

lemma queue_of_Some: "queue_of sh sid \<noteq> [] \<Longrightarrow> map_of (sh_pending sh) sid = Some (queue_of sh sid)"
  by (auto simp: queue_of_def split: option.splits)

lemma queue_of_session:
  assumes "sched_inv sh" "e \<in> set (queue_of sh sid)"
  shows "jb_session (en_job e) = sid"
proof -
  have "queue_of sh sid \<noteq> []" using assms(2) by auto
  from queue_of_Some [OF this] show ?thesis
    using assms unfolding sched_inv_def sched_shape_def queue_shape_def by blast
qed

definition merged_queue :: "scheduler \<Rightarrow> job \<Rightarrow> ustring \<Rightarrow> sched_entry list" where
  "merged_queue sh j cb =
     (if length (filter (replaceable j) (queue_of sh (jb_session j))) > 0
      then coalesce (replaceable j) \<lparr>en_job = j, en_callback = cb\<rparr> (queue_of sh (jb_session j))
      else queue_of sh (jb_session j) @ [\<lparr>en_job = j, en_callback = cb\<rparr>])"

lemma length_merged_queue:
  "int (length (merged_queue sh j cb))
     = int (length (queue_of sh (jb_session j)))
       - int (length (filter (replaceable j) (queue_of sh (jb_session j)))) + 1"
  using length_coalesce [of "replaceable j" "queue_of sh (jb_session j)"]
    length_filter_le [of "replaceable j" "queue_of sh (jb_session j)"]
  by (auto simp: merged_queue_def)

lemma merged_queue_set:
  "set (merged_queue sh j cb) =
     insert \<lparr>en_job = j, en_callback = cb\<rparr>
       {e \<in> set (queue_of sh (jb_session j)). \<not> replaceable j e}"
  using set_coalesce [of "replaceable j" "queue_of sh (jb_session j)"]
  by (auto simp: merged_queue_def filter_empty_conv)

lemma merged_queue_keeps:
  "subseq (filter (\<lambda>e. \<not> replaceable j e) (queue_of sh (jb_session j))) (merged_queue sh j cb)"
proof (cases "length (filter (replaceable j) (queue_of sh (jb_session j))) > 0")
  case True
  then show ?thesis using coalesce_keeps_others by (simp add: merged_queue_def)
next
  case False
  then have "merged_queue sh j cb = queue_of sh (jb_session j) @ [\<lparr>en_job = j, en_callback = cb\<rparr>]"
    by (simp add: merged_queue_def)
  then show ?thesis by (metis subseq_filter_left list_emb_append2 list_emb_prefix subseq_order.order_trans prefixI prefix_imp_subseq)
qed

text \<open>The accepting branch of \<open>submit\<close>, and the rejecting ones.\<close>

datatype submit_case = Stale | Full | Accept | ClosedQueue

definition submit_case_of :: "scheduler \<Rightarrow> job \<Rightarrow> submit_case" where
  "submit_case_of sh j =
     (if sh_closing sh then ClosedQueue
      else if list_ex (\<lambda>e. same_segment (en_job e) j \<and> jb_revision (en_job e) > jb_revision j)
                (peer_entries sh (jb_session j)) then Stale
      else if int (pending_count sh)
                - int (length (filter (replaceable j) (queue_of sh (jb_session j)))) + 1 > sh_max_pending sh
              \<or> int (length (queue_of sh (jb_session j)))
                - int (length (filter (replaceable j) (queue_of sh (jb_session j)))) + 1 > sh_max_per_session sh
        then Full
      else Accept)"

definition enqueue_merged :: "scheduler \<Rightarrow> job \<Rightarrow> ustring \<Rightarrow> scheduler" where
  "enqueue_merged sh j cb =
     sh\<lparr>sh_started := True, sh_pending := al_put (jb_session j) (merged_queue sh j cb) (sh_pending sh)\<rparr>"

definition supersede_active :: "ustring \<Rightarrow> job \<Rightarrow> scheduler \<Rightarrow> scheduler" where
  "supersede_active sid j sh =
     (case map_of (sh_active sh) sid of
        None \<Rightarrow> sh
      | Some a \<Rightarrow> if replaceable j (ac_entry a) then cancel_active sid a sh else sh)"

text \<open>Two schedulers that agree on everything but the metrics.\<close>

definition same_queues :: "scheduler \<Rightarrow> scheduler \<Rightarrow> bool" where
  "same_queues a b \<longleftrightarrow> sh_pending a = sh_pending b \<and> sh_active a = sh_active b
     \<and> sh_ready a = sh_ready b \<and> sh_ready_set a = sh_ready_set b \<and> sh_closing a = sh_closing b
     \<and> sh_workers a = sh_workers b \<and> sh_max_pending a = sh_max_pending b
     \<and> sh_max_per_session a = sh_max_per_session b \<and> sh_next_active a = sh_next_active b"

lemma same_queues_refl [simp]: "same_queues a a"
  by (simp add: same_queues_def)

lemma same_queues_inv: "same_queues a b \<Longrightarrow> sched_inv a = sched_inv b"
  by (rule sched_inv_cong) (auto simp: same_queues_def)

lemma same_queues_view:
  assumes "same_queues a b"
  shows "queue_of a = queue_of b" "pending_count a = pending_count b" "peer_entries a = peer_entries b"
    "submit_case_of a = submit_case_of b"
proof -
  show q: "queue_of a = queue_of b" "pending_count a = pending_count b"
    using assms by (auto simp: same_queues_def queue_of_def pending_count_def fun_eq_iff)
  show "peer_entries a = peer_entries b"
    using assms q by (simp add: same_queues_def peer_entries_def fun_eq_iff)
  then show "submit_case_of a = submit_case_of b"
    using assms q by (simp add: same_queues_def submit_case_of_def fun_eq_iff)
qed

lemma cancel_active_shape:
  assumes "same_queues a b" shows "same_queues (cancel_active sid x a) (cancel_active sid x b)"
  using assms by (simp add: same_queues_def cancel_active_def)

lemma mark_ready_shape:
  assumes "same_queues a b" shows "same_queues (mark_ready sid a) (mark_ready sid b)"
  using assms by (auto simp: same_queues_def mark_ready_def queue_of_def)

lemma submit_job_cases:
  shows "submit_case_of sh j = ClosedQueue \<Longrightarrow> submit_job sh j cb = (sh, Inl closed_error)"
    and "submit_case_of sh j = Stale \<Longrightarrow>
           submit_job sh j cb = (sh\<lparr>sh_started := True\<rparr>, Inl (TranslationError ''stale_revision'' False))"
    and "submit_case_of sh j = Full \<Longrightarrow>
           submit_job sh j cb = (record_metric ''translation_queue_rejected'' 1 (sh\<lparr>sh_started := True\<rparr>),
             Inl (TranslationError ''queue_full'' True))"
    and "submit_case_of sh j = Accept \<Longrightarrow> snd (submit_job sh j cb) = Inr () \<and>
           same_queues (fst (submit_job sh j cb))
             (mark_ready (jb_session j) (supersede_active (jb_session j) j (enqueue_merged sh j cb)))"
proof -
  let ?s = "sh\<lparr>sh_started := True\<rparr>"
  have v: "same_queues ?s sh" by (simp add: same_queues_def)
  note view = same_queues_view [OF v]
  show "submit_case_of sh j = ClosedQueue \<Longrightarrow> submit_job sh j cb = (sh, Inl closed_error)"
    by (auto simp: submit_case_of_def submit_job_def sched_start_def split: if_splits)
  show "submit_case_of sh j = Stale \<Longrightarrow>
           submit_job sh j cb = (?s, Inl (TranslationError ''stale_revision'' False))"
    by (auto simp: submit_case_of_def submit_job_def sched_start_def view split: if_splits)
  show "submit_case_of sh j = Full \<Longrightarrow>
           submit_job sh j cb = (record_metric ''translation_queue_rejected'' 1 ?s,
             Inl (TranslationError ''queue_full'' True))"
    by (auto simp: submit_case_of_def submit_job_def sched_start_def view Let_def split: if_splits)
  assume A: "submit_case_of sh j = Accept"
  let ?n = "length (filter (replaceable j) (queue_of sh (jb_session j)))"
  define s1 where "s1 = (if ?n > 0 then record_metric ''translation_partial_coalesced'' (of_nat ?n) ?s else ?s)"
  define s2 where "s2 = s1\<lparr>sh_pending := al_put (jb_session j) (merged_queue sh j cb) (sh_pending s1)\<rparr>"
  have eq: "submit_job sh j cb = (record_metric ''translation_submitted'' 1
      (mark_ready (jb_session j) (supersede_active (jb_session j) j s2)), Inr ())"
    using A unfolding submit_case_of_def
    by (simp add: submit_job_def sched_start_def view Let_def s1_def s2_def merged_queue_def
        supersede_active_def split: if_splits)
  have "same_queues s2 (enqueue_merged sh j cb)"
    by (simp add: same_queues_def s2_def s1_def enqueue_merged_def)
  then have "same_queues (supersede_active (jb_session j) j s2)
      (supersede_active (jb_session j) j (enqueue_merged sh j cb))"
    by (auto simp: supersede_active_def same_queues_def cancel_active_def split: option.split)
  from mark_ready_shape [OF this, of "jb_session j"] show "snd (submit_job sh j cb) = Inr () \<and>
      same_queues (fst (submit_job sh j cb))
        (mark_ready (jb_session j) (supersede_active (jb_session j) j (enqueue_merged sh j cb)))"
    by (simp add: eq same_queues_def)
qed

lemma supersede_active_frame [simp]:
  "sh_pending (supersede_active sid j sh) = sh_pending sh"
  "sh_ready (supersede_active sid j sh) = sh_ready sh"
  "sh_ready_set (supersede_active sid j sh) = sh_ready_set sh"
  "sh_closing (supersede_active sid j sh) = sh_closing sh"
  "queue_of (supersede_active sid j sh) = queue_of sh"
  "map_of (sh_active (supersede_active sid j sh)) x = None \<longleftrightarrow> map_of (sh_active sh) x = None"
  by (auto simp: supersede_active_def cancel_active_def queue_of_def fun_eq_iff split: option.split)

lemma sched_inv_mark:
  assumes inv: "sched_maps sh" "sched_capacity sh" and nc: "\<not> sh_closing sh"
    and shape: "queue_shape P A (sh_ready sh) (sh_ready_set sh) False (sh_max_per_session sh) (sh_next_active sh)"
    and P: "map_of (sh_pending sh) = P(sid \<mapsto> q)" and A: "A = map_of (sh_active sh)"
    and q: "q \<noteq> []" "int (length q) \<le> sh_max_per_session sh" "\<forall>e \<in> set q. jb_session (en_job e) = sid"
  shows "sched_inv (mark_ready sid sh)"
proof (rule sched_invI)
  have qo: "queue_of sh sid = q" using P by (simp add: queue_of_def)
  show "sched_maps (mark_ready sid sh)" "sched_capacity (mark_ready sid sh)"
    using inv by (auto simp: mark_ready_def sched_maps_def sched_capacity_def pending_count_def)
  show "sched_shape (mark_ready sid sh)"
    using queue_shape_enqueue [OF shape q] qo nc q(1)
    by (auto simp: sched_shape_def mark_ready_def P A split: if_splits)
qed

lemma sched_inv_supersede: "sched_inv sh \<Longrightarrow> sched_inv (supersede_active sid j sh)"
  using sched_inv_cancel_active [of sh sid] by (auto simp: supersede_active_def split: option.split)

lemma sched_inv_submit:
  assumes "sched_inv sh" shows "sched_inv (fst (submit_job sh j cb))"
proof (cases "submit_case_of sh j")
  case Accept
  let ?sid = "jb_session j"
  let ?q = "merged_queue sh j cb"
  let ?s = "supersede_active ?sid j (sh\<lparr>sh_started := True\<rparr>)"
  let ?e = "supersede_active ?sid j (enqueue_merged sh j cb)"
  have nc: "\<not> sh_closing sh" and room: "int (length ?q) \<le> sh_max_per_session sh"
    "int (pending_count sh) - int (length (filter (replaceable j) (queue_of sh ?sid))) + 1 \<le> sh_max_pending sh"
    using Accept length_merged_queue [of sh j cb] by (auto simp: submit_case_of_def split: if_splits)
  have ne: "?q \<noteq> []" and ses: "\<forall>e \<in> set ?q. jb_session (en_job e) = ?sid"
    using merged_queue_set [of sh j cb] queue_of_session [OF assms] by auto
  have si: "sched_inv ?s" using assms by (intro sched_inv_supersede) simp
  have fr: "sh_active ?e = sh_active ?s" "sh_max_per_session ?e = sh_max_per_session sh"
    "sh_next_active ?e = sh_next_active ?s" "sh_workers ?e = sh_workers sh"
    "sh_max_pending ?e = sh_max_pending sh" "sh_max_per_session ?s = sh_max_per_session sh"
    by (auto simp: supersede_active_def enqueue_merged_def cancel_active_def split: option.split)
  have "pending_total (al_put ?sid ?q (sh_pending sh)) + length (queue_of sh ?sid)
      = pending_count sh + length ?q"
    using pending_total_put [of "sh_pending sh" ?sid ?q] assms
    by (simp add: sched_inv_def sched_maps_def queue_of_def pending_count_def)
  then have cap: "sched_capacity ?e"
    using assms room length_merged_queue [of sh j cb] fr
    by (simp add: sched_inv_def sched_capacity_def pending_count_def enqueue_merged_def)
  have maps: "sched_maps ?e" using assms si fr
    by (simp add: sched_inv_def sched_maps_def enqueue_merged_def distinct_al_put)
  have shape: "queue_shape (map_of (sh_pending sh)) (map_of (sh_active ?s)) (sh_ready ?e) (sh_ready_set ?e)
      False (sh_max_per_session ?e) (sh_next_active ?e)"
    using si nc fr by (simp add: sched_inv_def sched_shape_def enqueue_merged_def)
  have "sched_inv (mark_ready ?sid ?e)"
    by (rule sched_inv_mark [OF maps cap _ shape _ _ ne _ ses])
       (use nc room fr in \<open>auto simp: enqueue_merged_def\<close>)
  then show ?thesis using submit_job_cases(4) [OF Accept] same_queues_inv by blast
next
  case ClosedQueue
  then show ?thesis using assms submit_job_cases(1) by simp
next
  case Stale
  then show ?thesis using assms submit_job_cases(2) by simp
next
  case Full
  then show ?thesis using assms submit_job_cases(3) by simp
qed

text \<open>A ready session can always be served: \<open>take\<close> hands out the head of the ready list.\<close>

lemma take_ready_head:
  assumes "sched_inv sh" and "sh_ready sh = sid # rest"
  obtains e q a where "queue_of sh sid = e # q"
    and "a = \<lparr>ac_id = sh_next_active sh, ac_entry = e, ac_task = NoTask, ac_stale = False\<rparr>"
    and "take_ready sh = (sh\<lparr>sh_ready := rest, sh_ready_set := sh_ready_set sh - {sid},
            sh_pending := (if q = [] then al_del sid (sh_pending sh) else al_put sid q (sh_pending sh)),
            sh_active := al_put sid a (sh_active sh), sh_next_active := Suc (sh_next_active sh)\<rparr>, Taken a)"
proof -
  have A: "map_of (sh_active sh) sid = None" and P: "map_of (sh_pending sh) sid \<noteq> None"
    and ne: "\<And>x. map_of (sh_pending sh) sid = Some x \<Longrightarrow> x \<noteq> []"
    using assms by (auto simp: sched_inv_def sched_shape_def queue_shape_def simp del: not_None_eq)
  then obtain e q where q: "queue_of sh sid = e # q"
    by (cases "queue_of sh sid") (auto simp: queue_of_def split: option.splits)
  then have "queue_of (sh\<lparr>sh_ready := rest, sh_ready_set := sh_ready_set sh - {sid}\<rparr>) sid = e # q"
    by (simp add: queue_of_def)
  then show ?thesis using assms(2) A by (intro that [OF q refl]) (simp add: take_ready.simps [of sh] Let_def)
qed

lemma sched_inv_take:
  assumes "sched_inv sh" shows "sched_inv (fst (take_job sh))"
proof (cases "sh_closing sh \<or> sh_ready sh = []")
  case True
  then show ?thesis using assms by (auto simp: take_job_def take_ready.simps [of sh])
next
  case False
  then obtain sid rest where r: "sh_ready sh = sid # rest" by (cases "sh_ready sh") auto
  from assms r obtain e q a where q: "queue_of sh sid = e # q"
    and a: "a = \<lparr>ac_id = sh_next_active sh, ac_entry = e, ac_task = NoTask, ac_stale = False\<rparr>"
    and t: "take_ready sh = (sh\<lparr>sh_ready := rest, sh_ready_set := sh_ready_set sh - {sid},
            sh_pending := (if q = [] then al_del sid (sh_pending sh) else al_put sid q (sh_pending sh)),
            sh_active := al_put sid a (sh_active sh), sh_next_active := Suc (sh_next_active sh)\<rparr>, Taken a)"
    by (rule take_ready_head)
  have m: "map_of (sh_pending sh) sid = Some (e # q)" using queue_of_Some [of sh sid] q by simp
  have shape: "queue_shape (map_of (sh_pending sh)) (map_of (sh_active sh)) (sid # rest)
      (sh_ready_set sh) (sh_closing sh) (sh_max_per_session sh) (sh_next_active sh)"
    using assms r by (simp add: sched_inv_def sched_shape_def)
  note taken = queue_shape_take [OF shape m, of a]
  have cnt: "pending_total (if q = [] then al_del sid (sh_pending sh) else al_put sid q (sh_pending sh))
      \<le> pending_total (sh_pending sh)"
    using pending_total_del_le [of "sh_pending sh" sid] pending_total_put [of "sh_pending sh" sid q] assms m
    by (auto simp: sched_inv_def sched_maps_def)
  have "sched_inv (fst (take_ready sh))"
    unfolding t fst_conv
  proof (rule sched_invI, goal_cases)
    case 1
    then show ?case using assms by (auto simp: sched_inv_def sched_maps_def distinct_al_put distinct_al_del)
  next
    case 2
    then show ?case using assms cnt by (auto simp: sched_inv_def sched_capacity_def pending_count_def)
  next
    case 3
    then show ?case using taken a by (cases "q = []") (simp_all add: sched_shape_def)
  qed
  then show ?thesis using False by (simp add: take_job_def)
qed

lemma sched_inv_begin: "sched_inv sh \<Longrightarrow> sched_inv (fst (begin_execute sh sid now))"
proof (cases "map_of (sh_active sh) sid")
  case (Some a)
  assume inv: "sched_inv sh"
  let ?sh = "sh\<lparr>sh_active := al_put sid (a\<lparr>ac_task := TaskRunning\<rparr>) (sh_active sh)\<rparr>"
  have shape: "queue_shape (map_of (sh_pending sh)) (map_of (sh_active sh)) (sh_ready sh) (sh_ready_set sh)
      (sh_closing sh) (sh_max_per_session sh) (sh_next_active sh)"
    using inv by (simp add: sched_inv_def sched_shape_def)
  have "sched_shape ?sh"
    using queue_shape_active [OF shape Some, of "a\<lparr>ac_task := TaskRunning\<rparr>"] queue_shape_id [OF shape Some]
    by (simp add: sched_shape_def)
  then have "sched_inv ?sh" using inv
    by (simp add: sched_inv_def sched_maps_def sched_capacity_def pending_count_def distinct_al_put)
  then show ?thesis using inv Some by (simp add: begin_execute_def)
qed (simp add: begin_execute_def)

lemma sched_inv_finish: "sched_inv sh \<Longrightarrow> sched_inv (fst (finish_execute sh sid outcome))"
  by (auto simp: finish_execute_def Let_def split: option.split)

lemma sched_inv_release: assumes "sched_inv sh" shows "sched_inv (release_worker sh sid aid)"
proof -
  have mark: "sched_inv (mark_ready sid sh)" if "sched_inv sh" for sh
  proof (rule sched_invI)
    have shape: "queue_shape (map_of (sh_pending sh)) (map_of (sh_active sh)) (sh_ready sh) (sh_ready_set sh)
        (sh_closing sh) (sh_max_per_session sh) (sh_next_active sh)"
      using that by (simp add: sched_inv_def sched_shape_def)
    have "mark_ready sid sh = sh"
    proof (cases "map_of (sh_pending sh) sid")
      case None
      then show ?thesis by (simp add: mark_ready_def queue_of_def)
    next
      case (Some q)
      then show ?thesis using shape by (auto simp: mark_ready_def queue_shape_def)
    qed
    then show "sched_maps (mark_ready sid sh)" "sched_capacity (mark_ready sid sh)" "sched_shape (mark_ready sid sh)"
      using that by (auto simp: sched_inv_def)
  qed
  have drop: "sched_inv (mark_ready sid (sh\<lparr>sh_active := al_del sid (sh_active sh)\<rparr>))"
  proof (rule sched_invI)
    let ?sh = "sh\<lparr>sh_active := al_del sid (sh_active sh)\<rparr>"
    have shape: "queue_shape (map_of (sh_pending sh)) (map_of (sh_active sh)) (sh_ready sh) (sh_ready_set sh)
        (sh_closing sh) (sh_max_per_session sh) (sh_next_active sh)"
      using assms by (simp add: sched_inv_def sched_shape_def)
    then have "queue_of ?sh sid \<noteq> [] \<longleftrightarrow> map_of (sh_pending sh) sid \<noteq> None"
      by (auto simp: queue_of_def queue_shape_def split: option.split)
    then show "sched_shape (mark_ready sid ?sh)"
      using queue_shape_release [OF shape, of sid]
      by (auto simp: sched_shape_def mark_ready_def split: if_splits)
    show "sched_maps (mark_ready sid ?sh)" "sched_capacity (mark_ready sid ?sh)"
      using assms by (auto simp: sched_inv_def mark_ready_def sched_maps_def sched_capacity_def
          pending_count_def distinct_al_del)
  qed
  show ?thesis using drop mark [OF assms] by (auto simp: release_worker_def split: option.split)
qed

text \<open>\<open>close\<close> empties the queues and marks every active job stale.\<close>

lemma cancel_all:
  assumes "sched_inv sh" and "\<forall>p \<in> set ps. map_of (sh_active sh) (fst p) = Some (snd p)"
    and "distinct (map fst ps)"
  shows "sched_inv (foldl (\<lambda>s p. cancel_active (fst p) (snd p) s) sh ps)"
  using assms
proof (induction ps arbitrary: sh)
  case (Cons p ps)
  let ?sh = "cancel_active (fst p) (snd p) sh"
  have "sched_inv ?sh" using Cons.prems by (intro sched_inv_cancel_active) auto
  moreover have "\<forall>r \<in> set ps. map_of (sh_active ?sh) (fst r) = Some (snd r)"
    using Cons.prems by (force simp: cancel_active_def)
  ultimately show ?case using Cons by simp
qed simp

lemma sched_inv_close: assumes "sched_inv sh" shows "sched_inv (close_scheduler sh)"
proof -
  let ?sh = "sh\<lparr>sh_closing := True, sh_pending := [], sh_ready := [], sh_ready_set := {}\<rparr>"
  have m: "distinct (map fst (sh_active sh))" using assms by (simp add: sched_inv_def sched_maps_def)
  have "sched_inv ?sh"
    using assms by (auto simp: sched_inv_def sched_maps_def sched_capacity_def sched_shape_def
        queue_shape_def pending_count_def pending_total_def)
  moreover have "\<forall>p \<in> set (sh_active sh). map_of (sh_active ?sh) (fst p) = Some (snd p)"
    using m by auto
  ultimately show ?thesis unfolding close_scheduler_def using m by (intro cancel_all) auto
qed

subsection \<open>Steps and reachable states\<close>

text \<open>
  The environment's calls and the workers' moves in any order. A worker takes a job only when it
  is idle: the number of held jobs stays at most the number of workers.
\<close>

inductive sched_step :: "scheduler \<Rightarrow> scheduler \<Rightarrow> bool" where
  step_submit: "sched_step sh (fst (submit_job sh j cb))"
| step_cancel: "sched_step sh (cancel_session sh sid)"
| step_invalidate: "sched_step sh (fst (invalidate sh sid ids))"
| step_take: "int (active_count sh) < sh_workers sh \<Longrightarrow> sched_step sh (fst (take_job sh))"
| step_begin: "sched_step sh (fst (begin_execute sh sid now))"
| step_finish: "sched_step sh (fst (finish_execute sh sid outcome))"
| step_callback_failed: "sched_step sh (callback_failed sh)"
| step_release: "sched_step sh (release_worker sh sid aid)"
| step_close: "sched_step sh (close_scheduler sh)"

inductive sched_reachable :: "scheduler \<Rightarrow> bool" where
  reach_init: "new_scheduler w p s m = Inr sh \<Longrightarrow> sched_reachable sh"
| reach_step: "sched_reachable sh \<Longrightarrow> sched_step sh sh' \<Longrightarrow> sched_reachable sh'"

inductive_cases sched_stepE: "sched_step sh sh'"

lemmas sched_inv_ops =
  sched_inv_submit sched_inv_cancel_session sched_inv_invalidate sched_inv_take sched_inv_begin
  sched_inv_finish sched_inv_release sched_inv_close

lemma sched_step_inv: "sched_step sh sh' \<Longrightarrow> sched_inv sh \<Longrightarrow> sched_inv sh'"
  by (induction rule: sched_step.induct) (simp_all add: sched_inv_ops callback_failed_def)

lemma active_count_cancel [simp]:
  "map_of (sh_active sh) sid = Some a \<Longrightarrow> active_count (cancel_active sid a sh) = active_count sh"
  by (simp add: active_count_def cancel_active_def length_al_put_old map_of_in_fst del: set_map)

lemma workers_cancel [simp]: "sh_workers (cancel_active sid a sh) = sh_workers sh"
  by (simp add: cancel_active_def)

text \<open>No step but \<open>take\<close> adds an active job.\<close>

definition within_workers :: "scheduler \<Rightarrow> bool" where
  "within_workers sh \<longleftrightarrow> int (active_count sh) \<le> sh_workers sh"

lemma within_workers_cong:
  "sh_active a = sh_active b \<Longrightarrow> sh_workers a = sh_workers b \<Longrightarrow> within_workers a = within_workers b"
  by (simp add: within_workers_def active_count_def)

lemma within_workers_cancel:
  "map_of (sh_active sh) sid = Some a \<Longrightarrow> within_workers (cancel_active sid a sh) = within_workers sh"
  by (simp add: within_workers_def)

lemma within_workers_mark [simp]: "within_workers (mark_ready sid sh) = within_workers sh"
  by (rule within_workers_cong) (auto simp: mark_ready_def)

lemma within_workers_submit:
  assumes "within_workers sh" shows "within_workers (fst (submit_job sh j cb))"
proof (cases "submit_case_of sh j")
  case Accept
  let ?e = "enqueue_merged sh j cb"
  have e: "within_workers ?e" using assms by (simp add: within_workers_def active_count_def enqueue_merged_def)
  then have "within_workers (supersede_active (jb_session j) j ?e)"
    using within_workers_cancel [of ?e] by (auto simp: supersede_active_def split: option.split)
  then show ?thesis using submit_job_cases(4) [OF Accept, of cb]
    by (auto simp: same_queues_def within_workers_def active_count_def mark_ready_def)
next
  case ClosedQueue
  then show ?thesis using assms submit_job_cases(1) by simp
next
  case Stale
  then show ?thesis using assms submit_job_cases(2) by (simp add: within_workers_def active_count_def)
next
  case Full
  then show ?thesis using assms submit_job_cases(3) by (simp add: within_workers_def active_count_def)
qed

lemma within_workers_cancel_session: "within_workers sh \<Longrightarrow> within_workers (cancel_session sh sid)"
  using within_workers_cancel
  by (auto simp: cancel_session_def forget_ready_def Let_def within_workers_def active_count_def
      cancel_active_def length_al_put_old map_of_in_fst simp del: set_map split: option.split)

lemma within_workers_invalidate: "within_workers sh \<Longrightarrow> within_workers (fst (invalidate sh sid ids))"
  by (auto simp: invalidate_def forget_ready_def Let_def within_workers_def active_count_def
      cancel_active_def length_al_put_old map_of_in_fst simp del: set_map split: option.split)

lemma within_workers_take:
  assumes "sched_inv sh" "int (active_count sh) < sh_workers sh"
  shows "within_workers (fst (take_job sh))"
proof (cases "sh_closing sh \<or> sh_ready sh = []")
  case True
  then show ?thesis using assms by (auto simp: take_job_def take_ready.simps [of sh] within_workers_def)
next
  case False
  then obtain sid rest where r: "sh_ready sh = sid # rest" by (cases "sh_ready sh") auto
  show ?thesis
  proof (rule take_ready_head [OF assms(1) r])
    fix e q a
    assume "take_ready sh = (sh\<lparr>sh_ready := rest, sh_ready_set := sh_ready_set sh - {sid},
            sh_pending := (if q = [] then al_del sid (sh_pending sh) else al_put sid q (sh_pending sh)),
            sh_active := al_put sid a (sh_active sh), sh_next_active := Suc (sh_next_active sh)\<rparr>, Taken a)"
    then show ?thesis using assms(2) False length_al_put_new [of sid a "sh_active sh"]
      by (simp add: take_job_def within_workers_def active_count_def)
  qed
qed

lemma within_workers_begin: "within_workers sh \<Longrightarrow> within_workers (fst (begin_execute sh sid now))"
  by (auto simp: begin_execute_def within_workers_def active_count_def length_al_put_old map_of_in_fst
      simp del: set_map split: option.split)

lemma within_workers_release: "within_workers sh \<Longrightarrow> within_workers (release_worker sh sid aid)"
proof -
  have "length (al_del sid (sh_active sh)) \<le> length (sh_active sh)" by (simp add: al_del_def)
  moreover assume "within_workers sh"
  ultimately show ?thesis
    by (auto simp: release_worker_def within_workers_def active_count_def mark_ready_def split: option.split)
qed

lemma within_workers_close: "sched_inv sh \<Longrightarrow> within_workers sh \<Longrightarrow> within_workers (close_scheduler sh)"
proof -
  have "within_workers (foldl (\<lambda>s p. cancel_active (fst p) (snd p) s) sh' ps)"
    if "within_workers sh'" "\<forall>p \<in> set ps. map_of (sh_active sh') (fst p) = Some (snd p)" "distinct (map fst ps)"
    for sh' ps using that
  proof (induction ps arbitrary: sh')
    case (Cons p ps)
    have "within_workers (cancel_active (fst p) (snd p) sh')" using Cons.prems within_workers_cancel by auto
    moreover have "\<forall>r \<in> set ps. map_of (sh_active (cancel_active (fst p) (snd p) sh')) (fst r) = Some (snd r)"
      using Cons.prems by (force simp: cancel_active_def)
    ultimately show ?case using Cons by simp
  qed simp
  note this [of "sh\<lparr>sh_closing := True, sh_pending := [], sh_ready := [], sh_ready_set := {}\<rparr>" "sh_active sh"]
  moreover assume "sched_inv sh" "within_workers sh"
  ultimately show ?thesis
    by (auto simp: close_scheduler_def sched_inv_def sched_maps_def within_workers_def active_count_def)
qed

lemma sched_step_workers: "sched_step sh sh' \<Longrightarrow> sched_inv sh \<Longrightarrow> within_workers sh \<Longrightarrow> within_workers sh'"
proof (induction rule: sched_step.induct)
  case (step_finish sh sid outcome)
  then show ?case by (auto simp: finish_execute_def Let_def within_workers_def active_count_def split: option.split)
next
  case (step_callback_failed sh)
  then show ?case by (simp add: callback_failed_def within_workers_def active_count_def)
qed (simp_all add: within_workers_submit within_workers_cancel_session within_workers_invalidate
    within_workers_take within_workers_begin within_workers_release within_workers_close)

lemma sched_reachable_inv: "sched_reachable sh \<Longrightarrow> sched_inv sh \<and> within_workers sh"
proof (induction rule: sched_reachable.induct)
  case (reach_init w p s m sh)
  then show ?case using new_scheduler_inv [OF reach_init]
    by (auto simp: new_scheduler_def within_workers_def active_count_def split: if_splits)
next
  case (reach_step sh sh')
  then show ?case using sched_step_inv sched_step_workers by blast
qed

end
