(* ===== verification/SchedulerProps.thy ===== *)
theory SchedulerProps
  imports SchedulerInv
begin

text \<open>
  Properties of the scheduler (\<^verbatim>\<open>src/app/translation/scheduler.py\<close>): its invariant on reachable states,
  the treatment of final jobs, the order in which sessions are served, and the isolation of sessions.
  The locale \<open>job_queue\<close> is the interface a session relies on: a queue per session, changed only by
  requests of that session.
\<close>

subsection \<open>The interface of a session queue\<close>

datatype request =
    SubmitRequest job ustring
  | CancelRequest ustring
  | InvalidateRequest ustring "ustring set"

fun request_session :: "request \<Rightarrow> ustring" where
  "request_session (SubmitRequest j cb) = jb_session j"
| "request_session (CancelRequest sid) = sid"
| "request_session (InvalidateRequest sid ids) = sid"

locale job_queue =
  fixes inv :: "'s \<Rightarrow> bool"
    and queued :: "'s \<Rightarrow> ustring \<Rightarrow> job list"
    and serve :: "request \<Rightarrow> 's \<Rightarrow> 's"
  assumes serve_inv: "inv s \<Longrightarrow> inv (serve r s)"
    and serve_other: "request_session r \<noteq> sid \<Longrightarrow> queued (serve r s) sid = queued s sid"
    and submit_finals: "inv s \<Longrightarrow> subseq (filter jb_final (queued s sid)) (queued (serve (SubmitRequest j cb) s) sid)"
    and cancel_empties: "queued (serve (CancelRequest sid) s) sid = []"
begin

definition serve_all :: "request list \<Rightarrow> 's \<Rightarrow> 's" where
  "serve_all rs s = foldl (\<lambda>t r. serve r t) s rs"

lemma serve_all_simps [simp]:
  "serve_all [] s = s" "serve_all (r # rs) s = serve_all rs (serve r s)"
  by (simp_all add: serve_all_def)

lemma serve_all_inv: "inv s \<Longrightarrow> inv (serve_all rs s)"
  by (induction rs arbitrary: s) (auto simp: serve_inv)

lemma isolation:
  "\<forall>r \<in> set rs. request_session r \<noteq> sid \<Longrightarrow> queued (serve_all rs s) sid = queued s sid"
  by (induction rs arbitrary: s) (auto simp: serve_other)

lemma finals_wait:
  "inv s \<Longrightarrow> \<forall>r \<in> set rs. request_session r = sid \<longrightarrow> (\<exists>j cb. r = SubmitRequest j cb) \<Longrightarrow>
     subseq (filter jb_final (queued s sid)) (queued (serve_all rs s) sid)"
proof (induction rs arbitrary: s)
  case (Cons r rs)
  have "subseq (filter jb_final (queued s sid)) (filter jb_final (queued (serve r s) sid))"
  proof (cases "request_session r = sid")
    case True
    then obtain j cb where "r = SubmitRequest j cb" using Cons.prems by auto
    from subseq_filter [OF submit_finals [OF Cons.prems(1), of sid j cb], of jb_final] this
    show ?thesis by simp
  qed (simp add: serve_other)
  also have "subseq \<dots> (queued (serve_all rs (serve r s)) sid)"
    using Cons.IH [OF serve_inv [OF Cons.prems(1)]] Cons.prems(2) by simp
  finally show ?case by simp
qed (simp add: subseq_filter_left)

end

subsection \<open>The scheduler provides it\<close>

definition queued_jobs :: "scheduler \<Rightarrow> ustring \<Rightarrow> job list" where
  "queued_jobs sh sid = map en_job (queue_of sh sid)"

fun serve_request :: "request \<Rightarrow> scheduler \<Rightarrow> scheduler" where
  "serve_request (SubmitRequest j cb) sh = fst (submit_job sh j cb)"
| "serve_request (CancelRequest sid) sh = cancel_session sh sid"
| "serve_request (InvalidateRequest sid ids) sh = fst (invalidate sh sid ids)"

lemma queue_of_frame:
  "queue_of (record_metric n v sh) = queue_of sh" "queue_of (cancel_active x a sh) = queue_of sh"
  "queue_of (forget_ready x sh) = queue_of sh" "queue_of (mark_ready x sh) = queue_of sh"
  by (auto simp: queue_of_def fun_eq_iff cancel_active_def forget_ready_def mark_ready_def)

lemma queue_of_submit:
  "queue_of (fst (submit_job sh j cb)) sid =
     (if submit_case_of sh j = Accept \<and> sid = jb_session j then merged_queue sh j cb else queue_of sh sid)"
proof (cases "submit_case_of sh j")
  case Accept
  then have "same_queues (fst (submit_job sh j cb))
      (mark_ready (jb_session j) (supersede_active (jb_session j) j (enqueue_merged sh j cb)))"
    using submit_job_cases(4) by blast
  from same_queues_view(1) [OF this] Accept show ?thesis
    by (auto simp: queue_of_frame) (auto simp: enqueue_merged_def queue_of_def)
qed (use submit_job_cases [of sh j cb] in \<open>simp_all add: queue_of_frame\<close>, simp_all add: queue_of_def)

lemma submit_keeps_finals:
  "subseq (filter (\<lambda>e. jb_final (en_job e)) (queue_of sh sid)) (queue_of (fst (submit_job sh j cb)) sid)"
proof (cases "submit_case_of sh j = Accept \<and> sid = jb_session j")
  case True
  have "filter (\<lambda>e. jb_final (en_job e)) (queue_of sh sid) =
      filter (\<lambda>e. jb_final (en_job e)) (filter (\<lambda>e. \<not> replaceable j e) (queue_of sh sid))"
    by (auto simp: replaceable_def intro!: filter_cong)
  also have "subseq \<dots> (filter (\<lambda>e. \<not> replaceable j e) (queue_of sh sid))" by (rule subseq_filter_left)
  also have "subseq \<dots> (merged_queue sh j cb)" using merged_queue_keeps [of j sh cb] True by simp
  finally show ?thesis using True by (simp add: queue_of_submit)
next
  case False
  then show ?thesis by (auto simp: queue_of_submit subseq_filter_left)
qed

lemma queue_of_other:
  "request_session r \<noteq> sid \<Longrightarrow> queue_of (serve_request r sh) sid = queue_of sh sid"
proof (cases r)
  case (CancelRequest x)
  assume "request_session r \<noteq> sid"
  then show ?thesis using CancelRequest
    by (simp add: cancel_session_def Let_def queue_of_frame split: option.split) (simp add: queue_of_def)
next
  case (InvalidateRequest x ids)
  assume "request_session r \<noteq> sid"
  then show ?thesis using InvalidateRequest
    by (simp add: invalidate_def Let_def queue_of_frame split: option.split) (simp add: queue_of_def)
qed (simp add: queue_of_submit)

lemma queue_of_cancelled: "queue_of (cancel_session sh sid) sid = []"
  by (simp add: cancel_session_def Let_def queue_of_frame split: option.split) (simp add: queue_of_def)

interpretation jq: job_queue sched_inv queued_jobs serve_request
proof unfold_locales
  fix sh :: scheduler and r
  show "sched_inv sh \<Longrightarrow> sched_inv (serve_request r sh)"
    by (cases r) (simp_all add: sched_inv_ops)
next
  fix sh :: scheduler and r sid
  show "request_session r \<noteq> sid \<Longrightarrow> queued_jobs (serve_request r sh) sid = queued_jobs sh sid"
    by (simp add: queued_jobs_def queue_of_other)
next
  fix sh :: scheduler and sid j cb
  have "filter jb_final (queued_jobs sh sid) = map en_job (filter (\<lambda>e. jb_final (en_job e)) (queue_of sh sid))"
    by (simp add: queued_jobs_def filter_map o_def)
  then show "subseq (filter jb_final (queued_jobs sh sid)) (queued_jobs (serve_request (SubmitRequest j cb) sh) sid)"
    using subseq_map [OF submit_keeps_finals, of en_job sh sid j cb] by (simp add: queued_jobs_def)
qed (simp add: queued_jobs_def queue_of_cancelled)

subsection \<open>Sample jobs\<close>

definition sample_job :: "string \<Rightarrow> string \<Rightarrow> int \<Rightarrow> bool \<Rightarrow> job" where
  "sample_job sid seg n fin = \<lparr>jb_session = lit sid, jb_generation = GenInt 0, jb_sequence = 0,
     jb_revision = n, jb_segment = lit seg, jb_source = lit ''x'', jb_source_language = lit ''en'',
     jb_target_language = lit ''ko'', jb_source_context = [], jb_translation_context = [], jb_glossary = [],
     jb_final = fin, jb_created_at = Fin 0, jb_model = None, jb_temperature = None\<rparr>"

definition sample_empty :: scheduler where
  "sample_empty = (case new_scheduler 2 8 4 empty_metrics of Inr sh \<Rightarrow> sh | Inl _ \<Rightarrow> undefined)"

definition sample_requests :: "request list" where
  "sample_requests =
     [SubmitRequest (sample_job ''A'' ''s1'' 1 True) (lit ''A''), SubmitRequest (sample_job ''A'' ''s2'' 1 False) (lit ''A''),
      SubmitRequest (sample_job ''B'' ''s1'' 1 False) (lit ''B''), SubmitRequest (sample_job ''A'' ''s2'' 2 False) (lit ''A'')]"

definition sample_queues :: scheduler where
  "sample_queues = foldl (\<lambda>sh r. serve_request r sh) sample_empty sample_requests"

lemma sample_empty_new: "new_scheduler 2 8 4 empty_metrics = Inr sample_empty"
  by (simp add: sample_empty_def new_scheduler_def)

lemma reach_serve: "sched_reachable sh \<Longrightarrow> sched_reachable (serve_request r sh)"
  by (cases r) (auto intro: reach_step sched_step.intros)

lemma reach_queues: "sched_reachable sample_queues"
proof -
  have "sched_reachable (foldl (\<lambda>sh r. serve_request r sh) sh rs)" if "sched_reachable sh" for sh rs
    using that by (induction rs arbitrary: sh) (auto simp: reach_serve)
  then show ?thesis using reach_init [OF sample_empty_new] by (simp add: sample_queues_def)
qed

subsection \<open>Capacity and wake-ups\<close>

text \<open>
  C6: In every reachable state of the scheduler the capacities hold (pending jobs in total and per
  session, running jobs at most the number of workers) and no wake-up is lost: a session with queued
  work is in the ready queue or has a running job, and a session in the ready queue stands there
  once, has work and no running job.
\<close>

theorem scheduler_invariant:
  assumes "sched_reachable sh"
  shows "int (pending_count sh) \<le> sh_max_pending sh \<and> int (active_count sh) \<le> sh_workers sh
    \<and> int (length (queue_of sh sid)) \<le> sh_max_per_session sh \<and> distinct (sh_ready sh)
    \<and> (queue_of sh sid \<noteq> [] \<longrightarrow> sid \<in> set (sh_ready sh) \<or> map_of (sh_active sh) sid \<noteq> None)
    \<and> (sid \<in> set (sh_ready sh) \<longrightarrow> queue_of sh sid \<noteq> [] \<and> map_of (sh_active sh) sid = None)"
proof -
  have inv: "sched_inv sh" and w: "within_workers sh" using sched_reachable_inv [OF assms] by auto
  have shape: "queue_shape (map_of (sh_pending sh)) (map_of (sh_active sh)) (sh_ready sh)
     (sh_ready_set sh) (sh_closing sh) (sh_max_per_session sh) (sh_next_active sh)"
    using inv by (simp add: sched_inv_def sched_shape_def)
  have "int (length (queue_of sh sid)) \<le> sh_max_per_session sh"
    using inv shape by (auto simp: queue_of_def queue_shape_def sched_inv_def sched_capacity_def split: option.split)
  moreover have "queue_of sh sid \<noteq> [] \<longrightarrow> sid \<in> set (sh_ready sh) \<or> map_of (sh_active sh) sid \<noteq> None"
    using shape queue_of_Some [of sh sid] unfolding queue_shape_def by (metis option.distinct(1))
  moreover have "sid \<in> set (sh_ready sh) \<longrightarrow> queue_of sh sid \<noteq> [] \<and> map_of (sh_active sh) sid = None"
    using shape unfolding queue_shape_def queue_of_def by (metis option.case_eq_if option.exhaust_sel)
  ultimately show ?thesis
    using inv w shape by (simp add: sched_inv_def sched_capacity_def within_workers_def queue_shape_def)
qed

lemma scheduler_invariant_witness:
  "lit ''A'' \<in> set (sh_ready sample_queues) \<and> map_of (sh_active sample_queues) (lit ''A'') = None"
proof -
  have "lit ''A'' \<in> set (sh_ready sample_queues)" by code_simp
  then show ?thesis using scheduler_invariant [OF reach_queues, of "lit ''A''"] by simp
qed

subsection \<open>Final jobs and isolation\<close>

text \<open>
  C7: Sessions are isolated in the scheduler, and final jobs are never displaced: whatever sequence
  of requests of other sessions (submissions, cancellations, invalidations) is served, a session's
  queue stays as it is; and while a session only submits, every final job it has queued stays queued,
  in order, whether its submissions are accepted, coalesced or refused.
\<close>

theorem queue_isolated_finals_kept:
  assumes "sched_reachable sh"
  shows "((\<forall>r \<in> set rs. request_session r \<noteq> sid) \<longrightarrow> queued_jobs (jq.serve_all rs sh) sid = queued_jobs sh sid)
    \<and> ((\<forall>r \<in> set rs. request_session r = sid \<longrightarrow> (\<exists>j cb. r = SubmitRequest j cb)) \<longrightarrow>
         subseq (filter jb_final (queued_jobs sh sid)) (queued_jobs (jq.serve_all rs sh) sid))"
  using jq.isolation [of rs sid sh] jq.finals_wait [of sh rs sid] sched_reachable_inv [OF assms] by blast

lemma queue_isolated_finals_kept_witness:
  "queued_jobs (jq.serve_all [CancelRequest (lit ''B'')] sample_queues) (lit ''A'')
     = [sample_job ''A'' ''s1'' 1 True, sample_job ''A'' ''s2'' 2 False]"
proof -
  have "queued_jobs sample_queues (lit ''A'') = [sample_job ''A'' ''s1'' 1 True, sample_job ''A'' ''s2'' 2 False]"
    by code_simp
  moreover have "lit ''B'' \<noteq> lit ''A''" by code_simp
  ultimately show ?thesis
    using queue_isolated_finals_kept [OF reach_queues, of "[CancelRequest (lit ''B'')]" "lit ''A''"] by simp
qed

subsection \<open>Stale jobs\<close>

lemma stale_not_delivered:
  "map_of (sh_active sh) sid = Some a \<Longrightarrow> ac_stale a \<Longrightarrow> snd (finish_execute sh sid outcome) = None"
  by (simp add: finish_execute_def)

lemma cancelled_active_at:
  "map_of (sh_active sh) sid = Some a \<Longrightarrow>
     \<exists>b. map_of (sh_active (cancel_active sid a sh)) sid = Some b \<and> ac_stale b"
  by (simp add: cancel_active_def cancelled_active_def)

text \<open>
  Every step keeps the jobs in the hands of the workers: one that was there before is the same job,
  and is stale if it was stale.
\<close>

definition ages :: "scheduler \<Rightarrow> scheduler \<Rightarrow> bool" where
  "ages sh sh' \<longleftrightarrow> sh_next_active sh \<le> sh_next_active sh' \<and>
     (\<forall>sid b. map_of (sh_active sh') sid = Some b \<longrightarrow> ac_id b < sh_next_active sh \<longrightarrow>
        (\<exists>a. map_of (sh_active sh) sid = Some a \<and> ac_id a = ac_id b \<and> ac_entry a = ac_entry b
           \<and> (ac_stale a \<longrightarrow> ac_stale b)))"

lemma ages_refl [simp]: "ages sh sh"
  by (simp add: ages_def)

lemma ages_trans: "ages s t \<Longrightarrow> ages t u \<Longrightarrow> ages s u"
proof -
  assume st: "ages s t" and tu: "ages t u"
  have n: "sh_next_active s \<le> sh_next_active t" "sh_next_active t \<le> sh_next_active u"
    using st tu by (simp_all add: ages_def)
  have "\<exists>a. map_of (sh_active s) sid = Some a \<and> ac_id a = ac_id b \<and> ac_entry a = ac_entry b \<and> (ac_stale a \<longrightarrow> ac_stale b)"
    if b: "map_of (sh_active u) sid = Some b" "ac_id b < sh_next_active s" for sid b
  proof -
    obtain c where c: "map_of (sh_active t) sid = Some c" "ac_id c = ac_id b" "ac_entry c = ac_entry b" "ac_stale c \<longrightarrow> ac_stale b"
      using tu b n unfolding ages_def by (meson less_le_trans)
    then show ?thesis using st b(2) unfolding ages_def by metis
  qed
  then show "ages s u" using n by (simp add: ages_def)
qed

lemma ages_frame:
  "sh_active sh' = sh_active sh \<Longrightarrow> sh_next_active sh' = sh_next_active sh \<Longrightarrow> ages sh sh'"
  by (simp add: ages_def)

lemma ages_put:
  assumes "map_of (sh_active sh) sid = Some a" "ac_id b = ac_id a" "ac_entry b = ac_entry a" "ac_stale a \<longrightarrow> ac_stale b"
    and "sh_active sh' = al_put sid b (sh_active sh)" "sh_next_active sh' = sh_next_active sh"
  shows "ages sh sh'"
  using assms by (auto simp: ages_def)

lemma ages_cancel_active: "map_of (sh_active sh) sid = Some a \<Longrightarrow> ages sh (cancel_active sid a sh)"
  by (cases "ac_stale a")
     (simp_all add: cancel_active_def ages_put [of _ sid a "cancelled_active a"] cancelled_active_def record_metric_def)

lemma ages_mark [simp]: "ages sh (mark_ready sid sh)"
  by (rule ages_frame) (simp_all add: mark_ready_def)

lemma ages_supersede: "ages sh (supersede_active sid j sh)"
  by (simp add: supersede_active_def ages_cancel_active split: option.split)

lemma ages_submit: "ages sh (fst (submit_job sh j cb))"
proof (cases "submit_case_of sh j")
  case Accept
  have "ages sh (enqueue_merged sh j cb)" by (rule ages_frame) (simp_all add: enqueue_merged_def)
  then have "ages sh (mark_ready (jb_session j) (supersede_active (jb_session j) j (enqueue_merged sh j cb)))"
    using ages_supersede ages_mark ages_trans by blast
  then show ?thesis using submit_job_cases(4) [OF Accept, of cb] by (simp add: same_queues_def ages_def)
next
  case ClosedQueue
  then show ?thesis using submit_job_cases(1) by simp
next
  case Stale
  then show ?thesis using submit_job_cases(2) by (simp add: ages_def)
next
  case Full
  then show ?thesis using submit_job_cases(3) by (simp add: ages_def)
qed

lemma ages_cancel_session: "ages sh (cancel_session sh sid)"
proof -
  have "ages sh (forget_ready sid (sh\<lparr>sh_pending := p\<rparr>))" for p
    by (rule ages_frame) (simp_all add: forget_ready_def)
  moreover from this have "ages sh (cancel_active sid a (forget_ready sid (sh\<lparr>sh_pending := p\<rparr>)))"
    if "map_of (sh_active (forget_ready sid (sh\<lparr>sh_pending := p\<rparr>))) sid = Some a" for p a
    using ages_cancel_active [OF that] ages_trans by blast
  ultimately show ?thesis by (simp add: cancel_session_def Let_def split: option.split)
qed

lemma ages_invalidate: "ages sh (fst (invalidate sh sid ids))"
proof (cases "[] \<in> ids")
  case False
  define sh1 where "sh1 = (case map_of (sh_pending sh) sid of None \<Rightarrow> sh
     | Some q \<Rightarrow> (let remaining = filter (\<lambda>e. jb_segment (en_job e) \<notin> ids) q
         in if remaining \<noteq> [] then sh\<lparr>sh_pending := al_put sid remaining (sh_pending sh)\<rparr>
            else forget_ready sid (sh\<lparr>sh_pending := al_del sid (sh_pending sh)\<rparr>)))"
  have one: "ages sh sh1"
    by (rule ages_frame) (simp_all add: sh1_def Let_def forget_ready_def split: option.split)
  have "ages sh (cancel_active sid a sh1)" if "map_of (sh_active sh1) sid = Some a" for a
    using ages_trans [OF one ages_cancel_active [OF that]] .
  then show ?thesis using one False
    unfolding invalidate_def sh1_def [symmetric] by (simp split: option.split)
qed (simp add: invalidate_def)

lemma ages_take: assumes "sched_inv sh" shows "ages sh (fst (take_job sh))"
proof (cases "sh_closing sh \<or> sh_ready sh = []")
  case True
  then show ?thesis by (auto simp: take_job_def take_ready.simps [of sh])
next
  case False
  then obtain sid rest where r: "sh_ready sh = sid # rest" by (cases "sh_ready sh") auto
  show ?thesis
  proof (rule take_ready_head [OF assms r])
    fix e q a
    assume "a = \<lparr>ac_id = sh_next_active sh, ac_entry = e, ac_task = NoTask, ac_stale = False\<rparr>"
      "take_ready sh = (sh\<lparr>sh_ready := rest, sh_ready_set := sh_ready_set sh - {sid},
            sh_pending := (if q = [] then al_del sid (sh_pending sh) else al_put sid q (sh_pending sh)),
            sh_active := al_put sid a (sh_active sh), sh_next_active := Suc (sh_next_active sh)\<rparr>, Taken a)"
    then show ?thesis using False by (simp add: take_job_def ages_def)
  qed
qed

lemma ages_begin: "ages sh (fst (begin_execute sh sid now))"
  by (auto simp: begin_execute_def record_observation_def split: option.split intro: ages_put [of _ sid _ "_\<lparr>ac_task := TaskRunning\<rparr>"])

lemma ages_finish: "ages sh (fst (finish_execute sh sid outcome))"
  by (rule ages_frame)
     (simp_all add: finish_execute_def record_metric_def record_observation_def Let_def split: option.split)

lemma ages_release: "ages sh (release_worker sh sid aid)"
proof -
  have "ages sh (sh\<lparr>sh_active := al_del sid (sh_active sh)\<rparr>)"
    by (auto simp: ages_def split: if_splits)
  then have "ages sh (mark_ready sid (sh\<lparr>sh_active := al_del sid (sh_active sh)\<rparr>))"
    using ages_mark ages_trans by blast
  then show ?thesis by (simp add: release_worker_def split: option.split)
qed

lemma ages_close: assumes "distinct (map fst (sh_active sh))" shows "ages sh (close_scheduler sh)"
proof -
  have "ages t (foldl (\<lambda>s p. cancel_active (fst p) (snd p) s) t ps)"
    if "\<forall>p \<in> set ps. map_of (sh_active t) (fst p) = Some (snd p)" "distinct (map fst ps)" for t ps
    using that
  proof (induction ps arbitrary: t)
    case (Cons p ps)
    let ?t = "cancel_active (fst p) (snd p) t"
    have "ages t ?t" using Cons.prems(1) by (intro ages_cancel_active) simp
    moreover have "\<forall>r \<in> set ps. map_of (sh_active ?t) (fst r) = Some (snd r)"
      using Cons.prems by (force simp: cancel_active_def)
    ultimately show ?case using Cons ages_trans by fastforce
  qed simp
  moreover have "ages sh (sh\<lparr>sh_closing := True, sh_pending := [], sh_ready := [], sh_ready_set := {}\<rparr>)"
    by (rule ages_frame) simp_all
  ultimately show ?thesis
    unfolding close_scheduler_def using assms ages_trans by fastforce
qed

lemma ages_step: assumes "sched_step sh sh'" and "sched_inv sh" shows "ages sh sh'"
  using assms(1)
proof cases
  case step_close
  then show ?thesis using assms(2) by (simp add: ages_close sched_inv_def sched_maps_def)
qed (use assms(2) in \<open>simp_all add: ages_submit ages_cancel_session ages_invalidate ages_take ages_begin
       ages_finish ages_release callback_failed_def record_metric_def ages_frame\<close>)

lemma ages_steps: "sched_step\<^sup>*\<^sup>* sh sh' \<Longrightarrow> sched_inv sh \<Longrightarrow> ages sh sh' \<and> sched_inv sh'"
proof (induction rule: rtranclp_induct)
  case (step y z)
  then show ?case using ages_step sched_step_inv ages_trans by blast
qed simp

text \<open>The three ways a running job is cancelled mark it stale.\<close>

lemma cancel_session_stale:
  "map_of (sh_active sh) sid = Some a \<Longrightarrow>
     map_of (sh_active (cancel_session sh sid)) sid = Some b \<Longrightarrow> ac_stale b"
  using cancelled_active_at [of "forget_ready sid (sh\<lparr>sh_pending := al_del sid (sh_pending sh)\<rparr>)" sid a]
  by (auto simp: cancel_session_def forget_ready_def Let_def)

lemma invalidate_stale:
  assumes "map_of (sh_active sh) sid = Some a" "[] \<notin> ids" "jb_segment (en_job (ac_entry a)) \<in> ids"
    and "map_of (sh_active (fst (invalidate sh sid ids))) sid = Some b"
  shows "ac_stale b"
proof -
  define sh1 where "sh1 = (case map_of (sh_pending sh) sid of None \<Rightarrow> sh
     | Some q \<Rightarrow> (let remaining = filter (\<lambda>e. jb_segment (en_job e) \<notin> ids) q
         in if remaining \<noteq> [] then sh\<lparr>sh_pending := al_put sid remaining (sh_pending sh)\<rparr>
            else forget_ready sid (sh\<lparr>sh_pending := al_del sid (sh_pending sh)\<rparr>)))"
  have "sh_active sh1 = sh_active sh"
    by (simp add: sh1_def Let_def forget_ready_def split: option.split)
  then have at: "map_of (sh_active sh1) sid = Some a" using assms(1) by simp
  have "fst (invalidate sh sid ids) = cancel_active sid a sh1"
    using assms(2,3) at unfolding invalidate_def sh1_def [symmetric] by simp
  then show ?thesis using cancelled_active_at [OF at] assms(4) by auto
qed

lemma supersede_stale:
  assumes "map_of (sh_active sh) sid = Some a" "snd (submit_job sh j cb) = Inr ()"
    and "sid = jb_session j" "replaceable j (ac_entry a)"
    and "map_of (sh_active (fst (submit_job sh j cb))) sid = Some b"
  shows "ac_stale b"
proof -
  have acc: "submit_case_of sh j = Accept"
    using submit_job_cases [of sh j cb] assms(2) by (cases "submit_case_of sh j") auto
  have same: "same_queues (fst (submit_job sh j cb))
      (mark_ready sid (cancel_active sid a (enqueue_merged sh j cb)))"
    using submit_job_cases(4) [OF acc, of cb] assms by (simp add: supersede_active_def enqueue_merged_def)
  have "map_of (sh_active (enqueue_merged sh j cb)) sid = Some a" using assms(1) by (simp add: enqueue_merged_def)
  moreover have "sh_active (mark_ready sid t) = sh_active t" for t by (simp add: mark_ready_def)
  ultimately show ?thesis using cancelled_active_at same assms(5) by (fastforce simp: same_queues_def)
qed

text \<open>
  C8: A running job that has been cancelled never reaches its session. Let \<open>a\<close> be a job in the hands
  of a worker of a reachable scheduler, and let its session be cancelled, or its segment be
  invalidated, or an equal or newer revision of its segment be accepted while the job is not final.
  Whatever operations and worker moves follow, as long as that worker holds that job, the end of
  its backend call delivers nothing, whatever the backend answers.
\<close>

theorem cancelled_never_delivered:
  assumes reach: "sched_reachable sh" and act: "map_of (sh_active sh) sid = Some a"
    and cancelled: "sh1 = cancel_session sh sid
      \<or> [] \<notin> ids \<and> jb_segment (en_job (ac_entry a)) \<in> ids \<and> sh1 = fst (invalidate sh sid ids)
      \<or> snd (submit_job sh j cb) = Inr () \<and> jb_session j = sid \<and> replaceable j (ac_entry a)
          \<and> sh1 = fst (submit_job sh j cb)"
    and later: "sched_step\<^sup>*\<^sup>* sh1 sh'" and held: "map_of (sh_active sh') sid = Some b" "ac_id b = ac_id a"
  shows "ac_entry b = ac_entry a \<and> snd (finish_execute sh' sid outcome) = None"
proof -
  have inv: "sched_inv sh" using sched_reachable_inv [OF reach] by simp
  have one: "sched_step sh sh1" using cancelled step_cancel step_invalidate step_submit by blast
  have age: "ages sh sh1" "ages sh1 sh'"
    using ages_step [OF one inv] ages_steps [OF later sched_step_inv [OF one inv]] by simp_all
  have "ac_id a < sh_next_active sh"
    using inv act queue_shape_id unfolding sched_inv_def sched_shape_def by blast
  then have old: "ac_id b < sh_next_active sh" "ac_id b < sh_next_active sh1"
    using age(1) held(2) by (auto simp: ages_def)
  obtain c where c: "map_of (sh_active sh1) sid = Some c" "ac_id c = ac_id b" "ac_entry c = ac_entry b"
    "ac_stale c \<longrightarrow> ac_stale b" using age(2) held(1) old(2) unfolding ages_def by blast
  have "ac_entry c = ac_entry a" using age(1) c old(1) act unfolding ages_def by fastforce
  moreover have "ac_stale c"
    using cancelled cancel_session_stale [OF act] invalidate_stale [OF act] supersede_stale [OF act] c(1) by blast
  ultimately show ?thesis using c held(1) by (simp add: finish_execute_def)
qed

text \<open>The cancelled job of session \<open>A\<close> is still held after a worker has taken the next job.\<close>

lemma cancelled_never_delivered_witness:
  "let sh' = fst (take_job (cancel_session (fst (take_job sample_queues)) (lit ''A'')))
   in snd (finish_execute sh' (lit ''A'') (Returned \<lparr>re_text = lit ''na'', re_latency_ms = Fin 1\<rparr>)) = None
      \<and> active_count sh' = 2"
proof -
  let ?sh = "fst (take_job sample_queues)"
  let ?t = "cancel_session ?sh (lit ''A'')"
  have facts: "case (?sh, ()) of (sh, _) \<Rightarrow> (case (cancel_session sh (lit ''A''), ()) of (t, _) \<Rightarrow>
      map_option ac_id (map_of (sh_active sh) (lit ''A'')) = Some 0 \<and> int (active_count t) < sh_workers t
      \<and> map_option ac_id (map_of (sh_active (fst (take_job t))) (lit ''A'')) = Some 0
      \<and> active_count (fst (take_job t)) = 2)" "int (active_count sample_queues) < sh_workers sample_queues"
    by code_simp+
  then obtain a b where a: "map_of (sh_active ?sh) (lit ''A'') = Some a" "ac_id a = 0"
    and b: "map_of (sh_active (fst (take_job ?t))) (lit ''A'') = Some b" "ac_id b = 0"
    by auto
  have reach: "sched_reachable ?sh" by (rule reach_step [OF reach_queues step_take]) (rule facts(2))
  have "sched_step\<^sup>*\<^sup>* ?t (fst (take_job ?t))" using facts(1) by (intro r_into_rtranclp step_take) simp
  then show ?thesis
    using cancelled_never_delivered [OF reach a(1) disjI1 [OF refl] _ b(1)] a(2) b(2) facts(1) by (simp add: Let_def)
qed

subsection \<open>Every job is handed out\<close>

text \<open>One worker that takes a job and releases its session again, \<open>n\<close> times.\<close>

fun drain :: "nat \<Rightarrow> scheduler \<Rightarrow> job list \<times> scheduler" where
  "drain 0 sh = ([], sh)"
| "drain (Suc n) sh =
     (case take_job sh of
        (sh1, Taken a) \<Rightarrow>
          (case drain n (release_worker sh1 (jb_session (en_job (ac_entry a))) (ac_id a)) of
             (js, sh2) \<Rightarrow> (en_job (ac_entry a) # js, sh2))
      | (sh1, _) \<Rightarrow> ([], sh1))"

lemma pending_total_zero: "pending_total m = 0 \<Longrightarrow> map_of m sid = Some q \<Longrightarrow> q = []"
  by (induction m) (auto simp: pending_total_def split: if_splits)

lemma pending_count_zero: "pending_count sh = 0 \<Longrightarrow> queue_of sh sid = []"
  using pending_total_zero [of "sh_pending sh" sid] by (auto simp: pending_count_def queue_of_def split: option.split)

lemma pending_count_pos: "pending_count sh \<noteq> 0 \<Longrightarrow> \<exists>sid. map_of (sh_pending sh) sid \<noteq> None"
  by (cases "sh_pending sh") (auto simp: pending_count_def pending_total_def)

text \<open>One round: the head of the first ready session leaves its queue, nothing else changes.\<close>

lemma drain_round:
  assumes inv: "sched_inv sh" and idle: "sh_active sh = []" "\<not> sh_closing sh" and work: "pending_count sh \<noteq> 0"
  obtains sh1 a sid q where "take_job sh = (sh1, Taken a)"
    and "sid = jb_session (en_job (ac_entry a))" "queue_of sh sid = ac_entry a # q"
    and "sched_inv (release_worker sh1 sid (ac_id a))" "sh_active (release_worker sh1 sid (ac_id a)) = []"
    and "\<not> sh_closing (release_worker sh1 sid (ac_id a))"
    and "Suc (pending_count (release_worker sh1 sid (ac_id a))) = pending_count sh"
    and "queue_of (release_worker sh1 sid (ac_id a)) = (queue_of sh)(sid := q)"
proof -
  obtain x where x: "map_of (sh_pending sh) x \<noteq> None" using pending_count_pos [OF work] by blast
  have "sh_ready sh \<noteq> []"
    using inv idle(1) x unfolding sched_inv_def sched_shape_def queue_shape_def by (metis empty_iff list.set(1) map_of.simps(1))
  then obtain sid rest where ready: "sh_ready sh = sid # rest" by (cases "sh_ready sh") auto
  from take_ready_head [OF inv ready] obtain e q a where q: "queue_of sh sid = e # q"
    and a: "a = \<lparr>ac_id = sh_next_active sh, ac_entry = e, ac_task = NoTask, ac_stale = False\<rparr>"
    and t: "take_ready sh = (sh\<lparr>sh_ready := rest, sh_ready_set := sh_ready_set sh - {sid},
            sh_pending := (if q = [] then al_del sid (sh_pending sh) else al_put sid q (sh_pending sh)),
            sh_active := al_put sid a (sh_active sh), sh_next_active := Suc (sh_next_active sh)\<rparr>, Taken a)" .
  define sh1 where "sh1 = fst (take_ready sh)"
  have take: "take_job sh = (sh1, Taken a)" using idle t by (simp add: take_job_def sh1_def)
  have sid: "jb_session (en_job e) = sid" using queue_of_session [OF inv, of e sid] q by simp
  define sh2 where "sh2 = release_worker sh1 sid (ac_id a)"
  have inv2: "sched_inv sh2"
    using sched_inv_release [OF sched_inv_take [OF inv]] take by (simp add: sh2_def)
  have act: "sh_active sh2 = []"
    using t idle by (simp add: sh2_def sh1_def release_worker_def mark_ready_def al_del_def)
  have cl: "\<not> sh_closing sh2"
    using t idle by (simp add: sh2_def sh1_def release_worker_def mark_ready_def)
  have pend: "sh_pending sh2 = (if q = [] then al_del sid (sh_pending sh) else al_put sid q (sh_pending sh))"
    using t by (simp add: sh2_def sh1_def release_worker_def mark_ready_def split: option.split)
  have m: "map_of (sh_pending sh) sid = Some (e # q)" using queue_of_Some [of sh sid] q by simp
  have dist: "distinct (map fst (sh_pending sh))" using inv by (simp add: sched_inv_def sched_maps_def)
  have "Suc (pending_count sh2) = pending_count sh"
    using pending_total_put [OF dist, of sid q] pending_total_del [OF dist, of sid] m pend
    by (auto simp: pending_count_def)
  moreover have "queue_of sh2 = (queue_of sh)(sid := q)"
    using pend by (auto simp: queue_of_def fun_eq_iff)
  ultimately show ?thesis
    using that [OF take, of sid q] sid q a inv2 act cl by (simp add: sh2_def)
qed

lemma drain_all:
  assumes "sched_inv sh" "sh_active sh = []" "\<not> sh_closing sh" "pending_count sh = n"
  shows "pending_count (snd (drain n sh)) = 0
    \<and> filter (\<lambda>j. jb_session j = sid) (fst (drain n sh)) = queued_jobs sh sid"
  using assms
proof (induction n arbitrary: sh)
  case 0
  then show ?case by (simp add: queued_jobs_def pending_count_zero)
next
  case (Suc n)
  then obtain sh1 a x q where r: "take_job sh = (sh1, Taken a)"
    "x = jb_session (en_job (ac_entry a))" "queue_of sh x = ac_entry a # q"
    "sched_inv (release_worker sh1 x (ac_id a))" "sh_active (release_worker sh1 x (ac_id a)) = []"
    "\<not> sh_closing (release_worker sh1 x (ac_id a))"
    "Suc (pending_count (release_worker sh1 x (ac_id a))) = pending_count sh"
    "queue_of (release_worker sh1 x (ac_id a)) = (queue_of sh)(x := q)"
    using drain_round [of sh] by (metis nat.distinct(1))
  have "pending_count (release_worker sh1 x (ac_id a)) = n" using r(7) Suc.prems(4) by simp
  note ih = Suc.IH [OF r(4-6) this]
  have d: "drain (Suc n) sh = (en_job (ac_entry a) # fst (drain n (release_worker sh1 x (ac_id a))),
      snd (drain n (release_worker sh1 x (ac_id a))))"
    using r(1,2) by (simp split: prod.split)
  show ?case unfolding d using ih r(2,3,8) by (auto simp: queued_jobs_def)
qed

text \<open>
  C9: No queued job is lost or starved: from any reachable state with no running job and the scheduler
  open, a single worker that takes and finishes as many jobs as are pending empties all queues and
  has been handed, for every session, exactly its queued jobs in their order.
\<close>

theorem scheduler_drains:
  assumes "sched_reachable sh" and "sh_active sh = []" and "\<not> sh_closing sh"
  shows "pending_count (snd (drain (pending_count sh) sh)) = 0
    \<and> filter (\<lambda>j. jb_session j = sid) (fst (drain (pending_count sh) sh)) = queued_jobs sh sid"
  using drain_all sched_reachable_inv [OF assms(1)] assms(2,3) by blast

lemma scheduler_drains_witness:
  "pending_count sample_queues = 3 \<and> pending_count (snd (drain 3 sample_queues)) = 0"
proof -
  have "pending_count sample_queues = 3 \<and> sh_active sample_queues = [] \<and> \<not> sh_closing sample_queues" by code_simp
  then show ?thesis using scheduler_drains [OF reach_queues, of "lit ''A''"] by simp
qed

end
