(* ===== verification/SessionManager.thy ===== *)
theory SessionManager
  imports SessionServe SchedulerProps
begin

text \<open>
  Model of \<^verbatim>\<open>src/app/session/manager.py\<close>: the bounded table of sessions and the capability tokens.
  The scheduler and the metrics are shared by all sessions; a session runs on the manager's current
  scheduler and leaves its changes there. The random token and identifier and the digest function are
  arguments (\<open>secrets\<close> and \<open>hashlib.sha256\<close> of the standard library).
\<close>

record manager =
  mg_settings :: settings
  mg_sched :: scheduler
  mg_sessions :: "(ustring \<times> session) list"
  mg_cleanup :: bool

definition new_manager :: "settings \<Rightarrow> scheduler \<Rightarrow> manager" where
  "new_manager st sh = \<lparr>mg_settings = st, mg_sched = sh, mg_sessions = [], mg_cleanup = False\<rparr>"

definition start_cleanup :: "manager \<Rightarrow> manager" where
  "start_cleanup mg = mg\<lparr>mg_cleanup := True\<rparr>"

definition gauge_sessions :: "manager \<Rightarrow> manager" where
  "gauge_sessions mg = mg\<lparr>mg_sched := (mg_sched mg)\<lparr>sh_metrics :=
     metrics_gauge (sh_metrics (mg_sched mg)) ''active_sessions'' (of_nat (length (mg_sessions mg)))\<rparr>\<rparr>"

definition create_entry ::
    "unidb \<Rightarrow> (ustring \<Rightarrow> ustring) \<Rightarrow> rat \<Rightarrow> ustring \<Rightarrow> ustring \<Rightarrow> session_config \<Rightarrow> manager \<Rightarrow> manager \<times> unit res" where
  "create_entry uc digest now token sid co mg =
     (if int (length (mg_sessions mg)) \<ge> se_max_sessions (mg_settings mg)
        then (mg, Inl (ValueError ''SESSION_CAPACITY''))
      else
        (case new_session uc sid co (mg_settings mg) (mg_sched mg) now of
           (s, Inl e) \<Rightarrow> (mg, Inl e)
         | (s, Inr _) \<Rightarrow>
             (gauge_sessions (mg\<lparr>mg_sessions := al_put sid (s\<lparr>ss_token_hash := digest token\<rparr>) (mg_sessions mg)\<rparr>),
              Inr ())))"

definition authorized :: "(ustring \<Rightarrow> ustring) \<Rightarrow> ustring \<Rightarrow> ustring \<Rightarrow> manager \<Rightarrow> session option" where
  "authorized digest sid token mg =
     (case map_of (mg_sessions mg) sid of
        None \<Rightarrow> None
      | Some s \<Rightarrow>
          if ss_closed s \<or> token = [] \<or> length token > 256 then None
          else if ss_token_hash s \<noteq> digest token then None
          else Some s)"

text \<open>A handler of one session runs on the shared scheduler.\<close>

definition run_session :: "ustring \<Rightarrow> (session \<Rightarrow> session) \<Rightarrow> manager \<Rightarrow> manager" where
  "run_session sid f mg =
     (case map_of (mg_sessions mg) sid of
        None \<Rightarrow> mg
      | Some s \<Rightarrow>
          (let t = f (s\<lparr>ss_sched := mg_sched mg\<rparr>)
           in mg\<lparr>mg_sessions := al_put sid t (mg_sessions mg), mg_sched := ss_sched t\<rparr>))"

definition delete_entry :: "ustring \<Rightarrow> manager \<Rightarrow> manager" where
  "delete_entry sid mg =
     gauge_sessions
       (case map_of (mg_sessions mg) sid of
          None \<Rightarrow> mg
        | Some s \<Rightarrow>
            mg\<lparr>mg_sessions := al_del sid (mg_sessions mg),
                mg_sched := ss_sched (close_session (s\<lparr>ss_sched := mg_sched mg\<rparr>))\<rparr>)"

definition cleanup :: "rat \<Rightarrow> manager \<Rightarrow> manager" where
  "cleanup now mg =
     (let cutoff = now - se_session_inactivity (mg_settings mg)
      in foldl (\<lambda>m p. if ss_last_activity (snd p) < cutoff then delete_entry (fst p) m else m) mg (mg_sessions mg))"

definition close_manager :: "manager \<Rightarrow> manager" where
  "close_manager mg =
     foldl (\<lambda>m p. delete_entry (fst p) m) (mg\<lparr>mg_cleanup := False\<rparr>) (mg_sessions mg)"

subsection \<open>Entries\<close>

lemma gauge_frame [simp]:
  "mg_sessions (gauge_sessions mg) = mg_sessions mg" "mg_settings (gauge_sessions mg) = mg_settings mg"
  "queue_of (mg_sched (gauge_sessions mg)) = queue_of (mg_sched mg)"
  by (simp_all add: gauge_sessions_def queue_of_def fun_eq_iff)

lemma delete_sessions: "mg_sessions (delete_entry sid mg) = al_del sid (mg_sessions mg)"
proof (cases "map_of (mg_sessions mg) sid")
  case None
  then have "sid \<notin> set (map fst (mg_sessions mg))" by (simp add: map_of_eq_None_iff)
  then show ?thesis using None by (simp add: delete_entry_def al_del_absent)
qed (simp add: delete_entry_def)

lemma delete_settings [simp]: "mg_settings (delete_entry sid mg) = mg_settings mg"
  by (simp add: delete_entry_def split: option.split)

lemma delete_queue:
  assumes "map_of (mg_sessions mg) sid = Some s"
  shows "queue_of (mg_sched (delete_entry sid mg)) x =
     (if x = ss_id s then [] else queue_of (mg_sched mg) x)"
proof -
  let ?s = "cancel_timers (s\<lparr>ss_sched := mg_sched mg, ss_closed := True, ss_generation := ss_generation s + 1\<rparr>)"
  have "ss_sched (close_session (s\<lparr>ss_sched := mg_sched mg\<rparr>)) = cancel_session (mg_sched mg) (ss_id s)"
    by (simp add: close_session_def cancel_timers_def Let_def split: option.split)
  then have "queue_of (mg_sched (delete_entry sid mg)) x = queue_of (serve_request (CancelRequest (ss_id s)) (mg_sched mg)) x"
    using assms by (simp add: delete_entry_def)
  then show ?thesis using queue_of_other [of "CancelRequest (ss_id s)" x "mg_sched mg"] queue_of_cancelled
    by (cases "x = ss_id s") auto
qed

subsection \<open>Invariant\<close>

text \<open>
  Every entry is an open session under its own identifier, each identifier occurs once, and their
  number is within the limit.
\<close>

definition manager_ok :: "manager \<Rightarrow> bool" where
  "manager_ok mg \<longleftrightarrow> distinct (map fst (mg_sessions mg))
     \<and> (\<forall>p \<in> set (mg_sessions mg). ss_id (snd p) = fst p \<and> \<not> ss_closed (snd p))
     \<and> int (length (mg_sessions mg)) \<le> max 0 (se_max_sessions (mg_settings mg))"

text \<open>The steps of a manager; a handler of a session keeps its identity and leaves it open.\<close>

inductive manager_step :: "unidb \<Rightarrow> (ustring \<Rightarrow> ustring) \<Rightarrow> manager \<Rightarrow> manager \<Rightarrow> bool" for uc digest where
  manage_create: "map_of (mg_sessions mg) sid = None \<Longrightarrow>
     manager_step uc digest mg (fst (create_entry uc digest now token sid co mg))"
| manage_run: "(\<And>s. ss_id (f s) = ss_id s \<and> ss_closed (f s) = ss_closed s) \<Longrightarrow>
     manager_step uc digest mg (run_session sid f mg)"
| manage_delete: "manager_step uc digest mg (delete_entry sid mg)"
| manage_cleanup: "manager_step uc digest mg (cleanup now mg)"
| manage_close: "manager_step uc digest mg (close_manager mg)"
| manage_start: "manager_step uc digest mg (start_cleanup mg)"

inductive manager_reachable :: "unidb \<Rightarrow> (ustring \<Rightarrow> ustring) \<Rightarrow> settings \<Rightarrow> manager \<Rightarrow> bool" for uc digest st where
  manager_init: "manager_reachable uc digest st (new_manager st sh)"
| manager_more: "manager_reachable uc digest st mg \<Longrightarrow> manager_step uc digest mg mg' \<Longrightarrow>
     manager_reachable uc digest st mg'"

lemma al_put_entry: "p \<in> set (al_put k v m) \<Longrightarrow> p = (k, v) \<or> p \<in> set m"
  by (induction k v m rule: al_put.induct) (auto split: if_splits)

lemma delete_ok: assumes "manager_ok mg" shows "manager_ok (delete_entry sid mg)"
proof -
  have "length (al_del sid (mg_sessions mg)) \<le> length (mg_sessions mg)" by (simp add: al_del_def)
  moreover have "set (al_del sid (mg_sessions mg)) \<subseteq> set (mg_sessions mg)" by (auto simp: al_del_def)
  moreover have "distinct (map fst (al_del sid (mg_sessions mg)))"
    using assms by (simp add: manager_ok_def distinct_al_del)
  ultimately show ?thesis using assms unfolding manager_ok_def delete_sessions delete_settings by fastforce
qed

lemma delete_many_ok: "manager_ok mg \<Longrightarrow> manager_ok (foldl (\<lambda>m p. if P p then delete_entry (fst p) m else m) mg ps)"
  by (induction ps arbitrary: mg) (auto simp: delete_ok)

lemma new_session_identity:
  "new_session uc sid co st sh now = (s, r) \<Longrightarrow> ss_id s = sid \<and> \<not> ss_closed s"
  by (auto simp: new_session_def set_config_def done_step_def Let_def split: if_splits sum.splits)

lemma create_ok:
  assumes "manager_ok mg" "map_of (mg_sessions mg) sid = None"
  shows "manager_ok (fst (create_entry uc digest now token sid co mg))"
proof (cases "int (length (mg_sessions mg)) \<ge> se_max_sessions (mg_settings mg)")
  case True
  then show ?thesis using assms by (simp add: create_entry_def)
next
  case False
  obtain s r where n: "new_session uc sid co (mg_settings mg) (mg_sched mg) now = (s, r)" by fastforce
  have len: "length (al_put sid v (mg_sessions mg)) \<le> Suc (length (mg_sessions mg))" for v
    by (rule length_al_put_new)
  show ?thesis
  proof (cases r)
    case (Inr u)
    have "manager_ok (mg\<lparr>mg_sessions := al_put sid (s\<lparr>ss_token_hash := digest token\<rparr>) (mg_sessions mg)\<rparr>)"
      using assms(1) new_session_identity [OF n] False len [of "s\<lparr>ss_token_hash := digest token\<rparr>"]
      unfolding manager_ok_def by (auto simp: distinct_al_put dest!: al_put_entry)
    then show ?thesis using n Inr False by (simp add: create_entry_def manager_ok_def)
  qed (use assms n False in \<open>simp add: create_entry_def\<close>)
qed

lemma run_ok:
  assumes ok: "manager_ok mg" and f: "\<And>s. ss_id (f s) = ss_id s \<and> ss_closed (f s) = ss_closed s"
  shows "manager_ok (run_session sid f mg)"
proof (cases "map_of (mg_sessions mg) sid")
  case (Some s)
  have s: "ss_id s = sid" "\<not> ss_closed s" using ok map_of_SomeD [OF Some] by (auto simp: manager_ok_def)
  have "length (al_put sid v (mg_sessions mg)) = length (mg_sessions mg)" for v
    using map_of_in_fst [OF Some] by (rule length_al_put_old)
  moreover define t where "t = f (s\<lparr>ss_sched := mg_sched mg\<rparr>)"
  moreover have "ss_id t = sid" "\<not> ss_closed t" using f s by (simp_all add: t_def)
  moreover have "mg_sessions (run_session sid f mg) = al_put sid t (mg_sessions mg)"
    "mg_settings (run_session sid f mg) = mg_settings mg"
    using Some by (simp_all add: run_session_def t_def Let_def)
  ultimately show ?thesis using ok unfolding manager_ok_def
    by (metis (no_types, lifting) al_put_entry distinct_al_put fst_conv snd_conv)
qed (use ok in \<open>simp add: run_session_def\<close>)

lemma manager_step_ok: "manager_step uc digest mg mg' \<Longrightarrow> manager_ok mg \<Longrightarrow> manager_ok mg'"
proof (induction rule: manager_step.induct)
  case (manage_cleanup mg now)
  then show ?case
    using delete_many_ok [of mg "\<lambda>p. ss_last_activity (snd p) < now - se_session_inactivity (mg_settings mg)"]
    by (simp add: cleanup_def Let_def)
next
  case (manage_close mg)
  have "manager_ok (mg\<lparr>mg_cleanup := False\<rparr>)" using manage_close by (simp add: manager_ok_def)
  from delete_many_ok [OF this, of "\<lambda>p. True"] show ?case by (simp add: close_manager_def)
next
  case (manage_start mg)
  then show ?case by (simp add: start_cleanup_def manager_ok_def)
qed (simp_all add: create_ok run_ok delete_ok)

lemma manager_reachable_ok: "manager_reachable uc digest st mg \<Longrightarrow> manager_ok mg"
proof (induction rule: manager_reachable.induct)
  case (manager_init sh)
  then show ?case by (simp add: new_manager_def manager_ok_def)
next
  case (manager_more mg mg')
  then show ?case using manager_step_ok by blast
qed

subsection \<open>Properties\<close>

lemma delete_many_settings [simp]:
  "mg_settings (foldl (\<lambda>m p. if P p then delete_entry (fst p) m else m) mg ps) = mg_settings mg"
  by (induction ps arbitrary: mg) auto

lemma manager_step_settings: "manager_step uc digest mg mg' \<Longrightarrow> mg_settings mg' = mg_settings mg"
proof (induction rule: manager_step.induct)
  case (manage_create mg sid now token co)
  then show ?case by (simp add: create_entry_def split: prod.split sum.split)
next
  case (manage_close mg)
  then show ?case
    using delete_many_settings [of "\<lambda>p. True" "mg\<lparr>mg_cleanup := False\<rparr>" "mg_sessions mg"]
    by (simp add: close_manager_def)
qed (simp_all add: run_session_def cleanup_def start_cleanup_def Let_def split: option.split)

lemma manager_reachable_settings: "manager_reachable uc digest st mg \<Longrightarrow> mg_settings mg = st"
  by (induction rule: manager_reachable.induct) (auto simp: new_manager_def dest: manager_step_settings)

text \<open>
  The table of sessions is bounded and consistent in every reachable state: at most
  \<open>max_sessions\<close> entries, each an open session filed once under its own identifier.
\<close>

theorem manager_invariant:
  assumes "manager_reachable uc digest st mg" and "settings_ok st"
  shows "int (length (mg_sessions mg)) \<le> se_max_sessions st \<and> distinct (map fst (mg_sessions mg))
    \<and> (\<forall>(sid, s) \<in> set (mg_sessions mg). ss_id s = sid \<and> \<not> ss_closed s)"
proof -
  have "1 \<le> se_max_sessions st" using assms(2) by (simp add: settings_ok_unfold settings_in_range_def between_def)
  then show ?thesis
    using manager_reachable_ok [OF assms(1)] manager_reachable_settings [OF assms(1)]
    by (auto simp: manager_ok_def)
qed

definition sample_manager :: manager where
  "sample_manager = fst (create_entry ascii_db (\<lambda>t. t) 0 (lit ''key'') (lit ''S'') default_config
     (new_manager default_settings sample_empty))"

lemma reach_manager: "manager_reachable ascii_db (\<lambda>t. t) default_settings sample_manager"
  unfolding sample_manager_def
  by (rule manager_more [OF manager_init manage_create]) (simp add: new_manager_def)

lemma sample_manager_entry: "map fst (mg_sessions sample_manager) = [lit ''S'']
    \<and> map (\<lambda>p. ss_last_activity (snd p)) (mg_sessions sample_manager) = [0]"
  by code_simp

lemma manager_invariant_witness:
  "length (mg_sessions sample_manager) = 1 \<and> int (length (mg_sessions sample_manager)) \<le> 32"
proof -
  have "se_max_sessions default_settings = 32" by code_simp
  moreover have "length (map fst (mg_sessions sample_manager)) = 1" using sample_manager_entry by simp
  ultimately show ?thesis using manager_invariant [OF reach_manager default_settings_ok] by simp
qed

text \<open>
  A session opens only to its own capability: under a collision-free digest, after a successful
  creation the new session is authorized for exactly the token issued with it, and what every other
  session is authorized for is unchanged.
\<close>

theorem capability_exact:
  assumes "inj digest" and "create_entry uc digest now token sid co mg = (mg', Inr ())"
    and "token \<noteq> []" and "length token \<le> 256"
  shows "(authorized digest sid tok mg' \<noteq> None \<longleftrightarrow> tok = token)
    \<and> (other \<noteq> sid \<longrightarrow> authorized digest other tok mg' = authorized digest other tok mg)"
proof -
  obtain s r where n: "new_session uc sid co (mg_settings mg) (mg_sched mg) now = (s, r)" by fastforce
  have mg': "mg' = gauge_sessions (mg\<lparr>mg_sessions := al_put sid (s\<lparr>ss_token_hash := digest token\<rparr>) (mg_sessions mg)\<rparr>)"
    using assms(2) n by (auto simp: create_entry_def split: if_splits sum.splits)
  have look: "map_of (mg_sessions mg') = (map_of (mg_sessions mg))(sid \<mapsto> s\<lparr>ss_token_hash := digest token\<rparr>)"
    by (simp add: mg')
  have "\<not> ss_closed s" using new_session_identity [OF n] by simp
  then show ?thesis using assms(3,4) unfolding authorized_def look
    by (auto simp: inj_eq [OF assms(1)])
qed

lemma capability_exact_witness:
  "authorized (\<lambda>t. t) (lit ''S'') (lit ''key'') sample_manager \<noteq> None
     \<and> authorized (\<lambda>t. t) (lit ''S'') (lit ''kez'') sample_manager = None"
proof -
  define c where "c = create_entry ascii_db (\<lambda>t. t) 0 (lit ''key'') (lit ''S'') default_config
     (new_manager default_settings sample_empty)"
  have "snd c = Inr ()" unfolding c_def by code_simp
  then have "c = (sample_manager, Inr ())" by (cases c) (simp add: sample_manager_def c_def [symmetric])
  note issued = this [unfolded c_def]
  have t: "lit ''key'' \<noteq> []" "length (lit ''key'') \<le> 256" "lit ''kez'' \<noteq> lit ''key''" by (simp_all add: lit_def)
  have i: "inj (\<lambda>t :: ustring. t)" by (simp add: inj_on_def)
  have "authorized (\<lambda>t. t) (lit ''S'') tok sample_manager \<noteq> None \<longleftrightarrow> tok = lit ''key''" for tok
    using capability_exact [OF i issued t(1,2), of tok] by (rule conjunct1)
  then show ?thesis using t(3) by blast
qed

lemma delete_many_sessions:
  "mg_sessions (foldl (\<lambda>m p. if P p then delete_entry (fst p) m else m) mg ps)
     = filter (\<lambda>q. \<forall>p \<in> set ps. P p \<longrightarrow> fst p \<noteq> fst q) (mg_sessions mg)"
proof (induction ps arbitrary: mg)
  case (Cons p ps)
  show ?case
  proof (cases "P p")
    case True
    then show ?thesis using Cons by (simp add: delete_sessions al_del_def) (rule filter_cong, auto)
  qed (use Cons in \<open>simp\<close>)
qed simp

lemma delete_many_queue:
  assumes "manager_ok mg" and "distinct (map fst ps)" and "set ps \<subseteq> set (mg_sessions mg)"
  shows "queue_of (mg_sched (foldl (\<lambda>m p. if P p then delete_entry (fst p) m else m) mg ps)) x
     = (if \<exists>p \<in> set ps. P p \<and> fst p = x then [] else queue_of (mg_sched mg) x)"
  using assms
proof (induction ps arbitrary: mg)
  case (Cons p ps)
  show ?case
  proof (cases "P p")
    case True
    have dist: "distinct (map fst (mg_sessions mg))" and p: "p \<in> set (mg_sessions mg)" "ss_id (snd p) = fst p"
      using Cons.prems by (auto simp: manager_ok_def)
    have at: "map_of (mg_sessions mg) (fst p) = Some (snd p)" using dist p(1) by (simp add: map_of_is_SomeI)
    have "fst q \<noteq> fst p" if "q \<in> set ps" for q
      using Cons.prems(2) that by (metis distinct.simps(2) image_eqI list.simps(9) set_map)
    then have sub: "set ps \<subseteq> set (mg_sessions (delete_entry (fst p) mg))"
      using Cons.prems(3) by (auto simp: delete_sessions al_del_def)
    have "distinct (map fst ps)" using Cons.prems(2) by simp
    from Cons.IH [OF delete_ok [OF Cons.prems(1)] this sub]
    have "queue_of (mg_sched (foldl (\<lambda>m p. if P p then delete_entry (fst p) m else m) (delete_entry (fst p) mg) ps)) x
        = (if \<exists>q \<in> set ps. P q \<and> fst q = x then []
           else if x = fst p then [] else queue_of (mg_sched mg) x)"
      unfolding delete_queue [OF at] p(2) .
    then show ?thesis using True by auto
  qed (use Cons in auto)
qed simp

text \<open>
  The clean-up removes exactly the sessions whose last activity is older than the configured
  limit, in any reachable state: the others stay in their order with their queued work, and no job of
  a removed session stays queued.
\<close>

theorem cleanup_exact:
  assumes "manager_reachable uc digest st mg"
  shows "mg_sessions (cleanup now mg) = filter (\<lambda>p. now - se_session_inactivity st \<le> ss_last_activity (snd p)) (mg_sessions mg)
    \<and> (\<forall>p \<in> set (mg_sessions mg). queued_jobs (mg_sched (cleanup now mg)) (fst p)
         = (if now - se_session_inactivity st \<le> ss_last_activity (snd p) then queued_jobs (mg_sched mg) (fst p) else []))"
proof -
  have ok: "manager_ok mg" and st: "mg_settings mg = st"
    using manager_reachable_ok [OF assms] manager_reachable_settings [OF assms] by auto
  have dist: "distinct (map fst (mg_sessions mg))" using ok by (simp add: manager_ok_def)
  define P where "P = (\<lambda>p :: ustring \<times> session. ss_last_activity (snd p) < now - se_session_inactivity st)"
  have same: "p = q" if "p \<in> set (mg_sessions mg)" "q \<in> set (mg_sessions mg)" "fst p = fst q" for p q
    using dist that by (meson distinct_map inj_onD)
  have c: "cleanup now mg = foldl (\<lambda>m p. if P p then delete_entry (fst p) m else m) mg (mg_sessions mg)"
    by (simp add: cleanup_def st P_def)
  have "mg_sessions (cleanup now mg) = filter (\<lambda>q. \<not> P q) (mg_sessions mg)"
    unfolding c delete_many_sessions using same by (intro filter_cong) auto
  moreover have "queued_jobs (mg_sched (cleanup now mg)) (fst p) = (if P p then [] else queued_jobs (mg_sched mg) (fst p))"
    if "p \<in> set (mg_sessions mg)" for p
  proof -
    have "(\<exists>q \<in> set (mg_sessions mg). P q \<and> fst q = fst p) \<longleftrightarrow> P p" using same [OF _ that] that by metis
    then show ?thesis unfolding c queued_jobs_def delete_many_queue [OF ok dist order_refl] by simp
  qed
  ultimately show ?thesis by (simp add: P_def not_less)
qed

lemma cleanup_exact_witness:
  "mg_sessions (cleanup 2000 sample_manager) = [] \<and> mg_sessions (cleanup 1000 sample_manager) = mg_sessions sample_manager"
proof -
  obtain s where s: "mg_sessions sample_manager = [(lit ''S'', s)]" "ss_last_activity s = 0"
    using sample_manager_entry by (cases "mg_sessions sample_manager") auto
  have "se_session_inactivity default_settings = 1800" by code_simp
  then show ?thesis using cleanup_exact [OF reach_manager] s by simp
qed

end
