(* ===== verification/SessionInv.thy ===== *)
theory SessionInv
  imports SessionServe SchedulerInv Revision
begin

text \<open>
  The source invariant of a session: the segments of every utterance tile its text from the start
  to the selected end, each carrying its exact slice, and segment identifiers are never reused. It
  reads only the \<^emph>\<open>source view\<close> of a session (segment keys, utterance texts with selected ends, the
  segment counter), so most operations preserve it because they do not change that view.
\<close>

subsection \<open>Source view\<close>

record seg_key =
  sk_id :: ustring
  sk_utterance :: ustring
  sk_start :: nat
  sk_end :: nat
  sk_source :: ustring

definition key_of :: "segment \<Rightarrow> seg_key" where
  "key_of g = \<lparr>sk_id = sg_id g, sk_utterance = sg_utterance g, sk_start = sg_start g, sk_end = sg_end g,
     sk_source = sg_source g\<rparr>"

definition keys :: "session \<Rightarrow> seg_key list" where
  "keys s = map key_of (ss_segments s)"

definition sources :: "session \<Rightarrow> ustring \<Rightarrow> (ustring \<times> nat) option" where
  "sources s uid = map_option (\<lambda>u. (ut_text u, ut_selected_end u)) (map_of (ss_utterances s) uid)"

definition same_source :: "session \<Rightarrow> session \<Rightarrow> bool" where
  "same_source a b \<longleftrightarrow> keys a = keys b \<and> sources a = sources b \<and> ss_next_segment a = ss_next_segment b"

lemma same_source_refl [simp, intro!]: "same_source s s"
  by (simp add: same_source_def)

lemma same_source_trans [trans]: "same_source a b \<Longrightarrow> same_source b c \<Longrightarrow> same_source a c"
  by (simp add: same_source_def)

lemma key_of_frame [simp]:
  "key_of (g\<lparr>sg_committer := x1\<rparr>) = key_of g"
  "key_of (g\<lparr>sg_committed := x2\<rparr>) = key_of g"
  "key_of (g\<lparr>sg_status := x3\<rparr>) = key_of g"
  "key_of (g\<lparr>sg_translation := x4\<rparr>) = key_of g"
  by (simp_all add: key_of_def)

lemma key_fields [simp]:
  "sk_id (key_of g) = sg_id g" "sk_utterance (key_of g) = sg_utterance g" "sk_start (key_of g) = sg_start g"
  "sk_end (key_of g) = sg_end g" "sk_source (key_of g) = sg_source g"
  by (simp_all add: key_of_def)

text \<open>Record updates outside the view.\<close>

lemma same_source_fields [simp]:
  "same_source (s\<lparr>ss_sched := x1\<rparr>) t = same_source s t" "same_source (s\<lparr>ss_last_activity := x2\<rparr>) t = same_source s t"
  "same_source (s\<lparr>ss_events := x3\<rparr>) t = same_source s t" "same_source (s\<lparr>ss_queue := x4\<rparr>) t = same_source s t"
  "same_source (s\<lparr>ss_tasks := x5\<rparr>) t = same_source s t" "same_source (s\<lparr>ss_timers := x6\<rparr>) t = same_source s t"
  "same_source (s\<lparr>ss_next_task := x7\<rparr>) t = same_source s t" "same_source (s\<lparr>ss_revision := x8\<rparr>) t = same_source s t"
  "same_source (s\<lparr>ss_active := x9\<rparr>) t = same_source s t" "same_source (s\<lparr>ss_context := y1\<rparr>) t = same_source s t"
  "same_source (s\<lparr>ss_auto_id := y2\<rparr>) t = same_source s t" "same_source (s\<lparr>ss_last_sequence := y3\<rparr>) t = same_source s t"
  "same_source (s\<lparr>ss_first_asr := y4\<rparr>) t = same_source s t" "same_source (s\<lparr>ss_first_translation := y5\<rparr>) t = same_source s t"
  "same_source (s\<lparr>ss_generation := y6\<rparr>) t = same_source s t" "same_source (s\<lparr>ss_closed := y7\<rparr>) t = same_source s t"
  "same_source (s\<lparr>ss_config := y8\<rparr>) t = same_source s t" "same_source (s\<lparr>ss_threshold := y9\<rparr>) t = same_source s t"
  "same_source (s\<lparr>ss_policy := z1\<rparr>) t = same_source s t" "same_source (s\<lparr>ss_glossary := z2\<rparr>) t = same_source s t"
  "same_source (s\<lparr>ss_next_utterance := z3\<rparr>) t = same_source s t"
  by (simp_all add: same_source_def keys_def sources_def fun_eq_iff)

lemma same_source_primitives [simp]:
  "same_source (metric_inc n s) t = same_source s t" "same_source (metric_obs n v s) t = same_source s t"
  "same_source (touch now s) t = same_source s t" "same_source (emit now e s) t = same_source s t"
  "same_source (emit_error now c m s) t = same_source s t"
  "same_source (emit_snapshot uc now k s) t = same_source s t"
  "same_source (add_task key kind due s) t = same_source s t" "same_source (arm cur now uid d s) t = same_source s t"
  "same_source (arm_commit now gid s) t = same_source s t" "same_source (cancel_timers s) t = same_source s t"
  "same_source (finish_task tm s) t = same_source s t" "same_source (first_result now s) t = same_source s t"
  by (simp_all add: metric_inc_def metric_obs_def touch_def emit_def emit_error_def emit_snapshot_def
      add_task_def arm_def arm_commit_def cancel_timers_def finish_task_def first_result_def Let_def
      split: option.split)

lemma same_source_map_segment [simp]:
  assumes "\<And>g. key_of (f g) = key_of g"
  shows "same_source (map_segment gid f s) t = same_source s t"
proof -
  have "key_of \<circ> (\<lambda>g. if sg_id g = gid then f g else g) = key_of" using assms by auto
  then have "keys (map_segment gid f s) = keys s" by (simp add: keys_def map_segment_def)
  moreover have "sources (map_segment gid f s) = sources s" by (rule ext) (simp add: sources_def map_segment_def)
  ultimately show ?thesis by (simp add: same_source_def map_segment_def)
qed

lemma same_source_put [simp]:
  assumes "map_of (ss_utterances s) uid = Some u" "ut_text v = ut_text u" "ut_selected_end v = ut_selected_end u"
  shows "same_source (put_utterance uid v s) t = same_source s t"
proof -
  have "sources (put_utterance uid v s) = sources s"
    using assms by (auto simp: sources_def put_utterance_def fun_eq_iff)
  then show ?thesis by (simp add: same_source_def keys_def put_utterance_def)
qed

text \<open>Steps that only touch translations, drafts, jobs and output.\<close>

lemma same_source_segment_ready [simp]: "same_source (fst (segment_ready now gid s)) t = same_source s t"
  by (auto simp: segment_ready_def split: option.split prod.split)

lemma same_source_andthen:
  "same_source (fst m) t \<Longrightarrow> (\<And>s1 a. m = (s1, Inr a) \<Longrightarrow> same_source (fst (f s1 a)) s1) \<Longrightarrow>
     same_source (fst (andthen m f)) t"
  by (cases m; cases "snd m") (auto simp: andthen_def intro: same_source_trans)

lemma same_source_done [simp]: "fst (done_step s) = s"
  by (simp add: done_step_def)

lemma same_source_commit_segment [simp]: "same_source (fst (commit_segment uc now gid s)) s"
  by (auto simp: commit_segment_def done_step_def Let_def split: option.split prod.split sum.split)

lemma same_source_settle_segment: "same_source (fst (settle_segment uc now gid s)) s"
  unfolding settle_segment_def by (rule same_source_andthen) simp_all

lemma same_source_dispatch: "same_source (fst (dispatch_next uc cur now s)) s"
  by (auto simp: dispatch_next_def done_step_def Let_def split: option.split prod.split sum.split)

lemma same_source_for_each:
  "(\<And>x s. same_source (fst (f x s)) s) \<Longrightarrow> same_source (fst (for_each f xs s)) s"
proof (induction xs arbitrary: s)
  case (Cons x xs)
  show ?case unfolding for_each.simps by (rule same_source_andthen) (simp_all add: Cons)
qed simp

lemma same_source_foldl:
  "(\<And>s x. same_source (f s x) s) \<Longrightarrow> same_source (foldl f s xs) s"
  by (induction xs arbitrary: s) (simp, metis foldl.simps(2) same_source_trans)

lemma same_source_settle_old: "same_source (fst (settle_old uc now final gid s)) s"
  by (auto simp: settle_old_def split: option.split intro!: same_source_andthen)

lemma same_source_settle_draft: "same_source (fst (settle_draft uc now gid s)) s"
  using same_source_settle_segment by (simp add: settle_draft_def split: option.split)

lemma same_source_store: "same_source (fst (store_translation uc now gid txt s)) s"
proof (cases "find_segment gid s")
  case (Some g)
  show ?thesis
    using Some by (auto simp: store_translation_def Let_def split: prod.split sum.split
        intro: same_source_trans [OF same_source_settle_segment])
qed (simp add: store_translation_def)

lemma same_source_rearm: "same_source (rearm_retained uc now s) s"
  unfolding rearm_retained_def by (rule same_source_foldl) simp

lemma same_source_result: "same_source (fst (result_handler uc now j r e s)) s"
proof (cases "result_current s j")
  case True
  have "same_source (fst (store_translation uc now gid tx (s\<lparr>ss_active := None\<rparr>))) s" for gid tx
    using same_source_store [of uc now gid tx "s\<lparr>ss_active := None\<rparr>"]
    by (rule same_source_trans) simp
  moreover have "same_source (fst (dispatch_next uc None now (rearm_retained uc now t))) t" for t
    using same_source_dispatch same_source_rearm by (rule same_source_trans)
  ultimately show ?thesis
    using True by (auto simp: result_handler_def Let_def split: option.split intro!: same_source_andthen)
qed (simp add: result_handler_def)

lemma same_source_attach: "same_source (fst (attach uc now s)) s"
proof -
  let ?s2 = "\<lambda>s1. foldl (\<lambda>t p. arm None now (fst p) 0 t) s1 (ss_utterances s1)"
  have arms: "same_source (?s2 s1) s1" for s1 by (rule same_source_foldl) simp
  have settle: "same_source (fst (for_each (settle_draft uc now) gids t)) t" for gids t
    by (rule same_source_for_each) (rule same_source_settle_draft)
  let ?s1 = "emit_snapshot uc now ''session_state'' (touch now (s\<lparr>ss_queue := Some []\<rparr>))"
  have "same_source (fst (andthen (for_each (settle_draft uc now) (map sg_id (ss_segments (?s2 ?s1))) (?s2 ?s1))
          (\<lambda>s3 _. dispatch_next uc None now s3))) (?s2 ?s1)"
    by (rule same_source_andthen [OF settle]) (rule same_source_dispatch)
  moreover have "same_source (?s2 ?s1) s" using arms [of ?s1] by (rule same_source_trans) simp
  ultimately have "same_source (fst (andthen (for_each (settle_draft uc now) (map sg_id (ss_segments (?s2 ?s1))) (?s2 ?s1))
          (\<lambda>s3 _. dispatch_next uc None now s3))) s"
    by (rule same_source_trans)
  then show ?thesis by (simp add: attach_def Let_def)
qed

lemma same_source_detach: "same_source (detach s) s"
proof -
  let ?f = "\<lambda>g. if sg_status g = SegRunning then g\<lparr>sg_status := SegReady\<rparr> else g"
  have "key_of \<circ> ?f = key_of" by auto
  then have "keys (detach s) = keys s"
    by (simp add: keys_def detach_def Let_def cancel_timers_def)
  moreover have "sources (detach s) = sources s"
    by (rule ext) (simp add: sources_def detach_def Let_def cancel_timers_def)
  ultimately show ?thesis by (simp add: same_source_def detach_def Let_def cancel_timers_def)
qed

lemma same_source_set_config: "same_source (fst (set_config uc co s)) s"
  by (simp add: set_config_def done_step_def Let_def split: sum.split)

lemma same_source_configure: "same_source (fst (configure uc now co s)) s"
  by (auto simp: configure_def same_source_set_config intro!: same_source_andthen)

lemma same_source_set_glossary: "same_source (fst (set_glossary uc now es s)) s"
  by (simp add: set_glossary_def split: sum.split)

lemma same_source_close: "same_source (close_session s) s"
  by (simp add: close_session_def Let_def split: option.split)

lemma same_source_admit: "same_source (fst (admit_event now s)) s"
  by (simp add: admit_event_def Let_def)

lemma same_source_fire_commit: "same_source (fst (fire_commit uc now gid gen s)) s"
  by (auto simp: fire_commit_def intro!: same_source_andthen)

lemma same_source_hold:
  "map_of (ss_utterances s) uid = Some u \<Longrightarrow> same_source (fst (hold_source cur now uid age u s)) s"
proof -
  assume u: "map_of (ss_utterances s) uid = Some u"
  have "ss_utterances (metric_inc n (emit_error now c m s)) = ss_utterances s" for n c m
    by (simp add: metric_inc_def emit_error_def emit_def split: option.split)
  then have "map_of (ss_utterances (metric_inc n (emit_error now c m s))) uid = Some u" for n c m
    using u by simp
  then show ?thesis by (simp add: hold_source_def Let_def)
qed

subsection \<open>Tiling\<close>

fun tiled :: "ustring \<Rightarrow> nat \<Rightarrow> seg_key list \<Rightarrow> nat \<Rightarrow> bool" where
  "tiled t p [] q \<longleftrightarrow> p = q \<and> q \<le> length t"
| "tiled t p (k # ks) q \<longleftrightarrow> sk_start k = p \<and> p < sk_end k \<and> sk_source k = slice p (sk_end k) t
     \<and> tiled t (sk_end k) ks q"

lemma tiled_le: "tiled t p ks q \<Longrightarrow> p \<le> q \<and> q \<le> length t"
  by (induction ks arbitrary: p) fastforce+

lemma tiled_append: "tiled t p (xs @ ys) q \<longleftrightarrow> (\<exists>m. tiled t p xs m \<and> tiled t m ys q)"
proof (induction xs arbitrary: p)
  case Nil
  then show ?case using tiled_le [of t p ys q] by auto
qed auto

lemma tiled_ends: "tiled t p ks q \<Longrightarrow> k \<in> set ks \<Longrightarrow> p \<le> sk_start k \<and> sk_start k < sk_end k \<and> sk_end k \<le> q"
  by (induction ks arbitrary: p) (auto dest: tiled_le intro: le_trans less_imp_le)

lemma tiled_cong: "tiled t p ks q \<Longrightarrow> take q t = take q t' \<Longrightarrow> q \<le> length t' \<Longrightarrow> tiled t' p ks q"
proof (induction ks arbitrary: p)
  case (Cons k ks)
  have "slice p (sk_end k) t = slice p (sk_end k) t'"
    using Cons.prems slice_cong_take tiled_le by (metis tiled.simps(2))
  then show ?case using Cons by simp
qed simp

lemma tiled_contiguous:
  "tiled t p (map key_of gs) q \<Longrightarrow> contiguous p (map segment_span gs)"
  by (induction gs arbitrary: p) (auto simp: segment_span_def)

lemma tiled_last:
  "tiled t p ks q \<Longrightarrow> ks \<noteq> [] \<Longrightarrow> sk_end (last ks) = q"
  by (induction ks arbitrary: p) auto

lemma tiled_min: "tiled t p ks q \<Longrightarrow> foldl min q (map sk_start ks) = (if ks = [] then q else sk_start (hd ks))"
proof (cases ks)
  case (Cons k r)
  assume tl: "tiled t p ks q"
  have "foldl min m (map sk_start xs) = m" if "\<forall>x \<in> set xs. m \<le> sk_start x" for m xs
    using that by (induction xs) (auto simp: min_absorb1)
  moreover have "\<forall>x \<in> set r. sk_start k \<le> sk_start x"
    using tl tiled_ends [of t "sk_end k" r q] by (fastforce simp: Cons)
  moreover have "min q (sk_start k) = sk_start k" using tiled_ends [OF tl, of k] by (simp add: Cons)
  ultimately show ?thesis by (simp add: Cons)
qed simp

subsection \<open>The source invariant\<close>

definition source_shape :: "(ustring \<Rightarrow> (ustring \<times> nat) option) \<Rightarrow> seg_key list \<Rightarrow> nat \<Rightarrow> bool" where
  "source_shape U ks n \<longleftrightarrow> distinct (map sk_id ks)
     \<and> (\<forall>k \<in> set ks. U (sk_utterance k) \<noteq> None \<and> (\<exists>i. 1 \<le> i \<and> i \<le> n \<and> sk_id k = segment_name i))
     \<and> (\<forall>uid t sel. U uid = Some (t, sel) \<longrightarrow> tiled t 0 (filter (\<lambda>k. sk_utterance k = uid) ks) sel)"

definition source_inv :: "session \<Rightarrow> bool" where
  "source_inv s \<longleftrightarrow> source_shape (sources s) (keys s) (ss_next_segment s)"

lemma same_source_inv: "same_source a b \<Longrightarrow> source_inv a = source_inv b"
  by (simp add: same_source_def source_inv_def)

lemma decimal_value: "foldl (\<lambda>v d. v * 10 + (d - 48)) 0 (decimal n) = n"
  by (induction n rule: decimal.induct) (subst decimal.simps, simp)

lemma decimal_inject [simp]: "decimal m = decimal n \<longleftrightarrow> m = n"
  by (metis decimal_value)

lemma segment_name_inject [simp]: "segment_name m = segment_name n \<longleftrightarrow> m = n"
  by (simp add: segment_name_def)

lemma segment_name_nonempty [simp]: "segment_name n \<noteq> []"
  by (simp add: segment_name_def lit_def)

lemma source_shape_new:
  assumes "source_shape U ks n" and "U uid = None"
  shows "source_shape (U(uid \<mapsto> ([], 0))) ks n"
proof -
  have none: "filter (\<lambda>k. sk_utterance k = uid) ks = []"
    using assms by (auto simp: source_shape_def filter_empty_conv)
  show ?thesis using assms none by (auto simp: source_shape_def)
qed

lemma source_shape_cut:
  assumes shape: "source_shape U ks n" and u: "U uid = Some (t, sel)"
    and k: "sk_id k = segment_name (Suc n)" "sk_utterance k = uid" "sk_start k = sel" "sel < sk_end k"
      "sk_end k \<le> length t" "sk_source k = slice sel (sk_end k) t"
  shows "source_shape (U(uid \<mapsto> (t, sk_end k))) (ks @ [k]) (Suc n)"
proof -
  have "sk_id k \<notin> sk_id ` set ks"
  proof
    assume "sk_id k \<in> sk_id ` set ks"
    then obtain x where "x \<in> set ks" "sk_id x = segment_name (Suc n)" using k by auto
    then obtain i where "i \<le> n" "segment_name i = segment_name (Suc n)"
      using shape by (auto simp: source_shape_def)
    then show False by simp
  qed
  moreover have "tiled t 0 (filter (\<lambda>x. sk_utterance x = uid) ks @ [k]) (sk_end k)"
    using shape u k by (auto simp: source_shape_def tiled_append)
  moreover have "\<forall>x \<in> set ks. \<exists>i. 1 \<le> i \<and> i \<le> Suc n \<and> sk_id x = segment_name i"
    using shape by (meson le_SucI source_shape_def)
  moreover have "\<exists>i. 1 \<le> i \<and> i \<le> Suc n \<and> sk_id k = segment_name i" using k(1) by auto
  ultimately show ?thesis using shape k(2) by (auto simp: source_shape_def)
qed

lemma source_shape_text:
  assumes "source_shape U ks n" and "U uid = Some (t, sel)" and "take sel t = take sel t'" and "sel \<le> length t'"
  shows "source_shape (U(uid \<mapsto> (t', sel))) ks n"
  using assms tiled_cong [of t 0 _ sel t'] by (auto simp: source_shape_def)

text \<open>Rollback at the level of the view.\<close>

definition lower :: "(ustring \<Rightarrow> (ustring \<times> nat) option) \<Rightarrow> seg_key \<Rightarrow> ustring \<Rightarrow> (ustring \<times> nat) option" where
  "lower U k = (case U (sk_utterance k) of None \<Rightarrow> U
     | Some (t, sel) \<Rightarrow> U(sk_utterance k \<mapsto> (t, min sel (sk_start k))))"

lemma foldl_lower:
  "foldl lower U ds uid = map_option (\<lambda>(t, sel).
     (t, foldl min sel (map sk_start (filter (\<lambda>k. sk_utterance k = uid) ds)))) (U uid)"
  by (induction ds arbitrary: U) (auto simp: lower_def option.map_id split: option.splits)

lemma tiled_drop:
  "tiled t p (xs @ ys) q \<Longrightarrow> tiled t p xs (foldl min q (map sk_start ys))"
proof -
  assume "tiled t p (xs @ ys) q"
  then obtain m where m: "tiled t p xs m" "tiled t m ys q" using tiled_append by blast
  have "m = foldl min q (map sk_start ys)"
    using tiled_min [OF m(2)] m(2) by (cases ys) auto
  then show ?thesis using m(1) by simp
qed

lemma source_shape_rollback:
  assumes "source_shape U ks n"
  shows "source_shape (foldl lower U (drop i ks)) (take i ks) n"
proof -
  have "distinct (map sk_id (take i ks))"
    using assms by (simp add: source_shape_def take_map [symmetric])
  moreover have "foldl lower U (drop i ks) (sk_utterance k) \<noteq> None
      \<and> (\<exists>j. 1 \<le> j \<and> j \<le> n \<and> sk_id k = segment_name j)" if "k \<in> set (take i ks)" for k
    using assms in_set_takeD [OF that] by (auto simp: source_shape_def foldl_lower)
  moreover have "tiled t 0 (filter (\<lambda>k. sk_utterance k = uid) (take i ks)) sel"
    if lowered: "foldl lower U (drop i ks) uid = Some (t, sel)" for uid t sel
  proof -
    let ?P = "\<lambda>k. sk_utterance k = uid"
    obtain q where q: "U uid = Some (t, q)" "sel = foldl min q (map sk_start (filter ?P (drop i ks)))"
      using lowered by (auto simp: foldl_lower)
    have "tiled t 0 (filter ?P (take i ks) @ filter ?P (drop i ks)) q"
      using assms q(1) by (simp add: source_shape_def flip: filter_append)
    then show ?thesis unfolding q(2) by (rule tiled_drop)
  qed
  ultimately show ?thesis unfolding source_shape_def by blast
qed

text \<open>The session operations that change the view.\<close>

lemma sources_put: "sources (put_utterance uid u s) = (sources s)(uid \<mapsto> (ut_text u, ut_selected_end u))"
  by (rule ext) (simp add: sources_def put_utterance_def)

lemma keys_put [simp]: "keys (put_utterance uid u s) = keys s"
  by (simp add: keys_def put_utterance_def)

lemma next_put [simp]: "ss_next_segment (put_utterance uid u s) = ss_next_segment s"
  by (simp add: put_utterance_def)

lemma source_inv_ensure:
  assumes "source_inv s" shows "source_inv (fst (ensure_utterance now s uid ev))"
proof (cases "map_of (ss_utterances s) uid")
  case None
  then have "sources s uid = None" by (simp add: sources_def)
  then show ?thesis
    using None assms source_shape_new
    by (auto simp: ensure_utterance_def source_inv_def sources_put done_step_def Let_def split: sum.split)
qed (use assms in \<open>simp add: ensure_utterance_def\<close>)

lemma source_inv_cut:
  assumes inv: "source_inv s" and u: "map_of (ss_utterances s) uid = Some u"
    and c: "sc_start c = ut_selected_end u" "ut_selected_end u < sc_end c" "sc_end c \<le> length (ut_text u)"
  shows "source_inv (fst (cut_segment now uid u c s))"
proof (cases "new_committer (se_stability_count (ss_settings s)) (of_int (se_commit_delay_ms (ss_settings s)))")
  case (Inl e)
  have "sources (s\<lparr>ss_next_segment := Suc (ss_next_segment s)\<rparr>) = sources s"
    by (rule ext) (simp add: sources_def)
  moreover have "source_shape (sources s) (keys s) (Suc (ss_next_segment s))"
    using inv by (auto simp: source_inv_def source_shape_def intro: le_SucI)
  ultimately show ?thesis using Inl by (simp add: cut_segment_def source_inv_def keys_def Let_def)
next
  case (Inr dc)
  define r where "r = fst (cut_segment now uid u c s)"
  define k where "k = \<lparr>sk_id = segment_name (Suc (ss_next_segment s)), sk_utterance = uid,
     sk_start = sc_start c, sk_end = sc_end c, sk_source = slice (sc_start c) (sc_end c) (ut_text u)\<rparr>"
  have "keys r = keys s @ [k]" "ss_next_segment r = Suc (ss_next_segment s)"
    using Inr by (simp_all add: r_def cut_segment_def keys_def key_of_def k_def Let_def done_step_def
        metric_obs_def put_utterance_def)
  moreover have "sources r = (sources s)(uid \<mapsto> (ut_text u, sc_end c))"
    using Inr by (intro ext) (simp add: r_def cut_segment_def sources_def Let_def done_step_def
        metric_obs_def put_utterance_def)
  moreover have "sources s uid = Some (ut_text u, ut_selected_end u)" using u by (simp add: sources_def)
  ultimately show ?thesis
    using source_shape_cut [of "sources s" "keys s" "ss_next_segment s" uid "ut_text u" "ut_selected_end u" k] inv c
    by (simp add: source_inv_def k_def r_def)
qed

lemma sources_arm [simp]: "sources (arm cur now uid d s) = sources s"
  using same_source_primitives(8) [of cur now uid d s s] by (simp add: same_source_def)

lemma rollback_utterance_view:
  "keys (rollback_utterance cur now g s) = keys s"
  "ss_next_segment (rollback_utterance cur now g s) = ss_next_segment s"
  "sources (rollback_utterance cur now g s) = lower (sources s) (key_of g)"
proof -
  have a: "keys (arm cur now uid d t) = keys t" "ss_next_segment (arm cur now uid d t) = ss_next_segment t" for uid d t
    using same_source_primitives(8) [of cur now uid d t t] by (simp_all add: same_source_def)
  show "keys (rollback_utterance cur now g s) = keys s"
      "ss_next_segment (rollback_utterance cur now g s) = ss_next_segment s"
      "sources (rollback_utterance cur now g s) = lower (sources s) (key_of g)"
    by (auto simp: rollback_utterance_def a lower_def sources_put sources_def split: option.split)
qed

lemma rollback_fold_view:
  "keys (foldl (\<lambda>t g. rollback_utterance cur now g t) s gs) = keys s
   \<and> ss_next_segment (foldl (\<lambda>t g. rollback_utterance cur now g t) s gs) = ss_next_segment s
   \<and> sources (foldl (\<lambda>t g. rollback_utterance cur now g t) s gs) = foldl lower (sources s) (map key_of gs)"
  by (induction gs arbitrary: s) (simp_all add: rollback_utterance_view)

lemma rollback_view:
  "keys (fst (rollback uc cur now i s)) = take i (keys s)"
  "ss_next_segment (fst (rollback uc cur now i s)) = ss_next_segment s"
  "sources (fst (rollback uc cur now i s)) = foldl lower (sources s) (drop i (keys s))"
proof -
  let ?s1 = "s\<lparr>ss_segments := take i (ss_segments s)\<rparr>"
  let ?s2 = "foldl (\<lambda>t g. rollback_utterance cur now g t) ?s1 (drop i (ss_segments s))"
  have "same_source (fst (rollback uc cur now i s)) ?s2"
    by (simp add: rollback_def Let_def done_step_def split: prod.split sum.split)
  moreover have "keys ?s1 = take i (keys s)" "sources ?s1 = sources s"
    by (simp_all add: keys_def take_map sources_def fun_eq_iff)
  ultimately show "keys (fst (rollback uc cur now i s)) = take i (keys s)"
    "ss_next_segment (fst (rollback uc cur now i s)) = ss_next_segment s"
    "sources (fst (rollback uc cur now i s)) = foldl lower (sources s) (drop i (keys s))"
    using rollback_fold_view [of cur now ?s1 "drop i (ss_segments s)"]
    by (simp_all add: same_source_def keys_def drop_map)
qed

lemma source_inv_rollback: "source_inv s \<Longrightarrow> source_inv (fst (rollback uc cur now i s))"
  using source_shape_rollback by (simp add: source_inv_def rollback_view)

subsection \<open>A new hypothesis\<close>

lemma keys_of_utterance: "map key_of (segments_of uid s) = filter (\<lambda>k. sk_utterance k = uid) (keys s)"
  by (simp add: segments_of_def keys_def filter_map o_def)

lemma source_inv_tiled:
  "source_inv s \<Longrightarrow> map_of (ss_utterances s) uid = Some u \<Longrightarrow>
     tiled (ut_text u) 0 (map key_of (segments_of uid s)) (ut_selected_end u)"
  by (simp add: source_inv_def source_shape_def sources_def keys_of_utterance)

lemma filter_takeWhile_nth:
  "distinct (map f xs) \<Longrightarrow> i < length (filter P xs) \<Longrightarrow>
     filter P (takeWhile (\<lambda>x. f x \<noteq> f (filter P xs ! i)) xs) = take i (filter P xs)"
proof (induction xs arbitrary: i)
  case (Cons x xs)
  show ?case
  proof (cases "P x")
    case True
    show ?thesis
    proof (cases i)
      case (Suc j)
      have "filter P xs ! j \<in> set xs" using Cons.prems True Suc
        by (metis Suc_less_eq filter.simps(2) filter_is_subset length_Cons nth_mem subsetD)
      then have "f x \<noteq> f (filter P xs ! j)" using Cons.prems(1) by auto
      then show ?thesis using Cons True Suc by simp
    qed (use True in simp)
  next
    case False
    have "filter P xs ! i \<in> set xs" using Cons.prems False
      by (metis filter.simps(2) filter_is_subset nth_mem subsetD)
    then have "f x \<noteq> f (filter P xs ! i)" using Cons.prems(1) by auto
    then show ?thesis using Cons False by simp
  qed
qed simp

lemma segment_index_split:
  assumes "source_inv s" and "i < length (segments_of uid s)"
  defines "n \<equiv> segment_index (sg_id (segments_of uid s ! i)) s"
  shows "filter (\<lambda>k. sk_utterance k = uid) (take n (keys s)) = take i (map key_of (segments_of uid s))"
    and "filter (\<lambda>k. sk_utterance k = uid) (drop n (keys s)) = drop i (map key_of (segments_of uid s))"
proof -
  let ?P = "\<lambda>g. sg_utterance g = uid"
  have "distinct (map sg_id (ss_segments s))"
    using assms(1) by (simp add: source_inv_def source_shape_def keys_def o_def)
  then have t: "filter ?P (take n (ss_segments s)) = take i (filter ?P (ss_segments s))"
    using filter_takeWhile_nth [of sg_id "ss_segments s" i ?P] assms(2)
    by (simp add: n_def segment_index_def segments_of_def flip: takeWhile_eq_take)
  then have "filter ?P (drop n (ss_segments s)) = drop i (filter ?P (ss_segments s))"
    by (metis append_eq_append_conv append_take_drop_id filter_append)
  with t show "filter (\<lambda>k. sk_utterance k = uid) (take n (keys s)) = take i (map key_of (segments_of uid s))"
    "filter (\<lambda>k. sk_utterance k = uid) (drop n (keys s)) = drop i (map key_of (segments_of uid s))"
    by (simp_all add: keys_def segments_of_def filter_map o_def take_map drop_map)
qed

text \<open>The part of \<open>apply_hypothesis\<close> up to the new text.\<close>

lemma source_inv_revise:
  fixes cur :: "nat option" and now :: rat
  assumes inv: "source_inv s" and u: "map_of (ss_utterances s) uid = Some u"
    and plan: "plan_revision uc (ut_text u) new (map segment_span (segments_of uid s)) = Inr p"
  defines "s1 \<equiv> (if rp_index p < length (segments_of uid s)
       then fst (rollback uc cur now (segment_index (sg_id (segments_of uid s ! rp_index p)) s) s) else s)"
  shows "source_inv s1" and "sources s1 uid = Some (ut_text u, rp_boundary p)"
    and "take (rp_boundary p) (ut_text u) = take (rp_boundary p) new" and "rp_boundary p \<le> length new"
proof -
  let ?old = "segments_of uid s"
  have tl: "tiled (ut_text u) 0 (map key_of ?old) (ut_selected_end u)" using inv u by (rule source_inv_tiled)
  have ends: "\<forall>r \<in> set (map segment_span ?old). rs_end r \<le> length (ut_text u)"
    using tiled_ends [OF tl] tiled_le [OF tl] by (fastforce simp: segment_span_def)
  obtain q where q: "plan_revision uc (ut_text u) new (map segment_span ?old) = Inr q"
    "rp_index q \<le> length (map segment_span ?old)"
    "rp_boundary q = (if rp_index q = 0 then 0 else rs_end (map segment_span ?old ! (rp_index q - 1)))"
    "take (rp_boundary q) (ut_text u) = take (rp_boundary q) new" "rp_boundary q \<le> length new"
    using plan_revision_contract [OF tiled_contiguous [OF tl] ends, of uc new] by metis
  have pq: "p = q" using plan q(1) by simp
  show "source_inv s1" using inv by (simp add: s1_def source_inv_rollback)
  show "take (rp_boundary p) (ut_text u) = take (rp_boundary p) new" "rp_boundary p \<le> length new"
    using q pq by auto
  show "sources s1 uid = Some (ut_text u, rp_boundary p)"
  proof (cases "rp_index p < length ?old")
    case True
    obtain m where m: "tiled (ut_text u) 0 (take (rp_index p) (map key_of ?old)) m"
      "tiled (ut_text u) m (drop (rp_index p) (map key_of ?old)) (ut_selected_end u)"
      using tl tiled_append by (metis append_take_drop_id)
    have "m = rp_boundary p"
    proof (cases "rp_index p")
      case (Suc j)
      then have "take (rp_index p) (map key_of ?old) \<noteq> []" using True by (cases ?old) auto
      moreover have "last (take (rp_index p) (map key_of ?old)) = key_of (?old ! j)"
        using Suc True by (simp add: take_Suc_conv_app_nth)
      ultimately show ?thesis using tiled_last [OF m(1)] q(3) pq Suc True
        by (simp add: segment_span_def)
    qed (use m(1) q(3) pq in simp)
    moreover have "foldl min (ut_selected_end u) (map sk_start (drop (rp_index p) (map key_of ?old))) = m"
      using tiled_min [OF m(2)] m(2) True by (cases "drop (rp_index p) (map key_of ?old)") auto
    ultimately show ?thesis
      using True u segment_index_split(2) [OF inv True]
      by (simp add: s1_def rollback_view foldl_lower sources_def)
  next
    case False
    then have all: "rp_index p = length ?old" using q(2) pq by simp
    have "rp_boundary p = ut_selected_end u"
    proof (cases "?old = []")
      case False
      then show ?thesis using tiled_last [OF tl] q(3) pq all
        by (simp add: segment_span_def last_map last_conv_nth)
    qed (use tl q(3) pq all in simp)
    then show ?thesis using all u by (simp add: s1_def sources_def)
  qed
qed

lemma update_utterance_view [simp]:
  "ut_text (update_utterance now ev e u) = ev_text ev"
  "ut_selected_end (update_utterance now ev e u) = ut_selected_end u"
  by (simp_all add: update_utterance_def Let_def)

lemma andthen_inv:
  "P (fst m) \<Longrightarrow> (\<And>s1 a. m = (s1, Inr a) \<Longrightarrow> P s1 \<Longrightarrow> P (fst (f s1 a))) \<Longrightarrow> P (fst (andthen m f))"
  by (cases m; cases "snd m") (auto simp: andthen_def)

lemma source_inv_put_text:
  assumes "source_inv s" and "sources s uid = Some (t, sel)" and "take sel t = take sel (ut_text v)"
    and "sel \<le> length (ut_text v)" and "ut_selected_end v = sel"
  shows "source_inv (put_utterance uid v s)"
  using source_shape_text [of "sources s" "keys s" "ss_next_segment s" uid t sel "ut_text v"] assms
  by (simp add: source_inv_def sources_put)

lemma source_inv_adopt:
  assumes inv: "source_inv s" and src: "sources s uid = Some (t, b)"
    and same: "take b t = take b (ev_text ev)" "b \<le> length (ev_text ev)"
  shows "source_inv (fst (adopt_text uc cur now uid ev st old s))"
proof -
  obtain u where u: "map_of (ss_utterances s) uid = Some u" "ut_text u = t" "ut_selected_end u = b"
    using src by (auto simp: sources_def)
  have put: "source_inv (put_utterance uid ((update_utterance now ev (st_char_end st) u)\<lparr>ut_tracker := tr\<rparr>) s)" for tr
    using inv src same u by (intro source_inv_put_text [of s uid t b]) simp_all
  have settle: "source_inv (fst (for_each (settle_old uc now f) ids x)) = source_inv x" for f ids x
    by (rule same_source_inv, rule same_source_for_each, rule same_source_settle_old)
  have later: "source_inv (arm cur now uid d (emit_snapshot uc now k (x\<lparr>ss_revision := r\<rparr>))) = source_inv x" for d k x r
    by (rule same_source_inv) simp
  show ?thesis by (simp add: adopt_text_def u(1) Let_def put settle later split: prod.split sum.split)
qed

lemma source_inv_apply:
  assumes inv: "source_inv s"
  shows "source_inv (fst (apply_hypothesis uc cur now uid ev st s))"
proof (cases "map_of (ss_utterances s) uid")
  case (Some u)
  show ?thesis
  proof (cases "plan_revision uc (ut_text u) (ev_text ev) (map segment_span (segments_of uid s))")
    case (Inr p)
    let ?m = "if rp_index p < length (segments_of uid s)
       then rollback uc cur now (segment_index (sg_id (segments_of uid s ! rp_index p)) s) s else done_step s"
    have fst_m: "fst ?m = (if rp_index p < length (segments_of uid s)
       then fst (rollback uc cur now (segment_index (sg_id (segments_of uid s ! rp_index p)) s) s) else s)"
      by simp
    note revise = source_inv_revise(1,2) [OF inv Some Inr, of cur now, folded fst_m]
      source_inv_revise(3,4) [OF inv Some Inr]
    have "source_inv (fst (andthen ?m (\<lambda>s1 _. adopt_text uc cur now uid ev st (segments_of uid s) s1)))"
    proof (rule andthen_inv [of source_inv, OF revise(1)])
      fix t and a :: unit
      assume m: "?m = (t, Inr a)"
      have "t = fst ?m" unfolding m by simp
      then show "source_inv (fst (adopt_text uc cur now uid ev st (segments_of uid s) t))"
        using revise by (metis source_inv_adopt)
    qed
    then show ?thesis by (simp add: apply_hypothesis_def Some Inr Let_def)
  qed (use inv Some in \<open>simp add: apply_hypothesis_def\<close>)
qed (use inv in \<open>simp add: apply_hypothesis_def\<close>)

lemma same_source_check: "same_source (fst (check_event s ev)) s"
proof -
  have "same_source (fst (resolve_utterance s ev)) s"
    by (simp add: resolve_utterance_def Let_def split: option.split)
  then show ?thesis
    by (auto simp: check_event_def Let_def intro!: same_source_andthen)
qed

lemma source_inv_frames [simp]:
  "source_inv (emit_error now c m s) = source_inv s"
  "source_inv (metric_obs n v s) = source_inv s"
  "source_inv (metric_inc n s) = source_inv s"
  "source_inv (note_event now uid ev s) = source_inv s"
  "source_inv (finish_task tm s) = source_inv s"
  by (rule same_source_inv, simp add: note_event_def Let_def)+

lemma source_inv_observe:
  assumes "source_inv s" shows "source_inv (fst (observe_event uc cur started now uid ev s))"
proof (cases "map_of (ss_utterances s) uid")
  case (Some u)
  have put: "source_inv (put_utterance uid (u\<lparr>ut_tracker := tr\<rparr>) s)" for tr
    using assms same_source_inv [OF same_source_put [THEN iffD2, OF Some _ _ same_source_refl]] by simp
  have "source_inv (fst (andthen (apply_hypothesis uc cur now uid ev st t) (\<lambda>s5 _.
          done_step (metric_obs n v s5))))" if "source_inv t" for st t n v
    by (rule andthen_inv [of source_inv]) (simp_all add: source_inv_apply that)
  then show ?thesis
    using Some put by (simp add: observe_event_def Let_def split: prod.split sum.split)
qed (use assms in \<open>simp add: observe_event_def\<close>)

lemma source_inv_ingest:
  assumes "source_inv s" shows "source_inv (fst (ingest uc cur started now ev s))"
  unfolding ingest_def
proof (intro andthen_inv [of source_inv])
  show "source_inv (fst (check_event s ev))"
    using assms same_source_inv [OF same_source_check] by blast
qed (simp_all add: source_inv_ensure source_inv_observe)

subsection \<open>Selection\<close>

lemma source_inv_round:
  assumes inv: "source_inv s" shows "source_inv (fst (select_round uc cur now uid st s))"
proof (cases "map_of (ss_utterances s) uid")
  case (Some u)
  have hold: "source_inv (fst (hold_source cur now uid age u s))" for age
    using inv same_source_inv [OF same_source_hold [OF Some]] by blast
  have arms: "source_inv (arm cur now uid d (metric_inc n s))" for d n
    using inv same_source_inv [of "arm cur now uid d (metric_inc n s)" s] by simp
  have cut: "source_inv (fst (andthen (cut_segment now uid u c s) (\<lambda>s1 _. (s1, Inr None))))"
    if "select_segment uc (ut_text u) (ut_stable_end u) (ut_selected_end u) ctx lang lim ov = Inr (Some c)"
    for c ctx lang lim ov
  proof (rule andthen_inv [of source_inv])
    have "segment_prefix uc (ut_text u) (ut_stable_end u) (ut_selected_end u) ctx lang lim ov = Inr (Some c)"
      using that by (simp add: select_segment_def split: if_splits)
    note sp = segment_prefix_span [OF this]
    show "source_inv (fst (cut_segment now uid u c s))"
      using inv Some sp by (intro source_inv_cut) auto
  qed simp
  show ?thesis
  proof (cases "select_segment uc (ut_text u) (ut_stable_end u) (ut_selected_end u) (selection_context s)
      (Some (co_source_language (ss_config s))) (nat (se_max_segment_tokens (ss_settings s)))
      (se_allow_oversize_complete (ss_settings s))")
    case (Inr cand)
    define age where "age = (now - ut_buffer_since u) * 1000"
    define d where "d = decide (ss_policy s) cand (st_score st) (st_count st) age (ut_pause u) (ut_final u)
      (st_conflict st)"
    define w where "w = (if pd_action d = WRITE then pd_segment d else None)"
    have round: "select_round uc cur now uid st s =
       (if py_strip uc (drop (ut_selected_end u) (ut_text u)) = [] then (s, Inr (Some True))
        else if se_max_segments (ss_settings s) \<le> int (length (ss_segments s))
          then (emit_error now ''SESSION_LIMIT'' ''Segment limit reached; start a new session'' s,
                Inr (Some False))
        else if se_max_pending_per_session (ss_settings s) \<le> int (waiting_count s)
          then (arm cur now uid (1 / 5) (metric_inc ''backpressure_events'' s), Inr (Some False))
        else case w of
            None \<Rightarrow> (case hold_source cur now uid age u s of (s1, b) \<Rightarrow> (s1, Inr (Some b)))
          | Some c \<Rightarrow> andthen (cut_segment now uid u c s) (\<lambda>s1 _. (s1, Inr None)))"
      unfolding select_round_def Some option.case Inr sum.case Let_def
      by (simp only: age_def [symmetric] d_def [symmetric] w_def [symmetric])
    have "source_inv (fst (case w of
            None \<Rightarrow> (case hold_source cur now uid age u s of (s1, b) \<Rightarrow> (s1, Inr (Some b)))
          | Some c \<Rightarrow> andthen (cut_segment now uid u c s) (\<lambda>s1 _. (s1, Inr None))))"
    proof (cases w)
      case None
      then show ?thesis using hold [of age] by (cases "hold_source cur now uid age u s") simp
    next
      case (Some c)
      then have "pd_action d = WRITE" "pd_segment d = Some c" by (auto simp: w_def split: if_splits)
      then have "cand = Some c" unfolding d_def by (metis decide_write option.inject)
      then show ?thesis using cut Inr Some by simp
    qed
    then show ?thesis unfolding round using inv arms by simp
  qed (use inv arms Some in \<open>simp add: select_round_def Let_def\<close>)
qed (use inv in \<open>simp add: select_round_def\<close>)

lemma source_inv_loop: "source_inv s \<Longrightarrow> source_inv (fst (select_loop uc cur now uid st s))"
proof (induction uc cur now uid st s rule: select_loop.induct)
  case (1 uc cur now uid st s)
  show ?case
  proof (cases "select_round uc cur now uid st s")
    case (Pair s1 r)
    have "source_inv s1" using source_inv_round [OF "1.prems", of uc cur now uid st] Pair by simp
    then show ?thesis
      using "1.IH" [OF Pair [symmetric]] Pair
      by (subst select_loop.simps) (auto split: sum.split option.split)
  qed
qed

lemma source_inv_select:
  assumes inv: "source_inv s" shows "source_inv (fst (select_utterance uc cur now uid s))"
proof (cases "map_of (ss_utterances s) uid")
  case (Some u)
  have put: "source_inv (put_utterance uid (u\<lparr>ut_tracker := tr\<rparr>) s)"
      "source_inv (put_utterance uid (u\<lparr>ut_tracker := tr, ut_stable_end := e\<rparr>) s)" for tr e
    using inv same_source_inv [OF same_source_put [THEN iffD2, OF Some _ _ same_source_refl]] by simp_all
  show ?thesis
    using Some put source_inv_loop
    by (simp add: select_utterance_def Let_def split: prod.split sum.split option.split)
qed (use inv in \<open>simp add: select_utterance_def\<close>)

lemma source_inv_visit: "source_inv s \<Longrightarrow> source_inv (fst (visit_utterances uc cur now uids s))"
proof (induction uids arbitrary: s)
  case (Cons uid rest)
  have "source_inv (fst (andthen (select_utterance uc cur now uid s) (\<lambda>s1 go.
                 if go then visit_utterances uc cur now rest s1 else done_step s1)))"
    by (rule andthen_inv [of source_inv]) (simp_all add: source_inv_select Cons)
  then show ?case using Cons by (simp split: option.split)
qed simp

lemma source_inv_evaluate:
  assumes "source_inv s" shows "source_inv (fst (evaluate uc cur started now uid gen s))"
proof -
  have "source_inv (fst (dispatch_next uc cur now t))" if "source_inv t" for t
    using that same_source_inv [OF same_source_dispatch] by blast
  then have "source_inv (fst (andthen (visit_utterances uc cur now (map fst (ss_utterances s)) s)
      (\<lambda>s1 _. dispatch_next uc cur now (metric_obs ''segment_decision_ms'' ((now - started) * 1000) s1))))"
    using assms by (intro andthen_inv [of source_inv]) (simp_all add: source_inv_visit)
  then show ?thesis using assms by (simp add: evaluate_def)
qed

lemma source_inv_fire:
  assumes "source_inv s" shows "source_inv (fire_timer uc started now t s)"
proof -
  have "source_inv (fst (fire_commit uc now gid gen s))" for gid gen
    using assms same_source_inv [OF same_source_fire_commit] by blast
  moreover note source_inv_evaluate [OF assms]
  ultimately show ?thesis
    by (simp add: fire_timer_def split: timer_kind.split prod.split sum.split) (metis fst_conv)
qed

lemma source_inv_empty: "keys s = [] \<Longrightarrow> ss_utterances s = [] \<Longrightarrow> source_inv s"
  by (simp add: source_inv_def source_shape_def sources_def)

lemma source_inv_reset: "source_inv (reset uc now s)"
proof -
  define t where "t = s\<lparr>ss_utterances := [], ss_segments := []\<rparr>"
  have "source_inv t" by (rule source_inv_empty) (simp_all add: t_def keys_def)
  moreover have "same_source (reset uc now s) t"
    by (simp add: reset_def Let_def t_def same_source_def keys_def sources_def fun_eq_iff
        emit_snapshot_def emit_def touch_def cancel_timers_def metric_inc_def split: option.split)
  ultimately show ?thesis using same_source_inv by blast
qed

lemma source_inv_new: "source_inv (fst (new_session uc sid co st sh now))"
proof -
  have "source_inv (fst (set_config uc co s))" if "ss_segments s = []" "ss_utterances s = []" for s
    using source_inv_empty [of s] same_source_inv [OF same_source_set_config] that by (metis keys_def list.map(1))
  then show ?thesis by (simp add: new_session_def)
qed

subsection \<open>Reachable sessions\<close>

text \<open>
  The steps of a session: the public operations, the scheduler's callback, and a timer that fires.
  Configurations have passed the field constraints of \<open>SessionConfig\<close>. Other sessions and the workers
  move the shared scheduler and the metrics (\<open>step_shared\<close>), so the
  scheduler is arbitrary between two steps.
\<close>

inductive session_step :: "unidb \<Rightarrow> session \<Rightarrow> session \<Rightarrow> bool" for uc :: unidb where
  step_ingest: "session_step uc s (fst (ingest uc None started now ev s))"
| step_admit: "session_step uc s (fst (admit_event now s))"
| step_touch: "session_step uc s (touch now s)"
| step_emit: "session_step uc s (emit now e s)"
| step_taken: "ss_queue s = Some (x # q) \<Longrightarrow> session_step uc s (s\<lparr>ss_queue := Some q\<rparr>)"
| step_timer: "t \<in> set (ss_tasks s) \<Longrightarrow> session_step uc s (fire_timer uc started now t s)"
| step_result: "session_step uc s (fst (result_handler uc now j r e s))"
| step_attach: "session_step uc s (fst (attach uc now s))"
| step_detach: "session_step uc s (detach s)"
| step_configure: "valid_config co \<Longrightarrow> session_step uc s (fst (configure uc now co s))"
| step_glossary: "session_step uc s (fst (set_glossary uc now es s))"
| step_reset: "session_step uc s (reset uc now s)"
| step_close: "session_step uc s (close_session s)"
| step_shared: "session_step uc s (s\<lparr>ss_sched := sh\<rparr>)"

inductive session_reachable :: "unidb \<Rightarrow> settings \<Rightarrow> session \<Rightarrow> bool" for uc :: unidb and st :: settings where
  session_init: "valid_config co \<Longrightarrow> new_session uc sid co st sh now = (s, Inr ()) \<Longrightarrow>
    session_reachable uc st s"
| session_more: "session_reachable uc st s \<Longrightarrow> session_step uc s s' \<Longrightarrow> session_reachable uc st s'"

lemma source_inv_step: assumes "session_step uc s s'" and inv: "source_inv s" shows "source_inv s'"
  using assms(1)
proof cases
  case (step_ingest started now ev)
  then show ?thesis using inv source_inv_ingest by simp
next
  case (step_timer t started now)
  then show ?thesis using inv source_inv_fire by simp
next
  case (step_reset now)
  then show ?thesis using source_inv_reset by simp
next
  case (step_admit now)
  then show ?thesis using inv same_source_inv [OF same_source_admit] by simp
next
  case (step_result now j r e)
  then show ?thesis using inv same_source_inv [OF same_source_result] by simp
next
  case (step_attach now)
  then show ?thesis using inv same_source_inv [OF same_source_attach] by simp
next
  case step_detach
  then show ?thesis using inv same_source_inv [OF same_source_detach] by simp
next
  case (step_configure co now)
  then show ?thesis using inv same_source_inv [OF same_source_configure] by simp
next
  case (step_glossary now es)
  then show ?thesis using inv same_source_inv [OF same_source_set_glossary] by simp
next
  case step_close
  then show ?thesis using inv same_source_inv [OF same_source_close] by simp
next
  case (step_touch now)
  then show ?thesis using inv same_source_inv [of "touch now s" s] by simp
next
  case (step_emit now e)
  then show ?thesis using inv same_source_inv [of "emit now e s" s] by simp
next
  case (step_taken x q)
  then show ?thesis using inv same_source_inv [of "s\<lparr>ss_queue := Some q\<rparr>" s] by simp
next
  case (step_shared sh)
  then show ?thesis using inv same_source_inv [of "s\<lparr>ss_sched := sh\<rparr>" s] by simp
qed

lemma source_inv_reachable: "session_reachable uc st s \<Longrightarrow> source_inv s"
proof (induction rule: session_reachable.induct)
  case (session_init co sid sh now s)
  then show ?case using source_inv_new [of uc sid co st sh now] by simp
qed (rule source_inv_step)

end
