(* ===== verification/SessionFlight.thy ===== *)
theory SessionFlight
  imports SessionInv
begin

text \<open>
  At most one translation of a session is in flight: a segment is running exactly when it is the
  active segment. The invariant reads the identifiers and running flags of the segments and the
  active identifier.
\<close>

subsection \<open>The view\<close>

definition running :: "segment \<Rightarrow> bool" where
  "running g \<longleftrightarrow> sg_status g = SegRunning"

definition flags :: "session \<Rightarrow> (ustring \<times> bool) list" where
  "flags s = map (\<lambda>g. (sg_id g, running g)) (ss_segments s)"

definition same_flight :: "session \<Rightarrow> session \<Rightarrow> bool" where
  "same_flight a b \<longleftrightarrow> flags a = flags b \<and> ss_active a = ss_active b"

definition flight_inv :: "session \<Rightarrow> bool" where
  "flight_inv s \<longleftrightarrow> (\<forall>p \<in> set (flags s). snd p \<longleftrightarrow> ss_active s = Some (fst p))
     \<and> (\<forall>a. ss_active s = Some a \<longrightarrow> a \<in> fst ` set (flags s))"

lemma same_flight_refl [simp, intro!]: "same_flight s s"
  by (simp add: same_flight_def)

lemma same_flight_trans [trans]: "same_flight a b \<Longrightarrow> same_flight b c \<Longrightarrow> same_flight a c"
  by (simp add: same_flight_def)

lemma same_flight_inv: "same_flight a b \<Longrightarrow> flight_inv a = flight_inv b"
  by (simp add: same_flight_def flight_inv_def)

lemma same_flight_fields [simp]:
  "same_flight (s\<lparr>ss_sched := x1\<rparr>) t = same_flight s t" "same_flight (s\<lparr>ss_last_activity := x2\<rparr>) t = same_flight s t"
  "same_flight (s\<lparr>ss_events := x3\<rparr>) t = same_flight s t" "same_flight (s\<lparr>ss_queue := x4\<rparr>) t = same_flight s t"
  "same_flight (s\<lparr>ss_tasks := x5\<rparr>) t = same_flight s t" "same_flight (s\<lparr>ss_timers := x6\<rparr>) t = same_flight s t"
  "same_flight (s\<lparr>ss_next_task := x7\<rparr>) t = same_flight s t" "same_flight (s\<lparr>ss_revision := x8\<rparr>) t = same_flight s t"
  "same_flight (s\<lparr>ss_context := y1\<rparr>) t = same_flight s t" "same_flight (s\<lparr>ss_utterances := x9\<rparr>) t = same_flight s t"
  "same_flight (s\<lparr>ss_auto_id := y2\<rparr>) t = same_flight s t" "same_flight (s\<lparr>ss_last_sequence := y3\<rparr>) t = same_flight s t"
  "same_flight (s\<lparr>ss_first_asr := y4\<rparr>) t = same_flight s t" "same_flight (s\<lparr>ss_first_translation := y5\<rparr>) t = same_flight s t"
  "same_flight (s\<lparr>ss_generation := y6\<rparr>) t = same_flight s t" "same_flight (s\<lparr>ss_closed := y7\<rparr>) t = same_flight s t"
  "same_flight (s\<lparr>ss_config := y8\<rparr>) t = same_flight s t" "same_flight (s\<lparr>ss_threshold := y9\<rparr>) t = same_flight s t"
  "same_flight (s\<lparr>ss_policy := z1\<rparr>) t = same_flight s t" "same_flight (s\<lparr>ss_glossary := z2\<rparr>) t = same_flight s t"
  "same_flight (s\<lparr>ss_next_utterance := z3\<rparr>) t = same_flight s t"
  "same_flight (s\<lparr>ss_next_segment := z4\<rparr>) t = same_flight s t"
  by (simp_all add: same_flight_def flags_def)

lemma same_flight_primitives [simp]:
  "same_flight (metric_inc n s) t = same_flight s t" "same_flight (metric_obs n v s) t = same_flight s t"
  "same_flight (touch now s) t = same_flight s t" "same_flight (emit now e s) t = same_flight s t"
  "same_flight (emit_error now c m s) t = same_flight s t"
  "same_flight (emit_snapshot uc now k s) t = same_flight s t"
  "same_flight (add_task key kind due s) t = same_flight s t" "same_flight (arm cur now uid d s) t = same_flight s t"
  "same_flight (arm_commit now gid s) t = same_flight s t" "same_flight (cancel_timers s) t = same_flight s t"
  "same_flight (finish_task tm s) t = same_flight s t" "same_flight (first_result now s) t = same_flight s t"
  "same_flight (put_utterance uid u s) t = same_flight s t"
  by (simp_all add: metric_inc_def metric_obs_def touch_def emit_def emit_error_def emit_snapshot_def
      add_task_def arm_def arm_commit_def cancel_timers_def finish_task_def first_result_def
      put_utterance_def Let_def split: option.split)

lemma flags_map_segment:
  "flags (map_segment gid f s) = map (\<lambda>g. if sg_id g = gid then (sg_id (f g), running (f g)) else (sg_id g, running g)) (ss_segments s)"
  by (simp add: flags_def map_segment_def o_def if_distrib cong: if_cong)

lemma same_flight_map_segment [simp]:
  assumes "\<And>g. sg_id (f g) = sg_id g \<and> running (f g) = running g"
  shows "same_flight (map_segment gid f s) t = same_flight s t"
proof -
  have "flags (map_segment gid f s) = flags s" using assms by (simp add: flags_def map_segment_def)
  then show ?thesis by (simp add: same_flight_def map_segment_def)
qed

lemma running_frame [simp]:
  "running (g\<lparr>sg_committer := x1\<rparr>) = running g" "running (g\<lparr>sg_committed := x2\<rparr>) = running g"
  "running (g\<lparr>sg_translation := x3\<rparr>) = running g" "running (g\<lparr>sg_status := x4\<rparr>) = (x4 = SegRunning)"
  by (simp_all add: running_def)

lemma same_flight_andthen:
  "same_flight (fst m) t \<Longrightarrow> (\<And>s1 a. m = (s1, Inr a) \<Longrightarrow> same_flight (fst (f s1 a)) s1) \<Longrightarrow>
     same_flight (fst (andthen m f)) t"
  by (cases m; cases "snd m") (auto simp: andthen_def intro: same_flight_trans)

lemma same_flight_segment_ready [simp]: "same_flight (fst (segment_ready now gid s)) t = same_flight s t"
  by (auto simp: segment_ready_def split: option.split prod.split)

lemma same_flight_commit_segment [simp]: "same_flight (fst (commit_segment uc now gid s)) s"
  by (auto simp: commit_segment_def done_step_def Let_def split: option.split prod.split sum.split)

lemma same_flight_settle_segment: "same_flight (fst (settle_segment uc now gid s)) s"
  unfolding settle_segment_def by (rule same_flight_andthen) simp_all

lemma same_flight_for_each:
  "(\<And>x s. same_flight (fst (f x s)) s) \<Longrightarrow> same_flight (fst (for_each f xs s)) s"
proof (induction xs arbitrary: s)
  case (Cons x xs)
  show ?case unfolding for_each.simps by (rule same_flight_andthen) (simp_all add: Cons)
qed simp

lemma same_flight_foldl:
  "(\<And>s x. same_flight (f s x) s) \<Longrightarrow> same_flight (foldl f s xs) s"
  by (induction xs arbitrary: s) (simp, metis foldl.simps(2) same_flight_trans)

lemma same_flight_settle_draft: "same_flight (fst (settle_draft uc now gid s)) s"
  using same_flight_settle_segment by (simp add: settle_draft_def split: option.split)

lemma same_flight_rearm: "same_flight (rearm_retained uc now s) s"
  unfolding rearm_retained_def by (rule same_flight_foldl) simp

lemma same_flight_fire_commit: "same_flight (fst (fire_commit uc now gid gen s)) s"
  by (auto simp: fire_commit_def intro!: same_flight_andthen)

lemma same_flight_hold: "same_flight (fst (hold_source cur now uid age u s)) s"
  by (simp add: hold_source_def Let_def)

lemma flight_inv_frames [simp]:
  "flight_inv (emit_error now c m s) = flight_inv s"
  "flight_inv (emit_snapshot uc now k s) = flight_inv s"
  "flight_inv (emit now e s) = flight_inv s"
  "flight_inv (metric_obs n v s) = flight_inv s"
  "flight_inv (metric_inc n s) = flight_inv s"
  "flight_inv (arm cur now uid d s) = flight_inv s"
  "flight_inv (put_utterance uid u s) = flight_inv s"
  "flight_inv (note_event now uid ev s) = flight_inv s"
  "flight_inv (touch now s) = flight_inv s"
  "flight_inv (finish_task tm s) = flight_inv s"
  "flight_inv (s\<lparr>ss_revision := r\<rparr>) = flight_inv s"
  "flight_inv (s\<lparr>ss_sched := sh\<rparr>) = flight_inv s"
  "flight_inv (s\<lparr>ss_context := cm\<rparr>) = flight_inv s"
  "flight_inv (s\<lparr>ss_queue := q\<rparr>) = flight_inv s"
  "flight_inv (s\<lparr>ss_next_utterance := n2\<rparr>) = flight_inv s"
  by (rule same_flight_inv, simp add: note_event_def Let_def)+

subsection \<open>The operations that move the flight\<close>

definition session_ok :: "session \<Rightarrow> bool" where
  "session_ok s \<longleftrightarrow> source_inv s \<and> flight_inv s"

lemma flags_distinct: "source_inv s \<Longrightarrow> distinct (map fst (flags s))"
  by (simp add: source_inv_def source_shape_def keys_def flags_def o_def)

lemma find_segment_flag: "find_segment gid s = Some g \<Longrightarrow> (gid, running g) \<in> set (flags s)"
  by (auto simp: find_segment_def flags_def find_Some_iff)

lemma flight_inv_stop:
  assumes "flight_inv s" and "find_segment gid s = Some g" and "\<not> running g"
    and f: "\<And>g. sg_id (f g) = sg_id g \<and> \<not> running (f g)"
  shows "flight_inv (map_segment gid f s)"
proof -
  have "ss_active s \<noteq> Some gid"
    using assms(1) find_segment_flag [OF assms(2)] assms(3) by (force simp: flight_inv_def)
  then have "\<forall>h \<in> set (ss_segments s). sg_id h = gid \<longrightarrow> \<not> running h"
    using assms(1) by (auto simp: flight_inv_def flags_def)
  then have "flags (map_segment gid f s) = flags s"
    using f by (simp add: flags_def map_segment_def)
  then show ?thesis using assms(1) by (simp add: flight_inv_def map_segment_def)
qed

lemma flight_inv_land:
  assumes "flight_inv s" and "ss_active s = Some gid"
    and f: "\<And>g. sg_id (f g) = sg_id g \<and> \<not> running (f g)"
  shows "flight_inv (map_segment gid f (s\<lparr>ss_active := None\<rparr>))"
  using assms by (auto simp: flight_inv_def flags_def map_segment_def)

lemma flight_inv_launch:
  assumes "flight_inv s" and "ss_active s = None" and "g \<in> set (ss_segments s)"
  shows "flight_inv ((map_segment (sg_id g) (\<lambda>x. x\<lparr>sg_status := SegRunning\<rparr>) s)\<lparr>ss_active := Some (sg_id g)\<rparr>)"
proof -
  have "sg_id g \<in> (\<lambda>x. sg_id (if sg_id x = sg_id g then x\<lparr>sg_status := SegRunning\<rparr> else x)) ` set (ss_segments s)"
    using assms(3) by (intro image_eqI [of _ _ g]) simp_all
  then show ?thesis using assms by (auto simp: flight_inv_def flags_def map_segment_def image_image)
qed

lemma find_ready: "find P xs = Some x \<Longrightarrow> x \<in> set xs"
  by (auto simp: find_Some_iff)

lemma flight_inv_dispatch:
  assumes "flight_inv s" shows "flight_inv (fst (dispatch_next uc cur now s))"
proof (cases "ss_closed s \<or> ss_queue s = None \<or> ss_active s \<noteq> None \<or> find (\<lambda>g. sg_status g = SegReady) (ss_segments s) = None")
  case True
  then show ?thesis using assms by (auto simp: dispatch_next_def done_step_def)
next
  case False
  then obtain g where g: "find (\<lambda>g. sg_status g = SegReady) (ss_segments s) = Some g" "ss_active s = None" by auto
  have "flight_inv ((map_segment (sg_id g) (\<lambda>x. x\<lparr>sg_status := SegRunning\<rparr>)
      (s\<lparr>ss_context := cm, ss_sched := sh\<rparr>))\<lparr>ss_active := Some (sg_id g)\<rparr>)" for cm sh
    using assms g find_ready [OF g(1)] by (intro flight_inv_launch) simp_all
  then show ?thesis
    using False g assms
    by (simp add: dispatch_next_def done_step_def Let_def split: prod.split sum.split)
qed

lemma flight_inv_settle_old:
  assumes "flight_inv s" shows "flight_inv (fst (settle_old uc now final gid s))"
proof (cases "find_segment gid s")
  case (Some g)
  have "flight_inv (fst (segment_ready now gid s))"
    using assms same_flight_inv [of "fst (segment_ready now gid s)" s] by simp
  moreover have "flight_inv (fst (commit_segment uc now gid t))" if "flight_inv t" for t
    using that same_flight_inv [OF same_flight_commit_segment] by blast
  moreover have "flight_inv (map_segment gid (\<lambda>x. x\<lparr>sg_status := SegReady\<rparr>) t)"
    if "flight_inv t" "find_segment gid t = Some h" "sg_status h = SegFailed" for t h
    using that by (intro flight_inv_stop [of t gid h]) (simp_all add: running_def)
  ultimately show ?thesis
    using Some assms by (auto simp: settle_old_def intro!: andthen_inv [of flight_inv] split: option.splits)
qed (use assms in \<open>simp add: settle_old_def\<close>)

lemma andthen_for_each:
  "(\<And>x s. P s \<Longrightarrow> P (fst (f x s))) \<Longrightarrow> P s \<Longrightarrow> P (fst (for_each f xs s))"
proof (induction xs arbitrary: s)
  case (Cons x xs)
  show ?case unfolding for_each.simps by (rule andthen_inv [of P]) (simp_all add: Cons)
qed simp

lemma flight_rollback_fold: "same_flight (foldl (\<lambda>t g. rollback_utterance cur now g t) s gs) s"
  by (rule same_flight_foldl) (simp add: rollback_utterance_def split: option.split)

lemma flight_inv_rollback:
  assumes "session_ok s" shows "flight_inv (fst (rollback uc cur now i s))"
proof -
  let ?s1 = "s\<lparr>ss_segments := take i (ss_segments s)\<rparr>"
  define s2 where "s2 = foldl (\<lambda>t g. rollback_utterance cur now g t) ?s1 (drop i (ss_segments s))"
  define ids where "ids = set (map sg_id (drop i (ss_segments s)))"
  define s3 where "s3 = (if (case ss_active s2 of None \<Rightarrow> False | Some a \<Rightarrow> a \<in> ids) then s2\<lparr>ss_active := None\<rparr> else s2)"
  have s2: "flags s2 = take i (flags s)" "ss_active s2 = ss_active s"
    using flight_rollback_fold [of cur now ?s1 "drop i (ss_segments s)"]
    by (simp_all add: s2_def same_flight_def flags_def take_map)
  have ids: "ids = fst ` set (drop i (flags s))"
    by (simp add: ids_def flags_def drop_map image_image)
  have dist: "distinct (map fst (take i (flags s)) @ map fst (drop i (flags s)))"
    using flags_distinct [of s] assms by (simp add: session_ok_def flip: map_append)
  have fl: "flight_inv s" using assms by (simp add: session_ok_def)
  have s3: "flags s3 = take i (flags s)" using s2 by (simp add: s3_def flags_def)
  have "flight_inv s3"
  proof (cases "\<exists>a. ss_active s = Some a \<and> a \<in> ids")
    case True
    then obtain a where a: "ss_active s = Some a" "a \<in> ids" by blast
    then have act: "ss_active s3 = None" using s2 by (simp add: s3_def)
    have "\<not> snd p" if p: "p \<in> set (take i (flags s))" for p
    proof
      assume "snd p"
      then have "fst p = a" using fl in_set_takeD [OF p] a(1) by (simp add: flight_inv_def)
      then have "a \<in> set (map fst (take i (flags s)))" using p by auto
      then show False using a(2) ids dist by auto
    qed
    then show ?thesis using act s3 by (simp add: flight_inv_def)
  next
    case False
    then have "s3 = s2" using s2 by (simp add: s3_def split: option.split)
    then have act: "ss_active s3 = ss_active s" using s2 by simp
    have split: "fst ` set (flags s) = fst ` set (take i (flags s)) \<union> ids"
      by (metis append_take_drop_id ids image_Un set_append)
    show ?thesis unfolding flight_inv_def act s3
    proof (intro conjI ballI allI impI)
      fix p assume "p \<in> set (take i (flags s))"
      then have "p \<in> set (flags s)" by (rule in_set_takeD)
      then show "snd p = (ss_active s = Some (fst p))" using fl by (simp add: flight_inv_def)
    next
      fix a assume a: "ss_active s = Some a"
      then have "a \<in> fst ` set (flags s)" using fl by (simp add: flight_inv_def)
      moreover have "a \<notin> ids" using False a by simp
      ultimately show "a \<in> fst ` set (take i (flags s))" unfolding split by simp
    qed
  qed
  moreover have "rollback uc cur now i s =
     (case invalidate (ss_sched s3) (ss_id s3) ids of
           (sh, Inl e) \<Rightarrow> (s3\<lparr>ss_sched := sh\<rparr>, Inl e)
         | (sh, Inr _) \<Rightarrow>
             (let s4 = metric_inc ''source_revisions'' (s3\<lparr>ss_sched := sh\<rparr>);
                  s5 = s4\<lparr>ss_revision := ss_revision s4 + 1\<rparr>
              in done_step (emit_snapshot uc now ''translation_update'' s5)))"
    unfolding rollback_def Let_def s3_def s2_def ids_def by (rule refl)
  ultimately show ?thesis
    by (simp add: done_step_def Let_def split: prod.split sum.split)
qed

lemma session_ok_same: "same_source a b \<Longrightarrow> same_flight a b \<Longrightarrow> session_ok a = session_ok b"
  using same_source_inv same_flight_inv by (simp add: session_ok_def)

lemma flight_inv_check: "flight_inv (fst (check_event s ev)) = flight_inv s"
proof -
  have "same_flight (fst (resolve_utterance s ev)) s"
    by (simp add: resolve_utterance_def Let_def split: option.split)
  then have "same_flight (fst (check_event s ev)) s"
    by (auto simp: check_event_def Let_def intro!: same_flight_andthen)
  then show ?thesis by (rule same_flight_inv)
qed

lemma flight_inv_ensure: "flight_inv (fst (ensure_utterance now s uid ev)) = flight_inv s"
  by (rule same_flight_inv) (simp add: ensure_utterance_def done_step_def Let_def split: option.split sum.split)

lemma flight_inv_adopt:
  assumes "flight_inv s" shows "flight_inv (fst (adopt_text uc cur now uid ev st old s))"
proof -
  have "flight_inv (fst (for_each (settle_old uc now f) ids t))" if "flight_inv t" for f ids t
    using that by (intro andthen_for_each [of flight_inv]) (simp_all add: flight_inv_settle_old)
  then show ?thesis
    using assms by (simp add: adopt_text_def Let_def split: option.split prod.split sum.split)
qed

lemma flight_inv_apply:
  assumes "session_ok s" shows "flight_inv (fst (apply_hypothesis uc cur now uid ev st s))"
proof -
  have fl: "flight_inv s" using assms by (simp add: session_ok_def)
  have "flight_inv (fst (andthen
      (if c then rollback uc cur now i s else done_step s)
      (\<lambda>s1 _. adopt_text uc cur now uid ev st old s1)))" for c i old
    by (rule andthen_inv [of flight_inv]) (simp_all add: flight_inv_adopt flight_inv_rollback assms fl)
  then show ?thesis using fl by (simp add: apply_hypothesis_def Let_def split: option.split sum.split)
qed

lemma session_ok_observe:
  assumes "session_ok s" shows "session_ok (fst (observe_event uc cur started now uid ev s))"
proof -
  have "flight_inv (fst (observe_event uc cur started now uid ev s))"
  proof (cases "map_of (ss_utterances s) uid")
    case (Some u)
    have "source_inv (put_utterance uid (u\<lparr>ut_tracker := tr\<rparr>) s)" for tr
      using assms same_source_inv [OF same_source_put [THEN iffD2, OF Some _ _ same_source_refl]]
      by (simp add: session_ok_def)
    then have ok: "session_ok (put_utterance uid (u\<lparr>ut_tracker := tr\<rparr>) s)" for tr
      using assms by (simp add: session_ok_def)
    have "flight_inv (fst (andthen (apply_hypothesis uc cur now uid ev st t) (\<lambda>s5 _.
          done_step (metric_obs n v s5))))" if "session_ok t" for st t n v
      by (rule andthen_inv [of flight_inv]) (simp_all add: flight_inv_apply that)
    then show ?thesis
      using Some ok assms
      by (simp add: observe_event_def session_ok_def Let_def split: prod.split sum.split)
  qed (use assms in \<open>simp add: observe_event_def session_ok_def\<close>)
  then show ?thesis using assms source_inv_observe by (simp add: session_ok_def)
qed

lemma session_ok_ingest:
  assumes "session_ok s" shows "session_ok (fst (ingest uc cur started now ev s))"
  unfolding ingest_def
proof (intro andthen_inv [of session_ok])
  show "session_ok (fst (check_event s ev))"
    using assms same_source_inv [OF same_source_check] flight_inv_check by (simp add: session_ok_def)
next
  fix s1 uid assume "session_ok s1"
  then show "session_ok (fst (ensure_utterance now s1 uid ev))"
    using source_inv_ensure flight_inv_ensure by (simp add: session_ok_def)
next
  fix s1 s2 uid and a :: unit assume "session_ok s2"
  then have "session_ok (note_event now uid ev s2)" by (simp add: session_ok_def)
  then show "session_ok (fst (observe_event uc cur started now uid ev (note_event now uid ev s2)))"
    by (rule session_ok_observe)
qed

subsection \<open>Selection\<close>

lemma active_known: "flight_inv s \<Longrightarrow> ss_active s = Some a \<Longrightarrow> a \<in> set (map sk_id (keys s))"
  by (auto simp: flight_inv_def flags_def keys_def)

lemma flight_inv_cut:
  assumes ok: "session_ok s" shows "flight_inv (fst (cut_segment now uid u c s))"
proof (cases "new_committer (se_stability_count (ss_settings s)) (of_int (se_commit_delay_ms (ss_settings s)))")
  case (Inl e)
  then show ?thesis
    using ok same_flight_inv [of "s\<lparr>ss_next_segment := Suc (ss_next_segment s)\<rparr>" s]
    by (simp add: cut_segment_def session_ok_def Let_def)
next
  case (Inr dc)
  let ?r = "fst (cut_segment now uid u c s)" and ?name = "segment_name (Suc (ss_next_segment s))"
  have r: "flags ?r = flags s @ [(?name, False)]" "ss_active ?r = ss_active s"
    using Inr by (simp_all add: cut_segment_def flags_def running_def Let_def done_step_def
        metric_obs_def put_utterance_def)
  have "ss_active s \<noteq> Some ?name"
  proof
    assume "ss_active s = Some ?name"
    then have "?name \<in> set (map sk_id (keys s))" using ok active_known by (simp add: session_ok_def)
    then obtain i where "i \<le> ss_next_segment s" "segment_name i = ?name"
      using ok by (auto simp: session_ok_def source_inv_def source_shape_def)
    then show False by simp
  qed
  then show ?thesis using ok unfolding flight_inv_def r by (auto simp: session_ok_def flight_inv_def)
qed

lemma session_ok_round:
  assumes ok: "session_ok s" shows "session_ok (fst (select_round uc cur now uid st s))"
proof -
  have "flight_inv (fst (select_round uc cur now uid st s))"
  proof (cases "map_of (ss_utterances s) uid")
    case (Some u)
    have fl: "flight_inv s" using ok by (simp add: session_ok_def)
    have hold: "flight_inv (fst (hold_source cur now uid age u s))" for age
      using fl same_flight_inv [OF same_flight_hold] by blast
    have cut: "flight_inv (fst (andthen (cut_segment now uid u c s) (\<lambda>s1 _. (s1, Inr None))))" for c
      by (rule andthen_inv [of flight_inv]) (simp_all add: flight_inv_cut ok)
    have last: "flight_inv (fst (case w of
            None \<Rightarrow> (case hold_source cur now uid age u s of (s1, b) \<Rightarrow> (s1, Inr (Some b)))
          | Some c \<Rightarrow> andthen (cut_segment now uid u c s) (\<lambda>s1 _. (s1, Inr None))))" for w age
      using hold [of age] cut by (cases "hold_source cur now uid age u s"; cases w) simp_all
    show ?thesis unfolding select_round_def Some option.case Let_def
      using fl last by (simp split: sum.split)
  qed (use ok in \<open>simp add: select_round_def session_ok_def\<close>)
  then show ?thesis using ok source_inv_round by (simp add: session_ok_def)
qed

lemma session_ok_loop: "session_ok s \<Longrightarrow> session_ok (fst (select_loop uc cur now uid st s))"
proof (induction uc cur now uid st s rule: select_loop.induct)
  case (1 uc cur now uid st s)
  show ?case
  proof (cases "select_round uc cur now uid st s")
    case (Pair s1 r)
    have "session_ok s1" using session_ok_round [OF "1.prems", of uc cur now uid st] Pair by simp
    then show ?thesis
      using "1.IH" [OF Pair [symmetric]] Pair
      by (subst select_loop.simps) (auto split: sum.split option.split)
  qed
qed

lemma session_ok_select:
  assumes ok: "session_ok s" shows "session_ok (fst (select_utterance uc cur now uid s))"
proof (cases "map_of (ss_utterances s) uid")
  case (Some u)
  have put: "session_ok (put_utterance uid (u\<lparr>ut_tracker := tr\<rparr>) s)"
      "session_ok (put_utterance uid (u\<lparr>ut_tracker := tr, ut_stable_end := e\<rparr>) s)" for tr e
    using ok same_source_inv [OF same_source_put [THEN iffD2, OF Some _ _ same_source_refl]]
    by (simp_all add: session_ok_def)
  show ?thesis
    using Some put session_ok_loop
    by (simp add: select_utterance_def Let_def split: prod.split sum.split option.split)
qed (use ok in \<open>simp add: select_utterance_def\<close>)

lemma session_ok_visit: "session_ok s \<Longrightarrow> session_ok (fst (visit_utterances uc cur now uids s))"
proof (induction uids arbitrary: s)
  case (Cons uid rest)
  have "session_ok (fst (andthen (select_utterance uc cur now uid s) (\<lambda>s1 go.
                 if go then visit_utterances uc cur now rest s1 else done_step s1)))"
    by (rule andthen_inv [of session_ok]) (simp_all add: session_ok_select Cons)
  then show ?case using Cons by (simp split: option.split)
qed simp

lemma session_ok_dispatch: "session_ok s \<Longrightarrow> session_ok (fst (dispatch_next uc cur now s))"
  using same_source_inv [OF same_source_dispatch] flight_inv_dispatch by (simp add: session_ok_def)

lemma session_ok_frames [simp]:
  "session_ok (emit_error now c m s) = session_ok s"
  "session_ok (metric_obs n v s) = session_ok s"
  "session_ok (metric_inc n s) = session_ok s"
  "session_ok (finish_task tm s) = session_ok s"
  by (simp_all add: session_ok_def)

lemma session_ok_evaluate:
  assumes "session_ok s" shows "session_ok (fst (evaluate uc cur started now uid gen s))"
proof -
  have "session_ok (fst (andthen (visit_utterances uc cur now (map fst (ss_utterances s)) s)
      (\<lambda>s1 _. dispatch_next uc cur now (metric_obs ''segment_decision_ms'' ((now - started) * 1000) s1))))"
    using assms by (intro andthen_inv [of session_ok]) (simp_all add: session_ok_visit session_ok_dispatch)
  then show ?thesis using assms by (simp add: evaluate_def)
qed

lemma session_ok_fire:
  assumes "session_ok s" shows "session_ok (fire_timer uc started now t s)"
proof (cases "ti_kind t")
  case (EvaluateTimer uid)
  then show ?thesis using session_ok_evaluate [OF assms, of uc "Some (ti_id t)" started now uid "ti_generation t"]
    by (cases "evaluate uc (Some (ti_id t)) started now uid (ti_generation t) s")
       (simp add: fire_timer_def split: sum.split)
next
  case (CommitTimer gid)
  have "session_ok (fst (fire_commit uc now gid (ti_generation t) s))"
    using assms session_ok_same [OF same_source_fire_commit same_flight_fire_commit] by blast
  then show ?thesis by (simp add: fire_timer_def CommitTimer)
qed

subsection \<open>Results, connection, administration\<close>

lemma flight_inv_store:
  assumes "flight_inv s" and "ss_active s = Some gid" and g: "find_segment gid s = Some g"
  shows "flight_inv (fst (store_translation uc now gid tx (s\<lparr>ss_active := None\<rparr>)))"
proof -
  have land: "flight_inv (map_segment gid (\<lambda>x. x\<lparr>sg_translation := tx, sg_status := SegComplete, sg_committer := dc\<rparr>)
      (s\<lparr>ss_active := None\<rparr>))" for dc
    using assms(1,2) by (rule flight_inv_land) simp
  have "flight_inv (fst (settle_segment uc now gid t)) = flight_inv t" for t
    by (rule same_flight_inv) (rule same_flight_settle_segment)
  moreover have "flight_inv (first_result now t) = flight_inv t" for t
    by (rule same_flight_inv) simp
  moreover have "find_segment gid (s\<lparr>ss_active := None\<rparr>) = Some g" using g by (simp add: find_segment_def)
  ultimately show ?thesis
    using land by (simp add: store_translation_def Let_def split: prod.split sum.split)
qed

lemma session_ok_result:
  assumes ok: "session_ok s" shows "session_ok (fst (result_handler uc now j r e s))"
proof (cases "result_current s j")
  case True
  then obtain g where g: "find_segment (jb_segment j) s = Some g" "ss_active s = Some (sg_id g)"
    by (auto simp: result_current_def split: option.splits)
  then have act: "ss_active s = Some (jb_segment j)"
    by (auto simp: find_segment_def find_Some_iff)
  have fl: "flight_inv s" using ok by (simp add: session_ok_def)
  have fail: "flight_inv (map_segment (jb_segment j) (\<lambda>g. g\<lparr>sg_status := SegFailed\<rparr>) (s\<lparr>ss_active := None\<rparr>))"
    using fl act by (rule flight_inv_land) simp
  have rearm: "flight_inv (rearm_retained uc now t) = flight_inv t" for t
    by (rule same_flight_inv) (rule same_flight_rearm)
  have "flight_inv (fst (result_handler uc now j r e s))"
    using True fail flight_inv_store [OF fl act g(1)]
    by (auto simp: result_handler_def Let_def flight_inv_dispatch rearm split: option.split
        intro!: andthen_inv [of flight_inv])
  then show ?thesis using ok same_source_inv [OF same_source_result] by (simp add: session_ok_def)
qed (use ok in \<open>simp add: result_handler_def\<close>)

lemma session_ok_attach:
  assumes ok: "session_ok s" shows "session_ok (fst (attach uc now s))"
proof -
  have arms: "flight_inv (foldl (\<lambda>t p. arm None now (fst p) 0 t) t ps) = flight_inv t" for t ps
    by (rule same_flight_inv, rule same_flight_foldl) simp
  have settle: "flight_inv (fst (for_each (settle_draft uc now) gids t)) = flight_inv t" for gids t
    by (rule same_flight_inv, rule same_flight_for_each) (rule same_flight_settle_draft)
  have "flight_inv (fst (attach uc now s))"
    using ok by (auto simp: attach_def Let_def arms settle flight_inv_dispatch session_ok_def
        intro!: andthen_inv [of flight_inv])
  then show ?thesis using ok same_source_inv [OF same_source_attach] by (simp add: session_ok_def)
qed

lemma session_ok_detach: assumes ok: "session_ok s" shows "session_ok (detach s)"
proof -
  have "flags (detach s) = map (\<lambda>g. (sg_id g, False)) (ss_segments s)" "ss_active (detach s) = None"
    by (auto simp: detach_def Let_def flags_def cancel_timers_def running_def)
  then have "flight_inv (detach s)" by (auto simp: flight_inv_def)
  then show ?thesis using ok same_source_inv [OF same_source_detach] by (simp add: session_ok_def)
qed

lemma flight_inv_empty: "ss_segments s = [] \<Longrightarrow> ss_active s = None \<Longrightarrow> flight_inv s"
  by (simp add: flight_inv_def flags_def)

lemma session_ok_reset: "session_ok (reset uc now s)"
proof -
  define t where "t = s\<lparr>ss_utterances := [], ss_segments := [], ss_active := None\<rparr>"
  have "flight_inv t" by (rule flight_inv_empty) (simp_all add: t_def)
  moreover have "same_flight (reset uc now s) t"
    by (simp add: reset_def Let_def t_def same_flight_def flags_def emit_snapshot_def emit_def touch_def
        cancel_timers_def metric_inc_def split: option.split)
  ultimately show ?thesis using same_flight_inv source_inv_reset by (auto simp: session_ok_def)
qed

lemma session_ok_new: "session_ok (fst (new_session uc sid co st sh now))"
proof -
  have "same_flight (fst (set_config uc co s)) s" for s
    by (simp add: set_config_def done_step_def Let_def split: sum.split)
  then have "flight_inv (fst (set_config uc co s))" if "ss_segments s = []" "ss_active s = None" for s
    using that flight_inv_empty same_flight_inv by blast
  then have "flight_inv (fst (new_session uc sid co st sh now))" by (simp add: new_session_def)
  then show ?thesis using source_inv_new by (simp add: session_ok_def)
qed

lemma session_ok_step: assumes "session_step uc s s'" and ok: "session_ok s" shows "session_ok s'"
  using assms(1)
proof cases
  case (step_ingest started now ev)
  then show ?thesis using ok session_ok_ingest by simp
next
  case (step_timer t started now)
  then show ?thesis using ok session_ok_fire by simp
next
  case (step_reset now)
  then show ?thesis using session_ok_reset by simp
next
  case (step_result now j r e)
  then show ?thesis using ok session_ok_result by simp
next
  case (step_attach now)
  then show ?thesis using ok session_ok_attach by simp
next
  case step_detach
  then show ?thesis using ok session_ok_detach by simp
next
  case (step_configure co now)
  have "same_flight (fst (set_config uc co s)) s"
    by (simp add: set_config_def done_step_def Let_def split: sum.split)
  then have "same_flight (fst (configure uc now co s)) s"
    by (auto simp: configure_def intro!: same_flight_andthen)
  then show ?thesis using ok step_configure session_ok_same [OF same_source_configure] by simp
next
  case (step_glossary now es)
  have "same_flight (fst (set_glossary uc now es s)) s"
    by (simp add: set_glossary_def split: sum.split)
  then show ?thesis using ok step_glossary session_ok_same [OF same_source_set_glossary] by simp
next
  case step_close
  have "same_flight (close_session s) s" by (simp add: close_session_def Let_def split: option.split)
  then show ?thesis using ok step_close session_ok_same [OF same_source_close] by simp
next
  case (step_admit now)
  have "same_flight (fst (admit_event now s)) s" by (simp add: admit_event_def Let_def)
  then show ?thesis using ok step_admit session_ok_same [OF same_source_admit] by simp
qed (use ok session_ok_same in \<open>simp add: session_ok_def\<close>;
     use ok source_inv_step [OF assms(1)] in \<open>simp add: session_ok_def\<close>)+

lemma session_reachable_ok: "session_reachable uc st s \<Longrightarrow> session_ok s"
proof (induction rule: session_reachable.induct)
  case (session_init co sid sh now s)
  then show ?case using session_ok_new [of uc sid co st sh now] by simp
qed (rule session_ok_step)

end
