(* ===== verification/SessionKeep.thy ===== *)
theory SessionKeep
  imports SessionFlight
begin

text \<open>
  Two facts about every operation of a session, proved in one pass over the handlers: a committed
  translation is never changed (\<open>evolves\<close>), and what a session retains stays within the configured
  limits (\<open>within_limits\<close>).
\<close>

subsection \<open>What the primitive operations leave alone\<close>

lemma core_frame [simp]:
  "ss_segments (metric_inc n s) = ss_segments s" "ss_segments (metric_obs n v s) = ss_segments s"
  "ss_segments (touch now s) = ss_segments s" "ss_segments (emit now e s) = ss_segments s"
  "ss_segments (emit_error now c m s) = ss_segments s" "ss_segments (emit_snapshot uc now k s) = ss_segments s"
  "ss_segments (add_task key kind due s) = ss_segments s" "ss_segments (arm cur now uid d s) = ss_segments s"
  "ss_segments (arm_commit now gid s) = ss_segments s" "ss_segments (cancel_timers s) = ss_segments s"
  "ss_segments (finish_task tm s) = ss_segments s" "ss_segments (first_result now s) = ss_segments s"
  "ss_segments (put_utterance uid u s) = ss_segments s" "ss_segments (note_event now uid ev s) = ss_segments s"
  "ss_utterances (metric_inc n s) = ss_utterances s" "ss_utterances (metric_obs n v s) = ss_utterances s"
  "ss_utterances (touch now s) = ss_utterances s" "ss_utterances (emit now e s) = ss_utterances s"
  "ss_utterances (emit_error now c m s) = ss_utterances s" "ss_utterances (emit_snapshot uc now k s) = ss_utterances s"
  "ss_utterances (add_task key kind due s) = ss_utterances s" "ss_utterances (arm cur now uid d s) = ss_utterances s"
  "ss_utterances (arm_commit now gid s) = ss_utterances s" "ss_utterances (cancel_timers s) = ss_utterances s"
  "ss_utterances (finish_task tm s) = ss_utterances s" "ss_utterances (first_result now s) = ss_utterances s"
  "ss_utterances (put_utterance uid u s) = al_put uid u (ss_utterances s)"
  "ss_utterances (note_event now uid ev s) = ss_utterances s"
  by (simp_all add: metric_inc_def metric_obs_def touch_def emit_def emit_error_def emit_snapshot_def
      add_task_def arm_def arm_commit_def cancel_timers_def finish_task_def first_result_def
      put_utterance_def note_event_def Let_def split: option.split)

lemma core_frame2 [simp]:
  "ss_settings (metric_inc n s) = ss_settings s" "ss_settings (metric_obs n v s) = ss_settings s"
  "ss_settings (touch now s) = ss_settings s" "ss_settings (emit now e s) = ss_settings s"
  "ss_settings (emit_error now c m s) = ss_settings s" "ss_settings (emit_snapshot uc now k s) = ss_settings s"
  "ss_settings (add_task key kind due s) = ss_settings s" "ss_settings (arm cur now uid d s) = ss_settings s"
  "ss_settings (arm_commit now gid s) = ss_settings s" "ss_settings (cancel_timers s) = ss_settings s"
  "ss_settings (finish_task tm s) = ss_settings s" "ss_settings (first_result now s) = ss_settings s"
  "ss_settings (put_utterance uid u s) = ss_settings s" "ss_settings (note_event now uid ev s) = ss_settings s"
  "ss_next_segment (metric_inc n s) = ss_next_segment s" "ss_next_segment (metric_obs n v s) = ss_next_segment s"
  "ss_next_segment (touch now s) = ss_next_segment s" "ss_next_segment (emit now e s) = ss_next_segment s"
  "ss_next_segment (emit_error now c m s) = ss_next_segment s" "ss_next_segment (emit_snapshot uc now k s) = ss_next_segment s"
  "ss_next_segment (add_task key kind due s) = ss_next_segment s" "ss_next_segment (arm cur now uid d s) = ss_next_segment s"
  "ss_next_segment (arm_commit now gid s) = ss_next_segment s" "ss_next_segment (cancel_timers s) = ss_next_segment s"
  "ss_next_segment (finish_task tm s) = ss_next_segment s" "ss_next_segment (first_result now s) = ss_next_segment s"
  "ss_next_segment (note_event now uid ev s) = ss_next_segment s"
  by (simp_all add: metric_inc_def metric_obs_def touch_def emit_def emit_error_def emit_snapshot_def
      add_task_def arm_def arm_commit_def cancel_timers_def finish_task_def first_result_def
      put_utterance_def note_event_def Let_def split: option.split)

lemma map_segment_frame [simp]:
  "ss_utterances (map_segment gid f s) = ss_utterances s" "ss_settings (map_segment gid f s) = ss_settings s"
  "ss_next_segment (map_segment gid f s) = ss_next_segment s"
  by (simp_all add: map_segment_def)

subsection \<open>The combined invariant\<close>

definition draft_ok :: "segment \<Rightarrow> bool" where
  "draft_ok g \<longleftrightarrow> (dc_state (sg_committer g) \<noteq> None \<longrightarrow> sg_status g = SegComplete)
     \<and> (sg_committed g \<longrightarrow> dc_state (sg_committer g) \<noteq> None)
     \<and> (sg_translation g \<noteq> [] \<longrightarrow> sg_status g = SegComplete)"

definition advances :: "segment \<Rightarrow> segment \<Rightarrow> bool" where
  "advances g h \<longleftrightarrow> sg_id h = sg_id g \<and> (draft_ok g \<longrightarrow> draft_ok h
     \<and> (sg_committed g \<longrightarrow> sg_committed h \<and> sg_translation h = sg_translation g))"

definition evolves :: "session \<Rightarrow> session \<Rightarrow> bool" where
  "evolves a b \<longleftrightarrow> ss_next_segment a \<le> ss_next_segment b
     \<and> (\<forall>h \<in> set (ss_segments b). (\<exists>g \<in> set (ss_segments a). advances g h)
          \<or> draft_ok h \<and> (\<exists>i > ss_next_segment a. sg_id h = segment_name i))"

definition text_chars :: "session \<Rightarrow> nat" where
  "text_chars s = sum_list (map (\<lambda>p. length (ut_text (snd p))) (ss_utterances s))"

definition text_bytes :: "session \<Rightarrow> nat" where
  "text_bytes s = sum_list (map (\<lambda>p. utf8_len (ut_text (snd p))) (ss_utterances s))"

definition translation_chars :: "session \<Rightarrow> nat" where
  "translation_chars s = sum_list (map (\<lambda>g. length (sg_translation g)) (ss_segments s))"

definition translation_bytes :: "session \<Rightarrow> nat" where
  "translation_bytes s = sum_list (map (\<lambda>g. utf8_len (sg_translation g)) (ss_segments s))"

lemma state_bytes_split: "state_bytes s = text_bytes s + translation_bytes s"
  by (simp add: state_bytes_def text_bytes_def translation_bytes_def)

definition within_limits :: "session \<Rightarrow> bool" where
  "within_limits s \<longleftrightarrow> int (length (ss_utterances s)) \<le> se_max_utterances (ss_settings s)
     \<and> int (length (ss_segments s)) \<le> se_max_segments (ss_settings s)
     \<and> int (text_chars s) \<le> se_max_session_chars (ss_settings s)
     \<and> int (translation_chars s) \<le> se_max_translation_chars (ss_settings s)
     \<and> int (state_bytes s) \<le> se_max_state_bytes (ss_settings s)"

definition keeps :: "session \<Rightarrow> session \<Rightarrow> bool" where
  "keeps a b \<longleftrightarrow> evolves a b \<and> distinct (map sg_id (ss_segments b)) \<and> distinct (map fst (ss_utterances b))
     \<and> within_limits b \<and> ss_settings b = ss_settings a"

lemmas limit_defs = within_limits_def text_chars_def text_bytes_def translation_chars_def
  translation_bytes_def state_bytes_split

lemma advances_refl [simp]: "advances g g"
  by (simp add: advances_def)

lemma advances_trans: "advances f g \<Longrightarrow> advances g h \<Longrightarrow> advances f h"
  by (auto simp: advances_def)

lemma advances_draft: "advances g h \<Longrightarrow> draft_ok g \<Longrightarrow> draft_ok h \<and> sg_id h = sg_id g"
  by (simp add: advances_def)

lemma keeps_frame:
  assumes "ss_segments b = ss_segments c" "ss_utterances b = ss_utterances c" "ss_settings b = ss_settings c"
    "ss_next_segment b = ss_next_segment c"
  shows "keeps a b = keeps a c"
  using assms by (simp add: keeps_def evolves_def limit_defs)

lemma keeps_frames [simp]:
  "keeps a (metric_inc n s) = keeps a s" "keeps a (metric_obs n v s) = keeps a s"
  "keeps a (touch now s) = keeps a s" "keeps a (emit now e s) = keeps a s"
  "keeps a (emit_error now c m s) = keeps a s" "keeps a (emit_snapshot uc now k s) = keeps a s"
  "keeps a (arm cur now uid d s) = keeps a s" "keeps a (arm_commit now gid s) = keeps a s"
  "keeps a (cancel_timers s) = keeps a s" "keeps a (finish_task tm s) = keeps a s"
  "keeps a (first_result now s) = keeps a s" "keeps a (note_event now uid ev s) = keeps a s"
  "keeps a (s\<lparr>ss_revision := x1\<rparr>) = keeps a s" "keeps a (s\<lparr>ss_sched := x2\<rparr>) = keeps a s"
  "keeps a (s\<lparr>ss_context := x3\<rparr>) = keeps a s" "keeps a (s\<lparr>ss_active := x4\<rparr>) = keeps a s"
  "keeps a (s\<lparr>ss_queue := x5\<rparr>) = keeps a s" "keeps a (s\<lparr>ss_next_utterance := x6\<rparr>) = keeps a s"
  "keeps a (s\<lparr>ss_generation := x7\<rparr>) = keeps a s" "keeps a (s\<lparr>ss_closed := x8\<rparr>) = keeps a s"
  "keeps a (s\<lparr>ss_glossary := x9\<rparr>) = keeps a s" "keeps a (s\<lparr>ss_events := y1\<rparr>) = keeps a s"
  "keeps a (s\<lparr>ss_config := y2\<rparr>) = keeps a s" "keeps a (s\<lparr>ss_threshold := y3\<rparr>) = keeps a s"
  "keeps a (s\<lparr>ss_policy := y4\<rparr>) = keeps a s"
  by (rule keeps_frame; simp)+

lemma find_segment_unique:
  assumes "distinct (map sg_id (ss_segments s))" and "find_segment gid s = Some g" and "h \<in> set (ss_segments s)"
    and "sg_id h = gid"
  shows "h = g"
proof -
  have "g \<in> set (ss_segments s)" "sg_id g = gid"
    using assms(2) by (auto simp: find_segment_def find_Some_iff)
  then show ?thesis using assms by (metis distinct_map inj_onD)
qed

lemma sum_list_replace:
  fixes w :: "segment \<Rightarrow> nat"
  assumes "\<forall>x \<in> set xs. w (f x) \<le> w x + n" and "distinct (map sg_id xs)"
  shows "sum_list (map (\<lambda>g. w (if sg_id g = gid then f g else g)) xs) \<le> sum_list (map w xs) + n"
  using assms
proof (induction xs)
  case (Cons x xs)
  show ?case
  proof (cases "sg_id x = gid")
    case True
    then have "\<forall>y \<in> set xs. sg_id y \<noteq> gid" using Cons.prems(2) by (metis distinct.simps(2) image_eqI list.simps(9) set_map)
    then have "sum_list (map (\<lambda>g. w (if sg_id g = gid then f g else g)) xs) = sum_list (map w xs)"
      by (intro arg_cong [of _ _ sum_list] map_cong) simp_all
    then show ?thesis using True Cons.prems(1) by simp
  qed (use Cons in simp)
qed simp

text \<open>Updating one segment, found by its identifier.\<close>

lemma keeps_map_segment:
  assumes k: "keeps a s" and g: "find_segment gid s = Some g" and adv: "advances g (f g)"
    and same: "sg_translation (f g) = sg_translation g \<or>
      (\<not> translation_limit_hit s (sg_translation (f g)) \<and> sg_translation g = [])"
    and id: "\<And>h. sg_id (f h) = sg_id h"
  shows "keeps a (map_segment gid f s)"
proof -
  let ?s = "map_segment gid f s"
  have dist: "distinct (map sg_id (ss_segments s))" using k by (simp add: keeps_def)
  note unique = find_segment_unique [OF dist g]
  have ids: "map sg_id (ss_segments ?s) = map sg_id (ss_segments s)"
    by (simp add: map_segment_def id)
  have from_old: "\<exists>q \<in> set (ss_segments s). advances q h" if h: "h \<in> set (ss_segments ?s)" for h
  proof -
    obtain q where q: "q \<in> set (ss_segments s)" "h = (if sg_id q = gid then f q else q)"
      using h by (auto simp: map_segment_def)
    then have "advances q h" using adv unique [OF q(1)] by (cases "sg_id q = gid") simp_all
    then show ?thesis using q(1) by blast
  qed
  have "evolves a ?s"
  proof -
    have "(\<exists>p \<in> set (ss_segments a). advances p h)
        \<or> draft_ok h \<and> (\<exists>i > ss_next_segment a. sg_id h = segment_name i)"
      if h: "h \<in> set (ss_segments ?s)" for h
    proof -
      obtain q where q: "q \<in> set (ss_segments s)" "advances q h" using from_old [OF h] by blast
      then have "(\<exists>p \<in> set (ss_segments a). advances p q)
          \<or> draft_ok q \<and> (\<exists>i > ss_next_segment a. sg_id q = segment_name i)"
        using k by (simp add: keeps_def evolves_def)
      then show ?thesis using q(2) advances_trans advances_draft by metis
    qed
    then show ?thesis using k by (simp add: keeps_def evolves_def)
  qed
  moreover have "within_limits ?s"
  proof -
    have sizes: "text_chars ?s = text_chars s" "text_bytes ?s = text_bytes s"
      "length (ss_segments ?s) = length (ss_segments s)"
      by (simp_all add: text_chars_def text_bytes_def map_segment_def)
    have wl: "within_limits s" using k by (simp add: keeps_def)
    have all: "\<forall>x \<in> set (ss_segments s). sg_id x = gid \<longrightarrow> x = g" using unique by blast
    let ?F = "\<lambda>h. if sg_id h = gid then f g else h"
    have F: "ss_segments ?s = map ?F (ss_segments s)" using all by (auto simp: map_segment_def)
    show ?thesis
    proof (cases "sg_translation (f g) = sg_translation g")
      case True
      then have "map sg_translation (ss_segments ?s) = map sg_translation (ss_segments s)"
        using all by (auto simp: F)
      then have "map (\<lambda>g. length (sg_translation g)) (ss_segments ?s) = map (\<lambda>g. length (sg_translation g)) (ss_segments s)"
        "map (\<lambda>g. utf8_len (sg_translation g)) (ss_segments ?s) = map (\<lambda>g. utf8_len (sg_translation g)) (ss_segments s)"
        by (metis (no_types, lifting) map_map o_def map_eq_conv)+
      then have "translation_chars ?s = translation_chars s" "translation_bytes ?s = translation_bytes s"
        unfolding translation_chars_def translation_bytes_def by (simp_all only:)
      then show ?thesis using wl sizes by (simp add: within_limits_def state_bytes_split)
    next
      case False
      then have room: "\<not> translation_limit_hit s (sg_translation (f g))" using same by simp
      have "translation_chars ?s \<le> translation_chars s + length (sg_translation (f g))"
        unfolding translation_chars_def F map_map o_def
        by (rule sum_list_replace [of _ "\<lambda>g. length (sg_translation g)"]) (use dist in auto)
      moreover have "translation_bytes ?s \<le> translation_bytes s + utf8_len (sg_translation (f g))"
        unfolding translation_bytes_def F map_map o_def
        by (rule sum_list_replace [of _ "\<lambda>g. utf8_len (sg_translation g)"]) (use dist in auto)
      ultimately show ?thesis using wl room sizes
        by (simp add: within_limits_def state_bytes_split translation_limit_hit_def translation_chars_def)
    qed
  qed
  ultimately show ?thesis using k ids by (simp add: keeps_def)
qed

subsection \<open>Drafts, results and dispatch\<close>

lemma ready_state: "dc_state (fst (ready dc (Fin now))) = dc_state dc"
  by (simp add: ready_eq)

lemma ready_finite: "\<exists>b. snd (ready dc (Fin now)) = Inr b \<and> (b \<longrightarrow> dc_state dc \<noteq> None)"
  by (auto simp: ready_eq draft_settled_def split: option.split)

lemma keeps_segment_ready: assumes "keeps a s" shows "keeps a (fst (segment_ready now gid s))"
proof (cases "find_segment gid s")
  case (Some g)
  have "keeps a (map_segment gid (\<lambda>g. g\<lparr>sg_committer := fst (ready (sg_committer g) (Fin now))\<rparr>) s)"
    using assms Some by (rule keeps_map_segment) (simp_all add: advances_def draft_ok_def ready_state)
  moreover have "map_segment gid (\<lambda>h. h\<lparr>sg_committer := fst (ready (sg_committer g) (Fin now))\<rparr>) s
      = map_segment gid (\<lambda>g. g\<lparr>sg_committer := fst (ready (sg_committer g) (Fin now))\<rparr>) s"
    using find_segment_unique [OF _ Some] assms by (simp add: map_segment_def keeps_def)
  ultimately show ?thesis using Some by (simp add: segment_ready_def split: prod.split) (metis fst_conv)
qed (use assms in \<open>simp add: segment_ready_def\<close>)

lemma keeps_commit: assumes "keeps a s" shows "keeps a (fst (commit_segment uc now gid s))"
proof (cases "find_segment gid s")
  case (Some g)
  obtain dc r where m: "mark_committed (sg_committer g) (Fin now) = (dc, r)" by fastforce
  have st: "dc_state dc \<noteq> None \<longrightarrow> dc_state (sg_committer g) \<noteq> None" "r = Inr d \<Longrightarrow> dc_state dc \<noteq> None"
    "dc_state (sg_committer g) \<noteq> None \<longrightarrow> dc_state dc \<noteq> None" for d
    using m by (auto simp: mark_committed_def ready_eq split: bool.splits option.splits)
  have keep_dc: "keeps a (map_segment gid (\<lambda>g. g\<lparr>sg_committer := dc\<rparr>) s)"
    using assms Some by (rule keeps_map_segment) (use st in \<open>auto simp: advances_def draft_ok_def\<close>)
  have keep_done: "keeps a (map_segment gid (\<lambda>g. g\<lparr>sg_committer := dc, sg_committed := True\<rparr>) s)" if "r = Inr d" for d
    using assms Some by (rule keeps_map_segment) (use st that in \<open>auto simp: advances_def draft_ok_def\<close>)
  show ?thesis
    using Some m keep_dc keep_done assms
    by (cases r) (simp_all add: commit_segment_def done_step_def Let_def)
qed (use assms in \<open>simp add: commit_segment_def\<close>)

lemma keeps_settle: assumes "keeps a s" shows "keeps a (fst (settle_segment uc now gid s))"
  unfolding settle_segment_def
  by (rule andthen_inv [of "keeps a"]) (use assms in \<open>simp_all add: keeps_segment_ready keeps_commit\<close>)

lemma keeps_launch:
  assumes k: "keeps a s" and g: "find (\<lambda>g. sg_status g = SegReady) (ss_segments s) = Some g"
  shows "keeps a (map_segment (sg_id g) (\<lambda>x. x\<lparr>sg_status := SegRunning\<rparr>) s)"
proof -
  have g': "g \<in> set (ss_segments s)" "sg_status g = SegReady" using g by (auto simp: find_Some_iff)
  have "find_segment (sg_id g) s \<noteq> None" using g'(1) by (auto simp: find_segment_def find_None_iff)
  then obtain h where h: "find_segment (sg_id g) s = Some h" by blast
  have "h = g" using find_segment_unique [OF _ h g'(1)] k by (simp add: keeps_def)
  then show ?thesis using k h g'(2)
    by (intro keeps_map_segment [of a s _ g]) (auto simp: advances_def draft_ok_def)
qed

lemma keeps_dispatch: assumes "keeps a s" shows "keeps a (fst (dispatch_next uc cur now s))"
proof (cases "ss_closed s \<or> ss_queue s = None \<or> ss_active s \<noteq> None \<or> find (\<lambda>g. sg_status g = SegReady) (ss_segments s) = None")
  case True
  then show ?thesis using assms by (auto simp: dispatch_next_def done_step_def)
next
  case False
  then obtain g where g: "find (\<lambda>g. sg_status g = SegReady) (ss_segments s) = Some g" by auto
  have "keeps a (map_segment (sg_id g) (\<lambda>x. x\<lparr>sg_status := SegRunning\<rparr>) (s\<lparr>ss_context := cm, ss_sched := sh\<rparr>))" for cm sh
    using assms g by (intro keeps_launch) simp_all
  then show ?thesis
    using False g assms
    by (simp add: dispatch_next_def done_step_def Let_def split: prod.split sum.split)
qed

lemma keeps_settle_old: assumes "keeps a s" shows "keeps a (fst (settle_old uc now final gid s))"
proof (cases "find_segment gid s")
  case (Some g)
  have "keeps a (map_segment gid (\<lambda>x. x\<lparr>sg_status := SegReady\<rparr>) t)"
    if "keeps a t" "find_segment gid t = Some h" "sg_status h = SegFailed" for t h
    using that by (intro keeps_map_segment [of a t gid h]) (auto simp: advances_def draft_ok_def)
  then show ?thesis
    using Some assms by (auto simp: settle_old_def keeps_segment_ready keeps_commit intro!: andthen_inv [of "keeps a"]
        split: option.splits)
qed (use assms in \<open>simp add: settle_old_def\<close>)

lemma propose_state:
  "dc_state (fst (propose uc dc clk s e src target rv f)) = None \<Longrightarrow> dc_state dc = None"
  by (auto simp: propose_def committer_now_def Let_def split: option.splits if_splits sum.splits prod.splits)

text \<open>A result arrives for a running segment, which has no draft yet and no translation.\<close>

lemma keeps_store:
  assumes k: "keeps a s" and g: "find_segment gid s = Some g" and run: "running g"
    and draft: "draft_ok g" and room: "\<not> translation_limit_hit s tx"
  shows "keeps a (fst (store_translation uc now gid tx s))"
proof -
  have none: "dc_state (sg_committer g) = None" "\<not> sg_committed g" "sg_translation g = []"
    using run draft by (auto simp: draft_ok_def running_def)
  have "keeps a (map_segment gid (\<lambda>x. x\<lparr>sg_translation := tx, sg_status := SegComplete, sg_committer := dc\<rparr>) s)" for dc
    using k g by (rule keeps_map_segment) (use none room in \<open>auto simp: advances_def draft_ok_def\<close>)
  then show ?thesis using g
    by (simp add: store_translation_def Let_def keeps_settle split: prod.split sum.split)
qed

definition drafts_ok :: "session \<Rightarrow> bool" where
  "drafts_ok s \<longleftrightarrow> (\<forall>g \<in> set (ss_segments s). draft_ok g)"

lemma keeps_drafts: "keeps a s \<Longrightarrow> drafts_ok a \<Longrightarrow> drafts_ok s"
  unfolding keeps_def evolves_def drafts_ok_def by (metis advances_draft)

lemma keeps_fail:
  assumes k: "keeps a s" and g: "find_segment gid s = Some g" and "running g" "draft_ok g"
  shows "keeps a (map_segment gid (\<lambda>g. g\<lparr>sg_status := SegFailed\<rparr>) s)"
  using k g by (rule keeps_map_segment) (use assms(3,4) in \<open>auto simp: advances_def draft_ok_def running_def\<close>)

lemma keeps_foldl: "(\<And>t x. keeps a t \<Longrightarrow> keeps a (f t x)) \<Longrightarrow> keeps a s \<Longrightarrow> keeps a (foldl f s xs)"
  by (induction xs arbitrary: s) auto

lemma keeps_result:
  assumes k: "keeps a s" and d: "drafts_ok a" shows "keeps a (fst (result_handler uc now j r e s))"
proof (cases "result_current s j")
  case True
  then obtain g where g: "find_segment (jb_segment j) s = Some g" "running g"
    by (auto simp: result_current_def running_def split: option.splits)
  then have dg: "draft_ok g"
    using keeps_drafts [OF k d] by (auto simp: drafts_ok_def find_segment_def find_Some_iff)
  have g': "find_segment (jb_segment j) (s\<lparr>ss_active := None\<rparr>) = Some g" using g by (simp add: find_segment_def)
  have k': "keeps a (s\<lparr>ss_active := None\<rparr>)" using k by simp
  have rearm: "keeps a (rearm_retained uc now t)" if "keeps a t" for t
    unfolding rearm_retained_def by (rule keeps_foldl) (simp_all add: that)
  note fail = keeps_fail [OF k' g' g(2) dg] and store = keeps_store [OF k' g' g(2) dg]
  show ?thesis
    using True fail store
    by (auto simp: result_handler_def Let_def keeps_dispatch rearm split: option.split intro!: andthen_inv [of "keeps a"])
qed (use k in \<open>simp add: result_handler_def\<close>)

lemma keeps_attach: assumes k: "keeps a s" shows "keeps a (fst (attach uc now s))"
proof -
  have arms: "keeps a (foldl (\<lambda>t p. arm None now (fst p) 0 t) t ps)" if "keeps a t" for t ps
    by (rule keeps_foldl) (simp_all add: that)
  have draft: "keeps a (fst (settle_draft uc now gid t))" if "keeps a t" for gid t
    using that by (simp add: settle_draft_def keeps_settle split: option.split)
  show ?thesis
    using k by (auto simp: attach_def Let_def arms keeps_dispatch draft
        intro!: andthen_inv [of "keeps a"] andthen_for_each [of "keeps a"])
qed

lemma keeps_map_all:
  assumes k: "keeps a s" and d: "ss_segments t = map f (ss_segments s)" "ss_utterances t = ss_utterances s"
      "ss_settings t = ss_settings s" "ss_next_segment t = ss_next_segment s"
    and adv: "\<And>g. advances g (f g)" and tr: "\<And>g. sg_translation (f g) = sg_translation g"
  shows "keeps a t"
proof -
  have id: "sg_id (f g) = sg_id g" for g using adv by (simp add: advances_def)
  have "(\<exists>p \<in> set (ss_segments a). advances p (f g))
        \<or> draft_ok (f g) \<and> (\<exists>i > ss_next_segment a. sg_id (f g) = segment_name i)"
    if g: "g \<in> set (ss_segments s)" for g
  proof -
    have "(\<exists>p \<in> set (ss_segments a). advances p g) \<or> draft_ok g \<and> (\<exists>i > ss_next_segment a. sg_id g = segment_name i)"
      using k g by (simp add: keeps_def evolves_def)
    then show ?thesis using adv [of g] advances_trans advances_draft id by metis
  qed
  then have ev: "evolves a t" using k by (simp add: keeps_def evolves_def d(1,4))
  have ids: "map sg_id (ss_segments t) = map sg_id (ss_segments s)" by (simp add: d(1) id)
  have "within_limits s" using k by (simp add: keeps_def)
  then have "within_limits t" by (simp add: limit_defs d o_def tr)
  then show ?thesis using k ev ids d(2,3) unfolding keeps_def by simp
qed

lemma keeps_detach: assumes k: "keeps a s" shows "keeps a (detach s)"
  using k
proof (rule keeps_map_all)
  show "ss_segments (detach s) = map (\<lambda>g. if sg_status g = SegRunning then g\<lparr>sg_status := SegReady\<rparr> else g) (ss_segments s)"
    "ss_utterances (detach s) = ss_utterances s"
    "ss_settings (detach s) = ss_settings s" "ss_next_segment (detach s) = ss_next_segment s"
    by (simp_all add: detach_def Let_def cancel_timers_def)
qed (auto simp: advances_def draft_ok_def)

subsection \<open>Texts\<close>

lemma al_put_sum:
  fixes w :: "'v \<Rightarrow> nat"
  assumes "distinct (map fst m)"
  shows "sum_list (map (\<lambda>p. w (snd p)) (al_put k v m)) + (case map_of m k of None \<Rightarrow> 0 | Some x \<Rightarrow> w x)
    = sum_list (map (\<lambda>p. w (snd p)) m) + w v"
  using assms by (induction k v m rule: al_put.induct) auto

definition own :: "(ustring \<Rightarrow> nat) \<Rightarrow> session \<Rightarrow> ustring \<Rightarrow> nat" where
  "own w s uid = (case map_of (ss_utterances s) uid of None \<Rightarrow> 0 | Some u \<Rightarrow> w (ut_text u))"

text \<open>The limits admit \<open>tx\<close> as the new text of the utterance.\<close>

definition room :: "session \<Rightarrow> ustring \<Rightarrow> ustring \<Rightarrow> bool" where
  "room s uid tx \<longleftrightarrow>
     int (text_chars s) - int (own length s uid) + int (length tx) \<le> se_max_session_chars (ss_settings s)
     \<and> int (state_bytes s) - int (own utf8_len s uid) + int (utf8_len tx) \<le> se_max_state_bytes (ss_settings s)"

lemma keeps_put_text:
  assumes k: "keeps a s" and u: "map_of (ss_utterances s) uid = Some u" and r: "room s uid (ut_text v)"
  shows "keeps a (put_utterance uid v s)"
proof -
  have dist: "distinct (map fst (ss_utterances s))" and wl: "within_limits s" using k by (simp_all add: keeps_def)
  have "int (text_chars (put_utterance uid v s)) = int (text_chars s) - int (own length s uid) + int (length (ut_text v))"
    "int (text_bytes (put_utterance uid v s)) = int (text_bytes s) - int (own utf8_len s uid) + int (utf8_len (ut_text v))"
    using al_put_sum [OF dist, of "\<lambda>u. length (ut_text u)" uid v] al_put_sum [OF dist, of "\<lambda>u. utf8_len (ut_text u)" uid v] u
    by (simp_all add: text_chars_def text_bytes_def own_def)
  moreover have "length (al_put uid v (ss_utterances s)) = length (ss_utterances s)"
    using u by (intro length_al_put_old) (rule map_of_in_fst)
  ultimately have "within_limits (put_utterance uid v s)"
    using wl r by (simp add: within_limits_def room_def state_bytes_split translation_chars_def translation_bytes_def)
  then show ?thesis using k distinct_al_put [OF dist] by (simp add: keeps_def evolves_def)
qed

lemma keeps_put_same:
  assumes k: "keeps a s" and u: "map_of (ss_utterances s) uid = Some u" and "ut_text v = ut_text u"
  shows "keeps a (put_utterance uid v s)"
  using k u
proof (rule keeps_put_text)
  have "within_limits s" using k by (simp add: keeps_def)
  then show "room s uid (ut_text v)" using assms(3) u by (simp add: room_def own_def within_limits_def)
qed

lemma room_put_same:
  assumes "distinct (map fst (ss_utterances s))" "map_of (ss_utterances s) uid' = Some u" "ut_text v = ut_text u"
  shows "room (put_utterance uid' v s) uid tx = room s uid tx"
proof -
  have "text_chars (put_utterance uid' v s) = text_chars s" "text_bytes (put_utterance uid' v s) = text_bytes s"
    using al_put_sum [OF assms(1), of "\<lambda>u. length (ut_text u)" uid' v]
      al_put_sum [OF assms(1), of "\<lambda>u. utf8_len (ut_text u)" uid' v] assms(2,3)
    by (simp_all add: text_chars_def text_bytes_def)
  moreover have "own w (put_utterance uid' v s) uid = own w s uid" for w
    using assms(2,3) by (simp add: own_def)
  ultimately show ?thesis by (simp add: room_def state_bytes_split translation_bytes_def)
qed

lemma room_frame:
  "ss_segments b = ss_segments c \<Longrightarrow> ss_utterances b = ss_utterances c \<Longrightarrow> ss_settings b = ss_settings c \<Longrightarrow>
     room b uid tx = room c uid tx"
  by (simp add: room_def limit_defs own_def)

subsection \<open>Ingest\<close>

definition admits :: "session \<Rightarrow> ustring \<Rightarrow> ustring \<Rightarrow> session \<Rightarrow> bool" where
  "admits a uid tx s \<longleftrightarrow> keeps a s \<and> room s uid tx"

lemma admits_keeps: "admits a uid tx s \<Longrightarrow> keeps a s"
  by (simp add: admits_def)

lemma admits_frame:
  "ss_segments b = ss_segments c \<Longrightarrow> ss_utterances b = ss_utterances c \<Longrightarrow> ss_settings b = ss_settings c \<Longrightarrow>
     ss_next_segment b = ss_next_segment c \<Longrightarrow> admits a uid tx b = admits a uid tx c"
  using keeps_frame [of b c a] room_frame [of b c uid tx] by (simp add: admits_def)

lemma admits_frames [simp]:
  "admits a uid tx (arm cur now uid2 d s) = admits a uid tx s"
  "admits a uid tx (metric_inc n s) = admits a uid tx s"
  "admits a uid tx (emit_snapshot uc now k s) = admits a uid tx s"
  "admits a uid tx (note_event now uid2 ev s) = admits a uid tx s"
  "admits a uid tx (s\<lparr>ss_revision := x1\<rparr>) = admits a uid tx s"
  "admits a uid tx (s\<lparr>ss_sched := x2\<rparr>) = admits a uid tx s"
  "admits a uid tx (s\<lparr>ss_active := x4\<rparr>) = admits a uid tx s"
  "admits a uid tx (s\<lparr>ss_next_utterance := x6\<rparr>) = admits a uid tx s"
  by (rule admits_frame; simp)+

lemma admits_put_same:
  assumes "admits a uid tx s" "map_of (ss_utterances s) uid' = Some u" "ut_text v = ut_text u"
  shows "admits a uid tx (put_utterance uid' v s)"
  using assms keeps_put_same [of a s uid' u v] room_put_same [of s uid' u v uid tx]
  by (simp add: admits_def keeps_def)

lemma sum_list_take_le: fixes w :: "'a \<Rightarrow> nat" shows "sum_list (map w (take i xs)) \<le> sum_list (map w xs)"
  by (metis append_take_drop_id le_add1 map_append sum_list_append)

lemma admits_truncate:
  assumes "admits a uid tx s" shows "admits a uid tx (s\<lparr>ss_segments := take i (ss_segments s)\<rparr>)"
proof -
  let ?s = "s\<lparr>ss_segments := take i (ss_segments s)\<rparr>"
  have k: "keeps a s" and r: "room s uid tx" and wl: "within_limits s"
    using assms by (simp_all add: admits_def keeps_def)
  have le: "translation_chars ?s \<le> translation_chars s" "translation_bytes ?s \<le> translation_bytes s"
    by (simp_all add: translation_chars_def translation_bytes_def sum_list_take_le)
  have eq: "text_chars ?s = text_chars s" "text_bytes ?s = text_bytes s"
    by (simp_all add: text_chars_def text_bytes_def)
  have "int (min (length (ss_segments s)) i) \<le> int (length (ss_segments s))" by simp
  then have "within_limits ?s" using wl le eq unfolding within_limits_def state_bytes_split by simp linarith
  moreover have "room ?s uid tx" using r le eq by (simp add: room_def state_bytes_split own_def)
  moreover have "evolves a ?s" using k by (auto simp: keeps_def evolves_def dest: in_set_takeD)
  moreover have "distinct (map sg_id (take i (ss_segments s)))"
    using k by (simp add: keeps_def flip: take_map)
  ultimately show ?thesis using k by (simp add: admits_def keeps_def)
qed

lemma admits_rollback: assumes "admits a uid tx s" shows "admits a uid tx (fst (rollback uc cur now i s))"
proof -
  have one: "admits a uid tx (rollback_utterance cur now g t)" if "admits a uid tx t" for g t
    using that by (auto simp: rollback_utterance_def intro: admits_put_same split: option.split)
  have "admits a uid tx (foldl (\<lambda>t g. rollback_utterance cur now g t) t gs)" if "admits a uid tx t" for t gs
    using that by (induction gs arbitrary: t) (simp_all add: one)
  from this [OF admits_truncate [OF assms, of i]] show ?thesis
    by (simp add: rollback_def Let_def done_step_def split: prod.split sum.split)
qed

lemma keeps_adopt:
  assumes "admits a uid (ev_text ev) s" shows "keeps a (fst (adopt_text uc cur now uid ev st old s))"
proof (cases "map_of (ss_utterances s) uid")
  case (Some u)
  have "keeps a (put_utterance uid ((update_utterance now ev e u)\<lparr>ut_tracker := tr\<rparr>) s)" for e tr
    using assms Some by (intro keeps_put_text [of a s uid u]) (simp_all add: admits_def)
  moreover have "keeps a (fst (for_each (settle_old uc now f) ids t))" if "keeps a t" for f ids t
    using that by (intro andthen_for_each [of "keeps a"]) (simp_all add: keeps_settle_old)
  ultimately show ?thesis
    using Some by (simp add: adopt_text_def Let_def split: prod.split sum.split)
qed (use assms in \<open>simp add: adopt_text_def admits_def\<close>)

lemma keeps_apply:
  assumes "admits a uid (ev_text ev) s" shows "keeps a (fst (apply_hypothesis uc cur now uid ev st s))"
proof -
  have "keeps a (fst (andthen (if c then rollback uc cur now i s else done_step s)
      (\<lambda>s1 _. adopt_text uc cur now uid ev st old s1)))" for c i old
  proof (cases c)
    case True
    have r: "admits a uid (ev_text ev) (fst (rollback uc cur now i s))" using assms by (rule admits_rollback)
    then show ?thesis using True
      by (cases "rollback uc cur now i s"; cases "snd (rollback uc cur now i s)")
         (auto simp: andthen_def keeps_adopt admits_keeps)
  qed (use assms in \<open>simp add: keeps_adopt done_step_def\<close>)
  then show ?thesis using admits_keeps [OF assms]
    by (simp add: apply_hypothesis_def Let_def split: option.split sum.split)
qed

lemma keeps_observe:
  assumes "admits a uid (ev_text ev) s" shows "keeps a (fst (observe_event uc cur started now uid ev s))"
proof (cases "map_of (ss_utterances s) uid")
  case (Some u)
  have put: "admits a uid (ev_text ev) (put_utterance uid (u\<lparr>ut_tracker := tr\<rparr>) s)" for tr
    using assms Some by (rule admits_put_same) simp
  have "keeps a (fst (andthen (apply_hypothesis uc cur now uid ev st t) (\<lambda>s5 _.
          done_step (metric_obs n v s5))))" if "admits a uid (ev_text ev) t" for st t n v
    by (rule andthen_inv [of "keeps a"]) (simp_all add: keeps_apply that)
  then show ?thesis
    using Some put admits_keeps [OF put] by (simp add: observe_event_def Let_def split: prod.split sum.split)
qed (use assms in \<open>simp add: observe_event_def admits_def\<close>)

lemma check_event_room:
  assumes "check_event s ev = (s1, Inr uid)"
  shows "room s1 uid (ev_text ev)"
    and "map_of (ss_utterances s1) uid = None \<Longrightarrow> int (length (ss_utterances s1)) < se_max_utterances (ss_settings s1)"
proof -
  have "\<not> session_limit_hit s1 ev (map_of (ss_utterances s1) uid)"
    using assms by (auto simp: check_event_def andthen_def Let_def split: if_splits prod.splits sum.splits)
  then show "room s1 uid (ev_text ev)"
    and "map_of (ss_utterances s1) uid = None \<Longrightarrow> int (length (ss_utterances s1)) < se_max_utterances (ss_settings s1)"
    by (auto simp: session_limit_hit_def Let_def room_def own_def text_chars_def split: option.splits)
qed

lemma admits_ensure:
  assumes k: "keeps a s" and r: "room s uid tx"
    and n: "map_of (ss_utterances s) uid = None \<Longrightarrow> int (length (ss_utterances s)) < se_max_utterances (ss_settings s)"
  shows "admits a uid tx (fst (ensure_utterance now s uid ev))"
proof (cases "map_of (ss_utterances s) uid")
  case None
  have dist: "distinct (map fst (ss_utterances s))" and wl: "within_limits s" using k by (simp_all add: keeps_def)
  have "admits a uid tx (put_utterance uid v s)" if v: "ut_text v = []" for v
  proof -
    let ?s = "put_utterance uid v s"
    have sums: "text_chars ?s = text_chars s" "text_bytes ?s = text_bytes s" "own length ?s uid = 0" "own utf8_len ?s uid = 0"
        "own length s uid = 0" "own utf8_len s uid = 0"
      using al_put_sum [OF dist, of "\<lambda>u. length (ut_text u)" uid v] al_put_sum [OF dist, of "\<lambda>u. utf8_len (ut_text u)" uid v]
        None v by (simp_all add: text_chars_def text_bytes_def own_def)
    have "int (length (al_put uid v (ss_utterances s))) \<le> se_max_utterances (ss_settings s)"
      using n [OF None] length_al_put_new [of uid v "ss_utterances s"] by linarith
    then have "within_limits ?s"
      using wl sums by (simp add: within_limits_def state_bytes_split translation_chars_def translation_bytes_def)
    moreover have "room ?s uid tx" using r sums by (simp add: room_def state_bytes_split translation_bytes_def)
    ultimately show ?thesis using k distinct_al_put [OF dist] by (simp add: admits_def keeps_def evolves_def)
  qed
  then show ?thesis using None k r
    by (simp add: ensure_utterance_def admits_def done_step_def Let_def split: sum.split)
qed (use k r in \<open>simp add: ensure_utterance_def admits_def\<close>)

lemma keeps_check: "keeps a (fst (check_event s ev)) = keeps a s"
proof (rule keeps_frame)
  have r: "ss_segments (fst (resolve_utterance s ev)) = ss_segments s"
    "ss_utterances (fst (resolve_utterance s ev)) = ss_utterances s"
    "ss_settings (fst (resolve_utterance s ev)) = ss_settings s"
    "ss_next_segment (fst (resolve_utterance s ev)) = ss_next_segment s"
    by (simp_all add: resolve_utterance_def Let_def split: option.split)
  show "ss_segments (fst (check_event s ev)) = ss_segments s"
    "ss_utterances (fst (check_event s ev)) = ss_utterances s"
    "ss_settings (fst (check_event s ev)) = ss_settings s"
    "ss_next_segment (fst (check_event s ev)) = ss_next_segment s"
    using r by (auto simp: check_event_def andthen_def Let_def split: prod.split sum.split)
qed

lemma keeps_ingest: assumes k: "keeps a s" shows "keeps a (fst (ingest uc cur started now ev s))"
proof (cases "check_event s ev")
  case (Pair s1 r)
  have k1: "keeps a s1" using keeps_check [of a s ev] k Pair by simp
  show ?thesis
  proof (cases r)
    case (Inr uid)
    have ok: "check_event s ev = (s1, Inr uid)" using Pair Inr by simp
    have ad: "admits a uid (ev_text ev) (fst (ensure_utterance now s1 uid ev))"
      using k1 check_event_room [OF ok] by (rule admits_ensure)
    show ?thesis
    proof (cases "snd (ensure_utterance now s1 uid ev)")
      case (Inl e)
      then show ?thesis using ok ad by (cases "ensure_utterance now s1 uid ev") (simp add: ingest_def admits_def)
    next
      case (Inr x)
      then show ?thesis using ok ad
        by (cases "ensure_utterance now s1 uid ev") (simp add: ingest_def keeps_observe)
    qed
  qed (use Pair k1 in \<open>simp add: ingest_def\<close>)
qed

subsection \<open>Selection\<close>

lemma keeps_cut:
  assumes k: "keeps a s" and ok: "session_ok s" and u: "map_of (ss_utterances s) uid = Some u"
    and room: "int (length (ss_segments s)) < se_max_segments (ss_settings s)"
  shows "keeps a (fst (cut_segment now uid u c s))"
proof (cases "new_committer (se_stability_count (ss_settings s)) (of_int (se_commit_delay_ms (ss_settings s)))")
  case (Inl e)
  have "keeps a (s\<lparr>ss_next_segment := Suc (ss_next_segment s)\<rparr>)"
    using k by (auto simp: keeps_def evolves_def limit_defs)
  then show ?thesis using Inl by (simp add: cut_segment_def Let_def)
next
  case (Inr dc)
  have dc: "dc_state dc = None" using Inr by (auto simp: new_committer_def split: if_splits)
  let ?name = "segment_name (Suc (ss_next_segment s))"
  define g where "g = \<lparr>sg_id = ?name, sg_utterance = uid, sg_start = sc_start c, sg_end = sc_end c,
     sg_source = slice (sc_start c) (sc_end c) (ut_text u), sg_source_revision = ut_revision u,
     sg_speaker = ut_speaker u, sg_sequence = ut_sequence u, sg_final_source = ut_final u,
     sg_committer = dc, sg_created_at = now, sg_translation = [], sg_committed = False, sg_status = SegReady\<rparr>"
  define t where "t = s\<lparr>ss_next_segment := Suc (ss_next_segment s), ss_segments := ss_segments s @ [g]\<rparr>"
  have g: "draft_ok g" "sg_id g = ?name" "sg_translation g = []" by (simp_all add: g_def draft_ok_def dc)
  have fresh: "?name \<notin> set (map sg_id (ss_segments s))"
  proof
    assume "?name \<in> set (map sg_id (ss_segments s))"
    then have "?name \<in> sk_id ` set (keys s)" by (simp add: keys_def image_image)
    then obtain i where "i \<le> ss_next_segment s" "segment_name i = ?name"
      using ok by (auto simp: session_ok_def source_inv_def source_shape_def)
    then show False by simp
  qed
  have "ss_next_segment a < Suc (ss_next_segment s)" using k by (simp add: keeps_def evolves_def)
  then have "evolves a t" using k g(1,2) by (auto simp: keeps_def evolves_def t_def)
  moreover have "within_limits s" using k by (simp add: keeps_def)
  then have "within_limits t" using room g(3) by (simp add: limit_defs t_def)
  moreover have "distinct (map sg_id (ss_segments t))"
    using k fresh g(2) by (simp add: keeps_def t_def)
  ultimately have "keeps a t" using k unfolding keeps_def t_def by simp
  moreover have "map_of (ss_utterances t) uid = Some u" using u by (simp add: t_def)
  ultimately have "keeps a (put_utterance uid (u\<lparr>ut_selected_end := sc_end c, ut_buffer_since := now\<rparr>) t)"
    by (rule keeps_put_same) simp
  then show ?thesis using Inr by (simp add: cut_segment_def Let_def done_step_def t_def g_def)
qed

lemma keeps_hold:
  assumes "keeps a s" "map_of (ss_utterances s) uid = Some u"
  shows "keeps a (fst (hold_source cur now uid age u s))"
proof -
  have "keeps a (put_utterance uid (u\<lparr>ut_incomplete := True\<rparr>) (metric_inc n (emit_error now c m s)))" for n c m
    using assms by (intro keeps_put_same [of _ _ uid u]) simp_all
  then show ?thesis using assms by (simp add: hold_source_def Let_def)
qed

definition good :: "session \<Rightarrow> session \<Rightarrow> bool" where
  "good a s \<longleftrightarrow> keeps a s \<and> session_ok s"

lemma good_round:
  assumes g: "good a s" shows "good a (fst (select_round uc cur now uid st s))"
proof -
  have k: "keeps a s" and ok: "session_ok s" using g by (simp_all add: good_def)
  have "keeps a (fst (select_round uc cur now uid st s))"
  proof (cases "map_of (ss_utterances s) uid")
    case (Some u)
    have last: "keeps a (fst (case w of
            None \<Rightarrow> (case hold_source cur now uid age u s of (s1, b) \<Rightarrow> (s1, Inr (Some b)))
          | Some c \<Rightarrow> andthen (cut_segment now uid u c s) (\<lambda>s1 _. (s1, Inr None))))"
      if room: "\<not> se_max_segments (ss_settings s) \<le> int (length (ss_segments s))" for w age
    proof -
      have "keeps a (fst (andthen (cut_segment now uid u c s) (\<lambda>s1 _. (s1, Inr None))))" for c
        by (rule andthen_inv [of "keeps a"]) (use keeps_cut [OF k ok Some] room in simp_all)
      then show ?thesis using keeps_hold [OF k Some, of cur now age]
        by (cases "hold_source cur now uid age u s"; cases w) simp_all
    qed
    show ?thesis unfolding select_round_def Some option.case Let_def
      using k last by (simp split: sum.split)
  qed (use k in \<open>simp add: select_round_def\<close>)
  then show ?thesis using session_ok_round [OF ok] by (simp add: good_def)
qed

lemma good_loop: "good a s \<Longrightarrow> good a (fst (select_loop uc cur now uid st s))"
proof (induction uc cur now uid st s rule: select_loop.induct)
  case (1 uc cur now uid st s)
  show ?case
  proof (cases "select_round uc cur now uid st s")
    case (Pair s1 r)
    have "good a s1" using good_round [OF "1.prems", of uc cur now uid st] Pair by simp
    then show ?thesis
      using "1.IH" [OF Pair [symmetric]] Pair
      by (subst select_loop.simps) (auto split: sum.split option.split)
  qed
qed

lemma good_select:
  assumes g: "good a s" shows "good a (fst (select_utterance uc cur now uid s))"
proof (cases "map_of (ss_utterances s) uid")
  case (Some u)
  have put: "good a (put_utterance uid (u\<lparr>ut_tracker := tr\<rparr>) s)"
      "good a (put_utterance uid (u\<lparr>ut_tracker := tr, ut_stable_end := e\<rparr>) s)" for tr e
    using g same_source_inv [OF same_source_put [THEN iffD2, OF Some _ _ same_source_refl]] keeps_put_same [OF _ Some]
    by (simp_all add: session_ok_def good_def)
  show ?thesis
    using Some put good_loop
    by (simp add: select_utterance_def Let_def split: prod.split sum.split option.split)
qed (use g in \<open>simp add: select_utterance_def\<close>)

lemma good_visit: "good a s \<Longrightarrow> good a (fst (visit_utterances uc cur now uids s))"
proof (induction uids arbitrary: s)
  case (Cons uid rest)
  have "good a (fst (andthen (select_utterance uc cur now uid s) (\<lambda>s1 go.
                 if go then visit_utterances uc cur now rest s1 else done_step s1)))"
    by (rule andthen_inv [of "good a"]) (simp_all add: good_select Cons)
  then show ?case using Cons by (simp split: option.split)
qed simp

lemma keeps_evaluate:
  assumes "good a s" shows "keeps a (fst (evaluate uc cur started now uid gen s))"
proof -
  have "keeps a (fst (andthen (visit_utterances uc cur now (map fst (ss_utterances s)) s)
      (\<lambda>s1 _. dispatch_next uc cur now (metric_obs ''segment_decision_ms'' ((now - started) * 1000) s1))))"
    using good_visit [OF assms] by (intro andthen_inv [of "keeps a"]) (simp_all add: keeps_dispatch good_def)
  then show ?thesis using assms by (simp add: evaluate_def good_def)
qed

lemma keeps_fire:
  assumes g: "good a s" shows "keeps a (fire_timer uc started now t s)"
proof (cases "ti_kind t")
  case (EvaluateTimer uid)
  then show ?thesis using keeps_evaluate [OF g, of uc "Some (ti_id t)" started now uid "ti_generation t"]
    by (cases "evaluate uc (Some (ti_id t)) started now uid (ti_generation t) s")
       (simp add: fire_timer_def split: sum.split)
next
  case (CommitTimer gid)
  have "keeps a (fst (fire_commit uc now gid (ti_generation t) s))"
    using g by (auto simp: fire_commit_def good_def keeps_segment_ready keeps_commit intro!: andthen_inv [of "keeps a"])
  then show ?thesis by (simp add: fire_timer_def CommitTimer)
qed

subsection \<open>Steps\<close>

lemma keeps_empty:
  assumes "ss_segments t = []" "ss_utterances t = []" "ss_settings t = ss_settings s"
    "ss_next_segment a \<le> ss_next_segment t" "within_limits s" "ss_settings s = ss_settings a"
  shows "keeps a t"
proof -
  have "within_limits t" using assms(5) by (simp add: limit_defs assms(1-3))
  then show ?thesis using assms by (simp add: keeps_def evolves_def)
qed

lemma evolves_refl: "evolves s s"
  unfolding evolves_def using advances_refl by blast

lemma keeps_refl: "within_limits s \<Longrightarrow> session_ok s \<Longrightarrow> distinct (map fst (ss_utterances s)) \<Longrightarrow> keeps s s"
  using flags_distinct [of s] evolves_refl by (simp add: keeps_def session_ok_def flags_def o_def)

lemma keeps_step:
  assumes "session_step uc s s'" and k: "keeps a s" and ok: "session_ok s" and d: "drafts_ok a"
  shows "keeps a s'"
  using assms(1)
proof cases
  case (step_ingest started now ev)
  then show ?thesis using k keeps_ingest by simp
next
  case (step_timer t started now)
  then show ?thesis using k ok keeps_fire by (simp add: good_def)
next
  case (step_reset now)
  have "ss_segments s' = []" "ss_utterances s' = []" "ss_settings s' = ss_settings s"
    "ss_next_segment s' = ss_next_segment s"
    unfolding step_reset by (simp_all add: reset_def Let_def cancel_timers_def)
  then show ?thesis using k by (intro keeps_empty [of s' s a]) (simp_all add: keeps_def evolves_def)
next
  case (step_result now j r e)
  then show ?thesis using k d keeps_result by simp
next
  case (step_attach now)
  then show ?thesis using k keeps_attach by simp
next
  case step_detach
  then show ?thesis using k keeps_detach by simp
next
  case (step_configure co now)
  have "keeps a (fst (set_config uc co s))"
    using k by (simp add: set_config_def done_step_def Let_def split: sum.split)
  then have "keeps a (fst (configure uc now co s))"
    using k by (auto simp: configure_def intro!: andthen_inv [of "keeps a"])
  then show ?thesis using step_configure by simp
next
  case (step_glossary now es)
  then show ?thesis using k by (simp add: set_glossary_def split: sum.split)
next
  case step_close
  then show ?thesis using k by (simp add: close_session_def Let_def split: option.split)
next
  case (step_admit now)
  then show ?thesis using k by (simp add: admit_event_def Let_def)
qed (use k in simp_all)

lemma within_limits_new:
  assumes "new_session uc sid co st sh now = (s, Inr ())" and "settings_ok st"
  shows "within_limits s \<and> distinct (map fst (ss_utterances s)) \<and> drafts_ok s \<and> ss_settings s = st"
proof -
  have "ss_segments s = [] \<and> ss_utterances s = [] \<and> ss_settings s = st"
    using assms(1) by (auto simp: new_session_def set_config_def done_step_def Let_def split: if_splits sum.splits)
  moreover have "0 \<le> se_max_utterances st" "0 \<le> se_max_segments st" "0 \<le> se_max_session_chars st"
    "0 \<le> se_max_translation_chars st" "0 \<le> se_max_state_bytes st"
    using assms(2) by (simp_all add: settings_ok_unfold settings_in_range_def between_def)
  ultimately show ?thesis by (simp add: limit_defs drafts_ok_def)
qed

lemma session_reachable_keeps:
  assumes "session_reachable uc st s" and "settings_ok st"
  shows "keeps s s \<and> drafts_ok s \<and> session_ok s"
  using assms
proof (induction rule: session_reachable.induct)
  case (session_init co sid sh now s)
  have "session_ok s" using session_ok_new [of uc sid co st sh now] session_init by simp
  then show ?case using within_limits_new [OF session_init(2,3)] keeps_refl by blast
next
  case (session_more s s')
  then have s: "keeps s s" "drafts_ok s" "session_ok s" by auto
  have s': "keeps s s'" using session_more(2) s by (blast intro: keeps_step)
  have "session_ok s'" using session_more(2) s(3) by (rule session_ok_step)
  then have "keeps s' s'" using s' keeps_refl by (simp add: keeps_def)
  then show ?case using keeps_drafts [OF s' s(2)] \<open>session_ok s'\<close> by blast
qed

end
