(* ===== verification/SessionTotal.thy ===== *)
theory SessionTotal
  imports SessionKeep
begin

text \<open>
  An admitted event is always processed: once the checks of \<open>ingest\<close> pass, no later step of it
  raises. The trackers of a reachable session are well-formed, have seen no sequence number beyond
  the session's last one, and have the configured limits.
\<close>

subsection \<open>Trackers\<close>

definition tracker_fits :: "unidb \<Rightarrow> session \<Rightarrow> tracker \<Rightarrow> bool" where
  "tracker_fits uc s tr \<longleftrightarrow> tracker_wf uc tr \<and> tr_sequence tr \<le> ss_last_sequence s
     \<and> int (tr_max_chars tr) = se_max_source_chars (ss_settings s)"

definition trackers_ok :: "unidb \<Rightarrow> session \<Rightarrow> bool" where
  "trackers_ok uc s \<longleftrightarrow> (\<forall>uid u. map_of (ss_utterances s) uid = Some u \<longrightarrow> tracker_fits uc s (ut_tracker u))
     \<and> 0 \<le> ss_threshold s \<and> ss_threshold s \<le> 1 \<and> -1 \<le> ss_last_sequence s"

lemma last_sequence_frame [simp]:
  "ss_last_sequence (metric_inc n s) = ss_last_sequence s" "ss_last_sequence (metric_obs n v s) = ss_last_sequence s"
  "ss_last_sequence (touch now s) = ss_last_sequence s" "ss_last_sequence (emit now e s) = ss_last_sequence s"
  "ss_last_sequence (emit_error now c m s) = ss_last_sequence s"
  "ss_last_sequence (emit_snapshot uc now k s) = ss_last_sequence s"
  "ss_last_sequence (add_task key kind due s) = ss_last_sequence s"
  "ss_last_sequence (arm cur now uid d s) = ss_last_sequence s"
  "ss_last_sequence (arm_commit now gid s) = ss_last_sequence s" "ss_last_sequence (cancel_timers s) = ss_last_sequence s"
  "ss_last_sequence (finish_task tm s) = ss_last_sequence s" "ss_last_sequence (first_result now s) = ss_last_sequence s"
  "ss_last_sequence (map_segment gid f s) = ss_last_sequence s"
  "ss_last_sequence (put_utterance uid u s) = ss_last_sequence s"
  by (simp_all add: metric_inc_def metric_obs_def touch_def emit_def emit_error_def emit_snapshot_def
      add_task_def arm_def arm_commit_def cancel_timers_def finish_task_def first_result_def
      put_utterance_def map_segment_def Let_def split: option.split)

lemma threshold_frame [simp]:
  "ss_threshold (metric_inc n s) = ss_threshold s" "ss_threshold (metric_obs n v s) = ss_threshold s"
  "ss_threshold (touch now s) = ss_threshold s" "ss_threshold (emit now e s) = ss_threshold s"
  "ss_threshold (emit_error now c m s) = ss_threshold s" "ss_threshold (emit_snapshot uc now k s) = ss_threshold s"
  "ss_threshold (add_task key kind due s) = ss_threshold s" "ss_threshold (arm cur now uid d s) = ss_threshold s"
  "ss_threshold (arm_commit now gid s) = ss_threshold s" "ss_threshold (cancel_timers s) = ss_threshold s"
  "ss_threshold (finish_task tm s) = ss_threshold s" "ss_threshold (first_result now s) = ss_threshold s"
  "ss_threshold (map_segment gid f s) = ss_threshold s" "ss_threshold (put_utterance uid u s) = ss_threshold s"
  "ss_threshold (note_event now uid ev s) = ss_threshold s"
  by (simp_all add: metric_inc_def metric_obs_def touch_def emit_def emit_error_def emit_snapshot_def
      add_task_def arm_def arm_commit_def cancel_timers_def finish_task_def first_result_def
      put_utterance_def map_segment_def note_event_def Let_def split: option.split)

lemma trackers_frame:
  assumes "ss_utterances b = ss_utterances c" "ss_settings b = ss_settings c"
    "ss_last_sequence b = ss_last_sequence c" "ss_threshold b = ss_threshold c"
  shows "trackers_ok uc b = trackers_ok uc c"
  using assms by (simp add: trackers_ok_def tracker_fits_def)

lemma trackers_frames [simp]:
  "trackers_ok uc (metric_inc n s) = trackers_ok uc s" "trackers_ok uc (metric_obs n v s) = trackers_ok uc s"
  "trackers_ok uc (touch now s) = trackers_ok uc s" "trackers_ok uc (emit now e s) = trackers_ok uc s"
  "trackers_ok uc (emit_error now c m s) = trackers_ok uc s"
  "trackers_ok uc (emit_snapshot ud now k s) = trackers_ok uc s"
  "trackers_ok uc (arm cur now uid d s) = trackers_ok uc s" "trackers_ok uc (arm_commit now gid s) = trackers_ok uc s"
  "trackers_ok uc (cancel_timers s) = trackers_ok uc s" "trackers_ok uc (finish_task tm s) = trackers_ok uc s"
  "trackers_ok uc (first_result now s) = trackers_ok uc s" "trackers_ok uc (map_segment gid f s) = trackers_ok uc s"
  "trackers_ok uc (s\<lparr>ss_revision := x1\<rparr>) = trackers_ok uc s" "trackers_ok uc (s\<lparr>ss_sched := x2\<rparr>) = trackers_ok uc s"
  "trackers_ok uc (s\<lparr>ss_context := x3\<rparr>) = trackers_ok uc s" "trackers_ok uc (s\<lparr>ss_active := x4\<rparr>) = trackers_ok uc s"
  "trackers_ok uc (s\<lparr>ss_queue := x5\<rparr>) = trackers_ok uc s" "trackers_ok uc (s\<lparr>ss_next_utterance := x6\<rparr>) = trackers_ok uc s"
  "trackers_ok uc (s\<lparr>ss_generation := x7\<rparr>) = trackers_ok uc s" "trackers_ok uc (s\<lparr>ss_closed := x8\<rparr>) = trackers_ok uc s"
  "trackers_ok uc (s\<lparr>ss_glossary := x9\<rparr>) = trackers_ok uc s" "trackers_ok uc (s\<lparr>ss_events := y1\<rparr>) = trackers_ok uc s"
  "trackers_ok uc (s\<lparr>ss_segments := y2\<rparr>) = trackers_ok uc s"
  "trackers_ok uc (s\<lparr>ss_next_segment := y3\<rparr>) = trackers_ok uc s"
  by (rule trackers_frame; simp)+

lemma trackers_put:
  assumes "trackers_ok uc s" and "tracker_fits uc s (ut_tracker v)"
  shows "trackers_ok uc (put_utterance uid v s)"
  using assms by (auto simp: trackers_ok_def tracker_fits_def)

lemma trackers_at: "trackers_ok uc s \<Longrightarrow> map_of (ss_utterances s) uid = Some u \<Longrightarrow> tracker_fits uc s (ut_tracker u)"
  by (simp add: trackers_ok_def)

text \<open>The tracker operations keep the limits and the sequence bound.\<close>

lemma evaluate_tracker_fields:
  "tr_sequence (fst (evaluate_tracker uc tr now)) = tr_sequence tr
   \<and> tr_max_chars (fst (evaluate_tracker uc tr now)) = tr_max_chars tr"
  by (simp add: evaluate_tracker_def Let_def split: sum.split)

lemma tracker_now_fields:
  "tr_sequence (fst (tracker_now tr clk)) = tr_sequence tr \<and> tr_max_chars (fst (tracker_now tr clk)) = tr_max_chars tr"
  by (simp add: tracker_now_def Let_def)

lemma refresh_fields:
  "tr_sequence (fst (refresh uc tr clk)) = tr_sequence tr \<and> tr_max_chars (fst (refresh uc tr clk)) = tr_max_chars tr"
proof -
  obtain t1 r1 where n: "tracker_now tr clk = (t1, r1)" by fastforce
  have t1: "tr_sequence t1 = tr_sequence tr" "tr_max_chars t1 = tr_max_chars tr"
    using tracker_now_fields [of tr clk] n by simp_all
  show ?thesis
  proof (cases r1)
    case (Inr v)
    obtain t2 r2 where e: "evaluate_tracker uc t1 v = (t2, r2)" by fastforce
    then show ?thesis using evaluate_tracker_fields [of uc t1 v] t1 n Inr
      by (cases r2) (simp_all add: refresh_def)
  qed (use n t1 in \<open>simp add: refresh_def\<close>)
qed

lemma commit_fields:
  "tr_sequence (fst (commit_prefix uc tr clk ce al)) = tr_sequence tr
   \<and> tr_max_chars (fst (commit_prefix uc tr clk ce al)) = tr_max_chars tr"
proof -
  have "tr_sequence (fst (case tracker_now (tr\<lparr>tr_committed := c\<rparr>) clk of
      (tr2, Inl e) \<Rightarrow> (tr2, Inl e) | (tr2, Inr now) \<Rightarrow> evaluate_tracker uc tr2 now)) = tr_sequence tr
    \<and> tr_max_chars (fst (case tracker_now (tr\<lparr>tr_committed := c\<rparr>) clk of
      (tr2, Inl e) \<Rightarrow> (tr2, Inl e) | (tr2, Inr now) \<Rightarrow> evaluate_tracker uc tr2 now)) = tr_max_chars tr" for c
    using tracker_now_fields [of "tr\<lparr>tr_committed := c\<rparr>" clk] evaluate_tracker_fields
    by (cases "tracker_now (tr\<lparr>tr_committed := c\<rparr>) clk"; cases "snd (tracker_now (tr\<lparr>tr_committed := c\<rparr>) clk)") auto
  then show ?thesis by (simp add: commit_prefix_def Let_def split: option.split)
qed

lemma tracker_fits_refresh: "tracker_fits uc s tr \<Longrightarrow> tracker_fits uc s (fst (refresh uc tr clk))"
  using refresh_wf refresh_fields by (simp add: tracker_fits_def)

lemma tracker_fits_commit:
  "tracker_fits uc s tr \<Longrightarrow> tracker_fits uc s (fst (commit_prefix uc tr (Fin now) ce al))"
  using commit_prefix_wf commit_fields by (simp add: tracker_fits_def)

lemma tracker_fits_settle [simp]:
  "tracker_fits uc (put_utterance uid v s) tr = tracker_fits uc s tr"
  by (simp add: tracker_fits_def)

subsection \<open>Preservation\<close>

lemma trackers_ready: "trackers_ok uc (fst (segment_ready now gid s)) = trackers_ok uc s"
  by (simp add: segment_ready_def split: option.split prod.split)

lemma trackers_commit: "trackers_ok uc (fst (commit_segment ud now gid s)) = trackers_ok uc s"
  by (simp add: commit_segment_def done_step_def Let_def split: option.split prod.split sum.split)

lemma trackers_settle: assumes "trackers_ok uc s" shows "trackers_ok uc (fst (settle_segment ud now gid s))"
  unfolding settle_segment_def
  by (rule andthen_inv [of "trackers_ok uc"]) (use assms in \<open>simp_all add: trackers_ready trackers_commit\<close>)

lemma trackers_dispatch: "trackers_ok uc (fst (dispatch_next ud cur now s)) = trackers_ok uc s"
  by (simp add: dispatch_next_def done_step_def Let_def split: option.split prod.split sum.split)

lemma trackers_settle_old: assumes "trackers_ok uc s" shows "trackers_ok uc (fst (settle_old ud now f gid s))"
  using assms by (auto simp: settle_old_def trackers_ready trackers_commit split: option.split
      intro!: andthen_inv [of "trackers_ok uc"])

lemma trackers_rollback: assumes "trackers_ok uc s" shows "trackers_ok uc (fst (rollback ud cur now i s))"
proof -
  have one: "trackers_ok uc (rollback_utterance cur now g t)" if "trackers_ok uc t" for g t
    using that trackers_put [OF that] trackers_at [OF that]
    by (auto simp: rollback_utterance_def split: option.split)
  have "trackers_ok uc (foldl (\<lambda>t g. rollback_utterance cur now g t) t gs)" if "trackers_ok uc t" for t gs
    using that by (induction gs arbitrary: t) (simp_all add: one)
  then show ?thesis using assms
    by (simp add: rollback_def Let_def done_step_def split: prod.split sum.split)
qed

lemma update_tracker [simp]: "ut_tracker (update_utterance now ev e u) = ut_tracker u"
  by (simp add: update_utterance_def Let_def)

lemma trackers_adopt: assumes t: "trackers_ok uc s" shows "trackers_ok uc (fst (adopt_text uc cur now uid ev st old s))"
proof (cases "map_of (ss_utterances s) uid")
  case (Some u)
  obtain tr r where c: "commit_prefix uc (ut_tracker u) (Fin now) (int (st_char_end st)) (ev_is_final ev) = (tr, r)"
    by fastforce
  have "tracker_fits uc s tr"
    using tracker_fits_commit [OF trackers_at [OF t Some], of now "int (st_char_end st)" "ev_is_final ev"] c by simp
  then have "trackers_ok uc (put_utterance uid ((update_utterance now ev e u)\<lparr>ut_tracker := tr\<rparr>) s)" for e
    using t by (intro trackers_put) simp_all
  moreover have "trackers_ok uc (fst (for_each (settle_old ud now f) ids t))" if "trackers_ok uc t" for ud f ids t
    using that by (intro andthen_for_each [of "trackers_ok uc"]) (simp_all add: trackers_settle_old)
  ultimately show ?thesis
    using Some c by (simp add: adopt_text_def Let_def split: sum.split)
qed (use t in \<open>simp add: adopt_text_def\<close>)

lemma trackers_apply: assumes t: "trackers_ok uc s" shows "trackers_ok uc (fst (apply_hypothesis uc cur now uid ev st s))"
proof -
  have "trackers_ok uc (fst (andthen (if c then rollback uc cur now i s else done_step s)
      (\<lambda>s1 _. adopt_text uc cur now uid ev st old s1)))" for c i old
    by (rule andthen_inv [of "trackers_ok uc"]) (simp_all add: trackers_adopt trackers_rollback t)
  then show ?thesis using t by (simp add: apply_hypothesis_def Let_def split: option.split sum.split)
qed

lemma observe_fields:
  "tr_max_chars (fst (observe uc tr clk tx n f c p)) = tr_max_chars tr
   \<and> (tr_sequence (fst (observe uc tr clk tx n f c p)) = tr_sequence tr
      \<or> tr_sequence (fst (observe uc tr clk tx n f c p)) = n)"
proof -
  obtain t1 r1 where n: "tracker_now tr clk = (t1, r1)" by fastforce
  have t1: "tr_sequence t1 = tr_sequence tr" "tr_max_chars t1 = tr_max_chars tr"
    using tracker_now_fields [of tr clk] n by simp_all
  show ?thesis
  proof (cases r1)
    case (Inr v)
    let ?h = "record_hypothesis uc t1 v tx n f c p"
    have "tr_sequence ?h = n" "tr_max_chars ?h = tr_max_chars tr"
      by (simp_all add: record_hypothesis_def Let_def t1)
    then show ?thesis using evaluate_tracker_fields [of uc ?h v] n Inr by (simp add: observe_def)
  qed (use n t1 in \<open>simp add: observe_def\<close>)
qed

lemma trackers_observe:
  assumes t: "trackers_ok uc s" and seq: "ev_sequence ev \<le> ss_last_sequence s"
  shows "trackers_ok uc (fst (observe_event uc cur started now uid ev s))"
proof (cases "map_of (ss_utterances s) uid")
  case (Some u)
  let ?o = "observe uc (ut_tracker u) (Fin now) (ev_text ev) (ev_sequence ev) (ev_is_final ev) (event_confidences uc ev)
              (case ev_pause_ms ev of None \<Rightarrow> POther | Some p \<Rightarrow> PNum (Fin p))"
  have "tracker_fits uc s (fst ?o)"
    using trackers_at [OF t Some] observe_wf seq observe_fields
    unfolding tracker_fits_def by (smt (verit, best))
  then have put: "trackers_ok uc (put_utterance uid (u\<lparr>ut_tracker := fst ?o\<rparr>) s)"
    using t by (intro trackers_put) simp_all
  have fin: "trackers_ok uc (fst (andthen (apply_hypothesis uc cur now uid ev st t) (\<lambda>s5 _.
          done_step (metric_obs n v s5))))" if "trackers_ok uc t" for st t n v
    by (rule andthen_inv [of "trackers_ok uc"]) (simp_all add: trackers_apply that)
  show ?thesis
    using Some put fin by (cases ?o) (simp add: observe_event_def Let_def split: sum.split)
qed (use t in \<open>simp add: observe_event_def\<close>)

lemma trackers_note:
  assumes "trackers_ok uc s" "ss_last_sequence s \<le> ev_sequence ev"
  shows "trackers_ok uc (note_event now uid ev s)" and "ss_last_sequence (note_event now uid ev s) = ev_sequence ev"
proof -
  have "trackers_ok uc (s\<lparr>ss_last_sequence := ev_sequence ev\<rparr>)"
    using assms by (fastforce simp: trackers_ok_def tracker_fits_def intro: order_trans)
  moreover show "ss_last_sequence (note_event now uid ev s) = ev_sequence ev"
    by (simp add: note_event_def Let_def)
  ultimately show "trackers_ok uc (note_event now uid ev s)"
    using trackers_frame [of "note_event now uid ev s" "s\<lparr>ss_last_sequence := ev_sequence ev\<rparr>" uc] by simp
qed

lemma settings_tracker:
  assumes "settings_ok st" "0 \<le> th" "th \<le> 1"
  shows "\<exists>tr. new_tracker (se_stability_history st) th 1200 (of_int (se_pause_threshold_ms st))
      (se_max_source_chars st) (settings_weights st) (se_hold_partial_tail st) = Inr tr
    \<and> tr_sequence tr = -1 \<and> int (tr_max_chars tr) = se_max_source_chars st"
proof -
  have w: "0 < se_agreement_weight st + se_age_weight st"
    using assms(1) by (simp add: settings_ok_unfold)
  then have nz: "\<not> (se_agreement_weight st = 0 \<and> se_age_weight st = 0)" by auto
  have "between 2 8 (se_stability_history st)" "between 100 5000 (se_pause_threshold_ms st)"
    "between 128 32000 (se_max_source_chars st)" "between 0 1 (se_agreement_weight st)"
    "between 0 1 (se_confidence_weight st)" "between 0 1 (se_age_weight st)" "between 0 1 (se_pause_weight st)"
    using assms(1) by (simp_all add: settings_ok_unfold settings_in_range_def)
  then show ?thesis using assms(2,3) nz
    by (auto simp: new_tracker_def settings_weights_def between_def tracker_reset_def)
qed

lemma ensure_total:
  assumes "settings_ok (ss_settings s)" and t: "trackers_ok uc s"
  shows "\<exists>s1. ensure_utterance now s uid ev = (s1, Inr ()) \<and> trackers_ok uc s1
    \<and> (\<exists>u. map_of (ss_utterances s1) uid = Some u) \<and> ss_last_sequence s1 = ss_last_sequence s
    \<and> ss_settings s1 = ss_settings s"
proof (cases "map_of (ss_utterances s) uid")
  case None
  obtain tr where tr: "new_tracker (se_stability_history (ss_settings s)) (ss_threshold s) 1200
      (of_int (se_pause_threshold_ms (ss_settings s))) (se_max_source_chars (ss_settings s))
      (settings_weights (ss_settings s)) (se_hold_partial_tail (ss_settings s)) = Inr tr"
    "tr_sequence tr = -1" "int (tr_max_chars tr) = se_max_source_chars (ss_settings s)"
    using settings_tracker assms(1) t by (metis trackers_ok_def)
  have "tracker_fits uc s tr" using new_tracker_wf [OF tr(1)] tr(2,3) t by (simp add: tracker_fits_def trackers_ok_def)
  then show ?thesis using None tr(1) t
    by (auto simp: ensure_utterance_def done_step_def Let_def intro!: trackers_put)
qed (use t in \<open>auto simp: ensure_utterance_def done_step_def\<close>)

subsection \<open>No step raises\<close>

definition returns :: "unit step \<Rightarrow> bool" where
  "returns m \<longleftrightarrow> snd m = Inr ()"

lemma returns_andthen: "returns m \<Longrightarrow> (\<And>s1. m = (s1, Inr ()) \<Longrightarrow> returns (f s1 ())) \<Longrightarrow> returns (andthen m f)"
  by (cases m) (simp add: returns_def)

lemma returns_done [simp]: "returns (done_step s)"
  by (simp add: returns_def done_step_def)

lemma find_map_segment:
  "find_segment gid s = Some g \<Longrightarrow> sg_id (f g) = sg_id g \<Longrightarrow> (\<And>h. sg_id (f h) = sg_id h) \<Longrightarrow>
     find_segment gid (map_segment gid f s) = Some (f g)"
proof -
  assume g: "find_segment gid s = Some g" and id: "\<And>h. sg_id (f h) = sg_id h"
  have "find (\<lambda>g. sg_id g = gid) (map (\<lambda>g. if sg_id g = gid then f g else g) xs)
      = map_option f (find (\<lambda>g. sg_id g = gid) xs)" for xs
    by (induction xs) (simp_all add: id)
  then show ?thesis using g by (simp add: find_segment_def map_segment_def)
qed

lemma commit_after_ready:
  assumes "segment_ready now gid s = (s1, Inr True)" shows "returns (commit_segment uc now gid s1)"
proof -
  obtain g where g: "find_segment gid s = Some g"
    using assms by (auto simp: segment_ready_def split: option.splits)
  define dc where "dc = (sg_committer g)\<lparr>dc_last_time := Some (seen_at (sg_committer g) (Fin now))\<rparr>"
  have r: "ready (sg_committer g) (Fin now) = (dc, Inr True)" and s1: "s1 = map_segment gid (\<lambda>g. g\<lparr>sg_committer := dc\<rparr>) s"
    using assms g by (auto simp: segment_ready_def ready_eq dc_def)
  have settled: "draft_settled (sg_committer g) (seen_at (sg_committer g) (Fin now))"
    using r by (simp add: ready_eq)
  have "seen_at dc (Fin now) = seen_at (sg_committer g) (Fin now)"
    by (auto simp: dc_def seen_at_def split: option.split)
  then have "draft_settled dc (seen_at dc (Fin now))" using settled by (simp add: dc_def)
  then have "\<not> isl (snd (mark_committed dc (Fin now)))" using mark_committed_iff [of "Fin now" dc] by simp
  then obtain d2 d where m: "mark_committed dc (Fin now) = (d2, Inr d)"
    by (cases "mark_committed dc (Fin now)"; cases "snd (mark_committed dc (Fin now))") auto
  have "find_segment gid s1 = Some (g\<lparr>sg_committer := dc\<rparr>)"
    unfolding s1 by (rule find_map_segment [OF g]) simp_all
  then show ?thesis using m by (simp add: commit_segment_def returns_def done_step_def Let_def)
qed

lemma segment_ready_total: "\<exists>s1 b. segment_ready now gid s = (s1, Inr b)"
  by (auto simp: segment_ready_def ready_eq split: option.split)

lemma settle_old_returns: "returns (settle_old uc now f gid s)"
proof (cases "find_segment gid s")
  case (Some g)
  obtain s1 b where r: "segment_ready now gid s = (s1, Inr b)" using segment_ready_total by blast
  have "returns (andthen (segment_ready now gid s) (\<lambda>s1 r.
                    if r then commit_segment uc now gid s1 else done_step s1))"
    using commit_after_ready r by (cases b) simp_all
  then show ?thesis using Some by (auto simp: settle_old_def intro!: returns_andthen)
qed (simp add: settle_old_def)

lemma for_each_returns: "(\<And>x s. returns (f x s)) \<Longrightarrow> returns (for_each f xs s)"
  by (induction xs arbitrary: s) (auto intro!: returns_andthen)

lemma session_ids_nonempty: "source_inv s \<Longrightarrow> g \<in> set (ss_segments s) \<Longrightarrow> sg_id g \<noteq> []"
  by (force simp: source_inv_def source_shape_def keys_def)

lemma rollback_returns: assumes "source_inv s" shows "returns (rollback uc cur now i s)"
proof -
  have "[] \<notin> set (map sg_id (drop i (ss_segments s)))"
    using session_ids_nonempty [OF assms] by (force dest: in_set_dropD)
  then show ?thesis by (simp add: rollback_def invalidate_def Let_def returns_def done_step_def)
qed

lemma rollback_tracker:
  "map_option ut_tracker (map_of (ss_utterances (fst (rollback uc cur now i s))) uid)
     = map_option ut_tracker (map_of (ss_utterances s) uid)"
proof -
  have "map_option ut_tracker (map_of (ss_utterances (rollback_utterance cur now g t)) uid)
      = map_option ut_tracker (map_of (ss_utterances t) uid)" for g t
    by (simp add: rollback_utterance_def split: option.split)
  then have "map_option ut_tracker (map_of (ss_utterances (foldl (\<lambda>t g. rollback_utterance cur now g t) t gs)) uid)
      = map_option ut_tracker (map_of (ss_utterances t) uid)" for t gs
    by (induction gs arbitrary: t) simp_all
  then show ?thesis
    by (simp add: rollback_def Let_def done_step_def split: prod.split sum.split)
qed

lemma adopt_returns:
  assumes u: "map_of (ss_utterances s) uid = Some u" and wf: "tracker_wf uc (ut_tracker u)"
    and r: "tr_result (ut_tracker u) = Some st" and al: "st_conflict st \<Longrightarrow> ev_is_final ev \<and> tr_final (ut_tracker u)"
  shows "returns (adopt_text uc cur now uid ev st old s)"
proof -
  obtain tr q where "commit_prefix uc (ut_tracker u) (Fin now) (int (st_char_end st)) (ev_is_final ev) = (tr, Inr q)"
    using commit_prefix_accepted [OF wf r _ al] by (metis pf_finite.simps(1))
  then show ?thesis using u
    by (simp add: adopt_text_def Let_def for_each_returns settle_old_returns)
qed

lemma observe_event_returns:
  assumes src: "source_inv s" and u: "map_of (ss_utterances s) uid = Some u" and wf: "tracker_wf uc (ut_tracker u)"
    and seq: "tr_sequence (ut_tracker u) < ev_sequence ev" and len: "length (ev_text ev) \<le> tr_max_chars (ut_tracker u)"
  shows "returns (observe_event uc cur started now uid ev s)"
proof -
  let ?p = "case ev_pause_ms ev of None \<Rightarrow> POther | Some p \<Rightarrow> PNum (Fin p)"
  let ?o = "observe uc (ut_tracker u) (Fin now) (ev_text ev) (ev_sequence ev) (ev_is_final ev) (event_confidences uc ev) ?p"
  obtain st v where o: "?o = ((record_hypothesis uc ((ut_tracker u)\<lparr>tr_last_time := Some v\<rparr>) v (ev_text ev)
      (ev_sequence ev) (ev_is_final ev) (event_confidences uc ev) ?p)\<lparr>tr_result := Some st\<rparr>, Inr st)"
    using observe_accepted [OF wf len seq] by (metis pf_finite.simps(1))
  define tr where "tr = fst ?o"
  have tr: "tr_result tr = Some st" "tr_final tr = ev_is_final ev"
    by (simp_all add: tr_def o record_hypothesis_def Let_def)
  have trwf: "tracker_wf uc tr" unfolding tr_def using wf by (rule observe_wf)
  define s1 where "s1 = put_utterance uid (u\<lparr>ut_tracker := tr\<rparr>) s"
  have u1: "map_of (ss_utterances s1) uid = Some (u\<lparr>ut_tracker := tr\<rparr>)" by (simp add: s1_def)
  have src1: "source_inv s1"
    using src same_source_inv [OF same_source_put [THEN iffD2, OF u _ _ same_source_refl]] by (simp add: s1_def)
  have tl: "tiled (ut_text u) 0 (map key_of (segments_of uid s1)) (ut_selected_end u)"
    using source_inv_tiled [OF src1 u1] by simp
  have "\<forall>x \<in> set (map segment_span (segments_of uid s1)). rs_end x \<le> length (ut_text u)"
    using tiled_ends [OF tl] tiled_le [OF tl] by (fastforce simp: segment_span_def)
  then obtain p where p: "plan_revision uc (ut_text u) (ev_text ev) (map segment_span (segments_of uid s1)) = Inr p"
    using plan_revision_contract [OF tiled_contiguous [OF tl]] by metis
  have apply_ok: "returns (apply_hypothesis uc cur now uid ev st s1)" if al: "st_conflict st \<Longrightarrow> ev_is_final ev"
  proof -
    have adopt: "returns (adopt_text uc cur now uid ev st old t)"
      if t: "map_option ut_tracker (map_of (ss_utterances t) uid) = Some tr" for t old
    proof -
      obtain v where "map_of (ss_utterances t) uid = Some v" "ut_tracker v = tr" using t by auto
      then show ?thesis using adopt_returns [of t uid v uc st ev] tr trwf al by simp
    qed
    have "returns (andthen (if c then rollback uc cur now i s1 else done_step s1)
        (\<lambda>t _. adopt_text uc cur now uid ev st old t))" for c i old
    proof (rule returns_andthen)
      show "returns (if c then rollback uc cur now i s1 else done_step s1)" using rollback_returns [OF src1] by simp
      fix t assume "(if c then rollback uc cur now i s1 else done_step s1) = (t, Inr ())"
      then have "t = (if c then fst (rollback uc cur now i s1) else s1)" by (auto simp: done_step_def split: if_splits)
      then have "map_option ut_tracker (map_of (ss_utterances t) uid) = Some tr"
        using rollback_tracker [of uc cur now i s1 uid] u1 by (cases c) simp_all
      then show "returns (adopt_text uc cur now uid ev st old t)" by (rule adopt)
    qed
    then show ?thesis using u1 p by (simp add: apply_hypothesis_def Let_def)
  qed
  show ?thesis
  proof (cases "st_conflict st \<and> \<not> ev_is_final ev")
    case True
    then show ?thesis using u o by (simp add: observe_event_def Let_def)
  next
    case False
    have "?o = (tr, Inr st)" using o by (simp add: tr_def)
    then show ?thesis using u False apply_ok
      by (auto simp: observe_event_def Let_def s1_def intro!: returns_andthen)
  qed
qed

text \<open>The head of \<open>ingest\<close>.\<close>

lemma check_event_state:
  assumes "check_event s ev = (s1, Inr uid)"
  shows "s1 = s \<or> s1 = s\<lparr>ss_next_utterance := Suc (ss_next_utterance s)\<rparr>"
    and "ss_last_sequence s < ev_sequence ev"
    and "int (length (ev_text ev)) \<le> se_max_source_chars (ss_settings s)"
  using assms
  by (auto simp: check_event_def resolve_utterance_def andthen_def Let_def split: if_splits option.splits)

lemma ingest_returns:
  assumes ok: "source_inv s" and t: "trackers_ok uc s" and set: "settings_ok (ss_settings s)"
    and c: "check_event s ev = (s1, Inr uid)"
  shows "returns (ingest uc cur started now ev s)"
    and "trackers_ok uc (fst (ingest uc cur started now ev s))"
    and "ss_last_sequence s < ev_sequence ev"
proof -
  note st = check_event_state [OF c]
  have t1: "trackers_ok uc s1" "ss_settings s1 = ss_settings s" "ss_last_sequence s1 = ss_last_sequence s"
    using st(1) t by auto
  obtain s2 u where s2: "ensure_utterance now s1 uid ev = (s2, Inr ())" "trackers_ok uc s2"
    "map_of (ss_utterances s2) uid = Some u" "ss_last_sequence s2 = ss_last_sequence s" "ss_settings s2 = ss_settings s"
    using ensure_total [of s1 uc now uid ev] set t1 by auto
  have src1: "source_inv s1" using ok same_source_inv [OF same_source_check, of s ev] c by simp
  have src2: "source_inv s2" using source_inv_ensure [OF src1, of now uid ev] s2(1) by simp
  let ?s3 = "note_event now uid ev s2"
  have t3: "trackers_ok uc ?s3" "ss_last_sequence ?s3 = ev_sequence ev"
    using trackers_note [OF s2(2)] s2(4) st(2) by simp_all
  have fit: "tracker_fits uc s2 (ut_tracker u)" using s2(2,3) by (rule trackers_at)
  have "returns (observe_event uc cur started now uid ev ?s3)"
    using src2 s2(3,4,5) fit st(2,3)
    by (intro observe_event_returns [of ?s3 uid u]) (auto simp: tracker_fits_def)
  then show "returns (ingest uc cur started now ev s)" using c s2(1) by (simp add: ingest_def)
  show "trackers_ok uc (fst (ingest uc cur started now ev s))"
    using c s2(1) trackers_observe [OF t3(1)] t3(2) by (simp add: ingest_def)
  show "ss_last_sequence s < ev_sequence ev" by (rule st(2))
qed

subsection \<open>Reachable trackers\<close>

lemma trackers_put_select:
  "trackers_ok uc s \<Longrightarrow> map_of (ss_utterances s) uid = Some u \<Longrightarrow> ut_tracker v = ut_tracker u \<Longrightarrow>
     trackers_ok uc (put_utterance uid v s)"
  using trackers_put trackers_at by metis

lemma trackers_round:
  assumes t: "trackers_ok uc s" shows "trackers_ok uc (fst (select_round ud cur now uid st s))"
proof (cases "map_of (ss_utterances s) uid")
  case (Some u)
  have hold: "trackers_ok uc (fst (hold_source cur now uid age u s))" for age
  proof -
    have "trackers_ok uc (put_utterance uid (u\<lparr>ut_incomplete := True\<rparr>) (metric_inc n (emit_error now c m s)))" for n c m
      using t Some by (intro trackers_put_select [of _ _ uid u]) simp_all
    then show ?thesis using t by (simp add: hold_source_def Let_def)
  qed
  have "trackers_ok uc (put_utterance uid (u\<lparr>ut_selected_end := e, ut_buffer_since := b\<rparr>)
      (s\<lparr>ss_next_segment := n, ss_segments := gs\<rparr>))" for e b n gs
    using t Some by (intro trackers_put_select [of _ _ uid u]) simp_all
  then have "trackers_ok uc (fst (cut_segment now uid u c s))" for c
    using t by (simp add: cut_segment_def Let_def done_step_def split: sum.split)
  then have cut: "trackers_ok uc (fst (andthen (cut_segment now uid u c s) (\<lambda>s1 _. (s1, Inr None))))" for c
    by (intro andthen_inv [of "trackers_ok uc"]) simp_all
  have last: "trackers_ok uc (fst (case w of
            None \<Rightarrow> (case hold_source cur now uid age u s of (s1, b) \<Rightarrow> (s1, Inr (Some b)))
          | Some c \<Rightarrow> andthen (cut_segment now uid u c s) (\<lambda>s1 _. (s1, Inr None))))" for w age
    using hold [of age] cut by (cases "hold_source cur now uid age u s"; cases w) simp_all
  show ?thesis unfolding select_round_def Some option.case Let_def
    using t last by (simp split: sum.split)
qed (use t in \<open>simp add: select_round_def\<close>)

lemma trackers_loop: "trackers_ok uc s \<Longrightarrow> trackers_ok uc (fst (select_loop ud cur now uid st s))"
proof (induction ud cur now uid st s rule: select_loop.induct)
  case (1 ud cur now uid st s)
  show ?case
  proof (cases "select_round ud cur now uid st s")
    case (Pair s1 r)
    have "trackers_ok uc s1" using trackers_round [OF "1.prems", of ud cur now uid st] Pair by simp
    then show ?thesis
      using "1.IH" [OF Pair [symmetric]] Pair
      by (subst select_loop.simps) (auto split: sum.split option.split)
  qed
qed

lemma trackers_select:
  assumes t: "trackers_ok uc s" shows "trackers_ok uc (fst (select_utterance uc cur now uid s))"
proof (cases "map_of (ss_utterances s) uid")
  case (Some u)
  obtain tr r where r: "refresh uc (ut_tracker u) (Fin now) = (tr, r)" by fastforce
  have fit: "tracker_fits uc s tr"
    using tracker_fits_refresh [OF trackers_at [OF t Some], of "Fin now"] r by simp
  have put: "trackers_ok uc (put_utterance uid (u\<lparr>ut_tracker := tr\<rparr>) s)"
    using t fit by (intro trackers_put) simp_all
  have "trackers_ok uc (put_utterance uid (u\<lparr>ut_tracker := fst (commit_prefix uc tr (Fin now) ce al),
      ut_stable_end := e\<rparr>) s)" for ce al e
    using t tracker_fits_commit [OF fit] by (intro trackers_put) simp_all
  then have "trackers_ok uc (fst (let s1 = put_utterance uid (u\<lparr>ut_tracker := fst c, ut_stable_end := e\<rparr>) s
                       in case snd c of Inl e \<Rightarrow> (s1, Inl e)
                          | Inr _ \<Rightarrow> select_loop uc cur now uid st s1))"
    if "c = commit_prefix uc tr (Fin now) ce al" for c ce al e st
    using that by (simp add: Let_def trackers_loop split: sum.split)
  then show ?thesis
    using Some r put trackers_loop
    by (cases r; cases "projr r") (auto simp: select_utterance_def case_prod_unfold split: option.split)
qed (use t in \<open>simp add: select_utterance_def\<close>)

lemma trackers_visit: "trackers_ok uc s \<Longrightarrow> trackers_ok uc (fst (visit_utterances uc cur now uids s))"
proof (induction uids arbitrary: s)
  case (Cons uid rest)
  have "trackers_ok uc (fst (andthen (select_utterance uc cur now uid s) (\<lambda>s1 go.
                 if go then visit_utterances uc cur now rest s1 else done_step s1)))"
    by (rule andthen_inv [of "trackers_ok uc"]) (simp_all add: trackers_select Cons)
  then show ?case using Cons by (simp split: option.split)
qed simp

lemma trackers_fire:
  assumes t: "trackers_ok uc s" shows "trackers_ok uc (fire_timer uc started now tm s)"
proof (cases "ti_kind tm")
  case (EvaluateTimer uid)
  have "trackers_ok uc (fst (andthen (visit_utterances uc cur now (map fst (ss_utterances s)) s)
      (\<lambda>s1 _. dispatch_next uc cur now (metric_obs ''segment_decision_ms'' ((now - started) * 1000) s1))))" for cur
    by (rule andthen_inv [of "trackers_ok uc"]) (simp_all add: trackers_visit trackers_dispatch t)
  then have "trackers_ok uc (fst (evaluate uc cur started now uid gen s))" for cur gen
    using t by (simp add: evaluate_def)
  from this [of "Some (ti_id tm)" "ti_generation tm"] show ?thesis
    using EvaluateTimer
    by (cases "evaluate uc (Some (ti_id tm)) started now uid (ti_generation tm) s")
       (simp add: fire_timer_def split: sum.split)
next
  case (CommitTimer gid)
  have "trackers_ok uc (fst (fire_commit uc now gid (ti_generation tm) s))"
    using t by (auto simp: fire_commit_def trackers_ready trackers_commit intro!: andthen_inv [of "trackers_ok uc"])
  then show ?thesis by (simp add: fire_timer_def CommitTimer)
qed

lemma trackers_foldl: "(\<And>t x. trackers_ok uc t \<Longrightarrow> trackers_ok uc (f t x)) \<Longrightarrow> trackers_ok uc s \<Longrightarrow> trackers_ok uc (foldl f s xs)"
  by (induction xs arbitrary: s) auto

lemma trackers_result: assumes t: "trackers_ok uc s" shows "trackers_ok uc (fst (result_handler ud now j r e s))"
proof -
  have store: "trackers_ok uc (fst (store_translation ud now gid tx u))" if "trackers_ok uc u" for gid tx u
    using that by (simp add: store_translation_def Let_def trackers_settle split: option.split prod.split sum.split)
  have rearm: "trackers_ok uc (rearm_retained ud now u)" if "trackers_ok uc u" for u
    unfolding rearm_retained_def by (rule trackers_foldl) (simp_all add: that)
  show ?thesis using t
    by (auto simp: result_handler_def Let_def store rearm trackers_dispatch split: option.split
        intro!: andthen_inv [of "trackers_ok uc"])
qed

lemma trackers_attach: assumes t: "trackers_ok uc s" shows "trackers_ok uc (fst (attach ud now s))"
proof -
  have arms: "trackers_ok uc (foldl (\<lambda>t p. arm None now (fst p) 0 t) u ps)" if "trackers_ok uc u" for u ps
    by (rule trackers_foldl) (simp_all add: that)
  have draft: "trackers_ok uc (fst (settle_draft ud now gid u))" if "trackers_ok uc u" for gid u
    using that by (simp add: settle_draft_def trackers_settle split: option.split)
  show ?thesis
    using t by (auto simp: attach_def Let_def arms trackers_dispatch draft
        intro!: andthen_inv [of "trackers_ok uc"] andthen_for_each [of "trackers_ok uc"])
qed

lemma trackers_set_config:
  assumes t: "trackers_ok uc s" and co: "valid_config co" and st: "settings_ok (ss_settings s)"
  shows "trackers_ok uc (fst (set_config ud co s))"
proof -
  have "0 \<le> se_stability_threshold (ss_settings s)" "se_stability_threshold (ss_settings s) \<le> 1"
    using st by (simp_all add: settings_ok_unfold settings_in_range_def between_def)
  moreover have "0 \<le> th" "th \<le> 1" if "co_stability_threshold co = Some th" for th
    using co that by (simp_all add: valid_config_def opt_all_def)
  ultimately have "trackers_ok uc (s\<lparr>ss_config := co, ss_threshold := (case co_stability_threshold co of
      None \<Rightarrow> se_stability_threshold (ss_settings s) | Some t \<Rightarrow> t)\<rparr>)"
    using t by (auto simp: trackers_ok_def tracker_fits_def split: option.split)
  moreover have "trackers_ok uc (u\<lparr>ss_policy := po, ss_context := cm\<rparr>) = trackers_ok uc u" for u po cm
    by (rule trackers_frame) simp_all
  ultimately show ?thesis
    using t by (simp add: set_config_def done_step_def Let_def split: sum.split)
qed

lemma trackers_step:
  assumes "session_step uc s s'" and t: "trackers_ok uc s" and st: "settings_ok (ss_settings s)"
    and ok: "source_inv s"
  shows "trackers_ok uc s'"
  using assms(1)
proof cases
  case (step_ingest started now ev)
  show ?thesis
  proof (cases "snd (check_event s ev)")
    case (Inl e)
    obtain s1 where c: "check_event s ev = (s1, Inl e)" using Inl by (metis prod.collapse)
    then have "s1 = s \<or> s1 = s\<lparr>ss_next_utterance := Suc (ss_next_utterance s)\<rparr>"
      by (auto simp: check_event_def resolve_utterance_def andthen_def Let_def split: if_splits option.splits)
    then have "trackers_ok uc s1" using t by auto
    then show ?thesis using step_ingest c by (simp add: ingest_def)
  next
    case (Inr uid)
    then obtain s1 where c: "check_event s ev = (s1, Inr uid)" by (metis prod.collapse)
    show ?thesis using ingest_returns(2) [OF ok t st c] step_ingest by simp
  qed
next
  case (step_timer tm started now)
  then show ?thesis using t trackers_fire by simp
next
  case (step_reset now)
  have "ss_utterances s' = []" "ss_settings s' = ss_settings s" "ss_threshold s' = ss_threshold s"
    "ss_last_sequence s' = ss_last_sequence s"
    unfolding step_reset by (simp_all add: reset_def Let_def cancel_timers_def)
  then show ?thesis using t by (simp add: trackers_ok_def)
next
  case (step_result now j r e)
  then show ?thesis using t trackers_result by simp
next
  case (step_attach now)
  then show ?thesis using t trackers_attach by simp
next
  case step_detach
  have "trackers_ok uc (detach s) = trackers_ok uc s"
    by (rule trackers_frame) (simp_all add: detach_def Let_def cancel_timers_def)
  then show ?thesis using t step_detach by simp
next
  case (step_configure co now)
  then have "trackers_ok uc (fst (configure uc now co s))"
    using t trackers_set_config [OF t _ st] by (auto simp: configure_def intro!: andthen_inv [of "trackers_ok uc"])
  then show ?thesis using step_configure by simp
next
  case (step_glossary now es)
  then show ?thesis using t by (simp add: set_glossary_def split: sum.split)
next
  case step_close
  then show ?thesis using t by (simp add: close_session_def Let_def split: option.split)
next
  case (step_admit now)
  then show ?thesis using t by (simp add: admit_event_def Let_def)
qed (use t in simp_all)

lemma session_reachable_trackers:
  assumes "session_reachable uc st s" and st: "settings_ok st"
  shows "trackers_ok uc s \<and> source_inv s \<and> ss_settings s = st"
  using assms(1)
proof (induction rule: session_reachable.induct)
  case (session_init co sid sh now s)
  have src: "source_inv s" using source_inv_new [of uc sid co st sh now] session_init(2) by simp
  have "trackers_ok uc (fst (set_config uc co u))"
    if "ss_utterances u = []" "ss_settings u = st" "ss_threshold u = 0" "ss_last_sequence u = -1" for u
    using trackers_set_config [of uc u co] that session_init(1) st by (simp add: trackers_ok_def)
  then have "trackers_ok uc (fst (new_session uc sid co st sh now))" by (simp add: new_session_def)
  moreover have "ss_settings s = st" using within_limits_new [OF session_init(2) st] by simp
  ultimately show ?case using src session_init(2) by simp
next
  case (session_more s s')
  then have "keeps s s" using session_reachable_keeps [OF session_more(1) st] by simp
  then have "keeps s s'"
    using keeps_step [OF session_more(2)] session_reachable_keeps [OF session_more(1) st] by simp
  then show ?case
    using session_more trackers_step [OF session_more(2)] source_inv_step [OF session_more(2)] st
    by (simp add: keeps_def)
qed

end
