(* ===== verification/SessionLive.thy ===== *)
theory SessionLive
  imports SessionTotal
begin

text \<open>
  What every operation of a session keeps: its current automatic utterance is one of its utterances,
  which is why \<open>ingest\<close> never looks up a missing one, and its generation, by which late results and
  timers are told from current ones, never goes back.
\<close>

definition auto_known :: "session \<Rightarrow> bool" where
  "auto_known s \<longleftrightarrow> (\<forall>a. ss_auto_id s = Some a \<longrightarrow> map_of (ss_utterances s) a \<noteq> None)"

text \<open>The generation of a session never goes back: it counts disconnections, resets and the close.\<close>

definition live :: "int \<Rightarrow> session \<Rightarrow> bool" where
  "live n s \<longleftrightarrow> auto_known s \<and> n \<le> ss_generation s"

lemma auto_id_frame [simp]:
  "ss_auto_id (metric_inc n s) = ss_auto_id s" "ss_auto_id (metric_obs n v s) = ss_auto_id s"
  "ss_auto_id (touch now s) = ss_auto_id s" "ss_auto_id (emit now e s) = ss_auto_id s"
  "ss_auto_id (emit_error now c m s) = ss_auto_id s" "ss_auto_id (emit_snapshot uc now k s) = ss_auto_id s"
  "ss_auto_id (add_task key kind due s) = ss_auto_id s" "ss_auto_id (arm cur now uid d s) = ss_auto_id s"
  "ss_auto_id (arm_commit now gid s) = ss_auto_id s" "ss_auto_id (cancel_timers s) = ss_auto_id s"
  "ss_auto_id (finish_task tm s) = ss_auto_id s" "ss_auto_id (first_result now s) = ss_auto_id s"
  "ss_auto_id (map_segment gid f s) = ss_auto_id s" "ss_auto_id (put_utterance uid u s) = ss_auto_id s"
  by (simp_all add: metric_inc_def metric_obs_def touch_def emit_def emit_error_def emit_snapshot_def
      add_task_def arm_def arm_commit_def cancel_timers_def finish_task_def first_result_def
      put_utterance_def map_segment_def Let_def split: option.split)

lemma generation_frame [simp]:
  "ss_generation (metric_inc n s) = ss_generation s" "ss_generation (metric_obs n v s) = ss_generation s"
  "ss_generation (touch now s) = ss_generation s" "ss_generation (emit now e s) = ss_generation s"
  "ss_generation (emit_error now c m s) = ss_generation s" "ss_generation (emit_snapshot uc now k s) = ss_generation s"
  "ss_generation (add_task key kind due s) = ss_generation s" "ss_generation (arm cur now uid d s) = ss_generation s"
  "ss_generation (arm_commit now gid s) = ss_generation s" "ss_generation (cancel_timers s) = ss_generation s"
  "ss_generation (finish_task tm s) = ss_generation s" "ss_generation (first_result now s) = ss_generation s"
  "ss_generation (map_segment gid f s) = ss_generation s" "ss_generation (put_utterance uid u s) = ss_generation s"
  by (simp_all add: metric_inc_def metric_obs_def touch_def emit_def emit_error_def emit_snapshot_def
      add_task_def arm_def arm_commit_def cancel_timers_def finish_task_def first_result_def
      put_utterance_def map_segment_def Let_def split: option.split)

lemma known_frame:
  "ss_utterances b = ss_utterances c \<Longrightarrow> ss_auto_id b = ss_auto_id c \<Longrightarrow> ss_generation b = ss_generation c \<Longrightarrow> live n b = live n c"
  by (simp add: live_def auto_known_def)

lemma known_frames [simp]:
  "live n (metric_inc m s) = live n s" "live n (metric_obs m v s) = live n s"
  "live n (touch now s) = live n s" "live n (emit now e s) = live n s"
  "live n (emit_error now c m s) = live n s" "live n (emit_snapshot ud now k s) = live n s"
  "live n (arm cur now uid d s) = live n s" "live n (arm_commit now gid s) = live n s"
  "live n (cancel_timers s) = live n s" "live n (finish_task tm s) = live n s"
  "live n (first_result now s) = live n s" "live n (map_segment gid f s) = live n s"
  "live n (s\<lparr>ss_revision := x1\<rparr>) = live n s" "live n (s\<lparr>ss_sched := x2\<rparr>) = live n s"
  "live n (s\<lparr>ss_context := x3\<rparr>) = live n s" "live n (s\<lparr>ss_active := x4\<rparr>) = live n s"
  "live n (s\<lparr>ss_queue := x5\<rparr>) = live n s" "live n (s\<lparr>ss_next_utterance := x6\<rparr>) = live n s"
  "live n (s\<lparr>ss_closed := x8\<rparr>) = live n s"
  "live n (s\<lparr>ss_glossary := x9\<rparr>) = live n s" "live n (s\<lparr>ss_events := y1\<rparr>) = live n s"
  "live n (s\<lparr>ss_segments := y2\<rparr>) = live n s" "live n (s\<lparr>ss_next_segment := y3\<rparr>) = live n s"
  "live n (s\<lparr>ss_config := y4\<rparr>) = live n s" "live n (s\<lparr>ss_threshold := y5\<rparr>) = live n s"
  "live n (s\<lparr>ss_policy := y6\<rparr>) = live n s"
  by (rule known_frame; simp)+

lemma known_put [simp]: "live n s \<Longrightarrow> live n (put_utterance uid v s)"
  by (simp add: live_def auto_known_def)

subsection \<open>Preservation\<close>

lemma known_ready [simp]: "live n (fst (segment_ready now gid s)) = live n s"
  by (simp add: segment_ready_def split: option.split prod.split)

lemma known_commit [simp]: "live n (fst (commit_segment ud now gid s)) = live n s"
  by (simp add: commit_segment_def done_step_def Let_def split: option.split prod.split sum.split)

lemma known_settle: assumes "live n s" shows "live n (fst (settle_segment ud now gid s))"
  unfolding settle_segment_def by (rule andthen_inv [of "live n"]) (use assms in simp_all)

lemma known_dispatch [simp]: "live n (fst (dispatch_next ud cur now s)) = live n s"
  by (simp add: dispatch_next_def done_step_def Let_def split: option.split prod.split sum.split)

lemma known_settle_old: assumes "live n s" shows "live n (fst (settle_old ud now f gid s))"
  using assms by (auto simp: settle_old_def split: option.split intro!: andthen_inv [of "live n"])

lemma known_foldl: "(\<And>t x. live n t \<Longrightarrow> live n (f t x)) \<Longrightarrow> live n s \<Longrightarrow> live n (foldl f s xs)"
  by (induction xs arbitrary: s) auto

lemma known_rollback: assumes "live n s" shows "live n (fst (rollback ud cur now i s))"
proof -
  have "live n (rollback_utterance cur now g t)" if "live n t" for g t
    using that by (simp add: rollback_utterance_def split: option.split)
  then have "live n (foldl (\<lambda>t g. rollback_utterance cur now g t) t gs)" if "live n t" for t gs
    using that by (intro known_foldl) auto
  then show ?thesis using assms
    by (simp add: rollback_def Let_def done_step_def split: prod.split sum.split)
qed

lemma known_adopt: assumes "live n s" shows "live n (fst (adopt_text uc cur now uid ev st old s))"
proof -
  have "live n (fst (for_each (settle_old ud now f) ids t))" if "live n t" for ud f ids t
    using that by (intro andthen_for_each [of "live n"]) (simp_all add: known_settle_old)
  then show ?thesis using assms by (simp add: adopt_text_def Let_def split: option.split prod.split sum.split)
qed

lemma known_apply: assumes "live n s" shows "live n (fst (apply_hypothesis uc cur now uid ev st s))"
proof -
  have "live n (fst (andthen (if c then rollback uc cur now i s else done_step s)
      (\<lambda>s1 _. adopt_text uc cur now uid ev st old s1)))" for c i old
    by (rule andthen_inv [of "live n"]) (simp_all add: known_adopt known_rollback assms)
  then show ?thesis using assms by (simp add: apply_hypothesis_def Let_def split: option.split sum.split)
qed

lemma known_observe: assumes "live n s" shows "live n (fst (observe_event uc cur started now uid ev s))"
proof -
  have "live n (fst (andthen (apply_hypothesis uc cur now uid ev st t) (\<lambda>s5 _.
          done_step (metric_obs m v s5))))" if "live n t" for st t m v
    by (rule andthen_inv [of "live n"]) (simp_all add: known_apply that)
  then show ?thesis using assms
    by (simp add: observe_event_def Let_def split: option.split prod.split sum.split)
qed

lemma known_check:
  "check_event s ev = (s1, r) \<Longrightarrow> s1 = s \<or> s1 = s\<lparr>ss_next_utterance := Suc (ss_next_utterance s)\<rparr>"
  by (auto simp: check_event_def resolve_utterance_def andthen_def Let_def split: if_splits option.splits)

lemma known_ingest: assumes "live n s" shows "live n (fst (ingest uc cur started now ev s))"
proof -
  obtain s1 r where c: "check_event s ev = (s1, r)" by fastforce
  have s1: "live n s1" using known_check [OF c] assms by auto
  show ?thesis
  proof (cases r)
    case (Inr uid)
    obtain s2 q where e: "ensure_utterance now s1 uid ev = (s2, q)" by fastforce
    have s2: "live n s2" using e s1
      by (auto simp: ensure_utterance_def done_step_def Let_def split: option.splits sum.splits)
    show ?thesis
    proof (cases q)
      case (Inr u)
      have "map_of (ss_utterances s2) uid \<noteq> None"
        using e Inr by (auto simp: ensure_utterance_def done_step_def put_utterance_def Let_def split: option.splits sum.splits)
      then have "live n (note_event now uid ev s2)"
        using s2 by (simp add: live_def auto_known_def note_event_def touch_def metric_inc_def Let_def)
      then show ?thesis using c e Inr \<open>r = Inr uid\<close> known_observe by (simp add: ingest_def)
    qed (use c e s2 \<open>r = Inr uid\<close> in \<open>simp add: ingest_def\<close>)
  qed (use c s1 in \<open>simp add: ingest_def\<close>)
qed

lemma known_round: assumes "live n s" shows "live n (fst (select_round ud cur now uid st s))"
proof (cases "map_of (ss_utterances s) uid")
  case (Some u)
  have hold: "live n (fst (hold_source cur now uid age u s))" for age
    using assms by (simp add: hold_source_def Let_def)
  have "live n (fst (cut_segment now uid u c s))" for c
    using assms by (simp add: cut_segment_def Let_def done_step_def split: sum.split)
  then have cut: "live n (fst (andthen (cut_segment now uid u c s) (\<lambda>s1 _. (s1, Inr None))))" for c
    by (intro andthen_inv [of "live n"]) simp_all
  have last: "live n (fst (case w of
            None \<Rightarrow> (case hold_source cur now uid age u s of (s1, b) \<Rightarrow> (s1, Inr (Some b)))
          | Some c \<Rightarrow> andthen (cut_segment now uid u c s) (\<lambda>s1 _. (s1, Inr None))))" for w age
    using hold [of age] cut by (cases "hold_source cur now uid age u s"; cases w) simp_all
  show ?thesis unfolding select_round_def Some option.case Let_def
    using assms last by (simp split: sum.split)
qed (use assms in \<open>simp add: select_round_def\<close>)

lemma known_loop: "live n s \<Longrightarrow> live n (fst (select_loop ud cur now uid st s))"
proof (induction ud cur now uid st s rule: select_loop.induct)
  case (1 ud cur now uid st s)
  show ?case
  proof (cases "select_round ud cur now uid st s")
    case (Pair s1 r)
    have "live n s1" using known_round [OF "1.prems", of ud cur now uid st] Pair by simp
    then show ?thesis
      using "1.IH" [OF Pair [symmetric]] Pair
      by (subst select_loop.simps) (auto split: sum.split option.split)
  qed
qed

lemma known_select: assumes "live n s" shows "live n (fst (select_utterance uc cur now uid s))"
  using assms by (simp add: select_utterance_def Let_def known_loop split: option.split prod.split sum.split)

lemma known_visit: "live n s \<Longrightarrow> live n (fst (visit_utterances uc cur now uids s))"
proof (induction uids arbitrary: s)
  case (Cons uid rest)
  have "live n (fst (andthen (select_utterance uc cur now uid s) (\<lambda>s1 go.
                 if go then visit_utterances uc cur now rest s1 else done_step s1)))"
    by (rule andthen_inv [of "live n"]) (simp_all add: known_select Cons)
  then show ?case using Cons by (simp split: option.split)
qed simp

lemma known_fire: assumes t: "live n s" shows "live n (fire_timer uc started now tm s)"
proof (cases "ti_kind tm")
  case (EvaluateTimer uid)
  have "live n (fst (andthen (visit_utterances uc cur now (map fst (ss_utterances s)) s)
      (\<lambda>s1 _. dispatch_next uc cur now (metric_obs ''segment_decision_ms'' ((now - started) * 1000) s1))))" for cur
    by (rule andthen_inv [of "live n"]) (simp_all add: known_visit t)
  then have "live n (fst (evaluate uc cur started now uid gen s))" for cur gen
    using t by (simp add: evaluate_def)
  from this [of "Some (ti_id tm)" "ti_generation tm"] show ?thesis
    using EvaluateTimer
    by (cases "evaluate uc (Some (ti_id tm)) started now uid (ti_generation tm) s")
       (simp add: fire_timer_def split: sum.split)
next
  case (CommitTimer gid)
  have "live n (fst (fire_commit uc now gid (ti_generation tm) s))"
    using t by (auto simp: fire_commit_def intro!: andthen_inv [of "live n"])
  then show ?thesis by (simp add: fire_timer_def CommitTimer)
qed

lemma known_result: assumes t: "live n s" shows "live n (fst (result_handler ud now j r e s))"
proof -
  have store: "live n (fst (store_translation ud now gid tx u))" if "live n u" for gid tx u
    using that by (simp add: store_translation_def Let_def known_settle split: option.split prod.split sum.split)
  have rearm: "live n (rearm_retained ud now u)" if "live n u" for u
    unfolding rearm_retained_def by (rule known_foldl) (simp_all add: that)
  show ?thesis using t
    by (auto simp: result_handler_def Let_def store rearm split: option.split intro!: andthen_inv [of "live n"])
qed

lemma known_attach: assumes t: "live n s" shows "live n (fst (attach ud now s))"
proof -
  have arms: "live n (foldl (\<lambda>t p. arm None now (fst p) 0 t) u ps)" if "live n u" for u ps
    by (rule known_foldl) (simp_all add: that)
  have draft: "live n (fst (settle_draft ud now gid u))" if "live n u" for gid u
    using that by (simp add: settle_draft_def known_settle split: option.split)
  show ?thesis
    using t by (auto simp: attach_def Let_def arms draft
        intro!: andthen_inv [of "live n"] andthen_for_each [of "live n"])
qed

lemma known_set_config: "live n s \<Longrightarrow> live n (fst (set_config ud co s))"
  by (simp add: set_config_def done_step_def Let_def split: sum.split)

lemma live_leave:
  "ss_utterances b = ss_utterances c \<Longrightarrow> ss_auto_id b = ss_auto_id c \<Longrightarrow> ss_generation b = ss_generation c + 1
     \<Longrightarrow> live n c \<Longrightarrow> live n b"
  by (simp add: live_def auto_known_def)

lemma generation_detach [simp]: "ss_generation (detach s) = ss_generation s + 1"
  by (simp add: detach_def Let_def)

lemma generation_reset [simp]: "ss_generation (reset uc now s) = ss_generation s + 1"
  by (simp add: reset_def Let_def)

lemma generation_close [simp]: "ss_generation (close_session s) = ss_generation s + 1"
  by (simp add: close_session_def Let_def split: option.split)

lemma live_step: assumes "session_step uc s s'" and t: "live n s" shows "live n s'"
  using assms(1)
proof cases
  case (step_reset now)
  have "ss_auto_id s' = None" unfolding step_reset by (simp add: reset_def Let_def)
  then show ?thesis using t by (simp add: live_def auto_known_def step_reset)
next
  case step_detach
  have "live n (detach s)"
    by (rule live_leave [OF _ _ _ t]) (simp_all add: detach_def Let_def)
  then show ?thesis using step_detach by simp
next
  case (step_configure co now)
  then have "live n (fst (configure uc now co s))"
    using t known_set_config [OF t] by (auto simp: configure_def intro!: andthen_inv [of "live n"])
  then show ?thesis using step_configure by simp
next
  case (step_glossary now es)
  then show ?thesis using t by (simp add: set_glossary_def split: sum.split)
next
  case step_close
  have "live n (close_session s)"
    by (rule live_leave [OF _ _ _ t]) (simp_all add: close_session_def Let_def split: option.split)
  then show ?thesis using step_close by simp
next
  case (step_admit now)
  then show ?thesis using t by (simp add: admit_event_def Let_def)
qed (use t in \<open>simp_all add: known_ingest known_fire known_result known_attach\<close>)

lemma session_reachable_known: "session_reachable uc st s \<Longrightarrow> auto_known s"
proof -
  have "session_reachable uc st s \<Longrightarrow> live 0 s"
  proof (induction rule: session_reachable.induct)
    case (session_init co sid sh now s)
    then have "live 0 (fst (new_session uc sid co st sh now))"
      unfolding new_session_def by (intro known_set_config) (simp add: live_def auto_known_def)
    then show ?case using session_init by simp
  next
    case (session_more s s')
    then show ?case using live_step by blast
  qed
  then show "session_reachable uc st s \<Longrightarrow> auto_known s" by (simp add: live_def)
qed

lemma generation_grows:
  assumes "session_reachable uc st s" and "(session_step uc)\<^sup>*\<^sup>* s s'"
  shows "ss_generation s \<le> ss_generation s'"
proof -
  have "live (ss_generation s) s'" using assms(2)
  proof (induction rule: rtranclp_induct)
    case base
    then show ?case using session_reachable_known [OF assms(1)] by (simp add: live_def)
  next
    case (step y z)
    then show ?case using live_step by blast
  qed
  then show ?thesis by (simp add: live_def)
qed

text \<open>A check of \<open>ingest\<close> therefore fails with a code of the protocol only.\<close>

lemma check_event_failure:
  assumes "session_reachable uc st s" and "check_event s ev = (s1, Inl e)"
  shows "\<exists>code. e = ValueError code"
proof -
  have "resolve_utterance s ev \<noteq> (t, Inl x)" for t x
    using session_reachable_known [OF assms(1)]
    by (auto simp: resolve_utterance_def auto_known_def Let_def split: option.split)
  then show ?thesis using assms(2)
    by (auto simp: check_event_def andthen_def Let_def split: if_splits prod.splits sum.splits)
qed

end
