(* ===== verification/Json.thy ===== *)
theory Json
  imports Prelude
begin

text \<open>
  JSON values and the compact text the code sends: \<open>json.dumps(\<dots>, ensure_ascii=False,
  separators=(",", ":"))\<close> of the standard library. \<open>read_value\<close> is a reader of that text for values
  built from strings, lists and objects; it is the specification the prompt is checked against.
  Integers (\<open>JNum\<close>) and floats (\<open>JFloat\<close>) differ, as their Python types do; they are printed by an argument (the text of a Python number).
\<close>

datatype json =
    JNull
  | JBool bool
  | JNum rat
  | JFloat pyfloat
  | JStr ustring
  | JList "json list"
  | JObj "(ustring \<times> json) list"

subsection \<open>Printing\<close>

definition hex_digit :: "nat \<Rightarrow> nat" where
  "hex_digit n = (if n < 10 then 48 + n else 87 + n)"

text \<open>The escapes of \<open>json.encoder.ESCAPE_DCT\<close>.\<close>

definition escape_char :: "nat \<Rightarrow> ustring" where
  "escape_char c =
     (if c = 34 then [92, 34] else if c = 92 then [92, 92]
      else if c = 10 then [92, 110] else if c = 13 then [92, 114] else if c = 9 then [92, 116]
      else if c = 12 then [92, 102] else if c = 8 then [92, 98]
      else if c < 32 then [92, 117, 48, 48, hex_digit (c div 16), hex_digit (c mod 16)]
      else [c])"

definition dump_string :: "ustring \<Rightarrow> ustring" where
  "dump_string s = 34 # concat (map escape_char s) @ [34]"

text \<open>A float prints as its decimal text; the constants are what \<open>allow_nan\<close> lets through.\<close>

definition float_text :: "(rat \<Rightarrow> ustring) \<Rightarrow> pyfloat \<Rightarrow> ustring" where
  "float_text num f = (case f of Fin q \<Rightarrow> num q | PInf \<Rightarrow> lit ''Infinity'' | NInf \<Rightarrow> lit ''-Infinity'' | NaN \<Rightarrow> lit ''NaN'')"

fun dump_json :: "(rat \<Rightarrow> ustring) \<Rightarrow> json \<Rightarrow> ustring" where
  "dump_json num JNull = lit ''null''"
| "dump_json num (JBool b) = (if b then lit ''true'' else lit ''false'')"
| "dump_json num (JNum q) = num q"
| "dump_json num (JFloat f) = float_text num f"
| "dump_json num (JStr s) = dump_string s"
| "dump_json num (JList vs) = 91 # py_join [44] (map (dump_json num) vs) @ [93]"
| "dump_json num (JObj ps) = 123 # py_join [44] (map (\<lambda>(k, v). dump_string k @ 58 # dump_json num v) ps) @ [125]"

subsection \<open>Reading\<close>

definition unhex :: "nat \<Rightarrow> nat" where
  "unhex c = (if c < 58 then c - 48 else c - 87)"

definition unescape :: "nat \<Rightarrow> nat" where
  "unescape c = (if c = 110 then 10 else if c = 114 then 13 else if c = 116 then 9
     else if c = 102 then 12 else if c = 98 then 8 else c)"

text \<open>The characters up to the closing quote, and what follows it.\<close>

fun read_chars :: "ustring \<Rightarrow> (ustring \<times> ustring) option" where
  "read_chars [] = None"
| "read_chars (c # r) =
     (if c = 34 then Some ([], r)
      else if c = 92 then
        (case r of
           [] \<Rightarrow> None
         | d # r1 \<Rightarrow>
             if d = 117 then
               (case r1 of
                  a # b # x # y # r2 \<Rightarrow>
                    map_option (\<lambda>(s, t). ((unhex x * 16 + unhex y) # s, t)) (read_chars r2)
                | _ \<Rightarrow> None)
             else map_option (\<lambda>(s, t). (unescape d # s, t)) (read_chars r1))
      else map_option (\<lambda>(s, t). (c # s, t)) (read_chars r))"

fun read_value :: "nat \<Rightarrow> ustring \<Rightarrow> (json \<times> ustring) option"
  and read_items :: "nat \<Rightarrow> ustring \<Rightarrow> (json list \<times> ustring) option"
  and read_members :: "nat \<Rightarrow> ustring \<Rightarrow> ((ustring \<times> json) list \<times> ustring) option" where
  "read_value 0 s = None"
| "read_value (Suc n) s =
     (case s of
        [] \<Rightarrow> None
      | c # r \<Rightarrow>
          if c = 34 then map_option (\<lambda>(t, u). (JStr t, u)) (read_chars r)
          else if c = 91 then
            (if r \<noteq> [] \<and> hd r = 93 then Some (JList [], tl r)
             else map_option (\<lambda>(vs, u). (JList vs, u)) (read_items n r))
          else if c = 123 then
            (if r \<noteq> [] \<and> hd r = 125 then Some (JObj [], tl r)
             else map_option (\<lambda>(ps, u). (JObj ps, u)) (read_members n r))
          else None)"
| "read_items 0 s = None"
| "read_items (Suc n) s =
     (case read_value n s of
        None \<Rightarrow> None
      | Some (v, r) \<Rightarrow>
          (case r of
             [] \<Rightarrow> None
           | c # u \<Rightarrow>
               if c = 44 then map_option (\<lambda>(vs, w). (v # vs, w)) (read_items n u)
               else if c = 93 then Some ([v], u)
               else None))"
| "read_members 0 s = None"
| "read_members (Suc n) s =
     (case s of
        [] \<Rightarrow> None
      | q # s1 \<Rightarrow>
          if q \<noteq> 34 then None
          else
            (case read_chars s1 of
               None \<Rightarrow> None
             | Some (k, s2) \<Rightarrow>
                 (case s2 of
                    [] \<Rightarrow> None
                  | c # s3 \<Rightarrow>
                      if c \<noteq> 58 then None
                      else
                        (case read_value n s3 of
                           None \<Rightarrow> None
                         | Some (v, r) \<Rightarrow>
                             (case r of
                                [] \<Rightarrow> None
                              | d # u \<Rightarrow>
                                  if d = 44 then map_option (\<lambda>(ps, w). ((k, v) # ps, w)) (read_members n u)
                                  else if d = 125 then Some ([(k, v)], u)
                                  else None)))))"

definition read_json :: "ustring \<Rightarrow> json option" where
  "read_json s = (case read_value (2 * length s) s of Some (v, []) \<Rightarrow> Some v | _ \<Rightarrow> None)"

subsection \<open>Reading what was printed\<close>

lemma hex_digits: "n < 10 \<Longrightarrow> unhex (48 + n) = n" "10 \<le> n \<Longrightarrow> n < 16 \<Longrightarrow> unhex (87 + n) = n"
  by (simp_all add: unhex_def)

lemma unhex_hex: "n < 16 \<Longrightarrow> unhex (hex_digit n) = n"
  by (simp add: unhex_def hex_digit_def)

lemma read_escaped: "read_chars (escape_char c @ r) = map_option (\<lambda>(s, t). (c # s, t)) (read_chars r)"
proof -
  have "unhex (hex_digit (c div 16)) * 16 + unhex (hex_digit (c mod 16)) = c" if "c < 32"
    using that by (simp add: unhex_hex)
  then show ?thesis by (simp add: escape_char_def unescape_def)
qed

lemma read_dumped_chars: "read_chars (concat (map escape_char s) @ 34 # r) = Some (s, r)"
  by (induction s) (simp_all add: read_escaped del: read_chars.simps(2), simp)

text \<open>Values of the kinds the reader knows.\<close>

fun plain :: "json \<Rightarrow> bool" where
  "plain (JStr s) = True"
| "plain (JList vs) = list_all plain vs"
| "plain (JObj ps) = list_all (\<lambda>(k, v). plain v) ps"
| "plain _ = False"

lemma dump_head: "plain v \<Longrightarrow> \<exists>c r. dump_json num v = c # r \<and> c \<in> {34, 91, 123}"
  by (cases v) (auto simp: dump_string_def)

text \<open>\<open>fuel v\<close> calls of the reader are enough for \<open>v\<close>, and a text is long enough to supply them.\<close>

fun fuel :: "json \<Rightarrow> nat" where
  "fuel (JList vs) = Suc (sum_list (map (\<lambda>v. Suc (fuel v)) vs))"
| "fuel (JObj ps) = Suc (sum_list (map (\<lambda>p. Suc (fuel (snd p))) ps))"
| "fuel _ = 1"

lemma py_join_Cons2: "py_join sep (x # y # ys) = x @ sep @ py_join sep (y # ys)"
  by (simp add: py_join_def)

lemma py_join_single [simp]: "py_join sep [x] = x" "py_join sep [] = []"
  by (simp_all add: py_join_def)

lemma read_items_dumped:
  assumes "\<And>v n r. v \<in> set vs \<Longrightarrow> fuel v \<le> n \<Longrightarrow> read_value n (dump_json num v @ r) = Some (v, r)"
    and "vs \<noteq> []" and "sum_list (map (\<lambda>v. Suc (fuel v)) vs) \<le> n"
  shows "read_items n (py_join [44] (map (dump_json num) vs) @ 93 # r) = Some (vs, r)"
  using assms
proof (induction vs arbitrary: n)
  case (Cons v vs)
  obtain m where n: "n = Suc m" "fuel v \<le> m" "sum_list (map (\<lambda>v. Suc (fuel v)) vs) \<le> m"
    using Cons.prems(3) by (cases n) auto
  have v: "read_value m (dump_json num v @ x) = Some (v, x)" for x using Cons.prems(1) n(2) by simp
  show ?case
  proof (cases vs)
    case Nil
    then show ?thesis using n v by simp
  next
    case (Cons w ws)
    have "read_items m (py_join [44] (map (dump_json num) vs) @ 93 # r) = Some (vs, r)"
      using Cons.IH Cons.prems(1) Cons n(3) by simp
    then show ?thesis using n v Cons by (simp add: py_join_Cons2)
  qed
qed simp

lemma read_members_dumped:
  assumes "\<And>p n r. p \<in> set ps \<Longrightarrow> fuel (snd p) \<le> n \<Longrightarrow> read_value n (dump_json num (snd p) @ r) = Some (snd p, r)"
    and "ps \<noteq> []" and "sum_list (map (\<lambda>p. Suc (fuel (snd p))) ps) \<le> n"
  shows "read_members n (py_join [44] (map (\<lambda>(k, v). dump_string k @ 58 # dump_json num v) ps) @ 125 # r) = Some (ps, r)"
  using assms
proof (induction ps arbitrary: n)
  case (Cons p ps)
  obtain m where n: "n = Suc m" "fuel (snd p) \<le> m" "sum_list (map (\<lambda>p. Suc (fuel (snd p))) ps) \<le> m"
    using Cons.prems(3) by (cases n) auto
  have v: "read_value m (dump_json num (snd p) @ x) = Some (snd p, x)" for x using Cons.prems(1) n(2) by simp
  obtain k w where p: "p = (k, w)" by fastforce
  show ?case
  proof (cases ps)
    case Nil
    then show ?thesis using n v p by (simp add: dump_string_def read_dumped_chars)
  next
    case (Cons q qs)
    have "read_members m (py_join [44] (map (\<lambda>(k, v). dump_string k @ 58 # dump_json num v) ps) @ 125 # r) = Some (ps, r)"
      using Cons.IH Cons.prems(1) Cons n(3) by simp
    then show ?thesis using n v p Cons by (cases q) (simp add: py_join_Cons2 dump_string_def read_dumped_chars)
  qed
qed simp

lemma read_value_dumped: "plain v \<Longrightarrow> fuel v \<le> n \<Longrightarrow> read_value n (dump_json num v @ r) = Some (v, r)"
proof (induction v arbitrary: n r)
  case (JStr s)
  then show ?case by (cases n) (simp_all add: dump_string_def read_dumped_chars)
next
  case (JList vs)
  then obtain m where n: "n = Suc m" "sum_list (map (\<lambda>v. Suc (fuel v)) vs) \<le> m" by (cases n) auto
  have ih: "v \<in> set vs \<Longrightarrow> fuel v \<le> k \<Longrightarrow> read_value k (dump_json num v @ x) = Some (v, x)" for v k x
    using JList by (auto simp: list_all_iff)
  show ?case
  proof (cases vs)
    case (Cons v ws)
    then obtain c q where c: "py_join [44] (map (dump_json num) vs) @ 93 # r = c # q" "c \<noteq> 93"
      using dump_head [of v num] JList.prems by (force simp: py_join_def)
    have "read_items m (py_join [44] (map (dump_json num) vs) @ 93 # r) = Some (vs, r)"
      by (rule read_items_dumped [OF ih]) (use Cons n in auto)
    then show ?thesis using n c by simp
  qed (use n in simp)
next
  case (JObj ps)
  then obtain m where n: "n = Suc m" "sum_list (map (\<lambda>p. Suc (fuel (snd p))) ps) \<le> m" by (cases n) auto
  have ih: "p \<in> set ps \<Longrightarrow> fuel (snd p) \<le> k \<Longrightarrow> read_value k (dump_json num (snd p) @ x) = Some (snd p, x)" for p k x
    using JObj by (fastforce simp: list_all_iff)
  show ?case
  proof (cases ps)
    case (Cons p qs)
    have c: "\<exists>q. py_join [44] (map (\<lambda>(k, v). dump_string k @ 58 # dump_json num v) ps) @ 125 # r = 34 # q"
      using Cons by (cases p) (simp add: py_join_def dump_string_def)
    have "read_members m (py_join [44] (map (\<lambda>(k, v). dump_string k @ 58 # dump_json num v) ps) @ 125 # r) = Some (ps, r)"
      by (rule read_members_dumped [OF ih]) (use Cons n in auto)
    then show ?thesis using n c by auto
  qed (use n in simp)
qed simp_all

lemma fuel_pos: "1 \<le> fuel v"
  by (cases v) auto

lemma length_py_join: "length (py_join [x] xs) + 1 = sum_list (map length xs) + length xs \<or> xs = []"
  by (cases xs) (auto simp: py_join_def length_concat o_def sum_list_Suc)

lemma fuel_length: "plain v \<Longrightarrow> fuel v \<le> 2 * length (dump_json num v)"
proof (induction v)
  case (JStr s)
  then show ?case by (simp add: dump_string_def)
next
  case (JList vs)
  have "sum_list (map (\<lambda>v. Suc (fuel v)) vs) \<le> sum_list (map (\<lambda>v. Suc (2 * length (dump_json num v))) vs)"
    using JList by (intro sum_list_mono) (auto simp: list_all_iff)
  then show ?case using length_py_join [of 44 "map (dump_json num) vs"]
    by (auto simp: sum_list_Suc sum_list_const_mult o_def)
next
  case (JObj ps)
  have "sum_list (map (\<lambda>p. Suc (fuel (snd p))) ps)
      \<le> sum_list (map (\<lambda>p. Suc (2 * length (dump_string (fst p) @ 58 # dump_json num (snd p)))) ps)"
    using JObj by (intro sum_list_mono) (fastforce simp: list_all_iff)
  then show ?case
    using length_py_join [of 44 "map (\<lambda>(k, v). dump_string k @ 58 # dump_json num v) ps"]
    by (auto simp: sum_list_Suc sum_list_const_mult sum_list_addf o_def split_beta)
qed simp_all

lemma read_json_dumped: "plain v \<Longrightarrow> read_json (dump_json num v) = Some v"
  using read_value_dumped [of v "2 * length (dump_json num v)" num "[]"] fuel_length [of v num]
  by (simp add: read_json_def)

end
