(* ===== verification/OpenAIBackend.thy ===== *)
theory OpenAIBackend
  imports Prompt Job
begin

text \<open>
  Model of \<^verbatim>\<open>src/app/translation/openai_backend.py\<close>: the bounded transport to a chat API. The HTTP
  client (httpx), the parser of base URLs and the lexical part of \<open>json.loads\<close> are arguments: \<open>send\<close>
  is what the client does with a request body, \<open>loads\<close> turns response bytes into a value that still
  has duplicate keys (\<open>None\<close>: not JSON, not UTF-8, or a nonfinite number). \<open>num\<close> prints a number.
\<close>

subsection \<open>Construction\<close>

record base_url =
  bu_scheme :: ustring
  bu_host :: ustring
  bu_userinfo :: ustring
  bu_query :: ustring
  bu_fragment :: ustring
  bu_path :: ustring

record backend =
  be_endpoint :: ustring
  be_model :: ustring
  be_temperature :: rat
  be_timeout :: rat
  be_connect_timeout :: rat
  be_max_input :: int
  be_max_output :: int
  be_max_request :: int
  be_max_response :: int
  be_max_tokens :: int
  be_authorization :: "ustring option"
  be_owns_client :: bool
  be_closed :: bool

definition ends_with :: "ustring \<Rightarrow> ustring \<Rightarrow> bool" where
  "ends_with e s \<longleftrightarrow> length e \<le> length s \<and> drop (length s - length e) s = e"

definition endpoint_path :: "ustring \<Rightarrow> ustring" where
  "endpoint_path path =
     (let p = rstrip_set (\<lambda>c. c = 47) path
      in p @ (if ends_with (lit ''/v1'') p then lit ''/chat/completions'' else lit ''/v1/chat/completions''))"

definition validate_model :: "unidb \<Rightarrow> ustring \<Rightarrow> unit res" where
  "validate_model uc m =
     (if py_strip uc m = [] \<or> length m > 256 \<or> list_ex (\<lambda>c. c < 32) m
      then Inl (prompt_error ''invalid_model'') else Inr ())"

definition validate_temperature :: "pyfloat \<Rightarrow> unit res" where
  "validate_temperature t =
     (if \<not> pf_finite t \<or> \<not> (0 \<le> pf_val t \<and> pf_val t \<le> 2)
      then Inl (prompt_error ''invalid_temperature'') else Inr ())"

definition new_backend ::
    "unidb \<Rightarrow> base_url \<Rightarrow> ustring \<Rightarrow> bool \<Rightarrow> ustring option \<Rightarrow> pyfloat \<Rightarrow> int \<Rightarrow> int \<Rightarrow> int \<Rightarrow> int \<Rightarrow> int
       \<Rightarrow> pyfloat \<Rightarrow> backend res" where
  "new_backend uc url model client_given api_key timeout max_input max_output max_request max_response
       max_tokens temperature =
     (if (bu_scheme url \<noteq> lit ''http'' \<and> bu_scheme url \<noteq> lit ''https'') \<or> bu_host url = []
         \<or> bu_userinfo url \<noteq> [] \<or> bu_query url \<noteq> [] \<or> bu_fragment url \<noteq> []
        then Inl (ValueError ''Expected an HTTP(S) API base URL without credentials, query or fragment'')
      else if \<not> pf_finite timeout \<or> \<not> (0 < pf_val timeout \<and> pf_val timeout \<le> 300)
        then Inl (ValueError ''timeout_s must be positive and at most 300 seconds'')
      else if list_ex (\<lambda>n. n < 1) [max_input, max_output, max_request, max_response, max_tokens]
        then Inl (ValueError ''Translation capacity limits must be positive integers'')
      else
        res_bind (validate_model uc model) (\<lambda>_.
        res_bind (validate_temperature temperature) (\<lambda>_.
          if (case api_key of None \<Rightarrow> False
              | Some k \<Rightarrow> py_strip uc k = [] \<or> list_ex (\<lambda>c. c = 13 \<or> c = 10) k)
          then Inl (ValueError ''Invalid API key'')
          else Inr \<lparr>be_endpoint = endpoint_path (bu_path url), be_model = model,
                 be_temperature = pf_val temperature, be_timeout = pf_val timeout,
                 be_connect_timeout = min 5 (pf_val timeout), be_max_input = max_input,
                 be_max_output = max_output, be_max_request = max_request,
                 be_max_response = max_response, be_max_tokens = max_tokens,
                 be_authorization = map_option (\<lambda>k. lit ''Bearer '' @ k) api_key,
                 be_owns_client = (\<not> client_given), be_closed = False\<rparr>)))"

subsection \<open>The exchange\<close>

text \<open>How the response stream ends, and what the client reports.\<close>

datatype stream_end = StreamEnd | StreamTimeout | StreamFailure

datatype http_reply =
    HttpTimeout
  | HttpFailure
  | HttpResponse int "nat list list" stream_end

text \<open>The loop over \<open>aiter_bytes\<close>; \<open>None\<close>: the limit was passed.\<close>

fun collect_body :: "int \<Rightarrow> int \<Rightarrow> nat list list \<Rightarrow> nat list list \<Rightarrow> nat list option" where
  "collect_body limit n acc [] = Some (concat (rev acc))"
| "collect_body limit n acc (c # cs) =
     (if n + int (length c) > limit then None
      else collect_body limit (n + int (length c)) (c # acc) cs)"

definition receive :: "int \<Rightarrow> http_reply \<Rightarrow> nat list res" where
  "receive limit reply =
     (case reply of
        HttpTimeout \<Rightarrow> Inl (TranslationError ''timeout'' True)
      | HttpFailure \<Rightarrow> Inl (TranslationError ''transport_error'' True)
      | HttpResponse status chunks ending \<Rightarrow>
          if status \<noteq> 200
          then Inl (TranslationError (if status = 429 then ''rate_limited'' else ''upstream_http_error'')
                      (status = 408 \<or> status = 429 \<or> 500 \<le> status))
          else
            (case collect_body limit 0 [] chunks of
               None \<Rightarrow> Inl (prompt_error ''response_too_large'')
             | Some body \<Rightarrow>
                 (case ending of
                    StreamEnd \<Rightarrow> Inr body
                  | StreamTimeout \<Rightarrow> Inl (TranslationError ''timeout'' True)
                  | StreamFailure \<Rightarrow> Inl (TranslationError ''transport_error'' True))))"

text \<open>\<open>_unique_object\<close>, applied by the parser to every object.\<close>

definition unique_object :: "(ustring \<times> json) list \<Rightarrow> bool" where
  "unique_object ps \<longleftrightarrow> distinct (map fst ps)"

fun unique_json :: "json \<Rightarrow> bool" where
  "unique_json (JList vs) = list_all unique_json vs"
| "unique_json (JObj ps) = (list_all (\<lambda>(k, v). unique_json v) ps \<and> unique_object ps)"
| "unique_json _ = True"

fun truthy :: "json \<Rightarrow> bool" where
  "truthy JNull = False"
| "truthy (JBool b) = b"
| "truthy (JNum q) = (q \<noteq> 0)"
| "truthy (JFloat f) = (f \<noteq> Fin 0)"
| "truthy (JStr s) = (s \<noteq> [])"
| "truthy (JList vs) = (vs \<noteq> [])"
| "truthy (JObj ps) = (ps \<noteq> [])"

definition field :: "string \<Rightarrow> (ustring \<times> json) list \<Rightarrow> json option" where
  "field k ps = map_of ps (lit k)"

definition truthy_field :: "string \<Rightarrow> (ustring \<times> json) list \<Rightarrow> bool" where
  "truthy_field k ps = (case field k ps of None \<Rightarrow> False | Some v \<Rightarrow> truthy v)"

definition invalid_response :: py_error where
  "invalid_response = prompt_error ''invalid_response''"

definition reply_choice :: "json \<Rightarrow> (ustring \<times> json) list res" where
  "reply_choice packet =
     (case packet of
        JObj ps \<Rightarrow>
          (case field ''choices'' ps of
             Some (JList [JObj choice]) \<Rightarrow> Inr choice
           | _ \<Rightarrow> Inl invalid_response)
      | _ \<Rightarrow> Inl invalid_response)"

definition reply_message :: "(ustring \<times> json) list \<Rightarrow> (ustring \<times> json) list res" where
  "reply_message choice =
     (if field ''finish_reason'' choice \<noteq> Some (JStr (lit ''stop''))
        then Inl (prompt_error ''incomplete_response'')
      else
        (case field ''message'' choice of
           Some (JObj message) \<Rightarrow>
             if truthy_field ''tool_calls'' message \<or> truthy_field ''refusal'' message
             then Inl invalid_response else Inr message
         | _ \<Rightarrow> Inl invalid_response))"

definition reply_content :: "unidb \<Rightarrow> (ustring \<times> json) list \<Rightarrow> ustring res" where
  "reply_content uc message =
     (case field ''content'' message of
        Some (JStr s) \<Rightarrow>
          if py_strip uc s = [] \<or> list_ex is_surrogate s then Inl invalid_response else Inr s
      | _ \<Rightarrow> Inl invalid_response)"

definition parse_reply :: "unidb \<Rightarrow> (nat list \<Rightarrow> json option) \<Rightarrow> nat list \<Rightarrow> ustring res" where
  "parse_reply uc loads body =
     (case loads body of
        None \<Rightarrow> Inl invalid_response
      | Some packet \<Rightarrow>
          if \<not> unique_json packet then Inl invalid_response
          else res_bind (reply_choice packet) (\<lambda>choice.
               res_bind (reply_message choice) (reply_content uc)))"

definition role_text :: "role \<Rightarrow> ustring" where
  "role_text r = (case r of SystemRole \<Rightarrow> lit ''system'' | UserRole \<Rightarrow> lit ''user'')"

definition payload :: "backend \<Rightarrow> ustring \<Rightarrow> rat \<Rightarrow> (role \<times> ustring) list \<Rightarrow> json" where
  "payload be model temperature messages =
     JObj [(lit ''model'', JStr model),
           (lit ''messages'', JList (map (\<lambda>(r, c). JObj [(lit ''role'', JStr (role_text r)), (lit ''content'', JStr c)]) messages)),
           (lit ''temperature'', JFloat (Fin temperature)), (lit ''max_tokens'', JNum (of_int (be_max_tokens be))),
           (lit ''stream'', JBool False)]"

text \<open>
  \<open>translate\<close> from the payload on; \<open>elapsed_ms\<close> is the reading of the monotonic clock at the end
  relative to the start.
\<close>

definition exchange ::
    "unidb \<Rightarrow> (rat \<Rightarrow> ustring) \<Rightarrow> (ustring \<Rightarrow> http_reply) \<Rightarrow> (nat list \<Rightarrow> json option) \<Rightarrow> rat \<Rightarrow> backend
       \<Rightarrow> ustring \<Rightarrow> pyfloat \<Rightarrow> (role \<times> ustring) list \<Rightarrow> translation_result res" where
  "exchange uc num send loads elapsed_ms be model temperature messages =
     (let body = dump_json num (payload be model (pf_val temperature) messages)
      in if list_ex is_surrogate body then Inl (ValueError ''surrogates not allowed'')
         else if int (utf8_len body) > be_max_request be then Inl (prompt_error ''input_too_large'')
         else
           res_bind (receive (be_max_response be) (send body)) (\<lambda>bytes.
           res_bind (parse_reply uc loads bytes) (\<lambda>result.
             if int (length result) > be_max_output be then Inl (prompt_error ''output_too_large'')
             else Inr \<lparr>re_text = py_strip uc result, re_latency_ms = Fin elapsed_ms\<rparr>)))"

definition backend_translate ::
    "unidb \<Rightarrow> (rat \<Rightarrow> ustring) \<Rightarrow> (ustring \<Rightarrow> http_reply) \<Rightarrow> (nat list \<Rightarrow> json option) \<Rightarrow> rat \<Rightarrow> backend
       \<Rightarrow> ustring \<Rightarrow> ustring \<Rightarrow> ustring \<Rightarrow> ustring list \<Rightarrow> ustring list \<Rightarrow> (ustring \<times> ustring) list
       \<Rightarrow> ustring option \<Rightarrow> pyfloat option \<Rightarrow> translation_result res" where
  "backend_translate uc num send loads elapsed_ms be source source_language target_language
       sources translations glossary model temperature =
     (if be_closed be then Inl (prompt_error ''backend_closed'')
      else
        (let m = (case model of None \<Rightarrow> be_model be | Some x \<Rightarrow> x);
             t = (case temperature of None \<Rightarrow> Fin (be_temperature be) | Some x \<Rightarrow> x)
         in res_bind (validate_model uc m) (\<lambda>_.
            res_bind (validate_temperature t) (\<lambda>_.
            res_bind (build_translation_messages uc (nat (be_max_input be)) source source_language
                        target_language sources translations glossary)
              (exchange uc num send loads elapsed_ms be m t)))))"

text \<open>\<open>close\<close>: the flag \<open>True\<close> says that the client is to be closed too.\<close>

definition backend_close :: "backend \<Rightarrow> backend \<times> bool" where
  "backend_close be = (if be_closed be then (be, False) else (be\<lparr>be_closed := True\<rparr>, be_owns_client be))"

subsection \<open>Strings and bodies\<close>

lemma rstrip_end: "rstrip_set p s \<noteq> [] \<Longrightarrow> \<not> p (last (rstrip_set p s))"
  by (simp add: rstrip_set_def last_rev hd_dropWhile)

lemma rstrip_prefix: "\<exists>t. s = rstrip_set p s @ t"
proof -
  have "rev s = takeWhile p (rev s) @ dropWhile p (rev s)" by simp
  then have "s = rev (dropWhile p (rev s)) @ rev (takeWhile p (rev s))" by (metis rev_append rev_rev_ident)
  then show ?thesis by (auto simp: rstrip_set_def)
qed

lemma strip_ends:
  assumes "py_strip uc s \<noteq> []"
  shows "\<not> u_isspace uc (hd (py_strip uc s)) \<and> \<not> u_isspace uc (last (py_strip uc s))"
proof -
  let ?d = "dropWhile (u_isspace uc) s"
  obtain t where t: "?d = py_strip uc s @ t" using rstrip_prefix [of ?d "u_isspace uc"] by (auto simp: py_strip_def)
  have "?d \<noteq> []" using t assms by auto
  then have "\<not> u_isspace uc (hd ?d)" by (rule hd_dropWhile)
  then show ?thesis using t assms rstrip_end [of "u_isspace uc" ?d] by (metis hd_append2 py_strip_def)
qed

lemma collect_body_spec:
  "collect_body limit n acc cs = Some b \<Longrightarrow>
     b = concat (rev acc) @ concat cs \<and> (cs \<noteq> [] \<longrightarrow> n + int (length (concat cs)) \<le> limit)"
  by (induction limit n acc cs rule: collect_body.induct) (auto split: if_splits)

lemma receive_Inr:
  "receive limit reply = Inr b \<longleftrightarrow>
     (\<exists>chunks. reply = HttpResponse 200 chunks StreamEnd \<and> collect_body limit 0 [] chunks = Some b)"
  by (auto simp: receive_def split: http_reply.splits option.splits stream_end.splits)

subsection \<open>Properties\<close>

lemma exchange_Inr:
  assumes "exchange uc num send loads elapsed be m t ms = Inr r"
  obtains body bytes result where "receive (be_max_response be) (send body) = Inr bytes"
    and "parse_reply uc loads bytes = Inr result" and "int (length result) \<le> be_max_output be"
    and "r = \<lparr>re_text = py_strip uc result, re_latency_ms = Fin elapsed\<rparr>"
    and "int (utf8_len body) \<le> be_max_request be"
  using assms unfolding exchange_def Let_def by (auto simp: res_bind_eq_Inr split: if_splits)

lemma backend_translate_Inr:
  "backend_translate uc num send loads elapsed be source l1 l2 scs tcs gl model temp = Inr r \<Longrightarrow>
     \<exists>m t ms. exchange uc num send loads elapsed be m t ms = Inr r"
  unfolding backend_translate_def Let_def by (simp add: res_bind_eq_Inr split: if_splits) blast

lemma reply_content_Inr:
  "reply_content uc m = Inr result \<Longrightarrow> py_strip uc result \<noteq> [] \<and> \<not> list_ex is_surrogate result"
  by (simp add: reply_content_def split: option.splits json.splits if_splits)

lemma parse_reply_Inr:
  assumes "parse_reply uc loads bytes = Inr result"
  shows "py_strip uc result \<noteq> [] \<and> \<not> list_ex is_surrogate result"
proof -
  obtain m where "reply_content uc m = Inr result"
    using assms unfolding parse_reply_def by (simp add: res_bind_eq_Inr split: option.splits if_splits) blast
  then show ?thesis by (rule reply_content_Inr)
qed

text \<open>
  C34: A translation the backend returns is clean and bounded: the request stayed within the request
  limit, the answer was a complete 200 response within the response limit, and its text is nonempty,
  without surrounding white space and within the output limit.
\<close>

theorem backend_result_clean:
  assumes "backend_translate uc num send loads elapsed be source l1 l2 scs tcs gl model temp = Inr r"
  shows "re_text r \<noteq> [] \<and> int (length (re_text r)) \<le> be_max_output be
    \<and> \<not> u_isspace uc (hd (re_text r)) \<and> \<not> u_isspace uc (last (re_text r))
    \<and> (\<exists>body chunks. send body = HttpResponse 200 chunks StreamEnd \<and> int (utf8_len body) \<le> be_max_request be
         \<and> (chunks \<noteq> [] \<longrightarrow> int (length (concat chunks)) \<le> be_max_response be))"
proof -
  obtain body bytes result where *: "receive (be_max_response be) (send body) = Inr bytes"
    "parse_reply uc loads bytes = Inr result" "int (length result) \<le> be_max_output be"
    "r = \<lparr>re_text = py_strip uc result, re_latency_ms = Fin elapsed\<rparr>" "int (utf8_len body) \<le> be_max_request be"
    using backend_translate_Inr [OF assms] by (auto elim: exchange_Inr)
  obtain chunks where c: "send body = HttpResponse 200 chunks StreamEnd"
    "collect_body (be_max_response be) 0 [] chunks = Some bytes"
    using *(1) by (auto simp: receive_Inr)
  have "chunks \<noteq> [] \<longrightarrow> int (length (concat chunks)) \<le> be_max_response be"
    using collect_body_spec [OF c(2)] by simp
  moreover have "re_text r \<noteq> []" using parse_reply_Inr [OF *(2)] *(4) by simp
  moreover have "int (length (re_text r)) \<le> be_max_output be"
    using *(3,4) length_strip [of uc result] by simp
  ultimately show ?thesis using strip_ends [of uc result] *(4,5) c(1) by auto
qed

definition sample_backend :: backend where
  "sample_backend = (case new_backend ascii_db \<lparr>bu_scheme = lit ''http'', bu_host = lit ''h'', bu_userinfo = [],
       bu_query = [], bu_fragment = [], bu_path = lit ''/v1/''\<rparr> (lit ''m'') False None (Fin 30) 24000 16000 262144 262144
       2048 (Fin 0) of Inr be \<Rightarrow> be | Inl _ \<Rightarrow> undefined)"

definition sample_packet :: json where
  "sample_packet = JObj [(lit ''choices'', JList [JObj [(lit ''finish_reason'', JStr (lit ''stop'')),
     (lit ''message'', JObj [(lit ''content'', JStr (lit '' na ''))])]])]"

definition sample_messages :: "(role \<times> ustring) list" where
  "sample_messages = (case build_translation_messages ascii_db 24000 (lit ''I'') (lit ''en'') (lit ''ko'') [] [] []
     of Inr ms \<Rightarrow> ms | Inl _ \<Rightarrow> [])"

definition sample_body :: ustring where
  "sample_body = dump_json (\<lambda>q. lit ''0'') (payload sample_backend (lit ''m'') 0 sample_messages)"

definition sample_reply :: "translation_result res" where
  "sample_reply = backend_translate ascii_db (\<lambda>q. lit ''0'') (\<lambda>body. HttpResponse 200 [[1], [2, 3]] StreamEnd)
     (\<lambda>bytes. Some sample_packet) 5 sample_backend (lit ''I'') (lit ''en'') (lit ''ko'') [] [] [] None None"

text \<open>Texts of ASCII characters only.\<close>

definition narrow :: "ustring \<Rightarrow> bool" where
  "narrow s \<longleftrightarrow> (\<forall>c \<in> set s. c < 128)"

lemma narrow_simps [simp]:
  "narrow []" "narrow (c # s) \<longleftrightarrow> c < 128 \<and> narrow s" "narrow (s @ t) \<longleftrightarrow> narrow s \<and> narrow t"
  by (auto simp: narrow_def)

lemma narrow_surrogate: "narrow s \<Longrightarrow> \<not> list_ex is_surrogate s"
  by (induction s) (auto simp: is_surrogate_def)

lemma narrow_utf8: "narrow s \<Longrightarrow> utf8_len s = length s"
  by (induction s) (auto simp: utf8_len_def utf8_width_def)

lemma narrow_of_utf8: "utf8_len s = length s \<Longrightarrow> narrow s"
proof (induction s)
  case (Cons c s)
  have "length s \<le> utf8_len s" by (rule length_le_utf8_len)
  then have "utf8_width c = 1" "utf8_len s = length s"
    using Cons.prems by (auto simp: utf8_len_def utf8_width_def split: if_splits)
  then show ?case using Cons.IH by (auto simp: utf8_width_def split: if_splits)
qed simp

lemma narrow_escape: "narrow (escape_char c) \<longleftrightarrow> c < 128" "length (escape_char c) \<le> 6"
  by (auto simp: escape_char_def hex_digit_def)

lemma narrow_dump: "narrow (dump_string s) \<longleftrightarrow> narrow s" "length (dump_string s) \<le> 6 * length s + 2"
proof -
  have "narrow (concat (map escape_char s)) \<longleftrightarrow> narrow s" by (induction s) (auto simp: narrow_escape)
  then show "narrow (dump_string s) \<longleftrightarrow> narrow s" by (simp add: dump_string_def)
  have "length (concat (map escape_char s)) \<le> 6 * length s"
  proof (induction s)
    case (Cons c s)
    then show ?case using narrow_escape(2) [of c] by simp
  qed simp
  then show "length (dump_string s) \<le> 6 * length s + 2" by (simp add: dump_string_def)
qed

lemma sample_messages_built:
  "build_translation_messages ascii_db 24000 (lit ''I'') (lit ''en'') (lit ''ko'') [] [] [] = Inr sample_messages"
proof -
  have "(case build_translation_messages ascii_db 24000 (lit ''I'') (lit ''en'') (lit ''ko'') [] [] []
     of Inr ms \<Rightarrow> True | Inl _ \<Rightarrow> False)" by code_simp
  then show ?thesis by (auto simp: sample_messages_def split: sum.splits)
qed

lemma sample_backend_facts:
  "be_closed sample_backend = False \<and> be_model sample_backend = lit ''m'' \<and> be_temperature sample_backend = 0
     \<and> be_max_input sample_backend = 24000 \<and> be_max_request sample_backend = 262144
     \<and> be_max_response sample_backend = 262144 \<and> be_max_output sample_backend = 16000
     \<and> validate_model ascii_db (lit ''m'') = Inr () \<and> validate_temperature (Fin 0) = Inr ()"
  by code_simp

lemma sample_body_facts: "narrow sample_body \<and> length sample_body < 262144"
proof -
  obtain raw where raw: "sample_messages = [(SystemRole, system_prompt), (UserRole, raw)]" "length raw \<le> 24000"
    using prompt_roundtrip_built [OF sample_messages_built] by blast
  have "utf8_len (snd (sample_messages ! 1)) = length (snd (sample_messages ! 1))" by code_simp
  then have nr: "narrow raw" unfolding raw(1) by (intro narrow_of_utf8) simp
  have "utf8_len system_prompt = length system_prompt \<and> length system_prompt < 2000" by code_simp
  then have ns: "narrow system_prompt" "length system_prompt < 2000" using narrow_of_utf8 by auto
  have d: "narrow (dump_string raw)" "length (dump_string raw) \<le> 6 * length raw + 2"
    "narrow (dump_string system_prompt)" "length (dump_string system_prompt) \<le> 6 * length system_prompt + 2"
    using nr ns narrow_dump by auto
  define x where "x = dump_string raw"
  define y where "y = dump_string system_prompt"
  have body: "sample_body = lit ''{\"model\":\"m\",\"messages\":[{\"role\":\"system\",\"content\":'' @ y
      @ lit ''},{\"role\":\"user\",\"content\":'' @ x @ lit ''}],\"temperature\":0,\"max_tokens\":0,\"stream\":false}''"
    unfolding sample_body_def raw(1) x_def y_def
    by (simp add: payload_def role_text_def py_join_def float_text_def) (simp add: dump_string_def lit_def escape_char_def)
  show ?thesis using d ns(2) raw(2) unfolding body x_def [symmetric] y_def [symmetric]
    by (simp add: lit_def)
qed

lemma sample_reply_result: "sample_reply = Inr \<lparr>re_text = lit ''na'', re_latency_ms = Fin 5\<rparr>"
proof -
  have p: "parse_reply ascii_db (\<lambda>bytes. Some sample_packet) [1, 2, 3] = Inr (lit '' na '')"
    "py_strip ascii_db (lit '' na '') = lit ''na''" "int (length (lit '' na '')) \<le> 16000" by code_simp+
  have r: "receive 262144 (HttpResponse 200 [[1], [2, 3]] StreamEnd) = Inr [1, 2, 3]" by code_simp
  have "\<not> list_ex is_surrogate sample_body" "utf8_len sample_body = length sample_body"
    using sample_body_facts narrow_surrogate narrow_utf8 by blast+
  then show ?thesis
    using sample_backend_facts sample_messages_built sample_body_facts p r
    by (simp add: sample_reply_def backend_translate_def exchange_def sample_body_def [symmetric] Let_def)
qed

lemma backend_result_clean_witness:
  "\<exists>r. sample_reply = Inr r \<and> re_text r = lit ''na'' \<and> int (length (re_text r)) \<le> 16000"
  using backend_result_clean [OF sample_reply_result [unfolded sample_reply_def]] sample_reply_result sample_backend_facts
  by auto

subsection \<open>Failures\<close>

definition transport_codes :: "string list" where
  "transport_codes = [''timeout'', ''transport_error'', ''upstream_http_error'', ''rate_limited'',
     ''invalid_response'', ''incomplete_response'', ''response_too_large'', ''output_too_large'']"

definition input_codes :: "string list" where
  "input_codes = [''backend_closed'', ''invalid_model'', ''invalid_temperature'', ''invalid_language'',
     ''invalid_glossary'', ''invalid_input'', ''input_too_large'', ''invalid_context'']"

definition input_failure :: "py_error \<Rightarrow> bool" where
  "input_failure e \<longleftrightarrow> (\<exists>code \<in> set input_codes. e = prompt_error code)"

lemma res_bind_Inl_iff: "res_bind m f = Inl e \<longleftrightarrow> m = Inl e \<or> (\<exists>x. m = Inr x \<and> f x = Inl e)"
  by (cases m) auto

lemma res_map_Inl: "res_map f xs = Inl e \<Longrightarrow> \<exists>x \<in> set xs. f x = Inl e"
  by (induction xs) (auto simp: res_bind_Inl_iff)

lemma prompt_text_failure: "prompt_text uc limit s = Inl e \<Longrightarrow> input_failure e"
  by (auto simp: prompt_text_def input_failure_def input_codes_def split: if_splits)

lemma prompt_context_failure: "prompt_context uc limit vs = Inl e \<Longrightarrow> input_failure e"
  using prompt_text_failure
  by (auto simp: prompt_context_def dest!: res_map_Inl split: if_splits)
     (auto simp: input_failure_def input_codes_def)

lemma prompt_term_failure: "prompt_term uc p = Inl e \<Longrightarrow> input_failure e"
  by (auto simp: prompt_term_def res_bind_Inl_iff dest: prompt_text_failure)

lemma build_failure:
  "build_translation_messages uc n source l1 l2 scs tcs gl = Inl e \<Longrightarrow> input_failure e"
  unfolding build_translation_messages_def Let_def
  by (auto simp: res_bind_Inl_iff dest!: res_map_Inl
      intro: prompt_text_failure prompt_context_failure prompt_term_failure split: if_splits)
     (auto simp: input_failure_def input_codes_def)

lemma validate_failure:
  "validate_model uc m = Inl e \<Longrightarrow> input_failure e" "validate_temperature t = Inl e \<Longrightarrow> input_failure e"
  by (auto simp: validate_model_def validate_temperature_def input_failure_def input_codes_def split: if_splits)

lemma reply_failure:
  "reply_choice packet = Inl e \<Longrightarrow> e = invalid_response"
  "reply_message choice = Inl e \<Longrightarrow> e = invalid_response \<or> e = prompt_error ''incomplete_response''"
  "reply_content uc m = Inl e \<Longrightarrow> e = invalid_response"
  by (simp_all add: reply_choice_def reply_message_def reply_content_def
      split: option.splits json.splits list.splits if_splits)

lemma parse_reply_failure:
  assumes "parse_reply uc loads bytes = Inl e"
  shows "e = invalid_response \<or> e = prompt_error ''incomplete_response''"
proof (cases "loads bytes")
  case (Some packet)
  then show ?thesis
    using assms reply_failure by (auto simp: parse_reply_def res_bind_Inl_iff simp del: not_None_eq split: if_splits)
qed (use assms in \<open>simp add: parse_reply_def\<close>)

lemma receive_failure:
  assumes "receive limit reply = Inl e"
  shows "e = TranslationError ''timeout'' True \<or> e = TranslationError ''transport_error'' True
      \<or> e = prompt_error ''response_too_large''
      \<or> (\<exists>status chunks ending. reply = HttpResponse status chunks ending
           \<and> e = TranslationError (if status = 429 then ''rate_limited'' else ''upstream_http_error'')
                    (status = 408 \<or> status = 429 \<or> 500 \<le> status))"
proof (cases reply)
  case (HttpResponse status chunks ending)
  show ?thesis
  proof (cases "status = 200")
    case True
    then show ?thesis using assms HttpResponse
      by (simp add: receive_def split: option.splits stream_end.splits)
  next
    case False
    then show ?thesis using assms HttpResponse by (simp add: receive_def)
  qed
qed (use assms in \<open>simp_all add: receive_def\<close>)

lemma exchange_Inl:
  assumes "exchange uc num send loads elapsed be m t ms = Inl e"
  shows "e = ValueError ''surrogates not allowed'' \<or> e = prompt_error ''input_too_large''
    \<or> e = prompt_error ''output_too_large'' \<or> (\<exists>body. receive (be_max_response be) (send body) = Inl e)
    \<or> (\<exists>bytes. parse_reply uc loads bytes = Inl e)"
  using assms unfolding exchange_def Let_def by (auto simp: res_bind_Inl_iff split: if_splits)

text \<open>What a failure may be, given what the client does with a request.\<close>

definition closed_failure :: "(ustring \<Rightarrow> http_reply) \<Rightarrow> py_error \<Rightarrow> bool" where
  "closed_failure send e \<longleftrightarrow> e = ValueError ''surrogates not allowed''
    \<or> (\<exists>code retry. e = TranslationError code retry \<and> code \<in> set input_codes \<union> set transport_codes
         \<and> (code \<in> {''timeout'', ''transport_error'', ''rate_limited''} \<longrightarrow> retry)
         \<and> (retry \<longrightarrow> code \<in> {''timeout'', ''transport_error'', ''rate_limited''}
              \<or> code = ''upstream_http_error'' \<and> (\<exists>body status chunks ending.
                   send body = HttpResponse status chunks ending \<and> (status = 408 \<or> 500 \<le> status))))"

lemma final_codes:
  "list_all (\<lambda>c. c \<notin> set [''timeout'', ''transport_error'', ''rate_limited''])
     (input_codes @ [''invalid_response'', ''incomplete_response'', ''response_too_large'', ''output_too_large''])"
  by code_simp

lemma closed_final:
  assumes "code \<in> set input_codes \<union> set transport_codes"
    and "code \<notin> set [''timeout'', ''transport_error'', ''rate_limited'']"
  shows "closed_failure send (prompt_error code)"
  unfolding closed_failure_def prompt_error_def
  by (rule disjI2, rule exI [of _ code], rule exI [of _ False]) (use assms in auto)

lemma closed_input: assumes "input_failure e" shows "closed_failure send e"
proof -
  obtain code where c: "code \<in> set input_codes" "e = prompt_error code" using assms by (auto simp: input_failure_def)
  have "code \<notin> set [''timeout'', ''transport_error'', ''rate_limited'']"
    using final_codes c(1) by (simp only: list_all_iff set_append) blast
  then show ?thesis unfolding c(2) using c(1) by (intro closed_final) blast
qed

lemma closed_answer:
  assumes c: "code \<in> set [''invalid_response'', ''incomplete_response'', ''response_too_large'', ''output_too_large'']"
  shows "closed_failure send (prompt_error code)"
proof (rule closed_final)
  have "list_all (\<lambda>c. c \<in> set transport_codes)
     [''invalid_response'', ''incomplete_response'', ''response_too_large'', ''output_too_large'']" by code_simp
  then show "code \<in> set input_codes \<union> set transport_codes" using c by (simp only: list_all_iff) blast
  show "code \<notin> set [''timeout'', ''transport_error'', ''rate_limited'']"
    using final_codes c by (simp only: list_all_iff set_append) blast
qed

lemma closed_retry:
  assumes "code \<in> set [''timeout'', ''transport_error'', ''rate_limited'']"
  shows "closed_failure send (TranslationError code True)"
proof -
  have "list_all (\<lambda>c. c \<in> set transport_codes) [''timeout'', ''transport_error'', ''rate_limited'']" by code_simp
  then have in_set: "code \<in> set transport_codes" using assms by (simp only: list_all_iff)
  show ?thesis unfolding closed_failure_def
    by (rule disjI2, rule exI [of _ code], rule exI [of _ True]) (use assms in_set in auto)
qed

lemma closed_status:
  assumes "send body = HttpResponse status chunks ending" and "retry \<longrightarrow> status = 408 \<or> 500 \<le> status"
  shows "closed_failure send (TranslationError ''upstream_http_error'' retry)"
  unfolding closed_failure_def
  by (rule disjI2, rule exI [of _ "''upstream_http_error''"], rule exI [of _ retry])
     (use assms in \<open>auto simp: transport_codes_def\<close>)

lemma closed_transport: assumes "receive n (send body) = Inl e" shows "closed_failure send e"
  using receive_failure [OF assms]
proof (elim disjE exE conjE)
  fix status chunks ending
  assume r: "send body = HttpResponse status chunks ending"
    and e: "e = TranslationError (if status = 429 then ''rate_limited'' else ''upstream_http_error'')
                  (status = 408 \<or> status = 429 \<or> 500 \<le> status)"
  show ?thesis
  proof (cases "status = 429")
    case True
    then show ?thesis using e closed_retry [of "''rate_limited''" send] by simp
  next
    case False
    then show ?thesis using e closed_status [where send = send, OF r, of "status = 408 \<or> 500 \<le> status"] by simp
  qed
next
  assume "e = prompt_error ''response_too_large''"
  then show ?thesis using closed_answer [of "''response_too_large''" send] by simp
next
  assume "e = TranslationError ''timeout'' True"
  then show ?thesis using closed_retry [of "''timeout''" send] by simp
next
  assume "e = TranslationError ''transport_error'' True"
  then show ?thesis using closed_retry [of "''transport_error''" send] by simp
qed

lemma closed_exchange:
  assumes "exchange uc num send loads elapsed be m t ms = Inl e" shows "closed_failure send e"
  using exchange_Inl [OF assms]
proof (elim disjE exE)
  assume "e = ValueError ''surrogates not allowed''"
  then show ?thesis by (simp add: closed_failure_def)
next
  assume "e = prompt_error ''input_too_large''"
  then show ?thesis by (intro closed_input) (simp add: input_failure_def input_codes_def)
next
  assume "e = prompt_error ''output_too_large''"
  then show ?thesis using closed_answer [of "''output_too_large''"] by simp
next
  fix bytes assume "parse_reply uc loads bytes = Inl e"
  from parse_reply_failure [OF this] show ?thesis
    using closed_answer [of "''invalid_response''"] closed_answer [of "''incomplete_response''"]
    by (elim disjE) (simp_all add: invalid_response_def)
qed (rule closed_transport)

lemma backend_translate_closed:
  assumes "backend_translate uc num send loads elapsed be source l1 l2 scs tcs gl model temp = Inl e"
  shows "closed_failure send e"
proof (cases "be_closed be")
  case True
  then show ?thesis
    using assms by (intro closed_input) (simp add: backend_translate_def input_failure_def input_codes_def)
next
  case False
  define m where "m = (case model of None \<Rightarrow> be_model be | Some x \<Rightarrow> x)"
  define t where "t = (case temp of None \<Rightarrow> Fin (be_temperature be) | Some x \<Rightarrow> x)"
  have "validate_model uc m = Inl e \<or> validate_temperature t = Inl e
    \<or> build_translation_messages uc (nat (be_max_input be)) source l1 l2 scs tcs gl = Inl e
    \<or> (\<exists>ms. exchange uc num send loads elapsed be m t ms = Inl e)"
    using assms False unfolding backend_translate_def Let_def m_def [symmetric] t_def [symmetric]
    by (simp only: res_bind_Inl_iff if_False) blast
  then show ?thesis
    by (elim disjE exE) (blast intro: closed_input closed_exchange validate_failure build_failure)+
qed

text \<open>
  C35: Every failure of a translation carries one code of a closed set, never text of the upstream or
  of the client; it is marked for a retry only after a time-out, a transport error or an HTTP status
  408, 429 or 5xx, and always after the first two and 429. The one other exception is the encoding
  error of a lone surrogate in the model name.
\<close>

theorem backend_failure_closed:
  assumes "backend_translate uc num send loads elapsed be source l1 l2 scs tcs gl model temp = Inl e"
  shows "e = ValueError ''surrogates not allowed''
    \<or> (\<exists>code retry. e = TranslationError code retry \<and> code \<in> set input_codes \<union> set transport_codes
         \<and> (code \<in> {''timeout'', ''transport_error'', ''rate_limited''} \<longrightarrow> retry)
         \<and> (retry \<longrightarrow> code \<in> {''timeout'', ''transport_error'', ''rate_limited''}
              \<or> code = ''upstream_http_error'' \<and> (\<exists>body status chunks ending.
                   send body = HttpResponse status chunks ending \<and> (status = 408 \<or> 500 \<le> status))))"
  using backend_translate_closed [OF assms] unfolding closed_failure_def .

definition sample_refusal :: "translation_result res" where
  "sample_refusal = backend_translate ascii_db (\<lambda>q. lit ''0'') (\<lambda>body. HttpResponse 503 [] StreamEnd)
     (\<lambda>bytes. None) 5 sample_backend (lit ''I'') (lit ''en'') (lit ''ko'') [] [] [] None None"

lemma sample_refusal_result: "sample_refusal = Inl (TranslationError ''upstream_http_error'' True)"
proof -
  have r: "receive 262144 (HttpResponse 503 [] StreamEnd) = Inl (TranslationError ''upstream_http_error'' True)"
    by code_simp
  have "\<not> list_ex is_surrogate sample_body" "utf8_len sample_body = length sample_body"
    using sample_body_facts narrow_surrogate narrow_utf8 by blast+
  then show ?thesis
    using sample_backend_facts sample_messages_built sample_body_facts r
    by (simp add: sample_refusal_def backend_translate_def exchange_def sample_body_def [symmetric] Let_def)
qed

lemma backend_failure_closed_witness:
  "sample_refusal = Inl (TranslationError ''upstream_http_error'' True)
   \<and> ''upstream_http_error'' \<in> set input_codes \<union> set transport_codes"
  using backend_failure_closed [OF sample_refusal_result [unfolded sample_refusal_def]] sample_refusal_result
  by auto

end
