(* ===== verification/Gateway.thy ===== *)
theory Gateway
  imports SessionManager SessionLive OpenAIBackend
begin

text \<open>
  Model of \<^verbatim>\<open>src/app/api\<close> (\<open>auth.py\<close>, \<open>health.py\<close>, \<open>sessions.py\<close>, \<open>websocket.py\<close>) and of the request
  limits and start-up of \<^verbatim>\<open>src/app/main.py\<close>. FastAPI's routing, pydantic's reading of a JSON object into
  a message and \<open>json.loads\<close> are arguments: \<open>loads\<close> parses a frame (\<open>None\<close>: \<open>JSONDecodeError\<close>), the
  record \<open>readers\<close> turns an object into the fields of a message (\<open>None\<close>: \<open>ValidationError\<close>), which the
  validators of the wire schema then check. \<open>frame_bytes\<close> is the size of an encoded event.
\<close>

subsection \<open>Authentication\<close>

definition bearer :: "unidb \<Rightarrow> ustring option \<Rightarrow> ustring" where
  "bearer uc header =
     (case header of
        None \<Rightarrow> []
      | Some v \<Rightarrow>
          if v = [] \<or> length v > 512 then []
          else
            (let scheme = takeWhile (\<lambda>c. c \<noteq> 32) v;
                 token = tl (dropWhile (\<lambda>c. c \<noteq> 32) v)
             in if py_lower uc scheme = lit ''bearer'' then token else []))"

text \<open>A response status with its detail, or the value of the route.\<close>

type_synonym 'a http = "(int \<times> string) + 'a"

definition require_admin :: "unidb \<Rightarrow> ustring \<Rightarrow> ustring option \<Rightarrow> unit http" where
  "require_admin uc expected header =
     (let supplied = bearer uc header
      in if supplied = [] \<or> supplied \<noteq> expected then Inl (401, ''Authentication required'') else Inr ())"

definition require_session ::
    "unidb \<Rightarrow> (ustring \<Rightarrow> ustring) \<Rightarrow> ustring \<Rightarrow> ustring option \<Rightarrow> manager \<Rightarrow> session http" where
  "require_session uc digest sid header mg =
     (case authorized digest sid (bearer uc header) mg of
        None \<Rightarrow> Inl (404, ''Session not found'')
      | Some s \<Rightarrow> Inr s)"

subsection \<open>Session routes\<close>

definition route_create ::
    "unidb \<Rightarrow> (ustring \<Rightarrow> ustring) \<Rightarrow> ustring \<Rightarrow> ustring option \<Rightarrow> rat \<Rightarrow> ustring \<Rightarrow> ustring \<Rightarrow> session_config
       \<Rightarrow> manager \<Rightarrow> manager \<times> (ustring \<times> ustring \<times> ustring) http" where
  "route_create uc digest admin_key header now token sid co mg =
     (case require_admin uc admin_key header of
        Inl e \<Rightarrow> (mg, Inl e)
      | Inr _ \<Rightarrow>
          (case create_entry uc digest now token sid co mg of
             (mg1, Inl (ValueError code)) \<Rightarrow>
               (mg1, Inl (if code = ''SESSION_CAPACITY'' then 429 else 422, code))
           | (mg1, Inl _) \<Rightarrow> (mg1, Inl (500, ''Internal Server Error''))
           | (mg1, Inr _) \<Rightarrow> (mg1, Inr (sid, token, lit ''/ws/translate/'' @ sid))))"

definition route_get ::
    "unidb \<Rightarrow> (ustring \<Rightarrow> ustring) \<Rightarrow> (snapshot \<Rightarrow> int) \<Rightarrow> rat \<Rightarrow> ustring \<Rightarrow> ustring option \<Rightarrow> manager
       \<Rightarrow> manager \<times> snapshot http" where
  "route_get uc digest snapshot_bytes now sid header mg =
     (case require_session uc digest sid header mg of
        Inl e \<Rightarrow> (mg, Inl e)
      | Inr s \<Rightarrow>
          (let mg1 = run_session sid (touch now) mg;
               sn = snapshot_of uc (touch now s)
           in if snapshot_bytes sn > se_max_snapshot_bytes (ss_settings s)
              then (mg1, Inl (413, ''Snapshot limit reached; reset or start a new session''))
              else (mg1, Inr sn)))"

definition route_delete ::
    "unidb \<Rightarrow> (ustring \<Rightarrow> ustring) \<Rightarrow> ustring \<Rightarrow> ustring option \<Rightarrow> manager \<Rightarrow> manager \<times> unit http" where
  "route_delete uc digest sid header mg =
     (case require_session uc digest sid header mg of
        Inl e \<Rightarrow> (mg, Inl e)
      | Inr _ \<Rightarrow> (delete_entry sid mg, Inr ()))"

text \<open>The entries are those of a request body that FastAPI has validated; a bad body is answered 422 before.\<close>

definition route_glossary ::
    "unidb \<Rightarrow> (ustring \<Rightarrow> ustring) \<Rightarrow> rat \<Rightarrow> ustring \<Rightarrow> ustring option \<Rightarrow> glossary \<Rightarrow> manager
       \<Rightarrow> manager \<times> nat http" where
  "route_glossary uc digest now sid header entries mg =
     (case require_session uc digest sid header mg of
        Inl e \<Rightarrow> (mg, Inl e)
      | Inr s \<Rightarrow>
          (case set_glossary uc now entries s of
             (_, Inl (ValueError code)) \<Rightarrow> (mg, Inl (422, code))
           | (_, Inl _) \<Rightarrow> (mg, Inl (500, ''Internal Server Error''))
           | (t, Inr _) \<Rightarrow>
               (run_session sid (\<lambda>x. fst (set_glossary uc now entries x)) mg, Inr (length (ss_glossary t)))))"

text \<open>\<open>/metrics\<close>: three gauges are refreshed; the text of the exposition is not modelled.\<close>

definition route_metrics :: "unidb \<Rightarrow> ustring \<Rightarrow> ustring option \<Rightarrow> manager \<Rightarrow> manager \<times> unit http" where
  "route_metrics uc admin_key header mg =
     (case require_admin uc admin_key header of
        Inl e \<Rightarrow> (mg, Inl e)
      | Inr _ \<Rightarrow>
          (let sh = mg_sched mg;
               m1 = metrics_gauge (sh_metrics sh) ''active_workers'' (of_nat (active_count sh));
               m2 = metrics_gauge m1 ''queued_jobs'' (of_nat (pending_count sh));
               m3 = metrics_gauge m2 ''worker_utilization'' (of_nat (active_count sh) / of_int (sh_workers sh))
           in (mg\<lparr>mg_sched := sh\<lparr>sh_metrics := m3\<rparr>\<rparr>, Inr ())))"

subsection \<open>Request bodies and start-up\<close>

datatype http_method = GET | POST | PUT | PATCH | DELETE | OtherMethod

text \<open>\<open>bounded_body\<close>: the chunks that arrive within the time limit, and whether the limit was hit.\<close>

fun body_loop :: "int \<Rightarrow> int \<Rightarrow> nat list \<Rightarrow> nat list list \<Rightarrow> nat list option" where
  "body_loop limit n acc [] = Some acc"
| "body_loop limit n acc (c # cs) =
     (if n + int (length c) > limit then None else body_loop limit (n + int (length c)) (acc @ c) cs)"

definition bounded_body :: "int \<Rightarrow> http_method \<Rightarrow> nat list list \<Rightarrow> bool \<Rightarrow> nat list option http" where
  "bounded_body limit m chunks timed_out =
     (if m \<in> set [POST, PUT, PATCH]
      then
        (case body_loop limit 0 [] chunks of
           None \<Rightarrow> Inl (413, ''Request body too large'')
         | Some body \<Rightarrow> if timed_out then Inl (408, ''Request body timed out'') else Inr (Some body))
      else Inr None)"

definition start_application :: "ustring \<Rightarrow> settings \<Rightarrow> manager res" where
  "start_application api_key st =
     (if length api_key < 24
        then Inl (RuntimeError ''Set STREAMING_API_KEY to a random secret of at least 24 characters before starting'')
      else
        res_bind (new_scheduler (se_translation_workers st) (se_max_pending_jobs st)
                    (se_max_pending_per_session st) empty_metrics)
          (\<lambda>sh. case sched_start sh of
             (sh1, Inl e) \<Rightarrow> Inl e
           | (sh1, Inr _) \<Rightarrow> Inr (start_cleanup (new_manager st sh1))))"

definition stop_application :: "manager \<Rightarrow> manager" where
  "stop_application mg =
     (let mg1 = close_manager mg in mg1\<lparr>mg_sched := close_scheduler (mg_sched mg1)\<rparr>)"

subsection \<open>The WebSocket: first frame\<close>

datatype packet = TextFrame ustring | BinaryFrame | DisconnectFrame

text \<open>\<open>Inl code\<close>: the socket is closed with that code before a session is attached.\<close>

definition first_token :: "(ustring \<Rightarrow> json option) \<Rightarrow> packet option \<Rightarrow> int + ustring" where
  "first_token loads first =
     (case first of
        Some (TextFrame raw) \<Rightarrow>
          if utf8_len raw > 1024 then Inl 1008
          else
            (case loads raw of
               Some (JObj ps) \<Rightarrow>
                 if set (map fst ps) \<noteq> {lit ''type'', lit ''token''} then Inl 1008
                 else
                   (case (field ''type'' ps, field ''token'' ps) of
                      (Some (JStr t), Some (JStr token)) \<Rightarrow>
                        if t = lit ''authenticate'' then Inr token else Inl 1008
                    | _ \<Rightarrow> Inl 1008)
             | _ \<Rightarrow> Inl 1008)
      | _ \<Rightarrow> Inl 1008)"

datatype open_result = Opened | OpenClosed int | OpenRaised py_error

definition ws_open ::
    "unidb \<Rightarrow> (ustring \<Rightarrow> ustring) \<Rightarrow> (ustring \<Rightarrow> json option) \<Rightarrow> rat \<Rightarrow> ustring \<Rightarrow> ustring option
       \<Rightarrow> packet option \<Rightarrow> manager \<Rightarrow> manager \<times> open_result" where
  "ws_open uc digest loads now sid header first mg =
     (case (if bearer uc header = [] then first_token loads first else Inr (bearer uc header)) of
        Inl code \<Rightarrow> (mg, OpenClosed code)
      | Inr token \<Rightarrow>
          (case authorized digest sid token mg of
             None \<Rightarrow> (mg, OpenClosed 1008)
           | Some s \<Rightarrow>
               (run_session sid (\<lambda>x. fst (attach uc now x)) mg,
                case snd (attach uc now (s\<lparr>ss_sched := mg_sched mg\<rparr>)) of
                  Inr _ \<Rightarrow> Opened
                | Inl (ValueError _) \<Rightarrow> OpenClosed 1008
                | Inl e \<Rightarrow> OpenRaised e)))"

text \<open>The \<open>finally\<close> block of an attached socket.\<close>

definition ws_leave :: "ustring \<Rightarrow> manager \<Rightarrow> manager" where
  "ws_leave sid mg = run_session sid detach mg"

subsection \<open>The WebSocket: one frame of the receive loop\<close>

record readers =
  rd_event :: "json \<Rightarrow> asr_event option"
  rd_glossary :: "json \<Rightarrow> glossary option"
  rd_config :: "json \<Rightarrow> session_config option"

text \<open>\<open>{k: v for k, v in data.items() if k != "type"}\<close>\<close>

definition without_type :: "(ustring \<times> json) list \<Rightarrow> json" where
  "without_type ps = JObj (filter (\<lambda>p. fst p \<noteq> lit ''type'') ps)"

text \<open>How the \<open>try\<close> block of a frame ends: normally, with a schema error, or with another exception.\<close>

datatype frame_end = FrameDone | SchemaError | FrameRaised py_error

definition of_step :: "unit step \<Rightarrow> session \<times> frame_end" where
  "of_step m = (case m of (s, Inl e) \<Rightarrow> (s, FrameRaised e) | (s, Inr _) \<Rightarrow> (s, FrameDone))"

definition dispatch_frame ::
    "unidb \<Rightarrow> readers \<Rightarrow> rat \<Rightarrow> (ustring \<times> json) list \<Rightarrow> session \<Rightarrow> session \<times> frame_end" where
  "dispatch_frame uc rd now ps s =
     (let kind = field ''type'' ps
      in if kind = Some (JStr (lit ''asr_partial'')) \<or> kind = Some (JStr (lit ''asr_final''))
           then (case rd_event rd (JObj ps) of
                   None \<Rightarrow> (s, SchemaError)
                 | Some ev \<Rightarrow>
                     (case validate_asr_event uc ev of
                        Inl _ \<Rightarrow> (s, SchemaError)
                      | Inr ev1 \<Rightarrow> of_step (ingest uc None now now ev1 s)))
         else if kind = Some (JStr (lit ''glossary_update''))
           then (case rd_glossary rd (without_type ps) of
                   None \<Rightarrow> (s, SchemaError)
                 | Some g \<Rightarrow>
                     (case validate_glossary uc g of
                        Inl _ \<Rightarrow> (s, SchemaError)
                      | Inr g1 \<Rightarrow> of_step (andthen (set_glossary uc now g1 s) (\<lambda>t _.
                                   done_step (emit_snapshot uc now ''session_state'' t)))))
         else if kind = Some (JStr (lit ''session_config''))
           then (case rd_config rd (without_type ps) of
                   None \<Rightarrow> (s, SchemaError)
                 | Some co \<Rightarrow> if valid_config co then of_step (configure uc now co s) else (s, SchemaError))
         else if kind = Some (JStr (lit ''reset_context'')) \<and> map fst ps = [lit ''type'']
           then (reset uc now s, FrameDone)
         else if kind = Some (JStr (lit ''ping'')) \<and> map fst ps = [lit ''type'']
           then (let t = touch now s in (emit now (PongEvent (ss_last_sequence t)) t, FrameDone))
         else (s, FrameRaised (ValueError ''INVALID_MESSAGE'')))"

definition known_codes :: "string list" where
  "known_codes = [''STALE_SEQUENCE'', ''SOURCE_LIMIT'', ''SESSION_LIMIT'', ''LANGUAGE_MISMATCH'',
     ''SPEAKER_MISMATCH'', ''SESSION_MISMATCH'', ''CONFIG_REQUIRES_RESET'', ''MODEL_NOT_ALLOWED'',
     ''UNSUPPORTED_SOURCE_LANGUAGE'', ''GLOSSARY_LIMIT'', ''INVALID_MESSAGE'', ''FINAL_REQUIRES_FINAL'']"

datatype frame_flow = KeepOpen | CloseSocket int | Left | Broken py_error

text \<open>The \<open>except\<close> clauses of the frame; an exception that is no \<open>ValueError\<close> ends the connection.\<close>

definition frame_handled :: "rat \<Rightarrow> session \<times> frame_end \<Rightarrow> session \<times> frame_flow" where
  "frame_handled now r =
     (case r of
        (s, FrameDone) \<Rightarrow> (s, KeepOpen)
      | (s, SchemaError) \<Rightarrow>
          (emit_error now ''INVALID_MESSAGE'' ''Message does not match the bounded protocol schema'' s, KeepOpen)
      | (s, FrameRaised (ValueError code)) \<Rightarrow>
          (emit_error now (if code \<in> set known_codes then code else ''INVALID_MESSAGE'')
             ''Input rejected; state is preserved'' s, KeepOpen)
      | (s, FrameRaised e) \<Rightarrow> (s, Broken e))"

definition ws_frame ::
    "unidb \<Rightarrow> (ustring \<Rightarrow> json option) \<Rightarrow> readers \<Rightarrow> rat \<Rightarrow> packet \<Rightarrow> session \<Rightarrow> session \<times> frame_flow" where
  "ws_frame uc loads rd now p s =
     (case p of
        DisconnectFrame \<Rightarrow> (s, Left)
      | BinaryFrame \<Rightarrow>
          (emit_error now ''INVALID_MESSAGE'' ''Only UTF-8 JSON text frames are supported'' s, KeepOpen)
      | TextFrame raw \<Rightarrow>
          if int (utf8_len raw) > se_max_event_bytes (ss_settings s) then (s, CloseSocket 1009)
          else
            (case admit_event now s of
               (s1, False) \<Rightarrow> (emit_error now ''RATE_LIMIT'' ''Too many events; slow down input'' s1, KeepOpen)
             | (s1, True) \<Rightarrow>
                 frame_handled now
                   (case loads raw of
                      None \<Rightarrow> (s1, SchemaError)
                    | Some (JObj ps) \<Rightarrow> dispatch_frame uc rd now ps s1
                    | Some _ \<Rightarrow> (s1, FrameRaised (ValueError ''INVALID_MESSAGE'')))))"

subsection \<open>The WebSocket: the writer\<close>

datatype write_action = WriteWait | WriteClose int | WriteEvent out_event | WriteTooLarge

text \<open>One turn of \<open>send_messages\<close>: what is taken from the queue and what is done with it.\<close>

definition write_next :: "(out_event \<Rightarrow> int) \<Rightarrow> rat \<Rightarrow> session \<Rightarrow> session \<times> write_action" where
  "write_next frame_bytes now s =
     (case ss_queue s of
        None \<Rightarrow> (s, WriteWait)
      | Some [] \<Rightarrow> (s, WriteWait)
      | Some (None # q) \<Rightarrow> (s\<lparr>ss_queue := Some q\<rparr>, WriteClose 1013)
      | Some (Some (enqueued, e) # q) \<Rightarrow>
          (let s1 = metric_obs ''client_queue_wait_ms'' ((now - enqueued) * 1000) (s\<lparr>ss_queue := Some q\<rparr>)
           in if frame_bytes e > se_max_snapshot_bytes (ss_settings s) then (s1, WriteTooLarge)
              else (s1, WriteEvent e)))"

text \<open>After a successful write.\<close>

definition write_done :: "rat \<Rightarrow> rat \<Rightarrow> rat \<Rightarrow> out_event \<Rightarrow> session \<Rightarrow> session" where
  "write_done enqueued started now e s =
     (let s1 = metric_obs ''client_write_ms'' ((now - started) * 1000) s
      in case e of
           SnapshotEvent kind _ \<Rightarrow>
             if kind = ''translation_update'' then metric_obs ''model_result_to_client_ms'' ((now - enqueued) * 1000) s1
             else s1
         | _ \<Rightarrow> s1)"

end
