(* ===== verification/SessionProps.thy ===== *)
theory SessionProps
  imports SessionLive
begin

text \<open>
  Properties of a session (\<^verbatim>\<open>src/app/session/state.py\<close>) over its reachable states, and the concrete
  sessions that witness them: a scheduler, a connected session, and helpers that ingest a text or
  fire the last timer.
\<close>

subsection \<open>Sample sessions\<close>

definition sample_scheduler :: scheduler where
  "sample_scheduler = (case new_scheduler 4 128 16 empty_metrics of Inr sh \<Rightarrow> sh | Inl _ \<Rightarrow> undefined)"

definition sample_event :: "int \<Rightarrow> string \<Rightarrow> bool \<Rightarrow> asr_event" where
  "sample_event n t final = \<lparr>ev_type = AsrPartial, ev_session_id = None, ev_sequence = n, ev_text = lit t,
     ev_language = None, ev_target_language = None, ev_is_final = final, ev_timestamp = None,
     ev_tokens = [], ev_pause_ms = None, ev_speaker_id = None, ev_utterance_id = None\<rparr>"

definition sample_new :: session where
  "sample_new = fst (new_session ascii_db (lit ''S'') default_config default_settings sample_scheduler 0)"

definition sample_start :: session where
  "sample_start = fst (attach ascii_db 1 sample_new)"

definition hear :: "rat \<Rightarrow> int \<Rightarrow> string \<Rightarrow> bool \<Rightarrow> session \<Rightarrow> session" where
  "hear now n t final s = fst (ingest ascii_db None now now (sample_event n t final) s)"

definition wake :: "rat \<Rightarrow> session \<Rightarrow> session" where
  "wake now s = fire_timer ascii_db now now (last (ss_tasks s)) s"

definition pending_job :: "session \<Rightarrow> job" where
  "pending_job s = en_job (hd (snd (hd (sh_pending (ss_sched s)))))"

definition deliver :: "rat \<Rightarrow> string \<Rightarrow> session \<Rightarrow> session" where
  "deliver now t s = fst (result_handler ascii_db now (pending_job s)
     (Some \<lparr>re_text = lit t, re_latency_ms = Fin 1\<rparr>) None s)"

definition sample_heard :: session where
  "sample_heard = hear 2 0 ''We go.'' True sample_start"

definition sample_selected :: session where
  "sample_selected = wake 3 sample_heard"

definition sample_drafted :: session where
  "sample_drafted = deliver 4 ''na'' sample_selected"

definition sample_committed :: session where
  "sample_committed = wake 5 sample_drafted"

lemma sample_new_step:
  "new_session ascii_db (lit ''S'') default_config default_settings sample_scheduler 0 = (sample_new, Inr ())"
proof -
  have "snd (new_session ascii_db (lit ''S'') default_config default_settings sample_scheduler 0) = Inr ()"
    by code_simp
  then show ?thesis by (simp add: sample_new_def prod_eq_iff)
qed

lemma default_config_valid: "valid_config default_config"
  by code_simp

lemma reach_start: "session_reachable ascii_db default_settings sample_start"
  unfolding sample_start_def
  by (rule session_more [OF session_init [OF default_config_valid sample_new_step] step_attach])

lemma reach_hear:
  "session_reachable ascii_db default_settings s \<Longrightarrow> session_reachable ascii_db default_settings (hear now n t f s)"
  unfolding hear_def by (rule session_more [OF _ step_ingest])

lemma reach_wake:
  "session_reachable ascii_db default_settings s \<Longrightarrow> ss_tasks s \<noteq> [] \<Longrightarrow>
     session_reachable ascii_db default_settings (wake now s)"
  unfolding wake_def by (rule session_more [OF _ step_timer]) simp_all

lemma reach_deliver:
  "session_reachable ascii_db default_settings s \<Longrightarrow> session_reachable ascii_db default_settings (deliver now t s)"
  unfolding deliver_def by (rule session_more [OF _ step_result])

text \<open>The run is evaluated once, state by state.\<close>

lemma session_run_facts:
  "case (sample_heard, ()) of (a, _) \<Rightarrow> (ss_tasks a \<noteq> [] \<and> ss_last_sequence a = 0 \<and> ss_queue a \<noteq> None)
   \<and> (case (wake 3 a, ()) of (b, _) \<Rightarrow> (map sg_status (ss_segments b) = [SegRunning] \<and> ss_active b \<noteq> None
     \<and> (case map_of (ss_utterances b) (lit ''auto:1'') of None \<Rightarrow> False | Some u \<Rightarrow> ut_text u = lit ''We go.'')
     \<and> map sg_source (ss_segments b) = [lit ''We go.'']
     \<and> jb_generation (pending_job b) = GenInt (ss_generation b))
   \<and> (case (deliver 4 ''na'' b, ()) of (c, _) \<Rightarrow> (ss_tasks c \<noteq> [] \<and> map sg_translation (ss_segments c) = [lit ''na''])
   \<and> (case (wake 5 c, ()) of (d, _) \<Rightarrow> map sg_committed (ss_segments d) = [True]
     \<and> map sg_translation (ss_segments d) = [lit ''na''])))"
  by code_simp

lemmas session_facts = session_run_facts [unfolded prod.case, folded sample_selected_def,
  folded sample_drafted_def, folded sample_committed_def]

lemma heard_facts:
  "ss_tasks sample_heard \<noteq> [] \<and> ss_last_sequence sample_heard = 0 \<and> ss_queue sample_heard \<noteq> None"
  using session_facts by blast

lemma reach_heard: "session_reachable ascii_db default_settings sample_heard"
  unfolding sample_heard_def by (intro reach_hear reach_start)

lemma reach_selected: "session_reachable ascii_db default_settings sample_selected"
  unfolding sample_selected_def using heard_facts by (intro reach_wake reach_heard) simp

lemma selected_facts:
  "map sg_status (ss_segments sample_selected) = [SegRunning] \<and> ss_active sample_selected \<noteq> None
     \<and> (case map_of (ss_utterances sample_selected) (lit ''auto:1'') of None \<Rightarrow> False
        | Some u \<Rightarrow> ut_text u = lit ''We go.'')
     \<and> map sg_source (ss_segments sample_selected) = [lit ''We go.'']"
  using session_facts by blast

lemma reach_drafted: "session_reachable ascii_db default_settings sample_drafted"
  unfolding sample_drafted_def by (rule reach_deliver [OF reach_selected])

lemma drafted_facts: "ss_tasks sample_drafted \<noteq> [] \<and> map sg_translation (ss_segments sample_drafted) = [lit ''na'']"
  using session_facts by blast

lemma reach_committed: "session_reachable ascii_db default_settings sample_committed"
  unfolding sample_committed_def using drafted_facts by (intro reach_wake reach_drafted) simp

lemma committed_facts:
  "map sg_committed (ss_segments sample_committed) = [True]
     \<and> map sg_translation (ss_segments sample_committed) = [lit ''na'']"
  using session_facts by blast

subsection \<open>Source\<close>

lemma tiled_concat: "tiled t p ks q \<Longrightarrow> concat (map sk_source ks) = slice p q t"
proof (induction ks arbitrary: p)
  case Nil
  then show ?case by (simp add: slice_def)
next
  case (Cons k ks)
  have "slice p (sk_end k) t @ slice (sk_end k) q t = slice p q t"
    using Cons.prems tiled_le [of t "sk_end k" ks q] by (intro slice_append_slice) auto
  then show ?case using Cons by auto
qed

text \<open>
  C1: In every reachable session the segments of an utterance reproduce its selected source exactly:
  they are consecutive exact slices of the current text, starting at its beginning, and their
  concatenation followed by the unselected rest is the whole text. Revisions and rollbacks never
  lose, duplicate or reorder source.
\<close>

theorem session_source_lossless:
  assumes "session_reachable uc st s" and "map_of (ss_utterances s) uid = Some u"
  shows "concat (map sg_source (segments_of uid s)) @ drop (ut_selected_end u) (ut_text u) = ut_text u
    \<and> contiguous 0 (map segment_span (segments_of uid s))
    \<and> (\<forall>g \<in> set (segments_of uid s). sg_start g < sg_end g \<and> sg_end g \<le> ut_selected_end u
         \<and> sg_source g = slice (sg_start g) (sg_end g) (ut_text u))
    \<and> ut_selected_end u \<le> length (ut_text u)"
proof -
  have tl: "tiled (ut_text u) 0 (map key_of (segments_of uid s)) (ut_selected_end u)"
    using source_inv_reachable [OF assms(1)] assms(2) by (rule source_inv_tiled)
  have src: "tiled t p (map key_of gs) q \<Longrightarrow> g \<in> set gs \<Longrightarrow> sg_source g = slice (sg_start g) (sg_end g) t" for t p gs q g
    by (induction gs arbitrary: p) auto
  have "concat (map sg_source (segments_of uid s)) = take (ut_selected_end u) (ut_text u)"
    using tiled_concat [OF tl] by (simp add: o_def slice_zero)
  moreover have "sg_start g < sg_end g \<and> sg_end g \<le> ut_selected_end u
      \<and> sg_source g = slice (sg_start g) (sg_end g) (ut_text u)" if "g \<in> set (segments_of uid s)" for g
    using tiled_ends [OF tl, of "key_of g"] src [OF tl that] that by auto
  ultimately show ?thesis using tiled_contiguous [OF tl] tiled_le [OF tl] by simp
qed

lemma session_source_lossless_witness:
  "\<exists>u. map_of (ss_utterances sample_selected) (lit ''auto:1'') = Some u
     \<and> concat (map sg_source (segments_of (lit ''auto:1'') sample_selected)) @ drop (ut_selected_end u) (ut_text u)
         = lit ''We go.''"
proof -
  obtain u where u: "map_of (ss_utterances sample_selected) (lit ''auto:1'') = Some u" "ut_text u = lit ''We go.''"
    using selected_facts by (auto split: option.splits)
  show ?thesis using session_source_lossless [OF reach_selected u(1)] u by auto
qed

text \<open>
  C3: At most one translation of a session is in flight: in every reachable session a segment is
  running exactly when it is the active one, so the running segments number one if a segment is
  active and zero otherwise.
\<close>

theorem session_single_flight:
  assumes "session_reachable uc st s"
  shows "length (filter (\<lambda>g. sg_status g = SegRunning) (ss_segments s)) = (if ss_active s = None then 0 else 1)
    \<and> (\<forall>g \<in> set (ss_segments s). sg_status g = SegRunning \<longleftrightarrow> ss_active s = Some (sg_id g))"
proof -
  have ok: "session_ok s" using assms by (rule session_reachable_ok)
  have flight: "flight_inv s" using ok by (simp add: session_ok_def)
  have run: "\<forall>g \<in> set (ss_segments s). sg_status g = SegRunning \<longleftrightarrow> ss_active s = Some (sg_id g)"
  proof
    fix g assume "g \<in> set (ss_segments s)"
    then have "(sg_id g, running g) \<in> set (flags s)" by (simp add: flags_def image_iff) blast
    then show "sg_status g = SegRunning \<longleftrightarrow> ss_active s = Some (sg_id g)"
      using flight unfolding flight_inv_def running_def by fastforce
  qed
  have dist: "distinct (map sg_id (ss_segments s))"
    using ok flags_distinct [of s] by (simp add: session_ok_def flags_def o_def)
  have known: "ss_active s = Some a \<Longrightarrow> a \<in> set (map sg_id (ss_segments s))" for a
    using flight by (simp add: flight_inv_def flags_def image_image)
  have one: "length (filter (\<lambda>g. sg_id g = a) gs) = 1" if "distinct (map sg_id gs)" "a \<in> set (map sg_id gs)" for a gs
    using that
  proof (induction gs)
    case (Cons g gs)
    have "sg_id x \<noteq> sg_id g" if "x \<in> set gs" for x
      using that Cons.prems(1) by (metis distinct.simps(2) image_eqI list.simps(9) set_map)
    then show ?case using Cons by (cases "sg_id g = a") (auto simp: filter_empty_conv)
  qed simp
  have eq: "filter (\<lambda>g. sg_status g = SegRunning) (ss_segments s) = filter (\<lambda>g. ss_active s = Some (sg_id g)) (ss_segments s)"
    using run by (intro filter_cong) auto
  show ?thesis
  proof (cases "ss_active s")
    case (Some a)
    then have "filter (\<lambda>g. ss_active s = Some (sg_id g)) (ss_segments s) = filter (\<lambda>g. sg_id g = a) (ss_segments s)"
      by (intro filter_cong) auto
    then show ?thesis using run eq one [OF dist known [OF Some]] Some by simp
  qed (use run eq in simp)
qed

lemma session_single_flight_witness:
  "length (filter (\<lambda>g. sg_status g = SegRunning) (ss_segments sample_selected)) = 1"
  using session_single_flight [OF reach_selected] selected_facts by simp

subsection \<open>Translations\<close>

lemma keeps_steps:
  assumes "(session_step uc)\<^sup>*\<^sup>* s s'" and "keeps s s" "drafts_ok s" "session_ok s"
  shows "keeps s s' \<and> session_ok s'"
  using assms
proof (induction rule: rtranclp_induct)
  case (step y z)
  then show ?case using keeps_step session_ok_step by blast
qed simp

text \<open>
  C2: A committed translation is never changed: whatever events, timers, results, reconnections or
  resets follow, a later segment with the same identifier is still committed and carries the same
  translation.
\<close>

theorem committed_translation_kept:
  assumes reach: "session_reachable uc st s" and st: "settings_ok st" and steps: "(session_step uc)\<^sup>*\<^sup>* s s'"
    and g: "g \<in> set (ss_segments s)" "sg_committed g" and h: "h \<in> set (ss_segments s')" "sg_id h = sg_id g"
  shows "sg_committed h \<and> sg_translation h = sg_translation g"
proof -
  note inv = session_reachable_keeps [OF reach st]
  have k: "keeps s s'" using keeps_steps [OF steps] inv by blast
  have shape: "source_shape (sources s) (keys s) (ss_next_segment s)"
    using inv by (simp add: session_ok_def source_inv_def)
  have "key_of g \<in> set (keys s)" using g(1) by (auto simp: keys_def)
  then obtain i where i: "i \<le> ss_next_segment s" "sg_id g = segment_name i"
    using shape by (fastforce simp: source_shape_def)
  consider g' where "g' \<in> set (ss_segments s)" "advances g' h"
    | j where "j > ss_next_segment s" "sg_id h = segment_name j"
    using k h(1) by (auto simp: keeps_def evolves_def)
  then show ?thesis
  proof cases
    case 1
    have "distinct (map sg_id (ss_segments s))" using inv by (simp add: keeps_def)
    moreover have "sg_id g' = sg_id g" using 1(2) h(2) by (simp add: advances_def)
    ultimately have "g' = g" using 1(1) g(1) by (simp add: distinct_map inj_on_def)
    moreover have "draft_ok g" using inv g(1) by (simp add: drafts_ok_def)
    ultimately show ?thesis using 1(2) g(2) by (simp add: advances_def)
  next
    case 2
    then show ?thesis using i h(2) by simp
  qed
qed

lemma committed_translation_kept_witness:
  "map sg_committed (ss_segments (detach sample_committed)) = [True]
     \<and> map sg_translation (ss_segments (detach sample_committed)) = [lit ''na'']"
proof -
  obtain g where g: "ss_segments sample_committed = [g]" "sg_committed g" "sg_translation g = lit ''na''"
    using committed_facts by (cases "ss_segments sample_committed") auto
  obtain h where h: "ss_segments (detach sample_committed) = [h]" "sg_id h = sg_id g"
    using g(1) by (auto simp: detach_def cancel_timers_def Let_def)
  have "(session_step ascii_db)\<^sup>*\<^sup>* sample_committed (detach sample_committed)"
    by (intro r_into_rtranclp step_detach)
  moreover have "settings_ok default_settings" by code_simp
  ultimately show ?thesis
    using committed_translation_kept [OF reach_committed, of "detach sample_committed" g h] g h by simp
qed

subsection \<open>Limits\<close>

text \<open>
  C5: A session's memory stays within the configured limits in every reachable state: the number of
  utterances and of segments, the characters of source and of translation, and the UTF-8 bytes of
  both together.
\<close>

theorem session_memory_bounded:
  assumes "session_reachable uc st s" and "settings_ok st"
  shows "int (length (ss_utterances s)) \<le> se_max_utterances st
    \<and> int (length (ss_segments s)) \<le> se_max_segments st
    \<and> int (text_chars s) \<le> se_max_session_chars st
    \<and> int (translation_chars s) \<le> se_max_translation_chars st
    \<and> int (state_bytes s) \<le> se_max_state_bytes st"
  using session_reachable_keeps [OF assms] session_reachable_trackers [OF assms]
  by (simp add: keeps_def within_limits_def)

lemma session_memory_bounded_witness:
  "int (translation_chars sample_drafted) \<le> 128000 \<and> settings_ok default_settings"
proof -
  have st: "settings_ok default_settings" and b: "se_max_translation_chars default_settings \<le> 128000" by code_simp+
  show ?thesis using session_memory_bounded [OF reach_drafted st] b st by linarith
qed

subsection \<open>Admission of events\<close>

text \<open>
  An ASR event that passes the checks of \<open>ingest\<close> is processed without any exception, and carries
  a strictly larger sequence number than every event before it; an event that fails a check raises
  exactly that check's error and changes nothing but the counter of automatic utterance names.
\<close>

theorem ingest_checked:
  assumes "session_reachable uc st s" and "settings_ok st"
  shows "case check_event s ev of
      (s1, Inr uid) \<Rightarrow> snd (ingest uc current started now ev s) = Inr () \<and> ss_last_sequence s < ev_sequence ev
    | (s1, Inl e) \<Rightarrow> ingest uc current started now ev s = (s1, Inl e)
        \<and> (s1 = s \<or> s1 = s\<lparr>ss_next_utterance := Suc (ss_next_utterance s)\<rparr>)"
proof -
  note inv = session_reachable_trackers [OF assms]
  obtain s1 r where c: "check_event s ev = (s1, r)" by fastforce
  show ?thesis
  proof (cases r)
    case (Inr uid)
    then show ?thesis using ingest_returns(1,3) [of s uc ev s1 uid] inv c assms(2) by (simp add: returns_def)
  next
    case (Inl e)
    have "s1 = s \<or> s1 = s\<lparr>ss_next_utterance := Suc (ss_next_utterance s)\<rparr>"
      using c by (auto simp: check_event_def resolve_utterance_def andthen_def Let_def split: if_splits option.splits)
    then show ?thesis using c Inl by (simp add: ingest_def)
  qed
qed

lemma ingest_checked_witness:
  "ingest ascii_db None 3 3 (sample_event 0 ''We'' False) sample_heard
     = (sample_heard, Inl (ValueError ''STALE_SEQUENCE''))"
proof -
  have st: "settings_ok default_settings" by code_simp
  have "check_event sample_heard (sample_event 0 ''We'' False) = (sample_heard, Inl (ValueError ''STALE_SEQUENCE''))"
    using heard_facts by (simp add: check_event_def sample_event_def)
  then show ?thesis using ingest_checked [OF reach_heard st, where ev = "sample_event 0 ''We'' False"] by simp
qed

text \<open>
  C4: After a disconnection, a reset or a close, the result of an attempt made before it is
  discarded, whenever it arrives: let the job of the attempt carry the generation of the state
  \<open>s0\<close> it was made in, as \<open>job_of\<close> gives it, and let the session go on from \<open>s0\<close> to \<open>s\<close>, leave
  by \<open>detach\<close>, \<open>reset\<close> or \<open>close_session\<close> and then run through any further events, timers, results
  and reconnections. There the result only counts a stale result and changes nothing else, so a
  translation never reaches a session state it was not made for.
\<close>

theorem stale_result_discarded:
  assumes reach: "session_reachable uc st s0" and made: "jb_generation j = GenInt (ss_generation s0)"
    and before: "(session_step uc)\<^sup>*\<^sup>* s0 s" and left: "s1 \<in> {detach s, reset uc now s, close_session s}"
    and after: "(session_step uc)\<^sup>*\<^sup>* s1 s'"
  shows "result_handler uc later j r e s' = (metric_inc ''discarded_stale_results'' s', Inr ())"
proof -
  have reach_s: "session_reachable uc st s"
    using before reach by (induction rule: rtranclp_induct) (auto intro: session_more)
  have one: "session_step uc s s1"
    using left step_detach step_reset step_close by blast
  have "ss_generation s1 = ss_generation s + 1" using left by auto
  moreover have "ss_generation s0 \<le> ss_generation s" by (rule generation_grows [OF reach before])
  moreover have "ss_generation s1 \<le> ss_generation s'"
    by (rule generation_grows [OF session_more [OF reach_s one] after])
  ultimately have "jb_generation j \<noteq> GenInt (ss_generation s')" using made by simp
  then show ?thesis by (simp add: result_handler_def result_current_def done_step_def)
qed

lemma stale_result_discarded_witness:
  "let s' = fst (attach ascii_db 4 (detach sample_selected))
   in result_handler ascii_db 5 (pending_job sample_selected) None None s'
        = (metric_inc ''discarded_stale_results'' s', Inr ())"
proof -
  have "jb_generation (pending_job sample_selected) = GenInt (ss_generation sample_selected)"
    using session_facts by blast
  moreover have "(session_step ascii_db)\<^sup>*\<^sup>* (detach sample_selected) (fst (attach ascii_db 4 (detach sample_selected)))"
    by (intro r_into_rtranclp step_attach)
  ultimately show ?thesis
    unfolding Let_def by (intro stale_result_discarded [OF reach_selected _ rtranclp.rtrancl_refl]) simp_all
qed

subsection \<open>Rate limit\<close>

text \<open>The events admitted from a sequence of arrival times.\<close>

fun admitted :: "session \<Rightarrow> rat list \<Rightarrow> rat list" where
  "admitted s [] = []"
| "admitted s (t # ts) =
     (case admit_event t s of (s1, ok) \<Rightarrow> (if ok then t # admitted s1 ts else admitted s1 ts))"

definition in_second :: "rat \<Rightarrow> rat \<Rightarrow> bool" where
  "in_second a t \<longleftrightarrow> a \<le> t \<and> t \<le> a + 1"

lemma sorted_window:
  "sorted xs \<Longrightarrow> dropWhile (\<lambda>t. t < a) xs = filter (\<lambda>t. a \<le> t) (xs :: rat list)"
proof (induction xs)
  case (Cons x xs)
  show ?case
  proof (cases "x < a")
    case False
    then have "\<forall>t \<in> set xs. a \<le> t" using Cons.prems by auto
    then show ?thesis using False by simp
  qed (use Cons in simp)
qed simp

text \<open>
  \<open>old\<close> are the admitted events before \<open>s\<close>, of which \<open>ss_events s\<close> keeps those of the last second.
\<close>

lemma admitted_window:
  assumes "sorted (old @ ts)" "ss_events s = filter (\<lambda>t. m \<le> t) old" "\<forall>t \<in> set ts. m \<le> t - 1"
    and "\<forall>a. int (length (filter (in_second a) old)) \<le> se_max_events_per_second (ss_settings s)"
  shows "int (length (filter (in_second a) (old @ admitted s ts))) \<le> se_max_events_per_second (ss_settings s)"
  using assms
proof (induction ts arbitrary: old s m)
  case (Cons t ts)
  define kept where "kept = filter (\<lambda>x. t - 1 \<le> x) old"
  let ?max = "se_max_events_per_second (ss_settings s)"
  have win: "dropWhile (\<lambda>x. x < t - 1) (ss_events s) = kept"
  proof -
    have "sorted (filter (\<lambda>x. m \<le> x) old)" using Cons.prems(1) by (simp add: sorted_append sorted_filter [of id, simplified])
    then have "dropWhile (\<lambda>x. x < t - 1) (ss_events s) = filter (\<lambda>x. t - 1 \<le> x) (filter (\<lambda>x. m \<le> x) old)"
      using Cons.prems(2) sorted_window by simp
    also have "\<dots> = filter (\<lambda>x. t - 1 \<le> x) old" using Cons.prems(3) by (auto intro!: filter_cong)
    finally show ?thesis by (simp add: kept_def)
  qed
  have up: "\<forall>x \<in> set ts. t - 1 \<le> x - 1" "\<forall>x \<in> set old. x \<le> t" using Cons.prems(1) by (auto simp: sorted_append)
  show ?case
  proof (cases "?max \<le> int (length kept)")
    case True
    then obtain s1 where s1: "admit_event t s = (s1, False)" "ss_events s1 = kept" "ss_settings s1 = ss_settings s"
      using win by (simp add: admit_event_def metric_inc_def Let_def)
    have "sorted (old @ ts)" using Cons.prems(1) by (simp add: sorted_append)
    from Cons.IH [OF this _ up(1), of s1] s1 Cons.prems(4) show ?thesis by (simp add: kept_def)
  next
    case False
    then obtain s1 where s1: "admit_event t s = (s1, True)" "ss_events s1 = kept @ [t]" "ss_settings s1 = ss_settings s"
      using win by (simp add: admit_event_def metric_inc_def Let_def)
    have "int (length (filter (in_second a) (old @ [t]))) \<le> ?max" for a
    proof (cases "in_second a t")
      case True
      have "filter (in_second a) old = filter (in_second a) kept"
        using True up(2) unfolding kept_def by (auto simp: in_second_def intro!: filter_cong)
      then have "length (filter (in_second a) old) \<le> length kept" by simp
      then show ?thesis using False True by simp
    qed (use Cons.prems(4) in simp)
    moreover have "sorted ((old @ [t]) @ ts)" using Cons.prems(1) by simp
    moreover have "ss_events s1 = filter (\<lambda>x. t - 1 \<le> x) (old @ [t])" using s1 by (simp add: kept_def)
    ultimately show ?thesis using Cons.IH [of "old @ [t]" s1 "t - 1"] up(1) s1 by simp
  qed
qed simp

text \<open>
  The rate limiter admits at most \<open>max_events_per_second\<close> events of a new session in any interval
  of one second, however the arrival times are spaced (on a clock that does not run backwards).
\<close>

theorem admitted_rate_limited:
  assumes "sorted ts" and "ss_events s = []" and "0 \<le> se_max_events_per_second (ss_settings s)"
  shows "int (length (filter (in_second a) (admitted s ts))) \<le> se_max_events_per_second (ss_settings s)"
proof (cases ts)
  case (Cons t r)
  then have "\<forall>x \<in> set ts. t - 1 \<le> x - 1" using assms(1) by auto
  then show ?thesis using admitted_window [of "[]" ts s "t - 1" a] assms by simp
qed (use assms in simp)

lemma admitted_rate_limited_witness:
  "int (length (filter (in_second 0)
     (admitted (sample_new\<lparr>ss_settings := default_settings\<lparr>se_max_events_per_second := 2\<rparr>\<rparr>) [0, 1/2, 1/2, 1, 3]))) \<le> 2"
proof -
  have "ss_events sample_new = []" by code_simp
  then show ?thesis
    using admitted_rate_limited [of "[0, 1/2, 1/2, 1, 3]" "sample_new\<lparr>ss_settings := default_settings\<lparr>se_max_events_per_second := 2\<rparr>\<rparr>" 0]
    by simp
qed

end
