(* ===== verification/GatewayProps.thy ===== *)
theory GatewayProps
  imports Gateway SessionProps
begin

text \<open>
  Properties of the gateway (\<^verbatim>\<open>src/app/api\<close>, \<^verbatim>\<open>src/app/main.py\<close>): a frame can neither break a connection
  nor leave the reachable states of its session, and a request without the capability changes nothing.
\<close>

subsection \<open>Frames\<close>

definition keeps_open :: "frame_flow \<Rightarrow> bool" where
  "keeps_open f = (case f of Broken _ \<Rightarrow> False | _ \<Rightarrow> True)"

text \<open>What a frame may do to a session: steps of the session, ending in no unexpected exception.\<close>

definition safe_end :: "unidb \<Rightarrow> session \<Rightarrow> session \<times> frame_end \<Rightarrow> bool" where
  "safe_end uc s r \<longleftrightarrow> (session_step uc)\<^sup>*\<^sup>* s (fst r)
     \<and> (\<forall>e. snd r = FrameRaised e \<longrightarrow> (\<exists>code. e = ValueError code))"

lemma safe_end_step:
  "session_step uc s (fst m) \<Longrightarrow> (\<And>e. snd m = Inl e \<Longrightarrow> \<exists>code. e = ValueError code) \<Longrightarrow> safe_end uc s (of_step m)"
  by (cases m; cases "snd m") (auto simp: safe_end_def of_step_def)

lemma safe_end_stay [simp]:
  "safe_end uc s (s, SchemaError)" "safe_end uc s (s, FrameRaised (ValueError code))"
  by (simp_all add: safe_end_def)

lemma new_policy_failure: "new_policy th a b c d p = Inl e \<Longrightarrow> \<exists>code. e = ValueError code"
  by (auto simp: new_policy_def split: if_splits)

lemma configure_failure: "snd (configure uc now co s) = Inl e \<Longrightarrow> \<exists>code. e = ValueError code"
  by (auto simp: configure_def set_config_def andthen_def done_step_def Let_def
      split: if_splits sum.splits dest: new_policy_failure)

lemma glossary_failure:
  "snd (andthen (set_glossary uc now g s) (\<lambda>t _. done_step (f t))) = Inl e \<Longrightarrow> \<exists>code. e = ValueError code"
  by (auto simp: set_glossary_def andthen_def done_step_def split: sum.splits)

lemma ingest_failure:
  assumes "session_reachable uc st s" and "settings_ok st" and "snd (ingest uc None started now ev s) = Inl e"
  shows "\<exists>code. e = ValueError code"
proof -
  obtain s1 r where c: "check_event s ev = (s1, r)" by fastforce
  note inv = session_reachable_trackers [OF assms(1,2)]
  show ?thesis
  proof (cases r)
    case (Inl x)
    then have "snd (ingest uc None started now ev s) = Inl x" using c by (simp add: ingest_def)
    then show ?thesis using check_event_failure [OF assms(1)] c Inl assms(3) by auto
  next
    case (Inr uid)
    then show ?thesis using ingest_returns(1) [of s uc ev s1 uid None started now] inv c assms
      by (simp add: returns_def)
  qed
qed

lemma glossary_steps:
  "(session_step uc)\<^sup>*\<^sup>* s (fst (andthen (set_glossary uc now g s) (\<lambda>t _. done_step (emit_snapshot uc now k t))))"
proof -
  have "session_step uc s (fst (set_glossary uc now g s))" by (rule step_glossary)
  moreover have "session_step uc t (emit_snapshot uc now k t)" for t
    unfolding emit_snapshot_def by (rule step_emit)
  ultimately show ?thesis
    by (cases "set_glossary uc now g s"; cases "snd (set_glossary uc now g s)")
       (auto simp: andthen_def done_step_def intro: rtranclp.rtrancl_into_rtrancl)
qed

lemma dispatch_safe:
  assumes "session_reachable uc st s" and "settings_ok st"
  shows "safe_end uc s (dispatch_frame uc rd now ps s)"
proof -
  have ev: "safe_end uc s (case rd_event rd (JObj ps) of
                   None \<Rightarrow> (s, SchemaError)
                 | Some ev \<Rightarrow>
                     (case validate_asr_event uc ev of
                        Inl _ \<Rightarrow> (s, SchemaError)
                      | Inr ev1 \<Rightarrow> of_step (ingest uc None now now ev1 s)))"
    using ingest_failure [OF assms] by (auto split: option.split sum.split intro!: safe_end_step step_ingest)
  have gl: "safe_end uc s (of_step (andthen (set_glossary uc now g s) (\<lambda>t _. done_step (emit_snapshot uc now k t))))" for g k
    using glossary_steps [of uc s now g k] glossary_failure [of uc now g s "emit_snapshot uc now k"]
    by (cases "snd (andthen (set_glossary uc now g s) (\<lambda>t _. done_step (emit_snapshot uc now k t)))")
       (auto simp: safe_end_def of_step_def split: prod.split sum.split)
  have co: "safe_end uc s (case rd_config rd j of
                   None \<Rightarrow> (s, SchemaError)
                 | Some co \<Rightarrow> if valid_config co then of_step (configure uc now co s) else (s, SchemaError))" for j
    using configure_failure by (auto split: option.split intro!: safe_end_step step_configure)
  have rs: "safe_end uc s (reset uc now s, FrameDone)"
    by (auto simp: safe_end_def intro: step_reset)
  have "(session_step uc)\<^sup>*\<^sup>* s (emit now e (touch now s))" for e
    using step_touch [of uc s now] step_emit [of uc "touch now s" now e]
    by (meson r_into_rtranclp rtranclp.rtrancl_into_rtrancl)
  then have pg: "safe_end uc s (let t = touch now s in (emit now (PongEvent (ss_last_sequence t)) t, FrameDone))"
    by (simp add: safe_end_def Let_def)
  show ?thesis
    unfolding dispatch_frame_def Let_def [of "field ''type'' ps"]
    using ev gl co rs pg by (simp split: option.split sum.split)
qed

lemma handled_safe:
  assumes "safe_end uc s r"
  shows "keeps_open (snd (frame_handled now r)) \<and> (session_step uc)\<^sup>*\<^sup>* s (fst (frame_handled now r))"
proof -
  obtain t e where r: "r = (t, e)" by fastforce
  have t: "(session_step uc)\<^sup>*\<^sup>* s t" using assms r by (simp add: safe_end_def)
  have er: "(session_step uc)\<^sup>*\<^sup>* s (emit_error now c m t)" for c m
    unfolding emit_error_def by (rule rtranclp.rtrancl_into_rtrancl [OF t step_emit])
  show ?thesis
    using assms r t er
    by (cases e) (auto simp: frame_handled_def keeps_open_def safe_end_def split: py_error.split)
qed

text \<open>
  C36: No frame breaks a connection: whatever a client sends (any text or binary frame, whatever the
  parsers make of it), every exception of the handlers is one the receive loop answers with an error
  event, and the session goes from one reachable state to another.
\<close>

theorem frame_never_breaks:
  assumes "session_reachable uc st s" and "settings_ok st"
  shows "keeps_open (snd (ws_frame uc loads rd now p s)) \<and> session_reachable uc st (fst (ws_frame uc loads rd now p s))"
proof -
  have more: "session_reachable uc st t" if "(session_step uc)\<^sup>*\<^sup>* s t" for t
    using that by (induction rule: rtranclp_induct) (auto intro: assms(1) session_more)
  have er: "session_reachable uc st (emit_error now c m t)" if "session_reachable uc st t" for c m t
    unfolding emit_error_def by (rule session_more [OF that step_emit])
  show ?thesis
  proof (cases p)
    case (TextFrame raw)
    obtain s1 ok where a: "admit_event now s = (s1, ok)" by fastforce
    have s1: "session_reachable uc st s1" using session_more [OF assms(1) step_admit, of now] a by simp
    have h: "keeps_open (snd (frame_handled now r)) \<and> session_reachable uc st (fst (frame_handled now r))"
      if "safe_end uc s1 r" for r
    proof -
      have "session_reachable uc st t" if "(session_step uc)\<^sup>*\<^sup>* s1 t" for t
        using that by (induction rule: rtranclp_induct) (auto intro: s1 session_more)
      then show ?thesis using handled_safe [OF that, of now] by blast
    qed
    have body: "safe_end uc s1 (case loads raw of
                      None \<Rightarrow> (s1, SchemaError)
                    | Some (JObj ps) \<Rightarrow> dispatch_frame uc rd now ps s1
                    | Some _ \<Rightarrow> (s1, FrameRaised (ValueError ''INVALID_MESSAGE'')))"
      using dispatch_safe [OF s1 assms(2)] by (simp split: option.split json.split)
    show ?thesis
    proof (cases "int (utf8_len raw) > se_max_event_bytes (ss_settings s)")
      case True
      then show ?thesis using assms(1) TextFrame by (simp add: ws_frame_def keeps_open_def)
    next
      case False
      then show ?thesis using TextFrame a h [OF body] er [OF s1]
        by (cases ok) (simp_all add: ws_frame_def keeps_open_def)
    qed
  qed (use assms(1) er in \<open>simp_all add: ws_frame_def keeps_open_def\<close>)
qed

definition sample_readers :: readers where
  "sample_readers = \<lparr>rd_event = (\<lambda>j. Some (sample_event 1 ''We go.'' True)), rd_glossary = (\<lambda>j. None),
     rd_config = (\<lambda>j. Some default_config)\<rparr>"

lemma frame_never_breaks_witness:
  "keeps_open (snd (ws_frame ascii_db (\<lambda>t. None) sample_readers 3 (TextFrame (lit ''{'')) sample_heard))"
  using frame_never_breaks [OF reach_heard default_settings_ok] by blast

subsection \<open>Requests\<close>

text \<open>
  A request without the right capability changes nothing: an administrative route answers 401
  unless the bearer token is the administrator's key, a route of a session answers 404 unless the
  token opens that session, a socket is closed with 1008 unless its bearer token or the token of its
  first frame opens the session, or with the code of a malformed first frame, and in each case all sessions,
  the scheduler and the metrics stay as they are.
\<close>

theorem unauthorized_changes_nothing:
  shows "(bearer uc header \<noteq> admin_key \<longrightarrow>
           route_create uc digest admin_key header now token sid co mg = (mg, Inl (401, ''Authentication required''))
         \<and> route_metrics uc admin_key header mg = (mg, Inl (401, ''Authentication required'')))
    \<and> (authorized digest sid (bearer uc header) mg = None \<longrightarrow>
           route_get uc digest snapshot_bytes now sid header mg = (mg, Inl (404, ''Session not found''))
         \<and> route_delete uc digest sid header mg = (mg, Inl (404, ''Session not found''))
         \<and> route_glossary uc digest now sid header entries mg = (mg, Inl (404, ''Session not found''))
         \<and> (bearer uc header \<noteq> [] \<longrightarrow> ws_open uc digest loads now sid header first mg = (mg, OpenClosed 1008)))
    \<and> (bearer uc header = [] \<longrightarrow>
         (case first_token loads first of
            Inl code \<Rightarrow> ws_open uc digest loads now sid header first mg = (mg, OpenClosed code)
          | Inr token' \<Rightarrow> authorized digest sid token' mg = None \<longrightarrow>
              ws_open uc digest loads now sid header first mg = (mg, OpenClosed 1008)))"
  by (simp add: route_create_def route_metrics_def require_admin_def route_get_def route_delete_def
      route_glossary_def require_session_def ws_open_def Let_def split: sum.split)

lemma unauthorized_changes_nothing_witness:
  "route_delete ascii_db (\<lambda>t. t) (lit ''S'') (Some (lit ''Bearer kez'')) sample_manager
     = (sample_manager, Inl (404, ''Session not found''))"
proof -
  have "authorized (\<lambda>t. t) (lit ''S'') (bearer ascii_db (Some (lit ''Bearer kez''))) sample_manager = None" by code_simp
  then show ?thesis using unauthorized_changes_nothing [where digest = "\<lambda>t. t" and uc = ascii_db] by blast
qed

text \<open>
  The header round-trips: a token sent as \<open>Bearer\<close> in any letter case comes back exactly, as long as
  the header has at most 512 characters; and any header that is longer or has another scheme yields the
  empty token, which no route accepts.
\<close>

theorem bearer_roundtrip:
  assumes "py_lower uc scheme = lit ''bearer''" and "32 \<notin> set scheme" and "scheme \<noteq> []"
  shows "bearer uc (Some (scheme @ 32 # token)) = (if length scheme + length token < 512 then token else [])"
proof -
  have "takeWhile (\<lambda>c. c \<noteq> 32) (scheme @ 32 # token) = scheme"
    "dropWhile (\<lambda>c. c \<noteq> 32) (scheme @ 32 # token) = 32 # token"
    using assms(2) by (simp_all add: takeWhile_append2 dropWhile_append2 takeWhile_append dropWhile_append)
  then show ?thesis using assms(1,3) by (auto simp: bearer_def)
qed

lemma bearer_roundtrip_witness: "bearer ascii_db (Some (lit ''BEARER abc'')) = lit ''abc''"
proof -
  have "py_lower ascii_db (lit ''BEARER'') = lit ''bearer''" "32 \<notin> set (lit ''BEARER'')" "lit ''BEARER'' \<noteq> []" by code_simp+
  from bearer_roundtrip [OF this, of "lit ''abc''"] show ?thesis by (simp add: lit_def)
qed

text \<open>
  A request body that reaches a route is exactly what the client sent and within the limit:
  \<open>bounded_body\<close> answers 413 when the body is larger than the limit in total, 408 when it did not end in
  time, and otherwise passes on the concatenation of the chunks, for the methods that have a body.
\<close>

theorem bounded_body_exact:
  assumes "m \<in> set [POST, PUT, PATCH]" and "0 \<le> limit"
  shows "bounded_body limit m chunks timed_out =
    (if int (length (concat chunks)) > limit then Inl (413, ''Request body too large'')
     else if timed_out then Inl (408, ''Request body timed out'')
     else Inr (Some (concat chunks)))"
proof -
  have "body_loop limit n acc cs = (if n + int (length (concat cs)) > limit then None else Some (acc @ concat cs))"
    if "n \<le> limit" for n acc cs
    using that by (induction limit n acc cs rule: body_loop.induct) auto
  from this [of 0 "[]" chunks] show ?thesis using assms by (simp add: bounded_body_def)
qed

lemma bounded_body_exact_witness: "bounded_body 3 POST [[1, 2], [3]] False = Inr (Some [1, 2, 3])"
  using bounded_body_exact [of POST 3 "[[1, 2], [3]]" False] by simp

end
