(* ===== verification/EngineBase.thy ===== *)
theory EngineBase
  imports Prelude
begin

text \<open>
  Vocabulary of the engine modules under \<^verbatim>\<open>src/MyVote-Speaker-Update/src/myvote_engine\<close>: the
  built-in \<open>round\<close> on exact numbers, bounded deques (newest element last), the decimal digits an
  f-string prints and the clock constants of \<^verbatim>\<open>audio.py\<close>.
\<close>

subsection \<open>The built-in \<open>round\<close>: half to even\<close>

definition py_round :: "rat \<Rightarrow> int" where
  "py_round q =
     (let f = \<lfloor>q\<rfloor>; d = q - of_int f
      in if d < 1 / 2 then f else if 1 / 2 < d then f + 1 else if even f then f else f + 1)"

lemma py_round_close: "\<bar>of_int (py_round q) - q\<bar> \<le> 1 / 2"
proof -
  have f: "of_int \<lfloor>q\<rfloor> \<le> q" "q < of_int \<lfloor>q\<rfloor> + 1" by linarith+
  show ?thesis unfolding py_round_def Let_def by (simp only: of_int_add of_int_1 split: if_split) (use f in linarith)
qed

lemma py_round_nonneg: "0 \<le> q \<Longrightarrow> 0 \<le> py_round q"
proof -
  assume "0 \<le> q"
  then have "0 \<le> \<lfloor>q\<rfloor>" by simp
  then show ?thesis by (simp add: py_round_def Let_def)
qed

lemma py_round_mono: "p \<le> q \<Longrightarrow> py_round p \<le> py_round q"
proof (rule ccontr)
  assume le: "p \<le> q" and "\<not> py_round p \<le> py_round q"
  then have "py_round q + 1 \<le> py_round p" by simp
  then have step: "of_int (py_round q) + 1 \<le> (of_int (py_round p) :: rat)"
    by (metis of_int_le_iff of_int_add of_int_1)
  have "of_int (py_round p) \<le> p + 1 / 2" "q - 1 / 2 \<le> of_int (py_round q)"
    using py_round_close [of p] py_round_close [of q] by linarith+
  with step le have pq: "p = q" by linarith
  with \<open>\<not> py_round p \<le> py_round q\<close> show False by simp
qed

subsection \<open>A deque with \<open>maxlen\<close>\<close>

definition keep_last :: "nat \<Rightarrow> 'a list \<Rightarrow> 'a list" where
  "keep_last n xs = drop (length xs - n) xs"

definition deque_push :: "nat \<Rightarrow> 'a \<Rightarrow> 'a list \<Rightarrow> 'a list" where
  "deque_push n x xs = keep_last n (xs @ [x])"

lemma length_keep_last [simp]: "length (keep_last n xs) = min n (length xs)"
  by (simp add: keep_last_def)

lemma length_deque_push: "length (deque_push n x xs) \<le> n"
  by (simp add: deque_push_def)

lemma keep_last_all: "length xs \<le> n \<Longrightarrow> keep_last n xs = xs"
  by (simp add: keep_last_def)

lemma set_keep_last: "set (keep_last n xs) \<subseteq> set xs"
  by (simp add: keep_last_def set_drop_subset)

subsection \<open>Clock constants\<close>

definition NS :: int where "NS = 1000000000"
definition SAMPLE_RATE :: int where "SAMPLE_RATE = 16000"
definition SAMPLE_NS :: int where "SAMPLE_NS = NS div SAMPLE_RATE"

lemma SAMPLE_NS_eq [simp, code]: "SAMPLE_NS = 62500"
  by (simp add: SAMPLE_NS_def NS_def SAMPLE_RATE_def)

subsection \<open>Python slices with integer bounds and decimal digits\<close>

definition py_bound :: "int \<Rightarrow> 'a list \<Rightarrow> nat" where
  "py_bound i xs = (if 0 \<le> i then nat i else nat (int (length xs) + i))"

definition py_upto :: "int \<Rightarrow> 'a list \<Rightarrow> 'a list" where
  "py_upto i xs = take (py_bound i xs) xs"

definition py_from :: "int \<Rightarrow> 'a list \<Rightarrow> 'a list" where
  "py_from i xs = drop (py_bound i xs) xs"

lemma py_upto_nonneg: "0 \<le> i \<Longrightarrow> py_upto i xs = take (nat i) xs"
  by (simp add: py_upto_def py_bound_def)

lemma py_from_nonneg: "0 \<le> i \<Longrightarrow> py_from i xs = drop (nat i) xs"
  by (simp add: py_from_def py_bound_def)

fun dec :: "nat \<Rightarrow> ustring" where
  "dec n = (if n < 10 then [48 + n] else dec (n div 10) @ [48 + n mod 10])"

declare dec.simps [simp del]

text \<open>A number with at least \<open>w\<close> digits.\<close>

definition zero_padded :: "nat \<Rightarrow> nat \<Rightarrow> ustring" where
  "zero_padded w n = (let ds = dec n in replicate (w - length ds) 48 @ ds)"

end
