(* ===== verification/LocalAgreement.thy ===== *)
theory LocalAgreement
  imports EngineBase
begin

text \<open>
  Model of \<^verbatim>\<open>asr.py\<close>: timed words, the LocalAgreement stabilizer of one live segment and the
  conversion of a recogniser's result into a hypothesis on the source clock. Unicode NFKC
  normalization (\<open>nfkc\<close>) and the recogniser itself are arguments.
\<close>

datatype asr_error = AsrValue string | AsrRuntime string | AsrMissingFile string
  | UncommittedAudioLost string | AsrKey

subsection \<open>Data\<close>

record timed_word =
  tw_text :: ustring
  tw_start :: int
  tw_end :: int

definition timed_word :: "unidb \<Rightarrow> ustring \<Rightarrow> int \<Rightarrow> int \<Rightarrow> asr_error + timed_word" where
  "timed_word uc t a b =
     (if py_strip uc t = [] then Inl (AsrValue ''word text must be nonempty'')
      else if a < 0 \<or> b < a then Inl (AsrValue ''invalid word interval'')
      else Inr \<lparr>tw_text = t, tw_start = a, tw_end = b\<rparr>)"

record hypothesis =
  hy_start :: int
  hy_end :: int
  hy_words :: "timed_word list"
  hy_language :: "ustring option"

fun words_inside :: "int \<Rightarrow> int \<Rightarrow> timed_word list \<Rightarrow> bool" where
  "words_inside previous end [] = True"
| "words_inside previous end (w # ws) =
     (previous \<le> tw_start w \<and> tw_end w \<le> end \<and> words_inside (tw_start w) end ws)"

definition hypothesis ::
    "int \<Rightarrow> int \<Rightarrow> timed_word list \<Rightarrow> ustring option \<Rightarrow> asr_error + hypothesis" where
  "hypothesis a b ws lang =
     (if a < 0 \<or> b \<le> a then Inl (AsrValue ''invalid audio window'')
      else if \<not> words_inside a b ws
        then Inl (AsrValue ''words must be ordered and lie inside the audio window'')
      else Inr \<lparr>hy_start = a, hy_end = b, hy_words = ws, hy_language = lang\<rparr>)"

datatype update_reason = Agreement | Hypothesis | Flush

record transcript_update =
  tu_segment :: ustring
  tu_revision :: nat
  tu_is_stable :: bool
  tu_stable :: "timed_word list"
  tu_provisional :: "timed_word list"
  tu_reason :: update_reason

definition words_text :: "unidb \<Rightarrow> timed_word list \<Rightarrow> ustring" where
  "words_text uc ws = py_strip uc (concat (map tw_text ws))"

definition stable_text :: "unidb \<Rightarrow> transcript_update \<Rightarrow> ustring" where
  "stable_text uc u = words_text uc (tu_stable u)"

definition provisional_text :: "unidb \<Rightarrow> transcript_update \<Rightarrow> ustring" where
  "provisional_text uc u = words_text uc (tu_provisional u)"

definition update_text :: "unidb \<Rightarrow> transcript_update \<Rightarrow> ustring" where
  "update_text uc u = words_text uc (tu_stable u @ tu_provisional u)"

definition canonical :: "unidb \<Rightarrow> (ustring \<Rightarrow> ustring) \<Rightarrow> ustring \<Rightarrow> ustring" where
  "canonical uc nfkc t = py_casefold uc (py_join [32] (py_split uc (nfkc t)))"

subsection \<open>The stabilizer\<close>

record stabilizer =
  sb_segment :: ustring
  sb_passes :: nat
  sb_tolerance :: int
  sb_revision :: nat
  sb_stable :: "timed_word list"
  sb_pending :: "timed_word list"
  sb_history :: "timed_word list list"
  sb_last_end :: int
  sb_closed :: bool

definition starts_ordered :: "timed_word list \<Rightarrow> bool" where
  "starts_ordered ws \<longleftrightarrow> list_all (\<lambda>(a, b). tw_start a \<le> tw_start b) (zip ws (tl ws))"

definition new_stabilizer ::
    "ustring \<Rightarrow> int \<Rightarrow> int \<Rightarrow> int \<Rightarrow> timed_word list \<Rightarrow> asr_error + stabilizer" where
  "new_stabilizer segment passes tolerance revision restored =
     (if segment = [] then Inl (AsrValue ''segment_id is required'')
      else if passes < 2 then Inl (AsrValue ''agreement_passes must be an integer >= 2'')
      else if tolerance < 0 then Inl (AsrValue ''timestamp tolerance must be a nonnegative integer'')
      else if revision < 0 then Inl (AsrValue ''initial_revision must be a nonnegative integer'')
      else if \<not> starts_ordered restored then Inl (AsrValue ''restored stable words must be ordered'')
      else Inr \<lparr>sb_segment = segment, sb_passes = nat passes, sb_tolerance = tolerance,
             sb_revision = nat revision, sb_stable = restored, sb_pending = [], sb_history = [],
             sb_last_end = -1, sb_closed = False\<rparr>)"

text \<open>A word the stable prefix already owns: it ended, or most of it lies before the boundary.\<close>

definition owned_by_stable :: "int \<Rightarrow> int \<Rightarrow> timed_word \<Rightarrow> bool" where
  "owned_by_stable boundary tolerance w \<longleftrightarrow>
     tw_end w \<le> boundary
     \<or> (max 1 (tw_end w - tw_start w) \<le> max 0 (boundary - tw_start w) * 2
        \<and> tw_end w \<le> boundary + tolerance)"

definition after_stable :: "stabilizer \<Rightarrow> timed_word list \<Rightarrow> timed_word list" where
  "after_stable s ws =
     (if sb_stable s = [] then ws
      else filter (\<lambda>w. \<not> owned_by_stable (tw_end (last (sb_stable s))) (sb_tolerance s) w) ws)"

definition words_agree ::
    "unidb \<Rightarrow> (ustring \<Rightarrow> ustring) \<Rightarrow> int \<Rightarrow> timed_word \<Rightarrow> timed_word \<Rightarrow> bool" where
  "words_agree uc nfkc tolerance l r \<longleftrightarrow>
     canonical uc nfkc (tw_text l) = canonical uc nfkc (tw_text r)
     \<and> \<bar>tw_start l - tw_start r\<bar> \<le> tolerance \<and> \<bar>tw_end l - tw_end r\<bar> \<le> tolerance"

text \<open>The counting loop of \<open>accept\<close>: the leading words every remembered hypothesis agrees with.\<close>

fun agreed_prefix ::
    "(timed_word \<Rightarrow> timed_word \<Rightarrow> bool) \<Rightarrow> timed_word list list \<Rightarrow> timed_word list \<Rightarrow> nat \<Rightarrow> nat" where
  "agreed_prefix agree hs [] i = 0"
| "agreed_prefix agree hs (w # ws) i =
     (if list_all (\<lambda>h. i < length h \<and> agree w (h ! i)) hs
      then Suc (agreed_prefix agree hs ws (Suc i)) else 0)"

definition stabilizer_update :: "update_reason \<Rightarrow> stabilizer \<Rightarrow> transcript_update \<times> stabilizer" where
  "stabilizer_update why s =
     (let s' = s\<lparr>sb_revision := sb_revision s + 1\<rparr>
      in (\<lparr>tu_segment = sb_segment s, tu_revision = sb_revision s', tu_is_stable = (sb_pending s = []),
           tu_stable = sb_stable s, tu_provisional = sb_pending s, tu_reason = why\<rparr>, s'))"

definition agreed_count :: "unidb \<Rightarrow> (ustring \<Rightarrow> ustring) \<Rightarrow> stabilizer \<Rightarrow> timed_word list \<Rightarrow> nat" where
  "agreed_count uc nfkc s current =
     (let histories = map (after_stable s) (sb_history s)
      in if length histories = sb_passes s - 1
         then agreed_prefix (words_agree uc nfkc (sb_tolerance s)) histories current 0 else 0)"

definition accept_hypothesis ::
    "unidb \<Rightarrow> (ustring \<Rightarrow> ustring) \<Rightarrow> stabilizer \<Rightarrow> hypothesis
       \<Rightarrow> asr_error + (transcript_update option \<times> stabilizer)" where
  "accept_hypothesis uc nfkc s h =
     (if sb_closed s then Inl (AsrRuntime ''segment is flushed; create a new stabilizer'')
      else if hy_end h < sb_last_end s then Inl (AsrValue ''stale ASR hypothesis'')
      else if hy_end h = sb_last_end s then Inr (None, s)
      else if sb_pending s \<noteq> [] \<and> tw_start (hd (sb_pending s)) + sb_tolerance s < hy_start h
        then Inl (UncommittedAudioLost
               ''window dropped uncommitted audio; flush or retain the prefix'')
      else
        let current = after_stable s (hy_words h);
            common = agreed_count uc nfkc s current;
            s' = s\<lparr>sb_stable := sb_stable s @ take common current,
                   sb_pending := drop common current,
                   sb_history := deque_push (sb_passes s - 1) current (sb_history s),
                   sb_last_end := hy_end h\<rparr>
        in if (sb_stable s, sb_pending s) = (sb_stable s', sb_pending s') then Inr (None, s')
           else let (u, s'') = stabilizer_update (if common \<noteq> 0 then Agreement else Hypothesis) s'
                in Inr (Some u, s''))"

definition flush_stabilizer :: "stabilizer \<Rightarrow> transcript_update option \<times> stabilizer" where
  "flush_stabilizer s =
     (if sb_closed s then (None, s)
      else let s1 = s\<lparr>sb_closed := True\<rparr>
           in if sb_pending s1 = [] then (None, s1)
              else let s2 = s1\<lparr>sb_stable := sb_stable s1 @ sb_pending s1, sb_pending := [],
                              sb_history := []\<rparr>;
                       (u, s3) = stabilizer_update Flush s2
                   in (Some u, s3))"

subsection \<open>From a recogniser's result to a hypothesis\<close>

record raw_word =
  rw_text :: ustring
  rw_start :: "pyfloat option"
  rw_end :: "pyfloat option"

record raw_segment =
  rs_text :: ustring
  rs_words :: "raw_word list"

record raw_result =
  rr_text :: ustring
  rr_segments :: "raw_segment list"
  rr_language :: "ustring option"

record transcriber =
  tr_language :: "ustring option"
  tr_max_samples :: int

definition new_transcriber :: "unidb \<Rightarrow> ustring option \<Rightarrow> pyfloat \<Rightarrow> asr_error + transcriber" where
  "new_transcriber uc language max_window =
     (if \<not> pf_finite max_window \<or> \<not> (1 / 16000 \<le> pf_val max_window \<and> pf_val max_window \<le> 30)
      then Inl (AsrValue ''max_window_s must be between one sample and 30 seconds'')
      else Inr \<lparr>tr_language =
             (case language of None \<Rightarrow> None
              | Some l \<Rightarrow> let l' = py_lower uc (py_strip uc l)
                         in if l' = [] \<or> l' = lit ''auto'' then None else Some l'),
             tr_max_samples = \<lfloor>pf_val max_window * 16000\<rfloor>\<rparr>)"

text \<open>One recognised word, clamped into the supplied audio; blank words are skipped.\<close>

definition recognised_word ::
    "unidb \<Rightarrow> int \<Rightarrow> int \<Rightarrow> raw_word \<Rightarrow> asr_error + timed_word option" where
  "recognised_word uc start duration w =
     (if py_strip uc (rw_text w) = [] then Inr None
      else case (rw_start w, rw_end w) of
        (Some a, Some b) \<Rightarrow>
          (if \<not> (pf_finite a \<and> pf_finite b \<and> 0 \<le> pf_val a \<and> pf_val a \<le> pf_val b)
             then Inl (AsrValue ''ASR returned invalid word timestamps'')
           else if of_int (duration + 20000000) < pf_val a * of_int NS
                \<or> of_int (duration + 20000000) < pf_val b * of_int NS
             then Inl (AsrValue ''ASR word falls outside the supplied audio window'')
           else map_sum id Some
             (timed_word uc (rw_text w) (start + min duration (py_round (pf_val a * of_int NS)))
                (start + min duration (py_round (pf_val b * of_int NS)))))
      | _ \<Rightarrow> Inl AsrKey)"

fun recognised_words ::
    "unidb \<Rightarrow> int \<Rightarrow> int \<Rightarrow> raw_word list \<Rightarrow> asr_error + timed_word list" where
  "recognised_words uc start duration [] = Inr []"
| "recognised_words uc start duration (w # ws) =
     (case recognised_word uc start duration w of
        Inl e \<Rightarrow> Inl e
      | Inr r \<Rightarrow> (case recognised_words uc start duration ws of
          Inl e \<Rightarrow> Inl e
        | Inr rs \<Rightarrow> Inr (case r of None \<Rightarrow> rs | Some x \<Rightarrow> x # rs)))"

fun recognised_segments ::
    "unidb \<Rightarrow> int \<Rightarrow> int \<Rightarrow> raw_segment list \<Rightarrow> asr_error + timed_word list" where
  "recognised_segments uc start duration [] = Inr []"
| "recognised_segments uc start duration (g # gs) =
     (if py_strip uc (rs_text g) \<noteq> [] \<and> rs_words g = []
      then Inl (AsrValue ''ASR returned text without required word timestamps'')
      else case recognised_words uc start duration (rs_words g) of
        Inl e \<Rightarrow> Inl e
      | Inr ws \<Rightarrow> map_sum id (\<lambda>r. ws @ r) (recognised_segments uc start duration gs))"

text \<open>
  \<open>transcribe_pcm\<close>. The arguments \<open>apple\<close>, \<open>model_dir\<close> and \<open>deps\<close> say whether the host is native
  Apple Silicon, the model directory exists and the optional packages import; \<open>model\<close> is the call of
  the recogniser on the checked waveform.
\<close>

definition transcribe_pcm ::
    "unidb \<Rightarrow> bool \<Rightarrow> bool \<Rightarrow> bool \<Rightarrow> (rat list \<Rightarrow> ustring option \<Rightarrow> raw_result)
       \<Rightarrow> transcriber \<Rightarrow> pyfloat list \<Rightarrow> int \<Rightarrow> int \<Rightarrow> asr_error + hypothesis" where
  "transcribe_pcm uc apple model_dir deps model tr samples rate start =
     (if rate \<noteq> 16000 then Inl (AsrValue ''adapter requires mono 16 kHz PCM; resample upstream'')
      else if start < 0 then Inl (AsrValue ''window_start_ns must be a nonnegative integer'')
      else if tr_max_samples tr < int (length samples)
        then Inl (AsrValue ''PCM exceeds the configured maximum ASR window'')
      else if samples = [] \<or> \<not> list_all (\<lambda>x. pf_finite x \<and> -1 \<le> pf_val x \<and> pf_val x \<le> 1) samples
        then Inl (AsrValue ''PCM must be a nonempty sequence of finite floats in [-1, 1]'')
      else if \<not> apple then Inl (AsrRuntime ''mlx-whisper adapter requires native Apple Silicon macOS'')
      else if \<not> model_dir
        then Inl (AsrMissingFile ''prepare a local MLX Whisper model directory before inference'')
      else if \<not> deps
        then Inl (AsrRuntime ''install the optional Mac ASR dependencies in the Mac engine environment'')
      else
        let result = model (map pf_val samples) (tr_language tr);
            duration = int (length samples) * NS div rate
        in case recognised_segments uc start duration (rr_segments result) of
             Inl e \<Rightarrow> Inl e
           | Inr ws \<Rightarrow>
               (if py_strip uc (rr_text result) \<noteq> [] \<and> ws = []
                then Inl (AsrValue ''ASR returned text without required word timestamps'')
                else hypothesis start (start + duration) ws (rr_language result)))"

lemma map_sum_Some_eq: "map_sum id Some m = Inr r \<longleftrightarrow> (\<exists>x. m = Inr x \<and> r = Some x)"
  by (cases m) auto

lemma recognised_word_cases:
  assumes "recognised_word uc start duration w = Inr r"
  shows "(py_strip uc (rw_text w) = [] \<and> r = None)
     \<or> (\<exists>a b x. py_strip uc (rw_text w) \<noteq> [] \<and> r = Some x \<and> 0 \<le> pf_val a \<and> pf_val a \<le> pf_val b
         \<and> timed_word uc (rw_text w) (start + min duration (py_round (pf_val a * of_int NS)))
              (start + min duration (py_round (pf_val b * of_int NS))) = Inr x)"
proof (cases "py_strip uc (rw_text w) = []")
  case True
  with assms show ?thesis by (simp add: recognised_word_def)
next
  case nb: False
  with assms obtain a b where ab: "rw_start w = Some a" "rw_end w = Some b"
    by (auto simp: recognised_word_def split: option.splits)
  have "0 \<le> pf_val a \<and> pf_val a \<le> pf_val b \<and> map_sum id Some
      (timed_word uc (rw_text w) (start + min duration (py_round (pf_val a * of_int NS)))
         (start + min duration (py_round (pf_val b * of_int NS)))) = Inr r"
    using assms nb unfolding recognised_word_def ab by (simp split: if_split_asm)
  with nb show ?thesis by (auto simp: map_sum_Some_eq)
qed

lemma recognised_word_inside:
  assumes "recognised_word uc start duration w = Inr (Some x)" "0 \<le> duration"
  shows "start \<le> tw_start x \<and> tw_start x \<le> tw_end x \<and> tw_end x \<le> start + duration
     \<and> tw_text x = rw_text w \<and> py_strip uc (tw_text x) \<noteq> []"
proof -
  obtain a b where ab: "0 \<le> pf_val a" "pf_val a \<le> pf_val b"
    and x: "timed_word uc (rw_text w) (start + min duration (py_round (pf_val a * of_int NS)))
              (start + min duration (py_round (pf_val b * of_int NS))) = Inr x"
    using recognised_word_cases [OF assms(1)] by auto
  have "0 \<le> py_round (pf_val a * of_int NS)" using ab by (intro py_round_nonneg) (simp add: NS_def)
  with x assms(2) show ?thesis by (auto simp: timed_word_def split: if_splits)
qed

text \<open>The words of a result keep their texts and order; only blank ones are dropped.\<close>

lemma recognised_words_texts:
  "recognised_words uc start duration ws = Inr xs \<Longrightarrow> 0 \<le> duration \<Longrightarrow>
     map tw_text xs = filter (\<lambda>t. py_strip uc t \<noteq> []) (map rw_text ws)
     \<and> (\<forall>x \<in> set xs. start \<le> tw_start x \<and> tw_start x \<le> tw_end x \<and> tw_end x \<le> start + duration)"
proof (induction ws arbitrary: xs)
  case (Cons w ws)
  obtain r rs where r: "recognised_word uc start duration w = Inr r"
    and rs: "recognised_words uc start duration ws = Inr rs"
    and xs: "xs = (case r of None \<Rightarrow> rs | Some x \<Rightarrow> x # rs)"
    using Cons.prems(1) by (auto split: sum.splits)
  note ih = Cons.IH [OF rs Cons.prems(2)]
  show ?case
  proof (cases r)
    case None
    then have "py_strip uc (rw_text w) = []" using recognised_word_cases [OF r] by simp
    with None ih xs show ?thesis by simp
  next
    case (Some x)
    with recognised_word_inside [of uc start duration w x] r Cons.prems(2) ih xs show ?thesis by auto
  qed
qed simp

lemma transcribed_on_source_clock:
  "transcribe_pcm uc apple model_dir deps model tr samples rate start = Inr h \<Longrightarrow>
     hy_start h = start \<and> hy_end h = start + int (length samples) * SAMPLE_NS
     \<and> words_inside (hy_start h) (hy_end h) (hy_words h) \<and> int (length samples) \<le> tr_max_samples tr"
  by (auto simp: transcribe_pcm_def hypothesis_def Let_def NS_def split: if_splits sum.splits)

subsection \<open>Runs\<close>

datatype stabilizer_op = AcceptOp hypothesis | FlushOp

definition stabilizer_step ::
    "unidb \<Rightarrow> (ustring \<Rightarrow> ustring) \<Rightarrow> stabilizer_op \<Rightarrow> stabilizer \<Rightarrow> transcript_update option \<times> stabilizer" where
  "stabilizer_step uc nfkc oper s =
     (case oper of
        AcceptOp h \<Rightarrow> (case accept_hypothesis uc nfkc s h of Inl e \<Rightarrow> (None, s) | Inr r \<Rightarrow> r)
      | FlushOp \<Rightarrow> flush_stabilizer s)"

fun stabilizer_run ::
    "unidb \<Rightarrow> (ustring \<Rightarrow> ustring) \<Rightarrow> stabilizer_op list \<Rightarrow> stabilizer \<Rightarrow> transcript_update list \<times> stabilizer" where
  "stabilizer_run uc nfkc [] s = ([], s)"
| "stabilizer_run uc nfkc (oper # rest) s =
     (let (u, s') = stabilizer_step uc nfkc oper s; (us, s'') = stabilizer_run uc nfkc rest s'
      in ((case u of None \<Rightarrow> us | Some v \<Rightarrow> v # us), s''))"

subsection \<open>Lemmas\<close>

lemma agreed_prefix_le: "agreed_prefix agree hs ws i \<le> length ws"
  by (induction agree hs ws i rule: agreed_prefix.induct) auto

lemma agreed_prefix_agrees:
  "j < agreed_prefix agree hs ws i \<Longrightarrow> h \<in> set hs \<Longrightarrow>
     i + j < length h \<and> agree (ws ! j) (h ! (i + j))"
proof (induction agree hs ws i arbitrary: j rule: agreed_prefix.induct)
  case (2 agree hs w ws i)
  then have all: "list_all (\<lambda>h. i < length h \<and> agree w (h ! i)) hs" by (auto split: if_splits)
  show ?case
  proof (cases j)
    case 0
    with all 2(3) show ?thesis by (auto simp: list_all_iff)
  next
    case (Suc k)
    with 2 all show ?thesis by (auto simp: list_all_iff)
  qed
qed simp

lemma agreed_count_le: "agreed_count uc nfkc s ws \<le> length ws"
  by (simp add: agreed_count_def agreed_prefix_le)

lemma agreed_count_agrees:
  "j < agreed_count uc nfkc s ws \<Longrightarrow> old \<in> set (sb_history s) \<Longrightarrow>
     j < length (after_stable s old)
     \<and> words_agree uc nfkc (sb_tolerance s) (ws ! j) (after_stable s old ! j)"
  using agreed_prefix_agrees [of j "words_agree uc nfkc (sb_tolerance s)"
      "map (after_stable s) (sb_history s)" ws 0 "after_stable s old"]
  by (simp add: agreed_count_def Let_def split: if_splits)

text \<open>The longest such prefix: the word after it is refused by some remembered hypothesis.\<close>

lemma agreed_prefix_maximal:
  "agreed_prefix agree hs ws i < length ws \<Longrightarrow>
     \<exists>h \<in> set hs. \<not> (i + agreed_prefix agree hs ws i < length h
                   \<and> agree (ws ! agreed_prefix agree hs ws i) (h ! (i + agreed_prefix agree hs ws i)))"
proof (induction agree hs ws i rule: agreed_prefix.induct)
  case (2 agree hs w ws i)
  show ?case
  proof (cases "list_all (\<lambda>h. i < length h \<and> agree w (h ! i)) hs")
    case True
    with 2 show ?thesis by simp
  next
    case False
    then show ?thesis by (auto simp: list_all_iff)
  qed
qed simp

lemma stabilizer_update_state [simp]:
  "snd (stabilizer_update why s) = s\<lparr>sb_revision := sb_revision s + 1\<rparr>"
  by (simp add: stabilizer_update_def Let_def)

lemma stabilizer_update_value:
  "fst (stabilizer_update why s) =
     \<lparr>tu_segment = sb_segment s, tu_revision = sb_revision s + 1, tu_is_stable = (sb_pending s = []),
      tu_stable = sb_stable s, tu_provisional = sb_pending s, tu_reason = why\<rparr>"
  by (simp add: stabilizer_update_def Let_def)

text \<open>What one operation does: the stable words only grow, an update carries the next revision.\<close>

lemma stabilizer_step_grows:
  assumes "stabilizer_step uc nfkc oper s = (u, s')"
  shows "prefix (sb_stable s) (sb_stable s')
     \<and> (case u of None \<Rightarrow> sb_revision s' = sb_revision s
        | Some v \<Rightarrow> sb_revision s' = sb_revision s + 1 \<and> tu_revision v = sb_revision s'
                   \<and> tu_stable v = sb_stable s' \<and> tu_provisional v = sb_pending s')"
proof (cases oper)
  case (AcceptOp h)
  with assms show ?thesis
    by (auto simp: stabilizer_step_def accept_hypothesis_def Let_def stabilizer_update_value case_prod_let
        split: if_splits sum.splits option.splits)
next
  case FlushOp
  with assms show ?thesis
    by (auto simp: stabilizer_step_def flush_stabilizer_def Let_def stabilizer_update_value case_prod_let
        split: if_splits)
qed

lemma stabilizer_run_grows:
  "stabilizer_run uc nfkc ops s = (us, s') \<Longrightarrow>
     sorted_wrt (\<lambda>u v. tu_revision u < tu_revision v \<and> prefix (tu_stable u) (tu_stable v)) us
     \<and> (\<forall>u \<in> set us. sb_revision s < tu_revision u \<and> prefix (sb_stable s) (tu_stable u))
     \<and> prefix (sb_stable s) (sb_stable s')"
proof (induction ops arbitrary: s us s')
  case (Cons oper ops)
  obtain u s1 where st: "stabilizer_step uc nfkc oper s = (u, s1)" by fastforce
  obtain us1 where rn: "stabilizer_run uc nfkc ops s1 = (us1, s')" and
    us: "us = (case u of None \<Rightarrow> us1 | Some v \<Rightarrow> v # us1)"
    using Cons.prems st by (auto split: prod.splits)
  note g = stabilizer_step_grows [OF st] and ih = Cons.IH [OF rn]
  show ?case
  proof (cases u)
    case None
    with g ih us show ?thesis by (auto intro: prefix_order.order_trans)
  next
    case (Some v)
    with g ih us show ?thesis by (auto intro: prefix_order.order_trans)
  qed
qed simp

text \<open>
  The live transcript is append only: whatever hypotheses arrive and whenever the segment is flushed,
  in the sequence of emitted updates the revision strictly increases and the stable words of an update
  are a prefix of the stable words of every later one; rejected hypotheses emit nothing.
\<close>

theorem stable_words_append_only:
  "sorted_wrt (\<lambda>u v. tu_revision u < tu_revision v \<and> prefix (tu_stable u) (tu_stable v))
     (fst (stabilizer_run uc nfkc ops s))"
  using stabilizer_run_grows [of uc nfkc ops s] by (cases "stabilizer_run uc nfkc ops s") simp

lemma accept_emits:
  assumes "accept_hypothesis uc nfkc s h = Inr (Some u, s')"
  shows "sb_stable s' = sb_stable s @ take (agreed_count uc nfkc s (after_stable s (hy_words h)))
           (after_stable s (hy_words h))
     \<and> sb_pending s' = drop (agreed_count uc nfkc s (after_stable s (hy_words h)))
           (after_stable s (hy_words h))
     \<and> (0 < agreed_count uc nfkc s (after_stable s (hy_words h)) \<longrightarrow> tu_reason u = Agreement)"
  using assms unfolding accept_hypothesis_def Let_def
  by (simp add: stabilizer_update_def Let_def split: if_split_asm) (elim conjE, hypsubst_thin, simp)+

text \<open>
  What \<open>accept\<close> commits was agreed on: with \<open>k\<close> new stable words, the words after the stable prefix of
  the new hypothesis are split at \<open>k\<close>, and if \<open>k\<close> is positive then as many earlier hypotheses as the
  configuration asks for are remembered, each has a word at every committed position, and these words have
  the same canonical text and nearly the same times.
\<close>

theorem commits_are_agreed:
  assumes "accept_hypothesis uc nfkc s h = Inr (Some u, s')"
  shows "\<exists>k. sb_stable s' = sb_stable s @ take k (after_stable s (hy_words h))
     \<and> sb_pending s' = drop k (after_stable s (hy_words h))
     \<and> k \<le> length (after_stable s (hy_words h))
     \<and> (0 < k \<longrightarrow> tu_reason u = Agreement \<and> length (sb_history s) = sb_passes s - 1)
     \<and> (\<forall>j < k. \<forall>old \<in> set (sb_history s).
          j < length (after_stable s old)
          \<and> words_agree uc nfkc (sb_tolerance s) (after_stable s (hy_words h) ! j) (after_stable s old ! j))"
proof -
  let ?cur = "after_stable s (hy_words h)"
  let ?k = "agreed_count uc nfkc s ?cur"
  have st: "sb_stable s' = sb_stable s @ take ?k ?cur \<and> sb_pending s' = drop ?k ?cur
      \<and> (0 < ?k \<longrightarrow> tu_reason u = Agreement)"
    by (rule accept_emits [OF assms])
  have "0 < ?k \<longrightarrow> length (sb_history s) = sb_passes s - 1"
    by (simp add: agreed_count_def)
  with st show ?thesis
    by (intro exI [of _ ?k]) (auto simp: agreed_count_le dest: agreed_count_agrees)
qed

definition sample_word :: "string \<Rightarrow> int \<Rightarrow> int \<Rightarrow> timed_word" where
  "sample_word t a b = \<lparr>tw_text = lit t, tw_start = a, tw_end = b\<rparr>"

definition sample_stabilizer :: stabilizer where
  "sample_stabilizer = \<lparr>sb_segment = lit ''s'', sb_passes = 2, sb_tolerance = 250000000,
     sb_revision = 1, sb_stable = [], sb_pending = [sample_word ''We'' 0 400000000],
     sb_history = [[sample_word ''We'' 0 400000000]], sb_last_end = 500000000, sb_closed = False\<rparr>"

definition sample_hypothesis :: hypothesis where
  "sample_hypothesis = \<lparr>hy_start = 0, hy_end = 1000000000,
     hy_words = [sample_word ''we'' 10000000 420000000, sample_word '' go'' 420000000 900000000],
     hy_language = None\<rparr>"

lemma sample_agreement:
  "(case accept_hypothesis ascii_db id sample_stabilizer sample_hypothesis of Inl _ \<Rightarrow> False
    | Inr (u, s') \<Rightarrow> u \<noteq> None \<and> sb_stable s' = [sample_word ''we'' 10000000 420000000])"
  by code_simp

lemma commits_are_agreed_witness:
  "\<exists>u s'. accept_hypothesis ascii_db id sample_stabilizer sample_hypothesis = Inr (Some u, s')
     \<and> sb_stable s' = [sample_word ''we'' 10000000 420000000]
     \<and> (\<exists>k. sb_stable s' = take k (hy_words sample_hypothesis))"
proof -
  obtain u s' where e: "accept_hypothesis ascii_db id sample_stabilizer sample_hypothesis = Inr (Some u, s')"
    and st: "sb_stable s' = [sample_word ''we'' 10000000 420000000]"
    using sample_agreement by (auto split: sum.splits prod.splits)
  have nil: "sb_stable sample_stabilizer = []" by (simp add: sample_stabilizer_def)
  obtain k where "sb_stable s' = sb_stable sample_stabilizer
      @ take k (after_stable sample_stabilizer (hy_words sample_hypothesis))"
    using commits_are_agreed [OF e] by blast
  then have "sb_stable s' = take k (hy_words sample_hypothesis)" by (simp add: nil after_stable_def)
  with e st show ?thesis by blast
qed

end
