(* ===== verification/SpeechWindows.thy ===== *)
theory SpeechWindows
  imports EngineBase
begin

text \<open>
  Model of \<^verbatim>\<open>audio.py\<close>: PCM frames, the continuity check of one stream, reading a WAV file as frames
  and the endpointed speech windows. Positions are sample counts from the first frame after a reset.
  A push that would not return (its splitting loop) is the value \<open>None\<close>.
\<close>

datatype audio_error = AudioValue string | AudioRuntime string | AudioDiscontinuity string

subsection \<open>Frames\<close>

record audio_frame =
  af_track :: ustring
  af_epoch :: ustring
  af_sequence :: int
  af_start :: int
  af_samples :: "rat list"

definition audio_frame ::
    "ustring \<Rightarrow> ustring \<Rightarrow> int \<Rightarrow> int \<Rightarrow> pyfloat list \<Rightarrow> int \<Rightarrow> audio_error + audio_frame" where
  "audio_frame track epoch sequence start samples rate =
     (if track = [] then Inl (AudioValue ''track_id must be a nonempty string'')
      else if epoch = [] then Inl (AudioValue ''capture_epoch must be a nonempty string'')
      else if sequence < 0 then Inl (AudioValue ''sequence must be an integer >= 0'')
      else if start < 0 then Inl (AudioValue ''start_time_ns must be an integer >= 0'')
      else if rate \<noteq> SAMPLE_RATE
        then Inl (AudioValue ''AudioFrame requires mono 16 kHz PCM; resample upstream'')
      else if \<not> (1 \<le> length samples \<and> int (length samples) \<le> SAMPLE_RATE)
        then Inl (AudioValue ''samples must be a nonempty tuple of at most one second'')
      else if list_ex (\<lambda>x. \<not> pf_finite x \<or> \<not> (-1 \<le> pf_val x \<and> pf_val x \<le> 1)) samples
        then Inl (AudioValue ''PCM samples must be finite numbers in [-1, 1]'')
      else Inr \<lparr>af_track = track, af_epoch = epoch, af_sequence = sequence, af_start = start,
             af_samples = map pf_val samples\<rparr>)"

definition af_end :: "audio_frame \<Rightarrow> int" where
  "af_end f = af_start f + int (length (af_samples f)) * SAMPLE_NS"

subsection \<open>Continuity\<close>

record continuity =
  co_last :: "audio_frame option"
  co_broken :: bool

definition new_continuity :: continuity where
  "new_continuity = \<lparr>co_last = None, co_broken = False\<rparr>"

definition continues :: "audio_frame \<Rightarrow> audio_frame \<Rightarrow> bool" where
  "continues previous f \<longleftrightarrow> af_track f = af_track previous \<and> af_epoch f = af_epoch previous
     \<and> af_sequence f = af_sequence previous + 1 \<and> af_start f = af_end previous"

definition continuity_check :: "audio_frame \<Rightarrow> continuity \<Rightarrow> audio_error option \<times> continuity" where
  "continuity_check f c =
     (if co_broken c then (Some (AudioDiscontinuity ''audio stream requires an explicit reset''), c)
      else case co_last c of
        None \<Rightarrow> (None, c)
      | Some previous \<Rightarrow>
          (if continues previous f then (None, c)
           else (Some (AudioDiscontinuity
                   ''track, epoch, sequence, or sample timestamp is discontinuous''),
                 c\<lparr>co_broken := True\<rparr>)))"

definition continuity_accept :: "audio_frame \<Rightarrow> continuity \<Rightarrow> continuity" where
  "continuity_accept f c = c\<lparr>co_last := Some f\<rparr>"

subsection \<open>Reading a WAV file as frames\<close>

record wav_file =
  wv_channels :: int
  wv_rate :: int
  wv_width :: int
  wv_compressed :: bool
  wv_frames :: nat
  wv_pcm :: "int list"

text \<open>
  The generator's loop: the frames it yields and the error that ends it, if any. \<open>wv_frames\<close> is what the
  header announces, \<open>wv_pcm\<close> the samples that are there.
\<close>

function wav_loop ::
    "wav_file \<Rightarrow> nat \<Rightarrow> ustring \<Rightarrow> ustring \<Rightarrow> int \<Rightarrow> nat \<Rightarrow> int \<Rightarrow> audio_frame list \<times> audio_error option" where
  "wav_loop wav n track epoch start offset sequence =
     (if n = 0 \<or> wv_frames wav \<le> offset then ([], None)
      else
        let count = min n (wv_frames wav - offset);
            raw = take count (drop offset (wv_pcm wav))
        in if length raw \<noteq> count then ([], Some (AudioValue ''truncated PCM16 WAV''))
           else case audio_frame track epoch sequence (start + int offset * SAMPLE_NS)
                       (map (\<lambda>v. Fin (of_int v / 32768)) raw) SAMPLE_RATE of
             Inl e \<Rightarrow> ([], Some e)
           | Inr f \<Rightarrow> map_prod (\<lambda>fs. f # fs) id
               (wav_loop wav n track epoch start (offset + count) (sequence + 1)))"
  by pat_completeness auto
termination
proof (relation "measure (\<lambda>(wav, n, track, epoch, start, offset, sequence). wv_frames wav - offset)",
    simp, goal_cases)
  case (1 wav n track epoch start offset sequence count raw f)
  then have "0 < min n (wv_frames wav - offset)" by simp
  with 1 show ?case by (simp del: min_less_iff_conj) linarith
qed

declare wav_loop.simps [simp del]

definition iter_wav_frames ::
    "wav_file \<Rightarrow> int \<Rightarrow> ustring \<Rightarrow> ustring \<Rightarrow> int \<Rightarrow> audio_frame list \<times> audio_error option" where
  "iter_wav_frames wav frame_samples track epoch start =
     (if frame_samples < 1 then ([], Some (AudioValue ''frame_samples must be an integer >= 1''))
      else if start < 0 then ([], Some (AudioValue ''start_time_ns must be an integer >= 0''))
      else if SAMPLE_RATE < frame_samples
        then ([], Some (AudioValue ''frame_samples must be at most one second''))
      else if track = [] then ([], Some (AudioValue ''track_id must be a nonempty string''))
      else if epoch = [] then ([], Some (AudioValue ''capture_epoch must be a nonempty string''))
      else if wv_channels wav \<noteq> 1 \<or> wv_rate wav \<noteq> SAMPLE_RATE \<or> wv_width wav \<noteq> 2 \<or> wv_compressed wav
        then ([], Some (AudioValue ''WAV requires uncompressed PCM16 mono 16 kHz''))
      else wav_loop wav (nat frame_samples) track epoch start 0 0)"

subsection \<open>The window builder\<close>

record window_config =
  wc_step :: int
  wc_min_window :: int
  wc_endpoint :: int
  wc_pre_roll :: int
  wc_pad :: int
  wc_max_window :: int
  wc_overlap :: int
  wc_threshold :: rat
  wc_negative :: rat

record speech_window =
  sw_segment :: ustring
  sw_track :: ustring
  sw_epoch :: ustring
  sw_start :: int
  sw_end :: int
  sw_samples :: "rat list"
  sw_final :: bool
  sw_reason :: ustring
  sw_emit_start :: int
  sw_last_speech :: int

record builder =
  wb_config :: window_config
  wb_counter :: nat
  wb_continuity :: continuity
  wb_origin :: int
  wb_position :: int
  wb_recent :: "rat list"
  wb_samples :: "rat list"
  wb_start :: int
  wb_emit_start :: int
  wb_segment :: "ustring option"
  wb_track :: ustring
  wb_epoch :: ustring
  wb_last_speech :: int
  wb_last_output :: int
  wb_last_final :: int
  wb_closed :: bool

definition reset_builder :: "builder \<Rightarrow> builder" where
  "reset_builder b = b\<lparr>wb_continuity := new_continuity, wb_origin := 0, wb_position := 0,
     wb_recent := [], wb_samples := [], wb_start := 0, wb_emit_start := 0, wb_segment := None,
     wb_track := [], wb_epoch := [], wb_last_speech := 0, wb_last_output := 0, wb_last_final := 0,
     wb_closed := False\<rparr>"

definition samples_of :: "pyfloat \<Rightarrow> int" where
  "samples_of d = py_round (pf_val d * of_int SAMPLE_RATE)"

definition new_builder ::
    "pyfloat \<Rightarrow> pyfloat \<Rightarrow> pyfloat \<Rightarrow> pyfloat \<Rightarrow> pyfloat \<Rightarrow> pyfloat \<Rightarrow> pyfloat \<Rightarrow> pyfloat \<Rightarrow> pyfloat
       \<Rightarrow> audio_error + builder" where
  "new_builder step min_window endpoint pre_roll pad max_window overlap threshold negative =
     (if list_ex (\<lambda>d. \<not> pf_finite d \<or> pf_val d < 0)
           [step, min_window, endpoint, pre_roll, pad, max_window, overlap]
        then Inl (AudioValue ''a finite nonnegative duration is required'')
      else if \<not> (0 < pf_val step \<and> pf_val step \<le> pf_val max_window \<and> pf_val max_window \<le> 30
               \<and> 0 < pf_val min_window \<and> pf_val min_window \<le> pf_val max_window
               \<and> 0 < pf_val endpoint \<and> pf_val pad \<le> pf_val endpoint
               \<and> pf_val pre_roll < pf_val max_window \<and> pf_val overlap < pf_val max_window)
        then Inl (AudioValue ''invalid step, endpoint, padding, or maximum window duration'')
      else if \<not> pf_finite threshold \<or> \<not> pf_finite negative
            \<or> \<not> (0 \<le> pf_val negative \<and> pf_val negative \<le> pf_val threshold \<and> pf_val threshold \<le> 1)
        then Inl (AudioValue ''VAD thresholds must satisfy 0 <= negative <= positive <= 1'')
      else
        let c = \<lparr>wc_step = samples_of step, wc_min_window = samples_of min_window,
                 wc_endpoint = samples_of endpoint, wc_pre_roll = samples_of pre_roll,
                 wc_pad = samples_of pad, wc_max_window = samples_of max_window,
                 wc_overlap = samples_of overlap, wc_threshold = pf_val threshold,
                 wc_negative = pf_val negative\<rparr>
        in if min (wc_step c) (min (wc_min_window c) (wc_endpoint c)) < 1
             then Inl (AudioValue ''step, minimum window, and endpoint must be at least one sample'')
           else if \<not> (wc_overlap c < wc_max_window c \<and> wc_pre_roll c < wc_max_window c)
             then Inl (AudioValue
               ''rounded overlap and pre-roll must be shorter than the maximum window'')
           else Inr \<lparr>wb_config = c, wb_counter = 0, wb_continuity = new_continuity, wb_origin = 0,
                  wb_position = 0, wb_recent = [], wb_samples = [], wb_start = 0, wb_emit_start = 0,
                  wb_segment = None, wb_track = [], wb_epoch = [], wb_last_speech = 0,
                  wb_last_output = 0, wb_last_final = 0, wb_closed = False\<rparr>)"

definition buffered_samples :: "builder \<Rightarrow> nat" where
  "buffered_samples b = length (wb_samples b) + length (wb_recent b)"

definition new_segment :: "int \<Rightarrow> int \<Rightarrow> rat list \<Rightarrow> builder \<Rightarrow> builder" where
  "new_segment start emit_start samples b =
     b\<lparr>wb_counter := wb_counter b + 1,
       wb_segment := Some (wb_track b @ [58] @ wb_epoch b @ [58] @ dec (wb_counter b + 1)),
       wb_start := start, wb_emit_start := emit_start, wb_samples := samples,
       wb_last_output := emit_start\<rparr>"

definition cut_window :: "int \<Rightarrow> bool \<Rightarrow> ustring \<Rightarrow> builder \<Rightarrow> speech_window \<times> builder" where
  "cut_window end final reason b =
     (\<lparr>sw_segment = (case wb_segment b of Some i \<Rightarrow> i | None \<Rightarrow> []),
       sw_track = wb_track b, sw_epoch = wb_epoch b,
       sw_start = wb_origin b + wb_start b * SAMPLE_NS, sw_end = wb_origin b + end * SAMPLE_NS,
       sw_samples = py_upto (end - wb_start b) (wb_samples b), sw_final = final, sw_reason = reason,
       sw_emit_start = wb_origin b + wb_emit_start b * SAMPLE_NS,
       sw_last_speech = wb_origin b + min end (wb_last_speech b) * SAMPLE_NS\<rparr>,
      b\<lparr>wb_last_output := max (wb_last_output b) end,
        wb_last_final := (if final then max (wb_last_final b) end else wb_last_final b)\<rparr>)"

text \<open>The body of the \<open>while\<close> loop: one window of maximum length and its continuation.\<close>

definition split_once :: "builder \<Rightarrow> speech_window \<times> builder" where
  "split_once b =
     (let boundary = wb_start b + wc_max_window (wb_config b);
          (w, b1) = cut_window boundary True (lit ''max_window'') b;
          continuation_start = boundary - wc_overlap (wb_config b1);
          remaining = py_from (continuation_start - wb_start b1) (wb_samples b1)
      in (w, new_segment continuation_start boundary remaining b1))"

partial_function (option) split_windows ::
    "int \<Rightarrow> builder \<Rightarrow> (speech_window list \<times> builder) option" where
  "split_windows visible b =
     (if wc_max_window (wb_config b) \<le> visible - wb_start b
      then Option.bind (split_windows visible (snd (split_once b)))
             (\<lambda>r. Some (fst (split_once b) # fst r, snd r))
      else Some ([], b))"

declare split_windows.simps [code]

definition begin_frame :: "audio_frame \<Rightarrow> builder \<Rightarrow> builder" where
  "begin_frame f b =
     (if co_last (wb_continuity b) = None
      then b\<lparr>wb_origin := af_start f, wb_track := af_track f, wb_epoch := af_epoch f\<rparr> else b)"

definition is_speech :: "builder \<Rightarrow> rat \<Rightarrow> bool" where
  "is_speech b probability \<longleftrightarrow>
     (if wb_segment b \<noteq> None then wc_negative (wb_config b) else wc_threshold (wb_config b)) \<le> probability"

definition open_segment :: "bool \<Rightarrow> builder \<Rightarrow> builder" where
  "open_segment speech b =
     (if speech \<and> wb_segment b = None
      then let window_start = wb_position b - int (length (wb_recent b))
           in new_segment window_start (max window_start (wb_last_final b)) (wb_recent b) b
      else b)"

definition buffer_frame :: "audio_frame \<Rightarrow> bool \<Rightarrow> builder \<Rightarrow> builder" where
  "buffer_frame f speech b =
     (let e = wb_position b + int (length (af_samples f));
          b1 = (if wb_segment b \<noteq> None
                then b\<lparr>wb_samples := wb_samples b @ af_samples f,
                       wb_last_speech := (if speech then e else wb_last_speech b)\<rparr>
                else b)
      in b1\<lparr>wb_recent := keep_last (nat (wc_pre_roll (wb_config b))) (wb_recent b @ af_samples f),
            wb_position := e, wb_continuity := continuity_accept f (wb_continuity b)\<rparr>)"

definition visible_end :: "bool \<Rightarrow> builder \<Rightarrow> int" where
  "visible_end speech b =
     (if speech then wb_position b else min (wb_position b) (wb_last_speech b + wc_pad (wb_config b)))"

text \<open>The tail of \<open>push\<close>: close the segment at an endpoint, or show an incremental window.\<close>

definition finish_push :: "bool \<Rightarrow> int \<Rightarrow> builder \<Rightarrow> speech_window list \<times> builder" where
  "finish_push endpoint visible b =
     (if endpoint then
        let (ws, b1) = (if wb_emit_start b < visible
                        then (case cut_window visible True (lit ''endpoint'') b of (w, b') \<Rightarrow> ([w], b'))
                        else ([], b))
        in (ws, b1\<lparr>wb_samples := [], wb_segment := None\<rparr>)
      else if wc_min_window (wb_config b) \<le> visible - wb_start b
            \<and> wc_step (wb_config b) \<le> visible - wb_last_output b \<and> wb_emit_start b < visible
        then (case cut_window visible False (lit ''incremental'') b of (w, b') \<Rightarrow> ([w], b'))
      else ([], b))"

definition push_frame ::
    "audio_frame \<Rightarrow> pyfloat \<Rightarrow> builder \<Rightarrow> ((audio_error + speech_window list) \<times> builder) option" where
  "push_frame f probability b =
     (if wb_closed b
        then Some (Inl (AudioRuntime ''speech stream is flushed; reset before more audio''), b)
      else if \<not> pf_finite probability \<or> \<not> (0 \<le> pf_val probability \<and> pf_val probability \<le> 1)
        then Some (Inl (AudioValue ''speech_probability must be finite and lie in [0, 1]''), b)
      else case continuity_check f (wb_continuity b) of
        (Some e, c) \<Rightarrow> Some (Inl e, b\<lparr>wb_continuity := c\<rparr>)
      | (None, c) \<Rightarrow>
          let b0 = begin_frame f (b\<lparr>wb_continuity := c\<rparr>);
              speech = is_speech b0 (pf_val probability);
              b1 = buffer_frame f speech (open_segment speech b0);
              visible = visible_end speech b1;
              endpoint = (\<not> speech \<and> wc_endpoint (wb_config b1) \<le> wb_position b1 - wb_last_speech b1)
          in if wb_segment b1 = None then Some (Inr [], b1)
             else map_option (\<lambda>(ws, b2).
                    case finish_push endpoint visible b2 of (ws', b3) \<Rightarrow> (Inr (ws @ ws'), b3))
                  (split_windows visible b1))"

definition flush_builder :: "ustring \<Rightarrow> builder \<Rightarrow> speech_window list \<times> builder" where
  "flush_builder reason b =
     (if wb_closed b then ([], b)
      else
        let b1 = b\<lparr>wb_closed := True\<rparr>;
            (ws, b2) =
              (if wb_segment b1 \<noteq> None then
                 let e = min (wb_position b1) (wb_last_speech b1 + wc_pad (wb_config b1))
                 in if wb_emit_start b1 < e
                    then (case cut_window e True reason b1 of (w, b') \<Rightarrow> ([w], b')) else ([], b1)
               else ([], b1))
        in (ws, b2\<lparr>wb_samples := [], wb_recent := [], wb_segment := None\<rparr>))"

subsection \<open>Reading a file: the samples come back, as one continuous stream\<close>

fun continuous_frames :: "audio_frame \<Rightarrow> audio_frame list \<Rightarrow> bool" where
  "continuous_frames previous [] = True"
| "continuous_frames previous (f # fs) = (continues previous f \<and> continuous_frames f fs)"

lemma audio_frame_Inr:
  "audio_frame track epoch sequence start samples rate = Inr f \<Longrightarrow>
     f = \<lparr>af_track = track, af_epoch = epoch, af_sequence = sequence, af_start = start,
          af_samples = map pf_val samples\<rparr>"
  by (auto simp: audio_frame_def split: if_splits)

lemma wav_loop_frames:
  "wav_loop wav n track epoch start offset sequence = (fs, None) \<Longrightarrow> 0 < n \<Longrightarrow>
     concat (map af_samples fs)
       = map (\<lambda>v. of_int v / 32768) (take (wv_frames wav - offset) (drop offset (wv_pcm wav)))
     \<and> (case fs of [] \<Rightarrow> True
        | f # r \<Rightarrow> af_start f = start + int offset * SAMPLE_NS \<and> af_sequence f = sequence
                  \<and> af_track f = track \<and> af_epoch f = epoch \<and> continuous_frames f r)"
proof (induction wav n track epoch start offset sequence arbitrary: fs rule: wav_loop.induct)
  case (1 wav n track epoch start offset sequence)
  let ?count = "min n (wv_frames wav - offset)"
  let ?raw = "take ?count (drop offset (wv_pcm wav))"
  show ?case
  proof (cases "wv_frames wav \<le> offset")
    case True
    then have "fs = []" using 1(2) by (simp add: wav_loop.simps)
    with True show ?thesis by simp
  next
    case False
    note run = 1(2) [unfolded wav_loop.simps [of wav n track epoch start offset sequence] Let_def]
    from run False \<open>0 < n\<close> have len: "length ?raw = ?count" by (auto split: if_splits)
    obtain gs r where gs': "wav_loop wav n track epoch start (offset + ?count) (sequence + 1) = (gs, r)"
      by fastforce
    from run False \<open>0 < n\<close> len obtain f where
      f: "audio_frame track epoch sequence (start + int offset * SAMPLE_NS)
            (map (\<lambda>v. Fin (of_int v / 32768)) ?raw) SAMPLE_RATE = Inr f" and
      fs: "fs = f # gs" and r: "r = None"
      by (auto split: if_splits sum.splits simp: gs')
    note gs = gs' [unfolded r]
    note f' = audio_frame_Inr [OF f]
    have ih: "concat (map af_samples gs) = map (\<lambda>v. of_int v / 32768)
          (take (wv_frames wav - (offset + ?count)) (drop (offset + ?count) (wv_pcm wav)))
        \<and> (case gs of [] \<Rightarrow> True
           | g # r \<Rightarrow> af_start g = start + int (offset + ?count) * SAMPLE_NS \<and> af_sequence g = sequence + 1
                     \<and> af_track g = track \<and> af_epoch g = epoch \<and> continuous_frames g r)"
      using 1(1) [of ?count ?raw f gs] False \<open>0 < n\<close> len f gs by simp
    have sum: "wv_frames wav - offset = ?count + (wv_frames wav - (offset + ?count))" by simp
    have split: "take (wv_frames wav - offset) (drop offset (wv_pcm wav))
        = ?raw @ take (wv_frames wav - (offset + ?count)) (drop (offset + ?count) (wv_pcm wav))"
      by (subst sum, subst take_add) (simp add: add.commute)
    have vals: "map pf_val (map (\<lambda>v. Fin (of_int v / 32768)) ?raw) = map (\<lambda>v. of_int v / 32768) ?raw"
      by simp
    have "af_end f = start + int (offset + ?count) * SAMPLE_NS"
      using len by (simp add: f' af_end_def algebra_simps)
    with ih show ?thesis
      by (cases gs) (auto simp: fs f' vals split continues_def simp del: map_map take_map)
  qed
qed

end
