(* ===== verification/SpeechInv.thy ===== *)
theory SpeechInv
  imports SpeechWindows
begin

text \<open>
  Correctness of the speech windows: the invariant ties the builder to the stream of samples pushed so
  far (an argument of the invariant, not of the code), every operation keeps it, the splitting loop of
  a push returns, and every window is an exact piece of the stream.
\<close>

subsection \<open>Configuration\<close>

definition valid_config :: "window_config \<Rightarrow> bool" where
  "valid_config c \<longleftrightarrow> 1 \<le> wc_step c \<and> 1 \<le> wc_min_window c \<and> 1 \<le> wc_endpoint c
     \<and> 0 \<le> wc_pre_roll c \<and> 0 \<le> wc_overlap c \<and> 0 \<le> wc_pad c \<and> wc_pad c \<le> wc_endpoint c
     \<and> wc_overlap c < wc_max_window c \<and> wc_pre_roll c < wc_max_window c"

lemma samples_of_nonneg: "0 \<le> pf_val d \<Longrightarrow> 0 \<le> samples_of d"
  by (simp add: samples_of_def SAMPLE_RATE_def py_round_nonneg)

lemma samples_of_mono: "pf_val d \<le> pf_val e \<Longrightarrow> samples_of d \<le> samples_of e"
  by (simp add: samples_of_def SAMPLE_RATE_def py_round_mono)

lemma new_builder_valid:
  assumes "new_builder step min_window endpoint pre_roll pad max_window overlap threshold negative = Inr b"
  shows "valid_config (wb_config b) \<and> wb_position b = 0 \<and> wb_recent b = [] \<and> wb_samples b = []
     \<and> wb_segment b = None \<and> wb_last_speech b = 0 \<and> wb_last_final b = 0 \<and> \<not> wb_closed b
     \<and> wb_continuity b = new_continuity"
proof -
  have "\<not> list_ex (\<lambda>d. \<not> pf_finite d \<or> pf_val d < 0)
      [step, min_window, endpoint, pre_roll, pad, max_window, overlap]"
    "pf_val pad \<le> pf_val endpoint"
    using assms by (auto simp: new_builder_def split: if_splits)
  then have "0 \<le> samples_of pre_roll" "0 \<le> samples_of pad" "0 \<le> samples_of overlap"
    "samples_of pad \<le> samples_of endpoint"
    by (auto intro: samples_of_nonneg samples_of_mono)
  with assms show ?thesis
    by (auto simp: new_builder_def Let_def valid_config_def split: if_splits)
qed

subsection \<open>The invariant\<close>

definition segment_ok :: "rat list \<Rightarrow> builder \<Rightarrow> bool" where
  "segment_ok stream b \<longleftrightarrow>
     0 \<le> wb_start b \<and> wb_start b \<le> wb_emit_start b \<and> wb_emit_start b \<le> wb_position b
     \<and> wb_emit_start b < wb_start b + wc_max_window (wb_config b)
     \<and> wb_last_final b \<le> wb_emit_start b
     \<and> wb_samples b = drop (nat (wb_start b)) stream"

definition core_inv :: "rat list \<Rightarrow> builder \<Rightarrow> bool" where
  "core_inv stream b \<longleftrightarrow> valid_config (wb_config b) \<and> wb_position b = int (length stream)
     \<and> 0 \<le> wb_last_final b \<and> wb_last_final b \<le> wb_position b \<and> wb_last_speech b \<le> wb_position b
     \<and> (wb_segment b \<noteq> None \<longrightarrow> segment_ok stream b)
     \<and> (wb_segment b = None \<longrightarrow> wb_samples b = [])"

definition builder_inv :: "rat list \<Rightarrow> builder \<Rightarrow> bool" where
  "builder_inv stream b \<longleftrightarrow> core_inv stream b
     \<and> (co_last (wb_continuity b) = None \<longrightarrow> stream = [])
     \<and> (\<not> wb_closed b \<longrightarrow> wb_recent b = keep_last (nat (wc_pre_roll (wb_config b))) stream)
     \<and> (wb_closed b \<longrightarrow> wb_segment b = None \<and> wb_recent b = [])
     \<and> (wb_segment b \<noteq> None \<longrightarrow>
          wb_position b - wb_start b < wc_max_window (wb_config b) + wc_endpoint (wb_config b)
          \<and> min (wb_position b) (wb_last_speech b + wc_pad (wb_config b)) - wb_start b
              < wc_max_window (wb_config b))"

text \<open>A window is the piece \<open>[a, e)\<close> of the stream, at most \<open>limit\<close> long, to be heard from \<open>m\<close>.\<close>

definition exact_window :: "rat list \<Rightarrow> int \<Rightarrow> int \<Rightarrow> speech_window \<Rightarrow> bool" where
  "exact_window stream origin limit w \<longleftrightarrow>
     (\<exists>a m e. 0 \<le> a \<and> a \<le> m \<and> m < e \<and> e \<le> int (length stream) \<and> e - a \<le> limit
        \<and> sw_start w = origin + a * SAMPLE_NS \<and> sw_emit_start w = origin + m * SAMPLE_NS
        \<and> sw_end w = origin + e * SAMPLE_NS \<and> sw_samples w = slice (nat a) (nat e) stream)"

lemma new_builder_inv:
  "new_builder step min_window endpoint pre_roll pad max_window overlap threshold negative = Inr b \<Longrightarrow>
     builder_inv [] b"
  using new_builder_valid [of step min_window endpoint pre_roll pad max_window overlap threshold negative b]
  by (simp add: builder_inv_def core_inv_def keep_last_def)

lemma reset_builder_inv: "builder_inv stream b \<Longrightarrow> builder_inv [] (reset_builder b)"
  by (simp add: builder_inv_def core_inv_def reset_builder_def keep_last_def)

lemma exact_window_append:
  assumes "exact_window stream origin limit w"
  shows "exact_window (stream @ later) origin limit w"
proof -
  obtain a m e where w: "0 \<le> a" "a \<le> m" "m < e" "e \<le> int (length stream)" "e - a \<le> limit"
    "sw_start w = origin + a * SAMPLE_NS" "sw_emit_start w = origin + m * SAMPLE_NS"
    "sw_end w = origin + e * SAMPLE_NS" "sw_samples w = slice (nat a) (nat e) stream"
    using assms unfolding exact_window_def by blast
  have "slice (nat a) (nat e) (stream @ later) = slice (nat a) (nat e) stream"
    by (rule slice_cong_take [of "length stream"]) (use w in auto)
  then show ?thesis
    unfolding exact_window_def
    by (rule_tac exI [of _ a], rule_tac exI [of _ m], rule_tac exI [of _ e])
      (use w(4) in \<open>simp add: w(1-3,5-9) del: SAMPLE_NS_eq\<close>)
qed

subsection \<open>Cutting a window\<close>

lemma cut_window_state:
  "cut_window e final reason b = (w, b') \<Longrightarrow>
     b' = b\<lparr>wb_last_output := max (wb_last_output b) e,
            wb_last_final := (if final then max (wb_last_final b) e else wb_last_final b)\<rparr>
     \<and> sw_final w = final \<and> sw_emit_start w = wb_origin b + wb_emit_start b * SAMPLE_NS
     \<and> sw_end w = wb_origin b + e * SAMPLE_NS"
  by (auto simp: cut_window_def)

lemma cut_window_exact:
  assumes "segment_ok stream b" "wb_position b = int (length stream)" "wb_emit_start b < e"
    "e \<le> wb_position b" "e - wb_start b \<le> limit" "cut_window e final reason b = (w, b')"
  shows "exact_window stream (wb_origin b) limit w"
proof -
  have "sw_samples w = slice (nat (wb_start b)) (nat e) stream"
    using assms by (auto simp: cut_window_def segment_ok_def py_upto_nonneg slice_def nat_diff_distrib)
  then show ?thesis
    using assms unfolding exact_window_def segment_ok_def
    by (intro exI [of _ "wb_start b"] exI [of _ "wb_emit_start b"] exI [of _ e])
      (auto simp: cut_window_def)
qed

subsection \<open>The splitting loop\<close>

lemma split_once_state:
  "wb_start (snd (split_once b)) = wb_start b + wc_max_window (wb_config b) - wc_overlap (wb_config b)"
  "wb_config (snd (split_once b)) = wb_config b"
  "wb_position (snd (split_once b)) = wb_position b"
  "wb_last_speech (snd (split_once b)) = wb_last_speech b"
  "wb_origin (snd (split_once b)) = wb_origin b"
  "wb_continuity (snd (split_once b)) = wb_continuity b"
  "wb_closed (snd (split_once b)) = wb_closed b"
  "wb_recent (snd (split_once b)) = wb_recent b"
  "wb_segment (snd (split_once b)) \<noteq> None"
  "wb_emit_start (snd (split_once b)) = wb_start b + wc_max_window (wb_config b)"
  "wb_last_final (snd (split_once b)) = max (wb_last_final b) (wb_start b + wc_max_window (wb_config b))"
  by (simp_all add: split_once_def cut_window_def new_segment_def Let_def)

lemma split_once_ok:
  assumes inv: "core_inv stream b" and seg: "wb_segment b \<noteq> None"
    and room: "wb_start b + wc_max_window (wb_config b) \<le> wb_position b"
  shows "core_inv stream (snd (split_once b))
     \<and> exact_window stream (wb_origin b) (wc_max_window (wb_config b)) (fst (split_once b))
     \<and> sw_final (fst (split_once b))
     \<and> sw_emit_start (fst (split_once b)) = wb_origin b + wb_emit_start b * SAMPLE_NS
     \<and> sw_end (fst (split_once b)) = wb_origin b + wb_emit_start (snd (split_once b)) * SAMPLE_NS"
proof -
  let ?e = "wb_start b + wc_max_window (wb_config b)"
  have ok: "segment_ok stream b" and v: "valid_config (wb_config b)"
    and pos: "wb_position b = int (length stream)"
    using inv seg by (auto simp: core_inv_def)
  obtain w b1 where cw: "cut_window ?e True (lit ''max_window'') b = (w, b1)" by fastforce
  note st = cut_window_state [OF cw]
  have fst: "fst (split_once b) = w" by (simp add: split_once_def cw Let_def)
  have ex: "exact_window stream (wb_origin b) (wc_max_window (wb_config b)) w"
    by (rule cut_window_exact [OF ok pos _ room _ cw]) (use ok in \<open>auto simp: segment_ok_def\<close>)
  have smp: "wb_samples (snd (split_once b)) = drop (nat (?e - wc_overlap (wb_config b))) stream"
  proof -
    let ?d = "wc_max_window (wb_config b) - wc_overlap (wb_config b)"
    have d: "0 \<le> ?d" "0 \<le> wb_start b" using v ok by (auto simp: valid_config_def segment_ok_def)
    have "wb_samples (snd (split_once b)) = drop (nat ?d) (drop (nat (wb_start b)) stream)"
      using st ok d by (simp add: split_once_def cw Let_def new_segment_def segment_ok_def py_from_nonneg)
    also have "\<dots> = drop (nat (wb_start b + ?d)) stream"
      using d by (simp only: drop_drop nat_add_distrib add.commute)
    finally show ?thesis by (simp only: add_diff_eq)
  qed
  have "core_inv stream (snd (split_once b))"
    using inv ok v pos room smp seg
    by (auto simp: core_inv_def segment_ok_def split_once_state valid_config_def)
  with ex st fst show ?thesis by (simp add: split_once_state)
qed

text \<open>The loop returns: every turn moves the start forward by at least one sample.\<close>

lemma split_windows_returns:
  "valid_config (wb_config b) \<Longrightarrow> \<exists>r. split_windows visible b = Some r"
proof (induction "nat (visible - wb_start b)" arbitrary: b rule: less_induct)
  case less
  show ?case
  proof (cases "wc_max_window (wb_config b) \<le> visible - wb_start b")
    case False
    then show ?thesis by (simp add: split_windows.simps [of visible b])
  next
    case True
    have "wc_overlap (wb_config b) < wc_max_window (wb_config b)" "0 < wc_max_window (wb_config b)"
      using less.prems by (auto simp: valid_config_def)
    then have "nat (visible - wb_start (snd (split_once b))) < nat (visible - wb_start b)"
      using True by (simp add: split_once_state)
    from less.hyps [OF this] less.prems obtain r where
      "split_windows visible (snd (split_once b)) = Some r"
      by (auto simp: split_once_state)
    with True show ?thesis by (simp add: split_windows.simps [of visible b])
  qed
qed

text \<open>Emission: a window is heard from a point no final window before it has covered.\<close>

definition emits :: "int \<Rightarrow> speech_window list \<Rightarrow> int \<Rightarrow> bool" where
  "emits lo ws hi \<longleftrightarrow> lo \<le> hi \<and> (\<forall>w \<in> set ws. lo \<le> sw_emit_start w)
     \<and> (\<forall>w \<in> set ws. sw_final w \<longrightarrow> sw_end w \<le> hi)
     \<and> sorted_wrt (\<lambda>w w'. sw_final w \<longrightarrow> sw_end w \<le> sw_emit_start w') ws"

lemma emits_Nil: "lo \<le> hi \<Longrightarrow> emits lo [] hi"
  by (simp add: emits_def)

lemma emits_append:
  assumes "emits lo ws mid" "emits mid ws' hi"
  shows "emits lo (ws @ ws') hi"
proof -
  have "sw_final w \<longrightarrow> sw_end w \<le> sw_emit_start w'" if "w \<in> set ws" "w' \<in> set ws'" for w w'
    using assms that unfolding emits_def by (meson order_trans)
  with assms show ?thesis unfolding emits_def by (auto simp: sorted_wrt_append intro: order_trans)
qed

abbreviation final_point :: "builder \<Rightarrow> int" where
  "final_point b \<equiv> wb_origin b + wb_last_final b * SAMPLE_NS"

definition same_stream :: "builder \<Rightarrow> builder \<Rightarrow> bool" where
  "same_stream b b' \<longleftrightarrow> wb_config b' = wb_config b \<and> wb_position b' = wb_position b
     \<and> wb_last_speech b' = wb_last_speech b \<and> wb_origin b' = wb_origin b
     \<and> wb_continuity b' = wb_continuity b \<and> wb_closed b' = wb_closed b \<and> wb_recent b' = wb_recent b"

lemma same_stream_refl: "same_stream b b"
  by (simp add: same_stream_def)

lemma same_stream_trans: "same_stream b c \<Longrightarrow> same_stream c d \<Longrightarrow> same_stream b d"
  by (simp add: same_stream_def)

lemma same_stream_split: "same_stream b (snd (split_once b))"
  by (simp add: same_stream_def split_once_state)

lemma split_windows_ok:
  assumes "split_windows visible b = Some (ws, b')" "core_inv stream b" "wb_segment b \<noteq> None"
    "visible \<le> wb_position b"
  shows "core_inv stream b' \<and> wb_segment b' \<noteq> None \<and> same_stream b b'
     \<and> visible - wb_start b' < wc_max_window (wb_config b)
     \<and> list_all (exact_window stream (wb_origin b) (wc_max_window (wb_config b))) ws
     \<and> emits (final_point b) ws (final_point b')"
  using assms
proof (induction "nat (visible - wb_start b)" arbitrary: b ws rule: less_induct)
  case less
  show ?case
  proof (cases "wc_max_window (wb_config b) \<le> visible - wb_start b")
    case False
    with less.prems show ?thesis
      by (simp add: split_windows.simps [of visible b] same_stream_refl emits_Nil)
  next
    case True
    let ?w = "fst (split_once b)" and ?b1 = "snd (split_once b)"
    obtain ws1 where r: "split_windows visible ?b1 = Some (ws1, b')" and ws: "ws = ?w # ws1"
      using less.prems(1) True by (auto simp: split_windows.simps [of visible b] bind_eq_Some_conv)
    have "wb_start b + wc_max_window (wb_config b) \<le> wb_position b" using True less.prems(4) by linarith
    note one = split_once_ok [OF less.prems(2,3) this]
    have v: "valid_config (wb_config b)" using less.prems(2) by (simp add: core_inv_def)
    have dec: "nat (visible - wb_start ?b1) < nat (visible - wb_start b)"
      using True v by (auto simp: split_once_state valid_config_def)
    have vis: "visible \<le> wb_position ?b1" using less.prems(4) by (simp add: split_once_state)
    note rest = less.hyps [OF dec r _ split_once_state(9) vis]
    have lf: "wb_last_final b \<le> wb_emit_start b" "wb_emit_start b < wb_start b + wc_max_window (wb_config b)"
      using less.prems(2,3) by (auto simp: core_inv_def segment_ok_def)
    then have lf1: "wb_last_final ?b1 = wb_start b + wc_max_window (wb_config b)"
      by (simp add: split_once_state)
    have "emits (final_point b) [?w] (final_point ?b1)"
      unfolding emits_def using one lf by (simp add: split_once_state lf1)
    from emits_append [OF this] rest one ws show ?thesis
      by (auto simp: split_once_state intro: same_stream_trans [OF same_stream_split])
  qed
qed

subsection \<open>A frame enters the buffers\<close>

lemma begin_frame_inv: "builder_inv stream b \<Longrightarrow> builder_inv stream (begin_frame f b)"
  by (cases "co_last (wb_continuity b) = None")
    (auto simp: begin_frame_def builder_inv_def core_inv_def segment_ok_def)

lemma keep_last_append: "keep_last n (keep_last n xs @ ys) = keep_last n (xs @ ys)"
  by (cases "length xs \<le> n") (auto simp: keep_last_def add.commute)

lemma keep_last_drop: "keep_last n xs = drop (length xs - n) xs"
  by (simp add: keep_last_def)

lemma new_segment_inv:
  assumes "core_inv stream b" "0 \<le> s" "s \<le> wb_position b"
    "wb_position b < s + wc_max_window (wb_config b)" "samples = drop (nat s) stream"
  shows "core_inv stream (new_segment s (max s (wb_last_final b)) samples b)"
  using assms by (auto simp: core_inv_def new_segment_def segment_ok_def)

lemma open_segment_inv:
  assumes inv: "core_inv stream b" and recent: "wb_recent b = keep_last (nat (wc_pre_roll (wb_config b))) stream"
  shows "core_inv stream (open_segment speech b)"
proof (cases "speech \<and> wb_segment b = None")
  case False
  with inv show ?thesis by (auto simp: open_segment_def)
next
  case True
  let ?p = "nat (wc_pre_roll (wb_config b))"
  let ?s = "wb_position b - int (length (wb_recent b))"
  have v: "valid_config (wb_config b)" and pos: "wb_position b = int (length stream)"
    and lf: "0 \<le> wb_last_final b" "wb_last_final b \<le> wb_position b"
    using inv by (auto simp: core_inv_def)
  have s: "?s = int (length stream - ?p)" by (simp add: pos recent min_def of_nat_diff)
  have "0 \<le> ?s" by (simp only: s of_nat_0_le_iff)
  have smp: "wb_recent b = drop (nat ?s) stream" by (simp only: s nat_int) (simp add: recent keep_last_drop)
  have "?s \<le> wb_position b" "wb_position b - ?s \<le> wc_pre_roll (wb_config b)"
    using v by (auto simp: recent valid_config_def min_def)
  moreover have "wc_pre_roll (wb_config b) < wc_max_window (wb_config b)"
    using v by (simp add: valid_config_def)
  ultimately have "wb_position b < ?s + wc_max_window (wb_config b)" by linarith
  from new_segment_inv [OF inv \<open>0 \<le> ?s\<close> \<open>?s \<le> wb_position b\<close> this smp] True
  show ?thesis by (simp add: open_segment_def Let_def)
qed

lemma open_segment_frame:
  "wb_config (open_segment speech b) = wb_config b" "wb_position (open_segment speech b) = wb_position b"
  "wb_recent (open_segment speech b) = wb_recent b" "wb_last_speech (open_segment speech b) = wb_last_speech b"
  "wb_origin (open_segment speech b) = wb_origin b" "wb_closed (open_segment speech b) = wb_closed b"
  "wb_last_final (open_segment speech b) = wb_last_final b"
  "wb_continuity (open_segment speech b) = wb_continuity b"
  by (simp_all add: open_segment_def new_segment_def Let_def)

lemma buffer_frame_frame:
  "wb_config (buffer_frame f speech b) = wb_config b"
  "wb_position (buffer_frame f speech b) = wb_position b + int (length (af_samples f))"
  "wb_origin (buffer_frame f speech b) = wb_origin b" "wb_closed (buffer_frame f speech b) = wb_closed b"
  "wb_last_final (buffer_frame f speech b) = wb_last_final b"
  "wb_segment (buffer_frame f speech b) = wb_segment b"
  "wb_start (buffer_frame f speech b) = wb_start b"
  "co_last (wb_continuity (buffer_frame f speech b)) = Some f"
  "wb_recent (buffer_frame f speech b)
     = keep_last (nat (wc_pre_roll (wb_config b))) (wb_recent b @ af_samples f)"
  by (simp_all add: buffer_frame_def continuity_accept_def Let_def)

lemma buffer_frame_inv:
  assumes "core_inv stream b"
  shows "core_inv (stream @ af_samples f) (buffer_frame f speech b)"
proof (cases "wb_segment b = None")
  case True
  with assms show ?thesis by (auto simp: core_inv_def buffer_frame_def Let_def)
next
  case False
  have "wb_samples b @ af_samples f = drop (nat (wb_start b)) (stream @ af_samples f)"
    using assms False by (auto simp: core_inv_def segment_ok_def)
  with assms False show ?thesis by (auto simp: core_inv_def buffer_frame_def Let_def segment_ok_def)
qed

subsection \<open>The end of a push and a flush\<close>

lemma emits_single:
  "sw_emit_start w = wb_origin b + wb_emit_start b * SAMPLE_NS \<Longrightarrow> wb_last_final b \<le> wb_emit_start b \<Longrightarrow>
     sw_end w = wb_origin b + e * SAMPLE_NS \<Longrightarrow> wb_last_final b \<le> lf \<Longrightarrow> (sw_final w \<Longrightarrow> e \<le> lf) \<Longrightarrow>
     emits (final_point b) [w] (wb_origin b + lf * SAMPLE_NS)"
  by (simp add: emits_def)

lemma cut_ok:
  assumes "core_inv stream b" "wb_segment b \<noteq> None" "wb_emit_start b < e" "e \<le> wb_position b"
    "e - wb_start b \<le> wc_max_window (wb_config b)" "cut_window e final reason b = (w, b')"
  shows "exact_window stream (wb_origin b) (wc_max_window (wb_config b)) w
     \<and> same_stream b b' \<and> emits (final_point b) [w] (final_point b')
     \<and> wb_segment b' = wb_segment b \<and> wb_start b' = wb_start b
     \<and> (\<not> final \<longrightarrow> core_inv stream b') \<and> wb_last_final b' \<le> wb_position b
     \<and> 0 \<le> wb_last_final b'"
proof -
  have ok: "segment_ok stream b" and lf: "wb_last_final b \<le> wb_emit_start b" "0 \<le> wb_last_final b"
    and pos: "wb_position b = int (length stream)"
    using assms(1,2) by (auto simp: core_inv_def segment_ok_def)
  note st = cut_window_state [OF assms(6)]
  have "emits (final_point b) [w] (wb_origin b + wb_last_final b' * SAMPLE_NS)"
    by (rule emits_single [of w b e]) (use st lf in auto)
  with cut_window_exact [OF ok pos assms(3-6)] st assms(1,3,4) lf show ?thesis
    by (auto simp: same_stream_def core_inv_def segment_ok_def)
qed

lemma close_segment_inv:
  assumes "core_inv stream b" "wb_last_final b' \<le> wb_position b" "0 \<le> wb_last_final b'" "same_stream b b'"
  shows "core_inv stream (b'\<lparr>wb_samples := [], wb_segment := None\<rparr>)"
  using assms by (auto simp: core_inv_def same_stream_def)

lemma finish_push_ok:
  assumes "core_inv stream b" "wb_segment b \<noteq> None" "visible \<le> wb_position b"
    "visible - wb_start b < wc_max_window (wb_config b)" "finish_push endpoint visible b = (ws, b')"
  shows "core_inv stream b' \<and> same_stream b b'
     \<and> list_all (exact_window stream (wb_origin b) (wc_max_window (wb_config b))) ws
     \<and> emits (final_point b) ws (final_point b')
     \<and> (if endpoint then wb_segment b' = None else wb_segment b' \<noteq> None \<and> wb_start b' = wb_start b)"
proof -
  have lf: "wb_last_final b \<le> wb_position b" "0 \<le> wb_last_final b"
    using assms(1) by (auto simp: core_inv_def)
  consider (seen) "endpoint" "wb_emit_start b < visible" | (quiet) "endpoint" "\<not> wb_emit_start b < visible"
    | (step) "\<not> endpoint" "ws \<noteq> []" | (none) "\<not> endpoint" "ws = []" by blast
  then show ?thesis
  proof cases
    case seen
    obtain w b1 where cw: "cut_window visible True (lit ''endpoint'') b = (w, b1)" by fastforce
    note c = cut_ok [OF assms(1,2) seen(2) assms(3) _ cw]
    have eqs: "ws = [w]" "b' = b1\<lparr>wb_samples := [], wb_segment := None\<rparr>"
      using assms(5) seen by (simp_all add: finish_push_def cw)
    show ?thesis
      using c assms(4) seen close_segment_inv [OF assms(1), of b1] by (auto simp: eqs same_stream_def)
  next
    case quiet
    have eqs: "ws = []" "b' = b\<lparr>wb_samples := [], wb_segment := None\<rparr>"
      using assms(5) quiet by (simp_all add: finish_push_def)
    show ?thesis
      using close_segment_inv [OF assms(1) lf same_stream_refl] quiet
      by (auto simp: eqs same_stream_def emits_Nil)
  next
    case step
    then have em: "wb_emit_start b < visible"
      and eq: "finish_push endpoint visible b
        = (case cut_window visible False (lit ''incremental'') b of (w, b') \<Rightarrow> ([w], b'))"
      using assms(5) by (auto simp: finish_push_def split: if_splits)
    obtain w b1 where cw: "cut_window visible False (lit ''incremental'') b = (w, b1)" by fastforce
    have "ws = [w]" "b' = b1" using assms(5) by (simp_all add: eq cw)
    with cut_ok [OF assms(1,2) em assms(3) _ cw] assms(2,4) step show ?thesis by simp
  next
    case none
    then have "b' = b" using assms(5) by (auto simp: finish_push_def cut_window_def split: if_splits)
    with none assms show ?thesis by (simp add: same_stream_refl emits_Nil)
  qed
qed

lemma continuity_check_cases:
  "continuity_check f c = (r, c') \<Longrightarrow> co_last c' = co_last c \<and> (r = None \<longrightarrow> c' = c)"
  by (auto simp: continuity_check_def split: if_splits option.splits)

definition push_good :: "rat list \<Rightarrow> audio_frame \<Rightarrow> builder \<Rightarrow> speech_window list \<Rightarrow> builder \<Rightarrow> bool" where
  "push_good stream f b ws b' \<longleftrightarrow>
     builder_inv (stream @ af_samples f) b' \<and> wb_config b' = wb_config b
     \<and> (co_last (wb_continuity b) \<noteq> None \<longrightarrow> wb_origin b' = wb_origin b)
     \<and> co_last (wb_continuity b') \<noteq> None
     \<and> list_all (exact_window (stream @ af_samples f) (wb_origin b') (wc_max_window (wb_config b))) ws
     \<and> emits (wb_origin b' + wb_last_final b * SAMPLE_NS) ws (final_point b')"

text \<open>The accepted part of \<open>push\<close>, from the first mutation to the returned windows.\<close>

lemma push_body_ok:
  assumes inv: "builder_inv stream b" and live: "\<not> wb_closed b"
    and b0: "b0 = begin_frame f b" and b1: "b1 = buffer_frame f speech (open_segment speech b0)"
  shows "if wb_segment b1 = None then push_good stream f b [] b1
     else \<exists>ws b2. split_windows (visible_end speech b1) b1 = Some (ws, b2)
       \<and> (\<forall>ws' b3. finish_push (\<not> speech \<and> wc_endpoint (wb_config b1) \<le> wb_position b1 - wb_last_speech b1)
              (visible_end speech b1) b2 = (ws', b3) \<longrightarrow> push_good stream f b (ws @ ws') b3)"
proof -
  let ?st = "stream @ af_samples f" and ?v = "visible_end speech b1"
  let ?stop = "\<not> speech \<and> wc_endpoint (wb_config b1) \<le> wb_position b1 - wb_last_speech b1"
  have i0: "builder_inv stream b0" unfolding b0 by (rule begin_frame_inv [OF inv])
  have keep: "wb_config b0 = wb_config b" "wb_closed b0 = wb_closed b" "wb_last_final b0 = wb_last_final b"
    "co_last (wb_continuity b) \<noteq> None \<Longrightarrow> wb_origin b0 = wb_origin b"
    by (auto simp: b0 begin_frame_def)
  have r0: "wb_recent b0 = keep_last (nat (wc_pre_roll (wb_config b0))) stream"
    using i0 live by (simp add: builder_inv_def keep)
  have c1: "core_inv ?st b1"
    unfolding b1 by (rule buffer_frame_inv, rule open_segment_inv [OF _ r0]) (use i0 in \<open>simp add: builder_inv_def\<close>)
  have k1: "wb_config b1 = wb_config b" "wb_closed b1 = wb_closed b" "wb_last_final b1 = wb_last_final b"
    "wb_origin b1 = wb_origin b0" "co_last (wb_continuity b1) = Some f"
    "wb_recent b1 = keep_last (nat (wc_pre_roll (wb_config b))) ?st"
    by (simp_all add: b1 buffer_frame_frame open_segment_frame keep r0 keep_last_append)
  have v: "valid_config (wb_config b)" using c1 by (simp add: core_inv_def k1)
  show ?thesis
  proof (cases "wb_segment b1 = None")
    case True
    with c1 k1 keep live show ?thesis by (simp add: push_good_def builder_inv_def emits_Nil)
  next
    case False
    have vis: "?v \<le> wb_position b1" by (simp add: visible_end_def)
    obtain ws b2 where sp: "split_windows ?v b1 = Some (ws, b2)"
      using split_windows_returns [of b1 ?v] v by (auto simp: k1)
    note s = split_windows_ok [OF sp c1 False vis]
    have fin: "push_good stream f b (ws @ ws') b3"
      if f: "finish_push ?stop ?v b2 = (ws', b3)" for ws' b3
    proof -
      have s2: "core_inv ?st b2" "wb_segment b2 \<noteq> None" "?v \<le> wb_position b2"
        "?v - wb_start b2 < wc_max_window (wb_config b2)" "same_stream b1 b2"
        using s vis by (auto simp: same_stream_def)
      note g = finish_push_ok [OF s2(1-4) f]
      have all: "same_stream b1 b3" using s2(5) g same_stream_trans by blast
      have room: "wb_position b3 - wb_start b3 < wc_max_window (wb_config b) + wc_endpoint (wb_config b)
          \<and> min (wb_position b3) (wb_last_speech b3 + wc_pad (wb_config b)) - wb_start b3
              < wc_max_window (wb_config b)" if "wb_segment b3 \<noteq> None"
      proof -
        from that g have ne: "\<not> ?stop" and st: "wb_start b3 = wb_start b2" by (auto split: if_splits)
        have small: "?v - wb_start b3 < wc_max_window (wb_config b)" using s2(4,5) st k1
          by (simp add: same_stream_def)
        have ls: "speech \<Longrightarrow> wb_last_speech b1 = wb_position b1"
          using False by (auto simp: b1 buffer_frame_def Let_def)
        show ?thesis
        proof (cases speech)
          case True
          with small ls v all k1 show ?thesis by (simp add: visible_end_def same_stream_def valid_config_def)
        next
          case F: False
          with ne have "wb_position b1 - wb_last_speech b1 < wc_endpoint (wb_config b)" by (simp add: k1)
          with F small v all k1 show ?thesis
            by (auto simp: visible_end_def same_stream_def valid_config_def)
        qed
      qed
      have same: "wb_origin b2 = wb_origin b1" "wb_origin b3 = wb_origin b1" "wb_config b2 = wb_config b"
        "wb_config b3 = wb_config b" "wb_closed b3 = wb_closed b" "wb_recent b3 = wb_recent b1"
        "wb_continuity b3 = wb_continuity b1"
        using all s2(5) k1 by (simp_all add: same_stream_def)
      have e1: "emits (wb_origin b3 + wb_last_final b * SAMPLE_NS) ws (final_point b2)"
        using s by (simp add: same k1)
      have e2: "emits (final_point b2) ws' (final_point b3)" using g by simp
      have ex: "list_all (exact_window ?st (wb_origin b3) (wc_max_window (wb_config b))) (ws @ ws')"
        using s g by (simp add: same k1)
      have core3: "core_inv ?st b3" using g by simp
      have bi: "builder_inv ?st b3"
        unfolding builder_inv_def using core3 room live by (simp add: same k1)
      show ?thesis
        unfolding push_good_def using bi ex emits_append [OF e1 e2] keep(4) by (simp add: same k1)
    qed
    show ?thesis using False sp fin by auto
  qed
qed

lemma push_frame_ok:
  assumes inv: "builder_inv stream b"
  shows "\<exists>out b'. push_frame f p b = Some (out, b') \<and> wb_config b' = wb_config b
     \<and> (case out of
          Inl e \<Rightarrow> builder_inv stream b' \<and> wb_origin b' = wb_origin b \<and> wb_last_final b' = wb_last_final b
                   \<and> co_last (wb_continuity b') = co_last (wb_continuity b)
        | Inr ws \<Rightarrow> push_good stream f b ws b')"
proof (cases "wb_closed b \<or> \<not> pf_finite p \<or> \<not> (0 \<le> pf_val p \<and> pf_val p \<le> 1)")
  case True
  with inv show ?thesis by (auto simp: push_frame_def)
next
  case ok: False
  obtain r c where ch: "continuity_check f (wb_continuity b) = (r, c)" by fastforce
  note cc = continuity_check_cases [OF ch]
  show ?thesis
  proof (cases r)
    case (Some e)
    have "builder_inv stream (b\<lparr>wb_continuity := c\<rparr>)"
      using inv cc by (auto simp: builder_inv_def core_inv_def segment_ok_def)
    with ok ch cc Some show ?thesis by (auto simp: push_frame_def)
  next
    case None
    with cc have c: "b\<lparr>wb_continuity := c\<rparr> = b" by simp
    define b0 where b0: "b0 = begin_frame f b"
    define speech where sp: "speech = is_speech b0 (pf_val p)"
    define b1 where b1: "b1 = buffer_frame f speech (open_segment speech b0)"
    have eq: "push_frame f p b = (if wb_segment b1 = None then Some (Inr [], b1)
        else map_option (\<lambda>(ws, b2). case finish_push
               (\<not> speech \<and> wc_endpoint (wb_config b1) \<le> wb_position b1 - wb_last_speech b1)
               (visible_end speech b1) b2 of (ws', b3) \<Rightarrow> (Inr (ws @ ws'), b3))
             (split_windows (visible_end speech b1) b1))"
      using ok ch None by (simp add: push_frame_def c Let_def flip: b0 sp b1)
    have "\<not> wb_closed b" using ok by simp
    note body = push_body_ok [OF inv this b0 b1]
    show ?thesis
    proof (cases "wb_segment b1 = None")
      case True
      with body have "push_good stream f b [] b1" by simp
      with True show ?thesis by (simp add: eq) (simp add: push_good_def)
    next
      case False
      with body obtain ws b2 where sp2: "split_windows (visible_end speech b1) b1 = Some (ws, b2)"
        and fin: "\<And>ws' b3. finish_push
            (\<not> speech \<and> wc_endpoint (wb_config b1) \<le> wb_position b1 - wb_last_speech b1)
            (visible_end speech b1) b2 = (ws', b3) \<Longrightarrow> push_good stream f b (ws @ ws') b3" by auto
      obtain ws' b3 where f3: "finish_push
            (\<not> speech \<and> wc_endpoint (wb_config b1) \<le> wb_position b1 - wb_last_speech b1)
            (visible_end speech b1) b2 = (ws', b3)" by fastforce
      have "push_frame f p b = Some (Inr (ws @ ws'), b3)" using False by (auto simp: eq sp2 f3)
      with fin [OF f3] show ?thesis by (simp add: push_good_def)
    qed
  qed
qed

lemma flush_builder_ok:
  assumes inv: "builder_inv stream b" and fl: "flush_builder reason b = (ws, b')"
  shows "builder_inv stream b' \<and> wb_config b' = wb_config b \<and> wb_origin b' = wb_origin b
     \<and> wb_continuity b' = wb_continuity b
     \<and> list_all (exact_window stream (wb_origin b) (wc_max_window (wb_config b))) ws
     \<and> emits (final_point b) ws (final_point b')"
proof (cases "wb_closed b \<or> wb_segment b = None \<or> \<not> wb_emit_start b
    < min (wb_position b) (wb_last_speech b + wc_pad (wb_config b))")
  case True
  with assms show ?thesis
    by (auto simp: flush_builder_def Let_def emits_Nil builder_inv_def core_inv_def split: if_splits)
next
  case False
  let ?e = "min (wb_position b) (wb_last_speech b + wc_pad (wb_config b))"
  let ?b1 = "b\<lparr>wb_closed := True\<rparr>"
  have core: "core_inv stream b" "?e - wb_start b < wc_max_window (wb_config b)"
    "co_last (wb_continuity b) = None \<longrightarrow> stream = []"
    using inv False by (auto simp: builder_inv_def)
  have c1: "core_inv stream ?b1" using core(1) by (auto simp: core_inv_def segment_ok_def)
  obtain w b2 where cw: "cut_window ?e True reason ?b1 = (w, b2)" by fastforce
  have eqs: "ws = [w]" "b' = b2\<lparr>wb_samples := [], wb_recent := [], wb_segment := None\<rparr>"
    using fl False cw by (simp_all add: flush_builder_def Let_def)
  note c = cut_ok [OF c1 _ _ _ _ cw]
  have c': "exact_window stream (wb_origin b) (wc_max_window (wb_config b)) w \<and> same_stream ?b1 b2
      \<and> emits (final_point b) [w] (final_point b2) \<and> wb_last_final b2 \<le> wb_position b \<and> 0 \<le> wb_last_final b2"
    using c False core(2) by simp
  show ?thesis
    using c' core False by (auto simp: eqs builder_inv_def core_inv_def same_stream_def)
qed

subsection \<open>Runs\<close>

datatype builder_op = PushOp audio_frame pyfloat | StopOp ustring

text \<open>The windows of a sequence of calls, and the samples of the accepted frames.\<close>

fun builder_run ::
    "builder_op list \<Rightarrow> builder \<Rightarrow> (speech_window list \<times> rat list \<times> builder) option" where
  "builder_run [] b = Some ([], [], b)"
| "builder_run (StopOp reason # ops) b =
     (case flush_builder reason b of (ws, b1) \<Rightarrow>
        map_option (\<lambda>(ws', got, b2). (ws @ ws', got, b2)) (builder_run ops b1))"
| "builder_run (PushOp f p # ops) b =
     Option.bind (push_frame f p b) (\<lambda>(out, b1).
       map_option (\<lambda>(ws', got, b2).
           (case out of Inl e \<Rightarrow> (ws', got, b2) | Inr ws \<Rightarrow> (ws @ ws', af_samples f @ got, b2)))
         (builder_run ops b1))"

definition run_good ::
    "rat list \<Rightarrow> builder \<Rightarrow> speech_window list \<Rightarrow> rat list \<Rightarrow> builder \<Rightarrow> bool" where
  "run_good stream b ws got b' \<longleftrightarrow>
     builder_inv (stream @ got) b' \<and> wb_config b' = wb_config b
     \<and> (co_last (wb_continuity b) \<noteq> None \<longrightarrow> wb_origin b' = wb_origin b)
     \<and> list_all (exact_window (stream @ got) (wb_origin b') (wc_max_window (wb_config b))) ws
     \<and> emits (wb_origin b' + wb_last_final b * SAMPLE_NS) ws (final_point b')"

lemma exact_window_nonempty: "exact_window stream origin limit w \<Longrightarrow> stream \<noteq> []"
  by (auto simp: exact_window_def)

text \<open>A step that heard \<open>got1\<close> is followed by a run that heard \<open>got2\<close>.\<close>

lemma run_good_step:
  assumes one: "run_good stream b ws1 got1 b1" and rest: "run_good (stream @ got1) b1 ws2 got2 b2"
    and co: "co_last (wb_continuity b) \<noteq> None \<Longrightarrow> co_last (wb_continuity b1) \<noteq> None"
  shows "run_good stream b (ws1 @ ws2) (got1 @ got2) b2"
proof -
  have ex2: "list_all (exact_window (stream @ got1 @ got2) (wb_origin b2) (wc_max_window (wb_config b))) ws2"
    using one rest by (simp add: run_good_def)
  have lim: "wb_last_final b \<le> wb_last_final b1" "wb_last_final b1 \<le> wb_last_final b2"
    using one rest by (auto simp: run_good_def emits_def)
  have first: "list_all (exact_window (stream @ got1 @ got2) (wb_origin b2) (wc_max_window (wb_config b))) ws1
      \<and> emits (wb_origin b2 + wb_last_final b * SAMPLE_NS) ws1 (wb_origin b2 + wb_last_final b1 * SAMPLE_NS)"
  proof (cases "co_last (wb_continuity b1) = None")
    case True
    then have "stream @ got1 = []" using one by (simp add: run_good_def builder_inv_def)
    then have "ws1 = []" using one exact_window_nonempty by (cases ws1) (auto simp: run_good_def)
    with lim show ?thesis by (simp add: emits_Nil)
  next
    case False
    then have "wb_origin b2 = wb_origin b1" using rest by (simp add: run_good_def)
    with one exact_window_append [of "stream @ got1" _ _ _ got2] show ?thesis
      by (auto simp: run_good_def list_all_iff)
  qed
  have e2: "emits (wb_origin b2 + wb_last_final b1 * SAMPLE_NS) ws2 (final_point b2)"
    using rest by (simp add: run_good_def)
  have org: "co_last (wb_continuity b) \<noteq> None \<longrightarrow> wb_origin b2 = wb_origin b"
    using one rest co by (simp add: run_good_def)
  have "builder_inv (stream @ got1 @ got2) b2" "wb_config b2 = wb_config b"
    using one rest by (simp_all add: run_good_def)
  with first ex2 emits_append [OF conjunct2 [OF first] e2] org show ?thesis by (simp add: run_good_def)
qed

lemma builder_run_ok:
  "builder_inv stream b \<Longrightarrow> \<exists>ws got b'. builder_run ops b = Some (ws, got, b') \<and> run_good stream b ws got b'"
proof (induction ops arbitrary: stream b)
  case Nil
  then show ?case by (simp add: run_good_def emits_Nil)
next
  case (Cons oper ops)
  show ?case
  proof (cases oper)
    case (StopOp reason)
    obtain ws1 b1 where f: "flush_builder reason b = (ws1, b1)" by fastforce
    note ok = flush_builder_ok [OF Cons.prems f]
    have one: "run_good stream b ws1 [] b1" using ok by (auto simp: run_good_def)
    obtain ws2 got2 b2 where r: "builder_run ops b1 = Some (ws2, got2, b2)"
      and g: "run_good stream b1 ws2 got2 b2" using Cons.IH ok by blast
    from run_good_step [OF one, of ws2 got2 b2] g ok StopOp f r show ?thesis by simp
  next
    case (PushOp f p)
    obtain out b1 where pf: "push_frame f p b = Some (out, b1)" and cfg: "wb_config b1 = wb_config b"
      and o: "case out of
          Inl e \<Rightarrow> builder_inv stream b1 \<and> wb_origin b1 = wb_origin b \<and> wb_last_final b1 = wb_last_final b
                   \<and> co_last (wb_continuity b1) = co_last (wb_continuity b)
        | Inr ws \<Rightarrow> push_good stream f b ws b1"
      using push_frame_ok [OF Cons.prems, of f p] by blast
    show ?thesis
    proof (cases out)
      case (Inl e)
      with o have i: "builder_inv stream b1" by simp
      have one: "run_good stream b [] [] b1" using o cfg Inl by (simp add: run_good_def emits_Nil)
      obtain ws2 got2 b2 where r: "builder_run ops b1 = Some (ws2, got2, b2)"
        and g: "run_good stream b1 ws2 got2 b2" using Cons.IH [OF i] by blast
      from run_good_step [OF one, of ws2 got2 b2] g o Inl PushOp pf r show ?thesis by simp
    next
      case (Inr ws1)
      with o have p: "push_good stream f b ws1 b1" by simp
      then have i: "builder_inv (stream @ af_samples f) b1" by (simp add: push_good_def)
      have one: "run_good stream b ws1 (af_samples f) b1" using p by (simp add: push_good_def run_good_def)
      obtain ws2 got2 b2 where r: "builder_run ops b1 = Some (ws2, got2, b2)"
        and g: "run_good (stream @ af_samples f) b1 ws2 got2 b2" using Cons.IH [OF i] by blast
      have "co_last (wb_continuity b1) \<noteq> None" using p by (simp add: push_good_def)
      from run_good_step [OF one g this] Inr PushOp pf r show ?thesis by simp
    qed
  qed
qed

subsection \<open>Properties\<close>

definition sample_frame :: "int \<Rightarrow> int \<Rightarrow> rat list \<Rightarrow> audio_frame" where
  "sample_frame n start xs = \<lparr>af_track = lit ''t'', af_epoch = lit ''e'', af_sequence = n, af_start = start,
     af_samples = xs\<rparr>"

definition sample_new :: "audio_error + builder" where
  "sample_new = new_builder (Fin (1 / 8000)) (Fin (1 / 8000)) (Fin (1 / 8000)) (Fin (1 / 16000))
     (Fin (1 / 16000)) (Fin (1 / 4000)) (Fin (1 / 16000)) (Fin (1 / 2)) (Fin (1 / 4))"

definition sample_ops :: "builder_op list" where
  "sample_ops = [PushOp (sample_frame 0 1000 [0, 0]) (Fin 0), PushOp (sample_frame 1 126000 [1, 1, 1]) (Fin 1),
     PushOp (sample_frame 2 313500 [1, 1]) (Fin 1), PushOp (sample_frame 3 438500 [0, 0, 0]) (Fin 0)]"

text \<open>
  C37: Speech windowing always returns: for every configuration the constructor accepts and every sequence of
  frames, probabilities and flushes, the splitting loop inside each \<open>push\<close> terminates.
\<close>

theorem speech_windows_return:
  assumes "new_builder step min_window endpoint pre_roll pad max_window overlap threshold negative = Inr b"
  shows "\<exists>ws heard b'. builder_run ops b = Some (ws, heard, b')"
  using builder_run_ok [OF new_builder_inv [OF assms]] by blast

lemma sample_new_run:
  "(case sample_new of Inl e \<Rightarrow> False
    | Inr b \<Rightarrow> (case builder_run sample_ops b of None \<Rightarrow> False
        | Some (ws, heard, b') \<Rightarrow>
            map (\<lambda>w. (sw_start w, sw_end w, sw_final w)) ws
              = [(63500, 313500, True), (251000, 438500, False), (251000, 501000, True)]))"
  by code_simp

lemma sample_run_facts:
  "\<exists>b ws heard b'. sample_new = Inr b \<and> builder_run sample_ops b = Some (ws, heard, b')
     \<and> map (\<lambda>w. (sw_start w, sw_end w, sw_final w)) ws
         = [(63500, 313500, True), (251000, 438500, False), (251000, 501000, True)]"
  using sample_new_run by (auto split: sum.splits option.splits)

lemma speech_windows_return_witness:
  "\<exists>b ws heard b'. sample_new = Inr b \<and> builder_run sample_ops b = Some (ws, heard, b')"
proof -
  obtain b where b: "sample_new = Inr b" using sample_run_facts by blast
  with speech_windows_return [OF b [unfolded sample_new_def], of sample_ops] show ?thesis by blast
qed

text \<open>
  C38: Windows are sample-exact and finals never overlap: every window is precisely the piece of the heard
  stream its timestamps name, at most the configured maximum long, and is to be heard from a point at or
  after the end of every final window before it; the audio kept in memory is bounded by the configuration.
\<close>

theorem speech_windows_exact:
  assumes "new_builder step min_window endpoint pre_roll pad max_window overlap threshold negative = Inr b"
    and "builder_run ops b = Some (ws, heard, b')"
  shows "list_all (exact_window heard (wb_origin b') (wc_max_window (wb_config b))) ws
     \<and> sorted_wrt (\<lambda>w w'. sw_final w \<longrightarrow> sw_end w \<le> sw_emit_start w') ws
     \<and> int (buffered_samples b')
         \<le> wc_max_window (wb_config b) + wc_endpoint (wb_config b) + wc_pre_roll (wb_config b)"
proof -
  have g: "run_good [] b ws heard b'"
    using builder_run_ok [OF new_builder_inv [OF assms(1)], of ops] assms(2) by auto
  then have inv: "builder_inv heard b'" and cfg: "wb_config b' = wb_config b" by (simp_all add: run_good_def)
  have v: "valid_config (wb_config b)" using inv cfg by (simp add: builder_inv_def core_inv_def)
  have rec: "int (length (wb_recent b')) \<le> wc_pre_roll (wb_config b)"
    using inv v cfg by (cases "wb_closed b'") (auto simp: builder_inv_def valid_config_def min_def)
  have smp: "int (length (wb_samples b')) \<le> wc_max_window (wb_config b) + wc_endpoint (wb_config b)"
  proof (cases "wb_segment b' = None")
    case True
    with inv v show ?thesis by (auto simp: builder_inv_def core_inv_def valid_config_def)
  next
    case False
    then have "wb_samples b' = drop (nat (wb_start b')) heard" "0 \<le> wb_start b'"
      "wb_start b' \<le> int (length heard)"
      "int (length heard) - wb_start b' < wc_max_window (wb_config b) + wc_endpoint (wb_config b)"
      using inv cfg by (auto simp: builder_inv_def core_inv_def segment_ok_def)
    then show ?thesis by (simp add: of_nat_diff nat_le_iff)
  qed
  from rec smp g show ?thesis by (simp add: run_good_def emits_def buffered_samples_def)
qed

lemma speech_windows_exact_witness:
  "\<exists>b ws heard b'. sample_new = Inr b \<and> builder_run sample_ops b = Some (ws, heard, b')
     \<and> length ws = 3 \<and> list_all (exact_window heard (wb_origin b') (wc_max_window (wb_config b))) ws"
proof -
  obtain b ws heard b' where b: "sample_new = Inr b" and r: "builder_run sample_ops b = Some (ws, heard, b')"
    and m: "map (\<lambda>w. (sw_start w, sw_end w, sw_final w)) ws
         = [(63500, 313500, True), (251000, 438500, False), (251000, 501000, True)]"
    using sample_run_facts by (elim exE conjE) (rule that)
  have "length ws = 3" using arg_cong [OF m, of length] by simp
  with b r speech_windows_exact [OF b [unfolded sample_new_def] r] show ?thesis by blast
qed

text \<open>
  Reading a WAV file loses nothing: when the generator ends without an error, the samples of the yielded
  frames concatenated are the file's PCM values over 32768, and the frames are one continuous stream that
  the continuity check of every consumer accepts.
\<close>

theorem wav_frames_roundtrip:
  assumes "iter_wav_frames wav n track epoch start = (fs, None)"
  shows "concat (map af_samples fs) = map (\<lambda>v. of_int v / 32768) (take (wv_frames wav) (wv_pcm wav))
     \<and> (case fs of [] \<Rightarrow> True | f # r \<Rightarrow> af_start f = start \<and> continuous_frames f r)"
proof -
  have run: "wav_loop wav (nat n) track epoch start 0 0 = (fs, None)" and "0 < nat n"
    using assms by (auto simp: iter_wav_frames_def split: if_splits)
  from wav_loop_frames [OF this] show ?thesis by (auto split: list.splits)
qed

definition sample_wav :: wav_file where
  "sample_wav = \<lparr>wv_channels = 1, wv_rate = 16000, wv_width = 2, wv_compressed = False, wv_frames = 3,
     wv_pcm = [0, 16384, -32768]\<rparr>"

lemma sample_wav_frames: "snd (iter_wav_frames sample_wav 2 (lit ''t'') (lit ''e'') 0) = None
    \<and> map af_sequence (fst (iter_wav_frames sample_wav 2 (lit ''t'') (lit ''e'') 0)) = [0, 1]"
  by code_simp

lemma wav_frames_roundtrip_witness:
  "\<exists>fs. iter_wav_frames sample_wav 2 (lit ''t'') (lit ''e'') 0 = (fs, None)
     \<and> concat (map af_samples fs) = [0, 1 / 2, -1]"
proof -
  obtain fs where r: "iter_wav_frames sample_wav 2 (lit ''t'') (lit ''e'') 0 = (fs, None)"
    using sample_wav_frames by (metis prod.collapse)
  with wav_frames_roundtrip [OF r] show ?thesis by (simp add: sample_wav_def)
qed

end
