(* ===== verification/AsrScheduler.thy ===== *)
theory AsrScheduler
  imports EngineBase
begin

text \<open>
  Model of \<^verbatim>\<open>inference_scheduler.py\<close>: primary and secondary queues in front of one synchronous
  recogniser. A call is a number, its future a value of \<open>future\<close>. One evaluation of \<open>_next\<close> uses one
  clock reading; \<open>admission\<close> says what the admission callback answers for each secondary call.
\<close>

subsection \<open>State\<close>

datatype call_error = AdmissionExpired | CallRaised nat

datatype future = FPending | FResult nat | FError call_error | FCancelled

datatype admission = Admitted | Refused | AdmissionRaised nat

datatype priority = Primary | Secondary

record asr_call =
  ac_id :: nat
  ac_queued_at :: rat

record asr_counts =
  n_primary :: nat
  n_secondary :: nat
  n_timeouts :: nat
  n_cancelled :: nat

record asr_scheduler =
  as_max_wait :: rat
  as_limit1 :: nat
  as_limit2 :: nat
  as_queue1 :: "asr_call list"
  as_queue2 :: "asr_call list"
  as_futures :: "nat \<Rightarrow> future option"
  as_next_id :: nat
  as_worker :: bool
  as_active :: "asr_call option"
  as_closed :: bool
  as_counts :: asr_counts

definition new_asr_scheduler :: "pyfloat \<Rightarrow> int \<Rightarrow> int \<Rightarrow> asr_scheduler res" where
  "new_asr_scheduler max_wait max_primary max_secondary =
     (if \<not> pf_finite max_wait \<or> \<not> (0 < pf_val max_wait \<and> pf_val max_wait \<le> 120)
        then Inl (ValueError ''secondary wait must be in (0,120] seconds'')
      else if list_ex (\<lambda>n. \<not> (1 \<le> n \<and> n \<le> 64)) [max_primary, max_secondary]
        then Inl (ValueError ''scheduler queue capacities must be integers in [1,64]'')
      else Inr \<lparr>as_max_wait = pf_val max_wait, as_limit1 = nat max_primary, as_limit2 = nat max_secondary,
             as_queue1 = [], as_queue2 = [], as_futures = (\<lambda>_. None), as_next_id = 0, as_worker = False,
             as_active = None, as_closed = False, as_counts = \<lparr>n_primary = 0, n_secondary = 0,
             n_timeouts = 0, n_cancelled = 0\<rparr>\<rparr>)"

definition future_done :: "asr_scheduler \<Rightarrow> asr_call \<Rightarrow> bool" where
  "future_done s c \<longleftrightarrow> as_futures s (ac_id c) \<noteq> Some FPending"

definition primary_pending :: "asr_scheduler \<Rightarrow> nat" where
  "primary_pending s = length (filter (\<lambda>c. \<not> future_done s c) (as_queue1 s))"

text \<open>
  \<open>set_result\<close>, \<open>set_exception\<close> and \<open>cancel\<close> on a future that may be done already. The code asks
  \<open>done()\<close> first except in \<open>_next\<close>, where the finished calls have just been dropped from the head of the
  queue, so the future there is pending.
\<close>

definition settle_future :: "nat \<Rightarrow> future \<Rightarrow> asr_scheduler \<Rightarrow> asr_scheduler" where
  "settle_future i v s =
     (if as_futures s i = Some FPending then s\<lparr>as_futures := (as_futures s)(i \<mapsto> v)\<rparr> else s)"

subsection \<open>Operations\<close>

definition submit_call :: "priority \<Rightarrow> rat \<Rightarrow> asr_scheduler \<Rightarrow> (py_error + nat) \<times> asr_scheduler" where
  "submit_call p now s =
     (if as_closed s then (Inl (RuntimeError ''ASR scheduler is closed''), s)
      else
        let s1 = (case p of
              Primary \<Rightarrow> s\<lparr>as_queue1 := filter (\<lambda>c. \<not> future_done s c) (as_queue1 s)\<rparr>
            | Secondary \<Rightarrow> s\<lparr>as_queue2 := filter (\<lambda>c. \<not> future_done s c) (as_queue2 s)\<rparr>);
            full = (case p of Primary \<Rightarrow> as_limit1 s1 \<le> length (as_queue1 s1)
                    | Secondary \<Rightarrow> as_limit2 s1 \<le> length (as_queue2 s1))
        in if full then (Inl (RuntimeError ''ASR scheduler queue is full''), s1)
           else
             let i = as_next_id s1; c = \<lparr>ac_id = i, ac_queued_at = now\<rparr>;
                 s2 = s1\<lparr>as_next_id := i + 1, as_futures := (as_futures s1)(i \<mapsto> FPending),
                        as_worker := True\<rparr>
             in (Inr i, case p of
                   Primary \<Rightarrow> s2\<lparr>as_queue1 := as_queue1 s2 @ [c]\<rparr>
                 | Secondary \<Rightarrow> s2\<lparr>as_queue2 := as_queue2 s2 @ [c]\<rparr>))"

text \<open>The awaiting client is cancelled: its future is, the call keeps its place.\<close>

definition cancel_client :: "nat \<Rightarrow> asr_scheduler \<Rightarrow> asr_scheduler" where
  "cancel_client i s = settle_future i FCancelled s"

text \<open>The first loop of \<open>_next\<close>: finished calls at the head of a queue are dropped and counted.\<close>

fun drop_done :: "asr_scheduler \<Rightarrow> asr_call list \<Rightarrow> asr_call list \<times> nat" where
  "drop_done s [] = ([], 0)"
| "drop_done s (c # q) =
     (if future_done s c then (case drop_done s q of (r, n) \<Rightarrow> (r, n + 1)) else (c # q, 0))"

definition purge_queues :: "asr_scheduler \<Rightarrow> asr_scheduler" where
  "purge_queues s =
     (let (q1, n1) = drop_done s (as_queue1 s); (q2, n2) = drop_done s (as_queue2 s)
      in s\<lparr>as_queue1 := q1, as_queue2 := q2,
           as_counts := (as_counts s)\<lparr>n_cancelled := n_cancelled (as_counts s) + n1 + n2\<rparr>\<rparr>)"

datatype next_call = NextCall priority asr_call | NextWait | NextNone

definition pop_secondary :: "asr_scheduler \<Rightarrow> asr_scheduler" where
  "pop_secondary s = s\<lparr>as_queue2 := tl (as_queue2 s)\<rparr>"

definition expire_head :: "asr_call \<Rightarrow> asr_scheduler \<Rightarrow> asr_scheduler" where
  "expire_head c s =
     settle_future (ac_id c) (FError AdmissionExpired)
       ((pop_secondary s)\<lparr>as_counts := (as_counts s)\<lparr>n_timeouts := n_timeouts (as_counts s) + 1\<rparr>\<rparr>)"

lemma length_drop_done: "length (fst (drop_done s q)) \<le> length q"
  by (induction q) (auto split: prod.splits)

lemma length_purge2: "length (as_queue2 (purge_queues s)) \<le> length (as_queue2 s)"
  using length_drop_done [of s "as_queue2 s"] by (auto simp: purge_queues_def split: prod.splits)

lemma settle_future_frame:
  "as_queue1 (settle_future i v s) = as_queue1 s" "as_queue2 (settle_future i v s) = as_queue2 s"
  "as_active (settle_future i v s) = as_active s" "as_worker (settle_future i v s) = as_worker s"
  "as_next_id (settle_future i v s) = as_next_id s" "as_closed (settle_future i v s) = as_closed s"
  "as_limit1 (settle_future i v s) = as_limit1 s" "as_limit2 (settle_future i v s) = as_limit2 s"
  "as_max_wait (settle_future i v s) = as_max_wait s" "as_counts (settle_future i v s) = as_counts s"
  by (simp_all add: settle_future_def)

text \<open>The outer loop of \<open>_next\<close> up to a call, an empty queue or a wait.\<close>

function next_scan ::
    "rat \<Rightarrow> (nat \<Rightarrow> admission) \<Rightarrow> asr_scheduler \<Rightarrow> next_call \<times> asr_scheduler" where
  "next_scan now admission s =
     (let s1 = purge_queues s
      in case as_queue1 s1 of
           c # q \<Rightarrow> (NextCall Primary c, s1\<lparr>as_queue1 := q\<rparr>)
         | [] \<Rightarrow>
           (case as_queue2 s1 of
              [] \<Rightarrow> (NextNone, s1)
            | c # q \<Rightarrow>
                if as_max_wait s1 \<le> now - ac_queued_at c then next_scan now admission (expire_head c s1)
                else (case admission (ac_id c) of
                    AdmissionRaised e \<Rightarrow>
                      next_scan now admission (settle_future (ac_id c) (FError (CallRaised e)) (pop_secondary s1))
                  | Admitted \<Rightarrow> (NextCall Secondary c, pop_secondary s1)
                  | Refused \<Rightarrow> (NextWait, s1))))"
  by pat_completeness auto
termination
proof (relation "measure (\<lambda>(now, admission, s). length (as_queue2 s))", simp, goal_cases)
  case (1 now admission s s1 c q)
  then show ?case using length_purge2 [of s] by (simp add: expire_head_def settle_future_frame pop_secondary_def)
next
  case (2 now admission s s1 c q e)
  then show ?case using length_purge2 [of s] by (simp add: settle_future_frame pop_secondary_def)
qed

declare next_scan.simps [simp del]

text \<open>One turn of the worker when no native call runs: the next call starts, or the worker ends or waits.\<close>

definition worker_turn :: "rat \<Rightarrow> (nat \<Rightarrow> admission) \<Rightarrow> asr_scheduler \<Rightarrow> asr_scheduler" where
  "worker_turn now admission s =
     (if \<not> as_worker s \<or> as_active s \<noteq> None then s
      else case next_scan now admission s of
        (NextNone, s1) \<Rightarrow> s1\<lparr>as_worker := False\<rparr>
      | (NextWait, s1) \<Rightarrow> s1
      | (NextCall p c, s1) \<Rightarrow>
          s1\<lparr>as_active := Some c,
             as_counts := (case p of
                 Primary \<Rightarrow> (as_counts s1)\<lparr>n_primary := n_primary (as_counts s1) + 1\<rparr>
               | Secondary \<Rightarrow> (as_counts s1)\<lparr>n_secondary := n_secondary (as_counts s1) + 1\<rparr>)\<rparr>)"

text \<open>The native call ends with a result or an exception; a cancelled client hears nothing.\<close>

definition finish_call :: "future \<Rightarrow> asr_scheduler \<Rightarrow> asr_scheduler" where
  "finish_call outcome s =
     (case as_active s of
        None \<Rightarrow> s
      | Some c \<Rightarrow> (settle_future (ac_id c) outcome s)\<lparr>as_active := None\<rparr>)"

definition close_asr :: "asr_scheduler \<Rightarrow> asr_scheduler" where
  "close_asr s =
     (let s1 = fold (\<lambda>c. settle_future (ac_id c) FCancelled) (as_queue1 s @ as_queue2 s) s
      in s1\<lparr>as_closed := True, as_queue1 := [], as_queue2 := []\<rparr>)"

subsection \<open>Steps\<close>

datatype asr_op =
    SubmitOp priority rat
  | CancelOp nat
  | TurnOp rat "nat \<Rightarrow> admission"
  | ReturnOp nat
  | RaiseOp nat
  | CloseOp

definition asr_step :: "asr_op \<Rightarrow> asr_scheduler \<Rightarrow> asr_scheduler" where
  "asr_step oper s =
     (case oper of
        SubmitOp p now \<Rightarrow> snd (submit_call p now s)
      | CancelOp i \<Rightarrow> cancel_client i s
      | TurnOp now admission \<Rightarrow> worker_turn now admission s
      | ReturnOp v \<Rightarrow> finish_call (FResult v) s
      | RaiseOp e \<Rightarrow> finish_call (FError (CallRaised e)) s
      | CloseOp \<Rightarrow> close_asr s)"

subsection \<open>Invariant: bounded queues, no call lost\<close>

definition call_ids :: "asr_scheduler \<Rightarrow> nat list" where
  "call_ids s = map ac_id (as_queue1 s @ as_queue2 s @ (case as_active s of None \<Rightarrow> [] | Some c \<Rightarrow> [c]))"

definition asr_inv :: "asr_scheduler \<Rightarrow> bool" where
  "asr_inv s \<longleftrightarrow> distinct (call_ids s) \<and> (\<forall>i \<in> set (call_ids s). i < as_next_id s)
     \<and> (\<forall>i. as_futures s i = Some FPending \<longrightarrow> i \<in> set (call_ids s))
     \<and> (\<forall>i. as_next_id s \<le> i \<longrightarrow> as_futures s i = None)
     \<and> length (as_queue1 s) \<le> as_limit1 s \<and> length (as_queue2 s) \<le> as_limit2 s
     \<and> (call_ids s \<noteq> [] \<longrightarrow> as_worker s)"

text \<open>Futures only change from pending to done.\<close>

definition futures_kept :: "asr_scheduler \<Rightarrow> asr_scheduler \<Rightarrow> bool" where
  "futures_kept s s' \<longleftrightarrow>
     (\<forall>i v. as_futures s i = Some v \<longrightarrow> v \<noteq> FPending \<longrightarrow> as_futures s' i = Some v)"

lemma futures_kept_refl: "futures_kept s s"
  by (simp add: futures_kept_def)

lemma futures_kept_trans: "futures_kept a b \<Longrightarrow> futures_kept b c \<Longrightarrow> futures_kept a c"
  by (auto simp: futures_kept_def)

lemma futures_kept_settle: "futures_kept s (settle_future i v s)"
  by (simp add: futures_kept_def settle_future_def)

lemma settle_future_futures:
  "as_futures (settle_future i v s) = (if as_futures s i = Some FPending then (as_futures s)(i \<mapsto> v) else as_futures s)"
  by (simp add: settle_future_def)

lemma asr_inv_settle: "asr_inv s \<Longrightarrow> v \<noteq> FPending \<Longrightarrow> asr_inv (settle_future i v s)"
  by (auto simp: asr_inv_def call_ids_def settle_future_def)

text \<open>
  Dropping queued calls whose futures are done, and handing one to the worker, keep the invariant; the
  calls that leave are described by what remains.
\<close>

lemma asr_inv_shrink:
  assumes "asr_inv s" and "set (call_ids s') \<subseteq> set (call_ids s)" "distinct (call_ids s')"
    and "as_futures s' = as_futures s" "as_next_id s' = as_next_id s" "as_worker s' = as_worker s"
    and "as_limit1 s' = as_limit1 s" "as_limit2 s' = as_limit2 s"
    and "length (as_queue1 s') \<le> length (as_queue1 s)" "length (as_queue2 s') \<le> length (as_queue2 s)"
    and "\<And>i. i \<in> set (call_ids s) \<Longrightarrow> i \<notin> set (call_ids s') \<Longrightarrow> as_futures s i \<noteq> Some FPending"
  shows "asr_inv s'"
proof -
  have "call_ids s' \<noteq> [] \<longrightarrow> call_ids s \<noteq> []" using assms(2) by (cases "call_ids s'") auto
  with assms show ?thesis unfolding asr_inv_def by (auto simp: subset_iff)
qed

lemma drop_done_split:
  "drop_done s q = (r, n) \<Longrightarrow> \<exists>p. q = p @ r \<and> (\<forall>c \<in> set p. future_done s c) \<and> length p = n"
proof (induction q arbitrary: r n)
  case (Cons c q)
  show ?case
  proof (cases "future_done s c")
    case True
    obtain r' n' where d: "drop_done s q = (r', n')" by fastforce
    then obtain p where "q = p @ r'" "\<forall>c \<in> set p. future_done s c" "length p = n'" using Cons.IH by blast
    with True Cons.prems d show ?thesis by (intro exI [of _ "c # p"]) auto
  next
    case False
    with Cons.prems show ?thesis by simp
  qed
qed simp

lemma drop_done_head: "drop_done s q = (c # r, n) \<Longrightarrow> \<not> future_done s c"
  by (induction q arbitrary: n) (auto split: prod.splits if_splits)

lemma purge_frame:
  "as_active (purge_queues s) = as_active s" "as_worker (purge_queues s) = as_worker s"
  "as_futures (purge_queues s) = as_futures s" "as_next_id (purge_queues s) = as_next_id s"
  "as_limit1 (purge_queues s) = as_limit1 s" "as_limit2 (purge_queues s) = as_limit2 s"
  "as_max_wait (purge_queues s) = as_max_wait s" "as_closed (purge_queues s) = as_closed s"
  by (simp_all add: purge_queues_def split: prod.splits)

lemma purge_inv: "asr_inv s \<Longrightarrow> asr_inv (purge_queues s)"
proof -
  assume inv: "asr_inv s"
  obtain q1 n1 q2 n2 where d: "drop_done s (as_queue1 s) = (q1, n1)" "drop_done s (as_queue2 s) = (q2, n2)"
    by fastforce
  obtain p1 p2 where p: "as_queue1 s = p1 @ q1" "\<forall>c \<in> set p1. future_done s c"
    "as_queue2 s = p2 @ q2" "\<forall>c \<in> set p2. future_done s c"
    using drop_done_split [OF d(1)] drop_done_split [OF d(2)] by blast
  have q: "as_queue1 (purge_queues s) = q1" "as_queue2 (purge_queues s) = q2"
    by (simp_all add: purge_queues_def d)
  show ?thesis
  proof (rule asr_inv_shrink [OF inv])
    show "distinct (call_ids (purge_queues s))"
      using inv by (auto simp: asr_inv_def call_ids_def q purge_frame p)
  qed (use p in \<open>auto simp: call_ids_def q purge_frame future_done_def\<close>)
qed

lemma pop_settle_inv:
  assumes "asr_inv s" "as_queue2 s = c # q" "v \<noteq> FPending"
  shows "asr_inv (settle_future (ac_id c) v (pop_secondary s))"
  using assms by (auto simp: asr_inv_def call_ids_def settle_future_def pop_secondary_def)

lemma asr_inv_counts: "asr_inv (s\<lparr>as_counts := n\<rparr>) = asr_inv s"
  by (simp add: asr_inv_def call_ids_def)

lemma settle_counts: "settle_future i v (s\<lparr>as_counts := n\<rparr>) = (settle_future i v s)\<lparr>as_counts := n\<rparr>"
  by (simp add: settle_future_def)

lemma expire_inv: "asr_inv s \<Longrightarrow> as_queue2 s = c # q \<Longrightarrow> asr_inv (expire_head c s)"
  using pop_settle_inv [of s c q "FError AdmissionExpired"]
  by (simp add: expire_head_def settle_counts asr_inv_counts)

lemma expire_kept: "futures_kept s (expire_head c s)"
  by (auto simp: futures_kept_def expire_head_def settle_future_def pop_secondary_def)

lemma pop_settle_kept: "futures_kept s (settle_future i v (pop_secondary s))"
  by (auto simp: futures_kept_def settle_future_def pop_secondary_def)

definition scan_good :: "rat \<Rightarrow> (nat \<Rightarrow> admission) \<Rightarrow> asr_scheduler \<Rightarrow> next_call \<Rightarrow> asr_scheduler \<Rightarrow> bool" where
  "scan_good now admission s r s' \<longleftrightarrow> futures_kept s s' \<and> as_active s' = None \<and> as_worker s' = as_worker s
     \<and> (case r of
          NextNone \<Rightarrow> asr_inv s' \<and> as_queue1 s' = [] \<and> as_queue2 s' = []
        | NextWait \<Rightarrow> asr_inv s' \<and> as_queue1 s' = [] \<and> as_queue2 s' \<noteq> []
        | NextCall p c \<Rightarrow> asr_inv (s'\<lparr>as_active := Some c\<rparr>) \<and> as_futures s' (ac_id c) = Some FPending
            \<and> (p = Secondary \<longrightarrow> as_queue1 s' = [] \<and> admission (ac_id c) = Admitted
                 \<and> now - ac_queued_at c < as_max_wait s'))"

lemma scan_good_trans:
  "futures_kept s s1 \<Longrightarrow> as_worker s1 = as_worker s \<Longrightarrow> scan_good now admission s1 r s' \<Longrightarrow>
     scan_good now admission s r s'"
  by (auto simp: scan_good_def intro: futures_kept_trans)

text \<open>Moving the head of a queue into the slot.\<close>

lemma start_primary_inv:
  "asr_inv s \<Longrightarrow> as_active s = None \<Longrightarrow> as_queue1 s = c # q \<Longrightarrow>
     asr_inv (s\<lparr>as_queue1 := q, as_active := Some c\<rparr>)"
  by (auto simp: asr_inv_def call_ids_def)

lemma start_secondary_inv:
  "asr_inv s \<Longrightarrow> as_active s = None \<Longrightarrow> as_queue2 s = c # q \<Longrightarrow>
     asr_inv (s\<lparr>as_queue2 := q, as_active := Some c\<rparr>)"
  by (auto simp: asr_inv_def call_ids_def)

lemma head_pending:
  assumes "asr_inv s" "\<not> future_done s c"
  shows "as_futures s (ac_id c) = Some FPending"
  using assms by (simp add: future_done_def)

lemma purge_heads:
  "as_queue1 (purge_queues s) = c # q \<Longrightarrow> \<not> future_done s c"
  "as_queue2 (purge_queues s) = c # q \<Longrightarrow> \<not> future_done s c"
  by (auto simp: purge_queues_def split: prod.splits dest: drop_done_head)

lemma next_scan_good:
  "asr_inv s \<Longrightarrow> as_active s = None \<Longrightarrow> next_scan now admission s = (r, s') \<Longrightarrow>
     scan_good now admission s r s'"
proof (induction now admission s arbitrary: r s' rule: next_scan.induct)
  case (1 now admission s)
  define s1 where s1: "s1 = purge_queues s"
  have inv1: "asr_inv s1" and act1: "as_active s1 = None"
    using 1(3,4) by (simp_all add: s1 purge_inv purge_frame)
  have kept: "futures_kept s s1" "as_worker s1 = as_worker s"
    by (simp_all add: s1 futures_kept_def purge_frame)
  have eq: "next_scan now admission s =
      (case as_queue1 s1 of
           c # q \<Rightarrow> (NextCall Primary c, s1\<lparr>as_queue1 := q\<rparr>)
         | [] \<Rightarrow>
           (case as_queue2 s1 of
              [] \<Rightarrow> (NextNone, s1)
            | c # q \<Rightarrow>
                if as_max_wait s1 \<le> now - ac_queued_at c then next_scan now admission (expire_head c s1)
                else (case admission (ac_id c) of
                    AdmissionRaised e \<Rightarrow>
                      next_scan now admission (settle_future (ac_id c) (FError (CallRaised e)) (pop_secondary s1))
                  | Admitted \<Rightarrow> (NextCall Secondary c, pop_secondary s1)
                  | Refused \<Rightarrow> (NextWait, s1))))"
    unfolding s1 by (subst next_scan.simps) (simp only: Let_def)
  note run = 1(5) [unfolded eq]
  show ?case
  proof (cases "as_queue1 s1")
    case (Cons c q)
    then have p: "as_futures s1 (ac_id c) = Some FPending"
      using purge_heads(1) [of s c q] by (simp add: s1 future_done_def purge_frame)
    from Cons run have "r = NextCall Primary c" "s' = s1\<lparr>as_queue1 := q\<rparr>" by auto
    with kept act1 p start_primary_inv [OF inv1 act1 Cons] show ?thesis
      by (auto simp: scan_good_def futures_kept_def)
  next
    case q1: Nil
    show ?thesis
    proof (cases "as_queue2 s1")
      case Nil
      with q1 run have "r = NextNone" "s' = s1" by auto
      with kept act1 inv1 q1 Nil show ?thesis by (simp add: scan_good_def)
    next
      case (Cons c q)
      then have p: "as_futures s1 (ac_id c) = Some FPending"
        using purge_heads(2) [of s c q] by (simp add: s1 future_done_def purge_frame)
      consider (late) "as_max_wait s1 \<le> now - ac_queued_at c"
        | (err) e where "\<not> as_max_wait s1 \<le> now - ac_queued_at c" "admission (ac_id c) = AdmissionRaised e"
        | (go) "\<not> as_max_wait s1 \<le> now - ac_queued_at c" "admission (ac_id c) = Admitted"
        | (wait) "\<not> as_max_wait s1 \<le> now - ac_queued_at c" "admission (ac_id c) = Refused"
        by (cases "admission (ac_id c)") auto
      then show ?thesis
      proof cases
        case late
        have g: "scan_good now admission (expire_head c s1) r s'"
          by (rule 1(1) [OF s1 q1 Cons late])
            (use run late q1 Cons act1 expire_inv [OF inv1 Cons] in
              \<open>simp_all add: expire_head_def settle_future_frame pop_secondary_def\<close>)
        have "futures_kept s (expire_head c s1)" "as_worker (expire_head c s1) = as_worker s"
          using futures_kept_trans [OF kept(1) expire_kept] kept(2)
          by (simp_all add: expire_head_def settle_future_frame pop_secondary_def)
        from scan_good_trans [OF this g] show ?thesis .
      next
        case err
        let ?s2 = "settle_future (ac_id c) (FError (CallRaised e)) (pop_secondary s1)"
        have g: "scan_good now admission ?s2 r s'"
          by (rule 1(2) [OF s1 q1 Cons err])
            (use run err q1 Cons act1 pop_settle_inv [OF inv1 Cons] in
              \<open>simp_all add: settle_future_frame pop_secondary_def\<close>)
        have "futures_kept s ?s2" "as_worker ?s2 = as_worker s"
          using futures_kept_trans [OF kept(1) pop_settle_kept] kept(2)
          by (simp_all add: settle_future_frame pop_secondary_def)
        from scan_good_trans [OF this g] show ?thesis .
      next
        case go
        with q1 Cons run have "r = NextCall Secondary c" "s' = s1\<lparr>as_queue2 := q\<rparr>"
          by (auto simp: pop_secondary_def)
        with kept act1 p go q1 start_secondary_inv [OF inv1 act1 Cons] show ?thesis
          by (auto simp: scan_good_def futures_kept_def)
      next
        case wait
        with q1 Cons run have "r = NextWait" "s' = s1" by auto
        with kept act1 inv1 q1 Cons show ?thesis by (simp add: scan_good_def)
      qed
    qed
  qed
qed

lemma worker_turn_good:
  assumes inv: "asr_inv s"
  shows "asr_inv (worker_turn now admission s) \<and> futures_kept s (worker_turn now admission s)"
proof (cases "\<not> as_worker s \<or> as_active s \<noteq> None")
  case True
  with inv show ?thesis by (auto simp: worker_turn_def futures_kept_refl)
next
  case False
  obtain r s' where n: "next_scan now admission s = (r, s')" by fastforce
  have g: "scan_good now admission s r s'" using next_scan_good [OF inv _ n] False by simp
  show ?thesis
  proof (cases r)
    case (NextCall p c)
    with g have i: "asr_inv (s'\<lparr>as_active := Some c\<rparr>)" by (simp add: scan_good_def)
    from NextCall False n g asr_inv_counts [where s = "s'\<lparr>as_active := Some c\<rparr>"] i show ?thesis
      by (simp add: worker_turn_def scan_good_def futures_kept_def)
  next
    case NextWait
    with False n g show ?thesis by (simp add: worker_turn_def scan_good_def)
  next
    case NextNone
    with False n g show ?thesis
      by (auto simp: worker_turn_def scan_good_def futures_kept_def asr_inv_def call_ids_def)
  qed
qed

text \<open>The two halves of \<open>_submit\<close>: the queue is rebuilt without finished calls, then the call joins it.\<close>

definition rebuild_queue :: "priority \<Rightarrow> asr_scheduler \<Rightarrow> asr_scheduler" where
  "rebuild_queue p s = (case p of
      Primary \<Rightarrow> s\<lparr>as_queue1 := filter (\<lambda>c. \<not> future_done s c) (as_queue1 s)\<rparr>
    | Secondary \<Rightarrow> s\<lparr>as_queue2 := filter (\<lambda>c. \<not> future_done s c) (as_queue2 s)\<rparr>)"

definition join_queue :: "priority \<Rightarrow> rat \<Rightarrow> asr_scheduler \<Rightarrow> asr_scheduler" where
  "join_queue p now s =
     (let s2 = s\<lparr>as_next_id := as_next_id s + 1, as_futures := (as_futures s)(as_next_id s \<mapsto> FPending),
                 as_worker := True\<rparr>;
          c = \<lparr>ac_id = as_next_id s, ac_queued_at = now\<rparr>
      in case p of Primary \<Rightarrow> s2\<lparr>as_queue1 := as_queue1 s2 @ [c]\<rparr>
         | Secondary \<Rightarrow> s2\<lparr>as_queue2 := as_queue2 s2 @ [c]\<rparr>)"

definition queue_full :: "priority \<Rightarrow> asr_scheduler \<Rightarrow> bool" where
  "queue_full p s = (case p of Primary \<Rightarrow> as_limit1 s \<le> length (as_queue1 s)
     | Secondary \<Rightarrow> as_limit2 s \<le> length (as_queue2 s))"

lemma submit_call_eq:
  "submit_call p now s =
     (if as_closed s then (Inl (RuntimeError ''ASR scheduler is closed''), s)
      else if queue_full p (rebuild_queue p s)
        then (Inl (RuntimeError ''ASR scheduler queue is full''), rebuild_queue p s)
      else (Inr (as_next_id s), join_queue p now (rebuild_queue p s)))"
  by (cases p) (simp_all add: submit_call_def rebuild_queue_def join_queue_def queue_full_def Let_def)

lemma rebuild_inv: "asr_inv s \<Longrightarrow> asr_inv (rebuild_queue p s)"
proof -
  assume inv: "asr_inv s"
  have parts: "distinct (map ac_id (as_queue1 s))" "distinct (map ac_id (as_queue2 s))"
    using inv by (auto simp: asr_inv_def call_ids_def)
  show ?thesis
  proof (rule asr_inv_shrink [OF inv])
    show "distinct (call_ids (rebuild_queue p s))"
      using inv parts by (cases p) (auto simp: rebuild_queue_def asr_inv_def call_ids_def distinct_map_filter)
  qed (cases p; auto simp: rebuild_queue_def call_ids_def future_done_def)+
qed

lemma join_inv:
  assumes "asr_inv s" "\<not> queue_full p s"
  shows "asr_inv (join_queue p now s)"
proof -
  have fresh: "as_next_id s \<notin> set (call_ids s)" using assms(1) by (auto simp: asr_inv_def)
  have ids: "set (call_ids (join_queue p now s)) = insert (as_next_id s) (set (call_ids s))"
    by (cases p) (auto simp: join_queue_def call_ids_def Let_def)
  have "distinct (call_ids (join_queue p now s))"
    using assms(1) fresh by (cases p) (auto simp: join_queue_def call_ids_def Let_def asr_inv_def)
  moreover have "as_futures (join_queue p now s) = (as_futures s)(as_next_id s \<mapsto> FPending)"
    "as_next_id (join_queue p now s) = as_next_id s + 1" "as_worker (join_queue p now s)"
    "length (as_queue1 (join_queue p now s)) \<le> as_limit1 (join_queue p now s)"
    "length (as_queue2 (join_queue p now s)) \<le> as_limit2 (join_queue p now s)"
    using assms by (cases p; simp add: join_queue_def queue_full_def Let_def asr_inv_def)+
  ultimately show ?thesis using assms(1) unfolding asr_inv_def ids by (auto simp: less_Suc_eq)
qed

lemma submit_good: "asr_inv s \<Longrightarrow> asr_inv (snd (submit_call p now s)) \<and> futures_kept s (snd (submit_call p now s))"
proof -
  assume inv: "asr_inv s"
  have fut: "as_futures (rebuild_queue r s) = as_futures s" "as_next_id (rebuild_queue r s) = as_next_id s"
    for r by (cases r; simp add: rebuild_queue_def)+
  have "as_futures s (as_next_id s) = None" using inv by (simp add: asr_inv_def)
  then have "futures_kept s (join_queue p now (rebuild_queue p s))"
    by (cases p) (auto simp: futures_kept_def join_queue_def Let_def fut)
  with inv rebuild_inv [OF inv, of p] join_inv [of "rebuild_queue p s" p now] show ?thesis
    by (auto simp: submit_call_eq futures_kept_refl) (simp add: futures_kept_def fut)
qed

lemma finish_good:
  "asr_inv s \<Longrightarrow> v \<noteq> FPending \<Longrightarrow> asr_inv (finish_call v s) \<and> futures_kept s (finish_call v s)"
  by (cases "as_active s")
    (auto simp: finish_call_def futures_kept_def asr_inv_def call_ids_def settle_future_def)

lemma fold_settle:
  "as_futures (fold (\<lambda>c. settle_future (ac_id c) FCancelled) q s)
     = (\<lambda>i. if i \<in> ac_id ` set q \<and> as_futures s i = Some FPending then Some FCancelled else as_futures s i)
   \<and> as_queue1 (fold (\<lambda>c. settle_future (ac_id c) FCancelled) q s) = as_queue1 s
   \<and> as_queue2 (fold (\<lambda>c. settle_future (ac_id c) FCancelled) q s) = as_queue2 s
   \<and> as_active (fold (\<lambda>c. settle_future (ac_id c) FCancelled) q s) = as_active s
   \<and> as_worker (fold (\<lambda>c. settle_future (ac_id c) FCancelled) q s) = as_worker s
   \<and> as_next_id (fold (\<lambda>c. settle_future (ac_id c) FCancelled) q s) = as_next_id s
   \<and> as_limit1 (fold (\<lambda>c. settle_future (ac_id c) FCancelled) q s) = as_limit1 s
   \<and> as_limit2 (fold (\<lambda>c. settle_future (ac_id c) FCancelled) q s) = as_limit2 s"
  by (induction q arbitrary: s) (auto simp: settle_future_frame settle_future_futures fun_eq_iff)

lemma close_good: "asr_inv s \<Longrightarrow> asr_inv (close_asr s) \<and> futures_kept s (close_asr s)"
  using fold_settle [of "as_queue1 s @ as_queue2 s" s]
  by (auto simp: close_asr_def Let_def asr_inv_def call_ids_def futures_kept_def split: option.splits)

lemma asr_step_good: "asr_inv s \<Longrightarrow> asr_inv (asr_step oper s) \<and> futures_kept s (asr_step oper s)"
  by (cases oper)
    (simp_all add: asr_step_def submit_good worker_turn_good finish_good close_good cancel_client_def
      asr_inv_settle futures_kept_settle)

lemma asr_run_good: "asr_inv s \<Longrightarrow> asr_inv (fold asr_step ops s) \<and> futures_kept s (fold asr_step ops s)"
proof (induction ops arbitrary: s)
  case (Cons oper ops)
  from asr_step_good [OF Cons.prems, of oper] Cons.IH show ?case
    by (auto intro: futures_kept_trans)
qed (simp add: futures_kept_refl)

lemma new_asr_inv: "new_asr_scheduler w n m = Inr s \<Longrightarrow> asr_inv s"
  by (auto simp: new_asr_scheduler_def asr_inv_def call_ids_def split: if_splits)

subsection \<open>Properties\<close>

definition sample_asr :: asr_scheduler where
  "sample_asr = \<lparr>as_max_wait = 2, as_limit1 = 8, as_limit2 = 2, as_queue1 = [], as_queue2 = [],
     as_futures = (\<lambda>_. None), as_next_id = 0, as_worker = False, as_active = None, as_closed = False,
     as_counts = \<lparr>n_primary = 0, n_secondary = 0, n_timeouts = 0, n_cancelled = 0\<rparr>\<rparr>"

lemma sample_asr_new: "new_asr_scheduler (Fin 2) 8 2 = Inr sample_asr"
  by (simp add: new_asr_scheduler_def sample_asr_def)

text \<open>
  C39: No recogniser call is lost and none is answered twice: from construction on, whatever clients submit or
  cancel and however native calls end, a call whose future is pending is queued or running and the worker is
  alive, the queues stay within their capacities, and a future that is done never changes again.
\<close>

theorem asr_calls_tracked:
  assumes "new_asr_scheduler w n m = Inr s0"
  shows "(as_futures (fold asr_step ops s0) i = Some FPending \<longrightarrow>
        i \<in> set (call_ids (fold asr_step ops s0)) \<and> as_worker (fold asr_step ops s0))
     \<and> length (as_queue1 (fold asr_step ops s0)) \<le> as_limit1 (fold asr_step ops s0)
     \<and> length (as_queue2 (fold asr_step ops s0)) \<le> as_limit2 (fold asr_step ops s0)
     \<and> futures_kept (fold asr_step ops s0) (fold asr_step (ops @ later) s0)"
proof -
  have inv: "asr_inv (fold asr_step ops s0)" using asr_run_good [OF new_asr_inv [OF assms]] by blast
  have "call_ids (fold asr_step ops s0) \<noteq> []" if "i \<in> set (call_ids (fold asr_step ops s0))" using that by auto
  with inv asr_run_good [OF inv, of later] show ?thesis by (auto simp: asr_inv_def)
qed

lemma asr_calls_tracked_witness:
  "0 \<in> set (call_ids (fold asr_step [SubmitOp Secondary 0, SubmitOp Primary 1, TurnOp 1 (\<lambda>_. Admitted)] sample_asr))"
proof -
  have "as_futures (fold asr_step [SubmitOp Secondary 0, SubmitOp Primary 1, TurnOp 1 (\<lambda>_. Admitted)] sample_asr) 0
      = Some FPending" by code_simp
  with asr_calls_tracked [OF sample_asr_new, of
      "[SubmitOp Secondary 0, SubmitOp Primary 1, TurnOp 1 (\<lambda>_. Admitted)]" 0 "[]"] show ?thesis by blast
qed

text \<open>
  Corrections yield to live captions: a secondary call is only handed to the recogniser when no live
  primary call is queued, the admission callback just admitted it and it has waited less than its budget.
\<close>

theorem secondary_yields:
  assumes "new_asr_scheduler w n m = Inr s0" "s = fold asr_step ops s0" "as_active s = None"
    and "next_scan now admission s = (NextCall Secondary c, s')"
  shows "primary_pending s = 0 \<and> admission (ac_id c) = Admitted
     \<and> now - ac_queued_at c < as_max_wait s' \<and> as_futures s' (ac_id c) = Some FPending"
proof -
  have inv: "asr_inv s" using asr_run_good [OF new_asr_inv [OF assms(1)]] assms(2) by blast
  have q1: "as_queue1 (purge_queues s) = []"
    using assms(4) by (subst (asm) next_scan.simps) (auto simp: Let_def split: list.splits)
  obtain q n where d: "drop_done s (as_queue1 s) = (q, n)" by fastforce
  with q1 have "q = []" by (auto simp: purge_queues_def split: prod.splits)
  with drop_done_split [OF d] have "primary_pending s = 0" by (simp add: primary_pending_def filter_empty_conv)
  with next_scan_good [OF inv assms(3,4)] show ?thesis by (simp add: scan_good_def)
qed

lemma secondary_yields_witness:
  "\<exists>c s'. next_scan 1 (\<lambda>_. Admitted) (fold asr_step [SubmitOp Secondary 0] sample_asr)
       = (NextCall Secondary c, s') \<and> as_futures s' (ac_id c) = Some FPending"
proof -
  let ?s = "fold asr_step [SubmitOp Secondary 0] sample_asr"
  have "(case next_scan 1 (\<lambda>_. Admitted) ?s of (NextCall Secondary c, s') \<Rightarrow> True | _ \<Rightarrow> False)
      \<and> (case as_active ?s of None \<Rightarrow> True | Some _ \<Rightarrow> False)" by code_simp
  then obtain c s' where n: "next_scan 1 (\<lambda>_. Admitted) ?s = (NextCall Secondary c, s')" and a: "as_active ?s = None"
    by (auto split: prod.splits next_call.splits priority.splits option.splits)
  from secondary_yields [OF sample_asr_new refl a n] n show ?thesis by blast
qed

end
