(* ===== verification/IngressTimeline.thy ===== *)
theory IngressTimeline
  imports SpeechWindows
begin

text \<open>
  Model of \<^verbatim>\<open>ingress_timing.py\<close>: when the server received the audio of a clause. The lemmas keep the
  retained frames ordered and marked with continuity numbers, so that an answer of \<open>anchor\<close> is about one
  gapless stretch of received audio. Frames are kept oldest first.
\<close>

record receipt =
  rc_track :: ustring
  rc_epoch :: ustring
  rc_start :: int
  rc_end :: int
  rc_sequence :: int
  rc_received :: rat
  rc_continuity :: nat

record timeline =
  tm_max :: nat
  tm_frames :: "receipt list"
  tm_last :: "receipt option"
  tm_continuity :: nat
  tm_gap :: bool
  tm_observed :: nat
  tm_evicted :: nat
  tm_misses :: nat

definition new_timeline :: "int \<Rightarrow> timeline res" where
  "new_timeline max_frames =
     (if \<not> (1 \<le> max_frames \<and> max_frames \<le> 200000)
      then Inl (ValueError ''Ingress history must retain 1..200000 frames'')
      else Inr \<lparr>tm_max = nat max_frames, tm_frames = [], tm_last = None, tm_continuity = 0, tm_gap = False,
             tm_observed = 0, tm_evicted = 0, tm_misses = 0\<rparr>)"

definition note_gap :: "timeline \<Rightarrow> timeline" where
  "note_gap t = t\<lparr>tm_gap := True\<rparr>"

definition breaks_continuity :: "timeline \<Rightarrow> audio_frame \<Rightarrow> bool" where
  "breaks_continuity t f = (case tm_last t of None \<Rightarrow> False
     | Some l \<Rightarrow> tm_gap t \<or> af_epoch f \<noteq> rc_epoch l \<or> af_sequence f \<noteq> rc_sequence l + 1
               \<or> af_start f \<noteq> rc_end l)"

definition refused_receipt :: "timeline \<Rightarrow> audio_frame \<Rightarrow> pyfloat \<Rightarrow> py_error option" where
  "refused_receipt t f received =
     (if \<not> pf_finite received then Some (ValueError ''Receipt must use a finite server monotonic time'')
      else case tm_last t of None \<Rightarrow> None
        | Some l \<Rightarrow>
            if af_track f \<noteq> rc_track l \<or> af_start f < rc_end l
              then Some (ValueError ''Ingress cannot change track or replay source audio'')
            else if pf_val received < rc_received l
              then Some (ValueError ''Server receipt clock moved backwards'')
            else None)"

definition observe_frame :: "audio_frame \<Rightarrow> pyfloat \<Rightarrow> timeline \<Rightarrow> timeline res" where
  "observe_frame f received t =
     (case refused_receipt t f received of
        Some e \<Rightarrow> Inl e
      | None \<Rightarrow>
          let continuity = (if breaks_continuity t f then tm_continuity t + 1 else tm_continuity t);
              entry = \<lparr>rc_track = af_track f, rc_epoch = af_epoch f, rc_start = af_start f,
                       rc_end = af_end f, rc_sequence = af_sequence f, rc_received = pf_val received,
                       rc_continuity = continuity\<rparr>;
              full = (length (tm_frames t) = tm_max t)
          in Inr (t\<lparr>tm_frames := (if full then tl (tm_frames t) else tm_frames t) @ [entry],
                   tm_evicted := (if full then tm_evicted t + 1 else tm_evicted t),
                   tm_continuity := continuity, tm_last := Some entry, tm_gap := False,
                   tm_observed := tm_observed t + 1\<rparr>))"

text \<open>The loop of \<open>anchor\<close> over the frames, newest first; \<open>found\<close> is the local \<open>endpoint\<close>.\<close>

fun anchor_scan ::
    "ustring \<Rightarrow> ustring \<Rightarrow> int \<Rightarrow> int \<Rightarrow> receipt option \<Rightarrow> receipt list \<Rightarrow> rat option" where
  "anchor_scan track epoch start end found [] = None"
| "anchor_scan track epoch start end found (item # rest) =
     (case (case found of Some e \<Rightarrow> Some e
            | None \<Rightarrow> if rc_start item < end \<and> end \<le> rc_end item \<and> rc_track item = track
                        \<and> rc_epoch item = epoch then Some item else None) of
        None \<Rightarrow> anchor_scan track epoch start end None rest
      | Some e \<Rightarrow>
          (if rc_continuity item \<noteq> rc_continuity e then None
           else if rc_start item \<le> start then Some (rc_received e)
           else anchor_scan track epoch start end (Some e) rest))"

definition anchor :: "ustring \<Rightarrow> ustring \<Rightarrow> int \<Rightarrow> int \<Rightarrow> timeline \<Rightarrow> rat option \<times> timeline" where
  "anchor track epoch start end t =
     (case (if start < 0 \<or> end \<le> start then None
            else anchor_scan track epoch start end None (rev (tm_frames t))) of
        Some r \<Rightarrow> (Some r, t)
      | None \<Rightarrow> (None, t\<lparr>tm_misses := tm_misses t + 1\<rparr>))"

record ingress_summary =
  is_observed :: nat
  is_retained :: nat
  is_evicted :: nat
  is_misses :: nat
  is_max :: nat

definition timeline_summary :: "timeline \<Rightarrow> ingress_summary" where
  "timeline_summary t = \<lparr>is_observed = tm_observed t, is_retained = length (tm_frames t),
     is_evicted = tm_evicted t, is_misses = tm_misses t, is_max = tm_max t\<rparr>"

subsection \<open>Invariant\<close>

definition follows :: "receipt \<Rightarrow> receipt \<Rightarrow> bool" where
  "follows a b \<longleftrightarrow> rc_end a \<le> rc_start b \<and> rc_received a \<le> rc_received b \<and> rc_track a = rc_track b
     \<and> rc_continuity a \<le> rc_continuity b
     \<and> (rc_continuity a = rc_continuity b \<longrightarrow> rc_end a = rc_start b \<and> rc_epoch a = rc_epoch b
          \<and> rc_sequence b = rc_sequence a + 1)"

definition timeline_inv :: "timeline \<Rightarrow> bool" where
  "timeline_inv t \<longleftrightarrow> 1 \<le> tm_max t \<and> length (tm_frames t) \<le> tm_max t
     \<and> successively follows (tm_frames t)
     \<and> (case tm_last t of None \<Rightarrow> tm_frames t = []
        | Some l \<Rightarrow> tm_frames t \<noteq> [] \<and> last (tm_frames t) = l \<and> rc_continuity l = tm_continuity t)
     \<and> tm_observed t = length (tm_frames t) + tm_evicted t"

lemma successively_tl: "successively P xs \<Longrightarrow> successively P (tl xs)"
  by (cases xs rule: list.exhaust; cases "tl xs"; auto simp: successively.simps)

lemma new_timeline_inv: "new_timeline n = Inr t \<Longrightarrow> timeline_inv t"
  by (auto simp: new_timeline_def timeline_inv_def split: if_splits)

lemma note_gap_inv: "timeline_inv t \<Longrightarrow> timeline_inv (note_gap t)"
  by (auto simp: timeline_inv_def note_gap_def split: option.splits)

lemma anchor_inv: "timeline_inv t \<Longrightarrow> timeline_inv (snd (anchor track epoch a b t))"
  by (auto simp: timeline_inv_def anchor_def split: option.splits)

lemma observe_frame_inv:
  assumes inv: "timeline_inv t" and obs: "observe_frame f received t = Inr t'"
  shows "timeline_inv t'"
proof -
  let ?c = "if breaks_continuity t f then tm_continuity t + 1 else tm_continuity t"
  let ?e = "\<lparr>rc_track = af_track f, rc_epoch = af_epoch f, rc_start = af_start f, rc_end = af_end f,
    rc_sequence = af_sequence f, rc_received = pf_val received, rc_continuity = ?c\<rparr>"
  let ?k = "if length (tm_frames t) = tm_max t then tl (tm_frames t) else tm_frames t"
  have ok: "refused_receipt t f received = None"
    and t': "tm_frames t' = ?k @ [?e]" "tm_last t' = Some ?e" "tm_continuity t' = ?c" "tm_max t' = tm_max t"
      "tm_observed t' = tm_observed t + 1"
      "tm_evicted t' = (if length (tm_frames t) = tm_max t then tm_evicted t + 1 else tm_evicted t)"
    using obs by (auto simp: observe_frame_def Let_def split: option.splits)
  have len: "length ?k < tm_max t" "length ?k + (tm_evicted t' - tm_evicted t) = length (tm_frames t)"
    using inv t'(6) by (auto simp: timeline_inv_def)
  have chain: "successively follows ?k" using inv by (simp add: timeline_inv_def successively_tl)
  have next_ok: "follows (last ?k) ?e" if "?k \<noteq> []"
  proof -
    from that have ne: "tm_frames t \<noteq> []" by (cases "tm_frames t") auto
    with inv obtain l where l: "tm_last t = Some l" "last (tm_frames t) = l" "rc_continuity l = tm_continuity t"
      by (auto simp: timeline_inv_def split: option.splits)
    have "last ?k = l" using that l(2) by (auto simp: last_tl)
    with ok l show ?thesis
      by (auto simp: follows_def refused_receipt_def breaks_continuity_def split: if_splits)
  qed
  have "successively follows (?k @ [?e])"
    unfolding successively_append_iff using chain next_ok by (metis list.distinct(1) list.sel(1) successively.simps(2))
  with len t' inv show ?thesis by (auto simp: timeline_inv_def)
qed

subsection \<open>An anchor is about one gapless stretch\<close>

definition covered :: "receipt list \<Rightarrow> nat \<Rightarrow> ustring \<Rightarrow> int \<Rightarrow> bool" where
  "covered fs c epoch x \<longleftrightarrow>
     (\<exists>g \<in> set fs. rc_continuity g = c \<and> rc_epoch g = epoch \<and> rc_start g \<le> x \<and> x < rc_end g)"

lemma anchor_scan_received:
  "anchor_scan track epoch a b (Some e) rs = Some r \<Longrightarrow> r = rc_received e"
  by (induction rs) (auto split: if_splits)

text \<open>Going back from a frame of the stretch: the older frames cover what lies before it.\<close>

lemma anchor_scan_back:
  "anchor_scan track epoch a b (Some e) rs = Some r \<Longrightarrow> successively (\<lambda>y x. follows x y) (p # rs) \<Longrightarrow>
     rc_continuity p = rc_continuity e \<Longrightarrow> a \<le> x \<Longrightarrow> x < rc_start p \<Longrightarrow>
     r = rc_received e \<and> covered rs (rc_continuity e) (rc_epoch p) x"
proof (induction rs arbitrary: p)
  case (Cons q rs)
  have q: "rc_continuity q = rc_continuity e" and fl: "follows q p"
    using Cons.prems(1,2) by (auto split: if_splits)
  have adj: "rc_end q = rc_start p" "rc_epoch q = rc_epoch p"
    using fl q Cons.prems(3) by (auto simp: follows_def)
  show ?case
  proof (cases "rc_start q \<le> x")
    case True
    then have "covered (q # rs) (rc_continuity e) (rc_epoch p) x"
      using q adj Cons.prems(5) by (auto simp: covered_def)
    with anchor_scan_received [OF Cons.prems(1)] show ?thesis by simp
  next
    case False
    with Cons.prems q have "anchor_scan track epoch a b (Some e) rs = Some r" by simp
    with Cons.IH [of q] Cons.prems(2,4) q False adj show ?thesis by (auto simp: covered_def)
  qed
qed simp

text \<open>Looking for the frame that holds the end of the clause.\<close>

lemma anchor_scan_covers:
  "anchor_scan track epoch a b None rs = Some r \<Longrightarrow> successively (\<lambda>y x. follows x y) rs \<Longrightarrow> a < b \<Longrightarrow>
     \<exists>e \<in> set rs. r = rc_received e \<and> rc_start e < b \<and> b \<le> rc_end e \<and> rc_track e = track \<and> rc_epoch e = epoch
       \<and> (\<forall>x. a \<le> x \<longrightarrow> x < b \<longrightarrow> covered rs (rc_continuity e) epoch x)"
proof (induction rs)
  case (Cons item rs)
  show ?case
  proof (cases "rc_start item < b \<and> b \<le> rc_end item \<and> rc_track item = track \<and> rc_epoch item = epoch")
    case False
    then have rest: "anchor_scan track epoch a b None rs = Some r" using Cons.prems(1) by auto
    have "successively (\<lambda>y x. follows x y) rs" using Cons.prems(2) by (cases rs) auto
    from Cons.IH [OF rest this Cons.prems(3)] show ?thesis by (auto simp: covered_def)
  next
    case True
    have "covered (item # rs) (rc_continuity item) epoch x" if x: "a \<le> x" "x < b" for x
    proof (cases "rc_start item \<le> x")
      case here: True
      with True x show ?thesis by (auto simp: covered_def)
    next
      case before: False
      with True x Cons.prems(1) have "anchor_scan track epoch a b (Some item) rs = Some r" by auto
      from anchor_scan_back [OF this Cons.prems(2) refl x(1)] before True show ?thesis
        by (auto simp: covered_def)
    qed
    moreover have "r = rc_received item"
      using Cons.prems(1) True anchor_scan_received [of track epoch a b item rs r] by (auto split: if_splits)
    ultimately show ?thesis using True by auto
  qed
qed simp

text \<open>
  The receipt time reported for a clause is that of a retained frame of the same track and epoch holding
  the end of the clause, and every instant of the clause lies in a retained frame of one stretch.
\<close>

theorem anchor_sound:
  assumes "timeline_inv t" "anchor track epoch a b t = (Some r, t')"
  shows "\<exists>e \<in> set (tm_frames t). r = rc_received e \<and> rc_start e < b \<and> b \<le> rc_end e \<and> rc_track e = track
     \<and> (\<forall>x. a \<le> x \<longrightarrow> x < b \<longrightarrow> covered (tm_frames t) (rc_continuity e) epoch x)"
proof -
  have scan: "anchor_scan track epoch a b None (rev (tm_frames t)) = Some r" and ab: "a < b"
    using assms(2) by (auto simp: anchor_def split: if_splits option.splits)
  have "successively (\<lambda>y x. follows x y) (rev (tm_frames t))"
    using assms(1) by (simp add: timeline_inv_def successively_rev)
  from anchor_scan_covers [OF scan this ab] show ?thesis by (auto simp: covered_def)
qed

end
