(* ===== verification/ClientLatency.thy ===== *)
theory ClientLatency
  imports SpeechWindows
begin

text \<open>
  Model of \<^verbatim>\<open>client_latency.py\<close>: ages of first caption receipts on the client's own clock. \<open>uc\<close> is the
  Unicode database, \<open>pr\<close> says which code points are printable. A tail is the index of the range it
  extends, so that extending it changes the range itself, as the shared object of the code does. Clock
  readings are arguments: \<open>None\<close> is a clock that raised or returned something invalid.
\<close>

subsection \<open>State\<close>

definition MAX_INTEGER :: int where "MAX_INTEGER = 9223372036854775807"

definition int_in :: "int \<Rightarrow> int \<Rightarrow> bool" where
  "int_in lo v \<longleftrightarrow> lo \<le> v \<and> v \<le> MAX_INTEGER"

definition bounded_id :: "unidb \<Rightarrow> (nat \<Rightarrow> bool) \<Rightarrow> nat \<Rightarrow> ustring \<Rightarrow> bool" where
  "bounded_id uc pr limit s \<longleftrightarrow>
     0 < length s \<and> length s \<le> limit \<and> py_strip uc s \<noteq> [] \<and> list_all pr s"

datatype source_mode = NativeLoopback | PacedWav | InjectedSource

datatype kind = SourceFirst | SourceStable | TranslationFirst | TranslationCompleted

record source_range =
  rg_track :: ustring
  rg_epoch :: ustring
  rg_origin :: int
  rg_start :: int
  rg_end :: int
  rg_sequence :: int

record aggregate =
  ag_count :: nat
  ag_nonneg :: nat
  ag_neg :: nat
  ag_sum :: int
  ag_min :: "int option"
  ag_max :: "int option"

record latency =
  lt_mode :: source_mode
  lt_injected :: bool
  lt_max_samples :: nat
  lt_max_identities :: nat
  lt_max_ranges :: nat
  lt_origins :: "(ustring \<times> int) list"
  lt_ranges :: "source_range list"
  lt_tails :: "(ustring \<times> nat) list"
  lt_invalid :: "ustring list"
  lt_exhausted :: bool
  lt_seen :: "((ustring \<times> ustring \<times> int) \<times> kind list) list"
  lt_samples :: "(kind \<times> int) list"
  lt_aggregates :: "kind \<Rightarrow> aggregate"
  lt_counts :: "(string \<times> nat) list"
  lt_problems :: "(string \<times> nat) list"
  lt_last_clock :: "int option"

definition empty_aggregate :: aggregate where
  "empty_aggregate = \<lparr>ag_count = 0, ag_nonneg = 0, ag_neg = 0, ag_sum = 0, ag_min = None, ag_max = None\<rparr>"

definition new_latency :: "source_mode \<Rightarrow> bool \<Rightarrow> int \<Rightarrow> int \<Rightarrow> int \<Rightarrow> latency res" where
  "new_latency mode injected max_samples max_identities max_ranges =
     (if list_ex (\<lambda>n. \<not> (1 \<le> n \<and> n \<le> 10000)) [max_samples, max_identities, max_ranges]
      then Inl (ValueError ''capacities must be integers in [1, 10000]'')
      else Inr \<lparr>lt_mode = mode, lt_injected = injected, lt_max_samples = nat max_samples,
             lt_max_identities = nat max_identities, lt_max_ranges = nat max_ranges, lt_origins = [],
             lt_ranges = [], lt_tails = [], lt_invalid = [], lt_exhausted = False, lt_seen = [],
             lt_samples = [], lt_aggregates = (\<lambda>_. empty_aggregate), lt_counts = [], lt_problems = [],
             lt_last_clock = None\<rparr>)"

definition bump :: "string \<Rightarrow> nat \<Rightarrow> (string \<times> nat) list \<Rightarrow> (string \<times> nat) list" where
  "bump k n m = al_put k ((case map_of m k of None \<Rightarrow> 0 | Some v \<Rightarrow> v) + n) m"

definition note_count :: "string \<Rightarrow> latency \<Rightarrow> latency" where
  "note_count k t = t\<lparr>lt_counts := bump k 1 (lt_counts t)\<rparr>"

definition note_problem :: "string \<Rightarrow> latency \<Rightarrow> latency" where
  "note_problem k t = t\<lparr>lt_problems := bump k 1 (lt_problems t)\<rparr>"

definition drop_caption :: "string \<Rightarrow> latency \<Rightarrow> latency" where
  "drop_caption reason t = note_problem reason (note_count ''unmeasured_caption_events'' t)"

subsection \<open>Origins and gaps\<close>

definition set_origin ::
    "unidb \<Rightarrow> (nat \<Rightarrow> bool) \<Rightarrow> int \<Rightarrow> ustring \<Rightarrow> latency \<Rightarrow> latency res" where
  "set_origin uc pr origin track t =
     (if \<not> int_in 0 origin \<or> \<not> bounded_id uc pr 256 track
        then Inl (ValueError ''Origin must be nonnegative integer ns and track ID must be bounded text'')
      else if map_of (lt_origins t) track = None \<and> lt_max_ranges t \<le> length (lt_origins t)
        then Inl (ValueError ''Origin track limit reached'')
      else
        let t1 = (case map_of (lt_origins t) track of
              None \<Rightarrow> t
            | Some previous \<Rightarrow>
                if previous \<noteq> origin
                then note_count ''origin_changes'' (t\<lparr>lt_tails := al_del track (lt_tails t)\<rparr>) else t)
        in Inr (t1\<lparr>lt_origins := al_put track origin (lt_origins t1)\<rparr>))"

definition set_native_origin ::
    "unidb \<Rightarrow> (nat \<Rightarrow> bool) \<Rightarrow> int \<Rightarrow> ustring \<Rightarrow> latency \<Rightarrow> latency res" where
  "set_native_origin uc pr qpc track t =
     (if lt_mode t \<noteq> NativeLoopback \<or> \<not> int_in 0 qpc
      then Inl (ValueError ''Native origin requires native mode and integer QPC 100-ns units'')
      else set_origin uc pr (qpc * 100) track t)"

definition set_wav_origin ::
    "unidb \<Rightarrow> (nat \<Rightarrow> bool) \<Rightarrow> int \<Rightarrow> ustring \<Rightarrow> latency \<Rightarrow> latency res" where
  "set_wav_origin uc pr perf track t =
     (if lt_mode t \<noteq> PacedWav then Inl (ValueError ''WAV origin requires paced_wav mode'')
      else set_origin uc pr perf track t)"

text \<open>\<open>now_ns\<close>: \<open>reading\<close> is what the clock of the mode returns, \<open>None\<close> when it raises.\<close>

definition now_ns :: "int option \<Rightarrow> latency \<Rightarrow> int option \<times> latency" where
  "now_ns reading t =
     (if lt_mode t = InjectedSource then (None, t)
      else case reading of
        Some v \<Rightarrow> if int_in 0 v then (Some v, t) else (None, note_problem ''clock_read_failed'' t)
      | None \<Rightarrow> (None, note_problem ''clock_read_failed'' t))"

definition note_source_gap ::
    "unidb \<Rightarrow> (nat \<Rightarrow> bool) \<Rightarrow> ustring \<Rightarrow> ustring \<Rightarrow> latency \<Rightarrow> latency" where
  "note_source_gap uc pr track reason t =
     (if \<not> bounded_id uc pr 256 track \<or> \<not> bounded_id uc pr 256 reason then note_problem ''invalid_gap'' t
      else note_count ''source_gaps'' (t\<lparr>lt_tails := al_del track (lt_tails t)\<rparr>))"

definition note_error :: "int \<Rightarrow> latency \<Rightarrow> latency res" where
  "note_error count t =
     (if \<not> int_in 1 count then Inl (ValueError ''Error count must be a positive integer'')
      else Inr (t\<lparr>lt_counts := bump ''error_events_unmeasured'' (nat count) (lt_counts t)\<rparr>))"

subsection \<open>Frames\<close>

definition open_range :: "audio_frame \<Rightarrow> int \<Rightarrow> latency \<Rightarrow> bool \<times> latency" where
  "open_range f origin t =
     (if lt_max_ranges t \<le> length (lt_ranges t)
      then (False, note_problem ''timeline_capacity_exhausted'' (t\<lparr>lt_exhausted := True\<rparr>))
      else (True, note_count ''accepted_frames'' (t\<lparr>
              lt_tails := al_put (af_track f) (length (lt_ranges t)) (lt_tails t),
              lt_ranges := lt_ranges t @ [\<lparr>rg_track = af_track f, rg_epoch = af_epoch f,
                 rg_origin = origin, rg_start = af_start f, rg_end = af_end f,
                 rg_sequence = af_sequence f\<rparr>]\<rparr>)))"

definition observe_source ::
    "unidb \<Rightarrow> (nat \<Rightarrow> bool) \<Rightarrow> audio_frame \<Rightarrow> latency \<Rightarrow> bool \<times> latency" where
  "observe_source uc pr f t0 =
     (let t = note_count ''frame_events'' t0
      in if \<not> bounded_id uc pr 256 (af_track f) \<or> \<not> bounded_id uc pr 256 (af_epoch f)
            \<or> \<not> int_in 0 (af_start f) \<or> \<not> int_in 0 (af_end f) \<or> \<not> int_in 0 (af_sequence f)
           then (False, note_problem ''invalid_frame'' t)
         else if lt_mode t = InjectedSource then (False, note_count ''injected_frames_unmeasured'' t)
         else case map_of (lt_origins t) (af_track f) of
           None \<Rightarrow> (False, note_problem ''frame_origin_missing'' t)
         | Some origin \<Rightarrow>
             if lt_exhausted t \<or> af_track f \<in> set (lt_invalid t)
               then (False, note_count ''frames_timeline_unavailable'' t)
             else case map_of (lt_tails t) (af_track f) of
               None \<Rightarrow> open_range f origin t
             | Some i \<Rightarrow>
                 let previous = lt_ranges t ! i
                 in if rg_epoch previous = af_epoch f \<and> rg_origin previous = origin
                    then
                      (if af_start f < rg_end previous \<or> af_sequence f \<le> rg_sequence previous
                         then (False, note_problem ''backwards_or_duplicate_frame''
                                (t\<lparr>lt_invalid := af_track f # lt_invalid t\<rparr>))
                       else if af_start f = rg_end previous \<and> af_sequence f = rg_sequence previous + 1
                         then (True, note_count ''accepted_frames'' (t\<lparr>lt_ranges :=
                                (lt_ranges t)[i := previous\<lparr>rg_end := af_end f,
                                                          rg_sequence := af_sequence f\<rparr>]\<rparr>))
                       else open_range f origin (note_problem ''implicit_source_gap'' t))
                    else open_range f origin t)"

subsection \<open>Captions\<close>

datatype caption_text = TextString ustring | TextFlag bool

datatype receipt_time = ReadClock "int option" | GivenTime "int option"

record latency_sample =
  ls_kind :: kind
  ls_segment :: ustring
  ls_revision :: int
  ls_track :: ustring
  ls_epoch :: ustring
  ls_start :: int
  ls_end :: int
  ls_received :: int
  ls_origin :: int
  ls_signed :: int

definition epoch_matches :: "ustring option \<Rightarrow> source_range \<Rightarrow> bool" where
  "epoch_matches epoch r \<longleftrightarrow> (case epoch of None \<Rightarrow> True | Some e \<Rightarrow> rg_epoch r = e)"

definition containing_ranges ::
    "ustring \<Rightarrow> ustring option \<Rightarrow> int \<Rightarrow> int \<Rightarrow> source_range list \<Rightarrow> nat list" where
  "containing_ranges track epoch a b rs =
     filter (\<lambda>i. rg_track (rs ! i) = track \<and> epoch_matches epoch (rs ! i)
                 \<and> rg_start (rs ! i) \<le> a \<and> b \<le> rg_end (rs ! i)) [0..<length rs]"

definition overlapping_other ::
    "ustring \<Rightarrow> ustring option \<Rightarrow> int \<Rightarrow> int \<Rightarrow> nat \<Rightarrow> source_range list \<Rightarrow> bool" where
  "overlapping_other track epoch a b i rs \<longleftrightarrow>
     list_ex (\<lambda>j. j \<noteq> i \<and> rg_track (rs ! j) = track \<and> epoch_matches epoch (rs ! j)
                  \<and> rg_start (rs ! j) < b \<and> a < rg_end (rs ! j)) [0..<length rs]"

definition add_sample :: "int \<Rightarrow> aggregate \<Rightarrow> aggregate" where
  "add_sample v g =
     (let g1 = g\<lparr>ag_count := ag_count g + 1,
                 ag_min := Some (case ag_min g of None \<Rightarrow> v | Some m \<Rightarrow> min m v),
                 ag_max := Some (case ag_max g of None \<Rightarrow> v | Some m \<Rightarrow> max m v)\<rparr>
      in if v < 0 then g1\<lparr>ag_neg := ag_neg g1 + 1\<rparr>
         else g1\<lparr>ag_nonneg := ag_nonneg g1 + 1, ag_sum := ag_sum g1 + v\<rparr>)"

text \<open>The tail of \<open>observe_caption\<close>: one measurement against the range \<open>r\<close>.\<close>

definition measure_sample ::
    "kind \<Rightarrow> ustring \<Rightarrow> int \<Rightarrow> ustring \<Rightarrow> int \<Rightarrow> int \<Rightarrow> source_range \<Rightarrow> int \<Rightarrow> latency
       \<Rightarrow> latency_sample \<times> latency" where
  "measure_sample k segment revision track a b r received t =
     (let v = received - rg_origin r - b;
          t1 = t\<lparr>lt_last_clock := Some received,
                 lt_aggregates := (lt_aggregates t)(k := add_sample v (lt_aggregates t k))\<rparr>;
          t2 = (if v < 0 then note_problem ''negative_source_timestamp_age'' t1 else t1);
          t3 = (if length (lt_samples t2) < lt_max_samples t2
                then t2\<lparr>lt_samples := lt_samples t2 @ [(k, v)]\<rparr>
                else note_count ''quantile_samples_not_retained'' t2)
      in (\<lparr>ls_kind = k, ls_segment = segment, ls_revision = revision, ls_track = track,
           ls_epoch = rg_epoch r, ls_start = a, ls_end = b, ls_received = received,
           ls_origin = rg_origin r, ls_signed = v\<rparr>,
          note_count ''measured_events'' t3))"

definition measure_caption ::
    "kind \<Rightarrow> ustring \<Rightarrow> int \<Rightarrow> ustring \<Rightarrow> ustring option \<Rightarrow> int \<Rightarrow> int \<Rightarrow> receipt_time \<Rightarrow> latency
       \<Rightarrow> latency_sample option \<times> latency" where
  "measure_caption k segment revision track epoch a b now t =
     (if lt_mode t = InjectedSource then (None, drop_caption ''injected_source_unmeasured'' t)
      else if lt_exhausted t \<or> track \<in> set (lt_invalid t)
        then (None, drop_caption ''source_timeline_invalid'' t)
      else case containing_ranges track epoch a b (lt_ranges t) of
        [] \<Rightarrow> (None, drop_caption ''source_interval_not_in_one_known_range'' t)
      | i # more_matches \<Rightarrow>
          if more_matches \<noteq> [] \<or> overlapping_other track epoch a b i (lt_ranges t)
            then (None, drop_caption ''ambiguous_capture_epoch'' t)
          else
            let (received, t1) = (case now of ReadClock r \<Rightarrow> now_ns r t | GivenTime r \<Rightarrow> (r, t))
            in case received of
              None \<Rightarrow> (None, drop_caption ''receipt_clock_unavailable_or_invalid'' t1)
            | Some v \<Rightarrow>
                if \<not> int_in 0 v then (None, drop_caption ''receipt_clock_unavailable_or_invalid'' t1)
                else if (case lt_last_clock t1 of None \<Rightarrow> False | Some l \<Rightarrow> v < l)
                  then (None, drop_caption ''receipt_clock_went_backwards'' t1)
                else (case measure_sample k segment revision track a b (lt_ranges t1 ! i) v t1 of
                        (s, t2) \<Rightarrow> (Some s, t2)))"

text \<open>The first text of a segment revision and kind is consumed, even if it cannot be measured later.\<close>

definition first_receipt ::
    "ustring \<times> ustring \<times> int \<Rightarrow> kind \<Rightarrow> latency \<Rightarrow> (bool \<times> latency) option" where
  "first_receipt key k t =
     (if map_of (lt_seen t) key = None \<and> lt_max_identities t \<le> length (lt_seen t) then None
      else
        let seen = (case map_of (lt_seen t) key of None \<Rightarrow> [] | Some ks \<Rightarrow> ks)
        in Some (if k \<in> set seen then (False, t)
                 else (True, t\<lparr>lt_seen := al_put key (k # seen) (lt_seen t)\<rparr>)))"

definition observe_caption ::
    "unidb \<Rightarrow> (nat \<Rightarrow> bool) \<Rightarrow> ustring \<Rightarrow> int \<Rightarrow> int \<Rightarrow> int \<Rightarrow> kind option \<Rightarrow> caption_text \<Rightarrow> ustring
       \<Rightarrow> ustring option \<Rightarrow> receipt_time \<Rightarrow> latency \<Rightarrow> latency_sample option \<times> latency" where
  "observe_caption uc pr segment revision a b kopt content track epoch now t0 =
     (let t = note_count ''caption_events'' t0
      in case kopt of
        None \<Rightarrow> (None, drop_caption ''unsupported_metric_kind'' t)
      | Some k \<Rightarrow>
          if \<not> bounded_id uc pr 512 segment \<or> \<not> bounded_id uc pr 256 track \<or> \<not> int_in 1 revision
             \<or> \<not> int_in 0 a \<or> \<not> int_in 0 b \<or> b \<le> a
             \<or> (case epoch of None \<Rightarrow> False | Some e \<Rightarrow> \<not> bounded_id uc pr 256 e)
            then (None, drop_caption ''invalid_caption_identity_or_interval'' t)
          else if (case content of TextString s \<Rightarrow> 24000 < length s | TextFlag _ \<Rightarrow> False)
            then (None, drop_caption ''invalid_text_nonempty'' t)
          else if \<not> (case content of TextString s \<Rightarrow> py_strip uc s \<noteq> [] | TextFlag x \<Rightarrow> x)
            then (None, note_count ''empty_text_events'' t)
          else (case first_receipt (track, segment, revision) k t of
              None \<Rightarrow> (None, drop_caption ''identity_capacity_exhausted'' t)
            | Some (fresh, t1) \<Rightarrow>
                if \<not> fresh then (None, note_count ''duplicate_first_events'' t1)
                else measure_caption k segment revision track epoch a b now t1))"

subsection \<open>Summary\<close>

text \<open>A quantile of sorted values in milliseconds, interpolated between neighbours.\<close>

definition quantile_ms :: "rat \<Rightarrow> int list \<Rightarrow> rat option" where
  "quantile_ms q vs =
     (if vs = [] then None
      else
        let p = of_nat (length vs - 1) * q; l = nat \<lfloor>p\<rfloor>; r = nat \<lceil>p\<rceil>
        in Some ((of_int (vs ! l) + of_int (vs ! r - vs ! l) * (p - of_nat l)) / 1000000))"

record kind_summary =
  ks_count :: nat
  ks_nonneg :: nat
  ks_neg :: nat
  ks_min :: "rat option"
  ks_max :: "rat option"
  ks_mean :: "rat option"
  ks_retained :: nat
  ks_p50 :: "rat option"
  ks_p95 :: "rat option"

definition latency_summary :: "latency \<Rightarrow> kind \<Rightarrow> kind_summary" where
  "latency_summary t k =
     (let g = lt_aggregates t k;
          vs = sort (map snd (filter (\<lambda>(k', v). k' = k \<and> 0 \<le> v) (lt_samples t)))
      in \<lparr>ks_count = ag_count g, ks_nonneg = ag_nonneg g, ks_neg = ag_neg g,
          ks_min = map_option (\<lambda>v. of_int v / 1000000) (ag_min g),
          ks_max = map_option (\<lambda>v. of_int v / 1000000) (ag_max g),
          ks_mean = (if ag_nonneg g = 0 then None
                     else Some (of_int (ag_sum g) / of_nat (ag_nonneg g) / 1000000)),
          ks_retained = length vs, ks_p50 = quantile_ms (1 / 2) vs, ks_p95 = quantile_ms (95 / 100) vs\<rparr>)"

subsection \<open>Steps and what they keep\<close>

datatype latency_op =
    NativeOriginOp int ustring
  | WavOriginOp int ustring
  | GapOp ustring ustring
  | ErrorOp int
  | FrameOp audio_frame
  | CaptionOp ustring int int int "kind option" caption_text ustring "ustring option" receipt_time

definition keep_state :: "latency res \<Rightarrow> latency \<Rightarrow> latency" where
  "keep_state r t = (case r of Inl e \<Rightarrow> t | Inr t' \<Rightarrow> t')"

definition latency_step :: "unidb \<Rightarrow> (nat \<Rightarrow> bool) \<Rightarrow> latency_op \<Rightarrow> latency \<Rightarrow> latency" where
  "latency_step uc pr oper t =
     (case oper of
        NativeOriginOp q track \<Rightarrow> keep_state (set_native_origin uc pr q track t) t
      | WavOriginOp q track \<Rightarrow> keep_state (set_wav_origin uc pr q track t) t
      | GapOp track reason \<Rightarrow> note_source_gap uc pr track reason t
      | ErrorOp n \<Rightarrow> keep_state (note_error n t) t
      | FrameOp f \<Rightarrow> snd (observe_source uc pr f t)
      | CaptionOp segment revision a b k content track epoch now \<Rightarrow>
          snd (observe_caption uc pr segment revision a b k content track epoch now t))"

text \<open>
  \<open>latency_keeps\<close>: the configuration stays, first receipts stay consumed, and the memory stays within its
  capacities when it was.
\<close>

definition seen_kinds :: "latency \<Rightarrow> ustring \<times> ustring \<times> int \<Rightarrow> kind set" where
  "seen_kinds t key = (case map_of (lt_seen t) key of None \<Rightarrow> {} | Some ks \<Rightarrow> set ks)"

definition within_capacity :: "latency \<Rightarrow> bool" where
  "within_capacity t \<longleftrightarrow> length (lt_samples t) \<le> lt_max_samples t \<and> length (lt_seen t) \<le> lt_max_identities t
     \<and> length (lt_ranges t) \<le> lt_max_ranges t \<and> length (lt_origins t) \<le> lt_max_ranges t
     \<and> (\<forall>k. ag_count (lt_aggregates t k) = ag_nonneg (lt_aggregates t k) + ag_neg (lt_aggregates t k))"

definition latency_keeps :: "latency \<Rightarrow> latency \<Rightarrow> bool" where
  "latency_keeps t t' \<longleftrightarrow> lt_max_samples t' = lt_max_samples t \<and> lt_max_identities t' = lt_max_identities t
     \<and> lt_max_ranges t' = lt_max_ranges t \<and> lt_mode t' = lt_mode t
     \<and> (\<forall>key. seen_kinds t key \<subseteq> seen_kinds t' key) \<and> (within_capacity t \<longrightarrow> within_capacity t')"

lemma latency_keeps_refl: "latency_keeps t t"
  by (simp add: latency_keeps_def)

lemma latency_keeps_trans: "latency_keeps a b \<Longrightarrow> latency_keeps b c \<Longrightarrow> latency_keeps a c"
  unfolding latency_keeps_def by (intro conjI allI) (simp, simp, simp, simp, blast, blast)

text \<open>Updates that touch neither the capacities nor the stores.\<close>

definition same_stores :: "latency \<Rightarrow> latency \<Rightarrow> bool" where
  "same_stores t t' \<longleftrightarrow> lt_max_samples t' = lt_max_samples t \<and> lt_max_identities t' = lt_max_identities t
     \<and> lt_max_ranges t' = lt_max_ranges t \<and> lt_mode t' = lt_mode t \<and> lt_seen t' = lt_seen t
     \<and> lt_samples t' = lt_samples t \<and> lt_aggregates t' = lt_aggregates t
     \<and> length (lt_ranges t') = length (lt_ranges t) \<and> lt_origins t' = lt_origins t"

lemma same_stores_keeps: "same_stores t t' \<Longrightarrow> latency_keeps t t'"
  by (simp add: same_stores_def latency_keeps_def within_capacity_def seen_kinds_def)

lemma same_stores_trans: "same_stores a b \<Longrightarrow> same_stores b c \<Longrightarrow> same_stores a c"
  by (simp add: same_stores_def)

lemma same_stores_notes:
  "same_stores t (note_count k t)" "same_stores t (note_problem k t)" "same_stores t (drop_caption r t)"
  "same_stores t (snd (now_ns reading t))"
  by (simp_all add: same_stores_def note_count_def note_problem_def drop_caption_def now_ns_def
      split: option.splits)

lemma set_origin_keeps:
  assumes "set_origin uc pr origin track t = Inr t'"
  shows "latency_keeps t t'"
proof -
  define t1 where "t1 = (case map_of (lt_origins t) track of None \<Rightarrow> t
      | Some previous \<Rightarrow> if previous \<noteq> origin
          then note_count ''origin_changes'' (t\<lparr>lt_tails := al_del track (lt_tails t)\<rparr>) else t)"
  have eq: "t' = t1\<lparr>lt_origins := al_put track origin (lt_origins t1)\<rparr>"
    and cap: "map_of (lt_origins t) track = None \<longrightarrow> length (lt_origins t) < lt_max_ranges t"
    using assms by (auto simp: set_origin_def t1_def Let_def split: if_splits)
  have st: "same_stores t t1" by (auto simp: t1_def same_stores_def note_count_def split: option.splits)
  have "length (lt_origins t') \<le> lt_max_ranges t" if "length (lt_origins t) \<le> lt_max_ranges t"
    using length_al_put_le [of track origin "lt_origins t"] cap that st
    by (auto simp: eq same_stores_def split: if_splits)
  with st show ?thesis
    by (auto simp: eq same_stores_def latency_keeps_def within_capacity_def seen_kinds_def)
qed

lemma open_range_keeps: "latency_keeps t (snd (open_range f origin t))"
  by (simp add: open_range_def latency_keeps_def within_capacity_def seen_kinds_def note_problem_def
      note_count_def)

lemma keeps_notes:
  "latency_keeps t (note_count k t)" "latency_keeps t (note_problem k t)" "latency_keeps t (drop_caption k t)"
  "latency_keeps t (note_problem k (t\<lparr>lt_invalid := x\<rparr>))"
  "latency_keeps t (note_count k (t\<lparr>lt_ranges := (lt_ranges t)[i := r]\<rparr>))"
  "latency_keeps t (note_count k (t\<lparr>lt_tails := l\<rparr>))"
  "latency_keeps t (t\<lparr>lt_counts := c\<rparr>)"
  by (rule same_stores_keeps, simp add: same_stores_def note_count_def note_problem_def drop_caption_def)+

lemma open_range_noted_keeps: "latency_keeps t (snd (open_range f origin (note_problem k t)))"
  by (rule latency_keeps_trans [OF keeps_notes(2) open_range_keeps])

lemma observe_source_keeps: "latency_keeps t (snd (observe_source uc pr f t))"
proof -
  let ?t = "note_count ''frame_events'' t"
  have "latency_keeps ?t (snd (observe_source uc pr f t))"
    unfolding observe_source_def Let_def
    by (simp add: keeps_notes open_range_keeps open_range_noted_keeps split: option.split)
  with keeps_notes(1) show ?thesis by (rule latency_keeps_trans)
qed

text \<open>A measured caption: stores grow by one sample at most.\<close>

lemma measure_sample_keeps: "latency_keeps t (snd (measure_sample k g v track a b r now t))"
  by (auto simp: measure_sample_def Let_def latency_keeps_def within_capacity_def seen_kinds_def
      note_problem_def note_count_def add_sample_def)

lemma now_ns_keeps: "latency_keeps t (snd (now_ns reading t))"
  by (rule same_stores_keeps) (rule same_stores_notes)

lemma measure_caption_keeps: "latency_keeps t (snd (measure_caption k g v track epoch a b now t))"
proof -
  obtain r1 t1 where n: "(case now of ReadClock r \<Rightarrow> now_ns r t | GivenTime r \<Rightarrow> (r, t)) = (r1, t1)" by fastforce
  then have t1: "latency_keeps t t1"
    using now_ns_keeps [of t] latency_keeps_refl [of t] by (cases now) (auto simp: prod_eq_iff)
  note via = latency_keeps_trans [OF t1 keeps_notes(3)] latency_keeps_trans [OF t1 measure_sample_keeps]
  show ?thesis
    unfolding measure_caption_def n
    by (simp add: keeps_notes via case_prod_let Let_def split: list.split option.split)
qed

lemma first_receipt_keeps:
  assumes "first_receipt key k t = Some (fresh, t1)"
  shows "latency_keeps t t1 \<and> (fresh \<longleftrightarrow> k \<notin> seen_kinds t key) \<and> k \<in> seen_kinds t1 key
     \<and> lt_ranges t1 = lt_ranges t \<and> lt_mode t1 = lt_mode t \<and> lt_last_clock t1 = lt_last_clock t"
proof -
  let ?seen = "case map_of (lt_seen t) key of None \<Rightarrow> [] | Some ks \<Rightarrow> ks"
  have sk: "seen_kinds t key = set ?seen" by (simp add: seen_kinds_def split: option.split)
  show ?thesis
  proof (cases "k \<in> set ?seen")
    case True
    with assms sk show ?thesis by (auto simp: first_receipt_def Let_def latency_keeps_refl split: if_splits)
  next
    case False
    have t1: "t1 = t\<lparr>lt_seen := al_put key (k # ?seen) (lt_seen t)\<rparr>" and fresh
      using assms False by (auto simp: first_receipt_def Let_def split: if_splits)
    have "length (lt_seen t1) \<le> lt_max_identities t" if "length (lt_seen t) \<le> lt_max_identities t"
      using that assms length_al_put_le [of key "k # ?seen" "lt_seen t"]
      by (auto simp: t1 first_receipt_def split: if_splits)
    moreover have "seen_kinds t key' \<subseteq> seen_kinds t1 key'" for key'
      by (auto simp: seen_kinds_def t1 split: option.splits)
    moreover have "k \<in> seen_kinds t1 key" by (simp add: seen_kinds_def t1)
    ultimately show ?thesis using False sk \<open>fresh\<close>
      by (simp add: latency_keeps_def within_capacity_def t1)
  qed
qed

lemma observe_caption_keeps: "latency_keeps t (snd (observe_caption uc pr g v a b kopt content track epoch now t))"
proof -
  let ?t = "note_count ''caption_events'' t" and ?key = "(track, g, v)"
  have via: "latency_keeps ?t (note_count n t1)" "latency_keeps ?t (snd (measure_caption k g v track epoch a b now t1))"
    if "first_receipt ?key k ?t = Some (fresh, t1)" for k fresh t1 n
    using first_receipt_keeps [OF that] latency_keeps_trans keeps_notes(1) measure_caption_keeps by blast+
  have "latency_keeps ?t (snd (observe_caption uc pr g v a b kopt content track epoch now t))"
  proof (cases kopt)
    case None
    then show ?thesis by (simp add: observe_caption_def Let_def keeps_notes)
  next
    case (Some k)
    then show ?thesis
      by (cases "first_receipt ?key k ?t")
        (auto simp: observe_caption_def Let_def keeps_notes via)
  qed
  with keeps_notes(1) show ?thesis by (rule latency_keeps_trans)
qed

lemma latency_step_keeps: "latency_keeps t (latency_step uc pr oper t)"
proof (cases oper)
  case (NativeOriginOp q track)
  then show ?thesis
    using set_origin_keeps [of uc pr "q * 100" track t] latency_keeps_refl
    by (auto simp: latency_step_def keep_state_def set_native_origin_def split: sum.split)
next
  case (WavOriginOp q track)
  then show ?thesis
    using set_origin_keeps [of uc pr q track t] latency_keeps_refl
    by (auto simp: latency_step_def keep_state_def set_wav_origin_def split: sum.split)
qed (auto simp: latency_step_def keep_state_def note_source_gap_def note_error_def keeps_notes
    latency_keeps_refl observe_source_keeps observe_caption_keeps split: sum.splits)

lemma latency_run_keeps: "latency_keeps t (fold (latency_step uc pr) ops t)"
proof (induction ops arbitrary: t)
  case (Cons oper ops)
  show ?case using latency_keeps_trans [OF latency_step_keeps Cons.IH] by simp
qed (simp add: latency_keeps_refl)

lemma new_latency_capacity: "new_latency mode injected a b c = Inr t \<Longrightarrow> within_capacity t"
  by (auto simp: new_latency_def within_capacity_def empty_aggregate_def split: if_splits)

lemma caption_consumes:
  assumes "observe_caption uc pr g v a b kopt content track epoch now t = (Some s, t')"
  shows "\<exists>k. kopt = Some k \<and> k \<notin> seen_kinds t (track, g, v) \<and> k \<in> seen_kinds t' (track, g, v)
     \<and> (\<exists>t1. lt_ranges t1 = lt_ranges t \<and> lt_last_clock t1 = lt_last_clock t
          \<and> measure_caption k g v track epoch a b now t1 = (Some s, t'))"
proof -
  let ?t = "note_count ''caption_events'' t"
  have same: "seen_kinds ?t = seen_kinds t" "lt_ranges ?t = lt_ranges t" "lt_last_clock ?t = lt_last_clock t"
    by (simp_all add: seen_kinds_def note_count_def fun_eq_iff)
  obtain k t1 where k: "kopt = Some k" and f: "first_receipt (track, g, v) k ?t = Some (True, t1)"
    and m: "measure_caption k g v track epoch a b now t1 = (Some s, t')"
    using assms by (auto simp: observe_caption_def Let_def split: option.splits if_splits)
  have "seen_kinds t1 (track, g, v) \<subseteq> seen_kinds t' (track, g, v)"
    using measure_caption_keeps [of t1 k g v track epoch a b now] m by (simp add: latency_keeps_def)
  with first_receipt_keeps [OF f] k m same show ?thesis by auto
qed

lemma consumed_not_measured:
  assumes "k \<in> seen_kinds t (track, g, v)"
  shows "fst (observe_caption uc pr g v a b (Some k) content track epoch now t) = None"
proof (rule ccontr)
  assume "\<not> ?thesis"
  then obtain s t' where "observe_caption uc pr g v a b (Some k) content track epoch now t = (Some s, t')"
    by (cases "observe_caption uc pr g v a b (Some k) content track epoch now t") auto
  from caption_consumes [OF this] assms show False by simp
qed

subsection \<open>Properties\<close>

lemma containing_ranges_mem:
  "i \<in> set (containing_ranges track epoch a b rs) \<longleftrightarrow>
     i < length rs \<and> rg_track (rs ! i) = track \<and> epoch_matches epoch (rs ! i)
     \<and> rg_start (rs ! i) \<le> a \<and> b \<le> rg_end (rs ! i)"
  by (auto simp: containing_ranges_def)

text \<open>A measurement is against the one known range that holds the caption, and no other range meets it.\<close>

lemma measure_caption_sound:
  assumes "measure_caption k g v track epoch a b now t = (Some s, t')"
  shows "\<exists>i < length (lt_ranges t). rg_track (lt_ranges t ! i) = track \<and> rg_start (lt_ranges t ! i) \<le> a
     \<and> b \<le> rg_end (lt_ranges t ! i) \<and> ls_epoch s = rg_epoch (lt_ranges t ! i)
     \<and> (case epoch of None \<Rightarrow> True | Some e \<Rightarrow> ls_epoch s = e)
     \<and> ls_signed s = ls_received s - rg_origin (lt_ranges t ! i) - b
     \<and> (\<forall>j < length (lt_ranges t). j \<noteq> i \<longrightarrow> rg_track (lt_ranges t ! j) = track \<longrightarrow>
          epoch_matches epoch (lt_ranges t ! j) \<longrightarrow>
          b \<le> rg_start (lt_ranges t ! j) \<or> rg_end (lt_ranges t ! j) \<le> a)
     \<and> (case lt_last_clock t of None \<Rightarrow> True | Some l \<Rightarrow> l \<le> ls_received s)"
proof -
  obtain i rest where c: "containing_ranges track epoch a b (lt_ranges t) = i # rest"
    and one: "rest = []" "\<not> overlapping_other track epoch a b i (lt_ranges t)"
    using assms by (auto simp: measure_caption_def split: if_splits list.splits)
  obtain r1 t1 where n: "(case now of ReadClock r \<Rightarrow> now_ns r t | GivenTime r \<Rightarrow> (r, t)) = (r1, t1)" by fastforce
  then have same: "lt_ranges t1 = lt_ranges t" "lt_last_clock t1 = lt_last_clock t"
    by (auto simp: now_ns_def note_problem_def split: receipt_time.splits if_splits option.splits)
  obtain w where m: "measure_sample k g v track a b (lt_ranges t1 ! i) w t1 = (s, t')"
    and clk: "\<not> (case lt_last_clock t1 of None \<Rightarrow> False | Some l \<Rightarrow> w < l)"
    using assms c one n unfolding measure_caption_def
    by (auto simp: case_prod_let Let_def prod_eq_iff split: if_splits option.splits)
  have s: "ls_epoch s = rg_epoch (lt_ranges t ! i)" "ls_signed s = w - rg_origin (lt_ranges t ! i) - b"
    "ls_received s = w"
    using m same by (auto simp: measure_sample_def Let_def)
  have i: "i \<in> set (containing_ranges track epoch a b (lt_ranges t))" by (simp add: c)
  have "b \<le> rg_start (lt_ranges t ! j) \<or> rg_end (lt_ranges t ! j) \<le> a"
    if "j < length (lt_ranges t)" "j \<noteq> i" "rg_track (lt_ranges t ! j) = track"
      "epoch_matches epoch (lt_ranges t ! j)" for j
    using one(2) that by (auto simp: overlapping_other_def list_ex_iff not_less)
  moreover have "case lt_last_clock t of None \<Rightarrow> True | Some l \<Rightarrow> l \<le> w"
    using clk same by (auto split: option.splits)
  ultimately show ?thesis
    using i s by (intro exI [of _ i]) (auto simp: containing_ranges_mem epoch_matches_def split: option.splits)
qed

text \<open>
  A first receipt is measured at most once: after a caption of a segment revision and kind was measured, no
  later call measures it again whatever happens in between. Memory stays bounded from construction on
  (\<open>latency_bounded\<close>), so also here.
\<close>

theorem latency_measured_once:
  assumes "new_latency mode injected n1 n2 n3 = Inr t0" "t = fold (latency_step uc pr) ops t0"
    and "observe_caption uc pr g v a b (Some k) content track epoch now t = (Some s, t')"
  shows "fst (observe_caption uc pr g v a' b' (Some k) content' track epoch' now'
            (fold (latency_step uc pr) later t')) = None
     \<and> within_capacity (fold (latency_step uc pr) later t')"
proof -
  have "latency_keeps t0 t" unfolding assms(2) by (rule latency_run_keeps)
  moreover have "latency_keeps t t'"
    using observe_caption_keeps [of t uc pr g v a b "Some k" content track epoch now] assms(3) by simp
  moreover have later: "latency_keeps t' (fold (latency_step uc pr) later t')" by (rule latency_run_keeps)
  ultimately have cap: "within_capacity (fold (latency_step uc pr) later t')"
    using new_latency_capacity [OF assms(1)] by (simp add: latency_keeps_def)
  have "k \<in> seen_kinds (fold (latency_step uc pr) later t') (track, g, v)"
    using caption_consumes [OF assms(3)] later by (auto simp: latency_keeps_def)
  with cap show ?thesis by (simp add: consumed_not_measured)
qed

text \<open>Samples, identities, ranges and origins stay within their capacities from construction on.\<close>

theorem latency_bounded:
  assumes "new_latency mode injected n1 n2 n3 = Inr t0"
  shows "within_capacity (fold (latency_step uc pr) ops t0)"
  using new_latency_capacity [OF assms] latency_run_keeps [of t0 uc pr ops] by (simp add: latency_keeps_def)

definition sample_latency :: latency where
  "sample_latency = \<lparr>lt_mode = PacedWav, lt_injected = False, lt_max_samples = 4, lt_max_identities = 4,
     lt_max_ranges = 2, lt_origins = [], lt_ranges = [], lt_tails = [], lt_invalid = [],
     lt_exhausted = False, lt_seen = [], lt_samples = [], lt_aggregates = (\<lambda>_. empty_aggregate),
     lt_counts = [], lt_problems = [], lt_last_clock = None\<rparr>"

definition sample_heard :: "latency_op list" where
  "sample_heard = [WavOriginOp 5000 (lit ''system''),
     FrameOp \<lparr>af_track = lit ''system'', af_epoch = lit ''e'', af_sequence = 0, af_start = 0,
       af_samples = [0, 0]\<rparr>]"

lemma sample_latency_new: "new_latency PacedWav False 4 4 2 = Inr sample_latency"
  by (simp add: new_latency_def sample_latency_def)

lemma sample_caption_measured:
  "(case observe_caption ascii_db (\<lambda>_. True) (lit ''s'') 1 0 100000 (Some SourceFirst) (TextFlag True)
      (lit ''system'') None (GivenTime (Some 205000))
      (fold (latency_step ascii_db (\<lambda>_. True)) sample_heard sample_latency) of
    (None, t) \<Rightarrow> False | (Some s, t) \<Rightarrow> ls_signed s = 100000)"
  by code_simp

lemma latency_measured_once_witness:
  "\<exists>s t'. observe_caption ascii_db (\<lambda>_. True) (lit ''s'') 1 0 100000 (Some SourceFirst) (TextFlag True)
      (lit ''system'') None (GivenTime (Some 205000))
      (fold (latency_step ascii_db (\<lambda>_. True)) sample_heard sample_latency) = (Some s, t')
     \<and> ls_signed s = 100000
     \<and> fst (observe_caption ascii_db (\<lambda>_. True) (lit ''s'') 1 0 100000 (Some SourceFirst) (TextFlag True)
          (lit ''system'') None (GivenTime (Some 300000)) t') = None"
proof -
  obtain s t' where r: "observe_caption ascii_db (\<lambda>_. True) (lit ''s'') 1 0 100000 (Some SourceFirst)
      (TextFlag True) (lit ''system'') None (GivenTime (Some 205000))
      (fold (latency_step ascii_db (\<lambda>_. True)) sample_heard sample_latency) = (Some s, t')"
    and v: "ls_signed s = 100000"
    using sample_caption_measured by (auto split: prod.splits option.splits)
  from latency_measured_once [OF sample_latency_new refl r, of 0 100000 "TextFlag True" None
      "GivenTime (Some 300000)" "[]"] r v show ?thesis by simp
qed

end
