(* ===== verification/CaptionStore.thy ===== *)
theory CaptionStore
  imports EngineBase Json "HOL-Library.List_Lexorder" "HOL-Library.Product_Lexorder"
begin

text \<open>
  Model of the data and the store of \<^verbatim>\<open>captions.py\<close>: captions with independent source, translation and
  speaker revisions, atomic group replacements and a journal. Every call is atomic (the code holds a
  lock) and a raised \<open>ValueError\<close> leaves the store as it was, so an operation is a function from a store
  to an error or an answer and the next store. \<open>dataclasses.replace\<close> validates again: \<open>build_segment\<close> and
  \<open>build_group\<close>. A journal payload is the JSON value whose compact text the code keeps.
\<close>

subsection \<open>Values\<close>

definition text_ok :: "unidb \<Rightarrow> ustring \<Rightarrow> bool" where
  "text_ok uc s \<longleftrightarrow> py_strip uc s \<noteq> [] \<and> list_all (\<lambda>c. \<not> is_surrogate c) s"

definition opt_text_ok :: "unidb \<Rightarrow> ustring option \<Rightarrow> bool" where
  "opt_text_ok uc s \<longleftrightarrow> (case s of None \<Rightarrow> True | Some t \<Rightarrow> text_ok uc t)"

record caption_translation =
  ct_source_revision :: int
  ct_generation :: int
  ct_language :: ustring
  ct_text :: ustring
  ct_completed :: bool
  ct_result_revision :: int

definition translation_ok :: "unidb \<Rightarrow> caption_translation \<Rightarrow> bool" where
  "translation_ok uc t \<longleftrightarrow> 1 \<le> ct_source_revision t \<and> 0 \<le> ct_generation t \<and> 1 \<le> ct_result_revision t
     \<and> text_ok uc (ct_language t) \<and> text_ok uc (ct_text t)"

datatype source_state = ProvisionalSource | StableSource

datatype text_operation = TranslationOperation | TranscriptCorrection

datatype delivery_class = LiveDelivery | OverlapCorrection

record caption_segment =
  cs_id :: ustring
  cs_track :: ustring
  cs_start :: int
  cs_end :: int
  cs_text :: ustring
  cs_revision :: int
  cs_state :: source_state
  cs_target :: ustring
  cs_speaker :: "ustring option"
  cs_speaker_revision :: int
  cs_speaker_manual :: bool
  cs_translation :: "caption_translation option"
  cs_superseded_by :: "ustring list"
  cs_source_track :: "ustring option"
  cs_epoch :: "ustring option"
  cs_group :: "ustring option"
  cs_lane :: "ustring option"
  cs_parents :: "ustring list"
  cs_delivery :: delivery_class
  cs_operation :: text_operation
  cs_source_language :: "ustring option"

definition segment_ok :: "unidb \<Rightarrow> caption_segment \<Rightarrow> bool" where
  "segment_ok uc s \<longleftrightarrow>
     list_all (text_ok uc) [cs_id s, cs_track s, cs_text s, cs_target s]
     \<and> 0 \<le> cs_start s \<and> cs_start s + 1 \<le> cs_end s \<and> 1 \<le> cs_revision s \<and> 0 \<le> cs_speaker_revision s
     \<and> list_all (opt_text_ok uc) [cs_source_language s, cs_speaker s]
     \<and> list_all (\<lambda>i. text_ok uc i \<and> i \<noteq> cs_id s) (cs_superseded_by s)
     \<and> list_all (opt_text_ok uc) [cs_source_track s, cs_epoch s, cs_group s, cs_lane s]
     \<and> list_all (\<lambda>i. text_ok uc i \<and> i \<noteq> cs_id s) (cs_parents s) \<and> distinct (cs_parents s)
     \<and> (cs_delivery s = OverlapCorrection \<longrightarrow>
          list_all (\<lambda>x. x \<noteq> None \<and> x \<noteq> Some []) [cs_source_track s, cs_epoch s, cs_group s, cs_lane s]
          \<and> cs_parents s \<noteq> [])"

definition build_segment :: "unidb \<Rightarrow> caption_segment \<Rightarrow> caption_segment res" where
  "build_segment uc s = (if segment_ok uc s then Inr s else Inl (ValueError ''Invalid caption segment''))"

definition current_translation :: "caption_segment \<Rightarrow> caption_translation option" where
  "current_translation s =
     (case cs_translation s of
        None \<Rightarrow> None
      | Some t \<Rightarrow> if ct_completed t \<and> ct_source_revision t = cs_revision s \<and> ct_language t = cs_target s
                 then Some t else None)"

record result_correction =
  rcn_segment :: ustring
  rcn_source_revision :: int
  rcn_based_on :: int
  rcn_text :: ustring

definition correction_ok :: "unidb \<Rightarrow> result_correction \<Rightarrow> bool" where
  "correction_ok uc c \<longleftrightarrow> text_ok uc (rcn_segment c) \<and> 1 \<le> rcn_source_revision c \<and> 1 \<le> rcn_based_on c
     \<and> text_ok uc (rcn_text c) \<and> length (rcn_text c) \<le> 24000"

record parent_ref =
  pr_segment :: ustring
  pr_revision :: int

definition parent_ok :: "unidb \<Rightarrow> parent_ref \<Rightarrow> bool" where
  "parent_ok uc p \<longleftrightarrow> text_ok uc (pr_segment p) \<and> 1 \<le> pr_revision p"

record caption_group =
  cg_id :: ustring
  cg_revision :: int
  cg_track :: ustring
  cg_epoch :: ustring
  cg_start :: int
  cg_end :: int
  cg_parents :: "parent_ref list"
  cg_children :: "caption_segment list"

subsection \<open>JSON text of the values, as \<open>asdict\<close> orders the fields\<close>

definition int_text :: "rat \<Rightarrow> ustring" where
  "int_text q = (let n = \<lfloor>q\<rfloor> in if n < 0 then 45 # dec (nat (- n)) else dec (nat n))"

definition j_int :: "int \<Rightarrow> json" where "j_int n = JNum (of_int n)"

definition j_opt :: "ustring option \<Rightarrow> json" where
  "j_opt s = (case s of None \<Rightarrow> JNull | Some t \<Rightarrow> JStr t)"

definition translation_json :: "caption_translation \<Rightarrow> json" where
  "translation_json t = JObj
     [(lit ''source_revision'', j_int (ct_source_revision t)),
      (lit ''provider_generation'', j_int (ct_generation t)),
      (lit ''target_language'', JStr (ct_language t)), (lit ''text'', JStr (ct_text t)),
      (lit ''completed'', JBool (ct_completed t)), (lit ''result_revision'', j_int (ct_result_revision t))]"

definition segment_json :: "caption_segment \<Rightarrow> json" where
  "segment_json s = JObj
     [(lit ''segment_id'', JStr (cs_id s)), (lit ''track_id'', JStr (cs_track s)),
      (lit ''start_ns'', j_int (cs_start s)), (lit ''end_ns'', j_int (cs_end s)),
      (lit ''source_text'', JStr (cs_text s)), (lit ''source_revision'', j_int (cs_revision s)),
      (lit ''source_state'', JStr (case cs_state s of ProvisionalSource \<Rightarrow> lit ''provisional''
                                  | StableSource \<Rightarrow> lit ''stable'')),
      (lit ''target_language'', JStr (cs_target s)), (lit ''speaker_id'', j_opt (cs_speaker s)),
      (lit ''speaker_revision'', j_int (cs_speaker_revision s)),
      (lit ''speaker_manual'', JBool (cs_speaker_manual s)),
      (lit ''translation'', case cs_translation s of None \<Rightarrow> JNull | Some t \<Rightarrow> translation_json t),
      (lit ''superseded_by'', JList (map JStr (cs_superseded_by s))),
      (lit ''source_track_id'', j_opt (cs_source_track s)), (lit ''capture_epoch'', j_opt (cs_epoch s)),
      (lit ''separation_group_id'', j_opt (cs_group s)), (lit ''lane_id'', j_opt (cs_lane s)),
      (lit ''parent_segment_ids'', JList (map JStr (cs_parents s))),
      (lit ''delivery_class'', JStr (case cs_delivery s of LiveDelivery \<Rightarrow> lit ''live''
                                    | OverlapCorrection \<Rightarrow> lit ''overlap_correction'')),
      (lit ''text_operation'', JStr (case cs_operation s of TranslationOperation \<Rightarrow> lit ''translation''
                                    | TranscriptCorrection \<Rightarrow> lit ''transcript_correction'')),
      (lit ''source_language'', j_opt (cs_source_language s))]"

definition group_json :: "caption_group \<Rightarrow> json" where
  "group_json g = JObj
     [(lit ''group_id'', JStr (cg_id g)), (lit ''group_revision'', j_int (cg_revision g)),
      (lit ''source_track_id'', JStr (cg_track g)), (lit ''capture_epoch'', JStr (cg_epoch g)),
      (lit ''start_ns'', j_int (cg_start g)), (lit ''end_ns'', j_int (cg_end g)),
      (lit ''parents'', JList (map (\<lambda>p. JObj [(lit ''segment_id'', JStr (pr_segment p)),
                                            (lit ''source_revision'', j_int (pr_revision p))]) (cg_parents g))),
      (lit ''children'', JList (map segment_json (cg_children g)))]"

subsection \<open>Group replacements\<close>

definition child_fits :: "caption_group \<Rightarrow> caption_segment \<Rightarrow> bool" where
  "child_fits g c \<longleftrightarrow> cs_delivery c = OverlapCorrection \<and> cs_source_track c = Some (cg_track g)
     \<and> cs_epoch c = Some (cg_epoch g) \<and> cs_group c = Some (cg_id g) \<and> cs_state c = StableSource
     \<and> cs_superseded_by c = [] \<and> \<not> cs_speaker_manual c
     \<and> list_all (\<lambda>i. i \<in> set (map pr_segment (cg_parents g))) (cs_parents c)
     \<and> cg_start g \<le> cs_start c \<and> cs_end c \<le> cg_end g \<and> cs_track c \<noteq> cg_track g"

definition lane_of :: "caption_segment \<Rightarrow> ustring" where
  "lane_of c = (case cs_lane c of None \<Rightarrow> [] | Some l \<Rightarrow> l)"

text \<open>The loop over the children: the lanes with their tracks, or nothing when a check fails.\<close>

fun group_lanes ::
    "caption_group \<Rightarrow> (ustring \<times> ustring) list \<Rightarrow> caption_segment list \<Rightarrow> (ustring \<times> ustring) list option" where
  "group_lanes g lanes [] = Some lanes"
| "group_lanes g lanes (c # cs) =
     (if \<not> child_fits g c then None
      else if (case map_of lanes (lane_of c) of None \<Rightarrow> False | Some t \<Rightarrow> t \<noteq> cs_track c) then None
      else if cs_translation c \<noteq> None \<and> current_translation c = None then None
      else group_lanes g (al_put (lane_of c) (cs_track c) lanes) cs)"

definition is_context :: "ustring \<Rightarrow> bool" where
  "is_context lane \<longleftrightarrow> take 8 lane = lit ''context:''"

definition meets :: "caption_segment \<Rightarrow> caption_segment \<Rightarrow> bool" where
  "meets a b \<longleftrightarrow> cs_start a < cs_end b \<and> cs_start b < cs_end a"

definition lane_sequential :: "caption_segment list \<Rightarrow> bool" where
  "lane_sequential cs \<longleftrightarrow>
     (let ordered = sort_key cs_start cs
      in list_all (\<lambda>(l, r). cs_end l \<le> cs_start r) (zip ordered (tl ordered)))"

definition group_shape_ok :: "caption_group \<Rightarrow> bool" where
  "group_shape_ok g \<longleftrightarrow>
     (let parents = map pr_segment (cg_parents g); children = map cs_id (cg_children g)
      in distinct parents \<and> distinct children \<and> list_all (\<lambda>i. i \<notin> set children) parents
         \<and> (case group_lanes g [] (cg_children g) of
              None \<Rightarrow> False
            | Some lanes \<Rightarrow>
                let separated = filter (\<lambda>l. \<not> is_context l) (map fst lanes);
                    contexts = filter is_context (map fst lanes)
                in length separated = 2 \<and> length contexts \<le> 1 \<and> distinct (map snd lanes)
                   \<and> list_all (\<lambda>p. list_ex (\<lambda>c. p \<in> set (cs_parents c)) (cg_children g)) parents
                   \<and> list_all (\<lambda>c. is_context (lane_of c) \<longrightarrow>
                        list_all (\<lambda>d. \<not> is_context (lane_of d) \<longrightarrow> \<not> meets c d) (cg_children g)) (cg_children g)
                   \<and> list_all (\<lambda>l. lane_sequential (filter (\<lambda>c. lane_of c = l) (cg_children g))) (map fst lanes)))"

definition group_ok :: "unidb \<Rightarrow> caption_group \<Rightarrow> bool" where
  "group_ok uc g \<longleftrightarrow>
     list_all (text_ok uc) [cg_id g, cg_track g, cg_epoch g] \<and> 1 \<le> cg_revision g
     \<and> 0 \<le> cg_start g \<and> cg_start g + 1 \<le> cg_end g
     \<and> 1 \<le> length (cg_parents g) \<and> length (cg_parents g) \<le> 16
     \<and> 2 \<le> length (cg_children g) \<and> length (cg_children g) \<le> 32
     \<and> group_shape_ok g \<and> utf8_len (dump_json int_text (group_json g)) \<le> 65536"

definition build_group :: "unidb \<Rightarrow> caption_group \<Rightarrow> caption_group res" where
  "build_group uc g = (if group_ok uc g then Inr g else Inl (ValueError ''Invalid caption group''))"

subsection \<open>The store\<close>

record caption_change =
  cc_seq :: int
  cc_type :: string
  cc_payload :: json

record caption_snapshot =
  sn_session :: ustring
  sn_revision :: int
  sn_generation :: int
  sn_segments :: "caption_segment list"
  sn_aliases :: "(ustring \<times> ustring) list"
  sn_changes :: "caption_change list"
  sn_held :: "caption_group list"

record caption_store =
  st_session :: ustring
  st_generation :: int
  st_revision :: int
  st_segments :: "(ustring \<times> caption_segment) list"
  st_aliases :: "(ustring \<times> ustring) list"
  st_changes :: "caption_change list"
  st_groups :: "(ustring \<times> caption_group) list"
  st_held :: "ustring list"
  st_held_children :: "(ustring \<times> ustring) list"

definition new_store :: "unidb \<Rightarrow> ustring \<Rightarrow> int \<Rightarrow> caption_store res" where
  "new_store uc session generation =
     (if \<not> text_ok uc session then Inl (ValueError ''session_id must be non-empty text'')
      else if generation < 0 then Inl (ValueError ''provider_generation must be an integer >= 0'')
      else Inr \<lparr>st_session = session, st_generation = generation, st_revision = 0, st_segments = [],
             st_aliases = [], st_changes = [], st_groups = [], st_held = [], st_held_children = []\<rparr>)"

definition record_change :: "string \<Rightarrow> json \<Rightarrow> bool \<Rightarrow> caption_store \<Rightarrow> caption_store" where
  "record_change event payload retain st =
     st\<lparr>st_revision := st_revision st + 1,
        st_changes := (if retain then st_changes st
            @ [\<lparr>cc_seq = st_revision st + 1, cc_type = event, cc_payload = payload\<rparr>] else st_changes st)\<rparr>"

definition lookup_segment :: "ustring \<Rightarrow> caption_store \<Rightarrow> caption_segment option" where
  "lookup_segment i st =
     (case map_of (st_held_children st) i of
        None \<Rightarrow> map_of (st_segments st) i
      | Some gid \<Rightarrow> (case map_of (st_groups st) gid of None \<Rightarrow> None
          | Some g \<Rightarrow> find (\<lambda>c. cs_id c = i) (cg_children g)))"

definition put_segment :: "unidb \<Rightarrow> caption_segment \<Rightarrow> caption_store \<Rightarrow> caption_store res" where
  "put_segment uc s st =
     (case map_of (st_held_children st) (cs_id s) of
        None \<Rightarrow> Inr (st\<lparr>st_segments := al_put (cs_id s) s (st_segments st)\<rparr>)
      | Some gid \<Rightarrow> (case map_of (st_groups st) gid of None \<Rightarrow> Inl KeyError
          | Some g \<Rightarrow> res_bind (build_group uc (g\<lparr>cg_children :=
                          map (\<lambda>c. if cs_id c = cs_id s then s else c) (cg_children g)\<rparr>))
                (\<lambda>g'. Inr (st\<lparr>st_groups := al_put gid g' (st_groups st)\<rparr>))))"

definition same_lineage :: "caption_segment \<Rightarrow> caption_segment \<Rightarrow> bool" where
  "same_lineage a b \<longleftrightarrow> cs_source_track a = cs_source_track b \<and> cs_epoch a = cs_epoch b
     \<and> cs_group a = cs_group b \<and> cs_lane a = cs_lane b \<and> cs_parents a = cs_parents b
     \<and> cs_delivery a = cs_delivery b"

definition adopt_annotations :: "caption_segment \<Rightarrow> caption_segment \<Rightarrow> caption_segment" where
  "adopt_annotations current s =
     s\<lparr>cs_speaker := cs_speaker current, cs_speaker_revision := cs_speaker_revision current,
       cs_speaker_manual := cs_speaker_manual current, cs_translation := cs_translation current\<rparr>"

definition insert_source :: "caption_segment \<Rightarrow> caption_store \<Rightarrow> (bool \<times> caption_store) res" where
  "insert_source s st =
     (if map_of (st_held_children st) (cs_id s) \<noteq> None then Inr (False, st)
      else Inr (True, record_change ''transcript.updated'' (segment_json s) True
                        (st\<lparr>st_segments := al_put (cs_id s) s (st_segments st)\<rparr>)))"

definition upsert_source ::
    "unidb \<Rightarrow> caption_segment \<Rightarrow> caption_store \<Rightarrow> (bool \<times> caption_store) res" where
  "upsert_source uc s st =
     (if cs_translation s \<noteq> None \<or> cs_superseded_by s \<noteq> []
        then Inl (ValueError ''Source updates cannot supply translations or tombstones'')
      else if cs_speaker_revision s \<noteq> 0 \<or> cs_speaker_manual s
        then Inl (ValueError ''Apply independent speaker revisions with update_speaker'')
      else case map_of (st_segments st) (cs_id s) of
        None \<Rightarrow> insert_source s st
      | Some current \<Rightarrow>
          if cs_track current \<noteq> cs_track s
            then Inl (ValueError ''Segment IDs must remain on their original track'')
          else if \<not> same_lineage current s
            then Inl (ValueError ''Source updates cannot change capture or separation lineage'')
          else if cs_superseded_by current \<noteq> [] \<or> cs_revision s \<le> cs_revision current then Inr (False, st)
          else res_bind (build_segment uc (adopt_annotations current s)) (\<lambda>s'. insert_source s' st))"

definition with_id :: "ustring \<Rightarrow> json \<Rightarrow> json" where
  "with_id i j = (case j of JObj ps \<Rightarrow> JObj ((lit ''segment_id'', JStr i) # ps) | _ \<Rightarrow> j)"

text \<open>May the incoming result replace what the caption shows? The checks of \<open>apply_translation\<close>.\<close>

definition translation_admitted ::
    "caption_translation \<Rightarrow> int \<Rightarrow> caption_segment option \<Rightarrow> bool \<Rightarrow> bool" where
  "translation_admitted t generation found held =
     (case found of
        None \<Rightarrow> False
      | Some current \<Rightarrow>
          cs_superseded_by current = [] \<and> ct_source_revision t = cs_revision current
          \<and> ct_language t = cs_target current \<and> ct_generation t = generation
          \<and> (case cs_translation current of
               None \<Rightarrow> True
             | Some previous \<Rightarrow>
                 (ct_source_revision previous = ct_source_revision t
                  \<and> ct_generation previous = ct_generation t \<and> ct_language previous = ct_language t)
                 \<longrightarrow> (\<not> ct_completed previous \<and> t \<noteq> previous
                      \<and> (ct_completed t \<or> take (length (ct_text previous)) (ct_text t) = ct_text previous)))
          \<and> (held \<longrightarrow> ct_completed t))"

definition apply_translation ::
    "unidb \<Rightarrow> ustring \<Rightarrow> int \<Rightarrow> int \<Rightarrow> ustring \<Rightarrow> ustring \<Rightarrow> bool \<Rightarrow> caption_store \<Rightarrow> (bool \<times> caption_store) res" where
  "apply_translation uc i revision generation text_value language completed st =
     (let t = \<lparr>ct_source_revision = revision, ct_generation = generation, ct_language = language,
               ct_text = text_value, ct_completed = completed, ct_result_revision = 1\<rparr>
      in if \<not> translation_ok uc t then Inl (ValueError ''Invalid caption translation'')
         else if \<not> translation_admitted t (st_generation st) (lookup_segment i st)
                  (map_of (st_held_children st) i \<noteq> None) then Inr (False, st)
         else case lookup_segment i st of
           None \<Rightarrow> Inr (False, st)
         | Some current \<Rightarrow>
             res_bind (build_segment uc (current\<lparr>cs_translation := Some t\<rparr>)) (\<lambda>s.
             res_bind (put_segment uc s st) (\<lambda>st'.
               Inr (True, record_change (if completed then ''translation.completed'' else ''translation.preview'')
                            (with_id i (translation_json t)) completed st'))))"

definition set_provider_generation :: "int \<Rightarrow> caption_store \<Rightarrow> (bool \<times> caption_store) res" where
  "set_provider_generation generation st =
     (if generation < 0 then Inl (ValueError ''provider_generation must be an integer >= 0'')
      else if generation < st_generation st
        then Inl (ValueError ''Provider generation cannot move backwards'')
      else if generation = st_generation st then Inr (False, st)
      else Inr (True, record_change ''provider.updated'' (JObj [(lit ''provider_generation'', j_int generation)])
                        True (st\<lparr>st_generation := generation\<rparr>)))"

text \<open>The first loop of \<open>revise_translations\<close>: all replacements, or \<open>None\<close> when the batch is refused.\<close>

definition revised_segment ::
    "unidb \<Rightarrow> int \<Rightarrow> caption_store \<Rightarrow> result_correction \<Rightarrow> caption_segment option res" where
  "revised_segment uc generation st c =
     (case lookup_segment (rcn_segment c) st of
        None \<Rightarrow> Inr None
      | Some current \<Rightarrow>
          if cs_superseded_by current \<noteq> [] \<or> cs_speaker_manual current
             \<or> map_of (st_held_children st) (rcn_segment c) \<noteq> None
             \<or> cs_revision current \<noteq> rcn_source_revision c then Inr None
          else case current_translation current of
            None \<Rightarrow> Inr None
          | Some previous \<Rightarrow>
              if ct_generation previous \<noteq> generation \<or> ct_result_revision previous \<noteq> rcn_based_on c
                 \<or> rcn_text c = ct_text previous then Inr None
              else
                let t = previous\<lparr>ct_text := rcn_text c, ct_result_revision := ct_result_revision previous + 1\<rparr>
                in if \<not> translation_ok uc t then Inl (ValueError ''Invalid caption translation'')
                   else res_bind (build_segment uc (current\<lparr>cs_translation := Some t\<rparr>)) (\<lambda>s. Inr (Some s)))"

fun revised_batch ::
    "unidb \<Rightarrow> int \<Rightarrow> caption_store \<Rightarrow> result_correction list \<Rightarrow> caption_segment list option res" where
  "revised_batch uc generation st [] = Inr (Some [])"
| "revised_batch uc generation st (c # cs) =
     res_bind (revised_segment uc generation st c) (\<lambda>r.
       case r of None \<Rightarrow> Inr None
       | Some s \<Rightarrow> res_bind (revised_batch uc generation st cs) (\<lambda>rs. Inr (map_option (\<lambda>l. s # l) rs)))"

fun put_all :: "unidb \<Rightarrow> caption_segment list \<Rightarrow> caption_store \<Rightarrow> caption_store res" where
  "put_all uc [] st = Inr st"
| "put_all uc (s # ss) st = res_bind (put_segment uc s st) (put_all uc ss)"

definition correction_json :: "result_correction \<Rightarrow> json" where
  "correction_json c = JObj
     [(lit ''segment_id'', JStr (rcn_segment c)), (lit ''source_revision'', j_int (rcn_source_revision c)),
      (lit ''based_on_result_revision'', j_int (rcn_based_on c)), (lit ''text'', JStr (rcn_text c))]"

definition revise_translations ::
    "unidb \<Rightarrow> result_correction list \<Rightarrow> int \<Rightarrow> caption_store \<Rightarrow> (bool \<times> caption_store) res" where
  "revise_translations uc corrections generation st =
     (if generation < 0 then Inl (ValueError ''provider_generation must be an integer >= 0'')
      else if \<not> (1 \<le> length corrections \<and> length corrections \<le> 2) \<or> \<not> distinct (map rcn_segment corrections)
        then Inl (ValueError ''Supply one or two distinct immutable result corrections'')
      else if generation \<noteq> st_generation st then Inr (False, st)
      else res_bind (revised_batch uc generation st corrections) (\<lambda>r.
        case r of None \<Rightarrow> Inr (False, st)
        | Some updates \<Rightarrow> res_bind (put_all uc updates st) (\<lambda>st'.
            Inr (True, record_change ''caption.results_revised''
              (JObj [(lit ''provider_generation'', j_int generation),
                     (lit ''corrections'', JList (map correction_json corrections))]) True st'))))"

definition update_speaker ::
    "unidb \<Rightarrow> ustring \<Rightarrow> ustring option \<Rightarrow> int \<Rightarrow> int option \<Rightarrow> bool \<Rightarrow> caption_store
       \<Rightarrow> (bool \<times> caption_store) res" where
  "update_speaker uc i speaker revision based_on manual st =
     (if revision < 1 then Inl (ValueError ''speaker_revision must be an integer >= 1'')
      else if \<not> opt_text_ok uc speaker then Inl (ValueError ''speaker_id must be non-empty text'')
      else if (case based_on of None \<Rightarrow> False | Some r \<Rightarrow> r < 1)
        then Inl (ValueError ''based_on_source_revision must be an integer >= 1'')
      else case lookup_segment i st of
        None \<Rightarrow> Inr (False, st)
      | Some current \<Rightarrow>
          if cs_superseded_by current \<noteq> [] \<or> manual \<and> map_of (st_held_children st) i \<noteq> None
             \<or> revision \<le> cs_speaker_revision current \<or> cs_speaker_manual current \<and> \<not> manual
             \<or> (case based_on of None \<Rightarrow> False | Some r \<Rightarrow> r \<noteq> cs_revision current) then Inr (False, st)
          else
            res_bind (build_segment uc (current\<lparr>cs_speaker := speaker, cs_speaker_revision := revision,
                                               cs_speaker_manual := manual\<rparr>)) (\<lambda>s.
            res_bind (put_segment uc s st) (\<lambda>st'.
              Inr (True, record_change (if manual then ''speaker.override'' else ''speaker.updated'')
                (JObj [(lit ''segment_id'', JStr i), (lit ''speaker_id'', j_opt speaker),
                       (lit ''speaker_revision'', j_int revision),
                       (lit ''based_on_source_revision'',
                          case based_on of None \<Rightarrow> JNull | Some r \<Rightarrow> j_int r),
                       (lit ''manual'', JBool manual)]) True st'))))"

datatype group_state = HeldGroup | AppliedGroup

definition group_status :: "ustring \<Rightarrow> caption_store \<Rightarrow> group_state option" where
  "group_status gid st =
     (if map_of (st_groups st) gid = None then None
      else Some (if gid \<in> set (st_held st) then HeldGroup else AppliedGroup))"

text \<open>The loop over the parents in \<open>_validate_group\<close>: \<open>False\<close> is a stale group.\<close>

fun parents_valid :: "caption_group \<Rightarrow> caption_store \<Rightarrow> parent_ref list \<Rightarrow> bool res" where
  "parents_valid g st [] = Inr True"
| "parents_valid g st (p # ps) =
     (case map_of (st_segments st) (pr_segment p) of
        None \<Rightarrow> Inr False
      | Some current \<Rightarrow>
          if cs_superseded_by current \<noteq> [] \<or> cs_revision current \<noteq> pr_revision p then Inr False
          else if cs_source_track current \<noteq> Some (cg_track g) \<or> cs_epoch current \<noteq> Some (cg_epoch g)
                \<or> cs_start current < cg_start g \<or> cg_end g < cs_end current
            then Inl (ValueError ''Group must preserve parent capture epoch and complete time span'')
          else if list_ex (\<lambda>c. pr_segment p \<in> set (cs_parents c)
                              \<and> (cs_end c \<le> cs_start current \<or> cs_end current \<le> cs_start c)) (cg_children g)
            then Inl (ValueError ''Child parent references must intersect in source time'')
          else parents_valid g st ps)"

definition validate_group :: "caption_group \<Rightarrow> int \<Rightarrow> bool \<Rightarrow> caption_store \<Rightarrow> bool res" where
  "validate_group g limit applying st =
     (if limit < 1 then Inl (ValueError ''max_segments must be an integer >= 1'')
      else
        let previous = map_of (st_groups st) (cg_id g);
            old_held = (if cg_id g \<in> set (st_held st)
                        then (case previous of None \<Rightarrow> [] | Some p \<Rightarrow> map cs_id (cg_children p)) else []);
            current_ids = remdups (map fst (st_segments st) @ map fst (st_held_children st));
            reusable = (if applying then old_held else [])
        in if (case previous of None \<Rightarrow> False | Some p \<Rightarrow> \<not> applying \<and> cg_revision g \<le> cg_revision p)
             then Inr False
           else if list_ex (\<lambda>c. cs_id c \<in> set current_ids \<and> cs_id c \<notin> set reusable) (cg_children g)
             then Inl (ValueError ''Replacement children must have fresh session IDs'')
           else if limit < int (length (filter (\<lambda>i. i \<notin> set old_held) current_ids) + length (cg_children g))
             then Inl (ValueError ''Caption segment limit reached; group was not stored'')
           else res_bind (parents_valid g st (cg_parents g)) (\<lambda>ok.
             if \<not> ok then Inr False
             else if list_ex (\<lambda>c. case cs_translation c of None \<Rightarrow> False
                                  | Some t \<Rightarrow> ct_generation t \<noteq> st_generation st) (cg_children g)
               then Inl (ValueError ''Group translation provider generation must be current'')
             else Inr True))"

definition child_ids_of :: "ustring \<Rightarrow> caption_group \<Rightarrow> ustring list" where
  "child_ids_of parent g = map cs_id (filter (\<lambda>c. parent \<in> set (cs_parents c)) (cg_children g))"

text \<open>The tombstones of the parents; building them validates again.\<close>

fun parent_tombstones ::
    "unidb \<Rightarrow> caption_group \<Rightarrow> caption_store \<Rightarrow> parent_ref list \<Rightarrow> caption_segment list res" where
  "parent_tombstones uc g st [] = Inr []"
| "parent_tombstones uc g st (p # ps) =
     (case map_of (st_segments st) (pr_segment p) of
        None \<Rightarrow> Inl KeyError
      | Some current \<Rightarrow>
          res_bind (build_segment uc (current\<lparr>cs_superseded_by := child_ids_of (pr_segment p) g\<rparr>)) (\<lambda>s.
          res_bind (parent_tombstones uc g st ps) (\<lambda>ss. Inr (s # ss))))"

definition put_plain :: "caption_segment list \<Rightarrow> (ustring \<times> caption_segment) list \<Rightarrow> (ustring \<times> caption_segment) list" where
  "put_plain ss m = fold (\<lambda>s m. al_put (cs_id s) s m) ss m"

definition release_held :: "ustring \<Rightarrow> caption_store \<Rightarrow> caption_store" where
  "release_held gid st =
     (if gid \<in> set (st_held st)
      then st\<lparr>st_held_children := (case map_of (st_groups st) gid of None \<Rightarrow> st_held_children st
                 | Some p \<Rightarrow> filter (\<lambda>kv. fst kv \<notin> set (map cs_id (cg_children p))) (st_held_children st)),
              st_held := removeAll gid (st_held st)\<rparr>
      else st)"

definition commit_group ::
    "unidb \<Rightarrow> caption_group \<Rightarrow> group_state \<Rightarrow> caption_store \<Rightarrow> caption_store res" where
  "commit_group uc g state st =
     res_bind (case state of HeldGroup \<Rightarrow> Inr []
               | AppliedGroup \<Rightarrow> map_sum id (\<lambda>ts. cg_children g @ ts) (parent_tombstones uc g st (cg_parents g)))
       (\<lambda>updates.
          let st1 = release_held (cg_id g) st;
              st2 = st1\<lparr>st_groups := al_put (cg_id g) g (st_groups st1)\<rparr>;
              st3 = (case state of
                  HeldGroup \<Rightarrow> st2\<lparr>st_held := cg_id g # st_held st2,
                      st_held_children := fold (\<lambda>c m. al_put (cs_id c) (cg_id g) m) (cg_children g)
                                            (st_held_children st2)\<rparr>
                | AppliedGroup \<Rightarrow> st2\<lparr>st_segments := put_plain updates (st_segments st2)\<rparr>)
          in Inr (record_change (case state of HeldGroup \<Rightarrow> ''caption.group_held''
                    | AppliedGroup \<Rightarrow> ''caption.group_replaced'') (group_json g) True st3))"

datatype replace_answer = GroupApplied | GroupHeld | GroupStale

definition replace_group ::
    "unidb \<Rightarrow> caption_group \<Rightarrow> int \<Rightarrow> bool \<Rightarrow> caption_store \<Rightarrow> (replace_answer \<times> caption_store) res" where
  "replace_group uc g limit allow_manual st =
     res_bind (validate_group g limit False st) (\<lambda>ok.
       if \<not> ok then Inr (GroupStale, st)
       else
         let manual = list_ex (\<lambda>p. case map_of (st_segments st) (pr_segment p) of None \<Rightarrow> False
                                   | Some s \<Rightarrow> cs_speaker_manual s) (cg_parents g)
         in if manual \<and> \<not> allow_manual
            then (if cg_id g \<notin> set (st_held st) \<and> 64 \<le> length (st_held st)
                  then Inl (ValueError ''Held caption group limit reached'')
                  else res_bind (commit_group uc g HeldGroup st) (\<lambda>st'. Inr (GroupHeld, st')))
            else res_bind (commit_group uc g AppliedGroup st) (\<lambda>st'. Inr (GroupApplied, st')))"

definition apply_held_group ::
    "unidb \<Rightarrow> ustring \<Rightarrow> int \<Rightarrow> int \<Rightarrow> caption_store \<Rightarrow> (bool \<times> caption_store) res" where
  "apply_held_group uc gid revision limit st =
     (if \<not> text_ok uc gid then Inl (ValueError ''group_id must be non-empty text'')
      else if revision < 1 then Inl (ValueError ''group_revision must be an integer >= 1'')
      else if gid \<notin> set (st_held st) then Inr (False, st)
      else case map_of (st_groups st) gid of
        None \<Rightarrow> Inr (False, st)
      | Some g \<Rightarrow>
          if cg_revision g \<noteq> revision then Inr (False, st)
          else res_bind (validate_group g limit True st) (\<lambda>ok.
            if \<not> ok then Inr (False, st)
            else res_bind (commit_group uc g AppliedGroup st) (\<lambda>st'. Inr (True, st'))))"

definition set_speaker_alias ::
    "unidb \<Rightarrow> ustring \<Rightarrow> ustring \<Rightarrow> caption_store \<Rightarrow> (bool \<times> caption_store) res" where
  "set_speaker_alias uc speaker name st =
     (if \<not> text_ok uc speaker then Inl (ValueError ''speaker_id must be non-empty text'')
      else if \<not> text_ok uc name then Inl (ValueError ''speaker alias must be non-empty text'')
      else if map_of (st_aliases st) speaker = Some name then Inr (False, st)
      else Inr (True, record_change ''speaker.alias_updated''
             (JObj [(lit ''speaker_id'', JStr speaker), (lit ''name'', JStr name)]) True
             (st\<lparr>st_aliases := al_put speaker name (st_aliases st)\<rparr>)))"

definition supersede_segment ::
    "unidb \<Rightarrow> ustring \<Rightarrow> ustring list \<Rightarrow> caption_store \<Rightarrow> (bool \<times> caption_store) res" where
  "supersede_segment uc i replacements st =
     (if replacements = [] then Inl (ValueError ''Supply one or more replacement IDs as a tuple'')
      else case map_of (st_segments st) i of
        None \<Rightarrow> Inr (False, st)
      | Some current \<Rightarrow>
          if cs_superseded_by current \<noteq> [] then Inr (False, st)
          else res_bind (build_segment uc (current\<lparr>cs_superseded_by := replacements\<rparr>)) (\<lambda>s.
            Inr (True, record_change ''segment.superseded''
              (JObj [(lit ''segment_id'', JStr i), (lit ''superseded_by'', JList (map JStr replacements))]) True
              (st\<lparr>st_segments := al_put i s (st_segments st)\<rparr>))))"

definition segment_order :: "caption_segment \<Rightarrow> int \<times> int \<times> ustring \<times> ustring" where
  "segment_order s = (cs_start s, cs_end s, cs_track s, cs_id s)"

definition take_snapshot :: "caption_store \<Rightarrow> caption_snapshot" where
  "take_snapshot st = \<lparr>sn_session = st_session st, sn_revision = st_revision st,
     sn_generation = st_generation st, sn_segments = sort_key segment_order (map snd (st_segments st)),
     sn_aliases = sort (st_aliases st), sn_changes = st_changes st,
     sn_held = List.map_filter (\<lambda>gid. map_of (st_groups st) gid) (sort (st_held st))\<rparr>"

text \<open>Lineage of archived overlap children, then the held groups one by one.\<close>

definition archived_child_ok :: "(ustring \<times> caption_segment) list \<Rightarrow> caption_segment \<Rightarrow> bool" where
  "archived_child_ok segments c \<longleftrightarrow> cs_delivery c = OverlapCorrection \<longrightarrow>
     list_all (\<lambda>i. case map_of segments i of None \<Rightarrow> False
       | Some p \<Rightarrow> cs_id c \<in> set (cs_superseded_by p) \<and> cs_source_track c = cs_source_track p
                  \<and> cs_epoch c = cs_epoch p \<and> cs_start p < cs_end c \<and> cs_start c < cs_end p) (cs_parents c)"

fun restore_held ::
    "(ustring \<times> caption_segment) list \<Rightarrow> caption_group list \<Rightarrow> (ustring \<times> caption_group) list
       \<Rightarrow> (ustring \<times> ustring) list \<Rightarrow> ((ustring \<times> caption_group) list \<times> (ustring \<times> ustring) list) res" where
  "restore_held segments [] groups children = Inr (groups, children)"
| "restore_held segments (g # gs) groups children =
     (if map_of groups (cg_id g) \<noteq> None
         \<or> list_ex (\<lambda>p. map_of segments (pr_segment p) = None) (cg_parents g)
        then Inl (ValueError ''Invalid archived group identity or missing parent'')
      else if list_ex (\<lambda>c. map_of segments (cs_id c) \<noteq> None \<or> map_of children (cs_id c) \<noteq> None) (cg_children g)
              \<or> \<not> distinct (map cs_id (cg_children g))
        then Inl (ValueError ''Archived held child identity is already in use'')
      else restore_held segments gs (al_put (cg_id g) g groups)
             (fold (\<lambda>c m. al_put (cs_id c) (cg_id g) m) (cg_children g) children))"

definition from_snapshot :: "unidb \<Rightarrow> caption_snapshot \<Rightarrow> caption_store res" where
  "from_snapshot uc sn =
     (if sn_revision sn < 0 then Inl (ValueError ''revision must be an integer >= 0'')
      else res_bind (new_store uc (sn_session sn) (sn_generation sn)) (\<lambda>st.
        if \<not> distinct (map cs_id (sn_segments sn)) \<or> \<not> distinct (map fst (sn_aliases sn))
          then Inl (ValueError ''Duplicate snapshot identity'')
        else
          let segments = map (\<lambda>s. (cs_id s, s)) (sn_segments sn)
          in if \<not> list_all (archived_child_ok segments) (sn_segments sn)
               then Inl (ValueError ''Archived overlap child has inconsistent parent lineage'')
             else res_bind (restore_held segments (sn_held sn) [] []) (\<lambda>(groups, children).
               Inr (st\<lparr>st_revision := sn_revision sn, st_segments := segments, st_aliases := sn_aliases sn,
                      st_changes := sn_changes sn, st_groups := groups, st_held := map cg_id (sn_held sn),
                      st_held_children := children\<rparr>))))"

end
