(* ===== verification/CaptionInv.thy ===== *)
theory CaptionInv
  imports CaptionStore
begin

text \<open>
  What the caption store promises. \<open>evolves\<close> relates a caption to the same caption later: identity, track
  and lineage are fixed, revisions only grow, a tombstone is final, a manual speaker is kept and a
  current result is only replaced by a later revision of itself or by a newer provider generation.
  Every operation keeps the invariant of the indexes and lets every caption evolve.
\<close>

subsection \<open>Evolution of one caption\<close>

definition result_advances :: "caption_segment \<Rightarrow> caption_segment \<Rightarrow> bool" where
  "result_advances s s' \<longleftrightarrow>
     (\<forall>t. cs_translation s = Some t \<longrightarrow>
        (\<exists>t'. cs_translation s' = Some t' \<and> ct_generation t \<le> ct_generation t'
           \<and> (current_translation s = Some t \<longrightarrow> cs_revision s' = cs_revision s \<longrightarrow>
                ct_generation t' = ct_generation t \<longrightarrow>
                current_translation s' = Some t' \<and> ct_result_revision t \<le> ct_result_revision t'
                \<and> (ct_result_revision t' = ct_result_revision t \<longrightarrow> t' = t))))"

definition evolves :: "caption_segment \<Rightarrow> caption_segment \<Rightarrow> bool" where
  "evolves s s' \<longleftrightarrow> cs_id s' = cs_id s \<and> cs_track s' = cs_track s \<and> same_lineage s s'
     \<and> (cs_superseded_by s \<noteq> [] \<longrightarrow> s' = s)
     \<and> cs_revision s \<le> cs_revision s' \<and> cs_speaker_revision s \<le> cs_speaker_revision s'
     \<and> (cs_speaker_manual s \<longrightarrow> cs_speaker_manual s')
     \<and> (cs_revision s' = cs_revision s \<longrightarrow> cs_text s' = cs_text s \<and> cs_target s' = cs_target s
          \<and> cs_start s' = cs_start s \<and> cs_end s' = cs_end s)
     \<and> result_advances s s'"

lemma result_advances_refl: "result_advances s s"
  by (simp add: result_advances_def)

lemma caption_evolves_refl: "evolves s s"
  by (simp add: evolves_def same_lineage_def result_advances_refl)

lemma result_advances_trans:
  assumes "result_advances a b" "result_advances b c" "cs_revision a \<le> cs_revision b" "cs_revision b \<le> cs_revision c"
  shows "result_advances a c"
  unfolding result_advances_def
proof (intro allI impI)
  fix t assume t: "cs_translation a = Some t"
  then obtain u where u: "cs_translation b = Some u" "ct_generation t \<le> ct_generation u"
    and ab: "current_translation a = Some t \<longrightarrow> cs_revision b = cs_revision a \<longrightarrow> ct_generation u = ct_generation t
        \<longrightarrow> current_translation b = Some u \<and> ct_result_revision t \<le> ct_result_revision u
            \<and> (ct_result_revision u = ct_result_revision t \<longrightarrow> u = t)"
    using assms(1) unfolding result_advances_def by blast
  then obtain v where v: "cs_translation c = Some v" "ct_generation u \<le> ct_generation v"
    and bc: "current_translation b = Some u \<longrightarrow> cs_revision c = cs_revision b \<longrightarrow> ct_generation v = ct_generation u
        \<longrightarrow> current_translation c = Some v \<and> ct_result_revision u \<le> ct_result_revision v
            \<and> (ct_result_revision v = ct_result_revision u \<longrightarrow> v = u)"
    using assms(2) unfolding result_advances_def by blast
  show "\<exists>t'. cs_translation c = Some t' \<and> ct_generation t \<le> ct_generation t'
      \<and> (current_translation a = Some t \<longrightarrow> cs_revision c = cs_revision a \<longrightarrow> ct_generation t' = ct_generation t
        \<longrightarrow> current_translation c = Some t' \<and> ct_result_revision t \<le> ct_result_revision t'
            \<and> (ct_result_revision t' = ct_result_revision t \<longrightarrow> t' = t))"
  proof (rule exI [of _ v], intro conjI impI)
    assume cur: "current_translation a = Some t" and rv: "cs_revision c = cs_revision a"
      and gen: "ct_generation v = ct_generation t"
    have eqs: "cs_revision b = cs_revision a" "cs_revision c = cs_revision b" "ct_generation u = ct_generation t"
      "ct_generation v = ct_generation u"
      using assms(3,4) rv gen u(2) v(2) by auto
    note 1 = ab [rule_format, OF cur eqs(1,3)]
    note 2 = bc [rule_format, OF conjunct1 [OF 1] eqs(2,4)]
    show "current_translation c = Some v" "ct_result_revision t \<le> ct_result_revision v" using 1 2 by auto
    show "v = t" if "ct_result_revision v = ct_result_revision t" using 1 2 that by auto
  qed (use v u in auto)
qed

lemma caption_evolves_trans: "evolves a b \<Longrightarrow> evolves b c \<Longrightarrow> evolves a c"
  unfolding evolves_def by (auto simp: same_lineage_def intro: result_advances_trans)

subsection \<open>Evolution of a store\<close>

definition store_evolves :: "caption_store \<Rightarrow> caption_store \<Rightarrow> bool" where
  "store_evolves st st' \<longleftrightarrow> st_session st' = st_session st \<and> st_generation st \<le> st_generation st'
     \<and> st_revision st \<le> st_revision st' \<and> prefix (st_changes st) (st_changes st')
     \<and> (\<forall>i s. map_of (st_segments st) i = Some s \<longrightarrow>
          (\<exists>s'. map_of (st_segments st') i = Some s' \<and> evolves s s'))"

lemma store_evolves_refl: "store_evolves st st"
  unfolding store_evolves_def by (auto intro: caption_evolves_refl)

lemma store_evolves_trans:
  assumes "store_evolves a b" "store_evolves b c"
  shows "store_evolves a c"
proof -
  have "\<exists>s'. map_of (st_segments c) i = Some s' \<and> evolves s s'" if "map_of (st_segments a) i = Some s" for i s
    using assms that unfolding store_evolves_def by (meson caption_evolves_trans)
  with assms show ?thesis unfolding store_evolves_def by (auto intro: prefix_order.order_trans)
qed

definition index_inv :: "caption_store \<Rightarrow> bool" where
  "index_inv st \<longleftrightarrow> distinct (map fst (st_segments st))
     \<and> (\<forall>i s. map_of (st_segments st) i = Some s \<longrightarrow> cs_id s = i
          \<and> (\<forall>t. cs_translation s = Some t \<longrightarrow> ct_generation t \<le> st_generation st))
     \<and> (\<forall>i gid. map_of (st_held_children st) i = Some gid \<longrightarrow> map_of (st_segments st) i = None
          \<and> gid \<in> set (st_held st)
          \<and> (\<exists>g. map_of (st_groups st) gid = Some g \<and> i \<in> cs_id ` set (cg_children g)))
     \<and> (\<forall>gid \<in> set (st_held st). \<exists>g. map_of (st_groups st) gid = Some g
          \<and> (\<forall>c \<in> set (cg_children g). map_of (st_held_children st) (cs_id c) = Some gid))
     \<and> (\<forall>gid g. map_of (st_groups st) gid = Some g \<longrightarrow> cg_id g = gid)"

definition journal_inv :: "caption_store \<Rightarrow> bool" where
  "journal_inv st \<longleftrightarrow> sorted_wrt (<) (map cc_seq (st_changes st))
     \<and> (\<forall>c \<in> set (st_changes st). cc_seq c \<le> st_revision st)"

definition store_inv :: "caption_store \<Rightarrow> bool" where
  "store_inv st \<longleftrightarrow> index_inv st \<and> journal_inv st"

lemma new_store_inv: "new_store uc session generation = Inr st \<Longrightarrow> store_inv st"
  by (auto simp: new_store_def store_inv_def index_inv_def journal_inv_def split: if_splits)

lemma record_change_frame [simp]:
  "st_segments (record_change e p r st) = st_segments st" "st_groups (record_change e p r st) = st_groups st"
  "st_held (record_change e p r st) = st_held st" "st_generation (record_change e p r st) = st_generation st"
  "st_held_children (record_change e p r st) = st_held_children st"
  "st_session (record_change e p r st) = st_session st" "st_aliases (record_change e p r st) = st_aliases st"
  by (simp_all add: record_change_def)

lemma index_inv_record [simp]: "index_inv (record_change e p r st) = index_inv st"
  by (simp add: index_inv_def)

lemma journal_inv_record: "journal_inv st \<Longrightarrow> journal_inv (record_change e p r st)"
  by (auto simp: journal_inv_def record_change_def sorted_wrt_append)

text \<open>A change that leaves the journal alone, followed by its record.\<close>

definition same_journal :: "caption_store \<Rightarrow> caption_store \<Rightarrow> bool" where
  "same_journal st st' \<longleftrightarrow> st_changes st' = st_changes st \<and> st_revision st' = st_revision st
     \<and> st_session st' = st_session st"

definition good_change :: "caption_store \<Rightarrow> caption_store \<Rightarrow> bool" where
  "good_change st st' \<longleftrightarrow> store_inv st' \<and> store_evolves st st'"

lemma recorded_good:
  assumes "store_inv st" "index_inv st'" "same_journal st st'" "st_generation st \<le> st_generation st'"
    and "\<And>i s. map_of (st_segments st) i = Some s \<Longrightarrow> \<exists>s'. map_of (st_segments st') i = Some s' \<and> evolves s s'"
  shows "good_change st (record_change e p r st')"
proof -
  have j: "journal_inv st'" using assms(1,3) by (simp add: store_inv_def journal_inv_def same_journal_def)
  have "store_evolves st (record_change e p r st')"
    using assms(3-5) by (auto simp: store_evolves_def same_journal_def record_change_def)
  with assms(2) journal_inv_record [OF j] show ?thesis by (simp add: good_change_def store_inv_def)
qed

lemma good_refl: "store_inv st \<Longrightarrow> good_change st st"
  by (simp add: good_change_def store_evolves_refl)

subsection \<open>Replacing one caption\<close>

definition results_within :: "int \<Rightarrow> caption_segment \<Rightarrow> bool" where
  "results_within generation s \<longleftrightarrow> (\<forall>t. cs_translation s = Some t \<longrightarrow> ct_generation t \<le> generation)"

definition segments_evolve :: "caption_store \<Rightarrow> caption_store \<Rightarrow> bool" where
  "segments_evolve st st' \<longleftrightarrow>
     (\<forall>i s. map_of (st_segments st) i = Some s \<longrightarrow> (\<exists>s'. map_of (st_segments st') i = Some s' \<and> evolves s s'))"

lemma segments_evolve_refl: "segments_evolve st st"
  by (auto simp: segments_evolve_def intro: caption_evolves_refl)

lemma segments_evolve_trans: "segments_evolve a b \<Longrightarrow> segments_evolve b c \<Longrightarrow> segments_evolve a c"
  unfolding segments_evolve_def by (meson caption_evolves_trans)

lemma index_inv_put:
  assumes "index_inv st" "map_of (st_held_children st) i = None" "cs_id s = i" "results_within (st_generation st) s"
  shows "index_inv (st\<lparr>st_segments := al_put i s (st_segments st)\<rparr>)"
  using assms distinct_al_put [of "st_segments st" i s]
  unfolding index_inv_def by (auto simp: results_within_def)

lemma segments_evolve_put:
  assumes "\<And>cur. map_of (st_segments st) i = Some cur \<Longrightarrow> evolves cur s"
  shows "segments_evolve st (st\<lparr>st_segments := al_put i s (st_segments st)\<rparr>)"
  using assms by (auto simp: segments_evolve_def intro: caption_evolves_refl)

lemma index_invD:
  assumes "index_inv st"
  shows index_keys: "distinct (map fst (st_segments st))"
    and index_seg: "map_of (st_segments st) i = Some s \<Longrightarrow> cs_id s = i \<and> results_within (st_generation st) s"
    and index_held: "map_of (st_held_children st) i = Some gid \<Longrightarrow> map_of (st_segments st) i = None
          \<and> gid \<in> set (st_held st) \<and> (\<exists>g. map_of (st_groups st) gid = Some g \<and> i \<in> cs_id ` set (cg_children g))"
    and index_groups: "gid \<in> set (st_held st) \<Longrightarrow> \<exists>g. map_of (st_groups st) gid = Some g
          \<and> (\<forall>c \<in> set (cg_children g). map_of (st_held_children st) (cs_id c) = Some gid)"
    and index_gid: "map_of (st_groups st) gid = Some g \<Longrightarrow> cg_id g = gid"
  using assms unfolding index_inv_def results_within_def by blast+

lemma index_invI:
  assumes "distinct (map fst (st_segments st))"
    and "\<And>i s. map_of (st_segments st) i = Some s \<Longrightarrow> cs_id s = i \<and> results_within (st_generation st) s"
    and "\<And>i gid. map_of (st_held_children st) i = Some gid \<Longrightarrow> map_of (st_segments st) i = None
          \<and> gid \<in> set (st_held st) \<and> (\<exists>g. map_of (st_groups st) gid = Some g \<and> i \<in> cs_id ` set (cg_children g))"
    and "\<And>gid. gid \<in> set (st_held st) \<Longrightarrow> \<exists>g. map_of (st_groups st) gid = Some g
          \<and> (\<forall>c \<in> set (cg_children g). map_of (st_held_children st) (cs_id c) = Some gid)"
    and "\<And>gid g. map_of (st_groups st) gid = Some g \<Longrightarrow> cg_id g = gid"
  shows "index_inv st"
  using assms unfolding index_inv_def results_within_def by blast

lemma index_inv_regroup:
  assumes inv: "index_inv st" and g: "map_of (st_groups st) gid = Some g" and "cg_id g' = cg_id g"
    and ids: "map cs_id (cg_children g') = map cs_id (cg_children g)"
  shows "index_inv (st\<lparr>st_groups := al_put gid g' (st_groups st)\<rparr>)" (is "index_inv ?st")
proof (rule index_invI)
  have same: "cs_id ` set (cg_children g') = cs_id ` set (cg_children g)" using ids by (metis list.set_map)
  fix i k
  assume "map_of (st_held_children ?st) i = Some k"
  then have "map_of (st_held_children st) i = Some k" by simp
  from index_held [OF inv this] g same
  show "map_of (st_segments ?st) i = None \<and> k \<in> set (st_held ?st)
      \<and> (\<exists>h. map_of (st_groups ?st) k = Some h \<and> i \<in> cs_id ` set (cg_children h))"
    by (cases "k = gid") simp_all
next
  have same: "cs_id ` set (cg_children g') = cs_id ` set (cg_children g)" using ids by (metis list.set_map)
  fix k
  assume "k \<in> set (st_held ?st)"
  then have "k \<in> set (st_held st)" by simp
  from index_groups [OF inv this] obtain h where h: "map_of (st_groups st) k = Some h"
    and kids: "\<forall>c \<in> set (cg_children h). map_of (st_held_children st) (cs_id c) = Some k" by blast
  show "\<exists>h. map_of (st_groups ?st) k = Some h
      \<and> (\<forall>c \<in> set (cg_children h). map_of (st_held_children ?st) (cs_id c) = Some k)"
  proof (cases "k = gid")
    case True
    then have "h = g" using h g by simp
    with kids have "\<forall>i \<in> cs_id ` set (cg_children g'). map_of (st_held_children st) i = Some k"
      unfolding same by blast
    with True show ?thesis by simp
  next
    case False
    with h kids show ?thesis by simp
  qed
next
  fix k h
  assume "map_of (st_groups ?st) k = Some h"
  with index_gid [OF inv, of k h] index_gid [OF inv g] assms(3) show "cg_id h = k"
    by (cases "k = gid") auto
qed (use inv in \<open>auto dest: index_seg index_keys\<close>)

lemma put_segment_good:
  assumes inv: "index_inv st" and cur: "lookup_segment i st = Some cur" and i: "cs_id s = i"
    and ev: "evolves cur s" and gen: "results_within (st_generation st) s" and put: "put_segment uc s st = Inr st'"
  shows "index_inv st' \<and> same_journal st st' \<and> st_generation st' = st_generation st \<and> segments_evolve st st'"
proof (cases "map_of (st_held_children st) i")
  case None
  then have st': "st' = st\<lparr>st_segments := al_put i s (st_segments st)\<rparr>"
    and "map_of (st_segments st) i = Some cur"
    using put cur i by (simp_all add: put_segment_def lookup_segment_def)
  with index_inv_put [OF inv None i gen] ev segments_evolve_put [of st i s] show ?thesis
    by (simp add: same_journal_def)
next
  case (Some gid)
  then obtain g where g: "map_of (st_groups st) gid = Some g" using index_held [OF inv] by blast
  let ?g = "g\<lparr>cg_children := map (\<lambda>c. if cs_id c = i then s else c) (cg_children g)\<rparr>"
  have st': "st' = st\<lparr>st_groups := al_put gid ?g (st_groups st)\<rparr>"
    using put Some g i by (auto simp: put_segment_def build_group_def split: if_splits)
  have "map cs_id (cg_children ?g) = map cs_id (cg_children g)" using i by (auto simp: comp_def)
  from index_inv_regroup [OF inv g _ this] show ?thesis
    by (simp add: st' same_journal_def segments_evolve_def) (auto intro: caption_evolves_refl)
qed

lemma good_changeI:
  assumes "store_inv st" "index_inv st' \<and> same_journal st st' \<and> st_generation st' = st_generation st
      \<and> segments_evolve st st'"
  shows "good_change st (record_change e p r st')"
  using assms by (intro recorded_good) (auto simp: segments_evolve_def)

lemma lookup_id: "index_inv st \<Longrightarrow> lookup_segment i st = Some s \<Longrightarrow> cs_id s = i"
  by (auto simp: lookup_segment_def index_inv_def find_Some_iff split: option.splits)

lemma build_segment_same: "build_segment uc s = Inr s' \<Longrightarrow> s' = s"
  by (simp add: build_segment_def split: if_splits)

subsection \<open>Sources, results, generations\<close>

lemma evolves_source:
  assumes "cs_track s = cs_track current" "same_lineage current s" "cs_superseded_by current = []"
    "cs_revision current < cs_revision s" "cs_id s = cs_id current"
  shows "evolves current (adopt_annotations current s)"
  using assms by (auto simp: evolves_def adopt_annotations_def same_lineage_def result_advances_def)

lemma insert_source_good:
  assumes "store_inv st" "insert_source s st = Inr (ok, st')" "results_within (st_generation st) s"
    and "\<And>cur. map_of (st_segments st) (cs_id s) = Some cur \<Longrightarrow> evolves cur s"
  shows "good_change st st'"
proof (cases "map_of (st_held_children st) (cs_id s)")
  case (Some gid)
  with assms(1,2) show ?thesis by (simp add: insert_source_def good_refl)
next
  case None
  let ?st = "st\<lparr>st_segments := al_put (cs_id s) s (st_segments st)\<rparr>"
  have st': "st' = record_change ''transcript.updated'' (segment_json s) True ?st"
    using assms(2) None by (simp add: insert_source_def)
  show ?thesis unfolding st'
    by (rule good_changeI [OF assms(1)])
      (use assms None index_inv_put [of st "cs_id s" s] segments_evolve_put [of st "cs_id s" s] in
        \<open>auto simp: store_inv_def same_journal_def\<close>)
qed

lemma upsert_source_good:
  assumes inv: "store_inv st" and up: "upsert_source uc s st = Inr (ok, st')"
  shows "good_change st st'"
proof -
  have plain: "cs_translation s = None" using up by (auto simp: upsert_source_def split: if_splits)
  show ?thesis
  proof (cases "map_of (st_segments st) (cs_id s)")
    case None
    with up have "insert_source s st = Inr (ok, st')" by (auto simp: upsert_source_def split: if_splits)
    from insert_source_good [OF inv this] plain None show ?thesis by (simp add: results_within_def)
  next
    case (Some current)
    then have idc: "cs_id current = cs_id s" using inv by (auto simp: store_inv_def index_inv_def)
    show ?thesis
    proof (cases "cs_superseded_by current \<noteq> [] \<or> cs_revision s \<le> cs_revision current")
      case True
      with Some up inv show ?thesis by (auto simp: upsert_source_def good_refl split: if_splits)
    next
      case False
      from Some up False have tr: "cs_track s = cs_track current" "same_lineage current s"
        and ins: "insert_source (adopt_annotations current s) st = Inr (ok, st')"
        by (auto simp: upsert_source_def res_bind_eq_Inr dest: build_segment_same split: if_splits)
      have "results_within (st_generation st) (adopt_annotations current s)"
        using inv Some by (auto simp: store_inv_def index_inv_def results_within_def adopt_annotations_def)
      moreover have "evolves cur (adopt_annotations current s)"
        if "map_of (st_segments st) (cs_id (adopt_annotations current s)) = Some cur" for cur
        using that Some evolves_source [OF tr] False idc by (auto simp: adopt_annotations_def)
      ultimately show ?thesis using insert_source_good [OF inv ins] by blast
    qed
  qed
qed

lemma evolves_result:
  assumes "translation_admitted t generation (Some current) held"
    and "results_within generation current"
  shows "evolves current (current\<lparr>cs_translation := Some t\<rparr>)"
proof -
  have "result_advances current (current\<lparr>cs_translation := Some t\<rparr>)"
    using assms by (auto simp: result_advances_def translation_admitted_def results_within_def
        current_translation_def split: if_splits)
  with assms(1) show ?thesis by (auto simp: evolves_def same_lineage_def translation_admitted_def)
qed

lemma held_lookup_within:
  "store_inv st \<Longrightarrow> map_of (st_held_children st) i = None \<Longrightarrow> lookup_segment i st = Some cur \<Longrightarrow>
     results_within (st_generation st) cur"
  by (auto simp: store_inv_def lookup_segment_def dest: index_seg)

text \<open>
  An update of a looked-up caption, recorded. For a held alternative only the index matters; an active
  caption must evolve.
\<close>

lemma put_held_good:
  assumes inv: "index_inv st" and "map_of (st_held_children st) i = Some gid" "cs_id s = i"
    and put: "put_segment uc s st = Inr st'"
  shows "index_inv st' \<and> same_journal st st' \<and> st_generation st' = st_generation st \<and> segments_evolve st st'"
proof -
  obtain g where g: "map_of (st_groups st) gid = Some g" using index_held [OF inv assms(2)] by blast
  let ?g = "g\<lparr>cg_children := map (\<lambda>c. if cs_id c = i then s else c) (cg_children g)\<rparr>"
  have st': "st' = st\<lparr>st_groups := al_put gid ?g (st_groups st)\<rparr>"
    using put assms(2,3) g by (auto simp: put_segment_def build_group_def split: if_splits)
  have "map cs_id (cg_children ?g) = map cs_id (cg_children g)" using assms(3) by (auto simp: comp_def)
  from index_inv_regroup [OF inv g _ this] show ?thesis
    by (simp add: st' same_journal_def segments_evolve_def) (auto intro: caption_evolves_refl)
qed

lemma put_any_good:
  assumes "index_inv st" "lookup_segment i st = Some cur" "cs_id s = i" "put_segment uc s st = Inr st'"
    and "map_of (st_held_children st) i = None \<Longrightarrow> evolves cur s \<and> results_within (st_generation st) s"
  shows "index_inv st' \<and> same_journal st st' \<and> st_generation st' = st_generation st \<and> segments_evolve st st'"
proof (cases "map_of (st_held_children st) i")
  case None
  from assms(5) [OF None] put_segment_good [OF assms(1-3) _ _ assms(4)] show ?thesis by blast
next
  case (Some gid)
  from put_held_good [OF assms(1) Some assms(3,4)] show ?thesis .
qed

lemma apply_translation_good:
  assumes inv: "store_inv st" and ap: "apply_translation uc i revision generation v language completed st = Inr (ok, st')"
  shows "good_change st st'"
proof -
  let ?t = "\<lparr>ct_source_revision = revision, ct_generation = generation, ct_language = language,
               ct_text = v, ct_completed = completed, ct_result_revision = 1\<rparr>"
  have ix: "index_inv st" using inv by (simp add: store_inv_def)
  show ?thesis
  proof (cases "translation_admitted ?t (st_generation st) (lookup_segment i st) (map_of (st_held_children st) i \<noteq> None)")
    case False
    with ap inv show ?thesis by (auto simp: apply_translation_def Let_def good_refl split: if_splits)
  next
    case True
    then obtain cur where cur: "lookup_segment i st = Some cur"
      by (cases "lookup_segment i st") (auto simp: translation_admitted_def)
    with ap True obtain s st1 where s: "build_segment uc (cur\<lparr>cs_translation := Some ?t\<rparr>) = Inr s"
      and put: "put_segment uc s st = Inr st1"
      and st': "st' = record_change (if completed then ''translation.completed'' else ''translation.preview'')
                 (with_id i (translation_json ?t)) completed st1"
      by (auto simp: apply_translation_def Let_def res_bind_eq_Inr split: if_splits)
    note s' = build_segment_same [OF s]
    have gen: "generation = st_generation st" using True cur by (simp add: translation_admitted_def)
    have ev: "evolves cur s \<and> results_within (st_generation st) s" if h: "map_of (st_held_children st) i = None"
      using evolves_result [OF True [unfolded cur] held_lookup_within [OF inv h cur]] gen
      by (simp add: s' results_within_def)
    have "cs_id s = i" using lookup_id [OF ix cur] by (simp add: s')
    then show ?thesis unfolding st' by (rule good_changeI [OF inv put_any_good [OF ix cur _ put ev]])
  qed
qed

lemma set_provider_generation_good:
  assumes inv: "store_inv st" and ap: "set_provider_generation generation st = Inr (ok, st')"
  shows "good_change st st'"
proof (cases "generation = st_generation st")
  case True
  with ap inv show ?thesis by (auto simp: set_provider_generation_def good_refl split: if_splits)
next
  case False
  let ?st = "st\<lparr>st_generation := generation\<rparr>"
  have st': "st' = record_change ''provider.updated'' (JObj [(lit ''provider_generation'', j_int generation)]) True ?st"
    and le: "st_generation st \<le> generation"
    using ap False by (auto simp: set_provider_generation_def split: if_splits)
  have ix: "index_inv st" using inv by (simp add: store_inv_def)
  have "results_within generation s" if "results_within (st_generation st) s" for s
    using that le by (auto simp: results_within_def)
  then have "index_inv ?st"
    using index_keys [OF ix] index_seg [OF ix] index_held [OF ix] index_groups [OF ix] index_gid [OF ix]
    by (intro index_invI) simp_all
  then show ?thesis unfolding st'
    by (intro recorded_good [OF inv]) (auto simp: same_journal_def le intro: caption_evolves_refl)
qed

lemma update_speaker_good:
  assumes inv: "store_inv st" and ap: "update_speaker uc i speaker revision based_on manual st = Inr (ok, st')"
  shows "good_change st st'"
proof (cases "lookup_segment i st")
  case None
  with ap inv show ?thesis by (auto simp: update_speaker_def good_refl split: if_splits)
next
  case (Some cur)
  have ix: "index_inv st" using inv by (simp add: store_inv_def)
  let ?refused = "cs_superseded_by cur \<noteq> [] \<or> manual \<and> map_of (st_held_children st) i \<noteq> None
     \<or> revision \<le> cs_speaker_revision cur \<or> cs_speaker_manual cur \<and> \<not> manual
     \<or> (case based_on of None \<Rightarrow> False | Some r \<Rightarrow> r \<noteq> cs_revision cur)"
  show ?thesis
  proof (cases ?refused)
    case True
    with Some ap inv show ?thesis by (auto simp: update_speaker_def good_refl split: if_splits)
  next
    case False
    let ?s = "cur\<lparr>cs_speaker := speaker, cs_speaker_revision := revision, cs_speaker_manual := manual\<rparr>"
    let ?change = "\<lambda>st1. record_change (if manual then ''speaker.override'' else ''speaker.updated'')
        (JObj [(lit ''segment_id'', JStr i), (lit ''speaker_id'', j_opt speaker),
               (lit ''speaker_revision'', j_int revision),
               (lit ''based_on_source_revision'', case based_on of None \<Rightarrow> JNull | Some r \<Rightarrow> j_int r),
               (lit ''manual'', JBool manual)]) True st1"
    have run: "res_bind (build_segment uc ?s) (\<lambda>s. res_bind (put_segment uc s st) (\<lambda>st1. Inr (True, ?change st1)))
        = Inr (ok, st')"
      using ap Some False unfolding update_speaker_def by (simp only: option.case if_False sum.distinct split: if_split_asm)
    then obtain s st1 where s: "build_segment uc ?s = Inr s" and put: "put_segment uc s st = Inr st1"
      and st': "st' = ?change st1"
      by (auto simp only: res_bind_eq_Inr sum.inject prod.inject)
    note s' = build_segment_same [OF s]
    have ev: "evolves cur s \<and> results_within (st_generation st) s" if h: "map_of (st_held_children st) i = None"
      using held_lookup_within [OF inv h Some] False
      by (auto simp: s' evolves_def same_lineage_def result_advances_def results_within_def current_translation_def)
    have "cs_id s = i" using lookup_id [OF ix Some] by (simp add: s')
    then show ?thesis unfolding st' by (rule good_changeI [OF inv put_any_good [OF ix Some _ put ev]])
  qed
qed

lemma set_speaker_alias_good:
  assumes inv: "store_inv st" and ap: "set_speaker_alias uc speaker name st = Inr (ok, st')"
  shows "good_change st st'"
proof (cases "map_of (st_aliases st) speaker = Some name")
  case True
  with ap inv show ?thesis by (auto simp: set_speaker_alias_def good_refl split: if_splits)
next
  case False
  let ?st = "st\<lparr>st_aliases := al_put speaker name (st_aliases st)\<rparr>"
  obtain payload where st': "st' = record_change ''speaker.alias_updated'' payload True ?st"
    using ap False by (auto simp: set_speaker_alias_def split: if_splits)
  have "index_inv ?st" using inv by (simp add: store_inv_def index_inv_def)
  then show ?thesis unfolding st'
    by (intro recorded_good [OF inv]) (auto simp: same_journal_def intro: caption_evolves_refl)
qed

lemma evolves_tombstone:
  "cs_superseded_by cur = [] \<Longrightarrow> evolves cur (cur\<lparr>cs_superseded_by := ids\<rparr>)"
  by (auto simp: evolves_def same_lineage_def result_advances_def current_translation_def)

lemma supersede_segment_good:
  assumes inv: "store_inv st" and ap: "supersede_segment uc i ids st = Inr (ok, st')"
  shows "good_change st st'"
proof (cases "map_of (st_segments st) i")
  case None
  with ap inv show ?thesis by (auto simp: supersede_segment_def good_refl split: if_splits)
next
  case (Some cur)
  have ix: "index_inv st" using inv by (simp add: store_inv_def)
  show ?thesis
  proof (cases "cs_superseded_by cur = []")
    case False
    with Some ap inv show ?thesis by (auto simp: supersede_segment_def good_refl split: if_splits)
  next
    case True
    with Some ap obtain s payload where s: "build_segment uc (cur\<lparr>cs_superseded_by := ids\<rparr>) = Inr s"
      and st': "st' = record_change ''segment.superseded'' payload True
          (st\<lparr>st_segments := al_put i s (st_segments st)\<rparr>)"
      by (auto simp: supersede_segment_def res_bind_eq_Inr split: if_splits)
    note s' = build_segment_same [OF s]
    have h: "map_of (st_held_children st) i = None" using index_held [OF ix, of i] Some by (cases "map_of (st_held_children st) i") auto
    from index_seg [OF ix Some] have id: "cs_id s = i" "results_within (st_generation st) s"
      by (auto simp: s' results_within_def)
    have "evolves c s" if "map_of (st_segments st) i = Some c" for c
      using that Some evolves_tombstone [OF True] by (simp add: s')
    from segments_evolve_put [OF this] index_inv_put [OF ix h id] show ?thesis
      unfolding st' by (intro good_changeI [OF inv]) (simp add: same_journal_def)
  qed
qed

subsection \<open>Corrections of results\<close>

text \<open>A replacement for a caption: it is looked up by its own identity and may follow it.\<close>

definition follows_caption :: "caption_store \<Rightarrow> caption_segment \<Rightarrow> bool" where
  "follows_caption st s \<longleftrightarrow> map_of (st_held_children st) (cs_id s) = None
     \<and> (\<exists>cur. map_of (st_segments st) (cs_id s) = Some cur \<and> evolves cur s \<and> results_within (st_generation st) s)"

lemma evolves_correction:
  assumes "current_translation cur = Some old" "cs_superseded_by cur = []"
  shows "evolves cur (cur\<lparr>cs_translation := Some (old\<lparr>ct_text := v, ct_result_revision := ct_result_revision old + 1\<rparr>)\<rparr>)"
  using assms
  by (auto simp: evolves_def same_lineage_def result_advances_def current_translation_def
      split: option.splits if_splits)

lemma revised_segment_follows:
  assumes inv: "index_inv st" and rev: "revised_segment uc generation st c = Inr (Some s)"
  shows "follows_caption st s \<and> cs_id s = rcn_segment c"
proof -
  obtain cur old where cur: "lookup_segment (rcn_segment c) st = Some cur"
    and free: "cs_superseded_by cur = []" "map_of (st_held_children st) (rcn_segment c) = None"
    and old: "current_translation cur = Some old"
    and s: "build_segment uc (cur\<lparr>cs_translation := Some (old\<lparr>ct_text := rcn_text c,
        ct_result_revision := ct_result_revision old + 1\<rparr>)\<rparr>) = Inr s"
    using rev by (auto simp: revised_segment_def Let_def res_bind_eq_Inr split: option.splits if_splits)
  have seg: "map_of (st_segments st) (rcn_segment c) = Some cur"
    using cur free(2) by (simp add: lookup_segment_def)
  from index_seg [OF inv seg] have id: "cs_id cur = rcn_segment c" "results_within (st_generation st) cur" by auto
  moreover have "cs_translation cur = Some old"
    using old by (auto simp: current_translation_def split: option.splits if_splits)
  ultimately show ?thesis
    using seg free(2) evolves_correction [OF old free(1), of "rcn_text c"] build_segment_same [OF s]
    by (auto simp: follows_caption_def results_within_def)
qed

lemma revised_batch_follows:
  "index_inv st \<Longrightarrow> revised_batch uc generation st cs = Inr (Some ss) \<Longrightarrow>
     list_all (follows_caption st) ss \<and> map cs_id ss = map rcn_segment cs"
proof (induction cs arbitrary: ss)
  case (Cons c cs)
  then obtain s rest where s: "revised_segment uc generation st c = Inr (Some s)"
    and rest: "revised_batch uc generation st cs = Inr (Some rest)" and ss: "ss = s # rest"
    by (auto simp: res_bind_eq_Inr split: option.splits)
  from revised_segment_follows [OF Cons.prems(1) s] Cons.IH [OF Cons.prems(1) rest] show ?case by (simp add: ss)
qed simp

lemma put_all_good:
  "index_inv st \<Longrightarrow> list_all (follows_caption st) ss \<Longrightarrow> distinct (map cs_id ss) \<Longrightarrow> put_all uc ss st = Inr st' \<Longrightarrow>
     index_inv st' \<and> same_journal st st' \<and> st_generation st' = st_generation st \<and> segments_evolve st st'"
proof (induction ss arbitrary: st)
  case (Cons s ss)
  then obtain cur where free: "map_of (st_held_children st) (cs_id s) = None"
    and cur: "map_of (st_segments st) (cs_id s) = Some cur" "evolves cur s" "results_within (st_generation st) s"
    by (auto simp: follows_caption_def)
  let ?st = "st\<lparr>st_segments := al_put (cs_id s) s (st_segments st)\<rparr>"
  have rest: "put_all uc ss ?st = Inr st'" using Cons.prems(4) free by (simp add: put_segment_def)
  have "index_inv ?st" using index_inv_put [OF Cons.prems(1) free refl cur(3)] .
  moreover have "list_all (follows_caption ?st) ss"
    using Cons.prems(2,3) by (auto simp: list_all_iff follows_caption_def) (metis image_eqI)
  moreover have "distinct (map cs_id ss)" using Cons.prems(3) by simp
  ultimately have "index_inv st' \<and> same_journal ?st st' \<and> st_generation st' = st_generation ?st
      \<and> segments_evolve ?st st'"
    using Cons.IH rest by blast
  moreover have "segments_evolve st ?st" using cur by (intro segments_evolve_put) simp
  ultimately show ?case by (auto simp: same_journal_def intro: segments_evolve_trans)
qed (simp add: same_journal_def segments_evolve_refl)

lemma revise_translations_good:
  assumes inv: "store_inv st" and ap: "revise_translations uc corrections generation st = Inr (ok, st')"
  shows "good_change st st'"
proof (cases "generation = st_generation st")
  case False
  with ap inv show ?thesis by (auto simp: revise_translations_def good_refl split: if_splits)
next
  case True
  have ix: "index_inv st" using inv by (simp add: store_inv_def)
  from ap True have dist: "distinct (map rcn_segment corrections)"
    by (auto simp: revise_translations_def split: if_splits)
  from ap True obtain r where r: "revised_batch uc generation st corrections = Inr r"
    by (auto simp: revise_translations_def res_bind_eq_Inr split: if_splits)
  show ?thesis
  proof (cases r)
    case None
    with ap r True inv show ?thesis
      by (auto simp: revise_translations_def res_bind_eq_Inr good_refl split: if_splits)
  next
    case (Some ss)
    with ap r True obtain st1 payload where put: "put_all uc ss st = Inr st1"
      and st': "st' = record_change ''caption.results_revised'' payload True st1"
      by (auto simp: revise_translations_def res_bind_eq_Inr split: if_splits)
    from revised_batch_follows [OF ix r [unfolded Some]] dist
    have "list_all (follows_caption st) ss" "distinct (map cs_id ss)" by auto
    from put_all_good [OF ix this put] show ?thesis unfolding st' by (rule good_changeI [OF inv])
  qed
qed

subsection \<open>Group replacements\<close>

lemma put_plain_Cons: "put_plain (s # ss) m = put_plain ss (al_put (cs_id s) s m)"
  by (simp add: put_plain_def)

lemma put_plain_keys: "distinct (map fst m) \<Longrightarrow> distinct (map fst (put_plain ss m))"
  by (induction ss arbitrary: m) (simp_all add: put_plain_Cons distinct_al_put, simp add: put_plain_def)

lemma put_plain_cases:
  "map_of (put_plain ss m) i = Some s \<Longrightarrow>
     s \<in> set ss \<and> cs_id s = i \<or> i \<notin> cs_id ` set ss \<and> map_of m i = Some s"
proof (induction ss arbitrary: m)
  case (Cons a ss)
  from Cons.IH [OF Cons.prems [unfolded put_plain_Cons]] show ?case by (auto split: if_splits)
qed (simp add: put_plain_def)

lemma put_plain_None: "map_of (put_plain ss m) i = None \<longleftrightarrow> i \<notin> cs_id ` set ss \<and> map_of m i = None"
  by (induction ss arbitrary: m) (auto simp: put_plain_Cons, auto simp: put_plain_def)

lemma put_plain_other: "i \<notin> cs_id ` set ss \<Longrightarrow> map_of (put_plain ss m) i = map_of m i"
  by (induction ss arbitrary: m) (auto simp: put_plain_Cons, auto simp: put_plain_def)

lemma put_plain_member:
  "distinct (map cs_id ss) \<Longrightarrow> s \<in> set ss \<Longrightarrow> map_of (put_plain ss m) (cs_id s) = Some s"
  by (induction ss arbitrary: m) (auto simp: put_plain_Cons put_plain_other)

lemma held_index_fold:
  "map_of (fold (\<lambda>c m. al_put (cs_id c) gid m) cs m) i
     = (if i \<in> cs_id ` set cs then Some gid else map_of m i)"
  by (induction cs arbitrary: m) auto

lemma parents_valid_active:
  "parents_valid g st ps = Inr True \<Longrightarrow> p \<in> set ps \<Longrightarrow>
     \<exists>cur. map_of (st_segments st) (pr_segment p) = Some cur \<and> cs_superseded_by cur = []
       \<and> cs_revision cur = pr_revision p"
  by (induction ps) (auto split: option.splits if_splits)

lemma tombstones_from_parents:
  "parent_tombstones uc g st ps = Inr ts \<Longrightarrow>
     map cs_superseded_by ts = map (\<lambda>p. child_ids_of (pr_segment p) g) ps
     \<and> (\<forall>s \<in> set ts. \<exists>p \<in> set ps. \<exists>cur. map_of (st_segments st) (pr_segment p) = Some cur
          \<and> s = cur\<lparr>cs_superseded_by := child_ids_of (pr_segment p) g\<rparr>)"
proof (induction ps arbitrary: ts)
  case (Cons p ps)
  then obtain cur s rest where cur: "map_of (st_segments st) (pr_segment p) = Some cur"
    and s: "build_segment uc (cur\<lparr>cs_superseded_by := child_ids_of (pr_segment p) g\<rparr>) = Inr s"
    and rest: "parent_tombstones uc g st ps = Inr rest" and ts: "ts = s # rest"
    by (auto simp: res_bind_eq_Inr split: option.splits)
  show ?case using Cons.IH [OF rest] cur build_segment_same [OF s] by (auto simp: ts)
qed simp

text \<open>What \<open>_validate_group\<close> establishes.\<close>

definition old_children :: "caption_group \<Rightarrow> caption_store \<Rightarrow> ustring list" where
  "old_children g st = (if cg_id g \<in> set (st_held st)
     then (case map_of (st_groups st) (cg_id g) of None \<Rightarrow> [] | Some p \<Rightarrow> map cs_id (cg_children p)) else [])"

lemma validate_groupD:
  assumes "validate_group g limit applying st = Inr True"
  shows "\<not> list_ex (\<lambda>c. cs_id c \<in> set (remdups (map fst (st_segments st) @ map fst (st_held_children st)))
           \<and> cs_id c \<notin> set (if applying then old_children g st else [])) (cg_children g)"
    and "parents_valid g st (cg_parents g) = Inr True"
    and "\<not> list_ex (\<lambda>c. case cs_translation c of None \<Rightarrow> False
                        | Some t \<Rightarrow> ct_generation t \<noteq> st_generation st) (cg_children g)"
  using assms unfolding validate_group_def Let_def old_children_def [symmetric]
  by (auto simp only: res_bind_eq_Inr sum.inject sum.distinct simp_thms split: if_split_asm)

lemma validated_fresh:
  assumes inv: "index_inv st" and val: "validate_group g limit applying st = Inr True"
    and c: "c \<in> set (cg_children g)"
  shows "map_of (st_segments st) (cs_id c) = None
     \<and> (map_of (st_held_children st) (cs_id c) = None
        \<or> map_of (st_held_children st) (cs_id c) = Some (cg_id g))
     \<and> results_within (st_generation st) c"
proof -
  have old_held: "map_of (st_held_children st) i = Some (cg_id g)" if i: "i \<in> set (old_children g st)" for i
  proof -
    have h: "cg_id g \<in> set (st_held st)" using i by (cases "cg_id g \<in> set (st_held st)") (simp_all add: old_children_def)
    from index_groups [OF inv h] obtain p where "map_of (st_groups st) (cg_id g) = Some p"
      and "\<forall>c \<in> set (cg_children p). map_of (st_held_children st) (cs_id c) = Some (cg_id g)" by blast
    with i h show ?thesis by (auto simp: old_children_def)
  qed
  have new: "cs_id c \<in> set (map fst (st_segments st) @ map fst (st_held_children st)) \<longrightarrow>
      applying \<and> cs_id c \<in> set (old_children g st)"
    using validate_groupD(1) [OF val] c unfolding list_ex_iff by (cases applying) auto
  have res: "results_within (st_generation st) c"
    using validate_groupD(3) [OF val] c unfolding list_ex_iff results_within_def
    by (cases "cs_translation c") auto
  show ?thesis
  proof (cases "cs_id c \<in> set (map fst (st_segments st) @ map fst (st_held_children st))")
    case False
    with res show ?thesis by (auto simp: map_of_eq_None_iff)
  next
    case True
    with new have a: "cs_id c \<in> set (old_children g st)" by auto
    from index_held [OF inv old_held [OF a]] old_held [OF a] res show ?thesis by blast
  qed
qed

lemma release_frame [simp]:
  "st_segments (release_held gid st) = st_segments st" "st_groups (release_held gid st) = st_groups st"
  "st_generation (release_held gid st) = st_generation st" "st_session (release_held gid st) = st_session st"
  "st_changes (release_held gid st) = st_changes st" "st_revision (release_held gid st) = st_revision st"
  "set (st_held (release_held gid st)) = set (st_held st) - {gid}"
  by (simp_all add: release_held_def)

lemma map_of_filter_keys: "map_of (filter (\<lambda>kv. fst kv \<notin> A) m) i = (if i \<in> A then None else map_of m i)"
  by (induction m) auto

lemma release_children:
  assumes inv: "index_inv st"
  shows "map_of (st_held_children (release_held gid st)) i
     = (if map_of (st_held_children st) i = Some gid then None else map_of (st_held_children st) i)"
proof (cases "gid \<in> set (st_held st)")
  case False
  then show ?thesis using index_held [OF inv, of i gid] by (auto simp: release_held_def)
next
  case True
  from index_groups [OF inv True] obtain p where p: "map_of (st_groups st) gid = Some p"
    and kids: "\<forall>c \<in> set (cg_children p). map_of (st_held_children st) (cs_id c) = Some gid" by blast
  have "map_of (st_held_children (release_held gid st)) i
     = (if i \<in> cs_id ` set (cg_children p) then None else map_of (st_held_children st) i)"
    using True p by (simp add: release_held_def map_of_filter_keys)
  moreover have "i \<in> cs_id ` set (cg_children p) \<longleftrightarrow> map_of (st_held_children st) i = Some gid"
    using index_held [OF inv, of i gid] p kids by auto
  ultimately show ?thesis by simp
qed

text \<open>After the release the group is stored and no longer held.\<close>

definition regrouped :: "caption_group \<Rightarrow> caption_store \<Rightarrow> caption_store" where
  "regrouped g st = (let st1 = release_held (cg_id g) st
     in st1\<lparr>st_groups := al_put (cg_id g) g (st_groups st1)\<rparr>)"

lemma regrouped_inv:
  assumes inv: "index_inv st"
  shows "index_inv (regrouped g st)" and "cg_id g \<notin> set (st_held (regrouped g st))"
proof -
  show "index_inv (regrouped g st)"
  proof (rule index_invI)
    fix i k
    assume "map_of (st_held_children (regrouped g st)) i = Some k"
    then have "map_of (st_held_children st) i = Some k" "k \<noteq> cg_id g"
      by (auto simp: regrouped_def Let_def release_children [OF inv] split: if_splits)
    with index_held [OF inv] show "map_of (st_segments (regrouped g st)) i = None
        \<and> k \<in> set (st_held (regrouped g st))
        \<and> (\<exists>h. map_of (st_groups (regrouped g st)) k = Some h \<and> i \<in> cs_id ` set (cg_children h))"
      by (simp add: regrouped_def)
  next
    fix k
    assume "k \<in> set (st_held (regrouped g st))"
    then have "k \<in> set (st_held st)" "k \<noteq> cg_id g" by (simp_all add: regrouped_def Let_def)
    with index_groups [OF inv, of k] show "\<exists>h. map_of (st_groups (regrouped g st)) k = Some h
        \<and> (\<forall>c \<in> set (cg_children h). map_of (st_held_children (regrouped g st)) (cs_id c) = Some k)"
      by (auto simp: regrouped_def Let_def release_children [OF inv])
  qed (use inv in \<open>auto simp: regrouped_def Let_def dest: index_seg index_keys index_gid split: if_splits\<close>)
qed (simp add: regrouped_def Let_def)

lemma regrouped_frame [simp]:
  "st_segments (regrouped g st) = st_segments st" "st_generation (regrouped g st) = st_generation st"
  "st_session (regrouped g st) = st_session st" "st_changes (regrouped g st) = st_changes st"
  "st_revision (regrouped g st) = st_revision st"
  "map_of (st_groups (regrouped g st)) = (map_of (st_groups st))(cg_id g \<mapsto> g)"
  by (simp_all add: regrouped_def Let_def)

definition fresh_children :: "caption_group \<Rightarrow> caption_store \<Rightarrow> bool" where
  "fresh_children g st \<longleftrightarrow> (\<forall>c \<in> set (cg_children g). map_of (st_segments st) (cs_id c) = None
     \<and> map_of (st_held_children st) (cs_id c) = None \<and> results_within (st_generation st) c)"

lemma validated_regrouped:
  assumes "index_inv st" "validate_group g limit applying st = Inr True"
  shows "fresh_children g (regrouped g st)"
  using validated_fresh [OF assms] by (auto simp: fresh_children_def) (auto simp: regrouped_def Let_def release_children [OF assms(1)])

lemma held_commit_inv:
  assumes inv: "index_inv st" and fresh: "fresh_children g st" and gid: "map_of (st_groups st) (cg_id g) = Some g"
    and free: "cg_id g \<notin> set (st_held st)"
  shows "index_inv (st\<lparr>st_held := cg_id g # st_held st,
      st_held_children := fold (\<lambda>c m. al_put (cs_id c) (cg_id g) m) (cg_children g) (st_held_children st)\<rparr>)"
    (is "index_inv ?st")
proof (rule index_invI)
  fix i k
  assume "map_of (st_held_children ?st) i = Some k"
  then have cases: "i \<in> cs_id ` set (cg_children g) \<and> k = cg_id g
      \<or> i \<notin> cs_id ` set (cg_children g) \<and> map_of (st_held_children st) i = Some k"
    by (auto simp: held_index_fold split: if_splits)
  show "map_of (st_segments ?st) i = None \<and> k \<in> set (st_held ?st)
      \<and> (\<exists>h. map_of (st_groups ?st) k = Some h \<and> i \<in> cs_id ` set (cg_children h))"
    using cases
  proof (elim disjE conjE)
    assume "i \<in> cs_id ` set (cg_children g)" "k = cg_id g"
    with fresh gid show ?thesis by (auto simp: fresh_children_def)
  next
    assume "map_of (st_held_children st) i = Some k"
    from index_held [OF inv this] show ?thesis by simp
  qed
next
  fix k
  assume k: "k \<in> set (st_held ?st)"
  show "\<exists>h. map_of (st_groups ?st) k = Some h
      \<and> (\<forall>c \<in> set (cg_children h). map_of (st_held_children ?st) (cs_id c) = Some k)"
  proof (cases "k = cg_id g")
    case True
    with gid show ?thesis by (simp add: held_index_fold)
  next
    case False
    with k have "k \<in> set (st_held st)" by simp
    from index_groups [OF inv this] obtain h where h: "map_of (st_groups st) k = Some h"
      and kids: "\<forall>c \<in> set (cg_children h). map_of (st_held_children st) (cs_id c) = Some k" by blast
    have "cs_id c \<notin> cs_id ` set (cg_children g)" if "c \<in> set (cg_children h)" for c
    proof
      assume "cs_id c \<in> cs_id ` set (cg_children g)"
      with fresh have "map_of (st_held_children st) (cs_id c) = None" by (auto simp: fresh_children_def)
      with kids that show False by simp
    qed
    with h kids show ?thesis by (simp add: held_index_fold)
  qed
qed (use inv in \<open>auto dest: index_seg index_keys index_gid\<close>)

lemma tombstone_facts:
  assumes inv: "index_inv st" and ts: "parent_tombstones uc g st (cg_parents g) = Inr ts"
    and valid: "parents_valid g st (cg_parents g) = Inr True" and s: "s \<in> set ts"
  shows "\<exists>cur. map_of (st_segments st) (cs_id s) = Some cur \<and> evolves cur s \<and> results_within (st_generation st) s"
proof -
  from tombstones_from_parents [OF ts] s obtain p cur where p: "p \<in> set (cg_parents g)"
    and cur: "map_of (st_segments st) (pr_segment p) = Some cur"
    and sc: "s = cur\<lparr>cs_superseded_by := child_ids_of (pr_segment p) g\<rparr>" by blast
  from parents_valid_active [OF valid p] cur have "cs_superseded_by cur = []" by auto
  from evolves_tombstone [OF this] index_seg [OF inv cur] cur show ?thesis
    by (auto simp: sc results_within_def)
qed

lemma applied_commit_good:
  assumes inv: "index_inv st" and fresh: "fresh_children g st"
    and stones: "\<And>s. s \<in> set ts \<Longrightarrow>
      \<exists>cur. map_of (st_segments st) (cs_id s) = Some cur \<and> evolves cur s \<and> results_within (st_generation st) s"
  shows "index_inv (st\<lparr>st_segments := put_plain (cg_children g @ ts) (st_segments st)\<rparr>)" (is "index_inv ?st")
    and "segments_evolve st (st\<lparr>st_segments := put_plain (cg_children g @ ts) (st_segments st)\<rparr>)"
proof -
  show "index_inv ?st"
  proof (rule index_invI)
    show "distinct (map fst (st_segments ?st))" using put_plain_keys [OF index_keys [OF inv]] by simp
  next
    fix i s
    assume "map_of (st_segments ?st) i = Some s"
    then have "s \<in> set (cg_children g @ ts) \<and> cs_id s = i \<or> map_of (st_segments st) i = Some s"
      using put_plain_cases by fastforce
    then show "cs_id s = i \<and> results_within (st_generation ?st) s"
      using fresh stones index_seg [OF inv, of i s] by (auto simp: fresh_children_def)
  next
    fix i k
    assume "map_of (st_held_children ?st) i = Some k"
    then have h: "map_of (st_held_children st) i = Some k" by simp
    from index_held [OF inv h] have none: "map_of (st_segments st) i = None" by blast
    have "i \<notin> cs_id ` set (cg_children g @ ts)"
      using fresh stones none h by (force simp: fresh_children_def)
    with none have "map_of (st_segments ?st) i = None" by (simp add: put_plain_None)
    with index_held [OF inv h] show "map_of (st_segments ?st) i = None \<and> k \<in> set (st_held ?st)
        \<and> (\<exists>h. map_of (st_groups ?st) k = Some h \<and> i \<in> cs_id ` set (cg_children h))" by simp
  qed (use inv in \<open>auto dest: index_groups index_gid\<close>)
  show "segments_evolve st ?st"
    unfolding segments_evolve_def
  proof (intro allI impI)
    fix i s assume s: "map_of (st_segments st) i = Some s"
    show "\<exists>s'. map_of (st_segments ?st) i = Some s' \<and> evolves s s'"
    proof (cases "map_of (st_segments ?st) i")
      case None
      with s show ?thesis by (simp add: put_plain_None)
    next
      case (Some s')
      then have "s' \<in> set (cg_children g @ ts) \<and> cs_id s' = i \<or> map_of (st_segments st) i = Some s'"
        using put_plain_cases by fastforce
      then show ?thesis using Some s fresh stones [of s'] by (auto simp: fresh_children_def intro: caption_evolves_refl)
    qed
  qed
qed

lemma parent_tombstones_cong:
  "st_segments st = st_segments st' \<Longrightarrow> parent_tombstones uc g st ps = parent_tombstones uc g st' ps"
  by (induction ps) (simp_all split: option.splits)

lemma parents_valid_cong:
  "st_segments st = st_segments st' \<Longrightarrow> parents_valid g st ps = parents_valid g st' ps"
  by (induction ps) (simp_all split: option.splits)

lemma commit_group_good:
  assumes inv: "store_inv st" and val: "validate_group g limit applying st = Inr True"
    and com: "commit_group uc g state st = Inr st'"
  shows "good_change st st'"
proof -
  have ix: "index_inv st" using inv by (simp add: store_inv_def)
  note mid = regrouped_inv [OF ix, of g]
  note fresh = validated_regrouped [OF ix val]
  show ?thesis
  proof (cases state)
    case HeldGroup
    let ?st = "regrouped g st\<lparr>st_held := cg_id g # st_held (regrouped g st),
      st_held_children := fold (\<lambda>c m. al_put (cs_id c) (cg_id g) m) (cg_children g) (st_held_children (regrouped g st))\<rparr>"
    have st': "st' = record_change ''caption.group_held'' (group_json g) True ?st"
      using com HeldGroup by (simp add: commit_group_def regrouped_def Let_def)
    have "index_inv ?st" by (rule held_commit_inv [OF mid(1) fresh _ mid(2)]) simp
    then show ?thesis unfolding st'
      by (intro recorded_good [OF inv]) (auto simp: same_journal_def intro: caption_evolves_refl)
  next
    case AppliedGroup
    from com AppliedGroup obtain ts where ts: "parent_tombstones uc g st (cg_parents g) = Inr ts"
      by (cases "parent_tombstones uc g st (cg_parents g)") (simp_all add: commit_group_def)
    let ?st = "regrouped g st\<lparr>st_segments := put_plain (cg_children g @ ts) (st_segments (regrouped g st))\<rparr>"
    have st': "st' = record_change ''caption.group_replaced'' (group_json g) True ?st"
      using com AppliedGroup ts by (simp add: commit_group_def regrouped_def Let_def)
    have stones: "\<exists>cur. map_of (st_segments (regrouped g st)) (cs_id s) = Some cur \<and> evolves cur s
        \<and> results_within (st_generation (regrouped g st)) s" if "s \<in> set ts" for s
      using tombstone_facts [OF ix ts validate_groupD(2) [OF val] that] by simp
    note new = applied_commit_good [OF mid(1) fresh stones]
    from new(2) have "segments_evolve st ?st" by (simp add: segments_evolve_def)
    with new(1) show ?thesis unfolding st'
      by (intro recorded_good [OF inv]) (auto simp: same_journal_def segments_evolve_def)
  qed
qed

lemma replace_group_good:
  assumes inv: "store_inv st" and ap: "replace_group uc g limit allow_manual st = Inr (answer, st')"
  shows "good_change st st'"
proof -
  from ap obtain ok where val: "validate_group g limit False st = Inr ok"
    by (auto simp: replace_group_def res_bind_eq_Inr)
  show ?thesis
  proof (cases ok)
    case False
    with ap val inv show ?thesis by (simp add: replace_group_def good_refl)
  next
    case True
    with ap val obtain state where "commit_group uc g state st = Inr st'"
      by (auto simp: replace_group_def Let_def res_bind_eq_Inr split: if_splits)
    moreover from val True have "validate_group g limit False st = Inr True" by simp
    ultimately show ?thesis by (intro commit_group_good [OF inv])
  qed
qed

lemma apply_held_group_good:
  assumes inv: "store_inv st" and ap: "apply_held_group uc gid revision limit st = Inr (ok, st')"
  shows "good_change st st'"
proof (cases "st' = st")
  case True
  with inv show ?thesis by (simp add: good_refl)
next
  case False
  with ap obtain g where val: "validate_group g limit True st = Inr True"
    and com: "commit_group uc g AppliedGroup st = Inr st'"
    by (auto simp: apply_held_group_def res_bind_eq_Inr split: if_splits option.splits)
  from commit_group_good [OF inv val com] show ?thesis .
qed

end
