(* ===== verification/CaptionProps.thy ===== *)
theory CaptionProps
  imports CaptionInv
begin

text \<open>
  Runs of the caption store and its properties: captions only evolve, a group replaces its parents in one
  step, and a snapshot restores the store it was taken of. \<open>store_call\<close> runs one public operation; an
  operation that raises leaves the store alone.
\<close>

datatype store_op =
    UpsertSource caption_segment
  | ApplyTranslation ustring int int ustring ustring bool
  | SetProviderGeneration int
  | ReviseTranslations "result_correction list" int
  | UpdateSpeaker ustring "ustring option" int "int option" bool
  | ReplaceGroup caption_group int bool
  | ApplyHeldGroup ustring int int
  | SetSpeakerAlias ustring ustring
  | SupersedeSegment ustring "ustring list"

definition answered :: "('a \<times> caption_store) res \<Rightarrow> caption_store \<Rightarrow> caption_store" where
  "answered r st = (case r of Inl _ \<Rightarrow> st | Inr (_, st') \<Rightarrow> st')"

fun store_call :: "unidb \<Rightarrow> store_op \<Rightarrow> caption_store \<Rightarrow> caption_store" where
  "store_call uc (UpsertSource s) st = answered (upsert_source uc s st) st"
| "store_call uc (ApplyTranslation i r g v l c) st = answered (apply_translation uc i r g v l c st) st"
| "store_call uc (SetProviderGeneration g) st = answered (set_provider_generation g st) st"
| "store_call uc (ReviseTranslations cs g) st = answered (revise_translations uc cs g st) st"
| "store_call uc (UpdateSpeaker i s r b m) st = answered (update_speaker uc i s r b m st) st"
| "store_call uc (ReplaceGroup g l m) st = answered (replace_group uc g l m st) st"
| "store_call uc (ApplyHeldGroup i r l) st = answered (apply_held_group uc i r l st) st"
| "store_call uc (SetSpeakerAlias s n) st = answered (set_speaker_alias uc s n st) st"
| "store_call uc (SupersedeSegment i ids) st = answered (supersede_segment uc i ids st) st"

lemmas operation_good = upsert_source_good apply_translation_good set_provider_generation_good
  revise_translations_good update_speaker_good replace_group_good apply_held_group_good
  set_speaker_alias_good supersede_segment_good

lemma answered_good:
  "store_inv st \<Longrightarrow> (\<And>a st'. r = Inr (a, st') \<Longrightarrow> good_change st st') \<Longrightarrow> good_change st (answered r st)"
  by (auto simp: answered_def good_refl split: sum.split)

lemma store_call_good: "store_inv st \<Longrightarrow> good_change st (store_call uc op st)"
  by (cases op) (auto intro: answered_good operation_good)

definition store_run :: "unidb \<Rightarrow> store_op list \<Rightarrow> caption_store \<Rightarrow> caption_store" where
  "store_run uc ops st = fold (store_call uc) ops st"

lemma store_run_good: "store_inv st \<Longrightarrow> good_change st (store_run uc ops st)"
proof (induction ops arbitrary: st)
  case Nil
  then show ?case by (simp add: store_run_def good_refl)
next
  case (Cons op ops)
  from store_call_good [OF Cons.prems, of uc op] have one: "good_change st (store_call uc op st)" .
  then have "good_change (store_call uc op st) (store_run uc ops (store_call uc op st))"
    by (intro Cons.IH) (simp add: good_change_def)
  with one show ?case by (auto simp: good_change_def store_run_def intro: store_evolves_trans)
qed

subsection \<open>A concrete store\<close>

definition sample_caption :: "string \<Rightarrow> int \<Rightarrow> int \<Rightarrow> caption_segment" where
  "sample_caption i start stop = \<lparr>cs_id = lit i, cs_track = lit ''mix'', cs_start = start, cs_end = stop,
     cs_text = lit ''hello'', cs_revision = 1, cs_state = StableSource, cs_target = lit ''ko'', cs_speaker = None,
     cs_speaker_revision = 0, cs_speaker_manual = False, cs_translation = None, cs_superseded_by = [],
     cs_source_track = Some (lit ''mix''), cs_epoch = Some (lit ''e''), cs_group = None, cs_lane = None,
     cs_parents = [], cs_delivery = LiveDelivery, cs_operation = TranslationOperation, cs_source_language = None\<rparr>"

definition sample_store :: caption_store where
  "sample_store = \<lparr>st_session = lit ''s'', st_generation = 0, st_revision = 0, st_segments = [], st_aliases = [],
     st_changes = [], st_groups = [], st_held = [], st_held_children = []\<rparr>"

definition sample_before :: "store_op list" where
  "sample_before = [UpsertSource (sample_caption ''a'' 0 10),
     ApplyTranslation (lit ''a'') 1 0 (lit ''x'') (lit ''ko'') True]"

definition sample_after :: "store_op list" where
  "sample_after = [SetProviderGeneration 3, UpdateSpeaker (lit ''a'') (Some (lit ''p'')) 1 None True,
     UpdateSpeaker (lit ''a'') (Some (lit ''q'')) 2 None False, SupersedeSegment (lit ''a'') [lit ''b'']]"

lemma sample_new: "new_store ascii_db (lit ''s'') 0 = Inr sample_store"
  by code_simp

text \<open>
  C18: over every run of the operations the store's indexes stay consistent and its captions only
  evolve: revisions grow, a tombstone is final, identity, track and lineage are fixed, a manual speaker
  is never displaced by an automatic one, a current result only gives way to a newer revision of it or to a
  newer provider generation, and the journal is append-only with strictly increasing numbers.
\<close>

theorem captions_evolve:
  assumes "new_store uc session generation = Inr st0"
  shows "store_inv (store_run uc (before @ after) st0)
    \<and> store_evolves (store_run uc before st0) (store_run uc (before @ after) st0)"
proof -
  have one: "good_change st0 (store_run uc before st0)" by (rule store_run_good [OF new_store_inv [OF assms]])
  then have "good_change (store_run uc before st0) (store_run uc after (store_run uc before st0))"
    by (intro store_run_good) (simp add: good_change_def)
  then show ?thesis by (simp add: good_change_def store_run_def)
qed

lemma captions_evolve_witness:
  "store_evolves (store_run ascii_db sample_before sample_store) (store_run ascii_db (sample_before @ sample_after) sample_store)
   \<and> map_option (\<lambda>s. (cs_speaker s, cs_speaker_revision s, cs_superseded_by s))
       (map_of (st_segments (store_run ascii_db (sample_before @ sample_after) sample_store)) (lit ''a''))
     = Some (Some (lit ''p''), 1, [lit ''b''])"
  by (rule conjI [OF conjunct2 [OF captions_evolve [OF sample_new]]]) code_simp

subsection \<open>Atomic replacement\<close>

lemma applied_commit:
  assumes inv: "index_inv st" and ap: "replace_group uc g limit allow_manual st = Inr (GroupApplied, st')"
  shows "validate_group g limit False st = Inr True
    \<and> (\<not> allow_manual \<longrightarrow> (\<forall>p \<in> set (cg_parents g). \<forall>cur. map_of (st_segments st) (pr_segment p) = Some cur
          \<longrightarrow> \<not> cs_speaker_manual cur))
    \<and> (\<exists>ts. parent_tombstones uc g st (cg_parents g) = Inr ts
         \<and> st_segments st' = put_plain (cg_children g @ ts) (st_segments st))"
proof -
  let ?manual = "list_ex (\<lambda>p. case map_of (st_segments st) (pr_segment p) of None \<Rightarrow> False
      | Some s \<Rightarrow> cs_speaker_manual s) (cg_parents g)"
  from ap have val: "validate_group g limit False st = Inr True" and m: "\<not> (?manual \<and> \<not> allow_manual)"
    and com: "commit_group uc g AppliedGroup st = Inr st'"
    by (auto simp: replace_group_def Let_def res_bind_eq_Inr split: if_splits)
  obtain ts where ts: "parent_tombstones uc g st (cg_parents g) = Inr ts"
    using com by (cases "parent_tombstones uc g st (cg_parents g)") (simp_all add: commit_group_def)
  have "st_segments st' = put_plain (cg_children g @ ts) (st_segments st)"
    using com ts by (auto simp: commit_group_def Let_def)
  with val ts m show ?thesis by (auto simp: list_ex_iff)
qed

lemma tombstones_listed:
  assumes ix: "index_inv st" and ts: "parent_tombstones uc g st ps = Inr ts"
  shows "map cs_id ts = map pr_segment ps"
    and "p \<in> set ps \<Longrightarrow> map_of (st_segments st) (pr_segment p) = Some cur \<Longrightarrow>
      cur\<lparr>cs_superseded_by := child_ids_of (pr_segment p) g\<rparr> \<in> set ts"
proof -
  have "map cs_id ts = map pr_segment ps \<and> (\<forall>p \<in> set ps. \<forall>cur. map_of (st_segments st) (pr_segment p) = Some cur \<longrightarrow>
      cur\<lparr>cs_superseded_by := child_ids_of (pr_segment p) g\<rparr> \<in> set ts)"
    using ts
  proof (induction ps arbitrary: ts)
    case (Cons p ps)
    then obtain c s rest where c: "map_of (st_segments st) (pr_segment p) = Some c"
      and s: "build_segment uc (c\<lparr>cs_superseded_by := child_ids_of (pr_segment p) g\<rparr>) = Inr s"
      and rest: "parent_tombstones uc g st ps = Inr rest" and ts: "ts = s # rest"
      by (auto simp: res_bind_eq_Inr split: option.splits)
    show ?case using Cons.IH [OF rest] c build_segment_same [OF s] index_seg [OF ix c] by (auto simp: ts)
  qed simp
  then show "map cs_id ts = map pr_segment ps"
    and "p \<in> set ps \<Longrightarrow> map_of (st_segments st) (pr_segment p) = Some cur \<Longrightarrow>
      cur\<lparr>cs_superseded_by := child_ids_of (pr_segment p) g\<rparr> \<in> set ts" by blast+
qed

lemma group_ok_shape:
  assumes "group_ok uc g"
  shows "distinct (map cs_id (cg_children g))" "distinct (map pr_segment (cg_parents g))"
    and "p \<in> set (cg_parents g) \<Longrightarrow> pr_segment p \<notin> cs_id ` set (cg_children g)"
    and "p \<in> set (cg_parents g) \<Longrightarrow> child_ids_of (pr_segment p) g \<noteq> []"
proof -
  from assms have shape: "group_shape_ok g" by (simp add: group_ok_def)
  show "distinct (map cs_id (cg_children g))" "distinct (map pr_segment (cg_parents g))"
    using shape by (simp_all add: group_shape_ok_def Let_def)
  show "pr_segment p \<notin> cs_id ` set (cg_children g)" if "p \<in> set (cg_parents g)"
    using shape that by (auto simp: group_shape_ok_def Let_def list_all_iff)
  show "child_ids_of (pr_segment p) g \<noteq> []" if "p \<in> set (cg_parents g)"
    using shape that
    by (auto simp: group_shape_ok_def Let_def list_all_iff list_ex_iff child_ids_of_def filter_empty_conv
        split: option.splits)
qed

text \<open>
  C19: when a group is applied, every child becomes an active caption, every parent (which was active at the
  revision the group names) becomes a tombstone that lists its children in order, at least one, and no
  other caption changes; without \<open>allow_manual\<close> no parent had a manual speaker.
\<close>

theorem group_replacement_atomic:
  assumes inv: "store_inv st" and ok: "group_ok uc g"
    and ap: "replace_group uc g limit allow_manual st = Inr (GroupApplied, st')"
  shows "list_all (\<lambda>c. map_of (st_segments st') (cs_id c) = Some c) (cg_children g)
    \<and> list_all (\<lambda>p. \<exists>cur. map_of (st_segments st) (pr_segment p) = Some cur \<and> cs_superseded_by cur = []
          \<and> cs_revision cur = pr_revision p \<and> (\<not> allow_manual \<longrightarrow> \<not> cs_speaker_manual cur)
          \<and> map_of (st_segments st') (pr_segment p)
              = Some (cur\<lparr>cs_superseded_by := child_ids_of (pr_segment p) g\<rparr>)
          \<and> child_ids_of (pr_segment p) g \<noteq> []) (cg_parents g)
    \<and> (\<forall>i. i \<notin> cs_id ` set (cg_children g) \<longrightarrow> i \<notin> pr_segment ` set (cg_parents g) \<longrightarrow>
          map_of (st_segments st') i = map_of (st_segments st) i)"
proof -
  have ix: "index_inv st" using inv by (simp add: store_inv_def)
  from applied_commit [OF ix ap] obtain ts where val: "validate_group g limit False st = Inr True"
    and manual: "\<not> allow_manual \<longrightarrow> (\<forall>p \<in> set (cg_parents g). \<forall>cur.
        map_of (st_segments st) (pr_segment p) = Some cur \<longrightarrow> \<not> cs_speaker_manual cur)"
    and ts: "parent_tombstones uc g st (cg_parents g) = Inr ts"
    and segs: "st_segments st' = put_plain (cg_children g @ ts) (st_segments st)" by blast
  note stones = tombstones_listed [OF ix ts]
  have dist: "distinct (map cs_id (cg_children g @ ts))"
  proof -
    have "map cs_id (cg_children g @ ts) = map cs_id (cg_children g) @ map pr_segment (cg_parents g)"
      by (simp add: stones(1))
    moreover have "distinct (map cs_id (cg_children g) @ map pr_segment (cg_parents g))"
      using group_ok_shape(1-3) [OF ok] by auto (metis image_eqI)
    ultimately show ?thesis by (simp only:)
  qed
  have at: "map_of (st_segments st') (cs_id s) = Some s" if "s \<in> set (cg_children g @ ts)" for s
    unfolding segs by (rule put_plain_member [OF dist that])
  have parent: "\<exists>cur. map_of (st_segments st) (pr_segment p) = Some cur \<and> cs_superseded_by cur = []
          \<and> cs_revision cur = pr_revision p \<and> (\<not> allow_manual \<longrightarrow> \<not> cs_speaker_manual cur)
          \<and> map_of (st_segments st') (pr_segment p) = Some (cur\<lparr>cs_superseded_by := child_ids_of (pr_segment p) g\<rparr>)
          \<and> child_ids_of (pr_segment p) g \<noteq> []" if p: "p \<in> set (cg_parents g)" for p
  proof -
    from parents_valid_active [OF validate_groupD(2) [OF val] p] obtain cur
      where cur: "map_of (st_segments st) (pr_segment p) = Some cur" "cs_superseded_by cur = []"
        "cs_revision cur = pr_revision p" by blast
    have "cur\<lparr>cs_superseded_by := child_ids_of (pr_segment p) g\<rparr> \<in> set ts" by (rule stones(2) [OF p cur(1)])
    from at [of "cur\<lparr>cs_superseded_by := child_ids_of (pr_segment p) g\<rparr>"] this index_seg [OF ix cur(1)]
    have "map_of (st_segments st') (pr_segment p) = Some (cur\<lparr>cs_superseded_by := child_ids_of (pr_segment p) g\<rparr>)"
      by simp
    with cur manual p group_ok_shape(4) [OF ok p] show ?thesis by blast
  qed
  have "map_of (st_segments st') i = map_of (st_segments st) i"
    if "i \<notin> cs_id ` set (cg_children g)" "i \<notin> pr_segment ` set (cg_parents g)" for i
  proof -
    have "i \<notin> cs_id ` set (cg_children g @ ts)"
      using that arg_cong [OF stones(1), of set] by auto
    then show ?thesis unfolding segs by (rule put_plain_other)
  qed
  with at parent show ?thesis by (simp add: list_all_iff)
qed

definition sample_child :: "string \<Rightarrow> string \<Rightarrow> string \<Rightarrow> int \<Rightarrow> int \<Rightarrow> caption_segment" where
  "sample_child i lane track start stop = (sample_caption i start stop)\<lparr>cs_track := lit track,
     cs_group := Some (lit ''g''), cs_lane := Some (lit lane), cs_parents := [lit ''a''],
     cs_delivery := OverlapCorrection\<rparr>"

definition sample_group :: caption_group where
  "sample_group = \<lparr>cg_id = lit ''g'', cg_revision = 1, cg_track = lit ''mix'', cg_epoch = lit ''e'', cg_start = 0,
     cg_end = 10, cg_parents = [\<lparr>pr_segment = lit ''a'', pr_revision = 1\<rparr>],
     cg_children = [sample_child ''b'' ''l1'' ''t1'' 0 6, sample_child ''c'' ''l2'' ''t2'' 4 10]\<rparr>"

lemma sample_group_ok: "group_ok ascii_db sample_group"
  by code_simp

lemma sample_group_applies:
  "map_sum id fst (replace_group ascii_db sample_group 100 False (store_run ascii_db sample_before sample_store))
     = Inr GroupApplied"
  by code_simp

lemma group_replacement_atomic_witness:
  "\<exists>st'. replace_group ascii_db sample_group 100 False (store_run ascii_db sample_before sample_store)
         = Inr (GroupApplied, st')
     \<and> map_of (st_segments st') (lit ''b'') = Some (sample_child ''b'' ''l1'' ''t1'' 0 6)"
proof -
  let ?st = "store_run ascii_db sample_before sample_store"
  from sample_group_applies obtain st'
    where run: "replace_group ascii_db sample_group 100 False ?st = Inr (GroupApplied, st')"
    by (cases "replace_group ascii_db sample_group 100 False ?st") auto
  have inv: "store_inv ?st"
    using store_run_good [OF new_store_inv [OF sample_new]] by (simp add: good_change_def)
  have b: "sample_child ''b'' ''l1'' ''t1'' 0 6 \<in> set (cg_children sample_group)"
    "cs_id (sample_child ''b'' ''l1'' ''t1'' 0 6) = lit ''b''"
    by (simp_all add: sample_group_def sample_child_def sample_caption_def)
  have "\<forall>c \<in> set (cg_children sample_group). map_of (st_segments st') (cs_id c) = Some c"
    using conjunct1 [OF group_replacement_atomic [OF inv sample_group_ok run]] by (simp only: list_all_iff)
  from bspec [OF this b(1)] have "map_of (st_segments st') (lit ''b'') = Some (sample_child ''b'' ''l1'' ''t1'' 0 6)"
    by (simp only: b(2))
  with run show ?thesis by blast
qed

subsection \<open>Snapshots\<close>

lemma restore_held_facts:
  "restore_held segments gs groups children = Inr (groups', children') \<Longrightarrow>
     (\<forall>k g. map_of groups k = Some g \<longrightarrow> map_of groups' k = Some g)
   \<and> (\<forall>i k. map_of children i = Some k \<longrightarrow> map_of children' i = Some k)
   \<and> (\<forall>g \<in> set gs. map_of groups' (cg_id g) = Some g
        \<and> (\<forall>c \<in> set (cg_children g). map_of children' (cs_id c) = Some (cg_id g)))
   \<and> (\<forall>i k. map_of children' i = Some k \<longrightarrow>
        map_of children i = Some k \<or> (\<exists>g \<in> set gs. i \<in> cs_id ` set (cg_children g)))"
proof (induction gs arbitrary: groups children)
  case (Cons g gs)
  let ?groups = "al_put (cg_id g) g groups"
  let ?children = "fold (\<lambda>c m. al_put (cs_id c) (cg_id g) m) (cg_children g) children"
  from Cons.prems have new: "map_of groups (cg_id g) = None"
    and fresh: "\<forall>c \<in> set (cg_children g). map_of children (cs_id c) = None"
    and rest: "restore_held segments gs ?groups ?children = Inr (groups', children')"
    by (auto simp: list_ex_iff split: if_splits)
  note ih = Cons.IH [OF rest]
  have 1: "map_of groups' k = Some h" if "map_of groups k = Some h" for k h
    using conjunct1 [OF ih] that new by (metis map_of_al_put fun_upd_other option.distinct(1))
  have 2: "map_of children' i = Some k" if "map_of children i = Some k" for i k
  proof -
    have "i \<notin> cs_id ` set (cg_children g)" using fresh that by force
    then show ?thesis using ih that by (simp add: held_index_fold)
  qed
  have 3: "map_of groups' (cg_id g) = Some g"
    "\<forall>c \<in> set (cg_children g). map_of children' (cs_id c) = Some (cg_id g)"
    using ih by (auto simp: held_index_fold)
  have 4: "map_of children i = Some k \<or> (\<exists>h \<in> set (g # gs). i \<in> cs_id ` set (cg_children h))"
    if "map_of children' i = Some k" for i k
    using ih that by (fastforce simp: held_index_fold split: if_splits)
  show ?case using 1 2 3 4 ih by auto
qed simp

definition snapshot_held :: "caption_store \<Rightarrow> caption_group list" where
  "snapshot_held st = List.map_filter (\<lambda>gid. map_of (st_groups st) gid) (sort (st_held st))"

lemma in_set_map_filter: "y \<in> set (List.map_filter f xs) \<longleftrightarrow> (\<exists>x \<in> set xs. f x = Some y)"
  by (induction xs) (auto simp: map_filter_simps split: option.splits)

lemma map_filter_cong: "(\<And>x. x \<in> set xs \<Longrightarrow> f x = g x) \<Longrightarrow> List.map_filter f xs = List.map_filter g xs"
  by (induction xs) (auto simp: map_filter_simps split: option.splits)

lemma snapshot_held_ids:
  assumes "index_inv st"
  shows "map cg_id (snapshot_held st) = sort (st_held st)"
    and "g \<in> set (snapshot_held st) \<longleftrightarrow> cg_id g \<in> set (st_held st) \<and> map_of (st_groups st) (cg_id g) = Some g"
proof -
  have "map cg_id (List.map_filter (\<lambda>gid. map_of (st_groups st) gid) ks) = ks"
    if "set ks \<subseteq> set (st_held st)" for ks
    using that
  proof (induction ks)
    case (Cons k ks)
    then have "k \<in> set (st_held st)" by simp
    from index_groups [OF assms this] obtain g where g: "map_of (st_groups st) k = Some g" by blast
    with Cons.IH Cons.prems index_gid [OF assms g] show ?case by (simp add: map_filter_simps)
  qed (simp add: map_filter_simps)
  then show "map cg_id (snapshot_held st) = sort (st_held st)" by (simp add: snapshot_held_def)
  show "g \<in> set (snapshot_held st) \<longleftrightarrow> cg_id g \<in> set (st_held st) \<and> map_of (st_groups st) (cg_id g) = Some g"
    unfolding snapshot_held_def in_set_map_filter using index_gid [OF assms, of _ g] by (metis set_sort)
qed

lemma distinct_map_sort_key: "distinct (map g (sort_key f xs)) = distinct (map g xs)"
  by (simp add: distinct_map)

lemma sort_key_twice: "sort_key f (sort_key f xs) = sort_key f (xs :: 'a list)"
  by (simp add: sort_key_id_if_sorted)

text \<open>
  A store restored from its snapshot is the store: whenever \<open>from_snapshot\<close> accepts the snapshot,
  the new store has the same snapshot, looks every caption up as before (held alternatives included) and
  holds the same groups.
\<close>

theorem snapshot_restores:
  assumes inv: "store_inv st" and re: "from_snapshot uc (take_snapshot st) = Inr st'"
  shows "take_snapshot st' = take_snapshot st \<and> (\<forall>i. lookup_segment i st' = lookup_segment i st)
    \<and> set (st_held st') = set (st_held st)"
proof -
  have ix: "index_inv st" using inv by (simp add: store_inv_def)
  let ?segs = "map (\<lambda>s. (cs_id s, s)) (sort_key segment_order (map snd (st_segments st)))"
  have held: "sn_held (take_snapshot st) = snapshot_held st" by (simp add: take_snapshot_def snapshot_held_def)
  from re obtain st0 groups children
    where new: "new_store uc (st_session st) (st_generation st) = Inr st0"
      and rh: "restore_held ?segs (snapshot_held st) [] [] = Inr (groups, children)"
      and st': "st' = st0\<lparr>st_revision := st_revision st, st_segments := ?segs, st_aliases := sort (st_aliases st),
          st_changes := st_changes st, st_groups := groups, st_held := map cg_id (snapshot_held st),
          st_held_children := children\<rparr>"
    by (auto simp: from_snapshot_def take_snapshot_def snapshot_held_def res_bind_eq_Inr Let_def split: if_splits)
  have st0: "st_session st0 = st_session st" "st_generation st0 = st_generation st"
    using new by (auto simp: new_store_def split: if_splits)
  note facts = restore_held_facts [OF rh, simplified]
  have ids: "map cg_id (snapshot_held st) = sort (st_held st)" using snapshot_held_ids(1) [OF ix] .
  have segs: "map_of ?segs = map_of (st_segments st)"
  proof -
    have same: "s \<in> set (st_segments st) \<Longrightarrow> cs_id (snd s) = fst s" for s
      using index_seg [OF ix] index_keys [OF ix] by (metis map_of_eq_Some_iff prod.collapse)
    then have eq: "set ?segs = set (st_segments st)" by (force simp: image_iff)
    have "map cs_id (map snd (st_segments st)) = map fst (st_segments st)" by (simp add: same)
    then have "distinct (map cs_id (map snd (st_segments st)))" using index_keys [OF ix] by (simp only:)
    then have "distinct (map fst ?segs)"
      using distinct_map_sort_key [of cs_id segment_order "map snd (st_segments st)"] by (simp add: comp_def)
    from map_of_inject_set [OF this index_keys [OF ix]] eq show ?thesis by simp
  qed
  have groups: "map_of groups gid = map_of (st_groups st) gid" if "gid \<in> set (st_held st)" for gid
  proof -
    from index_groups [OF ix that] obtain g where g: "map_of (st_groups st) gid = Some g" by blast
    with index_gid [OF ix g] that have "g \<in> set (snapshot_held st)" by (simp add: snapshot_held_ids(2) [OF ix])
    with facts g index_gid [OF ix g] show ?thesis by auto
  qed
  have children: "map_of children i = map_of (st_held_children st) i" for i
  proof (cases "map_of (st_held_children st) i")
    case None
    have "map_of children i \<noteq> Some k" for k
    proof
      assume "map_of children i = Some k"
      with facts obtain g where g: "g \<in> set (snapshot_held st)" "i \<in> cs_id ` set (cg_children g)" by blast
      from g(1) have h: "cg_id g \<in> set (st_held st)" "map_of (st_groups st) (cg_id g) = Some g"
        by (simp_all add: snapshot_held_ids(2) [OF ix])
      from index_groups [OF ix h(1)] h(2) g(2) None show False by auto
    qed
    with None show ?thesis by (cases "map_of children i") auto
  next
    case (Some k)
    from index_held [OF ix Some] obtain g where k: "k \<in> set (st_held st)" "map_of (st_groups st) k = Some g"
      and i: "i \<in> cs_id ` set (cg_children g)" by blast
    have id: "cg_id g = k" by (rule index_gid [OF ix k(2)])
    with k have "g \<in> set (snapshot_held st)" by (simp add: snapshot_held_ids(2) [OF ix])
    with facts i id have "map_of children i = Some k" by auto
    with Some show ?thesis by simp
  qed
  have "lookup_segment i st' = lookup_segment i st" for i
    using index_held [OF ix, of i] groups by (auto simp: lookup_segment_def st' segs children split: option.split)
  moreover have "take_snapshot st' = take_snapshot st"
  proof -
    have "List.map_filter (\<lambda>gid. map_of groups gid) (sort (st_held st)) = snapshot_held st"
      unfolding snapshot_held_def by (rule map_filter_cong) (simp add: groups)
    then show ?thesis
      by (simp add: take_snapshot_def st' st0 ids sort_key_twice comp_def snapshot_held_def [symmetric])
  qed
  moreover have "set (st_held st') = set (st_held st)" by (simp add: st' ids flip: set_map)
  ultimately show ?thesis by blast
qed

definition sample_held :: "store_op list" where
  "sample_held = [UpsertSource (sample_caption ''a'' 0 10), UpdateSpeaker (lit ''a'') (Some (lit ''p'')) 1 None True,
     ReplaceGroup sample_group 100 False, SetSpeakerAlias (lit ''p'') (lit ''Ann'')]"

lemma sample_held_facts:
  "group_status (lit ''g'') (store_run ascii_db sample_held sample_store) = Some HeldGroup
   \<and> \<not> isl (from_snapshot ascii_db (take_snapshot (store_run ascii_db sample_held sample_store)))"
  by code_simp

lemma snapshot_restores_witness:
  "\<exists>st'. from_snapshot ascii_db (take_snapshot (store_run ascii_db sample_held sample_store)) = Inr st'
     \<and> lookup_segment (lit ''b'') st' = lookup_segment (lit ''b'') (store_run ascii_db sample_held sample_store)"
proof -
  let ?st = "store_run ascii_db sample_held sample_store"
  obtain st' where run: "from_snapshot ascii_db (take_snapshot ?st) = Inr st'"
    using conjunct2 [OF sample_held_facts] by (cases "from_snapshot ascii_db (take_snapshot ?st)") simp_all
  have inv: "store_inv ?st"
    using store_run_good [OF new_store_inv [OF sample_new]] by (simp add: good_change_def)
  from snapshot_restores [OF inv run] run show ?thesis by blast
qed

end
