(* ===== verification/EngineText.thy ===== *)
theory EngineText
  imports EngineBase Json
begin

text \<open>
  String helpers of the engine modules: \<open>str.split\<close> at one character, \<open>str.replace\<close> of one character,
  prefix and suffix tests, and \<open>json.dumps\<close> with its default separators.
\<close>

subsection \<open>Splitting at a character\<close>

fun split_char :: "nat \<Rightarrow> ustring \<Rightarrow> ustring list" where
  "split_char d [] = [[]]"
| "split_char d (c # s) =
     (if c = d then [] # split_char d s
      else (case split_char d s of [] \<Rightarrow> [[c]] | p # ps \<Rightarrow> (c # p) # ps))"

lemma split_char_nonempty [simp]: "split_char d s \<noteq> []"
  by (induction s) (auto split: list.splits)

lemma split_char_free: "p \<in> set (split_char d s) \<Longrightarrow> d \<notin> set p"
proof (induction s arbitrary: p)
  case (Cons c s)
  then show ?case by (cases "split_char d s") (auto split: if_splits)
qed simp

lemma py_join_Cons: "py_join sep (x # xs) = (if xs = [] then x else x @ sep @ py_join sep xs)"
  by (cases xs) (simp_all add: py_join_def)

lemma py_join_Nil [simp]: "py_join sep [] = []"
  by (simp add: py_join_def)

lemma join_split_char: "py_join [d] (split_char d s) = s"
proof (induction s)
  case (Cons c s)
  then show ?case
    by (cases "split_char d s") (auto simp: py_join_Cons split: if_splits)
qed (simp add: py_join_Cons)

lemma split_char_id: "d \<notin> set s \<Longrightarrow> split_char d s = [s]"
  by (induction s) auto

lemma split_char_append: "d \<notin> set p \<Longrightarrow> split_char d (p @ d # s) = p # split_char d s"
  by (induction p) auto

lemma split_join_char: "ps \<noteq> [] \<Longrightarrow> \<forall>p \<in> set ps. d \<notin> set p \<Longrightarrow> split_char d (py_join [d] ps) = ps"
proof (induction ps)
  case (Cons p ps)
  then show ?case by (cases "ps = []") (simp_all add: py_join_Cons split_char_append split_char_id)
qed simp

subsection \<open>Replacing, prefixes and suffixes\<close>

definition replace_char :: "nat \<Rightarrow> nat \<Rightarrow> ustring \<Rightarrow> ustring" where
  "replace_char a b s = map (\<lambda>c. if c = a then b else c) s"

definition starts_with :: "ustring \<Rightarrow> ustring \<Rightarrow> bool" where
  "starts_with p s \<longleftrightarrow> take (length p) s = p"

definition has_suffix :: "ustring \<Rightarrow> ustring \<Rightarrow> bool" where
  "has_suffix p s \<longleftrightarrow> length p \<le> length s \<and> drop (length s - length p) s = p"

lemma has_suffix_iff: "has_suffix p s \<longleftrightarrow> (\<exists>r. s = r @ p)"
proof
  assume "has_suffix p s"
  then show "\<exists>r. s = r @ p" unfolding has_suffix_def by (metis append_take_drop_id)
qed (auto simp: has_suffix_def)

subsection \<open>\<open>json.dumps\<close> with the default separators\<close>

fun dump_spaced :: "(rat \<Rightarrow> ustring) \<Rightarrow> json \<Rightarrow> ustring" where
  "dump_spaced num JNull = lit ''null''"
| "dump_spaced num (JBool b) = (if b then lit ''true'' else lit ''false'')"
| "dump_spaced num (JNum q) = num q"
| "dump_spaced num (JFloat f) = float_text num f"
| "dump_spaced num (JStr s) = dump_string s"
| "dump_spaced num (JList vs) = 91 # py_join [44, 32] (map (dump_spaced num) vs) @ [93]"
| "dump_spaced num (JObj ps) =
     123 # py_join [44, 32] (map (\<lambda>(k, v). dump_string k @ [58, 32] @ dump_spaced num v) ps) @ [125]"

end
