(* ===== verification/SemanticUnits.thy ===== *)
theory SemanticUnits
  imports TextRequests OpenAIBackend
begin

text \<open>
  Model of the values of \<^verbatim>\<open>semantic_translation.py\<close>: the limits, the pending units, and the validation
  of a provider's answer. The lexical part of \<open>json.loads\<close> is the argument \<open>loads\<close>: it gives the value with
  its objects as lists of pairs, duplicates included, or nothing for malformed text and non-finite constants.
\<close>

subsection \<open>Limits and units\<close>

record semantic_config =
  sc_interval :: rat
  sc_hold :: rat
  sc_timeout :: rat
  sc_age :: rat
  sc_units :: nat
  sc_source :: nat
  sc_response :: nat
  sc_result :: nat

definition semantic_config_ok :: "semantic_config \<Rightarrow> bool" where
  "semantic_config_ok c \<longleftrightarrow>
     list_all (\<lambda>v. 0 < v \<and> v \<le> 120) [sc_interval c, sc_hold c, sc_timeout c, sc_age c]
     \<and> sc_hold c \<le> sc_age c
     \<and> list_all (\<lambda>(v, limit). 1 \<le> v \<and> v \<le> limit)
         [(sc_units c, 64), (sc_source c, 12000), (sc_response c, 65536), (sc_result c, 24000)]"

record pending_unit =
  pu_id :: ustring
  pu_text :: ustring
  pu_language :: ustring
  pu_track :: ustring
  pu_epoch :: ustring
  pu_created :: rat
  pu_lane :: ustring

definition pending_unit_ok :: "unidb \<Rightarrow> pending_unit \<Rightarrow> bool" where
  "pending_unit_ok uc u \<longleftrightarrow>
     list_all (\<lambda>(s, limit). \<not> py_blank uc s \<and> length s \<le> limit \<and> \<not> list_ex is_surrogate s)
       [(pu_id u, 512), (pu_text u, 12000), (pu_language u, 63), (pu_track u, 512), (pu_epoch u, 512),
        (pu_lane u, 512)]"

type_synonym scope_key = "ustring \<times> ustring \<times> ustring \<times> ustring"

definition unit_scope :: "pending_unit \<Rightarrow> scope_key" where
  "unit_scope u = (pu_track u, pu_epoch u, pu_language u, pu_lane u)"

subsection \<open>The answer of the provider\<close>

datatype semantic_decision = WaitDecision | CommitDecision ustring ustring

definition json_keys :: "(ustring \<times> json) list \<Rightarrow> ustring set" where
  "json_keys ps = set (map fst ps)"

definition commit_fields :: "ustring set" where
  "commit_fields = {lit ''action'', lit ''through_id'', lit ''text''}"

definition decide_commit ::
    "unidb \<Rightarrow> ustring list \<Rightarrow> bool \<Rightarrow> nat \<Rightarrow> (ustring \<times> json) list \<Rightarrow> semantic_decision option" where
  "decide_commit uc ids force max_result ps =
     (case (field ''through_id'' ps, field ''text'' ps) of
        (Some (JStr through), Some (JStr result)) \<Rightarrow>
          if through \<notin> set ids \<or> (force \<and> through \<noteq> last ids)
             \<or> py_blank uc result \<or> max_result < length result \<or> list_ex is_surrogate result
          then None else Some (CommitDecision through result)
      | _ \<Rightarrow> None)"

text \<open>\<open>None\<close> is \<open>InvalidSemanticResponse\<close>.\<close>

definition parse_semantic_response ::
    "unidb \<Rightarrow> (ustring \<Rightarrow> json option) \<Rightarrow> ustring \<Rightarrow> ustring list \<Rightarrow> bool \<Rightarrow> nat \<Rightarrow> nat
       \<Rightarrow> semantic_decision option" where
  "parse_semantic_response uc loads text_value ids force max_response max_result =
     (if max_response < length text_value \<or> ids = [] \<or> \<not> distinct ids \<or> list_ex is_surrogate text_value
        then None
      else case loads text_value of
        Some (JObj ps) \<Rightarrow>
          if \<not> unique_json (JObj ps) then None
          else if field ''action'' ps = Some (JStr (lit ''wait''))
            then (if json_keys ps \<noteq> {lit ''action''} \<or> force then None else Some WaitDecision)
          else if field ''action'' ps \<noteq> Some (JStr (lit ''commit'')) \<or> json_keys ps \<noteq> commit_fields then None
          else decide_commit uc ids force max_result ps
      | _ \<Rightarrow> None)"

record chunk =
  ck_text :: "ustring option"
  ck_completed :: bool
  ck_finish :: "ustring option"
  ck_stages :: "(ustring \<times> pyval) list option"

text \<open>How the provider's stream goes on after its chunks: it ends, or it raises.\<close>

datatype provider_end = ProviderDone | ProviderRaised ustring | ProviderCrashed

datatype query_outcome =
    Decided semantic_decision "(ustring \<times> rat) list"
  | BadResponse
  | ProviderFailed ustring
  | OtherFailure
  | QueryTimedOut

definition stage_metrics :: "(ustring \<times> pyval) list option \<Rightarrow> (ustring \<times> rat) list" where
  "stage_metrics stages = (case stages of None \<Rightarrow> [] | Some m \<Rightarrow>
     List.map_filter (\<lambda>k. case map_of m k of Some (PNum (Fin q)) \<Rightarrow> if 0 \<le> q then Some (k, q) else None | _ \<Rightarrow> None)
       [lit ''selection'', lit ''translation''])"

fun collect_chunks ::
    "unidb \<Rightarrow> (ustring \<Rightarrow> json option) \<Rightarrow> ustring list \<Rightarrow> bool \<Rightarrow> nat \<Rightarrow> nat \<Rightarrow> ustring \<Rightarrow> chunk list \<Rightarrow> provider_end
       \<Rightarrow> query_outcome" where
  "collect_chunks uc loads ids force max_response max_result got [] ending =
     (case ending of ProviderDone \<Rightarrow> BadResponse | ProviderRaised c \<Rightarrow> ProviderFailed c
      | ProviderCrashed \<Rightarrow> OtherFailure)"
| "collect_chunks uc loads ids force max_response max_result got (c # cs) ending =
     (case ck_text c of
        None \<Rightarrow> BadResponse
      | Some t \<Rightarrow>
          if max_response < length got + length t then BadResponse
          else if ck_completed c then
            (if ck_finish c \<noteq> Some (lit ''stop'') then BadResponse
             else case parse_semantic_response uc loads (got @ t) ids force max_response max_result of
               None \<Rightarrow> BadResponse | Some d \<Rightarrow> Decided d (stage_metrics (ck_stages c)))
          else collect_chunks uc loads ids force max_response max_result (got @ t) cs ending)"

subsection \<open>What an accepted answer satisfies\<close>

definition decision_ok :: "unidb \<Rightarrow> ustring list \<Rightarrow> bool \<Rightarrow> nat \<Rightarrow> semantic_decision \<Rightarrow> bool" where
  "decision_ok uc ids force max_result d \<longleftrightarrow>
     (case d of
        WaitDecision \<Rightarrow> \<not> force
      | CommitDecision through result \<Rightarrow> through \<in> set ids \<and> (force \<longrightarrow> through = last ids)
          \<and> \<not> py_blank uc result \<and> length result \<le> max_result \<and> \<not> list_ex is_surrogate result)"

lemma parse_decision_ok:
  assumes "parse_semantic_response uc loads s ids force max_response max_result = Some d"
  shows "decision_ok uc ids force max_result d"
  using assms
  by (auto simp: parse_semantic_response_def decide_commit_def decision_ok_def
      split: if_splits option.splits json.splits)

lemma collect_decision_ok:
  "collect_chunks uc loads ids force max_response max_result got cs ending = Decided d stages \<Longrightarrow>
     decision_ok uc ids force max_result d"
  by (induction cs arbitrary: got)
    (auto split: provider_end.splits option.splits if_splits dest: parse_decision_ok)

end
