(* ===== verification/SemanticCoordinator.thy ===== *)
theory SemanticCoordinator
  imports SemanticUnits
begin

text \<open>
  Model of \<open>SemanticTranslationCoordinator\<close> in \<^verbatim>\<open>semantic_translation.py\<close>. A definition is the code between
  two awaits. \<open>co_worker\<close> says where the worker task is suspended: between two turns of \<open>_loop\<close>, in the
  provider request of a query, before or in a callback. The clock is read once per step, \<open>now\<close>; \<open>None\<close> for
  \<open>co_last_started\<close> is minus infinity. A callback that is entered is an event of the step's answer.
\<close>

subsection \<open>State\<close>

record query =
  q_units :: "pending_unit list"
  q_force :: bool
  q_started :: rat
  q_deadline :: rat
  q_generation :: nat
  q_request :: semantic_request

record unit_failure =
  uf_units :: "pending_unit list"
  uf_reason :: ustring
  uf_request :: ustring
  uf_force :: bool
  uf_wait_ms :: rat
  uf_model_ms :: rat
  uf_total_ms :: rat

record unit_commit =
  uc_units :: "pending_unit list"
  uc_text :: ustring
  uc_request :: ustring
  uc_force :: bool
  uc_wait_ms :: rat
  uc_model_ms :: rat
  uc_total_ms :: rat
  uc_stages :: "(ustring \<times> rat) list"

datatype worker =
    NoWorker
  | Between
  | Querying query
  | Failing unit_failure
  | InFailSink
  | Publishing unit_commit nat
  | InSink unit_commit

record query_counts =
  n_requests :: nat
  n_waits :: nat
  n_commits :: nat
  n_committed_units :: nat
  n_failures :: nat
  n_retired_units :: nat
  n_timeouts :: nat
  n_invalid :: nat
  n_stale :: nat

record coordinator =
  co_config :: semantic_config
  co_target :: ustring
  co_pending :: "pending_unit list"
  co_boundaries :: "ustring set"
  co_context :: "ustring list"
  co_context_scope :: "scope_key option"
  co_last_started :: "rat option"
  co_last_attempt :: "ustring list"
  co_generation :: nat
  co_worker :: worker
  co_physical :: bool
  co_active :: "pending_unit list"
  co_closed :: bool
  co_closing :: bool
  co_counts :: query_counts

definition new_coordinator :: "semantic_config \<Rightarrow> ustring \<Rightarrow> coordinator" where
  "new_coordinator cfg target =
     \<lparr>co_config = cfg, co_target = target, co_pending = [], co_boundaries = {}, co_context = [],
      co_context_scope = None, co_last_started = None, co_last_attempt = [], co_generation = 0,
      co_worker = NoWorker, co_physical = False, co_active = [], co_closed = False, co_closing = False,
      co_counts = \<lparr>n_requests = 0, n_waits = 0, n_commits = 0, n_committed_units = 0, n_failures = 0,
        n_retired_units = 0, n_timeouts = 0, n_invalid = 0, n_stale = 0\<rparr>\<rparr>"

datatype unit_event = FailureEvent unit_failure | CommitEvent unit_commit

subsection \<open>Views\<close>

definition unsettled_units :: "coordinator \<Rightarrow> (ustring \<times> pending_unit) list" where
  "unsettled_units co = fold (\<lambda>u m. al_put (pu_id u) u m) (co_active co @ co_pending co) []"

definition coordinator_idle :: "coordinator \<Rightarrow> bool" where
  "coordinator_idle co \<longleftrightarrow> unsettled_units co = [] \<and> co_worker co = NoWorker \<and> \<not> co_physical co"

text \<open>The head: the units of one scope up to a boundary, and whether it is sealed.\<close>

fun head_units :: "scope_key \<Rightarrow> ustring set \<Rightarrow> pending_unit list \<Rightarrow> pending_unit list \<times> bool" where
  "head_units scope bs [] = ([], False)"
| "head_units scope bs (u # us) =
     (if unit_scope u \<noteq> scope then ([], True)
      else if pu_id u \<in> bs then ([u], True)
      else (case head_units scope bs us of (vs, forced) \<Rightarrow> (u # vs, forced)))"

definition head_of :: "coordinator \<Rightarrow> pending_unit list \<times> bool" where
  "head_of co = (case co_pending co of [] \<Rightarrow> ([], False)
     | u # us \<Rightarrow> head_units (unit_scope u) (co_boundaries co) (u # us))"

subsection \<open>Shared steps\<close>

definition ensure_worker :: "coordinator \<Rightarrow> coordinator" where
  "ensure_worker co = (if co_worker co = NoWorker then co\<lparr>co_worker := Between\<rparr> else co)"

definition remove_prefix :: "nat \<Rightarrow> coordinator \<Rightarrow> pending_unit list \<times> coordinator" where
  "remove_prefix n co =
     (let removed = take n (co_pending co)
      in (removed, co\<lparr>co_pending := drop n (co_pending co),
                      co_boundaries := co_boundaries co - pu_id ` set removed\<rparr>))"

definition at_least0 :: "rat \<Rightarrow> rat" where "at_least0 q = max 0 q"

definition make_failure ::
    "pending_unit list \<Rightarrow> ustring \<Rightarrow> ustring \<Rightarrow> bool \<Rightarrow> rat option \<Rightarrow> rat \<Rightarrow> unit_failure" where
  "make_failure units reason request force started now =
     (let s = (case started of None \<Rightarrow> now | Some t \<Rightarrow> t)
      in \<lparr>uf_units = units, uf_reason = reason, uf_request = request, uf_force = force,
          uf_wait_ms = at_least0 (s - pu_created (hd units)) * 1000,
          uf_model_ms = at_least0 (now - s) * 1000,
          uf_total_ms = at_least0 (now - pu_created (hd units)) * 1000\<rparr>)"

definition count_failure :: "pending_unit list \<Rightarrow> coordinator \<Rightarrow> coordinator" where
  "count_failure units co =
     co\<lparr>co_counts := (co_counts co)\<lparr>n_failures := n_failures (co_counts co) + 1,
                                   n_retired_units := n_retired_units (co_counts co) + length units\<rparr>\<rparr>"

text \<open>\<open>_failure\<close> in the task of a caller: the failure is counted and the callback is called.\<close>

definition fail_units ::
    "pending_unit list \<Rightarrow> ustring \<Rightarrow> rat \<Rightarrow> coordinator \<Rightarrow> unit_event list \<times> coordinator" where
  "fail_units units reason now co =
     (if units = [] then ([], co)
      else ([FailureEvent (make_failure units reason [] False None now)], count_failure units co))"

subsection \<open>\<open>append\<close> and \<open>request_flush\<close>\<close>

definition append_refused :: "pending_unit \<Rightarrow> rat \<Rightarrow> coordinator \<Rightarrow> py_error option" where
  "append_refused u now co =
     (if co_closed co \<or> co_closing co then Some (RuntimeError ''Semantic coordinator is closed'')
      else if now + 1 / 10 < pu_created u
        then Some (ValueError ''Semantic source must use this process's current monotonic clock'')
      else if pu_id u \<in> pu_id ` set (co_pending co)
        then Some (ValueError ''Duplicate pending semantic unit ID'')
      else None)"

definition append_unit ::
    "pending_unit \<Rightarrow> bool \<Rightarrow> rat \<Rightarrow> coordinator \<Rightarrow> (unit_event list \<times> coordinator) res" where
  "append_unit u boundary now co =
     (case append_refused u now co of
        Some e \<Rightarrow> Inl e
      | None \<Rightarrow>
          if sc_source (co_config co) < length (pu_text u) then Inr (fail_units [u] (lit ''source_too_large'') now co)
          else if sc_units (co_config co) \<le> length (co_pending co)
             \<or> sc_source (co_config co) < total_length (map pu_text (co_pending co)) + length (pu_text u)
            then Inr (fail_units [u] (lit ''buffer_capacity'') now
                   (if co_pending co = [] then co
                    else ensure_worker (co\<lparr>co_boundaries := insert (pu_id (last (co_pending co))) (co_boundaries co)\<rparr>)))
          else Inr ([], ensure_worker (co\<lparr>co_pending := co_pending co @ [u],
                   co_boundaries := (if boundary then insert (pu_id u) (co_boundaries co) else co_boundaries co)\<rparr>)))"

definition request_flush :: "coordinator \<Rightarrow> bool \<times> coordinator" where
  "request_flush co =
     (if co_closed co \<or> co_pending co = [] then (False, co)
      else (True, ensure_worker (co\<lparr>co_boundaries := insert (pu_id (last (co_pending co))) (co_boundaries co)\<rparr>)))"

subsection \<open>Starting a query\<close>

fun drop_context :: "ustring list \<Rightarrow> ustring list" where
  "drop_context [] = []"
| "drop_context (c # cs) = (if 12000 < total_length (c # cs) then drop_context cs else c # cs)"

text \<open>\<open>external\<close> is the answer of the caller's \<open>context_provider\<close>, when there is one.\<close>

definition query_context :: "unidb \<Rightarrow> ustring list option \<Rightarrow> pending_unit \<Rightarrow> coordinator \<Rightarrow> ustring list res" where
  "query_context uc external u co =
     (let own = (if co_context_scope co = Some (unit_scope u) then keep_last 2 (co_context co) else [])
      in case external of
           None \<Rightarrow> Inr (drop_context own)
         | Some ex \<Rightarrow>
             if 2 < length ex \<or> list_ex (py_blank uc) ex
               then Inl (ValueError ''Semantic external context requires up to two immutable source spans'')
             else Inr (drop_context (own @ ex)))"

text \<open>The budget is the exact difference; in floats it can exceed the limit by a rounding error.\<close>

definition build_request ::
    "unidb \<Rightarrow> ustring \<Rightarrow> pending_unit list \<Rightarrow> bool \<Rightarrow> ustring list \<Rightarrow> rat \<Rightarrow> rat \<Rightarrow> coordinator \<Rightarrow> semantic_request res" where
  "build_request uc request_id units forced context started deadline co =
     (let r = \<lparr>sr_id = request_id, sr_units = map (\<lambda>u. \<lparr>su_id = pu_id u, su_text = pu_text u\<rparr>) units,
               sr_source = pu_language (hd units), sr_target = co_target co, sr_context = context, sr_force = forced,
               sr_budget_ms = Fin (max (1 / 1000) ((deadline - started) * 1000)), sr_deadline = Some (Fin deadline)\<rparr>
      in if list_all (semantic_unit_ok uc) (sr_units r) \<and> semantic_request_ok uc r then Inr r
         else Inl (ValueError ''Invalid semantic request''))"

definition query_deadline :: "pending_unit list \<Rightarrow> rat \<Rightarrow> coordinator \<Rightarrow> rat" where
  "query_deadline units started co =
     min (started + sc_timeout (co_config co)) (pu_created (hd units) + sc_age (co_config co))"

text \<open>\<open>_query_active\<close> up to its wait for the provider.\<close>

definition begin_query ::
    "unidb \<Rightarrow> ustring \<Rightarrow> ustring list option \<Rightarrow> pending_unit list \<Rightarrow> bool \<Rightarrow> rat \<Rightarrow> coordinator \<Rightarrow> coordinator res" where
  "begin_query uc request_id external units forced now co =
     res_bind (query_context uc external (hd units) co) (\<lambda>context.
     res_bind (build_request uc request_id units forced context now (query_deadline units now co) co) (\<lambda>r.
       Inr (co\<lparr>co_active := units, co_last_started := Some now, co_last_attempt := map pu_id units,
               co_physical := True,
               co_counts := (co_counts co)\<lparr>n_requests := n_requests (co_counts co) + 1\<rparr>,
               co_worker := Querying \<lparr>q_units = units, q_force = forced, q_started = now,
                 q_deadline = query_deadline units now co, q_generation = co_generation co, q_request = r\<rparr>\<rparr>)))"

subsection \<open>One turn of \<open>_loop\<close>\<close>

datatype turn = Ended | Retires | Queries | CannotQuery py_error | Sleeps rat

text \<open>The time from which the head may be asked for.\<close>

definition query_due :: "pending_unit list \<Rightarrow> bool \<Rightarrow> coordinator \<Rightarrow> rat" where
  "query_due units forced co =
     (let own = pu_created (hd units) + (if forced then 0 else sc_interval (co_config co))
      in case co_last_started co of None \<Rightarrow> own | Some t \<Rightarrow> max (t + sc_interval (co_config co)) own)"

definition least :: "rat list \<Rightarrow> rat" where
  "least xs = fold min (tl xs) (hd xs)"

definition sleep_delay :: "pending_unit list \<Rightarrow> bool \<Rightarrow> bool \<Rightarrow> rat \<Rightarrow> rat \<Rightarrow> coordinator \<Rightarrow> rat" where
  "sleep_delay units forced askable due now co =
     max (1 / 1000) (least ([pu_created (hd units) + sc_age (co_config co)]
        @ (if forced then [] else [pu_created (hd units) + sc_hold (co_config co)])
        @ (if askable \<and> now < due then [due] else [])) - now)"

definition loop_turn ::
    "unidb \<Rightarrow> ustring \<Rightarrow> ustring list option \<Rightarrow> rat \<Rightarrow> coordinator \<Rightarrow> turn \<times> coordinator" where
  "loop_turn uc request_id external now co =
     (if co_pending co = [] \<or> co_closed co then (Ended, co\<lparr>co_worker := NoWorker\<rparr>)
      else
        let (units, sealed) = head_of co; oldest = pu_created (hd units)
        in if oldest + sc_age (co_config co) \<le> now
           then (case remove_prefix (length units) co of (consumed, co1) \<Rightarrow>
                  (Retires, count_failure consumed (co1\<lparr>co_active := consumed,
                     co_worker := Failing (make_failure consumed (lit ''source_deadline'') [] True None now)\<rparr>)))
           else
             let forced = sealed \<or> oldest + sc_hold (co_config co) \<le> now \<or> co_closing co;
                 askable = \<not> co_physical co \<and> (map pu_id units \<noteq> co_last_attempt co \<or> forced);
                 due = query_due units forced co
             in if askable \<and> due \<le> now
                then (case begin_query uc request_id external units forced now co of
                        Inl e \<Rightarrow> (CannotQuery e, co\<lparr>co_worker := NoWorker, co_active := []\<rparr>)
                      | Inr co1 \<Rightarrow> (Queries, co1))
                else (Sleeps (sleep_delay units forced askable due now co), co))"

subsection \<open>The end of a query\<close>

definition bump_counts :: "(query_counts \<Rightarrow> query_counts) \<Rightarrow> coordinator \<Rightarrow> coordinator" where
  "bump_counts f co = co\<lparr>co_counts := f (co_counts co)\<rparr>"

definition known_categories :: "ustring list" where
  "known_categories = map lit [''unsupported_language'', ''source_limit'', ''invalid_source'', ''unsupported_profile'']"

text \<open>The retirement reason of an outcome and the counter it bumps; a decision has none.\<close>

fun outcome_reason :: "query_outcome \<Rightarrow> ustring option" where
  "outcome_reason (Decided d m) = None"
| "outcome_reason BadResponse = Some (lit ''invalid_model_response'')"
| "outcome_reason QueryTimedOut = Some (lit ''model_timeout'')"
| "outcome_reason OtherFailure = Some (lit ''provider_error'')"
| "outcome_reason (ProviderFailed c) =
     Some (if c = lit ''timeout'' then lit ''model_timeout''
           else if c \<in> set (map lit [''invalid_output'', ''incomplete'']) then lit ''invalid_model_response''
           else if c \<in> set known_categories then c
           else lit ''provider_error'')"

definition count_outcome :: "query_outcome \<Rightarrow> query_counts \<Rightarrow> query_counts" where
  "count_outcome oc n =
     (if outcome_reason oc = Some (lit ''model_timeout'') then n\<lparr>n_timeouts := n_timeouts n + 1\<rparr>
      else if outcome_reason oc = Some (lit ''invalid_model_response'') then n\<lparr>n_invalid := n_invalid n + 1\<rparr> else n)"

text \<open>Back in \<open>_loop\<close>: \<open>_query\<close> clears the active units.\<close>

definition back_to_loop :: "coordinator \<Rightarrow> coordinator" where
  "back_to_loop co = co\<lparr>co_active := [], co_worker := Between\<rparr>"

definition worker_died :: "coordinator \<Rightarrow> coordinator" where
  "worker_died co = co\<lparr>co_active := [], co_worker := NoWorker\<rparr>"

text \<open>How many units a commit through \<open>i\<close> consumes; nothing is the \<open>StopIteration\<close> of \<open>next\<close>.\<close>

fun commit_count :: "ustring \<Rightarrow> pending_unit list \<Rightarrow> nat option" where
  "commit_count i [] = None"
| "commit_count i (u # us) = (if pu_id u = i then Some 1 else map_option Suc (commit_count i us))"

definition make_commit ::
    "query \<Rightarrow> pending_unit list \<Rightarrow> ustring \<Rightarrow> (ustring \<times> rat) list \<Rightarrow> rat \<Rightarrow> unit_commit" where
  "make_commit q units result stages now =
     \<lparr>uc_units = units, uc_text = result, uc_request = sr_id (q_request q), uc_force = q_force q,
      uc_wait_ms = at_least0 (q_started q - pu_created (hd units)) * 1000,
      uc_model_ms = at_least0 (now - q_started q) * 1000,
      uc_total_ms = at_least0 (now - pu_created (hd units)) * 1000, uc_stages = stages\<rparr>"

text \<open>What the query of a worker ends with: \<open>finished\<close> is its request's outcome, or nothing at the timeout.\<close>

definition settle_query :: "query \<Rightarrow> query_outcome \<Rightarrow> rat \<Rightarrow> coordinator \<Rightarrow> coordinator" where
  "settle_query q oc now co =
     (if q_generation q \<noteq> co_generation co \<or> co_closed co
         \<or> take (length (q_units q)) (co_pending co) \<noteq> q_units q
      then back_to_loop (bump_counts (\<lambda>n. n\<lparr>n_stale := n_stale n + 1\<rparr>) co)
      else case outcome_reason oc of
        Some reason \<Rightarrow>
          (case remove_prefix (length (q_units q)) co of (_, co1) \<Rightarrow>
             count_failure (q_units q) (co1\<lparr>co_worker := Failing
               (make_failure (q_units q) reason (sr_id (q_request q)) (q_force q) (Some (q_started q)) now)\<rparr>))
      | None \<Rightarrow>
          (case oc of
             Decided (CommitDecision through result) stages \<Rightarrow>
               (case commit_count through (q_units q) of
                  None \<Rightarrow> worker_died co
                | Some n \<Rightarrow> (case remove_prefix n co of (consumed, co1) \<Rightarrow>
                    co1\<lparr>co_worker := Publishing (make_commit q consumed result stages now) (q_generation q)\<rparr>))
           | _ \<Rightarrow> back_to_loop (bump_counts (\<lambda>n. n\<lparr>n_waits := n_waits n + 1\<rparr>) co)))"

definition finish_query :: "query \<Rightarrow> query_outcome option \<Rightarrow> rat \<Rightarrow> coordinator \<Rightarrow> coordinator" where
  "finish_query q finished now co =
     (let oc = (case finished of None \<Rightarrow> QueryTimedOut
                | Some r \<Rightarrow> if q_deadline q \<le> now then QueryTimedOut else r);
          co1 = (if finished = None then co else co\<lparr>co_physical := False\<rparr>)
      in settle_query q oc now (bump_counts (count_outcome oc) co1))"

subsection \<open>Callbacks\<close>

definition context_after :: "unidb \<Rightarrow> unit_commit \<Rightarrow> coordinator \<Rightarrow> ustring list" where
  "context_after uc c co =
     (let old = (if co_context_scope co = Some (unit_scope (hd (uc_units c))) then co_context co else []);
          new = keep_last 2 (old @ [py_strip uc (concat (map pu_text (uc_units c)))])
      in if 1 < length new \<and> 12000 < total_length new then tl new else new)"

text \<open>The lock is held: a failure is handed over; a commit is handed over unless it became stale.\<close>

definition enter_callback :: "coordinator \<Rightarrow> unit_event list \<times> coordinator" where
  "enter_callback co =
     (case co_worker co of
        Failing f \<Rightarrow> ([FailureEvent f], co\<lparr>co_worker := InFailSink\<rparr>)
      | Publishing c generation \<Rightarrow>
          if generation \<noteq> co_generation co \<or> co_closed co
            then ([], back_to_loop (bump_counts (\<lambda>n. n\<lparr>n_stale := n_stale n + 1\<rparr>) co))
          else ([CommitEvent c], co\<lparr>co_worker := InSink c\<rparr>)
      | _ \<Rightarrow> ([], co))"

definition leave_callback :: "unidb \<Rightarrow> coordinator \<Rightarrow> coordinator" where
  "leave_callback uc co =
     (case co_worker co of
        InFailSink \<Rightarrow> back_to_loop co
      | InSink c \<Rightarrow> back_to_loop (bump_counts (\<lambda>n. n\<lparr>n_commits := n_commits n + 1,
            n_committed_units := n_committed_units n + length (uc_units c)\<rparr>)
            (co\<lparr>co_context := context_after uc c co, co_context_scope := Some (unit_scope (hd (uc_units c)))\<rparr>))
      | _ \<Rightarrow> co)"

definition callback_raised :: "coordinator \<Rightarrow> coordinator" where
  "callback_raised co = (case co_worker co of InFailSink \<Rightarrow> worker_died co | InSink _ \<Rightarrow> worker_died co | _ \<Rightarrow> co)"

subsection \<open>\<open>reset\<close> and \<open>close\<close>\<close>

text \<open>
  \<open>reset\<close> is one step: its wait for the cancelled worker, between the new generation and the retirement of the
  pending units, is not a point where another operation can run. In the code an \<open>append\<close> that arrives
  during that wait starts a new worker.
\<close>

definition reset_coordinator :: "rat \<Rightarrow> coordinator \<Rightarrow> unit_event list \<times> coordinator" where
  "reset_coordinator now co =
     (case remove_prefix (length (co_pending co)) (worker_died (co\<lparr>co_generation := co_generation co + 1\<rparr>)) of
        (units, co1) \<Rightarrow> fail_units units (lit ''reset'') now
          (co1\<lparr>co_context := [], co_context_scope := None, co_last_attempt := []\<rparr>))"

definition begin_close :: "coordinator \<Rightarrow> coordinator" where
  "begin_close co = (if co_closed co then co else co\<lparr>co_closing := True\<rparr>)"

definition end_close :: "rat \<Rightarrow> coordinator \<Rightarrow> unit_event list \<times> coordinator" where
  "end_close now co = reset_coordinator now (co\<lparr>co_closed := True\<rparr>)"

text \<open>\<open>wait_for_units\<close> returns when none of its units is unsettled, or the coordinator is closed.\<close>

definition units_settled :: "ustring set \<Rightarrow> coordinator \<Rightarrow> bool" where
  "units_settled ids co \<longleftrightarrow> co_closed co \<or> ids \<inter> fst ` set (unsettled_units co) = {}"

end
