(* ===== verification/SemanticLedger.thy ===== *)
theory SemanticLedger
  imports SemanticCoordinator
begin

text \<open>
  Runs of the semantic coordinator and the ledger of its source units. A run is any sequence of the
  coordinator's steps; a step that is not enabled changes nothing. The ledger accounts for every unit that
  entered the buffer: settled, in the hand of the worker, or pending.
\<close>

subsection \<open>Steps\<close>

datatype co_op =
    Append pending_unit bool rat
  | Seal
  | Turn ustring "ustring list option" rat
  | Finish "(chunk list \<times> provider_end) option" rat
  | RequestEnds
  | EnterCallback
  | LeaveCallback
  | CallbackRaises
  | Reset rat
  | BeginClose
  | EndClose rat

text \<open>
  How a unit of the buffer leaves it. \<open>Dropped\<close> units reach no callback: a reset cancelled the worker while
  it waited for the callback lock. \<open>TurnedAway\<close> is the failure of a unit that never entered.
\<close>

datatype settlement =
    Committed unit_commit
  | Retired unit_failure
  | Dropped "pending_unit list"
  | TurnedAway unit_failure

fun settled_units :: "settlement \<Rightarrow> pending_unit list" where
  "settled_units (Committed c) = uc_units c"
| "settled_units (Retired f) = uf_units f"
| "settled_units (Dropped us) = us"
| "settled_units (TurnedAway f) = []"

definition of_event :: "unit_event \<Rightarrow> settlement" where
  "of_event e = (case e of FailureEvent f \<Rightarrow> Retired f | CommitEvent c \<Rightarrow> Committed c)"

text \<open>The units the worker holds between taking them and handing them over.\<close>

definition in_hand :: "coordinator \<Rightarrow> pending_unit list" where
  "in_hand co = (case co_worker co of Failing f \<Rightarrow> uf_units f | Publishing c _ \<Rightarrow> uc_units c | _ \<Rightarrow> [])"

definition dropped :: "coordinator \<Rightarrow> settlement list" where
  "dropped co = (if in_hand co = [] then [] else [Dropped (in_hand co)])"

text \<open>What \<open>_collect\<close> makes of the chunks of a query's stream.\<close>

definition query_reply ::
    "unidb \<Rightarrow> (ustring \<Rightarrow> json option) \<Rightarrow> query \<Rightarrow> chunk list \<Rightarrow> provider_end \<Rightarrow> coordinator \<Rightarrow> query_outcome" where
  "query_reply uc loads q cs ending co =
     collect_chunks uc loads (map pu_id (q_units q)) (q_force q) (sc_response (co_config co)) (sc_result (co_config co))
       [] cs ending"

text \<open>A step: the units that enter the buffer, the settlements, the next state.\<close>

fun co_step :: "unidb \<Rightarrow> (ustring \<Rightarrow> json option) \<Rightarrow> co_op \<Rightarrow> coordinator \<Rightarrow> pending_unit list \<times> settlement list \<times> coordinator" where
  "co_step uc loads (Append u b t) co =
     (case append_unit u b t co of
        Inl _ \<Rightarrow> ([], [], co)
      | Inr ([], co') \<Rightarrow> ([u], [], co')
      | Inr (es, co') \<Rightarrow> ([], map (\<lambda>e. case e of FailureEvent f \<Rightarrow> TurnedAway f | _ \<Rightarrow> of_event e) es, co'))"
| "co_step uc loads Seal co = ([], [], snd (request_flush co))"
| "co_step uc loads (Turn i ex t) co =
     ([], [], if co_worker co = Between then snd (loop_turn uc i ex t co) else co)"
| "co_step uc loads (Finish reply t) co =
     ([], [], case co_worker co of
        Querying q \<Rightarrow> finish_query q (map_option (\<lambda>(cs, ending). query_reply uc loads q cs ending co) reply) t co
      | _ \<Rightarrow> co)"
| "co_step uc loads RequestEnds co = ([], [], co\<lparr>co_physical := False\<rparr>)"
| "co_step uc loads EnterCallback co =
     (case enter_callback co of (es, co') \<Rightarrow>
        ([], if es = [] then dropped co else map of_event es, co'))"
| "co_step uc loads LeaveCallback co = ([], [], leave_callback uc co)"
| "co_step uc loads CallbackRaises co = ([], [], callback_raised co)"
| "co_step uc loads (Reset t) co =
     (case reset_coordinator t co of (es, co') \<Rightarrow> ([], dropped co @ map of_event es, co'))"
| "co_step uc loads BeginClose co = ([], [], begin_close co)"
| "co_step uc loads (EndClose t) co =
     (case end_close t co of (es, co') \<Rightarrow> ([], dropped co @ map of_event es, co'))"

fun co_run :: "unidb \<Rightarrow> (ustring \<Rightarrow> json option) \<Rightarrow> co_op list \<Rightarrow> coordinator \<Rightarrow> pending_unit list \<times> settlement list \<times> coordinator" where
  "co_run uc loads [] co = ([], [], co)"
| "co_run uc loads (p # ps) co =
     (case co_step uc loads p co of (a, s, co1) \<Rightarrow>
        (case co_run uc loads ps co1 of (a', s', co') \<Rightarrow> (a @ a', s @ s', co')))"

definition balanced :: "coordinator \<Rightarrow> pending_unit list \<Rightarrow> settlement list \<Rightarrow> coordinator \<Rightarrow> bool" where
  "balanced co accepted ss co' \<longleftrightarrow>
     in_hand co @ co_pending co @ accepted = concat (map settled_units ss) @ in_hand co' @ co_pending co'"

subsection \<open>Frames\<close>

lemma frame_pending [simp]:
  "co_pending (ensure_worker co) = co_pending co" "co_pending (count_failure us co) = co_pending co"
  "co_pending (bump_counts f co) = co_pending co" "co_pending (back_to_loop co) = co_pending co"
  "co_pending (worker_died co) = co_pending co" "co_pending (begin_close co) = co_pending co"
  by (simp_all add: ensure_worker_def count_failure_def bump_counts_def back_to_loop_def worker_died_def
      begin_close_def)

lemma frame_hand [simp]:
  "in_hand (ensure_worker co) = in_hand co" "in_hand (count_failure us co) = in_hand co"
  "in_hand (bump_counts f co) = in_hand co" "in_hand (back_to_loop co) = []" "in_hand (worker_died co) = []"
  "in_hand (begin_close co) = in_hand co" "in_hand (co\<lparr>co_boundaries := bs\<rparr>) = in_hand co"
  "in_hand (co\<lparr>co_pending := ps\<rparr>) = in_hand co" "in_hand (co\<lparr>co_physical := ph\<rparr>) = in_hand co"
  by (simp_all add: ensure_worker_def count_failure_def bump_counts_def back_to_loop_def worker_died_def
      begin_close_def in_hand_def split: worker.split)

lemma hand_update [simp]:
  "in_hand (co\<lparr>co_worker := w\<rparr>) = (case w of Failing f \<Rightarrow> uf_units f | Publishing c _ \<Rightarrow> uc_units c | _ \<Rightarrow> [])"
  "in_hand (co\<lparr>co_active := us\<rparr>) = in_hand co" "in_hand (co\<lparr>co_closed := b\<rparr>) = in_hand co"
  "uf_units (make_failure us r i f st now) = us" "uc_units (make_commit q us r sm now) = us"
  by (simp_all add: in_hand_def make_failure_def make_commit_def Let_def split: worker.split)

lemma remove_prefix_simps [simp]:
  "fst (remove_prefix n co) = take n (co_pending co)"
  "co_pending (snd (remove_prefix n co)) = drop n (co_pending co)"
  "in_hand (snd (remove_prefix n co)) = in_hand co"
  "co_worker (snd (remove_prefix n co)) = co_worker co"
  by (simp_all add: remove_prefix_def Let_def in_hand_def split: worker.split)

lemma head_units_prefix: "fst (head_units scope bs us) = take (length (fst (head_units scope bs us))) us"
  by (induction us) (auto simp: case_prod_unfold)

lemma head_of_prefix: "take (length (fst (head_of co))) (co_pending co) = fst (head_of co)"
proof (cases "co_pending co")
  case (Cons u us)
  then show ?thesis using head_units_prefix [of "unit_scope u" "co_boundaries co" "u # us"]
    by (simp add: head_of_def del: head_units.simps)
qed (simp add: head_of_def)

lemma head_of_nonempty: "co_pending co \<noteq> [] \<Longrightarrow> fst (head_of co) \<noteq> []"
  by (cases "co_pending co") (auto simp: head_of_def case_prod_unfold)

lemma commit_count_take:
  "commit_count i us = Some n \<Longrightarrow> 1 \<le> n \<and> n \<le> length us \<and> pu_id (last (take n us)) = i"
proof (induction us arbitrary: n)
  case (Cons u us)
  show ?case
  proof (cases "pu_id u = i")
    case False
    with Cons.prems obtain m where m: "commit_count i us = Some m" "n = Suc m" by auto
    from Cons.IH [OF m(1)] have "1 \<le> m" "m \<le> length us" "pu_id (last (take m us)) = i" by auto
    moreover from this have "take m us \<noteq> []" by (cases us) auto
    ultimately show ?thesis by (simp add: m(2))
  qed (use Cons.prems in auto)
qed simp

subsection \<open>Every step balances\<close>

lemma append_balanced: "balanced co (fst (co_step uc loads (Append u b t) co)) (fst (snd (co_step uc loads (Append u b t) co)))
    (snd (snd (co_step uc loads (Append u b t) co)))"
  by (auto simp: balanced_def append_unit_def fail_units_def split: option.split if_split)

lemma flush_balanced: "balanced co [] [] (snd (request_flush co))"
  by (simp add: balanced_def request_flush_def)

lemma begin_query_frame:
  "begin_query uc i ex us forced t co = Inr co' \<Longrightarrow> co_pending co' = co_pending co \<and> in_hand co' = []"
  by (auto simp: begin_query_def res_bind_eq_Inr in_hand_def)

lemma turn_balanced:
  assumes "co_worker co = Between" shows "balanced co [] [] (snd (loop_turn uc i ex t co))"
proof -
  have hand: "in_hand co = []" using assms by (simp add: in_hand_def)
  have "fst (head_of co) @ drop (length (fst (head_of co))) (co_pending co) = co_pending co"
    using head_of_prefix [of co] by (metis append_take_drop_id)
  with hand head_of_prefix [of co] show ?thesis
    by (auto simp: balanced_def loop_turn_def Let_def case_prod_unfold dest: begin_query_frame split: sum.split)
qed

lemma settle_balanced:
  assumes "co_worker co = Querying q"
  shows "balanced co [] [] (settle_query q oc t co)"
proof -
  have hand: "in_hand co = []" using assms by (simp add: in_hand_def)
  have split: "take (length (q_units q)) (co_pending co) = q_units q \<Longrightarrow>
      q_units q @ drop (length (q_units q)) (co_pending co) = co_pending co"
    by (metis append_take_drop_id)
  show ?thesis
    using hand split
    by (auto simp: balanced_def settle_query_def case_prod_unfold
        split: option.split query_outcome.split semantic_decision.split)
qed

lemma finish_balanced:
  assumes "co_worker co = Querying q"
  shows "balanced co [] [] (finish_query q finished t co)"
proof -
  let ?oc = "case finished of None \<Rightarrow> QueryTimedOut | Some r \<Rightarrow> if q_deadline q \<le> t then QueryTimedOut else r"
  let ?co = "bump_counts (count_outcome ?oc) (if finished = None then co else co\<lparr>co_physical := False\<rparr>)"
  have "balanced ?co [] [] (settle_query q ?oc t ?co)"
    by (rule settle_balanced) (simp add: bump_counts_def assms)
  then show ?thesis by (cases finished) (simp_all add: balanced_def finish_query_def Let_def)
qed

lemma enter_balanced:
  "balanced co [] (if fst (enter_callback co) = [] then dropped co else map of_event (fst (enter_callback co)))
     (snd (enter_callback co))"
  by (auto simp: balanced_def enter_callback_def of_event_def dropped_def in_hand_def [of co]
      split: worker.split)

lemma leave_balanced: "balanced co [] [] (leave_callback uc co)" "balanced co [] [] (callback_raised co)"
  by (auto simp: balanced_def leave_callback_def callback_raised_def in_hand_def [of co] split: worker.split)

lemma reset_balanced:
  "balanced co [] (dropped co @ map of_event (fst (reset_coordinator t co))) (snd (reset_coordinator t co))"
proof -
  have d: "concat (map settled_units (dropped co)) = in_hand co" by (simp add: dropped_def)
  show ?thesis
    by (auto simp: balanced_def d reset_coordinator_def case_prod_unfold fail_units_def of_event_def in_hand_def
        count_failure_def remove_prefix_def worker_died_def make_failure_def Let_def)
qed

lemma no_change: "balanced co [] [] co"
  by (simp add: balanced_def)

lemma step_balanced:
  "balanced co (fst (co_step uc loads p co)) (fst (snd (co_step uc loads p co))) (snd (snd (co_step uc loads p co)))"
proof (cases p)
  case (Append u b t)
  show ?thesis unfolding Append by (rule append_balanced)
next
  case (Finish oc t)
  show ?thesis unfolding Finish
    by (cases "co_worker co") (simp_all add: no_change finish_balanced)
next
  case (Reset t)
  show ?thesis unfolding Reset using reset_balanced [of co t] by (simp add: case_prod_unfold)
next
  case (EndClose t)
  have "dropped (co\<lparr>co_closed := True\<rparr>) = dropped co" by (simp add: dropped_def)
  with reset_balanced [of "co\<lparr>co_closed := True\<rparr>" t] show ?thesis
    unfolding EndClose by (simp add: case_prod_unfold end_close_def balanced_def)
next
  case EnterCallback
  show ?thesis unfolding EnterCallback using enter_balanced [of co] by (simp add: case_prod_unfold)
next
  case RequestEnds
  show ?thesis unfolding RequestEnds by (simp add: balanced_def)
next
  case BeginClose
  show ?thesis unfolding BeginClose by (simp add: balanced_def)
qed (simp_all add: no_change flush_balanced turn_balanced leave_balanced)

lemma run_balanced:
  "co_run uc loads ps co = (a, ss, co') \<Longrightarrow> balanced co a ss co'"
proof (induction ps arbitrary: co a ss co')
  case Nil
  then show ?case by (simp add: balanced_def)
next
  case (Cons p ps)
  obtain a1 s1 co1 where one: "co_step uc loads p co = (a1, s1, co1)" by (cases "co_step uc loads p co")
  obtain a2 s2 co2 where two: "co_run uc loads ps co1 = (a2, s2, co2)" by (cases "co_run uc loads ps co1")
  from Cons.prems one two have eqs: "a = a1 @ a2" "ss = s1 @ s2" "co' = co2" by auto
  from step_balanced [of co uc loads p] one have "balanced co a1 s1 co1" by simp
  with Cons.IH [OF two] show ?case by (simp add: balanced_def eqs) (metis append.assoc)
qed

subsection \<open>Well-formed coordinators\<close>

definition one_scope :: "pending_unit list \<Rightarrow> bool" where
  "one_scope us \<longleftrightarrow> us \<noteq> [] \<and> (\<forall>u \<in> set us. unit_scope u = unit_scope (hd us))"

definition commit_sound :: "unidb \<Rightarrow> semantic_config \<Rightarrow> unit_commit \<Rightarrow> bool" where
  "commit_sound uc cfg c \<longleftrightarrow> one_scope (uc_units c) \<and> list_all (pending_unit_ok uc) (uc_units c)
     \<and> \<not> py_blank uc (uc_text c) \<and> length (uc_text c) \<le> sc_result cfg \<and> \<not> list_ex is_surrogate (uc_text c)"

definition worker_sound :: "unidb \<Rightarrow> coordinator \<Rightarrow> bool" where
  "worker_sound uc co \<longleftrightarrow>
     (case co_worker co of
        Querying q \<Rightarrow> one_scope (q_units q) \<and> take (length (q_units q)) (co_pending co) = q_units q
                      \<and> q_generation q = co_generation co
      | Failing f \<Rightarrow> uf_units f \<noteq> []
      | Publishing c g \<Rightarrow> g = co_generation co \<and> commit_sound uc (co_config co) c
      | InSink c \<Rightarrow> commit_sound uc (co_config co) c
      | _ \<Rightarrow> True)"

definition buffer_sound :: "unidb \<Rightarrow> coordinator \<Rightarrow> bool" where
  "buffer_sound uc co \<longleftrightarrow> distinct (map pu_id (co_pending co)) \<and> list_all (pending_unit_ok uc) (co_pending co)
     \<and> length (co_pending co) \<le> sc_units (co_config co)
     \<and> total_length (map pu_text (co_pending co)) \<le> sc_source (co_config co)"

definition context_sound :: "unidb \<Rightarrow> coordinator \<Rightarrow> bool" where
  "context_sound uc co \<longleftrightarrow> length (co_context co) \<le> 2 \<and> list_all (\<lambda>s. \<not> py_blank uc s) (co_context co)"

definition co_sound :: "unidb \<Rightarrow> coordinator \<Rightarrow> bool" where
  "co_sound uc co \<longleftrightarrow> buffer_sound uc co \<and> context_sound uc co \<and> worker_sound uc co
     \<and> (co_closed co \<longrightarrow> co_worker co = NoWorker \<and> co_pending co = [])"

lemma new_coordinator_sound: "co_sound uc (new_coordinator cfg target)"
  by (simp add: co_sound_def buffer_sound_def context_sound_def worker_sound_def new_coordinator_def total_length_def)

lemma total_length_drop: "total_length (map f (drop n xs)) \<le> total_length (map f xs)"
proof -
  have "total_length (map f xs) = total_length (map f (take n xs)) + total_length (map f (drop n xs))"
    by (metis append_take_drop_id map_append total_length_def sum_list_append)
  then show ?thesis by simp
qed

lemma buffer_sound_drop:
  assumes "buffer_sound uc co" "co_pending co' = drop n (co_pending co)" "co_config co' = co_config co"
  shows "buffer_sound uc co'"
  using assms total_length_drop [of pu_text n "co_pending co"]
  by (auto simp: buffer_sound_def drop_map [symmetric] list_all_iff dest: in_set_dropD)

lemma frame_config [simp]:
  "co_config (ensure_worker co) = co_config co" "co_config (count_failure us co) = co_config co"
  "co_config (bump_counts f co) = co_config co" "co_config (back_to_loop co) = co_config co"
  "co_config (worker_died co) = co_config co" "co_config (begin_close co) = co_config co"
  "co_config (snd (remove_prefix n co)) = co_config co"
  by (simp_all add: ensure_worker_def count_failure_def bump_counts_def back_to_loop_def worker_died_def
      begin_close_def remove_prefix_def Let_def)

lemma frame_context [simp]:
  "co_context (ensure_worker co) = co_context co" "co_context (count_failure us co) = co_context co"
  "co_context (bump_counts f co) = co_context co" "co_context (back_to_loop co) = co_context co"
  "co_context (worker_died co) = co_context co" "co_context (begin_close co) = co_context co"
  "co_context (snd (remove_prefix n co)) = co_context co"
  by (simp_all add: ensure_worker_def count_failure_def bump_counts_def back_to_loop_def worker_died_def
      begin_close_def remove_prefix_def Let_def)

lemma frame_generation [simp]:
  "co_generation (ensure_worker co) = co_generation co" "co_generation (count_failure us co) = co_generation co"
  "co_generation (bump_counts f co) = co_generation co" "co_generation (back_to_loop co) = co_generation co"
  "co_generation (begin_close co) = co_generation co" "co_generation (snd (remove_prefix n co)) = co_generation co"
  by (simp_all add: ensure_worker_def count_failure_def bump_counts_def back_to_loop_def
      begin_close_def remove_prefix_def Let_def)

lemma frame_closed [simp]:
  "co_closed (ensure_worker co) = co_closed co" "co_closed (count_failure us co) = co_closed co"
  "co_closed (bump_counts f co) = co_closed co" "co_closed (back_to_loop co) = co_closed co"
  "co_closed (worker_died co) = co_closed co" "co_closed (begin_close co) = co_closed co"
  "co_closed (snd (remove_prefix n co)) = co_closed co"
  by (simp_all add: ensure_worker_def count_failure_def bump_counts_def back_to_loop_def worker_died_def
      begin_close_def remove_prefix_def Let_def)

lemma frame_worker [simp]:
  "co_worker (count_failure us co) = co_worker co" "co_worker (bump_counts f co) = co_worker co"
  "co_worker (back_to_loop co) = Between" "co_worker (worker_died co) = NoWorker"
  "co_worker (begin_close co) = co_worker co"
  by (simp_all add: count_failure_def bump_counts_def back_to_loop_def worker_died_def begin_close_def)

lemma co_soundI:
  assumes "buffer_sound uc co'" "context_sound uc co'" "worker_sound uc co'"
    and "co_closed co' \<Longrightarrow> co_worker co' = NoWorker \<and> co_pending co' = []"
  shows "co_sound uc co'"
  using assms by (simp add: co_sound_def)

lemma co_soundD:
  assumes "co_sound uc co"
  shows "buffer_sound uc co" "context_sound uc co" "worker_sound uc co"
    and "co_closed co \<Longrightarrow> co_worker co = NoWorker" "co_closed co \<Longrightarrow> co_pending co = []"
  using assms by (simp_all add: co_sound_def)

lemma sound_idle_worker: "co_worker co' \<in> {NoWorker, Between, InFailSink} \<Longrightarrow> worker_sound uc co'"
  by (auto simp: worker_sound_def)

lemma worker_sound_cong:
  "worker_sound uc co \<Longrightarrow> co_worker co' = co_worker co \<Longrightarrow> co_generation co' = co_generation co \<Longrightarrow>
     co_config co' = co_config co \<Longrightarrow> prefix (co_pending co) (co_pending co') \<Longrightarrow> worker_sound uc co'"
proof -
  assume "worker_sound uc co" "co_worker co' = co_worker co" "co_generation co' = co_generation co"
    "co_config co' = co_config co" and pre: "prefix (co_pending co) (co_pending co')"
  moreover have "take (length us) (co_pending co') = us" if "take (length us) (co_pending co) = us" for us
  proof -
    obtain zs where zs: "co_pending co' = co_pending co @ zs" using pre by (auto simp: prefix_def)
    have "length us \<le> length (co_pending co)" using arg_cong [OF that, of length] by simp
    with that show ?thesis by (simp add: zs)
  qed
  ultimately show ?thesis by (auto simp: worker_sound_def split: worker.splits)
qed

lemma context_sound_cong: "context_sound uc co \<Longrightarrow> co_context co' = co_context co \<Longrightarrow> context_sound uc co'"
  by (simp add: context_sound_def)

lemma buffer_sound_cong:
  "buffer_sound uc co \<Longrightarrow> co_pending co' = co_pending co \<Longrightarrow> co_config co' = co_config co \<Longrightarrow> buffer_sound uc co'"
  by (simp add: buffer_sound_def)

text \<open>A change that keeps buffer, context, worker, generation and closing state.\<close>

lemma co_sound_cong:
  assumes "co_sound uc co" "co_pending co' = co_pending co" "co_config co' = co_config co"
    "co_context co' = co_context co" "co_worker co' = co_worker co" "co_generation co' = co_generation co"
    "co_closed co' = co_closed co"
  shows "co_sound uc co'"
  using assms buffer_sound_cong [of uc co co'] context_sound_cong [of uc co co'] worker_sound_cong [of uc co co']
  by (simp add: co_sound_def)

lemma ensure_sound: "co_sound uc co \<Longrightarrow> \<not> co_closed co \<Longrightarrow> co_sound uc (ensure_worker co)"
  using co_sound_cong [of uc co "ensure_worker co"]
  by (auto simp: co_sound_def ensure_worker_def worker_sound_def buffer_sound_def context_sound_def)

lemma count_failure_sound: "co_sound uc co \<Longrightarrow> co_sound uc (count_failure us co)"
  by (erule co_sound_cong) simp_all

lemma bump_sound: "co_sound uc co \<Longrightarrow> co_sound uc (bump_counts f co)"
  by (erule co_sound_cong) simp_all

lemma fail_units_sound: "co_sound uc co \<Longrightarrow> co_sound uc (snd (fail_units us r t co))"
  by (simp add: fail_units_def count_failure_sound)

lemma append_sound:
  assumes sound: "co_sound uc co" and u: "pending_unit_ok uc u" and ap: "append_unit u b t co = Inr (es, co')"
  shows "co_sound uc co'"
proof -
  have ok: "append_refused u t co = None" using ap by (auto simp: append_unit_def split: option.splits)
  then have live: "\<not> co_closed co" and fresh: "pu_id u \<notin> pu_id ` set (co_pending co)"
    by (auto simp: append_refused_def split: if_splits)
  let ?full = "sc_units (co_config co) \<le> length (co_pending co)
      \<or> sc_source (co_config co) < total_length (map pu_text (co_pending co)) + length (pu_text u)"
  show ?thesis
  proof (cases "sc_source (co_config co) < length (pu_text u) \<or> ?full")
    case True
    have "co_sound uc (co\<lparr>co_boundaries := bs\<rparr>)" for bs by (rule co_sound_cong [OF sound]) simp_all
    then have "co_sound uc (ensure_worker (co\<lparr>co_boundaries := bs\<rparr>))" for bs
      by (rule ensure_sound) (simp add: live)
    with True ap ok sound fail_units_sound show ?thesis
      by (auto simp: append_unit_def split: if_splits) (metis snd_conv)+
  next
    case False
    let ?co = "co\<lparr>co_pending := co_pending co @ [u],
        co_boundaries := if b then insert (pu_id u) (co_boundaries co) else co_boundaries co\<rparr>"
    have co': "co' = ensure_worker ?co" using ap ok False by (simp add: append_unit_def)
    have "buffer_sound uc ?co"
      using co_soundD(1) [OF sound] u fresh False by (auto simp: buffer_sound_def total_length_def)
    moreover have "worker_sound uc ?co" by (rule worker_sound_cong [OF co_soundD(3) [OF sound]]) simp_all
    moreover have "context_sound uc ?co" by (rule context_sound_cong [OF co_soundD(2) [OF sound]]) simp
    ultimately have "co_sound uc ?co" using live by (intro co_soundI) simp_all
    then show ?thesis unfolding co' by (rule ensure_sound) (simp add: live)
  qed
qed

lemma flush_sound: "co_sound uc co \<Longrightarrow> co_sound uc (snd (request_flush co))"
proof (cases "co_closed co \<or> co_pending co = []")
  case False
  assume sound: "co_sound uc co"
  have "co_sound uc (co\<lparr>co_boundaries := bs\<rparr>)" for bs by (rule co_sound_cong [OF sound]) simp_all
  with False show ?thesis by (simp add: request_flush_def ensure_sound)
qed (simp add: request_flush_def)

lemma head_units_scope: "u \<in> set (fst (head_units scope bs us)) \<Longrightarrow> unit_scope u = scope"
  by (induction us) (auto simp: case_prod_unfold split: if_splits)

lemma head_one_scope:
  assumes "co_pending co \<noteq> []" shows "one_scope (fst (head_of co))"
proof -
  obtain u us where p: "co_pending co = u # us" using assms by (cases "co_pending co") auto
  have "unit_scope v = unit_scope u" if "v \<in> set (fst (head_of co))" for v
    using that by (simp add: head_of_def p del: head_units.simps) (rule head_units_scope)
  then show ?thesis using head_of_nonempty [OF assms] by (simp add: one_scope_def)
qed

lemma begin_query_sound:
  assumes sound: "co_sound uc co" and live: "co_pending co \<noteq> []" "\<not> co_closed co"
    and run: "begin_query uc i ex (fst (head_of co)) forced t co = Inr co'"
  shows "co_sound uc co'"
proof -
  from run obtain q where q: "co_worker co' = Querying q" "q_units q = fst (head_of co)"
      "q_generation q = co_generation co"
    and same: "co_pending co' = co_pending co" "co_config co' = co_config co" "co_context co' = co_context co"
      "co_generation co' = co_generation co" "co_closed co' = co_closed co"
    by (auto simp: begin_query_def res_bind_eq_Inr)
  have "worker_sound uc co'"
    using head_one_scope [OF live(1)] head_of_prefix [of co] by (simp add: worker_sound_def q same)
  with co_soundD(1,2) [OF sound] live show ?thesis
    using buffer_sound_cong [of uc co co'] context_sound_cong [of uc co co'] same by (intro co_soundI) simp_all
qed

lemma turn_sound:
  assumes sound: "co_sound uc co" and "co_worker co = Between"
  shows "co_sound uc (snd (loop_turn uc i ex t co))"
proof (cases "co_pending co = [] \<or> co_closed co")
  case True
  with sound show ?thesis
    by (simp add: loop_turn_def co_sound_def buffer_sound_def context_sound_def worker_sound_def)
next
  case False
  have died: "co_sound uc (co\<lparr>co_worker := NoWorker, co_active := []\<rparr>)"
    using sound False by (simp add: co_sound_def buffer_sound_def context_sound_def worker_sound_def)
  let ?units = "fst (head_of co)"
  have ne: "?units \<noteq> []" using False by (simp add: head_of_nonempty)
  let ?co = "snd (remove_prefix (length ?units) co)\<lparr>co_active := ?units,
      co_worker := Failing (make_failure ?units (lit ''source_deadline'') [] True None t)\<rparr>"
  have "buffer_sound uc ?co" by (rule buffer_sound_drop [OF co_soundD(1) [OF sound], of _ "length ?units"]) simp_all
  moreover have "context_sound uc ?co" by (rule context_sound_cong [OF co_soundD(2) [OF sound]]) simp
  ultimately have "co_sound uc ?co" using False ne by (intro co_soundI) (simp_all add: worker_sound_def)
  note retired = count_failure_sound [OF this, of ?units]
  have query: "co_sound uc co'" if "begin_query uc i ex ?units forced t co = Inr co'" for forced co'
    using begin_query_sound [OF sound _ _ that] False by simp
  show ?thesis
    using False retired died query sound head_of_prefix [of co]
    by (auto simp: loop_turn_def Let_def case_prod_unfold split: sum.split)
qed

lemma one_scope_take:
  assumes "one_scope us" "1 \<le> n" shows "one_scope (take n us)"
proof -
  obtain u r where us: "us = u # r" using assms(1) by (cases us) (auto simp: one_scope_def)
  obtain m where m: "n = Suc m" using assms(2) by (cases n) auto
  have "set (take m r) \<subseteq> set us" by (auto simp: us dest: in_set_takeD)
  with assms(1) show ?thesis by (auto simp: us m one_scope_def)
qed

lemma settle_sound:
  assumes sound: "co_sound uc co" and w: "co_worker co = Querying q"
    and oc: "\<And>d m. oc = Decided d m \<Longrightarrow>
      decision_ok uc (map pu_id (q_units q)) (q_force q) (sc_result (co_config co)) d"
  shows "co_sound uc (settle_query q oc t co)"
proof -
  have q: "one_scope (q_units q)" "take (length (q_units q)) (co_pending co) = q_units q"
    "q_generation q = co_generation co"
    using co_soundD(3) [OF sound] w by (simp_all add: worker_sound_def)
  have live: "\<not> co_closed co" using co_soundD(4) [OF sound] w by auto
  have looped: "co_sound uc (back_to_loop (bump_counts f co))" for f
    using sound live by (simp add: co_sound_def buffer_sound_def context_sound_def worker_sound_def)
  have died: "co_sound uc (worker_died co)"
    using sound live by (simp add: co_sound_def buffer_sound_def context_sound_def worker_sound_def)
  have moved: "co_sound uc (snd (remove_prefix n co)\<lparr>co_worker := w'\<rparr>)"
    if "worker_sound uc (snd (remove_prefix n co)\<lparr>co_worker := w'\<rparr>)" for n w'
  proof -
    let ?co = "snd (remove_prefix n co)\<lparr>co_worker := w'\<rparr>"
    have "buffer_sound uc ?co" by (rule buffer_sound_drop [OF co_soundD(1) [OF sound], of _ n]) simp_all
    moreover have "context_sound uc ?co" by (rule context_sound_cong [OF co_soundD(2) [OF sound]]) simp
    ultimately show ?thesis using that live by (intro co_soundI) simp_all
  qed
  show ?thesis
  proof (cases "outcome_reason oc")
    case (Some reason)
    let ?w = "Failing (make_failure (q_units q) reason (sr_id (q_request q)) (q_force q) (Some (q_started q)) t)"
    have "co_sound uc (snd (remove_prefix (length (q_units q)) co)\<lparr>co_worker := ?w\<rparr>)"
      using q(1) by (intro moved) (simp add: worker_sound_def one_scope_def)
    from count_failure_sound [OF this, of "q_units q"] show ?thesis
      using Some q live by (simp add: settle_query_def case_prod_unfold)
  next
    case None
    then obtain d m where d: "oc = Decided d m" by (cases oc) auto
    show ?thesis
    proof (cases d)
      case WaitDecision
      with d q live looped show ?thesis by (simp add: settle_query_def)
    next
      case (CommitDecision through result)
      show ?thesis
      proof (cases "commit_count through (q_units q)")
        case None
        with d CommitDecision q live died show ?thesis by (simp add: settle_query_def)
      next
        case (Some n)
        note n = commit_count_take [OF Some]
        have units: "take n (co_pending co) = take n (q_units q)" using q(2) n by (metis min.absorb1 take_take)
        have "one_scope (take n (q_units q))"
          using q(1) n by (intro one_scope_take) auto
        moreover have "list_all (pending_unit_ok uc) (take n (co_pending co))"
          using co_soundD(1) [OF sound] by (auto simp: buffer_sound_def list_all_iff dest: in_set_takeD)
        moreover have "\<not> py_blank uc result \<and> length result \<le> sc_result (co_config co) \<and> \<not> list_ex is_surrogate result"
          using oc [OF d] by (simp add: decision_ok_def CommitDecision)
        ultimately have "commit_sound uc (co_config co) (make_commit q (take n (q_units q)) result m t)"
          unfolding commit_sound_def make_commit_def units by simp
        then have "worker_sound uc (snd (remove_prefix n co)\<lparr>co_worker :=
            Publishing (make_commit q (take n (q_units q)) result m t) (q_generation q)\<rparr>)"
          using q(3) by (simp add: worker_sound_def)
        from moved [OF this] show ?thesis
          using d CommitDecision Some q live units by (simp add: settle_query_def case_prod_unfold)
      qed
    qed
  qed
qed

lemma finish_sound:
  assumes sound: "co_sound uc co" and w: "co_worker co = Querying q"
  shows "co_sound uc (finish_query q (map_option (\<lambda>(cs, ending). query_reply uc loads q cs ending co) reply) t co)"
proof -
  define oc where "oc = (case map_option (\<lambda>(cs, ending). query_reply uc loads q cs ending co) reply of
      None \<Rightarrow> QueryTimedOut | Some r \<Rightarrow> if q_deadline q \<le> t then QueryTimedOut else r)"
  define co1 where "co1 = (if reply = None then co else co\<lparr>co_physical := False\<rparr>)"
  have "co_sound uc co1" by (rule co_sound_cong [OF sound]) (simp_all add: co1_def)
  then have "co_sound uc (bump_counts (count_outcome oc) co1)" by (rule bump_sound)
  moreover have "decision_ok uc (map pu_id (q_units q)) (q_force q) (sc_result (co_config co)) d"
    if "oc = Decided d m" for d m
    using that by (auto simp: oc_def query_reply_def split: option.splits if_splits dest: collect_decision_ok)
  ultimately have "co_sound uc (settle_query q oc t (bump_counts (count_outcome oc) co1))"
    by (intro settle_sound) (simp_all add: w co1_def)
  then show ?thesis
    by (cases reply) (simp_all add: finish_query_def Let_def oc_def co1_def)
qed

lemma enter_sound: "co_sound uc co \<Longrightarrow> co_sound uc (snd (enter_callback co))"
  by (auto simp: enter_callback_def co_sound_def buffer_sound_def context_sound_def worker_sound_def
      split: worker.splits)

lemma strip_not_blank: "\<not> py_blank uc s \<Longrightarrow> \<not> py_blank uc (py_strip uc s)"
proof
  assume s: "\<not> py_blank uc s" and b: "py_blank uc (py_strip uc s)"
  have "hd (py_strip uc s) \<in> set (py_strip uc s)" using s by (simp add: py_strip_blank)
  then have sp: "u_isspace uc (hd (py_strip uc s))" using b by (simp add: py_blank_def list_all_iff)
  let ?d = "dropWhile (u_isspace uc) s"
  have ne: "?d \<noteq> []" using s by (auto simp: py_blank_def list_all_iff dropWhile_eq_Nil_conv)
  have h: "\<not> u_isspace uc (hd ?d)" using ne by (rule hd_dropWhile)
  obtain c r where d: "?d = c # r" using ne by (cases ?d) auto
  have "last (dropWhile (u_isspace uc) (rev ?d)) = c"
    using h d by (simp add: dropWhile_append)
  then have "hd (py_strip uc s) = c"
    using s by (simp add: py_strip_def rstrip_set_def hd_rev py_strip_blank [symmetric])
  with sp h d show False by simp
qed

lemma set_tl: "set (tl xs) \<subseteq> set xs"
  by (cases xs) auto

lemma context_after_set:
  "set (context_after uc c co) \<subseteq> insert (py_strip uc (concat (map pu_text (uc_units c)))) (set (co_context co))"
proof -
  let ?s = "py_strip uc (concat (map pu_text (uc_units c)))"
  let ?old = "if co_context_scope co = Some (unit_scope (hd (uc_units c))) then co_context co else []"
  let ?new = "keep_last 2 (?old @ [?s])"
  have "set ?new \<subseteq> set (?old @ [?s])" by (rule set_keep_last)
  also have "\<dots> \<subseteq> insert ?s (set (co_context co))" by auto
  finally have a: "set ?new \<subseteq> insert ?s (set (co_context co))" .
  have b: "set (tl ?new) \<subseteq> insert ?s (set (co_context co))" by (rule subset_trans [OF set_tl a])
  have "context_after uc c co = (if 1 < length ?new \<and> 12000 < total_length ?new then tl ?new else ?new)"
    by (simp only: context_after_def Let_def)
  then show ?thesis
    using a b by (simp only: split: if_split) blast
qed

lemma context_after_length: "length (context_after uc c co) \<le> 2"
  using length_keep_last [of 2 "_ @ _"] by (auto simp: context_after_def Let_def)

lemma leave_sound:
  assumes sound: "co_sound uc co" shows "co_sound uc (leave_callback uc co)"
proof (cases "co_worker co")
  case (InSink c)
  have live: "\<not> co_closed co" using co_soundD(4) [OF sound] InSink by auto
  have c: "commit_sound uc (co_config co) c" using co_soundD(3) [OF sound] InSink by (simp add: worker_sound_def)
  then obtain u us where u: "uc_units c = u # us" "\<not> py_blank uc (pu_text u)"
    by (cases "uc_units c") (auto simp: commit_sound_def one_scope_def pending_unit_ok_def)
  have "\<not> py_blank uc (concat (map pu_text (uc_units c)))" using u by (simp add: py_blank_def)
  then have new: "\<not> py_blank uc (py_strip uc (concat (map pu_text (uc_units c))))" by (rule strip_not_blank)
  have "list_all (\<lambda>s. \<not> py_blank uc s) (context_after uc c co)" "length (context_after uc c co) \<le> 2"
    using co_soundD(2) [OF sound] new context_after_set [of uc c co] context_after_length
    by (auto simp: context_sound_def list_all_iff)
  with sound live InSink show ?thesis
    by (simp add: leave_callback_def co_sound_def buffer_sound_def context_sound_def worker_sound_def)
qed (use sound in \<open>auto simp: leave_callback_def co_sound_def buffer_sound_def context_sound_def worker_sound_def\<close>)

lemma raised_sound: "co_sound uc co \<Longrightarrow> co_sound uc (callback_raised co)"
  by (auto simp: callback_raised_def co_sound_def buffer_sound_def context_sound_def worker_sound_def
      split: worker.split)

lemma reset_sound:
  assumes "buffer_sound uc co" shows "co_sound uc (snd (reset_coordinator t co))"
proof -
  have "co_sound uc (snd (remove_prefix (length (co_pending co)) (worker_died (co\<lparr>co_generation := co_generation co + 1\<rparr>)))
      \<lparr>co_context := [], co_context_scope := None, co_last_attempt := []\<rparr>)"
    using assms
    by (simp add: co_sound_def buffer_sound_def context_sound_def worker_sound_def total_length_def worker_died_def)
  from fail_units_sound [OF this] show ?thesis by (simp add: reset_coordinator_def case_prod_unfold worker_died_def)
qed

subsection \<open>Runs\<close>

text \<open>The units handed to \<open>append\<close> were built, so they are valid.\<close>

fun op_ok :: "unidb \<Rightarrow> co_op \<Rightarrow> bool" where
  "op_ok uc (Append u b t) = pending_unit_ok uc u"
| "op_ok uc _ = True"

lemma step_sound:
  assumes sound: "co_sound uc co" and ok: "op_ok uc p"
  shows "co_sound uc (snd (snd (co_step uc loads p co)))"
proof (cases p)
  case (Append u b t)
  with ok sound append_sound [OF sound, of u b t] show ?thesis
    by (auto split: sum.split list.split)
next
  case (Turn i ex t)
  with turn_sound [OF sound] sound show ?thesis by simp
next
  case (Finish reply t)
  with finish_sound [OF sound] sound show ?thesis by (simp split: worker.split)
next
  case RequestEnds
  have "co_sound uc (co\<lparr>co_physical := False\<rparr>)" by (rule co_sound_cong [OF sound]) simp_all
  with RequestEnds show ?thesis by simp
next
  case BeginClose
  have "co_sound uc (begin_close co)" by (rule co_sound_cong [OF sound]) (simp_all add: begin_close_def)
  with BeginClose show ?thesis by simp
next
  case (Reset t)
  with reset_sound [OF co_soundD(1) [OF sound]] show ?thesis by (simp add: case_prod_unfold)
next
  case (EndClose t)
  have "buffer_sound uc (co\<lparr>co_closed := True\<rparr>)" using co_soundD(1) [OF sound] by (simp add: buffer_sound_def)
  from reset_sound [OF this] EndClose show ?thesis by (simp add: case_prod_unfold end_close_def)
qed (use sound flush_sound enter_sound leave_sound raised_sound in \<open>simp_all add: case_prod_unfold\<close>)

lemma run_sound:
  "co_sound uc co \<Longrightarrow> list_all (op_ok uc) ps \<Longrightarrow> co_run uc loads ps co = (a, ss, co') \<Longrightarrow> co_sound uc co'"
proof (induction ps arbitrary: co a ss co')
  case (Cons p ps)
  obtain a1 s1 co1 where one: "co_step uc loads p co = (a1, s1, co1)" by (cases "co_step uc loads p co")
  obtain a2 s2 co2 where two: "co_run uc loads ps co1 = (a2, s2, co2)" by (cases "co_run uc loads ps co1")
  have "co_sound uc co1" using step_sound [OF Cons.prems(1), of p loads] Cons.prems(2) one by simp
  from Cons.IH [OF this _ two] Cons.prems(2,3) one two show ?case by auto
qed simp

text \<open>Steps settle in three ways only; nothing is dropped unless a reset cancels the worker.\<close>

definition cancels :: "co_op \<Rightarrow> bool" where
  "cancels p \<longleftrightarrow> (case p of Reset _ \<Rightarrow> True | EndClose _ \<Rightarrow> True | _ \<Rightarrow> False)"

definition settlement_sound :: "unidb \<Rightarrow> semantic_config \<Rightarrow> bool \<Rightarrow> settlement \<Rightarrow> bool" where
  "settlement_sound uc cfg cancelled s \<longleftrightarrow>
     (case s of Committed c \<Rightarrow> commit_sound uc cfg c | Retired f \<Rightarrow> uf_units f \<noteq> []
      | Dropped us \<Rightarrow> cancelled | TurnedAway f \<Rightarrow> True)"

definition fixed :: "coordinator \<Rightarrow> semantic_config \<times> ustring" where
  "fixed co = (co_config co, co_target co)"

lemma frame_target [simp]:
  "co_target (ensure_worker co) = co_target co" "co_target (count_failure us co) = co_target co"
  "co_target (bump_counts f co) = co_target co" "co_target (back_to_loop co) = co_target co"
  "co_target (worker_died co) = co_target co" "co_target (begin_close co) = co_target co"
  "co_target (snd (remove_prefix n co)) = co_target co"
  by (simp_all add: ensure_worker_def count_failure_def bump_counts_def back_to_loop_def worker_died_def
      begin_close_def remove_prefix_def Let_def)

lemma fail_units_config [simp]: "fixed (snd (fail_units us r t co)) = fixed co"
  by (simp add: fixed_def fail_units_def)

lemma append_config: "append_unit u b t co = Inr (es, co') \<Longrightarrow> fixed co' = fixed co"
  by (auto simp: fixed_def append_unit_def fail_units_def split: option.splits if_splits)

lemma turn_config: "fixed (snd (loop_turn uc i ex t co)) = fixed co"
  by (auto simp: fixed_def loop_turn_def Let_def case_prod_unfold begin_query_def res_bind_eq_Inr split: sum.split)

lemma settle_config: "fixed (settle_query q oc t co) = fixed co"
  by (simp add: fixed_def settle_query_def case_prod_unfold split: option.split query_outcome.split semantic_decision.split)

lemma finish_config: "fixed (finish_query q r t co) = fixed co"
  by (simp add: finish_query_def Let_def settle_config) (simp add: fixed_def)

lemma callback_config: "fixed (snd (enter_callback co)) = fixed co"
    "fixed (leave_callback uc co) = fixed co" "fixed (callback_raised co) = fixed co"
  by (simp_all add: fixed_def enter_callback_def leave_callback_def callback_raised_def split: worker.split)

lemma reset_config: "fixed (snd (reset_coordinator t co)) = fixed co"
  by (simp add: reset_coordinator_def case_prod_unfold) (simp add: fixed_def)

lemma flush_config: "fixed (snd (request_flush co)) = fixed co"
  by (simp add: fixed_def request_flush_def)

lemma step_config: "fixed (snd (snd (co_step uc loads p co))) = fixed co"
proof (cases p)
  case (Append u b t)
  show ?thesis
  proof (cases "append_unit u b t co")
    case (Inr r)
    then obtain es co' where "append_unit u b t co = Inr (es, co')" by (cases r) auto
    from append_config [OF this] this show ?thesis by (simp add: Append split: list.split)
  qed (simp add: Append)
next
  case (Finish r t)
  then show ?thesis by (simp add: finish_config split: worker.split)
qed (simp_all add: case_prod_unfold flush_config turn_config callback_config reset_config end_close_def,
    simp_all add: fixed_def)

lemma run_config: "co_run uc loads ps co = (a, ss, co') \<Longrightarrow> fixed co' = fixed co"
proof (induction ps arbitrary: co a ss co')
  case (Cons p ps)
  obtain a1 s1 co1 where one: "co_step uc loads p co = (a1, s1, co1)" by (cases "co_step uc loads p co")
  obtain a2 s2 co2 where two: "co_run uc loads ps co1 = (a2, s2, co2)" by (cases "co_run uc loads ps co1")
  from Cons.IH [OF two] Cons.prems one two step_config [of uc loads p co] show ?case by simp
qed simp

lemma step_settlements:
  assumes sound: "co_sound uc co"
  shows "list_all (settlement_sound uc (co_config co) (cancels p)) (fst (snd (co_step uc loads p co)))"
proof (cases p)
  case (Append u b t)
  then show ?thesis
    by (auto simp: list_all_iff settlement_sound_def append_unit_def fail_units_def
        split: option.splits sum.splits list.splits if_splits)
next
  case EnterCallback
  have "worker_sound uc co" "co_closed co \<longrightarrow> co_worker co = NoWorker"
    using co_soundD(3,4) [OF sound] by auto
  then show ?thesis
    by (auto simp: EnterCallback case_prod_unfold enter_callback_def dropped_def in_hand_def worker_sound_def
        of_event_def settlement_sound_def split: worker.splits)
next
  case (Reset t)
  then show ?thesis
    by (auto simp: case_prod_unfold reset_coordinator_def fail_units_def dropped_def of_event_def settlement_sound_def
        cancels_def make_failure_def Let_def remove_prefix_def)
next
  case (EndClose t)
  then show ?thesis
    by (auto simp: case_prod_unfold end_close_def reset_coordinator_def fail_units_def dropped_def of_event_def
        settlement_sound_def cancels_def make_failure_def Let_def remove_prefix_def)
qed simp_all

text \<open>A unit is turned away by the \<open>append\<close> that brings it.\<close>

definition turned_away_by :: "semantic_config \<Rightarrow> co_op list \<Rightarrow> unit_failure \<Rightarrow> bool" where
  "turned_away_by cfg ps f \<longleftrightarrow> (\<exists>u b t. Append u b t \<in> set ps \<and> uf_units f = [u]
     \<and> uf_reason f = (if sc_source cfg < length (pu_text u) then lit ''source_too_large'' else lit ''buffer_capacity''))"

lemma not_turned_away [simp]: "TurnedAway f \<notin> set (dropped co)" "TurnedAway f \<noteq> of_event e"
  by (simp_all add: dropped_def of_event_def split: unit_event.split)

lemma step_turned_away:
  assumes "TurnedAway f \<in> set (fst (snd (co_step uc loads p co)))"
  shows "turned_away_by (co_config co) [p] f"
proof (cases p)
  case (Append u b t)
  with assms show ?thesis
    by (auto simp: append_unit_def fail_units_def make_failure_def turned_away_by_def Let_def
        split: option.splits sum.splits list.splits if_splits)
qed (use assms in \<open>auto simp: case_prod_unfold split: if_splits worker.splits\<close>)

lemma run_turned_away:
  "co_run uc loads ps co = (a, ss, co') \<Longrightarrow> TurnedAway f \<in> set ss \<Longrightarrow> turned_away_by (co_config co) ps f"
proof (induction ps arbitrary: co a ss co')
  case (Cons p ps)
  obtain a1 s1 co1 where one: "co_step uc loads p co = (a1, s1, co1)" by (cases "co_step uc loads p co")
  obtain a2 s2 co2 where two: "co_run uc loads ps co1 = (a2, s2, co2)" by (cases "co_run uc loads ps co1")
  have cfg: "co_config co1 = co_config co" using step_config [of uc loads p co] one by (simp add: fixed_def)
  have "TurnedAway f \<in> set s1 \<or> TurnedAway f \<in> set s2" using Cons.prems one two by auto
  then have "turned_away_by (co_config co) [p] f \<or> turned_away_by (co_config co) ps f"
    using step_turned_away [of f uc loads p co] Cons.IH [OF two] one cfg by auto
  then show ?case unfolding turned_away_by_def by (simp only: list.set insert_iff empty_iff) blast
qed simp

lemma settlement_weaken: "settlement_sound uc cfg b s \<Longrightarrow> b \<Longrightarrow> settlement_sound uc cfg True s"
  by simp

lemma run_settlements:
  "co_sound uc co \<Longrightarrow> list_all (op_ok uc) ps \<Longrightarrow> co_run uc loads ps co = (a, ss, co') \<Longrightarrow>
     list_all (settlement_sound uc (co_config co) (list_ex cancels ps)) ss"
proof (induction ps arbitrary: co a ss co')
  case (Cons p ps)
  obtain a1 s1 co1 where one: "co_step uc loads p co = (a1, s1, co1)" by (cases "co_step uc loads p co")
  obtain a2 s2 co2 where two: "co_run uc loads ps co1 = (a2, s2, co2)" by (cases "co_run uc loads ps co1")
  have sound: "co_sound uc co1" using step_sound [OF Cons.prems(1), of p loads] Cons.prems(2) one by simp
  have cfg: "co_config co1 = co_config co" using step_config [of uc loads p co] one by (simp add: fixed_def)
  have weak: "settlement_sound uc c b s \<Longrightarrow> (b \<longrightarrow> b') \<Longrightarrow> settlement_sound uc c b' s" for c b b' s
    by (auto simp: settlement_sound_def split: settlement.splits)
  from step_settlements [OF Cons.prems(1), of p loads] one
  have "list_all (settlement_sound uc (co_config co) (cancels p)) s1" by simp
  moreover from Cons.IH [OF sound _ two] Cons.prems(2)
  have "list_all (settlement_sound uc (co_config co) (list_ex cancels ps)) s2" by (simp add: cfg)
  ultimately have "list_all (settlement_sound uc (co_config co) (list_ex cancels (p # ps))) (s1 @ s2)"
    by (auto simp: list_all_iff intro: weak)
  with Cons.prems(3) one two show ?case by simp
qed simp

end
