(* ===== verification/SemanticProps.thy ===== *)
theory SemanticProps
  imports SemanticLedger
begin

text \<open>Properties of the semantic coordinator, over every run from a new coordinator.\<close>

subsection \<open>A concrete session\<close>

definition sample_config :: semantic_config where
  "sample_config = \<lparr>sc_interval = 4 / 5, sc_hold = 4, sc_timeout = 5 / 2, sc_age = 8, sc_units = 64,
     sc_source = 4000, sc_response = 32768, sc_result = 24000\<rparr>"

definition sample_unit :: "string \<Rightarrow> rat \<Rightarrow> pending_unit" where
  "sample_unit i t = \<lparr>pu_id = lit i, pu_text = lit '' hello'', pu_language = lit ''en'', pu_track = lit ''t'',
     pu_epoch = lit ''e'', pu_created = t, pu_lane = lit ''mixed''\<rparr>"

definition sample_loads :: "ustring \<Rightarrow> json option" where
  "sample_loads s = (if s = lit ''answer''
     then Some (JObj [(lit ''action'', JStr (lit ''commit'')), (lit ''through_id'', JStr (lit ''a'')),
                      (lit ''text'', JStr (lit ''x''))]) else None)"

definition sample_chunk :: chunk where
  "sample_chunk = \<lparr>ck_text = Some (lit ''answer''), ck_completed = True, ck_finish = Some (lit ''stop''), ck_stages = None\<rparr>"

definition sample_ops :: "co_op list" where
  "sample_ops = [Append (sample_unit ''a'' 0) False 0, Append (sample_unit ''b'' 0) False 0,
     Turn (lit ''r'') None 1, Finish (Some ([sample_chunk], ProviderDone)) 2, EnterCallback, LeaveCallback, Seal,
     Turn (lit ''s'') None 3, Finish None 6, EnterCallback]"

definition sample_result :: "pending_unit list \<times> settlement list \<times> coordinator" where
  "sample_result = co_run ascii_db sample_loads sample_ops (new_coordinator sample_config (lit ''ko''))"

fun settlement_label :: "settlement \<Rightarrow> string \<times> ustring list" where
  "settlement_label (Committed c) = (''committed'', map pu_id (uc_units c))"
| "settlement_label (Retired f) = (''retired'', map pu_id (uf_units f))"
| "settlement_label (Dropped us) = (''dropped'', map pu_id us)"
| "settlement_label (TurnedAway f) = (''turned away'', map pu_id (uf_units f))"

lemma sample_settled:
  "map settlement_label (fst (snd sample_result)) = [(''committed'', [lit ''a'']), (''retired'', [lit ''b''])]"
  by code_simp

lemma sample_accepted: "map pu_id (fst sample_result) = [lit ''a'', lit ''b'']"
  by code_simp

lemma sample_ops_ok: "list_all (op_ok ascii_db) sample_ops"
  by code_simp

lemma sample_config_ok: "semantic_config_ok sample_config"
  by code_simp

subsection \<open>The ledger\<close>

text \<open>
  C15: source units are settled exactly once and in order: over every run from a new coordinator the units
  that entered the buffer are, in this order, those handed to the callbacks, those the worker is about to hand
  over, and those pending; without a reset or a close none of them is dropped on the way.
\<close>

theorem semantic_units_settled_once:
  assumes "co_run uc loads ops (new_coordinator cfg target) = (accepted, settlements, co)"
    and "list_all (op_ok uc) ops"
  shows "accepted = concat (map settled_units settlements) @ in_hand co @ co_pending co
    \<and> (\<not> list_ex cancels ops \<longrightarrow> list_all (\<lambda>s. case s of Dropped _ \<Rightarrow> False | _ \<Rightarrow> True) settlements)"
proof -
  have new: "in_hand (new_coordinator cfg target) = []" "co_pending (new_coordinator cfg target) = []"
    by (simp_all add: new_coordinator_def in_hand_def)
  from run_balanced [OF assms(1)] have "accepted = concat (map settled_units settlements) @ in_hand co @ co_pending co"
    by (simp add: balanced_def new)
  moreover from run_settlements [OF new_coordinator_sound assms(2,1)]
  have "\<not> list_ex cancels ops \<longrightarrow> list_all (\<lambda>s. case s of Dropped _ \<Rightarrow> False | _ \<Rightarrow> True) settlements"
    by (auto simp: list_all_iff settlement_sound_def split: settlement.splits)
  ultimately show ?thesis by blast
qed

lemma semantic_units_settled_once_witness:
  "map pu_id (concat (map settled_units (fst (snd sample_result))) @ in_hand (snd (snd sample_result))
      @ co_pending (snd (snd sample_result))) = [lit ''a'', lit ''b'']
   \<and> map settlement_label (fst (snd sample_result)) = [(''committed'', [lit ''a'']), (''retired'', [lit ''b''])]"
proof -
  have run: "co_run ascii_db sample_loads sample_ops (new_coordinator sample_config (lit ''ko''))
      = (fst sample_result, fst (snd sample_result), snd (snd sample_result))"
    by (simp add: sample_result_def)
  from conjunct1 [OF semantic_units_settled_once [OF run sample_ops_ok]] sample_accepted sample_settled
  show ?thesis by simp
qed

text \<open>
  C16: Whatever the provider streams, a commit the coordinator publishes covers at least one unit, units of
  one track, epoch, language and lane only, and its text is not blank, has no lone surrogate and is within the
  result limit. A failure always carries source: a retired one at least one unit of the buffer, and one
  that turns a unit away exactly that unit, handed in by an \<open>append\<close> of the run, with the reason
  \<open>source_too_large\<close> when the unit alone exceeds the source limit and \<open>buffer_capacity\<close> otherwise. Units
  are dropped only where a reset or the close cancels the worker.
\<close>

theorem semantic_commits_sound:
  assumes "co_run uc loads ops (new_coordinator cfg target) = (accepted, settlements, co)"
    and "list_all (op_ok uc) ops" and "s \<in> set settlements"
  shows "case s of
      Committed c \<Rightarrow> uc_units c \<noteq> [] \<and> (\<forall>u. u \<in> set (uc_units c) \<longrightarrow> unit_scope u = unit_scope (hd (uc_units c)))
        \<and> \<not> py_blank uc (uc_text c) \<and> \<not> list_ex is_surrogate (uc_text c) \<and> length (uc_text c) \<le> sc_result cfg
    | Retired f \<Rightarrow> uf_units f \<noteq> []
    | Dropped us \<Rightarrow> list_ex cancels ops
    | TurnedAway f \<Rightarrow> \<exists>u b t. Append u b t \<in> set ops \<and> uf_units f = [u]
        \<and> uf_reason f = (if sc_source cfg < length (pu_text u) then lit ''source_too_large'' else lit ''buffer_capacity'')"
proof -
  have turned: "turned_away_by cfg ops f" if "TurnedAway f \<in> set settlements" for f
    using run_turned_away [OF assms(1) that] by (simp add: new_coordinator_def)
  have "settlement_sound uc cfg (list_ex cancels ops) s"
    using run_settlements [OF new_coordinator_sound assms(2,1)] assms(3)
    by (simp add: list_all_iff new_coordinator_def)
  then show ?thesis
  proof (cases s)
    case (TurnedAway f)
    have "TurnedAway f \<in> set settlements" using assms(3) TurnedAway by simp
    then have "turned_away_by cfg ops f" by (rule turned)
    then show ?thesis unfolding turned_away_by_def by (simp only: TurnedAway settlement.case)
  next
    case (Committed c)
    have "commit_sound uc cfg c"
      using \<open>settlement_sound uc cfg (list_ex cancels ops) s\<close> by (simp add: settlement_sound_def Committed)
    then show ?thesis unfolding Committed settlement.case commit_sound_def one_scope_def by blast
  qed (simp_all add: settlement_sound_def)
qed

lemma semantic_commits_sound_witness:
  "\<exists>c. fst (snd sample_result) ! 0 = Committed c \<and> uc_units c \<noteq> [] \<and> \<not> py_blank ascii_db (uc_text c)"
proof -
  have run: "co_run ascii_db sample_loads sample_ops (new_coordinator sample_config (lit ''ko''))
      = (fst sample_result, fst (snd sample_result), snd (snd sample_result))"
    by (simp add: sample_result_def)
  obtain s r where ss: "fst (snd sample_result) = s # r" and lab: "settlement_label s = (''committed'', [lit ''a''])"
    using sample_settled by (auto simp: map_eq_Cons_conv)
  then obtain c where c: "s = Committed c" by (cases s) auto
  have "s \<in> set (fst (snd sample_result))" by (simp add: ss)
  from semantic_commits_sound [OF run sample_ops_ok this] show ?thesis by (simp add: ss c)
qed

subsection \<open>Requests\<close>

definition external_ok :: "unidb \<Rightarrow> ustring list option \<Rightarrow> bool" where
  "external_ok uc ex \<longleftrightarrow> (case ex of None \<Rightarrow> True | Some cs \<Rightarrow> length cs \<le> 2 \<and> \<not> list_ex (py_blank uc) cs)"

lemma drop_context_bounds:
  "total_length (drop_context cs) \<le> 12000 \<and> suffix (drop_context cs) cs"
  by (induction cs) (auto simp: total_length_def suffix_Cons)

lemma query_context_valid:
  assumes "context_sound uc co" "external_ok uc ex"
  shows "\<exists>ctx. query_context uc ex u co = Inr ctx \<and> length ctx \<le> 4
    \<and> list_all (\<lambda>s. \<not> py_blank uc s) ctx \<and> total_length ctx \<le> 12000"
proof -
  let ?own = "if co_context_scope co = Some (unit_scope u) then keep_last 2 (co_context co) else []"
  let ?ext = "case ex of None \<Rightarrow> [] | Some cs \<Rightarrow> cs"
  have run: "query_context uc ex u co = Inr (drop_context (?own @ ?ext))"
    using assms(2) by (auto simp: query_context_def external_ok_def Let_def split: option.split)
  have "length (?own @ ?ext) \<le> 4"
    using assms(2) by (auto simp: external_ok_def split: option.split)
  moreover have own: "set ?own \<subseteq> set (co_context co)" using set_keep_last [of 2 "co_context co"] by auto
  have "\<not> py_blank uc s" if "s \<in> set (?own @ ?ext)" for s
  proof -
    from that have "s \<in> set ?own \<or> s \<in> set ?ext" by (simp only: set_append Un_iff)
    with own assms show ?thesis
      by (auto simp: context_sound_def external_ok_def list_all_iff list_ex_iff split: option.splits)
  qed
  moreover have suf: "suffix (drop_context (?own @ ?ext)) (?own @ ?ext)"
    "total_length (drop_context (?own @ ?ext)) \<le> 12000"
    using drop_context_bounds by blast+
  note suffix_length_le [OF suf(1)] set_mono_suffix [OF suf(1)]
  ultimately have "length (drop_context (?own @ ?ext)) \<le> 4"
    and "\<forall>s \<in> set (drop_context (?own @ ?ext)). \<not> py_blank uc s"
    by (meson order_trans, meson subsetD)
  with run suf(2) show ?thesis by (simp only: list_all_iff) blast
qed

lemma total_length_take: "total_length (map f (take n xs)) \<le> total_length (map f xs)"
proof -
  have "total_length (map f xs) = total_length (map f (take n xs)) + total_length (map f (drop n xs))"
    by (metis append_take_drop_id map_append total_length_def sum_list_append)
  then show ?thesis by simp
qed

lemma query_units_valid:
  assumes "buffer_sound uc co" "semantic_config_ok (co_config co)" "co_pending co \<noteq> []"
  shows "fst (head_of co) \<noteq> [] \<and> length (fst (head_of co)) \<le> 64 \<and> distinct (map pu_id (fst (head_of co)))
    \<and> total_length (map pu_text (fst (head_of co))) \<le> 12000 \<and> list_all (pending_unit_ok uc) (fst (head_of co))"
proof -
  define n where "n = length (fst (head_of co))"
  have head: "fst (head_of co) = take n (co_pending co)" by (simp add: n_def head_of_prefix)
  have len: "n \<le> length (co_pending co)" using arg_cong [OF head, of length] by (simp add: n_def)
  have cfg: "sc_units (co_config co) \<le> 64" "sc_source (co_config co) \<le> 12000"
    using assms(2) by (simp_all add: semantic_config_ok_def)
  have b: "distinct (map pu_id (co_pending co))" "list_all (pending_unit_ok uc) (co_pending co)"
    "length (co_pending co) \<le> sc_units (co_config co)"
    "total_length (map pu_text (co_pending co)) \<le> sc_source (co_config co)"
    using assms(1) by (simp_all add: buffer_sound_def)
  have "distinct (map pu_id (take n (co_pending co)))" using b(1) by (simp add: take_map [symmetric])
  moreover have "list_all (pending_unit_ok uc) (take n (co_pending co))"
    using b(2) by (auto simp: list_all_iff dest: in_set_takeD)
  moreover have "total_length (map pu_text (take n (co_pending co))) \<le> 12000"
    using total_length_take [of pu_text n "co_pending co"] b(4) cfg(2) by simp
  moreover have "length (take n (co_pending co)) \<le> 64" using len b(3) cfg(1) by simp
  moreover have "take n (co_pending co) \<noteq> []" using head_of_nonempty [OF assms(3)] unfolding head .
  ultimately show ?thesis unfolding head by blast
qed

lemma begin_query_valid:
  assumes sound: "co_sound uc co" and cfg: "semantic_config_ok (co_config co)" and ne: "co_pending co \<noteq> []"
    and target: "review_text_ok uc 63 (co_target co)" and rid: "review_text_ok uc 512 rid" and ex: "external_ok uc ex"
  shows "\<exists>co'. begin_query uc rid ex (fst (head_of co)) forced t co = Inr co'"
proof -
  let ?us = "fst (head_of co)"
  note us = query_units_valid [OF co_soundD(1) [OF sound] cfg ne]
  from query_context_valid [OF co_soundD(2) [OF sound] ex] obtain ctx
    where ctx: "query_context uc ex (hd ?us) co = Inr ctx" "length ctx \<le> 4"
      "list_all (\<lambda>s. \<not> py_blank uc s) ctx" "total_length ctx \<le> 12000" by blast
  have "hd ?us \<in> set ?us" using us by simp
  then have h: "pending_unit_ok uc (hd ?us)" using us by (simp add: list_all_iff)
  have lim: "sc_timeout (co_config co) \<le> 120" using cfg by (simp add: semantic_config_ok_def)
  have "query_deadline ?us t co - t \<le> 120" using lim by (simp add: query_deadline_def min_def)
  then have budget: "budget_ok (Fin (max (1 / 1000) ((query_deadline ?us t co - t) * 1000)))"
    by (simp add: budget_ok_def)
  have "\<exists>r. build_request uc rid ?us forced ctx t (query_deadline ?us t co) co = Inr r"
    using us h ctx budget target rid
    by (auto simp: build_request_def Let_def semantic_request_ok_def semantic_unit_ok_def review_text_ok_def
        pending_unit_ok_def deadline_ok_def comp_def list_all_iff Suc_le_eq)
  then show ?thesis by (auto simp: begin_query_def ctx(1))
qed

text \<open>
  Over exact rationals the request of a query is always valid: with a configuration, units, target language, request id
  and external ctx that pass their own checks, no turn of the worker loop after any run stops on the checks of
  \<open>SemanticTranslationRequest\<close>, so a worker never dies of its own request.
\<close>

theorem semantic_requests_valid:
  assumes run: "co_run uc loads ops (new_coordinator cfg target) = (accepted, settlements, co)"
    and ops: "list_all (op_ok uc) ops" and cfg: "semantic_config_ok cfg"
    and target: "review_text_ok uc 63 target" and rid: "review_text_ok uc 512 rid" and ex: "external_ok uc ex"
  shows "fst (loop_turn uc rid ex t co) \<noteq> CannotQuery e"
proof -
  have sound: "co_sound uc co" by (rule run_sound [OF new_coordinator_sound ops run])
  have fx: "semantic_config_ok (co_config co)" "review_text_ok uc 63 (co_target co)"
    using run_config [OF run] cfg target by (simp_all add: new_coordinator_def fixed_def)
  have "begin_query uc rid ex (fst (head_of co)) forced t co \<noteq> Inl err" if "co_pending co \<noteq> []" for forced err
    using begin_query_valid [OF sound fx(1) that fx(2) rid ex, of forced t] by auto
  then show ?thesis by (auto simp: loop_turn_def Let_def case_prod_unfold split: sum.split)
qed

lemma semantic_requests_valid_witness:
  "fst (loop_turn ascii_db (lit ''u'') (Some [lit ''note'']) 7 (snd (snd sample_result))) \<noteq> CannotQuery KeyError
   \<and> \<not> list_ex (py_blank ascii_db) [lit ''note'']"
proof -
  have run: "co_run ascii_db sample_loads sample_ops (new_coordinator sample_config (lit ''ko''))
      = (fst sample_result, fst (snd sample_result), snd (snd sample_result))"
    by (simp add: sample_result_def)
  have t: "review_text_ok ascii_db 63 (lit ''ko'')" by code_simp
  have r: "review_text_ok ascii_db 512 (lit ''u'')" by code_simp
  have e: "external_ok ascii_db (Some [lit ''note''])" by code_simp
  have b: "\<not> list_ex (py_blank ascii_db) [lit ''note'']" by code_simp
  show ?thesis using semantic_requests_valid [OF run sample_ops_ok sample_config_ok t r e] b by blast
qed

end
