(* ===== verification/ProviderStream.thy ===== *)
theory ProviderStream
  imports TextRequests OpenAIBackend
begin

text \<open>
  Model of the response side of \<^verbatim>\<open>translation.py\<close>: bounded lines of a byte stream, server-sent events, the
  guard against inline reasoning and the two stream parsers. A generator is the list of what it yields with
  how it ends; the bytes come in the chunks the HTTP client delivers, and \<open>loads\<close> is the lexical part of
  \<open>json.loads\<close>.
\<close>

subsection \<open>UTF-8\<close>

definition continuation :: "nat \<Rightarrow> bool" where
  "continuation b \<longleftrightarrow> 128 \<le> b \<and> b < 192"

text \<open>The first scalar value of the bytes and the rest; strict, as \<open>bytes.decode("utf-8")\<close>.\<close>

fun utf8_step :: "nat list \<Rightarrow> (nat \<times> nat list) option" where
  "utf8_step [] = None"
| "utf8_step (a # r) =
     (if a < 128 then Some (a, r)
      else if 194 \<le> a \<and> a < 224 then
        (case r of b # r' \<Rightarrow> if continuation b then Some ((a - 192) * 64 + (b - 128), r') else None | _ \<Rightarrow> None)
      else if 224 \<le> a \<and> a < 240 then
        (case r of b # c # r' \<Rightarrow>
           (let v = (a - 224) * 4096 + (b - 128) * 64 + (c - 128)
            in if continuation b \<and> continuation c \<and> 2048 \<le> v \<and> \<not> is_surrogate v then Some (v, r') else None)
         | _ \<Rightarrow> None)
      else if 240 \<le> a \<and> a < 245 then
        (case r of b # c # d # r' \<Rightarrow>
           (let v = (a - 240) * 262144 + (b - 128) * 4096 + (c - 128) * 64 + (d - 128)
            in if continuation b \<and> continuation c \<and> continuation d \<and> 65536 \<le> v \<and> v < 1114112
               then Some (v, r') else None)
         | _ \<Rightarrow> None)
      else None)"

lemma utf8_step_shorter: "utf8_step bs = Some (c, r) \<Longrightarrow> length r < length bs"
  by (cases bs) (auto simp: Let_def split: if_splits list.splits)

function utf8_decode :: "nat list \<Rightarrow> ustring option" where
  "utf8_decode bs =
     (if bs = [] then Some []
      else case utf8_step bs of
        None \<Rightarrow> None
      | Some (c, r) \<Rightarrow> map_option (\<lambda>s. c # s) (utf8_decode r))"
  by pat_completeness auto
termination
  by (relation "measure length") (auto dest: utf8_step_shorter)

declare utf8_decode.simps [simp del]

subsection \<open>Bounded lines\<close>

datatype stream_stop = StreamOver | StreamError string | TransportLost

definition rstrip_cr :: "nat list \<Rightarrow> nat list" where
  "rstrip_cr bs = rstrip_set (\<lambda>b. b = 13) bs"

definition decode_line :: "nat list \<Rightarrow> ustring option" where
  "decode_line bs = utf8_decode (rstrip_cr bs)"

text \<open>The inner loop: the complete lines, up to the first error.\<close>

fun emit_lines :: "nat list list \<Rightarrow> ustring list \<times> bool" where
  "emit_lines [] = ([], True)"
| "emit_lines (l # ls) =
     (if 65536 < length l then ([], False)
      else case decode_line l of
        None \<Rightarrow> ([], False)
      | Some s \<Rightarrow> (case emit_lines ls of (ss, ok) \<Rightarrow> (s # ss, ok)))"

definition finish_lines :: "nat list \<Rightarrow> bool \<Rightarrow> ustring list \<times> stream_stop" where
  "finish_lines pending lost =
     (if lost then ([], TransportLost)
      else if pending = [] then ([], StreamOver)
      else case decode_line pending of None \<Rightarrow> ([], StreamError ''invalid_output'') | Some s \<Rightarrow> ([s], StreamOver))"

text \<open>\<open>_bounded_lines\<close>; \<open>lost\<close> says that the transport raises after the last chunk.\<close>

fun bounded_lines :: "nat \<Rightarrow> nat list \<Rightarrow> nat list list \<Rightarrow> bool \<Rightarrow> ustring list \<times> stream_stop" where
  "bounded_lines got pending [] lost = finish_lines pending lost"
| "bounded_lines got pending (c # cs) lost =
     (if 1048576 < got + length c then ([], StreamError ''invalid_output'')
      else
        let parts = split_char 10 (pending @ c)
        in case emit_lines (butlast parts) of
             (ls, False) \<Rightarrow> (ls, StreamError ''invalid_output'')
           | (ls, True) \<Rightarrow>
               if 65536 < length (last parts) then (ls, StreamError ''invalid_output'')
               else (case bounded_lines (got + length c) (last parts) cs lost of (r, stop) \<Rightarrow> (ls @ r, stop)))"

subsection \<open>Server-sent events\<close>

text \<open>\<open>_sse_data\<close> over the lines: the data of the complete events; an incomplete last event is not one.\<close>

fun sse_events :: "ustring list \<Rightarrow> nat \<Rightarrow> ustring list \<Rightarrow> stream_stop \<Rightarrow> ustring list \<times> stream_stop" where
  "sse_events parts used [] stop = ([], stop)"
| "sse_events parts used (l # ls) stop =
     (if l = [] then
        (if parts \<noteq> [] then (case sse_events [] 0 ls stop of (es, s) \<Rightarrow> (py_join [10] parts # es, s))
         else sse_events parts used ls stop)
      else if starts_with (lit ''data:'') l then
        (if 65536 < used + length l then ([], StreamError ''invalid_output'')
         else
           let v = drop 5 l
           in sse_events (parts @ [if starts_with [32] v then drop 1 v else v]) (used + length l) ls stop)
      else sse_events parts used ls stop)"

subsection \<open>The guard against inline reasoning\<close>

definition think_markers :: "ustring list" where
  "think_markers = [lit ''<think>'', lit ''</think>'']"

fun contains :: "ustring \<Rightarrow> ustring \<Rightarrow> bool" where
  "contains p [] = (p = [])"
| "contains p (c # s) = (starts_with p (c # s) \<or> contains p s)"

definition retained_length :: "ustring \<Rightarrow> nat" where
  "retained_length lowered =
     fold max (concat (map (\<lambda>m. filter (\<lambda>n. has_suffix (take n m) lowered) [1 ..< length m]) think_markers)) 0"

text \<open>\<open>feed\<close>: what becomes visible and what stays pending, or nothing when the provider reasons inline.\<close>

definition guard_feed :: "unidb \<Rightarrow> ustring \<Rightarrow> ustring \<Rightarrow> (ustring \<times> ustring) option" where
  "guard_feed uc pending content =
     (let combined = pending @ content; lowered = py_lower uc combined
      in if list_ex (\<lambda>m. contains m lowered) think_markers then None
         else
           let n = retained_length lowered; cut = length combined - n
           in Some (take cut combined, drop cut combined))"

subsection \<open>Provider chunks\<close>

record out_chunk =
  oc_text :: ustring
  oc_completed :: bool
  oc_finish :: "ustring option"
  oc_usage :: "(ustring \<times> json) list"

definition text_chunk :: "ustring \<Rightarrow> out_chunk" where
  "text_chunk s = \<lparr>oc_text = s, oc_completed = False, oc_finish = None, oc_usage = []\<rparr>"

definition final_chunk :: "(ustring \<times> json) list \<Rightarrow> out_chunk" where
  "final_chunk usage = \<lparr>oc_text = [], oc_completed = True, oc_finish = Some (lit ''stop''), oc_usage = usage\<rparr>"

datatype provider_stop = Completes | FailsWith string | LosesConnection

text \<open>After an item of the stream: go on in a state, or stop.\<close>

datatype 's after_item = GoesOn 's | Stops provider_stop

definition stop_of :: "stream_stop \<Rightarrow> provider_stop" where
  "stop_of s = (case s of StreamOver \<Rightarrow> FailsWith ''incomplete'' | StreamError c \<Rightarrow> FailsWith c
                | TransportLost \<Rightarrow> LosesConnection)"

fun run_items ::
    "('s \<Rightarrow> ustring \<Rightarrow> out_chunk list \<times> 's after_item) \<Rightarrow> 's \<Rightarrow> ustring list \<Rightarrow> stream_stop
       \<Rightarrow> out_chunk list \<times> provider_stop" where
  "run_items f s [] stop = ([], stop_of stop)"
| "run_items f s (i # is) stop =
     (case f s i of
        (cs, Stops e) \<Rightarrow> (cs, e)
      | (cs, GoesOn s') \<Rightarrow> (case run_items f s' is stop of (r, e) \<Rightarrow> (cs @ r, e)))"

text \<open>\<open>data.get(key, {})\<close> where the code goes on with \<open>.get\<close>: anything but an object raises.\<close>

definition sub_object :: "string \<Rightarrow> (ustring \<times> json) list \<Rightarrow> (ustring \<times> json) list option" where
  "sub_object k ps = (case field k ps of None \<Rightarrow> Some [] | Some (JObj qs) \<Rightarrow> Some qs | Some _ \<Rightarrow> None)"

subsection \<open>Ollama\<close>

definition ollama_usage :: "(ustring \<times> json) list \<Rightarrow> (ustring \<times> json) list" where
  "ollama_usage ps = List.map_filter (\<lambda>k. map_option (\<lambda>v. (k, v)) (map_of ps k))
     (map lit [''prompt_eval_count'', ''eval_count'', ''load_duration'', ''prompt_eval_duration'',
               ''eval_duration'', ''total_duration''])"

definition ollama_done :: "(ustring \<times> json) list \<Rightarrow> out_chunk list \<times> unit after_item" where
  "ollama_done ps =
     (if field ''done'' ps \<noteq> Some (JBool True) then ([], GoesOn ())
      else if field ''done_reason'' ps \<noteq> Some (JStr (lit ''stop'')) then ([], Stops (FailsWith ''incomplete''))
      else ([final_chunk (ollama_usage ps)], Stops Completes))"

definition ollama_message :: "(ustring \<times> json) list \<Rightarrow> out_chunk list \<times> unit after_item" where
  "ollama_message ps =
     (case sub_object ''message'' ps of
        None \<Rightarrow> ([], Stops (FailsWith ''invalid_output''))
      | Some m \<Rightarrow>
          if truthy_field ''thinking'' m then ([], Stops (FailsWith ''unsupported_profile''))
          else if truthy_field ''tool_calls'' m then ([], Stops (FailsWith ''invalid_output''))
          else (case (case field ''content'' m of None \<Rightarrow> JStr [] | Some c \<Rightarrow> c) of
                  JStr t \<Rightarrow> (case ollama_done ps of (cs, a) \<Rightarrow> ((if t = [] then [] else [text_chunk t]) @ cs, a))
                | _ \<Rightarrow> ([], Stops (FailsWith ''invalid_output''))))"

definition ollama_line ::
    "unidb \<Rightarrow> (ustring \<Rightarrow> json option) \<Rightarrow> unit \<Rightarrow> ustring \<Rightarrow> out_chunk list \<times> unit after_item" where
  "ollama_line uc loads u line =
     (if py_blank uc line then ([], GoesOn ())
      else case loads line of
        Some (JObj ps) \<Rightarrow>
          if truthy_field ''error'' ps then ([], Stops (FailsWith ''server_error'')) else ollama_message ps
      | _ \<Rightarrow> ([], Stops (FailsWith ''invalid_output'')))"

definition ends_in_any :: "ustring list \<Rightarrow> ustring \<Rightarrow> bool" where
  "ends_in_any ps s \<longleftrightarrow> list_ex (\<lambda>p. has_suffix p s) ps"

definition status_error :: "int \<Rightarrow> string option" where
  "status_error status =
     (if 200 \<le> status \<and> status < 300 then None
      else Some (if status = 401 \<or> status = 403 then ''auth''
                 else if status = 404 then ''model_or_endpoint_missing''
                 else if status = 429 then ''rate_limit'' else ''server_error''))"

definition ollama_stream ::
    "unidb \<Rightarrow> (ustring \<Rightarrow> json option) \<Rightarrow> ustring \<Rightarrow> int \<Rightarrow> nat list list \<Rightarrow> bool \<Rightarrow> out_chunk list \<times> provider_stop" where
  "ollama_stream uc loads model status chunks lost =
     (if ends_in_any [lit '':cloud'', lit ''-cloud''] (py_lower uc model) then ([], FailsWith ''cloud_model'')
      else case status_error status of
        Some c \<Rightarrow> ([], FailsWith c)
      | None \<Rightarrow> (case bounded_lines 0 [] chunks lost of (ls, stop) \<Rightarrow> run_items (ollama_line uc loads) () ls stop))"

subsection \<open>OpenAI-compatible servers\<close>

record sse_state =
  ss_finished :: bool
  ss_usage :: "(ustring \<times> json) list"
  ss_guard :: "ustring option"

definition invalid_item :: "out_chunk list \<times> sse_state after_item" where
  "invalid_item = ([], Stops (FailsWith ''invalid_output''))"

definition choice_finish ::
    "out_chunk list \<Rightarrow> (ustring \<times> json) list \<Rightarrow> sse_state \<Rightarrow> out_chunk list \<times> sse_state after_item" where
  "choice_finish cs ps s =
     (case field ''finish_reason'' ps of
        None \<Rightarrow> (cs, GoesOn s)
      | Some JNull \<Rightarrow> (cs, GoesOn s)
      | Some r \<Rightarrow> if r \<noteq> JStr (lit ''stop'') then (cs, Stops (FailsWith ''incomplete''))
                 else (cs, GoesOn (s\<lparr>ss_finished := True\<rparr>)))"

definition choice_content ::
    "unidb \<Rightarrow> ustring \<Rightarrow> (ustring \<times> json) list \<Rightarrow> sse_state \<Rightarrow> out_chunk list \<times> sse_state after_item" where
  "choice_content uc t ps s =
     (if t = [] then choice_finish [] ps s
      else if ss_finished s then invalid_item
      else case ss_guard s of
        None \<Rightarrow> choice_finish [text_chunk t] ps s
      | Some pending \<Rightarrow>
          (case guard_feed uc pending t of
             None \<Rightarrow> ([], Stops (FailsWith ''unsupported_profile''))
           | Some (visible, pending') \<Rightarrow>
               choice_finish (if visible = [] then [] else [text_chunk visible]) ps (s\<lparr>ss_guard := Some pending'\<rparr>)))"

definition sse_choice ::
    "unidb \<Rightarrow> json \<Rightarrow> sse_state \<Rightarrow> out_chunk list \<times> sse_state after_item" where
  "sse_choice uc choice s =
     (case choice of
        JObj ps \<Rightarrow>
          if field ''index'' ps \<noteq> None \<and> field ''index'' ps \<noteq> Some (JNum 0) then invalid_item
          else (case sub_object ''delta'' ps of
            None \<Rightarrow> invalid_item
          | Some d \<Rightarrow>
              if truthy_field ''reasoning_content'' d \<or> truthy_field ''reasoning'' d
                then ([], Stops (FailsWith ''unsupported_profile''))
              else if truthy_field ''tool_calls'' d \<or> truthy_field ''function_call'' d then invalid_item
              else (case field ''content'' d of
                None \<Rightarrow> choice_content uc [] ps s
              | Some JNull \<Rightarrow> choice_content uc [] ps s
              | Some (JStr t) \<Rightarrow> choice_content uc t ps s
              | Some _ \<Rightarrow> invalid_item))
      | _ \<Rightarrow> invalid_item)"

definition sse_packet ::
    "unidb \<Rightarrow> (ustring \<times> json) list \<Rightarrow> sse_state \<Rightarrow> out_chunk list \<times> sse_state after_item" where
  "sse_packet uc ps s =
     (if truthy_field ''error'' ps then ([], Stops (FailsWith ''server_error''))
      else
        (case (case field ''usage'' ps of None \<Rightarrow> Some (ss_usage s) | Some JNull \<Rightarrow> Some (ss_usage s)
               | Some (JObj u) \<Rightarrow> Some u | Some _ \<Rightarrow> None) of
           None \<Rightarrow> invalid_item
         | Some usage \<Rightarrow>
             (case (case field ''choices'' ps of None \<Rightarrow> JList [] | Some v \<Rightarrow> v) of
                JList [] \<Rightarrow> ([], GoesOn (s\<lparr>ss_usage := usage\<rparr>))
              | JList [choice] \<Rightarrow> sse_choice uc choice (s\<lparr>ss_usage := usage\<rparr>)
              | _ \<Rightarrow> invalid_item)))"

definition sse_item ::
    "unidb \<Rightarrow> (ustring \<Rightarrow> json option) \<Rightarrow> sse_state \<Rightarrow> ustring \<Rightarrow> out_chunk list \<times> sse_state after_item" where
  "sse_item uc loads s raw =
     (if raw = lit ''[DONE]'' then
        (if \<not> ss_finished s then ([], Stops (FailsWith ''incomplete''))
         else ((case ss_guard s of None \<Rightarrow> [] | Some p \<Rightarrow> if p = [] then [] else [text_chunk p])
               @ [final_chunk (ss_usage s)], Stops Completes))
      else case loads raw of
        Some (JObj ps) \<Rightarrow> sse_packet uc ps s
      | _ \<Rightarrow> invalid_item)"

definition chat_stream ::
    "unidb \<Rightarrow> (ustring \<Rightarrow> json option) \<Rightarrow> bool \<Rightarrow> int \<Rightarrow> nat list list \<Rightarrow> bool \<Rightarrow> out_chunk list \<times> provider_stop" where
  "chat_stream uc loads guarded status chunks lost =
     (case status_error status of
        Some c \<Rightarrow> ([], FailsWith c)
      | None \<Rightarrow>
          (case bounded_lines 0 [] chunks lost of (ls, stop) \<Rightarrow>
             (case sse_events [] 0 ls stop of (es, stop') \<Rightarrow>
                run_items (sse_item uc loads)
                  \<lparr>ss_finished = False, ss_usage = [], ss_guard = (if guarded then Some [] else None)\<rparr> es stop')))"

subsection \<open>Payloads\<close>

record http_provider =
  hp_model :: ustring
  hp_max_tokens :: int
  hp_options :: "(ustring \<times> json) list"

definition lm_studio_options :: "ustring list" where
  "lm_studio_options = map lit [''temperature'', ''top_p'', ''top_k'', ''stop'', ''presence_penalty'',
     ''frequency_penalty'', ''logit_bias'', ''repeat_penalty'', ''seed'']"

definition new_http_provider ::
    "bool \<Rightarrow> ustring \<Rightarrow> int \<Rightarrow> (ustring \<times> json) list \<Rightarrow> http_provider res" where
  "new_http_provider url_ok model max_tokens options =
     (if \<not> url_ok then Inl (ValueError ''Use an HTTP(S) endpoint without credentials in its URL'')
      else if model = [] \<or> max_tokens < 1 then Inl (ValueError ''Model and positive max_tokens are required'')
      else Inr \<lparr>hp_model = model, hp_max_tokens = max_tokens, hp_options = options\<rparr>)"

definition new_lm_studio ::
    "bool \<Rightarrow> ustring \<Rightarrow> int \<Rightarrow> (ustring \<times> json) list \<Rightarrow> http_provider res" where
  "new_lm_studio url_ok model max_tokens options =
     (if \<not> list_all (\<lambda>kv. fst kv \<in> set lm_studio_options) options
        then Inl (ValueError ''Use only documented LM Studio sampling options; configure thinking in the loaded model settings'')
      else new_http_provider url_ok model max_tokens options)"

definition put_items :: "(ustring \<times> json) list \<Rightarrow> (ustring \<times> json) list \<Rightarrow> (ustring \<times> json) list" where
  "put_items items base = fold (\<lambda>(k, v). al_put k v) items base"

text \<open>The answer's token limit that a request forces, if any.\<close>

definition forced_tokens :: "http_provider \<Rightarrow> text_request \<Rightarrow> int option" where
  "forced_tokens p r = (case r of TranslateRequest _ \<Rightarrow> None | ReviewRequest q \<Rightarrow> Some (rr_output_tokens q)
     | SelectRequest _ \<Rightarrow> Some (max 1024 (hp_max_tokens p)))"

definition force_tokens :: "string \<Rightarrow> http_provider \<Rightarrow> text_request \<Rightarrow> (ustring \<times> json) list \<Rightarrow> (ustring \<times> json) list" where
  "force_tokens key p r items =
     (case forced_tokens p r of None \<Rightarrow> items | Some n \<Rightarrow> al_put (lit key) (j_count n) items)"

definition ollama_payload :: "unidb \<Rightarrow> (rat \<Rightarrow> ustring) \<Rightarrow> http_provider \<Rightarrow> text_request \<Rightarrow> (ustring \<times> json) list" where
  "ollama_payload uc num p r =
     [(lit ''model'', JStr (hp_model p)), (lit ''messages'', JList (request_messages uc num r)),
      (lit ''stream'', JBool True), (lit ''think'', JBool False), (lit ''keep_alive'', JStr (lit ''10m'')),
      (lit ''options'', JObj (force_tokens ''num_predict'' p r (put_items (hp_options p)
         [(lit ''temperature'', j_count 0), (lit ''num_ctx'', j_count 4096),
          (lit ''num_predict'', j_count (hp_max_tokens p))])))]"

definition reserved_items :: "unidb \<Rightarrow> (rat \<Rightarrow> ustring) \<Rightarrow> http_provider \<Rightarrow> text_request \<Rightarrow> (ustring \<times> json) list" where
  "reserved_items uc num p r =
     [(lit ''model'', JStr (hp_model p)), (lit ''messages'', JList (request_messages uc num r)),
      (lit ''stream'', JBool True)]"

definition llama_payload :: "unidb \<Rightarrow> (rat \<Rightarrow> ustring) \<Rightarrow> http_provider \<Rightarrow> text_request \<Rightarrow> (ustring \<times> json) list" where
  "llama_payload uc num p r =
     force_tokens ''max_tokens'' p r (put_items (reserved_items uc num p r) (put_items (hp_options p)
       (reserved_items uc num p r @
        [(lit ''max_tokens'', j_count (hp_max_tokens p)), (lit ''temperature'', j_count 0),
         (lit ''cache_prompt'', JBool True),
         (lit ''chat_template_kwargs'', JObj [(lit ''enable_thinking'', JBool False)])])))"

definition lm_studio_payload :: "unidb \<Rightarrow> (rat \<Rightarrow> ustring) \<Rightarrow> http_provider \<Rightarrow> text_request \<Rightarrow> (ustring \<times> json) list" where
  "lm_studio_payload uc num p r =
     put_items (hp_options p)
       (reserved_items uc num p r @
        [(lit ''max_tokens'', j_count (case forced_tokens p r of None \<Rightarrow> hp_max_tokens p | Some n \<Rightarrow> n)),
         (lit ''temperature'', j_count 0)])"

end
