(* ===== verification/ProviderProps.thy ===== *)
theory ProviderProps
  imports ProviderStream
begin

text \<open>
  Properties of the provider streams: the lines of a response do not depend on how its bytes are cut into
  chunks, and inline reasoning never becomes visible, wherever its tag is cut.
\<close>

subsection \<open>Lines do not depend on the chunks\<close>

text \<open>The reference: the lines of a whole body, or nothing when it breaks a limit or is no UTF-8.\<close>

definition body_lines :: "nat list \<Rightarrow> ustring list option" where
  "body_lines body =
     (let parts = split_char 10 body
      in if 1048576 < length body \<or> list_ex (\<lambda>p. 65536 < length p) parts then None
         else those (map decode_line (butlast parts @ (if last parts = [] then [] else [last parts]))))"

lemma emit_lines_ok:
  "emit_lines ls = (ss, True) \<longleftrightarrow> list_all (\<lambda>l. length l \<le> 65536) ls \<and> those (map decode_line ls) = Some ss"
proof (induction ls arbitrary: ss)
  case (Cons l ls)
  obtain r ok where e: "emit_lines ls = (r, ok)" by (cases "emit_lines ls")
  have ih: "ok \<and> r = ss' \<longleftrightarrow> list_all (\<lambda>l. length l \<le> 65536) ls \<and> those (map decode_line ls) = Some ss'" for ss'
    using Cons.IH [of ss'] by (auto simp: e)
  show ?case
    using ih by (cases "65536 < length l"; cases "decode_line l") (auto simp: e)
qed simp

lemma those_append: "those (xs @ ys) = (case (those xs, those ys) of (Some a, Some b) \<Rightarrow> Some (a @ b) | _ \<Rightarrow> None)"
  by (induction xs) (auto split: option.splits)

lemma split_char_append_general:
  "split_char d (a @ b) = butlast (split_char d a) @ split_char d (last (split_char d a) @ b)"
proof (induction a)
  case (Cons c a)
  then show ?case by (cases "split_char d a") (auto simp: split_char_id split: list.splits if_splits)
qed (simp add: )

lemma last_split_free: "d \<notin> set (last (split_char d s))"
  by (rule split_char_free [of _ d s]) simp

text \<open>The state of the loop: the partial line; the rest of the body is split after it.\<close>

lemma split_char_prefix:
  "d \<notin> set p \<Longrightarrow> split_char d (p @ s) = (p @ hd (split_char d s)) # tl (split_char d s)"
proof (induction p)
  case Nil
  then show ?case by (cases "split_char d s") simp_all
qed simp

definition body_parts :: "nat list \<Rightarrow> nat list list" where
  "body_parts body = (let parts = split_char 10 body
     in butlast parts @ (if last parts = [] then [] else [last parts]))"

definition parts_fit :: "nat list \<Rightarrow> bool" where
  "parts_fit body \<longleftrightarrow> list_all (\<lambda>p. length p \<le> 65536) (split_char 10 body)"

lemma body_parts_append:
  "body_parts (a @ b) = butlast (split_char 10 a) @ body_parts (last (split_char 10 a) @ b)"
  by (simp add: body_parts_def Let_def split_char_append_general [of 10 a b] butlast_append)

lemma parts_fit_append:
  "parts_fit (a @ b) \<longleftrightarrow> list_all (\<lambda>p. length p \<le> 65536) (butlast (split_char 10 a))
     \<and> parts_fit (last (split_char 10 a) @ b)"
  by (simp add: parts_fit_def split_char_append_general [of 10 a b])

lemma parts_fit_partial: "10 \<notin> set p \<Longrightarrow> parts_fit (p @ s) \<Longrightarrow> length p \<le> 65536"
  by (simp add: parts_fit_def split_char_prefix)

lemma bounded_lines_from:
  assumes "10 \<notin> set pending" "length pending \<le> 65536" "got \<le> 1048576"
  shows "bounded_lines got pending cs False = (ls, StreamOver) \<longleftrightarrow>
    got + length (concat cs) \<le> 1048576 \<and> parts_fit (pending @ concat cs)
    \<and> those (map decode_line (body_parts (pending @ concat cs))) = Some ls"
  using assms
proof (induction cs arbitrary: got pending ls)
  case Nil
  then show ?case
    by (auto simp: finish_lines_def body_parts_def parts_fit_def split_char_id split: option.splits)
next
  case (Cons c cs)
  define parts where "parts = split_char 10 (pending @ c)"
  have free: "10 \<notin> set (last parts)" by (simp add: parts_def last_split_free)
  have fit: "parts_fit (pending @ concat (c # cs)) \<longleftrightarrow>
      list_all (\<lambda>p. length p \<le> 65536) (butlast parts) \<and> parts_fit (last parts @ concat cs)"
    using parts_fit_append [of "pending @ c" "concat cs"] by (simp add: parts_def)
  have body: "body_parts (pending @ concat (c # cs)) = butlast parts @ body_parts (last parts @ concat cs)"
    using body_parts_append [of "pending @ c" "concat cs"] by (simp add: parts_def)
  show ?case
  proof (cases "got + length c \<le> 1048576 \<and> length (last parts) \<le> 65536")
    case False
    have "bounded_lines got pending (c # cs) False \<noteq> (ls, StreamOver)"
      using False by (auto simp: parts_def [symmetric] Let_def split: prod.splits bool.splits)
    moreover have "\<not> (got + length (concat (c # cs)) \<le> 1048576 \<and> parts_fit (pending @ concat (c # cs)))"
      using False parts_fit_partial [OF free, of "concat cs"] unfolding fit by auto
    ultimately show ?thesis by blast
  next
    case True
    note ih = Cons.IH [OF free conjunct2 [OF True] conjunct1 [OF True]]
    have "bounded_lines got pending (c # cs) False = (ls, StreamOver) \<longleftrightarrow>
        (\<exists>l1 l2. emit_lines (butlast parts) = (l1, True) \<and> ls = l1 @ l2
           \<and> bounded_lines (got + length c) (last parts) cs False = (l2, StreamOver))"
      using True by (auto simp: parts_def [symmetric] Let_def split: prod.splits bool.splits)
    also have "\<dots> \<longleftrightarrow> got + length (concat (c # cs)) \<le> 1048576 \<and> parts_fit (pending @ concat (c # cs))
        \<and> those (map decode_line (body_parts (pending @ concat (c # cs)))) = Some ls"
      unfolding fit body emit_lines_ok ih by (auto simp: those_append split: option.splits)
    finally show ?thesis .
  qed
qed

subsection \<open>The guard\<close>

definition marker_chars :: "nat set" where
  "marker_chars = set (lit ''</think>'')"

text \<open>
  What the guard relies on in \<open>str.lower\<close>: a character that does not lower to exactly one character lowers to
  something that does not end in a character of the tags (in Unicode, capital I with a dot above).
\<close>

definition aligned_lower :: "unidb \<Rightarrow> bool" where
  "aligned_lower uc \<longleftrightarrow>
     (\<forall>c. length (u_lower uc c) = 1 \<or> u_lower uc c \<noteq> [] \<and> last (u_lower uc c) \<notin> marker_chars)"

lemma contains_iff: "contains p s \<longleftrightarrow> (\<exists>a b. s = a @ p @ b)"
proof (induction s)
  case (Cons c s)
  have "contains p (c # s) \<longleftrightarrow> (\<exists>b. c # s = p @ b) \<or> (\<exists>a b. s = a @ p @ b)"
    using Cons.IH by (auto simp: starts_with_def) (metis append_take_drop_id)
  also have "\<dots> \<longleftrightarrow> (\<exists>a b. c # s = a @ p @ b)"
    by (metis append_Cons append_Nil neq_Nil_conv list.inject)
  finally show ?case .
qed auto

lemma py_lower_append [simp]: "py_lower uc (a @ b) = py_lower uc a @ py_lower uc b"
  by (simp add: py_lower_def)

lemma lower_suffix:
  assumes "aligned_lower uc"
  shows "py_lower uc s = x @ y \<Longrightarrow> set y \<subseteq> marker_chars \<Longrightarrow>
     \<exists>a b. s = a @ b \<and> py_lower uc b = y \<and> length b = length y"
proof (induction s arbitrary: y rule: rev_induct)
  case (snoc c s)
  show ?case
  proof (cases "y = []")
    case True
    then show ?thesis by (intro exI [of _ "s @ [c]"] exI [of _ "[]"]) (simp add: py_lower_def)
  next
    case False
    then obtain y' d where y: "y = y' @ [d]" by (metis rev_exhaust)
    have eq: "py_lower uc s @ u_lower uc c = (x @ y') @ [d]" using snoc.prems(1) by (simp add: y py_lower_def)
    have ne: "u_lower uc c \<noteq> []" using assms by (auto simp: aligned_lower_def dest: spec [of _ c])
    then have "last (u_lower uc c) = d" using eq by (metis last_appendR last_snoc)
    then have "length (u_lower uc c) = 1"
      using assms snoc.prems(2) by (auto simp: aligned_lower_def y dest: spec [of _ c])
    then have c: "u_lower uc c = [d]" using \<open>last (u_lower uc c) = d\<close> by (cases "u_lower uc c") auto
    then have "py_lower uc s = x @ y'" using eq by simp
    from snoc.IH [OF this] snoc.prems(2) obtain a b where "s = a @ b" "py_lower uc b = y'" "length b = length y'"
      by (auto simp: y)
    then show ?thesis by (intro exI [of _ a] exI [of _ "b @ [c]"]) (simp add: y c py_lower_def)
  qed
qed (simp add: py_lower_def)

text \<open>A partial tag: a proper, non-empty prefix of a marker.\<close>

definition partial_tag :: "ustring \<Rightarrow> bool" where
  "partial_tag p \<longleftrightarrow> (\<exists>m \<in> set think_markers. \<exists>n. 1 \<le> n \<and> n < length m \<and> p = take n m)"

lemma retained_max:
  "retained_length s = Max (insert 0 {n. \<exists>m \<in> set think_markers. 1 \<le> n \<and> n < length m \<and> has_suffix (take n m) s})"
proof -
  let ?ns = "concat (map (\<lambda>m. filter (\<lambda>n. has_suffix (take n m) s) [1 ..< length m]) think_markers)"
  have "retained_length s = Max (set (0 # ?ns))" unfolding retained_length_def Max.set_eq_fold ..
  moreover have "set (0 # ?ns)
      = insert 0 {n. \<exists>m \<in> set think_markers. 1 \<le> n \<and> n < length m \<and> has_suffix (take n m) s}"
    by auto
  ultimately show ?thesis by simp
qed

lemma retained_finite: "finite {n. \<exists>m \<in> set think_markers. 1 \<le> n \<and> n < length m \<and> has_suffix (take n m) s}"
  by (rule finite_subset [of _ "\<Union>m \<in> set think_markers. {..< length m}"]) auto

lemma retained_longest: "partial_tag p \<Longrightarrow> has_suffix p s \<Longrightarrow> length p \<le> retained_length s"
  unfolding retained_max partial_tag_def
  by (rule Max_ge) (use retained_finite [of s] in auto)

lemma retained_tag: "retained_length s = 0 \<or> (\<exists>p. partial_tag p \<and> has_suffix p s \<and> length p = retained_length s)"
proof -
  let ?N = "insert 0 {n. \<exists>m \<in> set think_markers. 1 \<le> n \<and> n < length m \<and> has_suffix (take n m) s}"
  have "Max ?N \<in> ?N" by (rule Max_in) (use retained_finite [of s] in auto)
  then have "retained_length s = 0 \<or> (\<exists>m \<in> set think_markers. 1 \<le> retained_length s
      \<and> retained_length s < length m \<and> has_suffix (take (retained_length s) m) s)"
    unfolding retained_max by blast
  then show ?thesis
  proof (elim disjE bexE conjE)
    fix m assume m: "m \<in> set think_markers" "1 \<le> retained_length s" "retained_length s < length m"
      "has_suffix (take (retained_length s) m) s"
    then have "partial_tag (take (retained_length s) m)" unfolding partial_tag_def by blast
    moreover have "length (take (retained_length s) m) = retained_length s" using m(3) by simp
    ultimately show ?thesis using m(4) by blast
  qed blast
qed

lemma partial_tag_chars: "partial_tag p \<Longrightarrow> set p \<subseteq> marker_chars"
proof -
  have "list_all (\<lambda>m. set m \<subseteq> marker_chars) think_markers" by code_simp
  then show "partial_tag p \<Longrightarrow> set p \<subseteq> marker_chars"
    by (auto simp: partial_tag_def list_all_iff dest!: in_set_takeD)
qed

lemma partial_tag_prefix:
  assumes "m \<in> set think_markers" "m = p @ r" "p \<noteq> []" "r \<noteq> []" shows "partial_tag p"
  unfolding partial_tag_def using assms by (intro bexI [of _ m] exI [of _ "length p"]) (auto simp: Suc_le_eq)

definition guard_inv :: "unidb \<Rightarrow> ustring \<Rightarrow> ustring \<Rightarrow> bool" where
  "guard_inv uc shown pending \<longleftrightarrow>
     (\<forall>m \<in> set think_markers. \<not> contains m (py_lower uc (shown @ pending)))
     \<and> (\<forall>p. partial_tag p \<longrightarrow> has_suffix p (py_lower uc (shown @ pending)) \<longrightarrow> length p \<le> length pending)
     \<and> length (py_lower uc pending) = length pending"

lemma guard_inv_empty: "guard_inv uc [] []"
proof -
  have "[] \<notin> set think_markers" by code_simp
  then show ?thesis by (auto simp: guard_inv_def py_lower_def contains_iff has_suffix_def)
qed

text \<open>A tag that would straddle what is shown already starts in a partial tag that was kept.\<close>

lemma straddling_tag:
  assumes inv: "guard_inv uc shown pending" and lower: "py_lower uc shown = a @ us" "us \<noteq> []"
    and tag: "m \<in> set think_markers" "m = (us @ py_lower uc pending) @ r" "r \<noteq> []"
  shows False
proof -
  let ?p = "us @ py_lower uc pending"
  have "partial_tag ?p" by (rule partial_tag_prefix [OF tag(1,2) _ tag(3)]) (simp add: lower(2))
  moreover have "has_suffix ?p (py_lower uc (shown @ pending))" by (auto simp: has_suffix_iff lower(1))
  ultimately have "length ?p \<le> length pending" using inv unfolding guard_inv_def by blast
  moreover have "length (py_lower uc pending) = length pending" using inv unfolding guard_inv_def by blast
  ultimately show False using lower(2) by simp
qed

lemma guard_no_tag:
  assumes inv: "guard_inv uc shown pending" and m: "m \<in> set think_markers"
    and clean: "\<not> contains m (py_lower uc (pending @ t))"
  shows "\<not> contains m (py_lower uc (shown @ pending @ t))"
proof
  let ?L = "py_lower uc shown" and ?p = "py_lower uc pending" and ?q = "py_lower uc t"
  assume "contains m (py_lower uc (shown @ pending @ t))"
  then obtain a b where ab: "?L @ (?p @ ?q) = a @ (m @ b)" by (auto simp: contains_iff)
  from ab [unfolded append_eq_append_conv2 [of ?L "?p @ ?q" a "m @ b"]] obtain us
    where "?L = a @ us \<and> us @ ?p @ ?q = m @ b \<or> a = ?L @ us \<and> ?p @ ?q = us @ m @ b" by blast
  moreover have False if "a = ?L @ us" "?p @ ?q = us @ m @ b"
    using clean that by (auto simp: contains_iff)
  moreover have False if L: "?L = a @ us" and eq: "us @ ?p @ ?q = m @ b"
  proof (cases "us = []")
    case True
    then have "?p @ ?q = [] @ m @ b" using eq by simp
    then show False using clean by (auto simp only: contains_iff py_lower_append)
  next
    case False
    from eq have "(us @ ?p) @ ?q = m @ b" by simp
    from this [unfolded append_eq_append_conv2 [of "us @ ?p" ?q m b]] obtain vs
      where "us @ ?p = m @ vs \<or> (us @ ?p) @ vs = m" by blast
    then have "us @ ?p = m @ vs \<or> us @ ?p @ vs = m" by simp
    moreover have False if "us @ ?p = m @ vs" for vs
    proof -
      have "py_lower uc (shown @ pending) = a @ m @ vs" using L that by simp
      then show False using inv m by (auto simp: guard_inv_def contains_iff)
    qed
    moreover have False if "us @ ?p @ vs = m" "vs \<noteq> []" for vs
      using straddling_tag [OF inv L False m _ that(2)] that(1) by simp
    ultimately show False by (metis append_Nil2 append_assoc)
  qed
  ultimately show False by blast
qed

lemma guard_step:
  assumes al: "aligned_lower uc" and inv: "guard_inv uc shown pending"
    and feed: "guard_feed uc pending t = Some (v, pending')"
  shows "guard_inv uc (shown @ v) pending' \<and> v @ pending' = pending @ t"
proof -
  let ?all = "pending @ t" and ?n = "retained_length (py_lower uc (pending @ t))"
  from feed have clean: "\<forall>m \<in> set think_markers. \<not> contains m (py_lower uc ?all)"
    and v: "v = take (length ?all - ?n) ?all" and p': "pending' = drop (length ?all - ?n) ?all"
    by (auto simp: guard_feed_def Let_def list_ex_iff split: if_splits)
  have join: "v @ pending' = ?all" unfolding v p' by (rule append_take_drop_id)
  have len: "length pending' = ?n \<and> length (py_lower uc pending') = ?n"
    using retained_tag [of "py_lower uc ?all"]
  proof
    assume "?n = 0"
    then show ?thesis by (simp add: p' py_lower_def)
  next
    assume "\<exists>p. partial_tag p \<and> has_suffix p (py_lower uc ?all) \<and> length p = ?n"
    then obtain p x where p: "partial_tag p" "py_lower uc ?all = x @ p" "length p = ?n"
      by (auto simp: has_suffix_iff)
    from lower_suffix [OF al p(2) partial_tag_chars [OF p(1)]] obtain a b
      where b: "?all = a @ b" "py_lower uc b = p" "length b = length p" by blast
    have "pending' = b" using b p(3) unfolding p' by (metis append_eq_conv_conj diff_add_inverse2 length_append)
    with b p(3) show ?thesis by simp
  qed
  have all: "py_lower uc ((shown @ v) @ pending') = py_lower uc (shown @ ?all)"
    by (simp only: append_assoc join)
  have "length p \<le> length pending'" if p: "partial_tag p" "has_suffix p (py_lower uc (shown @ ?all))" for p
  proof -
    let ?L = "py_lower uc shown"
    obtain r where "?L @ py_lower uc ?all = r @ p"
      using p(2) unfolding has_suffix_iff py_lower_append [of uc shown ?all] by blast
    from this [unfolded append_eq_append_conv2 [of ?L "py_lower uc ?all" r p]] obtain us
      where "?L = r @ us \<and> us @ py_lower uc ?all = p \<or> py_lower uc ?all = us @ p" by blast
    moreover have "length p \<le> ?n" if "py_lower uc ?all = us @ p"
      using retained_longest [OF p(1)] that by (auto simp: has_suffix_iff)
    moreover have "length p \<le> ?n" if L: "?L = r @ us" and eq: "us @ py_lower uc ?all = p"
    proof (cases "us = []")
      case True
      with eq have "has_suffix p (py_lower uc ?all)" by (auto simp: has_suffix_def)
      then show ?thesis by (rule retained_longest [OF p(1)])
    next
      case False
      from p(1) obtain m n where m: "m \<in> set think_markers" "n < length m" "p = take n m"
        by (auto simp: partial_tag_def)
      then have "m = p @ drop n m" "drop n m \<noteq> []" by simp_all
      then have "m = (us @ py_lower uc pending) @ (py_lower uc t @ drop n m)"
        using eq by (metis append.assoc py_lower_append)
      moreover have "py_lower uc t @ drop n m \<noteq> []" using m(2) by auto
      ultimately show ?thesis using straddling_tag [OF inv L False m(1)] by blast
    qed
    ultimately show ?thesis using len by auto
  qed
  moreover have "\<forall>m \<in> set think_markers. \<not> contains m (py_lower uc (shown @ ?all))"
    using guard_no_tag [OF inv] clean by blast
  ultimately show ?thesis using len join unfolding guard_inv_def all by (intro conjI allI impI) auto
qed

subsection \<open>Streams\<close>

definition shown_text :: "out_chunk list \<Rightarrow> ustring" where
  "shown_text cs = concat (map oc_text cs)"

definition no_reasoning :: "unidb \<Rightarrow> ustring \<Rightarrow> bool" where
  "no_reasoning uc s \<longleftrightarrow> list_all (\<lambda>m. \<not> contains m (py_lower uc s)) think_markers"

lemma shown_text_simps [simp]:
  "shown_text [] = []" "shown_text (c # cs) = oc_text c @ shown_text cs"
  "shown_text (cs @ ds) = shown_text cs @ shown_text ds"
  "oc_text (text_chunk s) = s" "oc_text (final_chunk u) = []"
  by (simp_all add: shown_text_def text_chunk_def final_chunk_def)

lemma contains_append: "contains m s \<Longrightarrow> contains m (s @ t)"
  unfolding contains_iff by (metis append.assoc)

lemma no_reasoning_prefix: "no_reasoning uc (a @ b) \<Longrightarrow> no_reasoning uc a"
  by (auto simp: no_reasoning_def list_all_iff dest: contains_append)

lemma guard_inv_clean: "guard_inv uc shown pending \<Longrightarrow> no_reasoning uc (shown @ pending)"
  by (simp add: guard_inv_def no_reasoning_def list_all_iff)

definition guarded :: "unidb \<Rightarrow> ustring \<Rightarrow> sse_state \<Rightarrow> bool" where
  "guarded uc shown s \<longleftrightarrow> (case ss_guard s of None \<Rightarrow> False | Some p \<Rightarrow> guard_inv uc shown p)"

text \<open>An item keeps the guard, or stops with nothing of a tag shown.\<close>

definition item_ok :: "unidb \<Rightarrow> ustring \<Rightarrow> out_chunk list \<times> sse_state after_item \<Rightarrow> bool" where
  "item_ok uc shown r \<longleftrightarrow> (case snd r of
     GoesOn s' \<Rightarrow> guarded uc (shown @ shown_text (fst r)) s'
   | Stops _ \<Rightarrow> no_reasoning uc (shown @ shown_text (fst r)))"

lemma guarded_clean: "guarded uc shown s \<Longrightarrow> no_reasoning uc shown"
  by (auto simp: guarded_def split: option.splits dest: guard_inv_clean no_reasoning_prefix)

lemma invalid_ok: "guarded uc shown s \<Longrightarrow> item_ok uc shown invalid_item"
  by (simp add: item_ok_def invalid_item_def guarded_clean)

lemma stop_ok: "guarded uc shown s \<Longrightarrow> item_ok uc shown ([], Stops e)"
  by (simp add: item_ok_def guarded_clean)

lemma guarded_same: "guarded uc shown s \<Longrightarrow> ss_guard s' = ss_guard s \<Longrightarrow> guarded uc shown s'"
  by (simp add: guarded_def)

lemma finish_ok: "guarded uc (shown @ shown_text cs) s \<Longrightarrow> item_ok uc shown (choice_finish cs ps s)"
  by (auto simp: choice_finish_def item_ok_def guarded_clean split: option.split json.split intro: guarded_same)

lemma content_ok:
  assumes al: "aligned_lower uc" and g: "guarded uc shown s"
  shows "item_ok uc shown (choice_content uc t ps s)"
proof (cases "t = [] \<or> ss_finished s")
  case True
  then show ?thesis using g finish_ok [of uc shown "[]" s] by (auto simp: choice_content_def invalid_ok)
next
  case False
  from g obtain pending where p: "ss_guard s = Some pending" "guard_inv uc shown pending"
    by (auto simp: guarded_def split: option.splits)
  show ?thesis
  proof (cases "guard_feed uc pending t")
    case None
    then show ?thesis using False p g by (simp add: choice_content_def stop_ok)
  next
    case (Some r)
    then obtain v pending' where f: "guard_feed uc pending t = Some (v, pending')" by (cases r) auto
    have "guard_inv uc (shown @ v) pending'" using guard_step [OF al p(2) f] by blast
    then have "guarded uc (shown @ shown_text (if v = [] then [] else [text_chunk v])) (s\<lparr>ss_guard := Some pending'\<rparr>)"
      by (cases "v = []") (simp_all add: guarded_def)
    from finish_ok [OF this] show ?thesis using False p(1) f by (simp add: choice_content_def)
  qed
qed

lemma choice_ok:
  assumes al: "aligned_lower uc" and g: "guarded uc shown s"
  shows "item_ok uc shown (sse_choice uc choice s)"
  using invalid_ok [OF g] stop_ok [OF g] content_ok [OF al g]
  by (auto simp: sse_choice_def split: json.split option.split)

lemma packet_ok:
  assumes al: "aligned_lower uc" and g: "guarded uc shown s"
  shows "item_ok uc shown (sse_packet uc ps s)"
proof -
  have g': "guarded uc shown (s\<lparr>ss_usage := u\<rparr>)" for u using g by (rule guarded_same) simp
  then have go: "item_ok uc shown ([], GoesOn (s\<lparr>ss_usage := u\<rparr>))" for u by (simp add: item_ok_def)
  have "item_ok uc shown ([], GoesOn s)" using g by (simp add: item_ok_def)
  then show ?thesis
    using invalid_ok [OF g] stop_ok [OF g] go choice_ok [OF al g'] choice_ok [OF al g]
    by (auto simp: sse_packet_def split: json.split option.split list.split)
qed

lemma sse_item_ok:
  assumes al: "aligned_lower uc" and g: "guarded uc shown s"
  shows "item_ok uc shown (sse_item uc loads s raw)"
proof (cases "raw = lit ''[DONE]''")
  case True
  from g obtain p where p: "ss_guard s = Some p" "no_reasoning uc (shown @ p)"
    by (auto simp: guarded_def dest: guard_inv_clean split: option.splits)
  then show ?thesis using True g by (auto simp: sse_item_def item_ok_def guarded_clean)
next
  case False
  then show ?thesis using packet_ok [OF al g] invalid_ok [OF g]
    by (auto simp: sse_item_def split: option.split json.split)
qed

lemma run_items_clean:
  assumes al: "aligned_lower uc"
  shows "guarded uc shown s \<Longrightarrow> run_items (sse_item uc loads) s is stop = (cs, e) \<Longrightarrow>
     no_reasoning uc (shown @ shown_text cs)"
proof (induction "is" arbitrary: s shown cs e)
  case Nil
  then show ?case by (simp add: guarded_clean)
next
  case (Cons i "is")
  obtain out a where i: "sse_item uc loads s i = (out, a)" by (cases "sse_item uc loads s i")
  have ok: "item_ok uc shown (out, a)" using sse_item_ok [OF al Cons.prems(1), of loads i] by (simp add: i)
  show ?case
  proof (cases a)
    case (Stops x)
    with Cons.prems(2) ok show ?thesis by (simp add: i item_ok_def)
  next
    case (GoesOn s')
    obtain r e' where rest: "run_items (sse_item uc loads) s' is stop = (r, e')"
      by (cases "run_items (sse_item uc loads) s' is stop")
    have "guarded uc (shown @ shown_text out) s'" using ok GoesOn by (simp add: item_ok_def)
    from Cons.IH [OF this rest] Cons.prems(2) show ?thesis by (auto simp: i GoesOn rest)
  qed
qed

subsection \<open>Properties\<close>

text \<open>
  C31: the lines of an inference response are those of its body, however the bytes are cut into chunks: the
  incremental reader succeeds exactly when the reference reader of the whole body does (size and line limits,
  UTF-8), with the same lines.
\<close>

theorem bounded_lines_equiv:
  "bounded_lines 0 [] chunks False = (ls, StreamOver) \<longleftrightarrow> body_lines (concat chunks) = Some ls"
proof -
  have "list_ex (\<lambda>p. 65536 < length p) ps \<longleftrightarrow> \<not> list_all (\<lambda>p. length p \<le> 65536) ps" for ps :: "nat list list"
    by (auto simp: list_ex_iff list_all_iff not_le)
  then show ?thesis
    by (auto simp: bounded_lines_from body_lines_def body_parts_def parts_fit_def Let_def)
qed

text \<open>
  C30: a guarded stream never shows inline reasoning: wherever the server cuts its deltas, the text of all
  chunks together has no reasoning tag in any case, not even when the stream breaks off.
\<close>

theorem guarded_stream_clean:
  assumes "aligned_lower uc" and "chat_stream uc loads True status chunks lost = (cs, stop)"
  shows "no_reasoning uc (shown_text cs)"
proof -
  have empty: "no_reasoning uc []"
    using guard_inv_clean [OF guard_inv_empty] by simp
  have g: "guarded uc [] \<lparr>ss_finished = False, ss_usage = [], ss_guard = Some []\<rparr>"
    by (simp add: guarded_def guard_inv_empty)
  show ?thesis
    using assms(2) empty run_items_clean [OF assms(1) g]
    by (auto simp: chat_stream_def split: option.splits prod.splits)
qed

subsection \<open>Reserved fields\<close>

lemma map_of_put_items: "k \<notin> fst ` set items \<Longrightarrow> map_of (put_items items base) k = map_of base k"
  unfolding put_items_def by (induction items arbitrary: base) auto

lemma put_items_last:
  "map_of (put_items items base) k = (case map_of (rev items) k of None \<Rightarrow> map_of base k | Some v \<Rightarrow> Some v)"
  unfolding put_items_def by (induction items arbitrary: base) (auto split: option.split)

lemma reserved_keys_differ:
  "lit ''model'' \<noteq> lit ''messages''" "lit ''model'' \<noteq> lit ''stream''" "lit ''messages'' \<noteq> lit ''stream''"
  "lit ''max_tokens'' \<noteq> lit ''model''" "lit ''max_tokens'' \<noteq> lit ''messages''" "lit ''max_tokens'' \<noteq> lit ''stream''"
  by (simp_all add: lit_def)

lemmas reserved_keys = reserved_keys_differ reserved_keys_differ [symmetric]

lemma put_items_member:
  "distinct (map fst items) \<Longrightarrow> (k, v) \<in> set items \<Longrightarrow> map_of (put_items items base) k = Some v"
proof -
  assume "distinct (map fst items)" "(k, v) \<in> set items"
  then have "map_of (rev items) k = Some v" by (intro map_of_is_SomeI) (simp_all add: rev_map [symmetric])
  then show ?thesis by (simp add: put_items_last)
qed

lemma reserved_distinct: "distinct (map fst (reserved_items uc num p r))"
  by (simp add: reserved_items_def reserved_keys)

lemma reserved_not_tokens: "(k, v) \<in> set (reserved_items uc num p r) \<Longrightarrow> k \<noteq> lit ''max_tokens''"
  by (auto simp: reserved_items_def reserved_keys)

text \<open>Options never replace the model, the messages or the streaming flag.\<close>

lemma llama_reserved:
  assumes "(k, v) \<in> set (reserved_items uc num p r)"
  shows "map_of (llama_payload uc num p r) k = Some v"
  unfolding llama_payload_def force_tokens_def
  using put_items_member [OF reserved_distinct assms] reserved_not_tokens [OF assms]
  by (simp split: option.split)

lemma lm_studio_reserved:
  assumes "new_lm_studio url_ok model max_tokens options = Inr p" "(k, v) \<in> set (reserved_items uc num p r)"
  shows "map_of (lm_studio_payload uc num p r) k = Some v"
proof -
  have opts: "fst ` set (hp_options p) \<subseteq> set lm_studio_options"
    using assms(1) by (auto simp: new_lm_studio_def new_http_provider_def list_all_iff split: if_splits)
  have "list_all (\<lambda>k. k \<notin> set lm_studio_options) (map lit [''model'', ''messages'', ''stream''])" by code_simp
  moreover have "k \<in> set (map lit [''model'', ''messages'', ''stream''])"
    using assms(2) by (auto simp: reserved_items_def)
  ultimately have "k \<notin> fst ` set (hp_options p)" using opts by (auto simp only: list_all_iff)
  moreover have "map_of (reserved_items uc num p r @ x) k = Some v" for x
    using map_of_is_SomeI [OF reserved_distinct assms(2)] by (simp add: map_add_def)
  ultimately show ?thesis unfolding lm_studio_payload_def by (subst map_of_put_items) blast+
qed

subsection \<open>A concrete stream\<close>

lemma ascii_aligned: "aligned_lower ascii_db"
  by (simp add: aligned_lower_def ascii_db_def)

definition delta_packet :: "ustring \<Rightarrow> json" where
  "delta_packet t = JObj [(lit ''choices'', JList [JObj [(lit ''delta'', JObj [(lit ''content'', JStr t)])]])]"

text \<open>The event \<open>1\<close> carries the text \<open>a<th\<close>, \<open>2\<close> the text \<open>e\<close> and \<open>3\<close> the text \<open>ink>\<close>.\<close>

definition tag_loads :: "ustring \<Rightarrow> json option" where
  "tag_loads s = (if s = lit ''1'' then Some (delta_packet (lit ''a<TH''))
     else if s = lit ''2'' then Some (delta_packet (lit ''e''))
     else if s = lit ''3'' then Some (delta_packet (lit ''ink>'')) else None)"

definition sse_bytes :: "string list \<Rightarrow> nat list list" where
  "sse_bytes es = map (\<lambda>e. lit ''data: '' @ lit e @ [10, 10]) es"

lemma tag_split_hidden:
  "chat_stream ascii_db tag_loads True 200 (sse_bytes [''1'', ''3'']) False
     = ([text_chunk (lit ''a'')], FailsWith ''unsupported_profile'')"
  by code_simp

lemma tag_like_shown:
  "chat_stream ascii_db tag_loads True 200 (sse_bytes [''1'', ''2'']) False
     = ([text_chunk (lit ''a''), text_chunk (lit ''<THe'')], FailsWith ''incomplete'')"
  by code_simp

lemma guarded_stream_clean_witness:
  "no_reasoning ascii_db (shown_text [text_chunk (lit ''a'')])
   \<and> no_reasoning ascii_db (shown_text [text_chunk (lit ''a''), text_chunk (lit ''<THe'')])"
  using guarded_stream_clean [OF ascii_aligned tag_split_hidden] guarded_stream_clean [OF ascii_aligned tag_like_shown]
  by blast

end
