(* ===== verification/TranslationRunner.thy ===== *)
theory TranslationRunner
  imports TextRequests "HOL-Library.Sublist"
begin

text \<open>
  Model of \<open>LatestTranslationRunner\<close> in \<^verbatim>\<open>translation.py\<close>. A definition is the code between two awaits. Each
  submitted task has a phase that says at which await it is suspended, and \<open>resume_task\<close> continues it with the
  answer of that await: a value, or the exception that comes out of it (\<open>CancelledError\<close> is \<open>CancelExit\<close>). The
  clock is read once per step. A task's event is the call of the sink; the sink's own suspension is a phase.
\<close>

subsection \<open>Tasks\<close>

text \<open>How a task leaves its request: \<open>FailExit\<close> is a provider error with its category, \<open>TimeoutError\<close> or
  \<open>httpx.HTTPError\<close>; \<open>CrashExit\<close> is an exception the runner does not handle.\<close>

datatype run_exit = ReturnExit | FailExit string | CancelExit | CrashExit

type_synonym usage = "(ustring \<times> json) list"

datatype run_phase =
    Created
  | WaitingSlot
  | Streaming
  | ShowingPreview bool usage
  | ShowingResult
  | ClosingStream run_exit
  | Reporting
  | Ended

datatype run_kind = PreviewKind | CompletedKind | FailedKind string | CancelledKind

record run_event =
  rv_segment :: ustring
  rv_revision :: int
  rv_generation :: nat
  rv_kind :: run_kind
  rv_text :: ustring
  rv_elapsed_ms :: rat
  rv_queue_ms :: rat
  rv_usage :: usage

record 'p run_task =
  rk_request :: translation_request
  rk_generation :: nat
  rk_started :: rat
  rk_provider :: "'p option"
  rk_phase :: run_phase
  rk_text :: ustring
  rk_queue_ms :: rat
  rk_terminal :: bool
  rk_expired :: bool
  rk_cancelling :: bool

record 'p runner =
  ru_provider :: 'p
  ru_max_pending :: nat
  ru_max_segments :: nat
  ru_concurrency :: nat
  ru_tasks :: "(ustring \<times> nat) list"
  ru_all :: "(nat \<times> 'p run_task) list"
  ru_latest :: "(ustring \<times> int) list"
  ru_queue :: "nat list"
  ru_generation :: nat
  ru_next :: nat
  ru_closed :: bool
  ru_switching :: bool

definition new_runner :: "'p \<Rightarrow> int \<Rightarrow> int \<Rightarrow> int \<Rightarrow> 'p runner res" where
  "new_runner provider max_pending concurrency max_segments =
     (if min (min max_pending concurrency) max_segments < 1 then Inl (ValueError ''Limits must be positive'')
      else Inr \<lparr>ru_provider = provider, ru_max_pending = nat max_pending, ru_max_segments = nat max_segments,
                ru_concurrency = nat concurrency, ru_tasks = [], ru_all = [], ru_latest = [], ru_queue = [],
                ru_generation = 0, ru_next = 0, ru_closed = False, ru_switching = False\<rparr>)"

definition run_pending_count :: "'p runner \<Rightarrow> nat" where
  "run_pending_count r = length (ru_all r)"

subsection \<open>\<open>submit\<close>\<close>

text \<open>\<open>task.cancel()\<close>: a request to a task that has not ended.\<close>

definition ask_cancel :: "'p run_task \<Rightarrow> 'p run_task" where
  "ask_cancel t = (if rk_phase t = Ended then t else t\<lparr>rk_cancelling := True\<rparr>)"

definition cancel_task :: "nat \<Rightarrow> 'p runner \<Rightarrow> 'p runner" where
  "cancel_task i r = (case map_of (ru_all r) i of None \<Rightarrow> r
     | Some t \<Rightarrow> r\<lparr>ru_all := al_put i (ask_cancel t) (ru_all r)\<rparr>)"

definition submit_refused :: "translation_request \<Rightarrow> 'p runner \<Rightarrow> py_error option" where
  "submit_refused q r =
     (let previous = map_of (ru_tasks r) (tr_segment q); latest = map_of (ru_latest r) (tr_segment q)
      in if ru_closed r then Some (RuntimeError ''Runner is closed'')
         else if ru_switching r then Some (ProviderError ''switching'')
         else if run_pending_count r \<ge> ru_max_pending r + 1 then Some (ProviderError ''overload'')
         else if tr_revision q \<le> (case latest of None \<Rightarrow> 0 | Some v \<Rightarrow> v)
           then Some (ValueError ''Source revisions must increase within a provider generation'')
         else if previous = None \<and> length (ru_tasks r) \<ge> ru_max_pending r then Some (ProviderError ''overload'')
         else if latest = None \<and> length (ru_latest r) \<ge> ru_max_segments r then Some (ProviderError ''session_limit'')
         else None)"

definition new_task :: "translation_request \<Rightarrow> rat \<Rightarrow> 'p runner \<Rightarrow> 'p run_task" where
  "new_task q now r =
     \<lparr>rk_request = q, rk_generation = ru_generation r, rk_started = now, rk_provider = None, rk_phase = Created,
      rk_text = [], rk_queue_ms = 0, rk_terminal = False, rk_expired = False, rk_cancelling = False\<rparr>"

definition submit_task :: "translation_request \<Rightarrow> rat \<Rightarrow> 'p runner \<Rightarrow> 'p runner res" where
  "submit_task q now r =
     (case submit_refused q r of
        Some e \<Rightarrow> Inl e
      | None \<Rightarrow>
          (let r1 = (case map_of (ru_tasks r) (tr_segment q) of None \<Rightarrow> r | Some i \<Rightarrow> cancel_task i r)
           in Inr (r1\<lparr>ru_latest := al_put (tr_segment q) (tr_revision q) (ru_latest r1),
                      ru_tasks := al_put (tr_segment q) (ru_next r1) (ru_tasks r1),
                      ru_all := ru_all r1 @ [(ru_next r1, new_task q now r1)],
                      ru_next := ru_next r1 + 1\<rparr>)))"

text \<open>The callback of a task that is done.\<close>

definition reap_task :: "nat \<Rightarrow> 'p runner \<Rightarrow> 'p runner" where
  "reap_task i r =
     (case map_of (ru_all r) i of
        None \<Rightarrow> r
      | Some t \<Rightarrow>
          if rk_phase t \<noteq> Ended then r
          else r\<lparr>ru_all := al_del i (ru_all r),
                 ru_tasks := (if map_of (ru_tasks r) (tr_segment (rk_request t)) = Some i
                              then al_del (tr_segment (rk_request t)) (ru_tasks r) else ru_tasks r)\<rparr>)"

subsection \<open>\<open>switch_provider\<close> and \<open>close\<close>\<close>

definition cancel_all :: "'p runner \<Rightarrow> 'p runner" where
  "cancel_all r = r\<lparr>ru_all := map (\<lambda>(i, t). (i, ask_cancel t)) (ru_all r)\<rparr>"

definition drained :: "'p runner \<Rightarrow> bool" where
  "drained r \<longleftrightarrow> list_all (\<lambda>(i, t). rk_phase t = Ended) (ru_all r)"

definition forget_all :: "'p runner \<Rightarrow> 'p runner" where
  "forget_all r = r\<lparr>ru_tasks := [], ru_latest := []\<rparr>"

text \<open>The end of the wait in \<open>_drain\<close>: all the tasks are done, or its timeout has passed.\<close>

definition end_switch :: "'p \<Rightarrow> 'p runner \<Rightarrow> unit res \<times> 'p runner" where
  "end_switch provider r =
     (if drained r then (Inr (), (forget_all r)\<lparr>ru_provider := provider, ru_switching := False\<rparr>)
      else (Inl (ProviderError ''cancellation_pending''), r\<lparr>ru_switching := False\<rparr>))"

definition begin_switch :: "'p \<Rightarrow> rat \<Rightarrow> 'p runner \<Rightarrow> unit res \<times> 'p runner" where
  "begin_switch provider drain_timeout r =
     (if ru_closed r then (Inl (RuntimeError ''Runner is closed''), r)
      else if ru_switching r \<or> drain_timeout \<le> 0
        then (Inl (ValueError ''Switch already pending or invalid drain timeout''), r)
      else
        (let r1 = cancel_all (r\<lparr>ru_switching := True, ru_generation := ru_generation r + 1\<rparr>)
         in if ru_all r1 = [] then end_switch provider r1 else (Inr (), r1)))"

definition close_ends :: "'p runner \<Rightarrow> unit res \<times> 'p runner" where
  "close_ends r =
     (if drained r then (Inr (), forget_all r) else (Inl (ProviderError ''cancellation_pending''), r))"

definition close_begins :: "rat \<Rightarrow> 'p runner \<Rightarrow> unit res \<times> 'p runner" where
  "close_begins drain_timeout r =
     (if drain_timeout \<le> 0 then (Inl (ValueError ''drain_timeout must be positive''), r)
      else
        (let r1 = cancel_all (r\<lparr>ru_closed := True\<rparr>)
         in if ru_all r1 = [] then close_ends r1 else (Inr (), r1)))"

subsection \<open>\<open>_run\<close>\<close>

definition task_current :: "'p runner \<Rightarrow> 'p run_task \<Rightarrow> bool" where
  "task_current r t \<longleftrightarrow> \<not> ru_closed r \<and> rk_generation t = ru_generation r
     \<and> map_of (ru_latest r) (tr_segment (rk_request t)) = Some (tr_revision (rk_request t))"

definition run_deadline :: "'p run_task \<Rightarrow> rat" where
  "run_deadline t =
     (let own = rk_started t + (case tr_budget_ms (rk_request t) of Fin b \<Rightarrow> b / 1000 | _ \<Rightarrow> 0)
      in case tr_deadline (rk_request t) of Some (Fin d) \<Rightarrow> min own d | _ \<Rightarrow> own)"

definition check_admission :: "rat \<Rightarrow> 'p run_task \<Rightarrow> run_exit option" where
  "check_admission now t =
     (if rk_expired t \<or> run_deadline t \<le> now then Some (FailExit ''timeout'')
      else if rk_cancelling t then Some CancelExit else None)"

definition task_event :: "run_kind \<Rightarrow> usage \<Rightarrow> rat \<Rightarrow> 'p run_task \<Rightarrow> run_event" where
  "task_event kind used now t =
     \<lparr>rv_segment = tr_segment (rk_request t), rv_revision = tr_revision (rk_request t),
      rv_generation = rk_generation t, rv_kind = kind, rv_text = rk_text t,
      rv_elapsed_ms = (now - rk_started t) * 1000, rv_queue_ms = rk_queue_ms t, rv_usage = used\<rparr>"

definition put_task :: "nat \<Rightarrow> 'p run_task \<Rightarrow> 'p runner \<Rightarrow> 'p runner" where
  "put_task i t r = r\<lparr>ru_all := al_put i t (ru_all r)\<rparr>"

definition at_phase :: "nat \<Rightarrow> run_phase \<Rightarrow> 'p run_task \<Rightarrow> 'p runner \<Rightarrow> run_event list \<times> 'p runner" where
  "at_phase i p t r = ([], put_task i (t\<lparr>rk_phase := p\<rparr>) r)"

text \<open>\<open>emit\<close> of a terminal status by the handlers at the end of \<open>_run\<close>, outside the slot and the timeout.\<close>

definition report_exit :: "rat \<Rightarrow> nat \<Rightarrow> run_kind \<Rightarrow> 'p run_task \<Rightarrow> 'p runner \<Rightarrow> run_event list \<times> 'p runner" where
  "report_exit now i kind t r =
     (if rk_terminal t \<or> \<not> task_current r t then at_phase i Ended t r
      else ([task_event kind [] now t], put_task i (t\<lparr>rk_phase := Reporting\<rparr>) r))"

text \<open>Leaving \<open>timeout_scope\<close>: a cancellation that only the timeout asked for is \<open>TimeoutError\<close>.\<close>

definition scope_exit :: "'p run_task \<Rightarrow> run_exit \<Rightarrow> run_exit" where
  "scope_exit t e = (if e = CancelExit \<and> rk_expired t \<and> \<not> rk_cancelling t then FailExit ''timeout'' else e)"

definition conclude :: "rat \<Rightarrow> nat \<Rightarrow> run_exit \<Rightarrow> 'p run_task \<Rightarrow> 'p runner \<Rightarrow> run_event list \<times> 'p runner" where
  "conclude now i e t r =
     (case scope_exit t e of
        ReturnExit \<Rightarrow> at_phase i Ended t r
      | CrashExit \<Rightarrow> at_phase i Ended t r
      | FailExit c \<Rightarrow> report_exit now i (FailedKind c) t r
      | CancelExit \<Rightarrow> report_exit now i CancelledKind t r)"

text \<open>With the slot: a request that is still wanted opens the provider's stream.\<close>

definition with_slot :: "rat \<Rightarrow> nat \<Rightarrow> 'p run_task \<Rightarrow> 'p runner \<Rightarrow> run_event list \<times> 'p runner" where
  "with_slot now i t r =
     (let t1 = t\<lparr>rk_queue_ms := (now - rk_started t) * 1000\<rparr>
      in if \<not> task_current r t1 then at_phase i Ended t1 r
         else case check_admission now t1 of
           Some e \<Rightarrow> conclude now i e t1 r
         | None \<Rightarrow> at_phase i Streaming t1 r)"

definition holding :: "run_phase \<Rightarrow> bool" where
  "holding p \<longleftrightarrow> (case p of Streaming \<Rightarrow> True | ShowingPreview _ _ \<Rightarrow> True | ShowingResult \<Rightarrow> True
     | ClosingStream _ \<Rightarrow> True | _ \<Rightarrow> False)"

definition slot_free :: "'p runner \<Rightarrow> bool" where
  "slot_free r \<longleftrightarrow> length (filter (\<lambda>(i, t). holding (rk_phase t)) (ru_all r)) < ru_concurrency r"

definition enter_task :: "rat \<Rightarrow> nat \<Rightarrow> 'p run_task \<Rightarrow> 'p runner \<Rightarrow> run_event list \<times> 'p runner" where
  "enter_task now i t r =
     (let t1 = t\<lparr>rk_provider := Some (ru_provider r)\<rparr>
      in if rk_cancelling t \<or> \<not> task_current r t1 then at_phase i Ended t1 r
         else if slot_free r \<and> ru_queue r = [] then with_slot now i t1 r
         else at_phase i WaitingSlot t1 (r\<lparr>ru_queue := ru_queue r @ [i]\<rparr>))"

text \<open>After the preview, if any: the last chunk completes the translation.\<close>

definition after_preview ::
    "unidb \<Rightarrow> rat \<Rightarrow> nat \<Rightarrow> bool \<Rightarrow> usage \<Rightarrow> 'p run_task \<Rightarrow> 'p runner \<Rightarrow> run_event list \<times> 'p runner" where
  "after_preview uc now i completed used t r =
     (if \<not> completed then at_phase i Streaming t r
      else if py_blank uc (rk_text t) then at_phase i (ClosingStream (FailExit ''invalid_output'')) t r
      else case check_admission now t of
        Some e \<Rightarrow> at_phase i (ClosingStream e) t r
      | None \<Rightarrow>
          if task_current r t
          then ([task_event CompletedKind used now t], put_task i (t\<lparr>rk_phase := ShowingResult\<rparr>) r)
          else at_phase i (ClosingStream ReturnExit) t r)"

definition take_chunk ::
    "unidb \<Rightarrow> rat \<Rightarrow> nat \<Rightarrow> ustring \<Rightarrow> bool \<Rightarrow> usage \<Rightarrow> 'p run_task \<Rightarrow> 'p runner \<Rightarrow> run_event list \<times> 'p runner" where
  "take_chunk uc now i piece completed used t r =
     (if \<not> task_current r t then at_phase i (ClosingStream ReturnExit) t r
      else case check_admission now t of
        Some e \<Rightarrow> at_phase i (ClosingStream e) t r
      | None \<Rightarrow>
          (let t1 = t\<lparr>rk_text := rk_text t @ piece\<rparr>
           in if 24000 < length (rk_text t1) then at_phase i (ClosingStream (FailExit ''invalid_output'')) t1 r
              else if piece \<noteq> []
                then ([task_event PreviewKind [] now t1], put_task i (t1\<lparr>rk_phase := ShowingPreview completed used\<rparr>) r)
              else after_preview uc now i completed used t1 r))"

datatype run_answer = Chunk ustring bool usage | Exhausted | Resumes | Raises run_exit

text \<open>One step of a task, by the await it is suspended at.\<close>

definition resume_phase ::
    "unidb \<Rightarrow> rat \<Rightarrow> nat \<Rightarrow> run_answer \<Rightarrow> 'p run_task \<Rightarrow> 'p runner \<Rightarrow> run_event list \<times> 'p runner" where
  "resume_phase uc now i a t r =
     (case rk_phase t of
        Created \<Rightarrow> enter_task now i t r
      | WaitingSlot \<Rightarrow>
          (case a of
             Raises e \<Rightarrow> conclude now i e t (r\<lparr>ru_queue := filter (\<lambda>j. j \<noteq> i) (ru_queue r)\<rparr>)
           | _ \<Rightarrow> if slot_free r \<and> take 1 (ru_queue r) = [i]
                  then with_slot now i t (r\<lparr>ru_queue := drop 1 (ru_queue r)\<rparr>) else ([], r))
      | Streaming \<Rightarrow>
          (case a of
             Chunk piece completed used \<Rightarrow> take_chunk uc now i piece completed used t r
           | Exhausted \<Rightarrow> at_phase i (ClosingStream (FailExit ''incomplete'')) t r
           | Raises e \<Rightarrow> at_phase i (ClosingStream e) t r
           | Resumes \<Rightarrow> ([], r))
      | ShowingPreview completed used \<Rightarrow>
          (case a of Raises e \<Rightarrow> at_phase i (ClosingStream e) t r
           | _ \<Rightarrow> after_preview uc now i completed used t r)
      | ShowingResult \<Rightarrow>
          (case a of Raises e \<Rightarrow> at_phase i (ClosingStream e) t r
           | _ \<Rightarrow> at_phase i (ClosingStream ReturnExit) (t\<lparr>rk_terminal := True\<rparr>) r)
      | ClosingStream e \<Rightarrow> (case a of Raises e' \<Rightarrow> conclude now i e' t r | _ \<Rightarrow> conclude now i e t r)
      | Reporting \<Rightarrow> (case a of Raises e \<Rightarrow> at_phase i Ended t r | _ \<Rightarrow> at_phase i Ended (t\<lparr>rk_terminal := True\<rparr>) r)
      | Ended \<Rightarrow> ([], r))"

definition resume_task :: "unidb \<Rightarrow> rat \<Rightarrow> nat \<Rightarrow> run_answer \<Rightarrow> 'p runner \<Rightarrow> run_event list \<times> 'p runner" where
  "resume_task uc now i a r = (case map_of (ru_all r) i of None \<Rightarrow> ([], r) | Some t \<Rightarrow> resume_phase uc now i a t r)"

text \<open>The timer of \<open>timeout_scope\<close> fires inside the scope.\<close>

definition expire_task :: "nat \<Rightarrow> 'p runner \<Rightarrow> 'p runner" where
  "expire_task i r =
     (case map_of (ru_all r) i of
        None \<Rightarrow> r
      | Some t \<Rightarrow> if rk_phase t = WaitingSlot \<or> holding (rk_phase t)
                then put_task i (t\<lparr>rk_expired := True\<rparr>) r else r)"

subsection \<open>Runs\<close>

datatype 'p run_action =
    Submit translation_request
  | Resume nat run_answer
  | Cancel nat
  | Expire nat
  | Reap nat
  | BeginSwitch 'p rat
  | EndSwitch 'p
  | BeginClose rat
  | EndClose

definition run_action :: "unidb \<Rightarrow> rat \<Rightarrow> 'p run_action \<Rightarrow> 'p runner \<Rightarrow> run_event list \<times> 'p runner" where
  "run_action uc now a r =
     (case a of
        Submit q \<Rightarrow> ([], case submit_task q now r of Inl _ \<Rightarrow> r | Inr r' \<Rightarrow> r')
      | Resume i x \<Rightarrow> resume_task uc now i x r
      | Cancel i \<Rightarrow> ([], cancel_task i r)
      | Expire i \<Rightarrow> ([], expire_task i r)
      | Reap i \<Rightarrow> ([], reap_task i r)
      | BeginSwitch p d \<Rightarrow> ([], snd (begin_switch p d r))
      | EndSwitch p \<Rightarrow> ([], if ru_switching r then snd (end_switch p r) else r)
      | BeginClose d \<Rightarrow> ([], snd (close_begins d r))
      | EndClose \<Rightarrow> ([], if ru_closed r then snd (close_ends r) else r))"

fun runner_run :: "unidb \<Rightarrow> (rat \<times> 'p run_action) list \<Rightarrow> 'p runner \<Rightarrow> run_event list \<times> 'p runner" where
  "runner_run uc [] r = ([], r)"
| "runner_run uc ((now, a) # as) r =
     (case run_action uc now a r of (es, r1) \<Rightarrow> (case runner_run uc as r1 of (fs, r2) \<Rightarrow> (es @ fs, r2)))"

end
