(* ===== verification/RunnerProps.thy ===== *)
theory RunnerProps
  imports TranslationRunner
begin

text \<open>
  What the runner of \<^verbatim>\<open>translation.py\<close> shows: its events never go back to an older revision or provider
  generation, and its queues are bounded.
\<close>

subsection \<open>Keys and ranks\<close>

definition task_key :: "'p run_task \<Rightarrow> nat \<times> ustring \<times> int" where
  "task_key t = (rk_generation t, tr_segment (rk_request t), tr_revision (rk_request t))"

definition event_key :: "run_event \<Rightarrow> nat \<times> ustring \<times> int" where
  "event_key e = (rv_generation e, rv_segment e, rv_revision e)"

fun event_rank :: "run_kind \<Rightarrow> nat" where
  "event_rank PreviewKind = 0"
| "event_rank CompletedKind = 1"
| "event_rank (FailedKind c) = 2"
| "event_rank CancelledKind = 2"

fun phase_rank :: "run_phase \<Rightarrow> nat" where
  "phase_rank ShowingResult = 1"
| "phase_rank (ClosingStream e) = 1"
| "phase_rank Reporting = 2"
| "phase_rank Ended = 2"
| "phase_rank p = 0"

definition event_sound :: "unidb \<Rightarrow> run_event \<Rightarrow> bool" where
  "event_sound uc e \<longleftrightarrow>
     (event_rank (rv_kind e) \<le> 1 \<longrightarrow> length (rv_text e) \<le> 24000)
     \<and> (rv_kind e = CompletedKind \<longrightarrow> \<not> py_blank uc (rv_text e))"

text \<open>The later event is not older; of one request, it extends the text and the status.\<close>

definition event_follows :: "run_event \<Rightarrow> run_event \<Rightarrow> bool" where
  "event_follows a b \<longleftrightarrow> rv_generation a \<le> rv_generation b
     \<and> (rv_generation a = rv_generation b \<and> rv_segment a = rv_segment b \<longrightarrow>
          rv_revision a < rv_revision b
          \<or> rv_revision a = rv_revision b \<and> prefix (rv_text a) (rv_text b)
            \<and> (event_rank (rv_kind a) < event_rank (rv_kind b)
               \<or> rv_kind a = PreviewKind \<and> rv_kind b = PreviewKind))"

subsection \<open>One step of a task\<close>

definition entered :: "run_phase \<Rightarrow> bool" where
  "entered p \<longleftrightarrow> p \<noteq> Created \<and> p \<noteq> Ended"

definition reading :: "run_phase \<Rightarrow> bool" where
  "reading p \<longleftrightarrow> (case p of Streaming \<Rightarrow> True | ShowingPreview _ _ \<Rightarrow> True | _ \<Rightarrow> phase_rank p = 0)"

definition short_text :: "'p run_task \<Rightarrow> bool" where
  "short_text t \<longleftrightarrow> (phase_rank (rk_phase t) = 0 \<longrightarrow> length (rk_text t) \<le> 24000)"

definition task_step :: "unidb \<Rightarrow> 'p runner \<Rightarrow> 'p run_task \<Rightarrow> run_event list \<Rightarrow> 'p run_task \<Rightarrow> bool" where
  "task_step uc r t es t' \<longleftrightarrow>
     rk_request t' = rk_request t \<and> rk_generation t' = rk_generation t \<and> prefix (rk_text t) (rk_text t')
     \<and> phase_rank (rk_phase t) \<le> phase_rank (rk_phase t') \<and> (short_text t \<longrightarrow> short_text t')
     \<and> (rk_provider t' = rk_provider t \<or> rk_phase t = Created \<and> rk_provider t' = Some (ru_provider r))
     \<and> (entered (rk_phase t') \<longrightarrow> rk_phase t \<noteq> Ended \<and> (rk_phase t = Created \<longrightarrow> rk_provider t' = Some (ru_provider r)))
     \<and> (holding (rk_phase t') \<longrightarrow> holding (rk_phase t) \<or> slot_free r)
     \<and> (case es of
          [] \<Rightarrow> True
        | [e] \<Rightarrow> task_current r t \<and> event_key e = task_key t \<and> rv_text e = rk_text t'
            \<and> (short_text t \<longrightarrow> event_sound uc e) \<and> event_rank (rv_kind e) \<le> phase_rank (rk_phase t')
            \<and> (phase_rank (rk_phase t) < event_rank (rv_kind e)
               \<or> phase_rank (rk_phase t) = 0 \<and> rv_kind e = PreviewKind)
        | _ \<Rightarrow> False)"

text \<open>What a step does to the runner.\<close>

definition steps_to ::
    "unidb \<Rightarrow> 'p runner \<Rightarrow> nat \<Rightarrow> 'p run_task \<Rightarrow> run_event list \<times> 'p runner \<Rightarrow> bool" where
  "steps_to uc r i t res \<longleftrightarrow>
     (\<exists>es t' q. res = (es, put_task i t' (r\<lparr>ru_queue := q\<rparr>)) \<and> task_step uc r t es t')"

lemma steps_toI: "res = (es, put_task i t' (r\<lparr>ru_queue := q\<rparr>)) \<Longrightarrow> task_step uc r t es t' \<Longrightarrow> steps_to uc r i t res"
  by (auto simp: steps_to_def)

lemma steps_to_same: "task_step uc r t es t' \<Longrightarrow> steps_to uc r i t (es, put_task i t' r)"
  by (rule steps_toI [where q = "ru_queue r"]) simp_all

lemma put_task_queue: "put_task i t (r\<lparr>ru_queue := q\<rparr>) = (put_task i t r)\<lparr>ru_queue := q\<rparr>"
  by (simp add: put_task_def)

lemma current_queue [simp]: "task_current (r\<lparr>ru_queue := q\<rparr>) t = task_current r t"
  by (simp add: task_current_def)

lemma at_phase_same: "at_phase i p t r = ([], put_task i (t\<lparr>rk_phase := p\<rparr>) (r\<lparr>ru_queue := ru_queue r\<rparr>))"
  by (simp add: at_phase_def)

lemma conclude_steps:
  assumes "task_current r t1 \<longleftrightarrow> task_current r t"
    and "rk_request t1 = rk_request t" "rk_generation t1 = rk_generation t" "rk_text t1 = rk_text t"
    and "rk_provider t1 = rk_provider t \<or> rk_phase t = Created \<and> rk_provider t1 = Some (ru_provider r)"
    and "rk_phase t = Created \<longrightarrow> rk_provider t1 = Some (ru_provider r)"
    and "phase_rank (rk_phase t) \<le> 1"
  shows "steps_to uc r i t (conclude now i e t1 (r\<lparr>ru_queue := q\<rparr>))"
proof -
  have rank: "rk_phase t \<noteq> Ended" using assms(7) by auto
  have ended: "steps_to uc r i t (at_phase i Ended t1 (r\<lparr>ru_queue := q\<rparr>))"
    unfolding at_phase_def
    by (rule steps_toI [OF refl]) (use assms in \<open>simp add: task_step_def short_text_def entered_def holding_def\<close>)
  have "steps_to uc r i t (report_exit now i k t1 (r\<lparr>ru_queue := q\<rparr>))" if "event_rank k = 2" for k
  proof (cases "rk_terminal t1 \<or> \<not> task_current r t1")
    case True
    then show ?thesis using ended by (simp add: report_exit_def)
  next
    case False
    then have "report_exit now i k t1 (r\<lparr>ru_queue := q\<rparr>)
        = ([task_event k [] now t1], put_task i (t1\<lparr>rk_phase := Reporting\<rparr>) (r\<lparr>ru_queue := q\<rparr>))"
      by (simp add: report_exit_def)
    moreover have "task_step uc r t [task_event k [] now t1] (t1\<lparr>rk_phase := Reporting\<rparr>)"
      using False assms that rank by (cases k)
        (simp_all add: task_step_def short_text_def entered_def holding_def event_key_def task_key_def task_event_def
          event_sound_def)
    ultimately show ?thesis by (rule steps_toI)
  qed
  then show ?thesis using ended by (simp add: conclude_def split: run_exit.split)
qed

lemma after_preview_steps:
  assumes "rk_phase t = Streaming \<or> (\<exists>b u. rk_phase t = ShowingPreview b u)"
    and "rk_request t1 = rk_request t" "rk_generation t1 = rk_generation t" "prefix (rk_text t) (rk_text t1)"
    and "rk_provider t1 = rk_provider t" "length (rk_text t) \<le> 24000 \<longrightarrow> length (rk_text t1) \<le> 24000"
  shows "steps_to uc r i t (after_preview uc now i completed used t1 r)"
proof -
  have cur: "task_current r t1 = task_current r t" using assms(2,3) by (simp add: task_current_def)
  have start: "phase_rank (rk_phase t) = 0" "holding (rk_phase t)" "rk_phase t \<noteq> Ended" "rk_phase t \<noteq> Created"
    using assms(1) by (auto simp: holding_def)
  have quiet: "steps_to uc r i t (at_phase i p t1 r)" if "holding p" for p
    unfolding at_phase_same
    by (rule steps_toI [OF refl]) (use assms(2-6) start that in \<open>auto simp: task_step_def short_text_def\<close>)
  have hold: "holding Streaming" "holding (ClosingStream e)" for e by (simp_all add: holding_def)
  have "steps_to uc r i t ([task_event CompletedKind used now t1], put_task i (t1\<lparr>rk_phase := ShowingResult\<rparr>) r)"
    if "\<not> py_blank uc (rk_text t1)" "task_current r t1"
    by (rule steps_to_same)
      (use assms(2-6) start that cur in \<open>simp_all add: task_step_def short_text_def event_key_def task_key_def
         task_event_def event_sound_def\<close>)
  then show ?thesis using quiet [OF hold(1)] quiet [OF hold(2)]
    by (simp add: after_preview_def split: option.split)
qed

lemma take_chunk_steps:
  assumes "rk_phase t = Streaming"
  shows "steps_to uc r i t (take_chunk uc now i piece completed used t r)"
proof -
  have quiet: "steps_to uc r i t (at_phase i (ClosingStream e) t1 r)"
    if "t1 = t \<or> t1 = t\<lparr>rk_text := rk_text t @ piece\<rparr>" for e t1
    unfolding at_phase_same
    by (rule steps_toI [OF refl]) (use assms that in \<open>auto simp: task_step_def short_text_def holding_def\<close>)
  define t1 where "t1 = t\<lparr>rk_text := rk_text t @ piece\<rparr>"
  have show_it: "steps_to uc r i t ([task_event PreviewKind [] now t1], put_task i (t1\<lparr>rk_phase := ShowingPreview completed used\<rparr>) r)"
    if "task_current r t" "length (rk_text t1) \<le> 24000"
    by (rule steps_to_same)
      (use assms that in \<open>simp_all add: t1_def task_step_def short_text_def event_key_def task_key_def
         task_event_def event_sound_def entered_def holding_def\<close>)
  have done_now: "steps_to uc r i t (after_preview uc now i completed used t1 r)" if "length (rk_text t1) \<le> 24000"
    by (rule after_preview_steps) (use assms that in \<open>simp_all add: t1_def\<close>)
  have "steps_to uc r i t (at_phase i (ClosingStream e) t1 r)" "steps_to uc r i t (at_phase i (ClosingStream e) t r)" for e
    using quiet by (simp_all add: t1_def)
  with show_it done_now show ?thesis
    unfolding take_chunk_def t1_def [symmetric] Let_def by (simp split: option.split)
qed

lemma with_slot_steps:
  assumes "rk_phase t = Created \<or> rk_phase t = WaitingSlot" "slot_free r"
    and "rk_request t1 = rk_request t" "rk_generation t1 = rk_generation t" "rk_text t1 = rk_text t"
    and "if rk_phase t = Created then rk_provider t1 = Some (ru_provider r) else rk_provider t1 = rk_provider t"
  shows "steps_to uc r i t (with_slot now i t1 (r\<lparr>ru_queue := q\<rparr>))"
proof -
  define t2 where "t2 = t1\<lparr>rk_queue_ms := (now - rk_started t1) * 1000\<rparr>"
  have cur: "task_current r t2 = task_current r t" using assms(3,4) by (simp add: task_current_def t2_def)
  have "steps_to uc r i t (at_phase i p t2 (r\<lparr>ru_queue := q\<rparr>))" if "p = Ended \<or> p = Streaming" for p
    unfolding at_phase_def
    by (rule steps_toI [OF refl])
      (use assms that in \<open>auto simp: t2_def task_step_def short_text_def entered_def holding_def split: if_splits\<close>)
  moreover have "steps_to uc r i t (conclude now i e t2 (r\<lparr>ru_queue := q\<rparr>))" for e
    by (rule conclude_steps) (use assms cur in \<open>auto simp: t2_def split: if_splits\<close>)
  ultimately show ?thesis using cur by (simp add: with_slot_def Let_def t2_def split: option.split)
qed

lemma enter_task_steps:
  assumes "rk_phase t = Created"
  shows "steps_to uc r i t (enter_task now i t r)"
proof -
  define t1 where "t1 = t\<lparr>rk_provider := Some (ru_provider r)\<rparr>"
  have "steps_to uc r i t (at_phase i p t1 (r\<lparr>ru_queue := q\<rparr>))" if "p = Ended \<or> p = WaitingSlot" for p q
    unfolding at_phase_def
    by (rule steps_toI [OF refl])
      (use assms that in \<open>auto simp: t1_def task_step_def short_text_def entered_def holding_def\<close>)
  note quiet = this [of Ended "ru_queue r"] this [of WaitingSlot "ru_queue r @ [i]"]
  have "steps_to uc r i t (with_slot now i t1 (r\<lparr>ru_queue := ru_queue r\<rparr>))" if "slot_free r"
    by (rule with_slot_steps) (use assms that in \<open>simp_all add: t1_def\<close>)
  with quiet show ?thesis by (simp add: enter_task_def Let_def t1_def)
qed

theorem resume_phase_steps:
  "resume_phase uc now i a t r = ([], r) \<or> steps_to uc r i t (resume_phase uc now i a t r)"
proof -
  have conc: "steps_to uc r i t (conclude now i e t (r\<lparr>ru_queue := q\<rparr>))"
    if "phase_rank (rk_phase t) \<le> 1" "rk_phase t \<noteq> Created" for e q
    by (rule conclude_steps) (use that in simp_all)
  have quiet: "steps_to uc r i t (at_phase i p t1 r)"
    if "holding p \<and> holding (rk_phase t) \<or> p = Ended" "phase_rank (rk_phase t) \<le> phase_rank p" "rk_phase t \<noteq> Created"
      "phase_rank p \<noteq> 0" "t1 = t \<or> t1 = t\<lparr>rk_terminal := True\<rparr>" for p t1
    unfolding at_phase_same
    by (rule steps_toI [OF refl])
      (use that in \<open>auto simp: task_step_def short_text_def entered_def holding_def split: run_phase.splits\<close>)
  show ?thesis
  proof (cases "rk_phase t")
    case Created
    then show ?thesis using enter_task_steps [of t uc r i now] by (simp add: resume_phase_def)
  next
    case WaitingSlot
    have "steps_to uc r i t (with_slot now i t (r\<lparr>ru_queue := q\<rparr>))" if "slot_free r" for q
      by (rule with_slot_steps) (use WaitingSlot that in simp_all)
    then show ?thesis using WaitingSlot conc by (auto simp: resume_phase_def split: run_answer.split)
  next
    case Streaming
    then show ?thesis using take_chunk_steps [OF Streaming] quiet
      by (auto simp: resume_phase_def holding_def split: run_answer.split)
  next
    case (ShowingPreview completed used)
    have "steps_to uc r i t (after_preview uc now i completed used t r)"
      by (rule after_preview_steps) (use ShowingPreview in auto)
    then show ?thesis using ShowingPreview quiet by (auto simp: resume_phase_def holding_def split: run_answer.split)
  next
    case ShowingResult
    then show ?thesis using quiet by (auto simp: resume_phase_def holding_def split: run_answer.split)
  next
    case (ClosingStream e)
    then show ?thesis using conc [where q = "ru_queue r"] by (auto simp: resume_phase_def split: run_answer.split)
  next
    case Reporting
    then show ?thesis using quiet by (auto simp: resume_phase_def split: run_answer.split)
  next
    case Ended
    then show ?thesis by (simp add: resume_phase_def)
  qed
qed

subsection \<open>The invariant\<close>

type_synonym 'p task_view = "nat \<times> (nat \<times> ustring \<times> int) \<times> run_phase \<times> ustring \<times> 'p option"

definition view_of :: "nat \<Rightarrow> 'p run_task \<Rightarrow> 'p task_view" where
  "view_of i t = (i, task_key t, rk_phase t, rk_text t, rk_provider t)"

definition views :: "'p runner \<Rightarrow> 'p task_view list" where
  "views r = map (\<lambda>(i, t). view_of i t) (ru_all r)"

definition known :: "'p runner \<Rightarrow> nat \<times> ustring \<times> int \<Rightarrow> bool" where
  "known r k \<longleftrightarrow> (case k of (g, seg, v) \<Rightarrow> g < ru_generation r
     \<or> g = ru_generation r \<and> \<not> ru_switching r \<and> (\<exists>w. map_of (ru_latest r) seg = Some w \<and> v \<le> w))"

definition view_ok :: "'p runner \<Rightarrow> 'p task_view \<Rightarrow> bool" where
  "view_ok r w \<longleftrightarrow> (case w of (i, k, p, x, pr) \<Rightarrow> i < ru_next r \<and> fst k \<le> ru_generation r
     \<and> (phase_rank p = 0 \<longrightarrow> length x \<le> 24000)
     \<and> (entered p \<and> fst k = ru_generation r \<longrightarrow> pr = Some (ru_provider r))
     \<and> (\<not> ru_closed r \<longrightarrow> known r k))"

definition tasks_ok :: "'p runner \<Rightarrow> bool" where
  "tasks_ok r \<longleftrightarrow> distinct (map fst (views r)) \<and> distinct (map (fst \<circ> snd) (views r))
     \<and> (\<forall>w \<in> set (views r). view_ok r w)"

definition live_ok :: "run_event list \<Rightarrow> 'p runner \<Rightarrow> bool" where
  "live_ok tr r \<longleftrightarrow> (\<forall>w \<in> set (views r). \<forall>e \<in> set tr. case w of (i, k, p, x, pr) \<Rightarrow>
     event_key e = k \<longrightarrow> prefix (rv_text e) x \<and> event_rank (rv_kind e) \<le> phase_rank p)"

definition log_ok :: "unidb \<Rightarrow> run_event list \<Rightarrow> 'p runner \<Rightarrow> bool" where
  "log_ok uc tr r \<longleftrightarrow> sorted_wrt event_follows tr \<and> (\<forall>e \<in> set tr. event_sound uc e)
     \<and> (\<not> ru_closed r \<longrightarrow> (\<forall>e \<in> set tr. known r (event_key e)))"

definition holders :: "'p runner \<Rightarrow> nat" where
  "holders r = length (filter (\<lambda>(i, t). holding (rk_phase t)) (ru_all r))"

definition bounds_ok :: "'p runner \<Rightarrow> bool" where
  "bounds_ok r \<longleftrightarrow> length (ru_all r) \<le> ru_max_pending r + 1 \<and> length (ru_tasks r) \<le> ru_max_pending r
     \<and> length (ru_latest r) \<le> ru_max_segments r \<and> holders r \<le> ru_concurrency r"

definition runner_inv :: "unidb \<Rightarrow> run_event list \<Rightarrow> 'p runner \<Rightarrow> bool" where
  "runner_inv uc tr r \<longleftrightarrow> tasks_ok r \<and> live_ok tr r \<and> log_ok uc tr r \<and> bounds_ok r"

lemmas runner_inv_defs = runner_inv_def tasks_ok_def live_ok_def log_ok_def bounds_ok_def

lemma holders_views: "holders r = length (filter (\<lambda>(i, k, p, x, pr). holding p) (views r))"
  by (simp add: holders_def views_def view_of_def filter_map o_def split_def)

lemma length_views: "length (ru_all r) = length (views r)"
  by (simp add: views_def)

text \<open>A step that leaves the views alone keeps what depends on them.\<close>

lemma inv_views:
  assumes "runner_inv uc tr r" and "views r' = views r"
    and "\<And>w. w \<in> set (views r) \<Longrightarrow> view_ok r w \<Longrightarrow> view_ok r' w"
    and "\<And>k. known r k \<Longrightarrow> \<not> ru_closed r' \<Longrightarrow> known r' k" "\<not> ru_closed r' \<Longrightarrow> \<not> ru_closed r"
    and "length (ru_tasks r') \<le> length (ru_tasks r)" "length (ru_latest r') \<le> length (ru_latest r)"
    and "ru_max_pending r' = ru_max_pending r" "ru_max_segments r' = ru_max_segments r" "ru_concurrency r' = ru_concurrency r"
  shows "runner_inv uc tr r'"
proof -
  have "tasks_ok r'" using assms(1,3) unfolding runner_inv_def tasks_ok_def assms(2) by blast
  moreover have "live_ok tr r'" using assms(1) unfolding runner_inv_def live_ok_def assms(2) by blast
  moreover have "log_ok uc tr r'" using assms(1,4,5) unfolding runner_inv_def log_ok_def by blast
  moreover have "bounds_ok r'"
    using assms(1,6-10) unfolding runner_inv_def bounds_ok_def holders_views length_views assms(2) by auto
  ultimately show ?thesis by (simp add: runner_inv_def)
qed

lemma inv_same_views:
  assumes "runner_inv uc tr r" and "views r' = views r" and "ru_next r' = ru_next r"
    and "ru_generation r' = ru_generation r" "ru_provider r' = ru_provider r" "ru_closed r' = ru_closed r"
    and "ru_switching r' = ru_switching r" "ru_latest r' = ru_latest r" "ru_tasks r' = ru_tasks r"
    and "ru_max_pending r' = ru_max_pending r" "ru_max_segments r' = ru_max_segments r" "ru_concurrency r' = ru_concurrency r"
  shows "runner_inv uc tr r'"
  by (rule inv_views [OF assms(1,2)]) (use assms(3-) in \<open>simp_all add: view_ok_def known_def\<close>)

lemma views_put:
  assumes "map_of (ru_all r) i = Some t" and "view_of i t' = view_of i t"
  shows "views (r\<lparr>ru_all := al_put i t' (ru_all r)\<rparr>) = views r"
proof -
  obtain a b where "ru_all r = a @ (i, t) # b" "\<And>v. al_put i v (ru_all r) = a @ (i, v) # b"
    using map_of_decompose [OF assms(1)] by blast
  then show ?thesis using assms(2) by (simp add: views_def)
qed

lemma view_ask_cancel [simp]: "view_of i (ask_cancel t) = view_of i t"
  by (simp add: view_of_def ask_cancel_def task_key_def)

lemma views_cancel_task: "views (cancel_task i r) = views r"
  by (simp add: cancel_task_def views_put split: option.split)

lemma inv_cancel_task: "runner_inv uc tr r \<Longrightarrow> runner_inv uc tr (cancel_task i r)"
  by (rule inv_same_views [of uc tr r]) (simp_all add: views_cancel_task, simp_all add: cancel_task_def split: option.split)

lemma inv_expire: "runner_inv uc tr r \<Longrightarrow> runner_inv uc tr (expire_task i r)"
proof -
  assume inv: "runner_inv uc tr r"
  have "views (expire_task i r) = views r"
    unfolding expire_task_def put_task_def
    by (auto simp: view_of_def task_key_def intro!: views_put split: option.split)
  then show ?thesis
    by (rule inv_same_views [OF inv]) (simp_all add: expire_task_def put_task_def split: option.split)
qed

lemma views_cancel_all [simp]: "views (cancel_all r) = views r"
  by (simp add: views_def cancel_all_def split_def)

lemma views_more [simp]:
  "views (r\<lparr>ru_switching := b\<rparr>) = views r" "views (r\<lparr>ru_closed := b\<rparr>) = views r" "views (r\<lparr>ru_generation := g\<rparr>) = views r"
  "views (r\<lparr>ru_provider := pr\<rparr>) = views r" "views (r\<lparr>ru_queue := q\<rparr>) = views r" "views (forget_all r) = views r"
  by (simp_all add: views_def forget_all_def)

subsection \<open>Switching and closing\<close>

lemma inv_close_flag:
  assumes "runner_inv uc tr r"
  shows "runner_inv uc tr (cancel_all (r\<lparr>ru_closed := True\<rparr>))"
  by (rule inv_views [OF assms, OF views_cancel_all [of "r\<lparr>ru_closed := True\<rparr>", unfolded views_more]])
    (auto simp: cancel_all_def view_ok_def split: prod.splits)

lemma inv_switch_flag:
  assumes "runner_inv uc tr r" and "\<not> ru_closed r"
  shows "runner_inv uc tr (cancel_all (r\<lparr>ru_switching := True, ru_generation := ru_generation r + 1\<rparr>))"
    (is "runner_inv _ _ ?r")
proof (rule inv_views [OF assms(1)])
  have known: "known ?r k" if "known r k" for k using that by (auto simp: known_def cancel_all_def)
  show "view_ok ?r w" if "view_ok r w" for w
    using that assms(2) known by (auto simp: view_ok_def split: prod.splits) (simp_all add: cancel_all_def)
  show "known ?r k" if "known r k" for k using that by (rule known)
qed (simp_all add: assms(2), simp_all add: cancel_all_def)

lemma drained_views: "drained r \<Longrightarrow> w \<in> set (views r) \<Longrightarrow> (case w of (i, k, p, x, pr) \<Rightarrow> p = Ended)"
  by (auto simp: drained_def views_def view_of_def list_all_iff)

lemma inv_end_switch:
  assumes "runner_inv uc tr r" and "ru_switching r"
  shows "runner_inv uc tr (snd (end_switch p r))"
proof (rule inv_views [OF assms(1)])
  have known: "known (snd (end_switch p r)) k" if "known r k" for k
    using that assms(2) by (auto simp: known_def end_switch_def forget_all_def)
  show "known (snd (end_switch p r)) k" if "known r k" for k using that by (rule known)
  show "view_ok (snd (end_switch p r)) w" if "w \<in> set (views r)" "view_ok r w" for w
  proof -
    have "drained r \<Longrightarrow> (case w of (i, k, p, x, pr) \<Rightarrow> p = Ended)" using drained_views that(1) by blast
    moreover have "ru_provider (snd (end_switch p r)) = ru_provider r \<or> drained r" by (simp add: end_switch_def)
    moreover have "ru_next (snd (end_switch p r)) = ru_next r" "ru_generation (snd (end_switch p r)) = ru_generation r"
      "ru_closed (snd (end_switch p r)) = ru_closed r" by (simp_all add: end_switch_def forget_all_def)
    ultimately show ?thesis using that(2) known by (auto simp: view_ok_def entered_def split: prod.splits)
  qed
qed (simp_all add: end_switch_def, simp_all add: forget_all_def split: if_splits)

lemma inv_close_ends:
  assumes "runner_inv uc tr r" and "ru_closed r"
  shows "runner_inv uc tr (snd (close_ends r))"
proof (rule inv_views [OF assms(1)])
  show "views (snd (close_ends r)) = views r" by (simp add: close_ends_def)
qed (use assms(2) in \<open>auto simp: close_ends_def forget_all_def view_ok_def split: prod.splits if_splits\<close>)

subsection \<open>Submitting and reaping\<close>

lemma inv_submit:
  assumes "runner_inv uc tr r" and "submit_task q now r = Inr r'"
  shows "runner_inv uc tr r'"
proof -
  have ok: "submit_refused q r = None" using assms(2) by (simp add: submit_task_def split: option.splits)
  define r1 where "r1 = (case map_of (ru_tasks r) (tr_segment q) of None \<Rightarrow> r | Some i \<Rightarrow> cancel_task i r)"
  have inv: "runner_inv uc tr r1" using assms(1) inv_cancel_task [OF assms(1)] by (simp add: r1_def split: option.split)
  have frame: "views r1 = views r" "ru_latest r1 = ru_latest r" "ru_tasks r1 = ru_tasks r" "ru_generation r1 = ru_generation r"
    "ru_closed r1 = ru_closed r" "ru_switching r1 = ru_switching r" "ru_max_pending r1 = ru_max_pending r"
    "ru_max_segments r1 = ru_max_segments r" "ru_concurrency r1 = ru_concurrency r"
    by (simp_all add: r1_def views_cancel_task split: option.split) (simp_all add: cancel_task_def split: option.split)
  define k where "k = (ru_generation r1, tr_segment q, tr_revision q)"
  have r': "r' = r1\<lparr>ru_latest := al_put (tr_segment q) (tr_revision q) (ru_latest r1),
      ru_tasks := al_put (tr_segment q) (ru_next r1) (ru_tasks r1),
      ru_all := ru_all r1 @ [(ru_next r1, new_task q now r1)], ru_next := ru_next r1 + 1\<rparr>"
    using assms(2) ok by (simp add: submit_task_def r1_def Let_def)
  have open_now: "\<not> ru_closed r1" "\<not> ru_switching r1" and room: "length (ru_all r1) \<le> ru_max_pending r1"
    and fresh: "tr_revision q > (case map_of (ru_latest r1) (tr_segment q) of None \<Rightarrow> 0 | Some v \<Rightarrow> v)"
    and slots: "map_of (ru_tasks r1) (tr_segment q) \<noteq> None \<or> length (ru_tasks r1) < ru_max_pending r1"
      "map_of (ru_latest r1) (tr_segment q) \<noteq> None \<or> length (ru_latest r1) < ru_max_segments r1"
    using ok frame by (auto simp: submit_refused_def Let_def run_pending_count_def length_views split: if_splits)
  have vs: "views r' = views r1 @ [(ru_next r1, k, Created, [], None)]"
    by (simp add: r' views_def view_of_def task_key_def new_task_def k_def)
  have keep: "known r' l" if "known r1 l" for l
    using that fresh by (auto simp: known_def r' split: if_splits option.splits)
  have new: "\<not> known r1 k" using fresh by (auto simp: known_def k_def)
  have newk: "known r' k" using open_now by (simp add: known_def r' k_def)
  have old: "known r1 (fst (snd w))" if "w \<in> set (views r1)" for w
    using inv that open_now by (fastforce simp: runner_inv_def tasks_ok_def view_ok_def)
  have oldlog: "known r1 (event_key e)" if "e \<in> set tr" for e
    using inv that open_now by (simp add: runner_inv_def log_ok_def)
  have "tasks_ok r'"
  proof -
    have "view_ok r' w" if "w \<in> set (views r1)" for w
      using inv that keep unfolding runner_inv_def tasks_ok_def view_ok_def by (fastforce simp: r')
    moreover have "view_ok r' (ru_next r1, k, Created, [], None)"
      using newk by (simp add: view_ok_def k_def entered_def) (simp add: r')
    moreover have "ru_next r1 \<notin> fst ` set (views r1)"
      using inv by (fastforce simp: runner_inv_def tasks_ok_def view_ok_def)
    moreover have "k \<notin> (fst \<circ> snd) ` set (views r1)" using new old by auto
    ultimately show ?thesis using inv by (auto simp: runner_inv_def tasks_ok_def vs)
  qed
  moreover have "live_ok tr r'"
    using inv oldlog new unfolding runner_inv_def live_ok_def vs by fastforce
  moreover have "log_ok uc tr r'" using inv keep open_now by (simp add: runner_inv_def log_ok_def r')
  moreover have "bounds_ok r'"
  proof -
    have "holders r' = holders r1" by (simp add: holders_views vs holding_def)
    then show ?thesis
      using inv room slots length_al_put_le [of "tr_segment q" "tr_revision q" "ru_latest r1"]
        length_al_put_le [of "tr_segment q" "ru_next r1" "ru_tasks r1"]
      by (auto simp: runner_inv_def bounds_ok_def r' split: if_splits)
  qed
  ultimately show ?thesis by (simp add: runner_inv_def)
qed

lemma inv_reap:
  assumes "runner_inv uc tr r"
  shows "runner_inv uc tr (reap_task i r)"
proof (cases "reap_task i r = r")
  case False
  then obtain ts where r': "reap_task i r = r\<lparr>ru_all := al_del i (ru_all r), ru_tasks := ts\<rparr>"
    and ts: "length ts \<le> length (ru_tasks r)"
    by (auto simp: reap_task_def al_del_def length_filter_le split: option.splits if_splits)
  have vs: "views (reap_task i r) = filter (\<lambda>w. fst w \<noteq> i) (views r)"
    by (simp add: r' views_def al_del_def filter_map o_def split_def view_of_def)
  have sub: "set (views (reap_task i r)) \<subseteq> set (views r)" by (auto simp: vs)
  have "view_ok (reap_task i r) w = view_ok r w" for w by (simp add: view_ok_def known_def r')
  then have "tasks_ok (reap_task i r)"
    using assms sub unfolding runner_inv_def tasks_ok_def vs by (simp add: distinct_map_filter)
  moreover have "live_ok tr (reap_task i r)" using assms sub unfolding runner_inv_def live_ok_def by blast
  moreover have "log_ok uc tr (reap_task i r)" using assms by (simp add: runner_inv_def log_ok_def r' known_def)
  moreover have "bounds_ok (reap_task i r)"
  proof -
    have "length (filter P (filter Q ws)) \<le> length (filter P ws)" for P Q and ws :: "'a task_view list"
      by (induction ws) auto
    then have "holders (reap_task i r) \<le> holders r" unfolding holders_views vs .
    moreover have "length (ru_all (reap_task i r)) \<le> length (ru_all r)" by (simp add: length_views vs)
    ultimately show ?thesis using assms ts by (simp add: runner_inv_def bounds_ok_def r')
  qed
  ultimately show ?thesis by (simp add: runner_inv_def)
qed (use assms in simp)


subsection \<open>A step of a task\<close>

lemma current_key: "task_current r t \<Longrightarrow> known r k \<Longrightarrow> fst k \<le> fst (task_key t) \<and>
    (fst k = fst (task_key t) \<and> fst (snd k) = fst (snd (task_key t)) \<longrightarrow> snd (snd k) \<le> snd (snd (task_key t)))"
  by (cases k) (auto simp: task_current_def known_def task_key_def)

lemma inv_steps_to:
  assumes inv: "runner_inv uc tr r" and t: "map_of (ru_all r) i = Some t"
    and "steps_to uc r i t (es, r')"
  shows "runner_inv uc (tr @ es) r'"
proof -
  obtain t' q where r': "r' = put_task i t' (r\<lparr>ru_queue := q\<rparr>)" and st: "task_step uc r t es t'"
    using assms(3) by (auto simp: steps_to_def)
  obtain a b where all: "ru_all r = a @ (i, t) # b" "\<And>v. al_put i v (ru_all r) = a @ (i, v) # b"
    using map_of_decompose [OF t] by blast
  define va vb where "va = map (\<lambda>(i, t). view_of i t) a" and "vb = map (\<lambda>(i, t). view_of i t) b"
  have vs: "views r = va @ view_of i t # vb" "views r' = va @ view_of i t' # vb"
    using all by (simp_all add: views_def va_def vb_def r' put_task_def)
  have key: "task_key t' = task_key t" using st by (simp add: task_step_def task_key_def)
  have frame: "ru_next r' = ru_next r" "ru_generation r' = ru_generation r" "ru_provider r' = ru_provider r"
    "ru_closed r' = ru_closed r" "ru_switching r' = ru_switching r" "ru_latest r' = ru_latest r" "ru_tasks r' = ru_tasks r"
    "ru_max_pending r' = ru_max_pending r" "ru_max_segments r' = ru_max_segments r" "ru_concurrency r' = ru_concurrency r"
    by (simp_all add: r' put_task_def)
  have known: "known r' k = known r k" for k by (simp add: known_def frame)
  have ok: "view_ok r (view_of i t)" using inv by (simp add: runner_inv_def tasks_ok_def vs)
  then have short: "short_text t" by (simp add: view_ok_def view_of_def short_text_def)
  have "view_ok r' (view_of i t')"
    using ok st short key by (auto simp: view_ok_def view_of_def task_step_def short_text_def entered_def known frame)
  moreover have "view_ok r' w = view_ok r w" for w by (simp add: view_ok_def known frame)
  ultimately have "tasks_ok r'" using inv key by (simp add: runner_inv_def tasks_ok_def vs view_of_def)
  moreover have "bounds_ok r'"
  proof -
    have "holders r' = length (filter (\<lambda>(i, k, p, x, pr). holding p) va)
        + (if holding (rk_phase t') then 1 else 0) + length (filter (\<lambda>(i, k, p, x, pr). holding p) vb)"
      "holders r = length (filter (\<lambda>(i, k, p, x, pr). holding p) va)
        + (if holding (rk_phase t) then 1 else 0) + length (filter (\<lambda>(i, k, p, x, pr). holding p) vb)"
      by (simp_all add: holders_views vs view_of_def)
    moreover have "holding (rk_phase t') \<longrightarrow> holding (rk_phase t) \<or> holders r < ru_concurrency r"
      using st by (simp add: task_step_def slot_free_def holders_def)
    moreover have "length (ru_all r') = length (ru_all r)" by (simp add: length_views vs)
    ultimately show ?thesis using inv by (auto simp: runner_inv_def bounds_ok_def frame)
  qed
  moreover have grow: "prefix (rk_text t) (rk_text t')" "phase_rank (rk_phase t) \<le> phase_rank (rk_phase t')"
    using st by (simp_all add: task_step_def)
  have old_live: "prefix (rv_text e) (rk_text t) \<and> event_rank (rv_kind e) \<le> phase_rank (rk_phase t)"
    if "e \<in> set tr" "event_key e = task_key t" for e
    using inv that by (simp add: runner_inv_def live_ok_def vs view_of_def)
  have others: "fst (snd w) \<noteq> task_key t" if "w \<in> set va \<union> set vb" for w
  proof -
    have "task_key t \<notin> (fst \<circ> snd) ` (set va \<union> set vb)"
      using inv by (auto simp: runner_inv_def tasks_ok_def vs view_of_def)
    then show ?thesis using that by (metis comp_apply imageI)
  qed
  have "prefix (rv_text e) (rk_text t') \<and> event_rank (rv_kind e) \<le> phase_rank (rk_phase t')"
    if "e \<in> set tr" "event_key e = task_key t" for e
    using old_live [OF that] grow by (meson prefix_order.trans order_trans)
  then have live: "live_ok tr r'"
    using inv key unfolding runner_inv_def live_ok_def vs by (auto simp: view_of_def)
  show ?thesis
  proof (cases es)
    case Nil
    moreover have "log_ok uc tr r'" using inv by (simp add: runner_inv_def log_ok_def known frame)
    ultimately show ?thesis using \<open>tasks_ok r'\<close> \<open>bounds_ok r'\<close> live by (simp add: runner_inv_def)
  next
    case (Cons e fs)
    then have es: "es = [e]" using st by (cases fs) (simp_all add: task_step_def)
    have cur: "task_current r t" and ke: "event_key e = task_key t" and xe: "rv_text e = rk_text t'"
      and sound: "event_sound uc e" and re: "event_rank (rv_kind e) \<le> phase_rank (rk_phase t')"
      and up: "phase_rank (rk_phase t) < event_rank (rv_kind e) \<or> phase_rank (rk_phase t) = 0 \<and> rv_kind e = PreviewKind"
      using st short by (simp_all add: task_step_def es)
    have open_now: "\<not> ru_closed r" using cur by (simp add: task_current_def)
    have "event_follows d e" if d: "d \<in> set tr" for d
    proof -
      have "known r (event_key d)" using inv open_now d by (simp add: runner_inv_def log_ok_def)
      note le = current_key [OF cur this]
      have same: "prefix (rv_text d) (rv_text e) \<and> (event_rank (rv_kind d) < event_rank (rv_kind e)
          \<or> rv_kind d = PreviewKind \<and> rv_kind e = PreviewKind)" if "event_key d = event_key e"
      proof -
        have "prefix (rv_text d) (rk_text t)" "event_rank (rv_kind d) \<le> phase_rank (rk_phase t)"
          using old_live [OF d] that ke by simp_all
        moreover have "event_rank (rv_kind d) = 0 \<Longrightarrow> rv_kind d = PreviewKind" by (cases "rv_kind d") simp_all
        ultimately show ?thesis using grow(1) up xe by (auto intro: prefix_order.trans)
      qed
      show ?thesis using le same ke unfolding event_follows_def event_key_def task_key_def by auto
    qed
    then have "log_ok uc (tr @ es) r'"
      using inv sound open_now ke ok
      by (auto simp: runner_inv_def log_ok_def known frame es sorted_wrt_append view_ok_def view_of_def)
    moreover have "live_ok [e] r'"
    proof -
      have "case w of (i, k, p, x, pr) \<Rightarrow> event_key e = k \<longrightarrow> prefix (rv_text e) x \<and> event_rank (rv_kind e) \<le> phase_rank p"
        if "w \<in> set va \<union> set vb" for w
        using others [OF that] ke by (cases w) auto
      then show ?thesis using re xe by (simp add: live_ok_def vs view_of_def)
    qed
    then have "live_ok (tr @ es) r'" using live by (auto simp: live_ok_def es)
    ultimately show ?thesis using \<open>tasks_ok r'\<close> \<open>bounds_ok r'\<close> by (simp add: runner_inv_def)
  qed
qed

lemma inv_resume: "runner_inv uc tr r \<Longrightarrow> resume_task uc now i x r = (es, r') \<Longrightarrow> runner_inv uc (tr @ es) r'"
proof (cases "map_of (ru_all r) i")
  case (Some t)
  assume "runner_inv uc tr r" and "resume_task uc now i x r = (es, r')"
  then show ?thesis using resume_phase_steps [of uc now i x t r] inv_steps_to [OF _ Some, of uc tr es r'] Some
    by (auto simp: resume_task_def)
qed (simp add: resume_task_def)

lemma inv_action: "runner_inv uc tr r \<Longrightarrow> run_action uc now a r = (es, r') \<Longrightarrow> runner_inv uc (tr @ es) r'"
proof (cases a)
  case (BeginSwitch p d)
  assume inv: "runner_inv uc tr r" and st: "run_action uc now a r = (es, r')"
  then show ?thesis using BeginSwitch inv_switch_flag [OF inv] inv_end_switch [OF inv_switch_flag [OF inv], of p]
    by (auto simp: run_action_def begin_switch_def Let_def cancel_all_def)
next
  case (BeginClose d)
  assume inv: "runner_inv uc tr r" and st: "run_action uc now a r = (es, r')"
  then show ?thesis using BeginClose inv_close_flag [OF inv] inv_close_ends [OF inv_close_flag [OF inv]]
    by (auto simp: run_action_def close_begins_def Let_def cancel_all_def)
qed (auto simp: run_action_def inv_cancel_task inv_expire inv_reap inv_end_switch inv_close_ends
     intro: inv_submit inv_resume split: sum.splits if_splits)

lemma inv_run: "runner_inv uc tr r \<Longrightarrow> runner_run uc as r = (es, r') \<Longrightarrow> runner_inv uc (tr @ es) r'"
proof (induction uc as r arbitrary: tr es rule: runner_run.induct)
  case (2 uc now a as r)
  obtain fs r1 where 1: "run_action uc now a r = (fs, r1)" by fastforce
  obtain gs r2 where 2: "runner_run uc as r1 = (gs, r2)" by fastforce
  show ?case using "2.IH" [OF 1 [symmetric] inv_action [OF "2.prems"(1) 1]] "2.prems"(2) 1 2 by simp
qed simp

lemma new_runner_inv: "new_runner p m c s = Inr r \<Longrightarrow> runner_inv uc [] r"
  by (auto simp: new_runner_def runner_inv_defs views_def holders_def split: if_splits)


subsection \<open>The limits stay\<close>

definition limits :: "'p runner \<Rightarrow> nat \<times> nat \<times> nat" where
  "limits r = (ru_max_pending r, ru_concurrency r, ru_max_segments r)"

lemma limits_action: "run_action uc now a r = (es, r') \<Longrightarrow> limits r' = limits r"
proof (cases a)
  case (Resume i x)
  have "limits (snd (resume_phase uc now i x t r)) = limits r" for t
    using resume_phase_steps [of uc now i x t r] by (auto simp: steps_to_def limits_def put_task_def)
  moreover assume "run_action uc now a r = (es, r')"
  then have "resume_task uc now i x r = (es, r')" using Resume by (simp add: run_action_def)
  ultimately show ?thesis by (metis resume_task_def option.case_eq_if snd_conv)
qed (auto simp: run_action_def limits_def submit_task_def cancel_task_def reap_task_def expire_task_def put_task_def
      begin_switch_def end_switch_def close_begins_def close_ends_def forget_all_def cancel_all_def Let_def
      split: sum.splits option.splits if_splits)

lemma limits_run: "runner_run uc as r = (es, r') \<Longrightarrow> limits r' = limits r"
  by (induction uc as r arbitrary: es rule: runner_run.induct) (auto dest!: limits_action split: prod.splits)

subsection \<open>A run\<close>

definition sample_request :: "int \<Rightarrow> string \<Rightarrow> translation_request" where
  "sample_request v s = \<lparr>tr_segment = lit ''s'', tr_revision = v, tr_text = lit s, tr_source = lit ''en'',
     tr_target = lit ''ko'', tr_context = [], tr_budget_ms = Fin 8000, tr_deadline = None\<rparr>"

definition sample_runner :: "nat runner" where
  "sample_runner = (case new_runner 7 2 1 10 of Inr r \<Rightarrow> r)"

text \<open>Revision 2 replaces revision 1 in the middle of its stream and completes; then the provider changes.\<close>

definition sample_actions :: "(rat \<times> nat run_action) list" where
  "sample_actions =
     [(0, Submit (sample_request 1 ''hello'')), (0, Resume 0 Resumes), (1, Resume 0 (Chunk (lit ''an'') False [])),
      (1, Resume 0 Resumes), (2, Submit (sample_request 2 ''hello all'')), (2, Resume 1 Resumes),
      (2, Resume 0 (Raises CancelExit)), (2, Resume 0 Resumes), (2, Reap 0), (3, Resume 1 Resumes),
      (3, Resume 1 (Chunk (lit ''an'') False [])), (3, Resume 1 Resumes), (4, Resume 1 (Chunk (lit ''nyeong'') True [])),
      (4, Resume 1 Resumes), (4, Resume 1 Resumes), (4, Resume 1 Resumes), (4, Reap 1), (5, BeginSwitch 8 1),
      (6, Submit (sample_request 1 ''bye'')), (6, Resume 2 Resumes), (15, Expire 2), (15, Resume 2 (Raises CancelExit)),
      (15, Resume 2 Resumes)]"

definition sample_outcome :: "run_event list \<times> nat runner" where
  "sample_outcome = runner_run ascii_db sample_actions sample_runner"

lemma sample_new_runner: "new_runner 7 2 1 10 = Inr sample_runner"
  by (simp add: sample_runner_def new_runner_def)

lemma sample_log:
  "map (\<lambda>e. (rv_generation e, rv_revision e, rv_kind e, rv_text e)) (fst sample_outcome) =
     [(0, 1, PreviewKind, lit ''an''), (0, 2, PreviewKind, lit ''an''), (0, 2, PreviewKind, lit ''annyeong''),
      (0, 2, CompletedKind, lit ''annyeong''), (1, 1, FailedKind ''timeout'', [])]"
  by code_simp

lemma sample_end: "map (\<lambda>(i, t). (i, rk_phase t)) (ru_all (snd sample_outcome)) = [(2, Reporting)]"
  by code_simp

subsection \<open>Properties\<close>

text \<open>
  C40: the events of a runner never go back: in the order the sink gets them, provider generations never
  decrease, within a generation no event of a segment follows one of a newer revision, and the events of one
  request extend its text and its status, with at most one completion and nothing after a failure or a
  cancellation. What is shown or completed is within the output limit, and a completion is never blank.
\<close>

theorem runner_never_goes_back:
  assumes "new_runner provider max_pending concurrency max_segments = Inr r0"
    and "runner_run uc actions r0 = (events, r)"
  shows "sorted_wrt event_follows events \<and> (\<forall>e. e \<in> set events \<longrightarrow> event_sound uc e)"
  using inv_run [OF new_runner_inv [OF assms(1)] assms(2)] by (simp add: runner_inv_def log_ok_def)

lemma runner_never_goes_back_witness:
  "sorted_wrt event_follows (fst sample_outcome) \<and> length (fst sample_outcome) = 5"
proof -
  have "runner_run ascii_db sample_actions sample_runner = (fst sample_outcome, snd sample_outcome)"
    by (simp add: sample_outcome_def)
  from runner_never_goes_back [OF sample_new_runner this] arg_cong [OF sample_log, of length]
  show ?thesis by simp
qed

text \<open>
  A runner is bounded and every running request has the right provider: the tasks that hold resources
  are at most one more than the pending limit, the segments and the requests that hold a slot are within their
  limits, and a request of the current generation that has entered uses the current provider.
\<close>

theorem runner_bounded:
  assumes "new_runner provider max_pending concurrency max_segments = Inr r0"
    and "runner_run uc actions r0 = (events, r)"
  shows "int (run_pending_count r) \<le> max_pending + 1 \<and> int (length (ru_tasks r)) \<le> max_pending
    \<and> int (length (ru_latest r)) \<le> max_segments
    \<and> int (length (filter (\<lambda>(i, t). holding (rk_phase t)) (ru_all r))) \<le> concurrency
    \<and> (\<forall>i t. (i, t) \<in> set (ru_all r) \<and> rk_generation t = ru_generation r \<and> entered (rk_phase t)
         \<longrightarrow> rk_provider t = Some (ru_provider r))"
proof -
  have inv: "runner_inv uc events r" using inv_run [OF new_runner_inv [OF assms(1)] assms(2)] by simp
  have "limits r = (nat max_pending, nat concurrency, nat max_segments) \<and> 0 < max_pending \<and> 0 < concurrency \<and> 0 < max_segments"
    using limits_run [OF assms(2)] assms(1) by (auto simp: new_runner_def limits_def split: if_splits)
  moreover have "rk_provider t = Some (ru_provider r)"
    if "(i, t) \<in> set (ru_all r)" "rk_generation t = ru_generation r" "entered (rk_phase t)" for i t
  proof -
    have "view_of i t \<in> set (views r)" using that(1) by (force simp: views_def)
    then have "view_ok r (view_of i t)" using inv by (simp add: runner_inv_def tasks_ok_def)
    then show ?thesis using that by (simp add: view_ok_def view_of_def task_key_def)
  qed
  ultimately show ?thesis using inv
    by (auto simp: runner_inv_def bounds_ok_def run_pending_count_def limits_def holders_def)
qed

lemma runner_bounded_witness:
  "int (run_pending_count (snd sample_outcome)) \<le> 3 \<and> map fst (ru_all (snd sample_outcome)) = [2]"
proof -
  have "runner_run ascii_db sample_actions sample_runner = (fst sample_outcome, snd sample_outcome)"
    by (simp add: sample_outcome_def)
  from runner_bounded [OF sample_new_runner this] arg_cong [OF sample_end, of "map fst"]
  show ?thesis by (simp add: o_def split_def)
qed

end
