(* ===== verification/CaptionExport.thy ===== *)
theory CaptionExport
  imports CaptionStore EngineText
begin

text \<open>
  Model of the exports of \<^verbatim>\<open>captions.py\<close>: subtitle text, cues, the slicing of overlapping cues, time stamps and
  the SRT and WebVTT documents. Options are the strings the code compares; times in a cue are milliseconds.
\<close>

subsection \<open>Subtitle text\<close>

text \<open>\<open>value.replace("\r\n", "\n").replace("\r", "\n")\<close>.\<close>

fun unify_newlines :: "ustring \<Rightarrow> ustring" where
  "unify_newlines [] = []"
| "unify_newlines (c # s) =
     (if c = 13 then (case s of [] \<Rightarrow> [10] | d # r \<Rightarrow> if d = 10 then 10 # unify_newlines r else 10 # unify_newlines s)
      else c # unify_newlines s)"

definition visible_char :: "nat \<Rightarrow> nat" where
  "visible_char c = (if c = 10 \<or> c = 9 \<or> 32 \<le> c then c else 65533)"

definition html_char :: "nat \<Rightarrow> ustring" where
  "html_char c = (if c = 38 then lit ''&amp;'' else if c = 60 then lit ''&lt;'' else if c = 62 then lit ''&gt;'' else [c])"

definition escape_html :: "ustring \<Rightarrow> ustring" where
  "escape_html s = concat (map html_char s)"

definition subtitle_lines :: "unidb \<Rightarrow> ustring \<Rightarrow> ustring list" where
  "subtitle_lines uc value =
     filter (\<lambda>l. l \<noteq> []) (map (py_strip uc) (split_char 10 (map visible_char (unify_newlines value))))"

definition subtitle_text :: "unidb \<Rightarrow> ustring \<Rightarrow> ustring" where
  "subtitle_text uc value = escape_html (py_join [10] (subtitle_lines uc value))"

subsection \<open>Cues\<close>

definition voice_label :: "unidb \<Rightarrow> (ustring \<times> ustring) list \<Rightarrow> ustring \<Rightarrow> ustring" where
  "voice_label uc aliases speaker =
     subtitle_text uc (py_join [32] (py_split uc (case map_of aliases speaker of None \<Rightarrow> speaker | Some a \<Rightarrow> a)))"

definition cue_body :: "unidb \<Rightarrow> string \<Rightarrow> caption_segment \<Rightarrow> ustring" where
  "cue_body uc mode s =
     (let tr = current_translation s
      in py_join [10]
           ((if mode \<in> {''source'', ''bilingual''} \<or> tr = None then [subtitle_text uc (cs_text s)] else [])
            @ (case tr of None \<Rightarrow> [] | Some t \<Rightarrow> if mode \<noteq> ''source'' then [subtitle_text uc (ct_text t)] else [])))"

definition labelled_body ::
    "unidb \<Rightarrow> (ustring \<times> ustring) list \<Rightarrow> bool \<Rightarrow> bool \<Rightarrow> caption_segment \<Rightarrow> ustring \<Rightarrow> ustring" where
  "labelled_body uc aliases webvtt speaker_labels s body =
     (case cs_speaker s of
        None \<Rightarrow> body
      | Some speaker \<Rightarrow>
          if \<not> speaker_labels then body
          else
            (let label = voice_label uc aliases speaker; shown = label @ lit '': '' @ body
             in if webvtt then lit ''<v '' @ label @ lit ''>'' @ shown @ lit ''</v>'' else shown))"

definition cue_text ::
    "unidb \<Rightarrow> (ustring \<times> ustring) list \<Rightarrow> string \<Rightarrow> string \<Rightarrow> bool \<Rightarrow> bool \<Rightarrow> caption_segment \<Rightarrow> ustring res" where
  "cue_text uc aliases mode missing webvtt speaker_labels s =
     (if mode \<noteq> ''source'' \<and> current_translation s = None \<and> missing = ''error''
        then Inl (ValueError ''No completed current translation'')
      else if mode \<noteq> ''source'' \<and> current_translation s = None \<and> missing = ''omit'' then Inr []
      else Inr (labelled_body uc aliases webvtt speaker_labels s (cue_body uc mode s)))"

type_synonym cue = "nat \<times> nat \<times> ustring"

text \<open>Milliseconds that cover the interval; \<open>None\<close> when the offset makes it invalid.\<close>

definition cue_times :: "int \<Rightarrow> caption_segment \<Rightarrow> (nat \<times> nat) option" where
  "cue_times offset_ns s =
     (let start_ns = cs_start s + offset_ns; end_ns = cs_end s + offset_ns
      in if start_ns < 0 \<or> end_ns \<le> start_ns then None
         else Some (nat (start_ns div 1000000), nat ((end_ns + 1000000 - 1) div 1000000)))"

definition cue_skipped :: "bool \<Rightarrow> caption_segment \<Rightarrow> bool" where
  "cue_skipped include_provisional s \<longleftrightarrow>
     cs_superseded_by s \<noteq> [] \<or> cs_state s = ProvisionalSource \<and> \<not> include_provisional"

fun collect_cues ::
    "(caption_segment \<Rightarrow> ustring res) \<Rightarrow> bool \<Rightarrow> int \<Rightarrow> caption_segment list \<Rightarrow> cue list res" where
  "collect_cues body_of include_provisional offset_ns [] = Inr []"
| "collect_cues body_of include_provisional offset_ns (s # ss) =
     (if cue_skipped include_provisional s then collect_cues body_of include_provisional offset_ns ss
      else res_bind (body_of s) (\<lambda>body.
        if body = [] then collect_cues body_of include_provisional offset_ns ss
        else case cue_times offset_ns s of
          None \<Rightarrow> Inl (ValueError ''Export offset produces invalid source timing'')
        | Some (start, stop) \<Rightarrow>
            res_bind (collect_cues body_of include_provisional offset_ns ss) (\<lambda>cs. Inr ((start, stop, body) # cs))))"

subsection \<open>Slicing at every boundary\<close>

definition add_boundary ::
    "nat \<Rightarrow> bool \<times> nat \<Rightarrow> (nat \<times> (bool \<times> nat) list) list \<Rightarrow> (nat \<times> (bool \<times> nat) list) list" where
  "add_boundary t c bs = al_put t ((case map_of bs t of None \<Rightarrow> [] | Some l \<Rightarrow> l) @ [c]) bs"

definition cue_boundaries :: "cue list \<Rightarrow> (nat \<times> (bool \<times> nat) list) list" where
  "cue_boundaries cues =
     fold (\<lambda>(i, start, stop, _) bs. add_boundary stop (False, i) (add_boundary start (True, i) bs))
          (enumerate 0 cues) []"

fun apply_changes :: "nat set \<Rightarrow> (bool \<times> nat) list \<Rightarrow> nat set" where
  "apply_changes active [] = active"
| "apply_changes active ((entering, i) # r) =
     apply_changes (if entering then insert i active else active - {i}) r"

definition active_body :: "cue list \<Rightarrow> nat set \<Rightarrow> ustring" where
  "active_body cues active = py_join [10] (map (\<lambda>i. snd (snd (cues ! i))) (sorted_list_of_set active))"

fun merge_loop ::
    "cue list \<Rightarrow> nat option \<Rightarrow> nat set \<Rightarrow> (nat \<times> (bool \<times> nat) list) list \<Rightarrow> cue list" where
  "merge_loop cues previous active [] = []"
| "merge_loop cues previous active ((t, changes) # r) =
     (case previous of
        None \<Rightarrow> []
      | Some p \<Rightarrow> if p < t \<and> active \<noteq> {} then [(p, t, active_body cues active)] else [])
     @ merge_loop cues (Some t) (apply_changes active changes) r"

definition merge_cues :: "cue list \<Rightarrow> cue list" where
  "merge_cues cues = merge_loop cues None {} (sort_key fst (cue_boundaries cues))"

definition caption_cues ::
    "unidb \<Rightarrow> string \<Rightarrow> string \<Rightarrow> bool \<Rightarrow> int \<Rightarrow> bool \<Rightarrow> bool \<Rightarrow> string \<Rightarrow> caption_snapshot \<Rightarrow> cue list res" where
  "caption_cues uc mode missing include_provisional offset_ns speaker_labels webvtt overlap sn =
     (if mode \<notin> {''source'', ''translation'', ''bilingual''}
        then Inl (ValueError ''mode must be source, translation or bilingual'')
      else if missing \<notin> {''source'', ''omit'', ''error''}
        then Inl (ValueError ''missing_translation must be source, omit or error'')
      else if overlap \<notin> {''preserve'', ''merge''} then Inl (ValueError ''overlap must be preserve or merge'')
      else res_bind (collect_cues (cue_text uc (sn_aliases sn) mode missing webvtt speaker_labels)
                       include_provisional offset_ns (sort_key segment_order (sn_segments sn)))
             (\<lambda>cues. Inr (if overlap = ''preserve'' then cues else merge_cues cues)))"

subsection \<open>Documents\<close>

definition timestamp :: "nat \<Rightarrow> nat \<Rightarrow> ustring" where
  "timestamp milliseconds decimal =
     (let seconds = milliseconds div 1000; millis = milliseconds mod 1000;
          minutes = seconds div 60; second = seconds mod 60; hour = minutes div 60; minute = minutes mod 60
      in zero_padded 2 hour @ [58] @ zero_padded 2 minute @ [58] @ zero_padded 2 second @ [decimal]
         @ zero_padded 3 millis)"

definition cue_block :: "nat \<Rightarrow> nat \<Rightarrow> cue \<Rightarrow> ustring" where
  "cue_block decimal index c =
     (case c of (start, stop, body) \<Rightarrow>
        dec index @ [10] @ timestamp start decimal @ lit '' --> '' @ timestamp stop decimal @ [10] @ body @ [10, 10])"

definition document :: "nat \<Rightarrow> cue list \<Rightarrow> ustring" where
  "document decimal cues = concat (map (\<lambda>(i, c). cue_block decimal i c) (enumerate 1 cues))"

definition export_srt ::
    "unidb \<Rightarrow> string \<Rightarrow> string \<Rightarrow> bool \<Rightarrow> int \<Rightarrow> bool \<Rightarrow> string \<Rightarrow> caption_snapshot \<Rightarrow> ustring res" where
  "export_srt uc mode missing include_provisional offset_ns speaker_labels overlap sn =
     res_bind (caption_cues uc mode missing include_provisional offset_ns speaker_labels False overlap sn)
       (\<lambda>cues. Inr (document 44 cues))"

definition export_webvtt ::
    "unidb \<Rightarrow> string \<Rightarrow> string \<Rightarrow> bool \<Rightarrow> int \<Rightarrow> bool \<Rightarrow> string \<Rightarrow> caption_snapshot \<Rightarrow> ustring res" where
  "export_webvtt uc mode missing include_provisional offset_ns speaker_labels overlap sn =
     res_bind (caption_cues uc mode missing include_provisional offset_ns speaker_labels True overlap sn)
       (\<lambda>cues. Inr (lit ''WEBVTT'' @ [10, 10] @ document 46 cues))"

end
