(* ===== verification/CaptionExportProps.thy ===== *)
theory CaptionExportProps
  imports CaptionExport
begin

text \<open>
  What the exports of \<^verbatim>\<open>captions.py\<close> show: at every instant a merged export has the text of exactly the
  captions that are active then, and transcript text can never open, close or split a cue of an SRT file.
\<close>

subsection \<open>Boundaries\<close>

definition covers :: "nat \<Rightarrow> cue \<Rightarrow> bool" where
  "covers t c \<longleftrightarrow> fst c \<le> t \<and> t < fst (snd c)"

definition shown_at :: "nat \<Rightarrow> cue list \<Rightarrow> ustring list" where
  "shown_at t cues = map (snd \<circ> snd) (filter (covers t) cues)"

definition proper_cues :: "cue list \<Rightarrow> bool" where
  "proper_cues cues \<longleftrightarrow> list_all (\<lambda>c. fst c < fst (snd c)) cues"

definition active_at :: "cue list \<Rightarrow> nat \<Rightarrow> nat set" where
  "active_at cues t = {i. i < length cues \<and> covers t (cues ! i)}"

definition changes_at :: "cue list \<Rightarrow> nat \<Rightarrow> (bool \<times> nat) set" where
  "changes_at cues t = {(True, i) |i. i < length cues \<and> fst (cues ! i) = t}
     \<union> {(False, i) |i. i < length cues \<and> fst (snd (cues ! i)) = t}"

text \<open>A boundary table lists exactly the changes at each of its times, and every change is listed.\<close>

definition listed :: "(nat \<times> (bool \<times> nat) list) list \<Rightarrow> nat \<Rightarrow> (bool \<times> nat) list" where
  "listed bs t = (case map_of bs t of None \<Rightarrow> [] | Some l \<Rightarrow> l)"

lemma listed_add: "listed (add_boundary t c bs) u = listed bs u @ (if u = t then [c] else [])"
  by (simp add: listed_def add_boundary_def)

lemma listed_Nil [simp]: "listed [] t = []"
  by (simp add: listed_def)

lemma listed_Cons: "listed ((q, ch) # r) t = (if t = q then ch else listed r t)"
  by (simp add: listed_def)

lemma listed_absent: "t \<notin> set (map fst bs) \<Longrightarrow> listed bs t = []"
  by (simp add: listed_def map_of_eq_None_iff [THEN iffD2] split: option.split)

definition lists_changes :: "(nat \<times> (bool \<times> nat) list) list \<Rightarrow> (nat \<Rightarrow> (bool \<times> nat) set) \<Rightarrow> bool" where
  "lists_changes bs f \<longleftrightarrow> distinct (map fst bs)
     \<and> (\<forall>t. set (listed bs t) = f t)"

lemma add_boundary_lists:
  "lists_changes bs f \<Longrightarrow> lists_changes (add_boundary t c bs) (f(t := insert c (f t)))"
  by (simp add: lists_changes_def listed_add) (simp add: add_boundary_def distinct_al_put)

lemma boundaries_lists_from:
  "lists_changes bs f \<Longrightarrow>
   lists_changes (fold (\<lambda>(i, start, stop, _) bs. add_boundary stop (False, i) (add_boundary start (True, i) bs))
      (enumerate n cues) bs)
     (\<lambda>t. f t \<union> {(True, n + i) |i. i < length cues \<and> fst (cues ! i) = t}
            \<union> {(False, n + i) |i. i < length cues \<and> fst (snd (cues ! i)) = t})"
proof (induction cues arbitrary: n bs f)
  case (Cons c cues)
  obtain start stop body where c: "c = (start, stop, body)" by (cases c)
  define g where "g = (let f1 = f(start := insert (True, n) (f start)) in f1(stop := insert (False, n) (f1 stop)))"
  have one: "lists_changes (add_boundary stop (False, n) (add_boundary start (True, n) bs)) g"
    unfolding g_def Let_def by (intro add_boundary_lists Cons.prems)
  have shift: "{(b, n + i) |i. i < length (c # cues) \<and> P ((c # cues) ! i)}
      = (if P c then {(b, n)} else {}) \<union> {(b, Suc n + i) |i. i < length cues \<and> P (cues ! i)}" for b :: bool and P
  proof -
    have "(\<exists>i. x = (b, n + i) \<and> i < length (c # cues) \<and> P ((c # cues) ! i))
        \<longleftrightarrow> (x = (b, n) \<and> P c) \<or> (\<exists>i. x = (b, Suc n + i) \<and> i < length cues \<and> P (cues ! i))" for x
      by (auto simp: less_Suc_eq_0_disj)
    then show ?thesis by auto
  qed
  have start_here: "(if fst c = t then {(True, n)} else {}) = (if t = start then {(True, n)} else {})" for t by (auto simp: c)
  have stop_here: "(if fst (snd c) = t then {(False, n)} else {}) = (if t = stop then {(False, n)} else {})" for t by (auto simp: c)
  have g: "g t = f t \<union> (if t = start then {(True, n)} else {}) \<union> (if t = stop then {(False, n)} else {})" for t
    by (auto simp: g_def Let_def)
  have "(\<lambda>t. g t \<union> {(True, Suc n + i) |i. i < length cues \<and> fst (cues ! i) = t}
            \<union> {(False, Suc n + i) |i. i < length cues \<and> fst (snd (cues ! i)) = t})
      = (\<lambda>t. f t \<union> {(True, n + i) |i. i < length (c # cues) \<and> fst ((c # cues) ! i) = t}
            \<union> {(False, n + i) |i. i < length (c # cues) \<and> fst (snd ((c # cues) ! i)) = t})"
    by (rule ext) (simp only: shift [where P = "\<lambda>c. fst c = _"] shift [where P = "\<lambda>c. fst (snd c) = _"]
        start_here stop_here g Un_ac)
  then show ?case using Cons.IH [OF one, of "Suc n"] by (simp add: c)
qed simp

lemma boundaries_lists: "lists_changes (cue_boundaries cues) (changes_at cues)"
  using boundaries_lists_from [of "[]" "\<lambda>_. {}" 0 cues]
  by (simp add: cue_boundaries_def changes_at_def lists_changes_def)

text \<open>The order of the changes of one time does not matter, since no cue starts and stops there.\<close>

lemma apply_changes_set:
  assumes "\<And>i. \<not> ((True, i) \<in> set ch \<and> (False, i) \<in> set ch)"
  shows "apply_changes active ch = active \<union> {i. (True, i) \<in> set ch} - {i. (False, i) \<in> set ch}"
  using assms
proof (induction ch arbitrary: active)
  case (Cons x ch)
  obtain b i where x: "x = (b, i)" by (cases x)
  have "apply_changes active (x # ch) = apply_changes (if b then insert i active else active - {i}) ch" by (simp add: x)
  also have "\<dots> = (if b then insert i active else active - {i}) \<union> {i. (True, i) \<in> set ch} - {i. (False, i) \<in> set ch}"
    by (rule Cons.IH) (use Cons.prems in auto)
  finally show ?case using Cons.prems [of i] by (auto simp: x split: if_splits)
qed simp

subsection \<open>The loop\<close>

lemma merge_starts:
  "c \<in> set (merge_loop cues (Some p) active r) \<Longrightarrow> sorted_wrt (<) (map fst r) \<Longrightarrow> (\<forall>t \<in> set (map fst r). p < t) \<Longrightarrow> p \<le> fst c"
  by (induction cues "Some p" active r arbitrary: p rule: merge_loop.induct) (fastforce split: if_splits)+

lemma active_change:
  assumes "proper_cues cues" and "p < q"
    and none: "\<And>t. p < t \<Longrightarrow> t < q \<Longrightarrow> changes_at cues t = {}"
  shows "active_at cues q = active_at cues p \<union> {i. (True, i) \<in> changes_at cues q} - {i. (False, i) \<in> changes_at cues q}"
proof -
  have *: "covers q (cues ! i) \<longleftrightarrow> (covers p (cues ! i) \<or> fst (cues ! i) = q) \<and> fst (snd (cues ! i)) \<noteq> q"
    if i: "i < length cues" for i
  proof -
    have "fst (cues ! i) < fst (snd (cues ! i))" using assms(1) i by (simp add: proper_cues_def list_all_length)
    moreover have "\<not> (p < fst (cues ! i) \<and> fst (cues ! i) < q)" using none [of "fst (cues ! i)"] i by (auto simp: changes_at_def)
    moreover have "\<not> (p < fst (snd (cues ! i)) \<and> fst (snd (cues ! i)) < q)"
      using none [of "fst (snd (cues ! i))"] i by (auto simp: changes_at_def)
    ultimately show ?thesis using assms(2) by (auto simp: covers_def)
  qed
  then show ?thesis by (auto simp: active_at_def changes_at_def)
qed

lemma active_same:
  assumes "proper_cues cues" and "p \<le> t" and none: "\<And>u. p < u \<Longrightarrow> u \<le> t \<Longrightarrow> changes_at cues u = {}"
  shows "active_at cues t = active_at cues p"
proof (cases "p = t")
  case False
  then have "active_at cues t = active_at cues p \<union> {i. (True, i) \<in> changes_at cues t} - {i. (False, i) \<in> changes_at cues t}"
    using assms by (intro active_change) auto
  then show ?thesis using none [of t] assms(2) False by simp
qed simp

lemma merge_loop_shows:
  assumes "proper_cues cues" and "sorted_wrt (<) (map fst r)" and "\<forall>t \<in> set (map fst r). p < t"
    and "\<And>t. p < t \<Longrightarrow> set (listed r t) = changes_at cues t"
    and "p \<le> t"
  shows "shown_at t (merge_loop cues (Some p) (active_at cues p) r)
    = (if active_at cues t = {} then [] else [active_body cues (active_at cues t)])"
  using assms(2-5)
proof (induction r arbitrary: p)
  case Nil
  have none: "changes_at cues u = {}" if "p < u" for u using Nil.prems(3) [OF that] by simp
  have "active_at cues t = {}"
  proof (rule ccontr)
    assume "active_at cues t \<noteq> {}"
    then obtain i where "i < length cues" "t < fst (snd (cues ! i))" by (auto simp: active_at_def covers_def)
    then show False using none [of "fst (snd (cues ! i))"] Nil.prems(4) by (auto simp: changes_at_def)
  qed
  then show ?case by (simp add: shown_at_def)
next
  case (Cons x r)
  obtain q ch where x: "x = (q, ch)" by (cases x)
  have pq: "p < q" and later: "\<forall>u \<in> set (map fst r). q < u" and sorted: "sorted_wrt (<) (map fst r)"
    using Cons.prems(1,2) by (auto simp: x)
  have ch: "set ch = changes_at cues q" using Cons.prems(3) [OF pq] by (simp add: x listed_Cons)
  have none: "changes_at cues u = {}" if "p < u" "u < q" for u
  proof -
    have "listed (x # r) u = []" using that later by (intro listed_absent) (fastforce simp: x)
    then show ?thesis using Cons.prems(3) [OF that(1)] by simp
  qed
  have "\<not> ((True, i) \<in> set ch \<and> (False, i) \<in> set ch)" for i
    using assms(1) by (fastforce simp: ch changes_at_def proper_cues_def list_all_length)
  then have now: "apply_changes (active_at cues p) ch = active_at cues q"
    using active_change [OF assms(1) pq none] by (simp add: apply_changes_set ch)
  have rest: "set (listed r u) = changes_at cues u" if "q < u" for u
    using Cons.prems(3) [of u] that pq by (simp add: x listed_Cons)
  define tail where "tail = merge_loop cues (Some q) (active_at cues q) r"
  have split: "merge_loop cues (Some p) (active_at cues p) (x # r)
      = (if active_at cues p \<noteq> {} then [(p, q, active_body cues (active_at cues p))] else []) @ tail"
    using pq now by (simp add: x tail_def)
  show ?case
  proof (cases "t < q")
    case True
    have "\<not> covers t c" if "c \<in> set tail" for c
      using merge_starts [OF that [unfolded tail_def] sorted later] True by (auto simp: covers_def)
    then have "shown_at t tail = []" by (simp add: shown_at_def)
    moreover have "active_at cues t = active_at cues p"
      by (rule active_same [OF assms(1) Cons.prems(4)]) (use none True in auto)
    ultimately show ?thesis using True Cons.prems(4) by (simp add: split shown_at_def covers_def)
  next
    case False
    then have "shown_at t tail = (if active_at cues t = {} then [] else [active_body cues (active_at cues t)])"
      unfolding tail_def by (intro Cons.IH sorted later rest) auto
    then show ?thesis using False by (simp add: split shown_at_def covers_def)
  qed
qed

lemma sorted_boundaries:
  assumes "distinct (map fst bs)"
  shows "sorted_wrt (<) (map fst (sort_key fst bs))" and "listed (sort_key fst bs) = listed bs"
proof -
  have d: "distinct (map fst (sort_key fst bs))"
    using assms by (simp add: distinct_map distinct_sort)
  show "sorted_wrt (<) (map fst (sort_key fst bs))" using d by (simp add: strict_sorted_iff)
  have "map_of (sort_key fst bs) = map_of bs" using assms d by (intro map_of_inject_set [THEN iffD2]) simp_all
  then show "listed (sort_key fst bs) = listed bs" by (simp add: listed_def fun_eq_iff)
qed

theorem merge_cues_shows:
  assumes "proper_cues cues"
  shows "shown_at t (merge_cues cues) = (if active_at cues t = {} then [] else [active_body cues (active_at cues t)])"
proof -
  define bs where "bs = sort_key fst (cue_boundaries cues)"
  have lists: "lists_changes (cue_boundaries cues) (changes_at cues)" by (rule boundaries_lists)
  then have sorted: "sorted_wrt (<) (map fst bs)"
    and at: "set (listed bs u) = changes_at cues u" for u
    using sorted_boundaries [of "cue_boundaries cues"] by (simp_all add: bs_def lists_changes_def)
  show ?thesis
  proof (cases bs)
    case Nil
    then have "changes_at cues u = {}" for u using at [of u] by simp
    then have "cues = []" by (fastforce simp: changes_at_def)
    then show ?thesis by (simp add: merge_cues_def cue_boundaries_def shown_at_def active_at_def)
  next
    case (Cons x r)
    obtain p ch where x: "x = (p, ch)" by (cases x)
    have before: "changes_at cues u = {}" if "u < p" for u
    proof -
      have "listed bs u = []" using sorted that by (intro listed_absent) (fastforce simp: Cons x)
      then show ?thesis using at [of u] by simp
    qed
    have none: "active_at cues u = {}" if "u < p" for u
    proof (rule ccontr)
      assume "active_at cues u \<noteq> {}"
      then obtain i where "i < length cues" "fst (cues ! i) \<le> u" by (auto simp: active_at_def covers_def)
      then show False using before [of "fst (cues ! i)"] that by (auto simp: changes_at_def)
    qed
    have ch: "set ch = changes_at cues p" using at [of p] by (simp add: Cons x listed_Cons)
    have "\<not> ((True, i) \<in> set ch \<and> (False, i) \<in> set ch)" for i
      using assms by (fastforce simp: ch changes_at_def proper_cues_def list_all_length)
    then have "apply_changes {} ch = {i. (True, i) \<in> changes_at cues p} - {i. (False, i) \<in> changes_at cues p}"
      by (simp add: apply_changes_set ch)
    also have "\<dots> = active_at cues p"
    proof -
      have "covers p (cues ! i) \<longleftrightarrow> fst (cues ! i) = p" if i: "i < length cues" for i
      proof -
        have "fst (cues ! i) < fst (snd (cues ! i))" using assms i by (simp add: proper_cues_def list_all_length)
        moreover have "\<not> fst (cues ! i) < p" using before [of "fst (cues ! i)"] i by (auto simp: changes_at_def)
        ultimately show ?thesis by (auto simp: covers_def)
      qed
      moreover have "fst (cues ! i) < fst (snd (cues ! i))" if "i < length cues" for i
        using assms that by (simp add: proper_cues_def list_all_length)
      ultimately show ?thesis by (fastforce simp: active_at_def changes_at_def)
    qed
    finally have start: "merge_cues cues = merge_loop cues (Some p) (active_at cues p) r"
      by (simp add: merge_cues_def bs_def [symmetric] Cons x)
    have later: "\<forall>u \<in> set (map fst r). p < u" and sorted_r: "sorted_wrt (<) (map fst r)"
      using sorted by (auto simp: Cons x)
    show ?thesis
    proof (cases "p \<le> t")
      case True
      have "set (listed r u) = changes_at cues u" if "p < u" for u
        using at [of u] that by (simp add: Cons x listed_Cons)
      from merge_loop_shows [OF assms sorted_r later this True] show ?thesis by (simp add: start)
    next
      case False
      then have "\<not> covers t c" if "c \<in> set (merge_loop cues (Some p) (active_at cues p) r)" for c
        using merge_starts [OF that sorted_r later] by (auto simp: covers_def)
      then show ?thesis using none [of t] False by (simp add: start shown_at_def)
    qed
  qed
qed


subsection \<open>Subtitle text has no empty line and no markup\<close>

text \<open>What the proofs use of the Unicode database: line breaks and blanks are spaces, U+FFFD is not.\<close>

definition subtitle_db :: "unidb \<Rightarrow> bool" where
  "subtitle_db uc \<longleftrightarrow> u_isspace uc 10 \<and> u_isspace uc 13 \<and> \<not> u_isspace uc 65533"

text \<open>Text that can stand in a cue: every line is non-empty and none has a closing angle bracket.\<close>

definition solid :: "ustring \<Rightarrow> bool" where
  "solid b \<longleftrightarrow> (\<forall>l \<in> set (split_char 10 b). l \<noteq> []) \<and> 62 \<notin> set b"

lemma split_char_mid: "split_char d (x @ d # y) = split_char d x @ split_char d y"
  by (induction x) (auto split: list.split)

lemma solid_lines: "solid (x @ 10 # y) \<longleftrightarrow> solid x \<and> solid y"
  by (auto simp: solid_def split_char_mid)

lemma solid_join: "xs \<noteq> [] \<Longrightarrow> list_all solid xs \<Longrightarrow> solid (py_join [10] xs)"
  by (induction xs) (auto simp: py_join_Cons solid_lines)

lemma escape_append [simp]: "escape_html (x @ y) = escape_html x @ escape_html y"
  by (simp add: escape_html_def)

lemma escape_free: "10 \<notin> set x \<Longrightarrow> 10 \<notin> set (escape_html x)" "62 \<notin> set (escape_html x)"
  by (auto simp: escape_html_def html_char_def lit_def split: if_splits)

lemma escape_empty [simp]: "escape_html x = [] \<longleftrightarrow> x = []"
  by (cases x) (simp_all add: escape_html_def html_char_def lit_def)

lemma solid_escaped_line: "l \<noteq> [] \<Longrightarrow> 10 \<notin> set l \<Longrightarrow> solid (escape_html l)"
  by (simp add: solid_def split_char_id escape_free)

lemma escape_join: "escape_html (py_join [10] ls) = py_join [10] (map escape_html ls)"
  by (induction ls) (simp_all add: py_join_Cons, simp add: escape_html_def html_char_def)

lemma set_strip: "set (py_strip uc s) \<subseteq> set s"
  unfolding py_strip_def rstrip_set_def by (auto dest!: set_dropWhileD)

lemma subtitle_lines_free: "l \<in> set (subtitle_lines uc v) \<Longrightarrow> l \<noteq> [] \<and> 10 \<notin> set l"
  using split_char_free set_strip by (fastforce simp: subtitle_lines_def)

lemma strip_nonblank: "c \<in> set s \<Longrightarrow> \<not> u_isspace uc c \<Longrightarrow> py_strip uc s \<noteq> []"
proof -
  assume c: "c \<in> set s" "\<not> u_isspace uc c"
  then have "c \<in> set (dropWhile (u_isspace uc) s)" by (induction s) auto
  then show ?thesis using c(2) by (auto simp: py_strip_def rstrip_set_def dropWhile_eq_Nil_conv)
qed

lemma strip_empty: "py_strip uc s \<noteq> [] \<Longrightarrow> \<exists>c \<in> set s. \<not> u_isspace uc c"
  by (rule ccontr) (auto simp: py_strip_def rstrip_set_def dropWhile_eq_Nil_conv dest: set_dropWhileD)

lemma newlines_keep: "c \<in> set s \<Longrightarrow> c \<noteq> 13 \<Longrightarrow> c \<in> set (unify_newlines s)"
proof (induction s rule: unify_newlines.induct)
  case (2 a s)
  then show ?case by (cases s) auto
qed simp

lemma split_char_mem: "c \<in> set s \<Longrightarrow> c \<noteq> d \<Longrightarrow> \<exists>l \<in> set (split_char d s). c \<in> set l"
proof (induction s)
  case (Cons x s)
  then show ?case by (cases "split_char d s") (auto split: if_splits)
qed simp

lemma subtitle_solid:
  assumes "subtitle_db uc" and "text_ok uc v"
  shows "solid (subtitle_text uc v)"
proof -
  obtain c where c: "c \<in> set v" "\<not> u_isspace uc c" using assms(2) strip_empty by (auto simp: text_ok_def)
  then have "c \<noteq> 13" using assms(1) by (auto simp: subtitle_db_def)
  then have "visible_char c \<in> set (map visible_char (unify_newlines v))" using newlines_keep c(1) by simp
  moreover have "visible_char c \<noteq> 10" and sp: "\<not> u_isspace uc (visible_char c)"
    using c(2) assms(1) by (auto simp: visible_char_def subtitle_db_def)
  ultimately obtain l where l: "l \<in> set (split_char 10 (map visible_char (unify_newlines v)))" "visible_char c \<in> set l"
    using split_char_mem by blast
  then have "py_strip uc l \<in> set (subtitle_lines uc v)" using strip_nonblank [OF l(2) sp] by (auto simp: subtitle_lines_def)
  then have "subtitle_lines uc v \<noteq> []" by auto
  moreover have "list_all solid (map escape_html (subtitle_lines uc v))"
    using subtitle_lines_free solid_escaped_line by (fastforce simp: list_all_iff)
  ultimately show ?thesis by (simp add: subtitle_text_def escape_join solid_join)
qed

lemma split_words_free: "w \<in> set (py_split uc s) \<Longrightarrow> c \<in> set w \<Longrightarrow> c \<in> set s \<and> \<not> u_isspace uc c"
proof (induction uc s rule: py_split.induct)
  case (1 uc s)
  show ?case
  proof (cases "dropWhile (u_isspace uc) s")
    case Nil
    have "py_split uc s = []" by (subst py_split.simps [of uc s]) (simp only: Nil list.case)
    then show ?thesis using "1.prems" by simp
  next
    case (Cons d r)
    have sub: "set (d # r) \<subseteq> set s"
    proof -
      have "set (dropWhile (u_isspace uc) s) \<subseteq> set s" using set_dropWhileD by fast
      then show ?thesis by (simp only: Cons)
    qed
    have d: "\<not> u_isspace uc d" using Cons by (simp add: dropWhile_eq_Cons_conv)
    have "py_split uc s = (d # takeWhile (\<lambda>d. \<not> u_isspace uc d) r) # py_split uc (dropWhile (\<lambda>d. \<not> u_isspace uc d) r)"
      by (subst py_split.simps [of uc s]) (simp only: Cons list.case)
    with "1.prems"(1) consider "w = d # takeWhile (\<lambda>d. \<not> u_isspace uc d) r"
      | "w \<in> set (py_split uc (dropWhile (\<lambda>d. \<not> u_isspace uc d) r))" by auto
    then show ?thesis
    proof cases
      case 1
      then show ?thesis using "1.prems"(2) d sub by (auto dest: set_takeWhileD)
    next
      case 2
      from "1.IH" [OF Cons 2 "1.prems"(2)] have "c \<in> set r" "\<not> u_isspace uc c" by (auto dest: set_dropWhileD)
      with sub show ?thesis by auto
    qed
  qed
qed

lemma newlines_same: "13 \<notin> set s \<Longrightarrow> unify_newlines s = s"
  by (induction s) simp_all

lemma join_words: "c \<in> set (py_join [32] ws) \<Longrightarrow> c = 32 \<or> (\<exists>w \<in> set ws. c \<in> set w)"
  by (induction ws) (auto simp: py_join_Cons split: if_splits)

lemma label_free:
  assumes "subtitle_db uc"
  shows "10 \<notin> set (voice_label uc aliases speaker)" and "62 \<notin> set (voice_label uc aliases speaker)"
proof -
  define v where "v = py_join [32] (py_split uc (case map_of aliases speaker of None \<Rightarrow> speaker | Some a \<Rightarrow> a))"
  have free: "c \<notin> set v" if "u_isspace uc c" "c \<noteq> 32" for c
    using that join_words split_words_free unfolding v_def by blast
  have "13 \<notin> set v" "10 \<notin> set v" using assms free by (auto simp: subtitle_db_def)
  then have "10 \<notin> set (map visible_char (unify_newlines v))"
    by (auto simp: newlines_same visible_char_def split: if_splits)
  then have "subtitle_lines uc v = filter (\<lambda>l. l \<noteq> []) [py_strip uc (map visible_char (unify_newlines v))]"
    by (simp add: subtitle_lines_def split_char_id)
  then have "10 \<notin> set (py_join [10] (subtitle_lines uc v))"
  proof -
    have "10 \<notin> set (py_strip uc (map visible_char (unify_newlines v)))"
      using \<open>10 \<notin> set (map visible_char (unify_newlines v))\<close> set_strip by blast
    then show ?thesis by (simp add: \<open>subtitle_lines uc v = _\<close> py_join_Cons)
  qed
  then show "10 \<notin> set (voice_label uc aliases speaker)"
    unfolding voice_label_def v_def [symmetric] subtitle_text_def by (rule escape_free)
  show "62 \<notin> set (voice_label uc aliases speaker)"
    unfolding voice_label_def subtitle_text_def by (rule escape_free)
qed

lemma solid_prefix: "10 \<notin> set p \<Longrightarrow> 62 \<notin> set p \<Longrightarrow> solid b \<Longrightarrow> solid (p @ b)"
  by (induction p) (auto simp: solid_def split: list.splits)

text \<open>The body of every cue of an SRT export is solid.\<close>

definition exportable :: "unidb \<Rightarrow> caption_segment \<Rightarrow> bool" where
  "exportable uc s \<longleftrightarrow> segment_ok uc s \<and> (case cs_translation s of None \<Rightarrow> True | Some t \<Rightarrow> translation_ok uc t)"

lemma cue_text_solid:
  assumes db: "subtitle_db uc" and ok: "exportable uc s" and c: "cue_text uc aliases mode missing False labels s = Inr b" "b \<noteq> []"
  shows "solid b"
proof -
  have src: "solid (subtitle_text uc (cs_text s))" using db ok by (intro subtitle_solid) (simp_all add: exportable_def segment_ok_def)
  have tr: "solid (subtitle_text uc (ct_text t))" if "current_translation s = Some t" for t
    using db ok that by (intro subtitle_solid) (auto simp: exportable_def translation_ok_def current_translation_def split: option.splits if_splits)
  have "solid (cue_body uc mode s)"
    unfolding cue_body_def Let_def using src tr by (intro solid_join) (auto split: option.splits)
  then have "solid (labelled_body uc aliases False labels s (cue_body uc mode s))"
  proof -
    assume body: "solid (cue_body uc mode s)"
    have "solid ((voice_label uc aliases sp @ lit '': '') @ cue_body uc mode s)" for sp
      by (rule solid_prefix [OF _ _ body]) (use label_free [OF db] in \<open>simp_all add: lit_def\<close>)
    then show ?thesis using body by (simp add: labelled_body_def Let_def split: option.split)
  qed
  then show ?thesis using c by (auto simp: cue_text_def split: if_splits)
qed

lemma cue_times_proper: "cue_times d s = Some (start, stop) \<Longrightarrow> start < stop"
proof -
  assume that: "cue_times d s = Some (start, stop)"
  define a b where "a = cs_start s + d" and "b = cs_end s + d"
  have ab: "0 \<le> a" "a < b" and r: "start = nat (a div 1000000)" "stop = nat ((b + 1000000 - 1) div 1000000)"
    using that by (auto simp: cue_times_def Let_def a_def b_def split: if_splits)
  have "(a + 1000000) div 1000000 \<le> (b + 1000000 - 1) div 1000000" using ab(2) by (intro zdiv_mono1) simp_all
  then have "a div 1000000 < (b + 1000000 - 1) div 1000000" by simp
  moreover have "0 \<le> a div 1000000" using ab by simp
  ultimately show ?thesis by (simp add: r)
qed

lemma collect_solid:
  assumes "\<And>s b. s \<in> set ss \<Longrightarrow> body_of s = Inr b \<Longrightarrow> b \<noteq> [] \<Longrightarrow> good b" and "collect_cues body_of p d ss = Inr cues"
  shows "proper_cues cues \<and> list_all (\<lambda>c. good (snd (snd c))) cues"
  using assms
proof (induction ss arbitrary: cues)
  case (Cons s ss)
  show ?case
  proof (cases "cue_skipped p s")
    case False
    then obtain b where b: "body_of s = Inr b" using Cons.prems(2) by (cases "body_of s") (auto simp: res_bind_def)
    show ?thesis
    proof (cases "b = []")
      case False
      then obtain start stop cs where "cue_times d s = Some (start, stop)" "collect_cues body_of p d ss = Inr cs"
        "cues = (start, stop, b) # cs"
        using Cons.prems(2) \<open>\<not> cue_skipped p s\<close> b by (auto simp: res_bind_def split: option.splits sum.splits)
      then show ?thesis using Cons.IH [of cs] Cons.prems(1) [OF _ b False] Cons.prems(1) cue_times_proper
        by (auto simp: proper_cues_def)
    qed (use Cons b \<open>\<not> cue_skipped p s\<close> in \<open>auto simp: res_bind_def\<close>)
  qed (use Cons in auto)
qed (simp add: proper_cues_def)

lemma collect_proper: "collect_cues body_of p d ss = Inr cues \<Longrightarrow> proper_cues cues"
  using collect_solid [where good = "\<lambda>_. True"] by blast

text \<open>The texts of the active cues, in the order of the cues.\<close>

lemma filter_nth: "filter P xs = map ((!) xs) (filter (\<lambda>i. P (xs ! i)) [0..<length xs])"
proof (induction xs rule: rev_induct)
  case (snoc x xs)
  have "filter (\<lambda>i. P ((xs @ [x]) ! i)) [0..<length xs] = filter (\<lambda>i. P (xs ! i)) [0..<length xs]"
    by (rule filter_cong) (simp_all add: nth_append)
  moreover have "map ((!) (xs @ [x])) (filter (\<lambda>i. P (xs ! i)) [0..<length xs]) = map ((!) xs) (filter (\<lambda>i. P (xs ! i)) [0..<length xs])"
    by (simp add: nth_append)
  ultimately show ?case using snoc by simp
qed simp

lemma active_sorted: "sorted_list_of_set (active_at cues t) = filter (\<lambda>i. covers t (cues ! i)) [0..<length cues]"
  by (rule sorted_distinct_set_unique)
    (auto simp: active_at_def sorted_wrt_filter)

lemma shown_active:
  "(if active_at cues t = {} then [] else [active_body cues (active_at cues t)])
   = (if shown_at t cues = [] then [] else [py_join [10] (shown_at t cues)])"
proof -
  have *: "shown_at t cues = map (\<lambda>i. snd (snd (cues ! i))) (sorted_list_of_set (active_at cues t))"
    unfolding shown_at_def active_sorted by (subst filter_nth) (simp add: o_def)
  have "finite (active_at cues t)" by (simp add: active_at_def)
  then show ?thesis by (simp add: active_body_def *)
qed

lemma merge_loop_solid:
  "list_all (\<lambda>c. solid (snd (snd c))) cues \<Longrightarrow> active \<subseteq> {..<length cues} \<Longrightarrow>
   \<forall>x \<in> set r. \<forall>y \<in> set (snd x). snd y < length cues \<Longrightarrow>
   c \<in> set (merge_loop cues previous active r) \<Longrightarrow> solid (snd (snd c))"
proof (induction cues previous active r rule: merge_loop.induct)
  case (2 cues previous active t changes r)
  have sub: "apply_changes a ch \<subseteq> {..<length cues}" if "a \<subseteq> {..<length cues}" "\<forall>y \<in> set ch. snd y < length cues" for a ch
  proof -
    show ?thesis using that
    proof (induction a ch rule: apply_changes.induct)
      case (2 a b i r)
      then have "(if b then insert i a else a - {i}) \<subseteq> {..<length cues}" by auto
      then show ?case using "2.IH" "2.prems"(2) by simp
    qed simp
  qed
  have fin: "finite active" using "2.prems"(2) finite_subset by blast
  have body: "solid (active_body cues active)" if "active \<noteq> {}"
  proof -
    have "solid (snd (snd (cues ! i)))" if "i \<in> active" for i
      using "2.prems"(1,2) that by (auto simp: list_all_length)
    moreover have "sorted_list_of_set active \<noteq> []" using fin that by simp
    ultimately show ?thesis
      unfolding active_body_def using fin by (intro solid_join) (simp_all add: list_all_iff)
  qed
  have "apply_changes active changes \<subseteq> {..<length cues}" using sub "2.prems"(2,3) by simp
  moreover have "\<forall>x \<in> set r. \<forall>y \<in> set (snd x). snd y < length cues" using "2.prems"(3) by simp
  ultimately have tail: "c \<in> set (merge_loop cues (Some t) (apply_changes active changes) r) \<Longrightarrow> solid (snd (snd c))"
    using "2.IH" "2.prems"(1) by blast
  show ?case
  proof (cases "c \<in> set (merge_loop cues (Some t) (apply_changes active changes) r)")
    case False
    then have "c = (the previous, t, active_body cues active) \<and> active \<noteq> {}"
      using "2.prems"(4) by (auto split: option.splits if_splits)
    then show ?thesis using body by simp
  qed (rule tail)
qed simp

lemma merge_cues_solid:
  assumes "list_all (\<lambda>c. solid (snd (snd c))) cues"
  shows "list_all (\<lambda>c. solid (snd (snd c))) (merge_cues cues)"
proof -
  have lists: "lists_changes (cue_boundaries cues) (changes_at cues)" by (rule boundaries_lists)
  have "snd y < length cues" if "x \<in> set (cue_boundaries cues)" "y \<in> set (snd x)" for x y
  proof -
    have "map_of (cue_boundaries cues) (fst x) = Some (snd x)"
      using lists that(1) by (simp add: lists_changes_def)
    then have "y \<in> changes_at cues (fst x)" using lists that(2) by (metis listed_def lists_changes_def option.simps(5))
    then show ?thesis by (auto simp: changes_at_def)
  qed
  then have "\<forall>x \<in> set (sort_key fst (cue_boundaries cues)). \<forall>y \<in> set (snd x). snd y < length cues" by simp
  then show ?thesis using merge_loop_solid [OF assms empty_subsetI]
    unfolding merge_cues_def list_all_iff by blast
qed


subsection \<open>Reading a document back\<close>

text \<open>The blocks of a document: its lines, split where a line is empty.\<close>

fun line_blocks :: "ustring list \<Rightarrow> ustring list \<Rightarrow> ustring list list" where
  "line_blocks block [] = (if block = [] then [] else [block])"
| "line_blocks block (l # ls) =
     (if l = [] then (if block = [] then line_blocks [] ls else block # line_blocks [] ls)
      else line_blocks (block @ [l]) ls)"

definition document_blocks :: "ustring \<Rightarrow> ustring list list" where
  "document_blocks s = line_blocks [] (split_char 10 s)"

definition timing_line :: "nat \<Rightarrow> nat \<Rightarrow> nat \<Rightarrow> ustring" where
  "timing_line decimal start stop = timestamp start decimal @ lit '' --> '' @ timestamp stop decimal"

definition cue_lines :: "nat \<Rightarrow> nat \<Rightarrow> cue \<Rightarrow> ustring list" where
  "cue_lines decimal index c =
     dec index # timing_line decimal (fst c) (fst (snd c)) # split_char 10 (snd (snd c))"

lemma line_blocks_solid:
  "\<forall>l \<in> set ls. l \<noteq> [] \<Longrightarrow> block @ ls \<noteq> [] \<Longrightarrow> line_blocks block (ls @ [] # r) = (block @ ls) # line_blocks [] r"
  by (induction ls arbitrary: block) simp_all

lemma dec_free: "c \<in> set (dec n) \<Longrightarrow> 48 \<le> c \<and> c < 58"
proof (induction n rule: dec.induct)
  case (1 n)
  then show ?case using dec.simps [of n] by (auto split: if_splits)
qed

lemma dec_nonempty: "dec n \<noteq> []"
  by (subst dec.simps) simp

lemma timestamp_free: "decimal \<noteq> 10 \<Longrightarrow> 10 \<notin> set (timestamp t decimal)"
  using dec_free by (fastforce simp: timestamp_def zero_padded_def Let_def)

lemma cue_block_lines:
  assumes "decimal \<noteq> 10"
  shows "split_char 10 (cue_block decimal i c @ s) = cue_lines decimal i c @ [] # split_char 10 s"
proof -
  obtain start stop body where c: "c = (start, stop, body)" by (cases c)
  have i: "10 \<notin> set (dec i)" using dec_free by fastforce
  have t: "10 \<notin> set (timing_line decimal start stop)"
    using timestamp_free [OF assms] by (simp add: timing_line_def lit_def)
  have "cue_block decimal i c @ s = dec i @ 10 # (timing_line decimal start stop @ 10 # (body @ 10 # ([] @ 10 # s)))"
    by (simp add: cue_block_def c timing_line_def)
  also have "split_char 10 \<dots> = dec i # timing_line decimal start stop # split_char 10 (body @ 10 # ([] @ 10 # s))"
    by (simp only: split_char_append [OF i] split_char_append [OF t])
  also have "\<dots> = cue_lines decimal i c @ [] # split_char 10 s"
    by (simp only: split_char_mid cue_lines_def c) simp
  finally show ?thesis .
qed

lemma document_blocks_from:
  assumes "decimal \<noteq> 10" and "list_all (\<lambda>c. solid (snd (snd c))) cues"
  shows "line_blocks [] (split_char 10 (concat (map (\<lambda>(i, c). cue_block decimal i c) (enumerate n cues))))
    = map (\<lambda>(i, c). cue_lines decimal i c) (enumerate n cues)"
  using assms(2)
proof (induction cues arbitrary: n)
  case (Cons c cues)
  have "timing_line decimal (fst c) (fst (snd c)) \<noteq> []" by (simp add: timing_line_def lit_def)
  then have "\<forall>l \<in> set (cue_lines decimal n c). l \<noteq> []"
    using Cons.prems dec_nonempty by (simp add: cue_lines_def solid_def)
  then have "line_blocks [] (cue_lines decimal n c @ [] # r) = cue_lines decimal n c # line_blocks [] r" for r
    using line_blocks_solid [of "cue_lines decimal n c" "[]" r] by (simp add: cue_lines_def)
  then show ?case using Cons by (simp add: cue_block_lines [OF assms(1)])
qed simp

lemma snapshot_cues_solid:
  assumes db: "subtitle_db uc" and ok: "list_all (exportable uc) (sn_segments sn)"
    and cs: "caption_cues uc mode missing p d labels False overlap sn = Inr cues"
  shows "list_all (\<lambda>c. solid (snd (snd c))) cues"
proof -
  define body_of where "body_of = cue_text uc (sn_aliases sn) mode missing False labels"
  define ss where "ss = sort_key segment_order (sn_segments sn)"
  obtain raw where raw: "collect_cues body_of p d ss = Inr raw"
    and cues: "cues = (if overlap = ''preserve'' then raw else merge_cues raw)"
    using cs by (auto simp: caption_cues_def body_of_def ss_def res_bind_def split: if_splits sum.splits)
  have "solid b" if "s \<in> set ss" "body_of s = Inr b" "b \<noteq> []" for s b
    by (rule cue_text_solid [OF db _ that(2,3) [unfolded body_of_def]]) (use ok that(1) in \<open>simp add: ss_def list_all_iff\<close>)
  then have "list_all (\<lambda>c. solid (snd (snd c))) raw" using collect_solid raw by blast
  then show ?thesis using merge_cues_solid by (simp add: cues)
qed

subsection \<open>A sample\<close>

definition export_caption :: "string \<Rightarrow> string \<Rightarrow> int \<Rightarrow> int \<Rightarrow> caption_segment" where
  "export_caption i txt start stop = \<lparr>cs_id = lit i, cs_track = lit ''mix'', cs_start = start, cs_end = stop,
     cs_text = lit txt, cs_revision = 1, cs_state = StableSource, cs_target = lit ''ko'', cs_speaker = Some (lit ''p''),
     cs_speaker_revision = 0, cs_speaker_manual = False, cs_translation = None, cs_superseded_by = [],
     cs_source_track = None, cs_epoch = None, cs_group = None, cs_lane = None,
     cs_parents = [], cs_delivery = LiveDelivery, cs_operation = TranslationOperation, cs_source_language = None\<rparr>"

definition export_snapshot :: caption_snapshot where
  "export_snapshot = \<lparr>sn_session = lit ''s'', sn_revision = 2, sn_generation = 0,
     sn_segments = [export_caption ''b'' ''x --> y'' 1500000000 3000000000, export_caption ''a'' ''hi'' 0 2000000001],
     sn_aliases = [(lit ''p'', lit ''A--'')], sn_changes = [], sn_held = []\<rparr>"

definition export_cues :: "cue list" where
  "export_cues = [(0, 2001, lit ''A--: hi''), (1500, 3000, lit ''A--: x --&gt; y'')]"

lemma export_snapshot_ok: "list_all (exportable ascii_db) (sn_segments export_snapshot)"
  by code_simp

lemma export_db: "subtitle_db ascii_db"
  by (simp add: subtitle_db_def ascii_db_def)

lemma export_snapshot_srt:
  "caption_cues ascii_db ''bilingual'' ''source'' False 0 True False ''preserve'' export_snapshot = Inr export_cues"
  by code_simp

text \<open>A WebVTT voice tag is not safe in this way: the name \<open>A--\<close> makes \<open>-->\<close> out of the end of the tag.\<close>

lemma webvtt_voice_arrow:
  "caption_cues ascii_db ''source'' ''source'' False 0 True True ''preserve'' export_snapshot
   = Inr [(0, 2001, lit ''<v A-->A--: hi</v>''), (1500, 3000, lit ''<v A-->A--: x --&gt; y</v>'')]"
  by code_simp

subsection \<open>Properties\<close>

text \<open>
  C28: merging overlapping cues shows at every instant exactly what is active: whatever the cues of a
  snapshot, at each millisecond the merged cues have one text, the joined texts of all captions active then in
  their order, or none when no caption is active; so merged cues never overlap and delay nobody.
\<close>

theorem merged_cues_show_active:
  assumes "caption_cues uc mode missing provisional offset_ns labels webvtt ''preserve'' sn = Inr cues"
    and "caption_cues uc mode missing provisional offset_ns labels webvtt ''merge'' sn = Inr merged"
  shows "shown_at t merged = (if shown_at t cues = [] then [] else [py_join [10] (shown_at t cues)])"
proof -
  have raw: "collect_cues (cue_text uc (sn_aliases sn) mode missing webvtt labels) provisional offset_ns
      (sort_key segment_order (sn_segments sn)) = Inr cues" and m: "merged = merge_cues cues"
    using assms by (auto simp: caption_cues_def res_bind_def split: if_splits sum.splits)
  show ?thesis
    using merge_cues_shows [OF collect_proper [OF raw]] by (simp add: m shown_active)
qed

lemma merged_cues_show_active_witness:
  "shown_at 1600 (merge_cues export_cues) = [lit ''A--: hi'' @ [10] @ lit ''A--: x --&gt; y'']"
proof -
  have merged: "caption_cues ascii_db ''bilingual'' ''source'' False 0 True False ''merge'' export_snapshot
      = Inr (merge_cues export_cues)"
    using export_snapshot_srt by (auto simp: caption_cues_def res_bind_def split: sum.splits)
  have "shown_at 1600 export_cues = [lit ''A--: hi'', lit ''A--: x --&gt; y'']" by code_simp
  with merged_cues_show_active [OF export_snapshot_srt merged, of 1600] show ?thesis by (simp add: py_join_Cons)
qed

text \<open>
  C29: transcript text cannot break an SRT file: when the captions of a snapshot are valid segments and their cues
  can be built, the exported file, read back at its blank lines, has exactly one block per cue, made of its number, its
  timing line and the lines of its text, and no line of a text contains a closing angle bracket, hence no arrow of a
  timing line. \<open>subtitle_db\<close> are three facts of the Unicode database: line feed and carriage return are spaces, the
  replacement character is not.
\<close>

theorem srt_reads_back:
  assumes "subtitle_db uc" and "list_all (exportable uc) (sn_segments sn)"
    and "caption_cues uc mode missing provisional offset_ns labels False overlap sn = Inr cues"
  shows "map_sum id document_blocks (export_srt uc mode missing provisional offset_ns labels overlap sn)
      = Inr (map (\<lambda>(i, c). cue_lines 44 i c) (enumerate 1 cues))
    \<and> list_all (\<lambda>c. 62 \<notin> set (snd (snd c))) cues"
proof -
  note cues = snapshot_cues_solid [OF assms]
  have "document_blocks (document 44 cues) = map (\<lambda>(i, c). cue_lines 44 i c) (enumerate 1 cues)"
    unfolding document_blocks_def document_def by (rule document_blocks_from) (simp_all add: cues)
  then show ?thesis using assms(3) cues by (auto simp: export_srt_def res_bind_def solid_def list_all_iff)
qed

lemma srt_reads_back_witness:
  "map_sum id document_blocks (export_srt ascii_db ''bilingual'' ''source'' False 0 True ''preserve'' export_snapshot)
   = Inr (map (\<lambda>(i, c). cue_lines 44 i c) (enumerate 1 export_cues))"
  using srt_reads_back [OF export_db export_snapshot_ok export_snapshot_srt] by blast

end
