(* ===== verification/RemoteCaptions.thy ===== *)
theory RemoteCaptions
  imports CaptionStore OpenAIBackend
begin

text \<open>
  Model of \<^verbatim>\<open>remote_captions.py\<close>: the client's projection of gateway events into a caption store. An event's
  data is the JSON object after \<open>json.loads\<close>; \<open>num\<close> prints its numbers. Each handler answers with \<open>True\<close>,
  \<open>False\<close> (stale) or an error next to the projection it leaves behind, also when it raises.
\<close>

subsection \<open>Wire values\<close>

type_synonym wire_object = "(ustring \<times> json) list"

definition uint64_max :: int where
  "uint64_max = 18446744073709551615"

definition wire_int :: "int \<Rightarrow> json \<Rightarrow> int res" where
  "wire_int minimum v =
     (case v of
        JNum q \<Rightarrow> if minimum \<le> \<lfloor>q\<rfloor> \<and> \<lfloor>q\<rfloor> \<le> uint64_max then Inr \<lfloor>q\<rfloor> else Inl (ValueError ''must be an integer in range'')
      | _ \<Rightarrow> Inl (ValueError ''must be an integer in range''))"

definition bounded_text :: "unidb \<Rightarrow> nat \<Rightarrow> bool \<Rightarrow> ustring \<Rightarrow> bool" where
  "bounded_text uc maximum blank s \<longleftrightarrow>
     length s \<le> maximum \<and> (blank \<or> py_strip uc s \<noteq> []) \<and> list_all (\<lambda>c. \<not> is_surrogate c) s"

definition wire_text :: "unidb \<Rightarrow> nat \<Rightarrow> bool \<Rightarrow> json \<Rightarrow> ustring res" where
  "wire_text uc maximum blank v =
     (case v of JStr s \<Rightarrow> if bounded_text uc maximum blank s then Inr s else Inl (ValueError ''Invalid text'')
      | _ \<Rightarrow> Inl (ValueError ''Invalid text''))"

definition wire_opt_text :: "unidb \<Rightarrow> nat \<Rightarrow> json \<Rightarrow> ustring option res" where
  "wire_opt_text uc maximum v = (case v of JNull \<Rightarrow> Inr None | _ \<Rightarrow> map_sum id Some (wire_text uc maximum False v))"

definition need :: "string \<Rightarrow> wire_object \<Rightarrow> json res" where
  "need k ps = (case field k ps of None \<Rightarrow> Inl KeyError | Some v \<Rightarrow> Inr v)"

definition get_or :: "string \<Rightarrow> json \<Rightarrow> wire_object \<Rightarrow> json" where
  "get_or k d ps = (case field k ps of None \<Rightarrow> d | Some v \<Rightarrow> v)"

definition need_text :: "unidb \<Rightarrow> string \<Rightarrow> nat \<Rightarrow> wire_object \<Rightarrow> ustring res" where
  "need_text uc k maximum ps = res_bind (need k ps) (wire_text uc maximum False)"

definition need_int :: "string \<Rightarrow> int \<Rightarrow> wire_object \<Rightarrow> int res" where
  "need_int k minimum ps = res_bind (need k ps) (wire_int minimum)"

definition keys_are :: "string list \<Rightarrow> wire_object \<Rightarrow> bool" where
  "keys_are ks ps \<longleftrightarrow> set (map fst ps) = set (map lit ks)"

definition keys_within :: "string list \<Rightarrow> wire_object \<Rightarrow> bool" where
  "keys_within ks ps \<longleftrightarrow> set (map fst ps) \<subseteq> set (map lit ks)"

definition wire_enum :: "(string \<times> 'a) list \<Rightarrow> json \<Rightarrow> 'a res" where
  "wire_enum table v =
     (case v of
        JStr s \<Rightarrow> (case map_of (map (\<lambda>(k, x). (lit k, x)) table) s of Some x \<Rightarrow> Inr x | None \<Rightarrow> Inl (ValueError ''Invalid value''))
      | _ \<Rightarrow> Inl (ValueError ''Invalid value''))"

definition wire_bool :: "json \<Rightarrow> bool res" where
  "wire_bool v = (case v of JBool b \<Rightarrow> Inr b | _ \<Rightarrow> Inl (ValueError ''must be a bool''))"

definition plain_opt_text :: "json \<Rightarrow> ustring option res" where
  "plain_opt_text v = (case v of JNull \<Rightarrow> Inr None | JStr s \<Rightarrow> Inr (Some s) | _ \<Rightarrow> Inl (ValueError ''must be text''))"

text \<open>\<open>_json_object\<close>: finite numbers, UTF-8 text, a bounded size.\<close>

fun clean_json :: "json \<Rightarrow> bool" where
  "clean_json (JFloat f) = pf_finite f"
| "clean_json (JStr s) = list_all (\<lambda>c. \<not> is_surrogate c) s"
| "clean_json (JList vs) = list_all clean_json vs"
| "clean_json (JObj ps) = list_all (\<lambda>(k, v). list_all (\<lambda>c. \<not> is_surrogate c) k \<and> clean_json v) ps"
| "clean_json _ = True"

definition event_data_ok :: "(rat \<Rightarrow> ustring) \<Rightarrow> wire_object \<Rightarrow> bool" where
  "event_data_ok num data \<longleftrightarrow> clean_json (JObj data) \<and> utf8_len (dump_json num (JObj data)) \<le> 262144"

subsection \<open>Groups\<close>

definition wire_parent :: "unidb \<Rightarrow> json \<Rightarrow> parent_ref res" where
  "wire_parent uc v =
     (case v of
        JObj ps \<Rightarrow>
          if \<not> keys_are [''segment_id'', ''source_revision''] ps then Inl (ValueError ''Invalid caption parent reference'')
          else res_bind (need_text uc ''segment_id'' 512 ps) (\<lambda>i.
               res_bind (need_int ''source_revision'' 1 ps) (\<lambda>r. Inr \<lparr>pr_segment = i, pr_revision = r\<rparr>))
      | _ \<Rightarrow> Inl (ValueError ''Invalid caption parent reference''))"

definition wire_entries :: "unidb \<Rightarrow> json \<Rightarrow> ustring list res" where
  "wire_entries uc v =
     (case v of
        JList vs \<Rightarrow> if 16 < length vs then Inl (ValueError ''Invalid list'') else res_map (wire_text uc 512 False) vs
      | _ \<Rightarrow> Inl (ValueError ''Invalid list''))"

definition wire_translation :: "unidb \<Rightarrow> json \<Rightarrow> caption_translation option res" where
  "wire_translation uc v =
     (case v of
        JNull \<Rightarrow> Inr None
      | JObj ps \<Rightarrow>
          if \<not> keys_within [''source_revision'', ''provider_generation'', ''target_language'', ''text'', ''completed'',
                            ''result_revision''] ps
             \<or> \<not> list_all (\<lambda>k. field k ps \<noteq> None) [''source_revision'', ''provider_generation'', ''target_language'',
                            ''text'', ''completed'']
            then Inl (ValueError ''Invalid child translation'')
          else
            res_bind (need_int ''source_revision'' 1 ps) (\<lambda>r.
            res_bind (need_int ''provider_generation'' 0 ps) (\<lambda>g.
            res_bind (need_text uc ''target_language'' 64 ps) (\<lambda>l.
            res_bind (need_text uc ''text'' 24000 ps) (\<lambda>t.
            res_bind (wire_int 1 (get_or ''result_revision'' (JNum 1) ps)) (\<lambda>n.
            res_bind (res_bind (need ''completed'' ps) wire_bool) (\<lambda>c.
              Inr (Some \<lparr>ct_source_revision = r, ct_generation = g, ct_language = l, ct_text = t, ct_completed = c,
                         ct_result_revision = n\<rparr>)))))))
      | _ \<Rightarrow> Inl (ValueError ''Invalid child translation''))"

definition segment_fields :: "string list" where
  "segment_fields = [''segment_id'', ''track_id'', ''start_ns'', ''end_ns'', ''source_text'', ''source_revision'',
     ''source_state'', ''target_language'', ''speaker_id'', ''speaker_revision'', ''speaker_manual'', ''translation'',
     ''superseded_by'', ''source_track_id'', ''capture_epoch'', ''separation_group_id'', ''lane_id'',
     ''parent_segment_ids'', ''delivery_class'', ''text_operation'', ''source_language'']"

definition operation_table :: "(string \<times> text_operation) list" where
  "operation_table = [(''translation'', TranslationOperation), (''transcript_correction'', TranscriptCorrection)]"

definition wire_child :: "unidb \<Rightarrow> json \<Rightarrow> caption_segment res" where
  "wire_child uc v =
     (case v of
        JObj ps \<Rightarrow>
          if \<not> keys_within segment_fields ps then Inl (ValueError ''Invalid caption child fields'')
          else
            res_bind (need_text uc ''segment_id'' 512 ps) (\<lambda>i.
            res_bind (need_text uc ''track_id'' 256 ps) (\<lambda>tr.
            res_bind (need_text uc ''source_text'' 12000 ps) (\<lambda>tx.
            res_bind (need_text uc ''target_language'' 64 ps) (\<lambda>tl.
            res_bind (need_text uc ''source_track_id'' 256 ps) (\<lambda>st.
            res_bind (need_text uc ''capture_epoch'' 256 ps) (\<lambda>ep.
            res_bind (need_text uc ''separation_group_id'' 512 ps) (\<lambda>gr.
            res_bind (need_text uc ''lane_id'' 256 ps) (\<lambda>la.
            res_bind (need_int ''start_ns'' 0 ps) (\<lambda>s0.
            res_bind (need_int ''end_ns'' 1 ps) (\<lambda>s1.
            res_bind (need_int ''source_revision'' 1 ps) (\<lambda>rv.
            res_bind (wire_int 0 (get_or ''speaker_revision'' (JNum 0) ps)) (\<lambda>sr.
            res_bind (wire_opt_text uc 256 (get_or ''speaker_id'' JNull ps)) (\<lambda>sp.
            res_bind (wire_entries uc (get_or ''parent_segment_ids'' (JList []) ps)) (\<lambda>pa.
            res_bind (wire_entries uc (get_or ''superseded_by'' (JList []) ps)) (\<lambda>su.
            res_bind (wire_translation uc (get_or ''translation'' JNull ps)) (\<lambda>tn.
            res_bind (wire_enum [(''provisional'', ProvisionalSource), (''stable'', StableSource)]
                        (get_or ''source_state'' (JStr (lit ''stable'')) ps)) (\<lambda>ss.
            res_bind (wire_enum operation_table (get_or ''text_operation'' (JStr (lit ''translation'')) ps)) (\<lambda>op.
            res_bind (plain_opt_text (get_or ''source_language'' JNull ps)) (\<lambda>sl.
            res_bind (wire_bool (get_or ''speaker_manual'' (JBool False) ps)) (\<lambda>sm.
            res_bind (wire_enum [(''live'', LiveDelivery), (''overlap_correction'', OverlapCorrection)]
                        (get_or ''delivery_class'' (JStr (lit ''live'')) ps)) (\<lambda>de.
              build_segment uc \<lparr>cs_id = i, cs_track = tr, cs_start = s0, cs_end = s1, cs_text = tx, cs_revision = rv,
                cs_state = ss, cs_target = tl, cs_speaker = sp, cs_speaker_revision = sr, cs_speaker_manual = sm,
                cs_translation = tn, cs_superseded_by = su, cs_source_track = Some st, cs_epoch = Some ep,
                cs_group = Some gr, cs_lane = Some la, cs_parents = pa, cs_delivery = de, cs_operation = op,
                cs_source_language = sl\<rparr>)))))))))))))))))))))
      | _ \<Rightarrow> Inl (ValueError ''Invalid caption child fields''))"

definition wire_list :: "string \<Rightarrow> nat \<Rightarrow> nat \<Rightarrow> wire_object \<Rightarrow> json list res" where
  "wire_list k least most ps =
     res_bind (need k ps) (\<lambda>v. case v of
        JList vs \<Rightarrow> if least \<le> length vs \<and> length vs \<le> most then Inr vs else Inl (ValueError ''Invalid list'')
      | _ \<Rightarrow> Inl (ValueError ''Invalid list''))"

definition parse_caption_group :: "unidb \<Rightarrow> wire_object \<Rightarrow> caption_group res" where
  "parse_caption_group uc ps =
     (if \<not> keys_are [''group_id'', ''group_revision'', ''source_track_id'', ''capture_epoch'', ''start_ns'', ''end_ns'',
                     ''parents'', ''children''] ps
        then Inl (ValueError ''Invalid caption group fields'')
      else
        res_bind (wire_list ''parents'' 1 16 ps) (\<lambda>pv.
        res_bind (wire_list ''children'' 2 32 ps) (\<lambda>cv.
        res_bind (res_map (wire_parent uc) pv) (\<lambda>parents.
        res_bind (res_map (wire_child uc) cv) (\<lambda>children.
        res_bind (need_text uc ''group_id'' 512 ps) (\<lambda>i.
        res_bind (need_int ''group_revision'' 1 ps) (\<lambda>r.
        res_bind (need_text uc ''source_track_id'' 256 ps) (\<lambda>t.
        res_bind (need_text uc ''capture_epoch'' 256 ps) (\<lambda>e.
        res_bind (need_int ''start_ns'' 0 ps) (\<lambda>s0.
        res_bind (need_int ''end_ns'' 1 ps) (\<lambda>s1.
          build_group uc \<lparr>cg_id = i, cg_revision = r, cg_track = t, cg_epoch = e, cg_start = s0, cg_end = s1,
                          cg_parents = parents, cg_children = children\<rparr>)))))))))))"

subsection \<open>The projection\<close>

record source_identity =
  si_revision :: int
  si_track :: ustring
  si_target :: ustring

record translation_status =
  ts_kind :: ustring
  ts_revision :: int
  ts_generation :: int
  ts_error :: "ustring option"

record preview_identity =
  pi_revision :: int
  pi_track :: ustring
  pi_epoch :: ustring
  pi_target :: ustring
  pi_frontier :: int
  pi_cleared :: bool

record projection =
  pj_session :: ustring
  pj_target :: ustring
  pj_track :: ustring
  pj_limit :: int
  pj_supported :: "ustring list"
  pj_capabilities :: "ustring list"
  pj_started :: bool
  pj_store :: caption_store
  pj_sequence :: int
  pj_generation :: int
  pj_terminal :: "(ustring \<times> wire_object) option"
  pj_sources :: "(ustring \<times> source_identity) list"
  pj_status :: "(ustring \<times> translation_status) list"
  pj_preview_id :: "ustring option"
  pj_preview :: "wire_object option"
  pj_frontier :: int
  pj_previews :: "(ustring \<times> preview_identity) list"
  pj_last_kind :: "ustring option"
  pj_stats :: "(string \<times> nat) list"

definition new_projection ::
    "unidb \<Rightarrow> ustring \<Rightarrow> ustring \<Rightarrow> ustring \<Rightarrow> int \<Rightarrow> ustring list \<Rightarrow> projection res" where
  "new_projection uc session target track limit supported =
     (if \<not> (bounded_text uc 256 False session \<and> bounded_text uc 64 False target \<and> bounded_text uc 256 False track)
        then Inl (ValueError ''Invalid text'')
      else if limit < 1 \<or> 10000 < limit then Inl (ValueError ''Remote projection supports at most 10000 segment IDs'')
      else if 4 < length supported \<or> \<not> distinct supported
              \<or> \<not> set supported \<subseteq> lit ` {''caption_groups_v1'', ''caption_words_v1'', ''caption_refinement_v1'', ''semantic_translation_v1''}
        then Inl (ValueError ''Unsupported client caption capabilities'')
      else res_bind (new_store uc session 0) (\<lambda>st.
        Inr \<lparr>pj_session = session, pj_target = target, pj_track = track, pj_limit = limit, pj_supported = supported,
             pj_capabilities = [], pj_started = False, pj_store = st, pj_sequence = 0, pj_generation = 0,
             pj_terminal = None, pj_sources = [], pj_status = [], pj_preview_id = None, pj_preview = None,
             pj_frontier = -1, pj_previews = [], pj_last_kind = None,
             pj_stats = map (\<lambda>k. (k, 0)) [''accepted_events'', ''source_updates'', ''translation_previews'',
               ''translation_completed'', ''translation_failed'', ''speaker_updates'', ''ignored_events'',
               ''stale_events'', ''group_updates'', ''groups_held'', ''transcript_previews'']\<rparr>))"

definition bump_stat :: "string \<Rightarrow> projection \<Rightarrow> projection" where
  "bump_stat k pj = pj\<lparr>pj_stats := al_put k ((case map_of (pj_stats pj) k of None \<Rightarrow> 0 | Some n \<Rightarrow> n) + 1) (pj_stats pj)\<rparr>"

text \<open>\<open>_CurrentCaptionStore\<close>: the store of the projection never keeps a journal.\<close>

definition unjournaled :: "caption_store \<Rightarrow> ('a \<times> caption_store) res \<Rightarrow> ('a \<times> caption_store) res" where
  "unjournaled st r = map_sum id (\<lambda>(a, st'). (a, st'\<lparr>st_changes := st_changes st\<rparr>)) r"

text \<open>A call of the store: on success its answer and the projection with the new store.\<close>

definition on_store :: "(caption_store \<Rightarrow> ('a \<times> caption_store) res) \<Rightarrow> projection \<Rightarrow> 'a res \<times> projection" where
  "on_store f pj =
     (case unjournaled (pj_store pj) (f (pj_store pj)) of
        Inl e \<Rightarrow> (Inl e, pj)
      | Inr (a, st) \<Rightarrow> (Inr a, pj\<lparr>pj_store := st\<rparr>))"

type_synonym handled = "bool res \<times> projection"

definition refuse :: "string \<Rightarrow> projection \<Rightarrow> handled" where
  "refuse message pj = (Inl (ValueError message), pj)"

text \<open>Validation first: an error of it leaves the projection as it is.\<close>

definition checked :: "projection \<Rightarrow> 'a res \<Rightarrow> ('a \<Rightarrow> handled) \<Rightarrow> handled" where
  "checked pj r f = (case r of Inl e \<Rightarrow> (Inl e, pj) | Inr x \<Rightarrow> f x)"

definition segment_of :: "unidb \<Rightarrow> ustring option \<Rightarrow> ustring res" where
  "segment_of uc i = (case i of None \<Rightarrow> Inl (ValueError ''Invalid segment_id'') | Some s \<Rightarrow> wire_text uc 512 False (JStr s))"

definition has_capability :: "string \<Rightarrow> projection \<Rightarrow> bool" where
  "has_capability k pj \<longleftrightarrow> lit k \<in> set (pj_capabilities pj)"

subsection \<open>Transcript previews\<close>

record preview_values =
  pv_id :: ustring
  pv_revision :: int
  pv_track :: ustring
  pv_epoch :: ustring
  pv_target :: ustring
  pv_end :: int
  pv_cleared :: bool

definition parse_preview :: "unidb \<Rightarrow> projection \<Rightarrow> wire_object \<Rightarrow> preview_values res" where
  "parse_preview uc pj ps =
     (if \<not> has_capability ''semantic_translation_v1'' pj
        then Inl (ValueError ''Semantic transcript previews were not negotiated'')
      else if \<not> keys_are [''preview_id'', ''revision'', ''source_text'', ''stable_text'', ''source_language'',
             ''target_language'', ''source_track_id'', ''capture_epoch'', ''start_ns'', ''end_ns'', ''state''] ps
        then Inl (ValueError ''Invalid transcript preview fields'')
      else
        res_bind (need_text uc ''preview_id'' 512 ps) (\<lambda>i.
        res_bind (need_int ''revision'' 1 ps) (\<lambda>r.
        res_bind (res_bind (need ''source_text'' ps) (wire_text uc 24000 True)) (\<lambda>source.
        res_bind (res_bind (need ''stable_text'' ps) (wire_text uc 24000 True)) (\<lambda>stable_text.
        res_bind (need_text uc ''source_language'' 64 ps) (\<lambda>sl.
        res_bind (need_text uc ''target_language'' 64 ps) (\<lambda>tl.
        res_bind (need_text uc ''source_track_id'' 256 ps) (\<lambda>tr.
        res_bind (need_text uc ''capture_epoch'' 256 ps) (\<lambda>ep.
        res_bind (need_int ''start_ns'' 0 ps) (\<lambda>s0.
        res_bind (need_int ''end_ns'' 0 ps) (\<lambda>s1.
        res_bind (res_bind (need ''state'' ps)
                    (wire_enum [(''listening'', False), (''buffering'', False), (''cleared'', True)])) (\<lambda>cleared.
          if s1 < s0 then Inl (ValueError ''Invalid transcript preview state or interval'')
          else if cleared \<and> (source \<noteq> [] \<or> stable_text \<noteq> [] \<or> s0 \<noteq> s1)
            then Inl (ValueError ''Cleared preview must contain empty text at one audio boundary'')
          else if tl \<noteq> pj_target pj then Inl (ValueError ''Transcript preview target differs from the session'')
          else Inr \<lparr>pv_id = i, pv_revision = r, pv_track = tr, pv_epoch = ep, pv_target = tl, pv_end = s1,
                    pv_cleared = cleared\<rparr>))))))))))))"

text \<open>May the preview take over the display? \<open>False\<close> is stale.\<close>

definition preview_admitted :: "preview_values \<Rightarrow> projection \<Rightarrow> bool res" where
  "preview_admitted v pj =
     (case map_of (pj_previews pj) (pv_id v) of
        Some p \<Rightarrow>
          if (pv_track v, pv_epoch v, pv_target v) \<noteq> (pi_track p, pi_epoch p, pi_target p)
            then Inl (ValueError ''Transcript preview lineage cannot change'')
          else Inr (Some (pv_id v) = pj_preview_id pj \<and> pi_revision p < pv_revision v
            \<and> \<not> (pi_cleared p \<and> \<not> pv_cleared v \<and> pv_end v \<le> pi_frontier p))
      | None \<Rightarrow>
          Inr (pj_frontier pj < pv_end v
            \<and> \<not> (pv_cleared v \<and> (case Option.bind (pj_preview_id pj) (map_of (pj_previews pj)) of
                                    None \<Rightarrow> False | Some c \<Rightarrow> \<not> pi_cleared c))))"

text \<open>The oldest identities other than the current one are forgotten down to 256.\<close>

fun retire_previews :: "nat \<Rightarrow> ustring \<Rightarrow> (ustring \<times> preview_identity) list \<Rightarrow> (ustring \<times> preview_identity) list" where
  "retire_previews 0 i ps = ps"
| "retire_previews (Suc n) i ps =
     (case find (\<lambda>p. fst p \<noteq> i) ps of None \<Rightarrow> ps | Some p \<Rightarrow> retire_previews n i (al_del (fst p) ps))"

definition show_preview :: "preview_values \<Rightarrow> wire_object \<Rightarrow> projection \<Rightarrow> projection" where
  "show_preview v ps pj =
     (let known = (case map_of (pj_previews pj) (pv_id v) of None \<Rightarrow> -1 | Some p \<Rightarrow> pi_frontier p);
          entry = \<lparr>pi_revision = pv_revision v, pi_track = pv_track v, pi_epoch = pv_epoch v, pi_target = pv_target v,
                   pi_frontier = max known (pv_end v), pi_cleared = pv_cleared v\<rparr>;
          previews = al_put (pv_id v) entry (pj_previews pj)
      in bump_stat ''transcript_previews'' (pj\<lparr>pj_previews := retire_previews (length previews - 256) (pv_id v) previews,
           pj_preview_id := Some (pv_id v), pj_preview := Some ps, pj_frontier := max (pj_frontier pj) (pv_end v)\<rparr>))"

definition preview_event :: "unidb \<Rightarrow> wire_object \<Rightarrow> projection \<Rightarrow> handled" where
  "preview_event uc ps pj =
     checked pj (parse_preview uc pj ps) (\<lambda>v.
     checked pj (preview_admitted v pj) (\<lambda>ok. if ok then (Inr True, show_preview v ps pj) else (Inr False, pj)))"

subsection \<open>Corrections of results\<close>

definition wire_correction :: "unidb \<Rightarrow> json \<Rightarrow> result_correction res" where
  "wire_correction uc v =
     (case v of
        JObj ps \<Rightarrow>
          if \<not> keys_are [''segment_id'', ''source_revision'', ''based_on_result_revision'', ''text''] ps
            then Inl (ValueError ''Invalid context correction'')
          else
            res_bind (need_text uc ''segment_id'' 512 ps) (\<lambda>i.
            res_bind (need_int ''source_revision'' 1 ps) (\<lambda>r.
            res_bind (need_int ''based_on_result_revision'' 1 ps) (\<lambda>b.
            res_bind (need_text uc ''text'' 24000 ps) (\<lambda>t.
              Inr \<lparr>rcn_segment = i, rcn_source_revision = r, rcn_based_on = b, rcn_text = t\<rparr>))))
      | _ \<Rightarrow> Inl (ValueError ''Invalid context correction''))"

definition revision_event :: "unidb \<Rightarrow> ustring option \<Rightarrow> wire_object \<Rightarrow> projection \<Rightarrow> handled" where
  "revision_event uc segment ps pj =
     (if \<not> has_capability ''caption_refinement_v1'' pj \<or> segment \<noteq> None
        then refuse ''Context refinement was not negotiated or has an invalid envelope'' pj
      else if \<not> keys_are [''provider_generation'', ''corrections''] ps then refuse ''Invalid context correction fields'' pj
      else
        checked pj (need_int ''provider_generation'' 0 ps) (\<lambda>g.
        checked pj (wire_list ''corrections'' 1 2 ps) (\<lambda>vs.
        checked pj (res_map (wire_correction uc) vs) (\<lambda>cs. on_store (revise_translations uc cs g) pj))))"

subsection \<open>Sources\<close>

definition parse_source :: "unidb \<Rightarrow> ustring option \<Rightarrow> wire_object \<Rightarrow> projection \<Rightarrow> caption_segment res" where
  "parse_source uc segment ps pj =
     res_bind (segment_of uc segment) (\<lambda>i.
     res_bind (need_int ''source_revision'' 1 ps) (\<lambda>rv.
     res_bind (need_text uc ''text'' 12000 ps) (\<lambda>tx.
     res_bind (need_int ''start_ns'' 0 ps) (\<lambda>s0.
     res_bind (need_int ''end_ns'' 0 ps) (\<lambda>s1.
     res_bind (wire_text uc 256 False (get_or ''track_id'' (JStr (pj_track pj)) ps)) (\<lambda>tr.
     res_bind (wire_text uc 64 False (get_or ''target_language'' (JStr (pj_target pj)) ps)) (\<lambda>tl.
       if get_or ''source_state'' (JStr (lit ''stable'')) ps \<noteq> JStr (lit ''stable'')
         then Inl (ValueError ''caption.source must describe stable source text'')
       else
         res_bind (wire_opt_text uc 64 (get_or ''source_language'' JNull ps)) (\<lambda>sl.
         res_bind (wire_opt_text uc 256 (get_or ''source_track_id'' JNull ps)) (\<lambda>st.
         res_bind (wire_opt_text uc 256 (get_or ''capture_epoch'' JNull ps)) (\<lambda>ep.
         res_bind (wire_enum operation_table (get_or ''text_operation'' (JStr (lit ''translation'')) ps)) (\<lambda>op.
         res_bind (build_segment uc \<lparr>cs_id = i, cs_track = tr, cs_start = s0, cs_end = s1, cs_text = tx, cs_revision = rv,
             cs_state = StableSource, cs_target = tl, cs_speaker = None, cs_speaker_revision = 0,
             cs_speaker_manual = False, cs_translation = None, cs_superseded_by = [], cs_source_track = st,
             cs_epoch = ep, cs_group = None, cs_lane = None, cs_parents = [], cs_delivery = LiveDelivery,
             cs_operation = op, cs_source_language = sl\<rparr>) (\<lambda>s.
           if list_ex (\<lambda>k. truthy_field k ps) [''separation_group_id'', ''lane_id'', ''parent_segment_ids'']
              \<or> get_or ''delivery_class'' (JStr (lit ''live'')) ps \<noteq> JStr (lit ''live'')
             then Inl (ValueError ''Separated source children require an atomic caption group'')
           else Inr s))))))))))))"

definition identity_of :: "caption_segment \<Rightarrow> source_identity" where
  "identity_of s = \<lparr>si_revision = cs_revision s, si_track = cs_track s, si_target = cs_target s\<rparr>"

text \<open>A source the store accepts becomes the clause's identity; its old status is dropped.\<close>

definition record_source :: "unidb \<Rightarrow> caption_segment \<Rightarrow> projection \<Rightarrow> handled" where
  "record_source uc s pj =
     (case on_store (upsert_source uc s) pj of
        (Inr True, pj') \<Rightarrow>
          (Inr True, bump_stat ''source_updates'' (pj'\<lparr>pj_sources := al_put (cs_id s) (identity_of s) (pj_sources pj'),
             pj_status := al_del (cs_id s) (pj_status pj')\<rparr>))
      | answer \<Rightarrow> answer)"

definition source_event :: "unidb \<Rightarrow> ustring option \<Rightarrow> wire_object \<Rightarrow> projection \<Rightarrow> handled" where
  "source_event uc segment ps pj =
     checked pj (parse_source uc segment ps pj) (\<lambda>s.
       case map_of (pj_sources pj) (cs_id s) of
         Some c \<Rightarrow>
           if cs_revision s \<le> si_revision c then (Inr False, pj)
           else if si_track c \<noteq> cs_track s then refuse ''Source segment cannot move to another track'' pj
           else record_source uc s pj
       | None \<Rightarrow>
           if pj_limit pj \<le> int (length (pj_sources pj)) then refuse ''Caption segment limit reached; source was not stored'' pj
           else record_source uc s pj)"

subsection \<open>Group replacements\<close>

definition add_child :: "caption_segment \<Rightarrow> projection \<Rightarrow> projection" where
  "add_child c pj = pj\<lparr>pj_sources := al_put (cs_id c) (identity_of c) (pj_sources pj),
     pj_status := (case cs_translation c of None \<Rightarrow> pj_status pj
        | Some t \<Rightarrow> al_put (cs_id c) \<lparr>ts_kind = lit ''translation.completed'', ts_revision = ct_source_revision t,
                                     ts_generation = ct_generation t, ts_error = None\<rparr> (pj_status pj))\<rparr>"

definition group_stale :: "caption_group \<Rightarrow> projection \<Rightarrow> bool" where
  "group_stale g pj = (case map_of (st_groups (pj_store pj)) (cg_id g) of None \<Rightarrow> False
     | Some p \<Rightarrow> cg_revision g \<le> cg_revision p)"

definition group_event :: "unidb \<Rightarrow> ustring option \<Rightarrow> wire_object \<Rightarrow> projection \<Rightarrow> handled" where
  "group_event uc segment ps pj =
     (if \<not> has_capability ''caption_groups_v1'' pj then refuse ''Caption groups were not negotiated at session start'' pj
      else if segment \<noteq> None then refuse ''A caption group cannot name one envelope segment'' pj
      else checked pj (parse_caption_group uc ps) (\<lambda>g.
        if group_stale g pj then (Inr False, pj)
        else if list_ex (\<lambda>c. cs_id c \<in> set (map fst (pj_sources pj))) (cg_children g)
          then refuse ''Group children must use fresh session IDs'' pj
        else if pj_limit pj < int (length (pj_sources pj) + length (remdups (map cs_id (cg_children g))))
          then refuse ''Caption segment limit reached; group was not stored'' pj
        else case on_store (replace_group uc g (pj_limit pj) False) pj of
            (Inl e, pj') \<Rightarrow> (Inl e, pj')
          | (Inr GroupStale, pj') \<Rightarrow> (Inr False, pj')
          | (Inr status, pj') \<Rightarrow>
              let added = bump_stat ''group_updates'' (fold add_child (cg_children g) pj')
              in (Inr True, if status = GroupHeld then bump_stat ''groups_held'' added else added)))"

subsection \<open>Translations\<close>

datatype translation_kind = PreviewKind | CompletedKind | FailedKind | CancelledKind

definition kind_text :: "translation_kind \<Rightarrow> ustring" where
  "kind_text k = lit (case k of PreviewKind \<Rightarrow> ''translation.preview'' | CompletedKind \<Rightarrow> ''translation.completed''
     | FailedKind \<Rightarrow> ''translation.failed'' | CancelledKind \<Rightarrow> ''translation.cancelled'')"

definition carries_text :: "translation_kind \<Rightarrow> bool" where
  "carries_text k = (k = PreviewKind \<or> k = CompletedKind)"

record translation_values =
  tv_segment :: ustring
  tv_revision :: int
  tv_generation :: int
  tv_target :: ustring
  tv_error :: "ustring option"
  tv_text :: ustring

definition parse_result ::
    "unidb \<Rightarrow> translation_kind \<Rightarrow> ustring option \<Rightarrow> wire_object \<Rightarrow> projection \<Rightarrow> translation_values res" where
  "parse_result uc k segment ps pj =
     res_bind (segment_of uc segment) (\<lambda>i.
       let current = map_of (pj_sources pj) i
       in if carries_text k \<and> (field ''source_revision'' ps = None \<or> field ''provider_generation'' ps = None)
            then Inl (ValueError ''Translation text requires source revision and provider generation'')
          else
            res_bind (wire_int 1 (get_or ''source_revision''
                        (case current of None \<Rightarrow> JNull | Some c \<Rightarrow> j_int (si_revision c)) ps)) (\<lambda>rv.
            res_bind (wire_int 0 (get_or ''provider_generation'' (j_int (pj_generation pj)) ps)) (\<lambda>g.
            res_bind (wire_text uc 64 False (get_or ''target_language''
                        (JStr (case current of None \<Rightarrow> pj_target pj | Some c \<Rightarrow> si_target c)) ps)) (\<lambda>tl.
            res_bind (wire_opt_text uc 2048 (get_or ''error'' JNull ps)) (\<lambda>e.
            res_bind (wire_text uc 24000 (k \<noteq> CompletedKind) (get_or ''text'' (JStr []) ps)) (\<lambda>tx.
              Inr \<lparr>tv_segment = i, tv_revision = rv, tv_generation = g, tv_target = tl, tv_error = e, tv_text = tx\<rparr>))))))"

text \<open>Stale: no current clause of that identity, an older generation, or a status that is already final.\<close>

definition translation_current :: "translation_values \<Rightarrow> projection \<Rightarrow> bool" where
  "translation_current v pj =
     (case (map_of (pj_sources pj) (tv_segment v), lookup_segment (tv_segment v) (pj_store pj)) of
        (Some c, Some s) \<Rightarrow>
          cs_superseded_by s = [] \<and> si_revision c = tv_revision v \<and> si_target c = tv_target v
          \<and> pj_generation pj \<le> tv_generation v
      | _ \<Rightarrow> False)"

definition translation_final :: "translation_values \<Rightarrow> projection \<Rightarrow> bool" where
  "translation_final v pj =
     (case map_of (pj_status pj) (tv_segment v) of
        None \<Rightarrow> False
      | Some t \<Rightarrow> ts_revision t = tv_revision v \<and> ts_generation t = tv_generation v
          \<and> ts_kind t \<in> kind_text ` {CompletedKind, FailedKind, CancelledKind})"

text \<open>The prospective group of a held clause, built before anything changes.\<close>

definition incoming_translation :: "translation_values \<Rightarrow> caption_translation" where
  "incoming_translation v = \<lparr>ct_source_revision = tv_revision v, ct_generation = tv_generation v,
     ct_language = tv_target v, ct_text = tv_text v, ct_completed = True, ct_result_revision = 1\<rparr>"

definition prospective_group :: "unidb \<Rightarrow> translation_values \<Rightarrow> ustring \<Rightarrow> projection \<Rightarrow> unit res" where
  "prospective_group uc v gid pj =
     (case map_of (st_groups (pj_store pj)) gid of
        None \<Rightarrow> Inl (TypeError [])
      | Some g \<Rightarrow> map_sum id (\<lambda>_. ()) (build_group uc (g\<lparr>cg_children :=
          map (\<lambda>c. if cs_id c = tv_segment v then c\<lparr>cs_translation := Some (incoming_translation v)\<rparr> else c)
            (cg_children g)\<rparr>)))"

definition advance_generation :: "int \<Rightarrow> projection \<Rightarrow> handled" where
  "advance_generation g pj =
     (if g \<le> pj_generation pj then (Inr True, pj)
      else case on_store (set_provider_generation g) pj of
          (Inr _, pj') \<Rightarrow> (Inr True, pj'\<lparr>pj_generation := g\<rparr>)
        | answer \<Rightarrow> answer)"

definition note_status :: "translation_kind \<Rightarrow> translation_values \<Rightarrow> projection \<Rightarrow> projection" where
  "note_status k v pj = bump_stat (case k of CompletedKind \<Rightarrow> ''translation_completed''
        | PreviewKind \<Rightarrow> ''translation_previews'' | _ \<Rightarrow> ''translation_failed'')
     (pj\<lparr>pj_status := al_put (tv_segment v) \<lparr>ts_kind = kind_text k, ts_revision = tv_revision v,
          ts_generation = tv_generation v, ts_error = tv_error v\<rparr> (pj_status pj)\<rparr>)"

definition put_translation :: "unidb \<Rightarrow> translation_kind \<Rightarrow> translation_values \<Rightarrow> projection \<Rightarrow> handled" where
  "put_translation uc k v pj =
     (case advance_generation (tv_generation v) pj of
        (Inl e, pj') \<Rightarrow> (Inl e, pj')
      | (Inr _, pj') \<Rightarrow>
          if \<not> carries_text k then (Inr True, note_status k v pj')
          else case on_store (apply_translation uc (tv_segment v) (tv_revision v) (tv_generation v) (tv_text v)
                               (tv_target v) (k = CompletedKind)) pj' of
              (Inr True, pj'') \<Rightarrow> (Inr True, note_status k v pj'')
            | answer \<Rightarrow> answer)"

definition translation_event ::
    "unidb \<Rightarrow> translation_kind \<Rightarrow> ustring option \<Rightarrow> wire_object \<Rightarrow> projection \<Rightarrow> handled" where
  "translation_event uc k segment ps pj =
     checked pj (parse_result uc k segment ps pj) (\<lambda>v.
       let held = map_of (st_held_children (pj_store pj)) (tv_segment v)
       in if \<not> translation_current v pj \<or> translation_final v pj then (Inr False, pj)
          else if k = PreviewKind \<and> py_strip uc (tv_text v) = [] then (Inr True, bump_stat ''ignored_events'' pj)
          else case held of
              None \<Rightarrow> put_translation uc k v pj
            | Some gid \<Rightarrow>
                if k = PreviewKind then (Inr False, pj)
                else if k = CompletedKind
                  then checked pj (prospective_group uc v gid pj) (\<lambda>_. put_translation uc k v pj)
                else put_translation uc k v pj)"

subsection \<open>Provider and speakers\<close>

definition provider_event :: "wire_object \<Rightarrow> projection \<Rightarrow> handled" where
  "provider_event ps pj =
     checked pj (need_int ''provider_generation'' 0 ps) (\<lambda>g.
       if g \<le> pj_generation pj then (Inr False, pj) else advance_generation g pj)"

definition alias_event :: "unidb \<Rightarrow> wire_object \<Rightarrow> projection \<Rightarrow> handled" where
  "alias_event uc ps pj =
     checked pj (need_text uc ''speaker_id'' 256 ps) (\<lambda>i.
     checked pj (need_text uc ''name'' 256 ps) (\<lambda>n.
       if map_of (st_aliases (pj_store pj)) i \<noteq> None then (Inr False, pj)
       else if 128 \<le> length (st_aliases (pj_store pj)) then refuse ''Speaker name capacity exceeded'' pj
       else on_store (set_speaker_alias uc i n) pj))"

definition speaker_event :: "unidb \<Rightarrow> ustring option \<Rightarrow> wire_object \<Rightarrow> projection \<Rightarrow> handled" where
  "speaker_event uc segment ps pj =
     checked pj (segment_of uc segment) (\<lambda>i.
     checked pj (res_bind (need ''speaker_id'' ps) (wire_opt_text uc 256)) (\<lambda>sp.
     checked pj (need_int ''speaker_revision'' 1 ps) (\<lambda>r.
     checked pj (case get_or ''based_on_source_revision'' JNull ps of JNull \<Rightarrow> Inr None
                 | v \<Rightarrow> map_sum id Some (wire_int 1 v)) (\<lambda>basis.
       if field ''manual'' ps \<noteq> None \<and> field ''manual'' ps \<noteq> Some (JBool False)
         then refuse ''Automatic speaker updates cannot request a manual override'' pj
       else case on_store (update_speaker uc i sp r basis False) pj of
           (Inr True, pj') \<Rightarrow> (Inr True, bump_stat ''speaker_updates'' pj')
         | answer \<Rightarrow> answer))))"

subsection \<open>The session\<close>

definition counts_ok :: "unidb \<Rightarrow> json \<Rightarrow> bool" where
  "counts_ok uc v = (case v of
     JObj ps \<Rightarrow> length ps \<le> 128
       \<and> list_all (\<lambda>(n, c). bounded_text uc 128 False n \<and> (case wire_int 0 c of Inr _ \<Rightarrow> True | Inl _ \<Rightarrow> False)) ps
   | _ \<Rightarrow> False)"

definition terminal_event :: "unidb \<Rightarrow> ustring \<Rightarrow> wire_object \<Rightarrow> projection \<Rightarrow> handled" where
  "terminal_event uc kind ps pj =
     (if kind = lit ''session.completed'' \<and> field ''counts'' ps = None
        then refuse ''Completed session must contain terminal counts'' pj
      else if (case field ''counts'' ps of None \<Rightarrow> False | Some v \<Rightarrow> \<not> counts_ok uc v)
        then refuse ''Invalid terminal counts'' pj
      else checked pj (if kind = lit ''session.failed'' then need_text uc ''error'' 2048 ps else Inr []) (\<lambda>_.
        (Inr True, pj\<lparr>pj_terminal := Some (kind, ps)\<rparr>)))"

definition json_text :: "json \<Rightarrow> ustring option" where
  "json_text v = (case v of JStr s \<Rightarrow> Some s | _ \<Rightarrow> None)"

definition wire_capabilities :: "projection \<Rightarrow> json \<Rightarrow> ustring list res" where
  "wire_capabilities pj v =
     (case v of
        JList vs \<Rightarrow>
          (let cs = List.map_filter json_text vs
           in if length vs \<le> 32 \<and> length cs = length vs \<and> distinct cs \<and> set cs \<subseteq> set (pj_supported pj)
              then Inr cs else Inl (ValueError ''Invalid or unsupported negotiated capabilities''))
      | _ \<Rightarrow> Inl (ValueError ''Invalid or unsupported negotiated capabilities''))"

definition started_event :: "unidb \<Rightarrow> wire_object \<Rightarrow> projection \<Rightarrow> handled" where
  "started_event uc ps pj =
     (if pj_started pj then refuse ''Session start was already accepted'' pj
      else checked pj (need_int ''protocol_version'' 1 ps) (\<lambda>version.
        if version \<noteq> 1 then refuse ''Unsupported gateway protocol'' pj
        else if field ''engine_mode'' ps \<notin> (\<lambda>k. Some (JStr (lit k))) ` {''configured_local_engines'', ''injected_test_engines''}
          then refuse ''Invalid gateway engine mode'' pj
        else checked pj (need_text uc ''speaker_status'' 128 ps) (\<lambda>_.
          checked pj (wire_capabilities pj (get_or ''capabilities'' (JList []) ps)) (\<lambda>cs.
            (Inr True, bump_stat ''ignored_events'' (pj\<lparr>pj_capabilities := cs, pj_started := True\<rparr>))))))"

definition opt_field :: "string \<Rightarrow> (json \<Rightarrow> 'a res) \<Rightarrow> wire_object \<Rightarrow> unit res" where
  "opt_field k f ps = (case field k ps of None \<Rightarrow> Inr () | Some v \<Rightarrow> map_sum id (\<lambda>_. ()) (f v))"

definition transcript_event :: "unidb \<Rightarrow> ustring option \<Rightarrow> wire_object \<Rightarrow> projection \<Rightarrow> handled" where
  "transcript_event uc segment ps pj =
     checked pj (segment_of uc segment) (\<lambda>_.
     checked pj (opt_field ''revision'' (wire_int 1) ps) (\<lambda>_.
     checked pj (opt_field ''text'' (wire_text uc 24000 True) ps) (\<lambda>_.
     checked pj (opt_field ''source_state'' (wire_enum [(''provisional'', ()), (''stable'', ())]) ps) (\<lambda>_.
       (Inr True, bump_stat ''ignored_events'' pj)))))"

subsection \<open>One event\<close>

definition translation_kind_of :: "ustring \<Rightarrow> translation_kind option" where
  "translation_kind_of kind = find (\<lambda>k. kind_text k = kind) [PreviewKind, CompletedKind, FailedKind, CancelledKind]"

definition typed_event :: "unidb \<Rightarrow> ustring \<Rightarrow> ustring option \<Rightarrow> wire_object \<Rightarrow> projection \<Rightarrow> handled" where
  "typed_event uc kind segment ps pj =
     (if kind = lit ''transcript.preview'' then preview_event uc ps pj
      else if kind = lit ''caption.results_revised'' then revision_event uc segment ps pj
      else if kind = lit ''caption.source'' then source_event uc segment ps pj
      else if kind = lit ''caption.group_replaced'' then group_event uc segment ps pj
      else case translation_kind_of kind of
        Some k \<Rightarrow> translation_event uc k segment ps pj
      | None \<Rightarrow>
          if kind = lit ''provider.updated'' then provider_event ps pj
          else if kind = lit ''speaker.alias_updated'' then alias_event uc ps pj
          else if kind = lit ''speaker.updated'' then speaker_event uc segment ps pj
          else if kind \<in> {lit ''session.completed'', lit ''session.failed''} then terminal_event uc kind ps pj
          else if kind = lit ''session.started'' then started_event uc ps pj
          else if kind = lit ''transcript.updated'' then transcript_event uc segment ps pj
          else (Inr True, bump_stat ''ignored_events'' pj))"

record gateway_event =
  ge_session :: ustring
  ge_sequence :: int
  ge_kind :: ustring
  ge_segment :: "ustring option"
  ge_data :: wire_object

definition event_segment :: "gateway_event \<Rightarrow> ustring option" where
  "event_segment e = (if ge_segment e = Some [] then None else ge_segment e)"

text \<open>Every error of a payload is a \<open>RemoteCaptionError\<close>, a \<open>ValueError\<close>.\<close>

definition as_caption_error :: "py_error \<Rightarrow> py_error" where
  "as_caption_error e = (case e of ValueError m \<Rightarrow> ValueError m | _ \<Rightarrow> ValueError ''Invalid payload'')"

definition envelope_ok :: "unidb \<Rightarrow> gateway_event \<Rightarrow> projection \<Rightarrow> bool" where
  "envelope_ok uc e pj \<longleftrightarrow> ge_session e = pj_session pj \<and> 1 \<le> ge_sequence e \<and> ge_sequence e \<le> uint64_max
     \<and> bounded_text uc 128 False (ge_kind e)
     \<and> (case ge_segment e of None \<Rightarrow> True | Some s \<Rightarrow> bounded_text uc 512 True s)"

definition event_accepted :: "gateway_event \<Rightarrow> bool \<Rightarrow> projection \<Rightarrow> projection" where
  "event_accepted e ok pj =
     (let counted = bump_stat ''accepted_events'' (pj\<lparr>pj_sequence := ge_sequence e, pj_last_kind := Some (ge_kind e)\<rparr>)
      in if ok then counted else bump_stat ''stale_events'' counted)"

definition apply_event :: "unidb \<Rightarrow> (rat \<Rightarrow> ustring) \<Rightarrow> gateway_event \<Rightarrow> projection \<Rightarrow> handled" where
  "apply_event uc num e pj =
     (if \<not> envelope_ok uc e pj then refuse ''Event belongs to a different caption session'' pj
      else if ge_sequence e \<le> pj_sequence pj then (Inr False, bump_stat ''stale_events'' pj)
      else if pj_terminal pj \<noteq> None then refuse ''Event arrived after the session terminal'' pj
      else if \<not> event_data_ok num (ge_data e) then refuse ''Event data must be bounded finite JSON'' pj
      else case typed_event uc (ge_kind e) (event_segment e) (ge_data e) pj of
          (Inl err, pj') \<Rightarrow> (Inl (as_caption_error err), pj')
        | (Inr ok, pj') \<Rightarrow> (Inr ok, event_accepted e ok pj'))"

text \<open>What the owner of the projection calls: events of the gateway, and the local names, overrides and
  confirmations of held groups, which go to the store directly.\<close>

datatype projection_op =
    GatewayEvent gateway_event
  | LocalAlias ustring ustring
  | LocalSpeaker ustring "ustring option" int
  | LocalGroup ustring int int

fun projection_call :: "unidb \<Rightarrow> (rat \<Rightarrow> ustring) \<Rightarrow> projection_op \<Rightarrow> projection \<Rightarrow> handled" where
  "projection_call uc num (GatewayEvent e) pj = apply_event uc num e pj"
| "projection_call uc num (LocalAlias i n) pj = on_store (set_speaker_alias uc i n) pj"
| "projection_call uc num (LocalSpeaker i s r) pj = on_store (update_speaker uc i s r None True) pj"
| "projection_call uc num (LocalGroup g r limit) pj = on_store (apply_held_group uc g r limit) pj"

definition projection_run :: "unidb \<Rightarrow> (rat \<Rightarrow> ustring) \<Rightarrow> projection_op list \<Rightarrow> projection \<Rightarrow> projection" where
  "projection_run uc num ops pj = fold (\<lambda>op p. snd (projection_call uc num op p)) ops pj"

end
