(* ===== verification/RemoteInv.thy ===== *)
theory RemoteInv
  imports RemoteCaptions CaptionProps
begin

text \<open>
  The invariant of the projection of gateway events: the generation of the projection is the store's, every caption
  the store shows is a valid segment whose revision, track and target are the ones recorded for its source,
  every group is valid, and the recorded sources stay below the limit. Each handler keeps it, lets the captions
  evolve and leaves the projection alone when it raises.
\<close>

subsection \<open>The captions and their recorded sources\<close>

definition captions_mirrored :: "unidb \<Rightarrow> (ustring \<times> source_identity) list \<Rightarrow> caption_store \<Rightarrow> bool" where
  "captions_mirrored uc srcs st \<longleftrightarrow>
     (\<forall>i s. lookup_segment i st = Some s \<longrightarrow> segment_ok uc s \<and> map_of srcs i = Some (identity_of s))
     \<and> (\<forall>gid g. map_of (st_groups st) gid = Some g \<longrightarrow> group_ok uc g)"

lemma mirroredD:
  assumes "captions_mirrored uc srcs st"
  shows "lookup_segment i st = Some s \<Longrightarrow> segment_ok uc s"
    and "lookup_segment i st = Some s \<Longrightarrow> map_of srcs i = Some (identity_of s)"
    and "map_of (st_groups st) gid = Some g \<Longrightarrow> group_ok uc g"
  using assms by (auto simp: captions_mirrored_def)

lemma mirroredI:
  assumes "\<And>i s. lookup_segment i st = Some s \<Longrightarrow> segment_ok uc s \<and> map_of srcs i = Some (identity_of s)"
    and "\<And>gid g. map_of (st_groups st) gid = Some g \<Longrightarrow> group_ok uc g"
  shows "captions_mirrored uc srcs st"
  using assms by (auto simp: captions_mirrored_def)

text \<open>What the projection can see of a store.\<close>

definition same_captions :: "caption_store \<Rightarrow> caption_store \<Rightarrow> bool" where
  "same_captions st st' \<longleftrightarrow> st_segments st' = st_segments st \<and> st_groups st' = st_groups st
     \<and> st_held_children st' = st_held_children st"

lemma lookup_same: "same_captions st st' \<Longrightarrow> lookup_segment i st' = lookup_segment i st"
  by (simp add: same_captions_def lookup_segment_def split: option.splits)

lemma mirrored_same: "same_captions st st' \<Longrightarrow> captions_mirrored uc srcs st' = captions_mirrored uc srcs st"
  by (simp add: captions_mirrored_def lookup_same) (simp add: same_captions_def)

lemma lookup_record [simp]: "lookup_segment i (record_change e p r st) = lookup_segment i st"
  by (rule lookup_same) (simp add: same_captions_def)

lemma mirrored_record [simp]: "captions_mirrored uc srcs (record_change e p r st) = captions_mirrored uc srcs st"
  by (rule mirrored_same) (simp add: same_captions_def)

lemma find_replaced:
  "find (\<lambda>c. cs_id c = i) (map (\<lambda>c. if cs_id c = cs_id s then s else c) cs)
     = (if i = cs_id s then map_option (\<lambda>_. s) (find (\<lambda>c. cs_id c = i) cs) else find (\<lambda>c. cs_id c = i) cs)"
  by (induction cs) auto

lemma put_lookup:
  assumes cur: "lookup_segment (cs_id s) st = Some cur" and put: "put_segment uc s st = Inr st'"
  shows "lookup_segment i st' = (if i = cs_id s then Some s else lookup_segment i st)"
proof (cases "map_of (st_held_children st) (cs_id s)")
  case None
  then have "st' = st\<lparr>st_segments := al_put (cs_id s) s (st_segments st)\<rparr>" using put by (simp add: put_segment_def)
  then show ?thesis using None by (auto simp: lookup_segment_def split: option.splits)
next
  case (Some gid)
  then obtain g where g: "map_of (st_groups st) gid = Some g"
    and f: "find (\<lambda>c. cs_id c = cs_id s) (cg_children g) = Some cur"
    using cur by (auto simp: lookup_segment_def split: option.splits)
  let ?g = "g\<lparr>cg_children := map (\<lambda>c. if cs_id c = cs_id s then s else c) (cg_children g)\<rparr>"
  have st': "st' = st\<lparr>st_groups := al_put gid ?g (st_groups st)\<rparr>"
    using put Some g by (auto simp: put_segment_def build_group_def split: if_splits)
  show ?thesis using Some g f unfolding st' by (auto simp: lookup_segment_def find_replaced split: option.splits)
qed

lemma put_groups_ok:
  assumes "put_segment uc s st = Inr st'" "\<And>gid g. map_of (st_groups st) gid = Some g \<Longrightarrow> group_ok uc g"
    "map_of (st_groups st') gid = Some g"
  shows "group_ok uc g"
  using assms by (auto simp: put_segment_def res_bind_eq_Inr build_group_def split: option.splits if_splits)

lemma mirrored_put:
  assumes "captions_mirrored uc srcs st" "segment_ok uc s" "map_of srcs (cs_id s) = Some (identity_of s)"
    "lookup_segment (cs_id s) st \<noteq> None" "put_segment uc s st = Inr st'"
  shows "captions_mirrored uc srcs st'"
proof (rule mirroredI)
  from assms(4) obtain cur where cur: "lookup_segment (cs_id s) st = Some cur" by blast
  fix i t assume "lookup_segment i st' = Some t"
  with put_lookup [OF cur assms(5), of i] assms(1-3) mirroredD(1,2) [OF assms(1), of i t]
  show "segment_ok uc t \<and> map_of srcs i = Some (identity_of t)" by (auto split: if_splits)
next
  fix gid g assume "map_of (st_groups st') gid = Some g"
  from put_groups_ok [OF assms(5) _ this] mirroredD(3) [OF assms(1)] show "group_ok uc g" by blast
qed

subsection \<open>The operations of the store\<close>

text \<open>The caption of a source is replaced by one of the same identity.\<close>

lemma mirrored_update:
  assumes mir: "captions_mirrored uc srcs st" and inv: "index_inv st" and cur: "lookup_segment i st = Some cur"
    and s: "build_segment uc s0 = Inr s" "cs_id s0 = cs_id cur" "identity_of s0 = identity_of cur"
    and put: "put_segment uc s st = Inr st'"
  shows "captions_mirrored uc srcs st'"
proof -
  have "s = s0" "segment_ok uc s" using s(1) by (auto simp: build_segment_def split: if_splits)
  moreover have "cs_id cur = i" using lookup_id [OF inv cur] .
  ultimately show ?thesis using mirrored_put [OF mir _ _ _ put] mirroredD(2) [OF mir cur] s(2,3) cur by simp
qed

lemma apply_translation_mirrored:
  assumes mir: "captions_mirrored uc srcs st" and inv: "index_inv st"
    and ap: "apply_translation uc i r g x l c st = Inr (ok, st')"
  shows "captions_mirrored uc srcs st'"
proof (cases ok)
  case False
  with ap mir show ?thesis by (auto simp: apply_translation_def Let_def res_bind_eq_Inr split: if_splits option.splits)
next
  case True
  with ap obtain cur t s st1 where cur: "lookup_segment i st = Some cur"
    and s: "build_segment uc (cur\<lparr>cs_translation := Some t\<rparr>) = Inr s" and put: "put_segment uc s st = Inr st1"
    and st': "st' = record_change (if c then ''translation.completed'' else ''translation.preview'')
                            (with_id i (translation_json t)) c st1"
    by (auto simp: apply_translation_def Let_def res_bind_eq_Inr split: if_splits option.splits)
  from mirrored_update [OF mir inv cur s _ _ put] show ?thesis by (simp add: st' identity_of_def)
qed

lemma update_speaker_mirrored:
  assumes mir: "captions_mirrored uc srcs st" and inv: "index_inv st"
    and ap: "update_speaker uc i sp r b m st = Inr (ok, st')"
  shows "captions_mirrored uc srcs st'"
proof (cases ok)
  case False
  with ap mir show ?thesis by (auto simp: update_speaker_def Let_def res_bind_eq_Inr split: if_splits option.splits)
next
  case True
  with ap obtain cur s st1 e p where cur: "lookup_segment i st = Some cur"
    and s: "build_segment uc (cur\<lparr>cs_speaker := sp, cs_speaker_revision := r, cs_speaker_manual := m\<rparr>) = Inr s"
    and put: "put_segment uc s st = Inr st1" and st': "st' = record_change e p True st1"
    by (auto simp: update_speaker_def Let_def res_bind_eq_Inr split: if_splits option.splits)
  from mirrored_update [OF mir inv cur s _ _ put] show ?thesis by (simp add: st' identity_of_def)
qed

lemma revised_segment_mirrored:
  assumes mir: "captions_mirrored uc srcs st" and inv: "index_inv st"
    and r: "revised_segment uc g st c = Inr (Some s)"
  shows "segment_ok uc s \<and> map_of srcs (cs_id s) = Some (identity_of s) \<and> lookup_segment (cs_id s) st \<noteq> None"
proof -
  from r obtain cur t where cur: "lookup_segment (rcn_segment c) st = Some cur"
    and s: "build_segment uc (cur\<lparr>cs_translation := Some t\<rparr>) = Inr s"
    by (auto simp: revised_segment_def Let_def res_bind_eq_Inr split: if_splits option.splits)
  have "s = cur\<lparr>cs_translation := Some t\<rparr>" "segment_ok uc s" using s by (auto simp: build_segment_def split: if_splits)
  with mirroredD(2) [OF mir cur] lookup_id [OF inv cur] cur show ?thesis by (simp add: identity_of_def)
qed

lemma revised_batch_mirrored:
  assumes "captions_mirrored uc srcs st" "index_inv st" "revised_batch uc g st cs = Inr (Some ss)" "s \<in> set ss"
  shows "segment_ok uc s \<and> map_of srcs (cs_id s) = Some (identity_of s) \<and> lookup_segment (cs_id s) st \<noteq> None"
  using assms(3,4)
proof (induction cs arbitrary: ss)
  case (Cons c cs)
  then obtain a rest where a: "revised_segment uc g st c = Inr (Some a)"
    and rest: "revised_batch uc g st cs = Inr (Some rest)" and ss: "ss = a # rest"
    by (auto simp: res_bind_eq_Inr split: option.splits)
  show ?case
  proof (cases "s = a")
    case True
    with revised_segment_mirrored [OF assms(1,2) a] show ?thesis by simp
  next
    case False
    with Cons.prems(2) ss have "s \<in> set rest" by simp
    from Cons.IH [OF rest this] show ?thesis .
  qed
qed simp

lemma put_all_mirrored:
  assumes "captions_mirrored uc srcs st" "put_all uc ss st = Inr st'"
    "\<And>s. s \<in> set ss \<Longrightarrow> segment_ok uc s \<and> map_of srcs (cs_id s) = Some (identity_of s)
        \<and> lookup_segment (cs_id s) st \<noteq> None"
  shows "captions_mirrored uc srcs st'"
  using assms
proof (induction ss arbitrary: st)
  case (Cons a ss)
  from Cons.prems(2) obtain st1 where put: "put_segment uc a st = Inr st1" and rest: "put_all uc ss st1 = Inr st'"
    by (auto simp: res_bind_eq_Inr)
  have a: "segment_ok uc a" "map_of srcs (cs_id a) = Some (identity_of a)" "lookup_segment (cs_id a) st \<noteq> None"
    using Cons.prems(3) [of a] by auto
  obtain cur where cur: "lookup_segment (cs_id a) st = Some cur" using a(3) by blast
  show ?case
  proof (rule Cons.IH [OF mirrored_put [OF Cons.prems(1) a put] rest])
    fix s assume "s \<in> set ss"
    with Cons.prems(3) [of s] put_lookup [OF cur put, of "cs_id s"]
    show "segment_ok uc s \<and> map_of srcs (cs_id s) = Some (identity_of s) \<and> lookup_segment (cs_id s) st1 \<noteq> None"
      by auto
  qed
qed simp

lemma revise_mirrored:
  assumes mir: "captions_mirrored uc srcs st" and inv: "index_inv st"
    and ap: "revise_translations uc cs g st = Inr (ok, st')"
  shows "captions_mirrored uc srcs st'"
proof (cases ok)
  case False
  with ap mir show ?thesis by (auto simp: revise_translations_def res_bind_eq_Inr split: if_splits option.splits)
next
  case True
  with ap obtain ss st1 e p where ss: "revised_batch uc g st cs = Inr (Some ss)" and put: "put_all uc ss st = Inr st1"
    and st': "st' = record_change e p True st1"
    by (auto simp: revise_translations_def res_bind_eq_Inr split: if_splits option.splits)
  from put_all_mirrored [OF mir put revised_batch_mirrored [OF mir inv ss]] show ?thesis by (simp add: st')
qed


lemma upsert_mirrored:
  assumes mir: "captions_mirrored uc srcs st" and ok: "segment_ok uc s" and up: "upsert_source uc s st = Inr (done, st')"
  shows "captions_mirrored uc (if done then al_put (cs_id s) (identity_of s) srcs else srcs) st'"
proof (cases "done")
  case False
  have "st' = st"
    using up False by (auto simp: upsert_source_def insert_source_def res_bind_eq_Inr split: if_splits option.splits)
  with False mir show ?thesis by simp
next
  case True
  have "\<exists>s'. segment_ok uc s' \<and> cs_id s' = cs_id s \<and> identity_of s' = identity_of s
      \<and> insert_source s' st = Inr (True, st')"
  proof (cases "map_of (st_segments st) (cs_id s)")
    case None
    with up True ok show ?thesis by (auto simp: upsert_source_def split: if_splits)
  next
    case (Some cur)
    with up True have "insert_source (adopt_annotations cur s) st = Inr (True, st')"
      "segment_ok uc (adopt_annotations cur s)"
      by (auto simp: upsert_source_def res_bind_eq_Inr build_segment_def split: if_splits)
    then show ?thesis by (intro exI [of _ "adopt_annotations cur s"]) (simp add: adopt_annotations_def identity_of_def)
  qed
  then obtain s' where s': "segment_ok uc s'" "cs_id s' = cs_id s" "identity_of s' = identity_of s"
    and ins: "insert_source s' st = Inr (True, st')" by blast
  from ins have free: "map_of (st_held_children st) (cs_id s) = None"
    and st': "st' = record_change ''transcript.updated'' (segment_json s') True
      (st\<lparr>st_segments := al_put (cs_id s) s' (st_segments st)\<rparr>)"
    using s'(2) by (simp_all add: insert_source_def split: if_splits)
  have look: "lookup_segment i st' = (if i = cs_id s then Some s' else lookup_segment i st)" for i
    using free by (auto simp: st' lookup_segment_def split: option.splits)
  have "captions_mirrored uc (al_put (cs_id s) (identity_of s) srcs) st'"
  proof (rule mirroredI)
    fix i t assume "lookup_segment i st' = Some t"
    with look [of i] mirroredD(1,2) [OF mir, of i t] s'
    show "segment_ok uc t \<and> map_of (al_put (cs_id s) (identity_of s) srcs) i = Some (identity_of t)"
      by (auto split: if_splits)
  next
    fix gid g assume "map_of (st_groups st') gid = Some g"
    then show "group_ok uc g" using mirroredD(3) [OF mir] by (simp add: st')
  qed
  with True show ?thesis by simp
qed

text \<open>Committing a group: its children join the captions, old held children leave, parents get tombstones.\<close>

lemma lookup_regrouped:
  assumes inv: "index_inv st" and look: "lookup_segment i (regrouped g st) = Some s"
  shows "lookup_segment i st = Some s"
proof -
  have held: "map_of (st_held_children (regrouped g st)) i
      = (if map_of (st_held_children st) i = Some (cg_id g) then None else map_of (st_held_children st) i)"
    by (simp add: regrouped_def Let_def release_children [OF inv])
  show ?thesis
  proof (cases "map_of (st_held_children st) i")
    case None
    with look held show ?thesis by (simp add: lookup_segment_def)
  next
    case (Some k)
    show ?thesis
    proof (cases "k = cg_id g")
      case True
      with look held Some index_held [OF inv Some] show ?thesis by (simp add: lookup_segment_def)
    next
      case False
      with look held Some show ?thesis by (simp add: lookup_segment_def)
    qed
  qed
qed

lemma tombstones_ok: "parent_tombstones uc g st ps = Inr ts \<Longrightarrow> s \<in> set ts \<Longrightarrow> segment_ok uc s"
  by (induction ps arbitrary: ts) (auto simp: res_bind_eq_Inr build_segment_def split: option.splits if_splits)

lemma held_lookup:
  assumes g: "map_of (st_groups st) (cg_id g) = Some g" and free: "\<And>i. lookup_segment i st = Some s \<Longrightarrow> P i s"
    and kids: "\<And>c. c \<in> set (cg_children g) \<Longrightarrow> P (cs_id c) c"
    and look: "lookup_segment i (st\<lparr>st_held := h, st_held_children :=
        fold (\<lambda>c m. al_put (cs_id c) (cg_id g) m) (cg_children g) (st_held_children st)\<rparr>) = Some s"
  shows "P i s"
proof (cases "i \<in> cs_id ` set (cg_children g)")
  case True
  with look g have "find (\<lambda>c. cs_id c = i) (cg_children g) = Some s" by (simp add: lookup_segment_def held_index_fold)
  then have "s \<in> set (cg_children g)" "cs_id s = i" by (auto simp: find_Some_iff)
  with kids show ?thesis by blast
next
  case False
  with look have "lookup_segment i st = Some s"
    by (cases "map_of (st_held_children st) i") (simp_all add: lookup_segment_def held_index_fold)
  with free show ?thesis by blast
qed

lemma applied_lookup:
  assumes free: "\<And>i s. lookup_segment i st = Some s \<Longrightarrow> P i s" and new: "\<And>s. s \<in> set ss \<Longrightarrow> P (cs_id s) s"
    and look: "lookup_segment i (st\<lparr>st_segments := put_plain ss (st_segments st)\<rparr>) = Some s"
  shows "P i s"
proof (cases "map_of (st_held_children st) i")
  case (Some k)
  with look free show ?thesis by (simp add: lookup_segment_def)
next
  case None
  with look have "map_of (put_plain ss (st_segments st)) i = Some s" by (simp add: lookup_segment_def)
  from put_plain_cases [OF this] show ?thesis
  proof (elim disjE conjE)
    assume "s \<in> set ss" "cs_id s = i" with new show ?thesis by blast
  next
    assume "map_of (st_segments st) i = Some s"
    with None free show ?thesis by (simp add: lookup_segment_def)
  qed
qed

lemma commit_mirrored:
  assumes inv: "index_inv st" and mir: "captions_mirrored uc srcs st"
    and val: "validate_group g limit applying st = Inr True" and gok: "group_ok uc g"
    and kids: "\<And>c. c \<in> set (cg_children g) \<Longrightarrow> segment_ok uc c \<and> map_of srcs' (cs_id c) = Some (identity_of c)"
    and others: "\<And>i c. map_of srcs i = Some c \<Longrightarrow> i \<notin> cs_id ` set (cg_children g) \<Longrightarrow> map_of srcs' i = Some c"
    and com: "commit_group uc g state st = Inr st'"
  shows "captions_mirrored uc srcs' st'"
proof (rule mirroredI)
  let ?P = "\<lambda>i s. segment_ok uc s \<and> map_of srcs' i = Some (identity_of s)"
  have fresh: "fresh_children g (regrouped g st)" by (rule validated_regrouped [OF inv val])
  have old: "?P i s" if "lookup_segment i (regrouped g st) = Some s" for i s
  proof -
    from lookup_regrouped [OF inv that] have l: "lookup_segment i st = Some s" .
    have "i \<notin> cs_id ` set (cg_children g)"
      using that fresh by (auto simp: lookup_segment_def fresh_children_def)
    with others [OF mirroredD(2) [OF mir l]] mirroredD(1) [OF mir l] show ?thesis by blast
  qed
  fix i s
  assume look: "lookup_segment i st' = Some s"
  show "?P i s"
  proof (cases state)
    case HeldGroup
    let ?st = "regrouped g st\<lparr>st_held := cg_id g # st_held (regrouped g st),
      st_held_children := fold (\<lambda>c m. al_put (cs_id c) (cg_id g) m) (cg_children g) (st_held_children (regrouped g st))\<rparr>"
    have "st' = record_change ''caption.group_held'' (group_json g) True ?st"
      using com HeldGroup by (simp add: commit_group_def regrouped_def Let_def)
    with look have "lookup_segment i ?st = Some s" by simp
    from held_lookup [of _ g _ ?P, OF _ old kids this] show ?thesis by simp
  next
    case AppliedGroup
    from com AppliedGroup obtain ts where ts: "parent_tombstones uc g st (cg_parents g) = Inr ts"
      by (cases "parent_tombstones uc g st (cg_parents g)") (simp_all add: commit_group_def)
    let ?st = "regrouped g st\<lparr>st_segments := put_plain (cg_children g @ ts) (st_segments (regrouped g st))\<rparr>"
    have "st' = record_change ''caption.group_replaced'' (group_json g) True ?st"
      using com AppliedGroup ts by (simp add: commit_group_def regrouped_def Let_def)
    with look have l: "lookup_segment i ?st = Some s" by simp
    have stone: "?P (cs_id t) t" if t: "t \<in> set ts" for t
    proof -
      from bspec [OF conjunct2 [OF tombstones_from_parents [OF ts]] t] obtain p :: parent_ref and cur
        where cur: "map_of (st_segments st) (pr_segment p) = Some cur"
        and tc: "t = cur\<lparr>cs_superseded_by := child_ids_of (pr_segment p) g\<rparr>" by blast
      have id: "cs_id t = pr_segment p" using index_seg [OF inv cur] by (simp add: tc)
      have "map_of (st_held_children (regrouped g st)) (pr_segment p) = None"
        using index_held [OF regrouped_inv(1) [OF inv, of g], of "pr_segment p"] cur
        by (cases "map_of (st_held_children (regrouped g st)) (pr_segment p)") auto
      then have "lookup_segment (pr_segment p) (regrouped g st) = Some cur" using cur by (simp add: lookup_segment_def)
      from old [OF this] tombstones_ok [OF ts t] show ?thesis by (simp add: id) (simp add: tc identity_of_def)
    qed
    have new: "?P (cs_id t) t" if "t \<in> set (cg_children g @ ts)" for t
      using that kids stone by auto
    from applied_lookup [of _ ?P, OF old new l] show ?thesis .
  qed
next
  fix k h assume "map_of (st_groups st') k = Some h"
  moreover have "map_of (st_groups st') = (map_of (st_groups st))(cg_id g \<mapsto> g)"
    using com by (cases state; cases "parent_tombstones uc g st (cg_parents g)") (auto simp: commit_group_def Let_def)
  ultimately show "group_ok uc h" using gok mirroredD(3) [OF mir, of k h] by (auto split: if_splits)
qed

end
