(* ===== verification/RemoteProps.thy ===== *)
theory RemoteProps
  imports RemoteInv
begin

text \<open>
  Runs of the projection of gateway events and its properties. \<open>proj_inv\<close> is the invariant, \<open>proj_step\<close> what every
  call keeps, \<open>sound_answer\<close> the contract of a handler: both, and nothing changes when it raises.
\<close>

subsection \<open>Generations and groups\<close>

lemma put_segment_generation: "put_segment uc s st = Inr st' \<Longrightarrow> st_generation st' = st_generation st"
  by (auto simp: put_segment_def res_bind_eq_Inr split: option.splits)

lemma put_all_generation: "put_all uc ss st = Inr st' \<Longrightarrow> st_generation st' = st_generation st"
  by (induction ss arbitrary: st) (auto simp: res_bind_eq_Inr dest: put_segment_generation)

lemma commit_group_generation: "commit_group uc g state st = Inr st' \<Longrightarrow> st_generation st' = st_generation st"
  by (cases state) (auto simp: commit_group_def Let_def res_bind_eq_Inr)

lemma operation_generation:
  "upsert_source uc s st = Inr (ok, st') \<Longrightarrow> st_generation st' = st_generation st"
  "apply_translation uc i r g x l c st = Inr (ok, st') \<Longrightarrow> st_generation st' = st_generation st"
  "update_speaker uc i sp r b m st = Inr (ok, st') \<Longrightarrow> st_generation st' = st_generation st"
  "replace_group uc gr limit m st = Inr (answer, st') \<Longrightarrow> st_generation st' = st_generation st"
  "apply_held_group uc i r limit st = Inr (ok, st') \<Longrightarrow> st_generation st' = st_generation st"
  "set_speaker_alias uc speaker n st = Inr (ok, st') \<Longrightarrow> st_generation st' = st_generation st"
  by (auto simp: upsert_source_def insert_source_def apply_translation_def update_speaker_def
      replace_group_def apply_held_group_def set_speaker_alias_def res_bind_eq_Inr Let_def
      dest: put_segment_generation commit_group_generation
      split: if_splits option.splits)

lemma revise_generation:
  assumes "revise_translations uc cs g st = Inr (ok, st')"
  shows "st_generation st' = st_generation st"
proof (cases ok)
  case True
  with assms obtain ss st1 e p where "put_all uc ss st = Inr st1" "st' = record_change e p True st1"
    by (auto simp: revise_translations_def res_bind_eq_Inr split: if_splits option.splits)
  with put_all_generation show ?thesis by simp
qed (use assms in \<open>auto simp: revise_translations_def res_bind_eq_Inr split: if_splits option.splits\<close>)

lemma replace_group_mirrored:
  assumes inv: "index_inv st" and mir: "captions_mirrored uc srcs st" and gok: "group_ok uc g"
    and kids: "\<And>c. c \<in> set (cg_children g) \<Longrightarrow> segment_ok uc c \<and> map_of srcs' (cs_id c) = Some (identity_of c)"
    and others: "\<And>i c. map_of srcs i = Some c \<Longrightarrow> i \<notin> cs_id ` set (cg_children g) \<Longrightarrow> map_of srcs' i = Some c"
    and ap: "replace_group uc g limit m st = Inr (answer, st')"
  shows "if answer = GroupStale then st' = st else captions_mirrored uc srcs' st'"
proof -
  from ap obtain ok where val: "validate_group g limit False st = Inr ok"
    by (auto simp: replace_group_def res_bind_eq_Inr)
  show ?thesis
  proof (cases ok)
    case False
    with ap val show ?thesis by (simp add: replace_group_def)
  next
    case True
    with ap val obtain state where com: "commit_group uc g state st = Inr st'" and "answer \<noteq> GroupStale"
      by (auto simp: replace_group_def Let_def res_bind_eq_Inr split: if_splits)
    from val True have "validate_group g limit False st = Inr True" by simp
    from commit_mirrored [OF inv mir this gok kids others com] \<open>answer \<noteq> GroupStale\<close> show ?thesis by simp
  qed
qed

lemma find_distinct: "distinct (map f cs) \<Longrightarrow> c \<in> set cs \<Longrightarrow> find (\<lambda>d. f d = f c) cs = Some c"
  by (induction cs) force+

lemma held_child_lookup:
  assumes inv: "index_inv st" and ok: "group_ok uc g" and h: "cg_id g \<in> set (st_held st)"
    and g: "map_of (st_groups st) (cg_id g) = Some g" and c: "c \<in> set (cg_children g)"
  shows "lookup_segment (cs_id c) st = Some c"
  using index_groups [OF inv h] g c find_distinct [OF group_ok_shape(1) [OF ok] c]
  by (auto simp: lookup_segment_def)

lemma apply_held_mirrored:
  assumes inv: "index_inv st" and mir: "captions_mirrored uc srcs st"
    and ap: "apply_held_group uc gid r limit st = Inr (ok, st')"
  shows "captions_mirrored uc srcs st'"
proof (cases "st' = st")
  case True
  with mir show ?thesis by simp
next
  case False
  with ap obtain g where h: "gid \<in> set (st_held st)" and g: "map_of (st_groups st) gid = Some g"
    and val: "validate_group g limit True st = Inr True" and com: "commit_group uc g AppliedGroup st = Inr st'"
    by (auto simp: apply_held_group_def res_bind_eq_Inr split: if_splits option.splits)
  have id: "cg_id g = gid" by (rule index_gid [OF inv g])
  have kid: "segment_ok uc c \<and> map_of srcs (cs_id c) = Some (identity_of c)" if "c \<in> set (cg_children g)" for c
    using held_child_lookup [OF inv mirroredD(3) [OF mir g] _ _ that] mirroredD(1,2) [OF mir] h g id by auto
  show ?thesis by (rule commit_mirrored [OF inv mir val mirroredD(3) [OF mir g] kid _ com])
qed

subsection \<open>The invariant of the projection\<close>

definition proj_inv :: "unidb \<Rightarrow> projection \<Rightarrow> bool" where
  "proj_inv uc pj \<longleftrightarrow> store_inv (pj_store pj) \<and> pj_generation pj = st_generation (pj_store pj)
     \<and> captions_mirrored uc (pj_sources pj) (pj_store pj) \<and> st_changes (pj_store pj) = []
     \<and> distinct (map fst (pj_sources pj)) \<and> int (length (pj_sources pj)) \<le> pj_limit pj
     \<and> distinct (map fst (pj_previews pj)) \<and> length (pj_previews pj) \<le> 256"

definition proj_step :: "projection \<Rightarrow> projection \<Rightarrow> bool" where
  "proj_step pj pj' \<longleftrightarrow> store_evolves (pj_store pj) (pj_store pj') \<and> pj_session pj' = pj_session pj
     \<and> pj_limit pj' = pj_limit pj \<and> pj_sequence pj \<le> pj_sequence pj'
     \<and> (pj_terminal pj \<noteq> None \<longrightarrow> pj_terminal pj' = pj_terminal pj)
     \<and> set (map fst (pj_sources pj)) \<subseteq> set (map fst (pj_sources pj')) \<and> pj_frontier pj \<le> pj_frontier pj'"

lemma proj_step_refl: "proj_step pj pj"
  by (simp add: proj_step_def store_evolves_refl)

lemma proj_step_trans: "proj_step a b \<Longrightarrow> proj_step b c \<Longrightarrow> proj_step a c"
  unfolding proj_step_def by (auto intro: store_evolves_trans)

definition sound_answer :: "unidb \<Rightarrow> projection \<Rightarrow> 'a res \<times> projection \<Rightarrow> bool" where
  "sound_answer uc pj h \<longleftrightarrow> proj_inv uc (snd h) \<and> proj_step pj (snd h) \<and> (isl (fst h) \<longrightarrow> snd h = pj)"

lemma sound_same: "proj_inv uc pj \<Longrightarrow> sound_answer uc pj (r, pj)"
  by (simp add: sound_answer_def proj_step_refl)

lemma sound_refuse [simp]: "proj_inv uc pj \<Longrightarrow> sound_answer uc pj (refuse message pj)"
  by (simp add: refuse_def sound_same)

lemma sound_checked:
  "proj_inv uc pj \<Longrightarrow> (\<And>x. r = Inr x \<Longrightarrow> sound_answer uc pj (f x)) \<Longrightarrow> sound_answer uc pj (checked pj r f)"
  by (cases r) (simp_all add: checked_def sound_same)

text \<open>The fields the invariant and the step speak about; statistics and statuses are not among them.\<close>

definition same_view :: "projection \<Rightarrow> projection \<Rightarrow> bool" where
  "same_view pj pj' \<longleftrightarrow> pj_store pj' = pj_store pj \<and> pj_generation pj' = pj_generation pj
     \<and> pj_sources pj' = pj_sources pj \<and> pj_limit pj' = pj_limit pj \<and> pj_previews pj' = pj_previews pj
     \<and> pj_session pj' = pj_session pj \<and> pj_sequence pj' = pj_sequence pj \<and> pj_terminal pj' = pj_terminal pj
     \<and> pj_frontier pj' = pj_frontier pj"

lemma sound_view:
  "same_view b c \<Longrightarrow> sound_answer uc a (Inr x, b) \<Longrightarrow> sound_answer uc a (Inr y, c)"
  by (simp add: sound_answer_def proj_inv_def proj_step_def same_view_def)

lemma bump_view [simp]: "same_view a (bump_stat k b) = same_view a b"
  by (simp add: same_view_def bump_stat_def)

lemma same_view_refl [simp]: "same_view a a"
  by (simp add: same_view_def)

lemma sound_bump [simp]: "sound_answer uc a (Inr x, bump_stat k b) = sound_answer uc a (Inr x, b)"
  by (simp add: sound_answer_def proj_inv_def proj_step_def bump_stat_def)

lemma sound_status [simp]: "sound_answer uc a (Inr x, b\<lparr>pj_status := s\<rparr>) = sound_answer uc a (Inr x, b)"
  by (simp add: sound_answer_def proj_inv_def proj_step_def)

subsection \<open>Calls of the store\<close>

lemma on_store_Inr:
  "on_store f pj = (Inr a, pj') \<Longrightarrow>
     \<exists>st. f (pj_store pj) = Inr (a, st) \<and> pj' = pj\<lparr>pj_store := st\<lparr>st_changes := st_changes (pj_store pj)\<rparr>\<rparr>"
  by (cases "f (pj_store pj)") (auto simp: on_store_def unjournaled_def)

lemma on_store_Inl: "on_store f pj = (Inl e, pj') \<Longrightarrow> pj' = pj"
  by (cases "f (pj_store pj)") (auto simp: on_store_def unjournaled_def)

lemma unjournaled_good:
  assumes inv: "store_inv st" and g: "good_change st st'"
  shows "good_change st (st'\<lparr>st_changes := st_changes st\<rparr>)"
proof -
  have "st_revision st \<le> st_revision st'" using g by (simp add: good_change_def store_evolves_def)
  then have "journal_inv (st'\<lparr>st_changes := st_changes st\<rparr>)"
    using inv by (fastforce simp: store_inv_def journal_inv_def)
  moreover have "index_inv (st'\<lparr>st_changes := st_changes st\<rparr>)"
    using g by (simp add: good_change_def store_inv_def index_inv_def)
  ultimately show ?thesis using g by (simp add: good_change_def store_inv_def store_evolves_def)
qed

lemma store_updated:
  assumes inv: "proj_inv uc pj" and good: "good_change (pj_store pj) st" and gen: "st_generation st = g"
    and mir: "captions_mirrored uc srcs st" and keys: "distinct (map fst srcs)"
    and limit: "int (length srcs) \<le> pj_limit pj" and grow: "set (map fst (pj_sources pj)) \<subseteq> set (map fst srcs)"
  shows "sound_answer uc pj (Inr x, pj\<lparr>pj_store := st\<lparr>st_changes := st_changes (pj_store pj)\<rparr>,
      pj_generation := g, pj_sources := srcs\<rparr>)"
proof -
  have "store_inv (pj_store pj)" using inv by (simp add: proj_inv_def)
  from unjournaled_good [OF this good] have "good_change (pj_store pj) (st\<lparr>st_changes := st_changes (pj_store pj)\<rparr>)" .
  moreover have "captions_mirrored uc srcs (st\<lparr>st_changes := st_changes (pj_store pj)\<rparr>)"
    using mir mirrored_same [of st "st\<lparr>st_changes := st_changes (pj_store pj)\<rparr>"] by (simp add: same_captions_def)
  ultimately show ?thesis
    using inv gen keys limit grow by (simp add: sound_answer_def proj_inv_def proj_step_def good_change_def)
qed

lemma on_store_sound:
  assumes inv: "proj_inv uc pj"
    and f: "\<And>a st. f (pj_store pj) = Inr (a, st) \<Longrightarrow> good_change (pj_store pj) st
        \<and> captions_mirrored uc (pj_sources pj) st \<and> st_generation st = st_generation (pj_store pj)"
  shows "sound_answer uc pj (on_store f pj)"
proof (cases "on_store f pj")
  case (Pair r pj')
  show ?thesis
  proof (cases r)
    case (Inl e)
    with on_store_Inl [of f pj e pj'] Pair inv show ?thesis by (simp add: sound_same)
  next
    case (Inr a)
    from on_store_Inr [OF Pair [unfolded Inr]] obtain st where st: "f (pj_store pj) = Inr (a, st)"
      and pj': "pj' = pj\<lparr>pj_store := st\<lparr>st_changes := st_changes (pj_store pj)\<rparr>\<rparr>" by blast
    have same: "pj\<lparr>pj_store := st\<lparr>st_changes := st_changes (pj_store pj)\<rparr>, pj_generation := pj_generation pj,
        pj_sources := pj_sources pj\<rparr> = pj'" by (simp add: pj')
    have inv': "pj_generation pj = st_generation (pj_store pj)" "distinct (map fst (pj_sources pj))"
      "int (length (pj_sources pj)) \<le> pj_limit pj" using inv by (simp_all add: proj_inv_def)
    note good = f [OF st]
    have "st_generation st = pj_generation pj" using good inv'(1) by simp
    from store_updated [OF inv conjunct1 [OF good] this conjunct1 [OF conjunct2 [OF good]] inv'(2,3) subset_refl, of a]
    show ?thesis unfolding same Pair Inr .
  qed
qed

subsection \<open>Parsed values\<close>

lemma res_bind_InrE: "res_bind m f = Inr y \<Longrightarrow> (\<And>x. m = Inr x \<Longrightarrow> f x = Inr y \<Longrightarrow> P) \<Longrightarrow> P"
  by (auto simp: res_bind_eq_Inr)

lemma res_map_values: "res_map f xs = Inr ys \<Longrightarrow> y \<in> set ys \<Longrightarrow> \<exists>x. f x = Inr y"
  by (induction xs arbitrary: ys) (auto simp: res_bind_eq_Inr)

lemma build_segment_ok: "build_segment uc s = Inr s' \<Longrightarrow> segment_ok uc s'"
  by (simp add: build_segment_def split: if_splits)

lemma wire_child_ok:
  assumes "wire_child uc v = Inr c"
  shows "segment_ok uc c"
proof (cases v)
  case (JObj ps)
  from assms have "keys_within segment_fields ps" by (auto simp: wire_child_def JObj split: if_splits)
  with assms show ?thesis
    unfolding wire_child_def JObj json.case not_not simp_thms if_True if_False
    by simp (elim res_bind_InrE, erule build_segment_ok)
qed (use assms in \<open>simp_all add: wire_child_def\<close>)

lemma parse_caption_group_ok:
  assumes "parse_caption_group uc ps = Inr g"
  shows "group_ok uc g \<and> (\<forall>c \<in> set (cg_children g). segment_ok uc c)"
proof -
  from assms obtain cv children g0 where kids: "res_map (wire_child uc) cv = Inr children"
    and g: "build_group uc g0 = Inr g" "cg_children g0 = children"
    unfolding parse_caption_group_def
    by (auto simp: split: if_splits elim!: res_bind_InrE)
  have "g = g0" "group_ok uc g" using g(1) by (auto simp: build_group_def split: if_splits)
  with g(2) res_map_values [OF kids] wire_child_ok show ?thesis by blast
qed

lemma parse_source_ok:
  assumes "parse_source uc segment ps pj = Inr s"
  shows "segment_ok uc s"
  using assms unfolding parse_source_def
  by (auto split: if_splits elim!: res_bind_InrE dest!: build_segment_ok)

lemma bounded_text_ok: "bounded_text uc n False s \<Longrightarrow> text_ok uc s"
  by (simp add: bounded_text_def text_ok_def)

lemma wire_text_ok: "wire_text uc n b v = Inr s \<Longrightarrow> bounded_text uc n b s"
  by (auto simp: wire_text_def split: json.splits if_splits)

lemma wire_int_least: "wire_int m v = Inr n \<Longrightarrow> m \<le> n"
  by (auto simp: wire_int_def split: json.splits if_splits)

lemma parse_result_ok:
  assumes "parse_result uc k segment ps pj = Inr v"
  shows "1 \<le> tv_revision v \<and> 0 \<le> tv_generation v \<and> text_ok uc (tv_target v)
    \<and> bounded_text uc 24000 (k \<noteq> CompletedKind) (tv_text v)"
  using assms unfolding parse_result_def Let_def
  by (auto split: if_splits elim!: res_bind_InrE dest!: wire_int_least wire_text_ok simp: bounded_text_ok)

subsection \<open>Sources and groups\<close>

lemma inv_parts:
  assumes "proj_inv uc pj"
  shows "store_inv (pj_store pj)" "index_inv (pj_store pj)" "captions_mirrored uc (pj_sources pj) (pj_store pj)"
    "pj_generation pj = st_generation (pj_store pj)" "distinct (map fst (pj_sources pj))"
    "int (length (pj_sources pj)) \<le> pj_limit pj"
  using assms by (simp_all add: proj_inv_def store_inv_def)

lemma record_source_sound:
  assumes inv: "proj_inv uc pj" and ok: "segment_ok uc s"
    and room: "map_of (pj_sources pj) (cs_id s) = None \<longrightarrow> int (length (pj_sources pj)) < pj_limit pj"
  shows "sound_answer uc pj (record_source uc s pj)"
proof (cases "on_store (upsert_source uc s) pj")
  case (Pair r pj')
  note parts = inv_parts [OF inv]
  show ?thesis
  proof (cases r)
    case (Inl e)
    with on_store_Inl [OF Pair [unfolded Inl]] Pair inv show ?thesis by (simp add: record_source_def sound_same)
  next
    case (Inr new)
    from on_store_Inr [OF Pair [unfolded Inr]] obtain st where up: "upsert_source uc s (pj_store pj) = Inr (new, st)"
      and pj': "pj' = pj\<lparr>pj_store := st\<lparr>st_changes := st_changes (pj_store pj)\<rparr>\<rparr>" by blast
    note good = upsert_source_good [OF parts(1) up]
    have gen: "st_generation st = pj_generation pj" using operation_generation(1) [OF up] parts(4) by simp
    note mir = upsert_mirrored [OF parts(3) ok up]
    show ?thesis
    proof (cases new)
      case False
      have "pj' = pj\<lparr>pj_store := st\<lparr>st_changes := st_changes (pj_store pj)\<rparr>, pj_generation := pj_generation pj,
          pj_sources := pj_sources pj\<rparr>" by (simp add: pj')
      with store_updated [OF inv good gen _ parts(5,6) subset_refl, of False] mir False Inr Pair
      show ?thesis by (simp add: record_source_def)
    next
      case True
      let ?srcs = "al_put (cs_id s) (identity_of s) (pj_sources pj)"
      have len: "int (length ?srcs) \<le> pj_limit pj"
        using room parts(6) length_al_put_le [of "cs_id s" "identity_of s" "pj_sources pj"] by (auto split: if_splits)
      have keys: "distinct (map fst ?srcs)" using distinct_al_put [OF parts(5)] by blast
      have grow: "set (map fst (pj_sources pj)) \<subseteq> set (map fst ?srcs)" by (simp add: subset_insertI del: set_map)
      have "captions_mirrored uc ?srcs st" using mir True by simp
      from store_updated [OF inv good gen this keys len grow, of True]
      have "sound_answer uc pj (Inr True, bump_stat ''source_updates''
          (pj\<lparr>pj_store := st\<lparr>st_changes := st_changes (pj_store pj)\<rparr>, pj_generation := pj_generation pj,
             pj_sources := ?srcs\<rparr>\<lparr>pj_status := al_del (cs_id s) (pj_status pj)\<rparr>))"
        by (simp only: sound_bump sound_status)
      then show ?thesis using True Inr Pair by (simp add: record_source_def pj')
    qed
  qed
qed

lemma source_event_sound:
  assumes inv: "proj_inv uc pj"
  shows "sound_answer uc pj (source_event uc segment ps pj)"
  unfolding source_event_def
proof (rule sound_checked [OF inv])
  fix s assume s: "parse_source uc segment ps pj = Inr s"
  show "sound_answer uc pj (case map_of (pj_sources pj) (cs_id s) of
      None \<Rightarrow> if pj_limit pj \<le> int (length (pj_sources pj))
          then refuse ''Caption segment limit reached; source was not stored'' pj else record_source uc s pj
    | Some c \<Rightarrow> if cs_revision s \<le> si_revision c then (Inr False, pj)
        else if si_track c \<noteq> cs_track s then refuse ''Source segment cannot move to another track'' pj
             else record_source uc s pj)"
    using inv record_source_sound [OF inv parse_source_ok [OF s]] sound_same [OF inv]
    by (auto split: option.split)
qed

definition child_sources :: "caption_segment list \<Rightarrow> (ustring \<times> source_identity) list \<Rightarrow> (ustring \<times> source_identity) list" where
  "child_sources cs m = fold (\<lambda>c m. al_put (cs_id c) (identity_of c) m) cs m"

lemma child_sources_facts:
  "distinct (map fst m) \<Longrightarrow> distinct (map fst (child_sources cs m))"
  "length (child_sources cs m) \<le> length m + length cs"
  "set (map fst m) \<subseteq> set (map fst (child_sources cs m))"
  "i \<notin> cs_id ` set cs \<Longrightarrow> map_of (child_sources cs m) i = map_of m i"
proof -
  show "distinct (map fst m) \<Longrightarrow> distinct (map fst (child_sources cs m))"
    unfolding child_sources_def by (induction cs arbitrary: m) (simp_all add: distinct_al_put)
  show "length (child_sources cs m) \<le> length m + length cs"
    unfolding child_sources_def
  proof (induction cs arbitrary: m)
    case (Cons c cs)
    from Cons.IH [of "al_put (cs_id c) (identity_of c) m"] length_al_put_new [of "cs_id c" "identity_of c" m]
    show ?case by simp
  qed simp
  show "set (map fst m) \<subseteq> set (map fst (child_sources cs m))"
    unfolding child_sources_def
  proof (induction cs arbitrary: m)
    case (Cons c cs)
    from Cons.IH [of "al_put (cs_id c) (identity_of c) m"] show ?case by (auto simp del: set_map)
  qed simp
  show "i \<notin> cs_id ` set cs \<Longrightarrow> map_of (child_sources cs m) i = map_of m i"
    unfolding child_sources_def by (induction cs arbitrary: m) auto
qed

lemma child_sources_member:
  "distinct (map cs_id cs) \<Longrightarrow> c \<in> set cs \<Longrightarrow> map_of (child_sources cs m) (cs_id c) = Some (identity_of c)"
proof (induction cs arbitrary: m)
  case (Cons a cs)
  have step: "child_sources (a # cs) m = child_sources cs (al_put (cs_id a) (identity_of a) m)"
    by (simp add: child_sources_def)
  show ?case
  proof (cases "c = a")
    case True
    with Cons.prems(1) child_sources_facts(4) [of "cs_id a" cs] show ?thesis by (simp add: step)
  next
    case False
    with Cons show ?thesis by (simp add: step)
  qed
qed simp

lemma fold_add_child:
  "\<exists>status. fold add_child cs pj = pj\<lparr>pj_sources := child_sources cs (pj_sources pj), pj_status := status\<rparr>"
proof (induction cs arbitrary: pj)
  case Nil
  show ?case by (intro exI [of _ "pj_status pj"]) (simp add: child_sources_def)
next
  case (Cons c cs)
  from Cons.IH [of "add_child c pj"] show ?case by (auto simp: add_child_def child_sources_def)
qed

lemma group_event_sound:
  assumes inv: "proj_inv uc pj"
  shows "sound_answer uc pj (group_event uc segment ps pj)"
proof -
  note parts = inv_parts [OF inv]
  have admitted: "sound_answer uc pj (case on_store (replace_group uc g (pj_limit pj) False) pj of
            (Inl e, pj') \<Rightarrow> (Inl e, pj')
          | (Inr GroupStale, pj') \<Rightarrow> (Inr False, pj')
          | (Inr status, pj') \<Rightarrow>
              let added = bump_stat ''group_updates'' (fold add_child (cg_children g) pj')
              in (Inr True, if status = GroupHeld then bump_stat ''groups_held'' added else added))"
    if g: "parse_caption_group uc ps = Inr g"
      and room: "int (length (pj_sources pj) + length (remdups (map cs_id (cg_children g)))) \<le> pj_limit pj" for g
  proof (cases "on_store (replace_group uc g (pj_limit pj) False) pj")
    case (Pair r pj')
    note gok = parse_caption_group_ok [OF g]
    note ids = group_ok_shape(1) [OF conjunct1 [OF gok]]
    show ?thesis
    proof (cases r)
      case (Inl e)
      with on_store_Inl [OF Pair [unfolded Inl]] Pair inv show ?thesis by (simp add: sound_same)
    next
      case (Inr answer)
      from on_store_Inr [OF Pair [unfolded Inr]] obtain st
        where rg: "replace_group uc g (pj_limit pj) False (pj_store pj) = Inr (answer, st)"
          and pj': "pj' = pj\<lparr>pj_store := st\<lparr>st_changes := st_changes (pj_store pj)\<rparr>\<rparr>" by blast
      let ?srcs = "child_sources (cg_children g) (pj_sources pj)"
      have mir: "if answer = GroupStale then st = pj_store pj else captions_mirrored uc ?srcs st"
        by (rule replace_group_mirrored [OF parts(2,3) conjunct1 [OF gok] _ _ rg])
          (use gok child_sources_member [OF ids] child_sources_facts(4) in auto)
      show ?thesis
      proof (cases "answer = GroupStale")
        case True
        with mir have "pj' = pj" by (simp add: pj')
        with True Pair Inr inv show ?thesis by (simp add: sound_same)
      next
        case False
        obtain status where added: "fold add_child (cg_children g) pj'
            = pj'\<lparr>pj_sources := child_sources (cg_children g) (pj_sources pj'), pj_status := status\<rparr>"
          using fold_add_child by blast
        have len: "int (length ?srcs) \<le> pj_limit pj"
          using room child_sources_facts(2) [of "cg_children g" "pj_sources pj"] distinct_remdups_id [OF ids] by simp
        have gen: "st_generation st = pj_generation pj" using operation_generation(4) [OF rg] parts(4) by simp
        have m: "captions_mirrored uc ?srcs st" using mir False by simp
        have "sound_answer uc pj (Inr True, pj\<lparr>pj_store := st\<lparr>st_changes := st_changes (pj_store pj)\<rparr>,
            pj_generation := pj_generation pj, pj_sources := ?srcs\<rparr>\<lparr>pj_status := status\<rparr>)"
          unfolding sound_status
          by (rule store_updated [OF inv replace_group_good [OF parts(1) rg] gen m
              child_sources_facts(1) [OF parts(5)] len child_sources_facts(3)])
        moreover have "pj\<lparr>pj_store := st\<lparr>st_changes := st_changes (pj_store pj)\<rparr>,
            pj_generation := pj_generation pj, pj_sources := ?srcs\<rparr>\<lparr>pj_status := status\<rparr> = fold add_child (cg_children g) pj'"
          by (subst added) (simp add: pj')
        ultimately have s: "sound_answer uc pj (Inr True, fold add_child (cg_children g) pj')" by (simp only:)
        show ?thesis using s False Pair Inr by (cases answer) (simp_all add: Let_def)
      qed
    qed
  qed
  show ?thesis
    unfolding group_event_def
    using sound_refuse [OF inv] sound_checked [OF inv] sound_same [OF inv] admitted
    by (auto intro!: sound_checked [OF inv] simp: not_less split del: if_split split: if_split)
qed

subsection \<open>Translations\<close>

lemma sound_trans: "sound_answer uc a (Inr x, b) \<Longrightarrow> sound_answer uc b (Inr y, c) \<Longrightarrow> sound_answer uc a (Inr z, c)"
  unfolding sound_answer_def by (auto intro: proj_step_trans)

lemma advance_generation_answer:
  assumes inv: "proj_inv uc pj" and g: "0 \<le> g"
  shows "\<exists>pj'. advance_generation g pj = (Inr True, pj') \<and> sound_answer uc pj (Inr True, pj')
    \<and> same_captions (pj_store pj) (pj_store pj') \<and> pj_sources pj' = pj_sources pj \<and> pj_status pj' = pj_status pj"
proof (cases "g \<le> pj_generation pj")
  case True
  with inv show ?thesis by (simp add: advance_generation_def sound_same same_captions_def)
next
  case False
  note parts = inv_parts [OF inv]
  let ?st = "record_change ''provider.updated'' (JObj [(lit ''provider_generation'', j_int g)]) True
      (pj_store pj\<lparr>st_generation := g\<rparr>)"
  have set: "set_provider_generation g (pj_store pj) = Inr (True, ?st)"
    using False g parts(4) by (simp add: set_provider_generation_def)
  let ?pj = "pj\<lparr>pj_store := ?st\<lparr>st_changes := st_changes (pj_store pj)\<rparr>, pj_generation := g\<rparr>"
  have adv: "advance_generation g pj = (Inr True, ?pj)"
    using False set by (simp add: advance_generation_def on_store_def unjournaled_def)
  have "same_captions (pj_store pj) ?st" by (simp add: same_captions_def)
  then have mir: "captions_mirrored uc (pj_sources pj) ?st" using mirrored_same parts(3) by blast
  have same: "pj\<lparr>pj_store := ?st\<lparr>st_changes := st_changes (pj_store pj)\<rparr>, pj_generation := g, pj_sources := pj_sources pj\<rparr>
      = ?pj" by simp
  have gen: "st_generation ?st = g" by simp
  from store_updated [OF inv set_provider_generation_good [OF parts(1) set] gen mir parts(5,6) subset_refl, of True]
  have "sound_answer uc pj (Inr True, ?pj)" unfolding same .
  with adv show ?thesis by (simp add: same_captions_def)
qed

definition with_result :: "ustring \<Rightarrow> caption_translation \<Rightarrow> caption_group \<Rightarrow> caption_group" where
  "with_result i t g = g\<lparr>cg_children :=
     map (\<lambda>c. if cs_id c = i then c\<lparr>cs_translation := Some t\<rparr> else c) (cg_children g)\<rparr>"

definition result_fits :: "unidb \<Rightarrow> ustring \<Rightarrow> caption_translation \<Rightarrow> caption_store \<Rightarrow> bool" where
  "result_fits uc i t st \<longleftrightarrow> translation_ok uc t
     \<and> (\<forall>gid g. map_of (st_held_children st) i = Some gid \<longrightarrow> map_of (st_groups st) gid = Some g \<longrightarrow>
          group_ok uc (with_result i t g))"

lemma result_fits_same: "same_captions st st' \<Longrightarrow> result_fits uc i t st' = result_fits uc i t st"
  by (simp add: result_fits_def same_captions_def)

lemma apply_translation_total:
  assumes inv: "index_inv st" and mir: "captions_mirrored uc srcs st" and cur: "lookup_segment i st = Some cur"
    and fits: "result_fits uc i \<lparr>ct_source_revision = r, ct_generation = g, ct_language = l, ct_text = x,
      ct_completed = c, ct_result_revision = 1\<rparr> st" (is "result_fits uc i ?t st")
  shows "\<exists>ok st'. apply_translation uc i r g x l c st = Inr (ok, st')"
proof -
  let ?s = "cur\<lparr>cs_translation := Some ?t\<rparr>"
  have s: "build_segment uc ?s = Inr ?s"
    using mirroredD(1) [OF mir cur] by (simp add: build_segment_def segment_ok_def)
  have id: "cs_id cur = i" by (rule lookup_id [OF inv cur])
  have "\<exists>st'. put_segment uc ?s st = Inr st'"
  proof (cases "map_of (st_held_children st) i")
    case None
    with id show ?thesis by (simp add: put_segment_def)
  next
    case (Some gid)
    with cur obtain h where h: "map_of (st_groups st) gid = Some h"
      and f: "find (\<lambda>c. cs_id c = i) (cg_children h) = Some cur"
      by (auto simp: lookup_segment_def split: option.splits)
    note ids = group_ok_shape(1) [OF mirroredD(3) [OF mir h]]
    have "c = cur" if "c \<in> set (cg_children h)" "cs_id c = i" for c
      using find_distinct [OF ids that(1)] f that(2) by simp
    then have "map (\<lambda>c. if cs_id c = cs_id ?s then ?s else c) (cg_children h)
        = map (\<lambda>c. if cs_id c = i then c\<lparr>cs_translation := Some ?t\<rparr> else c) (cg_children h)"
      using id by (intro map_cong) auto
    then have "h\<lparr>cg_children := map (\<lambda>c. if cs_id c = cs_id ?s then ?s else c) (cg_children h)\<rparr> = with_result i ?t h"
      by (simp only: with_result_def)
    moreover have "group_ok uc (with_result i ?t h)" using fits Some h by (simp add: result_fits_def)
    ultimately have "build_group uc (h\<lparr>cg_children := map (\<lambda>c. if cs_id c = cs_id ?s then ?s else c) (cg_children h)\<rparr>)
        = Inr (with_result i ?t h)" by (simp only: build_group_def if_True)
    then show ?thesis using Some h id by (simp add: put_segment_def)
  qed
  then obtain st' where put: "put_segment uc ?s st = Inr st'" by blast
  have ok: "translation_ok uc ?t" using fits by (simp add: result_fits_def)
  show ?thesis
  proof (cases "translation_admitted ?t (st_generation st) (Some cur) (map_of (st_held_children st) i \<noteq> None)")
    case True
    show ?thesis unfolding apply_translation_def Let_def
      by (simp only: ok cur s put True simp_thms if_True if_False option.case res_bind_Inr) blast
  next
    case False
    show ?thesis unfolding apply_translation_def Let_def
      by (simp only: ok cur False simp_thms if_True if_False option.case) blast
  qed
qed

lemma put_translation_sound:
  assumes inv: "proj_inv uc pj" and gen: "0 \<le> tv_generation v"
    and cur: "lookup_segment (tv_segment v) (pj_store pj) = Some cur"
    and fits: "carries_text k \<Longrightarrow> result_fits uc (tv_segment v)
        \<lparr>ct_source_revision = tv_revision v, ct_generation = tv_generation v, ct_language = tv_target v,
          ct_text = tv_text v, ct_completed = (k = CompletedKind), ct_result_revision = 1\<rparr> (pj_store pj)"
  shows "sound_answer uc pj (put_translation uc k v pj)"
proof -
  from advance_generation_answer [OF inv gen] obtain pj1 where adv: "advance_generation (tv_generation v) pj = (Inr True, pj1)"
    and s1: "sound_answer uc pj (Inr True, pj1)" and same: "same_captions (pj_store pj) (pj_store pj1)" by blast
  have inv1: "proj_inv uc pj1" using s1 by (simp add: sound_answer_def)
  note parts = inv_parts [OF inv1]
  have note_sound: "sound_answer uc a (Inr True, note_status k v b)" if "sound_answer uc a (Inr True, b)" for a b
    using that by (simp add: note_status_def)
  show ?thesis
  proof (cases "carries_text k")
    case False
    with adv note_sound [OF s1] show ?thesis by (simp add: put_translation_def)
  next
    case True
    let ?f = "apply_translation uc (tv_segment v) (tv_revision v) (tv_generation v) (tv_text v) (tv_target v)
        (k = CompletedKind)"
    have cur1: "lookup_segment (tv_segment v) (pj_store pj1) = Some cur" using lookup_same [OF same] cur by simp
    note fits1 = fits [OF True, unfolded result_fits_same [OF same, symmetric]]
    from apply_translation_total [OF parts(2,3) cur1 fits1] obtain ok st where ap: "?f (pj_store pj1) = Inr (ok, st)" by blast
    have s2: "sound_answer uc pj1 (on_store ?f pj1)"
    proof (rule on_store_sound [OF inv1])
      fix a st assume h: "?f (pj_store pj1) = Inr (a, st)"
      from apply_translation_good [OF parts(1) h] apply_translation_mirrored [OF parts(3,2) h] operation_generation(2) [OF h]
      show "good_change (pj_store pj1) st \<and> captions_mirrored uc (pj_sources pj1) st
        \<and> st_generation st = st_generation (pj_store pj1)" by blast
    qed
    obtain pj2 where call: "on_store ?f pj1 = (Inr ok, pj2)" using ap by (simp add: on_store_def unjournaled_def)
    have s3: "sound_answer uc pj (Inr z, pj2)" for z :: bool using sound_trans [OF s1 s2 [unfolded call]] .
    show ?thesis using adv True call s3 note_sound [OF s3] by (cases ok) (simp_all add: put_translation_def)
  qed
qed

lemma translation_event_sound:
  assumes inv: "proj_inv uc pj"
  shows "sound_answer uc pj (translation_event uc k segment ps pj)"
  unfolding translation_event_def
proof (rule sound_checked [OF inv])
  fix v assume v: "parse_result uc k segment ps pj = Inr v"
  note ok = parse_result_ok [OF v]
  let ?held = "map_of (st_held_children (pj_store pj)) (tv_segment v)"
  have stored: "sound_answer uc pj (put_translation uc k v pj)"
    if c: "translation_current v pj" and blank: "\<not> (k = PreviewKind \<and> py_strip uc (tv_text v) = [])"
      and pre: "\<And>gid. ?held = Some gid \<Longrightarrow> k \<noteq> PreviewKind \<and> (k = CompletedKind \<longrightarrow> prospective_group uc v gid pj = Inr ())"
  proof -
    from c obtain cur where cur: "lookup_segment (tv_segment v) (pj_store pj) = Some cur"
      by (auto simp: translation_current_def split: option.splits)
    show ?thesis
    proof (rule put_translation_sound [OF inv _ cur])
      show "0 \<le> tv_generation v" using ok by blast
      assume k: "carries_text k"
      have words: "text_ok uc (tv_text v)"
        using ok blank k by (cases k) (auto simp: carries_text_def bounded_text_def text_ok_def)
      let ?t = "\<lparr>ct_source_revision = tv_revision v, ct_generation = tv_generation v, ct_language = tv_target v,
          ct_text = tv_text v, ct_completed = (k = CompletedKind), ct_result_revision = 1\<rparr>"
      have "group_ok uc (with_result (tv_segment v) ?t g)"
        if h: "?held = Some gid" and g: "map_of (st_groups (pj_store pj)) gid = Some g" for gid g
      proof -
        have "k = CompletedKind" using pre [OF h] k by (simp add: carries_text_def)
        then have t: "?t = incoming_translation v" by (simp add: incoming_translation_def)
        have "prospective_group uc v gid pj = Inr ()" using pre [OF h] \<open>k = CompletedKind\<close> by blast
        then show ?thesis unfolding t using g
          by (simp add: prospective_group_def build_group_def with_result_def split: if_splits)
      qed
      then show "result_fits uc (tv_segment v) ?t (pj_store pj)"
        using ok words by (simp add: result_fits_def translation_ok_def)
    qed
  qed
  show "sound_answer uc pj (let held = ?held
       in if \<not> translation_current v pj \<or> translation_final v pj then (Inr False, pj)
          else if k = PreviewKind \<and> py_strip uc (tv_text v) = [] then (Inr True, bump_stat ''ignored_events'' pj)
          else case held of
              None \<Rightarrow> put_translation uc k v pj
            | Some gid \<Rightarrow>
                if k = PreviewKind then (Inr False, pj)
                else if k = CompletedKind
                  then checked pj (prospective_group uc v gid pj) (\<lambda>_. put_translation uc k v pj)
                else put_translation uc k v pj)"
  proof (cases "translation_current v pj \<and> \<not> translation_final v pj")
    case False
    with inv show ?thesis by (auto simp: sound_same)
  next
    case c: True
    show ?thesis
    proof (cases "k = PreviewKind \<and> py_strip uc (tv_text v) = []")
      case True
      with c inv show ?thesis by (simp add: sound_same)
    next
      case blank: False
      note st = stored [OF conjunct1 [OF c] blank]
      show ?thesis
      proof (cases ?held)
        case None
        with st c blank show ?thesis by (auto simp: Let_def)
      next
        case (Some gid)
        have "sound_answer uc pj (checked pj (prospective_group uc v gid pj) (\<lambda>_. put_translation uc k v pj))"
          if "k = CompletedKind"
          by (rule sound_checked [OF inv]) (use st Some that in auto)
        with Some c blank inv st show ?thesis by (auto simp: Let_def sound_same)
      qed
    qed
  qed
qed

subsection \<open>The other events\<close>

lemma retire_bound:
  "distinct (map fst ps) \<Longrightarrow> 1 \<le> m \<Longrightarrow> length ps \<le> n + m \<Longrightarrow>
     length (retire_previews n i ps) \<le> m \<and> distinct (map fst (retire_previews n i ps))"
proof (induction n arbitrary: ps)
  case (Suc n)
  show ?case
  proof (cases "find (\<lambda>p. fst p \<noteq> i) ps")
    case None
    then have "set (map fst ps) \<subseteq> {i}" by (auto simp: find_None_iff)
    then have "card (set (map fst ps)) \<le> 1" using card_mono [of "{i}" "set (map fst ps)"] by simp
    then have "length ps \<le> 1" using distinct_card [OF Suc.prems(1)] by simp
    with None Suc.prems show ?thesis by simp
  next
    case (Some p)
    then have "p \<in> set ps" by (auto simp: find_Some_iff)
    then have "length (al_del (fst p) ps) < length ps"
      by (auto simp: al_del_def intro: length_filter_less)
    with Suc.prems have "length (al_del (fst p) ps) \<le> n + m" by simp
    from Suc.IH [OF distinct_al_del [OF Suc.prems(1)] Suc.prems(2) this] Some show ?thesis by simp
  qed
qed simp

lemma preview_event_sound:
  assumes inv: "proj_inv uc pj"
  shows "sound_answer uc pj (preview_event uc ps pj)"
proof -
  have "sound_answer uc pj (Inr True, show_preview v ps pj)" for v
  proof -
    define known where "known = (case map_of (pj_previews pj) (pv_id v) of None \<Rightarrow> -1 | Some p \<Rightarrow> pi_frontier p)"
    define entry where "entry = \<lparr>pi_revision = pv_revision v, pi_track = pv_track v, pi_epoch = pv_epoch v,
        pi_target = pv_target v, pi_frontier = max known (pv_end v), pi_cleared = pv_cleared v\<rparr>"
    let ?ps = "al_put (pv_id v) entry (pj_previews pj)"
    have "distinct (map fst ?ps)" using inv unfolding proj_inv_def by (intro distinct_al_put) blast
    from retire_bound [OF this, of 256 "length ?ps - 256" "pv_id v"]
    have "length (retire_previews (length ?ps - 256) (pv_id v) ?ps) \<le> 256
        \<and> distinct (map fst (retire_previews (length ?ps - 256) (pv_id v) ?ps))" by simp
    with inv show ?thesis
      by (simp add: show_preview_def Let_def known_def [symmetric] entry_def [symmetric] sound_answer_def proj_inv_def
          proj_step_def bump_stat_def store_evolves_refl)
  qed
  with inv show ?thesis by (auto simp: preview_event_def intro!: sound_checked sound_same)
qed

lemma revision_event_sound:
  assumes inv: "proj_inv uc pj"
  shows "sound_answer uc pj (revision_event uc segment ps pj)"
proof -
  note parts = inv_parts [OF inv]
  have "sound_answer uc pj (on_store (revise_translations uc cs g) pj)" for cs g
  proof (rule on_store_sound [OF inv])
    fix a st assume h: "revise_translations uc cs g (pj_store pj) = Inr (a, st)"
    from revise_translations_good [OF parts(1) h] revise_mirrored [OF parts(3,2) h] revise_generation [OF h]
    show "good_change (pj_store pj) st \<and> captions_mirrored uc (pj_sources pj) st
      \<and> st_generation st = st_generation (pj_store pj)" by blast
  qed
  with inv show ?thesis by (auto simp: revision_event_def intro!: sound_checked)
qed

lemma provider_event_sound:
  assumes inv: "proj_inv uc pj"
  shows "sound_answer uc pj (provider_event ps pj)"
  unfolding provider_event_def
proof (rule sound_checked [OF inv])
  fix g assume "need_int ''provider_generation'' 0 ps = Inr g"
  then have "0 \<le> g" by (auto simp: need_int_def res_bind_eq_Inr dest: wire_int_least)
  with advance_generation_answer [OF inv, of g] sound_same [OF inv]
  show "sound_answer uc pj (if g \<le> pj_generation pj then (Inr False, pj) else advance_generation g pj)" by auto
qed

lemma set_alias_sound:
  assumes inv: "proj_inv uc pj"
  shows "sound_answer uc pj (on_store (set_speaker_alias uc i n) pj)"
proof (rule on_store_sound [OF inv])
  note parts = inv_parts [OF inv]
  fix a st assume h: "set_speaker_alias uc i n (pj_store pj) = Inr (a, st)"
  then have "same_captions (pj_store pj) st"
    by (auto simp: set_speaker_alias_def same_captions_def split: if_splits)
  with set_speaker_alias_good [OF parts(1) h] operation_generation(6) [OF h] parts(3) mirrored_same
  show "good_change (pj_store pj) st \<and> captions_mirrored uc (pj_sources pj) st
    \<and> st_generation st = st_generation (pj_store pj)" by blast
qed

lemma alias_event_sound: "proj_inv uc pj \<Longrightarrow> sound_answer uc pj (alias_event uc ps pj)"
  unfolding alias_event_def
  by (intro sound_checked) (simp_all add: sound_same set_alias_sound)

lemma update_speaker_sound:
  assumes inv: "proj_inv uc pj"
  shows "sound_answer uc pj (on_store (update_speaker uc i sp r b m) pj)"
proof (rule on_store_sound [OF inv])
  note parts = inv_parts [OF inv]
  fix a st assume h: "update_speaker uc i sp r b m (pj_store pj) = Inr (a, st)"
  from update_speaker_good [OF parts(1) h] update_speaker_mirrored [OF parts(3,2) h] operation_generation(3) [OF h]
  show "good_change (pj_store pj) st \<and> captions_mirrored uc (pj_sources pj) st
    \<and> st_generation st = st_generation (pj_store pj)" by blast
qed

lemma apply_held_sound:
  assumes inv: "proj_inv uc pj"
  shows "sound_answer uc pj (on_store (apply_held_group uc g r limit) pj)"
proof (rule on_store_sound [OF inv])
  note parts = inv_parts [OF inv]
  fix a st assume h: "apply_held_group uc g r limit (pj_store pj) = Inr (a, st)"
  from apply_held_group_good [OF parts(1) h] apply_held_mirrored [OF parts(2,3) h] operation_generation(5) [OF h]
  show "good_change (pj_store pj) st \<and> captions_mirrored uc (pj_sources pj) st
    \<and> st_generation st = st_generation (pj_store pj)" by blast
qed

lemma speaker_event_sound:
  assumes inv: "proj_inv uc pj"
  shows "sound_answer uc pj (speaker_event uc segment ps pj)"
proof -
  have "sound_answer uc pj (case on_store (update_speaker uc i sp r basis False) pj of
           (Inr True, pj') \<Rightarrow> (Inr True, bump_stat ''speaker_updates'' pj') | answer \<Rightarrow> answer)" for i sp r basis
    using update_speaker_sound [OF inv, of i sp r basis False]
    by (auto split: prod.split sum.split bool.split)
  with inv show ?thesis unfolding speaker_event_def
    by (intro sound_checked) simp_all
qed

lemma terminal_event_sound:
  assumes inv: "proj_inv uc pj" and fresh: "pj_terminal pj = None"
  shows "sound_answer uc pj (terminal_event uc kind ps pj)"
proof -
  have "sound_answer uc pj (Inr True, pj\<lparr>pj_terminal := Some (kind, ps)\<rparr>)"
    using sound_same [OF inv, of "Inr True"] fresh by (simp add: sound_answer_def proj_inv_def proj_step_def)
  with inv show ?thesis by (simp add: terminal_event_def sound_checked)
qed

lemma started_event_sound:
  assumes inv: "proj_inv uc pj"
  shows "sound_answer uc pj (started_event uc ps pj)"
proof -
  have "sound_answer uc pj (Inr True, pj\<lparr>pj_capabilities := cs, pj_started := True\<rparr>)" for cs
    by (rule sound_view [OF _ sound_same [OF inv]]) (simp add: same_view_def)
  with inv show ?thesis unfolding started_event_def
    by (simp split: if_split) (auto intro!: sound_checked)
qed

lemma transcript_event_sound: "proj_inv uc pj \<Longrightarrow> sound_answer uc pj (transcript_event uc segment ps pj)"
  unfolding transcript_event_def by (intro sound_checked) (simp_all add: sound_same)

lemmas event_sound = preview_event_sound revision_event_sound source_event_sound group_event_sound
  translation_event_sound provider_event_sound alias_event_sound speaker_event_sound started_event_sound
  transcript_event_sound

lemma typed_event_sound:
  assumes "proj_inv uc pj" "pj_terminal pj = None"
  shows "sound_answer uc pj (typed_event uc kind segment ps pj)"
proof -
  have ignored: "sound_answer uc pj (Inr True, bump_stat ''ignored_events'' pj)"
    by (simp add: sound_same [OF assms(1)])
  show ?thesis unfolding typed_event_def
    by (cases "translation_kind_of kind")
      (simp_all only: event_sound [OF assms(1)] terminal_event_sound [OF assms] ignored option.case if_split simp_thms)
qed

subsection \<open>Runs\<close>

lemma apply_event_sound:
  assumes inv: "proj_inv uc pj"
  shows "sound_answer uc pj (apply_event uc num e pj)"
proof -
  have counted: "sound_answer uc pj (Inr ok, event_accepted e ok b)"
    if "sound_answer uc pj (Inr ok, b)" "pj_sequence pj < ge_sequence e" for ok b
  proof -
    have "sound_answer uc pj (Inr ok, b\<lparr>pj_sequence := ge_sequence e, pj_last_kind := Some (ge_kind e)\<rparr>)"
      using that by (simp add: sound_answer_def proj_inv_def proj_step_def)
    then show ?thesis by (cases ok) (simp_all add: event_accepted_def Let_def)
  qed
  have answered: "sound_answer uc pj (case typed_event uc (ge_kind e) (event_segment e) (ge_data e) pj of
          (Inl err, pj') \<Rightarrow> (Inl (as_caption_error err), pj')
        | (Inr ok, pj') \<Rightarrow> (Inr ok, event_accepted e ok pj'))"
    if "pj_sequence pj < ge_sequence e" "pj_terminal pj = None"
  proof (cases "typed_event uc (ge_kind e) (event_segment e) (ge_data e) pj")
    case (Pair r b)
    from typed_event_sound [OF inv that(2), of "ge_kind e" "event_segment e" "ge_data e"]
    have s: "sound_answer uc pj (r, b)" unfolding Pair .
    show ?thesis
    proof (cases r)
      case (Inl err)
      then have "b = pj" using s by (simp add: sound_answer_def)
      with Inl Pair show ?thesis by (simp add: sound_same [OF inv])
    next
      case (Inr ok)
      with counted that(1) s Pair show ?thesis by simp
    qed
  qed
  show ?thesis
  proof (cases "envelope_ok uc e pj \<and> \<not> ge_sequence e \<le> pj_sequence pj \<and> pj_terminal pj = None
      \<and> event_data_ok num (ge_data e)")
    case True
    then have "apply_event uc num e pj = (case typed_event uc (ge_kind e) (event_segment e) (ge_data e) pj of
          (Inl err, pj') \<Rightarrow> (Inl (as_caption_error err), pj')
        | (Inr ok, pj') \<Rightarrow> (Inr ok, event_accepted e ok pj'))" by (simp add: apply_event_def)
    with answered True show ?thesis by (simp only: not_le simp_thms)
  next
    case False
    then have "fst (apply_event uc num e pj) = Inr False \<and> snd (apply_event uc num e pj) = bump_stat ''stale_events'' pj
        \<or> snd (apply_event uc num e pj) = pj" by (auto simp: apply_event_def refuse_def)
    then show ?thesis
    proof (elim disjE conjE)
      assume "fst (apply_event uc num e pj) = Inr False" "snd (apply_event uc num e pj) = bump_stat ''stale_events'' pj"
      then have "apply_event uc num e pj = (Inr False, bump_stat ''stale_events'' pj)" by (simp add: prod_eq_iff)
      then show ?thesis using sound_same [OF inv] by simp
    next
      assume "snd (apply_event uc num e pj) = pj"
      then show ?thesis using inv by (simp add: sound_answer_def proj_step_refl)
    qed
  qed
qed

lemma projection_call_sound: "proj_inv uc pj \<Longrightarrow> sound_answer uc pj (projection_call uc num op pj)"
  by (cases op) (simp_all add: apply_event_sound set_alias_sound update_speaker_sound apply_held_sound)

lemma projection_run_sound: "proj_inv uc pj \<Longrightarrow> proj_inv uc (projection_run uc num ops pj)
    \<and> proj_step pj (projection_run uc num ops pj)"
proof (induction ops arbitrary: pj)
  case Nil
  then show ?case by (simp add: projection_run_def proj_step_refl)
next
  case (Cons op ops)
  from projection_call_sound [OF Cons.prems, of num op]
  have one: "proj_inv uc (snd (projection_call uc num op pj))" "proj_step pj (snd (projection_call uc num op pj))"
    by (simp_all add: sound_answer_def)
  from Cons.IH [OF one(1)] proj_step_trans [OF one(2)] show ?case by (auto simp: projection_run_def)
qed

lemma new_projection_inv: "new_projection uc session target track limit supported = Inr pj \<Longrightarrow> proj_inv uc pj"
  by (auto simp: new_projection_def res_bind_eq_Inr new_store_def proj_inv_def store_inv_def index_inv_def
      journal_inv_def captions_mirrored_def lookup_segment_def split: if_splits)

lemma reachable_projection:
  "new_projection uc session target track limit supported = Inr p0 \<Longrightarrow> proj_inv uc (projection_run uc num ops p0)"
  using projection_run_sound [OF new_projection_inv] by blast

lemma projection_run_append: "projection_run uc num (xs @ ys) pj = projection_run uc num ys (projection_run uc num xs pj)"
  by (simp add: projection_run_def)

subsection \<open>A concrete session\<close>

definition wire_event :: "int \<Rightarrow> string \<Rightarrow> string \<Rightarrow> (string \<times> json) list \<Rightarrow> projection_op" where
  "wire_event n kind segment ps = GatewayEvent \<lparr>ge_session = lit ''s'', ge_sequence = n, ge_kind = lit kind,
     ge_segment = (if segment = [] then None else Some (lit segment)), ge_data = map (\<lambda>(k, v). (lit k, v)) ps\<rparr>"

definition sample_projection :: projection where
  "sample_projection = (case new_projection ascii_db (lit ''s'') (lit ''ko'') (lit ''system'') 2 [lit ''semantic_translation_v1''] of
     Inr pj \<Rightarrow> pj | Inl _ \<Rightarrow> undefined)"

definition sample_session :: "projection_op list" where
  "sample_session =
     [wire_event 1 ''session.started'' [] [(''protocol_version'', j_int 1), (''engine_mode'', JStr (lit ''injected_test_engines'')),
        (''speaker_status'', JStr (lit ''off'')), (''capabilities'', JList [JStr (lit ''semantic_translation_v1'')])],
      wire_event 2 ''caption.source'' ''a'' [(''source_revision'', j_int 1), (''text'', JStr (lit ''hi'')),
        (''start_ns'', j_int 0), (''end_ns'', j_int 5)],
      wire_event 4 ''translation.completed'' ''a'' [(''source_revision'', j_int 1), (''provider_generation'', j_int 1),
        (''text'', JStr (lit ''annyeong''))],
      LocalSpeaker (lit ''a'') (Some (lit ''me'')) 1]"

lemma sample_projection_new:
  "new_projection ascii_db (lit ''s'') (lit ''ko'') (lit ''system'') 2 [lit ''semantic_translation_v1''] = Inr sample_projection"
  by code_simp

text \<open>
  C20: an event that raises leaves the projection as it was, in every state a session can reach (the translation of a
  held clause included, where the generation is advanced before the store is asked), and the error is a
  \<open>RemoteCaptionError\<close>, a \<open>ValueError\<close>.
\<close>

theorem remote_errors_atomic:
  assumes new: "new_projection uc session target track limit supported = Inr p0"
    and ap: "apply_event uc num e (projection_run uc num ops p0) = (Inl err, pj)"
  shows "pj = projection_run uc num ops p0 \<and> (\<exists>message. err = ValueError message)"
proof
  let ?pj = "projection_run uc num ops p0"
  from apply_event_sound [OF reachable_projection [OF new, of num ops], of num e] ap
  show "pj = ?pj" by (simp add: sound_answer_def)
  have "as_caption_error r = ValueError m \<or> (\<exists>m. as_caption_error r = ValueError m)" for r m
    by (cases r) (simp_all add: as_caption_error_def)
  then show "\<exists>message. err = ValueError message"
    using ap by (auto simp: apply_event_def refuse_def split: if_splits prod.splits sum.splits)
qed

lemma remote_errors_atomic_witness:
  "snd (apply_event ascii_db int_text \<lparr>ge_session = lit ''s'', ge_sequence = 9, ge_kind = lit ''caption.source'',
        ge_segment = Some (lit ''b''), ge_data = [(lit ''source_revision'', j_int 1)]\<rparr>
        (projection_run ascii_db int_text sample_session sample_projection))
     = projection_run ascii_db int_text sample_session sample_projection
   \<and> fst (apply_event ascii_db int_text \<lparr>ge_session = lit ''s'', ge_sequence = 9, ge_kind = lit ''caption.source'',
        ge_segment = Some (lit ''b''), ge_data = [(lit ''source_revision'', j_int 1)]\<rparr>
        (projection_run ascii_db int_text sample_session sample_projection)) = Inl (ValueError ''Invalid payload'')"
proof -
  let ?h = "apply_event ascii_db int_text \<lparr>ge_session = lit ''s'', ge_sequence = 9, ge_kind = lit ''caption.source'',
        ge_segment = Some (lit ''b''), ge_data = [(lit ''source_revision'', j_int 1)]\<rparr>
        (projection_run ascii_db int_text sample_session sample_projection)"
  have r: "fst ?h = Inl (ValueError ''Invalid payload'')" by code_simp
  then have h: "?h = (Inl (ValueError ''Invalid payload''), snd ?h)" by (metis prod.collapse)
  from remote_errors_atomic [OF sample_projection_new h] r show ?thesis by blast
qed

text \<open>
  C21: in every reachable state the projection mirrors its store: every caption the store shows, held ones included,
  is a valid segment recorded under its ID with the same revision, track and target; there are at most
  \<open>max_segments\<close> recorded IDs, each once; both sides agree on the provider generation; no journal is kept and at most 256
  preview identities are.
\<close>

theorem remote_sources_mirrored:
  assumes "new_projection uc session target track limit supported = Inr p0"
  shows "let pj = projection_run uc num ops p0 in
     (case lookup_segment i (pj_store pj) of
        None \<Rightarrow> True
      | Some s \<Rightarrow> segment_ok uc s \<and> cs_id s = i \<and> map_of (pj_sources pj) i = Some (identity_of s))
     \<and> distinct (map fst (pj_sources pj)) \<and> int (length (pj_sources pj)) \<le> limit
     \<and> pj_generation pj = st_generation (pj_store pj) \<and> st_changes (pj_store pj) = [] \<and> length (pj_previews pj) \<le> 256"
proof -
  let ?pj = "projection_run uc num ops p0"
  have inv: "proj_inv uc ?pj" by (rule reachable_projection [OF assms])
  note parts = inv_parts [OF inv]
  have "proj_step p0 ?pj" using projection_run_sound [OF new_projection_inv [OF assms]] by blast
  moreover have "pj_limit p0 = limit"
    using assms by (auto simp: new_projection_def res_bind_eq_Inr split: if_splits)
  ultimately have "pj_limit ?pj = limit" by (simp add: proj_step_def)
  moreover have "case lookup_segment i (pj_store ?pj) of
        None \<Rightarrow> True
      | Some s \<Rightarrow> segment_ok uc s \<and> cs_id s = i \<and> map_of (pj_sources ?pj) i = Some (identity_of s)"
    using mirroredD(1,2) [OF parts(3)] lookup_id [OF parts(2)] by (auto split: option.split)
  ultimately show ?thesis using parts inv by (simp add: Let_def proj_inv_def)
qed

lemma remote_sources_mirrored_witness:
  "let pj = projection_run ascii_db int_text sample_session sample_projection in
     (case lookup_segment (lit ''a'') (pj_store pj) of
        None \<Rightarrow> True
      | Some s \<Rightarrow> segment_ok ascii_db s \<and> cs_id s = lit ''a'' \<and> map_of (pj_sources pj) (lit ''a'') = Some (identity_of s))
     \<and> distinct (map fst (pj_sources pj)) \<and> int (length (pj_sources pj)) \<le> 2
     \<and> pj_generation pj = st_generation (pj_store pj) \<and> st_changes (pj_store pj) = [] \<and> length (pj_previews pj) \<le> 256"
  by (rule remote_sources_mirrored [OF sample_projection_new])

text \<open>
  Whatever arrives next, captions only evolve, no recorded ID is forgotten, the event sequence and the preview
  frontier never move back, and a session terminal is final.
\<close>

theorem remote_captions_evolve:
  assumes "new_projection uc session target track limit supported = Inr p0"
  shows "let before = projection_run uc num ops p0; after = projection_run uc num (ops @ more_ops) p0 in
     store_evolves (pj_store before) (pj_store after)
     \<and> set (map fst (pj_sources before)) \<subseteq> set (map fst (pj_sources after))
     \<and> pj_sequence before \<le> pj_sequence after \<and> pj_frontier before \<le> pj_frontier after
     \<and> (pj_terminal before = None \<or> pj_terminal after = pj_terminal before)"
proof -
  have "proj_step (projection_run uc num ops p0) (projection_run uc num more_ops (projection_run uc num ops p0))"
    using projection_run_sound [OF reachable_projection [OF assms]] by blast
  then show ?thesis unfolding Let_def projection_run_append proj_step_def by blast
qed

lemma remote_captions_evolve_witness:
  "(let before = projection_run ascii_db int_text (take 2 sample_session) sample_projection;
        after = projection_run ascii_db int_text (take 2 sample_session @ drop 2 sample_session) sample_projection in
     store_evolves (pj_store before) (pj_store after)
     \<and> set (map fst (pj_sources before)) \<subseteq> set (map fst (pj_sources after))
     \<and> pj_sequence before \<le> pj_sequence after \<and> pj_frontier before \<le> pj_frontier after
     \<and> (pj_terminal before = None \<or> pj_terminal after = pj_terminal before))
   \<and> map_option (map_option ct_text \<circ> cs_translation)
        (lookup_segment (lit ''a'') (pj_store (projection_run ascii_db int_text sample_session sample_projection)))
       = Some (Some (lit ''annyeong''))"
  by (rule conjI [OF remote_captions_evolve [OF sample_projection_new]]) code_simp

end
