(* ===== verification/SemanticRouter.thy ===== *)
theory SemanticRouter
  imports SemanticLedger
begin

text \<open>
  Model of \<open>SemanticTranslationRouter\<close> in \<^verbatim>\<open>semantic_routing.py\<close>: one coordinator per speaker lane behind
  common limits. \<open>ro_lanes\<close> is the \<open>OrderedDict\<close> of lanes, oldest first; a lane keeps a number that tells a
  lane from a later one of the same scope, and the router's generation at which its current commit callback was
  entered. A definition is the code between two awaits, as in \<open>SemanticCoordinator\<close>.
\<close>

subsection \<open>State\<close>

record lane =
  ln_id :: nat
  ln_entered :: nat
  ln_co :: coordinator

record router =
  ro_config :: semantic_config
  ro_target :: ustring
  ro_max_lanes :: nat
  ro_max_units :: nat
  ro_lanes :: "(scope_key \<times> lane) list"
  ro_next :: nat
  ro_retired :: query_counts
  ro_own :: query_counts
  ro_last_scope :: "(ustring \<times> ustring \<times> ustring) option"
  ro_dialogue :: "(scope_key \<times> ustring) list"
  ro_generation :: nat
  ro_closed :: bool
  ro_closing :: bool
  ro_resetting :: bool

definition no_counts :: query_counts where
  "no_counts = \<lparr>n_requests = 0, n_waits = 0, n_commits = 0, n_committed_units = 0, n_failures = 0,
     n_retired_units = 0, n_timeouts = 0, n_invalid = 0, n_stale = 0\<rparr>"

definition new_router :: "semantic_config \<Rightarrow> ustring \<Rightarrow> nat \<Rightarrow> nat \<Rightarrow> router res" where
  "new_router cfg target lanes units =
     (if lanes < 1 \<or> 32 < lanes then Inl (ValueError ''Semantic router max_lanes must be in [1, 32]'')
      else if units < 1 \<or> 64 < units then Inl (ValueError ''Semantic router max_total_units must be in [1, 64]'')
      else Inr \<lparr>ro_config = cfg, ro_target = target, ro_max_lanes = lanes, ro_max_units = units, ro_lanes = [],
             ro_next = 0, ro_retired = no_counts, ro_own = no_counts, ro_last_scope = None, ro_dialogue = [],
             ro_generation = 0, ro_closed = False, ro_closing = False, ro_resetting = False\<rparr>)"

subsection \<open>Views\<close>

definition router_pending :: "router \<Rightarrow> pending_unit list" where
  "router_pending ro = concat (map (\<lambda>p. co_pending (ln_co (snd p))) (ro_lanes ro))"

definition add_counts :: "query_counts \<Rightarrow> query_counts \<Rightarrow> query_counts" where
  "add_counts a b = \<lparr>n_requests = n_requests a + n_requests b, n_waits = n_waits a + n_waits b,
     n_commits = n_commits a + n_commits b, n_committed_units = n_committed_units a + n_committed_units b,
     n_failures = n_failures a + n_failures b, n_retired_units = n_retired_units a + n_retired_units b,
     n_timeouts = n_timeouts a + n_timeouts b, n_invalid = n_invalid a + n_invalid b, n_stale = n_stale a + n_stale b\<rparr>"

definition router_counts :: "router \<Rightarrow> query_counts" where
  "router_counts ro = fold (\<lambda>p n. add_counts n (co_counts (ln_co (snd p)))) (ro_lanes ro)
     (add_counts (ro_retired ro) (ro_own ro))"

text \<open>Dialogue of the same track and capture epoch.\<close>

definition context_for :: "scope_key \<Rightarrow> router \<Rightarrow> ustring list" where
  "context_for scope ro =
     map snd (filter (\<lambda>p. fst (fst p) = fst scope \<and> fst (snd (fst p)) = fst (snd scope)) (ro_dialogue ro))"

subsection \<open>Lanes\<close>

definition retire_lane :: "scope_key \<Rightarrow> router \<Rightarrow> router" where
  "retire_lane scope ro =
     (case map_of (ro_lanes ro) scope of
        None \<Rightarrow> ro
      | Some l \<Rightarrow> ro\<lparr>ro_lanes := al_del scope (ro_lanes ro),
                     ro_retired := add_counts (ro_retired ro) (co_counts (ln_co l))\<rparr>)"

definition add_lane :: "scope_key \<Rightarrow> router \<Rightarrow> router" where
  "add_lane scope ro =
     ro\<lparr>ro_lanes := al_put scope \<lparr>ln_id = ro_next ro, ln_entered = 0,
                                  ln_co = new_coordinator (ro_config ro) (ro_target ro)\<rparr> (ro_lanes ro),
        ro_next := ro_next ro + 1\<rparr>"

text \<open>The lane of a scope, made when it is missing; the oldest idle lane leaves when there is no room.\<close>

definition open_lane :: "scope_key \<Rightarrow> router \<Rightarrow> router option" where
  "open_lane scope ro =
     (if map_of (ro_lanes ro) scope \<noteq> None then Some ro
      else if length (ro_lanes ro) < ro_max_lanes ro then Some (add_lane scope ro)
      else case find (\<lambda>p. coordinator_idle (ln_co (snd p))) (ro_lanes ro) of
          None \<Rightarrow> None
        | Some p \<Rightarrow> Some (add_lane scope (retire_lane (fst p) ro)))"

definition move_to_end :: "scope_key \<Rightarrow> router \<Rightarrow> router" where
  "move_to_end scope ro =
     (case map_of (ro_lanes ro) scope of
        None \<Rightarrow> ro
      | Some l \<Rightarrow> ro\<lparr>ro_lanes := al_del scope (ro_lanes ro) @ [(scope, l)]\<rparr>)"

definition router_flush :: "router \<Rightarrow> bool \<times> router" where
  "router_flush ro =
     (if ro_closed ro then (False, ro)
      else (list_ex (\<lambda>p. fst (request_flush (ln_co (snd p)))) (ro_lanes ro),
            ro\<lparr>ro_lanes := map (\<lambda>(s, l). (s, l\<lparr>ln_co := snd (request_flush (ln_co l))\<rparr>)) (ro_lanes ro)\<rparr>))"

subsection \<open>\<open>append\<close>\<close>

definition router_failure :: "pending_unit \<Rightarrow> string \<Rightarrow> rat \<Rightarrow> router \<Rightarrow> unit_event list \<times> router" where
  "router_failure u reason now ro =
     (let age = at_least0 (now - pu_created u) * 1000
      in ([FailureEvent \<lparr>uf_units = [u], uf_reason = lit reason, uf_request = [], uf_force = False, uf_wait_ms = age,
             uf_model_ms = 0, uf_total_ms = age\<rparr>],
          ro\<lparr>ro_own := (ro_own ro)\<lparr>n_failures := n_failures (ro_own ro) + 1,
                                   n_retired_units := n_retired_units (ro_own ro) + 1\<rparr>\<rparr>))"

text \<open>The answer of \<open>append\<close>: an error, or the callbacks that are entered and whether a flush follows them.\<close>

type_synonym routed = "(unit_event list \<times> bool) res \<times> router"

definition turn_away :: "pending_unit \<Rightarrow> string \<Rightarrow> rat \<Rightarrow> router \<Rightarrow> routed" where
  "turn_away u reason now ro =
     (case router_failure u reason now (snd (router_flush ro)) of (es, ro') \<Rightarrow> (Inr (es, False), ro'))"

definition source_scope :: "pending_unit \<Rightarrow> ustring \<times> ustring \<times> ustring" where
  "source_scope u = (pu_track u, pu_epoch u, pu_language u)"

text \<open>A change of track, epoch or language seals what is buffered.\<close>

definition note_scope :: "pending_unit \<Rightarrow> router \<Rightarrow> router" where
  "note_scope u ro =
     (if ro_last_scope ro \<noteq> None \<and> ro_last_scope ro \<noteq> Some (source_scope u) then snd (router_flush ro) else ro)
       \<lparr>ro_last_scope := Some (source_scope u)\<rparr>"

definition enter_lane :: "pending_unit \<Rightarrow> bool \<Rightarrow> rat \<Rightarrow> router \<Rightarrow> routed" where
  "enter_lane u boundary now ro =
     (case map_of (ro_lanes ro) (unit_scope u) of
        None \<Rightarrow> (Inl KeyError, ro)
      | Some l \<Rightarrow>
          (case append_unit u boundary now (ln_co l) of
             Inl e \<Rightarrow> (Inl e, ro)
           | Inr (es, co) \<Rightarrow>
               let ro' = ro\<lparr>ro_lanes := al_put (unit_scope u) (l\<lparr>ln_co := co\<rparr>) (ro_lanes ro)\<rparr>
               in if es = [] \<and> boundary then (Inr ([], False), snd (router_flush ro'))
                  else (Inr (es, boundary), ro')))"

definition router_limit :: "router \<Rightarrow> nat" where
  "router_limit ro = min 4000 (sc_source (ro_config ro))"

definition router_append :: "pending_unit \<Rightarrow> bool \<Rightarrow> rat \<Rightarrow> router \<Rightarrow> routed" where
  "router_append u boundary now ro =
     (let pending = router_pending ro
      in if ro_closed ro \<or> ro_closing ro \<or> ro_resetting ro then (Inl (RuntimeError ''Semantic router is closed''), ro)
         else if now + 1 / 10 < pu_created u
           then (Inl (ValueError ''Semantic source must use this process's current monotonic clock''), ro)
         else if pu_id u \<in> pu_id ` set pending
           then (Inl (ValueError ''Duplicate pending semantic unit ID across lanes''), ro)
         else if router_limit ro < length (pu_text u) then turn_away u ''source_too_large'' now ro
         else if ro_max_units ro \<le> length pending
              \<or> router_limit ro < total_length (map pu_text pending) + length (pu_text u)
           then turn_away u ''buffer_capacity'' now ro
         else case open_lane (unit_scope u) ro of
             None \<Rightarrow> turn_away u ''buffer_capacity'' now ro
           | Some ro1 \<Rightarrow> enter_lane u boundary now (note_scope u (move_to_end (unit_scope u) ro1)))"

subsection \<open>Commits of a lane\<close>

definition dialogue_excerpt :: "unidb \<Rightarrow> unit_commit \<Rightarrow> ustring" where
  "dialogue_excerpt uc c =
     (let label = lit ''['' @ pu_lane (hd (uc_units c)) @ lit ''] '';
          source = py_strip uc (concat (map pu_text (uc_units c)))
      in label @ keep_last (max 1 (4000 - length label)) source)"

text \<open>The part of \<open>_committed\<close> behind the callback; \<open>generation\<close> is the one of its entry.\<close>

definition note_commit :: "unidb \<Rightarrow> unit_commit \<Rightarrow> nat \<Rightarrow> router \<Rightarrow> router" where
  "note_commit uc c generation ro =
     (if generation \<noteq> ro_generation ro \<or> ro_closed ro then ro
      else ro\<lparr>ro_dialogue := keep_last 2 (ro_dialogue ro @ [(unit_scope (hd (uc_units c)), dialogue_excerpt uc c)])\<rparr>)"

text \<open>
  A step of one lane's coordinator inside the router: the router supplies the dialogue as context, sees the
  entry and the return of the commit callback, and alone appends, seals, resets and closes its lanes.
\<close>

fun lane_op :: "scope_key \<Rightarrow> router \<Rightarrow> co_op \<Rightarrow> co_op option" where
  "lane_op scope ro (Append u b t) = None"
| "lane_op scope ro Seal = None"
| "lane_op scope ro (Turn i ex t) = Some (Turn i (Some (context_for scope ro)) t)"
| "lane_op scope ro (Reset t) = (if ro_resetting ro then Some (Reset t) else None)"
| "lane_op scope ro BeginClose = (if ro_closed ro then Some BeginClose else None)"
| "lane_op scope ro (EndClose t) = (if ro_closed ro then Some (EndClose t) else None)"
| "lane_op scope ro p = Some p"

definition committed_by :: "co_op \<Rightarrow> coordinator \<Rightarrow> unit_commit option" where
  "committed_by p co = (case (p, co_worker co) of (LeaveCallback, InSink c) \<Rightarrow> Some c | _ \<Rightarrow> None)"

definition lane_step ::
    "unidb \<Rightarrow> (ustring \<Rightarrow> json option) \<Rightarrow> scope_key \<Rightarrow> co_op \<Rightarrow> router \<Rightarrow> settlement list \<times> router" where
  "lane_step uc loads scope p ro =
     (case (map_of (ro_lanes ro) scope, lane_op scope ro p) of
        (Some l, Some q) \<Rightarrow>
          (case co_step uc loads q (ln_co l) of
             (_, ss, co) \<Rightarrow>
               let l' = l\<lparr>ln_entered := (if q = EnterCallback then ro_generation ro else ln_entered l), ln_co := co\<rparr>;
                   ro1 = (case committed_by q (ln_co l) of None \<Rightarrow> ro | Some c \<Rightarrow> note_commit uc c (ln_entered l) ro)
               in (ss, ro1\<lparr>ro_lanes := al_put scope l' (ro_lanes ro1)\<rparr>))
      | _ \<Rightarrow> ([], ro))"

subsection \<open>\<open>flush\<close>, \<open>reset\<close> and \<open>close\<close>\<close>

type_synonym checkpoint = "(scope_key \<times> nat) list"

definition lane_checkpoint :: "router \<Rightarrow> checkpoint" where
  "lane_checkpoint ro = map (\<lambda>(s, l). (s, ln_id l)) (ro_lanes ro)"

text \<open>\<open>flush\<close>: what it waits for is captured before anything is sealed.\<close>

definition begin_flush :: "router \<Rightarrow> (nat \<times> ustring list) list \<times> router" where
  "begin_flush ro =
     (if ro_closed ro then ([], ro)
      else (map (\<lambda>(s, l). (ln_id l, map fst (unsettled_units (ln_co l)))) (ro_lanes ro), snd (router_flush ro)))"

definition retire_if_idle :: "scope_key \<times> nat \<Rightarrow> router \<Rightarrow> router" where
  "retire_if_idle p ro =
     (case map_of (ro_lanes ro) (fst p) of
        None \<Rightarrow> ro
      | Some l \<Rightarrow> if ln_id l = snd p \<and> coordinator_idle (ln_co l) then retire_lane (fst p) ro else ro)"

definition begin_reset :: "router \<Rightarrow> checkpoint \<times> router" where
  "begin_reset ro =
     (lane_checkpoint ro, ro\<lparr>ro_generation := ro_generation ro + 1, ro_resetting := True, ro_dialogue := []\<rparr>)"

definition end_reset :: "checkpoint \<Rightarrow> router \<Rightarrow> router" where
  "end_reset lanes ro = (fold retire_if_idle lanes (ro\<lparr>ro_resetting := False\<rparr>))\<lparr>ro_last_scope := None\<rparr>"

definition begin_router_close :: "router \<Rightarrow> router" where
  "begin_router_close ro = (if ro_closed ro then ro else ro\<lparr>ro_closing := True\<rparr>)"

definition shut_router :: "router \<Rightarrow> checkpoint \<times> router" where
  "shut_router ro = (lane_checkpoint ro, ro\<lparr>ro_closed := True, ro_dialogue := []\<rparr>)"

definition end_router_close :: "checkpoint \<Rightarrow> router \<Rightarrow> router" where
  "end_router_close lanes ro = fold retire_if_idle lanes ro"

end
