(* ===== verification/RouterInv.thy ===== *)
theory RouterInv
  imports SemanticRouter "HOL-Library.Multiset"
begin

text \<open>
  What the semantic router relies on and keeps. \<open>lane_book\<close> is the contract of one lane (units are conserved, counts
  only grow); the coordinator fulfils it, and a table of lanes
  inherits it. The second half gives the invariant of the router and shows that every step keeps it.
\<close>

subsection \<open>Counts\<close>

definition counts_le :: "query_counts \<Rightarrow> query_counts \<Rightarrow> bool" where
  "counts_le a b \<longleftrightarrow> n_requests a \<le> n_requests b \<and> n_waits a \<le> n_waits b \<and> n_commits a \<le> n_commits b
     \<and> n_committed_units a \<le> n_committed_units b \<and> n_failures a \<le> n_failures b
     \<and> n_retired_units a \<le> n_retired_units b \<and> n_timeouts a \<le> n_timeouts b \<and> n_invalid a \<le> n_invalid b
     \<and> n_stale a \<le> n_stale b"

lemma counts_le_refl [simp]: "counts_le a a"
  by (simp add: counts_le_def)

lemma counts_le_trans: "counts_le a b \<Longrightarrow> counts_le b c \<Longrightarrow> counts_le a c"
  unfolding counts_le_def by linarith

lemma add_counts_mono: "counts_le a a' \<Longrightarrow> counts_le b b' \<Longrightarrow> counts_le (add_counts a b) (add_counts a' b')"
  unfolding counts_le_def add_counts_def by (simp add: add_mono)

lemma add_counts_assoc: "add_counts (add_counts a b) c = add_counts a (add_counts b c)"
  by (simp add: add_counts_def)

lemma add_counts_commute: "add_counts a b = add_counts b a"
  by (simp add: add_counts_def add.commute)

lemma add_counts_left: "add_counts a (add_counts b c) = add_counts b (add_counts a c)"
  by (simp add: add_counts_def)

lemmas add_counts_ac = add_counts_assoc add_counts_commute add_counts_left

lemma add_no_counts [simp]: "add_counts a no_counts = a"
  by (simp add: add_counts_def no_counts_def)

definition sum_counts :: "query_counts list \<Rightarrow> query_counts" where
  "sum_counts ns = foldr add_counts ns no_counts"

lemma sum_counts_simps [simp]:
  "sum_counts [] = no_counts" "sum_counts (n # ns) = add_counts n (sum_counts ns)"
  by (simp_all add: sum_counts_def)

lemma no_counts_add [simp]: "add_counts no_counts a = a"
  using add_no_counts [of a] by (simp add: add_counts_commute)

lemma sum_counts_append: "sum_counts (xs @ ys) = add_counts (sum_counts xs) (sum_counts ys)"
  by (induction xs) (simp_all add: add_counts_assoc)

lemma fold_add_counts: "fold (\<lambda>p n. add_counts n (f p)) xs a = add_counts a (sum_counts (map f xs))"
  by (induction xs arbitrary: a) (simp_all add: add_counts_assoc)

subsection \<open>The contract of a lane\<close>

locale lane_book =
  fixes serve :: "'op \<Rightarrow> 'c \<Rightarrow> pending_unit list \<times> settlement list \<times> 'c"
    and held :: "'c \<Rightarrow> pending_unit list"
    and counts :: "'c \<Rightarrow> query_counts"
  assumes conserve: "mset (held c) + mset (fst (serve p c))
      = mset (concat (map settled_units (fst (snd (serve p c))))) + mset (held (snd (snd (serve p c))))"
    and count_up: "counts_le (counts c) (counts (snd (snd (serve p c))))"
begin

definition table_held :: "('k \<times> 'c) list \<Rightarrow> pending_unit list" where
  "table_held m = concat (map (\<lambda>p. held (snd p)) m)"

definition table_counts :: "('k \<times> 'c) list \<Rightarrow> query_counts" where
  "table_counts m = sum_counts (map (\<lambda>p. counts (snd p)) m)"

lemma table_conserve:
  assumes "map_of m k = Some c" "serve p c = (a, ss, c')"
  shows "mset (table_held m) + mset a = mset (concat (map settled_units ss)) + mset (table_held (al_put k c' m))"
proof -
  obtain xs ys where m: "m = xs @ (k, c) # ys" and put: "\<And>v. al_put k v m = xs @ (k, v) # ys"
    using map_of_decompose [OF assms(1)] by metis
  have one: "mset (held c) + mset a = mset (concat (map settled_units ss)) + mset (held c')"
    using conserve [of c p] assms(2) by simp
  have "mset (table_held m) + mset a = mset (table_held xs) + (mset (held c) + mset a) + mset (table_held ys)"
    by (simp add: m table_held_def ac_simps)
  also have "\<dots> = mset (concat (map settled_units ss)) + mset (table_held (al_put k c' m))"
    unfolding one put by (simp add: table_held_def ac_simps)
  finally show ?thesis .
qed

lemma table_count_up:
  assumes "map_of m k = Some c" "serve p c = (a, ss, c')"
  shows "counts_le (table_counts m) (table_counts (al_put k c' m))"
proof -
  obtain xs ys where m: "m = xs @ (k, c) # ys" and put: "\<And>v. al_put k v m = xs @ (k, v) # ys"
    using map_of_decompose [OF assms(1)] by metis
  have "counts_le (counts c) (counts c')" using count_up [of c p] assms(2) by simp
  then show ?thesis unfolding table_counts_def put unfolding m
    by (simp add: sum_counts_append) (intro add_counts_mono counts_le_refl)
qed

end

subsection \<open>The coordinator fulfils it\<close>

lemma reset_counts: "counts_le (co_counts co) (co_counts (snd (reset_coordinator t co)))"
  by (simp add: reset_coordinator_def fail_units_def worker_died_def remove_prefix_def count_failure_def counts_le_def
      Let_def)

lemma settled_query_counts: "counts_le (co_counts co) (co_counts (settle_query q oc t co))"
  by (auto simp: settle_query_def counts_le_def back_to_loop_def bump_counts_def count_failure_def remove_prefix_def
      worker_died_def Let_def split: option.split query_outcome.split semantic_decision.split)

lemma finish_counts: "counts_le (co_counts co) (co_counts (finish_query q r t co))"
proof -
  have "counts_le (co_counts co) (co_counts (bump_counts (count_outcome oc) co'))" if "co_counts co' = co_counts co" for oc co'
    using that by (simp add: bump_counts_def count_outcome_def counts_le_def)
  then show ?thesis unfolding finish_query_def Let_def
    by (intro counts_le_trans [OF _ settled_query_counts]) (simp split: if_split)
qed

lemma turn_counts: "counts_le (co_counts co) (co_counts (snd (loop_turn uc i ex t co)))"
  by (auto simp: loop_turn_def Let_def case_prod_unfold counts_le_def count_failure_def remove_prefix_def
      begin_query_def res_bind_eq_Inr split: sum.split)

lemma append_counts: "append_unit u b t co = Inr (es, co') \<Longrightarrow> counts_le (co_counts co) (co_counts co')"
  by (auto simp: append_unit_def fail_units_def ensure_worker_def count_failure_def counts_le_def
      split: option.splits if_splits)

lemma flush_counts: "co_counts (snd (request_flush co)) = co_counts co"
  by (simp add: request_flush_def ensure_worker_def)

lemma enter_counts: "counts_le (co_counts co) (co_counts (snd (enter_callback co)))"
  by (simp add: enter_callback_def counts_le_def back_to_loop_def bump_counts_def split: worker.split)

lemma leave_counts: "counts_le (co_counts co) (co_counts (leave_callback uc co))"
    "co_counts (callback_raised co) = co_counts co"
  by (simp_all add: leave_callback_def callback_raised_def counts_le_def back_to_loop_def bump_counts_def worker_died_def
      split: worker.split)

lemma step_counts: "counts_le (co_counts co) (co_counts (snd (snd (co_step uc loads p co))))"
proof (cases p)
  case (Append u b t)
  show ?thesis
  proof (cases "append_unit u b t co")
    case (Inr r)
    then obtain es co' where "append_unit u b t co = Inr (es, co')" by (cases r) auto
    from append_counts [OF this] this show ?thesis by (simp add: Append split: list.split)
  qed (simp add: Append)
next
  case (Finish r t)
  then show ?thesis by (simp add: finish_counts split: worker.split)
next
  case (EndClose t)
  then show ?thesis using reset_counts [of "co\<lparr>co_closed := True\<rparr>" t] by (simp add: end_close_def case_prod_unfold)
qed (simp_all add: case_prod_unfold flush_counts turn_counts enter_counts leave_counts reset_counts begin_close_def)

definition lane_serve ::
    "unidb \<Rightarrow> (ustring \<Rightarrow> json option) \<Rightarrow> co_op \<times> nat \<Rightarrow> lane \<Rightarrow> pending_unit list \<times> settlement list \<times> lane" where
  "lane_serve uc loads p l =
     (case co_step uc loads (fst p) (ln_co l) of (a, ss, co) \<Rightarrow> (a, ss, l\<lparr>ln_entered := snd p, ln_co := co\<rparr>))"

definition lane_held :: "lane \<Rightarrow> pending_unit list" where
  "lane_held l = in_hand (ln_co l) @ co_pending (ln_co l)"

interpretation book: lane_book "lane_serve uc loads" lane_held "\<lambda>l. co_counts (ln_co l)" for uc loads
proof
  fix l :: lane and p :: "co_op \<times> nat"
  obtain a ss co where step: "co_step uc loads (fst p) (ln_co l) = (a, ss, co)" by (cases "co_step uc loads (fst p) (ln_co l)")
  from step_balanced [of "ln_co l" uc loads "fst p"] step
  have "mset (in_hand (ln_co l) @ co_pending (ln_co l) @ a)
      = mset (concat (map settled_units ss) @ in_hand co @ co_pending co)"
    by (simp only: balanced_def fst_conv snd_conv)
  then show "mset (lane_held l) + mset (fst (lane_serve uc loads p l))
      = mset (concat (map settled_units (fst (snd (lane_serve uc loads p l)))))
        + mset (lane_held (snd (snd (lane_serve uc loads p l))))"
    by (simp add: lane_serve_def lane_held_def step add.assoc)
  show "counts_le (co_counts (ln_co l)) (co_counts (ln_co (snd (snd (lane_serve uc loads p l)))))"
    using step_counts [of "ln_co l" uc loads "fst p"] by (simp add: lane_serve_def step)
qed

subsection \<open>Buffers shrink\<close>

definition shrinks :: "coordinator \<Rightarrow> coordinator \<Rightarrow> bool" where
  "shrinks co co' \<longleftrightarrow> (\<exists>n. co_pending co' = drop n (co_pending co))"

lemma shrinks_same: "co_pending co' = co_pending co \<Longrightarrow> shrinks co co'"
  unfolding shrinks_def by (intro exI [of _ 0]) simp

lemma shrinks_mset: "shrinks co co' \<Longrightarrow> mset (co_pending co') \<subseteq># mset (co_pending co)"
  unfolding shrinks_def by (metis append_take_drop_id mset_append mset_subset_eq_add_right)

lemma turn_shrinks: "shrinks co (snd (loop_turn uc i ex t co))"
proof (cases "co_pending (snd (loop_turn uc i ex t co)) = co_pending co")
  case False
  then have "\<exists>n. co_pending (snd (loop_turn uc i ex t co)) = drop n (co_pending co)"
    by (auto simp: loop_turn_def Let_def case_prod_unfold begin_query_def res_bind_eq_Inr split: if_splits sum.splits)
  then show ?thesis by (simp add: shrinks_def)
qed (rule shrinks_same)

lemma settle_shrinks: "co_pending co1 = co_pending co \<Longrightarrow> shrinks co (settle_query q oc t co1)"
  unfolding settle_query_def
  by (auto simp: case_prod_unfold split: option.split query_outcome.split semantic_decision.split intro: shrinks_same)
    (auto simp: shrinks_def)

lemma reset_pending: "co_pending (snd (reset_coordinator t co)) = []"
  by (simp add: reset_coordinator_def fail_units_def case_prod_unfold)

lemma step_shrinks:
  assumes "\<And>u b t. p \<noteq> Append u b t"
  shows "shrinks co (snd (snd (co_step uc loads p co)))"
proof (cases p)
  case (Append u b t)
  with assms show ?thesis by blast
next
  case (Turn i ex t)
  then show ?thesis using turn_shrinks shrinks_same by simp
next
  case (Finish r t)
  then show ?thesis
    by (auto simp: finish_query_def Let_def intro: settle_shrinks shrinks_same split: worker.split)
next
  case Seal
  then show ?thesis by (intro shrinks_same) (simp add: request_flush_def)
next
  case EnterCallback
  then show ?thesis by (intro shrinks_same) (simp add: case_prod_unfold enter_callback_def split: worker.split)
next
  case LeaveCallback
  then show ?thesis by (intro shrinks_same) (simp add: leave_callback_def split: worker.split)
next
  case CallbackRaises
  then show ?thesis by (intro shrinks_same) (simp add: callback_raised_def split: worker.split)
next
  case (Reset t)
  then have "co_pending (snd (snd (co_step uc loads p co))) = drop (length (co_pending co)) (co_pending co)"
    by (simp add: case_prod_unfold reset_pending)
  then show ?thesis unfolding shrinks_def by blast
next
  case (EndClose t)
  then have "co_pending (snd (snd (co_step uc loads p co))) = drop (length (co_pending co)) (co_pending co)"
    by (simp add: case_prod_unfold end_close_def reset_pending)
  then show ?thesis unfolding shrinks_def by blast
next
  case RequestEnds
  then show ?thesis by (intro shrinks_same) simp
next
  case BeginClose
  then show ?thesis by (intro shrinks_same) simp
qed

subsection \<open>The invariant of the router\<close>

definition router_held :: "router \<Rightarrow> pending_unit list" where
  "router_held ro = concat (map (\<lambda>p. lane_held (snd p)) (ro_lanes ro))"

definition lanes_ok :: "unidb \<Rightarrow> router \<Rightarrow> bool" where
  "lanes_ok uc ro \<longleftrightarrow> distinct (map fst (ro_lanes ro)) \<and> length (ro_lanes ro) \<le> ro_max_lanes ro
     \<and> (\<forall>p \<in> set (ro_lanes ro). co_sound uc (ln_co (snd p))
          \<and> fixed (ln_co (snd p)) = (ro_config ro, ro_target ro))"

definition units_fit :: "router \<Rightarrow> pending_unit multiset \<Rightarrow> bool" where
  "units_fit ro M \<longleftrightarrow> (\<forall>i. count (image_mset pu_id M) i \<le> 1) \<and> size M \<le> ro_max_units ro
     \<and> sum_mset (image_mset (\<lambda>u. length (pu_text u)) M) \<le> router_limit ro"

definition router_inv :: "unidb \<Rightarrow> router \<Rightarrow> bool" where
  "router_inv uc ro \<longleftrightarrow> 1 \<le> ro_max_lanes ro \<and> lanes_ok uc ro \<and> units_fit ro (mset (router_pending ro))
     \<and> length (ro_dialogue ro) \<le> 2"

definition limits :: "router \<Rightarrow> semantic_config \<times> ustring \<times> nat \<times> nat" where
  "limits ro = (ro_config ro, ro_target ro, ro_max_lanes ro, ro_max_units ro)"

lemma units_fit_subset:
  assumes "units_fit ro M" "N \<subseteq># M" "limits ro' = limits ro"
  shows "units_fit ro' N"
proof -
  obtain D where "M = N + D" using assms(2) by (metis subset_mset.le_iff_add)
  then have parts: "\<And>i. count (image_mset pu_id N) i \<le> count (image_mset pu_id M) i" "size N \<le> size M"
    "sum_mset (image_mset (\<lambda>u. length (pu_text u)) N) \<le> sum_mset (image_mset (\<lambda>u. length (pu_text u)) M)" by simp_all
  have "count (image_mset pu_id N) i \<le> 1" for i
    using parts(1) [of i] assms(1) by (auto simp: units_fit_def intro: le_trans)
  with parts(2,3) assms(1,3) show ?thesis by (simp add: units_fit_def router_limit_def limits_def)
qed

lemma router_counts_eq:
  "router_counts ro = add_counts (add_counts (ro_retired ro) (ro_own ro))
     (sum_counts (map (\<lambda>p. co_counts (ln_co (snd p))) (ro_lanes ro)))"
  unfolding router_counts_def by (rule fold_add_counts)

text \<open>What a step of the router does to its units, counts and invariant.\<close>

definition routes :: "unidb \<Rightarrow> bool \<Rightarrow> router \<Rightarrow> pending_unit list \<Rightarrow> settlement list \<Rightarrow> router \<Rightarrow> bool" where
  "routes uc cancelled ro a ss ro' \<longleftrightarrow> router_inv uc ro' \<and> limits ro' = limits ro
     \<and> counts_le (router_counts ro) (router_counts ro')
     \<and> mset (router_pending ro') \<subseteq># mset (router_pending ro) + mset a
     \<and> mset (router_held ro) + mset a = mset (concat (map settled_units ss)) + mset (router_held ro')
     \<and> list_all (settlement_sound uc (ro_config ro) cancelled) ss"

abbreviation quiet :: "unidb \<Rightarrow> router \<Rightarrow> router \<Rightarrow> bool" where
  "quiet uc ro ro' \<equiv> routes uc False ro [] [] ro'"

lemma quiet_refl: "router_inv uc ro \<Longrightarrow> quiet uc ro ro"
  by (simp add: routes_def)

lemma routesD:
  assumes "routes uc c ro a ss ro'"
  shows "router_inv uc ro'" "limits ro' = limits ro" "counts_le (router_counts ro) (router_counts ro')"
    "mset (router_pending ro') \<subseteq># mset (router_pending ro) + mset a"
    "mset (router_held ro) + mset a = mset (concat (map settled_units ss)) + mset (router_held ro')"
    "list_all (settlement_sound uc (ro_config ro) c) ss" "ro_config ro' = ro_config ro"
  using assms unfolding routes_def limits_def by blast+

lemma settlement_mono: "settlement_sound uc cfg b s \<Longrightarrow> (b \<longrightarrow> b') \<Longrightarrow> settlement_sound uc cfg b' s"
  by (auto simp: settlement_sound_def split: settlement.splits)

lemma routes_trans:
  assumes "routes uc c ro a ss ro1" "routes uc d ro1 a' ss' ro2"
  shows "routes uc (c \<or> d) ro (a @ a') (ss @ ss') ro2"
proof -
  note one = routesD [OF assms(1)] and two = routesD [OF assms(2)]
  have "list_all (settlement_sound uc (ro_config ro) (c \<or> d)) ss"
    using one(6) by (rule list.pred_mono_strong) (simp add: settlement_mono)
  moreover have "list_all (settlement_sound uc (ro_config ro) (c \<or> d)) ss'"
    using two(6) unfolding one(7) by (rule list.pred_mono_strong) (simp add: settlement_mono)
  ultimately have "list_all (settlement_sound uc (ro_config ro) (c \<or> d)) (ss @ ss')" by simp
  moreover have "mset (router_held ro) + mset (a @ a')
      = mset (concat (map settled_units (ss @ ss'))) + mset (router_held ro2)"
  proof -
    have "mset (router_held ro) + mset (a @ a') = (mset (router_held ro) + mset a) + mset a'" by (simp add: ac_simps)
    also have "\<dots> = mset (concat (map settled_units ss)) + (mset (router_held ro1) + mset a')"
      unfolding one(5) by (simp only: add.assoc)
    finally show ?thesis unfolding two(5) by (simp add: ac_simps)
  qed
  moreover have "mset (router_pending ro2) \<subseteq># mset (router_pending ro) + mset (a @ a')"
    using subset_mset.order_trans [OF two(4) subset_mset.add_right_mono [OF one(4)]] by (simp add: ac_simps)
  moreover have "limits ro2 = limits ro" using one(2) two(2) by simp
  ultimately show ?thesis using two(1) counts_le_trans [OF one(3) two(3)] unfolding routes_def by blast
qed

lemma quiet_trans: "quiet uc ro ro1 \<Longrightarrow> routes uc c ro1 a ss ro2 \<Longrightarrow> routes uc c ro a ss ro2"
  using routes_trans [of uc False ro "[]" "[]" ro1 c a ss ro2] by simp

subsection \<open>Quiet steps\<close>

lemma quietI:
  assumes "router_inv uc ro" "limits ro' = limits ro" "lanes_ok uc ro'"
    "mset (router_pending ro') \<subseteq># mset (router_pending ro)" "length (ro_dialogue ro') \<le> 2"
    "counts_le (router_counts ro) (router_counts ro')" "mset (router_held ro') = mset (router_held ro)"
  shows "quiet uc ro ro'"
proof -
  have "units_fit ro' (mset (router_pending ro'))"
    using units_fit_subset [OF _ assms(4,2)] assms(1) by (simp add: router_inv_def)
  with assms show ?thesis by (simp add: routes_def router_inv_def) (simp add: limits_def)
qed

lemma al_del_middle: "distinct (map fst (xs @ (k, v) # ys)) \<Longrightarrow> al_del k (xs @ (k, v) # ys) = xs @ ys"
proof -
  assume "distinct (map fst (xs @ (k, v) # ys))"
  then have "filter (\<lambda>p. fst p \<noteq> k) xs = xs" "filter (\<lambda>p. fst p \<noteq> k) ys = ys"
    by (force intro!: filter_True)+
  then show ?thesis by (simp add: al_del_def)
qed

lemma al_put_fresh: "map_of m k = None \<Longrightarrow> al_put k v m = m @ [(k, v)]"
  by (induction m) auto

lemma idle_held: "coordinator_idle co \<Longrightarrow> co_pending co = [] \<and> in_hand co = []"
proof -
  assume idle: "coordinator_idle co"
  have keys: "set (map fst (fold (\<lambda>u m. al_put (pu_id u) u m) us m)) = pu_id ` set us \<union> set (map fst m)" for us m
    by (induction us arbitrary: m) (auto simp del: set_map)
  have "pu_id ` set (co_active co @ co_pending co) = {}"
    using idle keys [of "co_active co @ co_pending co" "[]"] by (simp add: coordinator_idle_def unsettled_units_def)
  then show ?thesis using idle by (simp add: coordinator_idle_def in_hand_def)
qed

lemma sound_lane: "lanes_ok uc ro \<Longrightarrow> map_of (ro_lanes ro) k = Some l \<Longrightarrow>
    co_sound uc (ln_co l) \<and> fixed (ln_co l) = (ro_config ro, ro_target ro)"
  by (auto simp: lanes_ok_def dest: map_of_SomeD)

lemma lane_retires:
  assumes inv: "router_inv uc ro" and l: "map_of (ro_lanes ro) k = Some l" and idle: "coordinator_idle (ln_co l)"
  shows "quiet uc ro (retire_lane k ro) \<and> map_of (ro_lanes (retire_lane k ro)) k = None
    \<and> length (ro_lanes (retire_lane k ro)) < length (ro_lanes ro)"
proof -
  obtain xs ys where m: "ro_lanes ro = xs @ (k, l) # ys" using map_of_decompose [OF l] by metis
  have ok: "lanes_ok uc ro" using inv by (simp add: router_inv_def)
  then have dist: "distinct (map fst (xs @ (k, l) # ys))" by (simp add: lanes_ok_def m)
  have r: "retire_lane k ro = ro\<lparr>ro_lanes := xs @ ys, ro_retired := add_counts (ro_retired ro) (co_counts (ln_co l))\<rparr>"
    using l al_del_middle [OF dist] by (simp add: retire_lane_def m)
  have "quiet uc ro (retire_lane k ro)"
  proof (rule quietI [OF inv])
    show "lanes_ok uc (retire_lane k ro)" using ok dist by (auto simp: r lanes_ok_def m)
    show "mset (router_pending (retire_lane k ro)) \<subseteq># mset (router_pending ro)"
      by (simp add: r router_pending_def m)
    have "router_counts (retire_lane k ro) = router_counts ro"
      by (simp add: router_counts_eq r m sum_counts_append add_counts_ac)
    then show "counts_le (router_counts ro) (router_counts (retire_lane k ro))" by simp
    show "mset (router_held (retire_lane k ro)) = mset (router_held ro)"
      using idle_held [OF idle] by (simp add: r router_held_def m lane_held_def)
  qed (use inv in \<open>simp_all add: r limits_def router_inv_def\<close>)
  moreover have "map_of (ro_lanes (retire_lane k ro)) k = None" using l by (simp add: retire_lane_def)
  ultimately show ?thesis by (simp add: r m)
qed

lemma lane_added:
  assumes inv: "router_inv uc ro" and new: "map_of (ro_lanes ro) k = None"
    and room: "length (ro_lanes ro) < ro_max_lanes ro"
  shows "quiet uc ro (add_lane k ro)"
proof -
  define l where "l = \<lparr>ln_id = ro_next ro, ln_entered = 0, ln_co = new_coordinator (ro_config ro) (ro_target ro)\<rparr>"
  have r: "add_lane k ro = ro\<lparr>ro_lanes := ro_lanes ro @ [(k, l)], ro_next := ro_next ro + 1\<rparr>"
    using new by (simp add: add_lane_def al_put_fresh l_def)
  have co: "co_pending (ln_co l) = []" "in_hand (ln_co l) = []" "co_counts (ln_co l) = no_counts"
    "fixed (ln_co l) = (ro_config ro, ro_target ro)" "co_sound uc (ln_co l)"
    by (simp_all add: l_def new_coordinator_sound) (simp_all add: new_coordinator_def in_hand_def no_counts_def fixed_def)
  have ok: "lanes_ok uc ro" using inv by (simp add: router_inv_def)
  show ?thesis
  proof (rule quietI [OF inv])
    show "lanes_ok uc (add_lane k ro)"
      using ok new room co(4,5) by (auto simp: r lanes_ok_def map_of_eq_None_iff)
    have "router_counts (add_lane k ro) = router_counts ro"
      by (simp add: router_counts_eq r sum_counts_append co)
    then show "counts_le (router_counts ro) (router_counts (add_lane k ro))" by simp
  qed (use inv co in \<open>simp_all add: r limits_def router_inv_def router_pending_def router_held_def lane_held_def\<close>)
qed

lemma lane_opens:
  assumes inv: "router_inv uc ro" and op: "open_lane k ro = Some ro1"
  shows "quiet uc ro ro1"
proof (cases "map_of (ro_lanes ro) k = None \<and> \<not> length (ro_lanes ro) < ro_max_lanes ro")
  case False
  with op inv lane_added [OF inv, of k] show ?thesis by (auto simp: open_lane_def quiet_refl split: if_splits)
next
  case True
  with op obtain p where f: "find (\<lambda>p. coordinator_idle (ln_co (snd p))) (ro_lanes ro) = Some p"
    and ro1: "ro1 = add_lane k (retire_lane (fst p) ro)"
    by (auto simp: open_lane_def split: if_splits option.splits)
  from f have p: "p \<in> set (ro_lanes ro)" "coordinator_idle (ln_co (snd p))" by (auto simp: find_Some_iff)
  have ok: "lanes_ok uc ro" using inv by (simp add: router_inv_def)
  then have l: "map_of (ro_lanes ro) (fst p) = Some (snd p)" using p(1) by (simp add: lanes_ok_def)
  note gone = lane_retires [OF inv l p(2)]
  let ?r = "retire_lane (fst p) ro"
  have inv': "router_inv uc ?r" and lim: "limits ?r = limits ro" using gone by (simp_all add: routes_def)
  have none: "map_of (ro_lanes ?r) k = None" using True l by (simp add: retire_lane_def)
  have "length (ro_lanes ?r) < ro_max_lanes ?r" using gone ok lim by (simp add: lanes_ok_def limits_def)
  from lane_added [OF inv' none this] gone show ?thesis unfolding ro1 by (blast intro: quiet_trans)
qed

lemma lane_moves: "router_inv uc ro \<Longrightarrow> quiet uc ro (move_to_end k ro)"
proof (cases "map_of (ro_lanes ro) k")
  case (Some l)
  assume inv: "router_inv uc ro"
  obtain xs ys where m: "ro_lanes ro = xs @ (k, l) # ys" using map_of_decompose [OF Some] by metis
  have ok: "lanes_ok uc ro" using inv by (simp add: router_inv_def)
  then have dist: "distinct (map fst (xs @ (k, l) # ys))" by (simp add: lanes_ok_def m)
  have r: "move_to_end k ro = ro\<lparr>ro_lanes := xs @ ys @ [(k, l)]\<rparr>"
    using Some al_del_middle [OF dist] by (simp add: move_to_end_def m)
  show ?thesis
  proof (rule quietI [OF inv])
    show "lanes_ok uc (move_to_end k ro)" using ok dist by (auto simp: r lanes_ok_def m)
    have "router_counts (move_to_end k ro) = router_counts ro"
      by (simp add: router_counts_eq r m sum_counts_append add_counts_ac)
    then show "counts_le (router_counts ro) (router_counts (move_to_end k ro))" by simp
  qed (use inv in \<open>simp_all add: r m limits_def router_inv_def router_pending_def router_held_def ac_simps\<close>)
qed (simp add: move_to_end_def quiet_refl)

lemma lanes_flush:
  assumes inv: "router_inv uc ro"
  shows "quiet uc ro (snd (router_flush ro))"
proof (cases "ro_closed ro")
  case False
  let ?f = "\<lambda>(s, l). (s, l\<lparr>ln_co := snd (request_flush (ln_co l))\<rparr>)"
  have r: "snd (router_flush ro) = ro\<lparr>ro_lanes := map ?f (ro_lanes ro)\<rparr>"
    using False by (simp add: router_flush_def)
  have co: "co_pending (snd (request_flush co)) = co_pending co" "in_hand (snd (request_flush co)) = in_hand co" for co
    by (simp_all add: request_flush_def)
  have ok: "lanes_ok uc ro" using inv by (simp add: router_inv_def)
  have keys: "map fst (map ?f xs) = map fst xs" for xs by (simp add: case_prod_unfold comp_def)
  show ?thesis
  proof (rule quietI [OF inv])
    show "lanes_ok uc (snd (router_flush ro))"
      using ok unfolding r lanes_ok_def
      by (auto simp: keys flush_sound flush_config simp del: map_map)
    have "router_counts (snd (router_flush ro)) = router_counts ro"
      by (simp add: router_counts_eq r comp_def case_prod_unfold flush_counts)
    then show "counts_le (router_counts ro) (router_counts (snd (router_flush ro)))" by simp
  qed (use inv in \<open>simp_all add: r limits_def router_inv_def router_pending_def router_held_def lane_held_def comp_def
      case_prod_unfold co\<close>)
qed (simp add: router_flush_def quiet_refl inv)

text \<open>Fields the invariant does not mention.\<close>

definition same_route :: "router \<Rightarrow> router \<Rightarrow> bool" where
  "same_route ro ro' \<longleftrightarrow> limits ro' = limits ro \<and> ro_lanes ro' = ro_lanes ro \<and> ro_dialogue ro' = ro_dialogue ro
     \<and> ro_retired ro' = ro_retired ro \<and> ro_own ro' = ro_own ro"

lemma same_route_views:
  assumes "same_route ro ro'"
  shows "router_inv uc ro' = router_inv uc ro" "router_counts ro' = router_counts ro" "router_held ro' = router_held ro"
    "router_pending ro' = router_pending ro" "limits ro' = limits ro" "ro_config ro' = ro_config ro"
  using assms by (simp_all add: same_route_def limits_def router_inv_def lanes_ok_def units_fit_def router_limit_def
      router_counts_def router_held_def router_pending_def)

lemma routes_same: "same_route ro1 ro2 \<Longrightarrow> routes uc c ro a ss ro1 \<Longrightarrow> routes uc c ro a ss ro2"
  by (simp add: routes_def same_route_views)

lemma scope_noted:
  assumes inv: "router_inv uc ro"
  shows "quiet uc ro (note_scope u ro)"
proof -
  have tag: "quiet uc ro (ro'\<lparr>ro_last_scope := x\<rparr>)" if "quiet uc ro ro'" for ro' x
    by (rule routes_same [OF _ that]) (simp add: same_route_def limits_def)
  show ?thesis unfolding note_scope_def
    by (rule tag) (simp add: lanes_flush [OF inv] quiet_refl [OF inv])
qed

end
