(* ===== verification/RouterProps.thy ===== *)
theory RouterProps
  imports RouterInv
begin

text \<open>
  Runs of the semantic router and its properties: what is buffered stays bounded over all lanes, no unit is lost or
  settled twice although lanes come and go, and the diagnostics never decrease.
\<close>

subsection \<open>A step of one lane\<close>

lemma lane_served:
  assumes inv: "router_inv uc ro" and l: "map_of (ro_lanes ro) k = Some l" and ok: "op_ok uc q"
    and step: "co_step uc loads q (ln_co l) = (a, ss, co)"
    and ro': "ro' = ro\<lparr>ro_lanes := al_put k (l\<lparr>ln_entered := n, ln_co := co\<rparr>) (ro_lanes ro)\<rparr>"
    and pend: "mset (co_pending co) \<subseteq># mset (co_pending (ln_co l)) + mset a"
    and fit: "units_fit ro (mset (router_pending ro) + mset a)"
  shows "routes uc (cancels q) ro a ss ro'"
proof -
  let ?l = "l\<lparr>ln_entered := n, ln_co := co\<rparr>"
  obtain xs ys where m: "ro_lanes ro = xs @ (k, l) # ys" and put: "\<And>v. al_put k v (ro_lanes ro) = xs @ (k, v) # ys"
    using map_of_decompose [OF l] by metis
  have lanes: "ro_lanes ro' = xs @ (k, ?l) # ys" by (simp add: ro' put)
  have rok: "lanes_ok uc ro" using inv by (simp add: router_inv_def)
  note sound = sound_lane [OF rok l]
  have serve: "lane_serve uc loads (q, n) l = (a, ss, ?l)" by (simp add: lane_serve_def step)
  have sub: "mset (router_pending ro') \<subseteq># mset (router_pending ro) + mset a"
  proof -
    have "mset (router_pending ro') = mset (co_pending co) + mset (concat (map (\<lambda>p. co_pending (ln_co (snd p))) (xs @ ys)))"
      by (simp add: router_pending_def lanes)
    moreover have "mset (router_pending ro) + mset a = (mset (co_pending (ln_co l)) + mset a)
        + mset (concat (map (\<lambda>p. co_pending (ln_co (snd p))) (xs @ ys)))"
      by (simp add: router_pending_def m)
    ultimately show ?thesis using pend by (metis subset_mset.add_right_mono)
  qed
  have lim: "limits ro' = limits ro" by (simp add: ro' limits_def)
  have "lanes_ok uc ro'"
    using rok step_sound [of uc "ln_co l" q loads] step_config [of uc loads q "ln_co l"] sound ok step
    unfolding lanes_ok_def lanes m by (auto simp: ro')
  then have "router_inv uc ro'"
    using inv units_fit_subset [OF fit sub lim] by (simp add: router_inv_def ro')
  moreover have "counts_le (router_counts ro) (router_counts ro')"
  proof -
    have "router_counts r = add_counts (add_counts (ro_retired r) (ro_own r))
        (lane_book.table_counts (\<lambda>l. co_counts (ln_co l)) (ro_lanes r))" for r
      by (simp add: router_counts_eq book.table_counts_def)
    then show ?thesis using book.table_count_up [OF l serve] by (simp add: ro' add_counts_mono)
  qed
  moreover have "mset (router_held ro) + mset a = mset (concat (map settled_units ss)) + mset (router_held ro')"
  proof -
    have "router_held r = lane_book.table_held lane_held (ro_lanes r)" for r
      by (simp add: router_held_def book.table_held_def)
    then show ?thesis using book.table_conserve [OF l serve] by (simp add: ro')
  qed
  moreover have "list_all (settlement_sound uc (ro_config ro) (cancels q)) ss"
    using step_settlements [of uc "ln_co l" q loads] sound step by (simp add: fixed_def)
  ultimately show ?thesis using sub lim unfolding routes_def by blast
qed

subsection \<open>Appending\<close>

lemma flush_routes: "routes uc c ro a ss ro1 \<Longrightarrow> routes uc c ro a ss (snd (router_flush ro1))"
  using routes_trans [of uc c ro a ss ro1 False "[]" "[]"] lanes_flush [of uc ro1] routesD(1) by fastforce

definition turned_away :: "unit_event list \<Rightarrow> settlement list" where
  "turned_away es = map (\<lambda>e. case e of FailureEvent f \<Rightarrow> TurnedAway f | CommitEvent c \<Rightarrow> Committed c) es"

lemma unit_turned_away:
  assumes inv: "router_inv uc ro" and t: "turn_away u reason now ro = (r, ro')"
  shows "\<exists>f. r = Inr ([FailureEvent f], False) \<and> uf_units f = [u] \<and> routes uc False ro [] [TurnedAway f] ro'"
proof -
  let ?r = "snd (router_flush ro)"
  note q = lanes_flush [OF inv]
  from t obtain f where r: "r = Inr ([FailureEvent f], False)" and f: "uf_units f = [u]"
    and ro': "ro' = ?r\<lparr>ro_own := (ro_own ?r)\<lparr>n_failures := n_failures (ro_own ?r) + 1,
      n_retired_units := n_retired_units (ro_own ?r) + 1\<rparr>\<rparr>"
    by (auto simp: turn_away_def router_failure_def Let_def)
  have "counts_le (ro_own ?r) (ro_own ro')" by (simp add: ro' counts_le_def)
  then have counts: "counts_le (router_counts ?r) (router_counts ro')"
    by (simp add: router_counts_eq ro' add_counts_mono)
  have views: "limits ro' = limits ?r" "router_pending ro' = router_pending ?r" "router_held ro' = router_held ?r"
    by (simp_all add: ro' limits_def router_pending_def router_held_def)
  have "router_inv uc ro'"
    using routesD(1) [OF q] by (simp add: ro' router_inv_def lanes_ok_def units_fit_def router_limit_def router_pending_def)
  then have "routes uc False ?r [] [TurnedAway f] ro'"
    using counts by (simp add: routes_def views settlement_sound_def)
  from quiet_trans [OF q this] r f show ?thesis by blast
qed

lemma lane_appended:
  assumes ok: "pending_unit_ok uc u" and inv: "router_inv uc ro"
    and fit: "units_fit ro (mset (router_pending ro) + {#u#})" and e: "enter_lane u boundary now ro = (r, ro')"
  shows "case r of Inl _ \<Rightarrow> quiet uc ro ro'
    | Inr (es, _) \<Rightarrow> if es = [] then routes uc False ro [u] [] ro' else routes uc False ro [] (turned_away es) ro'"
proof (cases "map_of (ro_lanes ro) (unit_scope u)")
  case None
  with e inv show ?thesis by (auto simp: enter_lane_def quiet_refl)
next
  case l: (Some l)
  show ?thesis
  proof (cases "append_unit u boundary now (ln_co l)")
    case (Inl err)
    with e l inv show ?thesis by (auto simp: enter_lane_def quiet_refl)
  next
    case (Inr p)
    then obtain es co where ap: "append_unit u boundary now (ln_co l) = Inr (es, co)" by (cases p) auto
    define ro1 where "ro1 = ro\<lparr>ro_lanes := al_put (unit_scope u) (l\<lparr>ln_co := co\<rparr>) (ro_lanes ro)\<rparr>"
    have same: "l\<lparr>ln_entered := ln_entered l, ln_co := co\<rparr> = l\<lparr>ln_co := co\<rparr>" by simp
    have ro1: "ro1 = ro\<lparr>ro_lanes := al_put (unit_scope u) (l\<lparr>ln_entered := ln_entered l, ln_co := co\<rparr>) (ro_lanes ro)\<rparr>"
      unfolding same by (rule ro1_def)
    have fit0: "units_fit ro (mset (router_pending ro) + mset [])" using inv by (simp add: router_inv_def)
    have kept: "co_pending co = (if es = [] then co_pending (ln_co l) @ [u] else co_pending (ln_co l))"
      using ap by (auto simp: append_unit_def fail_units_def split: option.splits if_splits)
    have step: "if es = [] then co_step uc (\<lambda>_. None) (Append u boundary now) (ln_co l) = ([u], [], co)
        else co_step uc (\<lambda>_. None) (Append u boundary now) (ln_co l) = ([], turned_away es, co)"
      using ap by (cases es) (simp_all add: turned_away_def of_event_def cong: unit_event.case_cong)
    have c: "cancels (Append u boundary now) = False" by (simp add: cancels_def)
    have routed: "if es = [] then routes uc False ro [u] [] ro1 else routes uc False ro [] (turned_away es) ro1"
    proof (cases "es = []")
      case True
      have "routes uc (cancels (Append u boundary now)) ro [u] [] ro1"
        by (rule lane_served [OF inv l _ _ ro1, where loads = "\<lambda>_. None"])
          (use True step kept ok fit in auto)
      with True c show ?thesis by simp
    next
      case False
      have "routes uc (cancels (Append u boundary now)) ro [] (turned_away es) ro1"
        by (rule lane_served [OF inv l _ _ ro1 _ fit0, where loads = "\<lambda>_. None"])
          (use False step kept ok in auto)
      with False c show ?thesis by simp
    qed
    show ?thesis
    proof (cases "es = [] \<and> boundary")
      case True
      then have "r = Inr ([], False)" "ro' = snd (router_flush ro1)"
        using e l ap by (simp_all add: enter_lane_def Let_def ro1_def)
      with True routed flush_routes show ?thesis by auto
    next
      case False
      then have "r = Inr (es, boundary)" "ro' = ro1"
        using e l ap by (auto simp: enter_lane_def Let_def ro1_def)
      with routed show ?thesis by simp
    qed
  qed
qed

lemma fits_more:
  assumes "units_fit ro (mset us)" "pu_id u \<notin> pu_id ` set us" "length us < ro_max_units ro"
    "total_length (map pu_text us) + length (pu_text u) \<le> router_limit ro"
  shows "units_fit ro (mset us + {#u#})"
proof -
  have len: "sum_mset (image_mset (\<lambda>u. length (pu_text u)) (mset us)) = total_length (map pu_text us)"
    by (induction us) (simp_all add: total_length_def)
  have "count (image_mset pu_id (mset us)) (pu_id u) = 0"
    using assms(2) by (auto simp: count_eq_zero_iff)
  then have "count (image_mset pu_id (mset us + {#u#})) i \<le> 1" for i
    using assms(1) by (cases "pu_id u = i") (auto simp: units_fit_def)
  with assms(1,3,4) len show ?thesis by (simp add: units_fit_def)
qed

lemma router_append_routes:
  assumes ok: "pending_unit_ok uc u" and inv: "router_inv uc ro"
    and ap: "router_append u boundary now ro = (r, ro')"
  shows "case r of Inl _ \<Rightarrow> quiet uc ro ro'
    | Inr (es, _) \<Rightarrow> if es = [] then routes uc False ro [u] [] ro' else routes uc False ro [] (turned_away es) ro'"
proof -
  let ?P = "\<lambda>(r :: (unit_event list \<times> bool) res, ro'). case r of Inl _ \<Rightarrow> quiet uc ro ro'
    | Inr (es, _) \<Rightarrow> if es = [] then routes uc False ro [u] [] ro' else routes uc False ro [] (turned_away es) ro'"
  have away: "?P (turn_away u reason now ro)" for reason
  proof (cases "turn_away u reason now ro")
    case (Pair a b)
    from unit_turned_away [OF inv Pair] Pair show ?thesis by (auto simp: turned_away_def)
  qed
  have err: "?P (Inl e, ro)" for e using inv by (simp add: quiet_refl)
  have enter: "?P (enter_lane u boundary now (note_scope u (move_to_end (unit_scope u) ro1)))"
    if fit: "units_fit ro (mset (router_pending ro) + {#u#})" and op: "open_lane (unit_scope u) ro = Some ro1" for ro1
  proof -
    let ?r = "note_scope u (move_to_end (unit_scope u) ro1)"
    note q1 = lane_opens [OF inv op]
    note q2 = lane_moves [OF routesD(1) [OF q1], of "unit_scope u"]
    have q: "quiet uc ro ?r" using quiet_trans [OF q1 quiet_trans [OF q2 scope_noted [OF routesD(1) [OF q2]]]] .
    have "units_fit ?r (mset (router_pending ?r) + {#u#})"
      by (rule units_fit_subset [OF fit _ routesD(2) [OF q]])
        (use routesD(4) [OF q] in \<open>simp add: subset_mset.add_right_mono\<close>)
    note entered = lane_appended [OF ok routesD(1) [OF q] this, of boundary now]
    obtain a b where e: "enter_lane u boundary now ?r = (a, b)" by (cases "enter_lane u boundary now ?r")
    from entered [OF e] show ?thesis unfolding e prod.case
      using quiet_trans [OF q, of _ _ _ b] by (auto split: sum.splits if_splits)
  qed
  have "?P (router_append u boundary now ro)"
  proof (cases "units_fit ro (mset (router_pending ro) + {#u#})")
    case fit: True
    show ?thesis
    proof (cases "open_lane (unit_scope u) ro")
      case None
      show ?thesis unfolding router_append_def Let_def None option.case
        by (simp only: if_split away err simp_thms)
    next
      case (Some ro1)
      show ?thesis unfolding router_append_def Let_def Some option.case
        by (simp only: if_split away err enter [OF fit Some] simp_thms)
    qed
  next
    case False
    then have "pu_id u \<in> pu_id ` set (router_pending ro) \<or> ro_max_units ro \<le> length (router_pending ro)
        \<or> router_limit ro < total_length (map pu_text (router_pending ro)) + length (pu_text u)"
      using fits_more [of ro "router_pending ro" u] inv by (meson not_le router_inv_def)
    then show ?thesis unfolding router_append_def Let_def
      by (simp only: if_split away err simp_thms) blast
  qed
  with ap show ?thesis by simp
qed

subsection \<open>Steps of the lanes, resets and closing\<close>

lemma routes_dialogue:
  assumes "routes uc c ro a ss ro1" "length d \<le> 2"
  shows "routes uc c ro a ss (ro1\<lparr>ro_dialogue := d\<rparr>)"
proof -
  have "router_inv uc (ro1\<lparr>ro_dialogue := d\<rparr>)"
    using routesD(1) [OF assms(1)] assms(2)
    by (simp add: router_inv_def lanes_ok_def units_fit_def router_limit_def router_pending_def)
  then show ?thesis using assms(1)
    by (simp add: routes_def limits_def router_counts_eq router_held_def router_pending_def)
qed

lemma lane_op_kind: "lane_op k ro p = Some q \<Longrightarrow> (\<forall>u b t. q \<noteq> Append u b t) \<and> cancels q = cancels p"
  by (cases p) (auto simp: cancels_def split: if_splits)

lemma note_commit_dialogue: "\<exists>d. note_commit uc c g ro = ro\<lparr>ro_dialogue := d\<rparr> \<and> (length (ro_dialogue ro) \<le> 2 \<longrightarrow> length d \<le> 2)"
proof (cases "g \<noteq> ro_generation ro \<or> ro_closed ro")
  case True
  then show ?thesis by (intro exI [of _ "ro_dialogue ro"]) (auto simp: note_commit_def)
next
  case False
  then show ?thesis by (auto simp: note_commit_def keep_last_def)
qed

lemma lane_step_routes:
  assumes inv: "router_inv uc ro" and st: "lane_step uc loads k p ro = (ss, ro')"
  shows "routes uc (cancels p) ro [] ss ro'"
proof (cases "map_of (ro_lanes ro) k = None \<or> lane_op k ro p = None")
  case True
  with st have "ss = []" "ro' = ro" by (auto simp: lane_step_def split: option.splits)
  with inv show ?thesis by (simp add: routes_def)
next
  case False
  then obtain l q where l: "map_of (ro_lanes ro) k = Some l" and q: "lane_op k ro p = Some q"
    by (cases "map_of (ro_lanes ro) k"; cases "lane_op k ro p") auto
  obtain a ss1 co where step: "co_step uc loads q (ln_co l) = (a, ss1, co)" by (cases "co_step uc loads q (ln_co l)")
  have kind: "\<forall>u b t. q \<noteq> Append u b t" "cancels q = cancels p" using lane_op_kind [OF q] by auto
  have none: "a = []"
  proof -
    have "fst (co_step uc loads q (ln_co l)) = []" using kind(1) by (cases q) (auto split: prod.split)
    with step show ?thesis by simp
  qed
  have ok: "op_ok uc q" using kind(1) by (cases q) auto
  define n where "n = (if q = EnterCallback then ro_generation ro else ln_entered l)"
  define ro1 where "ro1 = (case committed_by q (ln_co l) of None \<Rightarrow> ro | Some c \<Rightarrow> note_commit uc c (ln_entered l) ro)"
  define served where "served = ro\<lparr>ro_lanes := al_put k (l\<lparr>ln_entered := n, ln_co := co\<rparr>) (ro_lanes ro)\<rparr>"
  have two: "length (ro_dialogue ro) \<le> 2" using inv by (simp add: router_inv_def)
  obtain d where d: "ro1 = ro\<lparr>ro_dialogue := d\<rparr>" "length d \<le> 2"
  proof (cases "committed_by q (ln_co l)")
    case None
    then show thesis using that [of "ro_dialogue ro"] two by (simp add: ro1_def)
  next
    case (Some c)
    then show thesis using that note_commit_dialogue [of uc c "ln_entered l" ro] two by (auto simp: ro1_def)
  qed
  have "(ss, ro') = (ss1, served\<lparr>ro_dialogue := d\<rparr>)"
    unfolding st [symmetric] using l q step by (simp add: lane_step_def Let_def served_def n_def [symmetric] ro1_def [symmetric] d)
  then have ro': "ro' = served\<lparr>ro_dialogue := d\<rparr>" and ss: "ss = ss1" by simp_all
  have pend: "mset (co_pending co) \<subseteq># mset (co_pending (ln_co l)) + mset a"
    using shrinks_mset [OF step_shrinks [of q "ln_co l" uc loads]] kind(1) step none by simp
  have fit: "units_fit ro (mset (router_pending ro) + mset a)" using inv none by (simp add: router_inv_def)
  have "routes uc (cancels q) ro a ss1 served"
    by (rule lane_served [OF inv l ok step _ pend fit]) (simp add: served_def)
  from routes_dialogue [OF this d(2)] show ?thesis by (simp add: ro' ss none kind(2))
qed

lemma idle_retires: "router_inv uc ro \<Longrightarrow> quiet uc ro (retire_if_idle p ro)"
  using lane_retires [of uc ro "fst p"] by (auto simp: retire_if_idle_def quiet_refl split: option.split)

lemma idle_lanes_retire: "router_inv uc ro \<Longrightarrow> quiet uc ro (fold retire_if_idle ps ro)"
proof (induction ps arbitrary: ro)
  case (Cons p ps)
  note one = idle_retires [OF Cons.prems, of p]
  from quiet_trans [OF one Cons.IH [OF routesD(1) [OF one]]] show ?case by simp
qed (simp add: quiet_refl)

lemma quiet_field: "router_inv uc ro \<Longrightarrow> same_route ro ro' \<Longrightarrow> quiet uc ro ro'"
  using routes_same [of ro ro'] quiet_refl by blast

lemma quiet_cleared:
  assumes "router_inv uc ro" "same_route (ro\<lparr>ro_dialogue := []\<rparr>) ro'"
  shows "quiet uc ro ro'"
  using routes_same [OF assms(2) routes_dialogue [OF quiet_refl [OF assms(1)], of "[]"]] by simp

subsection \<open>Runs\<close>

datatype router_op =
    RAppend pending_unit bool rat
  | RSeal
  | RLane scope_key co_op
  | RBeginReset
  | REndReset checkpoint
  | RBeginClose
  | RShut
  | REndClose checkpoint

fun router_step ::
    "unidb \<Rightarrow> (ustring \<Rightarrow> json option) \<Rightarrow> router_op \<Rightarrow> router \<Rightarrow> pending_unit list \<times> settlement list \<times> router" where
  "router_step uc loads (RAppend u b t) ro =
     (case router_append u b t ro of
        (Inl _, ro') \<Rightarrow> ([], [], ro')
      | (Inr (es, _), ro') \<Rightarrow> if es = [] then ([u], [], ro') else ([], turned_away es, ro'))"
| "router_step uc loads RSeal ro = ([], [], snd (router_flush ro))"
| "router_step uc loads (RLane k p) ro = (case lane_step uc loads k p ro of (ss, ro') \<Rightarrow> ([], ss, ro'))"
| "router_step uc loads RBeginReset ro = ([], [], snd (begin_reset ro))"
| "router_step uc loads (REndReset lanes) ro = ([], [], end_reset lanes ro)"
| "router_step uc loads RBeginClose ro = ([], [], begin_router_close ro)"
| "router_step uc loads RShut ro = ([], [], snd (shut_router ro))"
| "router_step uc loads (REndClose lanes) ro = ([], [], end_router_close lanes ro)"

fun router_run ::
    "unidb \<Rightarrow> (ustring \<Rightarrow> json option) \<Rightarrow> router_op list \<Rightarrow> router \<Rightarrow> pending_unit list \<times> settlement list \<times> router" where
  "router_run uc loads [] ro = ([], [], ro)"
| "router_run uc loads (p # ps) ro =
     (case router_step uc loads p ro of (a, s, ro1) \<Rightarrow>
        (case router_run uc loads ps ro1 of (a', s', ro') \<Rightarrow> (a @ a', s @ s', ro')))"

text \<open>Units are built, hence valid, before they are appended; only a reset or a close of a lane drops units.\<close>

fun router_op_ok :: "unidb \<Rightarrow> router_op \<Rightarrow> bool" where
  "router_op_ok uc (RAppend u b t) = pending_unit_ok uc u"
| "router_op_ok uc _ = True"

fun router_cancels :: "router_op \<Rightarrow> bool" where
  "router_cancels (RLane k p) = cancels p"
| "router_cancels _ = False"

lemma step_routes:
  assumes inv: "router_inv uc ro" and ok: "router_op_ok uc p" and st: "router_step uc loads p ro = (a, ss, ro')"
  shows "routes uc (router_cancels p) ro a ss ro'"
proof (cases p)
  case (RAppend u b t)
  obtain r ro1 where ap: "router_append u b t ro = (r, ro1)" by (cases "router_append u b t ro")
  from router_append_routes [OF _ inv ap] ok RAppend have "case r of Inl _ \<Rightarrow> quiet uc ro ro1
    | Inr (es, _) \<Rightarrow> if es = [] then routes uc False ro [u] [] ro1 else routes uc False ro [] (turned_away es) ro1" by simp
  with st RAppend ap show ?thesis by (auto split: sum.splits if_splits)
next
  case (RLane k q)
  with st lane_step_routes [OF inv, of loads k q] show ?thesis by (auto split: prod.splits)
next
  case RBeginReset
  with st quiet_cleared [OF inv, of ro'] show ?thesis by (auto simp: begin_reset_def same_route_def limits_def)
next
  case (REndReset lanes)
  have q: "quiet uc ro (ro\<lparr>ro_resetting := False\<rparr>)"
    by (rule quiet_field [OF inv]) (simp add: same_route_def limits_def)
  have "quiet uc ro ((fold retire_if_idle lanes (ro\<lparr>ro_resetting := False\<rparr>))\<lparr>ro_last_scope := None\<rparr>)"
    by (rule routes_same [OF _ quiet_trans [OF q idle_lanes_retire [OF routesD(1) [OF q], of lanes]]])
      (simp add: same_route_def limits_def)
  with st REndReset show ?thesis by (auto simp: end_reset_def)
next
  case RBeginClose
  with st quiet_field [OF inv, of ro'] show ?thesis by (auto simp: begin_router_close_def same_route_def limits_def)
next
  case RShut
  with st quiet_cleared [OF inv, of ro'] show ?thesis by (auto simp: shut_router_def same_route_def limits_def)
qed (use st lanes_flush [OF inv] idle_lanes_retire [OF inv] in \<open>auto simp: end_router_close_def\<close>)

lemma run_routes:
  "router_inv uc ro \<Longrightarrow> list_all (router_op_ok uc) ps \<Longrightarrow> router_run uc loads ps ro = (a, ss, ro') \<Longrightarrow>
     routes uc (list_ex router_cancels ps) ro a ss ro'"
proof (induction ps arbitrary: ro a ss ro')
  case (Cons p ps)
  obtain a1 s1 ro1 where one: "router_step uc loads p ro = (a1, s1, ro1)" by (cases "router_step uc loads p ro")
  obtain a2 s2 ro2 where two: "router_run uc loads ps ro1 = (a2, s2, ro2)" by (cases "router_run uc loads ps ro1")
  have s: "routes uc (router_cancels p) ro a1 s1 ro1" using step_routes [OF Cons.prems(1) _ one] Cons.prems(2) by simp
  have "routes uc (list_ex router_cancels ps) ro1 a2 s2 ro2"
    by (rule Cons.IH [OF routesD(1) [OF s] _ two]) (use Cons.prems(2) in simp)
  from routes_trans [OF s this] Cons.prems(3) one two show ?case by simp
qed (simp add: quiet_refl)

lemma new_router_inv: "new_router cfg target lanes units = Inr ro \<Longrightarrow> router_inv uc ro"
  by (auto simp: new_router_def router_inv_def lanes_ok_def units_fit_def router_pending_def split: if_splits)

lemma router_runs:
  assumes "new_router cfg target lanes units = Inr r0" "list_all (router_op_ok uc) ops"
    "router_run uc loads ops r0 = (a, ss, ro)"
  shows "routes uc (list_ex router_cancels ops) r0 a ss ro \<and> router_held r0 = [] \<and> limits ro = (cfg, target, lanes, units)"
proof -
  note s = run_routes [OF new_router_inv [OF assms(1)] assms(2,3)]
  have "router_held r0 = []" "limits r0 = (cfg, target, lanes, units)"
    using assms(1) by (auto simp: new_router_def router_held_def limits_def split: if_splits)
  with s routesD(2) [OF s] show ?thesis by simp
qed

subsection \<open>A concrete session\<close>

definition routed_unit :: "string \<Rightarrow> string \<Rightarrow> pending_unit" where
  "routed_unit i l = \<lparr>pu_id = lit i, pu_text = lit ''hi '', pu_language = lit ''en'', pu_track = lit ''t'', pu_epoch = lit ''e'',
     pu_created = 0, pu_lane = lit l\<rparr>"

definition routed_config :: semantic_config where
  "routed_config = \<lparr>sc_interval = 1 / 2, sc_hold = 3 / 2, sc_timeout = 5 / 2, sc_age = 5, sc_units = 32, sc_source = 4000,
     sc_response = 32768, sc_result = 24000\<rparr>"

definition sample_router :: router where
  "sample_router = (case new_router routed_config (lit ''ko'') 1 8 of Inr ro \<Rightarrow> ro | Inl _ \<Rightarrow> undefined)"

text \<open>Two speakers share one lane slot: the first lane ages out and is retired for the second.\<close>

definition routed_ops :: "router_op list" where
  "routed_ops = (let k = unit_scope (routed_unit ''u1'' ''a'')
     in [RAppend (routed_unit ''u1'' ''a'') True 0, RAppend (routed_unit ''u2'' ''b'') False 1,
         RLane k (Turn (lit ''r'') None 6), RLane k EnterCallback, RLane k LeaveCallback, RLane k (Turn (lit ''r'') None 7),
         RAppend (routed_unit ''u3'' ''b'') False 7])"

lemma sample_router_new: "new_router routed_config (lit ''ko'') 1 8 = Inr sample_router"
  by code_simp

lemma routed_ops_ok: "list_all (router_op_ok ascii_db) routed_ops"
  by code_simp

definition routed_answer :: "pending_unit list \<times> settlement list \<times> router" where
  "routed_answer = router_run ascii_db (\<lambda>_. None) routed_ops sample_router"

lemma routed_run:
  "router_run ascii_db (\<lambda>_. None) routed_ops sample_router
     = (fst routed_answer, fst (snd routed_answer), snd (snd routed_answer))"
  by (simp add: routed_answer_def)

text \<open>
  Whatever units arrive, and however lanes are opened, retired, flushed, reset and closed, the router holds at most
  \<open>max_lanes\<close> lanes, and over all lanes at most \<open>max_total_units\<close> pending units with distinct IDs and at most
  4000 (or \<open>max_source_chars\<close>) characters; the dialogue keeps at most two excerpts.
\<close>

theorem router_bounded:
  assumes "new_router cfg target lanes units = Inr r0" "list_all (router_op_ok uc) ops"
    "router_run uc loads ops r0 = (a, ss, ro)"
  shows "length (ro_lanes ro) \<le> lanes \<and> length (router_pending ro) \<le> units \<and> distinct (map pu_id (router_pending ro))
    \<and> total_length (map pu_text (router_pending ro)) \<le> min 4000 (sc_source cfg) \<and> length (ro_dialogue ro) \<le> 2"
proof -
  from router_runs [OF assms] have s: "routes uc (list_ex router_cancels ops) r0 a ss ro"
    and lim: "limits ro = (cfg, target, lanes, units)" by blast+
  note inv = routesD(1) [OF s]
  have fit: "units_fit ro (mset (router_pending ro))" using inv by (simp add: router_inv_def)
  have len: "sum_mset (image_mset (\<lambda>u. length (pu_text u)) (mset us)) = total_length (map pu_text us)" for us
    by (induction us) (simp_all add: total_length_def)
  have "count (mset (map pu_id (router_pending ro))) i \<le> 1" for i using fit by (simp add: units_fit_def)
  then have "distinct (map pu_id (router_pending ro))"
    by (simp add: distinct_count_atmost_1 le_Suc_eq count_eq_zero_iff del: mset_map set_map)
  with fit inv lim show ?thesis
    by (simp add: len units_fit_def router_inv_def lanes_ok_def limits_def router_limit_def)
qed

lemma router_bounded_witness:
  "length (ro_lanes (snd (snd routed_answer))) \<le> 1 \<and> length (router_pending (snd (snd routed_answer))) \<le> 8
     \<and> distinct (map pu_id (router_pending (snd (snd routed_answer))))
     \<and> total_length (map pu_text (router_pending (snd (snd routed_answer)))) \<le> min 4000 (sc_source routed_config)
     \<and> length (ro_dialogue (snd (snd routed_answer))) \<le> 2"
  by (rule router_bounded [OF sample_router_new routed_ops_ok routed_run])

text \<open>
  C17: every unit the router takes in is settled once, still in the hand of a lane's worker, or pending, also when lanes are
  retired to make room; a published translation covers units of one lane only, which are valid, and its text is
  bounded; a unit leaves without a callback only when a lane is reset or closed.
\<close>

theorem router_units_settled_once:
  assumes "new_router cfg target lanes units = Inr r0" "list_all (router_op_ok uc) ops"
    "router_run uc loads ops r0 = (a, ss, ro)"
  shows "mset a = mset (concat (map settled_units ss)) + mset (router_held ro)
    \<and> list_all (settlement_sound uc cfg (list_ex router_cancels ops)) ss"
proof -
  from router_runs [OF assms] have s: "routes uc (list_ex router_cancels ops) r0 a ss ro" and e: "router_held r0 = []"
    and lim: "limits ro = (cfg, target, lanes, units)" by blast+
  have "ro_config r0 = cfg" using routesD(2) [OF s] lim by (simp add: limits_def)
  with routesD(5,6) [OF s] e show ?thesis by simp
qed

lemma router_units_settled_once_witness:
  "(mset (fst routed_answer) = mset (concat (map settled_units (fst (snd routed_answer))))
        + mset (router_held (snd (snd routed_answer)))
     \<and> list_all (settlement_sound ascii_db routed_config (list_ex router_cancels routed_ops)) (fst (snd routed_answer)))
   \<and> map (\<lambda>s. case s of Retired f \<Rightarrow> (1 :: nat, map pu_id (uf_units f)) | TurnedAway f \<Rightarrow> (2, map pu_id (uf_units f)) | _ \<Rightarrow> (0, []))
       (fst (snd routed_answer)) = [(2, [lit ''u2'']), (1, [lit ''u1''])]
   \<and> map pu_id (router_pending (snd (snd routed_answer))) = [lit ''u3'']"
  by (rule conjI [OF router_units_settled_once [OF sample_router_new routed_ops_ok routed_run]]) code_simp

text \<open>
  The session's diagnostics never decrease: each counter of the router, summed over live lanes, retired lanes and its own
  rejections, is at least what it was, although lanes are retired with their counters.
\<close>

theorem router_counts_never_decrease:
  assumes "new_router cfg target lanes units = Inr r0" "list_all (router_op_ok uc) (ops @ more_ops)"
    "router_run uc loads ops r0 = (a, ss, ro)" "router_run uc loads more_ops ro = (a', ss', ro')"
  shows "counts_le (router_counts ro) (router_counts ro')"
proof -
  have "routes uc (list_ex router_cancels ops) r0 a ss ro" using router_runs [OF assms(1) _ assms(3)] assms(2) by simp
  from run_routes [OF routesD(1) [OF this] _ assms(4)] assms(2) have "routes uc (list_ex router_cancels more_ops) ro a' ss' ro'"
    by simp
  then show ?thesis by (rule routesD(3))
qed

lemma router_counts_never_decrease_witness:
  "counts_le (router_counts sample_router) (router_counts (snd (snd routed_answer)))
     \<and> n_failures (router_counts (snd (snd routed_answer))) = 2"
proof -
  have r: "router_run ascii_db (\<lambda>_. None) [] sample_router = ([], [], sample_router)" by simp
  have ok: "list_all (router_op_ok ascii_db) ([] @ routed_ops)" using routed_ops_ok by simp
  have "n_failures (router_counts (snd (snd routed_answer))) = 2" by code_simp
  with router_counts_never_decrease [OF sample_router_new ok r routed_run] show ?thesis by blast
qed

end
