(* ===== verification/SpeakerTracker.thy ===== *)
theory SpeakerTracker
  imports EngineBase "HOL-Library.List_Lexorder" "HOL-Library.Product_Lexorder"
begin

text \<open>
  Model of \<^verbatim>\<open>speakers.py\<close>: open-set tracking of speaker embeddings. Times are capture nanoseconds. A finite float is
  an exact rational; the square sqr of the standard library is the argument \<open>sqr\<close>, and \<open>digits\<close> is
  \<open>int(s)\<close> for a text with \<open>s.isdigit()\<close>. Dictionaries are lists in insertion order. \<open>observe\<close> answers next to
  the tracker it leaves, also when it raises.
\<close>

subsection \<open>Values\<close>

record tracker_config =
  tk_match :: rat
  tk_new :: rat
  tk_candidate :: rat
  tk_update :: rat
  tk_margin :: rat
  tk_quality :: rat
  tk_min_speech :: int
  tk_confirm_speech :: int
  tk_confirmations :: int
  tk_idle :: int
  tk_max_candidates :: nat
  tk_max_speakers :: nat
  tk_max_recent :: nat
  tk_rate :: rat

definition tracker_config_ok :: "tracker_config \<Rightarrow> bool" where
  "tracker_config_ok c \<longleftrightarrow>
     list_all (\<lambda>x. -1 \<le> x \<and> x \<le> 1) [tk_new c, tk_match c, tk_candidate c, tk_update c]
     \<and> tk_new c < tk_match c \<and> tk_match c \<le> tk_update c \<and> tk_new c < tk_candidate c
     \<and> 0 \<le> tk_margin c \<and> tk_margin c \<le> 2 \<and> 0 \<le> tk_quality c \<and> tk_quality c \<le> 1
     \<and> 0 < tk_rate c \<and> tk_rate c \<le> 1
     \<and> 0 < tk_min_speech c \<and> 0 < tk_confirm_speech c \<and> 0 < tk_idle c
     \<and> 0 < tk_max_candidates c \<and> 0 < tk_max_speakers c \<and> 0 < tk_max_recent c \<and> 2 \<le> tk_confirmations c"

type_synonym interval = "int \<times> int"

record observation =
  ob_sample :: ustring
  ob_track :: ustring
  ob_start :: int
  ob_stop :: int
  ob_embedding :: "pyfloat list"
  ob_speech :: int
  ob_overlap :: bool
  ob_quality :: pyfloat
  ob_support :: "interval list"
  ob_ready :: "int option"

datatype assign_status = UnknownSpeaker | ProvisionalSpeaker | ExistingSpeaker | NewSpeaker

record assignment =
  as_sample :: ustring
  as_track :: ustring
  as_start :: int
  as_stop :: int
  as_status :: assign_status
  as_speaker :: "ustring option"
  as_candidate :: "ustring option"
  as_similarity :: "rat option"
  as_reason :: ustring
  as_support :: "interval list"

record speaker_profile =
  sp_id :: ustring
  sp_name :: ustring
  sp_vector :: "rat list"
  sp_count :: int
  sp_seen :: int
  sp_support_end :: int

record speaker_candidate =
  ca_id :: ustring
  ca_vector :: "rat list"
  ca_count :: int
  ca_speech :: int
  ca_support_end :: int

subsection \<open>Support intervals\<close>

fun interval_chain :: "int \<Rightarrow> int \<Rightarrow> interval list \<Rightarrow> bool" where
  "interval_chain p e [] = True"
| "interval_chain p e ((a, b) # r) = (p \<le> a \<and> a < b \<and> b \<le> e \<and> interval_chain b e r)"

definition support_intervals_for :: "int \<Rightarrow> int \<Rightarrow> interval list \<Rightarrow> interval list res" where
  "support_intervals_for start stop intervals =
     (if start < 0 \<or> stop \<le> start then Inl (ValueError ''invalid support envelope'')
      else if 32 < length intervals then Inl (ValueError ''Supply at most 32 immutable support intervals'')
      else if intervals = [] then Inr [(start, stop)]
      else if \<not> interval_chain start stop intervals
        then Inl (ValueError ''Support intervals must be ordered, disjoint and inside their envelope'')
      else if fst (hd intervals) \<noteq> start \<or> snd (last intervals) \<noteq> stop \<or> 10000000000 < stop - start
        then Inl (ValueError ''Sparse support must exactly bound an envelope of at most 10 seconds'')
      else Inr intervals)"

subsection \<open>Vectors\<close>

definition dot :: "rat list \<Rightarrow> rat list \<Rightarrow> rat" where
  "dot l r = sum_list (map (\<lambda>(a, b). a * b) (zip l r))"

definition unit_vector :: "(rat \<Rightarrow> rat) \<Rightarrow> rat list \<Rightarrow> rat list res" where
  "unit_vector sqr v =
     (if v = [] then Inl (ValueError ''embedding must be nonempty and finite'')
      else
        let scale = Max (set (map abs v)); scaled = map (\<lambda>x. x / scale) v; norm = sqr (dot scaled scaled)
        in if scale = 0 then Inl (ValueError ''zero embedding is not a speaker observation'')
           else Inr (map (\<lambda>x. x / norm) scaled))"

definition normalize_embedding :: "(rat \<Rightarrow> rat) \<Rightarrow> pyfloat list \<Rightarrow> rat list res" where
  "normalize_embedding sqr v =
     (if \<not> list_all pf_finite v then Inl (ValueError ''embedding must be nonempty and finite'')
      else unit_vector sqr (map pf_val v))"

definition similarity :: "rat list \<Rightarrow> rat list \<Rightarrow> rat" where
  "similarity l r = max (-1) (min 1 (dot l r))"

definition blend :: "(rat \<Rightarrow> rat) \<Rightarrow> rat list \<Rightarrow> rat list \<Rightarrow> rat \<Rightarrow> rat list res" where
  "blend sqr l r w = unit_vector sqr (map (\<lambda>(a, b). (1 - w) * a + w * b) (zip l r))"

subsection \<open>State\<close>

record speaker_tracker =
  ot_config :: tracker_config
  ot_speakers :: "(ustring \<times> speaker_profile) list"
  ot_candidates :: "(ustring \<times> speaker_candidate) list"
  ot_recent :: "(ustring \<times> ustring) list"
  ot_dimension :: "nat option"
  ot_watermark :: int
  ot_credited :: "interval list"
  ot_floor :: int
  ot_sparse :: bool
  ot_speaker_seq :: nat
  ot_candidate_seq :: nat

definition empty_speakers :: "tracker_config \<Rightarrow> speaker_tracker" where
  "empty_speakers cfg = \<lparr>ot_config = cfg, ot_speakers = [], ot_candidates = [], ot_recent = [], ot_dimension = None,
     ot_watermark = -1, ot_credited = [], ot_floor = 0, ot_sparse = False, ot_speaker_seq = 0, ot_candidate_seq = 0\<rparr>"

text \<open>The number of a restored ID \<open>speaker-<number>\<close>.\<close>

definition speaker_number :: "(ustring \<Rightarrow> nat option) \<Rightarrow> ustring \<Rightarrow> nat option" where
  "speaker_number digits s =
     (let suffix = rev (takeWhile (\<lambda>c. c \<noteq> 45) (rev s))
      in if take (length s - length suffix) s \<noteq> lit ''speaker-'' then None
         else case digits suffix of None \<Rightarrow> None | Some n \<Rightarrow> if n = 0 then None else Some n)"

definition restore_profile ::
    "unidb \<Rightarrow> (rat \<Rightarrow> rat) \<Rightarrow> (ustring \<Rightarrow> nat option) \<Rightarrow> speaker_profile \<Rightarrow> speaker_tracker \<Rightarrow> speaker_tracker res" where
  "restore_profile uc sqr digits p tr =
     (if map_of (ot_speakers tr) (sp_id p) \<noteq> None then Inl (ValueError ''duplicate restored speaker_id'')
      else case speaker_number digits (sp_id p) of
        None \<Rightarrow> Inl (ValueError ''restored speaker_id must have form speaker-<positive integer>'')
      | Some n \<Rightarrow>
          if py_strip uc (sp_name p) = [] then Inl (ValueError ''restored name cannot be empty'')
          else if sp_count p < 1 \<or> sp_support_end p < 0 \<or> sp_seen p < sp_support_end p
            then Inl (ValueError ''invalid restored profile counters/times'')
          else res_bind (unit_vector sqr (sp_vector p)) (\<lambda>v.
            if ot_dimension tr \<noteq> None \<and> ot_dimension tr \<noteq> Some (length v)
              then Inl (ValueError ''embedding dimension changed; use a new tracker for a new model'')
            else Inr (tr\<lparr>ot_dimension := Some (length v),
                   ot_speakers := ot_speakers tr @ [(sp_id p, p\<lparr>sp_vector := v\<rparr>)],
                   ot_speaker_seq := max (ot_speaker_seq tr) n, ot_watermark := max (ot_watermark tr) (sp_seen p),
                   ot_floor := max (ot_floor tr) (sp_seen p)\<rparr>)))"

fun restore_profiles ::
    "unidb \<Rightarrow> (rat \<Rightarrow> rat) \<Rightarrow> (ustring \<Rightarrow> nat option) \<Rightarrow> speaker_profile list \<Rightarrow> speaker_tracker \<Rightarrow> speaker_tracker res" where
  "restore_profiles uc sqr digits [] tr = Inr tr"
| "restore_profiles uc sqr digits (p # ps) tr =
     res_bind (restore_profile uc sqr digits p tr) (restore_profiles uc sqr digits ps)"

definition new_speaker_tracker ::
    "unidb \<Rightarrow> (rat \<Rightarrow> rat) \<Rightarrow> (ustring \<Rightarrow> nat option) \<Rightarrow> tracker_config \<Rightarrow> speaker_profile list \<Rightarrow> speaker_tracker res" where
  "new_speaker_tracker uc sqr digits cfg ps =
     res_bind (restore_profiles uc sqr digits ps (empty_speakers cfg)) (\<lambda>tr.
       if tk_max_speakers cfg < length (ot_speakers tr) then Inl (ValueError ''restored profiles exceed max_speakers'')
       else Inr tr)"

definition rename_speaker :: "unidb \<Rightarrow> ustring \<Rightarrow> ustring \<Rightarrow> speaker_tracker \<Rightarrow> (speaker_profile \<times> speaker_tracker) res" where
  "rename_speaker uc i name tr =
     (let n = py_strip uc name
      in if n = [] \<or> 256 < length n then Inl (ValueError ''name must contain 1 to 256 characters'')
         else case map_of (ot_speakers tr) i of
             None \<Rightarrow> Inl KeyError
           | Some p \<Rightarrow> Inr (p\<lparr>sp_name := n\<rparr>, tr\<lparr>ot_speakers := al_put i (p\<lparr>sp_name := n\<rparr>) (ot_speakers tr)\<rparr>))"

subsection \<open>Time\<close>

definition clip_credit :: "int \<Rightarrow> interval list \<Rightarrow> interval list" where
  "clip_credit low iv = map (\<lambda>(a, b). (max a low, b)) (filter (\<lambda>(a, b). low < b) iv)"

definition advance_clock :: "int \<Rightarrow> speaker_tracker \<Rightarrow> speaker_tracker" where
  "advance_clock now tr =
     (let low = max (max 0 (now - 20000000000)) (ot_floor tr)
      in tr\<lparr>ot_watermark := now,
            ot_candidates := filter (\<lambda>(k, c). \<not> tk_idle (ot_config tr) < now - ca_support_end c) (ot_candidates tr),
            ot_floor := low, ot_credited := clip_credit low (ot_credited tr)\<rparr>)"

definition expire_tracker :: "int \<Rightarrow> speaker_tracker \<Rightarrow> speaker_tracker res" where
  "expire_tracker now tr =
     (if now < 0 then Inl (ValueError ''now_ns must be a nonnegative integer'')
      else if now < ot_watermark tr then Inl (ValueError ''expiry clock cannot go backwards'')
      else Inr (advance_clock now tr))"

definition clear_candidates :: "speaker_tracker \<Rightarrow> nat \<times> speaker_tracker" where
  "clear_candidates tr = (length (ot_candidates tr), tr\<lparr>ot_candidates := []\<rparr>)"

subsection \<open>The credit ledger\<close>

text \<open>\<open>bisect_left(intervals, (t,))\<close>: how many intervals of the sorted list begin before \<open>t\<close>.\<close>

definition bisect_start :: "interval list \<Rightarrow> int \<Rightarrow> nat" where
  "bisect_start iv t = length (takeWhile (\<lambda>(a, b). a < t) iv)"

fun absorb :: "interval \<Rightarrow> interval list \<Rightarrow> interval \<times> interval list" where
  "absorb (s, e) [] = ((s, e), [])"
| "absorb (s, e) ((a, b) # r) = (if a \<le> e then absorb (min s a, max e b) r else ((s, e), (a, b) # r))"

definition unite_interval :: "interval \<Rightarrow> interval list \<Rightarrow> interval list" where
  "unite_interval p iv =
     (let i = bisect_start iv (fst p);
          j = (if 0 < i \<and> fst p \<le> snd (iv ! (i - 1)) then i - 1 else i)
      in case absorb p (drop j iv) of (q, rest) \<Rightarrow> take j iv @ q # rest)"

definition credit_plan :: "interval list \<Rightarrow> speaker_tracker \<Rightarrow> interval list option" where
  "credit_plan supports tr =
     (let united = fold unite_interval supports (ot_credited tr) in if length united \<le> 4096 then Some united else None)"

definition interval_free :: "interval list \<Rightarrow> interval \<Rightarrow> bool" where
  "interval_free iv p = (let i = bisect_start iv (snd p) in i = 0 \<or> snd (iv ! (i - 1)) \<le> fst p)"

definition independent_support :: "interval list \<Rightarrow> speaker_tracker \<Rightarrow> bool" where
  "independent_support supports tr \<longleftrightarrow>
     ot_floor tr \<le> fst (hd supports) \<and> list_all (interval_free (ot_credited tr)) supports"

definition record_support :: "interval list option \<Rightarrow> int \<Rightarrow> speaker_tracker \<Rightarrow> speaker_tracker" where
  "record_support plan stop tr =
     (case plan of Some iv \<Rightarrow> tr\<lparr>ot_credited := iv\<rparr> | None \<Rightarrow> tr\<lparr>ot_floor := max (ot_floor tr) stop\<rparr>)"

subsection \<open>\<open>observe\<close>\<close>

definition speaker_result ::
    "observation \<Rightarrow> assign_status \<Rightarrow> ustring option \<Rightarrow> ustring option \<Rightarrow> rat option \<Rightarrow> string \<Rightarrow> assignment" where
  "speaker_result ob status speaker candidate sim reason =
     \<lparr>as_sample = ob_sample ob, as_track = ob_track ob, as_start = ob_start ob, as_stop = ob_stop ob, as_status = status,
      as_speaker = speaker, as_candidate = candidate, as_similarity = sim, as_reason = lit reason,
      as_support = ob_support ob\<rparr>"

definition sparse_evidence :: "observation \<Rightarrow> bool" where
  "sparse_evidence ob \<longleftrightarrow> ob_support ob \<noteq> [] \<or> ob_ready ob \<noteq> None"

definition evidence_ready :: "observation \<Rightarrow> int" where
  "evidence_ready ob = (case ob_ready ob of None \<Rightarrow> ob_stop ob | Some t \<Rightarrow> t)"

definition check_sample_text :: "unidb \<Rightarrow> ustring \<Rightarrow> unit res" where
  "check_sample_text uc s =
     (if py_strip uc s = [] \<or> 512 < length s then Inl (ValueError ''sample_id and track_id require 1..512 characters'')
      else if list_ex is_surrogate s then Inl (ValueError ''surrogates not allowed'')
      else Inr ())"

definition check_observation :: "unidb \<Rightarrow> observation \<Rightarrow> interval list res" where
  "check_observation uc ob =
     res_bind (check_sample_text uc (ob_sample ob)) (\<lambda>_. res_bind (check_sample_text uc (ob_track ob)) (\<lambda>_.
     (if ob_start ob < 0 \<or> ob_stop ob \<le> ob_start ob \<or> ob_speech ob < 0 \<or> ob_stop ob - ob_start ob < ob_speech ob
        then Inl (ValueError ''invalid observation range or speech duration'')
      else if \<not> pf_finite (ob_quality ob) \<or> pf_val (ob_quality ob) < 0 \<or> 1 < pf_val (ob_quality ob)
        then Inl (ValueError ''quality must be finite and in [0, 1]'')
      else res_bind (support_intervals_for (ob_start ob) (ob_stop ob) (ob_support ob)) (\<lambda>supports.
        if evidence_ready ob < ob_stop ob
          then Inl (ValueError ''evidence_ready_ns must be an integer capture time at or after support end'')
        else if sparse_evidence ob \<and> (20000000000 < evidence_ready ob - ob_start ob \<or> 10000000000 < ob_stop ob - ob_start ob)
          then Inl (ValueError ''Sparse evidence must be ready within 20 seconds of a <=10 second support envelope'')
        else if ob_support ob \<noteq> [] \<and> sum_list (map (\<lambda>(a, b). b - a) supports) \<noteq> ob_speech ob
          then Inl (ValueError ''Sparse support durations must equal speech_duration_ns'')
        else Inr supports))))"

text \<open>Best first; equal similarities by the larger ID, as the reversed sort of pairs orders them.\<close>

definition ranked :: "rat list \<Rightarrow> (ustring \<times> rat list) list \<Rightarrow> (rat \<times> ustring) list" where
  "ranked v items = rev (sort (map (\<lambda>(k, w). (similarity v w, k)) items))"

definition runner_up :: "(rat \<times> ustring) list \<Rightarrow> rat" where
  "runner_up rs = (case rs of _ # r # _ \<Rightarrow> fst r | _ \<Rightarrow> -1)"

record evidence =
  ev_observed :: observation
  ev_supports :: "interval list"
  ev_vector :: "rat list"
  ev_exact :: bool
  ev_independent :: bool
  ev_plan :: "interval list option"
  ev_can :: bool

definition weigh_evidence :: "observation \<Rightarrow> interval list \<Rightarrow> rat list \<Rightarrow> speaker_tracker \<Rightarrow> evidence" where
  "weigh_evidence ob supports v tr =
     (let exact = ot_sparse tr;
          independent = (if exact then independent_support supports tr else True);
          plan = (if independent then credit_plan supports tr else None)
      in \<lparr>ev_observed = ob, ev_supports = supports, ev_vector = v, ev_exact = exact, ev_independent = independent,
          ev_plan = plan, ev_can = (independent \<and> (plan \<noteq> None \<or> \<not> exact))\<rparr>)"

type_synonym observed = "assignment res \<times> speaker_tracker"

definition observe_existing :: "(rat \<Rightarrow> rat) \<Rightarrow> evidence \<Rightarrow> rat \<Rightarrow> ustring \<Rightarrow> speaker_tracker \<Rightarrow> observed" where
  "observe_existing sqr ev best key tr =
     (case map_of (ot_speakers tr) key of
        None \<Rightarrow> (Inl KeyError, tr)
      | Some p \<Rightarrow>
          let ob = ev_observed ev;
              credit = (tk_update (ot_config tr) \<le> best \<and> ev_can ev \<and> (ev_exact ev \<or> sp_support_end p \<le> ob_start ob));
              seen = max (sp_seen p) (ob_stop ob);
              answer = speaker_result ob ExistingSpeaker (Some (sp_id p)) None (Some best) ''matched_existing''
          in if credit
             then (case blend sqr (sp_vector p) (ev_vector ev) (tk_rate (ot_config tr)) of
                 Inl e \<Rightarrow> (Inl e, tr)
               | Inr w \<Rightarrow>
                   (Inr answer, (record_support (ev_plan ev) (ob_stop ob) tr)\<lparr>ot_speakers := al_put (sp_id p)
                      (p\<lparr>sp_vector := w, sp_count := sp_count p + 1, sp_seen := seen,
                         sp_support_end := max (sp_support_end p) (ob_stop ob)\<rparr>) (ot_speakers tr)\<rparr>))
             else (Inr answer, tr\<lparr>ot_speakers := al_put (sp_id p) (p\<lparr>sp_seen := seen\<rparr>) (ot_speakers tr)\<rparr>))"

text \<open>The candidate the observation supports: an existing one that grows, or a new one.\<close>

definition grow_candidate :: "(rat \<Rightarrow> rat) \<Rightarrow> evidence \<Rightarrow> speaker_candidate \<Rightarrow> speaker_candidate res" where
  "grow_candidate sqr ev c =
     (let ob = ev_observed ev; w = of_int (ob_speech ob) / of_int (ca_speech c + ob_speech ob)
      in res_bind (blend sqr (ca_vector c) (ev_vector ev) w) (\<lambda>v.
           Inr (c\<lparr>ca_vector := v, ca_count := ca_count c + 1, ca_speech := ca_speech c + ob_speech ob,
                  ca_support_end := max (ca_support_end c) (ob_stop ob)\<rparr>)))"

definition oldest_candidate :: "(ustring \<times> speaker_candidate) list \<Rightarrow> ustring" where
  "oldest_candidate cs = fst (hd (sort_key (\<lambda>p. ca_support_end (snd p)) cs))"

definition candidate_name :: "nat \<Rightarrow> ustring" where
  "candidate_name n = lit ''candidate-'' @ zero_padded 4 n"

definition speaker_name :: "nat \<Rightarrow> ustring" where
  "speaker_name n = lit ''speaker-'' @ zero_padded 4 n"

definition make_room :: "speaker_tracker \<Rightarrow> speaker_tracker" where
  "make_room tr =
     (if length (ot_candidates tr) < tk_max_candidates (ot_config tr) then tr
      else tr\<lparr>ot_candidates := al_del (oldest_candidate (ot_candidates tr)) (ot_candidates tr)\<rparr>)"

definition fresh_candidate :: "evidence \<Rightarrow> speaker_tracker \<Rightarrow> speaker_candidate" where
  "fresh_candidate ev tr = \<lparr>ca_id = candidate_name (ot_candidate_seq tr + 1), ca_vector = ev_vector ev, ca_count = 1,
     ca_speech = ob_speech (ev_observed ev), ca_support_end = ob_stop (ev_observed ev)\<rparr>"

text \<open>The end of \<open>observe\<close>: the candidate has its new evidence; it is kept, turned away or confirmed.\<close>

definition settle_candidate :: "evidence \<Rightarrow> rat option \<Rightarrow> speaker_candidate \<Rightarrow> speaker_tracker \<Rightarrow> observed" where
  "settle_candidate ev best c tr =
     (let ob = ev_observed ev;
          tr1 = record_support (ev_plan ev) (ob_stop ob) (tr\<lparr>ot_candidates := al_put (ca_id c) c (ot_candidates tr)\<rparr>);
          cfg = ot_config tr
      in if ca_count c < tk_confirmations cfg \<or> ca_speech c < tk_confirm_speech cfg
           then (Inr (speaker_result ob ProvisionalSpeaker None (Some (ca_id c)) best ''collecting_evidence''), tr1)
         else
           let tr2 = tr1\<lparr>ot_candidates := al_del (ca_id c) (ot_candidates tr1)\<rparr>
           in if tk_max_speakers cfg \<le> length (ot_speakers tr)
                then (Inr (speaker_result ob UnknownSpeaker None None None ''speaker_capacity''), tr2)
              else
                let n = ot_speaker_seq tr + 1; i = speaker_name n
                in (Inr (speaker_result ob NewSpeaker (Some i) (Some (ca_id c)) best ''confirmed_new_speaker''),
                    tr2\<lparr>ot_speaker_seq := n, ot_speakers := al_put i
                      \<lparr>sp_id = i, sp_name = lit ''Speaker '' @ dec n, sp_vector = ca_vector c, sp_count = ca_count c,
                       sp_seen = max (ob_stop ob) (ca_support_end c), sp_support_end = ca_support_end c\<rparr>
                      (ot_speakers tr2)\<rparr>))"

definition observe_novel :: "(rat \<Rightarrow> rat) \<Rightarrow> evidence \<Rightarrow> rat option \<Rightarrow> speaker_tracker \<Rightarrow> observed" where
  "observe_novel sqr ev best tr =
     (let ob = ev_observed ev; cfg = ot_config tr;
          pending = ranked (ev_vector ev) (map (\<lambda>(k, c). (k, ca_vector c)) (ot_candidates tr));
          unknown = (\<lambda>sim reason. (Inr (speaker_result ob UnknownSpeaker None None sim reason), tr));
          fresh = (if \<not> ev_can ev
                   then unknown None (if fst (hd (ev_supports ev)) < ot_floor tr then ''historical_evidence_unavailable''
                      else if \<not> ev_independent ev then ''overlapping_evidence'' else ''evidence_capacity'')
                   else let tr1 = make_room tr
                        in settle_candidate ev best (fresh_candidate ev tr1)
                             (tr1\<lparr>ot_candidate_seq := ot_candidate_seq tr1 + 1\<rparr>))
      in case pending of
          [] \<Rightarrow> fresh
        | (sim, key) # _ \<Rightarrow>
            if tk_candidate cfg \<le> sim then
              (if 1 < length pending \<and> sim - runner_up pending < tk_margin cfg
                 then unknown (Some sim) ''ambiguous_candidate''
               else case map_of (ot_candidates tr) key of
                 None \<Rightarrow> (Inl KeyError, tr)
               | Some c \<Rightarrow>
                   let behind = (\<not> ev_exact ev \<and> ob_start ob < ca_support_end c)
                   in if \<not> ev_can ev \<or> behind
                      then (Inr (speaker_result ob ProvisionalSpeaker None (Some (ca_id c)) (Some sim)
                             (if \<not> ev_independent ev \<or> behind then ''overlapping_evidence'' else ''evidence_capacity'')), tr)
                      else (case grow_candidate sqr ev c of Inl e \<Rightarrow> (Inl e, tr)
                            | Inr c' \<Rightarrow> settle_candidate ev best c' tr))
            else if tk_new cfg < sim then unknown (Some sim) ''ambiguous_candidate''
            else fresh)"

definition observe_voice :: "(rat \<Rightarrow> rat) \<Rightarrow> evidence \<Rightarrow> speaker_tracker \<Rightarrow> observed" where
  "observe_voice sqr ev tr =
     (let ob = ev_observed ev; cfg = ot_config tr;
          rs = ranked (ev_vector ev) (map (\<lambda>(k, p). (k, sp_vector p)) (ot_speakers tr));
          novel = (\<lambda>best. if tk_idle cfg < evidence_ready ob - ob_stop ob
             then (Inr (speaker_result ob UnknownSpeaker None None None ''expired_evidence''), tr)
             else observe_novel sqr ev best tr)
      in case rs of
          [] \<Rightarrow> novel None
        | (best, key) # _ \<Rightarrow>
            if tk_match cfg \<le> best then
              (if best - runner_up rs < tk_margin cfg
                 then (Inr (speaker_result ob UnknownSpeaker None None (Some best) ''ambiguous_existing''), tr)
               else observe_existing sqr ev best key tr)
            else if tk_new cfg < best
              then (Inr (speaker_result ob UnknownSpeaker None None (Some best) ''ambiguous_existing''), tr)
            else novel (Some best))"

definition remember_sample :: "ustring \<times> ustring \<Rightarrow> speaker_tracker \<Rightarrow> speaker_tracker" where
  "remember_sample key tr = tr\<lparr>ot_recent := keep_last (tk_max_recent (ot_config tr)) (ot_recent tr @ [key])\<rparr>"

definition observe_speaker :: "unidb \<Rightarrow> (rat \<Rightarrow> rat) \<Rightarrow> observation \<Rightarrow> speaker_tracker \<Rightarrow> observed" where
  "observe_speaker uc sqr ob tr =
     (let unknown = (\<lambda>reason tr'. (Inr (speaker_result ob UnknownSpeaker None None None reason), tr'));
          key = (ob_track ob, ob_sample ob)
      in case check_observation uc ob of
          Inl e \<Rightarrow> (Inl e, tr)
        | Inr supports \<Rightarrow>
            (case normalize_embedding sqr (ob_embedding ob) of
               Inl e \<Rightarrow> (Inl e, tr)
             | Inr v \<Rightarrow>
                 if ot_dimension tr \<noteq> None \<and> ot_dimension tr \<noteq> Some (length v)
                   then (Inl (ValueError ''embedding dimension changed; use a new tracker for a new model''), tr)
                 else if key \<in> set (ot_recent tr) then unknown ''duplicate_sample'' tr
                 else if evidence_ready ob < ot_watermark tr then unknown ''out_of_order'' tr
                 else
                   let tr1 = remember_sample key (advance_clock (evidence_ready ob) tr)
                   in if ob_overlap ob then unknown ''overlap'' tr1
                      else if pf_val (ob_quality ob) < tk_quality (ot_config tr) then unknown ''low_quality'' tr1
                      else if ob_speech ob < tk_min_speech (ot_config tr) then unknown ''insufficient_speech'' tr1
                      else
                        let tr2 = tr1\<lparr>ot_dimension := Some (length v), ot_sparse := ot_sparse tr1 \<or> sparse_evidence ob\<rparr>
                        in observe_voice sqr (weigh_evidence ob supports v tr2) tr2))"

end
