(* ===== verification/SpeakerInv.thy ===== *)
theory SpeakerInv
  imports SpeakerTracker
begin

text \<open>
  The tracker's invariants. The credit ledger is read as the set of nanoseconds its intervals hold: uniting a
  support adds its nanoseconds and keeps the intervals apart, and an interval is free exactly when the ledger holds
  none of its nanoseconds. \<open>tracker_ok\<close> collects what every call keeps; \<open>counted_audio_kept\<close> says that audio once
  counted towards a voice stays in the ledger or below the floor.
\<close>

subsection \<open>The ledger as a set of nanoseconds\<close>

definition audio :: "interval list \<Rightarrow> int set" where
  "audio iv = (\<Union>(a, b) \<in> set iv. {a..<b})"

lemma audio_Nil [simp]: "audio [] = {}"
  and audio_Cons [simp]: "audio (p # iv) = {fst p..<snd p} \<union> audio iv"
  and audio_append [simp]: "audio (iv @ jv) = audio iv \<union> audio jv"
  by (auto simp: audio_def split: prod.splits)

fun separated :: "interval list \<Rightarrow> bool" where
  "separated [] = True"
| "separated (p # r) = (fst p < snd p \<and> (\<forall>q \<in> set r. snd p < fst q) \<and> separated r)"

lemma separated_append [simp]:
  "separated (xs @ ys) \<longleftrightarrow> separated xs \<and> separated ys \<and> (\<forall>p \<in> set xs. \<forall>q \<in> set ys. snd p < fst q)"
  by (induction xs) auto

lemma separated_proper: "separated iv \<Longrightarrow> p \<in> set iv \<Longrightarrow> fst p < snd p"
  by (induction iv) auto

lemma absorb_spec:
  assumes "absorb p r = (q, rest)" "fst p < snd p" "separated r" "\<forall>x \<in> set r. fst p \<le> snd x"
  shows "{fst q..<snd q} \<union> audio rest = {fst p..<snd p} \<union> audio r" "separated (q # rest)"
    "fst q = fst p \<or> fst q \<in> fst ` set r" "set rest \<subseteq> set r"
  using assms
proof (induction p r arbitrary: q rest rule: absorb.induct)
  case (1 s e) { case 1 then show ?case by simp } { case 2 then show ?case by simp }
    { case 3 then show ?case by simp } { case 4 then show ?case by simp }
next
  case (2 s e a b r)
  show "{fst q..<snd q} \<union> audio rest = {fst (s, e)..<snd (s, e)} \<union> audio ((a, b) # r)" "separated (q # rest)"
    "fst q = fst (s, e) \<or> fst q \<in> fst ` set ((a, b) # r)" "set rest \<subseteq> set ((a, b) # r)"
    if asm: "absorb (s, e) ((a, b) # r) = (q, rest)" "fst (s, e) < snd (s, e)" "separated ((a, b) # r)"
      "\<forall>x \<in> set ((a, b) # r). fst (s, e) \<le> snd x" for q rest
  proof -
    have r: "a < b" "\<forall>x \<in> set r. b < fst x" "separated r" "s \<le> b" "s < e" using asm by auto
    have far: "\<forall>x \<in> set r. min s a \<le> snd x" using r separated_proper by fastforce
    have all: "{fst q..<snd q} \<union> audio rest = {s..<e} \<union> audio ((a, b) # r) \<and> separated (q # rest)
        \<and> (fst q = s \<or> fst q \<in> fst ` set ((a, b) # r)) \<and> set rest \<subseteq> set ((a, b) # r)"
    proof (cases "a \<le> e")
      case True
      have q: "absorb (min s a, max e b) r = (q, rest)" using asm(1) True by simp
      have len: "fst (min s a, max e b) < snd (min s a, max e b)" using r by simp
      have far': "\<forall>x \<in> set r. fst (min s a, max e b) \<le> snd x" using far by simp
      note ih = "2.IH" [OF True q len r(3) far']
      have "{fst q..<snd q} \<union> audio rest = {min s a..<max e b} \<union> audio r" using ih(1) by simp
      moreover have "{min s a..<max e b} = {s..<e} \<union> {a..<b}" using r True by auto
      ultimately have 1: "{fst q..<snd q} \<union> audio rest = {s..<e} \<union> audio ((a, b) # r)" by auto
      have 2: "fst q = s \<or> fst q \<in> fst ` set ((a, b) # r)" using ih(3) by (auto simp: min_def)
      show ?thesis using 1 2 ih(2,4) by auto
    next
      case False
      then have "q = (s, e)" "rest = (a, b) # r" using asm(1) by auto
      then show ?thesis using asm False r by (auto simp: dest: bspec)
    qed
    then show "{fst q..<snd q} \<union> audio rest = {fst (s, e)..<snd (s, e)} \<union> audio ((a, b) # r)" "separated (q # rest)"
      "fst q = fst (s, e) \<or> fst q \<in> fst ` set ((a, b) # r)" "set rest \<subseteq> set ((a, b) # r)" by simp_all
  qed
qed

lemma bisect_split:
  assumes "separated iv"
  obtains xs ys where "iv = xs @ ys" "bisect_start iv t = length xs" "\<forall>p \<in> set xs. fst p < t" "\<forall>p \<in> set ys. t \<le> fst p"
proof
  let ?xs = "takeWhile (\<lambda>(a, b). a < t) iv" and ?ys = "dropWhile (\<lambda>(a, b). a < t) iv"
  show split: "iv = ?xs @ ?ys" by simp
  show "bisect_start iv t = length ?xs" by (simp add: bisect_start_def)
  show "\<forall>p \<in> set ?xs. fst p < t" by (auto dest: set_takeWhileD)
  have sep: "separated ?ys" using assms split separated_append by metis
  show "\<forall>p \<in> set ?ys. t \<le> fst p"
  proof (cases ?ys)
    case (Cons y zs)
    have "t \<le> fst y" using hd_dropWhile [of "\<lambda>(a, b). a < t" iv] Cons by (auto simp: case_prod_beta)
    moreover have "fst y < snd y" "\<forall>q \<in> set zs. snd y < fst q" using sep unfolding Cons by simp_all
    ultimately show ?thesis unfolding Cons by fastforce
  next
    case Nil
    show ?thesis unfolding Nil by simp
  qed
qed

lemma unite_interval_spec:
  assumes sep: "separated iv" and p: "fst p < snd p"
  shows "audio (unite_interval p iv) = {fst p..<snd p} \<union> audio iv" "separated (unite_interval p iv)"
proof -
  obtain xs ys where split: "iv = xs @ ys" "bisect_start iv (fst p) = length xs"
    "\<forall>x \<in> set xs. fst x < fst p" "\<forall>x \<in> set ys. fst p \<le> fst x" using bisect_split [OF sep] by blast
  have parts: "separated xs" "separated ys" "\<forall>x \<in> set xs. \<forall>y \<in> set ys. snd x < fst y"
    using sep unfolding split(1) by simp_all
  have yfar: "\<forall>y \<in> set ys. fst p \<le> snd y"
  proof
    fix y assume y: "y \<in> set ys"
    then show "fst p \<le> snd y" using split(4) separated_proper [OF parts(2) y] by force
  qed
  obtain us vs where cut: "iv = us @ vs" "unite_interval p iv = us @ (case absorb p vs of (q, rest) \<Rightarrow> q # rest)"
    "\<forall>x \<in> set us. snd x < fst p" "\<forall>x \<in> set vs. fst p \<le> snd x"
  proof (cases xs rule: rev_cases)
    case Nil
    have a: "iv = [] @ ys" using split(1) unfolding Nil by simp
    have u: "unite_interval p iv = [] @ (case absorb p ys of (q, rest) \<Rightarrow> q # rest)"
      using split(1,2) unfolding Nil by (simp add: unite_interval_def Let_def split: prod.splits)
    show ?thesis by (rule that [OF a u _ yfar]) simp
  next
    case (snoc zs x)
    have z: "\<forall>z \<in> set zs. snd z < fst x" "fst x < fst p" using parts(1) split(3) unfolding snoc by simp_all
    show ?thesis
    proof (cases "fst p \<le> snd x")
      case True
      have u: "unite_interval p iv = zs @ (case absorb p (x # ys) of (q, rest) \<Rightarrow> q # rest)"
        using True split(1,2) unfolding snoc by (simp add: unite_interval_def Let_def nth_append split: prod.splits)
      have a: "\<forall>z \<in> set zs. snd z < fst p" using z by force
      have b: "iv = zs @ x # ys" using split(1) unfolding snoc by simp
      have "\<forall>y \<in> set (x # ys). fst p \<le> snd y" using yfar True by simp
      then show ?thesis by (rule that [OF b u a])
    next
      case False
      have u: "unite_interval p iv = xs @ (case absorb p ys of (q, rest) \<Rightarrow> q # rest)"
        using False split(1,2) unfolding snoc by (simp add: unite_interval_def Let_def nth_append split: prod.splits)
      have "\<forall>z \<in> set xs. snd z < fst p" using z False unfolding snoc by force
      then show ?thesis by (rule that [OF split(1) u _ yfar])
    qed
  qed
  obtain q rest where ab: "absorb p vs = (q, rest)" by fastforce
  have vs: "separated us" "separated vs" "\<forall>x \<in> set us. \<forall>y \<in> set vs. snd x < fst y" using sep unfolding cut(1) by simp_all
  note sp = absorb_spec [OF ab p vs(2) cut(4)]
  have eq: "unite_interval p iv = us @ q # rest" using cut(2) ab by simp
  have "audio (us @ q # rest) = audio us \<union> ({fst p..<snd p} \<union> audio vs)"
    by (simp only: audio_append audio_Cons sp(1))
  then show "audio (unite_interval p iv) = {fst p..<snd p} \<union> audio iv"
    unfolding eq by (simp only: cut(1) audio_append Un_ac)
  have "\<forall>x \<in> set us. \<forall>y \<in> set (q # rest). snd x < fst y"
  proof (intro ballI)
    fix x y assume x: "x \<in> set us" and "y \<in> set (q # rest)"
    then consider "fst y = fst p" | z where "z \<in> set vs" "fst y = fst z" using sp(3,4) by fastforce
    then show "snd x < fst y" using cut(3) vs(3) x by cases auto
  qed
  then show "separated (unite_interval p iv)" using vs(1) sp(2) unfolding eq by simp
qed

lemma unite_all:
  "separated iv \<Longrightarrow> \<forall>p \<in> set ps. fst p < snd p \<Longrightarrow>
     audio (fold unite_interval ps iv) = audio ps \<union> audio iv \<and> separated (fold unite_interval ps iv)"
proof (induction ps arbitrary: iv)
  case (Cons p ps)
  have p: "fst p < snd p" using Cons.prems by simp
  have "audio (fold unite_interval ps (unite_interval p iv)) = audio ps \<union> audio (unite_interval p iv)
      \<and> separated (fold unite_interval ps (unite_interval p iv))"
    using Cons unite_interval_spec(2) [OF _ p] by simp
  then show ?case using unite_interval_spec(1) [OF Cons.prems(1) p] by auto
qed simp

lemma interval_free_iff:
  assumes sep: "separated iv" and p: "fst p < snd p"
  shows "interval_free iv p \<longleftrightarrow> {fst p..<snd p} \<inter> audio iv = {}"
proof -
  obtain xs ys where split: "iv = xs @ ys" "bisect_start iv (snd p) = length xs"
    "\<forall>x \<in> set xs. fst x < snd p" "\<forall>x \<in> set ys. snd p \<le> fst x" using bisect_split [OF sep] by blast
  have ys: "{fst p..<snd p} \<inter> audio ys = {}" using split(4) by (fastforce simp: audio_def)
  show ?thesis
  proof (cases xs rule: rev_cases)
    case Nil then show ?thesis using split ys by (simp add: interval_free_def)
  next
    case (snoc zs x)
    have x: "fst x < snd x" "\<forall>z \<in> set zs. snd z < fst x" "fst x < snd p" using sep split(1,3) unfolding snoc by simp_all
    have "interval_free iv p \<longleftrightarrow> snd x \<le> fst p"
      using split(1,2) unfolding snoc by (simp add: interval_free_def Let_def nth_append)
    also have "\<dots> \<longleftrightarrow> {fst p..<snd p} \<inter> audio xs = {}"
    proof
      assume le: "snd x \<le> fst p"
      then show "{fst p..<snd p} \<inter> audio xs = {}" using x unfolding snoc by (fastforce simp: audio_def)
    next
      assume no: "{fst p..<snd p} \<inter> audio xs = {}"
      show "snd x \<le> fst p"
      proof (rule ccontr)
        assume "\<not> snd x \<le> fst p"
        then have "max (fst p) (fst x) \<in> {fst p..<snd p}" "max (fst p) (fst x) \<in> {fst x..<snd x}" using x p by simp_all
        then have "max (fst p) (fst x) \<in> {fst p..<snd p} \<inter> audio xs" unfolding snoc by simp
        then show False using no by blast
      qed
    qed
    finally show ?thesis using ys split(1) by auto
  qed
qed

lemma clip_credit_spec:
  "separated iv \<Longrightarrow> separated (clip_credit low iv) \<and> audio (clip_credit low iv) = audio iv \<inter> {low..}"
proof (induction iv)
  case (Cons p iv)
  have tail: "\<forall>q \<in> set (clip_credit low iv). snd p < fst q" using Cons.prems by (auto simp: clip_credit_def)
  have ih: "separated (clip_credit low iv)" "audio (clip_credit low iv) = audio iv \<inter> {low..}" using Cons by simp_all
  show ?case
  proof (cases "low < snd p")
    case True
    have eq: "clip_credit low (p # iv) = (max (fst p) low, snd p) # clip_credit low iv"
      using True by (simp add: clip_credit_def case_prod_beta)
    have "{max (fst p) low..<snd p} = {fst p..<snd p} \<inter> {low..}" by auto
    moreover have "separated ((max (fst p) low, snd p) # clip_credit low iv)" using ih(1) tail Cons.prems True by simp
    ultimately show ?thesis unfolding eq by (simp add: ih(2) Int_Un_distrib2)
  next
    case False
    have eq: "clip_credit low (p # iv) = clip_credit low iv" using False by (simp add: clip_credit_def case_prod_beta)
    have "{fst p..<snd p} \<inter> {low..} = {}" using False by auto
    then show ?thesis unfolding eq using ih by (simp add: Int_Un_distrib2)
  qed
qed (simp add: clip_credit_def)

lemma length_clip_credit: "length (clip_credit low iv) \<le> length iv"
  by (simp add: clip_credit_def)

subsection \<open>Numbered IDs\<close>

definition decimal_value :: "ustring \<Rightarrow> nat" where
  "decimal_value s = foldl (\<lambda>n c. 10 * n + (c - 48)) 0 s"

lemma decimal_value_append: "decimal_value (s @ [c]) = 10 * decimal_value s + (c - 48)"
  by (simp add: decimal_value_def)

lemma decimal_value_dec: "decimal_value (dec n) = n"
proof (induction n rule: less_induct)
  case (less n)
  show ?case
  proof (cases "n < 10")
    case True
    have eq: "dec n = [48 + n]" by (subst dec.simps) (simp only: True if_True)
    show ?thesis unfolding eq by (simp add: decimal_value_def)
  next
    case False
    have eq: "dec n = dec (n div 10) @ [48 + n mod 10]" by (subst dec.simps) (simp only: False if_False)
    show ?thesis unfolding eq using less.IH [of "n div 10"] False by (simp add: decimal_value_append)
  qed
qed

lemma decimal_value_padded: "decimal_value (zero_padded w n) = n"
proof -
  have z: "foldl (\<lambda>n c. 10 * n + (c - 48)) (0 :: nat) (replicate k 48) = 0" for k
    by (induction k) simp_all
  show ?thesis using decimal_value_dec [of n] by (simp add: zero_padded_def Let_def decimal_value_def z)
qed

lemma zero_padded_inject: "zero_padded w n = zero_padded w m \<Longrightarrow> n = m"
  by (metis decimal_value_padded)

lemma speaker_name_inject: "speaker_name n = speaker_name m \<longleftrightarrow> n = m"
  and candidate_name_inject: "candidate_name n = candidate_name m \<longleftrightarrow> n = m"
  by (auto simp: speaker_name_def candidate_name_def dest: zero_padded_inject)

subsection \<open>What the classification of one voice can do\<close>

inductive supports_candidate :: "evidence \<Rightarrow> speaker_tracker \<Rightarrow> speaker_candidate \<Rightarrow> speaker_tracker \<Rightarrow> bool" for ev tr where
  grown: "map_of (ot_candidates tr) k = Some c0 \<Longrightarrow> ca_id c = ca_id c0 \<Longrightarrow> ca_count c = ca_count c0 + 1 \<Longrightarrow>
    ca_speech c = ca_speech c0 + ob_speech (ev_observed ev) \<Longrightarrow>
    ca_support_end c = max (ca_support_end c0) (ob_stop (ev_observed ev)) \<Longrightarrow> supports_candidate ev tr c tr"
| fresh: "supports_candidate ev tr (fresh_candidate ev (make_room tr))
    ((make_room tr)\<lparr>ot_candidate_seq := ot_candidate_seq (make_room tr) + 1\<rparr>)"

definition unlike_all :: "evidence \<Rightarrow> speaker_tracker \<Rightarrow> bool" where
  "unlike_all ev tr \<longleftrightarrow>
     (\<forall>k p. map_of (ot_speakers tr) k = Some p \<longrightarrow> similarity (ev_vector ev) (sp_vector p) \<le> tk_new (ot_config tr))"

inductive voiced :: "evidence \<Rightarrow> speaker_tracker \<Rightarrow> assignment res \<Rightarrow> speaker_tracker \<Rightarrow> bool" for ev tr where
  failed: "voiced ev tr (Inl e) tr"
| quiet: "st \<in> {UnknownSpeaker, ProvisionalSpeaker} \<Longrightarrow>
    voiced ev tr (Inr (speaker_result (ev_observed ev) st None cid sim why)) tr"
| seen: "map_of (ot_speakers tr) k = Some p \<Longrightarrow>
    voiced ev tr (Inr (speaker_result (ev_observed ev) ExistingSpeaker (Some (sp_id p)) None sim why))
      (tr\<lparr>ot_speakers := al_put (sp_id p) (p\<lparr>sp_seen := max (sp_seen p) (ob_stop (ev_observed ev))\<rparr>) (ot_speakers tr)\<rparr>)"
| learned: "map_of (ot_speakers tr) k = Some p \<Longrightarrow> ev_can ev \<Longrightarrow>
    voiced ev tr (Inr (speaker_result (ev_observed ev) ExistingSpeaker (Some (sp_id p)) None sim why))
      ((record_support (ev_plan ev) (ob_stop (ev_observed ev)) tr)\<lparr>ot_speakers := al_put (sp_id p)
         (p\<lparr>sp_vector := w, sp_count := sp_count p + 1, sp_seen := max (sp_seen p) (ob_stop (ev_observed ev)),
            sp_support_end := max (sp_support_end p) (ob_stop (ev_observed ev))\<rparr>) (ot_speakers tr)\<rparr>)"
| settled: "ev_can ev \<Longrightarrow> unlike_all ev tr \<Longrightarrow> supports_candidate ev tr c tr1 \<Longrightarrow>
    settle_candidate ev best c tr1 = (ans, tr') \<Longrightarrow> voiced ev tr ans tr'"

lemma grow_candidate_supports:
  assumes "grow_candidate sqr ev c0 = Inr c" "map_of (ot_candidates tr) k = Some c0"
  shows "supports_candidate ev tr c tr"
  using assms by (auto simp: grow_candidate_def Let_def res_bind_eq_Inr intro!: grown)

lemma ranked_max:
  assumes "ranked v items = (best, key) # r"
  shows "(k, w) \<in> set items \<Longrightarrow> similarity v w \<le> best"
proof -
  assume "(k, w) \<in> set items"
  then have mem: "(similarity v w, k) \<in> set (ranked v items)" by (force simp: ranked_def)
  have "sorted (rev (ranked v items))" by (simp add: ranked_def)
  then have "\<forall>x \<in> set r. x \<le> (best, key)" unfolding assms by (auto simp: sorted_append)
  then have "(similarity v w, k) \<le> (best, key)" using mem unfolding assms by auto
  then show ?thesis by (auto simp: less_eq_prod_def)
qed

lemma ranked_Nil: "ranked v items = [] \<Longrightarrow> items = []"
proof -
  assume "ranked v items = []"
  then have "length (ranked v items) = 0" by (simp only: list.size)
  then show "items = []" by (simp add: ranked_def)
qed

lemma observe_novel_voiced:
  assumes far: "unlike_all ev tr"
  shows "voiced ev tr (fst (observe_novel sqr ev best tr)) (snd (observe_novel sqr ev best tr))"
proof -
  let ?ob = "ev_observed ev" and ?cfg = "ot_config tr" and ?tr1 = "make_room tr"
  let ?pending = "ranked (ev_vector ev) (map (\<lambda>(k, c). (k, ca_vector c)) (ot_candidates tr))"
  let ?set = "settle_candidate ev best (fresh_candidate ev ?tr1) (?tr1\<lparr>ot_candidate_seq := ot_candidate_seq ?tr1 + 1\<rparr>)"
  have new: "voiced ev tr (fst ?set) (snd ?set)" if "ev_can ev"
    using settled [OF that far fresh, of best "fst ?set" "snd ?set"] by simp
  have old: "voiced ev tr (fst (settle_candidate ev best c' tr)) (snd (settle_candidate ev best c' tr))"
    if "ev_can ev" "map_of (ot_candidates tr) k = Some c" "grow_candidate sqr ev c = Inr c'" for k c c'
    using settled [OF that(1) far grow_candidate_supports [OF that(3,2)]] by simp
  show ?thesis
  proof (cases ?pending)
    case Nil then show ?thesis using new by (simp add: observe_novel_def Let_def quiet)
  next
    case (Cons p r)
    obtain sim key where p: "p = (sim, key)" by fastforce
    show ?thesis using Cons new old unfolding p
      by (simp add: observe_novel_def Let_def failed quiet split: option.split sum.split)
  qed
qed

lemma observe_existing_voiced:
  "voiced ev tr (fst (observe_existing sqr ev best key tr)) (snd (observe_existing sqr ev best key tr))"
  by (auto simp: observe_existing_def Let_def split: option.split sum.split intro!: failed seen learned)

lemma observe_voice_voiced:
  "voiced ev tr (fst (observe_voice sqr ev tr)) (snd (observe_voice sqr ev tr))"
proof -
  let ?items = "map (\<lambda>(k, p). (k, sp_vector p)) (ot_speakers tr)"
  show ?thesis
  proof (cases "ranked (ev_vector ev) ?items")
    case Nil
    then have "ot_speakers tr = []" using ranked_Nil by fastforce
    then have "unlike_all ev tr" by (simp add: unlike_all_def)
    from observe_novel_voiced [OF this] Nil show ?thesis by (simp add: observe_voice_def Let_def quiet)
  next
    case (Cons b r)
    obtain best key where b: "b = (best, key)" by fastforce
    note rk = Cons [unfolded b]
    have "unlike_all ev tr" if "\<not> tk_new (ot_config tr) < best"
    proof (unfold unlike_all_def, intro allI impI)
      fix k p assume "map_of (ot_speakers tr) k = Some p"
      then have "(k, sp_vector p) \<in> set ?items" by (force dest: map_of_SomeD)
      from ranked_max [OF rk this] that show "similarity (ev_vector ev) (sp_vector p) \<le> tk_new (ot_config tr)" by simp
    qed
    then show ?thesis using rk observe_novel_voiced observe_existing_voiced
      by (simp add: observe_voice_def Let_def quiet)
  qed
qed

end
