(* ===== verification/SpeakerKeep.thy ===== *)
theory SpeakerKeep
  imports SpeakerInv
begin

text \<open>
  The outcomes of \<open>observe_speaker\<close> as a relation, the tracker's invariant and the ghost ledger of counted audio,
  each kept by every operation.
\<close>

subsection \<open>Outcomes of one observation\<close>

definition heard_clock :: "observation \<Rightarrow> speaker_tracker \<Rightarrow> speaker_tracker" where
  "heard_clock ob tr = remember_sample (ob_track ob, ob_sample ob) (advance_clock (evidence_ready ob) tr)"

definition heard_voice :: "observation \<Rightarrow> rat list \<Rightarrow> speaker_tracker \<Rightarrow> speaker_tracker" where
  "heard_voice ob v tr = (heard_clock ob tr)\<lparr>ot_dimension := Some (length v),
     ot_sparse := ot_sparse (heard_clock ob tr) \<or> sparse_evidence ob\<rparr>"

inductive heard :: "unidb \<Rightarrow> (rat \<Rightarrow> rat) \<Rightarrow> observation \<Rightarrow> speaker_tracker \<Rightarrow> assignment res \<Rightarrow> speaker_tracker \<Rightarrow> bool" for uc sqr ob tr where
  refused: "heard uc sqr ob tr (Inl e) tr"
| unheard: "heard uc sqr ob tr (Inr (speaker_result ob UnknownSpeaker None None None why)) tr"
| noted: "check_observation uc ob = Inr supports \<Longrightarrow> ot_watermark tr \<le> evidence_ready ob \<Longrightarrow>
    heard uc sqr ob tr (Inr (speaker_result ob UnknownSpeaker None None None why)) (heard_clock ob tr)"
| weighed: "check_observation uc ob = Inr supports \<Longrightarrow> ot_watermark tr \<le> evidence_ready ob \<Longrightarrow> \<not> ob_overlap ob \<Longrightarrow>
    tk_quality (ot_config tr) \<le> pf_val (ob_quality ob) \<Longrightarrow> tk_min_speech (ot_config tr) \<le> ob_speech ob \<Longrightarrow>
    normalize_embedding sqr (ob_embedding ob) = Inr v \<Longrightarrow>
    voiced (weigh_evidence ob supports v (heard_voice ob v tr)) (heard_voice ob v tr) ans tr' \<Longrightarrow> heard uc sqr ob tr ans tr'"

lemma observe_heard: "heard uc sqr ob tr (fst (observe_speaker uc sqr ob tr)) (snd (observe_speaker uc sqr ob tr))"
proof (cases "check_observation uc ob")
  case (Inl e) then show ?thesis by (simp add: observe_speaker_def Let_def refused)
next
  case (Inr supports)
  note chk = this
  show ?thesis
  proof (cases "normalize_embedding sqr (ob_embedding ob)")
    case (Inl e) then show ?thesis using chk by (simp add: observe_speaker_def Let_def refused)
  next
    case (Inr v)
    let ?tr2 = "heard_voice ob v tr" and ?ev = "weigh_evidence ob supports v (heard_voice ob v tr)"
    have w: "heard uc sqr ob tr (fst (observe_voice sqr ?ev ?tr2)) (snd (observe_voice sqr ?ev ?tr2))"
      if "ot_watermark tr \<le> evidence_ready ob" "\<not> ob_overlap ob"
        "tk_quality (ot_config tr) \<le> pf_val (ob_quality ob)" "tk_min_speech (ot_config tr) \<le> ob_speech ob"
      by (rule weighed [OF chk that Inr observe_voice_voiced])
    note n = noted [OF chk]
    show ?thesis using chk Inr w n
      by (simp add: observe_speaker_def Let_def refused unheard heard_voice_def heard_clock_def not_less)
  qed
qed

lemma check_observation_Inr:
  assumes "check_observation uc ob = Inr supports"
  shows "0 \<le> ob_start ob" "ob_start ob < ob_stop ob" "0 \<le> ob_speech ob" "ob_stop ob \<le> evidence_ready ob"
    "\<forall>p \<in> set supports. fst p < snd p \<and> ob_start ob \<le> fst p \<and> snd p \<le> ob_stop ob" "supports \<noteq> []"
    "fst (hd supports) = ob_start ob"
    "support_intervals_for (ob_start ob) (ob_stop ob) (ob_support ob) = Inr supports"
proof -
  have s: "support_intervals_for (ob_start ob) (ob_stop ob) (ob_support ob) = Inr supports"
    and b: "0 \<le> ob_start ob" "ob_start ob < ob_stop ob" "0 \<le> ob_speech ob" "ob_stop ob \<le> evidence_ready ob"
    using assms by (auto simp: check_observation_def res_bind_eq_Inr split: if_splits)
  have chain: "interval_chain p e iv \<Longrightarrow> \<forall>q \<in> set iv. fst q < snd q \<and> p \<le> fst q \<and> snd q \<le> e" for p e iv
    by (induction p e iv rule: interval_chain.induct) fastforce+
  show "\<forall>p \<in> set supports. fst p < snd p \<and> ob_start ob \<le> fst p \<and> snd p \<le> ob_stop ob" "supports \<noteq> []"
    "fst (hd supports) = ob_start ob"
    using s b chain by (auto simp: support_intervals_for_def split: if_splits)
qed (use assms in \<open>auto simp: check_observation_def res_bind_eq_Inr split: if_splits\<close>)

subsection \<open>The invariant\<close>

definition speaker_ok :: "speaker_tracker \<Rightarrow> ustring \<Rightarrow> speaker_profile \<Rightarrow> bool" where
  "speaker_ok tr k p \<longleftrightarrow> sp_id p = k \<and> 1 \<le> sp_count p \<and> 0 \<le> sp_support_end p \<and> sp_support_end p \<le> sp_seen p
     \<and> sp_seen p \<le> ot_watermark tr"

definition candidate_ok :: "speaker_tracker \<Rightarrow> ustring \<Rightarrow> speaker_candidate \<Rightarrow> bool" where
  "candidate_ok tr k c \<longleftrightarrow> ca_id c = k \<and> 1 \<le> ca_count c \<and> ca_count c * tk_min_speech (ot_config tr) \<le> ca_speech c
     \<and> 0 \<le> ca_support_end c \<and> ca_support_end c \<le> ot_watermark tr
     \<and> (\<exists>n. 1 \<le> n \<and> n \<le> ot_candidate_seq tr \<and> k = candidate_name n)"

definition tracker_ok :: "speaker_tracker \<Rightarrow> bool" where
  "tracker_ok tr \<longleftrightarrow>
     tracker_config_ok (ot_config tr) \<and> distinct (map fst (ot_speakers tr)) \<and> distinct (map fst (ot_candidates tr))
     \<and> (\<forall>k p. map_of (ot_speakers tr) k = Some p \<longrightarrow> speaker_ok tr k p)
     \<and> (\<forall>n. ot_speaker_seq tr < n \<longrightarrow> map_of (ot_speakers tr) (speaker_name n) = None)
     \<and> (\<forall>k c. map_of (ot_candidates tr) k = Some c \<longrightarrow> candidate_ok tr k c)
     \<and> length (ot_speakers tr) \<le> tk_max_speakers (ot_config tr)
     \<and> length (ot_candidates tr) \<le> tk_max_candidates (ot_config tr)
     \<and> length (ot_recent tr) \<le> tk_max_recent (ot_config tr)
     \<and> separated (ot_credited tr) \<and> length (ot_credited tr) \<le> 4096"

lemma tracker_okD:
  assumes "tracker_ok tr"
  shows "tracker_config_ok (ot_config tr)" "distinct (map fst (ot_speakers tr))" "distinct (map fst (ot_candidates tr))"
    "map_of (ot_speakers tr) k = Some p \<Longrightarrow> speaker_ok tr k p"
    "ot_speaker_seq tr < n \<Longrightarrow> map_of (ot_speakers tr) (speaker_name n) = None"
    "map_of (ot_candidates tr) k = Some c \<Longrightarrow> candidate_ok tr k c"
    "length (ot_speakers tr) \<le> tk_max_speakers (ot_config tr)"
    "length (ot_candidates tr) \<le> tk_max_candidates (ot_config tr)"
    "length (ot_recent tr) \<le> tk_max_recent (ot_config tr)"
    "separated (ot_credited tr)" "length (ot_credited tr) \<le> 4096"
  using assms by (simp_all add: tracker_ok_def)

lemma map_of_filter_some: "distinct (map fst m) \<Longrightarrow> map_of (filter P m) k = Some v \<Longrightarrow> map_of m k = Some v"
  by (induction m) (auto split: if_splits dest: map_of_SomeD intro: rev_image_eqI)

lemma advance_clock_ok:
  assumes ok: "tracker_ok tr" and now: "ot_watermark tr \<le> now"
  shows "tracker_ok (advance_clock now tr)"
proof -
  note d = tracker_okD [OF ok]
  let ?cs = "filter (\<lambda>(k, c). \<not> tk_idle (ot_config tr) < now - ca_support_end c) (ot_candidates tr)"
  have "candidate_ok (advance_clock now tr) k c" if "map_of ?cs k = Some c" for k c
    using d(6) [OF map_of_filter_some [OF d(3) that]] now by (simp add: candidate_ok_def advance_clock_def Let_def)
  moreover have "speaker_ok (advance_clock now tr) k p" if "map_of (ot_speakers tr) k = Some p" for k p
    using d(4) [OF that] now by (simp add: speaker_ok_def advance_clock_def Let_def)
  moreover have "length ?cs \<le> tk_max_candidates (ot_config tr)" using d(8) by (rule le_trans [OF length_filter_le])
  ultimately show ?thesis using d(1,2,3,5,7,9) clip_credit_spec [OF d(10)] le_trans [OF length_clip_credit d(11)]
    by (simp add: tracker_ok_def advance_clock_def Let_def distinct_map_filter)
qed

lemma heard_clock_ok: "tracker_ok tr \<Longrightarrow> ot_watermark tr \<le> evidence_ready ob \<Longrightarrow> tracker_ok (heard_clock ob tr)"
  using advance_clock_ok [of tr "evidence_ready ob"]
  by (simp add: tracker_ok_def speaker_ok_def candidate_ok_def heard_clock_def remember_sample_def)

lemma heard_voice_ok: "tracker_ok tr \<Longrightarrow> ot_watermark tr \<le> evidence_ready ob \<Longrightarrow> tracker_ok (heard_voice ob v tr)"
  using heard_clock_ok [of tr ob] by (simp add: tracker_ok_def speaker_ok_def candidate_ok_def heard_voice_def)

subsection \<open>Keeping the invariant\<close>

definition plan_ok :: "interval list option \<Rightarrow> bool" where
  "plan_ok plan \<longleftrightarrow> (case plan of None \<Rightarrow> True | Some iv \<Rightarrow> separated iv \<and> length iv \<le> 4096)"

lemma credit_plan_audio:
  assumes "credit_plan supports tr = Some iv" "separated (ot_credited tr)" "\<forall>p \<in> set supports. fst p < snd p"
  shows "separated iv" "length iv \<le> 4096" "audio iv = audio supports \<union> audio (ot_credited tr)"
  using assms(1) unite_all [OF assms(2,3)] by (auto simp: credit_plan_def Let_def split: if_splits)

lemma weigh_plan_ok:
  assumes "tracker_ok tr" "\<forall>p \<in> set supports. fst p < snd p"
  shows "plan_ok (ev_plan (weigh_evidence ob supports v tr))"
  using credit_plan_audio(1,2) [OF _ tracker_okD(10) [OF assms(1)] assms(2)]
  by (auto simp: plan_ok_def weigh_evidence_def Let_def split: option.split)

lemma record_support_ok: "tracker_ok tr \<Longrightarrow> plan_ok plan \<Longrightarrow> tracker_ok (record_support plan t tr)"
  by (cases plan) (simp_all add: tracker_ok_def speaker_ok_def candidate_ok_def record_support_def plan_ok_def)

lemma record_support_simps [simp]:
  "ot_config (record_support plan t tr) = ot_config tr" "ot_speakers (record_support plan t tr) = ot_speakers tr"
  "ot_candidates (record_support plan t tr) = ot_candidates tr" "ot_watermark (record_support plan t tr) = ot_watermark tr"
  "ot_speaker_seq (record_support plan t tr) = ot_speaker_seq tr"
  "ot_candidate_seq (record_support plan t tr) = ot_candidate_seq tr"
  "ot_sparse (record_support plan t tr) = ot_sparse tr" "ot_recent (record_support plan t tr) = ot_recent tr"
  by (cases plan; simp add: record_support_def)+

lemma update_speaker_ok:
  assumes ok: "tracker_ok tr" and old: "map_of (ot_speakers tr) k = Some p" and new: "speaker_ok tr k p'"
  shows "tracker_ok (tr\<lparr>ot_speakers := al_put k p' (ot_speakers tr)\<rparr>)"
proof -
  note d = tracker_okD [OF ok]
  have len: "length (al_put k p' (ot_speakers tr)) = length (ot_speakers tr)"
    by (rule length_al_put_old [OF map_of_in_fst [OF old]])
  have "speaker_name n \<noteq> k" if "ot_speaker_seq tr < n" for n using d(5) [OF that] old by auto
  then show ?thesis using ok new len distinct_al_put [OF d(2)]
    by (auto simp: tracker_ok_def speaker_ok_def candidate_ok_def)
qed

lemma put_candidate_ok:
  assumes ok: "tracker_ok tr" and new: "candidate_ok tr k c"
    and room: "map_of (ot_candidates tr) k \<noteq> None \<or> length (ot_candidates tr) < tk_max_candidates (ot_config tr)"
  shows "tracker_ok (tr\<lparr>ot_candidates := al_put k c (ot_candidates tr)\<rparr>)"
proof -
  note d = tracker_okD [OF ok]
  have "length (al_put k c (ot_candidates tr)) \<le> tk_max_candidates (ot_config tr)"
    using length_al_put_le [of k c "ot_candidates tr"] room d(8) by (auto split: if_splits)
  then show ?thesis using ok new distinct_al_put [OF d(3)] by (auto simp: tracker_ok_def speaker_ok_def candidate_ok_def)
qed

lemma del_candidate_ok: "tracker_ok tr \<Longrightarrow> tracker_ok (tr\<lparr>ot_candidates := al_del k (ot_candidates tr)\<rparr>)"
proof -
  assume ok: "tracker_ok tr"
  note d = tracker_okD [OF ok]
  have "length (al_del k (ot_candidates tr)) \<le> tk_max_candidates (ot_config tr)"
    using d(8) by (simp add: al_del_def le_trans [OF length_filter_le])
  then show ?thesis using ok distinct_al_del [OF d(3)]
    by (auto simp: tracker_ok_def speaker_ok_def candidate_ok_def split: if_splits)
qed

lemma length_al_del_less: "k \<in> set (map fst m) \<Longrightarrow> length (al_del k m) < length m"
  by (auto simp: al_del_def intro!: length_filter_less)

lemma make_room_ok:
  assumes ok: "tracker_ok tr"
  shows "tracker_ok (make_room tr)" "length (ot_candidates (make_room tr)) < tk_max_candidates (ot_config tr)"
proof -
  show "tracker_ok (make_room tr)" using ok del_candidate_ok [OF ok] by (simp add: make_room_def)
  show "length (ot_candidates (make_room tr)) < tk_max_candidates (ot_config tr)"
  proof (cases "length (ot_candidates tr) < tk_max_candidates (ot_config tr)")
    case True then show ?thesis by (simp add: make_room_def)
  next
    case False
    let ?ss = "sort_key (\<lambda>p. ca_support_end (snd p)) (ot_candidates tr)"
    have pos: "0 < tk_max_candidates (ot_config tr)" using tracker_okD(1) [OF ok] by (simp add: tracker_config_ok_def)
    then have "ot_candidates tr \<noteq> []" using False by auto
    then have "?ss \<noteq> []" by (metis length_0_conv length_sort)
    then have "hd ?ss \<in> set (ot_candidates tr)" using hd_in_set [of ?ss] by simp
    then have "oldest_candidate (ot_candidates tr) \<in> set (map fst (ot_candidates tr))"
      by (simp add: oldest_candidate_def)
    from length_al_del_less [OF this] False tracker_okD(8) [OF ok] show ?thesis by (simp add: make_room_def)
  qed
qed

lemma make_room_simps [simp]:
  "ot_config (make_room tr) = ot_config tr" "ot_speakers (make_room tr) = ot_speakers tr"
  "ot_watermark (make_room tr) = ot_watermark tr" "ot_speaker_seq (make_room tr) = ot_speaker_seq tr"
  "ot_candidate_seq (make_room tr) = ot_candidate_seq tr" "ot_sparse (make_room tr) = ot_sparse tr"
  "ot_credited (make_room tr) = ot_credited tr" "ot_floor (make_room tr) = ot_floor tr"
  "ot_recent (make_room tr) = ot_recent tr"
  by (simp_all add: make_room_def)

text \<open>The tracker in which the supported candidate has been stored.\<close>

lemma supported_ok:
  assumes ok: "tracker_ok tr" and sup: "supports_candidate ev tr c tr1"
    and heard: "tk_min_speech (ot_config tr) \<le> ob_speech (ev_observed ev)" "0 \<le> ob_stop (ev_observed ev)"
      "ob_stop (ev_observed ev) \<le> ot_watermark tr"
  shows "tracker_ok (tr1\<lparr>ot_candidates := al_put (ca_id c) c (ot_candidates tr1)\<rparr>)"
  using sup
proof cases
  case (grown k c0)
  have c0: "candidate_ok tr k c0" by (rule tracker_okD(6) [OF ok grown(2)])
  then have "candidate_ok tr k c" using grown heard by (auto simp: candidate_ok_def algebra_simps)
  from put_candidate_ok [OF ok this] grown c0 show ?thesis by (simp add: candidate_ok_def)
next
  case fresh
  note mk = make_room_ok [OF ok]
  have "candidate_ok (t\<lparr>ot_candidate_seq := ot_candidate_seq t + 1\<rparr>) k a" if "candidate_ok t k a" for t k a
    using that le_SucI by (fastforce simp: candidate_ok_def)
  then have t1: "tracker_ok tr1" unfolding fresh using mk(1)
    by (simp add: tracker_ok_def speaker_ok_def del: make_room_simps)
  have "candidate_ok tr1 (ca_id c) c" unfolding fresh using heard by (auto simp: candidate_ok_def fresh_candidate_def)
  from put_candidate_ok [OF t1 this] mk(2) show ?thesis unfolding fresh by simp
qed

lemma add_speaker_ok:
  assumes ok: "tracker_ok tr" and new: "speaker_ok tr (speaker_name n) p" and n: "n = ot_speaker_seq tr + 1"
    and room: "length (ot_speakers tr) < tk_max_speakers (ot_config tr)"
  shows "tracker_ok (tr\<lparr>ot_speaker_seq := n, ot_speakers := al_put (speaker_name n) p (ot_speakers tr)\<rparr>)"
proof -
  note d = tracker_okD [OF ok]
  have "length (al_put (speaker_name n) p (ot_speakers tr)) \<le> tk_max_speakers (ot_config tr)"
    using length_al_put_new [of "speaker_name n" p "ot_speakers tr"] room by simp
  then show ?thesis using ok new distinct_al_put [OF d(2)] n
    by (auto simp: tracker_ok_def speaker_ok_def candidate_ok_def speaker_name_inject)
qed

definition confirmed_profile :: "evidence \<Rightarrow> speaker_candidate \<Rightarrow> nat \<Rightarrow> speaker_profile" where
  "confirmed_profile ev c n = \<lparr>sp_id = speaker_name n, sp_name = lit ''Speaker '' @ dec n, sp_vector = ca_vector c,
     sp_count = ca_count c, sp_seen = max (ob_stop (ev_observed ev)) (ca_support_end c), sp_support_end = ca_support_end c\<rparr>"

definition stored_candidate :: "evidence \<Rightarrow> speaker_candidate \<Rightarrow> speaker_tracker \<Rightarrow> speaker_tracker" where
  "stored_candidate ev c tr = record_support (ev_plan ev) (ob_stop (ev_observed ev))
     (tr\<lparr>ot_candidates := al_put (ca_id c) c (ot_candidates tr)\<rparr>)"

definition dropped_candidate :: "evidence \<Rightarrow> speaker_candidate \<Rightarrow> speaker_tracker \<Rightarrow> speaker_tracker" where
  "dropped_candidate ev c tr = (stored_candidate ev c tr)\<lparr>ot_candidates := al_del (ca_id c) (ot_candidates (stored_candidate ev c tr))\<rparr>"

lemma settle_cases:
  assumes "settle_candidate ev best c tr = (ans, tr')"
  obtains (collecting) "ca_count c < tk_confirmations (ot_config tr) \<or> ca_speech c < tk_confirm_speech (ot_config tr)"
      "ans = Inr (speaker_result (ev_observed ev) ProvisionalSpeaker None (Some (ca_id c)) best ''collecting_evidence'')"
      "tr' = stored_candidate ev c tr"
  | (full) "tk_max_speakers (ot_config tr) \<le> length (ot_speakers tr)"
      "ans = Inr (speaker_result (ev_observed ev) UnknownSpeaker None None None ''speaker_capacity'')"
      "tr' = dropped_candidate ev c tr"
  | (confirmed) n where "n = ot_speaker_seq tr + 1" "length (ot_speakers tr) < tk_max_speakers (ot_config tr)"
      "tk_confirmations (ot_config tr) \<le> ca_count c" "tk_confirm_speech (ot_config tr) \<le> ca_speech c"
      "ans = Inr (speaker_result (ev_observed ev) NewSpeaker (Some (speaker_name n)) (Some (ca_id c)) best ''confirmed_new_speaker'')"
      "tr' = (dropped_candidate ev c tr)\<lparr>ot_speaker_seq := n, ot_speakers := al_put (speaker_name n)
         (confirmed_profile ev c n) (ot_speakers (dropped_candidate ev c tr))\<rparr>"
proof (cases "ca_count c < tk_confirmations (ot_config tr) \<or> ca_speech c < tk_confirm_speech (ot_config tr)")
  case True
  then show ?thesis using assms by (intro collecting) (auto simp: settle_candidate_def Let_def stored_candidate_def)
next
  case no: False
  show ?thesis
  proof (cases "tk_max_speakers (ot_config tr) \<le> length (ot_speakers tr)")
    case True
    then show ?thesis using assms no
      by (intro full) (auto simp: settle_candidate_def Let_def stored_candidate_def dropped_candidate_def)
  next
    case False
    then show ?thesis using assms no
      by (intro confirmed [of "ot_speaker_seq tr + 1"])
        (auto simp: settle_candidate_def Let_def stored_candidate_def dropped_candidate_def confirmed_profile_def)
  qed
qed

lemma stored_simps [simp]:
  "ot_config (stored_candidate ev c tr) = ot_config tr" "ot_speakers (stored_candidate ev c tr) = ot_speakers tr"
  "ot_watermark (stored_candidate ev c tr) = ot_watermark tr" "ot_speaker_seq (stored_candidate ev c tr) = ot_speaker_seq tr"
  "ot_candidate_seq (stored_candidate ev c tr) = ot_candidate_seq tr" "ot_sparse (stored_candidate ev c tr) = ot_sparse tr"
  "ot_candidates (stored_candidate ev c tr) = al_put (ca_id c) c (ot_candidates tr)"
  by (simp_all add: stored_candidate_def)

lemma dropped_simps [simp]:
  "ot_config (dropped_candidate ev c tr) = ot_config tr" "ot_speakers (dropped_candidate ev c tr) = ot_speakers tr"
  "ot_watermark (dropped_candidate ev c tr) = ot_watermark tr" "ot_speaker_seq (dropped_candidate ev c tr) = ot_speaker_seq tr"
  "ot_candidate_seq (dropped_candidate ev c tr) = ot_candidate_seq tr" "ot_sparse (dropped_candidate ev c tr) = ot_sparse tr"
  by (simp_all add: dropped_candidate_def)

lemma settle_ok:
  assumes st: "settle_candidate ev best c tr = (ans, tr')" and plan: "plan_ok (ev_plan ev)"
    and ok: "tracker_ok (tr\<lparr>ot_candidates := al_put (ca_id c) c (ot_candidates tr)\<rparr>)"
    and stop: "0 \<le> ob_stop (ev_observed ev)" "ob_stop (ev_observed ev) \<le> ot_watermark tr"
  shows "tracker_ok tr'"
proof -
  have s: "tracker_ok (stored_candidate ev c tr)" unfolding stored_candidate_def by (rule record_support_ok [OF ok plan])
  have dr: "tracker_ok (dropped_candidate ev c tr)" unfolding dropped_candidate_def by (rule del_candidate_ok [OF s])
  have c: "candidate_ok (stored_candidate ev c tr) (ca_id c) c" by (rule tracker_okD(6) [OF s]) simp
  from st show ?thesis
  proof (cases rule: settle_cases)
    case collecting then show ?thesis using s by simp
  next
    case full then show ?thesis using dr by simp
  next
    case (confirmed n)
    have "speaker_ok (dropped_candidate ev c tr) (speaker_name n) (confirmed_profile ev c n)"
      using c stop by (simp add: speaker_ok_def candidate_ok_def confirmed_profile_def)
    from add_speaker_ok [OF dr this] confirmed(1,2) show ?thesis unfolding confirmed(6) by simp
  qed
qed

lemma supports_candidate_simps:
  assumes "supports_candidate ev tr c tr1"
  shows "ot_config tr1 = ot_config tr" "ot_speakers tr1 = ot_speakers tr" "ot_watermark tr1 = ot_watermark tr"
    "ot_speaker_seq tr1 = ot_speaker_seq tr" "ot_sparse tr1 = ot_sparse tr" "ot_credited tr1 = ot_credited tr"
    "ot_floor tr1 = ot_floor tr"
  using assms by (cases; simp)+

lemma voiced_ok:
  assumes v: "voiced ev tr ans tr'" and ok: "tracker_ok tr" and plan: "plan_ok (ev_plan ev)"
    and heard: "tk_min_speech (ot_config tr) \<le> ob_speech (ev_observed ev)" "0 \<le> ob_stop (ev_observed ev)"
      "ob_stop (ev_observed ev) \<le> ot_watermark tr"
  shows "tracker_ok tr'"
  using v
proof cases
  case (seen k p)
  have p: "speaker_ok tr k p" by (rule tracker_okD(4) [OF ok seen(3)])
  then have "speaker_ok tr k (p\<lparr>sp_seen := max (sp_seen p) (ob_stop (ev_observed ev))\<rparr>)"
    using heard by (auto simp: speaker_ok_def)
  from update_speaker_ok [OF ok seen(3) this] p show ?thesis unfolding seen(2) by (simp add: speaker_ok_def)
next
  case (learned k p sim why w)
  let ?p = "p\<lparr>sp_vector := w, sp_count := sp_count p + 1, sp_seen := max (sp_seen p) (ob_stop (ev_observed ev)),
            sp_support_end := max (sp_support_end p) (ob_stop (ev_observed ev))\<rparr>"
  let ?r = "record_support (ev_plan ev) (ob_stop (ev_observed ev)) tr"
  have p: "speaker_ok tr k p" by (rule tracker_okD(4) [OF ok learned(3)])
  then have "speaker_ok ?r k ?p" using heard by (auto simp: speaker_ok_def)
  with learned(3) have "tracker_ok (?r\<lparr>ot_speakers := al_put k ?p (ot_speakers ?r)\<rparr>)"
    by (intro update_speaker_ok [OF record_support_ok [OF ok plan], where k = k and p = p]) simp_all
  then show ?thesis using p unfolding learned(2) by (simp add: speaker_ok_def)
next
  case (settled c tr1 best)
  show ?thesis
    using settle_ok [OF settled(4) plan supported_ok [OF ok settled(3) heard]] heard supports_candidate_simps(3) [OF settled(3)]
    by simp
qed (use ok in simp_all)

lemma observe_ok:
  assumes ok: "tracker_ok tr"
  shows "tracker_ok (snd (observe_speaker uc sqr ob tr))"
  using observe_heard [of uc sqr ob tr]
proof cases
  case (noted supports) then show ?thesis using heard_clock_ok [OF ok] by simp
next
  case (weighed supports v)
  let ?tr2 = "heard_voice ob v tr"
  note ck = check_observation_Inr [OF weighed(1)]
  have ok2: "tracker_ok ?tr2" by (rule heard_voice_ok [OF ok weighed(2)])
  have eq: "ot_watermark ?tr2 = evidence_ready ob" "ot_config ?tr2 = ot_config tr"
    by (simp_all add: heard_voice_def heard_clock_def remember_sample_def advance_clock_def Let_def)
  have obs: "ev_observed (weigh_evidence ob supports v ?tr2) = ob" by (simp add: weigh_evidence_def Let_def)
  show ?thesis
    by (rule voiced_ok [OF weighed(7) ok2 weigh_plan_ok [OF ok2]]) (use ck weighed(5) eq obs in auto)
qed (use ok in simp_all)

end
