(* ===== verification/SpeakerProps.thy ===== *)
theory SpeakerProps
  imports SpeakerKeep
begin

text \<open>
  Properties of the speaker tracker over runs: no nanosecond of audio is counted towards a voice twice once exact
  evidence is in use, a new identity needs its confirmations, identities are never lost and the state stays bounded.
\<close>

subsection \<open>Runs\<close>

datatype speaker_op = Voice observation | Silence int | Rename ustring ustring | InputGap

fun speaker_step :: "unidb \<Rightarrow> (rat \<Rightarrow> rat) \<Rightarrow> speaker_op \<Rightarrow> speaker_tracker \<Rightarrow> speaker_tracker" where
  "speaker_step uc sqr (Voice ob) tr = snd (observe_speaker uc sqr ob tr)"
| "speaker_step uc sqr (Silence now) tr = (case expire_tracker now tr of Inl e \<Rightarrow> tr | Inr t \<Rightarrow> t)"
| "speaker_step uc sqr (Rename i name) tr = (case rename_speaker uc i name tr of Inl e \<Rightarrow> tr | Inr (p, t) \<Rightarrow> t)"
| "speaker_step uc sqr InputGap tr = snd (clear_candidates tr)"

definition speaker_run :: "unidb \<Rightarrow> (rat \<Rightarrow> rat) \<Rightarrow> speaker_op list \<Rightarrow> speaker_tracker \<Rightarrow> speaker_tracker" where
  "speaker_run uc sqr ops tr = fold (speaker_step uc sqr) ops tr"

lemma speaker_run_simps [simp]:
  "speaker_run uc sqr [] tr = tr" "speaker_run uc sqr (op # ops) tr = speaker_run uc sqr ops (speaker_step uc sqr op tr)"
  "speaker_run uc sqr (xs @ ys) tr = speaker_run uc sqr ys (speaker_run uc sqr xs tr)"
  by (simp_all add: speaker_run_def)

lemma speaker_run_keeps:
  assumes "\<And>op t. P t \<Longrightarrow> P (speaker_step uc sqr op t)" "P tr"
  shows "P (speaker_run uc sqr ops tr)"
  using assms(2) by (induction ops arbitrary: tr) (simp_all add: assms(1))

lemma rename_cases:
  assumes "rename_speaker uc i name tr = Inr (p', t)"
  obtains p n where "map_of (ot_speakers tr) i = Some p" "p' = p\<lparr>sp_name := n\<rparr>"
    "t = tr\<lparr>ot_speakers := al_put i p' (ot_speakers tr)\<rparr>"
  using assms by (auto simp: rename_speaker_def Let_def split: if_splits option.splits)

lemma speaker_step_ok: "tracker_ok tr \<Longrightarrow> tracker_ok (speaker_step uc sqr op tr)"
proof (cases op)
  case (Voice ob) then show "tracker_ok tr \<Longrightarrow> ?thesis" using observe_ok by simp
next
  case (Silence now)
  then show "tracker_ok tr \<Longrightarrow> ?thesis" using advance_clock_ok [of tr now] by (simp add: expire_tracker_def)
next
  case (Rename i name)
  assume ok: "tracker_ok tr"
  show ?thesis
  proof (cases "rename_speaker uc i name tr")
    case (Inl e) then show ?thesis using ok Rename by simp
  next
    case (Inr b)
    obtain p' t where b: "b = (p', t)" by fastforce
    from Inr b obtain p n where p: "map_of (ot_speakers tr) i = Some p" "p' = p\<lparr>sp_name := n\<rparr>"
      "t = tr\<lparr>ot_speakers := al_put i p' (ot_speakers tr)\<rparr>" by (auto elim: rename_cases)
    have "speaker_ok tr i p'" using tracker_okD(4) [OF ok p(1)] p(2) by (simp add: speaker_ok_def)
    from update_speaker_ok [OF ok p(1) this] show ?thesis using Rename Inr b p(3) by simp
  qed
next
  case InputGap
  then show "tracker_ok tr \<Longrightarrow> ?thesis"
    by (simp add: clear_candidates_def tracker_ok_def speaker_ok_def)
qed

lemma speaker_run_ok: "tracker_ok tr \<Longrightarrow> tracker_ok (speaker_run uc sqr ops tr)"
  by (rule speaker_run_keeps [where P = tracker_ok]) (rule speaker_step_ok)

subsection \<open>Counted audio\<close>

definition counted :: "speaker_tracker \<Rightarrow> speaker_tracker \<Rightarrow> bool" where
  "counted tr tr' \<longleftrightarrow>
     list_ex (\<lambda>(k, p'). case map_of (ot_speakers tr) k of None \<Rightarrow> True | Some p \<Rightarrow> sp_count p < sp_count p') (ot_speakers tr')
     \<or> list_ex (\<lambda>(k, c'). case map_of (ot_candidates tr) k of None \<Rightarrow> True | Some c \<Rightarrow> ca_count c < ca_count c') (ot_candidates tr')"

definition observed_audio :: "observation \<Rightarrow> int set" where
  "observed_audio ob = (case support_intervals_for (ob_start ob) (ob_stop ob) (ob_support ob) of
     Inl e \<Rightarrow> {} | Inr iv \<Rightarrow> audio iv)"

definition ledger_ok :: "int set \<Rightarrow> speaker_tracker \<Rightarrow> bool" where
  "ledger_ok H tr \<longleftrightarrow> H \<inter> {ot_floor tr..} \<subseteq> audio (ot_credited tr)"

lemma ledger_same:
  "ot_floor tr' = ot_floor tr \<Longrightarrow> ot_credited tr' = ot_credited tr \<Longrightarrow> ledger_ok H tr' \<longleftrightarrow> ledger_ok H tr"
  by (simp add: ledger_ok_def)

lemma not_counted:
  assumes "distinct (map fst (ot_speakers tr'))" "distinct (map fst (ot_candidates tr'))"
    "\<And>k p'. map_of (ot_speakers tr') k = Some p' \<Longrightarrow> \<exists>p. map_of (ot_speakers tr) k = Some p \<and> sp_count p' \<le> sp_count p"
    "\<And>k c'. map_of (ot_candidates tr') k = Some c' \<Longrightarrow> \<exists>c. map_of (ot_candidates tr) k = Some c \<and> ca_count c' \<le> ca_count c"
  shows "\<not> counted tr tr'"
proof -
  have "\<not> (case map_of (ot_speakers tr) k of None \<Rightarrow> True | Some p \<Rightarrow> sp_count p < sp_count p')"
    if "(k, p') \<in> set (ot_speakers tr')" for k p'
    using assms(3) [OF map_of_is_SomeI [OF assms(1) that]] by auto
  moreover have "\<not> (case map_of (ot_candidates tr) k of None \<Rightarrow> True | Some c \<Rightarrow> ca_count c < ca_count c')"
    if "(k, c') \<in> set (ot_candidates tr')" for k c'
    using assms(4) [OF map_of_is_SomeI [OF assms(2) that]] by auto
  ultimately show ?thesis unfolding counted_def list_ex_iff by blast
qed

lemma ledger_advance: "tracker_ok tr \<Longrightarrow> ledger_ok H tr \<Longrightarrow> ledger_ok H (advance_clock now tr)"
  using clip_credit_spec [OF tracker_okD(10)] by (auto simp: ledger_ok_def advance_clock_def Let_def)

lemma heard_voice_simps [simp]:
  "ot_credited (heard_voice ob v tr) = ot_credited (heard_clock ob tr)" "ot_floor (heard_voice ob v tr) = ot_floor (heard_clock ob tr)"
  "ot_speakers (heard_voice ob v tr) = ot_speakers tr" "ot_candidates (heard_voice ob v tr) = ot_candidates (heard_clock ob tr)"
  "ot_speakers (heard_clock ob tr) = ot_speakers tr" "ot_config (heard_voice ob v tr) = ot_config tr"
  "ot_speaker_seq (heard_voice ob v tr) = ot_speaker_seq tr" "ot_candidate_seq (heard_voice ob v tr) = ot_candidate_seq tr"
  "ot_speaker_seq (heard_clock ob tr) = ot_speaker_seq tr" "ot_candidate_seq (heard_clock ob tr) = ot_candidate_seq tr"
  by (simp_all add: heard_voice_def heard_clock_def remember_sample_def advance_clock_def Let_def)

lemma heard_clock_candidates:
  assumes "tracker_ok tr" "map_of (ot_candidates (heard_clock ob tr)) k = Some c"
  shows "map_of (ot_candidates tr) k = Some c"
  using map_of_filter_some [OF tracker_okD(3) [OF assms(1)]] assms(2)
  by (simp add: heard_clock_def remember_sample_def advance_clock_def Let_def)

lemma heard_clock_ledger: "tracker_ok tr \<Longrightarrow> ledger_ok H tr \<Longrightarrow> ledger_ok H (heard_clock ob tr)"
  using ledger_advance [of tr H "evidence_ready ob"] by (simp add: ledger_ok_def heard_clock_def remember_sample_def)

text \<open>The ledger after evidence was recorded.\<close>

lemma recorded_ledger:
  assumes ok: "tracker_ok tr" and proper: "\<forall>p \<in> set supports. fst p < snd p \<and> ob_start ob \<le> fst p \<and> snd p \<le> ob_stop ob"
    and hd: "fst (hd supports) = ob_start ob" and can: "ev_can (weigh_evidence ob supports v tr)" and led: "ledger_ok H tr"
  shows "ledger_ok (H \<union> audio supports) (record_support (ev_plan (weigh_evidence ob supports v tr)) (ob_stop ob) tr)"
    "ot_sparse tr \<Longrightarrow> audio supports \<inter> H = {}"
proof -
  let ?ev = "weigh_evidence ob supports v tr"
  have p: "\<forall>p \<in> set supports. fst p < snd p" using proper by simp
  note sep = tracker_okD(10) [OF ok]
  have range: "audio supports \<subseteq> {ob_start ob..<ob_stop ob}" using proper by (fastforce simp: audio_def)
  show "ledger_ok (H \<union> audio supports) (record_support (ev_plan ?ev) (ob_stop ob) tr)"
  proof (cases "ev_plan ?ev")
    case None
    then show ?thesis using led range by (fastforce simp: ledger_ok_def record_support_def)
  next
    case (Some iv)
    then have "credit_plan supports tr = Some iv" by (auto simp: weigh_evidence_def Let_def split: if_splits)
    from credit_plan_audio(3) [OF this sep p] Some led show ?thesis by (auto simp: ledger_ok_def record_support_def)
  qed
  assume "ot_sparse tr"
  then have ind: "independent_support supports tr" using can by (simp add: weigh_evidence_def Let_def split: if_splits)
  have "audio supports \<inter> audio (ot_credited tr) = {}"
  proof -
    have "{fst q..<snd q} \<inter> audio (ot_credited tr) = {}" if "q \<in> set supports" for q
      using ind that interval_free_iff [OF sep, of q] p by (auto simp: independent_support_def list_all_iff)
    then show ?thesis unfolding audio_def [of supports] by fastforce
  qed
  moreover have "ot_floor tr \<le> ob_start ob" using ind hd by (simp add: independent_support_def)
  ultimately show "audio supports \<inter> H = {}" using led range by (fastforce simp: ledger_ok_def)
qed

lemma settled_ledger:
  assumes "settle_candidate ev best c tr = (ans, tr')"
  shows "ot_floor tr' = ot_floor (record_support (ev_plan ev) (ob_stop (ev_observed ev)) tr)"
    "ot_credited tr' = ot_credited (record_support (ev_plan ev) (ob_stop (ev_observed ev)) tr)"
  using assms by (cases rule: settle_cases;
    cases "ev_plan ev"; simp add: stored_candidate_def dropped_candidate_def record_support_def)+

lemma record_support_ledger:
  assumes "ot_floor t = ot_floor tr" "ot_credited t = ot_credited tr"
  shows "ot_floor (record_support plan e t) = ot_floor (record_support plan e tr)"
    "ot_credited (record_support plan e t) = ot_credited (record_support plan e tr)"
  using assms by (cases plan; simp add: record_support_def)+

text \<open>Either nothing was counted and the ledger is as before, or the observation's support was recorded.\<close>

lemma voiced_ledger:
  assumes v: "voiced ev tr ans tr'" and ok: "tracker_ok tr" and ok': "tracker_ok tr'"
  shows "(\<not> counted tr tr' \<and> ot_candidates tr' = ot_candidates tr \<and> ot_floor tr' = ot_floor tr \<and> ot_credited tr' = ot_credited tr
        \<and> (\<forall>k p'. map_of (ot_speakers tr') k = Some p' \<longrightarrow> (\<exists>p. map_of (ot_speakers tr) k = Some p \<and> sp_count p' \<le> sp_count p)))
     \<or> (ev_can ev \<and> ot_floor tr' = ot_floor (record_support (ev_plan ev) (ob_stop (ev_observed ev)) tr)
        \<and> ot_credited tr' = ot_credited (record_support (ev_plan ev) (ob_stop (ev_observed ev)) tr))"
  using v
proof cases
  case failed
  then show ?thesis using not_counted [OF tracker_okD(2) [OF ok] tracker_okD(3) [OF ok], of tr] by auto
next
  case (quiet st cid sim why)
  then show ?thesis using not_counted [OF tracker_okD(2) [OF ok] tracker_okD(3) [OF ok], of tr] by auto
next
  case (seen k p sim why)
  have id: "sp_id p = k" using tracker_okD(4) [OF ok seen(3)] by (simp add: speaker_ok_def)
  have sp: "\<forall>k' p'. map_of (ot_speakers tr') k' = Some p' \<longrightarrow> (\<exists>q. map_of (ot_speakers tr) k' = Some q \<and> sp_count p' \<le> sp_count q)"
    using seen(3) unfolding seen(2) id by auto
  have cd: "ot_candidates tr' = ot_candidates tr" unfolding seen(2) by simp
  have "\<not> counted tr tr'"
    using not_counted [OF tracker_okD(2) [OF ok'] tracker_okD(3) [OF ok'], of tr] sp cd by auto
  then show ?thesis using sp unfolding seen(2) by simp
next
  case (learned k p sim why w)
  then show ?thesis by (cases "ev_plan ev") (simp_all add: record_support_def)
next
  case (settled c tr1 best)
  have "ot_floor tr1 = ot_floor tr" "ot_credited tr1 = ot_credited tr"
    using supports_candidate_simps(6,7) [OF settled(3)] by simp_all
  then show ?thesis using settled_ledger [OF settled(4)] record_support_ledger [of tr1 tr] settled(1) by simp
qed

lemma voiced_sparse: "voiced ev tr ans tr' \<Longrightarrow> ot_sparse tr' = ot_sparse tr"
proof (induction rule: voiced.induct)
  case (settled c tr1 best ans tr')
  from settled(4) show ?case
    by (cases rule: settle_cases) (simp_all add: supports_candidate_simps(5) [OF settled(3)])
qed simp_all

lemma voice_ledger:
  assumes ok: "tracker_ok tr" and led: "ledger_ok H tr" and st: "tr' = snd (observe_speaker uc sqr ob tr)"
  shows "ledger_ok H tr' \<and> (counted tr tr' \<longrightarrow>
    ledger_ok (H \<union> observed_audio ob) tr' \<and> (ot_sparse tr' \<longrightarrow> observed_audio ob \<inter> H = {}))"
proof -
  have ok': "tracker_ok tr'" unfolding st by (rule observe_ok [OF ok])
  have h: "heard uc sqr ob tr (fst (observe_speaker uc sqr ob tr)) tr'" unfolding st by (rule observe_heard)
  have same: "\<not> counted tr tr'" if "ot_speakers tr' = ot_speakers tr"
      "\<And>k c. map_of (ot_candidates tr') k = Some c \<Longrightarrow> map_of (ot_candidates tr) k = Some c"
    using not_counted [OF tracker_okD(2) [OF ok'] tracker_okD(3) [OF ok'], of tr] that by force
  from h show ?thesis
  proof cases
    case refused then show ?thesis using same led by simp
  next
    case unheard then show ?thesis using same led by simp
  next
    case (noted supports)
    then show ?thesis using same heard_clock_candidates [OF ok] heard_clock_ledger [OF ok led] by simp
  next
    case (weighed supports v)
    let ?tr2 = "heard_voice ob v tr" and ?ev = "weigh_evidence ob supports v (heard_voice ob v tr)"
    note ck = check_observation_Inr [OF weighed(1)]
    have ok2: "tracker_ok ?tr2" by (rule heard_voice_ok [OF ok weighed(2)])
    have led2: "ledger_ok H ?tr2"
      using heard_clock_ledger [OF ok led] by (simp only: ledger_same [OF heard_voice_simps(2,1)])
    have obs: "ev_observed ?ev = ob" by (simp add: weigh_evidence_def Let_def)
    have aud: "observed_audio ob = audio supports" using ck(8) by (simp add: observed_audio_def)
    from voiced_ledger [OF weighed(7) ok2 ok'] consider
        (no) "ot_candidates tr' = ot_candidates ?tr2" "ot_floor tr' = ot_floor ?tr2" "ot_credited tr' = ot_credited ?tr2"
          "\<forall>k p'. map_of (ot_speakers tr') k = Some p' \<longrightarrow> (\<exists>p. map_of (ot_speakers tr) k = Some p \<and> sp_count p' \<le> sp_count p)"
      | (yes) "ev_can ?ev" "ot_floor tr' = ot_floor (record_support (ev_plan ?ev) (ob_stop ob) ?tr2)"
          "ot_credited tr' = ot_credited (record_support (ev_plan ?ev) (ob_stop ob) ?tr2)"
      by (auto simp: obs)
    then show ?thesis
    proof cases
      case no
      have "\<not> counted tr tr'"
        by (rule not_counted [OF tracker_okD(2) [OF ok'] tracker_okD(3) [OF ok']])
          (use no(1,4) heard_clock_candidates [OF ok] in auto)
      then show ?thesis using led2 ledger_same [OF no(2,3)] by simp
    next
      case yes
      note rec = recorded_ledger [OF ok2 ck(5,7) yes(1) led2]
      have l: "ledger_ok (H \<union> observed_audio ob) tr'"
        using rec(1) by (simp only: ledger_same [OF yes(2,3)] aud)
      then have "ledger_ok H tr'" by (auto simp: ledger_ok_def)
      then show ?thesis using l rec(2) voiced_sparse [OF weighed(7)] aud by simp
    qed
  qed
qed

lemma step_ledger:
  assumes ok: "tracker_ok tr" and led: "ledger_ok H tr"
  shows "ledger_ok H (speaker_step uc sqr op tr)"
proof (cases op)
  case (Voice ob) then show ?thesis using voice_ledger [OF ok led] by simp
next
  case (Silence now) then show ?thesis using ledger_advance [OF ok led] led by (simp add: expire_tracker_def)
next
  case (Rename i name)
  show ?thesis
  proof (cases "rename_speaker uc i name tr")
    case (Inr b)
    obtain p' t where b: "b = (p', t)" by fastforce
    with Inr have "ot_floor t = ot_floor tr \<and> ot_credited t = ot_credited tr" by (auto elim: rename_cases)
    then show ?thesis using Rename Inr b led ledger_same [of t tr] by simp
  qed (use Rename led in simp)
next
  case InputGap then show ?thesis using led by (simp add: clear_candidates_def ledger_ok_def)
qed

lemma run_ledger:
  assumes "tracker_ok tr" "ledger_ok H tr"
  shows "ledger_ok H (speaker_run uc sqr ops tr)"
proof -
  have "tracker_ok (speaker_run uc sqr ops tr) \<and> ledger_ok H (speaker_run uc sqr ops tr)"
    by (rule speaker_run_keeps [where P = "\<lambda>t. tracker_ok t \<and> ledger_ok H t"])
      (use assms speaker_step_ok step_ledger in blast)+
  then show ?thesis by simp
qed

subsection \<open>Restored trackers\<close>

definition restored_ok :: "speaker_tracker \<Rightarrow> bool" where
  "restored_ok tr \<longleftrightarrow> distinct (map fst (ot_speakers tr)) \<and> ot_candidates tr = [] \<and> ot_recent tr = [] \<and> ot_credited tr = []
     \<and> (\<forall>k p. map_of (ot_speakers tr) k = Some p \<longrightarrow> speaker_ok tr k p)
     \<and> (\<forall>n. ot_speaker_seq tr < n \<longrightarrow> map_of (ot_speakers tr) (speaker_name n) = None)"

lemma takeWhile_digits: "\<forall>c \<in> set s. c \<noteq> 45 \<Longrightarrow> takeWhile (\<lambda>c. c \<noteq> (45 :: nat)) (rev s @ 45 # r) = rev s"
  by (simp add: takeWhile_append)

lemma zero_padded_chars: "c \<in> set (zero_padded w n) \<Longrightarrow> c \<noteq> 45"
proof -
  have "\<forall>c \<in> set (dec n). 48 \<le> c" for n
  proof (induction n rule: less_induct)
    case (less n)
    show ?case
    proof (cases "n < 10")
      case True
      have eq: "dec n = [48 + n]" by (subst dec.simps) (simp only: True if_True)
      show ?thesis unfolding eq by simp
    next
      case False
      have eq: "dec n = dec (n div 10) @ [48 + n mod 10]" by (subst dec.simps) (simp only: False if_False)
      show ?thesis unfolding eq using less.IH [of "n div 10"] False by simp
    qed
  qed
  then show "c \<in> set (zero_padded w n) \<Longrightarrow> c \<noteq> 45" by (fastforce simp: zero_padded_def Let_def)
qed

lemma speaker_number_name:
  assumes "\<forall>n. digits (zero_padded 4 n) = Some n" "0 < n"
  shows "speaker_number digits (speaker_name n) = Some n"
proof -
  have pre: "lit ''speaker-'' = lit ''speaker'' @ [45]" by code_simp
  have "takeWhile (\<lambda>c. c \<noteq> 45) (rev (speaker_name n)) = rev (zero_padded 4 n)"
    unfolding speaker_name_def pre using takeWhile_digits [of "zero_padded 4 n"] zero_padded_chars by simp
  then show ?thesis using assms by (simp add: speaker_number_def Let_def speaker_name_def)
qed

lemma restore_profile_ok:
  assumes dig: "\<forall>n. digits (zero_padded 4 n) = Some n" and ok: "restored_ok tr"
    and r: "restore_profile uc sqr digits p tr = Inr tr'"
  shows "restored_ok tr'" "ot_config tr' = ot_config tr"
proof -
  obtain n v where p: "map_of (ot_speakers tr) (sp_id p) = None" "speaker_number digits (sp_id p) = Some n"
    "\<not> sp_count p < 1" "\<not> sp_support_end p < 0" "\<not> sp_seen p < sp_support_end p"
    "tr' = tr\<lparr>ot_dimension := Some (length v), ot_speakers := ot_speakers tr @ [(sp_id p, p\<lparr>sp_vector := v\<rparr>)],
       ot_speaker_seq := max (ot_speaker_seq tr) n, ot_watermark := max (ot_watermark tr) (sp_seen p),
       ot_floor := max (ot_floor tr) (sp_seen p)\<rparr>"
    using r by (auto simp: restore_profile_def res_bind_eq_Inr split: if_splits option.splits)
  have fresh: "sp_id p \<notin> set (map fst (ot_speakers tr))" using p(1) by (simp add: map_of_eq_None_iff)
  have id: "sp_id p \<noteq> speaker_name m" if "max (ot_speaker_seq tr) n < m" for m
    using p(2) speaker_number_name [OF dig, of m] that by auto
  have old: "speaker_ok tr' k q" if "map_of (ot_speakers tr) k = Some q" for k q
  proof -
    have "speaker_ok tr k q" using ok that unfolding restored_ok_def by blast
    then show ?thesis unfolding p(6) by (auto simp: speaker_ok_def)
  qed
  have new: "speaker_ok tr' (sp_id p) (p\<lparr>sp_vector := v\<rparr>)" using p(3-5) unfolding p(6) by (simp add: speaker_ok_def)
  have map: "map_of (ot_speakers tr') = map_of (ot_speakers tr) ++ [sp_id p \<mapsto> p\<lparr>sp_vector := v\<rparr>]" if True
    unfolding p(6) using p(1) by (auto simp: map_add_def fun_eq_iff split: option.split)
  have "speaker_ok tr' k q" if "map_of (ot_speakers tr') k = Some q" for k q
    using that old [of k q] new map by (auto split: if_splits)
  moreover have "map_of (ot_speakers tr') (speaker_name m) = None" if "ot_speaker_seq tr' < m" for m
    using that map id [of m] ok unfolding p(6) by (auto simp: restored_ok_def)
  moreover have "distinct (map fst (ot_speakers tr'))" "ot_candidates tr' = []" "ot_recent tr' = []" "ot_credited tr' = []"
    using ok fresh unfolding p(6) by (auto simp: restored_ok_def)
  ultimately show "restored_ok tr'" unfolding restored_ok_def by blast
  show "ot_config tr' = ot_config tr" unfolding p(6) by simp
qed

lemma restore_profiles_ok:
  assumes dig: "\<forall>n. digits (zero_padded 4 n) = Some n"
  shows "restored_ok tr \<Longrightarrow> restore_profiles uc sqr digits ps tr = Inr tr' \<Longrightarrow> restored_ok tr' \<and> ot_config tr' = ot_config tr"
proof (induction ps arbitrary: tr)
  case (Cons p ps)
  from Cons.prems(2) obtain t where t: "restore_profile uc sqr digits p tr = Inr t"
    "restore_profiles uc sqr digits ps t = Inr tr'" by (auto simp: res_bind_eq_Inr)
  note r = restore_profile_ok [OF dig Cons.prems(1) t(1)]
  from Cons.IH [OF r(1) t(2)] r(2) show ?case by simp
qed simp

lemma new_tracker_ok:
  assumes "\<forall>n. digits (zero_padded 4 n) = Some n" "tracker_config_ok cfg"
    "new_speaker_tracker uc sqr digits cfg ps = Inr tr"
  shows "tracker_ok tr"
proof -
  have e: "restored_ok (empty_speakers cfg)" by (simp add: restored_ok_def empty_speakers_def)
  from assms(3) have r: "restore_profiles uc sqr digits ps (empty_speakers cfg) = Inr tr"
    and len: "length (ot_speakers tr) \<le> tk_max_speakers cfg"
    by (auto simp: new_speaker_tracker_def res_bind_eq_Inr split: if_splits)
  have "restored_ok tr" "ot_config tr = cfg"
    using restore_profiles_ok [OF assms(1) e r] by (simp_all add: empty_speakers_def)
  then show ?thesis using assms(2) len by (simp add: tracker_ok_def restored_ok_def)
qed

lemma empty_speakers_ok: "tracker_config_ok cfg \<Longrightarrow> tracker_ok (empty_speakers cfg)"
  by (simp add: tracker_ok_def empty_speakers_def)

subsection \<open>Properties\<close>

definition speakers_extend :: "speaker_tracker \<Rightarrow> speaker_tracker \<Rightarrow> bool" where
  "speakers_extend tr tr' \<longleftrightarrow> ot_config tr' = ot_config tr \<and> (\<forall>k p. map_of (ot_speakers tr) k = Some p \<longrightarrow>
     (\<exists>p'. map_of (ot_speakers tr') k = Some p' \<and> sp_count p \<le> sp_count p' \<and> sp_seen p \<le> sp_seen p'
        \<and> sp_support_end p \<le> sp_support_end p'))"

lemma extend_refl: "ot_speakers tr' = ot_speakers tr \<Longrightarrow> ot_config tr' = ot_config tr \<Longrightarrow> speakers_extend tr tr'"
  by (simp add: speakers_extend_def)

lemma extend_trans: "speakers_extend a b \<Longrightarrow> speakers_extend b c \<Longrightarrow> speakers_extend a c"
  unfolding speakers_extend_def by (fastforce dest: spec)

lemma extend_put:
  assumes "map_of (ot_speakers tr) k = Some p" "sp_count p \<le> sp_count q" "sp_seen p \<le> sp_seen q"
    "sp_support_end p \<le> sp_support_end q" "ot_speakers tr' = al_put k q (ot_speakers tr)" "ot_config tr' = ot_config tr"
  shows "speakers_extend tr tr'"
  using assms by (simp add: speakers_extend_def)

lemma extend_add:
  assumes "map_of (ot_speakers tr) k = None" "ot_speakers tr' = al_put k q (ot_speakers tr)" "ot_config tr' = ot_config tr"
  shows "speakers_extend tr tr'"
  using assms by (auto simp: speakers_extend_def)

lemma voiced_extends:
  assumes v: "voiced ev tr ans tr'" and ok: "tracker_ok tr"
  shows "speakers_extend tr tr'"
  using v
proof cases
  case (seen k p sim why)
  have "sp_id p = k" using tracker_okD(4) [OF ok seen(3)] by (simp add: speaker_ok_def)
  then show ?thesis using extend_put [OF seen(3), of "p\<lparr>sp_seen := max (sp_seen p) (ob_stop (ev_observed ev))\<rparr>" tr']
    unfolding seen(2) by simp
next
  case (learned k p sim why w)
  let ?p = "p\<lparr>sp_vector := w, sp_count := sp_count p + 1, sp_seen := max (sp_seen p) (ob_stop (ev_observed ev)),
            sp_support_end := max (sp_support_end p) (ob_stop (ev_observed ev))\<rparr>"
  have "sp_id p = k" using tracker_okD(4) [OF ok learned(3)] by (simp add: speaker_ok_def)
  then show ?thesis using extend_put [OF learned(3), of ?p tr'] unfolding learned(2) by simp
next
  case (settled c tr1 best)
  note sup = supports_candidate_simps [OF settled(3)]
  from settled(4) show ?thesis
  proof (cases rule: settle_cases)
    case (confirmed n)
    have "map_of (ot_speakers tr) (speaker_name n) = None" using tracker_okD(5) [OF ok] sup(4) confirmed(1) by simp
    from extend_add [OF this, of tr' "confirmed_profile ev c n"] confirmed(6) sup show ?thesis by simp
  qed (use sup in \<open>simp_all add: extend_refl\<close>)
qed (simp_all add: extend_refl)

lemma step_extends: "tracker_ok tr \<Longrightarrow> speakers_extend tr (speaker_step uc sqr op tr)"
proof (cases op)
  case (Voice ob)
  assume ok: "tracker_ok tr"
  from observe_heard [of uc sqr ob tr] have "speakers_extend tr (snd (observe_speaker uc sqr ob tr))"
  proof cases
    case (weighed supports v)
    have "speakers_extend (heard_voice ob v tr) (snd (observe_speaker uc sqr ob tr))"
      by (rule voiced_extends [OF weighed(7) heard_voice_ok [OF ok weighed(2)]])
    then show ?thesis by (simp add: speakers_extend_def)
  next
    case (noted supports) then show ?thesis
      by (simp add: extend_refl heard_clock_def remember_sample_def advance_clock_def Let_def)
  qed (simp_all add: extend_refl)
  then show ?thesis using Voice by simp
next
  case (Silence now)
  then show "tracker_ok tr \<Longrightarrow> ?thesis" by (simp add: expire_tracker_def extend_refl advance_clock_def Let_def)
next
  case (Rename i name)
  show ?thesis
  proof (cases "rename_speaker uc i name tr")
    case (Inr b)
    obtain p' t where b: "b = (p', t)" by fastforce
    from Inr b obtain p n where p: "map_of (ot_speakers tr) i = Some p" "p' = p\<lparr>sp_name := n\<rparr>"
      "t = tr\<lparr>ot_speakers := al_put i p' (ot_speakers tr)\<rparr>" by (auto elim: rename_cases)
    then show ?thesis using extend_put [OF p(1), of p' t] Rename Inr b by simp
  qed (use Rename in \<open>simp add: extend_refl\<close>)
next
  case InputGap then show ?thesis by (simp add: clear_candidates_def extend_refl)
qed

text \<open>
  C24: a confirmed speaker is never lost: from every tracker a session can start with (restored profiles included), and
  whatever is observed, expired, renamed or cleared, every speaker keeps its ID, its counters and times only grow, and
  the tracker stays within its bounds on speakers, candidates, remembered samples and credited intervals, with the
  interval ledger ordered and disjoint.
\<close>

theorem speakers_never_lost:
  assumes "tracker_config_ok cfg" "\<forall>n. digits (zero_padded 4 n) = Some n"
    "new_speaker_tracker uc sqr digits cfg profiles = Inr tr"
  shows "tracker_ok (speaker_run uc sqr (before @ after) tr)
    \<and> speakers_extend (speaker_run uc sqr before tr) (speaker_run uc sqr (before @ after) tr)"
proof -
  have ok: "tracker_ok tr" by (rule new_tracker_ok [OF assms(2,1,3)])
  let ?a = "speaker_run uc sqr before tr"
  have oka: "tracker_ok ?a" by (rule speaker_run_ok [OF ok])
  have "tracker_ok (speaker_run uc sqr after ?a) \<and> speakers_extend ?a (speaker_run uc sqr after ?a)"
    by (rule speaker_run_keeps [where P = "\<lambda>t. tracker_ok t \<and> speakers_extend ?a t"])
      (use oka speaker_step_ok step_extends extend_trans extend_refl in blast)+
  then show ?thesis by simp
qed

text \<open>
  C22: no audio is counted twice: in every run, if an observation raised a vote (a speaker or candidate gained a count or
  appeared) and a later one does so while exact evidence is in use, the two observations share no nanosecond of
  audio, whatever expires, is renamed or cleared between them.
\<close>

theorem no_audio_counted_twice:
  assumes "tracker_ok tr" "counted tr (speaker_step uc sqr (Voice first) tr)"
    "later = speaker_run uc sqr between (speaker_step uc sqr (Voice first) tr)"
    "counted later (speaker_step uc sqr (Voice second) later)" "ot_sparse (speaker_step uc sqr (Voice second) later)"
  shows "observed_audio first \<inter> observed_audio second = {}"
proof -
  have e: "ledger_ok {} tr" by (simp add: ledger_ok_def)
  have l: "ledger_ok (observed_audio first) (speaker_step uc sqr (Voice first) tr)"
    using voice_ledger [OF assms(1) e refl, of uc sqr first] assms(2) by simp
  have ok: "tracker_ok (speaker_step uc sqr (Voice first) tr)" by (rule speaker_step_ok [OF assms(1)])
  have "ledger_ok (observed_audio first) later" "tracker_ok later"
    unfolding assms(3) using run_ledger [OF ok l] speaker_run_ok [OF ok] by simp_all
  from voice_ledger [OF this(2,1) refl, of uc sqr second] assms(4,5) show ?thesis by auto
qed

text \<open>
  C23: a new identity is earned: when an observation is answered as a new speaker, it was clean (no overlap, enough
  quality and speech) and unlike every confirmed speaker, its candidate was already pending and with this observation
  reaches the required number of confirmations and amount of speech; the ID is fresh, and all other speakers are as
  they were.
\<close>

theorem new_speaker_confirmed:
  assumes "tracker_ok tr" "observe_speaker uc sqr ob tr = (Inr a, tr')" "as_status a = NewSpeaker"
  shows "\<exists>i k c v p. as_speaker a = Some i \<and> as_candidate a = Some k \<and> map_of (ot_speakers tr) i = None
    \<and> \<not> ob_overlap ob \<and> tk_quality (ot_config tr) \<le> pf_val (ob_quality ob) \<and> tk_min_speech (ot_config tr) \<le> ob_speech ob
    \<and> normalize_embedding sqr (ob_embedding ob) = Inr v
    \<and> (\<forall>j q. map_of (ot_speakers tr) j = Some q \<longrightarrow> similarity v (sp_vector q) \<le> tk_new (ot_config tr))
    \<and> map_of (ot_candidates tr) k = Some c \<and> tk_confirmations (ot_config tr) \<le> ca_count c + 1
    \<and> tk_confirm_speech (ot_config tr) \<le> ca_speech c + ob_speech ob
    \<and> map_of (ot_speakers tr') = (map_of (ot_speakers tr))(i \<mapsto> p) \<and> sp_count p = ca_count c + 1
    \<and> map_of (ot_candidates tr') k = None"
proof -
  have "heard uc sqr ob tr (Inr a) tr'" using observe_heard [of uc sqr ob tr] assms(2) by simp
  then show ?thesis
  proof cases
    case (weighed supports v)
    let ?tr2 = "heard_voice ob v tr"
    let ?ev = "weigh_evidence ob supports v ?tr2"
    have ev: "ev_observed ?ev = ob" "ev_vector ?ev = v" by (simp_all add: weigh_evidence_def Let_def)
    from weighed(7) show ?thesis
    proof cases
      case (settled c tr1 best)
      note sup = supports_candidate_simps [OF settled(3)]
      from settled(4) show ?thesis
      proof (cases rule: settle_cases)
        case (confirmed n)
        have cfg: "tk_confirmations (ot_config tr) \<le> ca_count c" "tk_confirm_speech (ot_config tr) \<le> ca_speech c"
          using confirmed(3,4) sup(1) by simp_all
        from settled(3) show ?thesis
        proof cases
          case fresh
          have "2 \<le> tk_confirmations (ot_config tr)" using tracker_okD(1) [OF assms(1)] by (simp add: tracker_config_ok_def)
          then have False using cfg(1) unfolding fresh(1) by (simp add: fresh_candidate_def)
          then show ?thesis ..
        next
          case (grown k c0)
          have c0: "map_of (ot_candidates tr) k = Some c0"
            using grown(2) heard_clock_candidates [OF assms(1)] by simp
          have id: "ca_id c0 = k" using tracker_okD(6) [OF assms(1) c0] by (simp add: candidate_ok_def)
          have fresh: "map_of (ot_speakers tr) (speaker_name n) = None"
            using tracker_okD(5) [OF assms(1)] sup(4) confirmed(1) by simp
          have sp: "map_of (ot_speakers tr') = (map_of (ot_speakers tr))(speaker_name n \<mapsto> confirmed_profile ?ev c n)"
            unfolding confirmed(6) using sup(2) by simp
          have cd: "map_of (ot_candidates tr') k = None"
            unfolding confirmed(6) using grown(3) id by (simp add: dropped_candidate_def)
          have un: "\<forall>j q. map_of (ot_speakers tr) j = Some q \<longrightarrow> similarity v (sp_vector q) \<le> tk_new (ot_config tr)"
            using settled(2) by (simp add: unlike_all_def ev)
          have "as_speaker a = Some (speaker_name n)" "as_candidate a = Some k" "sp_count (confirmed_profile ?ev c n) = ca_count c0 + 1"
            using confirmed(5) grown(3,4) id by (simp_all add: speaker_result_def confirmed_profile_def)
          then show ?thesis using fresh weighed(3-6) un c0 cfg grown(4,5) sp cd ev(1) by auto
        qed
      qed (use assms(3) in \<open>auto simp: speaker_result_def\<close>)
    qed (use assms(3) in \<open>auto simp: speaker_result_def\<close>)
  qed (use assms(3) in \<open>auto simp: speaker_result_def\<close>)
qed

subsection \<open>A session with two voices\<close>

definition demo_tracker_config :: tracker_config where
  "demo_tracker_config = \<lparr>tk_match = 82 / 100, tk_new = 60 / 100, tk_candidate = 82 / 100, tk_update = 90 / 100,
     tk_margin = 8 / 100, tk_quality = 70 / 100, tk_min_speech = 1000000000, tk_confirm_speech = 3000000000,
     tk_confirmations = 3, tk_idle = 20000000000, tk_max_candidates = 16, tk_max_speakers = 128, tk_max_recent = 4096,
     tk_rate = 10 / 100\<rparr>"

text \<open>One second of clean speech that begins at second \<open>n\<close>.\<close>

definition demo_voice :: "string \<Rightarrow> int \<Rightarrow> rat list \<Rightarrow> observation" where
  "demo_voice sample n v = \<lparr>ob_sample = lit sample, ob_track = lit ''mic'', ob_start = n * 1000000000,
     ob_stop = (n + 1) * 1000000000, ob_embedding = map Fin v, ob_speech = 1000000000, ob_overlap = False,
     ob_quality = Fin 1, ob_support = [(n * 1000000000, (n + 1) * 1000000000)], ob_ready = None\<rparr>"

definition demo_profile :: speaker_profile where
  "demo_profile = \<lparr>sp_id = speaker_name 4, sp_name = lit ''Ann'', sp_vector = [0, 1], sp_count = 5, sp_seen = 0,
     sp_support_end = 0\<rparr>"

definition demo_tracker :: speaker_tracker where
  "demo_tracker = (empty_speakers demo_tracker_config)\<lparr>ot_dimension := Some 2, ot_speakers := [(speaker_name 4, demo_profile)],
     ot_speaker_seq := 4, ot_watermark := 0\<rparr>"

definition demo_pending :: speaker_tracker where
  "demo_pending = speaker_run ascii_db id [Voice (demo_voice ''a'' 0 [1, 0]), Silence 1500000000,
     Voice (demo_voice ''b'' 2 [1, 0])] demo_tracker"

lemma demo_tracker_new:
  "new_speaker_tracker ascii_db id (\<lambda>s. Some (decimal_value s)) demo_tracker_config [demo_profile] = Inr demo_tracker"
  by code_simp

lemma demo_config_ok: "tracker_config_ok demo_tracker_config"
  by code_simp

lemma demo_digits: "\<forall>n. Some (decimal_value (zero_padded 4 n)) = Some n"
  by (simp add: decimal_value_padded)

lemma demo_tracker_ok: "tracker_ok demo_tracker"
  by (rule new_tracker_ok [OF demo_digits demo_config_ok demo_tracker_new])

lemma demo_pending_ok: "tracker_ok demo_pending"
  unfolding demo_pending_def by (rule speaker_run_ok [OF demo_tracker_ok])

lemma speakers_never_lost_witness:
  "(tracker_ok (speaker_run ascii_db id ([Voice (demo_voice ''a'' 0 [1, 0])] @ [InputGap, Rename (speaker_name 4) (lit ''Bob'')])
        demo_tracker)
     \<and> speakers_extend (speaker_run ascii_db id [Voice (demo_voice ''a'' 0 [1, 0])] demo_tracker)
        (speaker_run ascii_db id ([Voice (demo_voice ''a'' 0 [1, 0])] @ [InputGap, Rename (speaker_name 4) (lit ''Bob'')]) demo_tracker))
   \<and> map (sp_name \<circ> snd) (ot_speakers (speaker_run ascii_db id [Rename (speaker_name 4) (lit ''Bob'')] demo_tracker)) = [lit ''Bob'']"
  by (rule conjI [OF speakers_never_lost [OF demo_config_ok demo_digits demo_tracker_new]]) code_simp

lemma demo_counted:
  "counted demo_tracker (speaker_step ascii_db id (Voice (demo_voice ''a'' 0 [1, 0])) demo_tracker)"
  "counted (speaker_run ascii_db id [Silence 1500000000] (speaker_step ascii_db id (Voice (demo_voice ''a'' 0 [1, 0])) demo_tracker))
     (speaker_step ascii_db id (Voice (demo_voice ''b'' 2 [1, 0]))
       (speaker_run ascii_db id [Silence 1500000000] (speaker_step ascii_db id (Voice (demo_voice ''a'' 0 [1, 0])) demo_tracker)))"
  "ot_sparse (speaker_step ascii_db id (Voice (demo_voice ''b'' 2 [1, 0]))
       (speaker_run ascii_db id [Silence 1500000000] (speaker_step ascii_db id (Voice (demo_voice ''a'' 0 [1, 0])) demo_tracker)))"
  by code_simp+

lemma no_audio_counted_twice_witness:
  "observed_audio (demo_voice ''a'' 0 [1, 0]) \<inter> observed_audio (demo_voice ''b'' 2 [1, 0]) = {}
   \<and> \<not> counted demo_pending (speaker_step ascii_db id (Voice ((demo_voice ''c'' 2 [1, 0])\<lparr>ob_ready := Some 4000000000\<rparr>)) demo_pending)"
  by (rule conjI [OF no_audio_counted_twice [OF demo_tracker_ok demo_counted(1) refl demo_counted(2,3)]]) code_simp

definition demo_confirmation :: "assignment \<times> speaker_tracker" where
  "demo_confirmation = (case observe_speaker ascii_db id (demo_voice ''c'' 3 [1, 0]) demo_pending of
     (Inr a, tr) \<Rightarrow> (a, tr) | (Inl e, tr) \<Rightarrow> (speaker_result (demo_voice ''c'' 3 []) UnknownSpeaker None None None [], tr))"

lemma demo_confirmed:
  "observe_speaker ascii_db id (demo_voice ''c'' 3 [1, 0]) demo_pending = (Inr (fst demo_confirmation), snd demo_confirmation)"
  "as_status (fst demo_confirmation) = NewSpeaker"
  by code_simp+

lemma new_speaker_confirmed_witness:
  "(\<exists>i k c p. as_speaker (fst demo_confirmation) = Some i \<and> as_candidate (fst demo_confirmation) = Some k
     \<and> map_of (ot_candidates demo_pending) k = Some c \<and> 3 \<le> ca_count c + 1
     \<and> map_of (ot_speakers (snd demo_confirmation)) = (map_of (ot_speakers demo_pending))(i \<mapsto> p))
   \<and> as_speaker (fst demo_confirmation) = Some (speaker_name 5)"
proof -
  have "tk_confirmations (ot_config demo_pending) = 3" "as_speaker (fst demo_confirmation) = Some (speaker_name 5)"
    by code_simp+
  with new_speaker_confirmed [OF demo_pending_ok demo_confirmed] show ?thesis by fastforce
qed

end
