(* ===== verification/SpeakerCaptions.thy ===== *)
theory SpeakerCaptions
  imports CaptionStore SpeakerTracker
begin

text \<open>
  Model of \<^verbatim>\<open>speaker_captions.py\<close>: speaker assignments mapped onto caption intervals. Dictionaries are lists in
  insertion order, fractions are exact. A call returns its answer, the reducer and the caption store it leaves, also
  when it raises. An assignment was validated when it was retained, so \<open>support_of\<close> reads its intervals without an
  error branch.
\<close>

subsection \<open>Values\<close>

record mapping_config =
  mc_coverage :: rat
  mc_unknown :: rat
  mc_history_ns :: int
  mc_max_history :: nat
  mc_max_captions :: nat

definition mapping_config_ok :: "mapping_config \<Rightarrow> bool" where
  "mapping_config_ok c \<longleftrightarrow> 0 \<le> mc_unknown c \<and> mc_unknown c \<le> 1 \<and> 1 / 2 < mc_coverage c \<and> mc_coverage c \<le> 1
     \<and> 1 \<le> mc_history_ns c \<and> 1 \<le> mc_max_history c \<and> 1 \<le> mc_max_captions c"

record speaker_patch =
  sq_segment :: ustring
  sq_speaker :: "ustring option"
  sq_revision :: int
  sq_based_on :: int
  sq_track :: ustring
  sq_epoch :: ustring
  sq_start :: int
  sq_end :: int
  sq_reason :: string
  sq_coverage :: rat
  sq_unknown :: rat

record caption_ref =
  cr_segment :: ustring
  cr_track :: ustring
  cr_epoch :: ustring
  cr_start :: int
  cr_end :: int
  cr_revision :: int

record voice_entry =
  ve_assignment :: assignment
  ve_epoch :: ustring

record caption_decision =
  de_speaker :: "ustring option"
  de_reason :: string
  de_coverage :: rat
  de_unknown :: rat
  de_duration :: int
  de_known_ns :: int
  de_unknown_ns :: int
  de_nonspeech_ns :: int
  de_overlap_ns :: int
  de_ambiguous_ns :: int
  de_conflict_ns :: int
  de_unobserved_ns :: int

definition evaluated_duration :: "caption_decision \<Rightarrow> int" where
  "evaluated_duration d = de_duration d - de_nonspeech_ns d"

definition evaluated_coverage :: "caption_decision \<Rightarrow> rat" where
  "evaluated_coverage d = (if evaluated_duration d = 0 then 0
     else de_coverage d * of_int (de_duration d) / of_int (evaluated_duration d))"

definition evaluated_unknown :: "caption_decision \<Rightarrow> rat" where
  "evaluated_unknown d = (if evaluated_duration d = 0 then 0 else of_int (de_unknown_ns d) / of_int (evaluated_duration d))"

text \<open>One row of the diagnostics: a count, the sums of the times and the sums of the fractions.\<close>

record bucket =
  bk_count :: nat
  bk_times :: "int list"
  bk_fractions :: "rat list"

definition empty_bucket :: bucket where
  "empty_bucket = \<lparr>bk_count = 0, bk_times = replicate 9 0, bk_fractions = replicate 4 0\<rparr>"

definition decision_times :: "caption_decision \<Rightarrow> int list" where
  "decision_times d = [de_duration d, de_known_ns d, de_unknown_ns d, de_nonspeech_ns d, de_overlap_ns d, de_ambiguous_ns d,
     de_conflict_ns d, de_unobserved_ns d, evaluated_duration d]"

definition aggregate_decision :: "caption_decision \<Rightarrow> bucket \<Rightarrow> bucket" where
  "aggregate_decision d b = \<lparr>bk_count = bk_count b + 1, bk_times = map2 (+) (bk_times b) (decision_times d),
     bk_fractions = map2 (+) (bk_fractions b) [de_coverage d, de_unknown d, evaluated_coverage d, evaluated_unknown d]\<rparr>"

definition aggregate_into :: "(string \<times> bucket) list \<Rightarrow> caption_decision \<Rightarrow> (string \<times> bucket) list" where
  "aggregate_into table d = al_put (de_reason d)
     (aggregate_decision d (case map_of table (de_reason d) of None \<Rightarrow> empty_bucket | Some b \<Rightarrow> b)) table"

record mapping_stats =
  n_assignments :: nat
  n_duplicates :: nat
  n_ignored :: nat
  n_expired :: nat
  n_history_evictions :: nat
  n_caption_evictions :: nat
  n_expired_captions :: nat
  n_stale_captions :: nat
  n_manual_preserved :: nat
  n_confirmations :: nat
  n_patches :: nat
  n_rechecks :: nat

type_synonym voice_key = "ustring \<times> ustring \<times> ustring"
type_synonym candidate_key = "ustring \<times> ustring \<times> ustring option"

record reducer =
  rr_config :: mapping_config
  rr_history :: "(voice_key \<times> voice_entry) list"
  rr_captions :: "(ustring \<times> caption_ref) list"
  rr_latest :: "(ustring \<times> caption_decision) list"
  rr_retired :: "(string \<times> bucket) list"
  rr_causes :: "(string \<times> nat) list"
  rr_confirmed :: "(candidate_key \<times> ustring) list"
  rr_watermark :: int
  rr_floor :: int
  rr_stats :: mapping_stats

definition no_stats :: mapping_stats where
  "no_stats = \<lparr>n_assignments = 0, n_duplicates = 0, n_ignored = 0, n_expired = 0, n_history_evictions = 0,
     n_caption_evictions = 0, n_expired_captions = 0, n_stale_captions = 0, n_manual_preserved = 0, n_confirmations = 0,
     n_patches = 0, n_rechecks = 0\<rparr>"

definition new_reducer :: "mapping_config \<Rightarrow> reducer" where
  "new_reducer cfg = \<lparr>rr_config = cfg, rr_history = [], rr_captions = [], rr_latest = [], rr_retired = [], rr_causes = [],
     rr_confirmed = [], rr_watermark = 0, rr_floor = 0, rr_stats = no_stats\<rparr>"

subsection \<open>The decision for one caption\<close>

definition support_of :: "assignment \<Rightarrow> interval list" where
  "support_of a = (case support_intervals_for (as_start a) (as_stop a) (as_support a) of Inl e \<Rightarrow> [] | Inr iv \<Rightarrow> iv)"

definition candidate_key_of :: "voice_entry \<Rightarrow> candidate_key" where
  "candidate_key_of v = (as_track (ve_assignment v), ve_epoch v, as_candidate (ve_assignment v))"

definition entry_label :: "(candidate_key \<times> ustring) list \<Rightarrow> voice_entry \<Rightarrow> ustring option" where
  "entry_label confirmed v =
     (case as_status (ve_assignment v) of
        NewSpeaker \<Rightarrow> as_speaker (ve_assignment v)
      | ExistingSpeaker \<Rightarrow> as_speaker (ve_assignment v)
      | ProvisionalSpeaker \<Rightarrow> map_of confirmed (candidate_key_of v)
      | UnknownSpeaker \<Rightarrow> None)"

datatype evidence_kind = KnownVoice ustring | NonspeechKind | OverlapKind | AmbiguousKind | UnknownKind

definition entry_kind :: "(candidate_key \<times> ustring) list \<Rightarrow> voice_entry \<Rightarrow> evidence_kind" where
  "entry_kind confirmed v =
     (let why = as_reason (ve_assignment v); unknown = (as_status (ve_assignment v) = UnknownSpeaker)
      in case entry_label confirmed v of
          Some l \<Rightarrow> KnownVoice l
        | None \<Rightarrow>
            if unknown \<and> why = lit ''predicted_nonspeech'' then NonspeechKind
            else if unknown \<and> why \<in> {lit ''predicted_overlap'', lit ''overlap'', lit ''overlap_uncertain''} then OverlapKind
            else if unknown \<and> why \<in> {lit ''ambiguous_existing'', lit ''ambiguous_candidate''} then AmbiguousKind
            else UnknownKind)"

definition clip_to :: "caption_ref \<Rightarrow> interval list \<Rightarrow> interval list" where
  "clip_to c iv = map (\<lambda>(a, b). (max a (cr_start c), min b (cr_end c))) (filter (\<lambda>(a, b). a < cr_end c \<and> cr_start c < b) iv)"

type_synonym cell = "evidence_kind \<times> interval"

text \<open>The evidence that meets the caption: what each entry says, with its intervals inside the caption.\<close>

definition caption_cells ::
    "(voice_key \<times> voice_entry) list \<Rightarrow> (candidate_key \<times> ustring) list \<Rightarrow> caption_ref \<Rightarrow> cell list" where
  "caption_cells history confirmed c =
     concat (map (\<lambda>(k, v). if as_track (ve_assignment v) \<noteq> cr_track c \<or> ve_epoch v \<noteq> cr_epoch c then []
       else map (\<lambda>p. (entry_kind confirmed v, p)) (clip_to c (support_of (ve_assignment v)))) history)"

definition known_ids :: "cell list \<Rightarrow> ustring list" where
  "known_ids cells = remdups (concat (map (\<lambda>(k, p). case k of KnownVoice l \<Rightarrow> [l] | _ \<Rightarrow> []) cells))"

type_synonym changes = "(evidence_kind \<times> int) list"

definition add_change :: "int \<Rightarrow> evidence_kind \<times> int \<Rightarrow> (int \<times> changes) list \<Rightarrow> (int \<times> changes) list" where
  "add_change t ch bs = al_put t ((case map_of bs t of None \<Rightarrow> [] | Some cs \<Rightarrow> cs) @ [ch]) bs"

definition add_cell :: "cell \<Rightarrow> (int \<times> changes) list \<Rightarrow> (int \<times> changes) list" where
  "add_cell x bs = (case x of (k, (a, b)) \<Rightarrow> add_change b (k, -1) (add_change a (k, 1) bs))"

definition boundaries :: "caption_ref \<Rightarrow> cell list \<Rightarrow> (int \<times> changes) list" where
  "boundaries c cells = sort_key fst (fold add_cell cells [(cr_start c, []), (cr_end c, [])])"

record sweep =
  sw_active :: "(evidence_kind \<times> int) list"
  sw_support :: "(ustring \<times> int) list"
  sw_unknown :: int
  sw_nonspeech :: int
  sw_overlap :: int
  sw_ambiguous :: int
  sw_conflict :: int
  sw_unobserved :: int
  sw_previous :: int

definition kind_count :: "(evidence_kind \<times> int) list \<Rightarrow> evidence_kind \<Rightarrow> int" where
  "kind_count m k = (case map_of m k of None \<Rightarrow> 0 | Some n \<Rightarrow> n)"

definition apply_change :: "evidence_kind \<times> int \<Rightarrow> (evidence_kind \<times> int) list \<Rightarrow> (evidence_kind \<times> int) list" where
  "apply_change ch m = (case ch of (k, d) \<Rightarrow> if kind_count m k + d = 0 then al_del k (al_put k 0 m)
     else al_put k (kind_count m k + d) m)"

definition active_voices :: "(evidence_kind \<times> int) list \<Rightarrow> ustring list" where
  "active_voices m = concat (map (\<lambda>(k, n). case k of KnownVoice l \<Rightarrow> if 0 < n then [l] else [] | _ \<Rightarrow> []) m)"

definition sweep_boundary :: "int \<times> changes \<Rightarrow> sweep \<Rightarrow> sweep" where
  "sweep_boundary bc w =
     (let elapsed = fst bc - sw_previous w; act = sw_active w;
          voices = active_voices act;
          nonspeech = (0 < kind_count act NonspeechKind);
          overlap = (0 < kind_count act OverlapKind);
          ambiguous = (0 < kind_count act AmbiguousKind);
          conflict = (1 < length voices \<or> voices \<noteq> [] \<and> nonspeech);
          w1 = w\<lparr>sw_overlap := sw_overlap w + (if overlap then elapsed else 0),
                 sw_ambiguous := sw_ambiguous w + (if ambiguous then elapsed else 0),
                 sw_conflict := sw_conflict w + (if conflict then elapsed else 0)\<rparr>;
          w2 = (if overlap \<or> ambiguous \<or> conflict \<or> 0 < kind_count act UnknownKind
                then w1\<lparr>sw_unknown := sw_unknown w + elapsed\<rparr>
                else if length voices = 1
                then w1\<lparr>sw_support := al_put (hd voices)
                       ((case map_of (sw_support w) (hd voices) of None \<Rightarrow> 0 | Some n \<Rightarrow> n) + elapsed) (sw_support w)\<rparr>
                else if nonspeech then w1\<lparr>sw_nonspeech := sw_nonspeech w + elapsed\<rparr>
                else w1\<lparr>sw_unobserved := sw_unobserved w + elapsed\<rparr>)
      in w2\<lparr>sw_active := fold apply_change (snd bc) act, sw_previous := fst bc\<rparr>)"

definition start_sweep :: "caption_ref \<Rightarrow> sweep" where
  "start_sweep c = \<lparr>sw_active = [], sw_support = [], sw_unknown = 0, sw_nonspeech = 0, sw_overlap = 0, sw_ambiguous = 0,
     sw_conflict = 0, sw_unobserved = 0, sw_previous = cr_start c\<rparr>"

definition run_sweep :: "caption_ref \<Rightarrow> cell list \<Rightarrow> sweep" where
  "run_sweep c cells = fold sweep_boundary (boundaries c cells) (start_sweep c)"

definition best_support :: "(ustring \<times> int) list \<Rightarrow> int" where
  "best_support totals = (if totals = [] then 0 else Max (set (map snd totals)))"

definition measured :: "caption_ref \<Rightarrow> sweep \<Rightarrow> caption_decision" where
  "measured c w =
     (let duration = cr_end c - cr_start c
      in \<lparr>de_speaker = None, de_reason = ''insufficient_coverage'',
          de_coverage = of_int (best_support (sw_support w)) / of_int duration,
          de_unknown = of_int (sw_unknown w) / of_int duration, de_duration = duration,
          de_known_ns = sum_list (map snd (sw_support w)), de_unknown_ns = sw_unknown w,
          de_nonspeech_ns = sw_nonspeech w, de_overlap_ns = sw_overlap w, de_ambiguous_ns = sw_ambiguous w,
          de_conflict_ns = sw_conflict w, de_unobserved_ns = sw_unobserved w\<rparr>)"

definition decide_cells :: "mapping_config \<Rightarrow> caption_ref \<Rightarrow> cell list \<Rightarrow> caption_decision" where
  "decide_cells cfg c cells =
     (let w = run_sweep c cells; d = measured c w
      in if 1 < length (known_ids cells) then d\<lparr>de_reason := ''multiple_speakers''\<rparr>
         else if de_overlap_ns d \<noteq> 0 then d\<lparr>de_reason := ''explicit_overlap_evidence''\<rparr>
         else if de_ambiguous_ns d \<noteq> 0 then d\<lparr>de_reason := ''ambiguous_identity_evidence''\<rparr>
         else if de_conflict_ns d \<noteq> 0 then d\<lparr>de_reason := ''conflicting_evidence''\<rparr>
         else if de_nonspeech_ns d = de_duration d then d\<lparr>de_reason := ''predicted_nonspeech_only''\<rparr>
         else if mc_unknown cfg < evaluated_unknown d then d\<lparr>de_reason := ''unknown_or_overlap_evidence''\<rparr>
         else if sw_support w = [] \<or> de_coverage d < mc_coverage cfg then d
         else d\<lparr>de_speaker := Some (fst (hd (sw_support w))), de_reason := ''dominant_confirmed_speaker''\<rparr>)"

definition decide_caption :: "reducer \<Rightarrow> caption_ref \<Rightarrow> caption_decision" where
  "decide_caption rd c = decide_cells (rr_config rd) c (caption_cells (rr_history rd) (rr_confirmed rd) c)"

text \<open>\<open>confirmed_speaker_for\<close>: the same guards for an interval that is no caption.\<close>

definition check_identifier :: "unidb \<Rightarrow> string \<Rightarrow> ustring \<Rightarrow> unit res" where
  "check_identifier uc name s =
     (if py_strip uc s = [] \<or> 512 < length s then Inl (ValueError (''Invalid '' @ name))
      else if list_ex is_surrogate s then Inl (ValueError ''surrogates not allowed'')
      else Inr ())"

definition confirmed_speaker_for ::
    "unidb \<Rightarrow> ustring \<Rightarrow> ustring \<Rightarrow> int \<Rightarrow> int \<Rightarrow> reducer \<Rightarrow> ustring option res" where
  "confirmed_speaker_for uc track epoch start stop rd =
     res_bind (check_identifier uc ''track_id'' track) (\<lambda>_. res_bind (check_identifier uc ''capture_epoch'' epoch) (\<lambda>_.
       if start < 0 then Inl (ValueError ''start_ns must be an integer >= 0'')
       else if stop < start then Inl (ValueError ''end_ns must be an integer >= start_ns'')
       else if stop \<le> start \<or> start < rr_floor rd then Inr None
       else Inr (de_speaker (decide_caption rd \<lparr>cr_segment = lit ''routing'', cr_track = track, cr_epoch = epoch, cr_start = start,
              cr_end = stop, cr_revision = 1\<rparr>))))"

subsection \<open>Retention\<close>

definition retire_caption :: "ustring \<Rightarrow> string \<Rightarrow> reducer \<Rightarrow> reducer" where
  "retire_caption i cause rd =
     (let rd1 = rd\<lparr>rr_captions := al_del i (rr_captions rd)\<rparr>
      in case map_of (rr_latest rd) i of
          None \<Rightarrow> rd1
        | Some d \<Rightarrow> rd1\<lparr>rr_latest := al_del i (rr_latest rd), rr_retired := aggregate_into (rr_retired rd) d,
              rr_causes := al_put cause ((case map_of (rr_causes rd) cause of None \<Rightarrow> 0 | Some n \<Rightarrow> n) + 1) (rr_causes rd)\<rparr>)"

definition entry_end :: "voice_key \<times> voice_entry \<Rightarrow> int" where
  "entry_end p = as_stop (ve_assignment (snd p))"

definition oldest_entry :: "(voice_key \<times> voice_entry) list \<Rightarrow> voice_key \<times> voice_entry" where
  "oldest_entry h = hd (sort_key entry_end h)"

lemma oldest_entry_in: "h \<noteq> [] \<Longrightarrow> oldest_entry h \<in> set h"
  unfolding oldest_entry_def by (metis hd_in_set length_0_conv length_sort set_sort)

text \<open>The eviction loop: the oldest entries leave and raise the floor.\<close>

function evict_history ::
    "nat \<Rightarrow> int \<Rightarrow> (voice_key \<times> voice_entry) list \<Rightarrow> (voice_key \<times> voice_entry) list \<times> int \<times> nat" where
  "evict_history limit low h =
     (if length h \<le> limit then (h, low, 0)
      else case evict_history limit (max low (entry_end (oldest_entry h))) (al_del (fst (oldest_entry h)) h) of
             (h', low', n) \<Rightarrow> (h', low', n + 1))"
  by pat_completeness auto
termination
proof (relation "measure (\<lambda>(limit, low, h). length h)", simp, clarsimp)
  fix limit :: nat and h :: "(voice_key \<times> voice_entry) list"
  assume "\<not> length h \<le> limit"
  then have "oldest_entry h \<in> set h" by (intro oldest_entry_in) auto
  then show "length (al_del (fst (oldest_entry h)) h) < length h" unfolding al_del_def by (auto intro: length_filter_less)
qed

declare evict_history.simps [simp del]

definition expire_captions :: "int \<Rightarrow> reducer \<Rightarrow> reducer" where
  "expire_captions low rd =
     fold (\<lambda>(i, c) r. if cr_start c < low
             then (let r1 = retire_caption i ''retention_floor'' r
                   in r1\<lparr>rr_stats := (rr_stats r1)\<lparr>n_expired_captions := n_expired_captions (rr_stats r1) + 1\<rparr>\<rparr>)
             else r) (rr_captions rd) rd"

definition prune :: "reducer \<Rightarrow> reducer" where
  "prune rd =
     (let low = max (max (rr_floor rd) (rr_watermark rd - mc_history_ns (rr_config rd))) 0;
          kept = filter (\<lambda>p. \<not> entry_end p \<le> low) (rr_history rd)
      in case evict_history (mc_max_history (rr_config rd)) low kept of (h, low', evicted) \<Rightarrow>
        let s = rr_stats rd;
            rd1 = rd\<lparr>rr_history := h, rr_floor := low',
              rr_stats := s\<lparr>n_expired := n_expired s + (length (rr_history rd) - length kept),
                            n_history_evictions := n_history_evictions s + evicted\<rparr>\<rparr>;
            rd2 = expire_captions low' rd1
        in rd2\<lparr>rr_confirmed := filter (\<lambda>(key, l). key \<in> set (map (candidate_key_of \<circ> snd)
              (filter (\<lambda>(k, v). as_candidate (ve_assignment v) \<noteq> None) h))) (rr_confirmed rd2)\<rparr>)"

definition expire_mapping :: "int \<Rightarrow> reducer \<Rightarrow> reducer res" where
  "expire_mapping now rd =
     (if now < 0 then Inl (ValueError ''now_ns must be an integer >= 0'')
      else if now < rr_watermark rd then Inl (ValueError ''Expiry clock cannot move backwards'')
      else Inr (prune (rd\<lparr>rr_watermark := now\<rparr>)))"

subsection \<open>Patches\<close>

type_synonym mapped = "speaker_patch list res \<times> reducer \<times> caption_store"

definition caption_stale :: "caption_ref \<Rightarrow> caption_segment option \<Rightarrow> bool" where
  "caption_stale c found \<longleftrightarrow> (case found of None \<Rightarrow> True
     | Some s \<Rightarrow> cs_superseded_by s \<noteq> [] \<or> (cs_revision s, cs_track s, cs_start s, cs_end s)
                 \<noteq> (cr_revision c, cr_track c, cr_start c, cr_end c))"

definition patch_of :: "caption_ref \<Rightarrow> caption_decision \<Rightarrow> int \<Rightarrow> speaker_patch" where
  "patch_of c d revision = \<lparr>sq_segment = cr_segment c, sq_speaker = de_speaker d, sq_revision = revision,
     sq_based_on = cr_revision c, sq_track = cr_track c, sq_epoch = cr_epoch c, sq_start = cr_start c, sq_end = cr_end c,
     sq_reason = de_reason d, sq_coverage = de_coverage d, sq_unknown = de_unknown d\<rparr>"

text \<open>One reference: retired when stale; otherwise its decision is remembered and, if it differs, sent to the store.\<close>

definition patch_caption :: "unidb \<Rightarrow> caption_ref \<Rightarrow> reducer \<Rightarrow> caption_store \<Rightarrow> mapped" where
  "patch_caption uc c rd0 st =
     (let rd = rd0\<lparr>rr_stats := (rr_stats rd0)\<lparr>n_rechecks := n_rechecks (rr_stats rd0) + 1\<rparr>\<rparr>;
          found = lookup_segment (cr_segment c) st
      in case found of
          None \<Rightarrow> (let r = retire_caption (cr_segment c) ''stale'' rd
              in (Inr [], r\<lparr>rr_stats := (rr_stats r)\<lparr>n_stale_captions := n_stale_captions (rr_stats r) + 1\<rparr>\<rparr>, st))
        | Some s \<Rightarrow>
            if caption_stale c found
            then (let r = retire_caption (cr_segment c) ''stale'' rd
                  in (Inr [], r\<lparr>rr_stats := (rr_stats r)\<lparr>n_stale_captions := n_stale_captions (rr_stats r) + 1\<rparr>\<rparr>, st))
            else
              let d = decide_caption rd c
              in if cs_speaker_manual s
                 then (Inr [], rd\<lparr>rr_latest := al_put (cr_segment c) (d\<lparr>de_reason := ''manual_preserved''\<rparr>) (rr_latest rd),
                          rr_stats := (rr_stats rd)\<lparr>n_manual_preserved := n_manual_preserved (rr_stats rd) + 1\<rparr>\<rparr>, st)
                 else
                   let rd1 = rd\<lparr>rr_latest := al_put (cr_segment c) d (rr_latest rd)\<rparr>; revision = cs_speaker_revision s + 1
                   in if cs_speaker s = de_speaker d then (Inr [], rd1, st)
                      else (case update_speaker uc (cr_segment c) (de_speaker d) revision (Some (cr_revision c)) False st of
                          Inl e \<Rightarrow> (Inl e, rd1, st)
                        | Inr (accepted, st') \<Rightarrow>
                            if accepted
                            then (Inr [patch_of c d revision],
                                  rd1\<lparr>rr_stats := (rr_stats rd1)\<lparr>n_patches := n_patches (rr_stats rd1) + 1\<rparr>\<rparr>, st')
                            else (Inr [], rd1, st')))"

fun patch_captions :: "unidb \<Rightarrow> caption_ref list \<Rightarrow> reducer \<Rightarrow> caption_store \<Rightarrow> mapped" where
  "patch_captions uc [] rd st = (Inr [], rd, st)"
| "patch_captions uc (c # cs) rd st =
     (case patch_caption uc c rd st of
        (Inl e, rd', st') \<Rightarrow> (Inl e, rd', st')
      | (Inr ps, rd', st') \<Rightarrow> (case patch_captions uc cs rd' st' of
            (Inl e, rd'', st'') \<Rightarrow> (Inl e, rd'', st'')
          | (Inr qs, rd'', st'') \<Rightarrow> (Inr (ps @ qs), rd'', st'')))"

subsection \<open>\<open>register_caption\<close>\<close>

definition registration_error :: "unidb \<Rightarrow> caption_ref \<Rightarrow> reducer \<Rightarrow> caption_store \<Rightarrow> unit res" where
  "registration_error uc c rd st =
     res_bind (check_identifier uc ''segment_id'' (cr_segment c)) (\<lambda>_.
     res_bind (check_identifier uc ''track_id'' (cr_track c)) (\<lambda>_.
     res_bind (check_identifier uc ''capture_epoch'' (cr_epoch c)) (\<lambda>_.
       if cr_start c < 0 then Inl (ValueError ''start_ns must be an integer >= 0'')
       else if cr_end c < cr_start c + 1 then Inl (ValueError ''end_ns must be an integer >= start_ns + 1'')
       else if cr_revision c < 1 then Inl (ValueError ''source_revision must be an integer >= 1'')
       else case lookup_segment (cr_segment c) st of
           None \<Rightarrow> Inl (ValueError ''Register an existing active source caption'')
         | Some s \<Rightarrow>
             if cs_superseded_by s \<noteq> [] then Inl (ValueError ''Register an existing active source caption'')
             else if (cs_track s, cs_start s, cs_end s, cs_revision s) \<noteq> (cr_track c, cr_start c, cr_end c, cr_revision c)
               then Inl (ValueError ''Caption registration differs from the current source revision/timing'')
             else if (case map_of (rr_captions rd) (cr_segment c) of None \<Rightarrow> False | Some p \<Rightarrow> cr_epoch p \<noteq> cr_epoch c)
               then Inl (ValueError ''A registered caption cannot move to another capture epoch'')
             else Inr ())))"

definition oldest_caption :: "(ustring \<times> caption_ref) list \<Rightarrow> ustring" where
  "oldest_caption cs = fst (hd (sort_key (\<lambda>p. cr_end (snd p)) cs))"

definition keep_caption :: "caption_ref \<Rightarrow> reducer \<Rightarrow> reducer" where
  "keep_caption c rd =
     (let i = cr_segment c;
          rd1 = (if map_of (rr_captions rd) i = None \<and> mc_max_captions (rr_config rd) \<le> length (rr_captions rd)
                 then (let r = retire_caption (oldest_caption (rr_captions rd)) ''capacity'' rd
                       in r\<lparr>rr_stats := (rr_stats r)\<lparr>n_caption_evictions := n_caption_evictions (rr_stats r) + 1\<rparr>\<rparr>)
                 else rd);
          rd2 = (if map_of (rr_captions rd1) i \<noteq> None \<and> map_of (rr_captions rd1) i \<noteq> Some c
                 then retire_caption i ''source_replaced'' rd1 else rd1)
      in rd2\<lparr>rr_captions := al_put i c (rr_captions rd2)\<rparr>)"

definition register_caption :: "unidb \<Rightarrow> caption_ref \<Rightarrow> reducer \<Rightarrow> caption_store \<Rightarrow> mapped" where
  "register_caption uc c rd st =
     (case registration_error uc c rd st of
        Inl e \<Rightarrow> (Inl e, rd, st)
      | Inr _ \<Rightarrow>
          let rd1 = prune (rd\<lparr>rr_watermark := max (rr_watermark rd) (cr_end c)\<rparr>)
          in if cr_start c < rr_floor rd1
             then (Inr [], rd1\<lparr>rr_stats := (rr_stats rd1)\<lparr>n_expired_captions := n_expired_captions (rr_stats rd1) + 1\<rparr>\<rparr>, st)
             else patch_captions uc [c] (keep_caption c rd1) st)"

subsection \<open>\<open>observe\<close>\<close>

definition validate_assignment :: "unidb \<Rightarrow> assignment \<Rightarrow> ustring \<Rightarrow> unit res" where
  "validate_assignment uc a epoch =
     res_bind (check_identifier uc ''capture_epoch'' epoch) (\<lambda>_.
     res_bind (check_identifier uc ''sample_id'' (as_sample a)) (\<lambda>_.
     res_bind (check_identifier uc ''track_id'' (as_track a)) (\<lambda>_.
     if as_start a < 0 then Inl (ValueError ''assignment start_time_ns must be an integer >= 0'')
     else if as_stop a < as_start a + 1 then Inl (ValueError ''assignment end_time_ns must be after its start'')
     else
     res_bind (support_intervals_for (as_start a) (as_stop a) (as_support a)) (\<lambda>_.
     res_bind (case as_speaker a of None \<Rightarrow> Inr () | Some s \<Rightarrow> check_identifier uc ''speaker_id'' s) (\<lambda>_.
     res_bind (case as_candidate a of None \<Rightarrow> Inr () | Some s \<Rightarrow> check_identifier uc ''candidate_id'' s) (\<lambda>_.
     if as_status a \<in> {ExistingSpeaker, NewSpeaker} \<and> as_speaker a = None
       then Inl (ValueError ''Confirmed assignment requires a speaker ID'')
     else if as_status a \<in> {UnknownSpeaker, ProvisionalSpeaker} \<and> as_speaker a \<noteq> None
       then Inl (ValueError ''Unconfirmed assignment cannot name a speaker'')
     else if as_status a \<in> {ProvisionalSpeaker, NewSpeaker} \<and> as_candidate a = None
       then Inl (ValueError ''Candidate assignment requires a candidate ID'')
     else if as_status a = UnknownSpeaker \<and> as_candidate a \<noteq> None
       then Inl (ValueError ''Unknown assignment cannot identify a candidate'')
     else if (case as_similarity a of None \<Rightarrow> False | Some x \<Rightarrow> x < -1 \<or> 1 < x)
       then Inl (ValueError ''Invalid assignment similarity'')
     else if 1024 < length (as_reason a) then Inl (ValueError ''Invalid assignment reason'')
     else Inr ()))))))"

text \<open>Sorted intervals joined where they touch.\<close>

definition join_interval :: "interval \<Rightarrow> interval list \<Rightarrow> interval list" where
  "join_interval p acc = (case acc of [] \<Rightarrow> [p] | q # r \<Rightarrow> if fst p \<le> snd q then (fst q, max (snd p) (snd q)) # r else p # acc)"

definition join_intervals :: "interval list \<Rightarrow> interval list" where
  "join_intervals iv = rev (fold join_interval (sort iv) [])"

text \<open>The intervals whose evidence the assignment can change: its own and, once confirmed, its candidate's.\<close>

definition affected_intervals :: "assignment \<Rightarrow> ustring \<Rightarrow> reducer \<Rightarrow> interval list" where
  "affected_intervals a epoch rd =
     support_of a @ (if as_status a = NewSpeaker
       then concat (map (\<lambda>(k, v). support_of (ve_assignment v))
              (filter (\<lambda>(k, v). as_status (ve_assignment v) = ProvisionalSpeaker
                 \<and> candidate_key_of v = (as_track a, epoch, as_candidate a)) (rr_history rd)))
       else [])"

definition affected_captions :: "assignment \<Rightarrow> ustring \<Rightarrow> reducer \<Rightarrow> caption_ref list" where
  "affected_captions a epoch rd =
     (let merged = join_intervals (affected_intervals a epoch rd)
      in filter (\<lambda>c. cr_track c = as_track a \<and> cr_epoch c = epoch \<and> \<not> interval_free merged (cr_start c, cr_end c))
           (map snd (rr_captions rd)))"

definition admit_assignment :: "assignment \<Rightarrow> ustring \<Rightarrow> reducer \<Rightarrow> reducer" where
  "admit_assignment a epoch rd =
     (let s = rr_stats rd; key = (as_track a, epoch, as_candidate a);
          rd1 = rd\<lparr>rr_watermark := max (rr_watermark rd) (as_stop a),
            rr_history := al_put (as_track a, epoch, as_sample a) \<lparr>ve_assignment = a, ve_epoch = epoch\<rparr> (rr_history rd),
            rr_stats := s\<lparr>n_assignments := n_assignments s + 1,
              n_confirmations := n_confirmations s
                + (if as_status a = NewSpeaker \<and> map_of (rr_confirmed rd) key = None then 1 else 0)\<rparr>\<rparr>
      in if as_status a = NewSpeaker
         then rd1\<lparr>rr_confirmed := al_put key (the (as_speaker a)) (rr_confirmed rd)\<rparr> else rd1)"

definition observe_assignment :: "unidb \<Rightarrow> assignment \<Rightarrow> ustring \<Rightarrow> reducer \<Rightarrow> caption_store \<Rightarrow> mapped" where
  "observe_assignment uc a epoch rd st =
     (let s = rr_stats rd
      in case validate_assignment uc a epoch of
          Inl e \<Rightarrow> (Inl e, rd, st)
        | Inr _ \<Rightarrow>
            if as_reason a \<in> {lit ''duplicate_sample'', lit ''out_of_order''}
              then (Inr [], rd\<lparr>rr_stats := s\<lparr>n_ignored := n_ignored s + 1\<rparr>\<rparr>, st)
            else case map_of (rr_history rd) (as_track a, epoch, as_sample a) of
                Some v \<Rightarrow>
                  if ve_assignment v \<noteq> a
                    then (Inl (ValueError ''A speaker sample ID was reused with different evidence''), rd, st)
                  else (Inr [], rd\<lparr>rr_stats := s\<lparr>n_duplicates := n_duplicates s + 1\<rparr>\<rparr>, st)
              | None \<Rightarrow>
                  if as_stop a \<le> rr_floor rd
                    then (Inr [], rd\<lparr>rr_stats := s\<lparr>n_expired := n_expired s + 1\<rparr>\<rparr>, st)
                  else if as_status a = NewSpeaker \<and> map_of (rr_confirmed rd) (as_track a, epoch, as_candidate a) \<noteq> None
                          \<and> map_of (rr_confirmed rd) (as_track a, epoch, as_candidate a) \<noteq> as_speaker a
                    then (Inl (ValueError ''A candidate cannot resolve to conflicting speaker identities''), rd, st)
                  else let rd1 = prune (admit_assignment a epoch rd)
                       in patch_captions uc (affected_captions a epoch rd1) rd1 st)"

text \<open>The tables of \<open>diagnostics\<close>: the latest decisions and the retired ones, by reason.\<close>

definition diagnostics :: "reducer \<Rightarrow> (string \<times> bucket) list \<times> nat \<times> (string \<times> bucket) list" where
  "diagnostics rd = (fold (\<lambda>d t. aggregate_into t d) (map snd (rr_latest rd)) [],
     sum_list (map (bk_count \<circ> snd) (rr_retired rd)), rr_retired rd)"

end
