(* ===== verification/SpeakerSweep.thy ===== *)
theory SpeakerSweep
  imports SpeakerCaptions
begin

text \<open>
  The sweep over boundaries against its reference, the count of nanoseconds: every total of a decision is the number
  of nanoseconds of the caption at which the evidence that covers it has that character.
\<close>

subsection \<open>The reference\<close>

definition covered :: "cell list \<Rightarrow> evidence_kind \<Rightarrow> int \<Rightarrow> bool" where
  "covered cells k t \<longleftrightarrow> (\<exists>x \<in> set cells. fst x = k \<and> fst (snd x) \<le> t \<and> t < snd (snd x))"

definition voice_covers :: "cell list \<Rightarrow> int \<Rightarrow> ustring \<Rightarrow> bool" where
  "voice_covers cells t l \<longleftrightarrow> covered cells (KnownVoice l) t"

definition conflict_at :: "cell list \<Rightarrow> int \<Rightarrow> bool" where
  "conflict_at cells t \<longleftrightarrow> (\<exists>l m. l \<noteq> m \<and> voice_covers cells t l \<and> voice_covers cells t m)
     \<or> (\<exists>l. voice_covers cells t l) \<and> covered cells NonspeechKind t"

definition unknown_at :: "cell list \<Rightarrow> int \<Rightarrow> bool" where
  "unknown_at cells t \<longleftrightarrow> covered cells OverlapKind t \<or> covered cells AmbiguousKind t \<or> conflict_at cells t
     \<or> covered cells UnknownKind t"

definition voice_at :: "cell list \<Rightarrow> ustring \<Rightarrow> int \<Rightarrow> bool" where
  "voice_at cells l t \<longleftrightarrow> \<not> unknown_at cells t \<and> voice_covers cells t l"

definition nonspeech_at :: "cell list \<Rightarrow> int \<Rightarrow> bool" where
  "nonspeech_at cells t \<longleftrightarrow> \<not> unknown_at cells t \<and> (\<forall>l. \<not> voice_covers cells t l) \<and> covered cells NonspeechKind t"

definition unobserved_at :: "cell list \<Rightarrow> int \<Rightarrow> bool" where
  "unobserved_at cells t \<longleftrightarrow> \<not> unknown_at cells t \<and> (\<forall>l. \<not> voice_covers cells t l) \<and> \<not> covered cells NonspeechKind t"

definition nanoseconds :: "int \<Rightarrow> int \<Rightarrow> (int \<Rightarrow> bool) \<Rightarrow> int" where
  "nanoseconds a b P = int (card {t \<in> {a..<b}. P t})"

lemma nanoseconds_empty [simp]: "nanoseconds a a P = 0"
  by (simp add: nanoseconds_def)

lemma nanoseconds_step:
  assumes "a \<le> p" "p \<le> b" "\<forall>t \<in> {p..<b}. P t = Q"
  shows "nanoseconds a b P = nanoseconds a p P + (if Q then b - p else 0)"
proof -
  have "{t \<in> {a..<b}. P t} = {t \<in> {a..<p}. P t} \<union> {t \<in> {p..<b}. P t}" using assms(1,2) by auto
  moreover have "{t \<in> {p..<b}. P t} = (if Q then {p..<b} else {})" using assms(3) by auto
  moreover have "card ({t \<in> {a..<p}. P t} \<union> {t \<in> {p..<b}. P t}) = card {t \<in> {a..<p}. P t} + card {t \<in> {p..<b}. P t}"
    by (rule card_Un_disjoint) (auto intro: finite_subset [of _ "{a..<p}"] finite_subset [of _ "{p..<b}"])
  ultimately show ?thesis using assms(2) by (simp add: nanoseconds_def)
qed

lemma nanoseconds_le: "a \<le> b \<Longrightarrow> nanoseconds a b P \<le> b - a"
proof -
  assume ab: "a \<le> b"
  have "card {t \<in> {a..<b}. P t} \<le> card {a..<b}" by (rule card_mono) auto
  then show ?thesis using ab by (simp add: nanoseconds_def)
qed

lemma nanoseconds_zero: "nanoseconds a b P = 0 \<longleftrightarrow> (\<forall>t \<in> {a..<b}. \<not> P t)"
proof -
  have "finite {t \<in> {a..<b}. P t}" by (rule finite_subset [of _ "{a..<b}"]) auto
  then show ?thesis by (auto simp: nanoseconds_def)
qed

subsection \<open>Boundaries\<close>

definition proper_cells :: "int \<Rightarrow> int \<Rightarrow> cell list \<Rightarrow> bool" where
  "proper_cells s e cells \<longleftrightarrow> (\<forall>x \<in> set cells. s \<le> fst (snd x) \<and> fst (snd x) < snd (snd x) \<and> snd (snd x) \<le> e)"

definition present :: "cell list \<Rightarrow> evidence_kind \<Rightarrow> int \<Rightarrow> int" where
  "present cells k t = (\<Sum>x \<leftarrow> cells. if fst x = k then (if fst (snd x) \<le> t then 1 else 0) - (if snd (snd x) \<le> t then 1 else 0) else 0)"

lemma present_Cons: "present (x # cells) k t =
    (if fst x = k then (if fst (snd x) \<le> t then 1 else 0) - (if snd (snd x) \<le> t then 1 else 0) else 0) + present cells k t"
  by (simp add: present_def)

lemma present_covered: "proper_cells s e cells \<Longrightarrow> 0 \<le> present cells k t \<and> (0 < present cells k t \<longleftrightarrow> covered cells k t)"
proof (induction cells)
  case Nil then show ?case by (simp add: present_def covered_def)
next
  case (Cons x cells)
  have ih: "0 \<le> present cells k t" "0 < present cells k t \<longleftrightarrow> covered cells k t" using Cons by (simp_all add: proper_cells_def)
  have c: "covered (x # cells) k t \<longleftrightarrow> fst x = k \<and> fst (snd x) \<le> t \<and> t < snd (snd x) \<or> covered cells k t"
    by (auto simp: covered_def)
  have p: "fst (snd x) < snd (snd x)" using Cons.prems by (simp add: proper_cells_def)
  show ?case unfolding present_Cons c using ih p by auto
qed

definition delta :: "changes \<Rightarrow> evidence_kind \<Rightarrow> int" where
  "delta chs k = (\<Sum>ch \<leftarrow> chs. if fst ch = k then snd ch else 0)"

lemma delta_append [simp]: "delta (xs @ ys) k = delta xs k + delta ys k"
  by (simp add: delta_def)

definition delta_at :: "(int \<times> changes) list \<Rightarrow> evidence_kind \<Rightarrow> int \<Rightarrow> int" where
  "delta_at bs k t = (case map_of bs t of None \<Rightarrow> 0 | Some chs \<Rightarrow> delta chs k)"

lemma delta_at_add: "delta_at (add_change u ch bs) k t = delta_at bs k t + (if t = u \<and> fst ch = k then snd ch else 0)"
  by (auto simp: delta_at_def add_change_def delta_def split: option.split)

lemma delta_at_cell:
  "delta_at (add_cell x bs) k t = delta_at bs k t
     + (if fst x = k then (if fst (snd x) = t then 1 else 0) - (if snd (snd x) = t then 1 else 0) else 0)"
  by (auto simp: add_cell_def delta_at_add split: prod.split)

lemma delta_at_cells:
  "delta_at (fold add_cell cells bs) k t = delta_at bs k t
     + (\<Sum>x \<leftarrow> cells. if fst x = k then (if fst (snd x) = t then 1 else 0) - (if snd (snd x) = t then 1 else 0) else 0)"
  by (induction cells arbitrary: bs) (simp_all add: delta_at_cell)

lemma keys_cells:
  "set (map fst (fold add_cell cells bs)) = set (map fst bs) \<union> (\<Union>x \<in> set cells. {fst (snd x), snd (snd x)})"
proof (induction cells arbitrary: bs)
  case (Cons x cells)
  have "set (map fst (add_cell x bs)) = set (map fst bs) \<union> {fst (snd x), snd (snd x)}"
    by (auto simp: add_cell_def add_change_def simp del: set_map split: prod.split)
  with Cons [of "add_cell x bs"] show ?case by (simp only: fold_simps list.set UN_insert) blast
qed simp

lemma distinct_cells: "distinct (map fst bs) \<Longrightarrow> distinct (map fst (fold add_cell cells bs))"
  by (induction cells arbitrary: bs) (auto simp: add_cell_def add_change_def intro!: distinct_al_put split: prod.split)

text \<open>Between two neighbouring boundaries nothing changes.\<close>

lemma present_between:
  assumes "\<forall>x \<in> set cells. fst (snd x) \<notin> {t<..u} \<and> snd (snd x) \<notin> {t<..u}" "t \<le> u"
  shows "present cells k u = present cells k t"
  using assms(1)
proof (induction cells)
  case (Cons x cells)
  have "fst (snd x) \<le> u \<longleftrightarrow> fst (snd x) \<le> t" "snd (snd x) \<le> u \<longleftrightarrow> snd (snd x) \<le> t"
    using Cons.prems assms(2) by auto
  with Cons show ?case by (simp add: present_Cons)
qed (simp add: present_def)

lemma present_next:
  "present cells k u = present cells k (u - 1)
     + (\<Sum>x \<leftarrow> cells. if fst x = k then (if fst (snd x) = u then 1 else 0) - (if snd (snd x) = u then 1 else 0) else 0)"
proof (induction cells)
  case (Cons x cells)
  have "(if a \<le> u then 1 else 0) = (if a \<le> u - 1 then 1 else 0) + (if a = u then 1 else (0 :: int))" for a by auto
  with Cons show ?case by (auto simp: present_Cons)
qed (simp add: present_def)

subsection \<open>Active counts\<close>

lemma apply_change_count:
  "distinct (map fst m) \<Longrightarrow> kind_count (apply_change ch m) k = kind_count m k + (if fst ch = k then snd ch else 0)"
  by (cases ch) (auto simp: apply_change_def kind_count_def)

lemma apply_change_distinct: "distinct (map fst m) \<Longrightarrow> distinct (map fst (apply_change ch m))"
  by (cases ch) (auto simp: apply_change_def intro!: distinct_al_put distinct_al_del)

lemma apply_changes:
  "distinct (map fst m) \<Longrightarrow> distinct (map fst (fold apply_change chs m))
     \<and> kind_count (fold apply_change chs m) k = kind_count m k + delta chs k"
proof (induction chs arbitrary: m)
  case (Cons ch chs)
  from Cons.IH [OF apply_change_distinct [OF Cons.prems]] apply_change_count [OF Cons.prems]
  show ?case by (simp add: delta_def)
qed (simp add: delta_def)

lemma active_voices_set: "distinct (map fst m) \<Longrightarrow> set (active_voices m) = {l. 0 < kind_count m (KnownVoice l)}"
proof -
  assume d: "distinct (map fst m)"
  have "l \<in> set (active_voices m) \<longleftrightarrow> (\<exists>n. (KnownVoice l, n) \<in> set m \<and> 0 < n)" for l
    by (auto simp: active_voices_def split: evidence_kind.splits if_splits)
  moreover have "(\<exists>n. (KnownVoice l, n) \<in> set m \<and> 0 < n) \<longleftrightarrow> 0 < kind_count m (KnownVoice l)" for l
    using d by (auto simp: kind_count_def dest: map_of_SomeD eq_key_imp_eq_value split: option.splits)
  ultimately show ?thesis by auto
qed

lemma active_voices_Cons: "active_voices ((k, n) # m) =
    (case k of KnownVoice l \<Rightarrow> if 0 < n then [l] else [] | _ \<Rightarrow> []) @ active_voices m"
  by (simp add: active_voices_def)

lemma active_voices_distinct: "distinct (map fst m) \<Longrightarrow> distinct (active_voices m)"
proof (induction m)
  case (Cons x m)
  obtain k n where x: "x = (k, n)" by fastforce
  have "l \<notin> set (active_voices m)" if "k = KnownVoice l" for l
    using Cons.prems that x by (force simp: active_voices_def split: evidence_kind.splits if_splits)
  with Cons show ?case by (auto simp: x active_voices_Cons split: evidence_kind.splits)
qed (simp add: active_voices_def)

subsection \<open>The loop\<close>

definition total_of :: "(ustring \<times> int) list \<Rightarrow> ustring \<Rightarrow> int" where
  "total_of m l = (case map_of m l of None \<Rightarrow> 0 | Some n \<Rightarrow> n)"

definition swept :: "cell list \<Rightarrow> int \<Rightarrow> sweep \<Rightarrow> bool" where
  "swept cells s w \<longleftrightarrow> s \<le> sw_previous w \<and> (\<forall>x \<in> set (sw_support w). 0 < snd x) \<and> distinct (map fst (sw_active w)) \<and> distinct (map fst (sw_support w))
     \<and> sw_overlap w = nanoseconds s (sw_previous w) (covered cells OverlapKind)
     \<and> sw_ambiguous w = nanoseconds s (sw_previous w) (covered cells AmbiguousKind)
     \<and> sw_conflict w = nanoseconds s (sw_previous w) (conflict_at cells)
     \<and> sw_unknown w = nanoseconds s (sw_previous w) (unknown_at cells)
     \<and> sw_nonspeech w = nanoseconds s (sw_previous w) (nonspeech_at cells)
     \<and> sw_unobserved w = nanoseconds s (sw_previous w) (unobserved_at cells)
     \<and> (\<forall>l. total_of (sw_support w) l = nanoseconds s (sw_previous w) (voice_at cells l))
     \<and> sum_list (map snd (sw_support w)) = nanoseconds s (sw_previous w) (\<lambda>t. \<exists>l. voice_at cells l t)"

lemma sweptD:
  assumes "swept cells s w"
  shows "s \<le> sw_previous w" "distinct (map fst (sw_active w))" "distinct (map fst (sw_support w))"
    "sw_overlap w = nanoseconds s (sw_previous w) (covered cells OverlapKind)"
    "sw_ambiguous w = nanoseconds s (sw_previous w) (covered cells AmbiguousKind)"
    "sw_conflict w = nanoseconds s (sw_previous w) (conflict_at cells)"
    "sw_unknown w = nanoseconds s (sw_previous w) (unknown_at cells)"
    "sw_nonspeech w = nanoseconds s (sw_previous w) (nonspeech_at cells)"
    "sw_unobserved w = nanoseconds s (sw_previous w) (unobserved_at cells)"
    "total_of (sw_support w) l = nanoseconds s (sw_previous w) (voice_at cells l)"
    "sum_list (map snd (sw_support w)) = nanoseconds s (sw_previous w) (\<lambda>t. \<exists>l. voice_at cells l t)"
    "x \<in> set (sw_support w) \<Longrightarrow> 0 < snd x"
  using assms by (simp_all add: swept_def)

definition add_support :: "ustring \<Rightarrow> int \<Rightarrow> (ustring \<times> int) list \<Rightarrow> (ustring \<times> int) list" where
  "add_support l n m = al_put l ((case map_of m l of None \<Rightarrow> 0 | Some k \<Rightarrow> k) + n) m"

lemma total_of_add: "total_of (add_support v n m) l = total_of m l + (if l = v then n else 0)"
  by (simp add: total_of_def add_support_def)

lemma add_support_positive:
  assumes "0 < n" "\<forall>x \<in> set m. 0 < snd x"
  shows "\<forall>x \<in> set (add_support l n m). 0 < snd x"
proof -
  have "\<forall>x \<in> set (al_put l k m). 0 < snd x" if "0 < k" for k using assms(2) that by (induction l k m rule: al_put.induct) auto
  moreover have "0 < (case map_of m l of None \<Rightarrow> 0 | Some k \<Rightarrow> k) + n"
    using assms by (auto dest!: map_of_SomeD split: option.split)
  ultimately show ?thesis unfolding add_support_def by blast
qed

lemma sum_add: "sum_list (map snd (add_support l n m)) = sum_list (map snd m) + n"
  unfolding add_support_def by (induction m) auto

lemma sweep_boundary_fields:
  fixes w b chs
  defines "act \<equiv> sw_active w" and "el \<equiv> b - sw_previous w"
  defines "voices \<equiv> active_voices act"
  defines "conflict \<equiv> 1 < length voices \<or> voices \<noteq> [] \<and> 0 < kind_count act NonspeechKind"
  defines "unk \<equiv> 0 < kind_count act OverlapKind \<or> 0 < kind_count act AmbiguousKind \<or> conflict \<or> 0 < kind_count act UnknownKind"
  shows "sw_previous (sweep_boundary (b, chs) w) = b" "sw_active (sweep_boundary (b, chs) w) = fold apply_change chs act"
    "sw_overlap (sweep_boundary (b, chs) w) = sw_overlap w + (if 0 < kind_count act OverlapKind then el else 0)"
    "sw_ambiguous (sweep_boundary (b, chs) w) = sw_ambiguous w + (if 0 < kind_count act AmbiguousKind then el else 0)"
    "sw_conflict (sweep_boundary (b, chs) w) = sw_conflict w + (if conflict then el else 0)"
    "sw_unknown (sweep_boundary (b, chs) w) = sw_unknown w + (if unk then el else 0)"
    "sw_nonspeech (sweep_boundary (b, chs) w) = sw_nonspeech w
       + (if \<not> unk \<and> voices = [] \<and> 0 < kind_count act NonspeechKind then el else 0)"
    "sw_unobserved (sweep_boundary (b, chs) w) = sw_unobserved w
       + (if \<not> unk \<and> voices = [] \<and> \<not> 0 < kind_count act NonspeechKind then el else 0)"
    "sw_support (sweep_boundary (b, chs) w) =
       (if \<not> unk \<and> voices \<noteq> [] then add_support (hd voices) el (sw_support w) else sw_support w)"
proof -
  define w1 where "w1 = w\<lparr>sw_overlap := sw_overlap w + (if 0 < kind_count act OverlapKind then el else 0),
    sw_ambiguous := sw_ambiguous w + (if 0 < kind_count act AmbiguousKind then el else 0),
    sw_conflict := sw_conflict w + (if conflict then el else 0)\<rparr>"
  have sb: "sweep_boundary (b, chs) w = (if unk then w1\<lparr>sw_unknown := sw_unknown w + el\<rparr>
      else if length voices = 1 then w1\<lparr>sw_support := add_support (hd voices) el (sw_support w)\<rparr>
      else if 0 < kind_count act NonspeechKind then w1\<lparr>sw_nonspeech := sw_nonspeech w + el\<rparr>
      else w1\<lparr>sw_unobserved := sw_unobserved w + el\<rparr>)\<lparr>sw_active := fold apply_change chs act, sw_previous := b\<rparr>"
    unfolding sweep_boundary_def Let_def fst_conv snd_conv unk_def w1_def conflict_def voices_def act_def el_def add_support_def
    by (rule refl)
  have len: "length voices = 1 \<longleftrightarrow> voices \<noteq> []" if "\<not> unk" using that by (cases voices) (auto simp: unk_def conflict_def)
  show "sw_previous (sweep_boundary (b, chs) w) = b" "sw_active (sweep_boundary (b, chs) w) = fold apply_change chs act"
    "sw_overlap (sweep_boundary (b, chs) w) = sw_overlap w + (if 0 < kind_count act OverlapKind then el else 0)"
    "sw_ambiguous (sweep_boundary (b, chs) w) = sw_ambiguous w + (if 0 < kind_count act AmbiguousKind then el else 0)"
    "sw_conflict (sweep_boundary (b, chs) w) = sw_conflict w + (if conflict then el else 0)"
    "sw_unknown (sweep_boundary (b, chs) w) = sw_unknown w + (if unk then el else 0)"
    unfolding sb by (simp_all add: w1_def)
  show "sw_nonspeech (sweep_boundary (b, chs) w) = sw_nonspeech w
       + (if \<not> unk \<and> voices = [] \<and> 0 < kind_count act NonspeechKind then el else 0)"
    "sw_unobserved (sweep_boundary (b, chs) w) = sw_unobserved w
       + (if \<not> unk \<and> voices = [] \<and> \<not> 0 < kind_count act NonspeechKind then el else 0)"
    "sw_support (sweep_boundary (b, chs) w) =
       (if \<not> unk \<and> voices \<noteq> [] then add_support (hd voices) el (sw_support w) else sw_support w)"
    unfolding sb w1_def using len by (cases unk; cases "voices = []"; simp)+
qed

lemma distinct_length_two: "distinct xs \<Longrightarrow> 1 < length xs \<longleftrightarrow> (\<exists>l m. l \<noteq> m \<and> l \<in> set xs \<and> m \<in> set xs)"
proof -
  assume d: "distinct xs"
  show ?thesis
  proof (cases xs)
    case (Cons x ys) with d show ?thesis by (cases ys) auto
  qed simp
qed

lemma sweep_step:
  assumes sw: "swept cells s w" and pr: "proper_cells s e cells" and b: "sw_previous w \<le> b"
    and act: "\<forall>t \<in> {sw_previous w..<b}. \<forall>k. kind_count (sw_active w) k = present cells k t"
    and run: "sw_previous w < b \<or> sw_active w = []"
  shows "swept cells s (sweep_boundary (b, chs) w)"
proof -
  note d = sweptD [OF sw]
  note f = sweep_boundary_fields [where w = w and b = b and chs = chs]
  let ?act = "sw_active w"
  let ?voices = "active_voices ?act"
  let ?conflict = "1 < length ?voices \<or> ?voices \<noteq> [] \<and> 0 < kind_count ?act NonspeechKind"
  let ?unk = "0 < kind_count ?act OverlapKind \<or> 0 < kind_count ?act AmbiguousKind \<or> ?conflict \<or> 0 < kind_count ?act UnknownKind"
  have cov: "covered cells k t = (0 < kind_count ?act k)" if "t \<in> {sw_previous w..<b}" for k t
    using present_covered [OF pr, of k t] act that by auto
  have vs: "voice_covers cells t l = (l \<in> set ?voices)" if "t \<in> {sw_previous w..<b}" for l t
    using cov [OF that] by (simp add: voice_covers_def active_voices_set [OF d(2)])
  have cf: "conflict_at cells t = ?conflict" if "t \<in> {sw_previous w..<b}" for t
    unfolding conflict_at_def vs [OF that] cov [OF that] distinct_length_two [OF active_voices_distinct [OF d(2)]]
    by (metis list.set_intros(1) neq_Nil_conv empty_iff empty_set)
  have uk: "unknown_at cells t = ?unk" if "t \<in> {sw_previous w..<b}" for t
    unfolding unknown_at_def cf [OF that] cov [OF that] ..
  have none: "(\<forall>l. \<not> voice_covers cells t l) = (?voices = [])" if "t \<in> {sw_previous w..<b}" for t
    unfolding vs [OF that] by (cases ?voices) auto
  have ns: "nonspeech_at cells t = (\<not> ?unk \<and> ?voices = [] \<and> 0 < kind_count ?act NonspeechKind)"
    and ub: "unobserved_at cells t = (\<not> ?unk \<and> ?voices = [] \<and> \<not> 0 < kind_count ?act NonspeechKind)"
    if "t \<in> {sw_previous w..<b}" for t
    unfolding nonspeech_at_def unobserved_at_def uk [OF that] none [OF that] cov [OF that] by blast+
  have one: "set ?voices = {hd ?voices}" if "\<not> ?conflict" "?voices \<noteq> []" using that by (cases ?voices) auto
  have va: "voice_at cells l t = (\<not> ?unk \<and> ?voices \<noteq> [] \<and> l = hd ?voices)" if "t \<in> {sw_previous w..<b}" for l t
    unfolding voice_at_def uk [OF that] vs [OF that] using one by (cases ?voices) auto
  have vx: "(\<exists>l. voice_at cells l t) = (\<not> ?unk \<and> ?voices \<noteq> [])" if "t \<in> {sw_previous w..<b}" for t
    unfolding va [OF that] by blast
  note step = nanoseconds_step [OF d(1) b]
  show ?thesis
    unfolding swept_def f
  proof (intro conjI allI)
    show "s \<le> b" using d(1) b by simp
    have "?voices = [] \<or> sw_previous w < b" using run by (auto simp: active_voices_def)
    then show "\<forall>x \<in> set (if \<not> ?unk \<and> ?voices \<noteq> [] then add_support (hd ?voices) (b - sw_previous w) (sw_support w) else sw_support w).
        0 < snd x" using add_support_positive [of "b - sw_previous w" "sw_support w" "hd ?voices"] d(12) by (auto split: if_splits)
    show "distinct (map fst (fold apply_change chs ?act))" using apply_changes [OF d(2)] by blast
    show "distinct (map fst (if \<not> ?unk \<and> ?voices \<noteq> [] then add_support (hd ?voices) (b - sw_previous w) (sw_support w) else sw_support w))"
      using d(3) by (simp add: add_support_def distinct_al_put)
    show "sw_overlap w + (if 0 < kind_count ?act OverlapKind then b - sw_previous w else 0) = nanoseconds s b (covered cells OverlapKind)"
      by (simp only: step [OF ballI [OF cov]] d(4))
    show "sw_ambiguous w + (if 0 < kind_count ?act AmbiguousKind then b - sw_previous w else 0) = nanoseconds s b (covered cells AmbiguousKind)"
      by (simp only: step [OF ballI [OF cov]] d(5))
    show "sw_conflict w + (if ?conflict then b - sw_previous w else 0) = nanoseconds s b (conflict_at cells)"
      by (simp only: step [OF ballI [OF cf]] d(6))
    show "sw_unknown w + (if ?unk then b - sw_previous w else 0) = nanoseconds s b (unknown_at cells)"
      by (simp only: step [OF ballI [OF uk]] d(7))
    show "sw_nonspeech w + (if \<not> ?unk \<and> ?voices = [] \<and> 0 < kind_count ?act NonspeechKind then b - sw_previous w else 0)
        = nanoseconds s b (nonspeech_at cells)"
      by (simp only: step [OF ballI [OF ns]] d(8))
    show "sw_unobserved w + (if \<not> ?unk \<and> ?voices = [] \<and> \<not> 0 < kind_count ?act NonspeechKind then b - sw_previous w else 0)
        = nanoseconds s b (unobserved_at cells)"
      by (simp only: step [OF ballI [OF ub]] d(9))
    show "total_of (if \<not> ?unk \<and> ?voices \<noteq> [] then add_support (hd ?voices) (b - sw_previous w) (sw_support w) else sw_support w) l
        = nanoseconds s b (voice_at cells l)" for l
      using d(10) [of l] step [OF ballI [OF va [where l = l]]] by (auto simp: total_of_add)
    show "sum_list (map snd (if \<not> ?unk \<and> ?voices \<noteq> [] then add_support (hd ?voices) (b - sw_previous w) (sw_support w) else sw_support w))
        = nanoseconds s b (\<lambda>t. \<exists>l. voice_at cells l t)"
      using d(11) step [OF ballI [OF vx]] by (auto simp: sum_add)
  qed
qed

lemma present_before: "proper_cells s e cells \<Longrightarrow> present cells k (s - 1) = 0"
  by (induction cells) (simp_all add: present_def proper_cells_def)

lemma sorted_last: "sorted xs \<Longrightarrow> x \<in> set xs \<Longrightarrow> x \<le> last (xs :: int list)"
  by (induction xs) auto

definition endpoint_change :: "cell list \<Rightarrow> evidence_kind \<Rightarrow> int \<Rightarrow> int" where
  "endpoint_change cells k t =
     (\<Sum>x \<leftarrow> cells. if fst x = k then (if fst (snd x) = t then 1 else 0) - (if snd (snd x) = t then 1 else 0) else 0)"

lemma sweep_fold:
  assumes pr: "proper_cells s e cells"
  shows "swept cells s w \<Longrightarrow> low \<le> sw_previous w \<Longrightarrow> \<forall>k. kind_count (sw_active w) k = present cells k low \<Longrightarrow>
    sorted_wrt (<) (map fst bs) \<Longrightarrow> \<forall>x \<in> set bs. low < fst x \<and> sw_previous w \<le> fst x \<Longrightarrow>
    \<forall>x \<in> set bs. \<forall>k. delta (snd x) k = endpoint_change cells k (fst x) \<Longrightarrow>
    \<forall>x \<in> set cells. \<forall>p \<in> {fst (snd x), snd (snd x)}. p \<le> low \<or> p \<in> fst ` set bs \<Longrightarrow>
    sw_active w = [] \<or> (\<forall>x \<in> set bs. sw_previous w < fst x) \<Longrightarrow>
    swept cells s (fold sweep_boundary bs w)
      \<and> sw_previous (fold sweep_boundary bs w) = (if bs = [] then sw_previous w else fst (last bs))"
proof (induction bs arbitrary: w low)
  case (Cons bc bs)
  obtain b chs where bc: "bc = (b, chs)" by fastforce
  have lb: "low < b" "sw_previous w \<le> b" using Cons.prems(5) bc by auto
  have later: "\<forall>x \<in> set bs. b < fst x" using Cons.prems(4) bc by auto
  have ends: "p \<le> low \<or> b \<le> p" if "x \<in> set cells" "p \<in> {fst (snd x), snd (snd x)}" for x p
  proof -
    have "p \<le> low \<or> p \<in> fst ` set (bc # bs)" using Cons.prems(7) that by blast
    then show ?thesis using later bc by (auto intro: less_imp_le)
  qed
  have flat: "present cells k t = present cells k low" if "low \<le> t" "t < b" for k t
  proof (rule present_between [OF _ that(1)], intro ballI conjI)
    fix x assume x: "x \<in> set cells"
    show "fst (snd x) \<notin> {low<..t}" using ends [OF x, of "fst (snd x)"] that by auto
    show "snd (snd x) \<notin> {low<..t}" using ends [OF x, of "snd (snd x)"] that by auto
  qed
  let ?w = "sweep_boundary bc w"
  have act: "\<forall>t \<in> {sw_previous w..<b}. \<forall>k. kind_count (sw_active w) k = present cells k t"
  proof (intro ballI allI)
    fix t k assume t: "t \<in> {sw_previous w..<b}"
    then have "present cells k t = present cells k low" using Cons.prems(2) by (intro flat) auto
    then show "kind_count (sw_active w) k = present cells k t" using Cons.prems(3) by simp
  qed
  have sw: "swept cells s ?w" unfolding bc by (rule sweep_step [OF Cons.prems(1) pr lb(2) act]) (use Cons.prems(8) bc in auto)
  have fields: "sw_previous ?w = b" "sw_active ?w = fold apply_change chs (sw_active w)"
    unfolding bc by (rule sweep_boundary_fields)+
  have "kind_count (sw_active ?w) k = present cells k b" for k
  proof -
    have "kind_count (sw_active ?w) k = present cells k low + delta chs k"
      unfolding fields using apply_changes [OF sweptD(2) [OF Cons.prems(1)]] Cons.prems(3) by simp
    also have "delta chs k = endpoint_change cells k b" using Cons.prems(6) bc by simp
    also have "present cells k low = present cells k (b - 1)" using flat [of "b - 1" k] lb by simp
    finally show ?thesis using present_next [of cells k b] by (simp add: endpoint_change_def)
  qed
  moreover have "\<forall>x \<in> set cells. \<forall>p \<in> {fst (snd x), snd (snd x)}. p \<le> b \<or> p \<in> fst ` set bs"
  proof (intro ballI)
    fix x p assume "x \<in> set cells" "p \<in> {fst (snd x), snd (snd x)}"
    then have "p \<le> low \<or> p \<in> fst ` set (bc # bs)" using Cons.prems(7) by blast
    then show "p \<le> b \<or> p \<in> fst ` set bs" using lb bc by auto
  qed
  ultimately have now: "\<forall>k. kind_count (sw_active ?w) k = present cells k b"
    "\<forall>x \<in> set cells. \<forall>p \<in> {fst (snd x), snd (snd x)}. p \<le> b \<or> p \<in> fst ` set bs" by blast+
  have prem: "b \<le> sw_previous ?w" "sorted_wrt (<) (map fst bs)" "\<forall>x \<in> set bs. b < fst x \<and> sw_previous ?w \<le> fst x"
    "\<forall>x \<in> set bs. \<forall>k. delta (snd x) k = endpoint_change cells k (fst x)"
    using Cons.prems(4,6) later unfolding fields(1) by (auto intro: less_imp_le)
  have "swept cells s (fold sweep_boundary bs ?w)
      \<and> sw_previous (fold sweep_boundary bs ?w) = (if bs = [] then sw_previous ?w else fst (last bs))"
    by (rule Cons.IH [OF sw prem(1) now(1) prem(2,3,4) now(2)]) (use later fields(1) in auto)
  then show ?case using fields(1) bc by auto
qed simp

lemma run_sweep_swept:
  assumes pr: "proper_cells (cr_start c) (cr_end c) cells" and se: "cr_start c < cr_end c"
  shows "swept cells (cr_start c) (run_sweep c cells)" "sw_previous (run_sweep c cells) = cr_end c"
proof -
  let ?b0 = "[(cr_start c, []), (cr_end c, [])] :: (int \<times> changes) list"
  let ?raw = "fold add_cell cells ?b0" and ?bs = "boundaries c cells"
  have d: "distinct (map fst ?raw)" by (rule distinct_cells) (use se in simp)
  have set: "set ?bs = set ?raw" by (simp add: boundaries_def)
  have "distinct ?raw" using d by (simp add: distinct_map)
  then have dbs: "distinct ?bs" by (simp add: boundaries_def)
  have inj: "inj_on fst (set ?bs)" using d unfolding set by (simp add: distinct_map)
  have "sorted (map fst ?bs)" by (simp add: boundaries_def)
  moreover have "distinct (map fst ?bs)" using dbs inj by (simp add: distinct_map)
  ultimately have st: "sorted_wrt (<) (map fst ?bs)" by (simp add: strict_sorted_iff)
  have keys: "fst ` set ?bs = {cr_start c, cr_end c} \<union> (\<Union>x \<in> set cells. {fst (snd x), snd (snd x)})"
    using keys_cells [of cells ?b0] set by simp
  have range: "\<forall>k \<in> fst ` set ?bs. cr_start c \<le> k \<and> k \<le> cr_end c"
    unfolding keys using pr se by (auto simp: proper_cells_def)
  have del: "delta (snd x) k = endpoint_change cells k (fst x)" if "x \<in> set ?bs" for x k
  proof -
    have "map_of ?raw (fst x) = Some (snd x)" using that d unfolding set by simp
    then have "delta (snd x) k = delta_at ?raw k (fst x)" by (simp add: delta_at_def)
    also have "\<dots> = delta_at ?b0 k (fst x) + endpoint_change cells k (fst x)"
      unfolding endpoint_change_def by (rule delta_at_cells)
    also have "delta_at ?b0 k (fst x) = 0" by (simp add: delta_at_def delta_def split: option.split)
    finally show ?thesis by simp
  qed
  have none: "present cells k (cr_start c - 1) = 0" for k by (rule present_before [OF pr])
  have zero: "swept cells (cr_start c) (start_sweep c)" by (simp add: swept_def start_sweep_def total_of_def)
  have "swept cells (cr_start c) (fold sweep_boundary ?bs (start_sweep c))
      \<and> sw_previous (fold sweep_boundary ?bs (start_sweep c)) = (if ?bs = [] then sw_previous (start_sweep c) else fst (last ?bs))"
  proof (rule sweep_fold [OF pr zero, of "cr_start c - 1"])
    show "\<forall>k. kind_count (sw_active (start_sweep c)) k = present cells k (cr_start c - 1)"
      unfolding none by (simp add: start_sweep_def kind_count_def)
    show "\<forall>x \<in> set cells. \<forall>p \<in> {fst (snd x), snd (snd x)}. p \<le> cr_start c - 1 \<or> p \<in> fst ` set ?bs"
      unfolding keys by blast
    show "\<forall>x \<in> set ?bs. cr_start c - 1 < fst x \<and> sw_previous (start_sweep c) \<le> fst x"
      using range by (auto simp: start_sweep_def)
  qed (use st del in \<open>simp_all add: start_sweep_def\<close>)
  moreover have ne: "?bs \<noteq> []" using keys by auto
  moreover have "fst (last ?bs) = cr_end c"
  proof -
    have "last ?bs \<in> set ?bs" using ne by simp
    then have le: "fst (last ?bs) \<le> cr_end c" using range by blast
    have "cr_end c \<in> set (map fst ?bs)" using keys by auto
    then have "cr_end c \<le> last (map fst ?bs)" by (rule sorted_last [OF \<open>sorted (map fst ?bs)\<close>])
    then show ?thesis using le ne by (simp add: last_map)
  qed
  ultimately show "swept cells (cr_start c) (run_sweep c cells)" "sw_previous (run_sweep c cells) = cr_end c"
    by (simp_all add: run_sweep_def)
qed

subsection \<open>Decisions\<close>

lemma chain_proper: "interval_chain p e iv \<Longrightarrow> \<forall>q \<in> set iv. fst q < snd q"
  by (induction p e iv rule: interval_chain.induct) auto

lemma support_of_proper: "p \<in> set (support_of a) \<Longrightarrow> fst p < snd p"
  using chain_proper [of "as_start a" "as_stop a" "as_support a"]
  by (auto simp: support_of_def support_intervals_for_def split: if_splits)

lemma caption_cells_proper: "cr_start c < cr_end c \<Longrightarrow> proper_cells (cr_start c) (cr_end c) (caption_cells h cf c)"
  by (auto simp: proper_cells_def caption_cells_def clip_to_def split: if_splits dest!: support_of_proper)

lemma decide_cells_times:
  "de_duration (decide_cells cfg c cells) = cr_end c - cr_start c"
  "de_known_ns (decide_cells cfg c cells) = sum_list (map snd (sw_support (run_sweep c cells)))"
  "de_unknown_ns (decide_cells cfg c cells) = sw_unknown (run_sweep c cells)"
  "de_nonspeech_ns (decide_cells cfg c cells) = sw_nonspeech (run_sweep c cells)"
  "de_overlap_ns (decide_cells cfg c cells) = sw_overlap (run_sweep c cells)"
  "de_ambiguous_ns (decide_cells cfg c cells) = sw_ambiguous (run_sweep c cells)"
  "de_conflict_ns (decide_cells cfg c cells) = sw_conflict (run_sweep c cells)"
  "de_unobserved_ns (decide_cells cfg c cells) = sw_unobserved (run_sweep c cells)"
  "de_coverage (decide_cells cfg c cells) = of_int (best_support (sw_support (run_sweep c cells))) / of_int (cr_end c - cr_start c)"
  by (simp_all add: decide_cells_def Let_def measured_def)

lemma nanoseconds_split:
  assumes "\<And>t. \<not> (P t \<and> Q t)"
  shows "nanoseconds a b P + nanoseconds a b Q = nanoseconds a b (\<lambda>t. P t \<or> Q t)"
proof -
  have "{t \<in> {a..<b}. P t \<or> Q t} = {t \<in> {a..<b}. P t} \<union> {t \<in> {a..<b}. Q t}" by auto
  moreover have "card ({t \<in> {a..<b}. P t} \<union> {t \<in> {a..<b}. Q t}) = card {t \<in> {a..<b}. P t} + card {t \<in> {a..<b}. Q t}"
    by (rule card_Un_disjoint) (use assms in \<open>auto intro: finite_subset [of _ "{a..<b}"]\<close>)
  ultimately show ?thesis by (simp add: nanoseconds_def)
qed

lemma nanoseconds_all: "a \<le> b \<Longrightarrow> (\<And>t. P t) \<Longrightarrow> nanoseconds a b P = b - a"
proof -
  assume ab: "a \<le> b" and "\<And>t. P t"
  then have "{t \<in> {a..<b}. P t} = {a..<b}" by auto
  then show ?thesis unfolding nanoseconds_def using ab by simp
qed

lemma cells_partition:
  assumes "a \<le> b"
  shows "nanoseconds a b (\<lambda>t. \<exists>l. voice_at cells l t) + nanoseconds a b (unknown_at cells)
    + nanoseconds a b (nonspeech_at cells) + nanoseconds a b (unobserved_at cells) = b - a"
proof -
  have "nanoseconds a b (\<lambda>t. \<exists>l. voice_at cells l t) + nanoseconds a b (unknown_at cells)
      = nanoseconds a b (\<lambda>t. (\<exists>l. voice_at cells l t) \<or> unknown_at cells t)"
    by (rule nanoseconds_split) (auto simp: voice_at_def)
  moreover have "nanoseconds a b (\<lambda>t. (\<exists>l. voice_at cells l t) \<or> unknown_at cells t) + nanoseconds a b (nonspeech_at cells)
      = nanoseconds a b (\<lambda>t. ((\<exists>l. voice_at cells l t) \<or> unknown_at cells t) \<or> nonspeech_at cells t)"
    by (rule nanoseconds_split) (auto simp: voice_at_def nonspeech_at_def)
  moreover have "nanoseconds a b (\<lambda>t. ((\<exists>l. voice_at cells l t) \<or> unknown_at cells t) \<or> nonspeech_at cells t)
      + nanoseconds a b (unobserved_at cells)
      = nanoseconds a b (\<lambda>t. (((\<exists>l. voice_at cells l t) \<or> unknown_at cells t) \<or> nonspeech_at cells t) \<or> unobserved_at cells t)"
    by (rule nanoseconds_split) (auto simp: voice_at_def nonspeech_at_def unobserved_at_def)
  moreover have "nanoseconds a b (\<lambda>t. (((\<exists>l. voice_at cells l t) \<or> unknown_at cells t) \<or> nonspeech_at cells t) \<or> unobserved_at cells t) = b - a"
    by (rule nanoseconds_all [OF assms]) (auto simp: voice_at_def nonspeech_at_def unobserved_at_def)
  ultimately show ?thesis by linarith
qed

lemma total_of_in: "distinct (map fst m) \<Longrightarrow> (l, n) \<in> set m \<Longrightarrow> total_of m l = n"
  by (simp add: total_of_def)

lemma best_support_max:
  assumes "distinct (map fst m)" "\<And>l. 0 \<le> total_of m l"
  shows "total_of m l \<le> best_support m" "best_support m = 0 \<or> (\<exists>l. best_support m = total_of m l)"
proof -
  show "best_support m = 0 \<or> (\<exists>l. best_support m = total_of m l)"
  proof (cases "m = []")
    case False
    then have "Max (set (map snd m)) \<in> set (map snd m)" by (intro Max_in) auto
    then have "best_support m \<in> snd ` set m" using False by (simp add: best_support_def)
    then obtain l where "(l, best_support m) \<in> set m" by force
    from total_of_in [OF assms(1) this] have "best_support m = total_of m l" by simp
    then show ?thesis by blast
  qed (simp add: best_support_def)
  show "total_of m l \<le> best_support m"
  proof (cases "map_of m l")
    case None
    have "0 \<le> best_support m" if ne: "m \<noteq> []"
    proof -
      obtain k n where x: "(k, n) \<in> set m" using ne by (cases m) auto
      then have "n \<le> Max (set (map snd m))" by (intro Max_ge) force+
      then have "0 \<le> Max (set (map snd m))" using total_of_in [OF assms(1) x] assms(2) [of k] by simp
      then show ?thesis using ne by (simp add: best_support_def del: set_map)
    qed
    then show ?thesis using None by (cases "m = []") (auto simp: total_of_def best_support_def)
  next
    case (Some n)
    then have x: "(l, n) \<in> set m" by (rule map_of_SomeD)
    then have "n \<le> Max (set (map snd m))" by (intro Max_ge) force+
    moreover have "m \<noteq> []" using x by auto
    ultimately show ?thesis using Some by (simp add: total_of_def best_support_def del: set_map)
  qed
qed

lemma known_ids_covered: "voice_covers cells t l \<Longrightarrow> l \<in> set (known_ids cells)"
proof -
  assume "voice_covers cells t l"
  then obtain x where x: "x \<in> set cells" "fst x = KnownVoice l" by (auto simp: voice_covers_def covered_def)
  have "set (known_ids cells) = (\<Union>x \<in> set cells. set (case fst x of KnownVoice l \<Rightarrow> [l] | _ \<Rightarrow> []))"
    by (auto simp: known_ids_def split: prod.splits)
  moreover have "l \<in> set (case fst x of KnownVoice l \<Rightarrow> [l] | _ \<Rightarrow> [])" using x(2) by simp
  ultimately show ?thesis using x(1) by blast
qed

lemma named_conditions:
  assumes "de_speaker (decide_cells cfg c cells) = Some l"
  shows "length (known_ids cells) \<le> 1" "sw_overlap (run_sweep c cells) = 0" "sw_ambiguous (run_sweep c cells) = 0"
    "sw_conflict (run_sweep c cells) = 0" "sw_nonspeech (run_sweep c cells) \<noteq> cr_end c - cr_start c"
    "evaluated_unknown (measured c (run_sweep c cells)) \<le> mc_unknown cfg"
    "sw_support (run_sweep c cells) \<noteq> []" "l = fst (hd (sw_support (run_sweep c cells)))"
    "mc_coverage cfg \<le> de_coverage (measured c (run_sweep c cells))"
  using assms by (auto simp: decide_cells_def Let_def measured_def split: if_splits)

end
