(* ===== verification/SpeakerMapInv.thy ===== *)
theory SpeakerMapInv
  imports SpeakerSweep SpeakerInv
begin

text \<open>
  The invariant of the caption mapping: bounds, and for every retained caption the remembered decision is the one the
  retained evidence gives. A call rechecks only the captions that new evidence meets, so the lemmas show that
  every other caption's evidence is untouched.
\<close>

subsection \<open>Joined intervals\<close>

lemma join_interval_spec:
  assumes "separated (rev acc)" "\<forall>q \<in> set acc. fst q \<le> fst p" "fst p < snd p"
  shows "separated (rev (join_interval p acc)) \<and> audio (join_interval p acc) = {fst p..<snd p} \<union> audio acc
    \<and> (\<forall>q \<in> set (join_interval p acc). fst q \<le> fst p)"
proof (cases acc)
  case Nil then show ?thesis using assms(3) by (simp add: join_interval_def)
next
  case (Cons q r)
  show ?thesis
  proof (cases "fst p \<le> snd q")
    case True
    have j: "join_interval p acc = (fst q, max (snd p) (snd q)) # r" using Cons True by (simp add: join_interval_def)
    have u: "{fst q..<max (snd p) (snd q)} = {fst p..<snd p} \<union> {fst q..<snd q}" using True assms(2,3) Cons by auto
    have s: "separated (rev r)" "\<forall>x \<in> set r. snd x < fst q" "fst q < snd q" using assms(1) Cons by simp_all
    show ?thesis unfolding j using s u Cons assms(2) by auto
  next
    case False
    have j: "join_interval p acc = p # acc" using Cons False by (simp add: join_interval_def)
    have "snd x < fst p" if "x \<in> set acc" for x
    proof -
      have "x = q \<or> snd x < fst q" "fst q < snd q" using that assms(1) Cons by auto
      then show ?thesis using False by auto
    qed
    then show ?thesis unfolding j using assms by auto
  qed
qed

lemma join_fold_spec:
  "sorted iv \<Longrightarrow> separated (rev acc) \<Longrightarrow> \<forall>q \<in> set acc. \<forall>p \<in> set iv. fst q \<le> fst p \<Longrightarrow> \<forall>p \<in> set iv. fst p < snd p \<Longrightarrow>
    separated (rev (fold join_interval iv acc)) \<and> audio (fold join_interval iv acc) = audio iv \<union> audio acc"
proof (induction iv arbitrary: acc)
  case (Cons p iv)
  have s: "separated (rev (join_interval p acc)) \<and> audio (join_interval p acc) = {fst p..<snd p} \<union> audio acc
    \<and> (\<forall>q \<in> set (join_interval p acc). fst q \<le> fst p)" using Cons.prems by (intro join_interval_spec) auto
  have "\<forall>x \<in> set iv. fst p \<le> fst x" using Cons.prems(1) by (fastforce simp: less_eq_prod_def)
  with s have "\<forall>q \<in> set (join_interval p acc). \<forall>x \<in> set iv. fst q \<le> fst x" by (meson order_trans)
  from Cons.IH [OF _ _ this] Cons.prems s
  have "separated (rev (fold join_interval iv (join_interval p acc)))
    \<and> audio (fold join_interval iv (join_interval p acc)) = audio iv \<union> audio (join_interval p acc)" by simp
  then show ?case using s by auto
qed simp

lemma join_intervals_spec:
  assumes "\<forall>p \<in> set iv. fst p < snd p"
  shows "separated (join_intervals iv)" "audio (join_intervals iv) = audio iv"
proof -
  have "separated (rev (fold join_interval (sort iv) [])) \<and> audio (fold join_interval (sort iv) []) = audio (sort iv) \<union> audio []"
    by (rule join_fold_spec) (use assms in simp_all)
  moreover have "audio (rev xs) = audio xs" "audio (sort xs) = audio xs" for xs by (simp_all add: audio_def)
  ultimately show "separated (join_intervals iv)" "audio (join_intervals iv) = audio iv" by (simp_all add: join_intervals_def)
qed

text \<open>A caption that no affected interval frees meets none of them.\<close>

lemma unaffected_clip:
  assumes free: "interval_free (join_intervals iv) (cr_start c, cr_end c)" and se: "cr_start c < cr_end c"
    and iv: "\<forall>p \<in> set iv. fst p < snd p" and sub: "set jv \<subseteq> set iv"
  shows "clip_to c jv = []"
proof -
  have no: "{cr_start c..<cr_end c} \<inter> audio iv = {}"
    using free interval_free_iff [OF join_intervals_spec(1) [OF iv], of "(cr_start c, cr_end c)"] se join_intervals_spec(2) [OF iv] by simp
  have "\<not> (fst p < cr_end c \<and> cr_start c < snd p)" if "p \<in> set jv" for p
  proof
    assume p: "fst p < cr_end c \<and> cr_start c < snd p"
    have "p \<in> set iv" using that sub by blast
    then have "fst p < snd p" "{fst p..<snd p} \<subseteq> audio iv" using iv by (auto simp: audio_def)
    then have "max (fst p) (cr_start c) \<in> {cr_start c..<cr_end c} \<inter> audio iv" using p se by auto
    then show False using no by blast
  qed
  then show ?thesis by (auto simp: clip_to_def filter_empty_conv)
qed

lemma expired_clip:
  assumes "as_stop a \<le> cr_start c"
  shows "clip_to c (support_of a) = []"
proof -
  have chain: "interval_chain p e iv \<Longrightarrow> \<forall>q \<in> set iv. snd q \<le> e" for p e iv
    by (induction p e iv rule: interval_chain.induct) auto
  have "snd q \<le> as_stop a" if "q \<in> set (support_of a)" for q
    using that chain [of "as_start a" "as_stop a" "as_support a"]
    by (auto simp: support_of_def support_intervals_for_def split: if_splits)
  then show ?thesis using assms by (fastforce simp: clip_to_def filter_empty_conv)
qed

subsection \<open>Evidence of one entry\<close>

definition entry_cells :: "(candidate_key \<times> ustring) list \<Rightarrow> caption_ref \<Rightarrow> voice_key \<times> voice_entry \<Rightarrow> cell list" where
  "entry_cells confirmed c p =
     (if as_track (ve_assignment (snd p)) \<noteq> cr_track c \<or> ve_epoch (snd p) \<noteq> cr_epoch c then []
      else map (\<lambda>q. (entry_kind confirmed (snd p), q)) (clip_to c (support_of (ve_assignment (snd p)))))"

lemma caption_cells_entries: "caption_cells h confirmed c = concat (map (entry_cells confirmed c) h)"
  unfolding caption_cells_def by (rule arg_cong [where f = concat], rule map_cong) (auto simp: entry_cells_def)

lemma entry_cells_expired: "entry_end p \<le> cr_start c \<Longrightarrow> entry_cells confirmed c p = []"
  by (simp add: entry_cells_def entry_end_def expired_clip)

lemma concat_filter_empty: "\<forall>x \<in> set xs. \<not> P x \<longrightarrow> f x = [] \<Longrightarrow> concat (map f (filter P xs)) = concat (map f xs)"
  by (induction xs) auto

lemma entry_kind_cong:
  assumes "as_status (ve_assignment v) = ProvisionalSpeaker \<Longrightarrow> map_of cf' (candidate_key_of v) = map_of cf (candidate_key_of v)"
  shows "entry_kind cf' v = entry_kind cf v"
proof -
  have "entry_label cf' v = entry_label cf v"
    using assms by (auto simp: entry_label_def split: assign_status.split)
  then show ?thesis by (simp add: entry_kind_def)
qed

subsection \<open>The eviction loop\<close>

lemma evict_history_spec:
  assumes "evict_history limit low h = (h', low', n)" "distinct (map fst h)"
  shows "(\<exists>P. h' = filter P h \<and> (\<forall>p \<in> set h. \<not> P p \<longrightarrow> entry_end p \<le> low')) \<and> low \<le> low' \<and> length h' \<le> limit"
  using assms
proof (induction limit low h arbitrary: h' low' n rule: evict_history.induct)
  case (1 limit low h)
  show ?case
  proof (cases "length h \<le> limit")
    case True
    then have "h' = h" "low' = low" using "1.prems"(1) by (simp_all add: evict_history.simps)
    then show ?thesis using True by (intro conjI exI [of _ "\<lambda>_. True"]) simp_all
  next
    case False
    let ?o = "oldest_entry h" and ?h = "al_del (fst (oldest_entry h)) h"
    obtain m where rec: "evict_history limit (max low (entry_end ?o)) ?h = (h', low', m)"
      using "1.prems"(1) False by (auto simp: evict_history.simps [of limit low h] split: prod.splits)
    from "1.IH" [OF False rec distinct_al_del [OF "1.prems"(2)]] obtain P where
      P: "h' = filter P ?h" "\<forall>p \<in> set ?h. \<not> P p \<longrightarrow> entry_end p \<le> low'" "max low (entry_end ?o) \<le> low'" "length h' \<le> limit" by blast
    have "h \<noteq> []" using False by auto
    then have o: "?o \<in> set h" by (rule oldest_entry_in)
    have "entry_end p \<le> low'" if "p \<in> set h" "\<not> (P p \<and> fst p \<noteq> fst ?o)" for p
    proof (cases "fst p = fst ?o")
      case True
      then have "p = ?o" using "1.prems"(2) that(1) o by (simp add: distinct_map inj_on_def)
      then show ?thesis using P(3) by simp
    next
      case False
      then have "p \<in> set ?h" "\<not> P p" using that by (auto simp: al_del_def)
      then show ?thesis using P(2) by blast
    qed
    moreover have "h' = filter (\<lambda>p. P p \<and> fst p \<noteq> fst ?o) h" unfolding P(1) by (simp add: al_del_def conj_commute)
    ultimately show ?thesis using P(3,4) by (intro conjI exI [of _ "\<lambda>p. P p \<and> fst p \<noteq> fst ?o"]) auto
  qed
qed

subsection \<open>The invariant\<close>

definition entry_ok :: "voice_key \<times> voice_entry \<Rightarrow> bool" where
  "entry_ok p \<longleftrightarrow> fst p = (as_track (ve_assignment (snd p)), ve_epoch (snd p), as_sample (ve_assignment (snd p)))
     \<and> (as_status (ve_assignment (snd p)) = ProvisionalSpeaker \<longrightarrow> as_candidate (ve_assignment (snd p)) \<noteq> None)"

definition decided :: "reducer \<Rightarrow> ustring \<Rightarrow> caption_ref \<Rightarrow> bool" where
  "decided rd i c \<longleftrightarrow> (\<exists>d. map_of (rr_latest rd) i = Some d
     \<and> (d = decide_caption rd c \<or> d = (decide_caption rd c)\<lparr>de_reason := ''manual_preserved''\<rparr>))"

definition caption_ok :: "int \<Rightarrow> ustring \<Rightarrow> caption_ref \<Rightarrow> bool" where
  "caption_ok low i c \<longleftrightarrow> cr_segment c = i \<and> cr_start c < cr_end c \<and> low \<le> cr_start c"

text \<open>The bounds and indexes of a reducer whose captions begin at \<open>low\<close> or later.\<close>

definition reducer_at :: "int \<Rightarrow> reducer \<Rightarrow> bool" where
  "reducer_at low rd \<longleftrightarrow> mapping_config_ok (rr_config rd)
     \<and> distinct (map fst (rr_history rd)) \<and> distinct (map fst (rr_captions rd)) \<and> distinct (map fst (rr_latest rd))
     \<and> length (rr_history rd) \<le> mc_max_history (rr_config rd) \<and> length (rr_captions rd) \<le> mc_max_captions (rr_config rd)
     \<and> (\<forall>p \<in> set (rr_history rd). entry_ok p)
     \<and> (\<forall>i c. map_of (rr_captions rd) i = Some c \<longrightarrow> caption_ok low i c)
     \<and> set (map fst (rr_latest rd)) \<subseteq> set (map fst (rr_captions rd))"

definition all_decided :: "reducer \<Rightarrow> bool" where
  "all_decided rd \<longleftrightarrow> (\<forall>i c. map_of (rr_captions rd) i = Some c \<longrightarrow> decided rd i c)"

lemma reducer_atD:
  assumes "reducer_at low rd"
  shows "mapping_config_ok (rr_config rd)" "distinct (map fst (rr_history rd))" "distinct (map fst (rr_captions rd))"
    "distinct (map fst (rr_latest rd))" "length (rr_history rd) \<le> mc_max_history (rr_config rd)"
    "length (rr_captions rd) \<le> mc_max_captions (rr_config rd)" "p \<in> set (rr_history rd) \<Longrightarrow> entry_ok p"
    "map_of (rr_captions rd) i = Some c \<Longrightarrow> caption_ok low i c"
    "set (map fst (rr_latest rd)) \<subseteq> set (map fst (rr_captions rd))"
  using assms by (simp_all add: reducer_at_def)

text \<open>The parts of a reducer that a decision depends on.\<close>

definition same_evidence :: "reducer \<Rightarrow> reducer \<Rightarrow> bool" where
  "same_evidence rd rd' \<longleftrightarrow> rr_config rd' = rr_config rd \<and> rr_history rd' = rr_history rd
     \<and> rr_confirmed rd' = rr_confirmed rd \<and> rr_floor rd' = rr_floor rd"

lemma same_evidence_decide: "same_evidence rd rd' \<Longrightarrow> decide_caption rd' c = decide_caption rd c"
  by (simp add: same_evidence_def decide_caption_def)

lemma same_evidence_trans: "same_evidence a b \<Longrightarrow> same_evidence b c \<Longrightarrow> same_evidence a c"
  by (simp add: same_evidence_def)

lemma retire_evidence: "same_evidence rd (retire_caption i cause rd)"
  by (simp add: same_evidence_def retire_caption_def Let_def split: option.split)

lemma retire_fields:
  "rr_captions (retire_caption i cause rd) = al_del i (rr_captions rd)"
  "map_of (rr_latest (retire_caption i cause rd)) = (map_of (rr_latest rd))(i := None)"
  "rr_watermark (retire_caption i cause rd) = rr_watermark rd"
  by (auto simp: retire_caption_def Let_def fun_eq_iff split: option.split)

lemma al_del_image: "fst ` set (al_del k m) = fst ` set m - {k}"
  using keys_al_del [of k m] by simp

lemma al_put_image: "fst ` set (al_put k v m) = insert k (fst ` set m)"
  using keys_al_put [of k v m] by simp

lemma retire_ok:
  assumes ok: "reducer_at low rd"
  shows "reducer_at low (retire_caption i cause rd)"
proof -
  note d = reducer_atD [OF ok]
  let ?r = "retire_caption i cause rd"
  have ev: "rr_config ?r = rr_config rd" "rr_history ?r = rr_history rd" "rr_floor ?r = rr_floor rd"
    using retire_evidence [of rd i cause] by (simp_all add: same_evidence_def)
  have lat: "rr_latest ?r = rr_latest rd \<and> map_of (rr_latest rd) i = None \<or> rr_latest ?r = al_del i (rr_latest rd)"
    by (auto simp: retire_caption_def Let_def split: option.split)
  have "distinct (map fst (rr_latest ?r))" using lat d(4) distinct_al_del by metis
  moreover have "set (map fst (rr_latest ?r)) \<subseteq> set (map fst (rr_captions ?r))"
    using lat d(9) unfolding retire_fields set_map al_del_image map_of_eq_None_iff by (elim disjE) (auto simp: al_del_image)
  moreover have "caption_ok low j c" if "map_of (rr_captions ?r) j = Some c" for j c
  proof -
    have "map_of (rr_captions rd) j = Some c" using that unfolding retire_fields by (auto split: if_splits)
    from d(8) [OF this] show ?thesis .
  qed
  moreover have "length (rr_captions ?r) \<le> mc_max_captions (rr_config rd)"
    unfolding retire_fields using d(6) by (simp add: al_del_def le_trans [OF length_filter_le])
  ultimately show ?thesis using d(1,2,3,5,7) distinct_al_del [OF d(3)]
    unfolding reducer_at_def ev retire_fields(1) by blast
qed

lemma retire_decided:
  assumes "map_of (rr_captions (retire_caption i cause rd)) j = Some c"
  shows "map_of (rr_captions rd) j = Some c \<and> decided (retire_caption i cause rd) j c = decided rd j c
    \<and> map_of (rr_latest (retire_caption i cause rd)) j = map_of (rr_latest rd) j"
proof -
  have "j \<noteq> i" "map_of (rr_captions rd) j = Some c" using assms unfolding retire_fields by (auto split: if_splits)
  then show ?thesis by (simp add: decided_def retire_fields same_evidence_decide [OF retire_evidence])
qed

lemma stats_neutral [simp]:
  "reducer_at low (rd\<lparr>rr_stats := s\<rparr>) = reducer_at low rd" "decide_caption (rd\<lparr>rr_stats := s\<rparr>) = decide_caption rd"
  "decided (rd\<lparr>rr_stats := s\<rparr>) = decided rd" "same_evidence rd0 (rd\<lparr>rr_stats := s\<rparr>) = same_evidence rd0 rd"
  "all_decided (rd\<lparr>rr_stats := s\<rparr>) = all_decided rd"
  by (auto simp: reducer_at_def decide_caption_def decided_def same_evidence_def all_decided_def fun_eq_iff)

subsection \<open>Pruning\<close>

lemma expire_fold:
  fixes low :: int and step defines "step \<equiv> (\<lambda>(i, c) r. if cr_start c < low
      then (let r1 = retire_caption i ''retention_floor'' r
            in r1\<lparr>rr_stats := (rr_stats r1)\<lparr>n_expired_captions := n_expired_captions (rr_stats r1) + 1\<rparr>\<rparr>)
      else r)"
  shows "same_evidence r (fold step cs r) \<and> (reducer_at l r \<longrightarrow> reducer_at l (fold step cs r))
    \<and> (\<forall>i c. map_of (rr_captions (fold step cs r)) i = Some c \<longrightarrow> map_of (rr_captions r) i = Some c
        \<and> decided (fold step cs r) i c = decided r i c
        \<and> map_of (rr_latest (fold step cs r)) i = map_of (rr_latest r) i \<and> (\<forall>c'. (i, c') \<in> set cs \<longrightarrow> low \<le> cr_start c'))"
proof (induction cs arbitrary: r)
  case Nil then show ?case by (simp add: same_evidence_def)
next
  case (Cons x cs)
  obtain i c where x: "x = (i, c)" by fastforce
  show ?case
  proof (cases "cr_start c < low")
    case False
    then have "fold step (x # cs) r = fold step cs r" by (simp add: step_def x)
    with Cons [of r] False show ?thesis by (auto simp: x)
  next
    case True
    define r1 where "r1 = retire_caption i ''retention_floor'' r"
    define r2 where "r2 = r1\<lparr>rr_stats := (rr_stats r1)\<lparr>n_expired_captions := n_expired_captions (rr_stats r1) + 1\<rparr>\<rparr>"
    have eq: "fold step (x # cs) r = fold step cs r2" using True by (simp add: step_def x r1_def r2_def Let_def)
    have cap: "rr_captions r2 = al_del i (rr_captions r)" by (simp add: r2_def r1_def retire_fields)
    have a: "same_evidence r r2" using retire_evidence by (simp add: r2_def r1_def)
    have b: "reducer_at l r \<longrightarrow> reducer_at l r2" using retire_ok by (simp add: r2_def r1_def)
    have c: "map_of (rr_captions r) j = Some d \<and> decided r2 j d = decided r j d \<and> j \<noteq> i
        \<and> map_of (rr_latest r2) j = map_of (rr_latest r) j"
      if "map_of (rr_captions r2) j = Some d" for j d
      using retire_decided [of i "''retention_floor''" r j d] that cap by (auto simp: r2_def r1_def split: if_splits)
    note ih = Cons [of r2]
    show ?thesis unfolding eq
    proof (intro conjI allI impI)
      show "same_evidence r (fold step cs r2)" using same_evidence_trans [OF a] ih by blast
      show "reducer_at l (fold step cs r2)" if "reducer_at l r" using that b ih by blast
      fix j d assume h: "map_of (rr_captions (fold step cs r2)) j = Some d"
      then have i: "map_of (rr_captions r2) j = Some d" "decided (fold step cs r2) j d = decided r2 j d"
        "map_of (rr_latest (fold step cs r2)) j = map_of (rr_latest r2) j" "\<forall>c'. (j, c') \<in> set cs \<longrightarrow> low \<le> cr_start c'" using ih by blast+
      note k = c [OF i(1)]
      show "map_of (rr_captions r) j = Some d" using k by blast
      show "decided (fold step cs r2) j d = decided r j d" using k i(2) by simp
      show "map_of (rr_latest (fold step cs r2)) j = map_of (rr_latest r) j" using k i(3) by simp
      show "low \<le> cr_start c'" if "(j, c') \<in> set (x # cs)" for c' using that k i(4) by (auto simp: x)
    qed
  qed
qed

lemma expire_captions_spec:
  assumes "reducer_at l rd"
  shows "same_evidence rd (expire_captions low rd)" "reducer_at (max l low) (expire_captions low rd)"
    "map_of (rr_captions (expire_captions low rd)) i = Some c \<Longrightarrow>
       map_of (rr_captions rd) i = Some c \<and> decided (expire_captions low rd) i c = decided rd i c
       \<and> map_of (rr_latest (expire_captions low rd)) i = map_of (rr_latest rd) i"
proof -
  note f = expire_fold [of rd low "rr_captions rd" l, folded expire_captions_def]
  show "same_evidence rd (expire_captions low rd)" using f by blast
  show "map_of (rr_captions (expire_captions low rd)) i = Some c \<Longrightarrow>
       map_of (rr_captions rd) i = Some c \<and> decided (expire_captions low rd) i c = decided rd i c
       \<and> map_of (rr_latest (expire_captions low rd)) i = map_of (rr_latest rd) i" using f by blast
  have at: "reducer_at l (expire_captions low rd)" using f assms by blast
  have "caption_ok (max l low) j d" if "map_of (rr_captions (expire_captions low rd)) j = Some d" for j d
  proof -
    have "map_of (rr_captions rd) j = Some d" "\<forall>c'. (j, c') \<in> set (rr_captions rd) \<longrightarrow> low \<le> cr_start c'"
      using f that by blast+
    then have "low \<le> cr_start d" by (blast dest: map_of_SomeD)
    then show ?thesis using reducer_atD(8) [OF at that] by (simp add: caption_ok_def)
  qed
  then show "reducer_at (max l low) (expire_captions low rd)" using at unfolding reducer_at_def by blast
qed

lemma map_of_filter_keyset: "k \<in> K \<Longrightarrow> map_of (filter (\<lambda>(k, v). k \<in> K) m) k = map_of m k"
  by (induction m) auto

lemma pruned_cells:
  assumes h': "h' = filter P h" and gone: "\<forall>p \<in> set h. \<not> P p \<longrightarrow> entry_end p \<le> low" and c: "low \<le> cr_start c"
    and ok: "\<forall>p \<in> set h. entry_ok p"
  defines "K \<equiv> set (map (candidate_key_of \<circ> snd) (filter (\<lambda>(k, v). as_candidate (ve_assignment v) \<noteq> None) h'))"
  shows "caption_cells h' (filter (\<lambda>(key, l). key \<in> K) cf) c = caption_cells h cf c"
proof -
  let ?cf = "filter (\<lambda>(key, l). key \<in> K) cf"
  have "entry_cells ?cf c p = entry_cells cf c p" if "p \<in> set h'" for p
  proof -
    have "map_of ?cf (candidate_key_of (snd p)) = map_of cf (candidate_key_of (snd p))"
      if "as_status (ve_assignment (snd p)) = ProvisionalSpeaker"
    proof (rule map_of_filter_keyset)
      have "p \<in> set h" using \<open>p \<in> set h'\<close> h' by simp
      then have "as_candidate (ve_assignment (snd p)) \<noteq> None" using ok that by (simp add: entry_ok_def)
      then show "candidate_key_of (snd p) \<in> K" using \<open>p \<in> set h'\<close> unfolding K_def by (force simp: case_prod_beta)
    qed
    from entry_kind_cong [OF this] show ?thesis by (simp add: entry_cells_def)
  qed
  then have "caption_cells h' ?cf c = concat (map (entry_cells cf c) h')"
    unfolding caption_cells_entries by (metis (no_types, lifting) map_cong)
  also have "\<dots> = concat (map (entry_cells cf c) h)"
    unfolding h' by (rule concat_filter_empty) (use gone c in \<open>auto intro: entry_cells_expired order_trans\<close>)
  finally show ?thesis by (simp add: caption_cells_entries)
qed

lemma prune_spec:
  assumes at: "reducer_at (rr_floor rd) (rd\<lparr>rr_history := []\<rparr>)" and dis: "distinct (map fst (rr_history rd))"
    and ok: "\<forall>p \<in> set (rr_history rd). entry_ok p"
  shows "reducer_at (rr_floor (prune rd)) (prune rd)" "rr_floor rd \<le> rr_floor (prune rd)" "rr_config (prune rd) = rr_config rd"
    "rr_floor (prune rd) \<le> cr_start c \<Longrightarrow> decide_caption (prune rd) c = decide_caption rd c"
    "map_of (rr_captions (prune rd)) i = Some d \<Longrightarrow>
      map_of (rr_captions rd) i = Some d \<and> map_of (rr_latest (prune rd)) i = map_of (rr_latest rd) i"
    "\<exists>P. rr_history (prune rd) = filter P (rr_history rd)
       \<and> (\<forall>p \<in> set (rr_history rd). \<not> P p \<longrightarrow> entry_end p \<le> rr_floor (prune rd))"
proof -
  define low where "low = max (max (rr_floor rd) (rr_watermark rd - mc_history_ns (rr_config rd))) 0"
  define kept where "kept = filter (\<lambda>p. \<not> entry_end p \<le> low) (rr_history rd)"
  obtain h low' n where ev: "evict_history (mc_max_history (rr_config rd)) low kept = (h, low', n)" by (metis prod_cases3)
  have dk: "distinct (map fst kept)" unfolding kept_def using dis by (rule distinct_map_filter)
  from evict_history_spec [OF ev dk] obtain P where P: "h = filter P kept" "\<forall>p \<in> set kept. \<not> P p \<longrightarrow> entry_end p \<le> low'"
    "low \<le> low'" "length h \<le> mc_max_history (rr_config rd)" by blast
  let ?P = "\<lambda>p. \<not> entry_end p \<le> low \<and> P p"
  have h: "h = filter ?P (rr_history rd)" unfolding P(1) kept_def by (simp add: conj_commute)
  have gone: "\<forall>p \<in> set (rr_history rd). \<not> ?P p \<longrightarrow> entry_end p \<le> low'"
  proof (intro ballI impI)
    fix p assume p: "p \<in> set (rr_history rd)" "\<not> ?P p"
    show "entry_end p \<le> low'"
    proof (cases "entry_end p \<le> low")
      case False
      then have "p \<in> set kept" "\<not> P p" using p by (simp_all add: kept_def)
      then show ?thesis using P(2) by blast
    qed (use P(3) in simp)
  qed
  have lows: "rr_floor rd \<le> low'" using P(3) by (simp add: low_def)
  define rd1 where "rd1 = rd\<lparr>rr_history := h, rr_floor := low',
      rr_stats := (rr_stats rd)\<lparr>n_expired := n_expired (rr_stats rd) + (length (rr_history rd) - length kept),
                    n_history_evictions := n_history_evictions (rr_stats rd) + n\<rparr>\<rparr>"
  define K where "K = set (map (candidate_key_of \<circ> snd) (filter (\<lambda>(k, v). as_candidate (ve_assignment v) \<noteq> None) h))"
  have eq: "prune rd = (expire_captions low' rd1)\<lparr>rr_confirmed := filter (\<lambda>(key, l). key \<in> K) (rr_confirmed (expire_captions low' rd1))\<rparr>"
    unfolding prune_def Let_def low_def [symmetric] kept_def [symmetric] ev rd1_def K_def by simp
  have at1: "reducer_at (rr_floor rd) rd1"
    using at P(4) dis ok unfolding rd1_def h by (auto simp: reducer_at_def distinct_map_filter)
  note ex = expire_captions_spec [OF at1, of low']
  have se: "rr_config (prune rd) = rr_config rd" "rr_history (prune rd) = h" "rr_floor (prune rd) = low'"
    "rr_confirmed (prune rd) = filter (\<lambda>(key, l). key \<in> K) (rr_confirmed rd)"
    using ex(1) unfolding eq by (simp_all add: same_evidence_def rd1_def)
  show "rr_config (prune rd) = rr_config rd" "rr_floor rd \<le> rr_floor (prune rd)" using se lows by simp_all
  show "reducer_at (rr_floor (prune rd)) (prune rd)"
  proof -
    have "reducer_at low' (expire_captions low' rd1)" using ex(2) lows by (simp add: max_def split: if_splits)
    then have "reducer_at low' (prune rd)" unfolding eq by (simp add: reducer_at_def)
    then show ?thesis by (simp only: se(3))
  qed
  show "decide_caption (prune rd) c = decide_caption rd c" if "rr_floor (prune rd) \<le> cr_start c" for c
  proof -
    have "caption_cells h (filter (\<lambda>(key, l). key \<in> K) (rr_confirmed rd)) c = caption_cells (rr_history rd) (rr_confirmed rd) c"
      unfolding K_def by (rule pruned_cells [OF h gone _ ok]) (use that se(3) in simp)
    then show ?thesis by (simp add: decide_caption_def se)
  qed
  show "map_of (rr_captions (prune rd)) i = Some d \<Longrightarrow>
      map_of (rr_captions rd) i = Some d \<and> map_of (rr_latest (prune rd)) i = map_of (rr_latest rd) i"
    using ex(3) [of i d] unfolding eq by (simp add: rd1_def)
  show "\<exists>P. rr_history (prune rd) = filter P (rr_history rd)
       \<and> (\<forall>p \<in> set (rr_history rd). \<not> P p \<longrightarrow> entry_end p \<le> rr_floor (prune rd))"
    unfolding se using h gone by blast
qed

subsection \<open>Rechecking captions\<close>

lemma put_latest_at:
  assumes "reducer_at l rd" "map_of (rr_captions rd) i = Some c"
  shows "reducer_at l (rd\<lparr>rr_latest := al_put i d (rr_latest rd)\<rparr>)"
proof -
  have "i \<in> fst ` set (rr_captions rd)" using map_of_in_fst [OF assms(2)] by simp
  then show ?thesis using assms(1) distinct_al_put [OF reducer_atD(4) [OF assms(1)]]
    by (simp add: reducer_at_def al_put_image)
qed

definition rechecked :: "ustring set \<Rightarrow> reducer \<Rightarrow> reducer \<Rightarrow> bool" where
  "rechecked I rd rd' \<longleftrightarrow> same_evidence rd rd'
     \<and> (\<forall>i. i \<notin> I \<longrightarrow> map_of (rr_captions rd') i = map_of (rr_captions rd) i) \<and> (\<forall>i d. map_of (rr_captions rd') i = Some d \<longrightarrow>
     map_of (rr_captions rd) i = Some d \<and> (i \<in> I \<longrightarrow> decided rd' i d)
     \<and> (i \<notin> I \<longrightarrow> map_of (rr_latest rd') i = map_of (rr_latest rd) i))"

lemma recheckedD:
  assumes "rechecked I rd rd'"
  shows "same_evidence rd rd'" "i \<notin> I \<Longrightarrow> map_of (rr_captions rd') i = map_of (rr_captions rd) i"
    "map_of (rr_captions rd') i = Some d \<Longrightarrow> map_of (rr_captions rd) i = Some d"
    "map_of (rr_captions rd') i = Some d \<Longrightarrow> i \<in> I \<Longrightarrow> decided rd' i d"
    "map_of (rr_captions rd') i = Some d \<Longrightarrow> i \<notin> I \<Longrightarrow> map_of (rr_latest rd') i = map_of (rr_latest rd) i"
  using assms unfolding rechecked_def by blast+

lemma retire_rechecked: "rechecked {i} rd (retire_caption i cause rd)"
  using retire_evidence [of rd i cause] by (auto simp: rechecked_def retire_fields split: if_splits)

lemma put_rechecked:
  assumes "d = decide_caption rd c \<or> d = (decide_caption rd c)\<lparr>de_reason := ''manual_preserved''\<rparr>" "map_of (rr_captions rd) i = Some c"
  shows "rechecked {i} rd (rd\<lparr>rr_latest := al_put i d (rr_latest rd)\<rparr>)"
proof -
  have dec: "decide_caption (rd\<lparr>rr_latest := m\<rparr>) c = decide_caption rd c" for m by (simp add: decide_caption_def)
  show ?thesis using assms by (auto simp: rechecked_def same_evidence_def decided_def dec)
qed

lemma rechecked_stats [simp]: "rechecked I (rd\<lparr>rr_stats := s\<rparr>) rd' = rechecked I rd rd'"
  "rechecked I rd (rd'\<lparr>rr_stats := s\<rparr>) = rechecked I rd rd'"
  by (simp_all add: rechecked_def same_evidence_def)

lemma patch_caption_spec:
  assumes at: "reducer_at l rd" and c: "map_of (rr_captions rd) (cr_segment c) = Some c"
    and p: "patch_caption uc c rd st = (ans, rd', st')"
  shows "reducer_at l rd' \<and> rechecked {cr_segment c} rd rd'"
proof -
  let ?i = "cr_segment c"
  define r0 where "r0 = rd\<lparr>rr_stats := (rr_stats rd)\<lparr>n_rechecks := n_rechecks (rr_stats rd) + 1\<rparr>\<rparr>"
  have r0: "reducer_at l r0" "map_of (rr_captions r0) ?i = Some c" "decide_caption r0 = decide_caption rd" "rechecked I r0 r = rechecked I rd r" for I r
    using at c by (simp_all add: r0_def)
  have stale: "reducer_at l (retire_caption ?i ''stale'' r0) \<and> rechecked {?i} rd (retire_caption ?i ''stale'' r0)"
    using retire_ok [OF r0(1)] retire_rechecked [of ?i r0] by (simp add: r0(4))
  have put: "reducer_at l (r0\<lparr>rr_latest := al_put ?i d (rr_latest r0)\<rparr>) \<and> rechecked {?i} rd (r0\<lparr>rr_latest := al_put ?i d (rr_latest r0)\<rparr>)"
    if "d = decide_caption rd c \<or> d = (decide_caption rd c)\<lparr>de_reason := ''manual_preserved''\<rparr>" for d
    using put_latest_at [OF r0(1,2)] put_rechecked [OF _ r0(2), of d] that by (simp add: r0(3,4))
  show ?thesis
  proof (cases "lookup_segment ?i st")
    case None
    then show ?thesis using p stale by (auto simp: patch_caption_def Let_def r0_def)
  next
    case (Some s)
    show ?thesis
    proof (cases "caption_stale c (Some s)")
      case True
      then show ?thesis using p Some stale by (auto simp: patch_caption_def Let_def r0_def)
    next
      case False
      note eq = p [unfolded patch_caption_def Let_def r0_def [symmetric] Some option.case if_not_P [OF False] r0(3)]
      show ?thesis
      proof (cases "cs_speaker_manual s")
        case True
        then show ?thesis using eq put [of "(decide_caption rd c)\<lparr>de_reason := ''manual_preserved''\<rparr>"] by auto
      next
        case manual: False
        note pd = put [of "decide_caption rd c"]
        show ?thesis
        proof (cases "cs_speaker s = de_speaker (decide_caption rd c)")
          case True then show ?thesis using eq manual pd by auto
        next
          case False
          then show ?thesis using eq manual pd by (auto split: sum.splits prod.splits if_splits)
        qed
      qed
    qed
  qed
qed

lemma rechecked_trans:
  assumes "rechecked I a b" "rechecked J b c" "I \<inter> J = {}"
  shows "rechecked (I \<union> J) a c"
  unfolding rechecked_def
proof (intro conjI allI impI)
  note ab = recheckedD [OF assms(1)] and bc = recheckedD [OF assms(2)]
  show "same_evidence a c" by (rule same_evidence_trans [OF ab(1) bc(1)])
  show "map_of (rr_captions c) i = map_of (rr_captions a) i" if "i \<notin> I \<union> J" for i
    using ab(2) [of i] bc(2) [of i] that by simp
  fix i d assume h: "map_of (rr_captions c) i = Some d"
  note c = bc(3) [OF h] bc(4,5) [OF h]
  note b = ab(3) [OF c(1)] ab(4,5) [OF c(1)]
  show "map_of (rr_captions a) i = Some d" by (rule b(1))
  show "map_of (rr_latest c) i = map_of (rr_latest a) i" if "i \<notin> I \<union> J" using b(3) c(3) that by simp
  show "decided c i d" if "i \<in> I \<union> J"
  proof (cases "i \<in> J")
    case False
    then have "decided b i d" "map_of (rr_latest c) i = map_of (rr_latest b) i" using that b(2) c(3) by blast+
    then show ?thesis by (simp add: decided_def same_evidence_decide [OF bc(1)])
  qed (rule c(2))
qed

lemma patch_captions_spec:
  "reducer_at l rd \<Longrightarrow> distinct (map cr_segment cs) \<Longrightarrow> \<forall>c \<in> set cs. map_of (rr_captions rd) (cr_segment c) = Some c \<Longrightarrow>
    patch_captions uc cs rd st = (ans, rd', st') \<Longrightarrow>
    reducer_at l rd' \<and> same_evidence rd rd' \<and> (\<forall>ps. ans = Inr ps \<longrightarrow> rechecked (cr_segment ` set cs) rd rd')"
proof (induction cs arbitrary: rd st ans rd' st')
  case Nil
  then show ?case by (simp add: rechecked_def same_evidence_def)
next
  case (Cons c cs)
  obtain a1 r1 s1 where one: "patch_caption uc c rd st = (a1, r1, s1)" by (metis prod_cases3)
  have sp: "reducer_at l r1 \<and> rechecked {cr_segment c} rd r1"
    by (rule patch_caption_spec [OF Cons.prems(1) _ one]) (use Cons.prems(3) in simp)
  show ?case
  proof (cases a1)
    case (Inl e)
    then have "rd' = r1" "ans = Inl e" using Cons.prems(4) one by simp_all
    then show ?thesis using sp recheckedD(1) by blast
  next
    case (Inr ps)
    obtain a2 r2 s2 where two: "patch_captions uc cs r1 s1 = (a2, r2, s2)" by (metis prod_cases3)
    have rest: "\<forall>d \<in> set cs. map_of (rr_captions r1) (cr_segment d) = Some d"
    proof
      fix d assume d: "d \<in> set cs"
      have "cr_segment c \<notin> cr_segment ` set cs" using Cons.prems(2) by simp
      then have "cr_segment d \<noteq> cr_segment c" using imageI [OF d, of cr_segment] by metis
      then show "map_of (rr_captions r1) (cr_segment d) = Some d" using recheckedD(2) [OF conjunct2 [OF sp], of "cr_segment d"] Cons.prems(3) d by simp
    qed
    have ih: "reducer_at l r2 \<and> same_evidence r1 r2 \<and> (\<forall>ps. a2 = Inr ps \<longrightarrow> rechecked (cr_segment ` set cs) r1 r2)"
      by (rule Cons.IH [OF conjunct1 [OF sp] _ rest two]) (use Cons.prems(2) in simp)
    have eq: "rd' = r2" "ans = (case a2 of Inl e \<Rightarrow> Inl e | Inr qs \<Rightarrow> Inr (ps @ qs))"
      using Cons.prems(4) one Inr two by (auto split: sum.splits)
    have "rechecked (cr_segment ` set (c # cs)) rd r2" if an: "ans = Inr qs" for qs
    proof -
      obtain q where "a2 = Inr q" using an eq(2) by (cases a2) simp_all
      then have "rechecked (cr_segment ` set cs) r1 r2" using ih by blast
      from rechecked_trans [OF conjunct2 [OF sp] this] Cons.prems(2) show ?thesis by simp
    qed
    moreover have "same_evidence rd r2" using same_evidence_trans [OF recheckedD(1) [OF conjunct2 [OF sp]]] ih by blast
    ultimately show ?thesis using ih unfolding eq(1) by blast
  qed
qed

subsection \<open>Registration\<close>

lemma put_caption_at:
  assumes at: "reducer_at l rd" and c: "caption_ok l i c"
    and room: "map_of (rr_captions rd) i \<noteq> None \<or> length (rr_captions rd) < mc_max_captions (rr_config rd)"
  shows "reducer_at l (rd\<lparr>rr_captions := al_put i c (rr_captions rd)\<rparr>)"
proof -
  note d = reducer_atD [OF at]
  have "length (al_put i c (rr_captions rd)) \<le> mc_max_captions (rr_config rd)"
    using length_al_put_le [of i c "rr_captions rd"] room d(6) by (auto split: if_splits)
  moreover have "fst ` set (rr_latest rd) \<subseteq> fst ` set (al_put i c (rr_captions rd))" using d(9) by (auto simp: al_put_image)
  moreover have "\<forall>j e. map_of (al_put i c (rr_captions rd)) j = Some e \<longrightarrow> caption_ok l j e" using d(8) c by auto
  ultimately show ?thesis using d(1-5,7) distinct_al_put [OF d(3)] by (simp add: reducer_at_def)
qed

lemma length_al_del_less': "k \<in> fst ` set m \<Longrightarrow> length (al_del k m) < length m"
  by (auto simp: al_del_def intro!: length_filter_less)

lemma oldest_caption_in: "cs \<noteq> [] \<Longrightarrow> oldest_caption cs \<in> fst ` set cs"
proof -
  assume "cs \<noteq> []"
  then have "sort_key (\<lambda>p. cr_end (snd p)) cs \<noteq> []" by (metis length_0_conv length_sort)
  then have "hd (sort_key (\<lambda>p. cr_end (snd p)) cs) \<in> set cs" using hd_in_set [of "sort_key (\<lambda>p. cr_end (snd p)) cs"] by simp
  then show ?thesis by (simp add: oldest_caption_def)
qed

text \<open>What a step leaves of the other captions.\<close>

definition others_kept :: "ustring \<Rightarrow> reducer \<Rightarrow> reducer \<Rightarrow> bool" where
  "others_kept i rd rd' \<longleftrightarrow> same_evidence rd rd' \<and> (\<forall>j d. j \<noteq> i \<longrightarrow> map_of (rr_captions rd') j = Some d \<longrightarrow>
     map_of (rr_captions rd) j = Some d \<and> map_of (rr_latest rd') j = map_of (rr_latest rd) j)"

lemma others_kept_trans: "others_kept i a b \<Longrightarrow> others_kept i b c \<Longrightarrow> others_kept i a c"
  unfolding others_kept_def using same_evidence_trans [of a b c] by simp

lemma others_kept_refl: "others_kept i rd rd" by (simp add: others_kept_def same_evidence_def)

lemma retire_others: "others_kept i rd (retire_caption k cause rd)"
  using retire_evidence [of rd k cause] by (auto simp: others_kept_def retire_fields split: if_splits)

lemma keep_caption_spec:
  assumes at: "reducer_at l rd" and c: "caption_ok l (cr_segment c) c"
  shows "reducer_at l (keep_caption c rd)" "others_kept (cr_segment c) rd (keep_caption c rd)"
    "map_of (rr_captions (keep_caption c rd)) (cr_segment c) = Some c"
proof -
  let ?i = "cr_segment c"
  define ev where "ev \<longleftrightarrow> map_of (rr_captions rd) ?i = None \<and> mc_max_captions (rr_config rd) \<le> length (rr_captions rd)"
  define r where "r = retire_caption (oldest_caption (rr_captions rd)) ''capacity'' rd"
  define rd1 where "rd1 = (if ev then r\<lparr>rr_stats := (rr_stats r)\<lparr>n_caption_evictions := n_caption_evictions (rr_stats r) + 1\<rparr>\<rparr> else rd)"
  define rd2 where "rd2 = (if map_of (rr_captions rd1) ?i \<noteq> None \<and> map_of (rr_captions rd1) ?i \<noteq> Some c
      then retire_caption ?i ''source_replaced'' rd1 else rd1)"
  have eq: "keep_caption c rd = rd2\<lparr>rr_captions := al_put ?i c (rr_captions rd2)\<rparr>"
    unfolding keep_caption_def Let_def rd2_def rd1_def r_def ev_def by (rule refl)
  have r: "reducer_at l r" "others_kept ?i rd r" unfolding r_def by (rule retire_ok [OF at], rule retire_others)
  have st: "others_kept ?i rd (r\<lparr>rr_stats := s\<rparr>)" for s using r(2) by (simp add: others_kept_def)
  have one: "reducer_at l rd1" "others_kept ?i rd rd1" using r st at others_kept_refl by (simp_all add: rd1_def)
  have room1: "map_of (rr_captions rd1) ?i \<noteq> None \<or> length (rr_captions rd1) < mc_max_captions (rr_config rd1)"
  proof (cases ev)
    case True
    have "1 \<le> mc_max_captions (rr_config rd)" using reducer_atD(1) [OF at] by (simp add: mapping_config_ok_def)
    then have "rr_captions rd \<noteq> []" using True by (auto simp: ev_def)
    from length_al_del_less' [OF oldest_caption_in [OF this]] have "length (rr_captions r) < length (rr_captions rd)"
      by (simp add: r_def retire_fields)
    moreover have "rr_config rd1 = rr_config rd" using one(2) by (simp add: others_kept_def same_evidence_def)
    ultimately show ?thesis using True reducer_atD(6) [OF at] by (simp add: rd1_def)
  next
    case False then show ?thesis by (auto simp: rd1_def ev_def)
  qed
  have two: "reducer_at l rd2" "others_kept ?i rd1 rd2"
    using one(1) retire_ok [OF one(1)] retire_others others_kept_refl by (simp_all add: rd2_def)
  have cfg: "rr_config rd2 = rr_config rd1" using two(2) by (simp add: others_kept_def same_evidence_def)
  have room2: "map_of (rr_captions rd2) ?i \<noteq> None \<or> length (rr_captions rd2) < mc_max_captions (rr_config rd2)"
  proof (cases "map_of (rr_captions rd1) ?i \<noteq> None \<and> map_of (rr_captions rd1) ?i \<noteq> Some c")
    case True
    then obtain e where "map_of (rr_captions rd1) ?i = Some e" by auto
    then have "?i \<in> fst ` set (rr_captions rd1)" using map_of_in_fst [of "rr_captions rd1" ?i e] by simp
    from length_al_del_less' [OF this] True reducer_atD(6) [OF one(1)] cfg show ?thesis
      by (simp add: rd2_def retire_fields del: map_of_eq_None_iff)
  next
    case False
    then have "rd2 = rd1" unfolding rd2_def by (simp only: if_False)
    then show ?thesis using room1 by simp
  qed
  show "reducer_at l (keep_caption c rd)" unfolding eq by (rule put_caption_at [OF two(1) c room2])
  have "others_kept ?i rd2 (rd2\<lparr>rr_captions := al_put ?i c (rr_captions rd2)\<rparr>)" by (simp add: others_kept_def same_evidence_def)
  from others_kept_trans [OF others_kept_trans [OF one(2) two(2)] this] show "others_kept ?i rd (keep_caption c rd)" unfolding eq .
  show "map_of (rr_captions (keep_caption c rd)) ?i = Some c" unfolding eq by simp
qed

subsection \<open>The operations keep the invariant\<close>

definition reducer_ok :: "reducer \<Rightarrow> bool" where
  "reducer_ok rd \<longleftrightarrow> reducer_at (rr_floor rd) rd \<and> all_decided rd"

lemma decided_same: "same_evidence rd rd' \<Longrightarrow> map_of (rr_latest rd') i = map_of (rr_latest rd) i \<Longrightarrow> decided rd' i c = decided rd i c"
  by (simp add: decided_def same_evidence_decide)

lemma prune_ok:
  assumes at: "reducer_at (rr_floor rd) rd" and dec: "all_decided rd"
  shows "reducer_ok (prune rd)" "rr_floor rd \<le> rr_floor (prune rd)"
proof -
  note d = reducer_atD [OF at]
  have "reducer_at (rr_floor rd) (rd\<lparr>rr_history := []\<rparr>)" using at by (simp add: reducer_at_def)
  note p = prune_spec [OF this d(2)]
  have ok: "\<forall>p \<in> set (rr_history rd). entry_ok p" using d(7) by blast
  note p = p [OF ok]
  show "rr_floor rd \<le> rr_floor (prune rd)" by (rule p(2))
  have "decided (prune rd) i c" if h: "map_of (rr_captions (prune rd)) i = Some c" for i c
  proof -
    have "rr_floor (prune rd) \<le> cr_start c" using reducer_atD(8) [OF p(1) h] by (simp add: caption_ok_def)
    from p(4) [OF this] have "decide_caption (prune rd) c = decide_caption rd c" .
    moreover have "decided rd i c" using dec p(5) [OF h] by (simp add: all_decided_def)
    ultimately show ?thesis using p(5) [OF h] by (simp add: decided_def)
  qed
  then show "reducer_ok (prune rd)" using p(1) by (simp add: reducer_ok_def all_decided_def)
qed

lemma clock_neutral: "reducer_at l (rd\<lparr>rr_watermark := t\<rparr>) = reducer_at l rd" "all_decided (rd\<lparr>rr_watermark := t\<rparr>) = all_decided rd"
  by (simp_all add: reducer_at_def all_decided_def decided_def decide_caption_def)

lemma expire_mapping_ok: "reducer_ok rd \<Longrightarrow> expire_mapping now rd = Inr rd' \<Longrightarrow> reducer_ok rd'"
  using prune_ok(1) [of "rd\<lparr>rr_watermark := now\<rparr>"]
  by (simp add: expire_mapping_def reducer_ok_def [of rd] clock_neutral split: if_splits)

lemma stats_ok [simp]: "reducer_ok (rd\<lparr>rr_stats := s\<rparr>) = reducer_ok rd"
  by (simp add: reducer_ok_def)

lemma register_caption_ok:
  assumes ok: "reducer_ok rd" and r: "register_caption uc c rd st = (Inr ps, rd', st')"
  shows "reducer_ok rd'"
proof -
  obtain u where chk: "registration_error uc c rd st = Inr u" using r by (cases "registration_error uc c rd st") (simp_all add: register_caption_def)
  have se: "cr_start c < cr_end c" using chk by (auto simp: registration_error_def res_bind_eq_Inr split: if_splits)
  define rd1 where "rd1 = prune (rd\<lparr>rr_watermark := max (rr_watermark rd) (cr_end c)\<rparr>)"
  have ok1: "reducer_ok rd1" unfolding rd1_def by (rule prune_ok) (use ok in \<open>simp_all add: reducer_ok_def clock_neutral\<close>)
  note eq = r [unfolded register_caption_def chk sum.case Let_def rd1_def [symmetric]]
  show ?thesis
  proof (cases "cr_start c < rr_floor rd1")
    case True
    then have "rd' = rd1\<lparr>rr_stats := (rr_stats rd1)\<lparr>n_expired_captions := n_expired_captions (rr_stats rd1) + 1\<rparr>\<rparr>"
      using eq by auto
    then show ?thesis using ok1 by simp
  next
    case False
    let ?k = "keep_caption c rd1"
    have at1: "reducer_at (rr_floor rd1) rd1" and dec1: "all_decided rd1" using ok1 by (simp_all add: reducer_ok_def)
    have "caption_ok (rr_floor rd1) (cr_segment c) c" using False se by (simp add: caption_ok_def)
    note k = keep_caption_spec [OF at1 this]
    have p: "patch_captions uc [c] ?k st = (Inr ps, rd', st')" using eq False by simp
    have sp: "reducer_at (rr_floor rd1) rd' \<and> same_evidence ?k rd' \<and> (\<forall>qs. Inr ps = (Inr qs :: speaker_patch list res) \<longrightarrow>
        rechecked (cr_segment ` set [c]) ?k rd')"
      by (rule patch_captions_spec [OF k(1) _ _ p]) (use k(3) in simp_all)
    then have rc: "rechecked {cr_segment c} ?k rd'" by simp
    have ev: "same_evidence rd1 rd'" using k(2) sp same_evidence_trans unfolding others_kept_def by blast
    have "decided rd' i d" if h: "map_of (rr_captions rd') i = Some d" for i d
    proof (cases "i = cr_segment c")
      case True then show ?thesis using recheckedD(4) [OF rc h] by simp
    next
      case ne: False
      note kd = recheckedD(3) [OF rc h] recheckedD(5) [OF rc h]
      have o: "map_of (rr_captions rd1) i = Some d" "map_of (rr_latest ?k) i = map_of (rr_latest rd1) i"
        using k(2) kd(1) ne unfolding others_kept_def by blast+
      have "map_of (rr_latest rd') i = map_of (rr_latest rd1) i" using kd(2) ne o(2) by simp
      from decided_same [OF ev this] show ?thesis using dec1 o(1) by (simp add: all_decided_def)
    qed
    moreover have "rr_floor rd' = rr_floor rd1" using ev by (simp add: same_evidence_def)
    ultimately show ?thesis using sp by (simp add: reducer_ok_def all_decided_def)
  qed
qed

subsection \<open>New evidence changes only the captions it meets\<close>

lemma admit_fields:
  fixes a epoch rd
  defines "ad \<equiv> admit_assignment a epoch rd"
  shows "rr_config ad = rr_config rd" "rr_captions ad = rr_captions rd" "rr_latest ad = rr_latest rd" "rr_floor ad = rr_floor rd"
    "rr_history ad = al_put (as_track a, epoch, as_sample a) \<lparr>ve_assignment = a, ve_epoch = epoch\<rparr> (rr_history rd)"
    "rr_confirmed ad = (if as_status a = NewSpeaker
       then al_put (as_track a, epoch, as_candidate a) (the (as_speaker a)) (rr_confirmed rd) else rr_confirmed rd)"
  by (simp_all add: ad_def admit_assignment_def Let_def)

lemma affected_proper: "\<forall>p \<in> set (affected_intervals a epoch rd). fst p < snd p"
  by (auto simp: affected_intervals_def dest: support_of_proper split: if_splits)

lemma affected_supports:
  "set (support_of a) \<subseteq> set (affected_intervals a epoch rd)"
  "as_status a = NewSpeaker \<Longrightarrow> p \<in> set (rr_history rd) \<Longrightarrow> as_status (ve_assignment (snd p)) = ProvisionalSpeaker \<Longrightarrow>
     candidate_key_of (snd p) = (as_track a, epoch, as_candidate a) \<Longrightarrow>
     set (support_of (ve_assignment (snd p))) \<subseteq> set (affected_intervals a epoch rd)"
proof -
  show "set (support_of a) \<subseteq> set (affected_intervals a epoch rd)" by (simp add: affected_intervals_def)
  assume h: "as_status a = NewSpeaker" "p \<in> set (rr_history rd)" "as_status (ve_assignment (snd p)) = ProvisionalSpeaker"
    "candidate_key_of (snd p) = (as_track a, epoch, as_candidate a)"
  let ?f = "filter (\<lambda>(k, v). as_status (ve_assignment v) = ProvisionalSpeaker
      \<and> candidate_key_of v = (as_track a, epoch, as_candidate a)) (rr_history rd)"
  have "p \<in> set ?f" using h by (simp add: case_prod_beta)
  then have "support_of (ve_assignment (snd p)) \<in> set (map (\<lambda>(k, v). support_of (ve_assignment v)) ?f)"
    by (force simp: case_prod_beta)
  then show "set (support_of (ve_assignment (snd p))) \<subseteq> set (affected_intervals a epoch rd)"
    using h(1) unfolding affected_intervals_def by (auto simp del: set_map set_filter)
qed

lemma unaffected_decision:
  assumes c: "cr_start c < cr_end c" "rr_floor rd1 \<le> cr_start c"
    and fresh: "map_of (rr_history rd) (as_track a, epoch, as_sample a) = None"
    and kept: "\<And>p. p \<in> set (rr_history rd) \<Longrightarrow> p \<notin> set (rr_history rd1) \<Longrightarrow> entry_end p \<le> rr_floor rd1"
    and un: "\<not> (cr_track c = as_track a \<and> cr_epoch c = epoch
      \<and> \<not> interval_free (join_intervals (affected_intervals a epoch rd1)) (cr_start c, cr_end c))"
  shows "decide_caption (admit_assignment a epoch rd) c = decide_caption rd c"
proof -
  let ?ad = "admit_assignment a epoch rd"
  let ?new = "((as_track a, epoch, as_sample a), \<lparr>ve_assignment = a, ve_epoch = epoch\<rparr>)"
  let ?cf = "rr_confirmed rd" and ?cf' = "rr_confirmed ?ad"
  have hist: "rr_history ?ad = rr_history rd @ [?new]"
  proof -
    have "al_put k v m = m @ [(k, v)]" if "map_of m k = None" for k v and m :: "(voice_key \<times> voice_entry) list"
      using that by (induction m) (auto split: if_splits)
    then show ?thesis using fresh by (simp add: admit_fields)
  qed
  have free: "interval_free (join_intervals (affected_intervals a epoch rd1)) (cr_start c, cr_end c)"
    if "cr_track c = as_track a" "cr_epoch c = epoch" using un that by simp
  note clip = unaffected_clip [OF free c(1) affected_proper]
  have new: "entry_cells ?cf' c ?new = []"
  proof (cases "cr_track c = as_track a \<and> cr_epoch c = epoch")
    case True
    then have "clip_to c (support_of a) = []" by (intro clip affected_supports) simp_all
    then show ?thesis by (simp add: entry_cells_def)
  next
    case False then show ?thesis by (auto simp: entry_cells_def)
  qed
  have old: "entry_cells ?cf' c p = entry_cells ?cf c p" if p: "p \<in> set (rr_history rd)" for p
  proof (cases "as_status (ve_assignment (snd p)) = ProvisionalSpeaker \<and> as_status a = NewSpeaker
      \<and> candidate_key_of (snd p) = (as_track a, epoch, as_candidate a)")
    case False
    then have "map_of ?cf' (candidate_key_of (snd p)) = map_of ?cf (candidate_key_of (snd p))"
      if "as_status (ve_assignment (snd p)) = ProvisionalSpeaker" using that by (auto simp: admit_fields)
    from entry_kind_cong [OF this] show ?thesis by (simp add: entry_cells_def)
  next
    case True
    have key: "as_track (ve_assignment (snd p)) = as_track a" "ve_epoch (snd p) = epoch"
      using True by (simp_all add: candidate_key_of_def)
    show ?thesis
    proof (cases "cr_track c = as_track a \<and> cr_epoch c = epoch")
      case same: True
      show ?thesis
      proof (cases "p \<in> set (rr_history rd1)")
        case True': True
        have "set (support_of (ve_assignment (snd p))) \<subseteq> set (affected_intervals a epoch rd1)"
          by (rule affected_supports(2)) (use True True' in simp_all)
        from clip [OF _ _ this] same have "clip_to c (support_of (ve_assignment (snd p))) = []" by simp
        then show ?thesis by (simp add: entry_cells_def)
      next
        case False
        from kept [OF p this] c(2) have "entry_end p \<le> cr_start c" by simp
        then show ?thesis by (simp add: entry_cells_expired)
      qed
    next
      case False
      then show ?thesis using key by (auto simp: entry_cells_def)
    qed
  qed
  have "map (entry_cells ?cf' c) (rr_history rd) = map (entry_cells ?cf c) (rr_history rd)" using old by simp
  then have "caption_cells (rr_history ?ad) ?cf' c = caption_cells (rr_history rd) ?cf c"
    unfolding caption_cells_entries hist using new by (simp del: map_eq_conv)
  then show ?thesis by (simp add: decide_caption_def admit_fields)
qed

lemma observe_assignment_ok:
  assumes ok: "reducer_ok rd" and r: "observe_assignment uc a epoch rd st = (Inr ps, rd', st')"
  shows "reducer_ok rd'"
proof -
  have at: "reducer_at (rr_floor rd) rd" and dec: "all_decided rd" using ok by (simp_all add: reducer_ok_def)
  note d = reducer_atD [OF at]
  obtain u where val: "validate_assignment uc a epoch = Inr u"
    using r by (cases "validate_assignment uc a epoch") (simp_all add: observe_assignment_def)
  have prov: "as_status a = ProvisionalSpeaker \<longrightarrow> as_candidate a \<noteq> None"
    using val by (auto simp: validate_assignment_def res_bind_eq_Inr split: if_splits)
  let ?key = "(as_track a, epoch, as_sample a)"
  define ad where "ad = admit_assignment a epoch rd"
  define rd1 where "rd1 = prune ad"
  consider (same) s where "rd' = rd\<lparr>rr_stats := s\<rparr>"
    | (new) "map_of (rr_history rd) ?key = None" "patch_captions uc (affected_captions a epoch rd1) rd1 st = (Inr ps, rd', st')"
    using r val by (auto simp: observe_assignment_def Let_def ad_def rd1_def split: if_splits option.splits)
  then show ?thesis
  proof cases
    case same then show ?thesis using ok by simp
  next
    case new
    note ad = admit_fields [of a epoch rd, folded ad_def]
    have ad_at: "reducer_at (rr_floor ad) (ad\<lparr>rr_history := []\<rparr>)" using at by (simp add: reducer_at_def ad)
    have ad_dis: "distinct (map fst (rr_history ad))" using distinct_al_put [OF d(2)] by (simp add: ad)
    have al: "p \<in> set (al_put k v m) \<Longrightarrow> p = (k, v) \<or> p \<in> set m" for p k v and m :: "(voice_key \<times> voice_entry) list"
      by (induction k v m rule: al_put.induct) (auto split: if_splits)
    have ad_ent: "\<forall>p \<in> set (rr_history ad). entry_ok p"
    proof
      fix p assume "p \<in> set (rr_history ad)"
      then have "p = (?key, \<lparr>ve_assignment = a, ve_epoch = epoch\<rparr>) \<or> p \<in> set (rr_history rd)" using al by (simp add: ad)
      then show "entry_ok p"
      proof
        assume "p \<in> set (rr_history rd)"
        then show ?thesis by (rule d(7))
      qed (use prov in \<open>simp add: entry_ok_def\<close>)
    qed
    note p = prune_spec [OF ad_at ad_dis ad_ent, folded rd1_def]
    have caps: "caption_ok (rr_floor rd1) i c" if "map_of (rr_captions rd1) i = Some c" for i c
      by (rule reducer_atD(8) [OF p(1) that])
    have gone: "entry_end q \<le> rr_floor rd1" if "q \<in> set (rr_history rd)" "q \<notin> set (rr_history rd1)" for q
    proof -
      have "set (rr_history rd) \<subseteq> set (al_put ?key \<lparr>ve_assignment = a, ve_epoch = epoch\<rparr> (rr_history rd))"
      proof -
        have "set m \<subseteq> set (al_put k v m)" if "map_of m k = None" for k v and m :: "(voice_key \<times> voice_entry) list"
          using that by (induction m) (auto split: if_splits)
        then show ?thesis using new(1) by blast
      qed
      then have "q \<in> set (rr_history ad)" using that(1) by (auto simp: ad)
      then show ?thesis using p(6) that(2) by auto
    qed
    let ?refs = "affected_captions a epoch rd1"
    have segs: "map cr_segment (map snd (rr_captions rd1)) = map fst (rr_captions rd1)"
      using caps map_of_is_SomeI [OF reducer_atD(3) [OF p(1)]] by (auto simp: caption_ok_def)
    have dref: "distinct (map cr_segment ?refs)"
    proof -
      have "distinct (map cr_segment (map snd (rr_captions rd1)))" unfolding segs by (rule reducer_atD(3) [OF p(1)])
      then show ?thesis unfolding affected_captions_def Let_def by (rule distinct_map_filter)
    qed
    have mref: "\<forall>c \<in> set ?refs. map_of (rr_captions rd1) (cr_segment c) = Some c"
    proof
      fix c assume "c \<in> set ?refs"
      then obtain i where "(i, c) \<in> set (rr_captions rd1)" by (auto simp: affected_captions_def Let_def)
      then have m: "map_of (rr_captions rd1) i = Some c" by (rule map_of_is_SomeI [OF reducer_atD(3) [OF p(1)]])
      then show "map_of (rr_captions rd1) (cr_segment c) = Some c" using caps [OF m] by (simp add: caption_ok_def)
    qed
    from patch_captions_spec [OF p(1) dref mref new(2)]
    have at': "reducer_at (rr_floor rd1) rd'" and rc: "rechecked (cr_segment ` set ?refs) rd1 rd'" by blast+
    have ev: "same_evidence rd1 rd'" by (rule recheckedD(1) [OF rc])
    have "decided rd' i c" if h: "map_of (rr_captions rd') i = Some c" for i c
    proof (cases "i \<in> cr_segment ` set ?refs")
      case True then show ?thesis by (rule recheckedD(4) [OF rc h])
    next
      case False
      have m1: "map_of (rr_captions rd1) i = Some c" by (rule recheckedD(3) [OF rc h])
      have co: "cr_segment c = i" "cr_start c < cr_end c" "rr_floor rd1 \<le> cr_start c" using caps [OF m1] by (simp_all add: caption_ok_def)
      have "c \<notin> set ?refs" using False co(1) by blast
      moreover have "c \<in> set (map snd (rr_captions rd1))" using map_of_SomeD [OF m1] by force
      ultimately have un: "\<not> (cr_track c = as_track a \<and> cr_epoch c = epoch
        \<and> \<not> interval_free (join_intervals (affected_intervals a epoch rd1)) (cr_start c, cr_end c))"
        by (simp add: affected_captions_def Let_def)
      have "decide_caption ad c = decide_caption rd c"
        unfolding ad_def by (rule unaffected_decision [OF co(2,3) new(1) gone un])
      then have "decide_caption rd' c = decide_caption rd c" using same_evidence_decide [OF ev] p(4) [OF co(3)] by simp
      moreover have "map_of (rr_captions rd) i = Some c" "map_of (rr_latest rd') i = map_of (rr_latest rd) i"
        using p(5) [OF m1] recheckedD(5) [OF rc h False] by (simp_all add: ad)
      ultimately show ?thesis using dec unfolding all_decided_def decided_def by metis
    qed
    moreover have "rr_floor rd' = rr_floor rd1" using ev by (simp add: same_evidence_def)
    ultimately show ?thesis using at' by (simp add: reducer_ok_def all_decided_def)
  qed
qed

lemma new_reducer_ok: "mapping_config_ok cfg \<Longrightarrow> reducer_ok (new_reducer cfg)"
  by (simp add: reducer_ok_def reducer_at_def all_decided_def new_reducer_def)

end
