(* ===== verification/SpeakerMapProps.thy ===== *)
theory SpeakerMapProps
  imports SpeakerMapInv CaptionProps
begin

text \<open>
  Properties of the mapping of speakers onto captions: a decision counts nanoseconds, a name needs undisputed dominant
  evidence, the remembered decisions are current in every run, and a call changes nothing but automatic speaker labels.
\<close>

subsection \<open>Runs\<close>

text \<open>Calls of the reducer between calls of the store by others; a call that raises after it changed something ends the run.\<close>

datatype mapping_op = MapExpire int | MapRegister caption_ref | MapObserve assignment ustring | MapStore store_op

definition mapped_state :: "reducer \<Rightarrow> mapped \<Rightarrow> (reducer \<times> caption_store) res" where
  "mapped_state rd m = (case m of (Inl e, rd', st') \<Rightarrow> if rd' = rd then Inr (rd', st') else Inl e | (Inr ps, rd', st') \<Rightarrow> Inr (rd', st'))"

fun mapping_step :: "unidb \<Rightarrow> mapping_op \<Rightarrow> reducer \<times> caption_store \<Rightarrow> (reducer \<times> caption_store) res" where
  "mapping_step uc (MapExpire now) (rd, st) = Inr ((case expire_mapping now rd of Inl e \<Rightarrow> rd | Inr rd' \<Rightarrow> rd'), st)"
| "mapping_step uc (MapRegister c) (rd, st) = mapped_state rd (register_caption uc c rd st)"
| "mapping_step uc (MapObserve a epoch) (rd, st) = mapped_state rd (observe_assignment uc a epoch rd st)"
| "mapping_step uc (MapStore op) (rd, st) = Inr (rd, store_call uc op st)"

fun mapping_run :: "unidb \<Rightarrow> mapping_op list \<Rightarrow> reducer \<times> caption_store \<Rightarrow> (reducer \<times> caption_store) res" where
  "mapping_run uc [] s = Inr s"
| "mapping_run uc (op # ops) s = res_bind (mapping_step uc op s) (mapping_run uc ops)"

lemma mapped_state_ok:
  assumes "mapped_state rd (ans, rd', st') = Inr (rd1, st1)" "reducer_ok rd" "\<And>ps. ans = Inr ps \<Longrightarrow> reducer_ok rd'"
  shows "reducer_ok rd1"
  using assms by (auto simp: mapped_state_def split: sum.splits if_splits)

lemma mapping_step_ok:
  assumes st: "mapping_step uc op (rd, st) = Inr (rd', st')" and ok: "reducer_ok rd"
  shows "reducer_ok rd'"
proof (cases op)
  case (MapExpire now)
  then show ?thesis using st ok expire_mapping_ok [OF ok] by (auto split: sum.splits)
next
  case (MapRegister c)
  obtain a r s where one: "register_caption uc c rd st = (a, r, s)" by (metis prod_cases3)
  show ?thesis
    by (rule mapped_state_ok [OF _ ok]) (use st MapRegister one register_caption_ok [OF ok] in auto)
next
  case (MapObserve x epoch)
  obtain a r s where one: "observe_assignment uc x epoch rd st = (a, r, s)" by (metis prod_cases3)
  show ?thesis
    by (rule mapped_state_ok [OF _ ok]) (use st MapObserve one observe_assignment_ok [OF ok] in auto)
next
  case (MapStore sop) then show ?thesis using st ok by simp
qed

lemma mapping_run_ok: "mapping_run uc ops (rd, st) = Inr (rd', st') \<Longrightarrow> reducer_ok rd \<Longrightarrow> reducer_ok rd'"
proof (induction ops arbitrary: rd st)
  case (Cons op ops)
  from Cons.prems(1) obtain r s where one: "mapping_step uc op (rd, st) = Inr (r, s)" "mapping_run uc ops (r, s) = Inr (rd', st')"
    by (auto simp: res_bind_eq_Inr)
  from Cons.IH [OF one(2) mapping_step_ok [OF one(1) Cons.prems(2)]] show ?case .
qed simp

subsection \<open>What a call does to the store\<close>

definition relabelled :: "caption_segment \<Rightarrow> caption_segment \<Rightarrow> bool" where
  "relabelled s s' \<longleftrightarrow> s' = s\<lparr>cs_speaker := cs_speaker s', cs_speaker_revision := cs_speaker_revision s'\<rparr>
     \<and> cs_speaker_revision s \<le> cs_speaker_revision s' \<and> (cs_speaker_manual s \<longrightarrow> cs_speaker s' = cs_speaker s)"

lemma relabelled_refl: "relabelled s s"
  by (simp add: relabelled_def)

lemma relabelled_trans: "relabelled a b \<Longrightarrow> relabelled b c \<Longrightarrow> relabelled a c"
  by (cases a; cases b; cases c) (simp add: relabelled_def)

definition speakers_only :: "caption_store \<Rightarrow> caption_store \<Rightarrow> bool" where
  "speakers_only st st' \<longleftrightarrow> (\<forall>i. rel_option relabelled (map_of (st_segments st) i) (map_of (st_segments st') i))"

lemma speakers_only_refl: "speakers_only st st"
  by (auto simp: speakers_only_def intro: option.rel_refl relabelled_refl)

lemma speakers_only_trans: "speakers_only a b \<Longrightarrow> speakers_only b c \<Longrightarrow> speakers_only a c"
  unfolding speakers_only_def
proof
  fix i assume ab: "\<forall>i. rel_option relabelled (map_of (st_segments a) i) (map_of (st_segments b) i)"
    and bc: "\<forall>i. rel_option relabelled (map_of (st_segments b) i) (map_of (st_segments c) i)"
  from ab [rule_format, of i] bc [rule_format, of i]
  show "rel_option relabelled (map_of (st_segments a) i) (map_of (st_segments c) i)"
    by (auto simp: option_rel_Some1 option_rel_Some2 rel_option_iff intro: relabelled_trans split: option.splits)
qed

lemma update_speaker_only:
  assumes inv: "store_inv st" and up: "update_speaker uc i sp r basis False st = Inr (ok, st')"
  shows "speakers_only st st'"
proof (cases "lookup_segment i st")
  case None
  then have "st' = st" using up by (auto simp: update_speaker_def split: if_splits)
  then show ?thesis by (simp add: speakers_only_refl)
next
  case (Some cur)
  let ?refused = "cs_superseded_by cur \<noteq> [] \<or> r \<le> cs_speaker_revision cur \<or> cs_speaker_manual cur
     \<or> (case basis of None \<Rightarrow> False | Some r \<Rightarrow> r \<noteq> cs_revision cur)"
  show ?thesis
  proof (cases ?refused)
    case True
    then have "st' = st" using up Some by (auto simp: update_speaker_def split: if_splits)
    then show ?thesis by (simp add: speakers_only_refl)
  next
    case False
    let ?s = "cur\<lparr>cs_speaker := sp, cs_speaker_revision := r, cs_speaker_manual := False\<rparr>"
    from up Some False obtain s st1 where s: "build_segment uc ?s = Inr s" "put_segment uc s st = Inr st1"
      "st_segments st' = st_segments st1" by (auto simp: update_speaker_def res_bind_eq_Inr split: if_splits)
    have sx: "s = cur\<lparr>cs_speaker := sp, cs_speaker_revision := r\<rparr>" using build_segment_same [OF s(1)] False by simp
    have id: "cs_id s = i" using lookup_id [OF _ Some] inv by (simp add: sx store_inv_def)
    show ?thesis
    proof (cases "map_of (st_held_children st) i")
      case None
      then have seg: "st_segments st' = al_put i s (st_segments st)" "map_of (st_segments st) i = Some cur"
        using s(2,3) id Some by (auto simp: put_segment_def lookup_segment_def)
      have "relabelled cur s" using False sx by (simp add: relabelled_def)
      then show ?thesis using seg by (auto simp: speakers_only_def intro: option.rel_refl relabelled_refl)
    next
      case (Some gid)
      then have "st_segments st' = st_segments st" using s(2,3) id by (auto simp: put_segment_def res_bind_eq_Inr split: option.splits)
      then show ?thesis using speakers_only_refl [of st] by (simp add: speakers_only_def)
    qed
  qed
qed

definition label_step :: "caption_store \<Rightarrow> caption_store \<Rightarrow> bool" where
  "label_step st st' \<longleftrightarrow> store_inv st' \<and> speakers_only st st'"

lemma patch_caption_label:
  assumes inv: "store_inv st" and p: "patch_caption uc c rd st = (ans, rd', st')"
  shows "label_step st st'"
proof -
  have "st' = st \<or> (\<exists>sp r b ok. update_speaker uc (cr_segment c) sp r b False st = Inr (ok, st'))"
    using p by (auto simp: patch_caption_def Let_def split: option.splits if_splits sum.splits prod.splits)
  then show ?thesis
  proof
    assume "st' = st" then show ?thesis using inv speakers_only_refl by (simp add: label_step_def)
  next
    assume "\<exists>sp r b ok. update_speaker uc (cr_segment c) sp r b False st = Inr (ok, st')"
    then obtain sp r b ok where u: "update_speaker uc (cr_segment c) sp r b False st = Inr (ok, st')" by blast
    show ?thesis using update_speaker_only [OF inv u] update_speaker_good [OF inv u] by (simp add: label_step_def good_change_def)
  qed
qed

lemma patch_captions_label: "store_inv st \<Longrightarrow> patch_captions uc cs rd st = (ans, rd', st') \<Longrightarrow> label_step st st'"
proof (induction cs arbitrary: rd st ans rd' st')
  case Nil then show ?case by (simp add: label_step_def speakers_only_refl)
next
  case (Cons c cs)
  obtain a1 r1 s1 where one: "patch_caption uc c rd st = (a1, r1, s1)" by (metis prod_cases3)
  have l1: "label_step st s1" by (rule patch_caption_label [OF Cons.prems(1) one])
  obtain a2 r2 s2 where two: "patch_captions uc cs r1 s1 = (a2, r2, s2)" by (metis prod_cases3)
  have l2: "label_step s1 s2" by (rule Cons.IH [OF _ two]) (use l1 in \<open>simp add: label_step_def\<close>)
  have "st' = s1 \<or> st' = s2" using Cons.prems(2) one two by (auto split: sum.splits)
  then show ?case using l1 l2 speakers_only_trans unfolding label_step_def by blast
qed

subsection \<open>The configuration is fixed\<close>

lemma prune_config: "rr_config (prune rd) = rr_config rd"
proof -
  define low where "low = max (max (rr_floor rd) (rr_watermark rd - mc_history_ns (rr_config rd))) 0"
  define kept where "kept = filter (\<lambda>p. \<not> entry_end p \<le> low) (rr_history rd)"
  obtain h low' n where ev: "evict_history (mc_max_history (rr_config rd)) low kept = (h, low', n)" by (metis prod_cases3)
  have ex: "rr_config (expire_captions low r) = rr_config r" for low r
    using expire_fold [of r low "rr_captions r" 0, folded expire_captions_def] by (simp add: same_evidence_def)
  show ?thesis
    unfolding prune_def Let_def low_def [symmetric] kept_def [symmetric] ev by (simp add: ex)
qed

lemma retire_config [simp]: "rr_config (retire_caption i cause rd) = rr_config rd"
  using retire_evidence [of rd i cause] by (simp add: same_evidence_def)

lemma patch_caption_config: "patch_caption uc c rd st = (ans, rd', st') \<Longrightarrow> rr_config rd' = rr_config rd"
  by (auto simp: patch_caption_def Let_def split: option.splits if_splits sum.splits prod.splits)

lemma patch_captions_config: "patch_captions uc cs rd st = (ans, rd', st') \<Longrightarrow> rr_config rd' = rr_config rd"
proof (induction cs arbitrary: rd st ans rd' st')
  case (Cons c cs)
  obtain a1 r1 s1 where one: "patch_caption uc c rd st = (a1, r1, s1)" by (metis prod_cases3)
  obtain a2 r2 s2 where two: "patch_captions uc cs r1 s1 = (a2, r2, s2)" by (metis prod_cases3)
  have "rd' = r1 \<or> rd' = r2" using Cons.prems one two by (auto split: sum.splits)
  then show ?case using patch_caption_config [OF one] Cons.IH [OF two] by auto
qed simp

lemma keep_caption_config: "rr_config (keep_caption c rd) = rr_config rd"
  by (simp add: keep_caption_def Let_def)

lemma register_config: "register_caption uc c rd st = (ans, rd', st') \<Longrightarrow> rr_config rd' = rr_config rd"
  by (auto simp: register_caption_def Let_def prune_config keep_caption_config simp del: patch_captions.simps
      split: sum.splits if_splits dest!: patch_captions_config)

lemma observe_config: "observe_assignment uc a epoch rd st = (ans, rd', st') \<Longrightarrow> rr_config rd' = rr_config rd"
proof -
  assume o: "observe_assignment uc a epoch rd st = (ans, rd', st')"
  have "(\<exists>s. rd' = rd\<lparr>rr_stats := s\<rparr>) \<or> rd' = rd \<or> (\<exists>cs. patch_captions uc cs (prune (admit_assignment a epoch rd)) st = (ans, rd', st'))"
    using o by (auto simp: observe_assignment_def Let_def split: sum.splits if_splits option.splits)
  then show ?thesis
  proof (elim disjE exE)
    fix cs assume "patch_captions uc cs (prune (admit_assignment a epoch rd)) st = (ans, rd', st')"
    from patch_captions_config [OF this] show ?thesis unfolding prune_config admit_fields(1) .
  qed simp_all
qed

lemma mapping_run_config: "mapping_run uc ops (rd, st) = Inr (rd', st') \<Longrightarrow> rr_config rd' = rr_config rd"
proof (induction ops arbitrary: rd st)
  case (Cons op ops)
  from Cons.prems obtain r s where one: "mapping_step uc op (rd, st) = Inr (r, s)" "mapping_run uc ops (r, s) = Inr (rd', st')"
    by (auto simp: res_bind_eq_Inr)
  have "rr_config r = rr_config rd"
  proof (cases op)
    case (MapExpire now)
    then show ?thesis using one(1) prune_config by (auto simp: expire_mapping_def split: sum.splits if_splits)
  next
    case (MapRegister c)
    obtain a r1 s1 where "register_caption uc c rd st = (a, r1, s1)" by (metis prod_cases3)
    with register_config [OF this] one(1) MapRegister show ?thesis by (auto simp: mapped_state_def split: sum.splits if_splits)
  next
    case (MapObserve x epoch)
    obtain a r1 s1 where "observe_assignment uc x epoch rd st = (a, r1, s1)" by (metis prod_cases3)
    with observe_config [OF this] one(1) MapObserve show ?thesis by (auto simp: mapped_state_def split: sum.splits if_splits)
  next
    case (MapStore sop) then show ?thesis using one(1) by simp
  qed
  then show ?case using Cons.IH [OF one(2)] by simp
qed simp

subsection \<open>Properties\<close>

text \<open>
  C25: the remembered decisions are always current: although a call rechecks only the captions its evidence meets, and
  evidence and captions expire and are evicted, after every run whose calls return, or raise before they change
  anything, the decision remembered for each retained caption is the one computed afresh from all retained evidence
  (up to the note that a manual label was preserved), every retained caption begins at or after the retention floor,
  and history, captions and decisions stay within their limits.
\<close>

theorem decisions_always_current:
  assumes "mapping_config_ok cfg" "mapping_run uc ops (new_reducer cfg, st0) = Inr (rd, st)"
  shows "length (rr_history rd) \<le> mc_max_history cfg \<and> length (rr_captions rd) \<le> mc_max_captions cfg
    \<and> length (rr_latest rd) \<le> length (rr_captions rd)
    \<and> (\<forall>i c. map_of (rr_captions rd) i = Some c \<longrightarrow> rr_floor rd \<le> cr_start c \<and> (\<exists>d. map_of (rr_latest rd) i = Some d
         \<and> (d = decide_caption rd c \<or> d = (decide_caption rd c)\<lparr>de_reason := ''manual_preserved''\<rparr>)))"
proof -
  have ok: "reducer_ok rd" by (rule mapping_run_ok [OF assms(2) new_reducer_ok [OF assms(1)]])
  have cfg: "rr_config rd = cfg" using mapping_run_config [OF assms(2)] by (simp add: new_reducer_def)
  have at: "reducer_at (rr_floor rd) rd" and dec: "all_decided rd" using ok by (simp_all add: reducer_ok_def)
  note d = reducer_atD [OF at]
  have "length (rr_latest rd) = card (set (map fst (rr_latest rd)))" using distinct_card [OF d(4)] by simp
  also have "\<dots> \<le> card (set (map fst (rr_captions rd)))" by (rule card_mono [OF _ d(9)]) simp
  also have "\<dots> \<le> length (rr_captions rd)" using card_length [of "map fst (rr_captions rd)"] by simp
  finally have len: "length (rr_latest rd) \<le> length (rr_captions rd)" .
  have each: "rr_floor rd \<le> cr_start c \<and> decided rd i c" if "map_of (rr_captions rd) i = Some c" for i c
    using d(8) [OF that] dec that by (simp add: caption_ok_def all_decided_def)
  show ?thesis using d(5,6) len each unfolding cfg decided_def by blast
qed

text \<open>
  C26: a decision counts nanoseconds: for every reducer and every caption interval the sweep over boundaries finds for
  each kind of evidence the exact number of nanoseconds of the caption at which it holds, whatever overlaps and repeats;
  known, unknown, nonspeech and unobserved time partition the caption; and the coverage is the share of the best speaker.
\<close>

theorem decision_counts_time:
  assumes "cr_start c < cr_end c" "d = decide_caption rd c" "cells = caption_cells (rr_history rd) (rr_confirmed rd) c"
    "count = nanoseconds (cr_start c) (cr_end c)"
  shows "de_overlap_ns d = count (covered cells OverlapKind) \<and> de_ambiguous_ns d = count (covered cells AmbiguousKind)
    \<and> de_conflict_ns d = count (conflict_at cells) \<and> de_unknown_ns d = count (unknown_at cells)
    \<and> de_nonspeech_ns d = count (nonspeech_at cells) \<and> de_unobserved_ns d = count (unobserved_at cells)
    \<and> de_known_ns d = count (\<lambda>t. \<exists>l. voice_at cells l t) \<and> de_duration d = cr_end c - cr_start c
    \<and> de_known_ns d + de_unknown_ns d + de_nonspeech_ns d + de_unobserved_ns d = de_duration d
    \<and> (\<forall>l. of_int (count (voice_at cells l)) \<le> de_coverage d * of_int (de_duration d))
    \<and> (de_coverage d = 0 \<or> (\<exists>l. of_int (count (voice_at cells l)) = de_coverage d * of_int (de_duration d)))"
proof -
  let ?w = "run_sweep c cells"
  have pr: "proper_cells (cr_start c) (cr_end c) cells" unfolding assms(3) by (rule caption_cells_proper [OF assms(1)])
  note w = sweptD [OF run_sweep_swept(1) [OF pr assms(1)], unfolded run_sweep_swept(2) [OF pr assms(1)], folded assms(4)]
  have d: "d = decide_cells (rr_config rd) c cells" by (simp add: assms(2,3) decide_caption_def)
  note t = decide_cells_times [of "rr_config rd" c cells, folded d]
  have pos: "(0 :: rat) < of_int (cr_end c - cr_start c)" using assms(1) by simp
  then have cov: "de_coverage d * of_int (de_duration d) = of_int (best_support (sw_support ?w))" unfolding t by simp
  have nn: "0 \<le> total_of (sw_support ?w) l" for l unfolding w(10) assms(4) by (simp add: nanoseconds_def)
  note best = best_support_max [OF w(3) nn, unfolded w(10)]
  have part: "de_known_ns d + de_unknown_ns d + de_nonspeech_ns d + de_unobserved_ns d = de_duration d"
    unfolding t w(7,8,9,11) assms(4) by (rule cells_partition) (use assms(1) in simp)
  have up: "of_int (count (voice_at cells l)) \<le> de_coverage d * of_int (de_duration d)" for l
    unfolding cov using best(1) by simp
  have att: "de_coverage d = 0 \<or> (\<exists>l. of_int (count (voice_at cells l)) = de_coverage d * of_int (de_duration d))"
  proof (cases "best_support (sw_support ?w) = 0")
    case True then show ?thesis by (simp add: t)
  next
    case False
    then obtain l where "best_support (sw_support ?w) = count (voice_at cells l)" using best(2) by blast
    then show ?thesis unfolding cov by auto
  qed
  show ?thesis using w(4-9,11) part up att by (simp add: t)
qed

text \<open>
  C27: a caption is only named on undisputed evidence: if the decision names a speaker, that speaker alone covers at least
  the configured share of the whole caption, no other confirmed speaker, overlap, ambiguity or conflict occurs at
  any instant of it, and the unknown time is within the configured share of the caption's speech.
\<close>

theorem speaker_named_dominant:
  assumes "mapping_config_ok (rr_config rd)" "cr_start c < cr_end c" "de_speaker (decide_caption rd c) = Some l"
    "cells = caption_cells (rr_history rd) (rr_confirmed rd) c" "count = nanoseconds (cr_start c) (cr_end c)"
  shows "mc_coverage (rr_config rd) * of_int (cr_end c - cr_start c) \<le> of_int (count (voice_at cells l))
    \<and> (\<forall>t \<in> {cr_start c..<cr_end c}. (\<forall>m. voice_covers cells t m \<longrightarrow> m = l) \<and> \<not> covered cells OverlapKind t
         \<and> \<not> covered cells AmbiguousKind t \<and> \<not> conflict_at cells t)
    \<and> of_int (count (unknown_at cells)) \<le> mc_unknown (rr_config rd) * of_int (cr_end c - cr_start c - count (nonspeech_at cells))"
proof -
  let ?w = "run_sweep c cells" and ?cfg = "rr_config rd"
  have pr: "proper_cells (cr_start c) (cr_end c) cells" unfolding assms(4) by (rule caption_cells_proper [OF assms(2)])
  note w = sweptD [OF run_sweep_swept(1) [OF pr assms(2)], unfolded run_sweep_swept(2) [OF pr assms(2)], folded assms(5)]
  have "de_speaker (decide_cells ?cfg c cells) = Some l" using assms(3) by (simp add: decide_caption_def assms(4))
  note n = named_conditions [OF this]
  have pos: "(0 :: rat) < of_int (cr_end c - cr_start c)" using assms(2) by simp
  have zero: "\<forall>t \<in> {cr_start c..<cr_end c}. \<not> covered cells OverlapKind t" "\<forall>t \<in> {cr_start c..<cr_end c}. \<not> covered cells AmbiguousKind t"
    "\<forall>t \<in> {cr_start c..<cr_end c}. \<not> conflict_at cells t"
  proof -
    have "count (covered cells OverlapKind) = 0" "count (covered cells AmbiguousKind) = 0" "count (conflict_at cells) = 0"
      using n(2,3,4) w(4,5,6) by simp_all
    then show "\<forall>t \<in> {cr_start c..<cr_end c}. \<not> covered cells OverlapKind t" "\<forall>t \<in> {cr_start c..<cr_end c}. \<not> covered cells AmbiguousKind t"
      "\<forall>t \<in> {cr_start c..<cr_end c}. \<not> conflict_at cells t" unfolding assms(5) nanoseconds_zero by blast+
  qed
  obtain k where hd: "hd (sw_support ?w) = (l, k)" "(l, k) \<in> set (sw_support ?w)"
    using n(7,8) by (metis hd_in_set prod.collapse)
  have "k = count (voice_at cells l)" using total_of_in [OF w(3) hd(2)] w(10) by simp
  moreover have "0 < k" using w(12) [OF hd(2)] by simp
  ultimately have vl: "0 < count (voice_at cells l)" by simp
  have vin: "m \<in> set (known_ids cells)" if "voice_covers cells t m" for t m by (rule known_ids_covered [OF that])
  have "\<exists>t. voice_covers cells t l"
  proof (rule ccontr)
    assume "\<nexists>t. voice_covers cells t l"
    then have "count (voice_at cells l) = 0" unfolding assms(5) nanoseconds_zero by (auto simp: voice_at_def)
    then show False using vl by simp
  qed
  then have lin: "l \<in> set (known_ids cells)" using vin by blast
  have only: "m = l" if "voice_covers cells t m" for t m
    using vin [OF that] lin n(1) by (cases "known_ids cells" rule: list.exhaust) auto
  have one: "total_of (sw_support ?w) m = 0" if "m \<noteq> l" for m
    unfolding w(10) assms(5) nanoseconds_zero using only that by (auto simp: voice_at_def)
  have nn: "0 \<le> total_of (sw_support ?w) m" for m unfolding w(10) assms(5) by (simp add: nanoseconds_def)
  have "best_support (sw_support ?w) = count (voice_at cells l)"
    using best_support_max [OF w(3) nn] one w(10) vl by (metis le_antisym less_le not_less)
  then have cov: "mc_coverage ?cfg * of_int (cr_end c - cr_start c) \<le> of_int (count (voice_at cells l))"
    using n(9) pos by (simp add: measured_def pos_le_divide_eq)
  have unk: "of_int (count (unknown_at cells)) \<le> mc_unknown ?cfg * of_int (cr_end c - cr_start c - count (nonspeech_at cells))"
  proof -
    have le: "count (nonspeech_at cells) \<le> cr_end c - cr_start c" unfolding assms(5) by (rule nanoseconds_le) (use assms(2) in simp)
    then have "0 < cr_end c - cr_start c - count (nonspeech_at cells)" using n(5) w(8) by simp
    then have "(0 :: rat) < of_int (cr_end c - cr_start c - count (nonspeech_at cells))" by simp
    moreover have "evaluated_unknown (measured c ?w)
        = of_int (count (unknown_at cells)) / of_int (cr_end c - cr_start c - count (nonspeech_at cells))"
      using n(5) w(7,8) by (simp add: evaluated_unknown_def evaluated_duration_def measured_def Let_def)
    ultimately show ?thesis using n(6) by (simp add: pos_divide_le_eq)
  qed
  show ?thesis using cov zero only unk by blast
qed

text \<open>
  Mapping speakers changes nothing but automatic labels: in every store a session can reach, registering a caption
  or observing an assignment leaves each caption as it is except for its speaker and a growing speaker revision, and keeps
  the speaker a user set by hand.
\<close>

theorem mapping_touches_labels_only:
  assumes "store_inv st"
  shows "register_caption uc c rd st = (ans, rd', st') \<Longrightarrow> speakers_only st st'"
    and "observe_assignment uc a epoch rd st = (ans, rd', st') \<Longrightarrow> speakers_only st st'"
proof -
  assume r: "register_caption uc c rd st = (ans, rd', st')"
  then have "st' = st \<or> (\<exists>cs r. patch_captions uc cs r st = (ans, rd', st'))"
    by (auto simp: register_caption_def Let_def simp del: patch_captions.simps split: sum.splits if_splits)
  then show "speakers_only st st'" using patch_captions_label [OF assms] speakers_only_refl unfolding label_step_def by blast
next
  assume r: "observe_assignment uc a epoch rd st = (ans, rd', st')"
  then have "st' = st \<or> (\<exists>cs r. patch_captions uc cs r st = (ans, rd', st'))"
    by (auto simp: observe_assignment_def Let_def split: sum.splits if_splits option.splits)
  then show "speakers_only st st'" using patch_captions_label [OF assms] speakers_only_refl unfolding label_step_def by blast
qed

subsection \<open>A caption with one voice\<close>

definition demo_mapping :: mapping_config where
  "demo_mapping = \<lparr>mc_coverage = 8 / 10, mc_unknown = 0, mc_history_ns = 120000000000, mc_max_history = 4096, mc_max_captions = 1024\<rparr>"

lemma demo_mapping_ok: "mapping_config_ok demo_mapping"
  by code_simp

definition demo_ref :: caption_ref where
  "demo_ref = \<lparr>cr_segment = lit ''a'', cr_track = lit ''mix'', cr_epoch = lit ''e'', cr_start = 0, cr_end = 10, cr_revision = 1\<rparr>"

definition demo_assigned :: "string \<Rightarrow> assign_status \<Rightarrow> ustring option \<Rightarrow> int \<Rightarrow> int \<Rightarrow> string \<Rightarrow> assignment" where
  "demo_assigned sample status speaker start stop reason = \<lparr>as_sample = lit sample, as_track = lit ''mix'', as_start = start,
     as_stop = stop, as_status = status, as_speaker = speaker, as_candidate = None, as_similarity = None, as_reason = lit reason,
     as_support = []\<rparr>"

definition demo_mapping_ops :: "mapping_op list" where
  "demo_mapping_ops = [MapStore (UpsertSource (sample_caption ''a'' 0 10)), MapRegister demo_ref,
     MapObserve (demo_assigned ''one'' ExistingSpeaker (Some (lit ''p'')) 0 5 ''matched_existing'') (lit ''e''),
     MapObserve (demo_assigned ''two'' ExistingSpeaker (Some (lit ''p'')) 3 9 ''matched_existing'') (lit ''e''),
     MapObserve (demo_assigned ''three'' UnknownSpeaker None 9 10 ''predicted_nonspeech'') (lit ''e''),
     MapObserve (demo_assigned ''four'' ExistingSpeaker (Some (lit ''q'')) 10 20 ''matched_existing'') (lit ''e'')]"

definition demo_mapped :: "reducer \<times> caption_store" where
  "demo_mapped = (case mapping_run ascii_db demo_mapping_ops (new_reducer demo_mapping, sample_store) of
     Inl e \<Rightarrow> (new_reducer demo_mapping, sample_store) | Inr r \<Rightarrow> r)"

lemma demo_mapping_run:
  "mapping_run ascii_db demo_mapping_ops (new_reducer demo_mapping, sample_store) = Inr (fst demo_mapped, snd demo_mapped)"
proof -
  have "isl (mapping_run ascii_db demo_mapping_ops (new_reducer demo_mapping, sample_store)) = False" by code_simp
  then show ?thesis unfolding demo_mapped_def
    by (cases "mapping_run ascii_db demo_mapping_ops (new_reducer demo_mapping, sample_store)") simp_all
qed

lemma decisions_always_current_witness:
  "length (rr_captions (fst demo_mapped)) \<le> 1024 \<and> map_of (rr_captions (fst demo_mapped)) (lit ''a'') = Some demo_ref
   \<and> map_option de_speaker (map_of (rr_latest (fst demo_mapped)) (lit ''a'')) = Some (Some (lit ''p''))
   \<and> (\<exists>d. map_of (rr_latest (fst demo_mapped)) (lit ''a'') = Some d \<and> (d = decide_caption (fst demo_mapped) demo_ref
        \<or> d = (decide_caption (fst demo_mapped) demo_ref)\<lparr>de_reason := ''manual_preserved''\<rparr>))"
proof -
  have m: "mc_max_captions demo_mapping = 1024" by (simp add: demo_mapping_def)
  have c: "map_of (rr_captions (fst demo_mapped)) (lit ''a'') = Some demo_ref" by code_simp
  have l: "map_option de_speaker (map_of (rr_latest (fst demo_mapped)) (lit ''a'')) = Some (Some (lit ''p''))" by code_simp
  note t = decisions_always_current [OF demo_mapping_ok demo_mapping_run, unfolded m]
  show ?thesis using t c l by blast
qed

lemma decision_counts_time_witness:
  "de_known_ns (decide_caption (fst demo_mapped) demo_ref)
      = nanoseconds (cr_start demo_ref) (cr_end demo_ref)
          (\<lambda>t. \<exists>l. voice_at (caption_cells (rr_history (fst demo_mapped)) (rr_confirmed (fst demo_mapped)) demo_ref) l t)
   \<and> de_known_ns (decide_caption (fst demo_mapped) demo_ref) = 9 \<and> de_nonspeech_ns (decide_caption (fst demo_mapped) demo_ref) = 1"
proof -
  have "cr_start demo_ref < cr_end demo_ref" by (simp add: demo_ref_def)
  note t = decision_counts_time [OF this refl refl refl, of "fst demo_mapped"]
  have "de_known_ns (decide_caption (fst demo_mapped) demo_ref) = 9" "de_nonspeech_ns (decide_caption (fst demo_mapped) demo_ref) = 1" by code_simp+
  then show ?thesis using t by blast
qed

lemma speaker_named_dominant_witness:
  "8 \<le> nanoseconds 0 10
     (voice_at (caption_cells (rr_history (fst demo_mapped)) (rr_confirmed (fst demo_mapped)) demo_ref) (lit ''p''))"
proof -
  have lt: "cr_start demo_ref < cr_end demo_ref" by (simp add: demo_ref_def)
  have cfg: "rr_config (fst demo_mapped) = demo_mapping" by code_simp
  have sp: "de_speaker (decide_caption (fst demo_mapped) demo_ref) = Some (lit ''p'')" by code_simp
  have ok: "mapping_config_ok (rr_config (fst demo_mapped))" unfolding cfg by (rule demo_mapping_ok)
  have "mc_coverage (rr_config (fst demo_mapped)) * of_int (cr_end demo_ref - cr_start demo_ref) = 8"
    unfolding cfg by (simp add: demo_mapping_def demo_ref_def)
  with speaker_named_dominant [OF ok lt sp refl refl] have
    "(8 :: rat) \<le> of_int (nanoseconds (cr_start demo_ref) (cr_end demo_ref)
       (voice_at (caption_cells (rr_history (fst demo_mapped)) (rr_confirmed (fst demo_mapped)) demo_ref) (lit ''p'')))" by simp
  then show ?thesis by (simp add: demo_ref_def)
qed

end
