(* ===== verification/Spec2Isabelle.thy ===== *)
theory Spec2Isabelle
  imports StreamingProps ContextProps GatewayProps LocalAgreement SpeechInv AsrScheduler IngressTimeline ClientLatency CaptionProps SemanticProps ProviderProps RunnerProps CaptionExportProps RemoteProps RouterProps SpeakerProps SpeakerMapProps
begin

text \<open>
  A model of MyVoteServer: live speech transcripts come in as partial and final hypotheses, translations of
  settled pieces go out. The repository has two programs. \<^verbatim>\<open>src/app\<close> is the text gateway (HTTP and
  WebSocket in front of a chat-completion server). \<^verbatim>\<open>src/MyVote-Speaker-Update/src/myvote_engine\<close>, the
  \<^emph>\<open>engine\<close>, is the audio side: speech windows, ASR words, captions, semantic units and translation providers.

  \<^bold>\<open>Data.\<close> A Python string is a list of code points (\<open>ustring\<close>), a dictionary an association list in insertion
  order (\<open>al_put\<close>, \<open>al_del\<close>), an int an \<open>int\<close> or, where it cannot be negative, a \<open>nat\<close>, a float an exact
  rational with infinities and NaN where the code tells them apart (\<open>pyfloat\<close>), a raised exception a value of
  \<open>py_error\<close> in \<open>'a res\<close>. An operation that can raise after it has changed its object returns the changed
  state next to the error (\<open>step\<close>); one that only raises before returns an error alone. Effects are explicit
  state passing; code with awaits is cut at each await, and a phase or a worker state says where it is suspended.
  Theory \<open>Prelude\<close> has this vocabulary, \<open>Json\<close> JSON values and their compact text, \<open>EngineBase\<close> and
  \<open>EngineText\<close> what the engine modules share.

  \<^bold>\<open>The gateway, from the transcript to the client.\<close>
  \<^item> \<open>SourceText\<close> (\<^verbatim>\<open>utils/text.py\<close>): tokens with exact offsets; the locale \<open>span_tokenizer\<close> is what the
    streaming theories use of it.
  \<^item> \<open>Stability\<close>, \<open>Revision\<close>, \<open>Completeness\<close>, \<open>Segmentation\<close>, \<open>Policy\<close>, \<open>DraftCommit\<close>
    (\<^verbatim>\<open>streaming/*.py\<close>): which prefix of the hypotheses is stable, what a revision keeps, where a unit of
    meaning ends, when to translate, when a draft translation may be committed. \<open>StreamingProps\<close> has their
    properties: tokens tile the text, interim commits need agreement, commits only append, plans keep untouched
    segments, cuts are at token boundaries.
  \<^item> \<open>ContextGlossary\<close>, \<open>Metrics\<close>, with \<open>ContextProps\<close> (\<^verbatim>\<open>context/*.py\<close>, \<^verbatim>\<open>metrics/collector.py\<close>): the
    longest suffix and the glossary entries within a byte budget (locale \<open>byte_budget\<close>); the histogram and the
    counter of every name are abstractions of the calls made under it.
  \<^item> \<open>WireModels\<close> (\<^verbatim>\<open>core/*.py\<close>), \<open>Job\<close> and \<open>Scheduler\<close> (\<^verbatim>\<open>translation/*.py\<close>): jobs, the bounded
    round-robin queue with one worker slot per session. \<open>SchedulerInv\<close> has its invariant, \<open>SchedulerProps\<close> the
    interface \<open>job_queue\<close>, isolation of sessions, no delivery of cancelled work, and that the queue drains.
  \<^item> \<open>SessionState\<close>, \<open>SessionHandlers\<close>, \<open>SessionSelect\<close>, \<open>SessionServe\<close> (\<^verbatim>\<open>session/state.py\<close>): the session
    object, one definition per handler. \<open>SessionInv\<close> shows that segments tile the utterances, \<open>SessionFlight\<close>
    that one translation is in flight, \<open>SessionKeep\<close> that committed translations stay and memory is bounded,
    \<open>SessionTotal\<close> that a checked event never fails later, \<open>SessionLive\<close> that the generation never goes back; \<open>SessionProps\<close> states the
    properties over all reachable sessions.
  \<^item> \<open>SessionManager\<close> (\<^verbatim>\<open>session/manager.py\<close>): the table of sessions and their capability tokens.
  \<^item> \<open>Prompt\<close>, \<open>OpenAIBackend\<close> (\<^verbatim>\<open>translation/prompt.py\<close>, \<^verbatim>\<open>translation/openai_backend.py\<close>): the prompt
    can be read back whatever the source says; every answer of the backend is bounded text or a translation error.
  \<^item> \<open>Gateway\<close>, \<open>GatewayProps\<close> (\<^verbatim>\<open>api/*.py\<close>, \<^verbatim>\<open>main.py\<close>): authorisation, bounded bodies, routes and frames.

  \<^bold>\<open>The engine.\<close>
  \<^item> \<open>SpeechWindows\<close>, \<open>SpeechInv\<close> (\<^verbatim>\<open>audio.py\<close>): windows are exact pieces of the sample stream and the
    splitting loop returns. \<open>LocalAgreement\<close> (\<^verbatim>\<open>asr.py\<close>): stable words only grow. \<open>AsrScheduler\<close>
    (\<^verbatim>\<open>inference_scheduler.py\<close>), \<open>IngressTimeline\<close> (\<^verbatim>\<open>ingress_timing.py\<close>), \<open>ClientLatency\<close>
    (\<^verbatim>\<open>client_latency.py\<close>).
  \<^item> \<open>CaptionStore\<close>, \<open>CaptionInv\<close>, \<open>CaptionProps\<close>, \<open>CaptionExport\<close>, \<open>CaptionExportProps\<close>
    (\<^verbatim>\<open>captions.py\<close>): captions only evolve, a group replaces its parents at once, a snapshot restores the store;
    merged cues show exactly the active captions, and an SRT file reads back as its cues.
  \<^item> \<open>RemoteCaptions\<close>, \<open>RemoteInv\<close>, \<open>RemoteProps\<close> (\<^verbatim>\<open>remote_captions.py\<close>): the client's projection of gateway
    events into the caption store, one handler per event kind. An event that raises changes nothing, and the
    recorded sources mirror the captions of the store.
  \<^item> \<open>TextRequests\<close>, \<open>ProviderStream\<close>, \<open>ProviderProps\<close>, \<open>TranslationRunner\<close>, \<open>RunnerProps\<close>
    (\<^verbatim>\<open>translation.py\<close>): requests and prompts, the stream parsers (lines do not depend on the chunks, inline
    reasoning is never shown), and the runner whose events never go back.
  \<^item> \<open>SemanticUnits\<close>, \<open>SemanticCoordinator\<close>, \<open>SemanticLedger\<close>, \<open>SemanticProps\<close>
    (\<^verbatim>\<open>semantic_translation.py\<close>): every source unit is settled exactly once and in order.
  \<^item> \<open>SemanticRouter\<close>, \<open>RouterInv\<close>, \<open>RouterProps\<close> (\<^verbatim>\<open>semantic_routing.py\<close>): speaker lanes, one coordinator
    each, behind common limits. \<open>lane_book\<close> is the contract of a lane the router relies on; with it no unit is lost
    when lanes come and go, the buffers stay bounded over all lanes and the diagnostics never decrease.
  \<^item> \<open>SpeakerTracker\<close>, \<open>SpeakerInv\<close>, \<open>SpeakerKeep\<close>, \<open>SpeakerProps\<close> (\<^verbatim>\<open>speakers.py\<close>): open-set tracking of
    speaker embeddings. The credit ledger is read as a set of nanoseconds; with it no audio is counted twice, a new
    identity needs its confirmations, and confirmed identities are never lost.
  \<^item> \<open>SpeakerCaptions\<close>, \<open>SpeakerSweep\<close>, \<open>SpeakerMapInv\<close>, \<open>SpeakerMapProps\<close> (\<^verbatim>\<open>speaker_captions.py\<close>): speaker
    assignments mapped onto captions. The sweep of a decision counts nanoseconds, a name needs undisputed dominant
    evidence, and although calls recheck few captions the remembered decisions are those of all retained evidence.

  \<^bold>\<open>Parameters and idealisations.\<close> The Unicode database (\<open>unidb\<close>: spaces, letters, case, marks) and NFKC are
  arguments; \<open>ascii_db\<close> is a concrete instance for the witnesses. Lower case and case folding are per code
  point. Hash, JSON lexer, number printing, HTTP transport, model answers and admission callbacks are arguments.
  The clock is an argument, read once per handler or step, and a float is exact, so rounding is not modelled:
  a budget or a product at its very limit (\<open>build_request\<close>, \<open>transcribe_pcm\<close>) may round to the other side.
  A method that holds a lock is one step, and so is the semantic coordinator's \<open>reset\<close>, whose wait for its
  cancelled worker is not interleaved with other calls; the session manager's sessions share one scheduler,
  which each operation reads and writes. Regular expressions are written out as recognisers. Texts that come
  through Pydantic have no lone surrogates, so encoding them does not fail.

  \<^bold>\<open>Bounds and fuel.\<close> Loops are structural or have a measure; \<open>read_value\<close> takes twice the length of the text as fuel,
  which covers its nesting (each level consumes a bracket); \<open>split_windows\<close> is a partial function and
  \<open>speech_windows_return\<close> shows that it returns.

  \<^bold>\<open>Not modelled.\<close> Adapters of native models and devices (MLX Whisper, Silero, ONNX, SepFormer, SoXR, capture),
  numerical signal processing on tensors, the gRPC servicers and clients, TLS provisioning, the desktop bridge,
  launchers and checks under \<^verbatim>\<open>scripts\<close>, FastAPI wiring, and printing of metrics and archives: they
  are input and output around the parts above. \<^verbatim>\<open>src/MyVote-Mac-Demo\<close> is an older copy of the engine. The audio
  and speaker pipelines that join the engine's parts are not modelled.
\<close>

end
